(* ===== verification/Paytp_Prelude.thy ===== *)
theory Paytp_Prelude
  imports Main "HOL-Library.Word"
begin

text \<open>
  Shared vocabulary of the development: the machine integers of the Rust sources, fallible
  results, byte strings with their big-endian readings, and the interface of a canonical
  byte codec (a locale) that every wire format of the library provides.
\<close>

unbundle bit_operations_syntax

section \<open>Machine integers\<close>

text \<open>
  The Rust integer types are words of their width. \<open>u256\<close> and \<open>u512\<close> are the
  fixed-width integers of the settlement arithmetic. Indices and lengths (\<open>usize\<close>) are
  natural numbers: every length the code forms is at most the length of a buffer plus a
  32-bit value, far below the range of a 64-bit \<open>usize\<close>.
\<close>

type_synonym u8 = "8 word"
type_synonym u16 = "16 word"
type_synonym u32 = "32 word"
type_synonym u64 = "64 word"
type_synonym u128 = "128 word"
type_synonym u256 = "256 word"
type_synonym u512 = "512 word"
type_synonym bytes = "u8 list"

named_theorems unat_ops "reading of the machine operations as operations on natural numbers"

text \<open>The saturating, checked and plain (panicking) operations of unsigned integers.\<close>

definition sat_add :: "'a::len word \<Rightarrow> 'a word \<Rightarrow> 'a word" where
  "sat_add a b = (if unat a + unat b < 2 ^ LENGTH('a) then a + b else - 1)"

definition sat_mul :: "'a::len word \<Rightarrow> 'a word \<Rightarrow> 'a word" where
  "sat_mul a b = (if unat a * unat b < 2 ^ LENGTH('a) then a * b else - 1)"

definition sat_sub :: "'a::len word \<Rightarrow> 'a word \<Rightarrow> 'a word" where
  "sat_sub a b = (if b \<le> a then a - b else 0)"

definition checked_add :: "'a::len word \<Rightarrow> 'a word \<Rightarrow> 'a word option" where
  "checked_add a b = (if unat a + unat b < 2 ^ LENGTH('a) then Some (a + b) else None)"

definition checked_mul :: "'a::len word \<Rightarrow> 'a word \<Rightarrow> 'a word option" where
  "checked_mul a b = (if unat a * unat b < 2 ^ LENGTH('a) then Some (a * b) else None)"

definition checked_sub :: "'a::len word \<Rightarrow> 'a word \<Rightarrow> 'a word option" where
  "checked_sub a b = (if b \<le> a then Some (a - b) else None)"

text \<open>A conversion to a narrower or wider unsigned type that must preserve the value.\<close>

definition try_from :: "'a::len word \<Rightarrow> 'b::len word option" where
  "try_from a = (if unat a < 2 ^ LENGTH('b) then Some (ucast a) else None)"

lemma unat_lt2p: "unat (a :: 'a::len word) < 2 ^ LENGTH('a)"
  by (rule unsigned_less)

lemma unat_of_nat_small: "x < 2 ^ LENGTH('a) \<Longrightarrow> unat (word_of_nat x :: 'a::len word) = x"
  by (simp add: unat_of_nat)

lemma unat_max_word: "unat (- 1 :: 'a::len word) = 2 ^ LENGTH('a) - 1"
  by (simp add: unsigned_minus_1_eq_mask mask_eq_exp_minus_1)

lemma unat_sat_add [unat_ops]:
  "unat (sat_add a b) = min (unat a + unat b) (2 ^ LENGTH('a) - 1)" for a b :: "'a::len word"
  by (auto simp: sat_add_def unat_word_ariths unat_max_word)

lemma unat_sat_mul [unat_ops]:
  "unat (sat_mul a b) = min (unat a * unat b) (2 ^ LENGTH('a) - 1)" for a b :: "'a::len word"
  by (auto simp: sat_mul_def unat_word_ariths unat_max_word)

lemma unat_sat_sub [unat_ops]: "unat (sat_sub a b) = unat a - unat b"
  by (auto simp: sat_sub_def unat_sub word_le_nat_alt)

lemma checked_add_Some [unat_ops]:
  "checked_add a b = Some c \<longleftrightarrow> unat a + unat b < 2 ^ LENGTH('a) \<and> unat c = unat a + unat b"
  for a b c :: "'a::len word"
  by (auto simp: checked_add_def unat_word_ariths word_unat_eq_iff)

lemma checked_add_None [unat_ops]:
  "checked_add a b = None \<longleftrightarrow> 2 ^ LENGTH('a) \<le> unat a + unat b" for a b :: "'a::len word"
  by (auto simp: checked_add_def)

lemma checked_mul_Some [unat_ops]:
  "checked_mul a b = Some c \<longleftrightarrow> unat a * unat b < 2 ^ LENGTH('a) \<and> unat c = unat a * unat b"
  for a b c :: "'a::len word"
  by (auto simp: checked_mul_def unat_word_ariths word_unat_eq_iff)

lemma checked_mul_None [unat_ops]:
  "checked_mul a b = None \<longleftrightarrow> 2 ^ LENGTH('a) \<le> unat a * unat b" for a b :: "'a::len word"
  by (auto simp: checked_mul_def)

lemma checked_sub_Some [unat_ops]:
  "checked_sub a b = Some c \<longleftrightarrow> unat b \<le> unat a \<and> unat c = unat a - unat b"
  by (auto simp: checked_sub_def unat_sub word_le_nat_alt word_unat_eq_iff)

lemma checked_sub_None [unat_ops]: "checked_sub a b = None \<longleftrightarrow> unat a < unat b"
  by (auto simp: checked_sub_def word_le_nat_alt)

lemma unat_ucast_small:
  "unat a < 2 ^ LENGTH('b) \<Longrightarrow> unat (ucast a :: 'b::len word) = unat a" for a :: "'a::len word"
  by (simp add: unsigned_ucast_eq take_bit_nat_eq_self)

lemma try_from_Some [unat_ops]:
  "(try_from a :: 'b::len word option) = Some c \<longleftrightarrow> unat a < 2 ^ LENGTH('b) \<and> unat c = unat a"
  for a :: "'a::len word"
  by (auto simp: try_from_def unat_ucast_small word_unat_eq_iff)

lemma try_from_None [unat_ops]:
  "(try_from a :: 'b::len word option) = None \<longleftrightarrow> 2 ^ LENGTH('b) \<le> unat a" for a :: "'a::len word"
  by (auto simp: try_from_def)

section \<open>Bit fields as arithmetic\<close>

lemma and_push_bit_disjoint: "r < 2 ^ k \<Longrightarrow> r AND push_bit k x = 0" for r x :: nat
proof -
  assume "r < 2 ^ k"
  then have "take_bit k r = r" by (simp add: take_bit_nat_eq_self)
  moreover have "take_bit k r AND push_bit k x = 0"
    by (rule bit_eqI) (auto simp: bit_simps)
  ultimately show ?thesis by simp
qed

lemma unat_or_push_bit:
  fixes r x :: "'a::len word"
  assumes "unat r < 2 ^ k" "unat x * 2 ^ k < 2 ^ LENGTH('a)"
  shows "unat (r OR push_bit k x) = unat r + unat x * 2 ^ k"
proof -
  have "unat (push_bit k x) = push_bit k (unat x)"
    unfolding unsigned_push_bit_eq
    using assms(2) by (simp add: push_bit_eq_mult take_bit_nat_eq_self)
  then have "unat (r OR push_bit k x) = unat r OR push_bit k (unat x)"
    by (simp only: unsigned_or_eq)
  also have "\<dots> = unat r + push_bit k (unat x)"
    by (rule disjunctive_add_eq_or [symmetric]) (rule and_push_bit_disjoint [OF assms(1)])
  finally show ?thesis by (simp add: push_bit_eq_mult)
qed

lemma unat_low_bits: "unat (x AND (2 ^ k - 1)) = unat x mod 2 ^ k" for x :: "'a::len word"
proof -
  have "x AND (2 ^ k - 1) = take_bit k x" by (simp only: take_bit_eq_mask mask_eq_exp_minus_1)
  then show ?thesis by (simp only: unsigned_take_bit_eq) (simp only: take_bit_eq_mod)
qed

lemma unat_drop_bit_div: "unat (drop_bit k x) = unat x div 2 ^ k" for x :: "'a::len word"
  unfolding unat_drop_bit_eq unfolding drop_bit_eq_div ..

lemma top_bit_clear_iff: "b AND 0x80 = 0 \<longleftrightarrow> unat b < 128" for b :: u8
proof -
  have "b AND 0x80 = 0 \<longleftrightarrow> \<not> bit b 7"
    using and_exp_eq_0_iff_not_bit [of b 7] by simp
  also have "bit b 7 \<longleftrightarrow> odd (unat b div 128)"
    by (simp add: bit_unsigned_iff flip: bit_iff_odd_drop_bit drop_bit_eq_div [of 7 "unat b", simplified])
  also have "\<not> odd (unat b div 128) \<longleftrightarrow> unat b < 128"
  proof -
    have "unat b div 128 < 2" using unat_lt2p [of b] by (intro less_mult_imp_div_less) simp
    then have "\<not> odd (unat b div 128) \<longleftrightarrow> unat b div 128 = 0" by (auto dest!: less_2_cases)
    then show ?thesis by (simp add: div_eq_0_iff)
  qed
  finally show ?thesis .
qed

section \<open>Fallible results\<close>

text \<open>
  A \<open>Result<T, E>\<close> is a sum, \<open>Inl\<close> the error. A function that can also panic (an overflow under
  \<open>overflow-checks\<close>, a failed assertion, an \<open>expect\<close>) returns a \<open>fault\<close> on the left:
  either the error value the code returns or the panic.
\<close>

datatype 'e fault = Err 'e | Panic

definition and_then :: "'e + 'a \<Rightarrow> ('a \<Rightarrow> 'e + 'b) \<Rightarrow> 'e + 'b" where
  "and_then m f = (case m of Inl e \<Rightarrow> Inl e | Inr x \<Rightarrow> f x)"

definition ensure :: "bool \<Rightarrow> 'e \<Rightarrow> 'e + unit" where
  "ensure b e = (if b then Inr () else Inl e)"

definition ok_or :: "'a option \<Rightarrow> 'e \<Rightarrow> 'e + 'a" where
  "ok_or m e = (case m of None \<Rightarrow> Inl e | Some x \<Rightarrow> Inr x)"

definition map_err :: "('e \<Rightarrow> 'f) \<Rightarrow> 'e + 'a \<Rightarrow> 'f + 'a" where
  "map_err f m = (case m of Inl e \<Rightarrow> Inl (f e) | Inr x \<Rightarrow> Inr x)"

text \<open>\<open>iter().map(f).collect::<Result<Vec<_>>>()\<close>: the first error wins.\<close>

fun collect_map :: "('a \<Rightarrow> 'e + 'b) \<Rightarrow> 'a list \<Rightarrow> 'e + 'b list" where
  "collect_map f [] = Inr []"
| "collect_map f (x # xs) =
     and_then (f x) (\<lambda>y. and_then (collect_map f xs) (\<lambda>ys. Inr (y # ys)))"

text \<open>\<open>.expect(..)\<close> on a result that is always \<open>Inr\<close>: every use comes with the lemma that the panic
  branch is not reached, where the value is left unspecified.\<close>

definition expect :: "'e + 'a \<Rightarrow> 'a" where
  "expect m = (case m of Inr x \<Rightarrow> x | Inl _ \<Rightarrow> undefined)"

lemma expect_Inr [simp]: "expect (Inr x) = x"
  by (simp add: expect_def)

lemma and_then_simps [simp]:
  "and_then (Inl e) f = Inl e" "and_then (Inr x) f = f x"
  by (simp_all add: and_then_def)

lemma and_then_Inr [simp]: "and_then m f = Inr y \<longleftrightarrow> (\<exists>x. m = Inr x \<and> f x = Inr y)"
  by (cases m) auto

lemma and_then_Inl: "and_then m f = Inl e \<longleftrightarrow> m = Inl e \<or> (\<exists>x. m = Inr x \<and> f x = Inl e)"
  by (cases m) auto

lemma and_then_assoc: "and_then (and_then m f) g = and_then m (\<lambda>x. and_then (f x) g)"
  by (cases m) auto

lemma and_then_cong [fundef_cong]:
  "m = m' \<Longrightarrow> (\<And>x. m' = Inr x \<Longrightarrow> f x = g x) \<Longrightarrow> and_then m f = and_then m' g"
  by (cases m') auto

lemma ensure_simps [simp]: "ensure True e = Inr ()" "ensure False e = Inl e"
  by (simp_all add: ensure_def)

lemma ensure_Inr [simp]: "ensure b e = Inr u \<longleftrightarrow> b"
  by (simp add: ensure_def)

lemma ensure_Inl [simp]: "ensure b e = Inl f \<longleftrightarrow> \<not> b \<and> f = e"
  by (auto simp: ensure_def)

lemma ok_or_simps [simp]: "ok_or None e = Inl e" "ok_or (Some x) e = Inr x"
  by (simp_all add: ok_or_def)

lemma ok_or_Inr [simp]: "ok_or m e = Inr x \<longleftrightarrow> m = Some x"
  by (cases m) auto

lemma ok_or_Inl [simp]: "ok_or m e = Inl f \<longleftrightarrow> m = None \<and> f = e"
  by (cases m) auto

lemma map_err_simps [simp]: "map_err f (Inl e) = Inl (f e)" "map_err f (Inr x) = Inr x"
  by (simp_all add: map_err_def)

lemma map_err_Inr [simp]: "map_err f m = Inr x \<longleftrightarrow> m = Inr x"
  by (cases m) auto

lemma collect_map_Inr: "collect_map f xs = Inr ys \<longleftrightarrow> map f xs = map Inr ys"
  by (induction xs arbitrary: ys) (auto simp: Cons_eq_map_conv)

lemma collect_map_length: "collect_map f xs = Inr ys \<Longrightarrow> length ys = length xs"
  by (induction xs arbitrary: ys) auto

section \<open>Big-endian readings of byte strings\<close>

text \<open>\<open>be_nat\<close> is \<open>BigUint::from_bytes_be\<close>; \<open>be_bytes n\<close> the \<open>n\<close> low bytes of a
  value, most significant first (\<open>to_be_bytes\<close> of a fixed-width integer).\<close>

definition be_nat :: "bytes \<Rightarrow> nat" where
  "be_nat bs = foldl (\<lambda>a b. a * 256 + unat b) 0 bs"

fun be_bytes :: "nat \<Rightarrow> nat \<Rightarrow> bytes" where
  "be_bytes 0 x = []"
| "be_bytes (Suc n) x = be_bytes n (x div 256) @ [of_nat (x mod 256)]"

text \<open>\<open>BigUint::to_bytes_be\<close>: the shortest byte string, one zero byte for zero.\<close>

fun min_bytes :: "nat \<Rightarrow> bytes" where
  "min_bytes x = (if x < 256 then [of_nat x] else min_bytes (x div 256) @ [of_nat (x mod 256)])"

declare min_bytes.simps [simp del]

lemma be_nat_Nil [simp]: "be_nat [] = 0"
  by (simp add: be_nat_def)

lemma be_nat_snoc [simp]: "be_nat (bs @ [b]) = be_nat bs * 256 + unat b"
  by (simp add: be_nat_def)

lemma unat_byte_lt [simp]: "unat (b :: u8) < 256"
  using unsigned_less [of b] by simp

lemma be_nat_append: "be_nat (xs @ ys) = be_nat xs * 256 ^ length ys + be_nat ys"
proof (induction ys rule: rev_induct)
  case (snoc y ys)
  have "be_nat (xs @ ys @ [y]) = be_nat (xs @ ys) * 256 + unat y"
    by (metis append_assoc be_nat_snoc)
  with snoc show ?case by (simp add: algebra_simps)
qed simp

lemma be_nat_Cons: "be_nat (b # bs) = unat b * 256 ^ length bs + be_nat bs"
  using be_nat_append [of "[b]" bs] be_nat_snoc [of "[]" b] by simp

lemma be_nat_less: "be_nat bs < 256 ^ length bs"
proof (induction bs rule: rev_induct)
  case (snoc b bs)
  have "be_nat (bs @ [b]) < (be_nat bs + 1) * 256"
    using unat_byte_lt [of b] by (simp add: algebra_simps)
  also have "\<dots> \<le> 256 ^ length bs * 256"
    using snoc by (intro mult_right_mono) auto
  finally show ?case by simp
qed simp

lemma length_be_bytes [simp]: "length (be_bytes n x) = n"
  by (induction n arbitrary: x) auto

lemma unat_of_nat_byte [simp]: "unat (of_nat (x mod 256) :: u8) = x mod 256"
  by (simp add: unat_of_nat)

lemma be_nat_be_bytes: "be_nat (be_bytes n x) = x mod 256 ^ n"
proof (induction n arbitrary: x)
  case (Suc n)
  have "x mod 256 ^ Suc n = 256 * (x div 256 mod 256 ^ n) + x mod 256"
    by (simp add: mod_mult2_eq)
  with Suc show ?case by simp
qed simp

lemma be_bytes_be_nat: "be_bytes (length bs) (be_nat bs) = bs"
proof (induction bs rule: rev_induct)
  case (snoc b bs)
  then show ?case by (simp add: unat_of_nat)
qed simp

lemma be_nat_be_bytes_small: "x < 256 ^ n \<Longrightarrow> be_nat (be_bytes n x) = x"
  by (simp add: be_nat_be_bytes)

lemma be_bytes_eq_iff: "x < 256 ^ n \<Longrightarrow> y < 256 ^ n \<Longrightarrow> be_bytes n x = be_bytes n y \<longleftrightarrow> x = y"
  by (metis be_nat_be_bytes_small)

lemma be_bytes_add: "be_bytes (m + n) x = be_bytes m (x div 256 ^ n) @ be_bytes n x"
  by (induction n arbitrary: x) (simp_all add: div_mult2_eq)

lemma drop_be_bytes: "drop k (be_bytes (k + n) x) = be_bytes n x"
  by (simp add: be_bytes_add)

lemma be_bytes_inj: "length xs = length ys \<Longrightarrow> be_nat xs = be_nat ys \<Longrightarrow> xs = ys"
  by (metis be_bytes_be_nat)

section \<open>Lists ascending by a key\<close>

section \<open>Lists ascending by a key\<close>

text \<open>Insertion into the ordered map.\<close>

fun map_insert :: "'k::linorder \<Rightarrow> 'v \<Rightarrow> ('k \<times> 'v) list \<Rightarrow> ('k \<times> 'v) list" where
  "map_insert k v [] = [(k, v)]"
| "map_insert k v ((k', v') # xs) =
     (if k < k' then (k, v) # (k', v') # xs
      else if k = k' then (k, v) # xs
      else (k', v') # map_insert k v xs)"

lemma strict_map_set_eq:
  fixes f :: "'a \<Rightarrow> 'b::linorder"
  assumes "sorted_wrt (<) (map f xs)" "sorted_wrt (<) (map f ys)" "set xs = set ys"
  shows "xs = ys"
  using assms
proof (induction xs arbitrary: ys)
  case (Cons x xs)
  then obtain y ys' where y: "ys = y # ys'" by (cases ys) auto
  have "x = y"
  proof (rule ccontr)
    assume "x \<noteq> y"
    then have "x \<in> set ys'" "y \<in> set xs" using Cons.prems(3) y by auto
    then have "f x < f y" "f y < f x" using Cons.prems(1,2) y by auto
    then show False by simp
  qed
  moreover have "set xs = set ys'" using Cons.prems \<open>x = y\<close> y by auto
  ultimately show ?case using Cons y by auto
qed simp

lemma strict_filter_split:
  fixes f :: "'a \<Rightarrow> 'b::linorder"
  assumes "sorted_wrt (<) (map f xs)" "c \<le> d"
  shows "filter (\<lambda>x. f x \<le> d) xs = filter (\<lambda>x. f x \<le> c) xs @ filter (\<lambda>x. f x \<le> d) (filter (\<lambda>x. c < f x) xs)"
  using assms
proof (induction xs)
  case (Cons x xs)
  show ?case
  proof (cases "f x \<le> c")
    case True
    then show ?thesis using Cons by auto
  next
    case False
    then have "filter (\<lambda>x. f x \<le> c) xs = []"
      using Cons.prems by (auto simp: filter_empty_conv not_le intro: less_trans)
    then show ?thesis using Cons False by auto
  qed
qed simp

section \<open>Canonical codecs\<close>

text \<open>
  The contract of a canonical byte format: encoding then decoding returns the object, and a
  byte string is accepted only if it is the encoding of the object it decodes to (the decoder
  validates, it never repairs). \<open>front_codec\<close> is the form for items read from the front of a
  longer buffer, which also reports the bytes it consumed.
\<close>

locale canonical_codec =
  fixes valid :: "'a \<Rightarrow> bool"
    and encode :: "'a \<Rightarrow> bytes"
    and decode :: "bytes \<Rightarrow> 'e + 'a"
  assumes decode_encode: "valid x \<Longrightarrow> decode (encode x) = Inr x"
    and encode_decode: "decode bs = Inr x \<Longrightarrow> valid x \<and> encode x = bs"
begin

lemma accepted_iff: "decode bs = Inr x \<longleftrightarrow> valid x \<and> bs = encode x"
  using decode_encode encode_decode by blast

lemma encode_inj: "valid x \<Longrightarrow> valid y \<Longrightarrow> encode x = encode y \<longleftrightarrow> x = y"
  using decode_encode by (metis sum.inject(2))

lemma unique_encoding: "decode bs = Inr x \<Longrightarrow> decode cs = Inr x \<Longrightarrow> bs = cs"
  by (simp add: accepted_iff)

lemma rejected_iff: "(\<exists>e. decode bs = Inl e) \<longleftrightarrow> bs \<notin> encode ` Collect valid"
proof -
  have "(\<exists>x. decode bs = Inr x) \<longleftrightarrow> bs \<in> encode ` Collect valid" by (auto simp: accepted_iff)
  then show ?thesis by (cases "decode bs") auto
qed

end

locale front_codec =
  fixes valid :: "'a \<Rightarrow> bool"
    and encode :: "'a \<Rightarrow> bytes"
    and decode :: "bytes \<Rightarrow> 'e + 'a \<times> nat"
  assumes decode_front: "valid x \<Longrightarrow> decode (encode x @ rest) = Inr (x, length (encode x))"
    and encode_front: "decode bs = Inr (x, n) \<Longrightarrow> valid x \<and> n \<le> length bs \<and> encode x = take n bs"
begin

lemma decode_whole: "valid x \<Longrightarrow> decode (encode x) = Inr (x, length (encode x))"
  using decode_front [of x "[]"] by simp

lemma prefix_free:
  "valid x \<Longrightarrow> valid y \<Longrightarrow> encode x @ r = encode y @ s \<Longrightarrow> x = y \<and> r = s"
  using decode_front [of x r] decode_front [of y s] by simp

lemma consumed: "decode bs = Inr (x, n) \<Longrightarrow> n = length (encode x) \<and> bs = encode x @ drop n bs"
  using encode_front [of bs x n] by (metis append_take_drop_id length_take min.absorb2)

end

locale item_codec = front_codec valid encode decode
  for valid :: "'a \<Rightarrow> bool" and encode :: "'a \<Rightarrow> bytes" and decode :: "bytes \<Rightarrow> 'e + 'a \<times> nat" +
  assumes encode_nonempty: "valid x \<Longrightarrow> encode x \<noteq> []"
begin

lemma consumed_pos: "decode bs = Inr (x, n) \<Longrightarrow> 0 < n"
  using consumed encode_front encode_nonempty by (metis gr0I length_0_conv)

end

section \<open>Decimal and hexadecimal numerals\<close>

text \<open>The digits \<^verbatim>\<open>to_string\<close> and \<^verbatim>\<open>format!\<close> write for an unsigned integer.\<close>

fun decimal :: "nat \<Rightarrow> bytes" where
  "decimal n = (if n < 10 then [word_of_nat (48 + n)] else decimal (n div 10) @ [word_of_nat (48 + n mod 10)])"

declare decimal.simps [simp del]

lemma decimal_last: "last (decimal n) = word_of_nat (48 + n mod 10)" "decimal n \<noteq> []"
  by (subst decimal.simps, simp)+

lemma decimal_not_Nil [simp]: "[] \<noteq> decimal n" "decimal n \<noteq> []"
  using decimal_last(2) [of n] by auto

lemma digit_inj: "m < 10 \<Longrightarrow> n < 10 \<Longrightarrow> (word_of_nat (48 + m) :: u8) = word_of_nat (48 + n) \<Longrightarrow> m = n"
  using unat_of_nat_small [of "48 + m", where ?'a = 8] unat_of_nat_small [of "48 + n", where ?'a = 8] by simp

lemma decimal_inj: "decimal m = decimal n \<Longrightarrow> m = n"
proof (induction m arbitrary: n rule: less_induct)
  case (less m)
  have mod: "m mod 10 = n mod 10"
    using decimal_last(1) [of m] decimal_last(1) [of n] less.prems by (auto intro: digit_inj)
  have d: "butlast (decimal k) = (if k < 10 then [] else decimal (k div 10))" for k
    by (subst decimal.simps) simp
  show ?case
  proof (cases "m < 10")
    case True
    then have "n < 10" using d [of m] d [of n] less.prems by (auto split: if_splits)
    then show ?thesis using mod True by simp
  next
    case False
    then have "\<not> n < 10" "decimal (m div 10) = decimal (n div 10)"
      using d [of m] d [of n] less.prems by (auto split: if_splits)
    then have "m div 10 = n div 10" using less.IH [of "m div 10"] False by simp
    then show ?thesis using mod by (metis div_mult_mod_eq)
  qed
qed

definition hex_digit :: "nat \<Rightarrow> u8" where
  "hex_digit n = word_of_nat (if n < 10 then 48 + n else 87 + n)"

definition hex_byte :: "u8 \<Rightarrow> bytes" where
  "hex_byte b = [hex_digit (unat b div 16), hex_digit (unat b mod 16)]"

end
