(* ===== verification/F7.thy ===== *)
theory F7
  imports Paytp_Prelude
begin

text \<open>
  The fixed-width settlement arithmetic of \<^verbatim>\<open>crates/paytp-f7/src/lib.rs\<close>, at the widths of
  the source: values are 256-bit words, the attribution product is formed in 512 bits. A panic
  (the assertion of \<open>narrow\<close>, the length assertion of \<open>accrue\<close>, a division by a zero rate) is an
  explicit outcome. The second half relates every operation to exact arithmetic on natural numbers.
\<close>

section \<open>Constants, errors and the rate\<close>

definition BP_DENOM :: u32 where "BP_DENOM = 10000"

definition MAX_ROLES :: nat where "MAX_ROLES = 64"

datatype f7_error = ArithmeticDomain | InconsistentProposal

type_synonym 'a f7 = "f7_error fault + 'a"

definition two_pow_128 :: u256 where "two_pow_128 = push_bit 128 1"

record rate =
  rate_p :: u128
  rate_q :: u128

definition rate_new :: "u128 \<Rightarrow> u128 \<Rightarrow> f7_error + rate" where
  "rate_new p q =
     (if p = 0 \<or> q = 0 then Inl InconsistentProposal
      else if 2 ^ 64 - 1 < p \<or> 2 ^ 64 - 1 < q then Inl ArithmeticDomain
      else Inr \<lparr>rate_p = p, rate_q = q\<rparr>)"

definition rate_unity :: rate where
  "rate_unity = \<lparr>rate_p = 1, rate_q = 1\<rparr>"

definition p_u256 :: "rate \<Rightarrow> u256" where "p_u256 r = ucast (rate_p r)"

definition q_u256 :: "rate \<Rightarrow> u256" where "q_u256 r = ucast (rate_q r)"

section \<open>Helpers\<close>

definition narrow :: "u512 \<Rightarrow> 'e fault + u256" where
  "narrow big = (if drop_bit 256 big = 0 then Inr (ucast big) else Inl Panic)"

definition div_panic :: "'a::len word \<Rightarrow> 'a word \<Rightarrow> 'e fault + 'a word" where
  "div_panic a b = (if b = 0 then Inl Panic else Inr (a div b))"

fun check_each :: "u256 list \<Rightarrow> f7_error fault + unit" where
  "check_each [] = Inr ()"
| "check_each (nr # ns) =
     (if two_pow_128 \<le> nr then Inl (Err ArithmeticDomain) else check_each ns)"

definition check_domain :: "u256 list \<Rightarrow> unit f7" where
  "check_domain n_r =
     (if MAX_ROLES < length n_r then Inl (Err ArithmeticDomain) else check_each n_r)"

definition sum_u256 :: "u256 list \<Rightarrow> u256" where
  "sum_u256 values = foldl sat_add 0 values"

section \<open>Accrual\<close>

definition accrue :: "u256 list \<Rightarrow> u16 list \<Rightarrow> u128 \<Rightarrow> u256 list f7" where
  "accrue accrued bp amount_micro =
     (if length accrued \<noteq> length bp then Inl Panic
      else Inr (map2 (\<lambda>a b. sat_add a (sat_mul (ucast amount_micro) (ucast b))) accrued bp))"

section \<open>Division at settlement\<close>

definition compute_p :: "u256 \<Rightarrow> rate \<Rightarrow> u256 f7" where
  "compute_p n r =
     and_then (ok_or (checked_mul n (p_u256 r)) (Err ArithmeticDomain)) (\<lambda>numer.
     and_then (div_panic numer (q_u256 r * ucast BP_DENOM)) (\<lambda>p.
     if two_pow_128 \<le> p then Inl (Err ArithmeticDomain) else Inr p))"

definition compute_e :: "u256 \<Rightarrow> rate \<Rightarrow> u256 f7" where
  "compute_e p_paid r =
     and_then (ok_or (Option.bind (checked_mul p_paid (q_u256 r))
                        (\<lambda>x. checked_mul x (ucast BP_DENOM))) (Err ArithmeticDomain)) (\<lambda>numer.
     div_panic numer (p_u256 r))"

definition carries_leg :: "u256 \<Rightarrow> bool" where "carries_leg e \<longleftrightarrow> e \<noteq> 0"

record round_division =
  rd_p :: u256
  rd_e :: u256
  rd_e_r :: "u256 list"
  rd_leg :: bool

text \<open>The body of the \<open>while !shortfall.is_zero()\<close> loop: one sweep over the roles in order, then
  the loop itself, which stops on a sweep that placed nothing.\<close>

fun sweep :: "u256 list \<Rightarrow> u256 list \<Rightarrow> u256 \<Rightarrow> bool \<Rightarrow> u256 list \<times> u256 \<times> bool" where
  "sweep (er # ers) (nr # nrs) shortfall progressed =
     (if shortfall = 0 then (er # ers, shortfall, progressed)
      else if er < nr then
        (case sweep ers nrs (shortfall - 1) True of (ers', s', b) \<Rightarrow> ((er + 1) # ers', s', b))
      else (case sweep ers nrs shortfall progressed of (ers', s', b) \<Rightarrow> (er # ers', s', b)))"
| "sweep ers nrs shortfall progressed = (ers, shortfall, progressed)"

lemma word_pred_less: "s \<noteq> 0 \<Longrightarrow> s - 1 < s" for s :: "'a::len word"
  by (simp add: word_less_nat_alt unat_minus_one unat_gt_0)

lemma sweep_shortfall_le:
  "sweep ers nrs s b = (ers', s', b') \<Longrightarrow> s' \<le> s \<and> (b' \<longrightarrow> b \<or> s' < s)"
proof (induction ers nrs s b arbitrary: ers' s' b' rule: sweep.induct)
  case (1 er ers nr nrs s b)
  consider "s = 0" | "s \<noteq> 0" "er < nr" | "s \<noteq> 0" "\<not> er < nr" by blast
  then show ?case
  proof cases
    case 1
    with "1.prems" show ?thesis by simp
  next
    case 2
    obtain t u v where t: "sweep ers nrs (s - 1) True = (t, u, v)" by (cases "sweep ers nrs (s - 1) True")
    with 2 "1.prems" have "u = s'" by simp
    moreover have "u \<le> s - 1" using "1.IH"(1) [OF 2 t] by blast
    ultimately show ?thesis using word_pred_less [OF 2(1)] by (meson le_less_trans less_imp_le)
  next
    case 3
    obtain t u v where t: "sweep ers nrs s b = (t, u, v)" by (cases "sweep ers nrs s b")
    with 3 "1.prems" have "u = s'" "v = b'" by simp_all
    then show ?thesis using "1.IH"(2) [OF 3 t] by blast
  qed
qed auto

function place_shortfall :: "u256 list \<Rightarrow> u256 list \<Rightarrow> u256 \<Rightarrow> u256 list f7" where
  "place_shortfall e_r n_r shortfall =
     (if shortfall = 0 then Inr e_r
      else case sweep e_r n_r shortfall False of (e_r', s', progressed) \<Rightarrow>
        (if \<not> progressed then Inl (Err InconsistentProposal) else place_shortfall e_r' n_r s'))"
  by pat_completeness auto
termination
  by (relation "measure (\<lambda>(e_r, n_r, s). unat s)")
     (auto dest!: sweep_shortfall_le sym [of _ "sweep _ _ _ _"] simp: word_less_nat_alt)

declare place_shortfall.simps [simp del]

definition extinguish_per_role :: "u256 \<Rightarrow> u256 list \<Rightarrow> u256 list f7" where
  "extinguish_per_role e n_r =
     and_then (check_domain n_r) (\<lambda>_.
     let n = sum_u256 n_r in
     if n = 0 then
       (if e \<noteq> 0 then Inl (Err InconsistentProposal) else Inr (map (\<lambda>_. 0) n_r))
     else if n < e then Inl (Err InconsistentProposal)
     else
       and_then (collect_map (\<lambda>nr. and_then (div_panic (ucast e * ucast nr) (ucast n)) narrow) n_r)
         (\<lambda>e_r. place_shortfall e_r n_r (sat_sub e (sum_u256 e_r))))"

definition divide_round :: "u256 list \<Rightarrow> rate \<Rightarrow> round_division f7" where
  "divide_round n_r r =
     and_then (check_domain n_r) (\<lambda>_.
     let n = sum_u256 n_r in
     and_then (compute_p n r) (\<lambda>p.
     and_then (compute_e p r) (\<lambda>e.
     if n < e then Inl (Err InconsistentProposal)
     else and_then (extinguish_per_role e n_r) (\<lambda>e_r.
       Inr \<lparr>rd_p = p, rd_e = e, rd_e_r = e_r, rd_leg = carries_leg e\<rparr>))))"

section \<open>Instance-side division\<close>

definition claimable_d :: "u256 \<Rightarrow> u32 \<Rightarrow> u32 \<Rightarrow> u256 \<Rightarrow> u256 f7" where
  "claimable_d v_received bp_d bp_total paid_d =
     (if bp_total = 0 \<or> bp_total < bp_d then Inr 0
      else and_then (div_panic ((ucast v_received :: u512) * ucast (ucast bp_d :: u256))
                               (ucast (ucast bp_total :: u256))) (\<lambda>quot.
           and_then (narrow quot) (\<lambda>entitled. Inr (sat_sub entitled paid_d))))"

section \<open>Reconciliation\<close>

definition meed_carve :: "u256 list \<Rightarrow> u256" where
  "meed_carve accruals = sum_u256 accruals div ucast BP_DENOM"

definition outstanding_meed_per_role :: "u256 list \<Rightarrow> u256 list \<Rightarrow> u256 list f7" where
  "outstanding_meed_per_role accrued settled_r =
     (if length accrued \<noteq> length settled_r then Inl (Err InconsistentProposal)
      else collect_map (\<lambda>(a, s). if a < s then Inl (Err InconsistentProposal) else Inr (a - s))
             (zip accrued settled_r))"

definition outstanding_merchant_net :: "u256 \<Rightarrow> u256 list \<Rightarrow> u256 \<Rightarrow> u256 \<Rightarrow> u256" where
  "outstanding_merchant_net cum_total accruals net_legs_sum funding_sum =
     (let carve = meed_carve accruals;
          base = sat_sub cum_total carve;
          after_legs = sat_sub base net_legs_sum
      in sat_sub after_legs funding_sum)"

definition prepay_unconsumed_deposit :: "u256 \<Rightarrow> u256 \<Rightarrow> u256 f7" where
  "prepay_unconsumed_deposit funding_sum cum_total =
     (if funding_sum < cum_total then Inl (Err InconsistentProposal)
      else Inr (funding_sum - cum_total))"

definition close_reversion_credit :: "u256 list \<Rightarrow> u256 \<Rightarrow> u256 f7" where
  "close_reversion_credit accruals extinguished_sum =
     (let total_accrued = sum_u256 accruals in
      if total_accrued < extinguished_sum then Inl (Err InconsistentProposal)
      else let accrued_carve = meed_carve accruals;
               settled_carve = extinguished_sum div ucast BP_DENOM
           in Inr (accrued_carve - settled_carve))"

end
