(* ===== verification/Core_Error.thy ===== *)
theory Core_Error
  imports F7
begin

text \<open>The rejection reasons of the codec library (\<^verbatim>\<open>crates/paytp-core/src/error.rs\<close>) and the
  conversion of the arithmetic crate's errors into them.\<close>

datatype error =
    LebOverlong | LebTruncated | LebTooLarge
  | LengthOverrun | TrailingBytes | TypeOrder | DuplicateType | WrongCriticality
  | UnknownCritical | UnknownAuthenticator | NonMinimalInt | NonMinimalSignedInt
  | WrongWidth | CountMismatch | FieldDomain | MissingField | UnexpectedType
  | Framing
  | TextNotUtf8 | TextControlChar | TextNotNfc
  | JsonDuplicateMember | JsonGrammar | JsonMalformed
  | UnknownLabel
  | BadSignature | Seal
  | InconsistentProposal | ArithmeticDomain
  | PlaceholderGovernance

definition error_from_f7 :: "f7_error \<Rightarrow> error" where
  "error_from_f7 e = (case e of f7_error.ArithmeticDomain \<Rightarrow> error.ArithmeticDomain
    | f7_error.InconsistentProposal \<Rightarrow> error.InconsistentProposal)"

definition fault_from_f7 :: "f7_error fault \<Rightarrow> error fault" where
  "fault_from_f7 f = (case f of Err e \<Rightarrow> Err (error_from_f7 e) | Panic \<Rightarrow> Panic)"

end
