(* ===== verification/Leb128.thy ===== *)
theory Leb128
  imports Core_Error
begin

text \<open>
  The variable-length integers of \<^verbatim>\<open>crates/paytp-core/src/leb128.rs\<close>: the encoder's shift loop and
  the decoder's scan over the buffer, on 64-bit words, and the proof that the pair is a canonical
  codec for the values up to \<open>2\<^sup>3\<^sup>2 - 1\<close>. The encoder's \<open>debug_assert\<close> is not part of a release build.
\<close>

definition LEB_MAX :: u64 where "LEB_MAX = 2 ^ 32 - 1"

function leb_encode :: "u64 \<Rightarrow> bytes" where
  "leb_encode n =
     (let byte = ucast (n AND 0x7f); v = drop_bit 7 n in
      if v = 0 then [byte] else (byte OR 0x80) # leb_encode v)"
  by pat_completeness auto
termination
proof (relation "measure unat", goal_cases)
  case (2 n byte v)
  then have "v \<noteq> 0" and div: "unat v = unat n div 128" by (simp_all add: unat_drop_bit_div)
  moreover from \<open>v \<noteq> 0\<close> have "unat v \<noteq> 0" by (simp only: unat_eq_0 simp_thms)
  ultimately show ?case by simp
qed simp

declare leb_encode.simps [simp del]

fun leb_scan :: "bytes \<Rightarrow> nat \<Rightarrow> u64 \<Rightarrow> nat \<Rightarrow> error + u64 \<times> nat" where
  "leb_scan [] i result shift = Inl LebTruncated"
| "leb_scan (b # bs) i result shift =
     (if 5 \<le> i then Inl LebTooLarge
      else let low = ucast (b AND 0x7f); result' = result OR push_bit shift low in
        if b AND 0x80 = 0 then
          (if 0 < i \<and> low = 0 then Inl LebOverlong
           else if LEB_MAX < result' then Inl LebTooLarge
           else Inr (result', i + 1))
        else leb_scan bs (Suc i) result' (shift + 7))"

definition leb_decode :: "bytes \<Rightarrow> error + u64 \<times> nat" where
  "leb_decode buf = leb_scan buf 0 0 0"

definition leb_decode_exact :: "bytes \<Rightarrow> error + u64" where
  "leb_decode_exact buf =
     and_then (leb_decode buf) (\<lambda>(v, n). if n \<noteq> length buf then Inl TrailingBytes else Inr v)"

section \<open>Reading the groups as base-128 digits\<close>

lemma unat_LEB_MAX: "unat LEB_MAX = 2 ^ 32 - 1"
  by (simp add: LEB_MAX_def)

lemma unat_low7: "unat (x AND 0x7f) = unat x mod 128" for x :: "'a::len word"
  using unat_low_bits [of x 7] by simp

lemma unat_ucast_u8_u64 [simp]: "unat (ucast (b :: u8) :: u64) = unat b"
  by (intro unat_ucast_small less_trans [OF unat_byte_lt]) simp

lemma unat_ucast_u64_u8: "unat n < 128 \<Longrightarrow> unat (ucast (n :: u64) :: u8) = unat n"
  by (intro unat_ucast_small) simp

lemma unat_or_top: "unat b < 128 \<Longrightarrow> unat (b OR 0x80) = unat b + 128" for b :: u8
  using unat_or_push_bit [of b 7 1] by simp

text \<open>The bytes of the encoder, one group at a time.\<close>

lemma leb_encode_last:
  "unat n < 128 \<Longrightarrow> leb_encode n = [ucast (n AND 0x7f)]"
proof -
  assume "unat n < 128"
  then have "unat (drop_bit 7 n) = 0" by (simp add: unat_drop_bit_div)
  then show ?thesis by (simp add: leb_encode.simps [of n] unat_eq_0)
qed

lemma leb_encode_more:
  "128 \<le> unat n \<Longrightarrow> leb_encode n = (ucast (n AND 0x7f) OR 0x80) # leb_encode (drop_bit 7 n)"
proof -
  assume "128 \<le> unat n"
  then have "unat (drop_bit 7 n) \<noteq> 0" by (simp add: unat_drop_bit_div)
  then show ?thesis by (simp add: leb_encode.simps [of n] unat_eq_0 Let_def)
qed

lemma leb_encode_nonempty [simp]: "leb_encode n \<noteq> []"
  by (cases "unat n < 128") (simp_all add: leb_encode_last leb_encode_more)

lemma group_byte:
  fixes n :: u64
  shows "unat (ucast (n AND 0x7f) :: u8) = unat n mod 128"
  using unat_ucast_u64_u8 [of "n AND 0x7f"] by (simp add: unat_low7)

text \<open>One step of the scan on exact numbers: the accumulated value gains the group.\<close>

lemma scan_accumulate:
  fixes b :: u8 and result :: u64
  assumes "i < 5" "unat result < 2 ^ (7 * i)"
  shows "unat (result OR push_bit (7 * i) (ucast (b AND 0x7f))) = unat result + unat b mod 128 * 2 ^ (7 * i)"
    "unat (result OR push_bit (7 * i) (ucast (b AND 0x7f))) < 2 ^ (7 * Suc i)"
proof -
  let ?low = "ucast (b AND 0x7f) :: u64"
  have low: "unat ?low = unat b mod 128" by (simp add: unat_low7)
  have i: "(2::nat) ^ (7 * i) \<le> 2 ^ 28" using assms(1) by (intro power_increasing) auto
  have "unat ?low * 2 ^ (7 * i) < 128 * 2 ^ (7 * i)"
    unfolding low by (intro mult_strict_right_mono) auto
  also have "\<dots> \<le> 128 * 2 ^ 28" using i by simp
  also have "\<dots> < (2::nat) ^ LENGTH(64)" by simp
  finally show "unat (result OR push_bit (7 * i) ?low) = unat result + unat b mod 128 * 2 ^ (7 * i)"
    using unat_or_push_bit [OF assms(2), of ?low] low by simp
  also have "\<dots> < 2 ^ (7 * i) + unat b mod 128 * 2 ^ (7 * i)" using assms(2) by simp
  also have "\<dots> = (unat b mod 128 + 1) * 2 ^ (7 * i)" by simp
  also have "\<dots> \<le> 128 * 2 ^ (7 * i)" by (intro mult_right_mono) (auto simp: Suc_le_eq)
  finally show "unat (result OR push_bit (7 * i) ?low) < 2 ^ (7 * Suc i)" by (simp add: power_add)
qed

section \<open>The codec laws\<close>

lemma scan_encode:
  assumes "i \<le> 4" "unat result < 2 ^ (7 * i)" "n \<noteq> 0 \<or> i = 0"
    "unat result + unat n * 2 ^ (7 * i) < 2 ^ 32"
  shows "\<exists>v. leb_scan (leb_encode n @ rest) i result (7 * i) = Inr (v, i + length (leb_encode n))
    \<and> unat v = unat result + unat n * 2 ^ (7 * i)"
  using assms
proof (induction n arbitrary: i result rule: leb_encode.induct)
  case (1 n)
  have i: "i < 5" using "1.prems"(1) by simp
  show ?case
  proof (cases "unat n < 128")
    case True
    let ?b = "ucast (n AND 0x7f) :: u8"
    let ?r = "result OR push_bit (7 * i) (ucast (?b AND 0x7f)) :: u64"
    have b: "unat ?b = unat n" using True by (simp add: group_byte)
    have r: "unat ?r = unat result + unat n * 2 ^ (7 * i)"
      using scan_accumulate(1) [OF i "1.prems"(2), of ?b] b True by simp
    have "unat (ucast (?b AND 0x7f) :: u64) = unat n" using b True by (simp add: unat_low7)
    then have "ucast (?b AND 0x7f) = (0 :: u64) \<longleftrightarrow> n = 0" by (metis unat_eq_0)
    moreover have "\<not> LEB_MAX < ?r" using r "1.prems"(4) by (simp add: word_less_nat_alt unat_LEB_MAX)
    moreover have "?b AND 0x80 = 0" using b True by (simp only: top_bit_clear_iff)
    ultimately show ?thesis
      using True i r "1.prems"(3) by (auto simp: leb_encode_last Let_def)
  next
    case False
    let ?m = "drop_bit 7 n" and ?b = "ucast (n AND 0x7f) OR 0x80 :: u8"
    let ?r = "result OR push_bit (7 * i) (ucast (?b AND 0x7f)) :: u64"
    have m: "unat ?m = unat n div 128" by (simp add: unat_drop_bit_div)
    have b: "unat ?b = unat n mod 128 + 128" by (simp add: unat_or_top group_byte)
    have r: "unat ?r = unat result + unat n mod 128 * 2 ^ (7 * i)" "unat ?r < 2 ^ (7 * Suc i)"
      using scan_accumulate [OF i "1.prems"(2), of ?b] b by simp_all
    have total: "unat ?r + unat ?m * 2 ^ (7 * Suc i) = unat result + unat n * 2 ^ (7 * i)"
    proof -
      have "unat n = unat n div 128 * 128 + unat n mod 128" by simp
      then have "unat n * 2 ^ (7 * i) = unat n div 128 * 128 * 2 ^ (7 * i) + unat n mod 128 * 2 ^ (7 * i)"
        by (metis add_mult_distrib)
      then show ?thesis using r(1) m by (simp add: power_add)
    qed
    have m0: "?m \<noteq> 0" using False m by (metis div_eq_0_iff unat_eq_0 zero_neq_numeral)
    have "2 ^ (7 * Suc i) \<le> unat ?m * 2 ^ (7 * Suc i)"
      using m0 unat_gt_0 [of ?m] by (simp add: Suc_le_eq)
    then have "2 ^ (7 * Suc i) < (2::nat) ^ 32" using total "1.prems"(4) by linarith
    then have "7 * Suc i < 32" by (rule power_less_imp_less_exp [rotated]) simp
    then have i': "Suc i \<le> 4" by simp
    obtain v where v: "leb_scan (leb_encode ?m @ rest) (Suc i) ?r (7 * Suc i)
        = Inr (v, Suc i + length (leb_encode ?m))" "unat v = unat ?r + unat ?m * 2 ^ (7 * Suc i)"
      using "1.IH" [OF refl refl m0 i' r(2)] m0 total "1.prems"(4) by auto
    have "?b AND 0x80 \<noteq> 0" using b by (simp only: top_bit_clear_iff)
    with v i total False show ?thesis
      by (simp add: leb_encode_more Let_def add.commute)
  qed
qed

lemma mod_128_top: "128 \<le> x \<Longrightarrow> x < 256 \<Longrightarrow> x = x mod 128 + 128" for x :: nat
  by (simp add: le_mod_geq)

lemma scan_inverse:
  "leb_scan bs i result (7 * i) = Inr (v, k) \<Longrightarrow> unat result < 2 ^ (7 * i) \<Longrightarrow>
   \<exists>n. unat v = unat result + unat n * 2 ^ (7 * i) \<and> unat v < 2 ^ 32 \<and> (n \<noteq> 0 \<or> i = 0)
     \<and> leb_encode n @ drop (k - i) bs = bs \<and> k = i + length (leb_encode n)"
proof (induction bs arbitrary: i result)
  case Nil
  then show ?case by simp
next
  case (Cons b bs)
  let ?low = "ucast (b AND 0x7f) :: u64"
  let ?r = "result OR push_bit (7 * i) ?low"
  have i: "i < 5" using Cons.prems(1) by (auto split: if_splits)
  note r = scan_accumulate [OF i Cons.prems(2), of b]
  have low: "unat ?low = unat b mod 128" by (simp add: unat_low7)
  show ?case
  proof (cases "b AND 0x80 = 0")
    case True
    then have b: "unat b < 128" by (simp only: top_bit_clear_iff)
    have ok: "0 < i \<longrightarrow> ?low \<noteq> 0" "\<not> LEB_MAX < ?r" "v = ?r" "k = Suc i"
      using Cons.prems(1) True i by (auto simp: Let_def split: if_splits)
    have "unat ?low = unat b" using low b by simp
    then have "unat ?low < 128" "unat (ucast (?low AND 0x7f) :: u8) = unat b"
      using b by (simp_all add: group_byte)
    then have "leb_encode ?low = [b]" by (simp add: leb_encode_last word_unat_eq_iff)
    then show ?thesis
      using ok r(1) low by (intro exI [of _ ?low]) (auto simp: word_less_nat_alt unat_LEB_MAX)
  next
    case False
    then have b: "128 \<le> unat b" by (simp only: top_bit_clear_iff not_less)
    have rec: "leb_scan bs (Suc i) ?r (7 * Suc i) = Inr (v, k)"
      using Cons.prems(1) False i by (simp add: Let_def add.commute)
    then obtain m where m: "unat v = unat ?r + unat m * 2 ^ (7 * Suc i)" "unat v < 2 ^ 32" "m \<noteq> 0"
        "leb_encode m @ drop (k - Suc i) bs = bs" "k = Suc i + length (leb_encode m)"
      using Cons.IH [OF rec r(2)] by auto
    have "unat m * 128 \<le> unat m * 2 ^ (7 * Suc i)" by (intro mult_left_mono) (auto simp: power_add)
    with m(1) have "unat m * 128 \<le> unat v" by linarith
    with m(2) have small: "unat m < 2 ^ 25" by simp
    have "unat b mod 128 + 128 * unat m < 128 + 128 * 2 ^ 25" using small by (intro add_less_le_mono) auto
    also have "\<dots> < 2 ^ LENGTH(64)" by simp
    finally obtain n :: u64 where n: "unat n = unat b mod 128 + 128 * unat m"
      using unat_of_nat_small by blast
    have "0 < unat m" using m(3) by (simp add: unat_gt_0)
    then have n128: "128 \<le> unat n" unfolding n by simp
    have "unat b = unat b mod 128 + 128" by (rule mod_128_top [OF b unat_byte_lt])
    then have "unat (ucast (n AND 0x7f) OR 0x80 :: u8) = unat b"
      using n by (simp add: unat_or_top group_byte)
    then have "ucast (n AND 0x7f) OR 0x80 = b" by (simp only: word_unat_eq_iff)
    moreover have "drop_bit 7 n = m" by (simp add: word_unat_eq_iff unat_drop_bit_div n)
    ultimately have enc: "leb_encode n = b # leb_encode m" by (simp add: leb_encode_more [OF n128])
    have "unat v = unat result + unat n * 2 ^ (7 * i)"
      unfolding m(1) r(1) n by (simp add: algebra_simps power_add)
    moreover have "n \<noteq> 0" using n128 by (metis not_numeral_le_zero unat_0)
    moreover have "drop (k - i) (b # bs) = drop (k - Suc i) bs" using m(5) by (simp add: Suc_diff_le)
    ultimately show ?thesis using enc m by (intro exI [of _ n]) simp
  qed
qed

text \<open>The decoder reads exactly the canonical encodings of the values up to \<open>LEB_MAX\<close>.\<close>

lemma leb_front:
  "n \<le> LEB_MAX \<Longrightarrow> leb_decode (leb_encode n @ rest) = Inr (n, length (leb_encode n))"
proof -
  assume "n \<le> LEB_MAX"
  then have n: "unat n < 2 ^ 32" by (simp add: word_le_nat_alt unat_LEB_MAX)
  then show ?thesis using scan_encode [of 0 0 n rest] by (auto simp: leb_decode_def word_unat_eq_iff)
qed

lemma leb_canonical:
  "leb_decode bs = Inr (n, k) \<Longrightarrow> n \<le> LEB_MAX \<and> k \<le> length bs \<and> leb_encode n = take k bs"
proof -
  assume "leb_decode bs = Inr (n, k)"
  then obtain m where m: "unat n = unat m" "unat n < 2 ^ 32" "leb_encode m @ drop k bs = bs"
      "k = length (leb_encode m)"
    using scan_inverse [of bs 0 0 n k] by (auto simp: leb_decode_def)
  then have "m = n" by (simp add: word_unat_eq_iff)
  moreover have "k \<le> length bs" using m(3,4) by (metis length_append le_add1)
  moreover have "take k bs = leb_encode m" using m(3,4) by (metis append_eq_conv_conj)
  ultimately show ?thesis using m(2) by (simp add: word_le_nat_alt unat_LEB_MAX)
qed

interpretation leb: item_codec "\<lambda>n. n \<le> LEB_MAX" leb_encode leb_decode
  by unfold_locales (simp_all add: leb_front leb_canonical)

text \<open>A length prefix written from a list length that fits the domain.\<close>

lemma leb_length_small:
  "length xs < 2 ^ 32 \<Longrightarrow> (of_nat (length xs) :: u64) \<le> LEB_MAX \<and> unat (of_nat (length xs) :: u64) = length xs"
  by (simp add: word_le_nat_alt unat_LEB_MAX unat_of_nat)

lemma leb_exact_iff: "leb_decode_exact bs = Inr n \<longleftrightarrow> n \<le> LEB_MAX \<and> bs = leb_encode n"
proof
  assume "leb_decode_exact bs = Inr n"
  then have "leb_decode bs = Inr (n, length bs)" by (auto simp: leb_decode_exact_def split: if_splits)
  then show "n \<le> LEB_MAX \<and> bs = leb_encode n" using leb.encode_front by force
next
  assume "n \<le> LEB_MAX \<and> bs = leb_encode n"
  then show "leb_decode_exact bs = Inr n" by (simp add: leb_decode_exact_def leb.decode_whole)
qed

interpretation leb_exact: canonical_codec "\<lambda>n. n \<le> LEB_MAX" leb_encode leb_decode_exact
  by unfold_locales (simp_all add: leb_exact_iff)

section \<open>Length-prefixed strings\<close>

text \<open>A byte string behind its LEB128 length, the form of text and references inside list items.\<close>

lemma leb_string_front:
  assumes "length v < 2 ^ 32"
  shows "leb_decode (leb_encode (of_nat (length v)) @ v @ rest)
      = Inr (of_nat (length v), length (leb_encode (of_nat (length v))))"
    "unat (of_nat (length v) :: u64) = length v"
  using leb_length_small [OF assms] by (auto intro: leb.decode_front)

lemma leb_string_back:
  assumes "leb_decode bs = Inr (len, n)" "n + unat len \<le> length bs"
  shows "bs = leb_encode (of_nat (length (take (unat len) (drop n bs)))) @ take (unat len) (drop n bs)
      @ drop (n + unat len) bs"
    "length (take (unat len) (drop n bs)) < 2 ^ 32"
    "n = length (leb_encode (of_nat (length (take (unat len) (drop n bs)))))"
proof -
  have enc: "bs = leb_encode len @ drop n bs" "n = length (leb_encode len)" "len \<le> LEB_MAX"
    using leb.consumed [OF assms(1)] leb.encode_front [OF assms(1)] by auto
  have len: "length (take (unat len) (drop n bs)) = unat len" using assms(2) by simp
  then have l: "of_nat (length (take (unat len) (drop n bs))) = len" by simp
  show "length (take (unat len) (drop n bs)) < 2 ^ 32"
    using len enc(3) by (simp add: word_le_nat_alt unat_LEB_MAX)
  show "n = length (leb_encode (of_nat (length (take (unat len) (drop n bs)))))" using enc(2) l by metis
  have "drop n bs = take (unat len) (drop n bs) @ drop (unat len) (drop n bs)"
    by (simp only: append_take_drop_id)
  also have "drop (unat len) (drop n bs) = drop (n + unat len) bs" by (simp add: add.commute)
  finally show "bs = leb_encode (of_nat (length (take (unat len) (drop n bs)))) @ take (unat len) (drop n bs)
      @ drop (n + unat len) bs"
    using enc(1) l by metis
qed

end
