(* ===== verification/Tlv.thy ===== *)
theory Tlv
  imports Leb128
begin

text \<open>
  TLV objects of \<^verbatim>\<open>crates/paytp-core/src/tlv.rs\<close>: fields, the parser's loop over the buffer with its
  order and duplicate checks, the encoder, the covered bytes of a signature, and the openness
  schema. The parser and the encoder form a canonical codec for the objects whose fields ascend
  strictly by type number.
\<close>

section \<open>Fields and objects\<close>

record field =
  type_num :: u8
  critical :: bool
  fvalue :: bytes

definition field_new :: "u8 \<Rightarrow> bool \<Rightarrow> bytes \<Rightarrow> field" where
  "field_new t c v = \<lparr>type_num = t, critical = c, fvalue = v\<rparr>"

definition type_byte :: "field \<Rightarrow> u8" where
  "type_byte f = (type_num f OR (if critical f then 0x80 else 0x00))"

definition field_encode :: "field \<Rightarrow> bytes" where
  "field_encode f = type_byte f # leb_encode (of_nat (length (fvalue f))) @ fvalue f"

definition is_authenticator :: "field \<Rightarrow> u8 list \<Rightarrow> bool" where
  "is_authenticator f extra \<longleftrightarrow>
     (0x70 \<le> type_num f \<and> type_num f \<le> 0x7f) \<or> type_num f \<in> set extra"

datatype object = Object (obj_fields: "field list")

definition from_fields :: "field list \<Rightarrow> error + object" where
  "from_fields fs =
     (let sorted_fs = sort_key type_num fs in
      if successively (\<lambda>a b. type_num a \<noteq> type_num b) sorted_fs then Inr (Object sorted_fs)
      else Inl DuplicateType)"

definition check_order :: "field list \<Rightarrow> u8 \<Rightarrow> error + unit" where
  "check_order fs t =
     (if fs = [] then Inr ()
      else let prev = last fs in
        if t = type_num prev then Inl DuplicateType
        else if t < type_num prev then Inl TypeOrder
        else Inr ())"

function parse_loop :: "bytes \<Rightarrow> field list \<Rightarrow> error + field list" where
  "parse_loop buf fs =
     (case buf of [] \<Rightarrow> Inr fs
      | tb # tail \<Rightarrow>
          and_then (leb_decode tail) (\<lambda>(len, len_used).
          let value_start = 1 + len_used; value_end = value_start + unat len in
          if length buf < value_end then Inl LengthOverrun
          else
            and_then (check_order fs (tb AND 0x7f)) (\<lambda>_.
            parse_loop (drop value_end buf)
              (fs @ [\<lparr>type_num = tb AND 0x7f, critical = (tb AND 0x80 \<noteq> 0),
                       fvalue = take (unat len) (drop value_start buf)\<rparr>]))))"
  by pat_completeness auto
termination by (relation "measure (\<lambda>(buf, fs). length buf)") auto

declare parse_loop.simps [simp del]

definition object_parse :: "bytes \<Rightarrow> error + object" where
  "object_parse buf = and_then (parse_loop buf []) (\<lambda>fs. Inr (Object fs))"

definition object_encode :: "object \<Rightarrow> bytes" where
  "object_encode obj = concat (map field_encode (obj_fields obj))"

definition covered_bytes :: "object \<Rightarrow> u8 list \<Rightarrow> bytes" where
  "covered_bytes obj extra =
     concat (map field_encode (filter (\<lambda>f. \<not> is_authenticator f extra) (obj_fields obj)))"

definition object_get :: "object \<Rightarrow> u8 \<Rightarrow> field option" where
  "object_get obj t = List.find (\<lambda>f. type_num f = t) (obj_fields obj)"

section \<open>Schemas\<close>

datatype openness = Open | Closed

record field_spec =
  spec_critical :: bool

record schema =
  sc_openness :: openness
  known :: "u8 \<rightharpoonup> field_spec"

definition schema_new :: "openness \<Rightarrow> (u8 \<times> bool) list \<Rightarrow> schema" where
  "schema_new op fs =
     \<lparr>sc_openness = op, known = map_of (rev (map (\<lambda>(t, c). (t, \<lparr>spec_critical = c\<rparr>)) fs))\<rparr>"

definition validate_field :: "schema \<Rightarrow> field \<Rightarrow> error + unit" where
  "validate_field sc f =
     (case known sc (type_num f) of
        Some spec \<Rightarrow> if spec_critical spec \<noteq> critical f then Inl WrongCriticality else Inr ()
      | None \<Rightarrow>
          if 0x70 \<le> type_num f \<and> type_num f \<le> 0x7f then Inl UnknownAuthenticator
          else if critical f then Inl UnknownCritical
          else if sc_openness sc = Closed then Inl UnexpectedType
          else Inr ())"

fun validate_fields :: "schema \<Rightarrow> field list \<Rightarrow> error + unit" where
  "validate_fields sc [] = Inr ()"
| "validate_fields sc (f # fs) = and_then (validate_field sc f) (\<lambda>_. validate_fields sc fs)"

definition object_validate :: "object \<Rightarrow> schema \<Rightarrow> error + unit" where
  "object_validate obj sc = validate_fields sc (obj_fields obj)"

section \<open>Canonical objects\<close>

definition field_ok :: "field \<Rightarrow> bool" where
  "field_ok f \<longleftrightarrow> unat (type_num f) < 128 \<and> length (fvalue f) < 2 ^ 32"

definition object_ok :: "object \<Rightarrow> bool" where
  "object_ok obj \<longleftrightarrow>
     list_all field_ok (obj_fields obj) \<and> successively (\<lambda>a b. type_num a < type_num b) (obj_fields obj)"

lemma unat_type_num_AND [simp]: "unat (tb AND 0x7f) < 128" for tb :: u8
  by (simp add: unat_low7)

lemma type_byte_parts:
  assumes "unat (type_num f) < 128"
  shows "type_byte f AND 0x7f = type_num f" "type_byte f AND 0x80 \<noteq> 0 \<longleftrightarrow> critical f"
proof -
  have b: "unat (type_byte f) = unat (type_num f) + (if critical f then 128 else 0)"
    using unat_or_top [OF assms] by (simp add: type_byte_def)
  show "type_byte f AND 0x7f = type_num f"
    using assms by (simp add: word_unat_eq_iff unat_low7 b)
  show "type_byte f AND 0x80 \<noteq> 0 \<longleftrightarrow> critical f"
    using assms by (simp add: top_bit_clear_iff b)
qed

lemma type_byte_rebuild:
  "type_byte \<lparr>type_num = tb AND 0x7f, critical = (tb AND 0x80 \<noteq> 0), fvalue = v\<rparr> = tb"
proof (cases "tb AND 0x80 = 0")
  case True
  then have "unat tb < 128" by (simp only: top_bit_clear_iff)
  with True show ?thesis by (simp add: type_byte_def word_unat_eq_iff unat_low7)
next
  case False
  then have "128 \<le> unat tb" by (simp only: top_bit_clear_iff not_less)
  then have "unat tb = unat tb mod 128 + 128" by (rule mod_128_top) simp
  then have "unat ((tb AND 0x7f) OR 0x80) = unat tb" by (simp add: unat_or_top unat_low7)
  with False show ?thesis by (simp add: type_byte_def word_unat_eq_iff)
qed

lemma parse_loop_Nil [simp]: "parse_loop [] fs = Inr fs"
  by (simp add: parse_loop.simps)

text \<open>One field read back: the step of the loop on an encoded field.\<close>

lemma parse_step:
  assumes "field_ok f" "check_order fs (type_num f) = Inr ()"
  shows "parse_loop (field_encode f @ rest) fs = parse_loop rest (fs @ [f])"
proof -
  have f: "unat (type_num f) < 128" "length (fvalue f) < 2 ^ 32" using assms(1) by (simp_all add: field_ok_def)
  let ?len = "of_nat (length (fvalue f)) :: u64"
  have len: "?len \<le> LEB_MAX" "unat ?len = length (fvalue f)" using leb_length_small [OF f(2)] by auto
  have "leb_decode (leb_encode ?len @ fvalue f @ rest) = Inr (?len, length (leb_encode ?len))"
    by (rule leb.decode_front [OF len(1)])
  moreover have "\<lparr>type_num = type_byte f AND 0x7f, critical = (type_byte f AND 0x80 \<noteq> 0), fvalue = fvalue f\<rparr> = f"
    using type_byte_parts [OF f(1)] by simp
  ultimately show ?thesis
    using type_byte_parts(1) [OF f(1)] assms(2) len
    by (subst parse_loop.simps) (simp add: field_encode_def)
qed

lemma check_order_snoc:
  "check_order (fs @ [g]) t = Inr () \<longleftrightarrow> type_num g < t"
  by (auto simp: check_order_def Let_def)

lemma parse_encode_fields:
  "list_all field_ok gs \<Longrightarrow> successively (\<lambda>a b. type_num a < type_num b) gs \<Longrightarrow>
   (gs \<noteq> [] \<Longrightarrow> check_order fs (type_num (hd gs)) = Inr ()) \<Longrightarrow>
   parse_loop (concat (map field_encode gs)) fs = Inr (fs @ gs)"
proof (induction gs arbitrary: fs)
  case (Cons g gs)
  have "gs \<noteq> [] \<Longrightarrow> check_order (fs @ [g]) (type_num (hd gs)) = Inr ()"
    using Cons.prems(2) by (cases gs) (simp_all add: check_order_snoc)
  moreover have "successively (\<lambda>a b. type_num a < type_num b) gs"
    using Cons.prems(2) by (cases gs) auto
  ultimately show ?case
    using Cons.prems Cons.IH [of "fs @ [g]"] by (simp add: parse_step)
qed simp

lemma parse_loop_sound:
  "parse_loop buf fs = Inr r \<Longrightarrow>
   \<exists>gs. r = fs @ gs \<and> buf = concat (map field_encode gs) \<and> list_all field_ok gs
     \<and> successively (\<lambda>a b. type_num a < type_num b) gs
     \<and> (gs \<noteq> [] \<longrightarrow> check_order fs (type_num (hd gs)) = Inr ())"
proof (induction buf fs rule: parse_loop.induct)
  case (1 buf fs)
  show ?case
  proof (cases buf)
    case Nil
    with "1.prems" show ?thesis by simp
  next
    case (Cons tb tail)
    let ?f = "\<lambda>len used. \<lparr>type_num = tb AND 0x7f, critical = (tb AND 0x80 \<noteq> 0),
        fvalue = take (unat len) (drop (1 + used) buf)\<rparr>"
    obtain len used where leb: "leb_decode tail = Inr (len :: u64, used)"
      and fits: "\<not> length buf < 1 + used + unat len"
      and ord: "check_order fs (tb AND 0x7f) = Inr ()"
      and rec: "parse_loop (drop (1 + used + unat len) buf) (fs @ [?f len used]) = Inr r"
      using "1.prems" Cons by (subst (asm) parse_loop.simps) (auto simp: Let_def split: if_splits)
    from leb have enc: "tail = leb_encode len @ drop used tail" "len \<le> LEB_MAX"
      using leb.consumed leb.encode_front by blast+
    have len: "unat len < 2 ^ 32" using enc(2) by (simp add: word_le_nat_alt unat_LEB_MAX)
    obtain gs where gs: "r = (fs @ [?f len used]) @ gs"
        "drop (1 + used + unat len) buf = concat (map field_encode gs)" "list_all field_ok gs"
        "successively (\<lambda>a b. type_num a < type_num b) gs"
        "gs \<noteq> [] \<longrightarrow> type_num (?f len used) < type_num (hd gs)"
      using "1.IH" [OF Cons leb refl refl refl fits ord rec] by (auto simp: check_order_snoc)
    have vlen: "length (fvalue (?f len used)) = unat len" using fits by simp
    have "field_encode (?f len used) = tb # leb_encode len @ take (unat len) (drop used tail)"
      using Cons vlen by (simp add: field_encode_def type_byte_rebuild)
    moreover have "tail = leb_encode len @ take (unat len) (drop used tail) @ drop (unat len) (drop used tail)"
      using enc(1) by (simp only: append_take_drop_id)
    ultimately have "buf = field_encode (?f len used) @ drop (1 + used + unat len) buf"
      using Cons by (simp add: add.commute [of used])
    moreover have "field_ok (?f len used)" using len vlen by (simp add: field_ok_def)
    moreover have "successively (\<lambda>a b. type_num a < type_num b) (?f len used # gs)"
      using gs(4,5) by (cases gs) auto
    ultimately show ?thesis
      using gs ord by (intro exI [of _ "?f len used # gs"]) auto
  qed
qed

interpretation object: canonical_codec object_ok object_encode object_parse
proof unfold_locales
  fix x assume "object_ok x"
  then show "object_parse (object_encode x) = Inr x"
    using parse_encode_fields [of "obj_fields x" "[]"]
    by (simp add: object_ok_def object_parse_def object_encode_def check_order_def)
next
  fix bs x assume "object_parse bs = Inr x"
  then show "object_ok x \<and> object_encode x = bs"
    using parse_loop_sound [of bs "[]"] by (auto simp: object_parse_def object_ok_def object_encode_def)
qed

section \<open>Building, looking up and validating\<close>

lemma ascending_iff:
  "successively (\<lambda>a b. type_num a < type_num b) fs \<longleftrightarrow> sorted_wrt (<) (map type_num fs)"
  by (subst successively_conv_sorted_wrt) (auto simp: sorted_wrt_map transp_def)

lemma object_ok_iff: "object_ok obj \<longleftrightarrow>
    list_all field_ok (obj_fields obj) \<and> sorted_wrt (<) (map type_num (obj_fields obj))"
  by (simp add: object_ok_def ascending_iff)

lemma sorted_neighbours:
  "sorted (map f xs) \<Longrightarrow> successively (\<lambda>a b. f a \<noteq> f b) xs \<longleftrightarrow> distinct (map f xs)"
  for f :: "'a \<Rightarrow> 'b::linorder"
proof (induction xs rule: induct_list012)
  case (3 x y zs)
  then have le: "f x \<le> f y" "\<forall>z \<in> set zs. f y \<le> f z" and IH: "successively (\<lambda>a b. f a \<noteq> f b) (y # zs) \<longleftrightarrow> distinct (map f (y # zs))"
    by auto
  have "f x \<noteq> f y \<Longrightarrow> f x \<notin> f ` set zs" using le by force
  with IH show ?case by auto
qed auto

lemma from_fields_eq:
  "from_fields fs =
     (if distinct (map type_num fs) then Inr (Object (sort_key type_num fs)) else Inl DuplicateType)"
proof -
  have "distinct (map type_num (sort_key type_num fs)) \<longleftrightarrow> distinct (map type_num fs)"
    by (simp add: distinct_map)
  then show ?thesis
    using sorted_neighbours [of type_num "sort_key type_num fs"] by (simp add: from_fields_def Let_def)
qed

lemma from_fields_ok:
  assumes "distinct (map type_num fs)" "list_all field_ok fs"
  shows "from_fields fs = Inr (Object (sort_key type_num fs))" "object_ok (Object (sort_key type_num fs))"
proof -
  show "from_fields fs = Inr (Object (sort_key type_num fs))" by (simp add: from_fields_eq assms(1))
  have "distinct (map type_num (sort_key type_num fs))"
    using assms(1) by (simp add: distinct_map)
  then show "object_ok (Object (sort_key type_num fs))"
    using assms(2) by (simp add: object_ok_iff strict_sorted_iff list_all_iff)
qed

lemma from_fields_ascending:
  "sorted_wrt (<) (map type_num fs) \<Longrightarrow> from_fields fs = Inr (Object fs)"
  by (simp add: from_fields_eq strict_sorted_iff sort_key_id_if_sorted)

lemma from_fields_object_ok:
  "from_fields fs = Inr obj \<Longrightarrow> list_all field_ok fs \<Longrightarrow> object_ok obj"
  using from_fields_ok(2) by (auto simp: from_fields_eq split: if_splits)

lemma find_key_Some:
  "sorted_wrt (<) (map type_num fs) \<Longrightarrow>
   List.find (\<lambda>f. type_num f = t) fs = Some f \<longleftrightarrow> f \<in> set fs \<and> type_num f = t"
proof (induction fs)
  case (Cons g gs)
  then show ?case by (auto simp: less_le)
qed simp

lemma object_get_Some:
  "object_ok obj \<Longrightarrow> object_get obj t = Some f \<longleftrightarrow> f \<in> set (obj_fields obj) \<and> type_num f = t"
  by (simp add: object_get_def object_ok_iff find_key_Some)

lemma validate_fields_Inr:
  "validate_fields sc fs = Inr () \<longleftrightarrow> (\<forall>f \<in> set fs. validate_field sc f = Inr ())"
  by (induction fs) auto

lemma object_validate_Inr:
  "object_validate obj sc = Inr () \<longleftrightarrow> (\<forall>f \<in> set (obj_fields obj). validate_field sc f = Inr ())"
  by (simp add: object_validate_def validate_fields_Inr)

text \<open>A closed object admits only its declared types, with their declared criticality.\<close>

lemma validate_closed:
  "sc_openness sc = Closed \<Longrightarrow>
   validate_field sc f = Inr () \<longleftrightarrow> known sc (type_num f) = Some \<lparr>spec_critical = critical f\<rparr>"
  by (cases "known sc (type_num f)")
     (auto simp: validate_field_def intro: field_spec.equality)

text \<open>An object whose types all lie in an ascending list \<open>ts\<close> is what its lookups along \<open>ts\<close> return.\<close>

lemma map_filter_ascending:
  assumes "sorted_wrt (<) ts" "\<And>t f. g t = Some f \<Longrightarrow> type_num f = t"
  shows "sorted_wrt (<) (map type_num (List.map_filter g ts))"
  using assms(1)
proof (induction ts)
  case (Cons t ts)
  have "type_num f \<in> set ts" if "f \<in> set (List.map_filter g ts)" for f
    using that assms(2) by (auto simp: map_filter_def)
  then show ?case using Cons assms(2) by (auto simp: map_filter_simps split: option.splits)
qed (simp add: map_filter_simps)

lemma object_from_gets:
  assumes "object_ok obj" "sorted_wrt (<) ts" "type_num ` set (obj_fields obj) \<subseteq> set ts"
  shows "obj_fields obj = List.map_filter (object_get obj) ts"
proof (rule strict_map_set_eq [where f = type_num])
  show "sorted_wrt (<) (map type_num (obj_fields obj))" using assms(1) by (simp add: object_ok_iff)
  show "sorted_wrt (<) (map type_num (List.map_filter (object_get obj) ts))"
    using assms(1) by (intro map_filter_ascending [OF assms(2)]) (auto simp: object_get_Some)
  have "f \<in> set (obj_fields obj) \<longleftrightarrow> (\<exists>t \<in> set ts. object_get obj t = Some f)" for f
    using assms(1,3) by (auto simp: object_get_Some)
  then show "set (obj_fields obj) = set (List.map_filter (object_get obj) ts)"
    by (auto simp: map_filter_def image_iff) (metis option.sel)+
qed

lemma object_get_map_filter:
  assumes "obj = Object fs" "sorted_wrt (<) (map type_num fs)"
  shows "object_get obj t = Some f \<longleftrightarrow> f \<in> set fs \<and> type_num f = t"
  using find_key_Some [OF assms(2)] assms(1) by (simp add: object_get_def)

section \<open>Closed objects without critical fields\<close>

text \<open>Every object type of the protocol is declared by the list of its types, none critical. An
  accepted object is then determined by the values found under those types.\<close>

lemma field_new_simps [simp]:
  "type_num (field_new t c v) = t" "critical (field_new t c v) = c" "fvalue (field_new t c v) = v"
  by (simp_all add: field_new_def)

lemma field_new_eq: "f = field_new t c v \<longleftrightarrow> type_num f = t \<and> critical f = c \<and> fvalue f = v"
  by (cases f) (auto simp: field_new_def)

lemma field_new_inject [simp]:
  "field_new t c v = field_new t' c' v' \<longleftrightarrow> t = t' \<and> c = c' \<and> v = v'"
  by (simp add: field_new_def)

definition closed_schema :: "u8 list \<Rightarrow> schema" where
  "closed_schema ts = schema_new Closed (map (\<lambda>t. (t, False)) ts)"

lemma closed_schema_known: "known (closed_schema ts) t = Some \<lparr>spec_critical = c\<rparr> \<longleftrightarrow> t \<in> set ts \<and> \<not> c"
proof -
  have "map_of (map (\<lambda>t. (t, c)) xs) t = (if t \<in> set xs then Some c else None)" for xs and c :: field_spec
    by (induction xs) auto
  then have "known (closed_schema ts) t = (if t \<in> set ts then Some \<lparr>spec_critical = False\<rparr> else None)"
    by (simp add: closed_schema_def schema_new_def rev_map comp_def)
  then show ?thesis by auto
qed

lemma validate_closed_schema:
  "object_validate obj (closed_schema ts) = Inr () \<longleftrightarrow>
   (\<forall>f \<in> set (obj_fields obj). type_num f \<in> set ts \<and> \<not> critical f)"
proof -
  have "sc_openness (closed_schema ts) = Closed" by (simp add: closed_schema_def schema_new_def)
  then show ?thesis by (simp add: object_validate_Inr validate_closed closed_schema_known)
qed

lemma closed_object_fields:
  assumes "object_ok obj" "object_validate obj (closed_schema ts) = Inr ()" "sorted_wrt (<) ts"
  shows "obj_fields obj =
    List.map_filter (\<lambda>t. map_option (\<lambda>f. field_new t False (fvalue f)) (object_get obj t)) ts"
proof -
  have v: "\<forall>f \<in> set (obj_fields obj). type_num f \<in> set ts \<and> \<not> critical f"
    using assms(2) by (simp only: validate_closed_schema)
  have "obj_fields obj = List.map_filter (object_get obj) ts"
    by (rule object_from_gets [OF assms(1,3)]) (use v in auto)
  also have "object_get obj t = map_option (\<lambda>f. field_new t False (fvalue f)) (object_get obj t)" for t
    using v object_get_Some [OF assms(1), of t] by (cases "object_get obj t") (auto simp: field_new_eq)
  then have "object_get obj = (\<lambda>t. map_option (\<lambda>f. field_new t False (fvalue f)) (object_get obj t))" by blast
  finally show ?thesis .
qed

definition get_value :: "object \<Rightarrow> u8 \<Rightarrow> error + bytes" where
  "get_value obj t = and_then (ok_or (object_get obj t) MissingField) (\<lambda>f. Inr (fvalue f))"

definition fixed_bytes :: "nat \<Rightarrow> bytes \<Rightarrow> error + bytes" where
  "fixed_bytes n v = (if length v = n then Inr v else Inl WrongWidth)"

definition get_optional :: "object \<Rightarrow> u8 \<Rightarrow> nat \<Rightarrow> error + bytes option" where
  "get_optional obj t n =
     (case object_get obj t of
        None \<Rightarrow> Inr None
      | Some f \<Rightarrow> and_then (fixed_bytes n (fvalue f)) (\<lambda>v. Inr (Some v)))"

lemma get_value_Inr [simp]: "get_value obj t = Inr v \<longleftrightarrow> (\<exists>f. object_get obj t = Some f \<and> fvalue f = v)"
  by (simp add: get_value_def)

lemma fixed_bytes_Inr [simp]: "fixed_bytes n v = Inr w \<longleftrightarrow> length v = n \<and> w = v"
  by (auto simp: fixed_bytes_def)

lemma get_optional_Inr:
  "get_optional obj t n = Inr r \<longleftrightarrow>
   (case r of None \<Rightarrow> object_get obj t = None
    | Some v \<Rightarrow> length v = n \<and> (\<exists>f. object_get obj t = Some f \<and> fvalue f = v))"
  by (auto simp: get_optional_def split: option.splits)

end
