(* ===== verification/Envelope.thy ===== *)
theory Envelope
  imports Tlv
begin

text \<open>
  The signing envelope of \<^verbatim>\<open>crates/paytp-core/src/envelope.rs\<close>: the registry of domain labels and
  the covered bytes of a signature. The label is terminated by a zero byte, so no signed byte string
  of one object type is one of another.
\<close>

section \<open>Labels\<close>

datatype domain_label = Slice | ChanAuth | ChanAck | Ckpt | CkptReq | Funding | SettlePropose
  | SettleProof | SettleConfirm | Close | PrepayDraw | Reqs | Receipt | Artifact | AckReq | Attest
  | Cancel | Registry

text \<open>The bytes of an ASCII string.\<close>

definition ascii :: "string \<Rightarrow> bytes" where "ascii s = map of_char s"

fun as_str :: "domain_label \<Rightarrow> string" where
  "as_str Slice = ''PayTPv1-slice''"
| "as_str ChanAuth = ''PayTPv1-chan-auth''"
| "as_str ChanAck = ''PayTPv1-chan-ack''"
| "as_str Ckpt = ''PayTPv1-ckpt''"
| "as_str CkptReq = ''PayTPv1-ckpt-req''"
| "as_str Funding = ''PayTPv1-funding''"
| "as_str SettlePropose = ''PayTPv1-settle-propose''"
| "as_str SettleProof = ''PayTPv1-settle-proof''"
| "as_str SettleConfirm = ''PayTPv1-settle-confirm''"
| "as_str Close = ''PayTPv1-close''"
| "as_str PrepayDraw = ''PayTPv1-prepay-draw''"
| "as_str Reqs = ''PayTPv1-reqs''"
| "as_str Receipt = ''PayTPv1-receipt''"
| "as_str Artifact = ''PayTPv1-artifact''"
| "as_str AckReq = ''PayTPv1-ack-req''"
| "as_str Attest = ''PayTPv1-attest''"
| "as_str Cancel = ''PayTPv1-cancel''"
| "as_str Registry = ''PayTPv1-registry''"

definition all_labels :: "domain_label list" where
  "all_labels = [Slice, ChanAuth, ChanAck, Ckpt, CkptReq, Funding, SettlePropose, SettleProof,
     SettleConfirm, Close, PrepayDraw, Reqs, Receipt, Artifact, AckReq, Attest, Cancel, Registry]"

text \<open>A labelled byte string: the label, the zero delimiter, the body. The envelope and the
  derivations of identifiers share this form.\<close>

definition labelled :: "string \<Rightarrow> bytes \<Rightarrow> bytes" where
  "labelled label body = ascii label @ [0x00] @ body"

definition covered :: "domain_label \<Rightarrow> bytes \<Rightarrow> bytes" where
  "covered label canonical_bytes = labelled (as_str label) canonical_bytes"

section \<open>No two labelled byte strings coincide\<close>

definition ascii_string :: "string \<Rightarrow> bool" where
  "ascii_string s \<longleftrightarrow> list_all (\<lambda>c. 0 < (of_char c :: nat) \<and> (of_char c :: nat) < 128) s"

lemma unat_of_char: "unat (of_char c :: u8) = of_char c"
proof -
  have "(of_char c :: u8) = of_nat (of_char c)" by (simp only: of_nat_of_char)
  moreover have "(of_char c :: nat) mod 256 = of_char c" by (rule of_char_mod_256)
  ultimately show ?thesis by (simp only: unat_of_nat) simp
qed

lemma ascii_eq_iff: "ascii s = ascii t \<longleftrightarrow> s = t"
proof -
  have "inj (of_char :: char \<Rightarrow> u8)"
    by (rule injI) (metis unat_of_char of_char_eq_iff)
  then show ?thesis by (simp add: ascii_def inj_map_eq_map)
qed

lemma ascii_no_zero: "ascii_string s \<Longrightarrow> 0 \<notin> set (ascii s)"
proof
  assume s: "ascii_string s" "0 \<in> set (ascii s)"
  then obtain c where "c \<in> set s" "(of_char c :: u8) = 0" by (auto simp: ascii_def)
  then have "(of_char c :: nat) = 0" using unat_of_char [of c] by simp
  with s(1) \<open>c \<in> set s\<close> show False by (auto simp: ascii_string_def list_all_iff)
qed

lemma labelled_eq_iff:
  assumes "ascii_string s" "ascii_string t"
  shows "labelled s a = labelled t b \<longleftrightarrow> s = t \<and> a = b"
proof
  assume eq: "labelled s a = labelled t b"
  have "takeWhile (\<lambda>x. x \<noteq> 0) (labelled s' c) = ascii s'" if "ascii_string s'" for s' c
    using ascii_no_zero [OF that] by (subst labelled_def, subst takeWhile_append2) auto
  with eq assms have "ascii s = ascii t" by metis
  with eq show "s = t \<and> a = b" by (simp add: ascii_eq_iff labelled_def)
qed simp

lemma as_str_ascii [simp]: "ascii_string (as_str l)"
  by (cases l) (simp_all add: ascii_string_def of_char_def)

lemma all_labels_complete: "set all_labels = UNIV" "distinct all_labels"
proof -
  have "l \<in> set all_labels" for l by (cases l) (simp_all add: all_labels_def)
  then show "set all_labels = UNIV" by blast
qed (simp add: all_labels_def)

lemma as_str_inj: "as_str l = as_str m \<longleftrightarrow> l = m"
proof -
  have "distinct (map as_str all_labels)" by (simp add: all_labels_def)
  then have "inj_on as_str (set all_labels)" by (simp add: distinct_map)
  then show ?thesis by (simp add: all_labels_complete inj_eq)
qed

lemma covered_eq_iff: "covered l a = covered m b \<longleftrightarrow> l = m \<and> a = b"
  by (simp add: covered_def labelled_eq_iff as_str_inj)

end
