(* ===== verification/Crypto.thy ===== *)
theory Crypto
  imports Envelope
begin

text \<open>
  The provider boundary of \<^verbatim>\<open>crates/paytp-core/src/crypto.rs\<close>. The primitives themselves (SHA-256,
  HKDF, Poly1305, Ed25519) live in third-party crates: they are the fields of a \<open>crypto_suite\<close>, a
  parameter of every definition that uses them. What the file adds to them is modelled: the
  commitment, the key schedule of the slices and the comparison of the tag. Fixed-size arrays are
  byte lists, with their length as an explicit condition where it matters.
\<close>

record crypto_suite =
  sha256 :: "bytes \<Rightarrow> bytes"
  hkdf_sha256 :: "bytes \<Rightarrow> bytes option \<Rightarrow> bytes \<Rightarrow> nat \<Rightarrow> bytes"
  poly1305 :: "bytes \<Rightarrow> bytes \<Rightarrow> bytes"
  ed25519_sign :: "bytes \<Rightarrow> bytes \<Rightarrow> bytes"
  ed25519_public :: "bytes \<Rightarrow> bytes"
  ed25519_verify_strict :: "bytes \<Rightarrow> bytes \<Rightarrow> bytes \<Rightarrow> bool"

definition to_be_bytes :: "'a::len word \<Rightarrow> bytes" where
  "to_be_bytes x = be_bytes (LENGTH('a) div 8) (unat x)"

definition to_le_bytes :: "'a::len word \<Rightarrow> bytes" where
  "to_le_bytes x = rev (to_be_bytes x)"

definition h_commit :: "crypto_suite \<Rightarrow> bytes \<Rightarrow> bytes" where
  "h_commit cs s = sha256 cs (ascii ''PayTPv1-hs'' @ s)"

definition k_session :: "crypto_suite \<Rightarrow> bytes \<Rightarrow> bytes \<Rightarrow> bytes \<Rightarrow> bytes" where
  "k_session cs s bind_salt channel_id =
     hkdf_sha256 cs s (Some bind_salt) (ascii ''PayTPv1-slice'' @ channel_id) 32"

definition slice_subkey :: "crypto_suite \<Rightarrow> bytes \<Rightarrow> u64 \<Rightarrow> bytes" where
  "slice_subkey cs k_sess sq = hkdf_sha256 cs k_sess (Some []) (to_le_bytes sq) 32"

definition slice_tag :: "crypto_suite \<Rightarrow> bytes \<Rightarrow> bytes \<Rightarrow> bytes" where
  "slice_tag cs subkey covered_slice = poly1305 cs subkey covered_slice"

definition slice_tag_verify :: "crypto_suite \<Rightarrow> bytes \<Rightarrow> bytes \<Rightarrow> bytes \<Rightarrow> bool" where
  "slice_tag_verify cs subkey covered_slice tag \<longleftrightarrow> slice_tag cs subkey covered_slice = tag"

definition bind_salt :: "crypto_suite \<Rightarrow> bytes \<Rightarrow> bytes \<Rightarrow> bytes" where
  "bind_salt cs payer_key merchant_key = sha256 cs (payer_key @ merchant_key)"

text \<open>Fixed-width big-endian integers.\<close>

lemma length_to_be_bytes [simp]: "length (to_be_bytes (x :: 'a::len word)) = LENGTH('a) div 8"
  by (simp add: to_be_bytes_def)

lemma to_be_bytes_eq_iff:
  fixes x y :: "'a::len word"
  assumes "8 dvd LENGTH('a)"
  shows "to_be_bytes x = to_be_bytes y \<longleftrightarrow> x = y"
proof -
  obtain k where k: "LENGTH('a) = 8 * k" using assms by (auto elim: dvdE)
  have "(2::nat) ^ (8 * k) = (2 ^ 8) ^ k" by (rule power_mult)
  then have w: "(256::nat) ^ (LENGTH('a) div 8) = 2 ^ LENGTH('a)" by (simp add: k)
  show ?thesis
    using be_bytes_eq_iff [of "unat x" "LENGTH('a) div 8" "unat y"] unat_lt2p [of x] unat_lt2p [of y]
    by (simp add: to_be_bytes_def w word_unat_eq_iff)
qed

end
