(* ===== verification/Transcript.thy ===== *)
theory Transcript
  imports Crypto
begin

text \<open>
  The hash chain of \<^verbatim>\<open>crates/paytp-core/src/transcript.rs\<close> over the accepted slices of a channel.
\<close>

definition head_0 :: "crypto_suite \<Rightarrow> bytes \<Rightarrow> bytes" where
  "head_0 cs channel_id = sha256 cs (ascii ''PayTPv1-transcript'' @ [0x00] @ channel_id)"

definition advance :: "crypto_suite \<Rightarrow> bytes \<Rightarrow> bytes \<Rightarrow> bytes" where
  "advance cs prev_head slice_bytes = sha256 cs (prev_head @ slice_bytes)"

definition transcript_fold :: "crypto_suite \<Rightarrow> bytes \<Rightarrow> bytes list \<Rightarrow> bytes" where
  "transcript_fold cs channel_id accepted_slices =
     foldl (advance cs) (head_0 cs channel_id) accepted_slices"

lemma transcript_fold_simps [simp]:
  "transcript_fold cs cid [] = head_0 cs cid"
  "transcript_fold cs cid (ss @ [s]) = advance cs (transcript_fold cs cid ss) s"
  by (simp_all add: transcript_fold_def)

text \<open>The byte strings hashed along a chain, and the suites that hash them to 32 bytes without a
  collision among the strings of a given set.\<close>

fun chain_inputs :: "crypto_suite \<Rightarrow> bytes \<Rightarrow> bytes list \<Rightarrow> bytes list" where
  "chain_inputs cs head [] = []"
| "chain_inputs cs head (s # ss) = (head @ s) # chain_inputs cs (advance cs head s) ss"

definition transcript_inputs :: "crypto_suite \<Rightarrow> bytes \<Rightarrow> bytes list \<Rightarrow> bytes list" where
  "transcript_inputs cs cid ss =
     (ascii ''PayTPv1-transcript'' @ [0x00] @ cid) # chain_inputs cs (head_0 cs cid) ss"

lemma chain_inputs_snoc:
  "chain_inputs cs h (ss @ [s]) = chain_inputs cs h ss @ [foldl (advance cs) h ss @ s]"
  by (induction ss arbitrary: h) simp_all

lemma length_chain_head:
  "(\<And>x. length (sha256 cs x) = 32) \<Longrightarrow> length (transcript_fold cs cid ss) = 32"
  by (cases ss rule: rev_cases) (simp_all add: advance_def head_0_def)

text \<open>The last hashed string of a chain is among its inputs, and the genesis string is shorter than
  every later one.\<close>

definition last_input :: "crypto_suite \<Rightarrow> bytes \<Rightarrow> bytes list \<Rightarrow> bytes" where
  "last_input cs cid ss = last (transcript_inputs cs cid ss)"

lemma last_input_simps [simp]:
  "last_input cs cid [] = ascii ''PayTPv1-transcript'' @ [0x00] @ cid"
  "last_input cs cid (ss @ [s]) = transcript_fold cs cid ss @ s"
  by (simp_all add: last_input_def transcript_inputs_def chain_inputs_snoc transcript_fold_def)

lemma fold_hashes_last: "transcript_fold cs cid ss = sha256 cs (last_input cs cid ss)"
  by (cases ss rule: rev_cases) (simp_all add: head_0_def advance_def)

lemma last_input_mem: "last_input cs cid ss \<in> set (transcript_inputs cs cid ss)"
  unfolding last_input_def by (rule last_in_set) (simp add: transcript_inputs_def)

lemma transcript_inputs_snoc:
  "set (transcript_inputs cs cid ss) \<subseteq> set (transcript_inputs cs cid (ss @ [s]))"
  by (auto simp: transcript_inputs_def chain_inputs_snoc)

lemma chain_determines_slices:
  assumes "\<And>x. length (sha256 cs x) = 32" "length cid = 8"
    "inj_on (sha256 cs) (set (transcript_inputs cs cid ss) \<union> set (transcript_inputs cs cid ts))"
    "transcript_fold cs cid ss = transcript_fold cs cid ts"
  shows "ss = ts"
  using assms(3,4)
proof (induction ss arbitrary: ts rule: rev_induct)
  case Nil
  then have eq: "last_input cs cid [] = last_input cs cid ts"
    using last_input_mem by (auto simp only: fold_hashes_last dest!: inj_onD)
  show ?case
  proof (cases ts rule: rev_cases)
    case (snoc ts' t)
    then have "length (last_input cs cid []) = 32 + length t"
      using eq by (simp only: last_input_simps length_append length_chain_head [OF assms(1)])
    then show ?thesis by (simp add: ascii_def assms(2))
  qed simp
next
  case (snoc s ss)
  have eq: "last_input cs cid (ss @ [s]) = last_input cs cid ts"
    using snoc.prems last_input_mem by (auto simp only: fold_hashes_last dest!: inj_onD)
  show ?case
  proof (cases ts rule: rev_cases)
    case Nil
    then have "last_input cs cid [] = transcript_fold cs cid ss @ s" using eq by simp
    then have "length (last_input cs cid []) = 32 + length s"
      by (simp only: length_append length_chain_head [OF assms(1)])
    then show ?thesis by (simp add: ascii_def assms(2))
  next
    case ts: (snoc ts' t)
    have "transcript_fold cs cid ss = transcript_fold cs cid ts' \<and> s = t"
      using eq length_chain_head [OF assms(1)] by (simp add: ts)
    moreover have "inj_on (sha256 cs) (set (transcript_inputs cs cid ss) \<union> set (transcript_inputs cs cid ts'))"
      using transcript_inputs_snoc by (intro inj_on_subset [OF snoc.prems(1)]) (simp add: ts, blast)
    ultimately show ?thesis using snoc.IH [of ts'] ts by simp
  qed
qed

end
