(* ===== verification/Slice.thy ===== *)
theory Slice
  imports Transcript
begin

text \<open>
  The metering slice of \<^verbatim>\<open>crates/paytp-core/src/slice.rs\<close>: its closed TLV object, the parser with
  its width and range checks, and its authentication under the session key.
\<close>

definition SEQ_MAX :: u64 where "SEQ_MAX = push_bit 63 1"

definition T_SEQ :: u8 where "T_SEQ = 0x00"
definition T_AMT :: u8 where "T_AMT = 0x01"
definition T_TAG :: u8 where "T_TAG = 0x02"

record slice =
  seq :: u64
  amt_micro :: u64
  tag :: bytes

definition slice_schema :: schema where
  "slice_schema = schema_new Closed [(T_SEQ, False), (T_AMT, False), (T_TAG, False)]"

definition content_object :: "u64 \<Rightarrow> u64 \<Rightarrow> object" where
  "content_object sq amt =
     expect (from_fields
       [field_new T_SEQ False (to_be_bytes sq),
        field_new T_AMT False (drop 2 (to_be_bytes amt))])"

definition slice_covered_bytes :: "u64 \<Rightarrow> u64 \<Rightarrow> bytes" where
  "slice_covered_bytes sq amt = covered domain_label.Slice (object_encode (content_object sq amt))"

definition slice_seal :: "crypto_suite \<Rightarrow> u64 \<Rightarrow> u64 \<Rightarrow> bytes \<Rightarrow> error + slice" where
  "slice_seal cs sq amt k_sess =
     (if SEQ_MAX < sq then Inl FieldDomain
      else if push_bit 48 1 \<le> amt then Inl WrongWidth
      else
        let subkey = slice_subkey cs k_sess sq;
            t = slice_tag cs subkey (slice_covered_bytes sq amt)
        in Inr \<lparr>seq = sq, amt_micro = amt, tag = t\<rparr>)"

definition slice_encode :: "slice \<Rightarrow> bytes" where
  "slice_encode s =
     object_encode (expect (from_fields
       [field_new T_SEQ False (to_be_bytes (seq s)),
        field_new T_AMT False (drop 2 (to_be_bytes (amt_micro s))),
        field_new T_TAG False (tag s)]))"

definition slice_parse :: "bytes \<Rightarrow> error + slice" where
  "slice_parse buf =
     and_then (object_parse buf) (\<lambda>obj.
     and_then (object_validate obj slice_schema) (\<lambda>_.
     and_then (ok_or (object_get obj T_SEQ) MissingField) (\<lambda>seq_f.
     and_then (ok_or (object_get obj T_AMT) MissingField) (\<lambda>amt_f.
     and_then (ok_or (object_get obj T_TAG) MissingField) (\<lambda>tag_f.
     if length (fvalue seq_f) \<noteq> 8 then Inl WrongWidth
     else if length (fvalue amt_f) \<noteq> 6 then Inl WrongWidth
     else if length (fvalue tag_f) \<noteq> 16 then Inl WrongWidth
     else
       let sq = word_of_nat (be_nat (fvalue seq_f)) :: u64 in
       if SEQ_MAX < sq then Inl FieldDomain
       else
         let amt = word_of_nat (be_nat ([0, 0] @ fvalue amt_f)) :: u64
         in Inr \<lparr>seq = sq, amt_micro = amt, tag = fvalue tag_f\<rparr>)))))"

definition slice_verify :: "crypto_suite \<Rightarrow> bytes \<Rightarrow> slice \<Rightarrow> bool" where
  "slice_verify cs k_sess s =
     slice_tag_verify cs (slice_subkey cs k_sess (seq s))
       (slice_covered_bytes (seq s) (amt_micro s)) (tag s)"

section \<open>The slice format is canonical\<close>

text \<open>The slices a sender can mint and a receiver accepts.\<close>

definition slice_ok :: "slice \<Rightarrow> bool" where
  "slice_ok s \<longleftrightarrow> unat (seq s) \<le> 2 ^ 63 \<and> unat (amt_micro s) < 2 ^ 48 \<and> length (tag s) = 16"

lemma unat_SEQ_MAX: "unat SEQ_MAX = 2 ^ 63"
  by (simp add: SEQ_MAX_def push_bit_eq_mult)

lemma slice_types [simp]: "T_SEQ < T_AMT" "T_AMT < T_TAG" "T_SEQ < T_TAG"
  by (simp_all add: T_SEQ_def T_AMT_def T_TAG_def)

definition slice_fields :: "slice \<Rightarrow> field list" where
  "slice_fields s =
     [field_new T_SEQ False (to_be_bytes (seq s)),
      field_new T_AMT False (drop 2 (to_be_bytes (amt_micro s))),
      field_new T_TAG False (tag s)]"

lemma content_object_fields:
  "content_object sq amt = Object
     [field_new T_SEQ False (to_be_bytes sq), field_new T_AMT False (drop 2 (to_be_bytes amt))]"
  by (simp add: content_object_def from_fields_ascending)

lemma slice_encode_fields: "slice_encode s = object_encode (Object (slice_fields s))"
  by (simp add: slice_encode_def slice_fields_def from_fields_ascending)

lemma slice_fields_ok: "slice_ok s \<Longrightarrow> object_ok (Object (slice_fields s))"
  by (simp add: object_ok_iff slice_fields_def field_ok_def slice_ok_def T_SEQ_def T_AMT_def T_TAG_def)

lemma slice_known: "known slice_schema t = Some \<lparr>spec_critical = c\<rparr> \<longleftrightarrow> t \<in> {T_SEQ, T_AMT, T_TAG} \<and> \<not> c"
  by (auto simp: slice_schema_def schema_new_def T_SEQ_def T_AMT_def T_TAG_def)

lemma slice_validate:
  "object_validate obj slice_schema = Inr () \<longleftrightarrow>
   (\<forall>f \<in> set (obj_fields obj). type_num f \<in> {T_SEQ, T_AMT, T_TAG} \<and> \<not> critical f)"
proof -
  have "sc_openness slice_schema = Closed" by (simp add: slice_schema_def schema_new_def)
  then show ?thesis by (simp add: object_validate_Inr validate_closed slice_known)
qed

lemma amt_bytes:
  "unat a < 2 ^ 48 \<Longrightarrow> word_of_nat (be_nat ([0, 0] @ drop 2 (to_be_bytes a))) = a" for a :: u64
proof -
  assume "unat a < 2 ^ 48"
  then have "be_nat (drop 2 (be_bytes (2 + 6) (unat a))) = unat a"
    by (simp only: drop_be_bytes be_nat_be_bytes) simp
  then show ?thesis by (simp add: to_be_bytes_def be_nat_Cons)
qed

lemma amt_bytes_back:
  assumes "length bs = 6"
  shows "drop 2 (to_be_bytes (word_of_nat (be_nat ([0, 0] @ bs)) :: u64)) = bs"
    "unat (word_of_nat (be_nat ([0, 0] @ bs)) :: u64) < 2 ^ 48"
proof -
  have "be_nat bs < 2 ^ 48" using be_nat_less [of bs] assms by simp
  then have u: "unat (word_of_nat (be_nat ([0, 0] @ bs)) :: u64) = be_nat bs"
    by (simp add: be_nat_Cons unat_of_nat)
  have "drop 2 (be_bytes (2 + 6) (be_nat bs)) = bs"
    using be_bytes_be_nat [of bs] by (simp only: drop_be_bytes assms)
  then show "drop 2 (to_be_bytes (word_of_nat (be_nat ([0, 0] @ bs)) :: u64)) = bs"
    unfolding to_be_bytes_def u by simp
  show "unat (word_of_nat (be_nat ([0, 0] @ bs)) :: u64) < 2 ^ 48"
    using u \<open>be_nat bs < 2 ^ 48\<close> by simp
qed

lemma seq_bytes: "word_of_nat (be_nat (to_be_bytes a)) = a" for a :: u64
proof -
  have "unat a < 256 ^ 8" using unat_lt2p [of a] by simp
  then have "be_nat (be_bytes 8 (unat a)) = unat a" by (rule be_nat_be_bytes_small)
  then show ?thesis by (simp add: to_be_bytes_def)
qed

lemma seq_bytes_back: "length bs = 8 \<Longrightarrow> to_be_bytes (word_of_nat (be_nat bs) :: u64) = bs"
proof -
  assume len: "length bs = 8"
  then have "unat (word_of_nat (be_nat bs) :: u64) = be_nat bs"
    using be_nat_less [of bs] by (simp add: unat_of_nat)
  then show ?thesis using be_bytes_be_nat [of bs] len by (simp add: to_be_bytes_def)
qed

lemma slice_decode_encode: "slice_ok s \<Longrightarrow> slice_parse (slice_encode s) = Inr s"
proof -
  assume ok: "slice_ok s"
  let ?obj = "Object (slice_fields s)"
  have "object_parse (slice_encode s) = Inr ?obj"
    unfolding slice_encode_fields by (rule object.decode_encode [OF slice_fields_ok [OF ok]])
  moreover have "object_validate ?obj slice_schema = Inr ()"
    by (auto simp: slice_validate slice_fields_def)
  moreover have "object_get ?obj T_SEQ = Some (slice_fields s ! 0)"
      "object_get ?obj T_AMT = Some (slice_fields s ! 1)" "object_get ?obj T_TAG = Some (slice_fields s ! 2)"
    by (simp_all add: object_get_def slice_fields_def T_SEQ_def T_AMT_def T_TAG_def)
  moreover have "\<not> SEQ_MAX < seq s" using ok by (simp add: word_less_nat_alt unat_SEQ_MAX slice_ok_def)
  ultimately show ?thesis
    using ok by (simp add: slice_parse_def slice_fields_def slice_ok_def seq_bytes amt_bytes [simplified] Let_def)
qed

lemma slice_encode_decode:
  assumes "slice_parse bs = Inr s"
  shows "slice_ok s \<and> slice_encode s = bs"
proof -
  from assms obtain obj f g h where obj: "object_parse bs = Inr obj" "object_validate obj slice_schema = Inr ()"
    "object_get obj T_SEQ = Some f" "object_get obj T_AMT = Some g" "object_get obj T_TAG = Some h"
    and w: "length (fvalue f) = 8" "length (fvalue g) = 6" "length (fvalue h) = 16"
    and sq: "\<not> SEQ_MAX < (word_of_nat (be_nat (fvalue f)) :: u64)"
    and s: "s = \<lparr>seq = word_of_nat (be_nat (fvalue f)),
              amt_micro = word_of_nat (be_nat ([0, 0] @ fvalue g)), tag = fvalue h\<rparr>"
    by (auto simp: slice_parse_def Let_def split: if_splits)
  have ok: "object_ok obj" "object_encode obj = bs" using object.encode_decode [OF obj(1)] by auto
  have types: "\<forall>x \<in> set (obj_fields obj). type_num x \<in> {T_SEQ, T_AMT, T_TAG} \<and> \<not> critical x"
    using obj(2) by (simp only: slice_validate)
  have "obj_fields obj = List.map_filter (object_get obj) [T_SEQ, T_AMT, T_TAG]"
    by (rule object_from_gets [OF ok(1)]) (use types in auto)
  then have fs: "obj_fields obj = [f, g, h]" using obj by (simp add: map_filter_simps)
  have "f = field_new T_SEQ False (fvalue f)" "g = field_new T_AMT False (fvalue g)"
      "h = field_new T_TAG False (fvalue h)"
    using obj(3-5) ok(1) types by (auto simp: field_new_eq object_get_Some)
  then have "slice_fields s = [f, g, h]"
    using w by (simp add: s slice_fields_def seq_bytes_back amt_bytes_back [simplified])
  then have "slice_encode s = object_encode obj"
    unfolding slice_encode_fields by (metis fs object.collapse)
  moreover have "slice_ok s"
    using w sq amt_bytes_back(2) [OF w(2)] by (simp add: s slice_ok_def word_less_nat_alt unat_SEQ_MAX)
  ultimately show ?thesis using ok(2) by simp
qed

interpretation slice: canonical_codec slice_ok slice_encode slice_parse
  by unfold_locales (simp_all add: slice_decode_encode slice_encode_decode)

section \<open>Authentication\<close>

text \<open>A tag covers the sequence number and the amount: equal covered bytes mean equal contents.\<close>

lemma slice_covered_inj:
  assumes "unat amt < 2 ^ 48" "unat amt' < 2 ^ 48"
  shows "slice_covered_bytes sq amt = slice_covered_bytes sq' amt' \<longleftrightarrow> sq = sq' \<and> amt = amt'"
proof
  assume "slice_covered_bytes sq amt = slice_covered_bytes sq' amt'"
  then have "object_encode (content_object sq amt) = object_encode (content_object sq' amt')"
    by (simp add: slice_covered_bytes_def covered_eq_iff)
  moreover have "object_ok (content_object a b)" for a b
    by (simp add: content_object_fields object_ok_iff field_ok_def T_SEQ_def T_AMT_def)
  ultimately have "content_object sq amt = content_object sq' amt'"
    by (simp add: object.encode_inj)
  then have "to_be_bytes sq = to_be_bytes sq'" "drop 2 (to_be_bytes amt) = drop 2 (to_be_bytes amt')"
    by (simp_all add: content_object_fields field_new_def)
  then show "sq = sq' \<and> amt = amt'"
    using amt_bytes [OF assms(1)] amt_bytes [OF assms(2)] by (metis seq_bytes)
qed simp

lemma slice_seal_ok:
  assumes "\<And>k m. length (poly1305 cs k m) = 16" "slice_seal cs sq amt k = Inr s"
  shows "slice_ok s \<and> slice_verify cs k s \<and> seq s = sq \<and> amt_micro s = amt"
  using assms
  by (auto simp: slice_seal_def slice_ok_def slice_verify_def slice_tag_verify_def slice_tag_def Let_def
      word_less_nat_alt word_le_nat_alt unat_SEQ_MAX push_bit_eq_mult split: if_splits)

end
