(* ===== verification/Tlv_Int.thy ===== *)
theory Tlv_Int
  imports Tlv
begin

text \<open>
  The integer values of TLV fields (\<^verbatim>\<open>crates/paytp-core/src/tlv.rs\<close>, integer value codecs and field
  domains): minimal unsigned and two's-complement big-endian encodings. The arbitrary-precision
  \<open>BigUint\<close> and \<open>BigInt\<close> are the natural numbers and the integers.
\<close>

section \<open>Unsigned integers\<close>

fun validate_minimal_uint :: "bytes \<Rightarrow> error + unit" where
  "validate_minimal_uint [] = Inl NonMinimalInt"
| "validate_minimal_uint (b # bs) =
     (if b = 0 \<and> bs = [] then Inr () else if b = 0 then Inl NonMinimalInt else Inr ())"

definition decode_uint_biguint :: "bytes \<Rightarrow> error + nat" where
  "decode_uint_biguint bs = and_then (validate_minimal_uint bs) (\<lambda>_. Inr (be_nat bs))"

text \<open>\<open>T::try_from(BigUint)\<close> for a machine type \<open>T\<close>.\<close>

definition uint_fits :: "nat \<Rightarrow> error + 'a::len word" where
  "uint_fits v = (if v < 2 ^ LENGTH('a) then Inr (word_of_nat v) else Inl FieldDomain)"

definition decode_uint_u128 :: "bytes \<Rightarrow> error + u128" where
  "decode_uint_u128 bs = and_then (decode_uint_biguint bs) uint_fits"

definition decode_uint_u64 :: "bytes \<Rightarrow> error + u64" where
  "decode_uint_u64 bs = and_then (decode_uint_biguint bs) uint_fits"

definition decode_uint_u32 :: "bytes \<Rightarrow> error + u32" where
  "decode_uint_u32 bs = and_then (decode_uint_biguint bs) uint_fits"

datatype domain = Time | Value | Id

definition domain_max :: "domain \<Rightarrow> nat" where
  "domain_max d = (case d of Time \<Rightarrow> 2 ^ 53 - 1 | Value \<Rightarrow> 2 ^ 128 - 1 | Id \<Rightarrow> 2 ^ 32 - 1)"

definition check_field_domain :: "nat \<Rightarrow> domain \<Rightarrow> error + unit" where
  "check_field_domain v d = (if domain_max d < v then Inl FieldDomain else Inr ())"

definition decode_uint_time :: "bytes \<Rightarrow> error + u64" where
  "decode_uint_time bs =
     and_then (decode_uint_biguint bs) (\<lambda>v.
     and_then (check_field_domain v Time) (\<lambda>_. uint_fits v))"

definition encode_uint_u128 :: "u128 \<Rightarrow> bytes" where
  "encode_uint_u128 v = (if v = 0 then [0x00] else dropWhile (\<lambda>b. b = 0) (be_bytes 16 (unat v)))"

definition encode_uint_biguint :: "nat \<Rightarrow> bytes" where
  "encode_uint_biguint v = (if v = 0 then [0x00] else min_bytes v)"

section \<open>Signed integers\<close>

text \<open>The loop over \<open>k\<close> of \<open>encode_sint\<close>: the least number of bytes that holds a negative value.\<close>

function sint_width :: "int \<Rightarrow> nat \<Rightarrow> nat" where
  "sint_width n k = (if - (2 ^ (8 * k - 1)) \<le> n then k else sint_width n (k + 1))"
  by pat_completeness auto
termination
proof (relation "measure (\<lambda>(n, k). nat (- n) - k)", goal_cases)
  case (2 n k)
  have "int k \<le> 2 ^ (8 * k - 1)"
  proof (cases k)
    case (Suc j)
    have "k < 2 ^ k" by (rule less_exp)
    also have "\<dots> \<le> (2::nat) ^ (8 * k - 1)" using Suc by (intro power_increasing) auto
    finally show ?thesis by (metis less_imp_le of_nat_le_iff of_nat_numeral of_nat_power)
  qed simp
  with 2 have "int k < - n" by linarith
  then show ?case by simp
qed simp

declare sint_width.simps [simp del]

definition encode_sint :: "int \<Rightarrow> bytes" where
  "encode_sint n =
     (if n = 0 then [0x00]
      else if 0 < n then
        (let be = min_bytes (nat n) in if hd be AND 0x80 \<noteq> 0 then 0x00 # be else be)
      else
        (let k = sint_width n 1; tc = min_bytes (nat (2 ^ (8 * k) + n))
         in replicate (k - length tc) 0x00 @ tc))"

definition decode_sint :: "bytes \<Rightarrow> error + int" where
  "decode_sint bs =
     (if bs = [] then Inl NonMinimalSignedInt
      else if 2 \<le> length bs \<and>
        ((bs ! 0 = 0x00 \<and> bs ! 1 AND 0x80 = 0) \<or> (bs ! 0 = 0xff \<and> bs ! 1 AND 0x80 \<noteq> 0))
      then Inl NonMinimalSignedInt
      else let mag = int (be_nat bs) in
        if bs ! 0 AND 0x80 \<noteq> 0 then Inr (mag - 2 ^ (8 * length bs)) else Inr mag)"

section \<open>Minimal byte strings\<close>

lemma be_nat_min_bytes [simp]: "be_nat (min_bytes x) = x"
proof (induction x rule: min_bytes.induct)
  case (1 x)
  show ?case
  proof (cases "x < 256")
    case True
    then show ?thesis using be_nat_snoc [of "[]" "of_nat x"]
      by (simp add: min_bytes.simps [of x] unat_of_nat)
  next
    case False
    then show ?thesis using 1 by (simp add: min_bytes.simps [of x])
  qed
qed

lemma min_bytes_nonempty [simp]: "min_bytes x \<noteq> []"
  by (simp add: min_bytes.simps [of x])

lemma hd_min_bytes: "0 < x \<Longrightarrow> hd (min_bytes x) \<noteq> 0"
proof (induction x rule: min_bytes.induct)
  case (1 x)
  show ?case
  proof (cases "x < 256")
    case True
    then have "unat (of_nat x :: u8) = x" by (simp add: unat_of_nat)
    with 1 True show ?thesis by (auto simp: min_bytes.simps [of x])
  next
    case False
    then show ?thesis using 1 by (simp add: min_bytes.simps [of x])
  qed
qed

lemma be_nat_ge_head: "bs \<noteq> [] \<Longrightarrow> unat (hd bs) * 256 ^ (length bs - 1) \<le> be_nat bs"
  by (cases bs) (simp_all add: be_nat_Cons)

lemma be_nat_pos: "bs \<noteq> [] \<Longrightarrow> hd bs \<noteq> 0 \<Longrightarrow> 0 < be_nat bs"
  using be_nat_ge_head [of bs] unat_gt_0 [of "hd bs"] by (metis mult_is_0 neq0_conv le_zero_eq power_not_zero zero_neq_numeral)

lemma min_bytes_be_nat: "bs \<noteq> [] \<Longrightarrow> hd bs \<noteq> 0 \<Longrightarrow> min_bytes (be_nat bs) = bs"
proof (induction bs rule: rev_induct)
  case (snoc b bs)
  show ?case
  proof (cases "bs = []")
    case True
    then show ?thesis using be_nat_snoc [of "[]" b] by (simp add: min_bytes.simps [of "unat b"])
  next
    case False
    with snoc.prems have hd: "hd bs \<noteq> 0" by simp
    have "256 \<le> be_nat bs * 256 + unat b" using be_nat_pos [OF False hd] by simp
    then show ?thesis
      using snoc.IH [OF False hd] by (simp add: min_bytes.simps [of "be_nat bs * 256 + unat b"])
  qed
qed simp

lemma validate_minimal_iff:
  "validate_minimal_uint bs = Inr () \<longleftrightarrow> bs = [0] \<or> (bs \<noteq> [] \<and> hd bs \<noteq> 0)"
  by (cases bs) auto

lemma be_nat_0_byte [simp]: "be_nat [0] = 0"
  using be_nat_snoc [of "[]" 0] by simp

lemma uint_accepted: "decode_uint_biguint bs = Inr v \<longleftrightarrow> bs = encode_uint_biguint v"
proof
  assume "decode_uint_biguint bs = Inr v"
  then have v: "v = be_nat bs" "bs = [0] \<or> (bs \<noteq> [] \<and> hd bs \<noteq> 0)"
    by (auto simp: decode_uint_biguint_def validate_minimal_iff)
  then show "bs = encode_uint_biguint v"
    using min_bytes_be_nat [of bs] be_nat_pos [of bs] by (auto simp: encode_uint_biguint_def)
next
  assume "bs = encode_uint_biguint v"
  then show "decode_uint_biguint bs = Inr v"
    using hd_min_bytes [of v] by (auto simp: decode_uint_biguint_def validate_minimal_iff encode_uint_biguint_def)
qed

interpretation uint: canonical_codec "\<lambda>_. True" encode_uint_biguint decode_uint_biguint
  by unfold_locales (simp_all add: uint_accepted)

lemma uint_fits_iff: "(uint_fits v :: error + 'a::len word) = Inr w \<longleftrightarrow> v = unat w"
proof
  assume "(uint_fits v :: error + 'a word) = Inr w"
  then show "v = unat w" by (auto simp: uint_fits_def unat_of_nat_small split: if_splits)
next
  assume "v = unat w"
  then show "(uint_fits v :: error + 'a word) = Inr w" using unat_lt2p [of w] by (simp add: uint_fits_def)
qed

lemma uint_word_accepted:
  "decode_uint_u128 bs = Inr w \<longleftrightarrow> bs = encode_uint_biguint (unat w)"
  "decode_uint_u64 bs = Inr x \<longleftrightarrow> bs = encode_uint_biguint (unat x)"
  "decode_uint_u32 bs = Inr y \<longleftrightarrow> bs = encode_uint_biguint (unat y)"
  by (auto simp: decode_uint_u128_def decode_uint_u64_def decode_uint_u32_def uint_accepted uint_fits_iff)

lemma uint_time_accepted:
  "decode_uint_time bs = Inr x \<longleftrightarrow> unat x \<le> 2 ^ 53 - 1 \<and> bs = encode_uint_biguint (unat x)"
  by (auto simp: decode_uint_time_def check_field_domain_def domain_max_def uint_accepted uint_fits_iff split: if_splits)

lemma dropWhile_be_bytes: "dropWhile (\<lambda>b. b = 0) bs \<noteq> [] \<Longrightarrow>
    be_nat (dropWhile (\<lambda>b. b = 0) bs) = be_nat bs \<and> hd (dropWhile (\<lambda>b. b = 0) bs) \<noteq> 0"
  by (induction bs) (auto simp: be_nat_Cons)

lemma dropWhile_zero: "dropWhile (\<lambda>b. b = 0) bs = [] \<Longrightarrow> be_nat bs = 0"
  by (induction bs) (auto simp: be_nat_Cons split: if_splits)

text \<open>The fixed-width encoder writes the same bytes as the arbitrary-precision one.\<close>

lemma encode_uint_u128_eq: "encode_uint_u128 v = encode_uint_biguint (unat v)"
proof (cases "v = 0")
  case False
  let ?d = "dropWhile (\<lambda>b. b = 0) (be_bytes 16 (unat v))"
  have "be_nat (be_bytes 16 (unat v)) = unat v"
    using unat_lt2p [of v] by (simp add: be_nat_be_bytes)
  moreover have "unat v \<noteq> 0" using False by (simp add: unat_eq_0)
  ultimately have "?d \<noteq> []" "be_nat ?d = unat v" "hd ?d \<noteq> 0"
    using dropWhile_be_bytes [of "be_bytes 16 (unat v)"] dropWhile_zero [of "be_bytes 16 (unat v)"] by auto
  then show ?thesis using False \<open>unat v \<noteq> 0\<close> min_bytes_be_nat [of ?d]
    by (simp add: encode_uint_u128_def encode_uint_biguint_def)
qed (simp add: encode_uint_u128_def encode_uint_biguint_def)

section \<open>The two's-complement encoding is canonical\<close>

lemma be_nat_head_bound:
  assumes "bs \<noteq> []"
  shows "be_nat bs < (unat (hd bs) + 1) * 256 ^ (length bs - 1)"
  using assms be_nat_less [of "tl bs"] by (cases bs) (simp_all add: be_nat_Cons algebra_simps)

lemma head_from_value:
  assumes "bs \<noteq> []" "c * 256 ^ (length bs - 1) \<le> be_nat bs"
  shows "c \<le> unat (hd bs)"
proof -
  have "c * 256 ^ (length bs - 1) < (unat (hd bs) + 1) * 256 ^ (length bs - 1)"
    using assms be_nat_head_bound [OF assms(1)] by linarith
  then have "c < unat (hd bs) + 1" by (simp only: mult_less_cancel2)
  then show ?thesis by simp
qed

lemma length_min_bytes:
  assumes "256 ^ k \<le> x" "x < 256 ^ Suc k"
  shows "length (min_bytes x) = Suc k"
proof -
  let ?m = "min_bytes x"
  have x: "0 < x" using assms(1) by (metis less_le_trans zero_less_numeral zero_less_power)
  have "256 ^ (length ?m - 1) \<le> x"
    using be_nat_ge_head [of ?m] hd_min_bytes [OF x] unat_gt_0 [of "hd ?m"]
    by (metis be_nat_min_bytes le_trans min_bytes_nonempty mult_1 mult_le_mono1 Suc_leI One_nat_def)
  with assms(2) have "(256::nat) ^ (length ?m - 1) < 256 ^ Suc k" by linarith
  then have "length ?m - 1 < Suc k" by (rule power_less_imp_less_exp [rotated]) simp
  moreover have "x < 256 ^ length ?m" using be_nat_less [of ?m] by simp
  with assms(1) have "(256::nat) ^ k < 256 ^ length ?m" by (rule le_less_trans)
  then have "k < length ?m" by (rule power_less_imp_less_exp [rotated]) simp
  ultimately show ?thesis by simp
qed

lemma pow_256: "(2::int) ^ (8 * k) = 256 ^ k" "0 < k \<Longrightarrow> (2::int) ^ (8 * k - Suc 0) = 128 * 256 ^ (k - Suc 0)"
proof -
  show eq: "(2::int) ^ (8 * k) = 256 ^ k" for k by (simp add: power_mult)
  show "(2::int) ^ (8 * k - Suc 0) = 128 * 256 ^ (k - Suc 0)" if "0 < k"
  proof -
    from that obtain j where "k = Suc j" by (cases k) auto
    then have "8 * k - Suc 0 = 7 + 8 * j" by simp
    then show ?thesis using eq [of j] \<open>k = Suc j\<close> by (simp add: power_add)
  qed
qed

lemma sint_width_least:
  "1 \<le> k \<Longrightarrow> k \<le> m \<Longrightarrow> - (128 * 256 ^ (m - 1)) \<le> n \<Longrightarrow> (1 < m \<Longrightarrow> n < - (128 * 256 ^ (m - 2))) \<Longrightarrow>
   sint_width n k = m"
proof (induction n k rule: sint_width.induct)
  case (1 n k)
  show ?case
  proof (cases "k = m")
    case True
    with "1.prems" show ?thesis by (subst sint_width.simps) (simp add: pow_256)
  next
    case False
    with "1.prems" have m: "k < m" "1 < m" by simp_all
    have "128 * 256 ^ (k - 1) \<le> (128 * 256 ^ (m - 2) :: int)"
      using m by (intro mult_left_mono power_increasing) auto
    moreover have "(2::int) ^ (8 * k - 1) = 128 * 256 ^ (k - 1)" using "1.prems"(1) by (simp add: pow_256)
    ultimately have "\<not> - (2 ^ (8 * k - 1)) \<le> n" using "1.prems"(4) [OF m(2)] by linarith
    then show ?thesis using "1.IH" "1.prems" m by (simp add: sint_width.simps [of n k])
  qed
qed

text \<open>Every negative value has the width its range gives.\<close>

lemma sint_width_exists:
  assumes "n < 0"
  shows "\<exists>m \<ge> 1. sint_width n 1 = m \<and> - (128 * 256 ^ (m - 1)) \<le> n \<and> (1 < m \<longrightarrow> n < - (128 * 256 ^ (m - 2)))"
proof -
  let ?P = "\<lambda>m. 1 \<le> m \<and> - (128 * 256 ^ (m - 1)) \<le> n"
  have "nat (- n) < 256 ^ nat (- n)" by (rule power_gt_expt) simp
  then have "- n < 256 ^ nat (- n)"
    using assms by (metis nat_less_iff of_nat_numeral of_nat_power less_imp_le neg_0_less_iff_less nat_0_le of_nat_less_iff)
  moreover have "(0::int) \<le> 256 ^ nat (- n)" by simp
  ultimately have "- (128 * 256 ^ nat (- n)) \<le> n" by linarith
  then have ex: "?P (Suc (nat (- n)))" by simp
  define m where "m = (LEAST m. ?P m)"
  have P: "?P m" unfolding m_def by (rule LeastI [of ?P, OF ex])
  have "n < - (128 * 256 ^ (m - 2))" if "1 < m"
  proof (rule ccontr)
    assume "\<not> n < - (128 * 256 ^ (m - 2))"
    then have "?P (m - 1)" using that by (simp add: numeral_2_eq_2)
    then have "m \<le> m - 1" unfolding m_def by (rule Least_le)
    with that show False by simp
  qed
  then show ?thesis using P sint_width_least [of 1 m n] by auto
qed

lemma int_scaled:
  "c * 256 ^ k \<le> x \<Longrightarrow> int c * 256 ^ k \<le> int x"
  "x < c * 256 ^ k \<Longrightarrow> int x < int c * 256 ^ k"
  using of_nat_le_iff [of "c * 256 ^ k" x, where 'a = int] of_nat_less_iff [of x "c * 256 ^ k", where 'a = int]
  by simp_all

lemma decode_sint_nonneg:
  "bs \<noteq> [] \<Longrightarrow> unat (hd bs) < 128 \<Longrightarrow>
   decode_sint bs = (if 2 \<le> length bs \<and> hd bs = 0 \<and> unat (bs ! 1) < 128
     then Inl NonMinimalSignedInt else Inr (int (be_nat bs)))"
  by (auto simp: decode_sint_def Let_def hd_conv_nth [symmetric] top_bit_clear_iff)

lemma decode_sint_neg:
  "bs \<noteq> [] \<Longrightarrow> 128 \<le> unat (hd bs) \<Longrightarrow>
   decode_sint bs = (if 2 \<le> length bs \<and> hd bs = 0xff \<and> 128 \<le> unat (bs ! 1)
     then Inl NonMinimalSignedInt else Inr (int (be_nat bs) - 256 ^ length bs))"
  by (auto simp: decode_sint_def Let_def hd_conv_nth [symmetric] top_bit_clear_iff pow_256)

lemma second_byte_bound:
  assumes "2 \<le> length bs"
  shows "(unat (bs ! 0) * 256 + unat (bs ! 1)) * 256 ^ (length bs - 2) \<le> be_nat bs"
    "be_nat bs < (unat (bs ! 0) * 256 + unat (bs ! 1) + 1) * 256 ^ (length bs - 2)"
proof -
  obtain a b cs where "bs = a # b # cs" using assms by (cases bs; cases "tl bs") auto
  then show "(unat (bs ! 0) * 256 + unat (bs ! 1)) * 256 ^ (length bs - 2) \<le> be_nat bs"
    "be_nat bs < (unat (bs ! 0) * 256 + unat (bs ! 1) + 1) * 256 ^ (length bs - 2)"
    using be_nat_less [of cs] by (simp_all add: be_nat_Cons algebra_simps)
qed

lemma sint_decode_encode_pos:
  assumes "0 < n"
  shows "decode_sint (encode_sint n) = Inr n"
proof -
  let ?be = "min_bytes (nat n)"
  have hd: "hd ?be \<noteq> 0" using assms by (intro hd_min_bytes) simp
  show ?thesis
  proof (cases "128 \<le> unat (hd ?be)")
    case True
    then have "encode_sint n = 0 # ?be" using assms by (simp add: encode_sint_def top_bit_clear_iff)
    moreover have "?be ! 0 = hd ?be" by (simp add: hd_conv_nth)
    ultimately show ?thesis using True assms by (simp add: decode_sint_nonneg be_nat_Cons)
  next
    case False
    then have "encode_sint n = ?be" using assms by (simp add: encode_sint_def top_bit_clear_iff)
    then show ?thesis using False hd assms by (simp add: decode_sint_nonneg)
  qed
qed

lemma sint_decode_encode_neg:
  assumes "n < 0"
  shows "decode_sint (encode_sint n) = Inr n"
proof -
  obtain m where m: "1 \<le> m" "sint_width n 1 = m" "- (128 * 256 ^ (m - 1)) \<le> n"
    "1 < m \<longrightarrow> n < - (128 * 256 ^ (m - 2))" using sint_width_exists [OF assms] by auto
  obtain j where j: "m = Suc j" using m(1) by (cases m) auto
  let ?x = "nat (256 ^ m + n)" and ?tc = "min_bytes (nat (256 ^ m + n))"
  have "(256::int) ^ m = 256 * 256 ^ j" by (simp add: j)
  then have x: "int ?x = 256 ^ m + n" "128 * 256 ^ j \<le> ?x" "?x < 256 ^ m"
    using m(3) assms j by (auto simp: nat_le_eq_zle nat_less_iff le_nat_iff)
  have "256 ^ j \<le> ?x" by (rule order_trans [OF _ x(2)]) simp
  moreover have "?x < 256 ^ Suc j" using x(3) j by simp
  ultimately have "length ?tc = Suc j" by (rule length_min_bytes)
  then have len: "length ?tc = m" using j by simp
  then have enc: "encode_sint n = ?tc" using assms m(2) by (simp add: encode_sint_def Let_def pow_256)
  have hd: "128 \<le> unat (hd ?tc)" using head_from_value [of ?tc 128] x(2) len j by simp
  have "\<not> (2 \<le> length ?tc \<and> hd ?tc = 0xff \<and> 128 \<le> unat (?tc ! 1))"
  proof
    assume red: "2 \<le> length ?tc \<and> hd ?tc = 0xff \<and> 128 \<le> unat (?tc ! 1)"
    then obtain i where i: "j = Suc i" using len j by (cases j) auto
    have "unat (?tc ! 0) = 255" using red by (simp add: hd_conv_nth [symmetric])
    then have "(255 * 256 + 128) * 256 ^ i \<le> (unat (?tc ! 0) * 256 + unat (?tc ! 1)) * 256 ^ i"
      using red by (intro mult_right_mono) auto
    also have "\<dots> \<le> ?x" using second_byte_bound(1) [of ?tc] red len i j by simp
    finally have "int (255 * 256 + 128) * 256 ^ i \<le> int ?x" by (rule int_scaled)
    then show False using m(4) x(1) i j by simp
  qed
  then show ?thesis using enc hd x(1) len by (simp add: decode_sint_neg)
qed

lemma sint_encode_decode_nonneg:
  assumes "bs \<noteq> []" "unat (hd bs) < 128" "decode_sint bs = Inr n"
  shows "encode_sint n = bs"
proof (cases "hd bs = 0")
  case True
  show ?thesis
  proof (cases "length bs = 1")
    case True
    with \<open>hd bs = 0\<close> have "bs = [0]" by (cases bs) auto
    with assms(3) show ?thesis by (simp add: decode_sint_nonneg encode_sint_def)
  next
    case False
    then obtain b cs where bs: "bs = 0 # b # cs" using True assms(1) by (cases bs; cases "tl bs") auto
    with assms have n: "n = int (be_nat (b # cs))" "128 \<le> unat b"
      by (auto simp: decode_sint_nonneg be_nat_Cons split: if_splits)
    then have "b \<noteq> 0" by auto
    then have "min_bytes (be_nat (b # cs)) = b # cs" "0 < be_nat (b # cs)"
      using min_bytes_be_nat [of "b # cs"] be_nat_pos [of "b # cs"] by auto
    then show ?thesis using n bs by (simp add: encode_sint_def top_bit_clear_iff)
  qed
next
  case False
  then have "min_bytes (be_nat bs) = bs" "0 < be_nat bs" "n = int (be_nat bs)"
    using assms min_bytes_be_nat be_nat_pos by (auto simp: decode_sint_nonneg)
  then show ?thesis using assms(2) by (simp add: encode_sint_def top_bit_clear_iff)
qed

lemma sint_encode_decode_neg:
  assumes "bs \<noteq> []" "128 \<le> unat (hd bs)" "decode_sint bs = Inr n"
  shows "encode_sint n = bs"
proof -
  let ?m = "length bs"
  have nonred: "\<not> (2 \<le> ?m \<and> hd bs = 0xff \<and> 128 \<le> unat (bs ! 1))" and n: "n = int (be_nat bs) - 256 ^ ?m"
    using assms by (auto simp: decode_sint_neg split: if_splits)
  obtain j where j: "?m = Suc j" using assms(1) by (cases bs) auto
  have "128 * 256 ^ j \<le> unat (hd bs) * 256 ^ j" using assms(2) by (rule mult_le_mono1)
  also have "\<dots> \<le> be_nat bs" using be_nat_ge_head [OF assms(1)] j by simp
  finally have "128 * 256 ^ j \<le> be_nat bs" .
  then have lo: "128 * 256 ^ j \<le> int (be_nat bs)" using int_scaled(1) [of 128] by simp
  have "be_nat bs < 256 ^ ?m" by (rule be_nat_less)
  then have hi: "int (be_nat bs) < 256 ^ ?m" by (metis of_nat_less_iff of_nat_numeral of_nat_power)
  have neg: "n < - (128 * 256 ^ (?m - 2))" if "1 < ?m"
  proof -
    from that obtain i where i: "j = Suc i" using j by (cases j) auto
    have 255: "unat (bs ! 0) = 255 \<longleftrightarrow> hd bs = 0xff"
      using assms(1) by (simp add: hd_conv_nth word_unat_eq_iff)
    have "unat (bs ! 1) \<le> 255" "unat (bs ! 0) \<le> 255"
      using unat_byte_lt [of "bs ! 1"] unat_byte_lt [of "bs ! 0"] by linarith+
    moreover have "unat (bs ! 0) \<noteq> 255 \<or> unat (bs ! 1) < 128" using nonred 255 that by auto
    ultimately have "unat (bs ! 0) * 256 + unat (bs ! 1) + 1 \<le> 255 * 256 + 128" by linarith
    then have "(unat (bs ! 0) * 256 + unat (bs ! 1) + 1) * 256 ^ i \<le> (255 * 256 + 128) * 256 ^ i"
      by (rule mult_le_mono1)
    moreover have "be_nat bs < (unat (bs ! 0) * 256 + unat (bs ! 1) + 1) * 256 ^ i"
      using second_byte_bound(2) [of bs] that i j by simp
    ultimately have "be_nat bs < (255 * 256 + 128) * 256 ^ i" by (rule less_le_trans [rotated])
    then have "int (be_nat bs) < int (255 * 256 + 128) * 256 ^ i" by (rule int_scaled)
    then show ?thesis using n i j by simp
  qed
  have "sint_width n 1 = ?m"
    using sint_width_least [of 1 ?m n] neg n lo j by simp
  moreover have "min_bytes (be_nat bs) = bs" using assms(1,2) by (intro min_bytes_be_nat) auto
  moreover have "n < 0" using n hi by simp
  ultimately show ?thesis using n by (simp add: encode_sint_def Let_def pow_256)
qed

interpretation sint: canonical_codec "\<lambda>_. True" encode_sint decode_sint
proof unfold_locales
  fix n :: int
  show "decode_sint (encode_sint n) = Inr n"
    using sint_decode_encode_pos [of n] sint_decode_encode_neg [of n]
    by (cases n "0 :: int" rule: linorder_cases) (simp_all add: encode_sint_def decode_sint_nonneg)
next
  fix bs n assume dec: "decode_sint bs = Inr n"
  then have "bs \<noteq> []" by (auto simp: decode_sint_def)
  with dec show "True \<and> encode_sint n = bs"
    using sint_encode_decode_nonneg sint_encode_decode_neg by (cases "unat (hd bs) < 128") auto
qed

end
