(* ===== verification/Tlv_List.thy ===== *)
theory Tlv_List
  imports Tlv_Int
begin

text \<open>
  Count-prefixed lists, multi-object frames and signed text (\<^verbatim>\<open>crates/paytp-core/src/tlv.rs\<close>). The
  list parser takes the item parser as an argument; that it accepts exactly the canonical encodings
  is proved once for every item codec (the locale \<open>tlv_item\<close>). Text is a sequence of UTF-8 bytes;
  the normalisation of the \<open>unicode_normalization\<close> crate is the parameter \<open>nfc\<close>, on scalar values.
\<close>

section \<open>Count-prefixed lists\<close>

definition build_count_prefixed :: "bytes list \<Rightarrow> bytes" where
  "build_count_prefixed items = leb_encode (of_nat (length items)) @ concat items"

fun parse_items :: "nat \<Rightarrow> bytes \<Rightarrow> (bytes \<Rightarrow> error + 'a \<times> nat) \<Rightarrow> error + 'a list" where
  "parse_items 0 rest parse_item = (if rest \<noteq> [] then Inl CountMismatch else Inr [])"
| "parse_items (Suc n) rest parse_item =
     and_then (parse_item rest) (\<lambda>(item, k).
     if k = 0 \<or> length rest < k then Inl CountMismatch
     else and_then (parse_items n (drop k rest) parse_item) (\<lambda>items. Inr (item # items)))"

definition parse_count_prefixed :: "bytes \<Rightarrow> (bytes \<Rightarrow> error + 'a \<times> nat) \<Rightarrow> error + 'a list" where
  "parse_count_prefixed v parse_item =
     and_then (leb_decode v) (\<lambda>(count, used). parse_items (unat count) (drop used v) parse_item)"

locale tlv_item = item_codec valid encode decode
  for valid :: "'a \<Rightarrow> bool" and encode :: "'a \<Rightarrow> bytes" and decode :: "bytes \<Rightarrow> error + 'a \<times> nat"
begin

lemma parse_items_encode:
  "list_all valid xs \<Longrightarrow> parse_items (length xs) (concat (map encode xs)) decode = Inr xs"
proof (induction xs)
  case (Cons x xs)
  then have "valid x" by simp
  then show ?case
    using Cons decode_front [of x "concat (map encode xs)"] encode_nonempty [of x] by simp
qed simp

lemma parse_items_sound:
  "parse_items n rest decode = Inr xs \<Longrightarrow>
   list_all valid xs \<and> length xs = n \<and> concat (map encode xs) = rest"
proof (induction n arbitrary: rest xs)
  case 0
  then show ?case by (simp split: if_splits)
next
  case (Suc n)
  then obtain x k ys where step: "decode rest = Inr (x, k)" "parse_items n (drop k rest) decode = Inr ys"
      "xs = x # ys"
    by (auto split: if_splits)
  then have "valid x" "rest = encode x @ drop k rest" using encode_front consumed by blast+
  moreover have "list_all valid ys \<and> length ys = n \<and> concat (map encode ys) = drop k rest"
    using Suc.IH step(2) by blast
  ultimately show ?case using step(3) by simp
qed

end

text \<open>The counted list of a canonical item format is itself canonical.\<close>

sublocale tlv_item \<subseteq> counted: canonical_codec
  "\<lambda>xs. list_all valid xs \<and> length xs < 2 ^ 32"
  "\<lambda>xs. build_count_prefixed (map encode xs)"
  "\<lambda>v. parse_count_prefixed v decode"
proof unfold_locales
  fix xs assume xs: "list_all valid xs \<and> length xs < 2 ^ 32"
  let ?n = "of_nat (length xs) :: u64"
  have n: "?n \<le> LEB_MAX" "unat ?n = length xs" using leb_length_small [of xs] xs by auto
  have "leb_decode (leb_encode ?n @ concat (map encode xs)) = Inr (?n, length (leb_encode ?n))"
    by (rule leb.decode_front [OF n(1)])
  then show "parse_count_prefixed (build_count_prefixed (map encode xs)) decode = Inr xs"
    using xs n(2) by (simp add: parse_count_prefixed_def build_count_prefixed_def parse_items_encode)
next
  fix bs xs assume "parse_count_prefixed bs decode = Inr xs"
  then obtain count used where c: "leb_decode bs = Inr (count, used)"
      "parse_items (unat count) (drop used bs) decode = Inr xs"
    by (auto simp: parse_count_prefixed_def)
  then have xs: "list_all valid xs" "length xs = unat count" "concat (map encode xs) = drop used bs"
    using parse_items_sound by blast+
  have "bs = leb_encode count @ drop used bs" "count \<le> LEB_MAX"
    using leb.consumed leb.encode_front c(1) by blast+
  moreover from this(2) have "length xs < 2 ^ 32" using xs(2) by (simp add: word_le_nat_alt unat_LEB_MAX)
  ultimately show "(list_all valid xs \<and> length xs < 2 ^ 32) \<and> build_count_prefixed (map encode xs) = bs"
    using xs by (simp add: build_count_prefixed_def)
qed

section \<open>Frames\<close>

definition frame_objects :: "bytes list \<Rightarrow> bytes" where
  "frame_objects objects = concat (map (\<lambda>obj. leb_encode (of_nat (length obj)) @ obj) objects)"

function parse_frames :: "bytes \<Rightarrow> (bytes \<Rightarrow> error + unit) \<Rightarrow> error + bytes list" where
  "parse_frames rest validate =
     (if rest = [] then Inr []
      else
        and_then (map_err (\<lambda>_. Framing) (leb_decode rest)) (\<lambda>(len, used).
        let stop = used + unat len in
        if length rest < stop then Inl Framing
        else
          let obj = take (unat len) (drop used rest) in
          and_then (map_err (\<lambda>_. Framing) (validate obj)) (\<lambda>_.
          and_then (parse_frames (drop stop rest) validate) (\<lambda>objs. Inr (obj # objs)))))"
  by pat_completeness auto
termination
  by (relation "measure (\<lambda>(rest, v). length rest)") (auto dest: leb.consumed_pos)

declare parse_frames.simps [simp del]

lemma parse_frames_Nil [simp]: "parse_frames [] validate = Inr []"
  by (simp add: parse_frames.simps)

lemma parse_frames_encode:
  "\<forall>obj \<in> set objs. length obj < 2 ^ 32 \<and> validate obj = Inr () \<Longrightarrow>
   parse_frames (frame_objects objs) validate = Inr objs"
proof (induction objs)
  case (Cons obj objs)
  let ?n = "of_nat (length obj) :: u64"
  have n: "?n \<le> LEB_MAX" "unat ?n = length obj" using leb_length_small [of obj] Cons.prems by auto
  have "leb_decode (leb_encode ?n @ obj @ frame_objects objs) = Inr (?n, length (leb_encode ?n))"
    by (rule leb.decode_front [OF n(1)])
  then show ?case
    using Cons n(2) by (subst parse_frames.simps) (simp add: frame_objects_def)
qed (simp add: frame_objects_def)

lemma parse_frames_sound:
  "parse_frames rest validate = Inr objs \<Longrightarrow>
   (\<forall>obj \<in> set objs. length obj < 2 ^ 32 \<and> validate obj = Inr ()) \<and> frame_objects objs = rest"
proof (induction rest validate arbitrary: objs rule: parse_frames.induct)
  case (1 rest validate)
  show ?case
  proof (cases "rest = []")
    case True
    with "1.prems" show ?thesis by (simp add: frame_objects_def)
  next
    case False
    let ?obj = "\<lambda>len used. take (unat len) (drop used rest)"
    obtain len used tl_objs where step: "leb_decode rest = Inr (len :: u64, used)"
        "\<not> length rest < used + unat len" "validate (?obj len used) = Inr ()"
        "parse_frames (drop (used + unat len) rest) validate = Inr tl_objs" "objs = ?obj len used # tl_objs"
      using "1.prems" False by (subst (asm) parse_frames.simps) (auto simp: Let_def split: if_splits)
    from step(1) have enc: "rest = leb_encode len @ drop used rest" "len \<le> LEB_MAX"
      using leb.consumed leb.encode_front by blast+
    have len: "length (?obj len used) = unat len" "unat len < 2 ^ 32"
      using step(2) enc(2) by (simp_all add: word_le_nat_alt unat_LEB_MAX)
    have IH: "(\<forall>obj \<in> set tl_objs. length obj < 2 ^ 32 \<and> validate obj = Inr ())
        \<and> frame_objects tl_objs = drop (used + unat len) rest"
      using "1.IH" False step by auto
    have "rest = leb_encode len @ ?obj len used @ drop (unat len) (drop used rest)"
      using enc(1) by (simp only: append_take_drop_id)
    also have "drop (unat len) (drop used rest) = frame_objects tl_objs"
      using IH by (simp add: add.commute)
    finally show ?thesis using IH len step(3,5) by (simp add: frame_objects_def)
  qed
qed

interpretation frames: canonical_codec
  "\<lambda>objs. \<forall>obj \<in> set objs. length obj < 2 ^ 32 \<and> validate obj = Inr ()"
  frame_objects "\<lambda>body. parse_frames body validate" for validate
  by unfold_locales (auto simp: parse_frames_encode dest: parse_frames_sound)

text \<open>A rejected body always draws the one framing error.\<close>

lemma parse_frames_error: "parse_frames rest validate = Inl e \<Longrightarrow> e = Framing"
proof (induction rest validate rule: parse_frames.induct)
  case (1 rest validate)
  then show ?case
    by (subst (asm) (2) parse_frames.simps)
       (auto simp: Let_def and_then_Inl map_err_def split: if_splits sum.splits)
qed

section \<open>Text\<close>

fun utf8_tail :: "u8 \<Rightarrow> bool" where
  "utf8_tail b = (0x80 \<le> b \<and> b \<le> 0xBF)"

text \<open>The scalar values of well-formed UTF-8 (\<open>std::str::from_utf8\<close>), \<open>None\<close> when ill-formed.\<close>

fun utf8_decode :: "bytes \<Rightarrow> nat list option" where
  "utf8_decode [] = Some []"
| "utf8_decode (a # bs) =
     (if a \<le> 0x7F then map_option (Cons (unat a)) (utf8_decode bs)
      else if 0xC2 \<le> a \<and> a \<le> 0xDF then
        (case bs of b # cs \<Rightarrow>
           if utf8_tail b
           then map_option (Cons ((unat a - 0xC0) * 64 + (unat b - 0x80))) (utf8_decode cs) else None
         | _ \<Rightarrow> None)
      else if 0xE0 \<le> a \<and> a \<le> 0xEF then
        (case bs of b # c # ds \<Rightarrow>
           if utf8_tail b \<and> utf8_tail c \<and> (a = 0xE0 \<longrightarrow> 0xA0 \<le> b) \<and> (a = 0xED \<longrightarrow> b \<le> 0x9F)
           then map_option (Cons ((unat a - 0xE0) * 4096 + (unat b - 0x80) * 64 + (unat c - 0x80)))
                  (utf8_decode ds) else None
         | _ \<Rightarrow> None)
      else if 0xF0 \<le> a \<and> a \<le> 0xF4 then
        (case bs of b # c # d # es \<Rightarrow>
           if utf8_tail b \<and> utf8_tail c \<and> utf8_tail d
              \<and> (a = 0xF0 \<longrightarrow> 0x90 \<le> b) \<and> (a = 0xF4 \<longrightarrow> b \<le> 0x8F)
           then map_option (Cons ((unat a - 0xF0) * 262144 + (unat b - 0x80) * 4096
                  + (unat c - 0x80) * 64 + (unat d - 0x80))) (utf8_decode es) else None
         | _ \<Rightarrow> None)
      else None)"

fun check_chars :: "nat list \<Rightarrow> error + unit" where
  "check_chars [] = Inr ()"
| "check_chars (c # cs) =
     (if c = 0xFEFF then Inl TextNotNfc
      else if c \<le> 0x1f \<or> (0x80 \<le> c \<and> c \<le> 0x9f) then Inl TextControlChar
      else check_chars cs)"

definition validate_text :: "(nat list \<Rightarrow> nat list) \<Rightarrow> bytes \<Rightarrow> error + unit" where
  "validate_text nfc bs =
     and_then (ok_or (utf8_decode bs) TextNotUtf8) (\<lambda>s.
     and_then (check_chars s) (\<lambda>_.
     if nfc s \<noteq> s then Inl TextNotNfc else Inr ()))"

lemma validate_text_Inr:
  "validate_text nfc bs = Inr () \<longleftrightarrow>
   (\<exists>s. utf8_decode bs = Some s \<and> nfc s = s \<and>
      (\<forall>c \<in> set s. c \<noteq> 0xFEFF \<and> 0x1f < c \<and> \<not> (0x80 \<le> c \<and> c \<le> 0x9f)))"
proof -
  have "check_chars s = Inr () \<longleftrightarrow> (\<forall>c \<in> set s. c \<noteq> 0xFEFF \<and> 0x1f < c \<and> \<not> (0x80 \<le> c \<and> c \<le> 0x9f))" for s
    by (induction s) auto
  then show ?thesis by (auto simp: validate_text_def split: if_splits)
qed

end
