(* ===== verification/Checkpoint.thy ===== *)
theory Checkpoint
  imports Slice Tlv_List
begin

text \<open>
  The bilateral checkpoint of \<^verbatim>\<open>crates/paytp-core/src/channel/checkpoint.rs\<close>: its wire form with the
  counted lists of accruals, ranges and events, the covered bytes and references, the checkpoint
  request and the synthetic checkpoint of a stillborn channel.
\<close>

section \<open>Types\<close>

definition CK_CHANNEL_ID :: u8 where "CK_CHANNEL_ID = 0x00"
definition CK_BALANCE :: u8 where "CK_BALANCE = 0x01"
definition CK_CUM_TOTAL :: u8 where "CK_CUM_TOTAL = 0x02"
definition CK_ACCRUALS :: u8 where "CK_ACCRUALS = 0x03"
definition CK_LAST_SEQ :: u8 where "CK_LAST_SEQ = 0x04"
definition CK_RANGES :: u8 where "CK_RANGES = 0x05"
definition CK_TRANSCRIPT :: u8 where "CK_TRANSCRIPT = 0x06"
definition CK_EVENTS :: u8 where "CK_EVENTS = 0x07"
definition CK_TIMESTAMP :: u8 where "CK_TIMESTAMP = 0x08"
definition CK_PREV_REF :: u8 where "CK_PREV_REF = 0x09"
definition CK_SIG_PAYER :: u8 where "CK_SIG_PAYER = 0x70"
definition CK_SIG_MERCHANT :: u8 where "CK_SIG_MERCHANT = 0x71"

lemmas ck_types = CK_CHANNEL_ID_def CK_BALANCE_def CK_CUM_TOTAL_def CK_ACCRUALS_def CK_LAST_SEQ_def
  CK_RANGES_def CK_TRANSCRIPT_def CK_EVENTS_def CK_TIMESTAMP_def CK_PREV_REF_def CK_SIG_PAYER_def
  CK_SIG_MERCHANT_def

record seq_range =
  range_lo :: u64
  range_hi :: u64

record event =
  ev_kind :: u8
  ev_reference :: bytes

record checkpoint =
  ck_channel_id :: bytes
  ck_balance :: nat
  ck_balance_negative :: bool
  ck_cum_total :: nat
  ck_accruals :: "(u8 \<times> nat) list"
  ck_last_seq :: u64
  ck_ranges :: "seq_range list"
  ck_transcript :: bytes
  ck_events :: "event list"
  ck_timestamp :: u64
  ck_prev_ref :: bytes
  ck_sig_payer :: "bytes option"
  ck_sig_merchant :: "bytes option"

definition checkpoint_schema :: schema where
  "checkpoint_schema = schema_new Closed
     [(CK_CHANNEL_ID, False), (CK_BALANCE, False), (CK_CUM_TOTAL, False), (CK_ACCRUALS, False),
      (CK_LAST_SEQ, False), (CK_RANGES, False), (CK_TRANSCRIPT, False), (CK_EVENTS, False),
      (CK_TIMESTAMP, False), (CK_PREV_REF, False), (CK_SIG_PAYER, False), (CK_SIG_MERCHANT, False)]"

section \<open>Encoding\<close>

definition accrual_item :: "u8 \<times> nat \<Rightarrow> bytes" where
  "accrual_item x = (case x of (role, num) \<Rightarrow>
     let n = encode_uint_biguint num in [role] @ leb_encode (of_nat (length n)) @ n)"

definition range_item :: "seq_range \<Rightarrow> bytes" where
  "range_item r = to_be_bytes (range_lo r) @ to_be_bytes (range_hi r)"

definition event_item :: "event \<Rightarrow> bytes" where
  "event_item e = [ev_kind e] @ leb_encode (of_nat (length (ev_reference e))) @ ev_reference e"

definition content_fields :: "checkpoint \<Rightarrow> error + field list" where
  "content_fields c =
     (let bal = if ck_balance_negative c then encode_sint (- int (ck_balance c))
                else encode_sint (int (ck_balance c));
          accruals_items = map accrual_item (ck_accruals c);
          range_items = map range_item (ck_ranges c);
          event_items = map event_item (ck_events c)
      in Inr
       [field_new CK_CHANNEL_ID False (ck_channel_id c),
        field_new CK_BALANCE False bal,
        field_new CK_CUM_TOTAL False (encode_uint_biguint (ck_cum_total c)),
        field_new CK_ACCRUALS False (build_count_prefixed accruals_items),
        field_new CK_LAST_SEQ False (to_be_bytes (ck_last_seq c)),
        field_new CK_RANGES False (build_count_prefixed range_items),
        field_new CK_TRANSCRIPT False (ck_transcript c),
        field_new CK_EVENTS False (build_count_prefixed event_items),
        field_new CK_TIMESTAMP False (encode_uint_u128 (ucast (ck_timestamp c))),
        field_new CK_PREV_REF False (ck_prev_ref c)])"

definition checkpoint_covered_bytes :: "checkpoint \<Rightarrow> error + bytes" where
  "checkpoint_covered_bytes c =
     and_then (content_fields c) (\<lambda>fields.
     and_then (from_fields fields) (\<lambda>obj. Inr (covered Ckpt (object_encode obj))))"

definition sign_payer :: "crypto_suite \<Rightarrow> bytes \<Rightarrow> checkpoint \<Rightarrow> error + checkpoint" where
  "sign_payer cs payer_sk c =
     and_then (checkpoint_covered_bytes c) (\<lambda>cov.
     Inr (c\<lparr>ck_sig_payer := Some (ed25519_sign cs payer_sk cov)\<rparr>))"

definition sign_merchant :: "crypto_suite \<Rightarrow> bytes \<Rightarrow> checkpoint \<Rightarrow> error + checkpoint" where
  "sign_merchant cs merchant_sk c =
     and_then (checkpoint_covered_bytes c) (\<lambda>cov.
     Inr (c\<lparr>ck_sig_merchant := Some (ed25519_sign cs merchant_sk cov)\<rparr>))"

text \<open>\<open>ed25519_verify_strict\<close> as a fallible call.\<close>

definition verify_sig :: "crypto_suite \<Rightarrow> bytes \<Rightarrow> bytes \<Rightarrow> bytes \<Rightarrow> error + unit" where
  "verify_sig cs pk msg sig = ensure (ed25519_verify_strict cs pk msg sig) BadSignature"

definition verify_payer :: "crypto_suite \<Rightarrow> bytes \<Rightarrow> checkpoint \<Rightarrow> error + unit" where
  "verify_payer cs payer_pk c =
     and_then (ok_or (ck_sig_payer c) MissingField) (\<lambda>sp.
     and_then (checkpoint_covered_bytes c) (\<lambda>cov. verify_sig cs payer_pk cov sp))"

definition verify_bilateral :: "crypto_suite \<Rightarrow> bytes \<Rightarrow> bytes \<Rightarrow> checkpoint \<Rightarrow> error + unit" where
  "verify_bilateral cs payer_pk merchant_pk c =
     and_then (checkpoint_covered_bytes c) (\<lambda>cov.
     and_then (ok_or (ck_sig_payer c) MissingField) (\<lambda>sp.
     and_then (ok_or (ck_sig_merchant c) MissingField) (\<lambda>sm.
     and_then (verify_sig cs payer_pk cov sp) (\<lambda>_.
     verify_sig cs merchant_pk cov sm))))"

definition checkpoint_encode :: "checkpoint \<Rightarrow> error + bytes" where
  "checkpoint_encode c =
     and_then (content_fields c) (\<lambda>fields.
     let fields = fields @ (case ck_sig_payer c of None \<Rightarrow> []
                            | Some sp \<Rightarrow> [field_new CK_SIG_PAYER False sp]);
         fields = fields @ (case ck_sig_merchant c of None \<Rightarrow> []
                            | Some sm \<Rightarrow> [field_new CK_SIG_MERCHANT False sm])
     in and_then (from_fields fields) (\<lambda>obj. Inr (object_encode obj)))"

definition checkpoint_reference :: "crypto_suite \<Rightarrow> checkpoint \<Rightarrow> error + bytes" where
  "checkpoint_reference cs c =
     (if ck_sig_payer c = None \<or> ck_sig_merchant c = None then Inl MissingField
      else and_then (checkpoint_encode c) (\<lambda>bs. Inr (sha256 cs bs)))"

definition synthetic_reference :: "crypto_suite \<Rightarrow> checkpoint \<Rightarrow> error + bytes" where
  "synthetic_reference cs c =
     (if ck_sig_payer c \<noteq> None \<or> ck_sig_merchant c \<noteq> None then Inl MissingField
      else and_then (checkpoint_encode c) (\<lambda>bs. Inr (sha256 cs bs)))"

section \<open>Parsing\<close>

text \<open>The item parsers passed to \<open>parse_count_prefixed\<close>.\<close>

definition parse_accrual :: "bytes \<Rightarrow> error + (u8 \<times> nat) \<times> nat" where
  "parse_accrual b =
     (if b = [] then Inl CountMismatch
      else
        and_then (leb_decode (drop 1 b)) (\<lambda>(len, n).
        let s = 1 + n; e = s + unat len in
        if length b < e then Inl LengthOverrun
        else
          and_then (decode_uint_biguint (take (unat len) (drop s b))) (\<lambda>num.
          and_then (check_field_domain num Value) (\<lambda>_. Inr ((b ! 0, num), e)))))"

definition parse_range :: "bytes \<Rightarrow> error + seq_range \<times> nat" where
  "parse_range b =
     (if length b < 16 then Inl CountMismatch
      else
        let lo = word_of_nat (be_nat (take 8 b)); hi = word_of_nat (be_nat (take 8 (drop 8 b))) in
        if hi < lo then Inl FieldDomain
        else if SEQ_MAX < hi then Inl FieldDomain
        else Inr (\<lparr>range_lo = lo, range_hi = hi\<rparr>, 16))"

definition parse_event :: "bytes \<Rightarrow> error + event \<times> nat" where
  "parse_event b =
     (if b = [] then Inl CountMismatch
      else if \<not> (0x01 \<le> b ! 0 \<and> b ! 0 \<le> 0x03) then Inl FieldDomain
      else
        and_then (leb_decode (drop 1 b)) (\<lambda>(len, n).
        let s = 1 + n; e = s + unat len in
        if length b < e then Inl LengthOverrun
        else Inr (\<lparr>ev_kind = b ! 0, ev_reference = take (unat len) (drop s b)\<rparr>, e)))"

text \<open>Tuples \<open>(kind, reference)\<close> compare lexicographically, byte strings as well.\<close>

fun bytes_less :: "bytes \<Rightarrow> bytes \<Rightarrow> bool" where
  "bytes_less xs [] = False"
| "bytes_less [] (y # ys) = True"
| "bytes_less (x # xs) (y # ys) = (x < y \<or> (x = y \<and> bytes_less xs ys))"

definition event_less :: "event \<Rightarrow> event \<Rightarrow> bool" where
  "event_less a b \<longleftrightarrow>
     ev_kind a < ev_kind b \<or> (ev_kind a = ev_kind b \<and> bytes_less (ev_reference a) (ev_reference b))"

text \<open>A loop over \<open>windows(2)\<close> that rejects the first pair out of order.\<close>

definition check_pairs :: "('a \<Rightarrow> 'a \<Rightarrow> bool) \<Rightarrow> 'a list \<Rightarrow> error + unit" where
  "check_pairs ok xs = ensure (successively ok xs) TypeOrder"

definition ranges_apart :: "seq_range \<Rightarrow> seq_range \<Rightarrow> bool" where
  "ranges_apart a b \<longleftrightarrow> \<not> range_lo b \<le> sat_add (range_hi a) 1"

definition checkpoint_parse :: "bytes \<Rightarrow> error + checkpoint" where
  "checkpoint_parse buf =
     and_then (object_parse buf) (\<lambda>obj.
     and_then (object_validate obj checkpoint_schema) (\<lambda>_.
     and_then (and_then (get_value obj CK_CHANNEL_ID) (fixed_bytes 8)) (\<lambda>channel_id.
     and_then (and_then (get_value obj CK_BALANCE) decode_sint) (\<lambda>bal.
     let balance_negative = bal < 0; balance = nat \<bar>bal\<bar> in
     and_then (check_field_domain balance Value) (\<lambda>_.
     and_then (and_then (get_value obj CK_CUM_TOTAL) decode_uint_biguint) (\<lambda>cum_total.
     and_then (check_field_domain cum_total Value) (\<lambda>_.
     and_then (and_then (get_value obj CK_ACCRUALS) (\<lambda>v. parse_count_prefixed v parse_accrual)) (\<lambda>accruals.
     and_then (check_pairs (\<lambda>a b. fst a < fst b) accruals) (\<lambda>_.
     and_then (and_then (get_value obj CK_LAST_SEQ) (fixed_bytes 8)) (\<lambda>seq_bytes.
     let last_seq = word_of_nat (be_nat seq_bytes) in
     if SEQ_MAX < last_seq then Inl FieldDomain else
     and_then (and_then (get_value obj CK_RANGES) (\<lambda>v. parse_count_prefixed v parse_range)) (\<lambda>ranges.
     and_then (check_pairs ranges_apart ranges) (\<lambda>_.
     and_then (and_then (get_value obj CK_TRANSCRIPT) (fixed_bytes 32)) (\<lambda>transcript.
     and_then (and_then (get_value obj CK_EVENTS) (\<lambda>v. parse_count_prefixed v parse_event)) (\<lambda>events.
     and_then (check_pairs event_less events) (\<lambda>_.
     and_then (and_then (get_value obj CK_TIMESTAMP) decode_uint_time) (\<lambda>timestamp.
     and_then (and_then (get_value obj CK_PREV_REF) (fixed_bytes 32)) (\<lambda>prev_ref.
     and_then (get_optional obj CK_SIG_PAYER 64) (\<lambda>sig_payer.
     and_then (get_optional obj CK_SIG_MERCHANT 64) (\<lambda>sig_merchant.
     Inr \<lparr>ck_channel_id = channel_id, ck_balance = balance, ck_balance_negative = balance_negative,
          ck_cum_total = cum_total, ck_accruals = accruals, ck_last_seq = last_seq, ck_ranges = ranges,
          ck_transcript = transcript, ck_events = events, ck_timestamp = timestamp,
          ck_prev_ref = prev_ref, ck_sig_payer = sig_payer, ck_sig_merchant = sig_merchant\<rparr>)))))))))))))))))))"

section \<open>The checkpoint request\<close>

definition R_PROPOSED :: u8 where "R_PROPOSED = 0x00"
definition R_SIG :: u8 where "R_SIG = 0x70"

definition request_schema :: schema where
  "request_schema = schema_new Closed [(R_PROPOSED, False), (R_SIG, False)]"

record checkpoint_request =
  rq_proposed :: checkpoint
  rq_sig :: "bytes option"

definition proposing :: "checkpoint \<Rightarrow> checkpoint_request" where
  "proposing proposed = \<lparr>rq_proposed = proposed, rq_sig = None\<rparr>"

definition request_covered_bytes :: "checkpoint_request \<Rightarrow> error + bytes" where
  "request_covered_bytes r =
     and_then (checkpoint_encode (rq_proposed r)) (\<lambda>inner.
     and_then (from_fields [field_new R_PROPOSED False inner]) (\<lambda>obj.
     Inr (covered CkptReq (object_encode obj))))"

definition request_sign :: "crypto_suite \<Rightarrow> bytes \<Rightarrow> checkpoint_request \<Rightarrow> error + checkpoint_request" where
  "request_sign cs payer_sk r =
     and_then (request_covered_bytes r) (\<lambda>cov. Inr (r\<lparr>rq_sig := Some (ed25519_sign cs payer_sk cov)\<rparr>))"

definition request_verify :: "crypto_suite \<Rightarrow> bytes \<Rightarrow> checkpoint_request \<Rightarrow> error + unit" where
  "request_verify cs payer_pk r =
     (if ck_sig_merchant (rq_proposed r) \<noteq> None then Inl error.InconsistentProposal
      else
        and_then (ok_or (rq_sig r) MissingField) (\<lambda>sig.
        and_then (request_covered_bytes r) (\<lambda>cov.
        and_then (verify_sig cs payer_pk cov sig) (\<lambda>_.
        verify_payer cs payer_pk (rq_proposed r)))))"

definition request_encode :: "checkpoint_request \<Rightarrow> error + bytes" where
  "request_encode r =
     and_then (checkpoint_encode (rq_proposed r)) (\<lambda>inner.
     and_then (from_fields ([field_new R_PROPOSED False inner]
        @ (case rq_sig r of None \<Rightarrow> [] | Some sig \<Rightarrow> [field_new R_SIG False sig]))) (\<lambda>obj.
     Inr (object_encode obj)))"

definition request_parse :: "bytes \<Rightarrow> error + checkpoint_request" where
  "request_parse buf =
     and_then (object_parse buf) (\<lambda>obj.
     and_then (object_validate obj request_schema) (\<lambda>_.
     and_then (and_then (get_value obj R_PROPOSED) checkpoint_parse) (\<lambda>proposed.
     and_then (get_optional obj R_SIG 64) (\<lambda>sig.
     Inr \<lparr>rq_proposed = proposed, rq_sig = sig\<rparr>))))"

section \<open>The synthetic checkpoint of a stillborn channel\<close>

record stillborn_state =
  sb_channel_id :: bytes
  sb_prepay :: bool
  sb_cum_total :: nat
  sb_accruals :: "(u8 \<times> nat) list"
  sb_settled_sum :: nat
  sb_net_legs_sum :: nat
  sb_funding_sum :: nat
  sb_timestamp :: u64
  sb_prev_ref :: bytes

definition synthetic_balance :: "stillborn_state \<Rightarrow> error + nat \<times> bool" where
  "synthetic_balance s =
     (if sb_prepay s then
        (if sb_funding_sum s < sb_cum_total s then Inl error.InconsistentProposal
         else let mag = sb_funding_sum s - sb_cum_total s in Inr (mag, mag \<noteq> 0))
      else
        let settled_carve = sb_settled_sum s div 10000;
            bal = int (sb_cum_total s) - int (sb_funding_sum s) - int (sb_net_legs_sum s)
                  - int settled_carve
        in Inr (nat \<bar>bal\<bar>, bal < 0))"

definition synthetic_checkpoint :: "crypto_suite \<Rightarrow> stillborn_state \<Rightarrow> error + checkpoint" where
  "synthetic_checkpoint cs s =
     and_then (synthetic_balance s) (\<lambda>(balance, balance_negative).
     let events = if sb_prev_ref s = replicate 32 0 then []
                  else [\<lparr>ev_kind = 0x03, ev_reference = sb_prev_ref s\<rparr>]
     in Inr \<lparr>ck_channel_id = sb_channel_id s, ck_balance = balance,
             ck_balance_negative = balance_negative, ck_cum_total = sb_cum_total s,
             ck_accruals = sb_accruals s, ck_last_seq = 0, ck_ranges = [],
             ck_transcript = head_0 cs (sb_channel_id s), ck_events = events,
             ck_timestamp = sb_timestamp s, ck_prev_ref = sb_prev_ref s,
             ck_sig_payer = None, ck_sig_merchant = None\<rparr>)"

end
