(* ===== verification/Channel_State.thy ===== *)
theory Channel_State
  imports Checkpoint
begin

text \<open>
  Slice acceptance, the lifecycle and the checkpoint commit of
  \<^verbatim>\<open>crates/paytp-core/src/channel/state.rs\<close>. \<open>i128\<close> values are integers and \<open>u128\<close> counters natural
  numbers with the saturation, the wrapping cast and the overflow panic of the source written out;
  the ordered set and map are ascending lists. A function whose only failure is a panic returns an
  option, \<open>None\<close> the panic; \<open>accept_slice\<close> returns its result beside the state it leaves.
\<close>

section \<open>Machine arithmetic\<close>

definition I128_MAX :: int where "I128_MAX = 2 ^ 127 - 1"
definition I128_MIN :: int where "I128_MIN = - (2 ^ 127)"
definition U128_MAX :: nat where "U128_MAX = 2 ^ 128 - 1"

definition sat_i128 :: "int \<Rightarrow> int" where
  "sat_i128 x = max I128_MIN (min I128_MAX x)"

text \<open>The cast \<open>u128 as i128\<close>, and \<open>i128::try_from(u128).unwrap_or(i128::MAX)\<close>.\<close>

definition cast_i128 :: "nat \<Rightarrow> int" where
  "cast_i128 x = (int x + 2 ^ 127) mod 2 ^ 128 - 2 ^ 127"

definition i128_or_max :: "nat \<Rightarrow> int" where
  "i128_or_max x = (if int x \<le> I128_MAX then int x else I128_MAX)"

definition checked_i128 :: "int \<Rightarrow> int option" where
  "checked_i128 x = (if I128_MIN \<le> x \<and> x \<le> I128_MAX then Some x else None)"

definition checked_u128 :: "nat \<Rightarrow> nat option" where
  "checked_u128 x = (if x \<le> U128_MAX then Some x else None)"

section \<open>The state\<close>

datatype mode = Prepay | Postpay

datatype status = StOpen | PausedWindow | PausedEvidence | StSettling | StClosed

datatype phase = PhOpen | PhSettling | PhClosed

datatype accept_error = BadMac | SeqInvalid | WindowExceeded | EvidenceRequired | NotOpen

datatype import_error = VectorMismatch | BalanceOutOfBounds

record channel_state =
  st_k_session :: "bytes option"
  st_mode :: mode
  st_bound_upper :: int
  st_bound_lower :: int
  st_limit_e :: nat
  st_vector :: "(u8 \<times> u16) list"
  st_balance :: int
  st_cum_total :: nat
  st_accruals :: "nat list"
  st_unevidenced :: nat
  st_floor :: u64
  st_accounted :: "u64 list"
  st_channel_id :: bytes
  st_committed_head :: bytes
  st_window :: "(u64 \<times> slice) list"
  st_phase :: phase
  st_paused_window :: bool
  st_paused_evidence :: bool

definition new_state ::
  "crypto_suite \<Rightarrow> bytes \<Rightarrow> bytes \<Rightarrow> mode \<Rightarrow> u128 \<Rightarrow> u128 \<Rightarrow> (u8 \<times> u16) list \<Rightarrow> channel_state" where
  "new_state cs channel_id k_sess m limit_l limit_e vector =
     (let limit_i = i128_or_max (unat limit_l);
          (bound_upper, bound_lower, balance) =
            (case m of Postpay \<Rightarrow> (limit_i, 0, 0) | Prepay \<Rightarrow> (0, - limit_i, 0))
      in \<lparr>st_k_session = Some k_sess, st_mode = m, st_bound_upper = bound_upper,
          st_bound_lower = bound_lower, st_limit_e = unat limit_e, st_vector = vector,
          st_balance = balance, st_cum_total = 0, st_accruals = replicate (length vector) 0,
          st_unevidenced = 0, st_floor = 0, st_accounted = [], st_channel_id = channel_id,
          st_committed_head = head_0 cs channel_id, st_window = [], st_phase = PhOpen,
          st_paused_window = False, st_paused_evidence = False\<rparr>)"

definition new_imported ::
  "crypto_suite \<Rightarrow> bytes \<Rightarrow> bytes \<Rightarrow> mode \<Rightarrow> u128 \<Rightarrow> u128 \<Rightarrow> (u8 \<times> u16) list \<Rightarrow> u128 \<Rightarrow> nat list \<Rightarrow> int
    \<Rightarrow> import_error + channel_state" where
  "new_imported cs channel_id k_sess m limit_l limit_e vector imp_cum imp_accruals imp_balance =
     (if length imp_accruals \<noteq> length vector then Inl VectorMismatch
      else
        let st = new_state cs channel_id k_sess m limit_l limit_e vector in
        if st_bound_upper st < imp_balance \<or> imp_balance < st_bound_lower st then Inl BalanceOutOfBounds
        else Inr (st\<lparr>st_cum_total := unat imp_cum, st_accruals := imp_accruals, st_balance := imp_balance\<rparr>))"

definition channel_status :: "channel_state \<Rightarrow> status" where
  "channel_status st =
     (case st_phase st of
        PhSettling \<Rightarrow> StSettling
      | PhClosed \<Rightarrow> StClosed
      | PhOpen \<Rightarrow> if st_paused_window st then PausedWindow
                  else if st_paused_evidence st then PausedEvidence else StOpen)"

definition accruals_by_role :: "channel_state \<Rightarrow> (u8 \<times> nat) list" where
  "accruals_by_role st = zip (map fst (st_vector st)) (st_accruals st)"

definition unsettled_estimate :: "channel_state \<Rightarrow> nat" where
  "unsettled_estimate st = nat (max (st_balance st) 0)"

section \<open>Accepting slices\<close>

fun accrue_big :: "nat list \<Rightarrow> (u8 \<times> u16) list \<Rightarrow> nat \<Rightarrow> nat list" where
  "accrue_big (acc # accs) ((r, b) # vs) amt = (acc + amt * unat b) # accrue_big accs vs amt"
| "accrue_big accs vs amt = accs"

definition accept_slice ::
  "crypto_suite \<Rightarrow> slice \<Rightarrow> channel_state \<Rightarrow> (accept_error fault + unit) \<times> channel_state" where
  "accept_slice cs s st =
     (let key = (case st_k_session st of None \<Rightarrow> replicate 32 0 | Some k \<Rightarrow> k);
          mac_ok = slice_verify cs key s in
      if st_k_session st = None \<or> \<not> mac_ok then (Inl (Err BadMac), st)
      else if st_phase st \<noteq> PhOpen then (Inl (Err NotOpen), st)
      else if seq s \<le> st_floor st \<or> seq s \<in> set (st_accounted st) then (Inl (Err SeqInvalid), st)
      else if st_paused_window st then (Inl (Err WindowExceeded), st)
      else
        let amt = unat (amt_micro s);
            new_balance = sat_i128 (st_balance st + cast_i128 amt) in
        if st_bound_upper st < new_balance then
          (Inl (Err WindowExceeded), st\<lparr>st_paused_window := True\<rparr>)
        else
          (case checked_u128 (st_unevidenced st + amt) of
             None \<Rightarrow> (Inl Panic, st)
           | Some unevidenced \<Rightarrow>
               if st_limit_e st < unevidenced then (Inl (Err EvidenceRequired), st)
               else (Inr (),
                 st\<lparr>st_balance := new_balance,
                    st_cum_total := min (st_cum_total st + amt) U128_MAX,
                    st_accruals := accrue_big (st_accruals st) (st_vector st) amt,
                    st_unevidenced := unevidenced,
                    st_accounted := insort (seq s) (st_accounted st),
                    st_window := map_insert (seq s) s (st_window st),
                    st_paused_evidence := st_paused_evidence st \<or> st_limit_e st \<le> unevidenced\<rparr>)))"

fun accept_all ::
  "crypto_suite \<Rightarrow> slice list \<Rightarrow> channel_state \<Rightarrow> (accept_error fault + unit) \<times> channel_state" where
  "accept_all cs [] st = (Inr (), st)"
| "accept_all cs (s # ss) st =
     (case accept_slice cs s st of
        (Inl e, st') \<Rightarrow> (Inl e, st')
      | (Inr u, st') \<Rightarrow> accept_all cs ss st')"

definition accept_batch ::
  "crypto_suite \<Rightarrow> slice list \<Rightarrow> channel_state \<Rightarrow> (accept_error fault + unit) \<times> channel_state" where
  "accept_batch cs slices st =
     (case accept_all cs slices st of
        (Inl e, tentative) \<Rightarrow>
          (Inl e, if e = Err WindowExceeded then st\<lparr>st_paused_window := True\<rparr> else st)
      | (Inr u, tentative) \<Rightarrow> (Inr u, tentative))"

section \<open>Funding and settlement\<close>

definition credit_funding :: "u128 \<Rightarrow> channel_state \<Rightarrow> channel_state" where
  "credit_funding credited st =
     (let b = sat_i128 (st_balance st - i128_or_max (unat credited));
          b = (if b < st_bound_lower st then st_bound_lower st else b)
      in st\<lparr>st_balance := b,
            st_paused_window := (if 0 < credited \<and> st_paused_window st then False else st_paused_window st)\<rparr>)"

definition apply_settlement_round :: "u128 \<Rightarrow> channel_state \<Rightarrow> channel_state" where
  "apply_settlement_round gross st =
     (if st_mode st = Postpay then
        (let b = sat_i128 (st_balance st - i128_or_max (unat gross));
             b = (if b < st_bound_lower st then st_bound_lower st else b)
         in st\<lparr>st_balance := b,
               st_paused_window := (if 0 < gross \<and> st_paused_window st then False else st_paused_window st)\<rparr>)
      else st)"

section \<open>Building and recomputing checkpoints\<close>

text \<open>The loop of \<open>ranges_upto\<close>: a run \<open>lo..hi\<close> is open. A later sequence number exceeds \<open>hi\<close>, so
  \<open>hi + 1\<close> does not overflow.\<close>

fun runs :: "u64 \<Rightarrow> u64 \<Rightarrow> u64 list \<Rightarrow> seq_range list" where
  "runs lo hi [] = [\<lparr>range_lo = lo, range_hi = hi\<rparr>]"
| "runs lo hi (s # ss) =
     (if s = hi + 1 then runs lo s ss else \<lparr>range_lo = lo, range_hi = hi\<rparr> # runs s s ss)"

definition ranges_upto :: "u64 \<Rightarrow> channel_state \<Rightarrow> seq_range list" where
  "ranges_upto cutoff st =
     (case filter (\<lambda>s. s \<le> cutoff) (st_accounted st) of
        [] \<Rightarrow> []
      | first # rest \<Rightarrow> runs first first rest)"

definition window_amounts :: "(u64 \<times> slice) list \<Rightarrow> nat" where
  "window_amounts w = sum_list (map (\<lambda>(q, s). unat (amt_micro s)) w)"

text \<open>The transcript advanced over the window slices at or below the cutoff, in sequence order.\<close>

definition fold_window :: "crypto_suite \<Rightarrow> u64 \<Rightarrow> channel_state \<Rightarrow> bytes" where
  "fold_window cs cutoff st =
     foldl (advance cs) (st_committed_head st)
       (map (slice_encode \<circ> snd) (filter (\<lambda>(q, s). q \<le> cutoff) (st_window st)))"

text \<open>Per-role subtraction of unsigned big integers, which panics below zero.\<close>

fun exclude_accruals :: "(u8 \<times> u16) list \<Rightarrow> nat list \<Rightarrow> nat \<Rightarrow> (u8 \<times> nat) list option" where
  "exclude_accruals ((r, b) # vs) (acc # accs) ex =
     (if acc < ex * unat b then None
      else map_option (Cons (r, acc - ex * unat b)) (exclude_accruals vs accs ex))"
| "exclude_accruals vs accs ex = Some []"

definition build_checkpoint_at ::
  "crypto_suite \<Rightarrow> u64 \<Rightarrow> u64 \<Rightarrow> bytes \<Rightarrow> event list \<Rightarrow> channel_state \<Rightarrow> checkpoint option" where
  "build_checkpoint_at cs cutoff timestamp prev_ref events st =
     Option.bind (checked_u128 (window_amounts (filter (\<lambda>(q, s). cutoff < q) (st_window st)))) (\<lambda>excluded.
     let cum = st_cum_total st - excluded in
     Option.bind (exclude_accruals (st_vector st) (st_accruals st) excluded) (\<lambda>accruals.
     Option.bind (checked_i128 (st_balance st - cast_i128 excluded)) (\<lambda>hist_balance.
     let (balance, balance_negative) =
           (if hist_balance < 0 then (nat \<bar>hist_balance\<bar>, True) else (nat hist_balance, False));
         below = filter (\<lambda>q. q \<le> cutoff) (st_accounted st);
         last_seq = (if below = [] then st_floor st else last below);
         head = fold_window cs cutoff st
     in Some \<lparr>ck_channel_id = st_channel_id st, ck_balance = balance,
              ck_balance_negative = balance_negative, ck_cum_total = cum, ck_accruals = accruals,
              ck_last_seq = last_seq, ck_ranges = ranges_upto cutoff st, ck_transcript = head,
              ck_events = events, ck_timestamp = timestamp, ck_prev_ref = prev_ref,
              ck_sig_payer = None, ck_sig_merchant = None\<rparr>)))"

definition build_checkpoint ::
  "crypto_suite \<Rightarrow> u64 \<Rightarrow> bytes \<Rightarrow> event list \<Rightarrow> channel_state \<Rightarrow> checkpoint option" where
  "build_checkpoint cs timestamp prev_ref events st =
     build_checkpoint_at cs (- 1) timestamp prev_ref events st"

definition recomputes :: "crypto_suite \<Rightarrow> checkpoint \<Rightarrow> channel_state \<Rightarrow> bool option" where
  "recomputes cs proposed st =
     map_option (\<lambda>own.
         ck_channel_id own = ck_channel_id proposed
       \<and> ck_cum_total own = ck_cum_total proposed
       \<and> ck_accruals own = ck_accruals proposed
       \<and> ck_balance own = ck_balance proposed
       \<and> ck_balance_negative own = ck_balance_negative proposed
       \<and> ck_last_seq own = ck_last_seq proposed
       \<and> ck_ranges own = ck_ranges proposed
       \<and> ck_transcript own = ck_transcript proposed)
     (build_checkpoint_at cs (ck_last_seq proposed) (ck_timestamp proposed) (ck_prev_ref proposed)
        (ck_events proposed) st)"

definition checkpoint_upto :: "crypto_suite \<Rightarrow> u64 \<Rightarrow> channel_state \<Rightarrow> channel_state option" where
  "checkpoint_upto cs cutoff st =
     (let head = fold_window cs cutoff st;
          window = filter (\<lambda>(q, s). cutoff < q) (st_window st);
          accounted = filter (\<lambda>q. cutoff < q) (st_accounted st)
      in map_option (\<lambda>unevidenced.
           st\<lparr>st_committed_head := head, st_window := window, st_accounted := accounted,
              st_floor := cutoff, st_unevidenced := unevidenced,
              st_paused_evidence := st_limit_e st \<le> unevidenced\<rparr>)
         (checked_u128 (window_amounts window)))"

definition channel_checkpoint :: "crypto_suite \<Rightarrow> channel_state \<Rightarrow> channel_state option" where
  "channel_checkpoint cs st =
     (let hi = (if st_accounted st = [] then st_floor st else last (st_accounted st))
      in checkpoint_upto cs hi st)"

section \<open>Lifecycle and supersession\<close>

definition begin_settling :: "channel_state \<Rightarrow> channel_state" where
  "begin_settling st = (if st_phase st \<noteq> PhClosed then st\<lparr>st_phase := PhSettling\<rparr> else st)"

definition close_channel :: "channel_state \<Rightarrow> channel_state" where
  "close_channel st = st\<lparr>st_phase := PhClosed, st_k_session := None\<rparr>"

definition operative :: "nat \<times> bytes \<Rightarrow> nat \<times> bytes \<Rightarrow> bytes" where
  "operative a b =
     (if fst b < fst a then snd a
      else if fst a < fst b then snd b
      else if \<not> bytes_less (snd a) (snd b) then snd a else snd b)"

end
