(* ===== verification/Channel_Invariant.thy ===== *)
theory Channel_Invariant
  imports Channel_State "HOL-Library.Multiset"
begin

text \<open>
  The invariant of a channel's state and its preservation by every operation: the balance stays
  inside the mode's bounds, the unevidenced value is the value of the window and within \<open>E\<close>, the
  window, the accounted numbers and the floor agree, the accruals cover what the window contributed,
  and the key is present exactly while the channel is not closed.
\<close>

section \<open>The arithmetic and the ordered map\<close>

lemmas i128_defs = I128_MAX_def I128_MIN_def sat_i128_def i128_or_max_def checked_i128_def

lemma cast_small: "x < 2 ^ 127 \<Longrightarrow> cast_i128 x = int x"
proof -
  assume "x < 2 ^ 127"
  then have "int x < 2 ^ 127" by simp
  then show ?thesis by (simp add: cast_i128_def)
qed

lemma cast_amount [simp]: "cast_i128 (unat a) = int (unat a)" for a :: u64
  using unat_lt2p [of a] by (intro cast_small) simp

lemma checked_u128_Some [simp]: "checked_u128 x = Some y \<longleftrightarrow> x = y \<and> x \<le> U128_MAX"
  by (auto simp: checked_u128_def)

lemma checked_u128_small [simp]: "x \<le> U128_MAX \<Longrightarrow> checked_u128 x = Some x"
  by simp

lemma map_insert_parts:
  "sorted_wrt (<) (map fst w) \<Longrightarrow> q \<notin> set (map fst w) \<Longrightarrow>
   map fst (map_insert q s w) = insort q (map fst w) \<and> mset (map_insert q s w) = add_mset (q, s) (mset w)"
proof (induction w)
  case (Cons x w)
  obtain a b where x: "x = (a, b)" by (cases x)
  consider "q < a" | "a < q" using Cons.prems x by force
  then show ?case using Cons by cases (auto simp: x)
qed simp

lemma map_insert_fresh:
  assumes "sorted_wrt (<) (map fst w)" "q \<notin> set (map fst w)"
  shows "map fst (map_insert q s w) = insort q (map fst w)"
    "mset (map_insert q s w) = add_mset (q, s) (mset w)" "set (map_insert q s w) = insert (q, s) (set w)"
proof -
  show m: "mset (map_insert q s w) = add_mset (q, s) (mset w)" using map_insert_parts [OF assms] by blast
  show "map fst (map_insert q s w) = insort q (map fst w)" using map_insert_parts [OF assms] by blast
  have "set_mset (mset (map_insert q s w)) = set_mset (add_mset (q, s) (mset w))" by (simp only: m)
  then show "set (map_insert q s w) = insert (q, s) (set w)" by simp
qed

lemma strict_insort:
  "sorted_wrt (<) (xs :: 'a::linorder list) \<Longrightarrow> x \<notin> set xs \<Longrightarrow> sorted_wrt (<) (insort x xs)"
  by (simp add: strict_sorted_iff sorted_insort distinct_insort)

lemma window_amounts_simps [simp]:
  "window_amounts [] = 0" "window_amounts (x # w) = unat (amt_micro (snd x)) + window_amounts w"
  "window_amounts (v @ w) = window_amounts v + window_amounts w"
  by (simp_all add: window_amounts_def split: prod.splits)

lemma window_amounts_mset: "window_amounts w = sum_mset (image_mset (\<lambda>x. unat (amt_micro (snd x))) (mset w))"
  by (induction w) simp_all

lemma window_amounts_insert:
  "sorted_wrt (<) (map fst w) \<Longrightarrow> q \<notin> set (map fst w) \<Longrightarrow>
   window_amounts (map_insert q s w) = unat (amt_micro s) + window_amounts w"
  by (simp add: window_amounts_mset map_insert_fresh)

lemma window_amounts_filter:
  "window_amounts (filter p w) + window_amounts (filter (\<lambda>x. \<not> p x) w) = window_amounts w"
  by (induction w) auto

lemma window_amounts_filter_le: "window_amounts (filter p w) \<le> window_amounts w"
  using window_amounts_filter [of p w] by linarith

section \<open>The invariant\<close>

definition bounds_ok :: "channel_state \<Rightarrow> bool" where
  "bounds_ok st \<longleftrightarrow>
     - I128_MAX \<le> st_bound_lower st \<and> st_bound_lower st \<le> 0 \<and> 0 \<le> st_bound_upper st \<and>
     st_bound_upper st \<le> I128_MAX \<and> st_bound_lower st \<le> st_balance st \<and> st_balance st \<le> st_bound_upper st"

definition counters_ok :: "channel_state \<Rightarrow> bool" where
  "counters_ok st \<longleftrightarrow>
     st_cum_total st \<le> U128_MAX \<and> st_limit_e st \<le> U128_MAX \<and>
     st_unevidenced st = window_amounts (st_window st) \<and> st_unevidenced st \<le> st_limit_e st \<and>
     (st_paused_evidence st \<longrightarrow> st_limit_e st \<le> st_unevidenced st)"

definition window_ok :: "channel_state \<Rightarrow> bool" where
  "window_ok st \<longleftrightarrow>
     st_accounted st = map fst (st_window st) \<and> sorted_wrt (<) (map fst (st_window st)) \<and>
     (\<forall>(q, s) \<in> set (st_window st). seq s = q \<and> st_floor st < q)"

text \<open>Every accrual covers the contribution \<open>amount \<times> bp\<close> of the slices of the window.\<close>

definition accruals_cover :: "channel_state \<Rightarrow> bool" where
  "accruals_cover st \<longleftrightarrow>
     list_all2 (\<lambda>(r, b) acc. window_amounts (st_window st) * unat b \<le> acc) (st_vector st) (st_accruals st)"

definition key_ok :: "channel_state \<Rightarrow> bool" where
  "key_ok st \<longleftrightarrow> (st_k_session st = None \<longleftrightarrow> st_phase st = PhClosed)"

definition channel_ok :: "channel_state \<Rightarrow> bool" where
  "channel_ok st \<longleftrightarrow> bounds_ok st \<and> counters_ok st \<and> window_ok st \<and> accruals_cover st \<and> key_ok st"

lemmas channel_parts = bounds_ok_def counters_ok_def window_ok_def accruals_cover_def key_ok_def

lemma limit_bounds: "0 \<le> i128_or_max x \<and> i128_or_max x \<le> I128_MAX"
  by (simp add: i128_defs)

lemma new_state_ok: "channel_ok (new_state cs cid k m limit_l limit_e vector)"
proof -
  have "unat limit_e \<le> U128_MAX" using unat_lt2p [of limit_e] by (simp add: U128_MAX_def)
  moreover have "list_all2 (\<lambda>(r, b :: u16) acc. 0 * unat b \<le> acc) vector (replicate (length vector) 0)"
    by (simp add: list_all2_conv_all_nth split: prod.splits)
  ultimately show ?thesis
    using limit_bounds [of "unat limit_l"]
    by (cases m) (auto simp: channel_ok_def new_state_def channel_parts Let_def)
qed

lemma new_imported_ok:
  "new_imported cs cid k m limit_l limit_e vector cum accs bal = Inr st \<Longrightarrow> channel_ok st"
proof -
  let ?n = "new_state cs cid k m limit_l limit_e vector"
  assume st: "new_imported cs cid k m limit_l limit_e vector cum accs bal = Inr st"
  then have eq: "st = ?n\<lparr>st_cum_total := unat cum, st_accruals := accs, st_balance := bal\<rparr>"
    and b: "st_bound_lower ?n \<le> bal" "bal \<le> st_bound_upper ?n" "length accs = length vector"
    by (auto simp: new_imported_def Let_def split: if_splits)
  have "st_window ?n = []" "st_vector ?n = vector"
    by (cases m; simp add: new_state_def)+
  moreover have "unat cum \<le> U128_MAX" using unat_lt2p [of cum] by (simp add: U128_MAX_def)
  moreover have "list_all2 (\<lambda>(r, b :: u16) acc. 0 * unat b \<le> acc) vector accs"
    using b(3) by (simp add: list_all2_conv_all_nth split: prod.splits)
  ultimately show ?thesis
    using new_state_ok [of cs cid k m limit_l limit_e vector] b
    by (auto simp: eq channel_ok_def channel_parts)
qed

section \<open>Acceptance\<close>

text \<open>The state a successful acceptance leaves.\<close>

definition accepted_state :: "slice \<Rightarrow> channel_state \<Rightarrow> channel_state" where
  "accepted_state s st =
     (let amt = unat (amt_micro s) in
      st\<lparr>st_balance := sat_i128 (st_balance st + int amt),
         st_cum_total := min (st_cum_total st + amt) U128_MAX,
         st_accruals := accrue_big (st_accruals st) (st_vector st) amt,
         st_unevidenced := st_unevidenced st + amt,
         st_accounted := insort (seq s) (st_accounted st),
         st_window := map_insert (seq s) s (st_window st),
         st_paused_evidence := st_paused_evidence st \<or> st_limit_e st \<le> st_unevidenced st + amt\<rparr>)"

definition admissible :: "crypto_suite \<Rightarrow> slice \<Rightarrow> channel_state \<Rightarrow> bool" where
  "admissible cs s st \<longleftrightarrow>
     (\<exists>k. st_k_session st = Some k \<and> slice_verify cs k s) \<and> st_phase st = PhOpen \<and>
     st_floor st < seq s \<and> seq s \<notin> set (st_accounted st) \<and> \<not> st_paused_window st \<and>
     sat_i128 (st_balance st + int (unat (amt_micro s))) \<le> st_bound_upper st \<and>
     st_unevidenced st + unat (amt_micro s) \<le> U128_MAX \<and>
     st_unevidenced st + unat (amt_micro s) \<le> st_limit_e st"

lemma accept_slice_Inr:
  "accept_slice cs s st = (Inr u, st') \<longleftrightarrow> admissible cs s st \<and> st' = accepted_state s st"
  by (auto simp: accept_slice_def Let_def admissible_def accepted_state_def split: if_splits option.splits)

lemma accept_slice_Inl:
  "accept_slice cs s st = (Inl e, st') \<Longrightarrow>
   \<not> admissible cs s st \<and> (st' = st \<or> e = Err WindowExceeded \<and> st' = st\<lparr>st_paused_window := True\<rparr>)"
  by (auto simp: accept_slice_def Let_def admissible_def split: if_splits option.splits)

lemma accrue_big_cover:
  "list_all2 (\<lambda>(r, b) acc. w * unat b \<le> acc) vs accs \<Longrightarrow>
   list_all2 (\<lambda>(r, b) acc. (a + w) * unat b \<le> acc) vs (accrue_big accs vs a)"
  for vs :: "(u8 \<times> u16) list"
  by (induction vs accs rule: list_all2_induct) (auto simp: algebra_simps)

lemma sat_i128_upper: "sat_i128 (b + int a) \<le> u \<Longrightarrow> I128_MIN \<le> b \<Longrightarrow> b \<le> I128_MAX \<Longrightarrow>
    b \<le> sat_i128 (b + int a)"
  by (auto simp: sat_i128_def)

lemma accepted_ok:
  assumes "channel_ok st" "admissible cs s st"
  shows "channel_ok (accepted_state s st)"
proof -
  let ?a = "unat (amt_micro s)"
  note ok = assms(1) [unfolded channel_ok_def channel_parts]
  have w: "sorted_wrt (<) (map fst (st_window st))" "seq s \<notin> set (map fst (st_window st))"
    using ok assms(2) by (auto simp: admissible_def)
  have amounts: "window_amounts (map_insert (seq s) s (st_window st)) = ?a + window_amounts (st_window st)"
    by (rule window_amounts_insert [OF w])
  have "st_balance st \<le> sat_i128 (st_balance st + int ?a)"
    using ok assms(2) by (intro sat_i128_upper [of _ _ "st_bound_upper st"])
      (auto simp: admissible_def I128_MIN_def I128_MAX_def)
  then have "bounds_ok (accepted_state s st)"
    using ok assms(2) by (simp add: bounds_ok_def accepted_state_def Let_def admissible_def)
  moreover have "counters_ok (accepted_state s st)"
    using ok assms(2) by (auto simp: counters_ok_def accepted_state_def Let_def admissible_def amounts)
  moreover have "window_ok (accepted_state s st)"
    using ok assms(2) map_insert_fresh [OF w] strict_insort [OF w]
    by (auto simp: window_ok_def accepted_state_def Let_def admissible_def)
  moreover have "accruals_cover (accepted_state s st)"
    using ok accrue_big_cover by (simp add: accruals_cover_def accepted_state_def Let_def amounts)
  moreover have "key_ok (accepted_state s st)"
    using ok by (simp add: key_ok_def accepted_state_def Let_def)
  ultimately show ?thesis by (simp add: channel_ok_def)
qed

lemma pause_ok [simp]: "channel_ok (st\<lparr>st_paused_window := p\<rparr>) = channel_ok st"
  by (simp add: channel_ok_def channel_parts)

lemma accept_slice_ok: "channel_ok st \<Longrightarrow> channel_ok (snd (accept_slice cs s st))"
proof -
  assume ok: "channel_ok st"
  obtain r st' where r: "accept_slice cs s st = (r, st')" by (cases "accept_slice cs s st")
  show ?thesis
  proof (cases r)
    case (Inl e)
    then show ?thesis using accept_slice_Inl [of cs s st e st'] r ok by auto
  next
    case (Inr u)
    then have "admissible cs s st" "st' = accepted_state s st" using r by (simp_all add: accept_slice_Inr)
    then show ?thesis using accepted_ok [OF ok] r by simp
  qed
qed

lemma accept_all_ok: "channel_ok st \<Longrightarrow> channel_ok (snd (accept_all cs ss st))"
proof (induction ss arbitrary: st)
  case (Cons s ss)
  obtain r st' where r: "accept_slice cs s st = (r, st')" by (cases "accept_slice cs s st")
  with accept_slice_ok [OF Cons.prems, of cs s] have "channel_ok st'" by simp
  then show ?case using Cons.IH r by (cases r) auto
qed simp

lemma accept_batch_ok: "channel_ok st \<Longrightarrow> channel_ok (snd (accept_batch cs ss st))"
  using accept_all_ok [of st cs ss]
  by (cases "accept_all cs ss st") (auto simp: accept_batch_def split: sum.splits)

section \<open>Funding, rounds, commits and the lifecycle\<close>

lemma lowered_ok:
  assumes "channel_ok st"
  shows "channel_ok (st\<lparr>st_balance := (if sat_i128 (st_balance st - i128_or_max x) < st_bound_lower st
     then st_bound_lower st else sat_i128 (st_balance st - i128_or_max x)), st_paused_window := p\<rparr>)"
proof -
  note ok = assms [unfolded channel_ok_def channel_parts]
  have "sat_i128 (st_balance st - i128_or_max x) \<le> st_bound_upper st"
    using ok limit_bounds [of x] by (auto simp: sat_i128_def I128_MIN_def)
  then show ?thesis using ok by (auto simp: channel_ok_def channel_parts)
qed

lemma credit_funding_ok: "channel_ok st \<Longrightarrow> channel_ok (credit_funding c st)"
  unfolding credit_funding_def Let_def by (rule lowered_ok)

lemma settlement_round_ok: "channel_ok st \<Longrightarrow> channel_ok (apply_settlement_round g st)"
  unfolding apply_settlement_round_def Let_def using lowered_ok by simp

lemma begin_settling_ok: "channel_ok st \<Longrightarrow> channel_ok (begin_settling st)"
  by (auto simp: begin_settling_def channel_ok_def channel_parts)

lemma close_ok: "channel_ok st \<Longrightarrow> channel_ok (close_channel st)"
  by (auto simp: close_channel_def channel_ok_def channel_parts)

lemma filter_fst_eq: "map fst (filter (\<lambda>(q, s). p q) w) = filter p (map fst w)"
  by (induction w) auto

lemma accruals_cover_mono:
  "list_all2 (\<lambda>(r, b) acc. w * unat b \<le> acc) vs accs \<Longrightarrow> v \<le> w \<Longrightarrow>
   list_all2 (\<lambda>(r, b) acc. v * unat b \<le> acc) vs accs" for vs :: "(u8 \<times> u16) list"
  by (erule list_all2_mono) (auto intro: order_trans [OF mult_le_mono1])

text \<open>The commit never panics, and keeps the invariant for any cutoff.\<close>

lemma checkpoint_upto_Some:
  assumes "channel_ok st"
  shows "checkpoint_upto cs c st = Some (st\<lparr>st_committed_head := fold_window cs c st,
      st_window := filter (\<lambda>(q, s). c < q) (st_window st),
      st_accounted := filter (\<lambda>q. c < q) (st_accounted st), st_floor := c,
      st_unevidenced := window_amounts (filter (\<lambda>(q, s). c < q) (st_window st)),
      st_paused_evidence := st_limit_e st \<le> window_amounts (filter (\<lambda>(q, s). c < q) (st_window st))\<rparr>)"
proof -
  have "window_amounts (filter (\<lambda>(q, s). c < q) (st_window st)) \<le> U128_MAX"
    using window_amounts_filter_le [of "\<lambda>(q, s). c < q" "st_window st"] assms
    by (auto simp: channel_ok_def counters_ok_def)
  then show ?thesis by (simp add: checkpoint_upto_def Let_def)
qed

lemma checkpoint_upto_ok:
  assumes "channel_ok st" "checkpoint_upto cs c st = Some st'"
  shows "channel_ok st'"
proof -
  let ?w = "filter (\<lambda>(q, s). c < q) (st_window st)"
  note ok = assms(1) [unfolded channel_ok_def channel_parts]
  have le: "window_amounts ?w \<le> window_amounts (st_window st)" by (rule window_amounts_filter_le)
  have eq: "map fst ?w = filter (\<lambda>q. c < q) (map fst (st_window st))" by (rule filter_fst_eq)
  have "sorted_wrt (<) (map fst ?w)" unfolding eq using ok by (intro sorted_wrt_filter) blast
  moreover have "filter (\<lambda>q. c < q) (st_accounted st) = map fst ?w" unfolding eq using ok by metis
  moreover have "\<forall>(q, s) \<in> set ?w. seq s = q \<and> c < q" using ok by auto
  moreover have "list_all2 (\<lambda>(r, b) acc. window_amounts ?w * unat b \<le> acc) (st_vector st) (st_accruals st)"
    using ok le by (auto intro: accruals_cover_mono)
  moreover have st': "st' = st\<lparr>st_committed_head := fold_window cs c st, st_window := ?w,
      st_accounted := filter (\<lambda>q. c < q) (st_accounted st), st_floor := c,
      st_unevidenced := window_amounts ?w, st_paused_evidence := st_limit_e st \<le> window_amounts ?w\<rparr>"
    using assms(2) by (simp add: checkpoint_upto_Some [OF assms(1)])
  moreover have "counters_ok st'" using ok le by (auto simp: st' counters_ok_def)
  moreover have "bounds_ok st'" "key_ok st'" using ok by (simp_all add: st' bounds_ok_def key_ok_def)
  ultimately show ?thesis by (simp add: channel_ok_def window_ok_def accruals_cover_def)
qed

lemma channel_checkpoint_ok: "channel_ok st \<Longrightarrow> channel_checkpoint cs st = Some st' \<Longrightarrow> channel_ok st'"
  unfolding channel_checkpoint_def Let_def by (rule checkpoint_upto_ok)

end
