(* ===== verification/Channel_History.thy ===== *)
theory Channel_History
  imports Channel_Invariant
begin

text \<open>
  What a channel's state says of its history: the acceptance of a set of slices does not depend on
  their order, a historical checkpoint is not moved by newer slices, a commit moves the floor without
  changing later checkpoints, and the whole evolution of a channel keeps one ledger of the slices
  accepted, over which the totals, the accruals and the transcript are functions.
\<close>

section \<open>The fields a run of acceptances moves\<close>

definition total_amount :: "slice list \<Rightarrow> nat" where
  "total_amount ss = sum_list (map (\<lambda>s. unat (amt_micro s)) ss)"

lemma total_amount_simps [simp]:
  "total_amount [] = 0" "total_amount (s # ss) = unat (amt_micro s) + total_amount ss"
  "total_amount (ss @ ts) = total_amount ss + total_amount ts"
  by (simp_all add: total_amount_def)

lemma total_amount_mset: "mset ss = mset ts \<Longrightarrow> total_amount ss = total_amount ts"
  unfolding total_amount_def by (metis mset_map sum_mset_sum_list)

lemma accrue_big_0 [simp]: "accrue_big accs vs 0 = accs"
  by (induction accs vs "0 :: nat" rule: accrue_big.induct) simp_all

lemma accrue_big_add: "accrue_big (accrue_big accs vs x) vs y = accrue_big accs vs (x + y)"
proof (induction accs vs x rule: accrue_big.induct)
  case (1 acc accs r b vs x)
  then show ?case by (simp add: algebra_simps)
qed (auto elim: accrue_big.elims)

lemma sat_add_add: "I128_MIN \<le> b \<Longrightarrow> sat_i128 (sat_i128 (b + int x) + int y) = sat_i128 (b + int (x + y))"
  by (auto simp: sat_i128_def I128_MIN_def I128_MAX_def)

lemma accepted_state_simps [simp]:
  "st_balance (accepted_state s st) = sat_i128 (st_balance st + int (unat (amt_micro s)))"
  "st_cum_total (accepted_state s st) = min (st_cum_total st + unat (amt_micro s)) U128_MAX"
  "st_accruals (accepted_state s st) = accrue_big (st_accruals st) (st_vector st) (unat (amt_micro s))"
  "st_unevidenced (accepted_state s st) = st_unevidenced st + unat (amt_micro s)"
  "st_accounted (accepted_state s st) = insort (seq s) (st_accounted st)"
  "st_window (accepted_state s st) = map_insert (seq s) s (st_window st)"
  "st_paused_evidence (accepted_state s st) =
     (st_paused_evidence st \<or> st_limit_e st \<le> st_unevidenced st + unat (amt_micro s))"
  "st_k_session (accepted_state s st) = st_k_session st" "st_mode (accepted_state s st) = st_mode st"
  "st_bound_upper (accepted_state s st) = st_bound_upper st"
  "st_bound_lower (accepted_state s st) = st_bound_lower st"
  "st_limit_e (accepted_state s st) = st_limit_e st" "st_vector (accepted_state s st) = st_vector st"
  "st_floor (accepted_state s st) = st_floor st" "st_channel_id (accepted_state s st) = st_channel_id st"
  "st_committed_head (accepted_state s st) = st_committed_head st"
  "st_phase (accepted_state s st) = st_phase st"
  "st_paused_window (accepted_state s st) = st_paused_window st"
  by (simp_all add: accepted_state_def Let_def)

lemma channel_okD:
  assumes "channel_ok st"
  shows "I128_MIN \<le> st_balance st" "st_balance st \<le> I128_MAX" "st_balance st \<le> st_bound_upper st"
    "st_bound_lower st \<le> st_balance st" "st_bound_upper st \<le> I128_MAX"
    "st_cum_total st \<le> U128_MAX" "st_limit_e st \<le> U128_MAX"
    "st_unevidenced st = window_amounts (st_window st)" "st_unevidenced st \<le> st_limit_e st"
    "st_accounted st = map fst (st_window st)" "sorted_wrt (<) (map fst (st_window st))"
    "q \<in> set (st_accounted st) \<Longrightarrow> st_floor st < q"
    "(q, s) \<in> set (st_window st) \<Longrightarrow> seq s = q"
    "length (st_accruals st) = length (st_vector st)"
    "st_k_session st = None \<longleftrightarrow> st_phase st = PhClosed"
  using assms
  by (auto simp: channel_ok_def channel_parts I128_MIN_def I128_MAX_def dest: list_all2_lengthD)

lemma fresh_key:
  assumes "channel_ok st" "admissible cs s st"
  shows "sorted_wrt (<) (map fst (st_window st))" "seq s \<notin> set (map fst (st_window st))"
  using channel_okD(10,11) [OF assms(1)] assms(2) by (auto simp: admissible_def)

lemma accept_all_Cons:
  "accept_all cs (s # ss) st = (Inr u, st') \<longleftrightarrow>
   admissible cs s st \<and> accept_all cs ss (accepted_state s st) = (Inr u, st')"
proof -
  obtain r st1 where r: "accept_slice cs s st = (r, st1)" by (cases "accept_slice cs s st")
  then show ?thesis
    using accept_slice_Inr [of cs s st _ st1] accept_slice_Inl [of cs s st _ st1] by (cases r) auto
qed

lemma accept_all_append:
  "accept_all cs (ss @ ts) st = (Inr u, st') \<longleftrightarrow>
   (\<exists>st1. accept_all cs ss st = (Inr u, st1) \<and> accept_all cs ts st1 = (Inr u, st'))"
  by (induction ss arbitrary: st) (simp_all del: accept_all.simps(2) add: accept_all_Cons)

definition keyed :: "slice list \<Rightarrow> (u64 \<times> slice) list" where
  "keyed ss = map (\<lambda>s. (seq s, s)) ss"

text \<open>The fields an acceptance leaves alone.\<close>

definition same_channel :: "channel_state \<Rightarrow> channel_state \<Rightarrow> bool" where
  "same_channel a b \<longleftrightarrow>
     st_k_session a = st_k_session b \<and> st_mode a = st_mode b \<and> st_bound_upper a = st_bound_upper b \<and>
     st_bound_lower a = st_bound_lower b \<and> st_limit_e a = st_limit_e b \<and> st_vector a = st_vector b \<and>
     st_floor a = st_floor b \<and> st_channel_id a = st_channel_id b \<and>
     st_committed_head a = st_committed_head b \<and> st_phase a = st_phase b \<and>
     st_paused_window a = st_paused_window b"

lemma same_channel_accepted [simp]: "same_channel (accepted_state s st) b = same_channel st b"
  by (simp add: same_channel_def)

lemma same_channel_eqI:
  assumes "same_channel a b" "st_balance a = st_balance b" "st_cum_total a = st_cum_total b"
    "st_accruals a = st_accruals b" "st_unevidenced a = st_unevidenced b" "st_accounted a = st_accounted b"
    "st_window a = st_window b" "st_paused_evidence a = st_paused_evidence b"
  shows "a = b"
  using assms by (intro channel_state.equality) (simp_all add: same_channel_def)

lemma accept_all_fields:
  assumes "accept_all cs ss st = (Inr u, st')" "channel_ok st"
  shows "st_balance st' = sat_i128 (st_balance st + int (total_amount ss)) \<and>
    st_cum_total st' = min (st_cum_total st + total_amount ss) U128_MAX \<and>
    st_accruals st' = accrue_big (st_accruals st) (st_vector st) (total_amount ss) \<and>
    st_unevidenced st' = st_unevidenced st + total_amount ss \<and>
    mset (st_window st') = mset (st_window st) + mset (keyed ss) \<and>
    st_paused_evidence st' = (st_paused_evidence st \<or> ss \<noteq> [] \<and> st_limit_e st \<le> st_unevidenced st') \<and>
    channel_ok st' \<and> same_channel st st'"
  using assms
proof (induction ss arbitrary: st)
  case Nil
  then show ?case using channel_okD [OF Nil(2)] by (auto simp: keyed_def sat_i128_def same_channel_def)
next
  case (Cons s ss)
  let ?m = "accepted_state s st"
  from Cons.prems(1) have adm: "admissible cs s st" and run: "accept_all cs ss ?m = (Inr u, st')"
    by (simp_all only: accept_all_Cons)
  note IH = Cons.IH [OF run accepted_ok [OF Cons.prems(2) adm]]
  have "mset (st_window ?m) = add_mset (seq s, s) (mset (st_window st))"
    using map_insert_fresh(2) [OF fresh_key [OF Cons.prems(2) adm]] by simp
  moreover have "st_balance st' = sat_i128 (st_balance st + int (unat (amt_micro s) + total_amount ss))"
    using IH sat_add_add [OF channel_okD(1) [OF Cons.prems(2)], of "unat (amt_micro s)" "total_amount ss"] by simp
  ultimately show ?case using IH by (auto simp: keyed_def accrue_big_add add.assoc)
qed

lemma accept_allD:
  assumes "accept_all cs ss st = (Inr u, st')" "channel_ok st"
  shows "st_balance st' = sat_i128 (st_balance st + int (total_amount ss))"
    "st_cum_total st' = min (st_cum_total st + total_amount ss) U128_MAX"
    "st_accruals st' = accrue_big (st_accruals st) (st_vector st) (total_amount ss)"
    "st_unevidenced st' = st_unevidenced st + total_amount ss"
    "mset (st_window st') = mset (st_window st) + mset (keyed ss)"
    "st_paused_evidence st' = (st_paused_evidence st \<or> ss \<noteq> [] \<and> st_limit_e st \<le> st_unevidenced st')"
    "channel_ok st'" "same_channel st st'"
  using accept_all_fields [OF assms] by blast+

section \<open>Order does not matter\<close>

text \<open>The condition under which a set of slices is accepted, whatever the order.\<close>

definition all_admissible :: "crypto_suite \<Rightarrow> slice list \<Rightarrow> channel_state \<Rightarrow> bool" where
  "all_admissible cs ss st \<longleftrightarrow> ss = [] \<or>
     (\<exists>k. st_k_session st = Some k \<and> (\<forall>s \<in> set ss. slice_verify cs k s)) \<and> st_phase st = PhOpen \<and>
     \<not> st_paused_window st \<and> distinct (map seq ss) \<and>
     (\<forall>s \<in> set ss. st_floor st < seq s \<and> seq s \<notin> set (st_accounted st)) \<and>
     sat_i128 (st_balance st + int (total_amount ss)) \<le> st_bound_upper st \<and>
     st_unevidenced st + total_amount ss \<le> st_limit_e st"

lemma all_admissible_mset: "mset ss = mset ts \<Longrightarrow> all_admissible cs ss st = all_admissible cs ts st"
proof -
  assume m: "mset ss = mset ts"
  then have "mset (map seq ss) = mset (map seq ts)" by simp
  then have "distinct (map seq ss) = distinct (map seq ts)" by (rule mset_eq_imp_distinct_iff)
  then show ?thesis
    using total_amount_mset [OF m] mset_eq_setD [OF m] m by (auto simp: all_admissible_def)
qed

lemma admissible_next:
  assumes "channel_ok st"
  shows "admissible cs s st \<and> all_admissible cs ss (accepted_state s st) \<longleftrightarrow> all_admissible cs (s # ss) st"
proof (cases ss)
  case Nil
  have "st_unevidenced st + x \<le> st_limit_e st \<Longrightarrow> st_unevidenced st + x \<le> U128_MAX" for x
    using channel_okD(7) [OF assms] by linarith
  with Nil show ?thesis by (auto simp: all_admissible_def admissible_def)
next
  case (Cons t ts)
  have bal: "sat_i128 (sat_i128 (st_balance st + int x) + int y) = sat_i128 (st_balance st + int (x + y))" for x y
    by (rule sat_add_add [OF channel_okD(1) [OF assms]])
  have mono: "sat_i128 (st_balance st + int x) \<le> sat_i128 (st_balance st + int (x + y))" for x y
    by (auto simp: sat_i128_def)
  have "st_unevidenced st + (x + y) \<le> st_limit_e st \<Longrightarrow>
      st_unevidenced st + x \<le> U128_MAX \<and> st_unevidenced st + x \<le> st_limit_e st" for x y
    using channel_okD(7) [OF assms] by linarith
  note limit = this [of "unat (amt_micro s)" "total_amount ss"]
  show ?thesis
    using Cons bal [of "unat (amt_micro s)" "total_amount ss"] mono [of "unat (amt_micro s)" "total_amount ss"] limit
    by (auto simp: all_admissible_def admissible_def set_insort_key image_iff add.assoc intro: order_trans)
qed

lemma accept_all_iff:
  "channel_ok st \<Longrightarrow> (\<exists>st'. accept_all cs ss st = (Inr u, st')) \<longleftrightarrow> all_admissible cs ss st"
proof (induction ss arbitrary: st)
  case Nil
  then show ?case by (simp add: all_admissible_def)
next
  case (Cons s ss)
  have "(\<exists>st'. accept_all cs (s # ss) st = (Inr u, st')) \<longleftrightarrow>
      admissible cs s st \<and> (\<exists>st'. accept_all cs ss (accepted_state s st) = (Inr u, st'))"
    by (simp only: accept_all_Cons) blast
  also have "\<dots> \<longleftrightarrow> admissible cs s st \<and> all_admissible cs ss (accepted_state s st)"
    using Cons.IH accepted_ok [OF Cons.prems] by blast
  also have "\<dots> \<longleftrightarrow> all_admissible cs (s # ss) st" by (rule admissible_next [OF Cons.prems])
  finally show ?case .
qed

lemma accept_all_same_state:
  assumes "channel_ok st" "accept_all cs ss st = (Inr u, a)" "accept_all cs ts st = (Inr u, b)" "mset ss = mset ts"
  shows "a = b"
proof -
  note fa = accept_allD [OF assms(2,1)] and fb = accept_allD [OF assms(3,1)]
  have tot: "total_amount ss = total_amount ts" by (rule total_amount_mset [OF assms(4)])
  note ok = fa(7) fb(7)
  have "mset (st_window a) = mset (st_window b)"
    using assms(4) by (simp add: fa(5) fb(5) keyed_def)
  then have "set (st_window a) = set (st_window b)" by (rule mset_eq_setD)
  then have w: "st_window a = st_window b"
    by (rule strict_map_set_eq [OF channel_okD(11) [OF ok(1)] channel_okD(11) [OF ok(2)]])
  have acc: "st_accounted a = st_accounted b"
    by (simp only: channel_okD(10) [OF ok(1)] channel_okD(10) [OF ok(2)] w)
  have same: "same_channel a b" using fa(8) fb(8) by (simp add: same_channel_def)
  have un: "st_unevidenced a = st_unevidenced b" by (simp only: fa(4) fb(4) tot)
  have "ss \<noteq> [] \<longleftrightarrow> ts \<noteq> []" using assms(4) by auto
  then have ev: "st_paused_evidence a = st_paused_evidence b" by (simp only: fa(6) fb(6) un)
  show ?thesis
    by (rule same_channel_eqI [OF same _ _ _ un acc w ev]) (simp_all only: fa(1-3) fb(1-3) tot)
qed

lemma accept_all_permuted:
  assumes "channel_ok st" "accept_all cs ss st = (Inr u, st')" "mset ss = mset ts"
  shows "accept_all cs ts st = (Inr u, st')"
proof -
  have "all_admissible cs ts st" using assms all_admissible_mset accept_all_iff by blast
  then obtain b where b: "accept_all cs ts st = (Inr u, b)" using accept_all_iff [OF assms(1)] by blast
  then show ?thesis using accept_all_same_state [OF assms(1,2) b assms(3)] by simp
qed

text \<open>A batch is accepted whole or leaves the accounting as it was.\<close>

lemma accept_batch_Inr: "accept_batch cs ss st = (Inr u, st') \<longleftrightarrow> accept_all cs ss st = (Inr u, st')"
proof -
  obtain r t where "accept_all cs ss st = (r, t)" by (cases "accept_all cs ss st")
  then show ?thesis by (cases r) (simp_all add: accept_batch_def)
qed

lemma accept_batch_Inl:
  assumes "accept_batch cs ss st = (Inl e, st')"
  shows "st' = (if e = Err WindowExceeded then st\<lparr>st_paused_window := True\<rparr> else st)"
    "\<nexists>t. accept_all cs ss st = (Inr (), t)"
proof -
  obtain r t where r: "accept_all cs ss st = (r, t)" by (cases "accept_all cs ss st")
  show "st' = (if e = Err WindowExceeded then st\<lparr>st_paused_window := True\<rparr> else st)"
    using assms r by (cases r) (simp_all add: accept_batch_def)
  show "\<nexists>t. accept_all cs ss st = (Inr (), t)"
    using assms r by (cases r) (simp_all add: accept_batch_def)
qed

section \<open>Historical snapshots\<close>

text \<open>A later acceptance is invisible below the cutoff.\<close>

lemma filter_map_insert:
  "\<not> p q \<Longrightarrow> q \<notin> set (map fst w) \<Longrightarrow> filter (\<lambda>(q, s). p q) (map_insert q s w) = filter (\<lambda>(q, s). p q) w"
  by (induction w) auto

lemma exclude_accrued:
  "exclude_accruals vs (accrue_big accs vs a) (ex + a) = exclude_accruals vs accs ex"
  by (induction vs accs ex rule: exclude_accruals.induct) (auto simp: algebra_simps)

definition unsaturated :: "channel_state \<Rightarrow> bool" where
  "unsaturated st \<longleftrightarrow> st_limit_e st < 2 ^ 127 \<and> st_bound_upper st < I128_MAX"

lemma sat_exact:
  "sat_i128 x \<le> u \<Longrightarrow> u < I128_MAX \<Longrightarrow> I128_MIN \<le> x \<Longrightarrow> sat_i128 x = x"
  by (auto simp: sat_i128_def)

lemma excluded_cast:
  assumes "channel_ok st" "st_limit_e st < 2 ^ 127"
  shows "cast_i128 (window_amounts (filter p (st_window st))) = int (window_amounts (filter p (st_window st)))"
    "window_amounts (filter p (st_window st)) \<le> U128_MAX"
proof -
  have le: "window_amounts (filter p (st_window st)) \<le> st_limit_e st"
    using window_amounts_filter_le [of p "st_window st"] channel_okD(8,9) [OF assms(1)] by linarith
  then have "window_amounts (filter p (st_window st)) < 2 ^ 127" using assms(2) by linarith
  then show "cast_i128 (window_amounts (filter p (st_window st))) = int (window_amounts (filter p (st_window st)))"
    by (rule cast_small)
  show "window_amounts (filter p (st_window st)) \<le> U128_MAX"
    using le channel_okD(7) [OF assms(1)] by linarith
qed

lemma snapshot_accept:
  assumes "channel_ok st" "admissible cs s st" "cutoff < seq s" "unsaturated st"
    "st_cum_total st + unat (amt_micro s) \<le> U128_MAX"
  shows "build_checkpoint_at cs cutoff t p ev (accepted_state s st) = build_checkpoint_at cs cutoff t p ev st"
proof -
  let ?st = "accepted_state s st" and ?a = "unat (amt_micro s)"
  let ?ex = "\<lambda>st. window_amounts (filter (\<lambda>(q, s). cutoff < q) (st_window st))"
  have ok: "channel_ok ?st" by (rule accepted_ok [OF assms(1,2)])
  have lim: "st_limit_e st < 2 ^ 127" "st_limit_e ?st < 2 ^ 127" using assms(4) by (simp_all add: unsaturated_def)
  have fresh: "seq s \<notin> set (map fst (st_window st))" by (rule fresh_key(2) [OF assms(1,2)])
  have "mset (st_window ?st) = add_mset (seq s, s) (mset (st_window st))"
    using map_insert_fresh(2) [OF fresh_key [OF assms(1,2)]] by simp
  then have "mset (filter (\<lambda>(q, s). cutoff < q) (st_window ?st))
      = add_mset (seq s, s) (mset (filter (\<lambda>(q, s). cutoff < q) (st_window st)))"
    using assms(3) by simp
  then have ex: "?ex ?st = ?ex st + ?a" by (simp add: window_amounts_mset)
  have "I128_MIN \<le> st_balance st + int ?a"
    using channel_okD(1) [OF assms(1)] of_nat_0_le_iff [of ?a] by linarith
  then have "sat_i128 (st_balance st + int ?a) = st_balance st + int ?a"
    using assms(2,4) by (intro sat_exact [of _ "st_bound_upper st"]) (simp_all add: admissible_def unsaturated_def)
  then have bal: "st_balance ?st = st_balance st + int ?a" by simp
  have "filter (\<lambda>(q, s). q \<le> cutoff) (st_window ?st) = filter (\<lambda>(q, s). q \<le> cutoff) (st_window st)"
    using assms(3) fresh by (simp add: filter_map_insert [where p = "\<lambda>q. q \<le> cutoff"] not_le)
  then have head: "fold_window cs cutoff ?st = fold_window cs cutoff st" by (simp add: fold_window_def)
  have below: "filter (\<lambda>q. q \<le> cutoff) (st_accounted ?st) = filter (\<lambda>q. q \<le> cutoff) (st_accounted st)"
    using assms(3) by (simp add: filter_insort_triv not_le)
  then have "ranges_upto cutoff ?st = ranges_upto cutoff st" by (simp add: ranges_upto_def)
  moreover have "st_cum_total ?st - ?ex ?st = st_cum_total st - ?ex st"
    using assms(5) ex by simp
  moreover have "exclude_accruals (st_vector ?st) (st_accruals ?st) (?ex ?st)
      = exclude_accruals (st_vector st) (st_accruals st) (?ex st)"
    unfolding ex by (simp add: exclude_accrued)
  moreover have "st_balance ?st - cast_i128 (?ex ?st) = st_balance st - cast_i128 (?ex st)"
    unfolding excluded_cast(1) [OF assms(1) lim(1)] excluded_cast(1) [OF ok lim(2)] bal
    using arg_cong [where f = int, OF ex] by (simp only: of_nat_add)
  ultimately show ?thesis
    using below head excluded_cast(2) [OF assms(1) lim(1)] excluded_cast(2) [OF ok lim(2)]
    unfolding build_checkpoint_at_def
    by (simp only: checked_u128_small bind.bind_lunit Let_def accepted_state_simps) 
qed

lemma snapshot_accept_all:
  "channel_ok st \<Longrightarrow> accept_all cs ss st = (Inr u, st') \<Longrightarrow> \<forall>s \<in> set ss. cutoff < seq s \<Longrightarrow> unsaturated st \<Longrightarrow>
   st_cum_total st + total_amount ss \<le> U128_MAX \<Longrightarrow>
   build_checkpoint_at cs cutoff t p ev st' = build_checkpoint_at cs cutoff t p ev st"
proof (induction ss arbitrary: st)
  case (Cons s ss)
  let ?m = "accepted_state s st"
  from Cons.prems(2) have adm: "admissible cs s st" and run: "accept_all cs ss ?m = (Inr u, st')"
    by (simp_all only: accept_all_Cons)
  have "build_checkpoint_at cs cutoff t p ev st' = build_checkpoint_at cs cutoff t p ev ?m"
    using Cons.prems by (intro Cons.IH [OF accepted_ok [OF Cons.prems(1) adm] run]) (simp_all add: unsaturated_def)
  also have "\<dots> = build_checkpoint_at cs cutoff t p ev st"
    using Cons.prems by (intro snapshot_accept adm) simp_all
  finally show ?case .
qed simp

text \<open>The fields of a built checkpoint.\<close>

definition excluded_at :: "u64 \<Rightarrow> channel_state \<Rightarrow> nat" where
  "excluded_at cutoff st = window_amounts (filter (\<lambda>(q, s). cutoff < q) (st_window st))"

definition last_seq_at :: "u64 \<Rightarrow> channel_state \<Rightarrow> u64" where
  "last_seq_at cutoff st = (let below = filter (\<lambda>q. q \<le> cutoff) (st_accounted st)
     in if below = [] then st_floor st else last below)"

lemma build_fields:
  assumes "build_checkpoint_at cs cutoff t p ev st = Some d"
  shows "ck_channel_id d = st_channel_id st" "ck_cum_total d = st_cum_total st - excluded_at cutoff st"
    "exclude_accruals (st_vector st) (st_accruals st) (excluded_at cutoff st) = Some (ck_accruals d)"
    "(if ck_balance_negative d then - int (ck_balance d) else int (ck_balance d))
       = st_balance st - cast_i128 (excluded_at cutoff st)"
    "ck_balance_negative d \<longleftrightarrow> st_balance st - cast_i128 (excluded_at cutoff st) < 0"
    "ck_last_seq d = last_seq_at cutoff st" "ck_ranges d = ranges_upto cutoff st"
    "ck_transcript d = fold_window cs cutoff st" "ck_events d = ev" "ck_timestamp d = t" "ck_prev_ref d = p"
    "ck_sig_payer d = None" "ck_sig_merchant d = None"
  using assms
  by (auto simp: build_checkpoint_at_def Let_def bind_eq_Some_conv excluded_at_def last_seq_at_def checked_i128_def
      split: prod.splits if_splits)

text \<open>The highest accounted number, or the floor: the \<open>LAST_SEQ\<close> of a live checkpoint.\<close>

definition highest :: "channel_state \<Rightarrow> u64" where
  "highest st = (if st_accounted st = [] then st_floor st else last (st_accounted st))"

lemma highest_bound: "channel_ok st \<Longrightarrow> q \<in> set (st_accounted st) \<Longrightarrow> q \<le> highest st"
proof -
  assume ok: "channel_ok st" and q: "q \<in> set (st_accounted st)"
  have "sorted (st_accounted st)"
    using channel_okD(10,11) [OF ok] by (simp add: strict_sorted_iff)
  moreover obtain xs x where xs: "st_accounted st = xs @ [x]" using q by (cases "st_accounted st" rule: rev_cases) auto
  ultimately show ?thesis using q by (auto simp: highest_def sorted_append)
qed

lemma floor_le_highest: "channel_ok st \<Longrightarrow> st_floor st \<le> highest st"
  using channel_okD(12) [of st "last (st_accounted st)"] by (auto simp: highest_def intro: less_imp_le)

lemma below_cutoff:
  assumes "channel_ok st" "highest st \<le> c"
  shows "filter (\<lambda>(q, s). c < q) (st_window st) = []" "filter (\<lambda>(q, s). q \<le> c) (st_window st) = st_window st"
    "filter (\<lambda>q. q \<le> c) (st_accounted st) = st_accounted st"
proof -
  have "q \<le> c" if "q \<in> set (st_accounted st)" for q using highest_bound [OF assms(1) that] assms(2) by simp
  then have all: "\<forall>q \<in> set (map fst (st_window st)). q \<le> c" using channel_okD(10) [OF assms(1)] by simp
  then show "filter (\<lambda>(q, s). c < q) (st_window st) = []"
    "filter (\<lambda>(q, s). q \<le> c) (st_window st) = st_window st"
    by (auto simp: filter_empty_conv filter_id_conv not_less)
  show "filter (\<lambda>q. q \<le> c) (st_accounted st) = st_accounted st"
    using all channel_okD(10) [OF assms(1)] by (simp add: filter_id_conv)
qed

text \<open>Every cutoff from the highest accounted number on gives the live checkpoint.\<close>

lemma build_above:
  assumes "channel_ok st" "highest st \<le> c"
  shows "build_checkpoint_at cs c t p ev st = build_checkpoint cs t p ev st"
proof -
  have "highest st \<le> - 1" by (rule word_n1_ge)
  note live = below_cutoff [OF assms(1) this] and cut = below_cutoff [OF assms]
  have "fold_window cs c st = fold_window cs (- 1) st" by (simp only: fold_window_def live cut)
  moreover have "ranges_upto c st = ranges_upto (- 1) st" by (simp only: ranges_upto_def live cut)
  ultimately show ?thesis unfolding build_checkpoint_def build_checkpoint_at_def by (simp only: live cut)
qed

lemma build_last_seq:
  assumes "channel_ok st" "build_checkpoint cs t p ev st = Some c"
  shows "ck_last_seq c = highest st"
proof -
  have "highest st \<le> - 1" by (rule word_n1_ge)
  then show ?thesis
    using build_fields(6) [OF assms(2) [unfolded build_checkpoint_def]] below_cutoff(3) [OF assms(1)]
    by (simp add: last_seq_at_def highest_def)
qed

text \<open>The countersign decision on a proposal cut before newer slices were accepted.\<close>

lemma recomputes_with_newer:
  assumes "channel_ok st" "build_checkpoint cs t p ev st = Some c" "accept_all cs newer st = (Inr u, st')"
    "\<forall>s \<in> set newer. highest st < seq s" "unsaturated st" "st_cum_total st + total_amount newer \<le> U128_MAX"
  shows "recomputes cs c st' = Some True"
proof -
  have last: "ck_last_seq c = highest st" by (rule build_last_seq [OF assms(1,2)])
  have stated: "ck_timestamp c = t" "ck_prev_ref c = p" "ck_events c = ev"
    by (rule build_fields(9-11) [OF assms(2) [unfolded build_checkpoint_def]])+
  have "build_checkpoint_at cs (highest st) t p ev st' = build_checkpoint_at cs (highest st) t p ev st"
    by (rule snapshot_accept_all [OF assms(1,3,4,5,6)])
  also have "\<dots> = Some c" using build_above [OF assms(1) order_refl] assms(2) by simp
  finally show ?thesis by (simp add: recomputes_def last stated)
qed

section \<open>Commits\<close>

lemma window_split:
  assumes "sorted_wrt (<) (map fst w)" "(c :: 'a::linorder) \<le> d"
  shows "filter (\<lambda>(q, s). q \<le> d) w =
    filter (\<lambda>(q, s). q \<le> c) w @ filter (\<lambda>(q, s). q \<le> d) (filter (\<lambda>(q, s). c < q) w)"
  using strict_filter_split [OF assms] by (simp only: case_prod_beta')

lemma fold_window_commit:
  assumes "channel_ok st" "checkpoint_upto cs c st = Some st'" "c \<le> d"
  shows "fold_window cs d st' = fold_window cs d st" "st_committed_head st' = fold_window cs c st"
proof -
  have st': "st_committed_head st' = fold_window cs c st" "st_window st' = filter (\<lambda>(q, s). c < q) (st_window st)"
    using assms(2) by (auto simp: checkpoint_upto_Some [OF assms(1)])
  show "fold_window cs d st' = fold_window cs d st"
    using window_split [OF channel_okD(11) [OF assms(1)] assms(3)]
    by (simp add: fold_window_def st')
  show "st_committed_head st' = fold_window cs c st" by (rule st'(1))
qed

text \<open>What a countersigned proposal names.\<close>

lemma recomputes_fields:
  assumes "recomputes cs c st = Some True"
  shows "ck_last_seq c = last_seq_at (ck_last_seq c) st" "ck_transcript c = fold_window cs (ck_last_seq c) st"
    "ck_cum_total c = st_cum_total st - excluded_at (ck_last_seq c) st"
    "exclude_accruals (st_vector st) (st_accruals st) (excluded_at (ck_last_seq c) st) = Some (ck_accruals c)"
    "ck_ranges c = ranges_upto (ck_last_seq c) st"
proof -
  obtain own where own: "build_checkpoint_at cs (ck_last_seq c) (ck_timestamp c) (ck_prev_ref c) (ck_events c) st
      = Some own" and eq: "ck_last_seq own = ck_last_seq c" "ck_transcript own = ck_transcript c"
      "ck_cum_total own = ck_cum_total c" "ck_accruals own = ck_accruals c" "ck_ranges own = ck_ranges c"
    using assms by (auto simp: recomputes_def)
  note f = build_fields [OF own]
  show "ck_last_seq c = last_seq_at (ck_last_seq c) st" using f(6) eq(1) by simp
  show "ck_transcript c = fold_window cs (ck_last_seq c) st" using f(8) eq(2) by simp
  show "ck_cum_total c = st_cum_total st - excluded_at (ck_last_seq c) st" using f(2) eq(3) by simp
  show "exclude_accruals (st_vector st) (st_accruals st) (excluded_at (ck_last_seq c) st) = Some (ck_accruals c)"
    using f(3) eq(4) by simp
  show "ck_ranges c = ranges_upto (ck_last_seq c) st" using f(7) eq(5) by simp
qed

lemma floor_le_last_seq: "channel_ok st \<Longrightarrow> st_floor st \<le> last_seq_at c st"
proof -
  assume ok: "channel_ok st"
  have "st_floor st < last (filter (\<lambda>q. q \<le> c) (st_accounted st))" if "filter (\<lambda>q. q \<le> c) (st_accounted st) \<noteq> []"
    using last_in_set [OF that] channel_okD(12) [OF ok] by auto
  then show ?thesis by (auto simp: last_seq_at_def Let_def intro: less_imp_le)
qed

lemma recomputes_floor: "channel_ok st \<Longrightarrow> recomputes cs c st = Some True \<Longrightarrow> st_floor st \<le> ck_last_seq c"
  using recomputes_fields(1) floor_le_last_seq by metis

text \<open>After the commit at \<open>c\<close>, a checkpoint at any later cutoff says what it would have said before,
  but for the ranges, which restart at the new floor.\<close>

lemma last_seq_commit:
  assumes "channel_ok st" "checkpoint_upto cs c st = Some st'" "c \<le> d" "last_seq_at c st = c"
  shows "last_seq_at d st' = last_seq_at d st"
proof -
  have st': "st_accounted st' = filter (\<lambda>q. c < q) (st_accounted st)" "st_floor st' = c"
    using assms(2) by (auto simp: checkpoint_upto_Some [OF assms(1)])
  have "sorted_wrt (<) (map id (st_accounted st))" using channel_okD(10,11) [OF assms(1)] by simp
  then have "filter (\<lambda>q. q \<le> d) (st_accounted st)
      = filter (\<lambda>q. q \<le> c) (st_accounted st) @ filter (\<lambda>q. q \<le> d) (filter (\<lambda>q. c < q) (st_accounted st))"
    using strict_filter_split [OF _ assms(3), of id] by simp
  then show ?thesis using assms(4) st' by (auto simp: last_seq_at_def Let_def split: if_splits)
qed

end
