(* ===== verification/Channel_Ledger.thy ===== *)
theory Channel_Ledger
  imports Channel_History
begin

text \<open>
  The evolution of a channel as a step relation over its operations, with the list of the slices
  accepted so far; the ledger the state keeps of that list; and the one-way lifecycle. Then the ranges of a checkpoint.
\<close>

section \<open>Commits keep later checkpoints\<close>

lemma filter_newer: "(c :: 'a::linorder) \<le> d \<Longrightarrow>
    filter (\<lambda>(q, s). d < q) (filter (\<lambda>(q, s). c < q) w) = filter (\<lambda>(q, s). d < q) w"
  by (induction w) auto

lemma build_commit:
  assumes "channel_ok st" "checkpoint_upto cs c st = Some st'" "c \<le> d" "last_seq_at c st = c"
  shows "map_option (\<lambda>k. k\<lparr>ck_ranges := []\<rparr>) (build_checkpoint_at cs d t p ev st')
    = map_option (\<lambda>k. k\<lparr>ck_ranges := []\<rparr>) (build_checkpoint_at cs d t p ev st)"
proof -
  have st': "st_window st' = filter (\<lambda>(q, s). c < q) (st_window st)"
      "st_cum_total st' = st_cum_total st" "st_vector st' = st_vector st" "st_accruals st' = st_accruals st"
      "st_balance st' = st_balance st" "st_channel_id st' = st_channel_id st"
    using assms(2) by (auto simp: checkpoint_upto_Some [OF assms(1)])
  have w: "filter (\<lambda>(q, s). d < q) (st_window st') = filter (\<lambda>(q, s). d < q) (st_window st)"
    unfolding st' by (rule filter_newer [OF assms(3)])
  note l = last_seq_commit [OF assms, unfolded last_seq_at_def Let_def]
    and h = fold_window_commit(1) [OF assms(1-3)]
  show ?thesis
    unfolding build_checkpoint_at_def Let_def w l h st'(2-)
    by (cases "checked_u128 (window_amounts (filter (\<lambda>(q, s). d < q) (st_window st)))")
      (auto simp: map_option_bind comp_def split: prod.splits Option.bind_splits)
qed

section \<open>Evolutions\<close>

text \<open>One endpoint's operations, with the commit as the callers use it: after \<open>recomputes\<close> said yes.
  The list collects the slices accepted, in the order of their acceptance.\<close>

inductive evolves :: "crypto_suite \<Rightarrow> channel_state \<Rightarrow> slice list \<Rightarrow> channel_state \<Rightarrow> bool"
  for cs :: crypto_suite and st0 :: channel_state where
  start: "evolves cs st0 [] st0"
| accept: "evolves cs st0 acc st \<Longrightarrow> accept_slice cs s st = (Inr u, st') \<Longrightarrow> evolves cs st0 (acc @ [s]) st'"
| reject: "evolves cs st0 acc st \<Longrightarrow> accept_slice cs s st = (Inl e, st') \<Longrightarrow> evolves cs st0 acc st'"
| batch: "evolves cs st0 acc st \<Longrightarrow> accept_batch cs ss st = (Inr u, st') \<Longrightarrow> evolves cs st0 (acc @ ss) st'"
| batch_reject: "evolves cs st0 acc st \<Longrightarrow> accept_batch cs ss st = (Inl e, st') \<Longrightarrow> evolves cs st0 acc st'"
| fund: "evolves cs st0 acc st \<Longrightarrow> evolves cs st0 acc (credit_funding x st)"
| round: "evolves cs st0 acc st \<Longrightarrow> evolves cs st0 acc (apply_settlement_round x st)"
| commit: "evolves cs st0 acc st \<Longrightarrow> recomputes cs c st = Some True \<Longrightarrow>
    checkpoint_upto cs (ck_last_seq c) st = Some st' \<Longrightarrow> evolves cs st0 acc st'"
| commit_all: "evolves cs st0 acc st \<Longrightarrow> channel_checkpoint cs st = Some st' \<Longrightarrow> evolves cs st0 acc st'"
| settle: "evolves cs st0 acc st \<Longrightarrow> evolves cs st0 acc (begin_settling st)"
| close: "evolves cs st0 acc st \<Longrightarrow> evolves cs st0 acc (close_channel st)"

lemma evolves_ok: "evolves cs st0 acc st \<Longrightarrow> channel_ok st0 \<Longrightarrow> channel_ok st"
proof (induction rule: evolves.induct)
  case (accept acc st s u st')
  then show ?case using accept_slice_ok [of st cs s] by simp
next
  case (reject acc st s e st')
  then show ?case using accept_slice_ok [of st cs s] by simp
next
  case (batch acc st ss u st')
  then show ?case using accept_batch_ok [of st cs ss] by simp
next
  case (batch_reject acc st ss e st')
  then show ?case using accept_batch_ok [of st cs ss] by simp
next
  case (commit acc st c st')
  then show ?case using checkpoint_upto_ok by blast
next
  case (commit_all acc st st')
  then show ?case using channel_checkpoint_ok by blast
qed (simp_all add: credit_funding_ok settlement_round_ok begin_settling_ok close_ok)

section \<open>The ledger\<close>

text \<open>\<open>retired\<close> are the slices at or below the floor, folded into the committed head; the window holds
  the others. Together they are the accepted slices in sequence order.\<close>

definition ledger :: "crypto_suite \<Rightarrow> channel_state \<Rightarrow> slice list \<Rightarrow> slice list \<Rightarrow> channel_state \<Rightarrow> bool" where
  "ledger cs st0 acc retired st \<longleftrightarrow>
     mset (retired @ map snd (st_window st)) = mset acc \<and>
     sorted_wrt (<) (map seq retired) \<and> (\<forall>s \<in> set retired. seq s \<le> st_floor st) \<and>
     st_committed_head st = foldl (advance cs) (st_committed_head st0) (map slice_encode retired) \<and>
     st_cum_total st = min (st_cum_total st0 + total_amount acc) U128_MAX \<and>
     st_vector st = st_vector st0 \<and> st_channel_id st = st_channel_id st0 \<and>
     st_accruals st = accrue_big (st_accruals st0) (st_vector st0) (total_amount acc)"

lemma ledger_start: "channel_ok st0 \<Longrightarrow> st_window st0 = [] \<Longrightarrow> ledger cs st0 [] [] st0"
  using channel_okD(6) [of st0] by (simp add: ledger_def)

lemma ledger_accept:
  assumes "ledger cs st0 acc retired st" "channel_ok st" "accept_all cs ss st = (Inr u, st')"
  shows "ledger cs st0 (acc @ ss) retired st'"
proof -
  note f = accept_allD [OF assms(3,2)]
  have "image_mset snd (mset (st_window st')) = image_mset snd (mset (st_window st)) + mset ss"
    unfolding f(5) by (simp add: keyed_def multiset.map_comp comp_def)
  then show ?thesis
    using assms(1) f(8) by (simp add: ledger_def f(2,3) same_channel_def accrue_big_add)
qed

lemma ledger_frame:
  assumes "ledger cs st0 acc retired st" "st_window st' = st_window st" "st_floor st' = st_floor st"
    "st_committed_head st' = st_committed_head st" "st_cum_total st' = st_cum_total st"
    "st_vector st' = st_vector st" "st_channel_id st' = st_channel_id st" "st_accruals st' = st_accruals st"
  shows "ledger cs st0 acc retired st'"
  using assms by (simp add: ledger_def)

lemma ledger_commit:
  assumes "ledger cs st0 acc retired st" "channel_ok st" "checkpoint_upto cs c st = Some st'" "st_floor st \<le> c"
  shows "ledger cs st0 acc (retired @ map snd (filter (\<lambda>(q, s). q \<le> c) (st_window st))) st'"
proof -
  let ?lo = "filter (\<lambda>(q, s). q \<le> c) (st_window st)" and ?hi = "filter (\<lambda>(q, s). c < q) (st_window st)"
  have st': "st_window st' = ?hi" "st_floor st' = c" "st_committed_head st' = fold_window cs c st"
      "st_cum_total st' = st_cum_total st" "st_vector st' = st_vector st"
      "st_channel_id st' = st_channel_id st" "st_accruals st' = st_accruals st"
    using assms(3) by (auto simp: checkpoint_upto_Some [OF assms(2)])
  have "?hi = filter (\<lambda>x. \<not> (case x of (q, s) \<Rightarrow> q \<le> c)) (st_window st)"
    by (rule filter_cong) auto
  then have "mset ?lo + mset ?hi = mset (st_window st)" by (simp only: mset_filter multiset_partition [symmetric])
  from arg_cong [where f = "image_mset snd", OF this]
  have ms: "mset (map snd ?lo) + mset (map snd ?hi) = mset (map snd (st_window st))"
    by (simp only: mset_map image_mset_union)
  have keys: "map seq (map snd (st_window st)) = map fst (st_window st)"
    using channel_okD(13) [OF assms(2)] by auto
  then have lo_keys: "map seq (map snd ?lo) = map fst ?lo"
    using channel_okD(13) [OF assms(2)] by auto
  have lo: "sorted_wrt (<) (map fst ?lo)"
    using channel_okD(11) [OF assms(2)] filter_fst_eq [of "\<lambda>q. q \<le> c" "st_window st"] by (simp add: sorted_wrt_filter)
  have "\<forall>q \<in> set (map fst (st_window st)). st_floor st < q"
    using channel_okD(10,12) [OF assms(2)] by metis
  then have "q \<in> set (map fst ?lo) \<Longrightarrow> st_floor st < q" for q by force
  moreover have "x \<in> set (map seq retired) \<Longrightarrow> x \<le> st_floor st" for x
    using assms(1) by (auto simp: ledger_def)
  ultimately have "\<forall>x \<in> set (map seq retired). \<forall>q \<in> set (map fst ?lo). x < q"
    by (meson le_less_trans)
  then have "sorted_wrt (<) (map seq (retired @ map snd ?lo))"
    using assms(1) lo unfolding ledger_def map_append sorted_wrt_append lo_keys by blast
  moreover have "\<forall>s \<in> set (retired @ map snd ?lo). seq s \<le> c"
    using assms(1,4) channel_okD(13) [OF assms(2)] by (auto simp: ledger_def)
  moreover have "mset ((retired @ map snd ?lo) @ map snd ?hi) = mset acc"
  proof -
    have "mset ((retired @ map snd ?lo) @ map snd ?hi) = mset retired + mset (map snd (st_window st))"
      unfolding mset_append add.assoc ms ..
    also have "\<dots> = mset acc" using assms(1) by (simp add: ledger_def)
    finally show ?thesis .
  qed
  moreover have "st_committed_head st' = foldl (advance cs) (st_committed_head st0) (map slice_encode (retired @ map snd ?lo))"
    using assms(1) by (simp add: st'(3) fold_window_def ledger_def)
  ultimately show ?thesis
    using assms(1) unfolding ledger_def st' by blast
qed

text \<open>Every evolution of a channel born with an empty window has its ledger.\<close>

lemma evolves_ledger:
  assumes "evolves cs st0 acc st" "channel_ok st0" "st_window st0 = []"
  shows "\<exists>retired. ledger cs st0 acc retired st"
  using assms
proof (induction rule: evolves.induct)
  case start
  then show ?case using ledger_start by blast
next
  case (accept acc st s u st')
  then obtain retired where l: "ledger cs st0 acc retired st" by blast
  have "accept_all cs [s] st = (Inr u, st')" using accept(2) by simp
  then show ?case using ledger_accept [OF l evolves_ok [OF accept(1)]] accept.prems by blast
next
  case (reject acc st s e st')
  then obtain retired where "ledger cs st0 acc retired st" by blast
  moreover have "st' = st \<or> st' = st\<lparr>st_paused_window := True\<rparr>" using accept_slice_Inl [OF reject(2)] by blast
  ultimately show ?case by (auto simp: ledger_def)
next
  case (batch acc st ss u st')
  then obtain retired where l: "ledger cs st0 acc retired st" by blast
  have "accept_all cs ss st = (Inr u, st')" using batch(2) by (simp add: accept_batch_Inr)
  then show ?case using ledger_accept [OF l evolves_ok [OF batch(1)]] batch.prems by blast
next
  case (batch_reject acc st ss e st')
  then obtain retired where l: "ledger cs st0 acc retired st" by blast
  have "st' = st \<or> st' = st\<lparr>st_paused_window := True\<rparr>" using accept_batch_Inl(1) [OF batch_reject(2)] by auto
  then show ?case using l by (auto simp: ledger_def)
next
  case (fund acc st x)
  then obtain retired where l: "ledger cs st0 acc retired st" by blast
  have "ledger cs st0 acc retired (credit_funding x st)"
    by (rule ledger_frame [OF l]) (simp_all add: credit_funding_def Let_def)
  then show ?case by blast
next
  case (round acc st x)
  then obtain retired where l: "ledger cs st0 acc retired st" by blast
  have "ledger cs st0 acc retired (apply_settlement_round x st)"
    by (rule ledger_frame [OF l]) (simp_all add: apply_settlement_round_def Let_def)
  then show ?case by blast
next
  case (commit acc st c st')
  then obtain retired where l: "ledger cs st0 acc retired st" by blast
  have ok: "channel_ok st" by (rule evolves_ok [OF commit(1) commit.prems(1)])
  show ?case using ledger_commit [OF l ok commit(3) recomputes_floor [OF ok commit(2)]] by blast
next
  case (commit_all acc st st')
  then obtain retired where l: "ledger cs st0 acc retired st" by blast
  have ok: "channel_ok st" by (rule evolves_ok [OF commit_all(1) commit_all.prems(1)])
  have "checkpoint_upto cs (highest st) st = Some st'"
    using commit_all(2) by (simp add: channel_checkpoint_def highest_def)
  then show ?case using ledger_commit [OF l ok _ floor_le_highest [OF ok]] by blast
next
  case (settle acc st)
  then obtain retired where l: "ledger cs st0 acc retired st" by blast
  have "ledger cs st0 acc retired (begin_settling st)"
    by (rule ledger_frame [OF l]) (simp_all add: begin_settling_def)
  then show ?case by blast
next
  case (close acc st)
  then obtain retired where l: "ledger cs st0 acc retired st" by blast
  have "ledger cs st0 acc retired (close_channel st)"
    by (rule ledger_frame [OF l]) (simp_all add: close_channel_def)
  then show ?case by blast
qed

lemma ledger_in_order:
  assumes "ledger cs st0 acc retired st" "channel_ok st"
  shows "retired @ map snd (st_window st) = sort_key seq acc" "distinct (map seq acc)"
proof -
  let ?all = "retired @ map snd (st_window st)"
  have keys: "map seq (map snd (st_window st)) = map fst (st_window st)"
    using channel_okD(13) [OF assms(2)] by auto
  have gt: "\<forall>q \<in> set (map fst (st_window st)). st_floor st < q"
    using channel_okD(10,12) [OF assms(2)] by metis
  have m: "mset ?all = mset acc" using assms(1) by (simp add: ledger_def)
  have strict: "sorted_wrt (<) (map seq ?all)"
    using assms(1) gt channel_okD(11) [OF assms(2)] unfolding ledger_def map_append sorted_wrt_append keys
    by (auto intro: le_less_trans)
  then have "distinct (map seq ?all)" by (simp only: strict_sorted_iff)
  moreover have "mset (map seq ?all) = mset (map seq acc)" using m by (simp only: mset_map)
  ultimately show d: "distinct (map seq acc)" using mset_eq_imp_distinct_iff by blast
  have "distinct (map seq (sort_key seq acc))"
    using d mset_eq_imp_distinct_iff [of "map seq (sort_key seq acc)" "map seq acc"] by simp
  then have "sorted_wrt (<) (map seq (sort_key seq acc))" by (simp add: strict_sorted_iff)
  moreover have "set ?all = set (sort_key seq acc)" using mset_eq_setD [OF m] by simp
  ultimately show "?all = sort_key seq acc" by (rule strict_map_set_eq [OF strict])
qed

lemma ledger_transcript:
  assumes "ledger cs st0 acc retired st" "channel_ok st"
  shows "fold_window cs (- 1) st = foldl (advance cs) (st_committed_head st0) (map slice_encode (sort_key seq acc))"
proof -
  have "filter (\<lambda>(q, s). q \<le> - 1) (st_window st) = st_window st"
    by (rule below_cutoff(2) [OF assms(2) word_n1_ge])
  then show ?thesis
    using assms(1) unfolding ledger_in_order(1) [OF assms, symmetric]
    by (simp add: fold_window_def ledger_def)
qed

section \<open>The lifecycle is one-way\<close>

lemma not_open_rejects:
  "st_phase st \<noteq> PhOpen \<Longrightarrow> \<exists>e. accept_slice cs s st = (Inl (Err e), st) \<and> e \<in> {BadMac, NotOpen}"
  by (auto simp: accept_slice_def Let_def)

lemma not_open_batch:
  "st_phase st \<noteq> PhOpen \<Longrightarrow> accept_all cs ss st = (Inr u, st') \<Longrightarrow> ss = [] \<and> st' = st"
  by (cases ss) (auto simp: accept_all_Cons admissible_def simp del: accept_all.simps(2))

definition phase_rank :: "phase \<Rightarrow> nat" where
  "phase_rank p = (case p of PhOpen \<Rightarrow> 0 | PhSettling \<Rightarrow> 1 | PhClosed \<Rightarrow> 2)"

lemma phase_rank_open [simp]: "phase_rank p = 0 \<longleftrightarrow> p = PhOpen"
  by (cases p) (simp_all add: phase_rank_def)

lemma phase_rank_PhOpen [simp]: "phase_rank PhOpen = 0"
  by simp

lemma frame_phase [simp]:
  "st_phase (credit_funding x st) = st_phase st" "st_phase (apply_settlement_round x st) = st_phase st"
  by (simp_all add: credit_funding_def apply_settlement_round_def Let_def)

lemma commit_phase: "checkpoint_upto cs c st = Some st' \<Longrightarrow> st_phase st' = st_phase st"
  by (auto simp: checkpoint_upto_def Let_def)

lemma accept_all_phase:
  "accept_all cs ss st = (Inr u, st') \<Longrightarrow> st_phase st' = st_phase st \<and> (ss \<noteq> [] \<longrightarrow> st_phase st = PhOpen)"
proof (induction ss arbitrary: st)
  case (Cons s ss)
  then have "admissible cs s st" "accept_all cs ss (accepted_state s st) = (Inr u, st')"
    by (simp_all only: accept_all_Cons)
  then show ?case using Cons.IH by (auto simp: admissible_def)
qed simp

text \<open>A closed or settling channel never opens again and accepts nothing.\<close>

lemma evolves_phase:
  "evolves cs st0 acc st \<Longrightarrow> phase_rank (st_phase st0) \<le> phase_rank (st_phase st) \<and>
    (st_phase st0 \<noteq> PhOpen \<longrightarrow> acc = [])"
proof (induction rule: evolves.induct)
  case (accept acc st s u st')
  then have "admissible cs s st" "st' = accepted_state s st" by (simp_all add: accept_slice_Inr)
  then show ?case using accept.IH by (auto simp: admissible_def)
next
  case (reject acc st s e st')
  then show ?case using accept_slice_Inl [OF reject(2)] by auto
next
  case (batch acc st ss u st')
  then show ?case using accept_all_phase [of cs ss st u st'] by (auto simp: accept_batch_Inr)
next
  case (batch_reject acc st ss e st')
  then show ?case using accept_batch_Inl(1) [OF batch_reject(2)] by auto
next
  case (commit acc st c st')
  then show ?case using commit_phase by metis
next
  case (commit_all acc st st')
  then show ?case using commit_phase [of cs "highest st" st st'] by (simp add: channel_checkpoint_def highest_def)
next
  case (settle acc st)
  then show ?case by (cases "st_phase st") (auto simp: begin_settling_def phase_rank_def)
next
  case (close acc st)
  then show ?case by (cases "st_phase st") (auto simp: close_channel_def phase_rank_def split: phase.splits)
qed simp_all

text \<open>A retired or accounted number never passes again.\<close>

lemma replay_rejected:
  assumes "channel_ok st" "seq s \<le> st_floor st \<or> seq s \<in> set (st_accounted st)"
  shows "\<exists>e. accept_slice cs s st = (Inl (Err e), st) \<and> e \<in> {BadMac, NotOpen, SeqInvalid}"
  using assms(2) by (auto simp: accept_slice_def Let_def)

section \<open>From the creation\<close>

lemma accrue_fresh: "accrue_big (replicate (length vs) 0) vs a = map (\<lambda>(r, b). a * unat b) vs"
  by (induction vs) auto

lemma new_channel_ledger:
  assumes "evolves cs (new_state cs cid k m limit_l limit_e vector) acc st"
  shows "st_cum_total st = min (total_amount acc) U128_MAX \<and>
    st_accruals st = map (\<lambda>(r, b). total_amount acc * unat b) vector \<and>
    distinct (map seq acc) \<and>
    fold_window cs (- 1) st = transcript_fold cs cid (map slice_encode (sort_key seq acc))"
proof -
  let ?st0 = "new_state cs cid k m limit_l limit_e vector"
  have s0: "st_window ?st0 = []" "st_cum_total ?st0 = 0" "st_vector ?st0 = vector"
      "st_accruals ?st0 = replicate (length vector) 0" "st_committed_head ?st0 = head_0 cs cid"
    by (cases m; simp add: new_state_def Let_def)+
  have ok: "channel_ok st" using evolves_ok [OF assms new_state_ok] .
  obtain retired where l: "ledger cs ?st0 acc retired st"
    using evolves_ledger [OF assms new_state_ok s0(1)] by blast
  then have f: "st_cum_total st = min (0 + total_amount acc) U128_MAX" "st_vector st = vector"
      "st_accruals st = accrue_big (replicate (length vector) 0) (st_vector st) (total_amount acc)"
    by (simp_all add: ledger_def s0)
  then have "st_accruals st = map (\<lambda>(r, b). total_amount acc * unat b) vector" by (simp only: accrue_fresh)
  moreover have "fold_window cs (- 1) st = transcript_fold cs cid (map slice_encode (sort_key seq acc))"
    using ledger_transcript [OF l ok] by (simp add: s0(5) transcript_fold_def)
  ultimately show ?thesis using f(1) ledger_in_order(2) [OF l ok] by simp
qed

text \<open>
  The \<open>RANGES\<close> a checkpoint states: they cover exactly the accounted numbers up to the cutoff, and
  are in the canonical form the parser demands (ordered, apart, adjacent runs merged).
\<close>

definition in_range :: "u64 \<Rightarrow> seq_range \<Rightarrow> bool" where
  "in_range q r \<longleftrightarrow> range_lo r \<le> q \<and> q \<le> range_hi r"

lemma word_step:
  fixes a b :: "'a::len word"
  assumes "a < b"
  shows "unat (a + 1) = unat a + 1" "sat_add a 1 = a + 1" "b = a + 1 \<or> a + 1 < b" "q \<le> a \<or> a + 1 \<le> q"
proof -
  have "unat a < unat b" using assms by (simp add: word_less_nat_alt)
  then have small: "unat a + 1 < 2 ^ LENGTH('a)" using unat_lt2p [of b] by linarith
  have one: "unat (1 :: 'a word) = 1" by simp
  show u: "unat (a + 1) = unat a + 1" using small by (simp add: unat_word_ariths)
  show "sat_add a 1 = a + 1" using small by (simp add: sat_add_def one)
  show "b = a + 1 \<or> a + 1 < b" using assms u by (auto simp: word_less_nat_alt word_unat_eq_iff)
  show "q \<le> a \<or> a + 1 \<le> q" using u by (auto simp: word_le_nat_alt)
qed

lemma runs_cover:
  "sorted_wrt (<) (hi # ss) \<Longrightarrow> lo \<le> hi \<Longrightarrow>
   (\<exists>r \<in> set (runs lo hi ss). in_range q r) \<longleftrightarrow> (lo \<le> q \<and> q \<le> hi) \<or> q \<in> set ss"
proof (induction lo hi ss rule: runs.induct)
  case (2 lo hi s ss)
  then have s: "hi < s" "lo \<le> s" "sorted_wrt (<) (s # ss)" by auto
  show ?case
  proof (cases "s = hi + 1")
    case True
    have "q \<le> hi \<or> s \<le> q" using word_step(4) [OF s(1), of q] True by simp
    then have "(lo \<le> q \<and> q \<le> s) \<longleftrightarrow> (lo \<le> q \<and> q \<le> hi) \<or> q = s" using s(1,2) by auto
    then show ?thesis using "2.IH"(1) [OF True s(3,2)] True by auto
  next
    case False
    then show ?thesis using "2.IH"(2) [OF False s(3)] by (auto simp: in_range_def)
  qed
qed (simp add: in_range_def)

lemma runs_hd: "\<exists>h rs. runs lo hi ss = \<lparr>range_lo = lo, range_hi = h\<rparr> # rs"
  by (induction lo hi ss rule: runs.induct) auto

lemma runs_apart:
  "sorted_wrt (<) (hi # ss) \<Longrightarrow> lo \<le> hi \<Longrightarrow> successively ranges_apart (runs lo hi ss)"
proof (induction lo hi ss rule: runs.induct)
  case (2 lo hi s ss)
  then have s: "hi < s" "lo \<le> s" "sorted_wrt (<) (s # ss)" by auto
  show ?case
  proof (cases "s = hi + 1")
    case True
    then show ?thesis using "2.IH"(1) [OF True s(3,2)] by simp
  next
    case False
    obtain h rs where rs: "runs s s ss = \<lparr>range_lo = s, range_hi = h\<rparr> # rs" using runs_hd by blast
    have "hi + 1 < s" using word_step(3) [OF s(1)] False by simp
    then have "ranges_apart \<lparr>range_lo = lo, range_hi = hi\<rparr> \<lparr>range_lo = s, range_hi = h\<rparr>"
      by (simp add: ranges_apart_def word_step(2) [OF s(1)])
    then show ?thesis using "2.IH"(2) [OF False s(3)] False rs by simp
  qed
qed simp

lemma runs_ordered:
  "sorted_wrt (<) (hi # ss) \<Longrightarrow> lo \<le> hi \<Longrightarrow>
   \<forall>r \<in> set (runs lo hi ss). range_lo r \<le> range_hi r \<and> range_hi r \<in> set (hi # ss)"
proof (induction lo hi ss rule: runs.induct)
  case (2 lo hi s ss)
  then have s: "hi < s" "lo \<le> s" "sorted_wrt (<) (s # ss)" by auto
  then show ?case using "2.IH" "2.prems" by auto
qed simp

lemma ranges_upto_spec:
  assumes "channel_ok st"
  shows "(\<exists>r \<in> set (ranges_upto c st). in_range q r) \<longleftrightarrow> q \<in> set (st_accounted st) \<and> q \<le> c"
    "successively ranges_apart (ranges_upto c st)"
    "\<forall>r \<in> set (ranges_upto c st). range_lo r \<le> range_hi r \<and> range_hi r \<in> set (st_accounted st)"
proof -
  let ?xs = "filter (\<lambda>s. s \<le> c) (st_accounted st)"
  have sorted: "sorted_wrt (<) ?xs" using channel_okD(10,11) [OF assms] by (simp add: sorted_wrt_filter)
  have mem: "q \<in> set ?xs \<longleftrightarrow> q \<in> set (st_accounted st) \<and> q \<le> c" for q by auto
  have "((\<exists>r \<in> set (ranges_upto c st). in_range q r) \<longleftrightarrow> q \<in> set ?xs) \<and> successively ranges_apart (ranges_upto c st)
    \<and> (\<forall>r \<in> set (ranges_upto c st). range_lo r \<le> range_hi r \<and> range_hi r \<in> set ?xs)"
  proof (cases ?xs)
    case (Cons x xs)
    then have r: "ranges_upto c st = runs x x xs" by (simp add: ranges_upto_def)
    have s: "sorted_wrt (<) (x # xs)" using sorted Cons by simp
    show ?thesis
      unfolding r Cons using runs_cover [OF s order_refl] runs_apart [OF s order_refl] runs_ordered [OF s order_refl]
      by auto
  qed (simp add: ranges_upto_def)
  then show "(\<exists>r \<in> set (ranges_upto c st). in_range q r) \<longleftrightarrow> q \<in> set (st_accounted st) \<and> q \<le> c"
    "successively ranges_apart (ranges_upto c st)"
    "\<forall>r \<in> set (ranges_upto c st). range_lo r \<le> range_hi r \<and> range_hi r \<in> set (st_accounted st)"
    using mem by blast+
qed

end
