(* ===== verification/F7_Exact.thy ===== *)
theory F7_Exact
  imports F7
begin

text \<open>
  Exact arithmetic for the settlement division: the functions of \<^verbatim>\<open>paytp-f7\<close> on natural numbers
  (the role the arbitrary-precision oracle plays in \<^verbatim>\<open>crates/paytp-f7/src/tests.rs\<close>), the proof
  that the fixed-width code computes them without ever overflowing, saturating or panicking, and
  what the division guarantees.
\<close>

section \<open>The reference functions\<close>

text \<open>One unit to each role below its cap, in role order, until \<open>s\<close> units are placed.\<close>

fun top_up :: "nat \<Rightarrow> nat list \<Rightarrow> nat list \<Rightarrow> nat list" where
  "top_up s (f # fs) (n # ns) =
     (if s = 0 then f # fs
      else if f < n then Suc f # top_up (s - 1) fs ns
      else f # top_up s fs ns)"
| "top_up s fs ns = fs"

fun room :: "nat list \<Rightarrow> nat list \<Rightarrow> nat" where
  "room (f # fs) (n # ns) = (if f < n then Suc (room fs ns) else room fs ns)"
| "room fs ns = 0"

definition floor_shares :: "nat \<Rightarrow> nat list \<Rightarrow> nat list" where
  "floor_shares e ns = map (\<lambda>n. e * n div sum_list ns) ns"

definition attribution :: "nat \<Rightarrow> nat list \<Rightarrow> nat list" where
  "attribution e ns = top_up (e - sum_list (floor_shares e ns)) (floor_shares e ns) ns"

definition pay_exact :: "nat list \<Rightarrow> nat \<Rightarrow> nat \<Rightarrow> nat" where
  "pay_exact ns p q = sum_list ns * p div (q * 10000)"

definition ext_exact :: "nat list \<Rightarrow> nat \<Rightarrow> nat \<Rightarrow> nat" where
  "ext_exact ns p q = pay_exact ns p q * q * 10000 div p"

definition numerators_ok :: "nat list \<Rightarrow> bool" where
  "numerators_ok ns \<longleftrightarrow> length ns \<le> 64 \<and> (\<forall>n \<in> set ns. n < 2 ^ 128)"

section \<open>Facts about the reference functions\<close>

lemma length_top_up [simp]: "length (top_up s fs ns) = length fs"
  by (induction s fs ns rule: top_up.induct) auto

lemma top_up_0 [simp]: "top_up 0 fs ns = fs"
  by (cases fs; cases ns) auto

lemma sum_top_up: "s \<le> room fs ns \<Longrightarrow> sum_list (top_up s fs ns) = sum_list fs + s"
  by (induction s fs ns rule: top_up.induct) (auto split: if_splits)

lemma top_up_between:
  "list_all2 (\<le>) fs ns \<Longrightarrow>
   list_all2 (\<le>) (top_up s fs ns) ns \<and> list_all2 (\<lambda>f g. f \<le> g \<and> g \<le> Suc f) fs (top_up s fs ns)"
proof (induction s fs ns rule: top_up.induct)
  case (1 s f fs n ns)
  then show ?case by (auto simp: list_all2_same)
qed (auto simp: list_all2_same)

lemma length_floor_shares [simp]: "length (floor_shares e ns) = length ns"
  by (simp add: floor_shares_def)

lemma floor_share_le: "e \<le> N \<Longrightarrow> e * n div N \<le> n" for e n N :: nat
  by (metis div_le_mono div_mult_self1_is_m div_by_0 le0 mult_le_mono1 neq0_conv)

lemma floor_shares_le: "e \<le> sum_list ns \<Longrightarrow> list_all2 (\<le>) (floor_shares e ns) ns"
  by (simp add: floor_shares_def list_all2_conv_all_nth floor_share_le)

lemma sum_floor_le: "sum_list (map (\<lambda>n. e * n div N) ns) * N \<le> e * sum_list ns" for e N :: nat
proof (induction ns)
  case (Cons n ns)
  show ?case
    unfolding list.map sum_list.Cons add_mult_distrib distrib_left
    by (rule add_mono [OF div_times_less_eq_dividend Cons])
qed simp

lemma remainder_covered:
  fixes e n N :: nat
  assumes "e \<le> N" "0 < N"
  shows "e * n mod N \<le> N * (if e * n div N < n then 1 else 0)"
proof (cases "e * n div N < n")
  case True
  then show ?thesis using assms by (simp add: less_imp_le)
next
  case False
  then have "n * N \<le> e * n div N * N" by (intro mult_right_mono) auto
  also have "\<dots> + e * n mod N = e * n" by (rule div_mult_mod_eq)
  finally have "n * N + e * n mod N \<le> e * n" by simp
  moreover have "e * n \<le> n * N" using assms by (simp add: mult.commute)
  ultimately have "e * n mod N = 0" by linarith
  with False show ?thesis by simp
qed

lemma room_Cons: "room (f # fs) (n # ns) = (if f < n then 1 else 0) + room fs ns"
  by simp

lemma add_scaled:
  "a \<le> (f + c) * k \<Longrightarrow> b \<le> (g + d) * k \<Longrightarrow> a + b \<le> (f + g + (c + d)) * k" for a b c d f g k :: nat
  by (simp add: algebra_simps)

lemma sum_shortfall:
  fixes e N :: nat
  assumes "e \<le> N" "0 < N"
  shows "e * sum_list ns \<le> (sum_list (map (\<lambda>n. e * n div N) ns) + room (map (\<lambda>n. e * n div N) ns) ns) * N"
proof (induction ns)
  case (Cons n ns)
  let ?f = "e * n div N" and ?c = "if e * n div N < n then 1 else 0 :: nat"
  have "e * n = ?f * N + e * n mod N" by (rule div_mult_mod_eq [symmetric])
  also have "\<dots> \<le> ?f * N + N * ?c" by (rule add_left_mono [OF remainder_covered [OF assms]])
  finally have "e * n \<le> (?f + ?c) * N" by (simp only: add_mult_distrib mult.commute [of N])
  from add_scaled [OF this Cons.IH] show ?case
    unfolding list.map sum_list.Cons room_Cons distrib_left .
qed simp

lemma floor_shares_sum_le: "sum_list (floor_shares e ns) \<le> e"
proof (cases "sum_list ns = 0")
  case True
  have "sum_list (map (\<lambda>n. e * n div 0) ns) = 0" by (induction ns) auto
  then show ?thesis by (simp only: floor_shares_def True)
next
  case False
  then show ?thesis
    using sum_floor_le [of e "sum_list ns" ns] unfolding floor_shares_def
    by (meson mult_le_cancel2 neq0_conv)
qed

lemma shortfall_le_room:
  assumes "e \<le> sum_list ns"
  shows "e - sum_list (floor_shares e ns) \<le> room (floor_shares e ns) ns"
proof (cases "sum_list ns = 0")
  case False
  then have "e \<le> sum_list (floor_shares e ns) + room (floor_shares e ns) ns"
    using sum_shortfall [OF assms, of ns] unfolding floor_shares_def
    by (meson mult_le_cancel2 neq0_conv)
  then show ?thesis by simp
next
  case True
  with assms have "e = 0" by simp
  then show ?thesis by simp
qed

text \<open>The attribution hands out exactly \<open>e\<close>, stays below every role's outstanding numerator and is
  within one unit of the exact proportional share.\<close>

lemma attribution_sum: "e \<le> sum_list ns \<Longrightarrow> sum_list (attribution e ns) = e"
  using sum_top_up [OF shortfall_le_room] floor_shares_sum_le [of e ns]
  by (simp add: attribution_def)

lemma attribution_le: "e \<le> sum_list ns \<Longrightarrow> list_all2 (\<le>) (attribution e ns) ns"
  using top_up_between [OF floor_shares_le] by (simp add: attribution_def)

lemma attribution_near:
  "e \<le> sum_list ns \<Longrightarrow> list_all2 (\<lambda>f g. f \<le> g \<and> g \<le> Suc f) (floor_shares e ns) (attribution e ns)"
  using top_up_between [OF floor_shares_le] by (simp add: attribution_def)

lemma length_attribution [simp]: "length (attribution e ns) = length ns"
  by (simp add: attribution_def)

lemma ext_exact_le: "0 < p \<Longrightarrow> ext_exact ns p q \<le> sum_list ns"
proof -
  assume p: "0 < p"
  have "pay_exact ns p q * (q * 10000) \<le> sum_list ns * p"
    unfolding pay_exact_def by (rule div_times_less_eq_dividend)
  then have "pay_exact ns p q * q * 10000 div p \<le> sum_list ns * p div p"
    by (intro div_le_mono) (simp add: mult.assoc)
  with p show ?thesis by (simp add: ext_exact_def)
qed

lemma sum_numerators_less: "numerators_ok ns \<Longrightarrow> sum_list ns < 2 ^ 135"
proof -
  assume ok: "numerators_ok ns"
  have "sum_list ns \<le> length ns * 2 ^ 128"
    using ok unfolding numerators_ok_def by (induction ns) (auto simp: less_imp_le add_mono)
  also have "\<dots> \<le> 64 * 2 ^ 128" using ok unfolding numerators_ok_def by (intro mult_right_mono) auto
  also have "\<dots> < (2::nat) ^ 135" by simp
  finally show ?thesis .
qed

section \<open>The fixed-width code computes the reference\<close>

definition rate_ok :: "rate \<Rightarrow> bool" where
  "rate_ok r \<longleftrightarrow> 0 < unat (rate_p r) \<and> unat (rate_p r) < 2 ^ 64
     \<and> 0 < unat (rate_q r) \<and> unat (rate_q r) < 2 ^ 64"

abbreviation unats :: "'a::len word list \<Rightarrow> nat list" where "unats \<equiv> map unat"

lemma unat_two_pow_128: "unat two_pow_128 = 2 ^ 128"
  by (simp add: two_pow_128_def)

lemma unat_BP_DENOM: "unat (ucast BP_DENOM :: u256) = 10000"
  by (simp add: BP_DENOM_def)

lemma unat_p_u256 [unat_ops]: "unat (p_u256 r) = unat (rate_p r)"
  using unat_lt2p [of "rate_p r"] by (simp add: p_u256_def unat_ucast_small)

lemma unat_q_u256 [unat_ops]: "unat (q_u256 r) = unat (rate_q r)"
  using unat_lt2p [of "rate_q r"] by (simp add: q_u256_def unat_ucast_small)

lemma rate_new_ok: "rate_new p q = Inr r \<Longrightarrow> rate_ok r"
  by (auto simp: rate_new_def rate_ok_def word_le_nat_alt word_less_nat_alt unat_gt_0 not_less
      split: if_splits)

lemma rate_unity_ok: "rate_ok rate_unity"
  by (simp add: rate_unity_def rate_ok_def)

lemma check_each_eq:
  "check_each ns = (if \<forall>n \<in> set (unats ns). n < 2 ^ 128 then Inr () else Inl (Err ArithmeticDomain))"
  by (induction ns) (auto simp: word_le_nat_alt unat_two_pow_128)

lemma check_domain_eq:
  "check_domain ns = (if numerators_ok (unats ns) then Inr () else Inl (Err ArithmeticDomain))"
  by (auto simp: check_domain_def numerators_ok_def check_each_eq MAX_ROLES_def)

lemma unat_foldl_sat_add:
  "unat (foldl sat_add a ns) = min (unat a + sum_list (unats ns)) (2 ^ LENGTH('a) - 1)"
  for a :: "'a::len word"
proof (induction ns arbitrary: a)
  case Nil
  have "unat a \<le> 2 ^ LENGTH('a) - 1" using unat_lt2p [of a] by linarith
  then show ?case by simp
qed (auto simp: unat_sat_add)

lemma sum_u256_exact: "numerators_ok (unats ns) \<Longrightarrow> unat (sum_u256 ns) = sum_list (unats ns)"
  using sum_numerators_less [of "unats ns"] by (simp add: sum_u256_def unat_foldl_sat_add)

lemma unat_div_word [unat_ops]: "unat (a div b) = unat a div unat b" for a b :: "'a::len word"
  by (simp add: unat_div)

lemma div_panic_eq: "b \<noteq> 0 \<Longrightarrow> div_panic a b = Inr (a div b)"
  by (simp add: div_panic_def)

lemma unat_mult_small:
  "unat a * unat b < 2 ^ LENGTH('a) \<Longrightarrow> unat (a * b) = unat a * unat b" for a b :: "'a::len word"
  by (simp add: unat_word_ariths)

lemma narrow_small: "unat big < 2 ^ 256 \<Longrightarrow> narrow big = Inr (ucast big)"
proof -
  assume "unat big < 2 ^ 256"
  then have "unat (drop_bit 256 big) = 0"
    unfolding unat_drop_bit_eq unfolding drop_bit_eq_div by (rule div_less)
  then have "drop_bit 256 big = 0" by (simp only: unat_eq_0)
  then show ?thesis by (simp add: narrow_def)
qed

lemma unat_Suc_less: "a < b \<Longrightarrow> unat (a + 1) = Suc (unat a)" for a b :: "'a::len word"
proof -
  assume "a < b"
  then have "unat a < unat b" by (simp only: word_less_nat_alt)
  with unat_lt2p [of b] have "Suc (unat a) < 2 ^ LENGTH('a)" by linarith
  then show ?thesis by (simp add: unat_word_ariths)
qed

lemma sweep_refines:
  "length ers = length nrs \<Longrightarrow> sweep ers nrs s b = (ers', s', b') \<Longrightarrow>
   unats ers' = top_up (unat s) (unats ers) (unats nrs) \<and>
   unat s' = unat s - room (unats ers) (unats nrs) \<and>
   (b' \<longleftrightarrow> b \<or> (s \<noteq> 0 \<and> 0 < room (unats ers) (unats nrs)))"
proof (induction ers nrs s b arbitrary: ers' s' b' rule: sweep.induct)
  case (1 er ers nr nrs s b)
  consider "s = 0" | "s \<noteq> 0" "er < nr" | "s \<noteq> 0" "\<not> er < nr" by blast
  then show ?case
  proof cases
    case 1
    with "1.prems" show ?thesis by simp
  next
    case 2
    obtain t u v where t: "sweep ers nrs (s - 1) True = (t, u, v)" by (cases "sweep ers nrs (s - 1) True")
    have pos: "0 < unat s" using 2(1) by (simp add: unat_gt_0)
    have pred: "unat (s - 1) = unat s - 1" using 2(1) by (simp add: unat_minus_one)
    from 2 t "1.prems" have "ers' = (er + 1) # t" "s' = u" "b' = v" by simp_all
    with "1.IH"(1) [OF 2 _ t] "1.prems"(1) 2 pos pred unat_Suc_less [OF 2(2)] show ?thesis
      by (simp add: word_less_nat_alt)
  next
    case 3
    obtain t u v where t: "sweep ers nrs s b = (t, u, v)" by (cases "sweep ers nrs s b")
    have "0 < unat s" using 3(1) by (simp add: unat_gt_0)
    moreover from 3 t "1.prems" have "ers' = er # t" "s' = u" "b' = v" by simp_all
    ultimately show ?thesis
      using "1.IH"(2) [OF 3 _ t] "1.prems"(1) 3 by (simp add: word_less_nat_alt)
  qed
qed auto

lemma place_shortfall_0 [simp]: "place_shortfall ers nrs 0 = Inr ers"
  by (simp add: place_shortfall.simps)

lemma place_shortfall_refines:
  assumes "length ers = length nrs" "unat s \<le> room (unats ers) (unats nrs)"
  shows "\<exists>r. place_shortfall ers nrs s = Inr r \<and> unats r = top_up (unat s) (unats ers) (unats nrs)"
proof (cases "s = 0")
  case False
  obtain t u v where t: "sweep ers nrs s False = (t, u, v)" by (cases "sweep ers nrs s False")
  have r: "unats t = top_up (unat s) (unats ers) (unats nrs)" "unat u = 0" "v"
    using sweep_refines [OF assms(1) t] assms(2) False unat_gt_0 [of s] by auto
  then have "u = 0" by (simp only: unat_eq_0)
  with r(3) False t have "place_shortfall ers nrs s = Inr t"
    by (simp add: place_shortfall.simps [of ers nrs s])
  with r(1) show ?thesis by blast
qed simp

lemma unat_ucast_512: "unat (ucast (x :: u256) :: u512) = unat x"
proof -
  have "unat x < 2 ^ 256" using unat_lt2p [of x] by simp
  also have "(2::nat) ^ 256 < 2 ^ LENGTH(512)" by simp
  finally show ?thesis by (rule unat_ucast_small)
qed

lemma unat_prod_512: "unat ((ucast x :: u512) * ucast y) = unat x * unat y" for x y :: u256
proof -
  have "unat x * unat y < 2 ^ 256 * 2 ^ 256"
    using unat_lt2p [of x] unat_lt2p [of y] by (intro mult_strict_mono) auto
  also have "(2::nat) ^ 256 * 2 ^ 256 = 2 ^ LENGTH(512)" by simp
  finally show ?thesis by (simp add: unat_mult_small unat_ucast_512)
qed

lemma ucast_512_eq_0: "(ucast (x :: u256) :: u512) = 0 \<longleftrightarrow> x = 0"
  by (metis unat_ucast_512 unat_eq_0)

text \<open>A 512-bit quotient of a 256-bit product is narrowed without loss when it stays below a
  256-bit value.\<close>

lemma narrow_quotient:
  fixes x y n z :: u256
  assumes "n \<noteq> 0" "unat x * unat y div unat n \<le> unat z"
  shows "\<exists>w. (and_then (div_panic ((ucast x :: u512) * ucast y) (ucast n)) narrow :: 'e fault + u256) = Inr w
             \<and> unat w = unat x * unat y div unat n"
proof -
  let ?q = "(ucast x :: u512) * ucast y div ucast n"
  have q: "unat ?q = unat x * unat y div unat n"
    by (simp add: unat_div_word unat_prod_512 unat_ucast_512)
  have "unat x * unat y div unat n < 2 ^ 256" using assms(2) unat_lt2p [of z] by simp
  with q have "narrow ?q = (Inr (ucast ?q) :: 'e fault + u256)" "unat (ucast ?q :: u256) = unat ?q"
    using narrow_small [of ?q] unat_ucast_small [of ?q, where 'b = 256] by simp_all
  with q assms(1) show ?thesis by (simp add: div_panic_eq ucast_512_eq_0)
qed

section \<open>The attribution at full width\<close>

text \<open>The share of one role before the shortfall is placed.\<close>

definition share_word :: "u256 \<Rightarrow> u256 \<Rightarrow> u256 \<Rightarrow> u256" where
  "share_word e n nr = word_of_nat (unat e * unat nr div unat n)"

lemma share_word_exact:
  assumes "n \<noteq> 0" "unat e \<le> unat n"
  shows "(and_then (div_panic ((ucast e :: u512) * ucast nr) (ucast n)) narrow :: 'e fault + u256)
      = Inr (share_word e n nr)
    \<and> unat (share_word e n nr) = unat e * unat nr div unat n"
proof -
  have "unat e * unat nr div unat n \<le> unat nr" by (rule floor_share_le [OF assms(2)])
  then obtain w where w: "and_then (div_panic ((ucast e :: u512) * ucast nr) (ucast n)) narrow
      = (Inr w :: 'e fault + u256)" "unat w = unat e * unat nr div unat n"
    using narrow_quotient [OF assms(1), of e nr nr] by blast
  then have "share_word e n nr = w" by (simp add: share_word_def flip: w(2))
  with w show ?thesis by simp
qed

theorem extinguish_refines:
  assumes "numerators_ok (unats n_r)" "unat e \<le> sum_list (unats n_r)"
  shows "\<exists>e_r. extinguish_per_role e n_r = Inr e_r \<and> unats e_r = attribution (unat e) (unats n_r)"
proof (cases "sum_u256 n_r = 0")
  case True
  then have 0: "sum_list (unats n_r) = 0" using sum_u256_exact [OF assms(1)] by simp
  have "unat e = 0" using assms(2) unfolding 0 by simp
  then have "e = 0" by (simp only: unat_eq_0)
  moreover have "attribution 0 (unats n_r) = map (\<lambda>_. 0) (unats n_r)"
    by (simp add: attribution_def floor_shares_def)
  ultimately show ?thesis using True assms(1) by (simp add: extinguish_per_role_def check_domain_eq)
next
  case False
  let ?n = "sum_u256 n_r" and ?fs = "map (share_word e (sum_u256 n_r)) n_r"
  have n: "unat ?n = sum_list (unats n_r)" by (rule sum_u256_exact [OF assms(1)])
  have le: "unat e \<le> unat ?n" using assms(2) n by simp
  have shares: "collect_map (\<lambda>nr. and_then (div_panic (ucast e * ucast nr) (ucast ?n)) narrow) n_r
      = (Inr ?fs :: u256 list f7)"
    using share_word_exact [OF False le, where 'e = f7_error] by (simp add: collect_map_Inr)
  have fs: "unats ?fs = floor_shares (unat e) (unats n_r)"
    using share_word_exact [OF False le, where 'e = f7_error, THEN conjunct2] n
    by (simp add: floor_shares_def)
  have "sum_list (unats ?fs) \<le> unat e" unfolding fs by (rule floor_shares_sum_le)
  then have "unat (sum_u256 ?fs) = sum_list (unats ?fs)"
    using unat_lt2p [of e] by (simp add: sum_u256_def unat_foldl_sat_add)
  then have s: "unat (sat_sub e (sum_u256 ?fs)) = unat e - sum_list (floor_shares (unat e) (unats n_r))"
    by (simp only: unat_sat_sub fs)
  have room: "unat (sat_sub e (sum_u256 ?fs)) \<le> room (unats ?fs) (unats n_r)"
    unfolding s fs by (rule shortfall_le_room [OF assms(2)])
  obtain r where r: "place_shortfall ?fs n_r (sat_sub e (sum_u256 ?fs)) = Inr r"
      "unats r = top_up (unat (sat_sub e (sum_u256 ?fs))) (unats ?fs) (unats n_r)"
    using place_shortfall_refines [OF _ room] by auto
  then have attr: "unats r = attribution (unat e) (unats n_r)" by (simp only: s fs attribution_def)
  have "\<not> ?n < e" using le by (simp add: word_less_nat_alt)
  with r(1) attr shares False assms(1) show ?thesis
    by (simp add: extinguish_per_role_def check_domain_eq)
qed

lemma extinguish_errors:
  "\<not> numerators_ok (unats n_r) \<Longrightarrow> extinguish_per_role e n_r = Inl (Err ArithmeticDomain)"
  "numerators_ok (unats n_r) \<Longrightarrow> sum_list (unats n_r) < unat e \<Longrightarrow>
   extinguish_per_role e n_r = Inl (Err InconsistentProposal)"
  using sum_u256_exact [of n_r]
  by (auto simp: extinguish_per_role_def check_domain_eq Let_def word_less_nat_alt unat_eq_0)

section \<open>Payment and extinguished total\<close>

lemma denominator_exact:
  "rate_ok r \<Longrightarrow> unat (q_u256 r * ucast BP_DENOM) = unat (rate_q r) * 10000"
proof -
  assume "rate_ok r"
  then have "unat (rate_q r) * 10000 < 2 ^ 64 * 10000" by (simp add: rate_ok_def)
  then have "unat (rate_q r) * 10000 < 2 ^ LENGTH(256)" by simp
  then show ?thesis by (simp add: unat_mult_small unat_BP_DENOM unat_q_u256)
qed

lemma compute_p_exact:
  assumes "rate_ok r" "unat n < 2 ^ 135"
  shows "compute_p n r =
    (let p = unat n * unat (rate_p r) div (unat (rate_q r) * 10000)
     in if 2 ^ 128 \<le> p then Inl (Err ArithmeticDomain) else Inr (word_of_nat p))"
proof -
  have "unat n * unat (rate_p r) < 2 ^ 135 * 2 ^ 64"
    using assms by (intro mult_strict_mono) (auto simp: rate_ok_def)
  then have "checked_mul n (p_u256 r) = Some (n * p_u256 r)"
      and numer: "unat (n * p_u256 r) = unat n * unat (rate_p r)"
    by (auto simp: checked_mul_def unat_p_u256 unat_mult_small)
  moreover have "q_u256 r * ucast BP_DENOM \<noteq> 0"
    using denominator_exact [OF assms(1)] assms(1) by (auto simp: rate_ok_def)
  moreover have "unat (n * p_u256 r div (q_u256 r * ucast BP_DENOM))
      = unat n * unat (rate_p r) div (unat (rate_q r) * 10000)"
    using denominator_exact [OF assms(1)] by (simp add: unat_div_word numer)
  then have "n * p_u256 r div (q_u256 r * ucast BP_DENOM)
      = word_of_nat (unat n * unat (rate_p r) div (unat (rate_q r) * 10000))"
    by (metis of_nat_unat ucast_id)
  ultimately show ?thesis
    using \<open>unat (n * p_u256 r div _) = _\<close>
    by (simp add: compute_p_def div_panic_eq Let_def word_le_nat_alt unat_two_pow_128)
qed

lemma compute_e_exact:
  assumes "rate_ok r" "unat p < 2 ^ 128"
  shows "\<exists>e. compute_e p r = Inr e \<and> unat e = unat p * unat (rate_q r) * 10000 div unat (rate_p r)"
proof -
  have "unat p * unat (rate_q r) < 2 ^ 128 * 2 ^ 64"
    using assms by (intro mult_strict_mono) (auto simp: rate_ok_def)
  then have q: "checked_mul p (q_u256 r) = Some (p * q_u256 r)"
      and uq: "unat (p * q_u256 r) = unat p * unat (rate_q r)"
      and "unat p * unat (rate_q r) * 10000 < 2 ^ LENGTH(256)"
    by (auto simp: checked_mul_def unat_q_u256 unat_mult_small)
  then have "checked_mul (p * q_u256 r) (ucast BP_DENOM) = Some (p * q_u256 r * ucast BP_DENOM)"
      and "unat (p * q_u256 r * ucast BP_DENOM) = unat p * unat (rate_q r) * 10000"
    by (auto simp: checked_mul_def unat_BP_DENOM unat_mult_small uq)
  moreover have "p_u256 r \<noteq> 0" using assms(1) by (metis rate_ok_def unat_p_u256 unat_eq_0 less_irrefl)
  ultimately show ?thesis
    using q by (simp add: compute_e_def div_panic_eq unat_div_word unat_p_u256)
qed

section \<open>The round\<close>

text \<open>What \<open>divide_round\<close> returns, on exact numbers: the payment, the extinguished total, its
  attribution to the roles, and whether a leg is carried.\<close>

definition divide_exact :: "nat list \<Rightarrow> nat \<Rightarrow> nat \<Rightarrow> (nat \<times> nat \<times> nat list \<times> bool) f7" where
  "divide_exact ns p q =
     (if \<not> numerators_ok ns then Inl (Err ArithmeticDomain)
      else if 2 ^ 128 \<le> pay_exact ns p q then Inl (Err ArithmeticDomain)
      else Inr (pay_exact ns p q, ext_exact ns p q, attribution (ext_exact ns p q) ns,
                1 \<le> ext_exact ns p q))"

definition round_nats :: "round_division \<Rightarrow> nat \<times> nat \<times> nat list \<times> bool" where
  "round_nats d = (unat (rd_p d), unat (rd_e d), unats (rd_e_r d), rd_leg d)"

lemma round_exact_Inr:
  assumes "rate_ok r" "numerators_ok (unats n_r)"
    "pay_exact (unats n_r) (unat (rate_p r)) (unat (rate_q r)) < 2 ^ 128"
  shows "\<exists>d. divide_round n_r r = Inr d
    \<and> divide_exact (unats n_r) (unat (rate_p r)) (unat (rate_q r)) = Inr (round_nats d)"
proof -
  let ?ns = "unats n_r" and ?p = "unat (rate_p r)" and ?q = "unat (rate_q r)"
  let ?P = "word_of_nat (pay_exact ?ns ?p ?q) :: u256"
  have n: "unat (sum_u256 n_r) = sum_list ?ns" by (rule sum_u256_exact [OF assms(2)])
  have P: "unat ?P = pay_exact ?ns ?p ?q" using assms(3) by (simp add: unat_of_nat)
  have "compute_p (sum_u256 n_r) r = Inr ?P"
    using assms(3) sum_numerators_less [OF assms(2)]
    by (simp add: compute_p_exact [OF assms(1)] n pay_exact_def Let_def)
  moreover obtain e where e: "compute_e ?P r = Inr e" "unat e = ext_exact ?ns ?p ?q"
    using compute_e_exact [OF assms(1), of ?P] assms(3) P by (auto simp: ext_exact_def)
  moreover have le: "unat e \<le> sum_list ?ns"
    using ext_exact_le [of ?p ?ns ?q] assms(1) e(2) by (simp add: rate_ok_def)
  moreover have "e \<noteq> 0 \<longleftrightarrow> 1 \<le> ext_exact ?ns ?p ?q"
    using e(2) unat_gt_0 [of e] by auto
  moreover obtain e_r where "extinguish_per_role e n_r = Inr e_r" "unats e_r = attribution (unat e) ?ns"
    using extinguish_refines [OF assms(2) le] by blast
  ultimately show ?thesis
    using assms P n
    by (auto simp: divide_round_def check_domain_eq divide_exact_def round_nats_def carries_leg_def
        word_less_nat_alt)
qed

lemma round_exact_Inl:
  assumes "rate_ok r"
    "\<not> numerators_ok (unats n_r) \<or> 2 ^ 128 \<le> pay_exact (unats n_r) (unat (rate_p r)) (unat (rate_q r))"
  shows "divide_round n_r r = Inl (Err ArithmeticDomain)"
proof (cases "numerators_ok (unats n_r)")
  case True
  then show ?thesis
    using assms sum_numerators_less [OF True]
    by (simp add: divide_round_def check_domain_eq compute_p_exact sum_u256_exact pay_exact_def Let_def)
qed (simp add: divide_round_def check_domain_eq)

theorem divide_round_refines:
  assumes "rate_ok r"
  shows "(case divide_round n_r r of Inl f \<Rightarrow> Inl f | Inr d \<Rightarrow> Inr (round_nats d))
    = divide_exact (unats n_r) (unat (rate_p r)) (unat (rate_q r))"
proof (cases "numerators_ok (unats n_r) \<and> pay_exact (unats n_r) (unat (rate_p r)) (unat (rate_q r)) < 2 ^ 128")
  case True
  then show ?thesis using round_exact_Inr [OF assms, of n_r] by auto
next
  case False
  then have "divide_round n_r r = Inl (Err ArithmeticDomain)"
    using round_exact_Inl [OF assms, of n_r] by auto
  with False show ?thesis by (auto simp: divide_exact_def)
qed

text \<open>What a successful round guarantees.\<close>

definition round_sound :: "nat list \<Rightarrow> rate \<Rightarrow> round_division \<Rightarrow> bool" where
  "round_sound ns r d \<longleftrightarrow>
     sum_list (unats (rd_e_r d)) = unat (rd_e d) \<and>
     list_all2 (\<le>) (unats (rd_e_r d)) ns \<and>
     list_all2 (\<lambda>f g. f \<le> g \<and> g \<le> Suc f) (floor_shares (unat (rd_e d)) ns) (unats (rd_e_r d)) \<and>
     unat (rd_p d) * (unat (rate_q r) * 10000) \<le> sum_list ns * unat (rate_p r) \<and>
     unat (rd_p d) < 2 ^ 128 \<and> (rd_leg d \<longleftrightarrow> 1 \<le> sum_list (unats (rd_e_r d)))"

theorem divide_round_sound:
  assumes "rate_ok r" "divide_round n_r r = Inr d"
  shows "numerators_ok (unats n_r) \<and> round_sound (unats n_r) r d"
proof -
  let ?ns = "unats n_r" and ?p = "unat (rate_p r)" and ?q = "unat (rate_q r)"
  have d: "numerators_ok ?ns" "pay_exact ?ns ?p ?q < 2 ^ 128" "unat (rd_p d) = pay_exact ?ns ?p ?q"
    "unat (rd_e d) = ext_exact ?ns ?p ?q" "unats (rd_e_r d) = attribution (ext_exact ?ns ?p ?q) ?ns"
    "rd_leg d \<longleftrightarrow> 1 \<le> ext_exact ?ns ?p ?q"
    using divide_round_refines [OF assms(1), of n_r] assms(2)
    by (auto simp: divide_exact_def round_nats_def split: if_splits)
  have le: "ext_exact ?ns ?p ?q \<le> sum_list ?ns"
    using ext_exact_le assms(1) by (simp add: rate_ok_def)
  have "pay_exact ?ns ?p ?q * (?q * 10000) \<le> sum_list ?ns * ?p"
    unfolding pay_exact_def by (rule div_times_less_eq_dividend)
  then show ?thesis
    using d le by (simp add: round_sound_def attribution_sum attribution_le attribution_near)
qed

section \<open>The instance-side share\<close>

theorem claimable_d_exact:
  "\<exists>c. claimable_d v bp tot paid = Inr c \<and>
    unat c = (if tot = 0 \<or> tot < bp then 0 else unat v * unat bp div unat tot - unat paid)"
proof (cases "tot = 0 \<or> tot < bp")
  case False
  have small: "unat (ucast x :: u256) = unat x" for x :: u32
    using unat_lt2p [of x] by (simp add: unat_ucast_small)
  have t: "(ucast tot :: u256) \<noteq> 0" using False by (metis small unat_eq_0)
  have "unat v * unat bp div unat tot \<le> unat v"
    using False floor_share_le [of "unat bp" "unat tot" "unat v"]
    by (simp add: word_less_nat_alt mult.commute)
  then obtain w where "and_then (div_panic ((ucast v :: u512) * ucast (ucast bp :: u256))
      (ucast (ucast tot :: u256))) narrow = (Inr w :: u256 f7)"
      "unat w = unat v * unat bp div unat tot"
    using narrow_quotient [OF t, of v "ucast bp" v, where 'e = f7_error] by (auto simp: small)
  with False show ?thesis by (auto simp: claimable_d_def unat_sat_sub)
qed (auto simp: claimable_d_def)

end
