(* ===== verification/Settlement.thy ===== *)
theory Settlement
  imports F7_Exact Core_Error Channel_Ledger
begin

text \<open>
  Settlement rounds (\<^verbatim>\<open>crates/paytp-core/src/channel/settlement.rs\<close>, with the conversions of
  \<^verbatim>\<open>crates/paytp-core/src/fee.rs\<close>) and the round triggers
  (\<^verbatim>\<open>crates/paytp-core/src/channel/trigger.rs\<close>). The second half follows a history of rounds: what
  the rounds extinguish never exceeds what was metered, and what they pay never exceeds the value
  extinguished.
\<close>

section \<open>The wire numerators\<close>

definition u256_from_biguint :: "nat \<Rightarrow> error + u256" where
  "u256_from_biguint b = (if b < 2 ^ 256 then Inr (word_of_nat b) else Inl error.ArithmeticDomain)"

definition biguint_from_u256 :: "u256 \<Rightarrow> nat" where
  "biguint_from_u256 u = unat u"

definition u256_vec_from_biguints :: "nat list \<Rightarrow> error + u256 list" where
  "u256_vec_from_biguints items = collect_map u256_from_biguint items"

section \<open>A round\<close>

record round =
  rnd_roles :: "u8 list"
  rnd_division :: round_division

text \<open>An \<open>F7Error\<close> becomes an \<open>Error\<close> at the boundary, a panic stays a panic.\<close>

definition round_compute ::
  "(u8 \<times> nat) list \<Rightarrow> (u8 \<times> nat) list \<Rightarrow> rate \<Rightarrow> error fault + round" where
  "round_compute accrued settled r =
     (if length accrued \<noteq> length settled \<or> list_ex (\<lambda>(a, s). fst a \<noteq> fst s) (zip accrued settled)
      then Inl (Err error.InconsistentProposal)
      else
        let roles = map fst accrued in
        and_then (map_err Err (u256_vec_from_biguints (map snd accrued))) (\<lambda>accrued_n.
        and_then (map_err Err (u256_vec_from_biguints (map snd settled))) (\<lambda>settled_n.
        if list_ex (\<lambda>v. push_bit 128 1 \<le> v) (accrued_n @ settled_n) then Inl (Err error.ArithmeticDomain)
        else
          and_then (map_err fault_from_f7 (outstanding_meed_per_role accrued_n settled_n)) (\<lambda>outstanding.
          and_then (map_err fault_from_f7 (divide_round outstanding r)) (\<lambda>division.
          Inr \<lparr>rnd_roles = roles, rnd_division = division\<rparr>)))))"

definition funds_claim_record :: "round \<Rightarrow> bool" where
  "funds_claim_record r = rd_leg (rnd_division r)"

definition round_amount :: "round \<Rightarrow> u256" where
  "round_amount r = rd_p (rnd_division r)"

definition amount_biguint :: "round \<Rightarrow> nat" where
  "amount_biguint r = biguint_from_u256 (rd_p (rnd_division r))"

definition extinguished :: "round \<Rightarrow> (u8 \<times> u256) list" where
  "extinguished r = zip (rnd_roles r) (rd_e_r (rnd_division r))"

definition extinguished_biguint :: "round \<Rightarrow> (u8 \<times> nat) list" where
  "extinguished_biguint r = zip (rnd_roles r) (map biguint_from_u256 (rd_e_r (rnd_division r)))"

section \<open>Triggers\<close>

datatype trigger = TrValue | TrTime | TrNone

definition settleable :: "u128 \<Rightarrow> u128 \<Rightarrow> bool" where
  "settleable net_due e_extinguished \<longleftrightarrow> 0 < net_due \<or> 1 \<le> e_extinguished"

definition evaluate :: "u128 \<Rightarrow> bool \<Rightarrow> u64 \<Rightarrow> u64 \<Rightarrow> u128 \<Rightarrow> u64 \<Rightarrow> trigger" where
  "evaluate unsettled_value can_settle now last_settle th_value th_time =
     (if \<not> can_settle then TrNone
      else if 0 < th_value \<and> th_value \<le> unsettled_value then TrValue
      else if 0 < th_time \<and> th_time \<le> sat_sub now last_settle then TrTime
      else TrNone)"

definition prepay_halt :: "trigger \<Rightarrow> bool" where
  "prepay_halt t \<longleftrightarrow> t \<noteq> TrNone"

section \<open>A round on exact numbers\<close>

lemma u256_vec_Inr: "u256_vec_from_biguints xs = Inr ws \<longleftrightarrow> xs = unats ws"
proof -
  have one: "u256_from_biguint b = Inr w \<longleftrightarrow> b = unat w" for b w
    using unat_lt2p [of w] by (auto simp: u256_from_biguint_def unat_of_nat_small)
  show ?thesis
    unfolding u256_vec_from_biguints_def
  proof (induction xs arbitrary: ws)
    case (Cons x xs)
    then show ?case by (auto simp: one Cons_eq_map_conv)
  qed auto
qed

lemma outstanding_Inr:
  "outstanding_meed_per_role a s = Inr out \<longleftrightarrow>
   list_all2 (\<le>) (unats s) (unats a) \<and> unats out = map2 (-) (unats a) (unats s)"
proof -
  have "collect_map (\<lambda>(a, s). if a < s then Inl (Err f7_error.InconsistentProposal) else Inr (a - s)) (zip a s) = Inr out
      \<longleftrightarrow> list_all2 (\<le>) (unats s) (unats a) \<and> unats out = map2 (-) (unats a) (unats s)"
    if "length a = length s" for out
    using that
  proof (induction a s arbitrary: out rule: list_induct2)
    case (Cons a as s ss)
    have "s \<le> a \<Longrightarrow> unat (a - s) = unat a - unat s" by (simp add: unat_sub word_le_nat_alt)
    then show ?case using Cons.IH
      by (auto simp: word_le_nat_alt word_less_nat_alt word_unat_eq_iff not_less map_eq_Cons_conv
          intro!: exI [of _ "a - s"])
  qed auto
  then show ?thesis
    by (auto simp: outstanding_meed_per_role_def dest: list_all2_lengthD)
qed

text \<open>A successful round: the settled record names the accruals' roles and lies below them, and the
  division is the sound one of the outstanding numerators.\<close>

definition outstanding :: "(u8 \<times> nat) list \<Rightarrow> (u8 \<times> nat) list \<Rightarrow> nat list" where
  "outstanding accrued settled = map2 (-) (map snd accrued) (map snd settled)"

lemma roles_agree:
  "length a = length s \<Longrightarrow> \<not> list_ex (\<lambda>(a, s). fst a \<noteq> fst s) (zip a s) \<longleftrightarrow> map fst a = map fst s"
  by (induction a s rule: list_induct2) auto

lemma two128: "push_bit 128 1 \<le> v \<longleftrightarrow> 2 ^ 128 \<le> unat v" for v :: u256
  using unat_two_pow_128 by (simp add: two_pow_128_def word_le_nat_alt)

lemma map_err_Err_Inr: "map_err Err m = Inr x \<longleftrightarrow> m = Inr x"
  by simp

lemma round_compute_Inr:
  assumes "rate_ok r" "round_compute accrued settled r = Inr rd"
  shows "map fst settled = map fst accrued" "rnd_roles rd = map fst accrued"
    "list_all2 (\<le>) (map snd settled) (map snd accrued)"
    "\<forall>v \<in> set (map snd accrued) \<union> set (map snd settled). v < 2 ^ 128"
    "numerators_ok (outstanding accrued settled)" "round_sound (outstanding accrued settled) r (rnd_division rd)"
proof -
  from assms(2) have len: "length accrued = length settled"
      and roles: "\<not> list_ex (\<lambda>(a, s). fst a \<noteq> fst s) (zip accrued settled)"
    by (auto simp: round_compute_def split: if_splits)
  show names: "map fst settled = map fst accrued" using roles roles_agree [OF len] by metis
  from assms(2) obtain an sn out d where ws: "u256_vec_from_biguints (map snd accrued) = Inr an"
      "u256_vec_from_biguints (map snd settled) = Inr sn"
      "\<not> list_ex (\<lambda>v. push_bit 128 1 \<le> v) (an @ sn)"
      "outstanding_meed_per_role an sn = Inr out" "divide_round out r = Inr d"
      "rd = \<lparr>rnd_roles = map fst accrued, rnd_division = d\<rparr>"
    using len roles by (auto simp: round_compute_def Let_def simp del: list_ex_append split: if_splits)
  have n: "map snd accrued = unats an" "map snd settled = unats sn" using ws(1,2) by (simp_all only: u256_vec_Inr)
  have out: "list_all2 (\<le>) (unats sn) (unats an)" "unats out = outstanding accrued settled"
    using ws(4) by (simp_all add: outstanding_Inr outstanding_def n)
  show "rnd_roles rd = map fst accrued" using ws(6) by simp
  show "list_all2 (\<le>) (map snd settled) (map snd accrued)" using out(1) n by simp
  show "\<forall>v \<in> set (map snd accrued) \<union> set (map snd settled). v < 2 ^ 128"
  proof -
    have "\<forall>v \<in> set an \<union> set sn. unat v < 2 ^ 128"
      using ws(3) unfolding list_ex_iff two128 set_append by (meson not_le)
    then show ?thesis unfolding n by (simp only: set_map) blast
  qed
  show "numerators_ok (outstanding accrued settled)" "round_sound (outstanding accrued settled) r (rnd_division rd)"
    using divide_round_sound [OF assms(1) ws(5)] out(2) ws(6) by simp_all
qed

text \<open>A consistent position always settles, unless the payment leaves the 128-bit domain.\<close>

lemma map_snd_words:
  "\<forall>v \<in> set xs. v < 2 ^ 128 \<Longrightarrow>
   \<exists>ws. u256_vec_from_biguints xs = Inr ws \<and> xs = unats ws \<and> \<not> list_ex (\<lambda>v. push_bit 128 1 \<le> v) ws"
proof -
  assume small: "\<forall>v \<in> set xs. v < 2 ^ 128"
  let ?ws = "map word_of_nat xs :: u256 list"
  have "unat (word_of_nat v :: u256) = v" if "v \<in> set xs" for v
    using small that by (intro unat_of_nat_small) (auto intro: less_trans)
  then have xs: "xs = unats ?ws" by (simp add: map_idI)
  then have "\<forall>w \<in> set ?ws. unat w < 2 ^ 128" using small by (metis image_eqI set_map)
  then have "\<not> list_ex (\<lambda>v. push_bit 128 1 \<le> v) ?ws" unfolding list_ex_iff two128 by (meson not_le)
  moreover note xs
  ultimately show ?thesis using u256_vec_Inr by blast
qed

lemma all_below: "list_all2 (\<le>) xs ys \<Longrightarrow> \<forall>y \<in> set ys. y < b \<Longrightarrow> \<forall>x \<in> set xs. x < b" for b :: nat
  by (induction xs ys rule: list_all2_induct) auto

lemma round_compute_progress:
  assumes "rate_ok r" "map fst settled = map fst accrued" "list_all2 (\<le>) (map snd settled) (map snd accrued)"
    "\<forall>v \<in> set (map snd accrued). v < 2 ^ 128" "length accrued \<le> MAX_ROLES"
    "pay_exact (outstanding accrued settled) (unat (rate_p r)) (unat (rate_q r)) < 2 ^ 128"
  shows "\<exists>rd. round_compute accrued settled r = Inr rd"
proof -
  have len: "length accrued = length settled" using assms(2) by (metis length_map)
  have small: "\<forall>v \<in> set (map snd settled). v < 2 ^ 128"
    by (rule all_below [OF assms(3,4)])
  obtain an where an: "u256_vec_from_biguints (map snd accrued) = Inr an" "map snd accrued = unats an"
      "\<not> list_ex (\<lambda>v. push_bit 128 1 \<le> v) an" using map_snd_words [OF assms(4)] by blast
  obtain sn where sn: "u256_vec_from_biguints (map snd settled) = Inr sn" "map snd settled = unats sn"
      "\<not> list_ex (\<lambda>v. push_bit 128 1 \<le> v) sn" using map_snd_words [OF small] by blast
  have lens: "length an = length accrued" "length sn = length settled" using an(2) sn(2) by (metis length_map)+
  let ?out = "map2 (-) an sn"
  have le: "list_all2 (\<le>) (unats sn) (unats an)" using assms(3) an(2) sn(2) by simp
  have e: "unats ?out = map2 (-) (unats an) (unats sn)"
  proof (rule nth_equalityI)
    fix i assume "i < length (unats ?out)"
    then have i: "i < length an" "i < length sn" by simp_all
    then have "unats sn ! i \<le> unats an ! i" using le by (simp only: list_all2_conv_all_nth length_map)
    then have "sn ! i \<le> an ! i" using i by (simp add: word_le_nat_alt)
    then show "unats ?out ! i = map2 (-) (unats an) (unats sn) ! i" using i by (simp add: unat_sub word_le_nat_alt)
  qed simp
  then have out: "unats ?out = outstanding accrued settled" by (simp only: outstanding_def an(2) sn(2))
  have o: "outstanding_meed_per_role an sn = Inr ?out"
    unfolding outstanding_Inr using le e by blast
  have "\<forall>v \<in> set (outstanding accrued settled). v < 2 ^ 128"
    using assms(4) len by (auto simp: outstanding_def set_zip intro: le_less_trans [OF diff_le_self] dest: nth_mem)
  moreover have "length (outstanding accrued settled) \<le> MAX_ROLES" using assms(5) len by (simp add: outstanding_def)
  ultimately have "numerators_ok (unats ?out)" unfolding out numerators_ok_def MAX_ROLES_def by blast
  then obtain d where "divide_round ?out r = Inr d"
    using round_exact_Inr [OF assms(1), of ?out] assms(6) out by auto
  then show ?thesis
    using an sn o len assms(2) roles_agree [OF len] by (auto simp: round_compute_def Let_def)
qed

section \<open>A history of rounds\<close>

text \<open>The parties accumulate the extinguished numerators of each round into the settled record
  (F6-f) and the payments on the rail. A history takes one checkpoint's accruals per round.\<close>

definition settle_with :: "(u8 \<times> nat) list \<Rightarrow> round \<Rightarrow> (u8 \<times> nat) list" where
  "settle_with settled rd =
     zip (map fst settled) (map2 (+) (map snd settled) (map snd (extinguished_biguint rd)))"

fun settle_history ::
  "rate \<Rightarrow> (u8 \<times> nat) list list \<Rightarrow> (u8 \<times> nat) list \<Rightarrow> nat \<Rightarrow> error fault + (u8 \<times> nat) list \<times> nat" where
  "settle_history r [] settled paid = Inr (settled, paid)"
| "settle_history r (accrued # later) settled paid =
     and_then (round_compute accrued settled r)
       (\<lambda>rd. settle_history r later (settle_with settled rd) (paid + amount_biguint rd))"

lemma sum_map2_add:
  "length xs = length ys \<Longrightarrow> sum_list (map2 (+) xs ys) = sum_list xs + sum_list (ys :: nat list)"
  by (induction xs ys rule: list_induct2) auto

lemma map2_bound:
  "list_all2 (\<le>) s a \<Longrightarrow> list_all2 (\<le>) e (map2 (-) a s) \<Longrightarrow> list_all2 (\<le>) (map2 (+) s e) (a :: nat list)"
proof (induction s a arbitrary: e rule: list_all2_induct)
  case (Cons s ss a as)
  then show ?case by (cases e) auto
qed simp

lemma settle_with_bound:
  assumes "rate_ok r" "round_compute accrued settled r = Inr rd"
  shows "map fst (settle_with settled rd) = map fst accrued"
    "list_all2 (\<le>) (map snd (settle_with settled rd)) (map snd accrued)"
    "sum_list (map snd (settle_with settled rd)) = sum_list (map snd settled) + unat (rd_e (rnd_division rd))"
proof -
  note R = round_compute_Inr [OF assms]
  let ?e = "unats (rd_e_r (rnd_division rd))"
  have s: "list_all2 (\<le>) ?e (outstanding accrued settled)" "sum_list ?e = unat (rd_e (rnd_division rd))"
    using R(6) by (simp_all add: round_sound_def)
  have len: "length settled = length accrued" using R(1) by (metis length_map)
  have elen: "length ?e = length accrued" using list_all2_lengthD [OF s(1)] len by (simp add: outstanding_def)
  have snd_e: "map snd (extinguished_biguint rd) = ?e"
    using R(2) elen by (simp add: extinguished_biguint_def biguint_from_u256_def)
  have w: "map snd (settle_with settled rd) = map2 (+) (map snd settled) ?e"
    using elen len by (simp add: settle_with_def snd_e)
  show "map fst (settle_with settled rd) = map fst accrued"
    using elen len R(1) by (simp add: settle_with_def snd_e)
  show "list_all2 (\<le>) (map snd (settle_with settled rd)) (map snd accrued)"
    unfolding w by (rule map2_bound [OF R(3) s(1) [unfolded outstanding_def]])
  have "sum_list (map2 (+) (map snd settled) ?e) = sum_list (map snd settled) + sum_list ?e"
    using elen len by (intro sum_map2_add) simp
  then show "sum_list (map snd (settle_with settled rd)) = sum_list (map snd settled) + unat (rd_e (rnd_division rd))"
    unfolding w s(2) .
qed

text \<open>At the unity rate a round extinguishes exactly ten thousand numerators per unit paid.\<close>

lemma unity_extinguishes:
  assumes "round_compute accrued settled rate_unity = Inr rd"
  shows "unat (rd_e (rnd_division rd)) = amount_biguint rd * 10000"
proof -
  have ok: "rate_ok rate_unity" by (rule rate_unity_ok)
  from assms obtain out where "divide_round out rate_unity = Inr (rnd_division rd)"
    by (auto simp: round_compute_def Let_def split: if_splits)
  then have "unat (rd_p (rnd_division rd)) = pay_exact (unats out) 1 1"
      "unat (rd_e (rnd_division rd)) = ext_exact (unats out) 1 1"
    using divide_round_refines [OF ok, of out]
    by (auto simp: divide_exact_def round_nats_def rate_unity_def split: if_splits)
  then show ?thesis by (simp add: amount_biguint_def biguint_from_u256_def ext_exact_def)
qed

lemma history_unity:
  "settle_history rate_unity accs settled paid = Inr (settled', paid') \<Longrightarrow>
   sum_list (map snd settled') + paid * 10000 = sum_list (map snd settled) + paid' * 10000 \<and>
   (accs \<noteq> [] \<longrightarrow> list_all2 (\<le>) (map snd settled') (map snd (last accs)) \<and> map fst settled' = map fst (last accs))"
proof (induction accs arbitrary: settled paid)
  case (Cons acc accs)
  then obtain rd where rd: "round_compute acc settled rate_unity = Inr rd"
      and rest: "settle_history rate_unity accs (settle_with settled rd) (paid + amount_biguint rd) = Inr (settled', paid')"
    by auto
  note b = settle_with_bound [OF rate_unity_ok rd] and u = unity_extinguishes [OF rd]
  show ?case
    using Cons.IH [OF rest] b(1,2) b(3) [unfolded u] rest by (cases accs) (auto simp: algebra_simps)
qed simp

lemma sum_list_le: "list_all2 (\<le>) xs ys \<Longrightarrow> sum_list xs \<le> sum_list (ys :: nat list)"
  by (induction xs ys rule: list_all2_induct) auto

text \<open>Without a currency conversion, what was paid and the dust reverted at close make up the meed
  carve of everything metered.\<close>

lemma history_conserves:
  assumes "settle_history rate_unity (accs @ [final]) (map (\<lambda>x. (fst x, 0)) final) 0 = Inr (settled, paid)"
    "map snd final = unats ns" "unat es = sum_list (map snd settled)" "numerators_ok (unats ns)"
  shows "\<exists>credit. close_reversion_credit ns es = Inr credit \<and> paid + unat credit = unat (meed_carve ns)"
proof -
  have h: "sum_list (map snd settled) = paid * 10000" "list_all2 (\<le>) (map snd settled) (map snd final)"
    using history_unity [OF assms(1)] by (simp_all add: comp_def)
  have le: "sum_list (map snd settled) \<le> sum_list (map snd final)"
    by (rule sum_list_le [OF h(2)])
  have tot: "unat (sum_u256 ns) = sum_list (map snd final)"
    using sum_u256_exact [OF assms(4)] assms(2) by simp
  have carve: "unat (meed_carve ns) = sum_list (map snd final) div 10000"
    by (simp add: meed_carve_def unat_div_word unat_BP_DENOM tot)
  have es: "unat (es div ucast BP_DENOM) = paid"
    by (simp add: unat_div_word unat_BP_DENOM assms(3) h(1))
  have "\<not> sum_u256 ns < es" using le by (simp add: word_less_nat_alt assms(3) tot)
  then have "close_reversion_credit ns es = Inr (meed_carve ns - es div ucast BP_DENOM)"
    by (simp add: close_reversion_credit_def Let_def)
  moreover have "paid \<le> sum_list (map snd final) div 10000"
    using le h(1) by (metis div_le_mono nonzero_mult_div_cancel_right zero_neq_numeral)
  then have "unat (meed_carve ns - es div ucast BP_DENOM) = sum_list (map snd final) div 10000 - paid"
    using carve es by (simp add: unat_sub word_le_nat_alt)
  ultimately show ?thesis using carve \<open>paid \<le> _\<close> by auto
qed

end
