(* ===== verification/Props_Settlement.thy ===== *)
theory Props_Settlement
  imports Settlement
begin

text \<open>
  The properties of the settlement arithmetic (\<^verbatim>\<open>crates/paytp-f7\<close>) and of a settlement round
  (\<^verbatim>\<open>crates/paytp-core/src/channel/settlement.rs\<close>), each with a concrete instance.
\<close>

section \<open>The division of a round\<close>

text \<open>C1. For every rate the constructor \<open>Rate::new\<close> accepts, the 256/512-bit \<open>divide_round\<close> (domain
  check, saturating sum, checked products, truncating divisions, largest-remainder sweep) returns what
  exact arithmetic on natural numbers gives, on every branch: the same payment, extinguished total,
  per-role attribution and leg flag, or the same arithmetic-domain error. In particular no product
  wraps, no assertion fails and the sweep loop ends.\<close>

theorem round_is_exact:
  assumes "rate_new p q = Inr r"
  shows "(case divide_round n_r r of Inl f \<Rightarrow> Inl f | Inr d \<Rightarrow> Inr (round_nats d))
    = divide_exact (unats n_r) (unat p) (unat q)"
proof -
  have "rate_p r = p" "rate_q r = q" using assms by (auto simp: rate_new_def split: if_splits)
  with divide_round_refines [OF rate_new_ok [OF assms], of n_r] show ?thesis by simp
qed

theorem round_is_exact_witness:
  "(case divide_round [15000, 25000] \<lparr>rate_p = 1, rate_q = 1\<rparr> of Inl f \<Rightarrow> Inl f | Inr d \<Rightarrow> Inr (round_nats d))
     = Inr (4, 40000, [15000, 25000], True)"
proof -
  have "rate_new 1 1 = Inr \<lparr>rate_p = 1, rate_q = 1\<rparr>" by (simp add: rate_new_def)
  from round_is_exact [OF this, of "[15000, 25000]"] show ?thesis
    by (simp add: divide_exact_def numerators_ok_def pay_exact_def ext_exact_def attribution_def
        floor_shares_def)
qed

text \<open>C2. A successful \<open>divide_round\<close> conserves: the per-role attributions add up to the extinguished
  total exactly, no role is extinguished beyond what it accrued, every role gets its floor share or
  one more, the payment never exceeds the value of the numerators at the rate and fits 128 bits, and
  the leg flag says whether anything is extinguished.\<close>

theorem round_conserves:
  assumes "rate_new p q = Inr r" "divide_round n_r r = Inr d"
  shows "sum_list (unats (rd_e_r d)) = unat (rd_e d) \<and>
    list_all2 (\<le>) (unats (rd_e_r d)) (unats n_r) \<and>
    list_all2 (\<lambda>f g. f \<le> g \<and> g \<le> Suc f) (floor_shares (unat (rd_e d)) (unats n_r)) (unats (rd_e_r d)) \<and>
    unat (rd_p d) * (unat q * 10000) \<le> sum_list (unats n_r) * unat p \<and>
    unat (rd_p d) < 2 ^ 128 \<and> (rd_leg d \<longleftrightarrow> 1 \<le> sum_list (unats (rd_e_r d)))"
proof -
  have "rate_p r = p" "rate_q r = q" using assms(1) by (auto simp: rate_new_def split: if_splits)
  with divide_round_sound [OF rate_new_ok [OF assms(1)] assms(2)] show ?thesis
    by (simp add: round_sound_def)
qed

theorem round_conserves_witness:
  "\<exists>d. divide_round [15000, 25000] \<lparr>rate_p = 3, rate_q = 2\<rparr> = Inr d
     \<and> sum_list (unats (rd_e_r d)) = unat (rd_e d)"
proof -
  have r: "rate_new 3 2 = Inr \<lparr>rate_p = 3, rate_q = 2\<rparr>" by (simp add: rate_new_def)
  have "divide_exact (unats [15000, 25000 :: u256]) 3 2 = Inr (6, 40000, [15000, 25000], True)"
    by (simp add: divide_exact_def numerators_ok_def pay_exact_def ext_exact_def attribution_def
        floor_shares_def)
  then obtain d where "divide_round [15000, 25000] \<lparr>rate_p = 3, rate_q = 2\<rparr> = Inr d"
    using divide_round_refines [OF rate_new_ok [OF r], of "[15000, 25000]"]
    by (auto split: sum.splits)
  with round_conserves [OF r this] show ?thesis by blast
qed


section \<open>Settlement rounds\<close>

text \<open>C26. A consistent position always settles: when the settled record names the accruals' roles and lies
  below them, all below 2^128 with at most 64 roles, and the payment stays in its 128-bit domain,
  \<open>Round::compute\<close> returns a round; it extinguishes in each role at most what is outstanding, in total
  exactly what it reports, and the record after the round is again consistent.\<close>

theorem settlement_round_settles:
  assumes "rate_new p q = Inr r" "map fst settled = map fst accrued" "list_all2 (\<le>) (map snd settled) (map snd accrued)"
    "\<forall>v \<in> set (map snd accrued). v < 2 ^ 128" "length accrued \<le> MAX_ROLES"
    "pay_exact (outstanding accrued settled) (unat p) (unat q) < 2 ^ 128"
  shows "\<exists>rd. round_compute accrued settled r = Inr rd \<and> rnd_roles rd = map fst accrued \<and>
    map fst (settle_with settled rd) = map fst accrued \<and>
    list_all2 (\<le>) (map snd (settle_with settled rd)) (map snd accrued) \<and>
    sum_list (map snd (settle_with settled rd)) = sum_list (map snd settled) + unat (rd_e (rnd_division rd)) \<and>
    (funds_claim_record rd \<longleftrightarrow> 0 < sum_list (map snd (extinguished_biguint rd)))"
proof -
  have r: "rate_ok r" "rate_p r = p" "rate_q r = q"
    using rate_new_ok [OF assms(1)] assms(1) by (auto simp: rate_new_def split: if_splits)
  obtain rd where rd: "round_compute accrued settled r = Inr rd"
    using round_compute_progress [OF r(1) assms(2-5)] assms(6) r(2,3) by auto
  note i = round_compute_Inr [OF r(1) rd] and b = settle_with_bound [OF r(1) rd]
  have "length (rd_e_r (rnd_division rd)) = length (rnd_roles rd)"
  proof -
    have "length (unats (rd_e_r (rnd_division rd))) = length (outstanding accrued settled)"
      using i(6) unfolding round_sound_def by (blast dest: list_all2_lengthD)
    moreover have "length settled = length accrued" using assms(2) by (metis length_map)
    ultimately show ?thesis by (simp add: outstanding_def i(2))
  qed
  then have "map snd (extinguished_biguint rd) = unats (rd_e_r (rnd_division rd))"
    by (simp add: extinguished_biguint_def biguint_from_u256_def)
  then have f: "funds_claim_record rd \<longleftrightarrow> 0 < sum_list (map snd (extinguished_biguint rd))"
    using i(6) by (simp add: round_sound_def funds_claim_record_def Suc_le_eq)
  show ?thesis by (intro exI [of _ rd] conjI) (fact rd i(2) b(1) b(2) b(3) f)+
qed

lemma demo_position:
  "outstanding [(0x10, 15000), (0x11, 25000)] [(0x10, 0), (0x11, 5000)] = [15000, 20000]"
  by (simp add: outstanding_def)

theorem settlement_round_settles_witness:
  "\<exists>rd. round_compute [(0x10, 15000), (0x11, 25000)] [(0x10, 0), (0x11, 5000)] \<lparr>rate_p = 1, rate_q = 1\<rparr> = Inr rd"
proof -
  have r: "rate_new 1 1 = Inr \<lparr>rate_p = 1, rate_q = 1\<rparr>" by (simp add: rate_new_def)
  have pay: "pay_exact (outstanding [(0x10, 15000), (0x11, 25000)] [(0x10, 0), (0x11, 5000)]) (unat (1 :: u128)) (unat (1 :: u128)) < 2 ^ 128"
    by (simp add: demo_position pay_exact_def)
  have "\<forall>v \<in> set (map snd [(0x10 :: u8, 15000 :: nat), (0x11, 25000)]). v < 2 ^ 128" by simp
  from settlement_round_settles [OF r _ _ this _ pay] show ?thesis by (simp add: MAX_ROLES_def) blast
qed

text \<open>C25. Over a whole channel settled at the unity rate, value is conserved: after any history of rounds on
  growing accruals, what was paid in the rounds plus the dust credited back at close is the meed carve
  of everything metered, to the unit, and the close reversion does not fail.\<close>

theorem settlement_history_conserves:
  assumes "settle_history rate_unity (accs @ [final]) (map (\<lambda>x. (fst x, 0)) final) 0 = Inr (settled, paid)"
    "map snd final = unats ns" "unat es = sum_list (map snd settled)" "numerators_ok (unats ns)"
  shows "\<exists>credit. close_reversion_credit ns es = Inr credit \<and> paid + unat credit = unat (meed_carve ns)"
  using history_conserves [OF assms] .

lemma demo_history: "\<exists>settled paid. settle_history rate_unity [[(0x10, 25000)]] [(0x10, 0)] 0 = Inr (settled, paid) \<and>
    sum_list (map snd settled) < 2 ^ 256"
proof -
  have "\<exists>rd. round_compute [(0x10, 25000)] [(0x10, 0)] rate_unity = Inr rd"
    by (rule round_compute_progress [OF rate_unity_ok])
      (simp_all add: outstanding_def pay_exact_def MAX_ROLES_def rate_unity_def)
  then obtain rd where rd: "round_compute [(0x10, 25000)] [(0x10, 0)] rate_unity = Inr rd" by blast
  have "sum_list (map snd (settle_with [(0x10, 0)] rd)) = unat (rd_e (rnd_division rd))"
    using settle_with_bound(3) [OF rate_unity_ok rd] by simp
  then show ?thesis using rd unat_lt2p [of "rd_e (rnd_division rd)"] by simp
qed

theorem settlement_history_conserves_witness:
  "\<exists>settled paid credit. settle_history rate_unity ([] @ [[(0x10, 25000)]]) (map (\<lambda>x. (fst x, 0)) [(0x10, 25000)]) 0 = Inr (settled, paid) \<and>
     close_reversion_credit [25000] (word_of_nat (sum_list (map snd settled))) = Inr credit \<and>
     paid + unat credit = unat (meed_carve [25000])"
proof -
  obtain settled paid where h: "settle_history rate_unity [[(0x10, 25000)]] [(0x10, 0)] 0 = Inr (settled, paid)"
      "sum_list (map snd settled) < 2 ^ 256" using demo_history by blast
  have h': "settle_history rate_unity ([] @ [[(0x10, 25000)]]) (map (\<lambda>x. (fst x, 0)) [(0x10, 25000)]) 0 = Inr (settled, paid)"
    using h(1) by simp
  have e: "unat (word_of_nat (sum_list (map snd settled)) :: u256) = sum_list (map snd settled)"
    using h(2) by (simp add: unat_of_nat_small)
  from settlement_history_conserves [OF h' _ e, of "[25000]"] h' show ?thesis
    by (auto simp: numerators_ok_def)
qed

section \<open>Claims and triggers\<close>

text \<open>The instance-side share is exact and its withdrawal path-independent: \<open>claimable_d\<close> never fails and
  returns the floor of the weight over the cumulative receipts less what was paid (zero for a malformed
  weight), so claiming at any intermediate moment and again later draws in total exactly what one later
  claim would have drawn.\<close>

theorem claims_path_independent:
  assumes "0 < tot" "w \<le> tot" "v1 \<le> v2" "unat paid \<le> unat v1 * unat w div unat tot"
    "claimable_d v1 w tot paid = Inr c1" "unat paid' = unat paid + unat c1" "claimable_d v2 w tot paid' = Inr c2"
  shows "unat paid + unat c1 = unat v1 * unat w div unat tot \<and>
    unat paid + unat c1 + unat c2 = unat v2 * unat w div unat tot \<and>
    (\<exists>c. claimable_d v2 w tot paid = Inr c \<and> unat c = unat c1 + unat c2)"
proof -
  have nz: "\<not> (tot = 0 \<or> tot < w)" using assms(1,2) by auto
  have ex: "\<exists>c. claimable_d v w tot pd = Inr c \<and> unat c = unat v * unat w div unat tot - unat pd" for v pd
    using claimable_d_exact [of v w tot pd] nz by simp
  have c1: "unat c1 = unat v1 * unat w div unat tot - unat paid" using ex [of v1 paid] assms(5) by auto
  have c2: "unat c2 = unat v2 * unat w div unat tot - unat paid'" using ex [of v2 paid'] assms(7) by auto
  have "unat v1 * unat w div unat tot \<le> unat v2 * unat w div unat tot"
    using assms(3) by (intro div_le_mono mult_le_mono1) (simp add: word_le_nat_alt)
  then show ?thesis using c1 c2 assms(4,6) ex [of v2 paid] by auto
qed

theorem claims_path_independent_witness:
  "\<exists>c. claimable_d 2001 50 100 (0 :: u256) = Inr c \<and> unat c = 1000"
proof -
  obtain c1 where c1: "claimable_d 999 50 100 0 = Inr c1" "unat c1 = 499"
    using claimable_d_exact [of 999 50 100 0] by auto
  obtain c2 where c2: "claimable_d 2001 50 100 c1 = Inr c2" "unat c2 = 501"
    using claimable_d_exact [of 2001 50 100 c1] c1(2) by auto
  from claims_path_independent [OF _ _ _ _ c1(1) _ c2(1)] c1(2) c2(2) show ?thesis by simp
qed

text \<open>Settlement triggers never retract: once the evaluation of a settleable channel fires, it keeps
  firing while the unsettled value and the clock only grow, and it never fires on a channel with nothing
  to settle.\<close>

theorem trigger_monotone:
  assumes "evaluate v can now since tv tt \<noteq> TrNone" "v \<le> v'" "now \<le> now'"
  shows "can \<and> evaluate v' can now' since tv tt \<noteq> TrNone \<and> prepay_halt (evaluate v' can now' since tv tt) \<and>
    evaluate v' False now' since tv tt = TrNone"
proof -
  have "sat_sub now since \<le> sat_sub now' since"
    using assms(3) by (simp add: word_le_nat_alt unat_sat_sub)
  with assms show ?thesis
    by (auto simp: evaluate_def prepay_halt_def split: if_splits intro: order.trans)
qed

theorem trigger_monotone_witness:
  "evaluate 7 True 3 1 5 9 \<noteq> TrNone"
  using trigger_monotone [of 5 True 2 1 5 9 7 3] by (simp add: evaluate_def)

end
