(* ===== verification/Checkpoint_Canonical.thy ===== *)
theory Checkpoint_Canonical
  imports Checkpoint
begin

text \<open>
  The wire form of the checkpoint is canonical: the item formats of its lists are item codecs, the
  whole object a canonical codec, so a countersigned byte string names one checkpoint.
\<close>

section \<open>The list items\<close>

definition accrual_ok :: "u8 \<times> nat \<Rightarrow> bool" where
  "accrual_ok x \<longleftrightarrow> snd x \<le> 2 ^ 128 - 1"

definition range_ok :: "seq_range \<Rightarrow> bool" where
  "range_ok r \<longleftrightarrow> range_lo r \<le> range_hi r \<and> range_hi r \<le> SEQ_MAX"

definition event_ok :: "event \<Rightarrow> bool" where
  "event_ok e \<longleftrightarrow> 1 \<le> ev_kind e \<and> ev_kind e \<le> 3 \<and> length (ev_reference e) < 2 ^ 32"

lemma check_value_domain: "check_field_domain v Value = Inr () \<longleftrightarrow> v \<le> 2 ^ 128 - 1"
  by (simp add: check_field_domain_def domain_max_def not_less)

lemma length_uint_value:
  assumes "v \<le> 2 ^ 128 - 1"
  shows "length (encode_uint_biguint v) < 2 ^ 32"
proof -
  have "v < 2 ^ LENGTH(128)" using assms by simp
  then have "unat (word_of_nat v :: u128) = v" by (rule unat_of_nat_small)
  then have "encode_uint_biguint v = encode_uint_u128 (word_of_nat v)" by (simp add: encode_uint_u128_eq)
  moreover have "length (encode_uint_u128 w) \<le> 16" for w
    unfolding encode_uint_u128_def using length_dropWhile_le [of _ "be_bytes 16 (unat w)"] by auto
  ultimately have "length (encode_uint_biguint v) \<le> 16" by simp
  then show ?thesis by (rule le_less_trans) simp
qed

interpretation accrual: tlv_item accrual_ok accrual_item parse_accrual
proof unfold_locales
  fix x :: "u8 \<times> nat" and rest :: bytes
  assume ok: "accrual_ok x"
  obtain r v where x: "x = (r, v)" by (cases x)
  let ?n = "encode_uint_biguint v"
  have n: "length ?n < 2 ^ 32" using ok x by (intro length_uint_value) (simp add: accrual_ok_def)
  show "parse_accrual (accrual_item x @ rest) = Inr (x, length (accrual_item x))"
    using ok x leb_string_front(1) [OF n, of rest] leb_string_front(2) [OF n] uint_accepted [of ?n v]
    by (simp add: parse_accrual_def accrual_item_def Let_def check_value_domain accrual_ok_def)
next
  fix b :: bytes and x :: "u8 \<times> nat" and k :: nat
  assume "parse_accrual b = Inr (x, k)"
  then obtain r t len n num where b: "b = r # t" "leb_decode t = Inr (len, n)" "n + unat len \<le> length t"
      "decode_uint_biguint (take (unat len) (drop n t)) = Inr num" "num \<le> 2 ^ 128 - 1"
      "x = (r, num)" "k = Suc (n + unat len)"
    by (cases b) (auto simp: parse_accrual_def Let_def check_value_domain split: if_splits)
  have v: "take (unat len) (drop n t) = encode_uint_biguint num" using b(4) by (simp only: uint_accepted)
  note parts = leb_string_back [OF b(2,3), unfolded v]
  have "length (encode_uint_biguint num) = unat len" using b(3) by (simp flip: v)
  then have "length (accrual_item x) = k" using parts(3) by (simp add: accrual_item_def b Let_def)
  moreover have "b = accrual_item x @ drop (n + unat len) t"
    using parts(1) by (simp add: accrual_item_def b(1,6) Let_def)
  ultimately show "accrual_ok x \<and> k \<le> length b \<and> accrual_item x = take k b"
    using b(3,5,6,7) by (simp add: accrual_ok_def b(1))
next
  show "accrual_ok x \<Longrightarrow> accrual_item x \<noteq> []" for x
    by (cases x) (simp add: accrual_item_def Let_def)
qed

lemma two_words_back:
  assumes "16 \<le> length b"
  shows "to_be_bytes (word_of_nat (be_nat (take 8 b)) :: u64) @
    to_be_bytes (word_of_nat (be_nat (take 8 (drop 8 b))) :: u64) = take 16 b"
proof -
  have "take 16 b = take 8 b @ take 8 (drop 8 b)" using take_add [of 8 8 b] by simp
  then show ?thesis using assms by (simp add: seq_bytes_back)
qed

interpretation range: tlv_item range_ok range_item parse_range
proof unfold_locales
  fix r :: seq_range and rest :: bytes
  assume "range_ok r"
  then show "parse_range (range_item r @ rest) = Inr (r, length (range_item r))"
    by (simp add: parse_range_def range_item_def seq_bytes range_ok_def Let_def not_less)
next
  fix b :: bytes and r :: seq_range and k :: nat
  assume "parse_range b = Inr (r, k)"
  then have b: "16 \<le> length b" "k = 16" "range_ok r"
      "r = \<lparr>range_lo = word_of_nat (be_nat (take 8 b)), range_hi = word_of_nat (be_nat (take 8 (drop 8 b)))\<rparr>"
    by (auto simp: parse_range_def range_ok_def Let_def not_less split: if_splits)
  then show "range_ok r \<and> k \<le> length b \<and> range_item r = take k b"
    using two_words_back [OF b(1)] by (simp add: range_item_def)
next
  have "length (range_item r) = 16" for r by (simp add: range_item_def)
  then show "range_item r \<noteq> []" for r by (metis list.size(3) zero_neq_numeral)
qed

interpretation event: tlv_item event_ok event_item parse_event
proof unfold_locales
  fix e :: event and rest :: bytes
  assume ok: "event_ok e"
  then have n: "length (ev_reference e) < 2 ^ 32" by (simp add: event_ok_def)
  show "parse_event (event_item e @ rest) = Inr (e, length (event_item e))"
    using ok leb_string_front(1) [OF n, of rest] leb_string_front(2) [OF n]
    by (simp add: parse_event_def event_item_def Let_def event_ok_def)
next
  fix b :: bytes and e :: event and k :: nat
  assume "parse_event b = Inr (e, k)"
  then obtain r t len n where b: "b = r # t" "leb_decode t = Inr (len, n)" "n + unat len \<le> length t"
      "1 \<le> r" "r \<le> 3" "e = \<lparr>ev_kind = r, ev_reference = take (unat len) (drop n t)\<rparr>" "k = Suc (n + unat len)"
    by (cases b) (auto simp: parse_event_def Let_def split: if_splits)
  note parts = leb_string_back [OF b(2,3)]
  have "length (event_item e) = k" using parts(3) b(3) by (simp add: event_item_def b(6,7))
  moreover have "b = event_item e @ drop (n + unat len) t"
    using parts(1) by (simp add: event_item_def b(1,6))
  ultimately show "event_ok e \<and> k \<le> length b \<and> event_item e = take k b"
    using b(3,4,5,7) parts(2) by (simp add: event_ok_def b(1,6))
next
  show "event_item e \<noteq> []" for e by (simp add: event_item_def)
qed

section \<open>The object\<close>

abbreviation checkpoint_types :: "u8 list" where
  "checkpoint_types \<equiv> [CK_CHANNEL_ID, CK_BALANCE, CK_CUM_TOTAL, CK_ACCRUALS, CK_LAST_SEQ, CK_RANGES,
     CK_TRANSCRIPT, CK_EVENTS, CK_TIMESTAMP, CK_PREV_REF, CK_SIG_PAYER, CK_SIG_MERCHANT]"

lemma checkpoint_types_ascending: "sorted_wrt (<) checkpoint_types"
  by (simp add: ck_types)

lemma checkpoint_schema_closed: "checkpoint_schema = closed_schema checkpoint_types"
  by (simp add: checkpoint_schema_def closed_schema_def)

definition signed_balance :: "checkpoint \<Rightarrow> int" where
  "signed_balance c = (if ck_balance_negative c then - int (ck_balance c) else int (ck_balance c))"

definition optional_field :: "u8 \<Rightarrow> bytes option \<Rightarrow> field list" where
  "optional_field t v = (case v of None \<Rightarrow> [] | Some x \<Rightarrow> [field_new t False x])"

definition checkpoint_fields :: "checkpoint \<Rightarrow> field list" where
  "checkpoint_fields c =
     [field_new CK_CHANNEL_ID False (ck_channel_id c),
      field_new CK_BALANCE False (encode_sint (signed_balance c)),
      field_new CK_CUM_TOTAL False (encode_uint_biguint (ck_cum_total c)),
      field_new CK_ACCRUALS False (build_count_prefixed (map accrual_item (ck_accruals c))),
      field_new CK_LAST_SEQ False (to_be_bytes (ck_last_seq c)),
      field_new CK_RANGES False (build_count_prefixed (map range_item (ck_ranges c))),
      field_new CK_TRANSCRIPT False (ck_transcript c),
      field_new CK_EVENTS False (build_count_prefixed (map event_item (ck_events c))),
      field_new CK_TIMESTAMP False (encode_uint_u128 (ucast (ck_timestamp c))),
      field_new CK_PREV_REF False (ck_prev_ref c)]
     @ optional_field CK_SIG_PAYER (ck_sig_payer c) @ optional_field CK_SIG_MERCHANT (ck_sig_merchant c)"

lemma checkpoint_fields_ascending: "sorted_wrt (<) (map type_num (checkpoint_fields c))"
  by (simp add: checkpoint_fields_def optional_field_def ck_types split: option.splits)

lemma checkpoint_encode_fields: "checkpoint_encode c = Inr (object_encode (Object (checkpoint_fields c)))"
proof -
  have "checkpoint_encode c = and_then (from_fields (checkpoint_fields c)) (\<lambda>obj. Inr (object_encode obj))"
    by (cases "ck_sig_payer c"; cases "ck_sig_merchant c")
      (simp_all add: checkpoint_encode_def content_fields_def checkpoint_fields_def optional_field_def
        signed_balance_def Let_def del: and_then_Inr)
  then show ?thesis by (simp add: from_fields_ascending [OF checkpoint_fields_ascending] del: and_then_Inr)
qed

text \<open>The checkpoints the wire carries. The last line is the length bound of the TLV format.\<close>

definition signature_ok :: "bytes option \<Rightarrow> bool" where
  "signature_ok s \<longleftrightarrow> (case s of None \<Rightarrow> True | Some v \<Rightarrow> length v = 64)"

definition checkpoint_ok :: "checkpoint \<Rightarrow> bool" where
  "checkpoint_ok c \<longleftrightarrow>
     length (ck_channel_id c) = 8 \<and> length (ck_transcript c) = 32 \<and> length (ck_prev_ref c) = 32 \<and>
     signature_ok (ck_sig_payer c) \<and> signature_ok (ck_sig_merchant c) \<and>
     ck_balance c \<le> 2 ^ 128 - 1 \<and> (ck_balance_negative c \<longrightarrow> ck_balance c \<noteq> 0) \<and>
     ck_cum_total c \<le> 2 ^ 128 - 1 \<and> ck_last_seq c \<le> SEQ_MAX \<and> unat (ck_timestamp c) \<le> 2 ^ 53 - 1 \<and>
     list_all accrual_ok (ck_accruals c) \<and> successively (\<lambda>a b. fst a < fst b) (ck_accruals c) \<and>
     list_all range_ok (ck_ranges c) \<and> successively ranges_apart (ck_ranges c) \<and>
     list_all event_ok (ck_events c) \<and> successively event_less (ck_events c) \<and>
     length (ck_accruals c) < 2 ^ 32 \<and> length (ck_ranges c) < 2 ^ 32 \<and> length (ck_events c) < 2 ^ 32 \<and>
     list_all field_ok (checkpoint_fields c)"

lemma checkpoint_object_ok: "checkpoint_ok c \<Longrightarrow> object_ok (Object (checkpoint_fields c))"
  by (simp add: checkpoint_ok_def object_ok_iff checkpoint_fields_ascending)

lemma checkpoint_get:
  "object_get (Object (checkpoint_fields c)) CK_CHANNEL_ID = Some (field_new CK_CHANNEL_ID False (ck_channel_id c))"
  "object_get (Object (checkpoint_fields c)) CK_BALANCE
     = Some (field_new CK_BALANCE False (encode_sint (signed_balance c)))"
  "object_get (Object (checkpoint_fields c)) CK_CUM_TOTAL
     = Some (field_new CK_CUM_TOTAL False (encode_uint_biguint (ck_cum_total c)))"
  "object_get (Object (checkpoint_fields c)) CK_ACCRUALS
     = Some (field_new CK_ACCRUALS False (build_count_prefixed (map accrual_item (ck_accruals c))))"
  "object_get (Object (checkpoint_fields c)) CK_LAST_SEQ
     = Some (field_new CK_LAST_SEQ False (to_be_bytes (ck_last_seq c)))"
  "object_get (Object (checkpoint_fields c)) CK_RANGES
     = Some (field_new CK_RANGES False (build_count_prefixed (map range_item (ck_ranges c))))"
  "object_get (Object (checkpoint_fields c)) CK_TRANSCRIPT
     = Some (field_new CK_TRANSCRIPT False (ck_transcript c))"
  "object_get (Object (checkpoint_fields c)) CK_EVENTS
     = Some (field_new CK_EVENTS False (build_count_prefixed (map event_item (ck_events c))))"
  "object_get (Object (checkpoint_fields c)) CK_TIMESTAMP
     = Some (field_new CK_TIMESTAMP False (encode_uint_u128 (ucast (ck_timestamp c))))"
  "object_get (Object (checkpoint_fields c)) CK_PREV_REF
     = Some (field_new CK_PREV_REF False (ck_prev_ref c))"
  "object_get (Object (checkpoint_fields c)) CK_SIG_PAYER = map_option (field_new CK_SIG_PAYER False) (ck_sig_payer c)"
  "object_get (Object (checkpoint_fields c)) CK_SIG_MERCHANT
     = map_option (field_new CK_SIG_MERCHANT False) (ck_sig_merchant c)"
  by (simp_all add: object_get_def checkpoint_fields_def optional_field_def ck_types split: option.splits)

lemma checkpoint_validates: "object_validate (Object (checkpoint_fields c)) checkpoint_schema = Inr ()"
  by (auto simp: checkpoint_schema_closed validate_closed_schema checkpoint_fields_def optional_field_def
      split: option.splits)

lemma check_pairs_Inr [simp]: "check_pairs p xs = Inr () \<longleftrightarrow> successively p xs"
  by (simp add: check_pairs_def)

lemma get_optional_sig:
  "object_get obj t = map_option (field_new t False) s \<Longrightarrow> signature_ok s \<Longrightarrow> get_optional obj t 64 = Inr s"
  by (auto simp: get_optional_Inr signature_ok_def split: option.splits)

lemma time_codec: "unat t \<le> 2 ^ 53 - 1 \<Longrightarrow> decode_uint_time (encode_uint_u128 (ucast t)) = Inr t" for t :: u64
proof -
  assume t: "unat t \<le> 2 ^ 53 - 1"
  have "unat (ucast t :: u128) = unat t" using unat_lt2p [of t] by (simp add: unat_ucast_small)
  with t show ?thesis by (simp add: uint_time_accepted encode_uint_u128_eq)
qed

lemma signed_balance_split:
  "(ck_balance_negative c \<longrightarrow> ck_balance c \<noteq> 0) \<Longrightarrow>
   (signed_balance c < 0) = ck_balance_negative c \<and> nat \<bar>signed_balance c\<bar> = ck_balance c"
  by (auto simp: signed_balance_def)

lemma checkpoint_decode_encode:
  assumes "checkpoint_ok c"
  shows "checkpoint_parse (object_encode (Object (checkpoint_fields c))) = Inr c"
proof -
  note ok = assms [unfolded checkpoint_ok_def]
  have "object_parse (object_encode (Object (checkpoint_fields c))) = Inr (Object (checkpoint_fields c))"
    by (rule object.decode_encode [OF checkpoint_object_ok [OF assms]])
  moreover have "decode_sint (encode_sint (signed_balance c)) = Inr (signed_balance c)"
    by (rule sint.decode_encode) simp
  moreover have "decode_uint_biguint (encode_uint_biguint (ck_cum_total c)) = Inr (ck_cum_total c)"
    by (simp add: uint_accepted)
  moreover have "parse_count_prefixed (build_count_prefixed (map accrual_item (ck_accruals c))) parse_accrual
      = Inr (ck_accruals c)"
    using ok by (intro accrual.counted.decode_encode) simp
  moreover have "parse_count_prefixed (build_count_prefixed (map range_item (ck_ranges c))) parse_range
      = Inr (ck_ranges c)"
    using ok by (intro range.counted.decode_encode) simp
  moreover have "parse_count_prefixed (build_count_prefixed (map event_item (ck_events c))) parse_event
      = Inr (ck_events c)"
    using ok by (intro event.counted.decode_encode) simp
  ultimately show ?thesis
    using ok time_codec [of "ck_timestamp c"] signed_balance_split [of c]
      get_optional_sig [OF checkpoint_get(11)] get_optional_sig [OF checkpoint_get(12)]
    by (simp add: checkpoint_parse_def get_value_def checkpoint_get checkpoint_validates Let_def
        fixed_bytes_def check_value_domain seq_bytes not_less)
qed

lemma checkpoint_parse_values:
  assumes "checkpoint_parse bs = Inr c"
  obtains obj bal vb vc va vl vr ve vt where
    "object_parse bs = Inr obj" "object_validate obj checkpoint_schema = Inr ()"
    "get_value obj CK_CHANNEL_ID = Inr (ck_channel_id c)" "length (ck_channel_id c) = 8"
    "get_value obj CK_BALANCE = Inr vb" "decode_sint vb = Inr bal" "ck_balance_negative c = (bal < 0)"
    "ck_balance c = nat \<bar>bal\<bar>" "ck_balance c \<le> 2 ^ 128 - 1"
    "get_value obj CK_CUM_TOTAL = Inr vc" "decode_uint_biguint vc = Inr (ck_cum_total c)"
    "ck_cum_total c \<le> 2 ^ 128 - 1"
    "get_value obj CK_ACCRUALS = Inr va" "parse_count_prefixed va parse_accrual = Inr (ck_accruals c)"
    "successively (\<lambda>a b. fst a < fst b) (ck_accruals c)"
    "get_value obj CK_LAST_SEQ = Inr vl" "length vl = 8" "ck_last_seq c = word_of_nat (be_nat vl)"
    "ck_last_seq c \<le> SEQ_MAX"
    "get_value obj CK_RANGES = Inr vr" "parse_count_prefixed vr parse_range = Inr (ck_ranges c)"
    "successively ranges_apart (ck_ranges c)"
    "get_value obj CK_TRANSCRIPT = Inr (ck_transcript c)" "length (ck_transcript c) = 32"
    "get_value obj CK_EVENTS = Inr ve" "parse_count_prefixed ve parse_event = Inr (ck_events c)"
    "successively event_less (ck_events c)"
    "get_value obj CK_TIMESTAMP = Inr vt" "decode_uint_time vt = Inr (ck_timestamp c)"
    "get_value obj CK_PREV_REF = Inr (ck_prev_ref c)" "length (ck_prev_ref c) = 32"
    "get_optional obj CK_SIG_PAYER 64 = Inr (ck_sig_payer c)"
    "get_optional obj CK_SIG_MERCHANT 64 = Inr (ck_sig_merchant c)"
  using assms
  by (auto simp: checkpoint_parse_def Let_def check_value_domain not_less simp del: get_value_Inr
      split: if_splits)

lemma get_value_Some: "get_value obj t = Inr v \<Longrightarrow> map_option (\<lambda>f. field_new t False (fvalue f)) (object_get obj t)
    = Some (field_new t False v)"
  by auto

lemma get_optional_fields:
  "get_optional obj t 64 = Inr s \<Longrightarrow> signature_ok s \<and>
   map_option (\<lambda>f. field_new t False (fvalue f)) (object_get obj t) = map_option (field_new t False) s"
  by (auto simp: get_optional_Inr signature_ok_def split: option.splits)

lemma time_back: "decode_uint_time v = Inr t \<Longrightarrow> v = encode_uint_u128 (ucast t) \<and> unat t \<le> 2 ^ 53 - 1"
proof -
  assume "decode_uint_time v = Inr t"
  then have "unat t \<le> 2 ^ 53 - 1" "v = encode_uint_biguint (unat t)" by (simp_all add: uint_time_accepted)
  moreover have "unat (ucast t :: u128) = unat t" using unat_lt2p [of t] by (simp add: unat_ucast_small)
  ultimately show ?thesis by (simp add: encode_uint_u128_eq)
qed

lemma checkpoint_encode_decode:
  assumes "checkpoint_parse bs = Inr c"
  shows "checkpoint_ok c \<and> object_encode (Object (checkpoint_fields c)) = bs"
proof (rule checkpoint_parse_values [OF assms])
  fix obj bal vb vc va vl vr ve vt
  assume obj: "object_parse bs = Inr obj" "object_validate obj checkpoint_schema = Inr ()"
    and id: "get_value obj CK_CHANNEL_ID = Inr (ck_channel_id c)" "length (ck_channel_id c) = 8"
    and bal: "get_value obj CK_BALANCE = Inr vb" "decode_sint vb = Inr bal" "ck_balance_negative c = (bal < 0)"
      "ck_balance c = nat \<bar>bal\<bar>" "ck_balance c \<le> 2 ^ 128 - 1"
    and cum: "get_value obj CK_CUM_TOTAL = Inr vc" "decode_uint_biguint vc = Inr (ck_cum_total c)"
      "ck_cum_total c \<le> 2 ^ 128 - 1"
    and acc: "get_value obj CK_ACCRUALS = Inr va" "parse_count_prefixed va parse_accrual = Inr (ck_accruals c)"
      "successively (\<lambda>a b. fst a < fst b) (ck_accruals c)"
    and sq: "get_value obj CK_LAST_SEQ = Inr vl" "length vl = 8" "ck_last_seq c = word_of_nat (be_nat vl)"
      "ck_last_seq c \<le> SEQ_MAX"
    and rng: "get_value obj CK_RANGES = Inr vr" "parse_count_prefixed vr parse_range = Inr (ck_ranges c)"
      "successively ranges_apart (ck_ranges c)"
    and tr: "get_value obj CK_TRANSCRIPT = Inr (ck_transcript c)" "length (ck_transcript c) = 32"
    and ev: "get_value obj CK_EVENTS = Inr ve" "parse_count_prefixed ve parse_event = Inr (ck_events c)"
      "successively event_less (ck_events c)"
    and ts: "get_value obj CK_TIMESTAMP = Inr vt" "decode_uint_time vt = Inr (ck_timestamp c)"
    and pr: "get_value obj CK_PREV_REF = Inr (ck_prev_ref c)" "length (ck_prev_ref c) = 32"
    and sigs: "get_optional obj CK_SIG_PAYER 64 = Inr (ck_sig_payer c)"
      "get_optional obj CK_SIG_MERCHANT 64 = Inr (ck_sig_merchant c)"
  have ok: "object_ok obj" "object_encode obj = bs" using object.encode_decode [OF obj(1)] by auto
  have "signed_balance c = bal" using bal(3,4) by (auto simp: signed_balance_def)
  then have vb: "vb = encode_sint (signed_balance c)" using bal(2) sint.accepted_iff by auto
  have vc: "vc = encode_uint_biguint (ck_cum_total c)" using cum(2) by (simp only: uint_accepted)
  have va: "va = build_count_prefixed (map accrual_item (ck_accruals c))" "list_all accrual_ok (ck_accruals c)"
      "length (ck_accruals c) < 2 ^ 32"
    using accrual.counted.encode_decode [OF acc(2)] by auto
  have vr: "vr = build_count_prefixed (map range_item (ck_ranges c))" "list_all range_ok (ck_ranges c)"
      "length (ck_ranges c) < 2 ^ 32"
    using range.counted.encode_decode [OF rng(2)] by auto
  have ve: "ve = build_count_prefixed (map event_item (ck_events c))" "list_all event_ok (ck_events c)"
      "length (ck_events c) < 2 ^ 32"
    using event.counted.encode_decode [OF ev(2)] by auto
  have vl: "vl = to_be_bytes (ck_last_seq c)" using sq(2,3) by (simp add: seq_bytes_back)
  note vt = time_back [OF ts(2)]
  note gets = id(1) bal(1) cum(1) acc(1) sq(1) rng(1) tr(1) ev(1) ts(1) pr(1)
  have "obj_fields obj = checkpoint_fields c"
    unfolding closed_object_fields [OF ok(1) obj(2) [unfolded checkpoint_schema_closed] checkpoint_types_ascending]
    using gets [THEN get_value_Some] sigs [THEN get_optional_fields]
    by (simp add: map_filter_simps checkpoint_fields_def optional_field_def vb vc va(1) vl vr(1) ve(1) vt
        del: map_option_eq_Some split: option.splits)
  then have fs: "obj = Object (checkpoint_fields c)" by (metis object.collapse)
  have "list_all field_ok (checkpoint_fields c)" using ok(1) by (simp add: fs object_ok_iff)
  then have "checkpoint_ok c"
    using id bal cum acc sq rng tr ev pr sigs [THEN get_optional_fields] va vr ve vt
    by (auto simp: checkpoint_ok_def)
  then show ?thesis using fs ok(2) by simp
qed

interpretation checkpoint: canonical_codec checkpoint_ok "\<lambda>c. object_encode (Object (checkpoint_fields c))"
  checkpoint_parse
  by unfold_locales (simp_all add: checkpoint_decode_encode checkpoint_encode_decode)

section \<open>The request\<close>

definition request_fields :: "checkpoint_request \<Rightarrow> field list" where
  "request_fields r =
     field_new R_PROPOSED False (object_encode (Object (checkpoint_fields (rq_proposed r))))
       # optional_field R_SIG (rq_sig r)"

lemma request_fields_ascending: "sorted_wrt (<) (map type_num (request_fields r))"
  by (simp add: request_fields_def optional_field_def R_PROPOSED_def R_SIG_def split: option.splits)

lemma request_encode_fields: "request_encode r = Inr (object_encode (Object (request_fields r)))"
proof -
  have "request_encode r = and_then (from_fields (request_fields r)) (\<lambda>obj. Inr (object_encode obj))"
    by (cases "rq_sig r") (simp_all add: request_encode_def checkpoint_encode_fields request_fields_def
        optional_field_def del: and_then_Inr)
  then show ?thesis by (simp add: from_fields_ascending [OF request_fields_ascending] del: and_then_Inr)
qed

definition request_ok :: "checkpoint_request \<Rightarrow> bool" where
  "request_ok r \<longleftrightarrow> checkpoint_ok (rq_proposed r) \<and> signature_ok (rq_sig r)
     \<and> length (object_encode (Object (checkpoint_fields (rq_proposed r)))) < 2 ^ 32"

lemma request_schema_closed: "request_schema = closed_schema [R_PROPOSED, R_SIG]"
  by (simp add: request_schema_def closed_schema_def)

lemma request_object_ok: "request_ok r \<Longrightarrow> object_ok (Object (request_fields r))"
  by (auto simp: object_ok_iff request_fields_ascending request_ok_def request_fields_def field_ok_def
      optional_field_def signature_ok_def R_PROPOSED_def R_SIG_def split: option.splits)

interpretation request: canonical_codec request_ok "\<lambda>r. object_encode (Object (request_fields r))" request_parse
proof unfold_locales
  fix r assume ok: "request_ok r"
  have "object_parse (object_encode (Object (request_fields r))) = Inr (Object (request_fields r))"
    by (rule object.decode_encode [OF request_object_ok [OF ok]])
  moreover have "object_validate (Object (request_fields r)) request_schema = Inr ()"
    by (auto simp: request_schema_closed validate_closed_schema request_fields_def optional_field_def
        split: option.splits)
  moreover have "get_optional (Object (request_fields r)) R_SIG 64 = Inr (rq_sig r)"
    using ok by (intro get_optional_sig)
      (auto simp: object_get_def request_fields_def optional_field_def R_PROPOSED_def R_SIG_def request_ok_def
        split: option.splits)
  moreover have "get_value (Object (request_fields r)) R_PROPOSED
      = Inr (object_encode (Object (checkpoint_fields (rq_proposed r))))"
    by (simp add: get_value_def object_get_def request_fields_def)
  ultimately show "request_parse (object_encode (Object (request_fields r))) = Inr r"
    using ok checkpoint.decode_encode [of "rq_proposed r"]
    by (simp add: request_parse_def request_ok_def del: get_value_Inr)
next
  fix bs r assume "request_parse bs = Inr r"
  then obtain obj v where obj: "object_parse bs = Inr obj" "object_validate obj request_schema = Inr ()"
      "get_value obj R_PROPOSED = Inr v" "checkpoint_parse v = Inr (rq_proposed r)"
      "get_optional obj R_SIG 64 = Inr (rq_sig r)"
    by (auto simp: request_parse_def simp del: get_value_Inr)
  have ok: "object_ok obj" "object_encode obj = bs" using object.encode_decode [OF obj(1)] by auto
  have v: "checkpoint_ok (rq_proposed r)" "v = object_encode (Object (checkpoint_fields (rq_proposed r)))"
    using checkpoint.encode_decode [OF obj(4)] by auto
  have asc: "sorted_wrt (<) [R_PROPOSED, R_SIG]" by (simp add: R_PROPOSED_def R_SIG_def)
  have "obj_fields obj = request_fields r"
    unfolding closed_object_fields [OF ok(1) obj(2) [unfolded request_schema_closed] asc]
    using get_value_Some [OF obj(3)] get_optional_fields [OF obj(5)]
    by (simp add: map_filter_simps request_fields_def optional_field_def v(2)
        del: map_option_eq_Some split: option.splits)
  then have fs: "obj = Object (request_fields r)" by (metis object.collapse)
  then have "field_ok (field_new R_PROPOSED False (object_encode (Object (checkpoint_fields (rq_proposed r)))))"
    using ok(1) by (simp add: object_ok_iff request_fields_def)
  then have "request_ok r"
    using v(1) get_optional_fields [OF obj(5)] by (simp add: request_ok_def field_ok_def)
  then show "request_ok r \<and> object_encode (Object (request_fields r)) = bs" using fs ok(2) by simp
qed

section \<open>What a signature covers\<close>

text \<open>The fields both parties sign: the checkpoint without its signatures.\<close>

definition unsigned_part :: "checkpoint \<Rightarrow> checkpoint" where
  "unsigned_part c = c\<lparr>ck_sig_payer := None, ck_sig_merchant := None\<rparr>"

lemma covered_bytes_fields:
  "checkpoint_covered_bytes c = Inr (covered Ckpt (object_encode (Object (checkpoint_fields (unsigned_part c)))))"
proof -
  have "content_fields c = Inr (checkpoint_fields (unsigned_part c))"
    by (simp add: content_fields_def checkpoint_fields_def unsigned_part_def optional_field_def signed_balance_def)
  then show ?thesis
    by (simp add: checkpoint_covered_bytes_def from_fields_ascending [OF checkpoint_fields_ascending])
qed

lemma unsigned_ok: "checkpoint_ok c \<Longrightarrow> checkpoint_ok (unsigned_part c)"
  by (cases "ck_balance_negative c")
    (simp_all add: checkpoint_ok_def unsigned_part_def signature_ok_def checkpoint_fields_def
      optional_field_def signed_balance_def)

lemma covered_bytes_inj:
  assumes "checkpoint_ok c" "checkpoint_ok d"
  shows "checkpoint_covered_bytes c = checkpoint_covered_bytes d \<longleftrightarrow> unsigned_part c = unsigned_part d"
  using checkpoint.encode_inj [OF unsigned_ok [OF assms(1)] unsigned_ok [OF assms(2)]]
  by (simp add: covered_bytes_fields covered_eq_iff)

lemma bytes_distinguish_signatures:
  assumes "checkpoint_ok c" "checkpoint_ok d" "checkpoint_encode c = checkpoint_encode d"
  shows "c = d"
  using checkpoint.encode_inj [OF assms(1,2)] assms(3) by (simp add: checkpoint_encode_fields)

end
