(* ===== verification/Attestation.thy ===== *)
theory Attestation
  imports Slice
begin

text \<open>
  The attestation and the cancellation of a purchase, \<^verbatim>\<open>crates/paytp-core/src/tier0/attest.rs\<close>: two
  merchant-signed objects over one \<open>(nonce, entry id)\<close> pair, told apart by their domain labels.
\<close>

definition AT_NONCE :: u8 where "AT_NONCE = 0x00"
definition AT_ENTRY_ID :: u8 where "AT_ENTRY_ID = 0x01"
definition AT_SIG :: u8 where "AT_SIG = 0x70"

datatype attest_kind = Attestation | Cancellation

fun kind_label :: "attest_kind \<Rightarrow> domain_label" where
  "kind_label Attestation = domain_label.Attest"
| "kind_label Cancellation = domain_label.Cancel"

record signed =
  sg_kind :: attest_kind
  sg_nonce :: bytes
  sg_entry_id :: bytes
  sg_sig :: bytes

definition attest_content :: "bytes \<Rightarrow> bytes \<Rightarrow> object" where
  "attest_content nonce entry_id =
     expect (from_fields [field_new AT_NONCE False nonce, field_new AT_ENTRY_ID False entry_id])"

definition attest_covered :: "attest_kind \<Rightarrow> bytes \<Rightarrow> bytes \<Rightarrow> bytes" where
  "attest_covered kind nonce entry_id = covered (kind_label kind) (object_encode (attest_content nonce entry_id))"

definition signed_create :: "crypto_suite \<Rightarrow> attest_kind \<Rightarrow> bytes \<Rightarrow> bytes \<Rightarrow> bytes \<Rightarrow> signed" where
  "signed_create cs kind nonce entry_id sk =
     \<lparr>sg_kind = kind, sg_nonce = nonce, sg_entry_id = entry_id,
      sg_sig = ed25519_sign cs sk (attest_covered kind nonce entry_id)\<rparr>"

definition signed_verify :: "crypto_suite \<Rightarrow> bytes \<Rightarrow> signed \<Rightarrow> bool" where
  "signed_verify cs pk s \<longleftrightarrow>
     ed25519_verify_strict cs pk (attest_covered (sg_kind s) (sg_nonce s) (sg_entry_id s)) (sg_sig s)"

definition signed_encode :: "signed \<Rightarrow> bytes" where
  "signed_encode s =
     object_encode (expect (from_fields
       [field_new AT_NONCE False (sg_nonce s), field_new AT_ENTRY_ID False (sg_entry_id s),
        field_new AT_SIG False (sg_sig s)]))"

definition signed_parse_verify :: "crypto_suite \<Rightarrow> attest_kind \<Rightarrow> bytes \<Rightarrow> bytes \<Rightarrow> error + signed" where
  "signed_parse_verify cs kind buf pk =
     and_then (object_parse buf) (\<lambda>obj.
     and_then (object_validate obj
       (schema_new Closed [(AT_NONCE, False), (AT_ENTRY_ID, False), (AT_SIG, False)])) (\<lambda>_.
     and_then (and_then (get_value obj AT_NONCE) (fixed_bytes 32)) (\<lambda>nonce.
     and_then (and_then (get_value obj AT_ENTRY_ID) (fixed_bytes 32)) (\<lambda>entry_id.
     and_then (and_then (get_value obj AT_SIG) (fixed_bytes 64)) (\<lambda>sig.
     and_then (ensure (ed25519_verify_strict cs pk (attest_covered kind nonce entry_id) sig) BadSignature) (\<lambda>_.
     Inr \<lparr>sg_kind = kind, sg_nonce = nonce, sg_entry_id = entry_id, sg_sig = sig\<rparr>))))))"

section \<open>The format\<close>

definition signed_fields :: "signed \<Rightarrow> field list" where
  "signed_fields s = [field_new AT_NONCE False (sg_nonce s), field_new AT_ENTRY_ID False (sg_entry_id s),
     field_new AT_SIG False (sg_sig s)]"

definition signed_ok :: "signed \<Rightarrow> bool" where
  "signed_ok s \<longleftrightarrow> length (sg_nonce s) = 32 \<and> length (sg_entry_id s) = 32 \<and> length (sg_sig s) = 64"

lemmas attest_types = AT_NONCE_def AT_ENTRY_ID_def AT_SIG_def

lemma attest_schema:
  "schema_new Closed [(AT_NONCE, False), (AT_ENTRY_ID, False), (AT_SIG, False)] = closed_schema [AT_NONCE, AT_ENTRY_ID, AT_SIG]"
  by (simp add: closed_schema_def)

lemma attest_content_fields:
  "attest_content nonce entry_id = Object [field_new AT_NONCE False nonce, field_new AT_ENTRY_ID False entry_id]"
  by (simp add: attest_content_def from_fields_ascending attest_types)

lemma signed_encode_fields: "signed_encode s = object_encode (Object (signed_fields s))"
  by (simp add: signed_encode_def signed_fields_def from_fields_ascending attest_types)

lemma signed_fields_ok: "signed_ok s \<Longrightarrow> object_ok (Object (signed_fields s))"
  by (simp add: object_ok_iff signed_fields_def field_ok_def signed_ok_def attest_types)

text \<open>The bytes a signature covers, spelled out: label, zero, then the two fields of 32 bytes.\<close>

lemma leb_32: "leb_encode 32 = [0x20]"
  by (subst leb_encode.simps) simp

lemma attest_content_encode:
  "length nonce = 32 \<Longrightarrow> length entry_id = 32 \<Longrightarrow>
   object_encode (attest_content nonce entry_id) = [0x00, 0x20] @ nonce @ [0x01, 0x20] @ entry_id"
  by (simp add: attest_content_fields object_encode_def field_encode_def type_byte_def attest_types leb_32)

lemma parse_verify_iff:
  "signed_parse_verify cs kind buf pk = Inr s \<longleftrightarrow>
   signed_ok s \<and> buf = signed_encode s \<and> sg_kind s = kind \<and> signed_verify cs pk s"
proof
  assume "signed_parse_verify cs kind buf pk = Inr s"
  then obtain obj f g h where obj: "object_parse buf = Inr obj"
      "object_validate obj (closed_schema [AT_NONCE, AT_ENTRY_ID, AT_SIG]) = Inr ()"
      "object_get obj AT_NONCE = Some f" "object_get obj AT_ENTRY_ID = Some g" "object_get obj AT_SIG = Some h"
    and w: "length (fvalue f) = 32" "length (fvalue g) = 32" "length (fvalue h) = 64"
    and v: "ed25519_verify_strict cs pk (attest_covered kind (fvalue f) (fvalue g)) (fvalue h)"
    and s: "s = \<lparr>sg_kind = kind, sg_nonce = fvalue f, sg_entry_id = fvalue g, sg_sig = fvalue h\<rparr>"
    by (auto simp: signed_parse_verify_def attest_schema)
  have ok: "object_ok obj" "object_encode obj = buf" using object.encode_decode [OF obj(1)] by auto
  have "obj_fields obj = signed_fields s"
    using closed_object_fields [OF ok(1) obj(2)] obj(3-5)
    by (simp add: map_filter_simps signed_fields_def s attest_types)
  then have "buf = signed_encode s" unfolding signed_encode_fields using ok(2) by (metis object.collapse)
  then show "signed_ok s \<and> buf = signed_encode s \<and> sg_kind s = kind \<and> signed_verify cs pk s"
    using w v by (simp add: signed_ok_def signed_verify_def s)
next
  assume a: "signed_ok s \<and> buf = signed_encode s \<and> sg_kind s = kind \<and> signed_verify cs pk s"
  let ?obj = "Object (signed_fields s)"
  have "object_parse buf = Inr ?obj"
    using a object.decode_encode [OF signed_fields_ok] by (simp add: signed_encode_fields)
  moreover have "object_validate ?obj (closed_schema [AT_NONCE, AT_ENTRY_ID, AT_SIG]) = Inr ()"
    by (auto simp: validate_closed_schema signed_fields_def)
  moreover have "object_get ?obj AT_NONCE = Some (signed_fields s ! 0)"
      "object_get ?obj AT_ENTRY_ID = Some (signed_fields s ! 1)" "object_get ?obj AT_SIG = Some (signed_fields s ! 2)"
    by (simp_all add: object_get_def signed_fields_def attest_types)
  ultimately show "signed_parse_verify cs kind buf pk = Inr s"
    using a by (auto simp: signed_parse_verify_def attest_schema signed_fields_def signed_ok_def signed_verify_def)
qed

text \<open>A signature of one kind covers other bytes than any signature of the other kind.\<close>

lemma attest_covered_eq_iff:
  assumes "length n = 32" "length i = 32" "length n' = 32" "length i' = 32"
  shows "attest_covered k n i = attest_covered k' n' i' \<longleftrightarrow> k = k' \<and> n = n' \<and> i = i'"
proof -
  have l: "kind_label k = kind_label k' \<longleftrightarrow> k = k'" by (cases k; cases k') auto
  show ?thesis using assms by (auto simp: attest_covered_def covered_eq_iff attest_content_encode l)
qed

end
