(* ===== verification/Derive.thy ===== *)
theory Derive
  imports Slice Tlv_List
begin

text \<open>
  Addresses and identifiers of \<^verbatim>\<open>crates/paytp-core/src/derive.rs\<close>: the canonical bytes of
  \<open>ADDRESS_INPUTS\<close>, the two seeds, and the entry identifiers. Rust strings are their UTF-8 bytes.
\<close>

section \<open>Address inputs\<close>

record meed_vector_entry =
  role :: u8
  bp :: u16
  dest :: bytes

definition encode_item :: "meed_vector_entry \<Rightarrow> bytes" where
  "encode_item e = role e # to_be_bytes (bp e) @ leb_encode (of_nat (length (dest e))) @ dest e"

record address_inputs =
  merchant_key :: bytes
  asset :: bytes
  schema_id :: u32
  meed_vector :: "meed_vector_entry list"
  contract :: u32
  merchant_net :: "bytes option"

definition T_MERCHANT_KEY :: u8 where "T_MERCHANT_KEY = 0x00"
definition T_ASSET :: u8 where "T_ASSET = 0x01"
definition T_SCHEMA :: u8 where "T_SCHEMA = 0x02"
definition T_VECTOR :: u8 where "T_VECTOR = 0x03"
definition T_CONTRACT :: u8 where "T_CONTRACT = 0x04"
definition T_MERCHANT_NET :: u8 where "T_MERCHANT_NET = 0x05"

fun validate_dests :: "(nat list \<Rightarrow> nat list) \<Rightarrow> meed_vector_entry list \<Rightarrow> error + unit" where
  "validate_dests nfc [] = Inr ()"
| "validate_dests nfc (e # es) = and_then (validate_text nfc (dest e)) (\<lambda>_. validate_dests nfc es)"

definition canonical_bytes :: "(nat list \<Rightarrow> nat list) \<Rightarrow> address_inputs \<Rightarrow> error + bytes" where
  "canonical_bytes nfc ai =
     and_then (validate_text nfc (asset ai)) (\<lambda>_.
     let roles = remdups_adj (sort (map role (meed_vector ai))) in
     if length roles \<noteq> length (meed_vector ai) then Inl DuplicateType
     else
       let sorted_vec = sort_key role (meed_vector ai) in
       and_then (validate_dests nfc sorted_vec) (\<lambda>_.
       let vector_value = build_count_prefixed (map encode_item sorted_vec);
           fields = [field_new T_MERCHANT_KEY False (merchant_key ai),
                     field_new T_ASSET False (asset ai),
                     field_new T_SCHEMA False (encode_uint_u128 (ucast (schema_id ai))),
                     field_new T_VECTOR False vector_value,
                     field_new T_CONTRACT False (encode_uint_u128 (ucast (contract ai)))]
       in and_then
            (case merchant_net ai of
               Some mn \<Rightarrow> and_then (validate_text nfc mn) (\<lambda>_. Inr (fields @ [field_new T_MERCHANT_NET False mn]))
             | None \<Rightarrow> Inr fields) (\<lambda>fields.
          and_then (from_fields fields) (\<lambda>obj. Inr (object_encode obj)))))"

definition labelled_hash :: "crypto_suite \<Rightarrow> string \<Rightarrow> bytes \<Rightarrow> bytes" where
  "labelled_hash cs label body = sha256 cs (labelled label body)"

definition seed_split :: "crypto_suite \<Rightarrow> (nat list \<Rightarrow> nat list) \<Rightarrow> address_inputs \<Rightarrow> error + bytes" where
  "seed_split cs nfc ai =
     (if merchant_net ai = None then Inl MissingField
      else and_then (canonical_bytes nfc ai) (\<lambda>bs. Inr (labelled_hash cs ''PayTPv1-split'' bs)))"

definition seed_instance :: "crypto_suite \<Rightarrow> (nat list \<Rightarrow> nat list) \<Rightarrow> address_inputs \<Rightarrow> error + bytes" where
  "seed_instance cs nfc ai =
     (if merchant_net ai \<noteq> None then Inl UnexpectedType
      else and_then (canonical_bytes nfc ai) (\<lambda>bs. Inr (labelled_hash cs ''PayTPv1-instance'' bs)))"

section \<open>Identifiers\<close>

definition entry_id_purchase ::
  "crypto_suite \<Rightarrow> bytes \<Rightarrow> bytes \<Rightarrow> u128 \<Rightarrow> u64 \<Rightarrow> u64 \<Rightarrow> u64 \<Rightarrow> bytes" where
  "entry_id_purchase cs seed_inst nonce amt t_open t_lapse contest =
     labelled_hash cs ''PayTPv1-entry''
       (seed_inst @ nonce @ to_be_bytes amt @ to_be_bytes t_open @ to_be_bytes t_lapse
        @ to_be_bytes contest)"

definition claim_record_id :: "crypto_suite \<Rightarrow> bytes \<Rightarrow> bytes \<Rightarrow> bytes \<Rightarrow> u128 \<Rightarrow> bytes" where
  "claim_record_id cs seed_inst channel_id ckpt_ref p =
     labelled_hash cs ''PayTPv1-entry'' (seed_inst @ channel_id @ ckpt_ref @ to_be_bytes p)"

definition settlement_net_memo :: "crypto_suite \<Rightarrow> bytes \<Rightarrow> bytes \<Rightarrow> bytes" where
  "settlement_net_memo cs channel_id ckpt_ref =
     labelled_hash cs ''PayTPv1-net'' (channel_id @ ckpt_ref)"

section \<open>The canonical bytes commit to every input\<close>

text \<open>The inputs the type \<open>AddressInputs\<close> can hold within the TLV format: a 32-byte key, and values
  below the 32-bit length bound.\<close>

definition entry_small :: "meed_vector_entry \<Rightarrow> bool" where
  "entry_small e \<longleftrightarrow> length (dest e) < 2 ^ 32"

definition vector_bytes :: "meed_vector_entry list \<Rightarrow> bytes" where
  "vector_bytes v = build_count_prefixed (map encode_item (sort_key role v))"

definition inputs_small :: "address_inputs \<Rightarrow> bool" where
  "inputs_small ai \<longleftrightarrow>
     length (merchant_key ai) = 32 \<and> length (asset ai) < 2 ^ 32 \<and>
     list_all entry_small (meed_vector ai) \<and> length (vector_bytes (meed_vector ai)) < 2 ^ 32 \<and>
     (case merchant_net ai of None \<Rightarrow> True | Some mn \<Rightarrow> length mn < 2 ^ 32)"

text \<open>The same facts: equal up to the order of the vector.\<close>

definition same_inputs :: "address_inputs \<Rightarrow> address_inputs \<Rightarrow> bool" where
  "same_inputs a b \<longleftrightarrow>
     a\<lparr>meed_vector := sort_key role (meed_vector a)\<rparr> = b\<lparr>meed_vector := sort_key role (meed_vector b)\<rparr>"

lemma encode_item_prefix_free:
  assumes "entry_small e" "entry_small f" "encode_item e @ r = encode_item f @ s"
  shows "e = f \<and> r = s"
proof -
  let ?n = "\<lambda>x. of_nat (length (dest x)) :: u64"
  have small: "?n x \<le> LEB_MAX \<and> unat (?n x) = length (dest x)" if "entry_small x" for x
    using leb_length_small [of "dest x"] that by (simp add: entry_small_def)
  have eq: "role e = role f" "to_be_bytes (bp e) = to_be_bytes (bp f)"
      "leb_encode (?n e) @ dest e @ r = leb_encode (?n f) @ dest f @ s"
    using assms(3) append_eq_append_conv [of "to_be_bytes (bp e)" "to_be_bytes (bp f)"]
    by (simp_all add: encode_item_def)
  have "?n e = ?n f \<and> dest e @ r = dest f @ s"
    using leb.prefix_free [OF _ _ eq(3)] small assms(1,2) by blast
  moreover from this have "length (dest e) = length (dest f)" using small assms(1,2) by metis
  moreover have "bp e = bp f" using eq(2) by (simp add: to_be_bytes_eq_iff)
  ultimately show ?thesis using eq(1) by (simp add: meed_vector_entry.equality)
qed

lemma items_inj:
  "length es = length fs \<Longrightarrow> list_all entry_small es \<Longrightarrow> list_all entry_small fs \<Longrightarrow>
   concat (map encode_item es) = concat (map encode_item fs) \<Longrightarrow> es = fs"
proof (induction es fs rule: list_induct2)
  case (Cons e es f fs)
  then show ?case using encode_item_prefix_free [of e f "concat (map encode_item es)"] by auto
qed simp

lemma sorted_remdups_adj_distinct:
  "sorted xs \<Longrightarrow> length (remdups_adj xs) = length xs \<longleftrightarrow> distinct xs" for xs :: "'a::linorder list"
proof (induction xs rule: remdups_adj.induct)
  case (3 x y xs)
  show ?case
  proof (cases "x = y")
    case True
    have "length (remdups_adj (x # xs)) \<le> length (x # xs)" by (rule remdups_adj_length)
    with True show ?thesis by simp
  next
    case False
    with "3.prems" have "x < y" "\<forall>z \<in> set xs. y \<le> z" by (auto simp: less_le)
    then have "x \<notin> set xs" by auto
    with 3 False show ?thesis by auto
  qed
qed simp_all

lemma distinct_bytes_length: "distinct (xs :: u8 list) \<Longrightarrow> length xs \<le> 256"
proof -
  assume "distinct xs"
  then have "length xs = card (set xs)" by (simp add: distinct_card)
  also have "\<dots> \<le> card (UNIV :: u8 set)" by (rule card_mono) simp_all
  also have "\<dots> = 256" by (simp add: card_word)
  finally show ?thesis .
qed

definition input_fields :: "address_inputs \<Rightarrow> field list" where
  "input_fields ai =
     [field_new T_MERCHANT_KEY False (merchant_key ai),
      field_new T_ASSET False (asset ai),
      field_new T_SCHEMA False (encode_uint_u128 (ucast (schema_id ai))),
      field_new T_VECTOR False (vector_bytes (meed_vector ai)),
      field_new T_CONTRACT False (encode_uint_u128 (ucast (contract ai)))] @
     (case merchant_net ai of None \<Rightarrow> [] | Some mn \<Rightarrow> [field_new T_MERCHANT_NET False mn])"

lemma canonical_bytes_Inr:
  assumes "canonical_bytes nfc ai = Inr bs"
  shows "bs = object_encode (Object (input_fields ai))" "distinct (map role (meed_vector ai))"
proof -
  have asc: "sorted_wrt (<) (map type_num (input_fields ai))"
    by (simp add: input_fields_def T_MERCHANT_KEY_def T_ASSET_def T_SCHEMA_def T_VECTOR_def T_CONTRACT_def
        T_MERCHANT_NET_def split: option.splits)
  show "bs = object_encode (Object (input_fields ai))"
    using assms from_fields_ascending [OF asc]
    by (auto simp: canonical_bytes_def Let_def input_fields_def vector_bytes_def
        split: if_splits option.splits)
  show "distinct (map role (meed_vector ai))"
    using assms sorted_remdups_adj_distinct [of "sort (map role (meed_vector ai))"]
    by (auto simp: canonical_bytes_def Let_def split: if_splits)
qed

lemma length_encode_uint [simp]: "length (encode_uint_u128 v) \<le> 16"
  unfolding encode_uint_u128_def using length_dropWhile_le [of _ "be_bytes 16 (unat v)"] by auto

lemma input_fields_ok: "inputs_small ai \<Longrightarrow> object_ok (Object (input_fields ai))"
proof -
  assume small: "inputs_small ai"
  have uint: "length (encode_uint_u128 v) < 2 ^ 32" for v
    using length_encode_uint [of v] by (rule le_less_trans) simp
  have types: "sorted_wrt (<) (map type_num (input_fields ai))" "\<forall>f \<in> set (input_fields ai). unat (type_num f) < 128"
    by (auto simp: input_fields_def T_MERCHANT_KEY_def T_ASSET_def T_SCHEMA_def T_VECTOR_def T_CONTRACT_def
        T_MERCHANT_NET_def split: option.splits)
  moreover have "\<forall>f \<in> set (input_fields ai). length (fvalue f) < 2 ^ 32"
    using small uint by (auto simp: input_fields_def inputs_small_def split: option.splits)
  ultimately show ?thesis by (simp add: object_ok_iff list_all_iff field_ok_def)
qed

lemma encode_uint_inj: "encode_uint_u128 v = encode_uint_u128 w \<longleftrightarrow> v = w"
  unfolding encode_uint_u128_eq using uint.encode_inj by (simp add: word_unat_eq_iff)

lemma ucast_u32_inj: "(ucast x :: u128) = ucast y \<longleftrightarrow> x = y" for x y :: u32
proof -
  have "unat (ucast z :: u128) = unat z" for z :: u32
    using unat_lt2p [of z] by (simp add: unat_ucast_small)
  then show ?thesis by (metis word_unat_eq_iff)
qed

lemma vector_bytes_inj:
  assumes "vector_bytes v = vector_bytes w" "distinct (map role v)" "distinct (map role w)"
    "list_all entry_small v" "list_all entry_small w"
  shows "sort_key role v = sort_key role w"
proof -
  have n: "length v < 2 ^ 32" if "distinct (map role v)" for v
    using distinct_bytes_length [OF that] by simp
  let ?n = "\<lambda>v :: meed_vector_entry list. of_nat (length v) :: u64"
  have len: "?n v \<le> LEB_MAX" "?n w \<le> LEB_MAX" "unat (?n v) = length v" "unat (?n w) = length w"
    using leb_length_small [OF n [OF assms(2)]] leb_length_small [OF n [OF assms(3)]] by simp_all
  have "leb_encode (?n v) @ concat (map encode_item (sort_key role v))
      = leb_encode (?n w) @ concat (map encode_item (sort_key role w))"
    using assms(1) by (simp add: vector_bytes_def build_count_prefixed_def)
  then have "?n v = ?n w \<and> concat (map encode_item (sort_key role v)) = concat (map encode_item (sort_key role w))"
    by (rule leb.prefix_free [OF len(1,2)])
  moreover from this have "length v = length w" using len(3,4) by metis
  ultimately show ?thesis
    using assms(4,5) by (intro items_inj) (simp_all add: list_all_iff)
qed

lemma canonical_bytes_inj:
  assumes "canonical_bytes nfc a = Inr bs" "canonical_bytes nfc b = Inr bs" "inputs_small a" "inputs_small b"
  shows "same_inputs a b"
proof -
  have "object_encode (Object (input_fields a)) = object_encode (Object (input_fields b))"
    using canonical_bytes_Inr(1) [OF assms(1)] canonical_bytes_Inr(1) [OF assms(2)] by simp
  then have eq: "input_fields a = input_fields b"
    using object.encode_inj [OF input_fields_ok input_fields_ok] assms(3,4) by blast
  then have "merchant_key a = merchant_key b \<and> asset a = asset b \<and> schema_id a = schema_id b
      \<and> contract a = contract b \<and> vector_bytes (meed_vector a) = vector_bytes (meed_vector b)
      \<and> merchant_net a = merchant_net b"
    by (auto simp: input_fields_def field_new_def encode_uint_inj ucast_u32_inj split: option.splits)
  moreover from this have "sort_key role (meed_vector a) = sort_key role (meed_vector b)"
    using vector_bytes_inj canonical_bytes_Inr(2) assms by (meson inputs_small_def)
  ultimately show ?thesis by (simp add: same_inputs_def)
qed

section \<open>Identifiers commit to their parts\<close>

definition entry_preimage :: "bytes \<Rightarrow> bytes \<Rightarrow> u128 \<Rightarrow> u64 \<Rightarrow> u64 \<Rightarrow> u64 \<Rightarrow> bytes" where
  "entry_preimage si nonce amt t_open t_lapse contest =
     labelled ''PayTPv1-entry'' (si @ nonce @ to_be_bytes amt @ to_be_bytes t_open @ to_be_bytes t_lapse
        @ to_be_bytes contest)"

lemma label_ascii [simp]:
  "ascii_string ''PayTPv1-entry''" "ascii_string ''PayTPv1-net''" "ascii_string ''PayTPv1-split''"
  "ascii_string ''PayTPv1-instance''"
  by (simp_all add: ascii_string_def of_char_def)

lemma entry_preimage_inj:
  assumes "length si = length si'" "length nonce = length nonce'"
  shows "entry_preimage si nonce amt t l c = entry_preimage si' nonce' amt' t' l' c' \<longleftrightarrow>
    si = si' \<and> nonce = nonce' \<and> amt = amt' \<and> t = t' \<and> l = l' \<and> c = c'"
  using assms by (auto simp: entry_preimage_def labelled_eq_iff to_be_bytes_eq_iff)

lemma entry_id_eq: "entry_id_purchase cs si nonce amt t l c = sha256 cs (entry_preimage si nonce amt t l c)"
  by (simp add: entry_id_purchase_def labelled_hash_def entry_preimage_def)

end
