(* ===== verification/Example_Parameters.thy ===== *)
theory Example_Parameters
  imports Crypto
begin

text \<open>
  Concrete functions for the parameters of the model (the cryptographic primitives of third-party
  crates, the address derivation of the runtime), used by the concrete instances of the properties.
  The hash is the identity, which collides nowhere.
\<close>

definition toy_suite :: crypto_suite where
  "toy_suite = \<lparr>sha256 = (\<lambda>bs. bs), hkdf_sha256 = (\<lambda>k s i n. replicate n 0), poly1305 = (\<lambda>k m. replicate 16 0),
     ed25519_sign = (\<lambda>k m. replicate 64 0), ed25519_public = (\<lambda>k. k),
     ed25519_verify_strict = (\<lambda>k m s. s = replicate 64 0)\<rparr>"

definition toy_pda :: "bytes list \<Rightarrow> bytes" where "toy_pda seeds = concat seeds"

definition toy_ata :: "bytes \<Rightarrow> bytes \<Rightarrow> bytes" where "toy_ata owner mint = owner @ mint"

end
