(* ===== verification/Props_Codec.thy ===== *)
theory Props_Codec
  imports Checkpoint_Canonical Attestation Derive Example_Parameters
begin

text \<open>
  The properties of the wire formats, signatures and identifiers of \<^verbatim>\<open>crates/paytp-core\<close>, each
  with a concrete instance.
\<close>

section \<open>Canonical formats\<close>

text \<open>The integer encodings are canonical bijections with their accepted byte strings: a LEB128
  string is accepted exactly if it is the encoding of a number up to 2^32 - 1, a variable-width
  unsigned integer exactly if it is the minimal big-endian string of its value, a signed one exactly
  if it is the minimal two's complement string of its value. Overlong, truncated and padded forms are
  all rejected.\<close>

theorem integers_canonical:
  "(leb_decode_exact bs = Inr n \<longleftrightarrow> n \<le> LEB_MAX \<and> bs = leb_encode n) \<and>
   (decode_uint_biguint cs = Inr k \<longleftrightarrow> cs = encode_uint_biguint k) \<and>
   (decode_sint ds = Inr i \<longleftrightarrow> ds = encode_sint i)"
  using leb_exact.accepted_iff uint.accepted_iff sint.accepted_iff by blast

text \<open>The TLV object format is canonical: \<open>Object::parse\<close> accepts a byte string exactly if it is the
  encoding of an object whose types ascend strictly and whose values fit the length domain, so no two
  byte strings parse to one object and no object has two encodings. This is the reason a signature
  over the bytes is a signature over the object.\<close>

theorem object_format_canonical:
  "object_parse bs = Inr obj \<longleftrightarrow>
   sorted_wrt (<) (map type_num (obj_fields obj)) \<and> list_all field_ok (obj_fields obj) \<and> bs = object_encode obj"
  unfolding object.accepted_iff by (cases obj) (auto simp: object_ok_iff)

text \<open>A multi-object body is accepted exactly if it is the framing of its objects and every one of
  them passes the caller's validation; any other body is rejected whole, always with the one framing
  error, so a partially valid body has no effect.\<close>

theorem frames_all_or_nothing:
  "(case parse_frames body validate of
      Inr objs \<Rightarrow> body = frame_objects objs \<and> (\<exists>u. collect_map validate objs = Inr u)
    | Inl e \<Rightarrow> e = Framing \<and>
        (\<nexists>objs. body = frame_objects objs \<and> list_all (\<lambda>obj. length obj < 2 ^ 32 \<and> validate obj = Inr ()) objs))"
proof (cases "parse_frames body validate")
  case (Inl e)
  have "\<not> list_all (\<lambda>obj. length obj < 2 ^ 32 \<and> validate obj = Inr ()) objs" if "body = frame_objects objs" for objs
    using frames.decode_encode [of objs validate] Inl that by (auto simp only: list_all_iff)
  then show ?thesis using Inl parse_frames_error [OF Inl] by auto
next
  case (Inr objs)
  then have v: "\<forall>obj \<in> set objs. validate obj = Inr ()" "frame_objects objs = body"
    using frames.encode_decode [OF Inr] by blast+
  then have "collect_map validate objs = Inr (map (\<lambda>_. ()) objs)"
    by (simp add: collect_map_Inr)
  then show ?thesis using Inr v by simp
qed

definition demo_checkpoint :: checkpoint where
  "demo_checkpoint = \<lparr>ck_channel_id = replicate 8 1, ck_balance = 5, ck_balance_negative = False, ck_cum_total = 5,
     ck_accruals = [(0x10, 250)], ck_last_seq = 3, ck_ranges = [\<lparr>range_lo = 1, range_hi = 3\<rparr>],
     ck_transcript = replicate 32 2, ck_events = [], ck_timestamp = 9, ck_prev_ref = replicate 32 0,
     ck_sig_payer = None, ck_sig_merchant = None\<rparr>"

lemmas eval_codec = encode_sint_def sint_width.simps min_bytes.simps Let_def encode_uint_biguint_def
  leb_encode.simps build_count_prefixed_def accrual_item_def range_item_def event_item_def encode_item_def
  ascii_def of_char_def

lemma uint_u128_short: "length (encode_uint_u128 v) < 4294967296"
  by (auto simp: encode_uint_u128_def intro: le_less_trans [OF length_dropWhile_le])

lemma demo_checkpoint_ok: "checkpoint_ok demo_checkpoint"
  by (simp add: checkpoint_ok_def demo_checkpoint_def signature_ok_def accrual_ok_def range_ok_def SEQ_MAX_def
      checkpoint_fields_def optional_field_def field_ok_def signed_balance_def eval_codec uint_u128_short ck_types)

text \<open>C27. The checkpoint format is canonical: \<open>Checkpoint::parse\<close> accepts exactly the encodings of the
  well-formed checkpoints (widths, field domains, ascending roles, separated ranges, ordered events,
  signatures absent or 64 bytes). Encoding fails on no checkpoint, and every well-formed one is parsed back
  from its encoding. The checkpoint request is canonical as well, the proposed checkpoint inside it
  included.\<close>

theorem checkpoint_format_canonical:
  "(checkpoint_parse bs = Inr c \<longleftrightarrow> checkpoint_ok c \<and> checkpoint_encode c = Inr bs) \<and>
   (\<exists>e. checkpoint_encode c = Inr e \<and> (checkpoint_ok c \<longrightarrow> checkpoint_parse e = Inr c)) \<and>
   (request_parse cs = Inr r \<longleftrightarrow> request_ok r \<and> request_encode r = Inr cs) \<and>
   (\<exists>e. request_encode r = Inr e \<and> (request_ok r \<longrightarrow> request_parse e = Inr r))"
  unfolding checkpoint.accepted_iff request.accepted_iff
  by (auto simp: checkpoint_encode_fields request_encode_fields)

theorem checkpoint_format_canonical_witness:
  "\<exists>e. checkpoint_encode demo_checkpoint = Inr e \<and> checkpoint_parse e = Inr demo_checkpoint"
  using checkpoint_format_canonical demo_checkpoint_ok by metis

text \<open>The slice format is canonical and metering is authenticated end to end: a slice sealed under the
  session key survives encoding and parsing unchanged and verifies under that key, and any two slices
  with the same covered bytes meter the same amount under the same number.\<close>

theorem slice_seal_roundtrip:
  assumes "\<forall>k m. length (poly1305 cs k m) = 16" "slice_seal cs sq amt k = Inr s"
  shows "slice_parse (slice_encode s) = Inr s \<and> slice_verify cs k s \<and> seq s = sq \<and> amt_micro s = amt \<and>
    (\<forall>sq' amt'. unat amt' < 2 ^ 48 \<longrightarrow>
       (slice_covered_bytes sq amt = slice_covered_bytes sq' amt' \<longleftrightarrow> sq = sq' \<and> amt = amt'))"
proof -
  have ok: "slice_ok s \<and> slice_verify cs k s \<and> seq s = sq \<and> amt_micro s = amt"
    using slice_seal_ok assms by blast
  then have "unat amt < 2 ^ 48" by (auto simp: slice_ok_def)
  then show ?thesis using ok slice.decode_encode slice_covered_inj by blast
qed

theorem slice_seal_roundtrip_witness:
  "\<exists>s. slice_seal toy_suite 7 250 [1] = Inr s \<and> slice_parse (slice_encode s) = Inr s"
proof -
  have "\<exists>s. slice_seal toy_suite 7 250 [1] = Inr s"
    by (simp add: slice_seal_def SEQ_MAX_def Let_def)
  moreover have "\<forall>k m. length (poly1305 toy_suite k m) = 16" by (simp add: toy_suite_def)
  ultimately show ?thesis using slice_seal_roundtrip by blast
qed

section \<open>What a signature covers\<close>

text \<open>Domain separation: the bytes covered by a signature determine both the object type, among the
  eighteen registered labels, and the object, so a signature made for one type of object never verifies
  as one of another type.\<close>

theorem labels_separate_domains:
  "(covered l a = covered m b \<longleftrightarrow> l = m \<and> a = b) \<and> l \<in> set all_labels \<and> length all_labels = 18"
  using covered_eq_iff all_labels_complete by (simp add: all_labels_def)

text \<open>A signature over a checkpoint covers every fact in it: two well-formed checkpoints have the same
  covered bytes exactly if they differ at most in the signatures themselves.\<close>

theorem checkpoint_signature_covers_all:
  assumes "checkpoint_ok c" "checkpoint_ok d"
  shows "checkpoint_covered_bytes c = checkpoint_covered_bytes d \<longleftrightarrow>
    c\<lparr>ck_sig_payer := None, ck_sig_merchant := None\<rparr> = d\<lparr>ck_sig_payer := None, ck_sig_merchant := None\<rparr>"
  using covered_bytes_inj [OF assms] by (simp add: unsigned_part_def)

theorem checkpoint_signature_covers_all_witness:
  "checkpoint_covered_bytes demo_checkpoint = checkpoint_covered_bytes demo_checkpoint"
  using checkpoint_signature_covers_all [OF demo_checkpoint_ok demo_checkpoint_ok] by simp

text \<open>An attestation or cancellation is accepted exactly in its one canonical encoding, for its own kind
  and under a valid merchant signature; and the two kinds cover different bytes, so neither can be
  replayed as the other or for another purchase.\<close>

theorem attestation_accepted_iff:
  assumes "length n = 32" "length i = 32" "length n' = 32" "length i' = 32"
  shows "(signed_parse_verify cs kind buf pk = Inr s \<longleftrightarrow>
      signed_ok s \<and> buf = signed_encode s \<and> sg_kind s = kind \<and> signed_verify cs pk s) \<and>
    (attest_covered k n i = attest_covered k' n' i' \<longleftrightarrow> k = k' \<and> n = n' \<and> i = i')"
  using parse_verify_iff attest_covered_eq_iff [OF assms] by blast

theorem attestation_accepted_iff_witness:
  "attest_covered Attestation (replicate 32 1) (replicate 32 2) \<noteq> attest_covered Cancellation (replicate 32 1) (replicate 32 2)"
  using attestation_accepted_iff [of "replicate 32 1" "replicate 32 2" "replicate 32 1" "replicate 32 2"] by simp

section \<open>Identifiers\<close>

text \<open>The canonical bytes commit to every address input: if two sets of inputs within the length
  domain have the same canonical bytes, they agree in merchant key, asset, schema, contract version,
  merchant-net destination and, up to the order in which they were listed, in every role, weight and
  destination of the meed vector.\<close>

theorem address_inputs_committed:
  assumes "canonical_bytes nfc a = Inr bs" "canonical_bytes nfc b = Inr bs" "inputs_small a" "inputs_small b"
  shows "merchant_key a = merchant_key b \<and> asset a = asset b \<and> schema_id a = schema_id b \<and>
    contract a = contract b \<and> merchant_net a = merchant_net b \<and>
    sort_key role (meed_vector a) = sort_key role (meed_vector b)"
proof -
  note e = canonical_bytes_inj [OF assms, unfolded same_inputs_def]
  from arg_cong [OF e, of merchant_key] arg_cong [OF e, of asset] arg_cong [OF e, of schema_id]
    arg_cong [OF e, of contract] arg_cong [OF e, of merchant_net] arg_cong [OF e, of meed_vector]
  show ?thesis by simp
qed

definition demo_inputs :: address_inputs where
  "demo_inputs = \<lparr>merchant_key = replicate 32 6, asset = ascii ''usdc'', schema_id = 1,
     meed_vector = [\<lparr>role = 0x11, bp = 10, dest = ascii ''b''\<rparr>, \<lparr>role = 0x10, bp = 50, dest = ascii ''a''\<rparr>],
     contract = 1, merchant_net = None\<rparr>"

lemma demo_canonical: "\<exists>bs. canonical_bytes (\<lambda>s. s) demo_inputs = Inr bs"
  by (simp add: canonical_bytes_def demo_inputs_def validate_text_def ascii_def of_char_def from_fields_def
      T_MERCHANT_KEY_def T_ASSET_def T_SCHEMA_def T_VECTOR_def T_CONTRACT_def)

lemma demo_inputs_small: "inputs_small demo_inputs"
  by (simp add: inputs_small_def demo_inputs_def vector_bytes_def entry_small_def eval_codec)

theorem address_inputs_committed_witness:
  "\<exists>bs. canonical_bytes (\<lambda>s. s) demo_inputs = Inr bs \<and> asset demo_inputs = asset demo_inputs"
proof -
  obtain bs where b: "canonical_bytes (\<lambda>s. s) demo_inputs = Inr bs" using demo_canonical by blast
  from address_inputs_committed [OF b b demo_inputs_small demo_inputs_small] b show ?thesis by blast
qed

text \<open>An entry identifier commits to the purchase: if the two preimages do not collide under SHA-256,
  equal identifiers come from the same instance seed, nonce, amount and windows; and the preimage of a
  purchase is never that of a claim record, though both carry one label.\<close>

theorem entry_id_commits:
  assumes "length si = 32" "length si' = 32" "length nonce = 32" "length nonce' = 32"
    "length cid = 8" "length ref = 32"
    "inj_on (sha256 cs) {entry_preimage si nonce amt t l c, entry_preimage si' nonce' amt' t' l' c'}"
  shows "(entry_id_purchase cs si nonce amt t l c = entry_id_purchase cs si' nonce' amt' t' l' c' \<longleftrightarrow>
      si = si' \<and> nonce = nonce' \<and> amt = amt' \<and> t = t' \<and> l = l' \<and> c = c') \<and>
    entry_preimage si nonce amt t l c \<noteq> labelled ''PayTPv1-entry'' (si' @ cid @ ref @ to_be_bytes (p :: u128))"
proof -
  have "entry_id_purchase cs si nonce amt t l c = entry_id_purchase cs si' nonce' amt' t' l' c' \<longleftrightarrow>
      entry_preimage si nonce amt t l c = entry_preimage si' nonce' amt' t' l' c'"
    unfolding entry_id_eq using inj_onD [OF assms(7)] by auto
  moreover have "length (entry_preimage si nonce amt t l c) \<noteq> length (labelled ''PayTPv1-entry'' (si' @ cid @ ref @ to_be_bytes p))"
    using assms(1-6) by (simp add: entry_preimage_def labelled_def)
  ultimately show ?thesis using entry_preimage_inj [of si si' nonce nonce'] assms(1-4) by auto
qed

theorem entry_id_commits_witness:
  "entry_id_purchase toy_suite (replicate 32 1) (replicate 32 2) 5 6 7 8 \<noteq> entry_id_purchase toy_suite (replicate 32 1) (replicate 32 2) 5 6 7 9"
proof -
  have "inj_on (sha256 toy_suite) A" for A by (simp add: toy_suite_def)
  from entry_id_commits [OF _ _ _ _ _ _ this, of "replicate 32 1" "replicate 32 1" "replicate 32 2" "replicate 32 2"
      "replicate 8 0" "replicate 32 0"] show ?thesis by simp
qed

text \<open>The transcript head commits to the whole history: if SHA-256 has no collision among the inputs the
  two chains hash, equal heads mean the same slices in the same order.\<close>

theorem transcript_commits:
  assumes "\<forall>x. length (sha256 cs x) = 32" "length cid = 8"
    "inj_on (sha256 cs) (set (transcript_inputs cs cid ss) \<union> set (transcript_inputs cs cid ts))"
  shows "transcript_fold cs cid ss = transcript_fold cs cid ts \<longleftrightarrow> ss = ts"
  using chain_determines_slices assms by blast

definition hash_32 :: "bytes \<Rightarrow> bytes" where "hash_32 bs = take 32 (rev bs @ replicate 32 0)"

theorem transcript_commits_witness:
  "transcript_fold (toy_suite\<lparr>sha256 := hash_32\<rparr>) [1, 2, 3, 4, 5, 6, 7, 8] [[7]] \<noteq> transcript_fold (toy_suite\<lparr>sha256 := hash_32\<rparr>) [1, 2, 3, 4, 5, 6, 7, 8] [[9]]"
proof -
  let ?cs = "toy_suite\<lparr>sha256 := hash_32\<rparr>" and ?cid = "[1, 2, 3, 4, 5, 6, 7, 8] :: bytes"
  have "inj_on (sha256 ?cs) (set (transcript_inputs ?cs ?cid [[7]]) \<union> set (transcript_inputs ?cs ?cid [[9]]))"
    unfolding inj_on_def by (simp add: transcript_inputs_def head_0_def hash_32_def ascii_def of_char_def)
  moreover have "\<forall>x. length (sha256 ?cs x) = 32" by (auto simp: hash_32_def min_def)
  ultimately show ?thesis using transcript_commits [of ?cs ?cid "[[7]]" "[[9]]"] by simp
qed

end
