(* ===== verification/Tlv_Slots.thy ===== *)
theory Tlv_Slots
  imports Checkpoint_Canonical
begin

text \<open>
  Shared reading of closed TLV objects: an object type is a list of slots, each a type number with the
  bytes found there (or nothing, for an optional field). An accepted buffer and its slots determine
  each other, so the parser of a message is canonical as soon as its field decoders are. Also the
  length-prefixed strings and unsigned integers that the items of the lists are made of, and the loops
  over the items.
\<close>

section \<open>Slots\<close>

type_synonym slot = "u8 \<times> bytes option"

definition slot_fields :: "slot list \<Rightarrow> field list" where
  "slot_fields slots = concat (map (\<lambda>(t, v). optional_field t v) slots)"

definition lookup :: "object \<Rightarrow> u8 \<Rightarrow> bytes option" where
  "lookup obj t = map_option fvalue (object_get obj t)"

definition slots_ok :: "slot list \<Rightarrow> bool" where
  "slots_ok slots \<longleftrightarrow> list_all field_ok (slot_fields slots)"

lemma slot_fields_simps [simp]:
  "slot_fields [] = []"
  "slot_fields ((t, v) # slots) = optional_field t v @ slot_fields slots"
  by (simp_all add: slot_fields_def)

lemma optional_field_simps [simp]:
  "optional_field t None = []" "optional_field t (Some v) = [field_new t False v]"
  by (simp_all add: optional_field_def)

lemma slot_fields_type: "f \<in> set (slot_fields slots) \<Longrightarrow> type_num f \<in> fst ` set slots"
proof (induction slots)
  case (Cons s slots)
  then show ?case by (cases s; cases "snd s") auto
qed simp

lemma slot_fields_plain: "f \<in> set (slot_fields slots) \<Longrightarrow> \<not> critical f"
  by (induction slots) (auto simp: optional_field_def split: option.splits)

lemma slot_fields_ascending:
  "sorted_wrt (<) (map fst slots) \<Longrightarrow> sorted_wrt (<) (map type_num (slot_fields slots))"
proof (induction slots)
  case (Cons s slots)
  have "fst s < type_num f" if "f \<in> set (slot_fields slots)" for f
    using slot_fields_type [OF that] Cons.prems by auto
  with Cons show ?case by (cases s; cases "snd s") (auto simp: sorted_wrt_map)
qed simp

lemma slots_object:
  "sorted_wrt (<) (map fst slots) \<Longrightarrow> from_fields (slot_fields slots) = Inr (Object (slot_fields slots))"
  by (simp add: from_fields_ascending slot_fields_ascending)

lemma lookup_slots:
  assumes "sorted_wrt (<) (map fst slots)" "(t, v) \<in> set slots"
  shows "lookup (Object (slot_fields slots)) t = v"
  using assms
proof (induction slots)
  case (Cons s slots)
  obtain t' v' where s: "s = (t', v')" by (cases s)
  have rest: "\<And>f. f \<in> set (slot_fields slots) \<Longrightarrow> t' < type_num f"
    using Cons.prems(1) slot_fields_type [of _ slots] by (force simp: s)
  show ?case
  proof (cases "t = t'")
    case True
    have "(t, w) \<notin> set slots" for w using Cons.prems(1) by (auto simp: s True)
    then have "v = v'" using Cons.prems(2) by (auto simp: s)
    moreover have "List.find (\<lambda>f. type_num f = t) (slot_fields slots) = None"
      using rest True by (fastforce simp: find_None_iff)
    ultimately show ?thesis
      by (cases v') (simp_all add: lookup_def object_get_def s True)
  next
    case False
    then have "(t, v) \<in> set slots" using Cons.prems(2) by (auto simp: s)
    with Cons False show ?thesis by (cases v') (simp_all add: lookup_def object_get_def s)
  qed
qed simp

text \<open>The parser's view of a buffer: its slots, each read from the object.\<close>

definition read_slots :: "bytes \<Rightarrow> slot list \<Rightarrow> bool" where
  "read_slots bs slots \<longleftrightarrow> (\<exists>obj. object_parse bs = Inr obj
     \<and> object_validate obj (closed_schema (map fst slots)) = Inr ()
     \<and> (\<forall>(t, v) \<in> set slots. lookup obj t = v))"

theorem read_slots_iff:
  assumes asc: "sorted_wrt (<) (map fst slots)"
  shows "read_slots bs slots \<longleftrightarrow> slots_ok slots \<and> bs = object_encode (Object (slot_fields slots))"
proof
  assume "read_slots bs slots"
  then obtain obj where obj: "object_parse bs = Inr obj"
      "object_validate obj (closed_schema (map fst slots)) = Inr ()"
      "\<forall>(t, v) \<in> set slots. lookup obj t = v"
    by (auto simp: read_slots_def)
  have ok: "object_ok obj" "object_encode obj = bs" using object.encode_decode [OF obj(1)] by auto
  have "map_option (\<lambda>f. field_new t False (fvalue f)) (object_get obj t) = map_option (field_new t False) v"
    if "(t, v) \<in> set slots" for t v
    using that obj(3) by (auto simp: lookup_def option.map_comp comp_def)
  then have "List.map_filter (\<lambda>t. map_option (\<lambda>f. field_new t False (fvalue f)) (object_get obj t)) (map fst slots)
      = slot_fields slots"
  proof (induction slots)
    case (Cons s slots)
    have "map_option (\<lambda>f. field_new (fst s) False (fvalue f)) (object_get obj (fst s))
        = map_option (field_new (fst s) False) (snd s)"
      using Cons.prems [of "fst s" "snd s"] by simp
    moreover have "List.map_filter (\<lambda>t. map_option (\<lambda>f. field_new t False (fvalue f)) (object_get obj t))
        (map fst slots) = slot_fields slots"
      using Cons by auto
    ultimately show ?case
      by (cases s; cases "snd s") (simp_all add: map_filter_simps del: map_option_eq_Some)
  qed (simp add: map_filter_simps)
  then have "obj = Object (slot_fields slots)"
    using closed_object_fields [OF ok(1) obj(2) asc] by (metis object.collapse)
  then show "slots_ok slots \<and> bs = object_encode (Object (slot_fields slots))"
    using ok by (simp add: object_ok_iff slots_ok_def)
next
  assume bs: "slots_ok slots \<and> bs = object_encode (Object (slot_fields slots))"
  then have "object_ok (Object (slot_fields slots))"
    by (simp add: object_ok_iff slots_ok_def slot_fields_ascending [OF asc])
  then have "object_parse bs = Inr (Object (slot_fields slots))" using bs object.decode_encode by simp
  moreover have "object_validate (Object (slot_fields slots)) (closed_schema (map fst slots)) = Inr ()"
    using slot_fields_type [of _ slots] slot_fields_plain [of _ slots] by (auto simp: validate_closed_schema)
  ultimately show "read_slots bs slots"
    using lookup_slots [OF asc] by (auto simp: read_slots_def)
qed

text \<open>What the field accessors of a parser say of the slots.\<close>

named_theorems slot_read "the accessors of a parser as facts about \<open>lookup\<close>"

lemma get_value_lookup [slot_read]: "get_value obj t = Inr v \<longleftrightarrow> lookup obj t = Some v"
  by (auto simp: get_value_def lookup_def)

lemma get_optional_lookup [slot_read]:
  "get_optional obj t 64 = Inr r \<longleftrightarrow> lookup obj t = r \<and> signature_ok r"
  by (auto simp: get_optional_Inr lookup_def signature_ok_def split: option.splits)

lemma object_get_None_lookup [slot_read]: "object_get obj t = None \<longleftrightarrow> lookup obj t = None"
  by (simp add: lookup_def)

text \<open>An optional field with a decoder of its own: \<open>obj.get(t).map(parse).transpose()\<close>.\<close>

definition get_parsed :: "object \<Rightarrow> u8 \<Rightarrow> (bytes \<Rightarrow> 'e + 'a) \<Rightarrow> 'e + 'a option" where
  "get_parsed obj t parse =
     (case object_get obj t of
        None \<Rightarrow> Inr None
      | Some f \<Rightarrow> and_then (parse (fvalue f)) (\<lambda>x. Inr (Some x)))"

context canonical_codec
begin

lemma get_parsed_lookup:
  "get_parsed obj t decode = Inr r \<longleftrightarrow> lookup obj t = map_option encode r \<and> pred_option valid r"
proof (cases "object_get obj t")
  case (Some f)
  then show ?thesis by (cases r) (auto simp: get_parsed_def lookup_def accepted_iff)
qed (auto simp: get_parsed_def lookup_def)

end

lemma canonical_codecI:
  "(\<And>bs x. decode bs = Inr x \<longleftrightarrow> valid x \<and> bs = encode x) \<Longrightarrow> canonical_codec valid encode decode"
  by unfold_locales auto

section \<open>Loops over the items\<close>

text \<open>A \<open>for\<close> loop whose body only rejects.\<close>

fun for_each :: "('a \<Rightarrow> error + unit) \<Rightarrow> 'a list \<Rightarrow> error + unit" where
  "for_each f [] = Inr ()"
| "for_each f (x # xs) = and_then (f x) (\<lambda>_. for_each f xs)"

lemma for_each_Inr [simp]: "for_each f xs = Inr () \<longleftrightarrow> (\<forall>x \<in> set xs. f x = Inr ())"
  by (induction xs) auto

section \<open>Length-prefixed strings, text and integers\<close>

definition push_lp :: "bytes \<Rightarrow> bytes \<Rightarrow> bytes" where
  "push_lp out bs = out @ leb_encode (of_nat (length bs)) @ bs"

definition read_lp :: "bytes \<Rightarrow> error + bytes \<times> nat" where
  "read_lp b =
     and_then (leb_decode b) (\<lambda>(len, n).
     let e = n + unat len in
     if length b < e then Inl LengthOverrun else Inr (take (unat len) (drop n b), e))"

text \<open>\<open>String::from_utf8\<close>; a \<open>String\<close> is the sequence of its UTF-8 bytes.\<close>

definition from_utf8 :: "bytes \<Rightarrow> error + bytes" where
  "from_utf8 raw = (if utf8_decode raw = None then Inl TextControlChar else Inr raw)"

definition read_lp_text :: "(nat list \<Rightarrow> nat list) \<Rightarrow> bytes \<Rightarrow> error + bytes \<times> nat" where
  "read_lp_text nfc b =
     and_then (read_lp b) (\<lambda>(raw, used).
     and_then (validate_text nfc raw) (\<lambda>_.
     and_then (from_utf8 raw) (\<lambda>s. Inr (s, used))))"

definition read_lp_uint :: "bytes \<Rightarrow> error + nat \<times> nat" where
  "read_lp_uint b =
     and_then (read_lp b) (\<lambda>(raw, used).
     and_then (decode_uint_biguint raw) (\<lambda>v.
     and_then (check_field_domain v Value) (\<lambda>_. Inr (v, used))))"

definition text_ok :: "(nat list \<Rightarrow> nat list) \<Rightarrow> bytes \<Rightarrow> bool" where
  "text_ok nfc s \<longleftrightarrow> validate_text nfc s = Inr ()"

lemma text_ok_utf8: "text_ok nfc s \<Longrightarrow> from_utf8 s = Inr s"
  by (auto simp: text_ok_def validate_text_Inr from_utf8_def)

interpretation lp: item_codec "\<lambda>v. length v < 2 ^ 32" "push_lp []" read_lp
proof unfold_locales
  fix v rest :: bytes
  assume "length v < 2 ^ 32"
  then show "read_lp (push_lp [] v @ rest) = Inr (v, length (push_lp [] v))"
    using leb_string_front(1) [of v rest] leb_string_front(2) [of v] by (simp add: read_lp_def push_lp_def)
next
  fix b v :: bytes and k :: nat
  assume "read_lp b = Inr (v, k)"
  then obtain len n where b: "leb_decode b = Inr (len, n)" "n + unat len \<le> length b"
      "v = take (unat len) (drop n b)" "k = n + unat len"
    by (auto simp: read_lp_def Let_def split: if_splits)
  note parts = leb_string_back [OF b(1,2), folded b(3)]
  have "length (push_lp [] v) = k" using parts(3) b by (simp add: push_lp_def)
  moreover have "b = push_lp [] v @ drop k b" using parts(1) b(4) by (simp add: push_lp_def)
  ultimately show "length v < 2 ^ 32 \<and> k \<le> length b \<and> push_lp [] v = take k b"
    using parts(2) b by (metis append_eq_conv_conj)
qed (simp add: push_lp_def)

lemma push_lp_append: "push_lp out bs = out @ push_lp [] bs"
  by (simp add: push_lp_def)

interpretation lp_text: item_codec "\<lambda>v. text_ok nfc v \<and> length v < 2 ^ 32" "push_lp []" "read_lp_text nfc" for nfc
proof unfold_locales
  fix v rest :: bytes
  assume "text_ok nfc v \<and> length v < 2 ^ 32"
  then show "read_lp_text nfc (push_lp [] v @ rest) = Inr (v, length (push_lp [] v))"
    using lp.decode_front [of v rest] text_ok_utf8 [of nfc v] by (simp add: read_lp_text_def text_ok_def)
next
  fix b v :: bytes and k :: nat
  assume "read_lp_text nfc b = Inr (v, k)"
  then have "read_lp b = Inr (v, k) \<and> text_ok nfc v"
    by (auto simp: read_lp_text_def text_ok_def from_utf8_def split: if_splits)
  then show "(text_ok nfc v \<and> length v < 2 ^ 32) \<and> k \<le> length b \<and> push_lp [] v = take k b"
    using lp.encode_front by blast
qed (simp add: push_lp_def)

interpretation lp_uint: item_codec "\<lambda>v. v \<le> 2 ^ 128 - 1" "\<lambda>v. push_lp [] (encode_uint_biguint v)" read_lp_uint
proof unfold_locales
  fix v :: nat and rest :: bytes
  assume v: "v \<le> 2 ^ 128 - 1"
  then show "read_lp_uint (push_lp [] (encode_uint_biguint v) @ rest)
      = Inr (v, length (push_lp [] (encode_uint_biguint v)))"
    using lp.decode_front [OF length_uint_value [OF v], of rest] uint_accepted [of "encode_uint_biguint v" v]
    by (simp add: read_lp_uint_def check_value_domain)
next
  fix b :: bytes and v k :: nat
  assume "read_lp_uint b = Inr (v, k)"
  then have "read_lp b = Inr (encode_uint_biguint v, k)" "v \<le> 2 ^ 128 - 1"
    by (auto simp: read_lp_uint_def check_value_domain uint_accepted)
  then show "v \<le> 2 ^ 128 - 1 \<and> k \<le> length b \<and> push_lp [] (encode_uint_biguint v) = take k b"
    using lp.encode_front by blast
qed (simp add: push_lp_def)

end
