(* ===== verification/Settle_Msg.thy ===== *)
theory Settle_Msg
  imports Tlv_Slots
begin

text \<open>
  The settlement messages of \<^verbatim>\<open>crates/paytp-core/src/channel/settle_msg.rs\<close>: the outputs of a round,
  the aggregate leg, the conversion and its decimal rate, and the four messages
  \<open>SETTLEMENT_PROPOSE\<close>, \<open>SETTLEMENT_PROOF\<close>, \<open>SETTLEMENT_CONFIRMED\<close> and \<open>PREPAY_DRAW_COMPLETED\<close> with
  their covered bytes, signatures, encoders and parsers.
\<close>

section \<open>Outputs\<close>

record round_output =
  out_amount :: nat
  out_asset :: bytes
  out_dest :: bytes

definition output_item :: "round_output \<Rightarrow> bytes" where
  "output_item x =
     push_lp (push_lp (push_lp [] (encode_uint_biguint (out_amount x))) (out_asset x)) (out_dest x)"

definition output_less :: "round_output \<Rightarrow> round_output \<Rightarrow> bool" where
  "output_less a b \<longleftrightarrow>
     bytes_less (out_dest a) (out_dest b) \<or> (out_dest a = out_dest b \<and> bytes_less (out_asset a) (out_asset b))"

definition check_outputs :: "round_output list \<Rightarrow> error + unit" where
  "check_outputs outputs =
     and_then (for_each (\<lambda>x. if out_amount x = 0 then Inl FieldDomain
                             else check_field_domain (out_amount x) Value) outputs) (\<lambda>_.
     check_pairs output_less outputs)"

definition parse_output :: "(nat list \<Rightarrow> nat list) \<Rightarrow> bytes \<Rightarrow> error + round_output \<times> nat" where
  "parse_output nfc b =
     and_then (read_lp_uint b) (\<lambda>(amount, n1).
     and_then (read_lp_text nfc (drop n1 b)) (\<lambda>(asset, n2).
     and_then (read_lp_text nfc (drop (n1 + n2) b)) (\<lambda>(dest, n3).
     Inr (\<lparr>out_amount = amount, out_asset = asset, out_dest = dest\<rparr>, n1 + n2 + n3))))"

section \<open>The rate grammar\<close>

text \<open>\<open>str::split('.')\<close>: the dot is ASCII, so splitting the bytes splits the characters.\<close>

fun split_dot :: "bytes \<Rightarrow> bytes list" where
  "split_dot [] = [[]]"
| "split_dot (b # bs) =
     (if b = 0x2e then [] # split_dot bs
      else (b # hd (split_dot bs)) # tl (split_dot bs))"

definition is_digit :: "u8 \<Rightarrow> bool" where
  "is_digit b \<longleftrightarrow> 0x30 \<le> b \<and> b \<le> 0x39"

definition all_digits :: "bytes \<Rightarrow> bool" where
  "all_digits x \<longleftrightarrow> x \<noteq> [] \<and> list_all is_digit x"

definition validate_rate :: "(nat list \<Rightarrow> nat list) \<Rightarrow> bytes \<Rightarrow> error + unit" where
  "validate_rate nfc s =
     and_then (validate_text nfc s) (\<lambda>_.
     let parts = split_dot s;
         int_part = hd parts;
         frac_part = (case tl parts of [] \<Rightarrow> None | f # _ \<Rightarrow> Some f)
     in if 2 < length parts then Inl FieldDomain
        else if \<not> all_digits int_part then Inl FieldDomain
        else if 1 < length int_part \<and> hd int_part = 0x30 then Inl FieldDomain
        else
          and_then (case frac_part of None \<Rightarrow> Inr ()
                    | Some f \<Rightarrow> if \<not> all_digits f \<or> last f = 0x30 then Inl FieldDomain else Inr ()) (\<lambda>_.
          if \<not> list_ex (\<lambda>b. 0x31 \<le> b \<and> b \<le> 0x39) s then Inl FieldDomain else Inr ()))"

section \<open>The aggregate leg\<close>

record credited_leg =
  cl_kind :: u8
  cl_rail :: bytes
  cl_reference :: bytes
  cl_finality :: bytes

record instance_leg =
  leg_amount :: nat
  leg_credited :: "credited_leg list"
  leg_extinguished :: "(u8 \<times> nat) list"

definition L_AMOUNT :: u8 where "L_AMOUNT = 0x00"
definition L_CREDITED :: u8 where "L_CREDITED = 0x01"
definition L_EXTINGUISHED :: u8 where "L_EXTINGUISHED = 0x02"

definition instance_leg_schema :: schema where
  "instance_leg_schema = schema_new Closed
     [(L_AMOUNT, False), (L_CREDITED, False), (L_EXTINGUISHED, False)]"

text \<open>The checks of an amount \<open>P\<close> and its per-role numerators, the same in the leg and the draw.\<close>

definition check_extinguished :: "nat \<Rightarrow> (u8 \<times> nat) list \<Rightarrow> error + unit" where
  "check_extinguished amount ext =
     (if amount = 0 then Inl FieldDomain
      else
        and_then (check_field_domain amount Value) (\<lambda>_.
        if ext = [] then Inl FieldDomain
        else
          and_then (for_each (\<lambda>(_, e). check_field_domain e Value) ext) (\<lambda>_.
          let e_total = sum_list (map snd ext) in
          if e_total = 0 then Inl FieldDomain
          else check_pairs (\<lambda>a b. fst a < fst b) ext)))"

definition credited_less :: "credited_leg \<Rightarrow> credited_leg \<Rightarrow> bool" where
  "credited_less a b \<longleftrightarrow>
     cl_kind a < cl_kind b \<or> (cl_kind a = cl_kind b \<and> bytes_less (cl_reference a) (cl_reference b))"

definition leg_validate :: "instance_leg \<Rightarrow> error + unit" where
  "leg_validate l =
     and_then (check_extinguished (leg_amount l) (leg_extinguished l)) (\<lambda>_.
     and_then (for_each (\<lambda>c. if cl_kind c \<noteq> 0x01 \<and> cl_kind c \<noteq> 0x02 then Inl FieldDomain else Inr ())
        (leg_credited l)) (\<lambda>_.
     check_pairs credited_less (leg_credited l)))"

definition credited_item :: "credited_leg \<Rightarrow> bytes" where
  "credited_item c =
     push_lp (push_lp (push_lp [cl_kind c] (cl_rail c)) (cl_reference c)) (cl_finality c)"

definition ext_item :: "u8 \<times> nat \<Rightarrow> bytes" where
  "ext_item x = (case x of (role, e) \<Rightarrow> push_lp [role] (encode_uint_biguint e))"

definition leg_encode :: "instance_leg \<Rightarrow> error + bytes" where
  "leg_encode l =
     and_then (leg_validate l) (\<lambda>_.
     let credited_items = map credited_item (leg_credited l);
         ext_items = map ext_item (leg_extinguished l);
         fields = [field_new L_AMOUNT False (encode_uint_biguint (leg_amount l)),
                   field_new L_CREDITED False (build_count_prefixed credited_items),
                   field_new L_EXTINGUISHED False (build_count_prefixed ext_items)]
     in and_then (from_fields fields) (\<lambda>obj. Inr (object_encode obj)))"

definition parse_credited :: "(nat list \<Rightarrow> nat list) \<Rightarrow> bytes \<Rightarrow> error + credited_leg \<times> nat" where
  "parse_credited nfc b =
     (if b = [] then Inl CountMismatch
      else
        and_then (read_lp_text nfc (drop 1 b)) (\<lambda>(rail, n1).
        and_then (read_lp_text nfc (drop (1 + n1) b)) (\<lambda>(reference, n2).
        and_then (read_lp_text nfc (drop (1 + n1 + n2) b)) (\<lambda>(finality, n3).
        Inr (\<lparr>cl_kind = b ! 0, cl_rail = rail, cl_reference = reference, cl_finality = finality\<rparr>,
             1 + n1 + n2 + n3)))))"

definition parse_ext :: "bytes \<Rightarrow> error + (u8 \<times> nat) \<times> nat" where
  "parse_ext b =
     (if b = [] then Inl CountMismatch
      else and_then (read_lp_uint (drop 1 b)) (\<lambda>(e, n). Inr ((b ! 0, e), 1 + n)))"

definition leg_parse :: "(nat list \<Rightarrow> nat list) \<Rightarrow> bytes \<Rightarrow> error + instance_leg" where
  "leg_parse nfc buf =
     and_then (object_parse buf) (\<lambda>obj.
     and_then (object_validate obj instance_leg_schema) (\<lambda>_.
     and_then (and_then (get_value obj L_AMOUNT) decode_uint_biguint) (\<lambda>amount.
     and_then (check_field_domain amount Value) (\<lambda>_.
     and_then (and_then (get_value obj L_CREDITED) (\<lambda>v. parse_count_prefixed v (parse_credited nfc))) (\<lambda>credited.
     and_then (and_then (get_value obj L_EXTINGUISHED) (\<lambda>v. parse_count_prefixed v parse_ext)) (\<lambda>extinguished.
     let leg = \<lparr>leg_amount = amount, leg_credited = credited, leg_extinguished = extinguished\<rparr> in
     and_then (leg_validate leg) (\<lambda>_. Inr leg)))))))"

section \<open>The conversion\<close>

record conversion =
  cv_rate :: bytes
  cv_rate_time :: u64
  cv_rate_exp :: u64
  cv_rate_grace :: u64

definition V_RATE :: u8 where "V_RATE = 0x00"
definition V_RATE_TIME :: u8 where "V_RATE_TIME = 0x01"
definition V_RATE_EXP :: u8 where "V_RATE_EXP = 0x02"
definition V_RATE_GRACE :: u8 where "V_RATE_GRACE = 0x03"

definition conversion_schema :: schema where
  "conversion_schema = schema_new Closed
     [(V_RATE, False), (V_RATE_TIME, False), (V_RATE_EXP, False), (V_RATE_GRACE, False)]"

definition conversion_encode :: "(nat list \<Rightarrow> nat list) \<Rightarrow> conversion \<Rightarrow> error + bytes" where
  "conversion_encode nfc c =
     and_then (validate_rate nfc (cv_rate c)) (\<lambda>_.
     let fields = [field_new V_RATE False (cv_rate c),
                   field_new V_RATE_TIME False (encode_uint_u128 (ucast (cv_rate_time c))),
                   field_new V_RATE_EXP False (encode_uint_u128 (ucast (cv_rate_exp c))),
                   field_new V_RATE_GRACE False (encode_uint_u128 (ucast (cv_rate_grace c)))]
     in and_then (from_fields fields) (\<lambda>obj. Inr (object_encode obj)))"

definition conversion_parse :: "(nat list \<Rightarrow> nat list) \<Rightarrow> bytes \<Rightarrow> error + conversion" where
  "conversion_parse nfc buf =
     and_then (object_parse buf) (\<lambda>obj.
     and_then (object_validate obj conversion_schema) (\<lambda>_.
     and_then (and_then (get_value obj V_RATE) from_utf8) (\<lambda>rate.
     and_then (validate_rate nfc rate) (\<lambda>_.
     and_then (and_then (get_value obj V_RATE_TIME) decode_uint_u64) (\<lambda>rate_time.
     and_then (and_then (get_value obj V_RATE_EXP) decode_uint_u64) (\<lambda>rate_exp.
     and_then (and_then (get_value obj V_RATE_GRACE) decode_uint_u64) (\<lambda>rate_grace.
     Inr \<lparr>cv_rate = rate, cv_rate_time = rate_time, cv_rate_exp = rate_exp,
          cv_rate_grace = rate_grace\<rparr>)))))))"

section \<open>SETTLEMENT_PROPOSE\<close>

definition P_CHANNEL_ID :: u8 where "P_CHANNEL_ID = 0x00"
definition P_CKPT_REF :: u8 where "P_CKPT_REF = 0x01"
definition P_OUTPUTS :: u8 where "P_OUTPUTS = 0x02"
definition P_INSTANCE_LEG :: u8 where "P_INSTANCE_LEG = 0x03"
definition P_CONVERSION :: u8 where "P_CONVERSION = 0x04"
definition SIG_PAYER :: u8 where "SIG_PAYER = 0x70"
definition SIG_MERCHANT :: u8 where "SIG_MERCHANT = 0x71"

record settlement_propose =
  sp_channel_id :: bytes
  sp_ckpt_ref :: bytes
  sp_outputs :: "round_output list"
  sp_instance_leg :: "instance_leg option"
  sp_conversion :: "conversion option"
  sp_sig_payer :: "bytes option"
  sp_sig_merchant :: "bytes option"

definition propose_schema :: schema where
  "propose_schema = schema_new Closed
     [(P_CHANNEL_ID, False), (P_CKPT_REF, False), (P_OUTPUTS, False), (P_INSTANCE_LEG, False),
      (P_CONVERSION, False), (SIG_PAYER, False), (SIG_MERCHANT, False)]"

definition propose_content_fields ::
    "(nat list \<Rightarrow> nat list) \<Rightarrow> settlement_propose \<Rightarrow> error + field list" where
  "propose_content_fields nfc p =
     and_then (check_outputs (sp_outputs p)) (\<lambda>_.
     let output_items = map output_item (sp_outputs p);
         fields = [field_new P_CHANNEL_ID False (sp_channel_id p),
                   field_new P_CKPT_REF False (sp_ckpt_ref p),
                   field_new P_OUTPUTS False (build_count_prefixed output_items)]
     in
       and_then (case sp_instance_leg p of None \<Rightarrow> Inr fields
                 | Some leg \<Rightarrow> and_then (leg_encode leg) (\<lambda>v. Inr (fields @ [field_new P_INSTANCE_LEG False v])))
         (\<lambda>fields.
       case sp_conversion p of None \<Rightarrow> Inr fields
       | Some conv \<Rightarrow>
           and_then (conversion_encode nfc conv) (\<lambda>v. Inr (fields @ [field_new P_CONVERSION False v]))))"

definition propose_covered_bytes :: "(nat list \<Rightarrow> nat list) \<Rightarrow> settlement_propose \<Rightarrow> error + bytes" where
  "propose_covered_bytes nfc p =
     and_then (propose_content_fields nfc p) (\<lambda>fields.
     and_then (from_fields fields) (\<lambda>obj. Inr (covered SettlePropose (object_encode obj))))"

definition propose_sign_payer ::
    "crypto_suite \<Rightarrow> (nat list \<Rightarrow> nat list) \<Rightarrow> bytes \<Rightarrow> settlement_propose \<Rightarrow> error + settlement_propose" where
  "propose_sign_payer cs nfc payer_sk p =
     and_then (propose_covered_bytes nfc p) (\<lambda>cov.
     Inr (p\<lparr>sp_sig_payer := Some (ed25519_sign cs payer_sk cov)\<rparr>))"

definition propose_sign_merchant ::
    "crypto_suite \<Rightarrow> (nat list \<Rightarrow> nat list) \<Rightarrow> bytes \<Rightarrow> settlement_propose \<Rightarrow> error + settlement_propose" where
  "propose_sign_merchant cs nfc merchant_sk p =
     and_then (propose_covered_bytes nfc p) (\<lambda>cov.
     Inr (p\<lparr>sp_sig_merchant := Some (ed25519_sign cs merchant_sk cov)\<rparr>))"

definition propose_verify_payer ::
    "crypto_suite \<Rightarrow> (nat list \<Rightarrow> nat list) \<Rightarrow> bytes \<Rightarrow> settlement_propose \<Rightarrow> error + unit" where
  "propose_verify_payer cs nfc payer_key p =
     and_then (ok_or (sp_sig_payer p) MissingField) (\<lambda>sig.
     and_then (propose_covered_bytes nfc p) (\<lambda>cov. verify_sig cs payer_key cov sig))"

definition propose_verify_merchant ::
    "crypto_suite \<Rightarrow> (nat list \<Rightarrow> nat list) \<Rightarrow> bytes \<Rightarrow> settlement_propose \<Rightarrow> error + unit" where
  "propose_verify_merchant cs nfc merchant_key p =
     and_then (ok_or (sp_sig_merchant p) MissingField) (\<lambda>sig.
     and_then (propose_covered_bytes nfc p) (\<lambda>cov. verify_sig cs merchant_key cov sig))"

text \<open>The signature fields pushed after the content, as all four messages do it.\<close>

definition push_sig :: "u8 \<Rightarrow> bytes option \<Rightarrow> field list \<Rightarrow> field list" where
  "push_sig t sig fs = fs @ (case sig of None \<Rightarrow> [] | Some s \<Rightarrow> [field_new t False s])"

definition propose_encode :: "(nat list \<Rightarrow> nat list) \<Rightarrow> settlement_propose \<Rightarrow> error + bytes" where
  "propose_encode nfc p =
     and_then (propose_content_fields nfc p) (\<lambda>fields.
     let fields = push_sig SIG_PAYER (sp_sig_payer p) fields;
         fields = push_sig SIG_MERCHANT (sp_sig_merchant p) fields
     in and_then (from_fields fields) (\<lambda>obj. Inr (object_encode obj)))"

definition proposal_hash :: "crypto_suite \<Rightarrow> (nat list \<Rightarrow> nat list) \<Rightarrow> settlement_propose \<Rightarrow> error + bytes" where
  "proposal_hash cs nfc p = and_then (propose_encode nfc p) (\<lambda>bs. Inr (sha256 cs bs))"

definition propose_parse :: "(nat list \<Rightarrow> nat list) \<Rightarrow> bytes \<Rightarrow> error + settlement_propose" where
  "propose_parse nfc buf =
     and_then (object_parse buf) (\<lambda>obj.
     and_then (object_validate obj propose_schema) (\<lambda>_.
     and_then (and_then (get_value obj P_OUTPUTS) (\<lambda>v. parse_count_prefixed v (parse_output nfc))) (\<lambda>outputs.
     and_then (check_outputs outputs) (\<lambda>_.
     and_then (and_then (get_value obj P_CHANNEL_ID) (fixed_bytes 8)) (\<lambda>channel_id.
     and_then (and_then (get_value obj P_CKPT_REF) (fixed_bytes 32)) (\<lambda>ckpt_ref.
     and_then (get_parsed obj P_INSTANCE_LEG (leg_parse nfc)) (\<lambda>leg.
     and_then (get_parsed obj P_CONVERSION (conversion_parse nfc)) (\<lambda>conv.
     and_then (get_optional obj SIG_PAYER 64) (\<lambda>sig_payer.
     and_then (get_optional obj SIG_MERCHANT 64) (\<lambda>sig_merchant.
     Inr \<lparr>sp_channel_id = channel_id, sp_ckpt_ref = ckpt_ref, sp_outputs = outputs,
          sp_instance_leg = leg, sp_conversion = conv, sp_sig_payer = sig_payer,
          sp_sig_merchant = sig_merchant\<rparr>))))))))))"

section \<open>SETTLEMENT_PROOF\<close>

record tx_ref =
  tr_leg :: u8
  tr_reference :: bytes
  tr_finality :: bytes

record settlement_proof =
  pf_channel_id :: bytes
  pf_proposal_hash :: bytes
  pf_tx_refs :: "tx_ref list"
  pf_sig_payer :: "bytes option"
  pf_sig_merchant :: "bytes option"

definition PR_CHANNEL_ID :: u8 where "PR_CHANNEL_ID = 0x00"
definition PR_PROPOSAL_HASH :: u8 where "PR_PROPOSAL_HASH = 0x01"
definition PR_TX_REFS :: u8 where "PR_TX_REFS = 0x02"

definition tx_ref_less :: "tx_ref \<Rightarrow> tx_ref \<Rightarrow> bool" where
  "tx_ref_less a b \<longleftrightarrow>
     tr_leg a < tr_leg b \<or> (tr_leg a = tr_leg b \<and> bytes_less (tr_reference a) (tr_reference b))"

definition tx_ref_item :: "tx_ref \<Rightarrow> bytes" where
  "tx_ref_item t = push_lp (push_lp [tr_leg t] (tr_reference t)) (tr_finality t)"

definition proof_content_fields :: "settlement_proof \<Rightarrow> error + field list" where
  "proof_content_fields p =
     and_then (for_each (\<lambda>t. if tr_leg t \<noteq> 0x01 \<and> tr_leg t \<noteq> 0x02 then Inl FieldDomain else Inr ())
        (pf_tx_refs p)) (\<lambda>_.
     and_then (check_pairs tx_ref_less (pf_tx_refs p)) (\<lambda>_.
     let items = map tx_ref_item (pf_tx_refs p)
     in Inr [field_new PR_CHANNEL_ID False (pf_channel_id p),
             field_new PR_PROPOSAL_HASH False (pf_proposal_hash p),
             field_new PR_TX_REFS False (build_count_prefixed items)]))"

definition proof_covered_bytes :: "settlement_proof \<Rightarrow> error + bytes" where
  "proof_covered_bytes p =
     and_then (proof_content_fields p) (\<lambda>fields.
     and_then (from_fields fields) (\<lambda>obj. Inr (covered SettleProof (object_encode obj))))"

definition proof_sign_payer :: "crypto_suite \<Rightarrow> bytes \<Rightarrow> settlement_proof \<Rightarrow> error + settlement_proof" where
  "proof_sign_payer cs sk p =
     and_then (proof_covered_bytes p) (\<lambda>cov. Inr (p\<lparr>pf_sig_payer := Some (ed25519_sign cs sk cov)\<rparr>))"

definition proof_sign_merchant :: "crypto_suite \<Rightarrow> bytes \<Rightarrow> settlement_proof \<Rightarrow> error + settlement_proof" where
  "proof_sign_merchant cs sk p =
     and_then (proof_covered_bytes p) (\<lambda>cov. Inr (p\<lparr>pf_sig_merchant := Some (ed25519_sign cs sk cov)\<rparr>))"

definition proof_verify_payer :: "crypto_suite \<Rightarrow> bytes \<Rightarrow> settlement_proof \<Rightarrow> error + unit" where
  "proof_verify_payer cs key p =
     and_then (proof_covered_bytes p) (\<lambda>cov.
     and_then (ok_or (pf_sig_payer p) MissingField) (\<lambda>sig. verify_sig cs key cov sig))"

definition proof_verify_merchant :: "crypto_suite \<Rightarrow> bytes \<Rightarrow> settlement_proof \<Rightarrow> error + unit" where
  "proof_verify_merchant cs key p =
     and_then (proof_covered_bytes p) (\<lambda>cov.
     and_then (ok_or (pf_sig_merchant p) MissingField) (\<lambda>sig. verify_sig cs key cov sig))"

definition proof_encode :: "settlement_proof \<Rightarrow> error + bytes" where
  "proof_encode p =
     (if (pf_sig_payer p \<noteq> None) = (pf_sig_merchant p \<noteq> None) then Inl MissingField
      else
        and_then (proof_content_fields p) (\<lambda>fields.
        let fields = push_sig SIG_PAYER (pf_sig_payer p) fields;
            fields = push_sig SIG_MERCHANT (pf_sig_merchant p) fields
        in and_then (from_fields fields) (\<lambda>obj. Inr (object_encode obj))))"

definition parse_tx_ref :: "(nat list \<Rightarrow> nat list) \<Rightarrow> bytes \<Rightarrow> error + tx_ref \<times> nat" where
  "parse_tx_ref nfc b =
     (if b = [] then Inl CountMismatch
      else if b ! 0 \<noteq> 0x01 \<and> b ! 0 \<noteq> 0x02 then Inl FieldDomain
      else
        and_then (read_lp_text nfc (drop 1 b)) (\<lambda>(reference, n1).
        and_then (read_lp_text nfc (drop (1 + n1) b)) (\<lambda>(finality, n2).
        Inr (\<lparr>tr_leg = b ! 0, tr_reference = reference, tr_finality = finality\<rparr>, 1 + n1 + n2))))"

definition proof_schema :: schema where
  "proof_schema = schema_new Closed
     [(PR_CHANNEL_ID, False), (PR_PROPOSAL_HASH, False), (PR_TX_REFS, False), (SIG_PAYER, False),
      (SIG_MERCHANT, False)]"

definition proof_parse :: "(nat list \<Rightarrow> nat list) \<Rightarrow> bytes \<Rightarrow> error + settlement_proof" where
  "proof_parse nfc buf =
     and_then (object_parse buf) (\<lambda>obj.
     and_then (object_validate obj proof_schema) (\<lambda>_.
     if (object_get obj SIG_PAYER \<noteq> None) = (object_get obj SIG_MERCHANT \<noteq> None) then Inl MissingField
     else
       and_then (and_then (get_value obj PR_TX_REFS) (\<lambda>v. parse_count_prefixed v (parse_tx_ref nfc))) (\<lambda>tx_refs.
       and_then (check_pairs tx_ref_less tx_refs) (\<lambda>_.
       and_then (and_then (get_value obj PR_CHANNEL_ID) (fixed_bytes 8)) (\<lambda>channel_id.
       and_then (and_then (get_value obj PR_PROPOSAL_HASH) (fixed_bytes 32)) (\<lambda>hash.
       and_then (get_optional obj SIG_PAYER 64) (\<lambda>sig_payer.
       and_then (get_optional obj SIG_MERCHANT 64) (\<lambda>sig_merchant.
       Inr \<lparr>pf_channel_id = channel_id, pf_proposal_hash = hash, pf_tx_refs = tx_refs,
            pf_sig_payer = sig_payer, pf_sig_merchant = sig_merchant\<rparr>))))))))"

section \<open>SETTLEMENT_CONFIRMED\<close>

record settlement_confirmed =
  cf_channel_id :: bytes
  cf_proposal_hash :: bytes
  cf_sig_payer :: "bytes option"
  cf_sig_merchant :: "bytes option"

definition confirmed_content_fields :: "settlement_confirmed \<Rightarrow> field list" where
  "confirmed_content_fields c =
     [field_new 0x00 False (cf_channel_id c), field_new 0x01 False (cf_proposal_hash c)]"

definition confirmed_covered_bytes :: "settlement_confirmed \<Rightarrow> bytes" where
  "confirmed_covered_bytes c =
     covered SettleConfirm (object_encode (expect (from_fields (confirmed_content_fields c))))"

definition confirmed_sign_payer :: "crypto_suite \<Rightarrow> bytes \<Rightarrow> settlement_confirmed \<Rightarrow> settlement_confirmed" where
  "confirmed_sign_payer cs sk c =
     c\<lparr>cf_sig_payer := Some (ed25519_sign cs sk (confirmed_covered_bytes c))\<rparr>"

definition confirmed_sign_merchant :: "crypto_suite \<Rightarrow> bytes \<Rightarrow> settlement_confirmed \<Rightarrow> settlement_confirmed" where
  "confirmed_sign_merchant cs sk c =
     c\<lparr>cf_sig_merchant := Some (ed25519_sign cs sk (confirmed_covered_bytes c))\<rparr>"

definition confirmed_verify_payer :: "crypto_suite \<Rightarrow> bytes \<Rightarrow> settlement_confirmed \<Rightarrow> error + unit" where
  "confirmed_verify_payer cs key c =
     and_then (ok_or (cf_sig_payer c) MissingField) (verify_sig cs key (confirmed_covered_bytes c))"

definition confirmed_verify_merchant :: "crypto_suite \<Rightarrow> bytes \<Rightarrow> settlement_confirmed \<Rightarrow> error + unit" where
  "confirmed_verify_merchant cs key c =
     and_then (ok_or (cf_sig_merchant c) MissingField) (verify_sig cs key (confirmed_covered_bytes c))"

definition confirmed_encode :: "settlement_confirmed \<Rightarrow> error + bytes" where
  "confirmed_encode c =
     (if (cf_sig_payer c \<noteq> None) = (cf_sig_merchant c \<noteq> None) then Inl MissingField
      else
        let fields = confirmed_content_fields c;
            fields = push_sig SIG_PAYER (cf_sig_payer c) fields;
            fields = push_sig SIG_MERCHANT (cf_sig_merchant c) fields
        in and_then (from_fields fields) (\<lambda>obj. Inr (object_encode obj)))"

definition confirmed_schema :: schema where
  "confirmed_schema = schema_new Closed
     [(0x00, False), (0x01, False), (SIG_PAYER, False), (SIG_MERCHANT, False)]"

definition confirmed_parse :: "bytes \<Rightarrow> error + settlement_confirmed" where
  "confirmed_parse buf =
     and_then (object_parse buf) (\<lambda>obj.
     and_then (object_validate obj confirmed_schema) (\<lambda>_.
     if (object_get obj SIG_PAYER \<noteq> None) = (object_get obj SIG_MERCHANT \<noteq> None) then Inl MissingField
     else
       and_then (and_then (get_value obj 0x00) (fixed_bytes 8)) (\<lambda>channel_id.
       and_then (and_then (get_value obj 0x01) (fixed_bytes 32)) (\<lambda>hash.
       and_then (get_optional obj SIG_PAYER 64) (\<lambda>sig_payer.
       and_then (get_optional obj SIG_MERCHANT 64) (\<lambda>sig_merchant.
       Inr \<lparr>cf_channel_id = channel_id, cf_proposal_hash = hash,
            cf_sig_payer = sig_payer, cf_sig_merchant = sig_merchant\<rparr>))))))"

section \<open>PREPAY_DRAW_COMPLETED\<close>

record prepay_draw =
  pd_channel_id :: bytes
  pd_ckpt_ref :: bytes
  pd_amount :: nat
  pd_extinguished :: "(u8 \<times> nat) list"
  pd_claim_record :: bytes
  pd_rail :: bytes
  pd_tx_ref :: bytes
  pd_finality :: bytes
  pd_sig_merchant :: "bytes option"

definition D_CHANNEL_ID :: u8 where "D_CHANNEL_ID = 0x00"
definition D_CKPT_REF :: u8 where "D_CKPT_REF = 0x01"
definition D_AMOUNT :: u8 where "D_AMOUNT = 0x02"
definition D_EXTINGUISHED :: u8 where "D_EXTINGUISHED = 0x03"
definition D_CLAIM_RECORD :: u8 where "D_CLAIM_RECORD = 0x04"
definition D_RAIL :: u8 where "D_RAIL = 0x05"
definition D_TX_REF :: u8 where "D_TX_REF = 0x06"
definition D_FINALITY :: u8 where "D_FINALITY = 0x07"
definition D_SIG :: u8 where "D_SIG = 0x70"

definition draw_validate :: "(nat list \<Rightarrow> nat list) \<Rightarrow> prepay_draw \<Rightarrow> error + unit" where
  "draw_validate nfc d =
     and_then (check_extinguished (pd_amount d) (pd_extinguished d)) (\<lambda>_.
     if pd_rail d = [] \<or> pd_tx_ref d = [] \<or> pd_finality d = [] then Inl FieldDomain
     else
       and_then (validate_text nfc (pd_rail d)) (\<lambda>_.
       and_then (validate_text nfc (pd_tx_ref d)) (\<lambda>_.
       validate_text nfc (pd_finality d))))"

definition draw_content_fields :: "prepay_draw \<Rightarrow> field list" where
  "draw_content_fields d =
     (let ext_items = map ext_item (pd_extinguished d)
      in [field_new D_CHANNEL_ID False (pd_channel_id d),
          field_new D_CKPT_REF False (pd_ckpt_ref d),
          field_new D_AMOUNT False (encode_uint_biguint (pd_amount d)),
          field_new D_EXTINGUISHED False (build_count_prefixed ext_items),
          field_new D_CLAIM_RECORD False (pd_claim_record d),
          field_new D_RAIL False (pd_rail d),
          field_new D_TX_REF False (pd_tx_ref d),
          field_new D_FINALITY False (pd_finality d)])"

definition draw_covered_bytes :: "prepay_draw \<Rightarrow> bytes" where
  "draw_covered_bytes d =
     covered PrepayDraw (object_encode (expect (from_fields (draw_content_fields d))))"

definition draw_sign_merchant :: "crypto_suite \<Rightarrow> bytes \<Rightarrow> prepay_draw \<Rightarrow> prepay_draw" where
  "draw_sign_merchant cs sk d =
     d\<lparr>pd_sig_merchant := Some (ed25519_sign cs sk (draw_covered_bytes d))\<rparr>"

definition draw_verify_merchant :: "crypto_suite \<Rightarrow> bytes \<Rightarrow> prepay_draw \<Rightarrow> error + unit" where
  "draw_verify_merchant cs key d =
     and_then (ok_or (pd_sig_merchant d) MissingField) (verify_sig cs key (draw_covered_bytes d))"

definition draw_encode :: "(nat list \<Rightarrow> nat list) \<Rightarrow> prepay_draw \<Rightarrow> error + bytes" where
  "draw_encode nfc d =
     and_then (draw_validate nfc d) (\<lambda>_.
     and_then (ok_or (pd_sig_merchant d) MissingField) (\<lambda>sig.
     let fields = draw_content_fields d @ [field_new D_SIG False sig]
     in and_then (from_fields fields) (\<lambda>obj. Inr (object_encode obj))))"

definition draw_schema :: schema where
  "draw_schema = schema_new Closed
     [(D_CHANNEL_ID, False), (D_CKPT_REF, False), (D_AMOUNT, False), (D_EXTINGUISHED, False),
      (D_CLAIM_RECORD, False), (D_RAIL, False), (D_TX_REF, False), (D_FINALITY, False), (D_SIG, False)]"

definition draw_parse :: "(nat list \<Rightarrow> nat list) \<Rightarrow> bytes \<Rightarrow> error + prepay_draw" where
  "draw_parse nfc buf =
     and_then (object_parse buf) (\<lambda>obj.
     and_then (object_validate obj draw_schema) (\<lambda>_.
     and_then (and_then (get_value obj D_AMOUNT) decode_uint_biguint) (\<lambda>amount.
     and_then (and_then (get_value obj D_EXTINGUISHED) (\<lambda>v. parse_count_prefixed v parse_ext)) (\<lambda>extinguished.
     and_then (and_then (get_value obj D_CHANNEL_ID) (fixed_bytes 8)) (\<lambda>channel_id.
     and_then (and_then (get_value obj D_CKPT_REF) (fixed_bytes 32)) (\<lambda>ckpt_ref.
     and_then (and_then (get_value obj D_CLAIM_RECORD) (fixed_bytes 32)) (\<lambda>claim_record.
     and_then (and_then (get_value obj D_RAIL) from_utf8) (\<lambda>rail.
     and_then (and_then (get_value obj D_TX_REF) from_utf8) (\<lambda>tx_ref.
     and_then (and_then (get_value obj D_FINALITY) from_utf8) (\<lambda>finality.
     and_then (get_optional obj D_SIG 64) (\<lambda>sig_merchant.
     let msg = \<lparr>pd_channel_id = channel_id, pd_ckpt_ref = ckpt_ref, pd_amount = amount,
                pd_extinguished = extinguished, pd_claim_record = claim_record, pd_rail = rail,
                pd_tx_ref = tx_ref, pd_finality = finality, pd_sig_merchant = sig_merchant\<rparr> in
     and_then (draw_validate nfc msg) (\<lambda>_. Inr msg))))))))))))"

end
