(* ===== verification/Settle_Canonical.thy ===== *)
theory Settle_Canonical
  imports Settle_Msg
begin

text \<open>
  The settlement messages are canonical: their list items are item codecs, the aggregate leg, the
  conversion and the four messages canonical codecs. Also that a rate string is the only one of its
  numeric value, and that the two single-signed messages carry exactly one signature.
\<close>

section \<open>The list items\<close>

lemma front_take: "b = e @ r \<Longrightarrow> length e = k \<Longrightarrow> k \<le> length b \<and> e = take k b"
  by auto

definition output_ok :: "(nat list \<Rightarrow> nat list) \<Rightarrow> round_output \<Rightarrow> bool" where
  "output_ok nfc x \<longleftrightarrow> out_amount x \<le> 2 ^ 128 - 1
     \<and> text_ok nfc (out_asset x) \<and> length (out_asset x) < 2 ^ 32
     \<and> text_ok nfc (out_dest x) \<and> length (out_dest x) < 2 ^ 32"

definition credited_ok :: "(nat list \<Rightarrow> nat list) \<Rightarrow> credited_leg \<Rightarrow> bool" where
  "credited_ok nfc c \<longleftrightarrow>
     text_ok nfc (cl_rail c) \<and> length (cl_rail c) < 2 ^ 32
     \<and> text_ok nfc (cl_reference c) \<and> length (cl_reference c) < 2 ^ 32
     \<and> text_ok nfc (cl_finality c) \<and> length (cl_finality c) < 2 ^ 32"

definition tx_ref_ok :: "(nat list \<Rightarrow> nat list) \<Rightarrow> tx_ref \<Rightarrow> bool" where
  "tx_ref_ok nfc t \<longleftrightarrow> (tr_leg t = 1 \<or> tr_leg t = 2)
     \<and> text_ok nfc (tr_reference t) \<and> length (tr_reference t) < 2 ^ 32
     \<and> text_ok nfc (tr_finality t) \<and> length (tr_finality t) < 2 ^ 32"

lemma output_item_parts: "output_item x
    = push_lp [] (encode_uint_biguint (out_amount x)) @ push_lp [] (out_asset x) @ push_lp [] (out_dest x)"
  by (simp add: output_item_def push_lp_def)

lemma credited_item_parts: "credited_item c
    = cl_kind c # push_lp [] (cl_rail c) @ push_lp [] (cl_reference c) @ push_lp [] (cl_finality c)"
  by (simp add: credited_item_def push_lp_def)

lemma ext_item_parts: "ext_item x = fst x # push_lp [] (encode_uint_biguint (snd x))"
  by (simp add: ext_item_def push_lp_def split: prod.split)

lemma tx_ref_item_parts: "tx_ref_item t
    = tr_leg t # push_lp [] (tr_reference t) @ push_lp [] (tr_finality t)"
  by (simp add: tx_ref_item_def push_lp_def)

lemma push_lp_nonempty [simp]: "push_lp out v \<noteq> []"
  by (simp add: push_lp_def)

interpretation outputs: tlv_item "output_ok nfc" output_item "parse_output nfc" for nfc
proof unfold_locales
  fix x rest assume ok: "output_ok nfc x"
  then show "parse_output nfc (output_item x @ rest) = Inr (x, length (output_item x))"
    using lp_uint.decode_front [of "out_amount x" "push_lp [] (out_asset x) @ push_lp [] (out_dest x) @ rest"]
      lp_text.decode_front [of nfc "out_asset x" "push_lp [] (out_dest x) @ rest"]
      lp_text.decode_front [of nfc "out_dest x" rest]
    by (simp add: parse_output_def output_item_parts output_ok_def)
next
  fix b x k assume "parse_output nfc b = Inr (x, k)"
  then obtain n1 n2 n3 where r: "read_lp_uint b = Inr (out_amount x, n1)"
      "read_lp_text nfc (drop n1 b) = Inr (out_asset x, n2)"
      "read_lp_text nfc (drop (n1 + n2) b) = Inr (out_dest x, n3)" "k = n1 + n2 + n3"
    by (auto simp: parse_output_def)
  note c = lp_uint.consumed [OF r(1)] lp_text.consumed [OF r(2)] lp_text.consumed [OF r(3)]
  have "b = output_item x @ drop n3 (drop (n1 + n2) b)"
    using c by (metis output_item_parts append_assoc drop_drop add.commute)
  moreover have "length (output_item x) = k" using c r(4) by (simp add: output_item_parts)
  ultimately have "k \<le> length b \<and> output_item x = take k b" by (rule front_take)
  then show "output_ok nfc x \<and> k \<le> length b \<and> output_item x = take k b"
    using lp_uint.encode_front [OF r(1)] lp_text.encode_front [OF r(2)] lp_text.encode_front [OF r(3)]
    by (simp add: output_ok_def)
qed (simp add: output_item_parts)

interpretation credited: tlv_item "credited_ok nfc" credited_item "parse_credited nfc" for nfc
proof unfold_locales
  fix x rest assume ok: "credited_ok nfc x"
  then show "parse_credited nfc (credited_item x @ rest) = Inr (x, length (credited_item x))"
    using lp_text.decode_front [of nfc "cl_rail x" "push_lp [] (cl_reference x) @ push_lp [] (cl_finality x) @ rest"]
      lp_text.decode_front [of nfc "cl_reference x" "push_lp [] (cl_finality x) @ rest"]
      lp_text.decode_front [of nfc "cl_finality x" rest]
    by (simp add: parse_credited_def credited_item_parts credited_ok_def)
next
  fix b x k assume p: "parse_credited nfc b = Inr (x, k)"
  then obtain t n1 n2 n3 where b: "b = cl_kind x # t" and r: "read_lp_text nfc t = Inr (cl_rail x, n1)"
      "read_lp_text nfc (drop n1 t) = Inr (cl_reference x, n2)"
      "read_lp_text nfc (drop (n1 + n2) t) = Inr (cl_finality x, n3)" "k = Suc (n1 + n2 + n3)"
    by (cases b) (auto simp: parse_credited_def)
  note c = lp_text.consumed [OF r(1)] lp_text.consumed [OF r(2)] lp_text.consumed [OF r(3)]
  have "t = push_lp [] (cl_rail x) @ push_lp [] (cl_reference x) @ push_lp [] (cl_finality x)
      @ drop n3 (drop (n1 + n2) t)"
    using c by (metis append_assoc drop_drop add.commute)
  then have "b = credited_item x @ drop n3 (drop (n1 + n2) t)" by (simp add: b credited_item_parts)
  moreover have "length (credited_item x) = k" using c r(4) by (simp add: credited_item_parts)
  ultimately have "k \<le> length b \<and> credited_item x = take k b" by (rule front_take)
  then show "credited_ok nfc x \<and> k \<le> length b \<and> credited_item x = take k b"
    using lp_text.encode_front [OF r(1)] lp_text.encode_front [OF r(2)] lp_text.encode_front [OF r(3)]
    by (simp add: credited_ok_def)
qed (simp add: credited_item_parts)

interpretation ext: tlv_item accrual_ok ext_item parse_ext
proof unfold_locales
  fix x rest assume "accrual_ok x"
  then show "parse_ext (ext_item x @ rest) = Inr (x, length (ext_item x))"
    using lp_uint.decode_front [of "snd x" rest] by (simp add: parse_ext_def ext_item_parts accrual_ok_def)
next
  fix b x k assume "parse_ext b = Inr (x, k)"
  then obtain t n where b: "b = fst x # t" and r: "read_lp_uint t = Inr (snd x, n)" "k = Suc n"
    by (cases b) (auto simp: parse_ext_def)
  note c = lp_uint.consumed [OF r(1)]
  have "b = ext_item x @ drop n t" using c by (metis b ext_item_parts append_Cons)
  moreover have "length (ext_item x) = k" using c r(2) by (simp add: ext_item_parts)
  ultimately have "k \<le> length b \<and> ext_item x = take k b" by (rule front_take)
  then show "accrual_ok x \<and> k \<le> length b \<and> ext_item x = take k b"
    using lp_uint.encode_front [OF r(1)] by (simp add: accrual_ok_def)
qed (simp add: ext_item_parts)

interpretation tx_ref: tlv_item "tx_ref_ok nfc" tx_ref_item "parse_tx_ref nfc" for nfc
proof unfold_locales
  fix x rest assume ok: "tx_ref_ok nfc x"
  then show "parse_tx_ref nfc (tx_ref_item x @ rest) = Inr (x, length (tx_ref_item x))"
    using lp_text.decode_front [of nfc "tr_reference x" "push_lp [] (tr_finality x) @ rest"]
      lp_text.decode_front [of nfc "tr_finality x" rest]
    by (auto simp: parse_tx_ref_def tx_ref_item_parts tx_ref_ok_def)
next
  fix b x k assume p: "parse_tx_ref nfc b = Inr (x, k)"
  then obtain t n1 n2 where b: "b = tr_leg x # t" "tr_leg x = 1 \<or> tr_leg x = 2"
      and r: "read_lp_text nfc t = Inr (tr_reference x, n1)"
      "read_lp_text nfc (drop n1 t) = Inr (tr_finality x, n2)" "k = Suc (n1 + n2)"
    by (cases b) (auto simp: parse_tx_ref_def split: if_splits)
  note c = lp_text.consumed [OF r(1)] lp_text.consumed [OF r(2)]
  have "t = push_lp [] (tr_reference x) @ push_lp [] (tr_finality x) @ drop n2 (drop n1 t)"
    using c by (metis append_assoc)
  then have "b = tx_ref_item x @ drop n2 (drop n1 t)" by (simp add: b(1) tx_ref_item_parts)
  moreover have "length (tx_ref_item x) = k" using c r(3) by (simp add: tx_ref_item_parts)
  ultimately have "k \<le> length b \<and> tx_ref_item x = take k b" by (rule front_take)
  then show "tx_ref_ok nfc x \<and> k \<le> length b \<and> tx_ref_item x = take k b"
    using lp_text.encode_front [OF r(1)] lp_text.encode_front [OF r(2)] b(2) by (simp add: tx_ref_ok_def)
qed (simp add: tx_ref_item_parts)

section \<open>The messages\<close>

definition slot_bytes :: "slot list \<Rightarrow> bytes" where
  "slot_bytes slots = object_encode (Object (slot_fields slots))"

lemma read_slots_bytes:
  "sorted_wrt (<) (map fst slots) \<Longrightarrow> read_slots bs slots \<longleftrightarrow> slots_ok slots \<and> bs = slot_bytes slots"
  by (simp add: read_slots_iff slot_bytes_def)

lemma from_slots:
  "sorted_wrt (<) (map fst slots) \<Longrightarrow> fs = slot_fields slots \<Longrightarrow>
   and_then (from_fields fs) (\<lambda>obj. Inr (f (object_encode obj))) = Inr (f (slot_bytes slots))"
  by (simp add: slots_object slot_bytes_def del: and_then_Inr)

lemmas type_defs = L_AMOUNT_def L_CREDITED_def L_EXTINGUISHED_def V_RATE_def V_RATE_TIME_def
  V_RATE_EXP_def V_RATE_GRACE_def P_CHANNEL_ID_def P_CKPT_REF_def P_OUTPUTS_def P_INSTANCE_LEG_def
  P_CONVERSION_def SIG_PAYER_def SIG_MERCHANT_def PR_CHANNEL_ID_def PR_PROPOSAL_HASH_def PR_TX_REFS_def
  D_CHANNEL_ID_def D_CKPT_REF_def D_AMOUNT_def D_EXTINGUISHED_def D_CLAIM_RECORD_def D_RAIL_def
  D_TX_REF_def D_FINALITY_def D_SIG_def

definition leg_slots :: "instance_leg \<Rightarrow> slot list" where
  "leg_slots l =
     [(L_AMOUNT, Some (encode_uint_biguint (leg_amount l))),
      (L_CREDITED, Some (build_count_prefixed (map credited_item (leg_credited l)))),
      (L_EXTINGUISHED, Some (build_count_prefixed (map ext_item (leg_extinguished l))))]"

definition conversion_slots :: "conversion \<Rightarrow> slot list" where
  "conversion_slots c =
     [(V_RATE, Some (cv_rate c)),
      (V_RATE_TIME, Some (encode_uint_u128 (ucast (cv_rate_time c)))),
      (V_RATE_EXP, Some (encode_uint_u128 (ucast (cv_rate_exp c)))),
      (V_RATE_GRACE, Some (encode_uint_u128 (ucast (cv_rate_grace c))))]"

definition propose_slots :: "settlement_propose \<Rightarrow> slot list" where
  "propose_slots p =
     [(P_CHANNEL_ID, Some (sp_channel_id p)), (P_CKPT_REF, Some (sp_ckpt_ref p)),
      (P_OUTPUTS, Some (build_count_prefixed (map output_item (sp_outputs p)))),
      (P_INSTANCE_LEG, map_option (slot_bytes \<circ> leg_slots) (sp_instance_leg p)),
      (P_CONVERSION, map_option (slot_bytes \<circ> conversion_slots) (sp_conversion p)),
      (SIG_PAYER, sp_sig_payer p), (SIG_MERCHANT, sp_sig_merchant p)]"

definition proof_slots :: "settlement_proof \<Rightarrow> slot list" where
  "proof_slots p =
     [(PR_CHANNEL_ID, Some (pf_channel_id p)), (PR_PROPOSAL_HASH, Some (pf_proposal_hash p)),
      (PR_TX_REFS, Some (build_count_prefixed (map tx_ref_item (pf_tx_refs p)))),
      (SIG_PAYER, pf_sig_payer p), (SIG_MERCHANT, pf_sig_merchant p)]"

definition confirmed_slots :: "settlement_confirmed \<Rightarrow> slot list" where
  "confirmed_slots c =
     [(0x00, Some (cf_channel_id c)), (0x01, Some (cf_proposal_hash c)),
      (SIG_PAYER, cf_sig_payer c), (SIG_MERCHANT, cf_sig_merchant c)]"

definition draw_slots :: "prepay_draw \<Rightarrow> slot list" where
  "draw_slots d =
     [(D_CHANNEL_ID, Some (pd_channel_id d)), (D_CKPT_REF, Some (pd_ckpt_ref d)),
      (D_AMOUNT, Some (encode_uint_biguint (pd_amount d))),
      (D_EXTINGUISHED, Some (build_count_prefixed (map ext_item (pd_extinguished d)))),
      (D_CLAIM_RECORD, Some (pd_claim_record d)), (D_RAIL, Some (pd_rail d)),
      (D_TX_REF, Some (pd_tx_ref d)), (D_FINALITY, Some (pd_finality d)), (D_SIG, pd_sig_merchant d)]"

lemmas slot_defs = leg_slots_def conversion_slots_def propose_slots_def proof_slots_def
  confirmed_slots_def draw_slots_def

lemma slots_ascending [simp]:
  "sorted_wrt (<) (map fst (leg_slots l))" "sorted_wrt (<) (map fst (conversion_slots c))"
  "sorted_wrt (<) (map fst (propose_slots p))" "sorted_wrt (<) (map fst (proof_slots pf))"
  "sorted_wrt (<) (map fst (confirmed_slots cf))" "sorted_wrt (<) (map fst (draw_slots d))"
  by (simp_all add: slot_defs type_defs)

lemma schemas_closed:
  "instance_leg_schema = closed_schema (map fst (leg_slots l))"
  "conversion_schema = closed_schema (map fst (conversion_slots c))"
  "propose_schema = closed_schema (map fst (propose_slots p))"
  "proof_schema = closed_schema (map fst (proof_slots pf))"
  "confirmed_schema = closed_schema (map fst (confirmed_slots cf))"
  "draw_schema = closed_schema (map fst (draw_slots d))"
  by (simp_all add: slot_defs closed_schema_def instance_leg_schema_def conversion_schema_def
      propose_schema_def proof_schema_def confirmed_schema_def draw_schema_def)

definition leg_ok :: "(nat list \<Rightarrow> nat list) \<Rightarrow> instance_leg \<Rightarrow> bool" where
  "leg_ok nfc l \<longleftrightarrow> leg_validate l = Inr () \<and> list_all (credited_ok nfc) (leg_credited l)
     \<and> length (leg_credited l) < 2 ^ 32 \<and> length (leg_extinguished l) < 2 ^ 32 \<and> slots_ok (leg_slots l)"

lemma check_extinguished_ok:
  "check_extinguished amount ext = Inr () \<Longrightarrow> amount \<le> 2 ^ 128 - 1 \<and> list_all accrual_ok ext"
  by (auto simp: check_extinguished_def accrual_ok_def check_value_domain list_all_iff Let_def
      split: if_splits)

lemma leg_validate_ok: "leg_validate l = Inr () \<Longrightarrow>
    leg_amount l \<le> 2 ^ 128 - 1 \<and> list_all accrual_ok (leg_extinguished l)"
  using check_extinguished_ok by (auto simp: leg_validate_def)

lemma leg_parse_iff: "leg_parse nfc bs = Inr l \<longleftrightarrow> leg_ok nfc l \<and> bs = slot_bytes (leg_slots l)"
proof -
  have "leg_parse nfc bs = Inr l \<longleftrightarrow> read_slots bs (leg_slots l) \<and> leg_validate l = Inr ()
      \<and> list_all (credited_ok nfc) (leg_credited l)
      \<and> length (leg_credited l) < 2 ^ 32 \<and> length (leg_extinguished l) < 2 ^ 32"
    using leg_validate_ok [of l]
    by (cases l) (auto simp: leg_parse_def read_slots_def schemas_closed(1) [of l] slot_read uint_accepted
        credited.counted.accepted_iff ext.counted.accepted_iff check_value_domain leg_slots_def Let_def
        simp del: get_value_Inr)
  then show ?thesis by (auto simp: read_slots_bytes leg_ok_def)
qed

text \<open>The value conditions of each message; the last conjunct is the length bound of the TLV format.\<close>

definition conversion_ok :: "(nat list \<Rightarrow> nat list) \<Rightarrow> conversion \<Rightarrow> bool" where
  "conversion_ok nfc c \<longleftrightarrow> validate_rate nfc (cv_rate c) = Inr () \<and> slots_ok (conversion_slots c)"

definition propose_ok :: "(nat list \<Rightarrow> nat list) \<Rightarrow> settlement_propose \<Rightarrow> bool" where
  "propose_ok nfc p \<longleftrightarrow>
     length (sp_channel_id p) = 8 \<and> length (sp_ckpt_ref p) = 32 \<and>
     check_outputs (sp_outputs p) = Inr () \<and> list_all (output_ok nfc) (sp_outputs p) \<and>
     length (sp_outputs p) < 2 ^ 32 \<and>
     pred_option (leg_ok nfc) (sp_instance_leg p) \<and> pred_option (conversion_ok nfc) (sp_conversion p) \<and>
     signature_ok (sp_sig_payer p) \<and> signature_ok (sp_sig_merchant p) \<and> slots_ok (propose_slots p)"

definition one_signer :: "bytes option \<Rightarrow> bytes option \<Rightarrow> bool" where
  "one_signer sp sm \<longleftrightarrow> (sp \<noteq> None) \<noteq> (sm \<noteq> None)"

definition proof_ok :: "(nat list \<Rightarrow> nat list) \<Rightarrow> settlement_proof \<Rightarrow> bool" where
  "proof_ok nfc p \<longleftrightarrow>
     length (pf_channel_id p) = 8 \<and> length (pf_proposal_hash p) = 32 \<and>
     list_all (tx_ref_ok nfc) (pf_tx_refs p) \<and> successively tx_ref_less (pf_tx_refs p) \<and>
     length (pf_tx_refs p) < 2 ^ 32 \<and> one_signer (pf_sig_payer p) (pf_sig_merchant p) \<and>
     signature_ok (pf_sig_payer p) \<and> signature_ok (pf_sig_merchant p) \<and> slots_ok (proof_slots p)"

definition confirmed_ok :: "settlement_confirmed \<Rightarrow> bool" where
  "confirmed_ok c \<longleftrightarrow>
     length (cf_channel_id c) = 8 \<and> length (cf_proposal_hash c) = 32 \<and>
     one_signer (cf_sig_payer c) (cf_sig_merchant c) \<and>
     signature_ok (cf_sig_payer c) \<and> signature_ok (cf_sig_merchant c) \<and> slots_ok (confirmed_slots c)"

definition draw_ok :: "(nat list \<Rightarrow> nat list) \<Rightarrow> prepay_draw \<Rightarrow> bool" where
  "draw_ok nfc d \<longleftrightarrow>
     length (pd_channel_id d) = 8 \<and> length (pd_ckpt_ref d) = 32 \<and> length (pd_claim_record d) = 32 \<and>
     draw_validate nfc d = Inr () \<and> length (pd_extinguished d) < 2 ^ 32 \<and>
     signature_ok (pd_sig_merchant d) \<and> slots_ok (draw_slots d)"

lemma from_utf8_Inr: "validate_text nfc s = Inr () \<Longrightarrow> from_utf8 s = Inr s"
  using text_ok_utf8 by (simp add: text_ok_def)

lemma from_utf8_same: "from_utf8 v = Inr s \<Longrightarrow> s = v"
  by (simp add: from_utf8_def split: if_splits)

lemma validate_rate_text: "validate_rate nfc s = Inr () \<Longrightarrow> from_utf8 s = Inr s"
  by (auto simp: validate_rate_def intro: from_utf8_Inr)

lemma u64_field: "decode_uint_u64 v = Inr w \<longleftrightarrow> v = encode_uint_u128 (ucast w)"
proof -
  have "unat (ucast w :: u128) = unat w" using unat_lt2p [of w] by (simp add: unat_ucast_small)
  then show ?thesis by (auto simp: uint_word_accepted encode_uint_u128_eq)
qed

interpretation leg: canonical_codec "leg_ok nfc" "slot_bytes \<circ> leg_slots" "leg_parse nfc" for nfc
  by (rule canonical_codecI) (simp add: leg_parse_iff)

lemma conversion_parse_iff:
  "conversion_parse nfc bs = Inr c \<longleftrightarrow> conversion_ok nfc c \<and> bs = slot_bytes (conversion_slots c)"
proof -
  have "conversion_parse nfc bs = Inr c \<longleftrightarrow>
      read_slots bs (conversion_slots c) \<and> validate_rate nfc (cv_rate c) = Inr ()"
    using validate_rate_text [of nfc "cv_rate c"]
    by (cases c) (auto simp: conversion_parse_def read_slots_def schemas_closed(2) [of c] slot_read
        u64_field conversion_slots_def dest: from_utf8_same simp del: get_value_Inr)
  then show ?thesis by (auto simp: read_slots_bytes conversion_ok_def)
qed

interpretation conversion: canonical_codec "conversion_ok nfc" "slot_bytes \<circ> conversion_slots"
  "conversion_parse nfc" for nfc
  by (rule canonical_codecI) (simp add: conversion_parse_iff)

lemma propose_parse_iff:
  "propose_parse nfc bs = Inr p \<longleftrightarrow> propose_ok nfc p \<and> bs = slot_bytes (propose_slots p)"
proof -
  have "propose_parse nfc bs = Inr p \<longleftrightarrow> read_slots bs (propose_slots p)
      \<and> length (sp_channel_id p) = 8 \<and> length (sp_ckpt_ref p) = 32
      \<and> check_outputs (sp_outputs p) = Inr () \<and> list_all (output_ok nfc) (sp_outputs p)
      \<and> length (sp_outputs p) < 2 ^ 32
      \<and> pred_option (leg_ok nfc) (sp_instance_leg p) \<and> pred_option (conversion_ok nfc) (sp_conversion p)
      \<and> signature_ok (sp_sig_payer p) \<and> signature_ok (sp_sig_merchant p)"
    by (cases p) (auto simp: propose_parse_def read_slots_def schemas_closed(3) [of p] slot_read
        leg.get_parsed_lookup conversion.get_parsed_lookup outputs.counted.accepted_iff propose_slots_def
        simp del: get_value_Inr)
  then show ?thesis by (auto simp: read_slots_bytes propose_ok_def)
qed

interpretation propose: canonical_codec "propose_ok nfc" "slot_bytes \<circ> propose_slots" "propose_parse nfc" for nfc
  by (rule canonical_codecI) (simp add: propose_parse_iff)

lemma proof_parse_iff:
  "proof_parse nfc bs = Inr p \<longleftrightarrow> proof_ok nfc p \<and> bs = slot_bytes (proof_slots p)"
proof -
  have "proof_parse nfc bs = Inr p \<longleftrightarrow> read_slots bs (proof_slots p)
      \<and> length (pf_channel_id p) = 8 \<and> length (pf_proposal_hash p) = 32
      \<and> list_all (tx_ref_ok nfc) (pf_tx_refs p) \<and> successively tx_ref_less (pf_tx_refs p)
      \<and> length (pf_tx_refs p) < 2 ^ 32 \<and> one_signer (pf_sig_payer p) (pf_sig_merchant p)
      \<and> signature_ok (pf_sig_payer p) \<and> signature_ok (pf_sig_merchant p)"
    by (cases p) (auto simp: proof_parse_def read_slots_def schemas_closed(4) [of p] slot_read
        tx_ref.counted.accepted_iff proof_slots_def one_signer_def
        simp del: get_value_Inr split: if_splits)
  then show ?thesis by (auto simp: read_slots_bytes proof_ok_def)
qed

interpretation proof_msg: canonical_codec "proof_ok nfc" "slot_bytes \<circ> proof_slots" "proof_parse nfc" for nfc
  by (rule canonical_codecI) (simp add: proof_parse_iff)

lemma confirmed_parse_iff:
  "confirmed_parse bs = Inr c \<longleftrightarrow> confirmed_ok c \<and> bs = slot_bytes (confirmed_slots c)"
proof -
  have "confirmed_parse bs = Inr c \<longleftrightarrow> read_slots bs (confirmed_slots c)
      \<and> length (cf_channel_id c) = 8 \<and> length (cf_proposal_hash c) = 32
      \<and> one_signer (cf_sig_payer c) (cf_sig_merchant c)
      \<and> signature_ok (cf_sig_payer c) \<and> signature_ok (cf_sig_merchant c)"
    by (cases c) (auto simp: confirmed_parse_def read_slots_def schemas_closed(5) [of c] slot_read
        confirmed_slots_def one_signer_def simp del: get_value_Inr split: if_splits)
  then show ?thesis by (auto simp: read_slots_bytes confirmed_ok_def)
qed

interpretation confirmed: canonical_codec confirmed_ok "slot_bytes \<circ> confirmed_slots" confirmed_parse
  by (rule canonical_codecI) (simp add: confirmed_parse_iff)

lemma draw_validate_ok: "draw_validate nfc d = Inr () \<Longrightarrow> list_all accrual_ok (pd_extinguished d)
    \<and> from_utf8 (pd_rail d) = Inr (pd_rail d) \<and> from_utf8 (pd_tx_ref d) = Inr (pd_tx_ref d)
    \<and> from_utf8 (pd_finality d) = Inr (pd_finality d)"
  using check_extinguished_ok [of "pd_amount d" "pd_extinguished d"]
  by (auto simp: draw_validate_def intro: from_utf8_Inr split: if_splits)

lemma draw_parse_iff:
  "draw_parse nfc bs = Inr d \<longleftrightarrow> draw_ok nfc d \<and> bs = slot_bytes (draw_slots d)"
proof -
  have "draw_parse nfc bs = Inr d \<longleftrightarrow> read_slots bs (draw_slots d)
      \<and> length (pd_channel_id d) = 8 \<and> length (pd_ckpt_ref d) = 32 \<and> length (pd_claim_record d) = 32
      \<and> draw_validate nfc d = Inr () \<and> length (pd_extinguished d) < 2 ^ 32 \<and> signature_ok (pd_sig_merchant d)"
    using draw_validate_ok [of nfc d]
    by (cases d) (auto simp: draw_parse_def read_slots_def schemas_closed(6) [of d] slot_read uint_accepted
        ext.counted.accepted_iff draw_slots_def Let_def dest: from_utf8_same simp del: get_value_Inr)
  then show ?thesis by (auto simp: read_slots_bytes draw_ok_def)
qed

interpretation draw: canonical_codec "draw_ok nfc" "slot_bytes \<circ> draw_slots" "draw_parse nfc" for nfc
  by (rule canonical_codecI) (simp add: draw_parse_iff)

section \<open>The encoders\<close>

text \<open>Every encoder validates, then writes the slots; none validates the text it writes inside lists.\<close>

lemma push_sig_slots:
  "push_sig t sig fs = fs @ slot_fields [(t, sig)]"
  by (simp add: push_sig_def optional_field_def)

lemma leg_encode_eq: "leg_encode l = and_then (leg_validate l) (\<lambda>_. Inr (slot_bytes (leg_slots l)))"
  unfolding leg_encode_def Let_def
  by (rule arg_cong [where f = "and_then _"], rule ext, rule from_slots [of _ _ "\<lambda>x. x"],
      rule slots_ascending, simp add: leg_slots_def)

lemma conversion_encode_eq: "conversion_encode nfc c
    = and_then (validate_rate nfc (cv_rate c)) (\<lambda>_. Inr (slot_bytes (conversion_slots c)))"
  unfolding conversion_encode_def Let_def
  by (rule arg_cong [where f = "and_then _"], rule ext, rule from_slots [of _ _ "\<lambda>x. x"],
      rule slots_ascending, simp add: conversion_slots_def)

text \<open>The content of a proposal, without its signatures, and the conditions under which it is written.\<close>

definition propose_unsigned :: "settlement_propose \<Rightarrow> settlement_propose" where
  "propose_unsigned p = p\<lparr>sp_sig_payer := None, sp_sig_merchant := None\<rparr>"

definition propose_writable :: "(nat list \<Rightarrow> nat list) \<Rightarrow> settlement_propose \<Rightarrow> error + unit" where
  "propose_writable nfc p =
     and_then (check_outputs (sp_outputs p)) (\<lambda>_.
     and_then (case sp_instance_leg p of None \<Rightarrow> Inr () | Some l \<Rightarrow> leg_validate l) (\<lambda>_.
     case sp_conversion p of None \<Rightarrow> Inr () | Some c \<Rightarrow> validate_rate nfc (cv_rate c)))"

lemma propose_content_eq: "propose_content_fields nfc p
    = and_then (propose_writable nfc p) (\<lambda>_. Inr (slot_fields (propose_slots (propose_unsigned p))))"
  by (cases "sp_instance_leg p"; cases "sp_conversion p")
    (simp_all add: propose_content_fields_def propose_writable_def propose_slots_def propose_unsigned_def
      leg_encode_eq conversion_encode_eq and_then_assoc Let_def del: and_then_Inr)

lemma propose_covered_eq: "propose_covered_bytes nfc p = and_then (propose_writable nfc p)
    (\<lambda>_. Inr (covered SettlePropose (slot_bytes (propose_slots (propose_unsigned p)))))"
  unfolding propose_covered_bytes_def propose_content_eq and_then_assoc and_then_simps
  by (rule arg_cong [where f = "and_then _"], rule ext, rule from_slots) simp_all

lemma propose_encode_eq: "propose_encode nfc p
    = and_then (propose_writable nfc p) (\<lambda>_. Inr (slot_bytes (propose_slots p)))"
  unfolding propose_encode_def propose_content_eq and_then_assoc and_then_simps Let_def
  by (rule arg_cong [where f = "and_then _"], rule ext, rule from_slots [of _ _ "\<lambda>x. x"])
    (simp_all add: push_sig_slots, simp add: propose_slots_def propose_unsigned_def)

lemma propose_ok_writable: "propose_ok nfc p \<Longrightarrow> propose_writable nfc p = Inr ()"
  by (auto simp: propose_ok_def propose_writable_def leg_ok_def conversion_ok_def split: option.splits)

lemma propose_ok_unsigned: "propose_ok nfc p \<Longrightarrow> propose_ok nfc (propose_unsigned p)"
  by (auto simp: propose_ok_def propose_unsigned_def signature_ok_def slots_ok_def propose_slots_def)

lemma propose_covered_inj:
  assumes "propose_ok nfc p" "propose_ok nfc q"
  shows "propose_covered_bytes nfc p = propose_covered_bytes nfc q \<longleftrightarrow> propose_unsigned p = propose_unsigned q"
  using assms propose.encode_inj [OF propose_ok_unsigned [OF assms(1)] propose_ok_unsigned [OF assms(2)]]
  by (simp add: propose_covered_eq propose_ok_writable covered_eq_iff del: and_then_Inr)

definition tx_refs_writable :: "tx_ref list \<Rightarrow> error + unit" where
  "tx_refs_writable ts =
     and_then (for_each (\<lambda>t. if tr_leg t \<noteq> 0x01 \<and> tr_leg t \<noteq> 0x02 then Inl FieldDomain else Inr ()) ts)
       (\<lambda>_. check_pairs tx_ref_less ts)"

definition proof_unsigned :: "settlement_proof \<Rightarrow> settlement_proof" where
  "proof_unsigned p = p\<lparr>pf_sig_payer := None, pf_sig_merchant := None\<rparr>"

lemma proof_content_eq: "proof_content_fields p
    = and_then (tx_refs_writable (pf_tx_refs p)) (\<lambda>_. Inr (slot_fields (proof_slots (proof_unsigned p))))"
  by (simp add: proof_content_fields_def tx_refs_writable_def proof_slots_def proof_unsigned_def
      and_then_assoc Let_def del: and_then_Inr)

lemma proof_covered_eq: "proof_covered_bytes p = and_then (tx_refs_writable (pf_tx_refs p))
    (\<lambda>_. Inr (covered SettleProof (slot_bytes (proof_slots (proof_unsigned p)))))"
  unfolding proof_covered_bytes_def proof_content_eq and_then_assoc and_then_simps
  by (rule arg_cong [where f = "and_then _"], rule ext, rule from_slots) simp_all

lemma proof_encode_eq: "proof_encode p =
    (if one_signer (pf_sig_payer p) (pf_sig_merchant p)
     then and_then (tx_refs_writable (pf_tx_refs p)) (\<lambda>_. Inr (slot_bytes (proof_slots p)))
     else Inl MissingField)"
proof -
  have "and_then (proof_content_fields p) (\<lambda>fields.
      and_then (from_fields (push_sig SIG_MERCHANT (pf_sig_merchant p) (push_sig SIG_PAYER (pf_sig_payer p) fields)))
        (\<lambda>obj. Inr (object_encode obj)))
    = and_then (tx_refs_writable (pf_tx_refs p)) (\<lambda>_. Inr (slot_bytes (proof_slots p)))"
    unfolding proof_content_eq and_then_assoc and_then_simps
    by (rule arg_cong [where f = "and_then _"], rule ext, rule from_slots [of _ _ "\<lambda>x. x"])
      (simp_all add: push_sig_slots, simp add: proof_slots_def proof_unsigned_def)
  then show ?thesis
    by (cases "pf_sig_payer p"; cases "pf_sig_merchant p")
      (simp_all add: proof_encode_def one_signer_def Let_def del: and_then_Inr)
qed

definition confirmed_unsigned :: "settlement_confirmed \<Rightarrow> settlement_confirmed" where
  "confirmed_unsigned c = c\<lparr>cf_sig_payer := None, cf_sig_merchant := None\<rparr>"

lemma confirmed_content_eq: "confirmed_content_fields c = slot_fields (confirmed_slots (confirmed_unsigned c))"
  by (simp add: confirmed_content_fields_def confirmed_slots_def confirmed_unsigned_def)

lemma confirmed_covered_eq:
  "confirmed_covered_bytes c = covered SettleConfirm (slot_bytes (confirmed_slots (confirmed_unsigned c)))"
  by (simp add: confirmed_covered_bytes_def confirmed_content_eq slots_object slot_bytes_def)

lemma confirmed_encode_eq: "confirmed_encode c =
    (if one_signer (cf_sig_payer c) (cf_sig_merchant c) then Inr (slot_bytes (confirmed_slots c))
     else Inl MissingField)"
proof -
  have "and_then (from_fields (push_sig SIG_MERCHANT (cf_sig_merchant c)
      (push_sig SIG_PAYER (cf_sig_payer c) (confirmed_content_fields c)))) (\<lambda>obj. Inr (object_encode obj))
    = Inr (slot_bytes (confirmed_slots c))"
    by (rule from_slots [of _ _ "\<lambda>x. x"])
      (simp_all add: push_sig_slots, simp add: confirmed_slots_def confirmed_content_fields_def)
  then show ?thesis
    by (cases "cf_sig_payer c"; cases "cf_sig_merchant c")
      (simp_all add: confirmed_encode_def one_signer_def Let_def del: and_then_Inr)
qed

definition draw_unsigned :: "prepay_draw \<Rightarrow> prepay_draw" where
  "draw_unsigned d = d\<lparr>pd_sig_merchant := None\<rparr>"

lemma draw_content_eq: "draw_content_fields d = slot_fields (draw_slots (draw_unsigned d))"
  by (simp add: draw_content_fields_def draw_slots_def draw_unsigned_def Let_def)

lemma draw_covered_eq: "draw_covered_bytes d = covered PrepayDraw (slot_bytes (draw_slots (draw_unsigned d)))"
  by (simp add: draw_covered_bytes_def draw_content_eq slots_object slot_bytes_def)

lemma draw_encode_eq: "draw_encode nfc d =
    and_then (draw_validate nfc d) (\<lambda>_. and_then (ok_or (pd_sig_merchant d) MissingField)
      (\<lambda>_. Inr (slot_bytes (draw_slots d))))"
proof (cases "pd_sig_merchant d")
  case (Some sig)
  have "and_then (from_fields (draw_content_fields d @ [field_new D_SIG False sig])) (\<lambda>obj. Inr (object_encode obj))
      = Inr (slot_bytes (draw_slots d))"
    by (rule from_slots [of _ _ "\<lambda>x. x"], rule slots_ascending)
      (simp add: Some draw_slots_def draw_content_fields_def Let_def)
  then show ?thesis by (simp add: draw_encode_def Some Let_def del: and_then_Inr)
qed (simp add: draw_encode_def del: and_then_Inr)

end
