(* ===== verification/Rate_Grammar.thy ===== *)
theory Rate_Grammar
  imports Settle_Msg
begin

text \<open>
  The decimal rate of a conversion (\<open>validate_rate\<close> of \<^verbatim>\<open>crates/paytp-core/src/channel/settle_msg.rs\<close>):
  the accepted strings and their numeric values. A signed rate has one spelling only.
\<close>

section \<open>Decimal digits\<close>

definition digit_value :: "u8 \<Rightarrow> nat" where
  "digit_value b = unat b - 48"

definition digits_value :: "bytes \<Rightarrow> nat" where
  "digits_value ds = foldl (\<lambda>a b. a * 10 + digit_value b) 0 ds"

lemma digits_Nil [simp]: "digits_value [] = 0"
  by (simp add: digits_value_def)

lemma digits_snoc [simp]: "digits_value (ds @ [b]) = digits_value ds * 10 + digit_value b"
  by (simp add: digits_value_def)

lemma digits_append: "digits_value (xs @ ys) = digits_value xs * 10 ^ length ys + digits_value ys"
proof (induction ys rule: rev_induct)
  case (snoc y ys)
  have "digits_value (xs @ ys @ [y]) = digits_value (xs @ ys) * 10 + digit_value y"
    by (metis append_assoc digits_snoc)
  with snoc show ?case by (simp add: algebra_simps)
qed simp

lemma digits_Cons: "digits_value (b # bs) = digit_value b * 10 ^ length bs + digits_value bs"
  using digits_append [of "[b]" bs] digits_snoc [of "[]" b] by simp

lemma digit_iff: "is_digit b \<longleftrightarrow> 48 \<le> unat b \<and> unat b \<le> 57"
  by (simp add: is_digit_def word_le_nat_alt)

lemma digit_value_less: "is_digit b \<Longrightarrow> digit_value b < 10"
  by (auto simp: digit_iff digit_value_def)

lemma digit_value_eq: "is_digit a \<Longrightarrow> is_digit b \<Longrightarrow> digit_value a = digit_value b \<longleftrightarrow> a = b"
  by (auto simp: digit_iff digit_value_def word_unat_eq_iff)

lemma digit_value_0: "is_digit b \<Longrightarrow> digit_value b = 0 \<longleftrightarrow> b = 0x30"
  by (auto simp: digit_iff digit_value_def word_unat_eq_iff)

lemma digits_less: "list_all is_digit ds \<Longrightarrow> digits_value ds < 10 ^ length ds"
proof (induction ds rule: rev_induct)
  case (snoc b ds)
  then have "digits_value ds + 1 \<le> 10 ^ length ds" "digit_value b < 10"
    by (simp_all add: Suc_le_eq digit_value_less)
  then have "digits_value ds * 10 + digit_value b < 10 ^ length ds * 10" by linarith
  then show ?case by simp
qed simp

lemma digits_inj:
  "list_all is_digit xs \<Longrightarrow> list_all is_digit ys \<Longrightarrow> length xs = length ys \<Longrightarrow>
   digits_value xs = digits_value ys \<Longrightarrow> xs = ys"
proof (induction xs arbitrary: ys rule: rev_induct)
  case (snoc x xs)
  then obtain zs z where ys: "ys = zs @ [z]" by (metis length_0_conv rev_exhaust snoc_eq_iff_butlast)
  have d: "digit_value x < 10" "digit_value z < 10" using snoc.prems ys by (simp_all add: digit_value_less)
  have eq: "digits_value xs * 10 + digit_value x = digits_value zs * 10 + digit_value z"
    using snoc.prems ys by simp
  then have v: "digits_value xs = digits_value zs" using d by linarith
  then have "digit_value x = digit_value z" using eq by simp
  then have "x = z" using snoc.prems(1,2) ys by (simp add: digit_value_eq)
  moreover have "xs = zs" using snoc.prems(1-3) ys v by (intro snoc.IH) simp_all
  ultimately show ?case using ys by simp
qed simp

text \<open>Digit strings without superfluous leading zeros are determined by their value.\<close>

lemma digits_leading:
  assumes "list_all is_digit xs" "1 < length xs" "hd xs \<noteq> 0x30"
  shows "10 ^ (length xs - 1) \<le> digits_value xs"
proof -
  obtain b bs where xs: "xs = b # bs" using assms(2) by (cases xs) auto
  then have "digit_value b \<noteq> 0" using assms(1,3) by (simp add: digit_value_0)
  then have "10 ^ length bs \<le> digit_value b * 10 ^ length bs" by simp
  then show ?thesis by (simp add: xs digits_Cons trans_le_add1 del: mult_le_cancel2)
qed

lemma integer_part_inj:
  assumes "all_digits xs" "all_digits ys" "1 < length xs \<longrightarrow> hd xs \<noteq> 0x30" "1 < length ys \<longrightarrow> hd ys \<noteq> 0x30"
    "digits_value xs = digits_value ys"
  shows "xs = ys"
proof -
  have shorter: False if "all_digits us" "all_digits vs" "1 < length vs \<longrightarrow> hd vs \<noteq> 0x30"
    "digits_value us = digits_value vs" "length us < length vs" for us vs
  proof -
    have "us \<noteq> []" using that(1) by (simp add: all_digits_def)
    then have "1 < length vs" using that(5) by (cases us) auto
    then have "10 ^ (length vs - 1) \<le> digits_value vs"
      using that by (intro digits_leading) (auto simp: all_digits_def)
    moreover have "digits_value us < 10 ^ length us" using that(1) by (intro digits_less) (simp add: all_digits_def)
    moreover have "(10::nat) ^ length us \<le> 10 ^ (length vs - 1)" using that(5) by (intro power_increasing) auto
    ultimately show False using that(4) by linarith
  qed
  have "length xs = length ys"
    using shorter [of xs ys] shorter [of ys xs] assms by (metis linorder_neqE_nat)
  then show ?thesis using assms by (intro digits_inj) (auto simp: all_digits_def)
qed

section \<open>The value of a rate\<close>

definition rate_digits :: "bytes \<Rightarrow> bytes" where
  "rate_digits s = concat (split_dot s)"

definition rate_places :: "bytes \<Rightarrow> nat" where
  "rate_places s = length (concat (tl (split_dot s)))"

text \<open>The rate is \<open>rate_num s / 10 ^ rate_places s\<close>.\<close>

definition rate_num :: "bytes \<Rightarrow> nat" where
  "rate_num s = digits_value (rate_digits s)"

lemma split_dot_nonempty [simp]: "split_dot s \<noteq> []"
  by (cases s) auto

lemma split_dot_one: "split_dot s = [i] \<Longrightarrow> s = i"
proof (induction s arbitrary: i)
  case (Cons b s)
  then have "b \<noteq> 0x2e" "i = b # hd (split_dot s)" "tl (split_dot s) = []" by (auto split: if_splits)
  moreover from this(3) have "split_dot s = [hd (split_dot s)]" by (metis hd_Cons_tl split_dot_nonempty)
  ultimately show ?case using Cons.IH by simp
qed simp

lemma split_dot_two: "split_dot s = [i, f] \<Longrightarrow> s = i @ 0x2e # f"
proof (induction s arbitrary: i)
  case (Cons b s)
  show ?case
  proof (cases "b = 0x2e")
    case True
    then show ?thesis using Cons.prems split_dot_one [of s f] by simp
  next
    case False
    then have "i = b # hd (split_dot s)" "tl (split_dot s) = [f]" using Cons.prems by auto
    moreover from this(2) have "split_dot s = [hd (split_dot s), f]" by (metis hd_Cons_tl split_dot_nonempty)
    ultimately show ?thesis using Cons.IH by simp
  qed
qed simp

text \<open>The accepted strings, by their parts.\<close>

definition rate_parts :: "bytes \<Rightarrow> bytes \<Rightarrow> bytes \<Rightarrow> bool" where
  "rate_parts s i f \<longleftrightarrow>
     all_digits i \<and> (1 < length i \<longrightarrow> hd i \<noteq> 0x30) \<and>
     list_all is_digit f \<and> (f \<noteq> [] \<longrightarrow> last f \<noteq> 0x30) \<and>
     split_dot s = (if f = [] then [i] else [i, f])"

lemma rate_valid_parts:
  assumes "validate_rate nfc s = Inr ()"
  obtains i f where "rate_parts s i f" "\<exists>b \<in> set s. 0x31 \<le> b \<and> b \<le> 0x39"
proof -
  have nz: "\<exists>b \<in> set s. 0x31 \<le> b \<and> b \<le> 0x39" and len: "length (split_dot s) \<le> 2"
    and i: "all_digits (hd (split_dot s))" "1 < length (hd (split_dot s)) \<longrightarrow> hd (hd (split_dot s)) \<noteq> 0x30"
    and f: "\<forall>f r. tl (split_dot s) = f # r \<longrightarrow> all_digits f \<and> last f \<noteq> 0x30"
    using assms by (auto simp: validate_rate_def Let_def list_ex_iff not_less split: if_splits list.splits)
  show ?thesis
  proof (cases "tl (split_dot s)")
    case Nil
    then have "split_dot s = [hd (split_dot s)]" by (metis hd_Cons_tl split_dot_nonempty)
    then have "rate_parts s (hd (split_dot s)) []" using i by (simp add: rate_parts_def)
    then show ?thesis using that nz by blast
  next
    case (Cons g r)
    have split: "split_dot s = hd (split_dot s) # g # r" using Cons by (metis hd_Cons_tl split_dot_nonempty)
    then have "r = []" using len by (metis One_nat_def Suc_1 Suc_le_mono le_zero_eq length_0_conv length_Cons)
    then have "rate_parts s (hd (split_dot s)) g"
      using i f Cons split by (auto simp: rate_parts_def all_digits_def)
    then show ?thesis using that nz by blast
  qed
qed

lemma rate_parts_value:
  "rate_parts s i f \<Longrightarrow> rate_places s = length f \<and> rate_num s = digits_value i * 10 ^ length f + digits_value f"
  by (simp add: rate_parts_def rate_places_def rate_num_def rate_digits_def digits_append split: if_splits)

lemma rate_parts_string: "rate_parts s i f \<Longrightarrow> s = (if f = [] then i else i @ 0x2e # f)"
  using split_dot_one [of s i] split_dot_two [of s i f] by (auto simp: rate_parts_def split: if_splits)

text \<open>A shorter fraction means fewer digits after the dot: the last one is never a zero.\<close>

lemma rate_places_least:
  assumes "rate_parts s i f" "rate_parts t j g" "rate_num s * 10 ^ length g = rate_num t * 10 ^ length f"
  shows "\<not> length f < length g"
proof
  assume less: "length f < length g"
  then have g: "g \<noteq> []" by auto
  then obtain ds b where gb: "g = ds @ [b]" by (metis rev_exhaust)
  obtain d where d: "length g = Suc d + length f"
    using less by (metis add.commute add_Suc_right less_imp_Suc_add)
  have "rate_num s * 10 ^ Suc d * 10 ^ length f = rate_num t * 10 ^ length f"
    using assms(3) by (simp add: d power_add)
  then have "rate_num t = rate_num s * 10 ^ Suc d" by simp
  then have "10 dvd rate_num t" by simp
  moreover have "rate_num t = (digits_value j * 10 ^ length ds + digits_value ds) * 10 + digit_value b"
    using rate_parts_value [OF assms(2)] by (simp add: gb algebra_simps)
  ultimately have "10 dvd digit_value b" by (metis dvd_add_right_iff dvd_triv_right)
  moreover have "is_digit b" "b \<noteq> 0x30" using assms(2) gb by (simp_all add: rate_parts_def)
  ultimately show False using digit_value_less [of b] digit_value_0 [of b] by (auto elim: dvdE)
qed

lemma rate_parts_unique:
  assumes s: "rate_parts s i f" and t: "rate_parts t j g"
    and eq: "rate_num s * 10 ^ rate_places t = rate_num t * 10 ^ rate_places s"
  shows "s = t"
proof -
  have eq': "rate_num s * 10 ^ length g = rate_num t * 10 ^ length f"
    using eq rate_parts_value [OF s] rate_parts_value [OF t] by simp
  have len: "length f = length g"
    using rate_places_least [OF s t eq'] rate_places_least [OF t s eq' [symmetric]] by simp
  then have num: "digits_value i * 10 ^ length f + digits_value f = digits_value j * 10 ^ length f + digits_value g"
    using eq' rate_parts_value [OF s] rate_parts_value [OF t] by simp
  have fr: "digits_value f < 10 ^ length f" "digits_value g < 10 ^ length f"
    using s t digits_less [of f] digits_less [of g] by (simp_all add: rate_parts_def len)
  have "digits_value i = digits_value j"
    using arg_cong [OF num, of "\<lambda>x. x div 10 ^ length f"] fr by simp
  then have "i = j" using s t by (intro integer_part_inj) (auto simp: rate_parts_def)
  moreover have "f = g" using num \<open>digits_value i = digits_value j\<close> s t len
    by (intro digits_inj) (auto simp: rate_parts_def)
  ultimately show "s = t" using rate_parts_string [OF s] rate_parts_string [OF t] by simp
qed

lemma rate_positive: "validate_rate nfc s = Inr () \<Longrightarrow> 0 < rate_num s"
proof (erule rate_valid_parts)
  fix i f assume p: "rate_parts s i f" and nz: "\<exists>b \<in> set s. 0x31 \<le> b \<and> b \<le> 0x39"
  then obtain b where b: "b \<in> set s" "0x31 \<le> b" "b \<le> 0x39" by blast
  then have "b \<noteq> 0x2e" by auto
  then have "b \<in> set (rate_digits s)"
    using b(1) rate_parts_string [OF p] p by (auto simp: rate_digits_def rate_parts_def split: if_splits)
  then obtain us vs where "rate_digits s = us @ b # vs" by (metis split_list)
  moreover have "0 < digit_value b" using b(2) by (simp add: digit_value_def word_le_nat_alt)
  ultimately show "0 < rate_num s" by (simp add: rate_num_def digits_append digits_Cons)
qed

end
