(* ===== verification/Props_Settle_Msg.thy ===== *)
theory Props_Settle_Msg
  imports Settle_Canonical Rate_Grammar Example_Parameters
begin

text \<open>
  The properties of the settlement messages of \<^verbatim>\<open>crates/paytp-core/src/channel/settle_msg.rs\<close>, each with
  a concrete instance.
\<close>

section \<open>Proposals\<close>

text \<open>The proposal format is canonical: \<open>SettlementPropose::parse\<close> accepts a byte string exactly if
  it is what \<open>encode\<close> writes for a well-formed proposal, the aggregate leg and the conversion inside it
  included; and the bytes the two role slots sign determine everything in the proposal but the
  signatures.\<close>

theorem proposal_format_canonical:
  "(propose_parse nfc bs = Inr p \<longleftrightarrow> propose_ok nfc p \<and> propose_encode nfc p = Inr bs) \<and>
   (propose_ok nfc p \<and> propose_ok nfc q \<longrightarrow>
      (propose_covered_bytes nfc p = propose_covered_bytes nfc q \<longleftrightarrow>
       p\<lparr>sp_sig_payer := None, sp_sig_merchant := None\<rparr> = q\<lparr>sp_sig_payer := None, sp_sig_merchant := None\<rparr>))"
  using propose_covered_inj [of nfc p q] propose_ok_writable [of nfc p]
  by (auto simp: propose_parse_iff propose_encode_eq propose_unsigned_def simp del: and_then_Inr)

definition demo_leg :: instance_leg where
  "demo_leg = \<lparr>leg_amount = 9,
     leg_credited = [\<lparr>cl_kind = 1, cl_rail = ascii ''v'', cl_reference = ascii ''t1'', cl_finality = ascii ''f''\<rparr>],
     leg_extinguished = [(0x10, 0), (0x11, 90000)]\<rparr>"

text \<open>A proposal to a destination given as a parameter.\<close>

definition demo_propose :: "bytes \<Rightarrow> settlement_propose" where
  "demo_propose to = \<lparr>sp_channel_id = replicate 8 1, sp_ckpt_ref = replicate 32 2,
     sp_outputs = [\<lparr>out_amount = 700, out_asset = ascii ''usd'', out_dest = to\<rparr>],
     sp_instance_leg = Some demo_leg,
     sp_conversion = Some \<lparr>cv_rate = ascii ''2.5'', cv_rate_time = 1, cv_rate_exp = 2, cv_rate_grace = 3\<rparr>,
     sp_sig_payer = Some (replicate 64 7), sp_sig_merchant = None\<rparr>"

lemmas eval_message = encode_uint_biguint_def min_bytes.simps leb_encode.simps build_count_prefixed_def
  ascii_def of_char_def push_lp_def output_item_def credited_item_def ext_item_def Let_def

lemma demo_rate: "validate_rate (\<lambda>s. s) (ascii ''2.5'') = Inr ()"
  by (simp add: validate_rate_def validate_text_def ascii_def of_char_def all_digits_def is_digit_def Let_def)

lemma demo_leg_ok: "leg_ok (\<lambda>s. s) demo_leg"
  by (simp add: leg_ok_def demo_leg_def leg_validate_def check_extinguished_def check_field_domain_def
      domain_max_def check_pairs_def credited_ok_def text_ok_def validate_text_def slots_ok_def leg_slots_def
      field_ok_def type_defs eval_message)

lemma u128_bytes_short: "length (encode_uint_u128 v) \<le> 16"
  by (auto simp: encode_uint_u128_def intro: order_trans [OF length_dropWhile_le])

lemma small_slot_bytes:
  assumes "list_all (\<lambda>(t, v). case v of None \<Rightarrow> True | Some w \<Rightarrow> length w < 128) slots"
  shows "length (slot_bytes slots) \<le> 130 * length slots"
  using assms
proof (induction slots)
  case (Cons s slots)
  have "length (leb_encode (of_nat (length w))) = 1" if "length w < 128" for w :: bytes
    using that by (simp add: leb_encode_last unat_of_nat)
  then show ?case using Cons
    by (cases s; cases "snd s") (auto simp: slot_bytes_def object_encode_def field_encode_def)
qed (simp add: slot_bytes_def object_encode_def)

lemma demo_leg_short: "length (slot_bytes (leg_slots demo_leg)) < 4294967296"
  by (rule le_less_trans [OF small_slot_bytes]) (simp_all add: leg_slots_def demo_leg_def eval_message)

lemma demo_conversion_short:
  "length (slot_bytes (conversion_slots \<lparr>cv_rate = ascii ''2.5'', cv_rate_time = x, cv_rate_exp = y, cv_rate_grace = z\<rparr>))
     < 4294967296"
  by (rule le_less_trans [OF small_slot_bytes])
    (simp_all add: conversion_slots_def ascii_def le_less_trans [OF u128_bytes_short])

lemma demo_propose_slots: "length to < 100 \<Longrightarrow> slots_ok (propose_slots (demo_propose to))"
  using demo_leg_short demo_conversion_short
  by (simp add: slots_ok_def propose_slots_def demo_propose_def field_ok_def type_defs eval_message unat_of_nat)

lemma demo_propose_writable: "propose_writable (\<lambda>s. s) (demo_propose to) = Inr ()"
  using demo_leg_ok demo_rate
  by (simp add: propose_writable_def demo_propose_def check_outputs_def check_pairs_def check_field_domain_def
      domain_max_def leg_ok_def)

lemma demo_propose_ok: "propose_ok (\<lambda>s. s) (demo_propose (ascii ''bob''))"
proof -
  have "conversion_ok (\<lambda>s. s) \<lparr>cv_rate = ascii ''2.5'', cv_rate_time = 1, cv_rate_exp = 2, cv_rate_grace = 3\<rparr>"
    using demo_rate
    by (simp add: conversion_ok_def slots_ok_def conversion_slots_def field_ok_def type_defs ascii_def
        le_less_trans [OF u128_bytes_short])
  moreover have "text_ok (\<lambda>s. s) (ascii ''bob'')" "text_ok (\<lambda>s. s) (ascii ''usd'')"
    by (simp_all add: text_ok_def validate_text_def ascii_def of_char_def)
  ultimately show ?thesis
    using demo_propose_slots [of "ascii ''bob''"] demo_leg_ok
    by (simp add: propose_ok_def demo_propose_def output_ok_def signature_ok_def check_outputs_def
        check_pairs_def check_field_domain_def domain_max_def ascii_def)
qed

theorem proposal_format_canonical_witness:
  "propose_parse (\<lambda>s. s) (slot_bytes (propose_slots (demo_propose (ascii ''bob'')))) = Inr (demo_propose (ascii ''bob''))"
proof -
  have "propose_encode (\<lambda>s. s) (demo_propose (ascii ''bob'')) = Inr (slot_bytes (propose_slots (demo_propose (ascii ''bob''))))"
    by (simp add: propose_encode_eq demo_propose_writable del: and_then_Inr)
  then show ?thesis
    using proposal_format_canonical [of "\<lambda>s. s" _ "demo_propose (ascii ''bob'')"] demo_propose_ok by blast
qed

section \<open>What the encoder does not check\<close>

definition output_fits :: "round_output \<Rightarrow> bool" where
  "output_fits x \<longleftrightarrow> length (out_asset x) < 2 ^ 32 \<and> length (out_dest x) < 2 ^ 32"

definition output_small :: "round_output \<Rightarrow> bool" where
  "output_small x \<longleftrightarrow> out_amount x \<le> 2 ^ 128 - 1 \<and> length (out_asset x) < 2 ^ 32 \<and> length (out_dest x) < 2 ^ 32"

definition credited_small :: "credited_leg \<Rightarrow> bool" where
  "credited_small c \<longleftrightarrow> length (cl_rail c) < 2 ^ 32 \<and> length (cl_reference c) < 2 ^ 32 \<and> length (cl_finality c) < 2 ^ 32"

definition leg_typed :: "instance_leg \<Rightarrow> bool" where
  "leg_typed l \<longleftrightarrow> list_all credited_small (leg_credited l) \<and> length (leg_credited l) < 2 ^ 32 \<and>
     length (leg_extinguished l) < 2 ^ 32 \<and> slots_ok (leg_slots l)"

definition leg_texts :: "(nat list \<Rightarrow> nat list) \<Rightarrow> instance_leg \<Rightarrow> bool" where
  "leg_texts nfc l \<longleftrightarrow> list_all (\<lambda>c. text_ok nfc (cl_rail c) \<and> text_ok nfc (cl_reference c) \<and>
     text_ok nfc (cl_finality c)) (leg_credited l)"

definition propose_typed :: "settlement_propose \<Rightarrow> bool" where
  "propose_typed p \<longleftrightarrow>
     length (sp_channel_id p) = 8 \<and> length (sp_ckpt_ref p) = 32 \<and>
     signature_ok (sp_sig_payer p) \<and> signature_ok (sp_sig_merchant p) \<and>
     list_all output_fits (sp_outputs p) \<and> length (sp_outputs p) < 2 ^ 32 \<and>
     pred_option leg_typed (sp_instance_leg p) \<and>
     pred_option (\<lambda>c. slots_ok (conversion_slots c)) (sp_conversion p) \<and> slots_ok (propose_slots p)"

definition propose_texts :: "(nat list \<Rightarrow> nat list) \<Rightarrow> settlement_propose \<Rightarrow> bool" where
  "propose_texts nfc p \<longleftrightarrow>
     list_all (\<lambda>x. text_ok nfc (out_asset x) \<and> text_ok nfc (out_dest x)) (sp_outputs p) \<and>
     pred_option (leg_texts nfc) (sp_instance_leg p)"

text \<open>The bytes determine the texts even where they are not valid text.\<close>

lemma slot_bytes_inj:
  assumes "slots_ok s" "slots_ok s'" "map fst s = map fst s'" "sorted_wrt (<) (map fst s)"
    "slot_bytes s = slot_bytes s'"
  shows "s = s'"
proof -
  have "read_slots (slot_bytes s) s" "read_slots (slot_bytes s) s'"
    using assms read_slots_bytes by metis+
  then obtain obj where l: "\<forall>(t, v) \<in> set s. lookup obj t = v" "\<forall>(t, v) \<in> set s'. lookup obj t = v"
    by (auto simp: read_slots_def)
  have "u = map (\<lambda>t. (t, lookup obj t)) (map fst u)" if "\<forall>(t, v) \<in> set u. lookup obj t = v" for u
    using that by (induction u) auto
  from this [OF l(1)] this [OF l(2)] assms(3) show ?thesis by metis
qed

lemma concat_prefix_free:
  assumes pf: "\<And>x y r s. ok x \<Longrightarrow> ok y \<Longrightarrow> enc x @ r = enc y @ s \<Longrightarrow> x = y \<and> r = s"
    and "list_all ok xs" "list_all ok ys" "length xs = length ys"
    "concat (map enc xs) = concat (map enc ys)"
  shows "xs = ys"
  using assms(2-5)
proof (induction xs arbitrary: ys)
  case (Cons x xs)
  then obtain y zs where ys: "ys = y # zs" by (cases ys) auto
  then have "x = y \<and> concat (map enc xs) = concat (map enc zs)" using Cons.prems by (intro pf) auto
  then show ?case using Cons ys by auto
qed simp

lemma counted_prefix_free:
  assumes pf: "\<And>x y r s. ok x \<Longrightarrow> ok y \<Longrightarrow> enc x @ r = enc y @ s \<Longrightarrow> x = y \<and> r = s"
    and "list_all ok xs" "list_all ok ys" "length xs < 2 ^ 32" "length ys < 2 ^ 32"
    "build_count_prefixed (map enc xs) = build_count_prefixed (map enc ys)"
  shows "xs = ys"
proof -
  have eq: "leb_encode (of_nat (length xs)) @ concat (map enc xs) = leb_encode (of_nat (length ys)) @ concat (map enc ys)"
    using assms(6) by (simp add: build_count_prefixed_def)
  note len = leb_length_small [OF assms(4)] leb_length_small [OF assms(5)]
  have "(of_nat (length xs) :: u64) = of_nat (length ys) \<and> concat (map enc xs) = concat (map enc ys)"
    using len eq by (intro leb.prefix_free) auto
  with len have "length xs = length ys" "concat (map enc xs) = concat (map enc ys)" by metis+
  then show ?thesis using concat_prefix_free [OF pf] assms(2,3) by blast
qed

lemma output_item_prefix_free:
  assumes "output_small x" "output_small y" "output_item x @ r = output_item y @ s"
  shows "x = y \<and> r = s"
proof -
  note ok = assms(1,2) [unfolded output_small_def]
  note a = lp_uint.prefix_free [of "out_amount x" "out_amount y", OF _ _ assms(3) [unfolded output_item_parts append_assoc]]
  note b = lp.prefix_free [OF _ _ conjunct2 [OF a]]
  note c = lp.prefix_free [OF _ _ conjunct2 [OF b]]
  show ?thesis using a b c ok by simp
qed

lemma credited_item_prefix_free:
  assumes "credited_small x" "credited_small y" "credited_item x @ r = credited_item y @ s"
  shows "x = y \<and> r = s"
proof -
  note ok = assms(1,2) [unfolded credited_small_def]
  have k: "cl_kind x = cl_kind y"
    and t: "push_lp [] (cl_rail x) @ push_lp [] (cl_reference x) @ push_lp [] (cl_finality x) @ r
      = push_lp [] (cl_rail y) @ push_lp [] (cl_reference y) @ push_lp [] (cl_finality y) @ s"
    using assms(3) by (simp_all add: credited_item_parts)
  note a = lp.prefix_free [OF _ _ t]
  note b = lp.prefix_free [OF _ _ conjunct2 [OF a]]
  note c = lp.prefix_free [OF _ _ conjunct2 [OF b]]
  show ?thesis using a b c ok k by simp
qed

lemma outputs_ok_split: "list_all (output_ok nfc) xs \<longleftrightarrow> list_all output_small xs
    \<and> list_all (\<lambda>x. text_ok nfc (out_asset x) \<and> text_ok nfc (out_dest x)) xs"
  unfolding list_all_iff output_ok_def output_small_def by blast

lemma leg_ok_split: "leg_ok nfc l \<longleftrightarrow> leg_validate l = Inr () \<and> leg_typed l \<and> leg_texts nfc l"
  unfolding leg_ok_def leg_typed_def leg_texts_def list_all_iff credited_ok_def credited_small_def by blast

lemma pred_option_conj: "pred_option (\<lambda>x. P x \<and> Q x) m \<longleftrightarrow> pred_option P m \<and> pred_option Q m"
  by (cases m) auto

lemma propose_writable_iff: "propose_writable nfc p = Inr () \<longleftrightarrow> check_outputs (sp_outputs p) = Inr ()
    \<and> pred_option (\<lambda>l. leg_validate l = Inr ()) (sp_instance_leg p)
    \<and> pred_option (\<lambda>c. validate_rate nfc (cv_rate c) = Inr ()) (sp_conversion p)"
  by (cases "sp_instance_leg p"; cases "sp_conversion p") (auto simp: propose_writable_def)

lemma check_outputs_small: "check_outputs xs = Inr () \<Longrightarrow> list_all output_fits xs \<Longrightarrow> list_all output_small xs"
  by (auto simp: check_outputs_def check_value_domain list_all_iff output_small_def output_fits_def split: if_splits)

lemma output_small_fits: "list_all output_small xs \<Longrightarrow> list_all output_fits xs"
  by (auto simp: list_all_iff output_small_def output_fits_def)

lemma typed_ok_iff: "propose_ok nfc p \<longleftrightarrow>
    propose_typed p \<and> propose_texts nfc p \<and> propose_writable nfc p = Inr ()"
proof -
  have "pred_option (leg_ok nfc) m \<longleftrightarrow> pred_option (\<lambda>l. leg_validate l = Inr ()) m
      \<and> pred_option leg_typed m \<and> pred_option (leg_texts nfc) m" for m
    by (cases m) (auto simp: leg_ok_split)
  moreover have "pred_option (conversion_ok nfc) m \<longleftrightarrow> pred_option (\<lambda>c. validate_rate nfc (cv_rate c) = Inr ()) m
      \<and> pred_option (\<lambda>c. slots_ok (conversion_slots c)) m" for m
    by (cases m) (auto simp: conversion_ok_def)
  ultimately show ?thesis
    using check_outputs_small [of "sp_outputs p"] output_small_fits [of "sp_outputs p"]
    unfolding propose_ok_def propose_typed_def propose_texts_def propose_writable_iff outputs_ok_split by blast
qed

lemma outputs_small:
  "propose_typed p \<Longrightarrow> propose_writable nfc p = Inr () \<Longrightarrow> list_all output_small (sp_outputs p)"
  by (rule check_outputs_small) (simp_all only: propose_typed_def propose_writable_iff)

lemma same_bytes_texts:
  assumes p: "propose_typed p" "propose_writable nfc p = Inr ()" and q: "propose_ok nfc q"
    and eq: "slot_bytes (propose_slots p) = slot_bytes (propose_slots q)"
  shows "propose_texts nfc p"
proof -
  have qt: "propose_typed q" "propose_texts nfc q" "propose_writable nfc q = Inr ()" using q typed_ok_iff by blast+
  have "propose_slots p = propose_slots q"
    using p(1) qt(1) eq by (intro slot_bytes_inj) (simp_all add: propose_typed_def, simp add: propose_slots_def)
  then have o: "build_count_prefixed (map output_item (sp_outputs p)) = build_count_prefixed (map output_item (sp_outputs q))"
    and l: "map_option (slot_bytes \<circ> leg_slots) (sp_instance_leg p) = map_option (slot_bytes \<circ> leg_slots) (sp_instance_leg q)"
    by (simp_all add: propose_slots_def)
  have small: "list_all output_small (sp_outputs p)" "list_all output_small (sp_outputs q)"
    using outputs_small [OF p] outputs_small [OF qt(1,3)] by blast+
  have outs: "sp_outputs p = sp_outputs q"
    by (rule counted_prefix_free [where ok = output_small and enc = output_item])
      (erule (2) output_item_prefix_free, use small o p(1) qt(1) in \<open>simp_all add: propose_typed_def\<close>)
  have "leg_texts nfc a" if a: "sp_instance_leg p = Some a" for a
  proof -
    obtain b where b: "sp_instance_leg q = Some b" "slot_bytes (leg_slots a) = slot_bytes (leg_slots b)"
      using l a by (cases "sp_instance_leg q") auto
    have ty: "leg_typed a" "leg_typed b" "leg_texts nfc b"
      using p(1) qt(1,2) a b(1) by (simp_all add: propose_typed_def propose_texts_def)
    then have "leg_slots a = leg_slots b"
      using b(2) by (intro slot_bytes_inj) (simp_all add: leg_typed_def, simp add: leg_slots_def)
    then have c: "build_count_prefixed (map credited_item (leg_credited a)) = build_count_prefixed (map credited_item (leg_credited b))"
      by (simp add: leg_slots_def)
    have "leg_credited a = leg_credited b"
      by (rule counted_prefix_free [where ok = credited_small and enc = credited_item])
        (erule (2) credited_item_prefix_free, use ty c in \<open>simp_all add: leg_typed_def\<close>)
    then show ?thesis using ty(3) by (simp add: leg_texts_def)
  qed
  then show ?thesis using qt(2) outs by (cases "sp_instance_leg p") (simp_all add: propose_texts_def)
qed

text \<open>What \<open>encode\<close> does not check: a proposal with the field widths of its type that passes \<open>encode\<close>
  is accepted back by \<open>parse\<close> exactly if every text in its lists (the assets and destinations of the
  outputs; rail, reference and finality of the credited legs) is valid text. With one control
  character in a destination the proposal is encoded, hashed and signed, and no party can parse it.\<close>

theorem proposal_text_gap:
  assumes "propose_typed p" "propose_encode nfc p = Inr bs"
  shows "if propose_texts nfc p then propose_parse nfc bs = Inr p else \<exists>e. propose_parse nfc bs = Inl e"
proof (cases "propose_texts nfc p")
  case True
  then show ?thesis using assms typed_ok_iff [of nfc p] by (auto simp: propose_encode_eq propose_parse_iff)
next
  case False
  then have "propose_parse nfc bs \<noteq> Inr q" for q
    using assms same_bytes_texts [of p nfc q] by (auto simp: propose_encode_eq propose_parse_iff)
  then show ?thesis using False by (cases "propose_parse nfc bs") auto
qed

theorem proposal_text_gap_witness:
  "\<exists>bs e. propose_encode (\<lambda>s. s) (demo_propose [0x07]) = Inr bs \<and> propose_parse (\<lambda>s. s) bs = Inl e"
proof -
  have enc: "propose_encode (\<lambda>s. s) (demo_propose [0x07]) = Inr (slot_bytes (propose_slots (demo_propose [0x07])))"
    by (simp add: propose_encode_eq demo_propose_writable del: and_then_Inr)
  have typed: "propose_typed (demo_propose [0x07])"
    using demo_propose_slots [of "[0x07]"] demo_propose_ok
    by (simp add: typed_ok_iff propose_typed_def demo_propose_def output_fits_def)
  have "\<not> propose_texts (\<lambda>s. s) (demo_propose [0x07])"
    by (simp add: propose_texts_def demo_propose_def text_ok_def validate_text_def)
  then show ?thesis using proposal_text_gap [OF typed enc] enc by auto
qed

section \<open>Single-signed messages\<close>

text \<open>The messages of one signer: the debtor's \<open>SETTLEMENT_PROOF\<close> and the creditor's
  \<open>SETTLEMENT_CONFIRMED\<close> carry exactly one of the two role signatures. Encoding one with both or none is
  the missing-field error, parsing accepts exactly what encoding writes for the well-formed messages, so
  it never returns one with both or none; and a proof's transfer legs are of the two kinds, in
  ascending order.\<close>

theorem one_role_signs:
  "(proof_parse nfc bs = Inr p \<longleftrightarrow> proof_ok nfc p \<and> proof_encode p = Inr bs) \<and>
   (confirmed_parse cs = Inr c \<longleftrightarrow> confirmed_ok c \<and> confirmed_encode c = Inr cs) \<and>
   ((\<exists>ds. proof_encode p = Inr ds) \<longleftrightarrow>
      (pf_sig_payer p = None \<longleftrightarrow> pf_sig_merchant p \<noteq> None) \<and> successively tx_ref_less (pf_tx_refs p) \<and>
      list_all (\<lambda>t. tr_leg t \<in> {1, 2}) (pf_tx_refs p)) \<and>
   ((\<exists>ds. confirmed_encode c = Inr ds) \<longleftrightarrow> (cf_sig_payer c = None \<longleftrightarrow> cf_sig_merchant c \<noteq> None)) \<and>
   confirmed_encode c \<in> {Inl MissingField, Inr (slot_bytes (confirmed_slots c))}"
proof -
  have w: "tx_refs_writable ts = Inr () \<longleftrightarrow> list_all (\<lambda>t. tr_leg t \<in> {1, 2}) ts \<and> successively tx_ref_less ts" for ts
    by (auto simp: tx_refs_writable_def list_all_iff split: if_splits)
  have "proof_ok nfc p \<Longrightarrow> list_all (\<lambda>t. tr_leg t \<in> {1, 2}) (pf_tx_refs p)"
    by (auto simp: proof_ok_def list_all_iff tx_ref_ok_def)
  then have "proof_parse nfc bs = Inr p \<longleftrightarrow> proof_ok nfc p \<and> proof_encode p = Inr bs"
    by (auto simp: proof_parse_iff proof_encode_eq w) (auto simp: proof_ok_def)
  moreover have "confirmed_parse cs = Inr c \<longleftrightarrow> confirmed_ok c \<and> confirmed_encode c = Inr cs"
    by (auto simp: confirmed_parse_iff confirmed_encode_eq) (auto simp: confirmed_ok_def)
  ultimately show ?thesis
    by (auto simp: proof_encode_eq confirmed_encode_eq w one_signer_def)
qed

text \<open>The prepay draw notice is canonical and its resume signal authentic: parsing accepts exactly the
  encodings of the well-formed notices, signed or not, with a positive payment, ascending roles and
  present rail facts; but only the merchant's signature over the notice as parsed makes it verify, and
  then it is what the encoder writes. An unsigned notice parses and never verifies.\<close>

theorem draw_notice_authentic:
  assumes "draw_parse nfc bs = Inr d"
  shows "(draw_verify_merchant cs key d = Inr () \<longleftrightarrow>
      (\<exists>sig. pd_sig_merchant d = Some sig \<and> ed25519_verify_strict cs key (draw_covered_bytes d) sig)) \<and>
    (draw_verify_merchant cs key d = Inr () \<longrightarrow> draw_encode nfc d = Inr bs) \<and>
    (pd_sig_merchant d = None \<longrightarrow> draw_verify_merchant cs key d = Inl MissingField \<and> draw_encode nfc d = Inl MissingField) \<and>
    0 < pd_amount d \<and> 0 < sum_list (map snd (pd_extinguished d)) \<and>
    successively (\<lambda>a b. fst a < fst b) (pd_extinguished d) \<and> pd_rail d \<noteq> []"
proof -
  have d: "draw_ok nfc d" "bs = slot_bytes (draw_slots d)" using assms by (simp_all add: draw_parse_iff)
  then have v: "draw_validate nfc d = Inr ()" by (simp add: draw_ok_def)
  then have "0 < pd_amount d \<and> 0 < sum_list (map snd (pd_extinguished d)) \<and>
      successively (\<lambda>a b. fst a < fst b) (pd_extinguished d) \<and> pd_rail d \<noteq> []"
    by (auto simp: draw_validate_def check_extinguished_def Let_def simp del: sum_list_eq_0_iff split: if_splits)
  then show ?thesis
    using d(2) v by (cases "pd_sig_merchant d") (auto simp: draw_verify_merchant_def draw_encode_eq verify_sig_def)
qed

definition demo_draw :: "bytes option \<Rightarrow> prepay_draw" where
  "demo_draw sig = \<lparr>pd_channel_id = replicate 8 1, pd_ckpt_ref = replicate 32 2, pd_amount = 9,
     pd_extinguished = [(0x10, 0), (0x11, 90000)], pd_claim_record = replicate 32 3, pd_rail = ascii ''v'',
     pd_tx_ref = ascii ''t1'', pd_finality = ascii ''f'', pd_sig_merchant = sig\<rparr>"

lemma demo_draw_ok: "signature_ok sig \<Longrightarrow> draw_ok (\<lambda>s. s) (demo_draw sig)"
  by (cases sig) (simp_all add: draw_ok_def demo_draw_def signature_ok_def draw_validate_def check_extinguished_def
      check_field_domain_def domain_max_def check_pairs_def validate_text_def slots_ok_def draw_slots_def
      field_ok_def type_defs eval_message)

theorem draw_notice_authentic_witness:
  "draw_parse (\<lambda>s. s) (slot_bytes (draw_slots (demo_draw None))) = Inr (demo_draw None) \<and>
   draw_verify_merchant toy_suite [1] (demo_draw None) = Inl MissingField"
proof -
  have "draw_ok (\<lambda>s. s) (demo_draw None)" by (rule demo_draw_ok) (simp add: signature_ok_def)
  then have "draw_parse (\<lambda>s. s) (slot_bytes (draw_slots (demo_draw None))) = Inr (demo_draw None)"
    by (simp add: draw_parse_iff)
  from draw_notice_authentic [OF this, of toy_suite "[1]"] this show ?thesis by (simp add: demo_draw_def)
qed

section \<open>The rate\<close>

text \<open>A rate has one spelling: every accepted rate string is positive, and two accepted strings of the
  same numeric value are the same string, so a signed conversion cannot be restated. (The value of a
  string is its digits read as one decimal number, over ten to the number of digits after the dot.)\<close>

theorem rate_spelling_unique:
  assumes "validate_rate nfc s = Inr ()" "validate_rate nfc t = Inr ()"
  shows "0 < rate_num s \<and> (rate_num s * 10 ^ rate_places t = rate_num t * 10 ^ rate_places s \<longleftrightarrow> s = t)"
proof -
  obtain i f where "rate_parts s i f" using rate_valid_parts [OF assms(1)] by blast
  moreover obtain j g where "rate_parts t j g" using rate_valid_parts [OF assms(2)] by blast
  ultimately show ?thesis using rate_parts_unique rate_positive [OF assms(1)] by blast
qed

theorem rate_spelling_unique_witness:
  "validate_rate (\<lambda>s. s) (ascii ''2.5'') = Inr () \<and> 0 < rate_num (ascii ''2.5'') \<and>
   validate_rate (\<lambda>s. s) (ascii ''2.50'') = Inl FieldDomain"
  using rate_spelling_unique [OF demo_rate demo_rate] demo_rate
  by (simp add: validate_rate_def validate_text_def ascii_def of_char_def all_digits_def is_digit_def Let_def)

end
