(* ===== verification/Props_Channel.thy ===== *)
theory Props_Channel
  imports Channel_Ledger Example_Parameters
begin

text \<open>
  The properties of the metering channel (\<^verbatim>\<open>crates/paytp-core/src/channel/state.rs\<close>), each with a
  concrete instance.
\<close>

section \<open>A concrete channel\<close>

definition demo_channel :: channel_state where
  "demo_channel = new_state toy_suite [1, 2, 3, 4, 5, 6, 7, 8] (replicate 32 0) Postpay 1000000 1000000 [(0x10, 50), (0x11, 10)]"

definition demo_slice :: "u64 \<Rightarrow> u64 \<Rightarrow> slice" where
  "demo_slice q a = \<lparr>seq = q, amt_micro = a, tag = replicate 16 0\<rparr>"

lemma demo_channel_ok: "channel_ok demo_channel"
  by (simp add: demo_channel_def new_state_ok)

lemma demo_authentic: "slice_verify toy_suite k (demo_slice q a)"
  by (simp add: slice_verify_def slice_tag_verify_def slice_tag_def toy_suite_def demo_slice_def)

lemma demo_fields [simp]:
  "st_k_session demo_channel = Some (replicate 32 0)" "st_phase demo_channel = PhOpen" "st_floor demo_channel = 0"
  "st_accounted demo_channel = []" "st_window demo_channel = []" "st_paused_window demo_channel = False"
  "st_balance demo_channel = 0" "st_unevidenced demo_channel = 0" "st_bound_upper demo_channel = 1000000"
  "st_limit_e demo_channel = 1000000" "st_cum_total demo_channel = 0"
  by (simp_all add: demo_channel_def new_state_def i128_or_max_def I128_MAX_def)

lemma demo_admissible: "0 < q \<Longrightarrow> unat a \<le> 1000000 \<Longrightarrow> admissible toy_suite (demo_slice q a) demo_channel"
proof -
  assume a: "0 < q" "unat a \<le> 1000000"
  then have "uint a \<le> 1000000" by (simp only: unat_eq_nat_uint nat_le_iff)
  then have "sat_i128 (int (unat a)) \<le> 1000000" by (simp add: sat_i128_def I128_MAX_def I128_MIN_def)
  then show ?thesis using a
    by (simp add: admissible_def demo_authentic) (simp add: demo_slice_def U128_MAX_def)
qed

lemma demo_accept:
  "0 < q \<Longrightarrow> unat a \<le> 1000000 \<Longrightarrow> accept_slice toy_suite (demo_slice q a) demo_channel = (Inr (), accepted_state (demo_slice q a) demo_channel)"
  using demo_admissible accept_slice_Inr by blast

lemma demo_evolves: "evolves toy_suite demo_channel ([] @ [demo_slice 3 200]) (accepted_state (demo_slice 3 200) demo_channel)"
  by (rule evolves.accept [OF evolves.start demo_accept]) simp_all

text \<open>Two authentic slices, presented in either order.\<close>

lemma demo_pair: "\<exists>st. accept_all toy_suite [demo_slice 3 200, demo_slice 1 100] demo_channel = (Inr (), st)"
proof -
  have "admissible toy_suite (demo_slice 3 200) demo_channel" by (rule demo_admissible) simp_all
  moreover have "admissible toy_suite (demo_slice 1 100) (accepted_state (demo_slice 3 200) demo_channel)"
    by (simp add: admissible_def demo_authentic accepted_state_def Let_def)
      (simp add: demo_slice_def sat_i128_def I128_MAX_def I128_MIN_def U128_MAX_def)
  ultimately have "all_admissible toy_suite [demo_slice 3 200, demo_slice 1 100] demo_channel"
    using admissible_next [OF accepted_ok [OF demo_channel_ok]] admissible_next [OF demo_channel_ok] accept_all_iff
    by (metis accept_all.simps(1) accepted_ok demo_channel_ok)
  then show ?thesis using accept_all_iff [OF demo_channel_ok] by blast
qed

section \<open>The invariant and the ledger\<close>

text \<open>C7. In every state a channel reaches from its creation by any sequence of accepted and rejected
  slices and batches, credits, settlement rounds, countersigned commits and lifecycle steps: the
  balance lies within its credit bounds, the unevidenced amount is the sum of the window and within the
  evidence limit, the accounted numbers are exactly the window's, strictly ascending and above the
  floor, every accrual covers the window's contribution, and the session key is dropped exactly when
  the channel is closed.\<close>

theorem channel_invariant:
  assumes "evolves cs (new_state cs cid k m limit_l limit_e vector) acc st"
  shows "st_bound_lower st \<le> st_balance st \<and> st_balance st \<le> st_bound_upper st \<and>
    st_unevidenced st = window_amounts (st_window st) \<and> st_unevidenced st \<le> st_limit_e st \<and>
    st_accounted st = map fst (st_window st) \<and> sorted_wrt (<) (st_accounted st) \<and>
    (\<forall>(q, s) \<in> set (st_window st). seq s = q \<and> st_floor st < q) \<and>
    list_all2 (\<lambda>(r, b) a. st_unevidenced st * unat b \<le> a) (st_vector st) (st_accruals st) \<and>
    (st_k_session st = None \<longleftrightarrow> st_phase st = PhClosed)"
proof -
  have "channel_ok st" using evolves_ok [OF assms new_state_ok] .
  then show ?thesis
    by (simp add: channel_ok_def bounds_ok_def counters_ok_def window_ok_def accruals_cover_def key_ok_def)
qed

theorem channel_invariant_witness:
  "st_unevidenced (accepted_state (demo_slice 3 200) demo_channel)
     = window_amounts (st_window (accepted_state (demo_slice 3 200) demo_channel))"
  using channel_invariant [OF demo_evolves [unfolded demo_channel_def]] by (simp only: demo_channel_def)

text \<open>C4. The accounting of a channel is a function of the set of slices it accepted, whatever else
  happened in between (rejections, batches, credits, rounds, commits): the cumulative total is the sum
  of their amounts (saturating at 128 bits), each role's accrual that sum times its basis points, no
  sequence number was accepted twice, and the transcript head is the hash chain over their encodings
  in sequence order.\<close>

theorem channel_ledger:
  assumes "evolves cs (new_state cs cid k m limit_l limit_e vector) acc st"
  shows "st_cum_total st = min (total_amount acc) U128_MAX \<and>
    st_accruals st = map (\<lambda>(r, b). total_amount acc * unat b) vector \<and>
    distinct (map seq acc) \<and>
    fold_window cs (- 1) st = transcript_fold cs cid (map slice_encode (sort_key seq acc))"
  by (rule new_channel_ledger [OF assms])

theorem channel_ledger_witness:
  "st_accruals (accepted_state (demo_slice 3 200) demo_channel) = [10000, 2000]"
  using channel_ledger [OF demo_evolves [unfolded demo_channel_def]]
  by (simp add: demo_channel_def demo_slice_def total_amount_def)

section \<open>Order of acceptance, batches\<close>

text \<open>C24. The order of acceptance does not matter: if a sequence of slices is accepted, every
  permutation of it is accepted too and leaves the identical state, so payer and merchant agree
  whatever the network did to the order.\<close>

theorem acceptance_order_irrelevant:
  assumes "evolves cs (new_state cs cid k m limit_l limit_e vector) acc st"
    "accept_all cs ss st = (Inr u, st')" "mset ss = mset ts"
  shows "accept_all cs ts st = (Inr u, st')"
  using accept_all_permuted [OF evolves_ok [OF assms(1) new_state_ok] assms(2,3)] .

theorem acceptance_order_irrelevant_witness:
  "\<exists>st. accept_all toy_suite [demo_slice 1 100, demo_slice 3 200] demo_channel = (Inr (), st)"
proof -
  obtain st where "accept_all toy_suite [demo_slice 3 200, demo_slice 1 100] demo_channel = (Inr (), st)"
    using demo_pair by blast
  from acceptance_order_irrelevant [OF evolves.start this [unfolded demo_channel_def], of "[demo_slice 1 100, demo_slice 3 200]"]
  show ?thesis by (auto simp: demo_channel_def)
qed

text \<open>A batch is all or nothing: it succeeds exactly when its slices one after the other would, with
  the same final state, and otherwise leaves the accounting untouched; the only trace of a failed
  batch is the pause flag of an exceeded window.\<close>

theorem batch_atomic:
  "(case accept_batch cs ss st of
      (Inr u, st') \<Rightarrow> accept_all cs ss st = (Inr u, st')
    | (Inl e, st') \<Rightarrow> (\<forall>t. accept_all cs ss st \<noteq> (Inr (), t)) \<and>
        st' = (if e = Err WindowExceeded then st\<lparr>st_paused_window := True\<rparr> else st))"
proof (cases "accept_batch cs ss st")
  case (Pair r st')
  show ?thesis
  proof (cases r)
    case (Inl e)
    with Pair show ?thesis using accept_batch_Inl [of cs ss st e st'] by auto
  next
    case (Inr u)
    with Pair show ?thesis using accept_batch_Inr [of cs ss st u st'] by simp
  qed
qed

section \<open>Checkpoints\<close>

text \<open>A merchant that kept accepting slices can still countersign: a checkpoint built by one party
  recomputes at the other after it accepted any number of newer slices, provided the limits keep the
  arithmetic below its saturation points.\<close>

theorem countersign_with_newer_slices:
  assumes "evolves cs (new_state cs cid k m limit_l limit_e vector) acc st"
    "build_checkpoint cs t p ev st = Some c" "accept_all cs newer st = (Inr u, st')"
    "\<forall>s \<in> set newer. highest st < seq s" "unsaturated st" "st_cum_total st + total_amount newer \<le> U128_MAX"
  shows "recomputes cs c st' = Some True"
  using recomputes_with_newer [OF evolves_ok [OF assms(1) new_state_ok] assms(2-6)] .

lemma demo_checkpoint: "\<exists>c. build_checkpoint toy_suite 5 (replicate 32 0) [] demo_channel = Some c"
  by (simp add: build_checkpoint_def build_checkpoint_at_def window_amounts_def checked_u128_def cast_i128_def
      checked_i128_def I128_MAX_def I128_MIN_def)
    (simp add: demo_channel_def new_state_def Let_def)

theorem countersign_with_newer_slices_witness:
  "\<exists>c. build_checkpoint toy_suite 5 (replicate 32 0) [] demo_channel = Some c \<and>
     recomputes toy_suite c (accepted_state (demo_slice 3 200) demo_channel) = Some True"
proof -
  obtain c where c: "build_checkpoint toy_suite 5 (replicate 32 0) [] demo_channel = Some c"
    using demo_checkpoint by blast
  have a: "accept_all toy_suite [demo_slice 3 200] demo_channel = (Inr (), accepted_state (demo_slice 3 200) demo_channel)"
    using demo_accept [of 3 200] by simp
  from countersign_with_newer_slices [OF evolves.start c [unfolded demo_channel_def] a [unfolded demo_channel_def]] c
  show ?thesis
    by (auto simp: demo_channel_def [symmetric] highest_def demo_slice_def unsaturated_def total_amount_def
        I128_MAX_def U128_MAX_def)
qed

text \<open>Committing a countersigned checkpoint loses nothing: the floor rises to its last sequence
  number and never falls, and every checkpoint at a later cutoff says after the commit what it would
  have said before, up to the ranges, which restart at the new floor.\<close>

theorem commit_keeps_later_checkpoints:
  assumes "evolves cs (new_state cs cid k m limit_l limit_e vector) acc st"
    "recomputes cs c st = Some True" "checkpoint_upto cs (ck_last_seq c) st = Some st'" "ck_last_seq c \<le> d"
  shows "st_floor st \<le> st_floor st' \<and> st_floor st' = ck_last_seq c \<and> st_committed_head st' = ck_transcript c \<and>
    map_option (\<lambda>x. x\<lparr>ck_ranges := []\<rparr>) (build_checkpoint_at cs d t p ev st')
      = map_option (\<lambda>x. x\<lparr>ck_ranges := []\<rparr>) (build_checkpoint_at cs d t p ev st)"
proof -
  have ok: "channel_ok st" using evolves_ok [OF assms(1) new_state_ok] .
  have "last_seq_at (ck_last_seq c) st = ck_last_seq c" using recomputes_fields(1) [OF assms(2)] by simp
  note b = build_commit [OF ok assms(3,4) this]
  have "st_floor st' = ck_last_seq c" using assms(3) by (auto simp: checkpoint_upto_Some [OF ok])
  moreover have "st_committed_head st' = ck_transcript c"
    using fold_window_commit(2) [OF ok assms(3,4)] recomputes_fields(2) [OF assms(2)] by simp
  ultimately show ?thesis using b recomputes_floor [OF ok assms(2)] by simp
qed

theorem commit_keeps_later_checkpoints_witness:
  "\<exists>c st'. recomputes toy_suite c demo_channel = Some True \<and> checkpoint_upto toy_suite (ck_last_seq c) demo_channel = Some st' \<and>
     st_floor st' = ck_last_seq c \<and> st_committed_head st' = ck_transcript c"
proof -
  obtain c where c: "build_checkpoint toy_suite 5 (replicate 32 0) [] demo_channel = Some c"
    using demo_checkpoint by blast
  have "unsaturated demo_channel" by (simp add: unsaturated_def I128_MAX_def)
  then have r: "recomputes toy_suite c demo_channel = Some True"
    using recomputes_with_newer [OF demo_channel_ok c, of "[]"] by (simp add: total_amount_def U128_MAX_def)
  have "\<exists>st'. checkpoint_upto toy_suite (ck_last_seq c) demo_channel = Some st'"
    by (simp add: checkpoint_upto_def window_amounts_def checked_u128_def)
  then obtain st' where u: "checkpoint_upto toy_suite (ck_last_seq c) demo_channel = Some st'" by blast
  from commit_keeps_later_checkpoints [OF evolves.start r [unfolded demo_channel_def] u [unfolded demo_channel_def] order_refl] r u
  show ?thesis by blast
qed

text \<open>The ranges of a checkpoint cover exactly the accounted numbers up to its cutoff, in order and
  with a gap between any two (adjacent runs are merged), which is the form the parser demands.\<close>

theorem ranges_cover_exactly:
  assumes "evolves cs (new_state cs cid k m limit_l limit_e vector) acc st"
  shows "((\<exists>r \<in> set (ranges_upto c st). range_lo r \<le> q \<and> q \<le> range_hi r) \<longleftrightarrow> q \<in> set (st_accounted st) \<and> q \<le> c) \<and>
    check_pairs ranges_apart (ranges_upto c st) = Inr () \<and>
    (\<forall>r \<in> set (ranges_upto c st). range_lo r \<le> range_hi r)"
proof -
  note s = ranges_upto_spec [OF evolves_ok [OF assms new_state_ok]]
  show ?thesis using s(1) [of c q] s(2,3) [of c] by (simp add: in_range_def check_pairs_def)
qed

theorem ranges_cover_exactly_witness:
  "ranges_upto 9 (accepted_state (demo_slice 3 200) demo_channel) = [\<lparr>range_lo = 3, range_hi = 3\<rparr>] \<and>
   check_pairs ranges_apart (ranges_upto 9 (accepted_state (demo_slice 3 200) demo_channel)) = Inr ()"
  using ranges_cover_exactly [OF demo_evolves [unfolded demo_channel_def], of 9]
  by (simp add: demo_channel_def [symmetric] ranges_upto_def accepted_state_def demo_slice_def Let_def)

section \<open>Lifecycle and replay\<close>

text \<open>The lifecycle runs one way (open, settling, closed), whatever operations are applied, and a
  channel that left the open phase accepts no slice: its accepted list stays empty from then on.\<close>

theorem lifecycle_one_way:
  assumes "evolves cs (new_state cs cid k m limit_l limit_e vector) acc st" "evolves cs st later st'"
  shows "phase_rank (st_phase st) \<le> phase_rank (st_phase st') \<and> (st_phase st \<noteq> PhOpen \<longrightarrow> later = [])"
  using evolves_phase [OF assms(2)] .

theorem lifecycle_one_way_witness:
  "phase_rank (st_phase (begin_settling demo_channel)) \<le> phase_rank (st_phase (close_channel (begin_settling demo_channel)))"
proof -
  have "evolves toy_suite demo_channel [] (begin_settling demo_channel)" by (rule evolves.settle [OF evolves.start])
  note s = this [unfolded demo_channel_def]
  have "evolves toy_suite (begin_settling demo_channel) [] (close_channel (begin_settling demo_channel))"
    by (rule evolves.close [OF evolves.start])
  note c = this [unfolded demo_channel_def]
  from lifecycle_one_way [OF s c] show ?thesis by (simp add: demo_channel_def)
qed

text \<open>No slice is charged twice and none unauthentic: a slice at or below the floor, already
  accounted, or failing its tag under the session key is rejected with the state unchanged.\<close>

theorem replay_and_forgery_rejected:
  assumes "evolves cs (new_state cs cid k m limit_l limit_e vector) acc st"
    "seq s \<le> st_floor st \<or> seq s \<in> set (st_accounted st) \<or> s \<in> set acc \<or>
     (\<forall>key. st_k_session st = Some key \<longrightarrow> \<not> slice_verify cs key s)"
  shows "\<exists>e. accept_slice cs s st = (Inl (Err e), st) \<and> e \<in> {BadMac, NotOpen, SeqInvalid}"
proof -
  let ?st0 = "new_state cs cid k m limit_l limit_e vector"
  have ok: "channel_ok st" using evolves_ok [OF assms(1) new_state_ok] .
  have "st_window ?st0 = []" by (cases m; simp add: new_state_def Let_def)
  then obtain retired where l: "ledger cs ?st0 acc retired st"
    using evolves_ledger [OF assms(1) new_state_ok] by blast
  have "seq s \<le> st_floor st \<or> seq s \<in> set (st_accounted st)" if "s \<in> set acc"
  proof -
    have "s \<in> set (retired @ map snd (st_window st))"
      using l that unfolding ledger_def by (metis set_mset_mset)
    then show ?thesis using l channel_okD(10,13) [OF ok] by (force simp: ledger_def)
  qed
  with assms(2) consider "seq s \<le> st_floor st \<or> seq s \<in> set (st_accounted st)"
    | "\<forall>key. st_k_session st = Some key \<longrightarrow> \<not> slice_verify cs key s" by blast
  then show ?thesis
  proof cases
    case 1
    then show ?thesis by (rule replay_rejected [OF ok])
  next
    case 2
    then show ?thesis by (auto simp: accept_slice_def Let_def split: option.splits)
  qed
qed

theorem replay_and_forgery_rejected_witness:
  "\<exists>e. accept_slice toy_suite (demo_slice 3 200) (accepted_state (demo_slice 3 200) demo_channel)
     = (Inl (Err e), accepted_state (demo_slice 3 200) demo_channel)"
  using replay_and_forgery_rejected [OF demo_evolves [unfolded demo_channel_def], of "demo_slice 3 200"]
  by (auto simp: demo_channel_def)

end
