(* ===== verification/Contract_Kit.thy ===== *)
theory Contract_Kit
  imports F7_Exact Derive
begin

text \<open>
  The on-chain contract kit, \<^verbatim>\<open>contracts/programs/paytp_kit/src/lib.rs\<close>: the handlers of the entry
  machine, the claim record, the split and the channel watermark. A handler takes the accounts it
  reads, the clock and its arguments, and returns the accounts it writes together with the token
  transfers and account creations it requests of the runtime (cross-program invocations), or the
  error that reverts the transaction. The SHA-256 syscall is the field of the suite; the derivation of
  program addresses (\<open>find_program_address\<close>) is the parameter \<open>pda\<close>, on the list of seeds. A public
  key is its 32 bytes.
\<close>

section \<open>Errors, requests, accounts\<close>

datatype kit_error = ZeroAmount | LapsePast | IdMismatch | BadInputs | InstanceMismatch | Terminal
  | ELapsed | Window | BadAttestation | NotDeliverable | AlreadyDistributed | WrongDestination
  | WrongEscrow | WrongMint | NotRefundable | KitArithmeticDomain | WrongVault | ChannelMismatch

text \<open>A transaction fails with an error of the kit, an account constraint of the framework (a wrong
  signer, an account that already exists), or a panic of the program.\<close>

datatype tx_error = Kit kit_error | Constraint | Abort

type_synonym 'a tx = "tx_error + 'a"
type_synonym pubkey = bytes

datatype request =
    CreateTokenAccount (rq_account: pubkey) (rq_mint: pubkey) (rq_owner: pubkey)
  | CreateDataAccount (rq_account: pubkey)
  | Transfer (rq_from: pubkey) (rq_to: pubkey) (rq_authority: pubkey) (rq_amount: u64)

definition SCHEMA_01_BP :: "u32 list" where "SCHEMA_01_BP = [50, 10, 30, 10]"
definition SCHEMA_01_BP_TOTAL :: u32 where "SCHEMA_01_BP_TOTAL = 100"
definition SPLIT_MERCHANT_BP :: u32 where "SPLIT_MERCHANT_BP = 10000 - SCHEMA_01_BP_TOTAL"
definition SPLIT_BP_TOTAL :: u32 where "SPLIT_BP_TOTAL = 10000"
definition CHANMEED_VERSION :: u8 where "CHANMEED_VERSION = 1"

datatype entry_state = Funded | Attested | Cancelled | ReclaimOpen | Reclaimed | Lapsed

record kit_instance =
  in_seed :: bytes
  in_merchant_key :: bytes
  in_dests :: "pubkey list"
  in_mint :: pubkey

record kit_entry =
  en_seed :: bytes
  en_nonce :: bytes
  en_amount :: u128
  en_t_open :: u64
  en_t_lapse :: u64
  en_contest :: u64
  en_opened_at :: u64
  en_state :: entry_state
  en_distributed :: bool
  en_refund_account :: pubkey

record claim_record =
  cl_amount :: u128
  cl_shares :: "u128 list"
  cl_residue :: u128

record channel_meed =
  cm_seed :: bytes
  cm_channel_id :: bytes
  cm_version :: u8
  cm_funded_p :: u128
  cm_paid :: "u128 list"
  cm_residue :: u128

record kit_split =
  sp_seed :: bytes
  sp_merchant_key :: bytes
  sp_merchant_net :: pubkey
  sp_dests :: "pubkey list"
  sp_mint :: pubkey
  sp_paid :: "u128 list"

section \<open>Derivations\<close>

definition derive_seed_instance :: "crypto_suite \<Rightarrow> bytes \<Rightarrow> bytes" where
  "derive_seed_instance cs canonical = sha256 cs (concat [ascii ''PayTPv1-instance'', [0x00], canonical])"

definition derive_seed_split :: "crypto_suite \<Rightarrow> bytes \<Rightarrow> bytes" where
  "derive_seed_split cs canonical = sha256 cs (concat [ascii ''PayTPv1-split'', [0x00], canonical])"

definition read_token_amount :: "bytes \<Rightarrow> u64 tx" where
  "read_token_amount data =
     (if length data < 72 then Inl (Kit BadInputs)
      else Inr (word_of_nat (be_nat (rev (take 8 (drop 64 data))))))"

definition derive_entry_id :: "crypto_suite \<Rightarrow> bytes \<Rightarrow> bytes \<Rightarrow> u128 \<Rightarrow> u64 \<Rightarrow> u64 \<Rightarrow> u64 \<Rightarrow> bytes" where
  "derive_entry_id cs seed nonce amount t_open t_lapse contest =
     sha256 cs (concat [ascii ''PayTPv1-entry'', [0x00], seed, nonce, to_be_bytes amount,
       to_be_bytes t_open, to_be_bytes t_lapse, to_be_bytes contest])"

definition derive_claim_record_id :: "crypto_suite \<Rightarrow> bytes \<Rightarrow> bytes \<Rightarrow> bytes \<Rightarrow> u128 \<Rightarrow> bytes" where
  "derive_claim_record_id cs seed channel_id ckpt_ref p =
     sha256 cs (concat [ascii ''PayTPv1-entry'', [0x00], seed, channel_id, ckpt_ref, to_be_bytes p])"

definition associated_token_account :: "(pubkey \<Rightarrow> pubkey \<Rightarrow> pubkey) \<Rightarrow> pubkey \<Rightarrow> pubkey \<Rightarrow> pubkey" where
  "associated_token_account ata owner mint = ata owner mint"

definition entry_escrow :: "(bytes list \<Rightarrow> pubkey) \<Rightarrow> bytes \<Rightarrow> pubkey" where
  "entry_escrow pda entry_id = pda [ascii ''escrow'', entry_id]"

definition entry_id_of :: "crypto_suite \<Rightarrow> kit_entry \<Rightarrow> bytes" where
  "entry_id_of cs e =
     derive_entry_id cs (en_seed e) (en_nonce e) (en_amount e) (en_t_open e) (en_t_lapse e) (en_contest e)"

section \<open>Deploying and funding\<close>

text \<open>\<open>existing\<close> is the account at the address the call creates, \<open>None\<close> while there is none: the framework checks
  its \<open>init\<close> and the seeds of the accounts before the handler runs.\<close>

definition deploy_instance :: "crypto_suite \<Rightarrow> kit_instance option \<Rightarrow> bytes \<Rightarrow> bytes \<Rightarrow> kit_instance tx" where
  "deploy_instance cs existing seed canonical =
     and_then (ensure (existing = None) Constraint) (\<lambda>_.
     and_then (ensure (derive_seed_instance cs canonical = seed) (Kit IdMismatch)) (\<lambda>_.
     and_then (ensure (34 + 128 + 32 \<le> length canonical \<and> canonical ! 0 = 0x00 \<and> canonical ! 1 = 0x20)
                 (Kit BadInputs)) (\<lambda>_.
     let mk = take 32 (drop 2 canonical);
         dests = map (\<lambda>i. take 32 (drop (34 + i * 32) canonical)) [0..<4];
         mint = take 32 (drop 162 canonical)
     in Inr \<lparr>in_seed = seed, in_merchant_key = mk, in_dests = dests, in_mint = mint\<rparr>)))"

definition fund_entry ::
  "crypto_suite \<Rightarrow> (bytes list \<Rightarrow> pubkey) \<Rightarrow> kit_entry option \<Rightarrow> kit_instance \<Rightarrow> pubkey \<Rightarrow> pubkey \<Rightarrow> pubkey \<Rightarrow> pubkey \<Rightarrow> pubkey \<Rightarrow>
   u64 \<Rightarrow> bytes \<Rightarrow> bytes \<Rightarrow> u128 \<Rightarrow> u64 \<Rightarrow> u64 \<Rightarrow> u64 \<Rightarrow> pubkey \<Rightarrow> (kit_entry \<times> request list) tx" where
  "fund_entry cs pda existing inst instance_key escrow mint funder funder_token now
     entry_id nonce amount t_open t_lapse contest refund_account =
     and_then (ensure (existing = None) Constraint) (\<lambda>_.
     and_then (ensure (escrow = entry_escrow pda entry_id) Constraint) (\<lambda>_.
     and_then (ensure (0 < amount) (Kit ZeroAmount)) (\<lambda>_.
     and_then (ensure (amount \<le> 2 ^ 64 - 1) (Kit KitArithmeticDomain)) (\<lambda>_.
     and_then (ensure (t_open \<le> t_lapse) (Kit BadInputs)) (\<lambda>_.
     and_then (ensure (mint = in_mint inst) (Kit WrongMint)) (\<lambda>_.
     and_then (ensure (now \<le> t_lapse) (Kit LapsePast)) (\<lambda>_.
     let seed = in_seed inst;
         recomputed = derive_entry_id cs seed nonce amount t_open t_lapse contest in
     and_then (ensure (recomputed = entry_id) (Kit IdMismatch)) (\<lambda>_.
     let e = \<lparr>en_seed = seed, en_nonce = nonce, en_amount = amount, en_t_open = t_open,
              en_t_lapse = t_lapse, en_contest = contest, en_opened_at = 0, en_state = Funded,
              en_distributed = False, en_refund_account = refund_account\<rparr> in
     and_then (ok_or (try_from amount) (Kit KitArithmeticDomain)) (\<lambda>deposit.
     Inr (e, [CreateTokenAccount escrow mint instance_key,
              Transfer funder_token escrow funder deposit]))))))))))"

section \<open>The entry machine\<close>

definition guard_active :: "kit_entry \<Rightarrow> u64 \<Rightarrow> unit tx" where
  "guard_active e now =
     (case en_state e of
        Funded \<Rightarrow> ensure (now \<le> en_t_lapse e) (Kit ELapsed)
      | ReclaimOpen \<Rightarrow> Inr ()
      | _ \<Rightarrow> Inl (Kit Terminal))"

text \<open>The constraints of the \<open>MerchantAction\<close> accounts: the entry belongs to the instance, and the
  instance's merchant signs.\<close>

definition merchant_action :: "kit_instance \<Rightarrow> kit_entry \<Rightarrow> pubkey \<Rightarrow> unit tx" where
  "merchant_action inst e signer =
     and_then (ensure (en_seed e = in_seed inst) (Kit InstanceMismatch)) (\<lambda>_.
     ensure (signer = in_merchant_key inst) Constraint)"

definition attest :: "kit_instance \<Rightarrow> pubkey \<Rightarrow> u64 \<Rightarrow> kit_entry \<Rightarrow> kit_entry tx" where
  "attest inst signer now e =
     and_then (merchant_action inst e signer) (\<lambda>_.
     and_then (guard_active e now) (\<lambda>_. Inr (e\<lparr>en_state := Attested\<rparr>)))"

definition attest_message :: "bytes \<Rightarrow> bytes \<Rightarrow> bytes" where
  "attest_message nonce entry_id =
     ascii ''PayTPv1-attest'' @ [0x00] @ [0x00] @ [0x20] @ nonce @ [0x01] @ [0x20] @ entry_id"

text \<open>One instruction of the transaction as the Instructions sysvar shows it.\<close>

record tx_instruction =
  ix_program :: pubkey
  ix_data :: bytes

definition u16_le :: "bytes \<Rightarrow> nat \<Rightarrow> nat" where
  "u16_le d i = unat (d ! i) + 256 * unat (d ! Suc i)"

definition ed25519_match :: "pubkey \<Rightarrow> bytes \<Rightarrow> bytes \<Rightarrow> tx_instruction \<Rightarrow> bool" where
  "ed25519_match ed25519_program mkey expected ix \<longleftrightarrow>
     ix_program ix = ed25519_program \<and>
     (let d = ix_data ix in
      \<not> (length d < 16 \<or> d ! 0 \<noteq> 1) \<and>
      (let sig_ix = u16_le d 4; pk_off = u16_le d 6; pk_ix = u16_le d 8;
           msg_off = u16_le d 10; msg_len = u16_le d 12; msg_ix = u16_le d 14 in
       \<not> (sig_ix \<noteq> 65535 \<or> pk_ix \<noteq> 65535 \<or> msg_ix \<noteq> 65535) \<and>
       \<not> (length d < pk_off + 32 \<or> length d < msg_off + msg_len) \<and>
       take 32 (drop pk_off d) = mkey \<and> take msg_len (drop msg_off d) = expected))"

fun verify_detached_ed25519 :: "pubkey \<Rightarrow> tx_instruction list \<Rightarrow> bytes \<Rightarrow> bytes \<Rightarrow> unit tx" where
  "verify_detached_ed25519 prog [] mkey expected = Inl (Kit BadAttestation)"
| "verify_detached_ed25519 prog (ix # ixs) mkey expected =
     (if ed25519_match prog mkey expected ix then Inr ()
      else verify_detached_ed25519 prog ixs mkey expected)"

definition attest_detached ::
  "crypto_suite \<Rightarrow> pubkey \<Rightarrow> tx_instruction list \<Rightarrow> kit_instance \<Rightarrow> u64 \<Rightarrow> kit_entry \<Rightarrow> kit_entry tx" where
  "attest_detached cs ed25519_program instructions inst now e =
     and_then (ensure (en_seed e = in_seed inst) (Kit InstanceMismatch)) (\<lambda>_.
     let entry_id = derive_entry_id cs (en_seed e) (en_nonce e) (en_amount e) (en_t_open e)
                      (en_t_lapse e) (en_contest e);
         expected = attest_message (en_nonce e) entry_id in
     and_then (verify_detached_ed25519 ed25519_program instructions (in_merchant_key inst) expected) (\<lambda>_.
     and_then (guard_active e now) (\<lambda>_. Inr (e\<lparr>en_state := Attested\<rparr>))))"

definition cancel :: "kit_instance \<Rightarrow> pubkey \<Rightarrow> u64 \<Rightarrow> kit_entry \<Rightarrow> kit_entry tx" where
  "cancel inst signer now e =
     and_then (merchant_action inst e signer) (\<lambda>_.
     and_then (guard_active e now) (\<lambda>_. Inr (e\<lparr>en_state := Cancelled\<rparr>)))"

definition lapse :: "u64 \<Rightarrow> kit_entry \<Rightarrow> kit_entry tx" where
  "lapse now e =
     and_then (ensure (en_state e = Funded) (Kit Terminal)) (\<lambda>_.
     and_then (ensure (en_t_lapse e < now) (Kit Window)) (\<lambda>_. Inr (e\<lparr>en_state := Lapsed\<rparr>)))"

definition open_reclaim :: "u64 \<Rightarrow> kit_entry \<Rightarrow> kit_entry tx" where
  "open_reclaim now e =
     and_then (ensure (en_state e = Funded) (Kit Terminal)) (\<lambda>_.
     and_then (ensure (en_t_open e \<le> now \<and> now \<le> en_t_lapse e) (Kit Window)) (\<lambda>_.
     Inr (e\<lparr>en_state := ReclaimOpen, en_opened_at := now\<rparr>)))"

definition execute_reclaim :: "u64 \<Rightarrow> kit_entry \<Rightarrow> kit_entry tx" where
  "execute_reclaim now e =
     and_then (ensure (en_state e = ReclaimOpen) (Kit Window)) (\<lambda>_.
     and_then (ensure (sat_add (en_opened_at e) (en_contest e) < now) (Kit Window)) (\<lambda>_.
     Inr (e\<lparr>en_state := Reclaimed\<rparr>)))"

section \<open>Division by destination\<close>

text \<open>The inner loop: the first slot before \<open>i\<close> that names the same destination, \<open>i\<close> itself if none.\<close>

definition canonical_slot :: "pubkey list \<Rightarrow> nat \<Rightarrow> nat" where
  "canonical_slot dests i =
     (case List.find (\<lambda>j. dests ! j = dests ! i) [0..<i] of Some j \<Rightarrow> j | None \<Rightarrow> i)"

fun aggregate_loop :: "pubkey list \<Rightarrow> u32 list \<Rightarrow> nat list \<Rightarrow> nat list \<Rightarrow> u32 list \<Rightarrow> (nat list \<times> u32 list) tx" where
  "aggregate_loop dests weights [] canon bp_d = Inr (canon, bp_d)"
| "aggregate_loop dests weights (i # is) canon bp_d =
     (let c = canonical_slot dests i in
      and_then (ok_or (checked_add (bp_d ! c) (weights ! i)) (Kit KitArithmeticDomain)) (\<lambda>s.
      aggregate_loop dests weights is (canon[i := c]) (bp_d[c := s])))"

definition aggregate_bp_by_dest :: "pubkey list \<Rightarrow> u32 list \<Rightarrow> (nat list \<times> u32 list) tx" where
  "aggregate_bp_by_dest dests weights =
     aggregate_loop dests weights [0..<length dests] (replicate (length dests) 0) (replicate (length dests) 0)"

text \<open>\<open>paytp_f7::claimable_d\<close> followed by the checked narrowing to \<open>u128\<close>, and to \<open>u64\<close>.\<close>

definition claim_u128 :: "u128 \<Rightarrow> u32 \<Rightarrow> u32 \<Rightarrow> u128 \<Rightarrow> u128 tx" where
  "claim_u128 v w bp_total paid =
     and_then (map_err (\<lambda>_. Abort) (claimable_d (ucast v) w bp_total (ucast paid))) (\<lambda>share.
     ok_or (try_from share) (Kit KitArithmeticDomain))"

definition claim_u64 :: "u128 \<Rightarrow> u32 \<Rightarrow> u32 \<Rightarrow> u128 \<Rightarrow> u64 tx" where
  "claim_u64 v w bp_total paid =
     and_then (claim_u128 v w bp_total paid) (\<lambda>share. ok_or (try_from share) (Kit KitArithmeticDomain))"

text \<open>The payout loop of \<open>distribute\<close> over the slots: \<open>slots\<close> pairs each aggregated weight with the
  slot's token account.\<close>

fun distribute_slots :: "pubkey \<Rightarrow> pubkey \<Rightarrow> u128 \<Rightarrow> (u32 \<times> pubkey) list \<Rightarrow> request list tx" where
  "distribute_slots escrow authority amount [] = Inr []"
| "distribute_slots escrow authority amount ((w, d) # slots) =
     (if w = 0 then distribute_slots escrow authority amount slots
      else
        and_then (claim_u64 amount w SCHEMA_01_BP_TOTAL 0) (\<lambda>share.
        if share = 0 then distribute_slots escrow authority amount slots
        else and_then (distribute_slots escrow authority amount slots) (\<lambda>rest.
          Inr (Transfer escrow d authority share # rest))))"

definition distribute ::
  "crypto_suite \<Rightarrow> (bytes list \<Rightarrow> pubkey) \<Rightarrow> kit_instance \<Rightarrow> pubkey \<Rightarrow> pubkey list \<Rightarrow> kit_entry
    \<Rightarrow> (kit_entry \<times> request list) tx" where
  "distribute cs pda inst escrow passed e =
     and_then (ensure (en_seed e = in_seed inst) (Kit InstanceMismatch)) (\<lambda>_.
     and_then (ensure (en_state e = Attested \<or> en_state e = Lapsed) (Kit NotDeliverable)) (\<lambda>_.
     and_then (ensure (\<not> en_distributed e) (Kit AlreadyDistributed)) (\<lambda>_.
     and_then (ensure (escrow = entry_escrow pda (entry_id_of cs e)) (Kit WrongEscrow)) (\<lambda>_.
     and_then (ensure (passed = in_dests inst) (Kit WrongDestination)) (\<lambda>_.
     let authority = pda [ascii ''instance'', in_seed inst] in
     and_then (aggregate_bp_by_dest (in_dests inst) SCHEMA_01_BP) (\<lambda>(canon, bp_d).
     and_then (distribute_slots escrow authority (en_amount e) (zip bp_d passed)) (\<lambda>transfers.
     Inr (e\<lparr>en_distributed := True\<rparr>, transfers))))))))"

definition refund ::
  "crypto_suite \<Rightarrow> (bytes list \<Rightarrow> pubkey) \<Rightarrow> kit_instance \<Rightarrow> pubkey \<Rightarrow> pubkey \<Rightarrow> kit_entry
    \<Rightarrow> (kit_entry \<times> request list) tx" where
  "refund cs pda inst escrow refund_dest e =
     and_then (ensure (en_seed e = in_seed inst) (Kit InstanceMismatch)) (\<lambda>_.
     and_then (ensure (en_state e = Cancelled \<or> en_state e = Reclaimed) (Kit NotRefundable)) (\<lambda>_.
     and_then (ensure (\<not> en_distributed e) (Kit AlreadyDistributed)) (\<lambda>_.
     and_then (ensure (escrow = entry_escrow pda (entry_id_of cs e)) (Kit WrongEscrow)) (\<lambda>_.
     and_then (ensure (refund_dest = en_refund_account e) (Kit WrongDestination)) (\<lambda>_.
     and_then (ok_or (try_from (en_amount e)) (Kit KitArithmeticDomain)) (\<lambda>amount.
     let authority = pda [ascii ''instance'', in_seed inst] in
     Inr (e\<lparr>en_distributed := True\<rparr>, [Transfer escrow refund_dest authority amount])))))))"

section \<open>The claim record\<close>

fun record_shares :: "u128 \<Rightarrow> u32 list \<Rightarrow> u128 \<Rightarrow> (u128 list \<times> u128) tx" where
  "record_shares p [] distributed = Inr ([], distributed)"
| "record_shares p (w # ws) distributed =
     and_then (if w = 0 then Inr 0 else claim_u128 p w SCHEMA_01_BP_TOTAL 0) (\<lambda>share.
     and_then (ok_or (checked_add distributed share) (Kit KitArithmeticDomain)) (\<lambda>distributed.
     and_then (record_shares p ws distributed) (\<lambda>(shares, total). Inr (share # shares, total))))"

definition distribute_p_into :: "pubkey list \<Rightarrow> u128 \<Rightarrow> claim_record tx" where
  "distribute_p_into dests p =
     and_then (aggregate_bp_by_dest dests SCHEMA_01_BP) (\<lambda>(canon, bp_d).
     and_then (record_shares p bp_d 0) (\<lambda>(shares, distributed).
     and_then (ok_or (checked_sub p distributed) (Kit KitArithmeticDomain)) (\<lambda>residue.
     Inr \<lparr>cl_amount = p, cl_shares = shares, cl_residue = residue\<rparr>)))"

definition fund_claim_record ::
  "crypto_suite \<Rightarrow> claim_record option \<Rightarrow> kit_instance \<Rightarrow> bytes \<Rightarrow> bytes \<Rightarrow> bytes \<Rightarrow> u128 \<Rightarrow> claim_record tx" where
  "fund_claim_record cs existing inst key channel_id ckpt_ref p =
     and_then (ensure (existing = None) Constraint) (\<lambda>_.
     and_then (ensure (0 < p) (Kit ZeroAmount)) (\<lambda>_.
     let recomputed = derive_claim_record_id cs (in_seed inst) channel_id ckpt_ref p in
     and_then (ensure (recomputed = key) (Kit IdMismatch)) (\<lambda>_.
     distribute_p_into (in_dests inst) p)))"


section \<open>The split\<close>

text \<open>\<open>existing\<close> is the account at the split's address: \<open>None\<close> while it holds no data (a prefunded
  account still does), the stored split afterwards.\<close>

definition deploy_split :: "crypto_suite \<Rightarrow> kit_split option \<Rightarrow> bytes \<Rightarrow> bytes \<Rightarrow> kit_split tx" where
  "deploy_split cs existing seed canonical =
     and_then (ensure (derive_seed_split cs canonical = seed) (Kit IdMismatch)) (\<lambda>_.
     and_then (ensure (34 + 32 + 128 + 32 \<le> length canonical \<and> canonical ! 0 = 0x00 \<and> canonical ! 1 = 0x20)
                 (Kit BadInputs)) (\<lambda>_.
     let mk = take 32 (drop 2 canonical);
         net = take 32 (drop 34 canonical);
         dests = map (\<lambda>i. take 32 (drop (66 + i * 32) canonical)) [0..<4];
         mint = take 32 (drop 194 canonical) in
     and_then (ensure (existing = None) (Kit BadInputs)) (\<lambda>_.
     Inr \<lparr>sp_seed = seed, sp_merchant_key = mk, sp_merchant_net = net, sp_dests = dests,
          sp_mint = mint, sp_paid = replicate 5 0\<rparr>)))"

text \<open>A sum of stored \<open>u128\<close> cumulatives, every addition checked.\<close>

fun checked_sum :: "u128 \<Rightarrow> u128 list \<Rightarrow> u128 tx" where
  "checked_sum acc [] = Inr acc"
| "checked_sum acc (p # ps) =
     and_then (ok_or (checked_add acc p) (Kit KitArithmeticDomain)) (\<lambda>s. checked_sum s ps)"

text \<open>The seats of a destination: the indices whose canonical slot is \<open>m\<close>.\<close>

definition seats_of :: "nat list \<Rightarrow> nat \<Rightarrow> nat list" where
  "seats_of canon m = filter (\<lambda>j. canon ! j = m) [0..<length canon]"

definition split_claim ::
  "(bytes list \<Rightarrow> pubkey) \<Rightarrow> (pubkey \<Rightarrow> pubkey \<Rightarrow> pubkey) \<Rightarrow> pubkey \<Rightarrow> pubkey \<Rightarrow> bytes \<Rightarrow> pubkey \<Rightarrow> u8
    \<Rightarrow> kit_split \<Rightarrow> (kit_split \<times> request list) tx" where
  "split_claim pda ata split_key vault vault_data dest_key seat sp =
     and_then (ensure (unat seat < 5) (Kit BadInputs)) (\<lambda>_.
     and_then (aggregate_bp_by_dest (sp_dests sp) SCHEMA_01_BP) (\<lambda>(canon, bp_d).
     let m = unat seat - 1;
         (w, want_dest, folded) =
           (if seat = 0 then (SPLIT_MERCHANT_BP, sp_merchant_net sp, False)
            else (bp_d ! m, sp_dests sp ! m, canon ! m \<noteq> m)) in
     and_then (ensure (vault = associated_token_account ata split_key (sp_mint sp)) (Kit WrongVault)) (\<lambda>_.
     and_then (ensure (dest_key = want_dest) (Kit WrongDestination)) (\<lambda>_.
     if folded then Inr (sp, [])
     else
       and_then (read_token_amount vault_data) (\<lambda>balance.
       and_then (checked_sum 0 (sp_paid sp)) (\<lambda>sum_paid.
       and_then (ok_or (checked_add (ucast balance) sum_paid) (Kit KitArithmeticDomain)) (\<lambda>total_received.
       and_then (if seat = 0 then Inr (sp_paid sp ! 0)
                 else checked_sum 0 (map (\<lambda>j. sp_paid sp ! (j + 1)) (seats_of canon m))) (\<lambda>paid_dest.
       and_then (claim_u64 total_received w SPLIT_BP_TOTAL paid_dest) (\<lambda>owed.
       if owed = 0 then Inr (sp, [])
       else
         and_then (ok_or (checked_add paid_dest (ucast owed)) (Kit KitArithmeticDomain)) (\<lambda>new_paid.
         let folded_paid =
               (if seat = 0 then sp_paid sp
                else fold (\<lambda>j ps. if j \<noteq> m then ps[j + 1 := 0] else ps) (seats_of canon m) (sp_paid sp)) in
         Inr (sp\<lparr>sp_paid := folded_paid[unat seat := new_paid]\<rparr>,
              [Transfer vault dest_key (pda [ascii ''split'', sp_seed sp]) owed])))))))))))"

section \<open>The channel watermark\<close>

text \<open>\<open>new_paid\<close> of the loop over the slots, and the running sum \<open>distributed\<close>, are \<open>record_shares\<close>:
  a slot of weight zero records zero and adds nothing. The stored cumulatives are regrouped by
  destination before the comparison.\<close>

fun regroup :: "nat list \<Rightarrow> u128 list \<Rightarrow> nat list \<Rightarrow> u128 list \<Rightarrow> u128 list tx" where
  "regroup canon paid [] acc = Inr acc"
| "regroup canon paid (i # is) acc =
     (let c = canon ! i in
      and_then (ok_or (checked_add (acc ! c) (paid ! i)) (Kit KitArithmeticDomain)) (\<lambda>s.
      regroup canon paid is (acc[c := s])))"

text \<open>The account at the watermark's address is \<open>None\<close> while it holds no data; the result is the
  account afterwards and the creation requested of the runtime.\<close>

definition advance_channel_meed ::
  "(bytes list \<Rightarrow> pubkey) \<Rightarrow> kit_instance \<Rightarrow> bytes \<Rightarrow> u128 \<Rightarrow> channel_meed option
    \<Rightarrow> (channel_meed option \<times> request list) tx" where
  "advance_channel_meed pda inst channel_id target_p account =
     (if account = None \<and> target_p = 0 then Inr (None, [])
      else
        let (cr, created) =
              (case account of
                 None \<Rightarrow> (\<lparr>cm_seed = in_seed inst, cm_channel_id = channel_id, cm_version = CHANMEED_VERSION,
                           cm_funded_p = 0, cm_paid = replicate 4 0, cm_residue = 0\<rparr>,
                          [CreateDataAccount (pda [ascii ''chanmeed'', in_seed inst, channel_id])])
               | Some cr \<Rightarrow> (cr, [])) in
        and_then (ensure (cm_seed cr = in_seed inst) (Kit InstanceMismatch)) (\<lambda>_.
        and_then (ensure (cm_channel_id cr = channel_id) (Kit ChannelMismatch)) (\<lambda>_.
        if target_p \<le> cm_funded_p cr then Inr (account, [])
        else
          and_then (aggregate_bp_by_dest (in_dests inst) SCHEMA_01_BP) (\<lambda>(canon, bp_d).
          and_then (record_shares target_p bp_d 0) (\<lambda>(new_paid, distributed).
          and_then (regroup canon (cm_paid cr) [0..<length canon] (replicate 4 0)) (\<lambda>old_by_dest.
          and_then (ensure (list_all2 (\<le>) old_by_dest new_paid) (Kit KitArithmeticDomain)) (\<lambda>_.
          and_then (ok_or (checked_sub target_p distributed) (Kit KitArithmeticDomain)) (\<lambda>residue.
          Inr (Some (cr\<lparr>cm_paid := new_paid, cm_residue := residue, cm_funded_p := target_p\<rparr>),
               created)))))))))"

end
