(* ===== verification/Contract_Division.thy ===== *)
theory Contract_Division
  imports Contract_Kit
begin

text \<open>
  The division among destinations that every payout of the contract kit shares: roles naming one
  destination are aggregated onto their first slot, and a destination is floored once on the combined
  weight. The functions of \<^verbatim>\<open>Contract_Kit\<close> are related to sums and floors of natural numbers.
\<close>

section \<open>The canonical slot of a destination\<close>

lemma canonical_slot_cases:
  obtains (first) "canonical_slot ds i = i" "\<forall>j < i. ds ! j \<noteq> ds ! i"
  | (earlier) "canonical_slot ds i < i" "ds ! canonical_slot ds i = ds ! i"
      "\<forall>j < canonical_slot ds i. ds ! j \<noteq> ds ! i"
proof (cases "List.find (\<lambda>j. ds ! j = ds ! i) [0..<i]")
  case None
  then have "\<forall>j < i. ds ! j \<noteq> ds ! i" by (auto simp: find_None_iff)
  moreover have "canonical_slot ds i = i" using None by (simp add: canonical_slot_def)
  ultimately show ?thesis using first by blast
next
  case (Some j)
  then obtain k where "k < i" "j = [0..<i] ! k" "ds ! j = ds ! i" "\<forall>l < k. ds ! ([0..<i] ! l) \<noteq> ds ! i"
    by (auto simp: find_Some_iff)
  then show ?thesis using earlier Some by (auto simp: canonical_slot_def)
qed

lemma canonical_slot_le: "canonical_slot ds i \<le> i"
  by (cases rule: canonical_slot_cases [of ds i]) auto

lemma canonical_slot_dest [simp]: "ds ! canonical_slot ds i = ds ! i"
  by (cases rule: canonical_slot_cases [of ds i]) auto

lemma canonical_slot_eq_iff: "canonical_slot ds i = canonical_slot ds j \<longleftrightarrow> ds ! i = ds ! j"
proof
  assume "canonical_slot ds i = canonical_slot ds j"
  then show "ds ! i = ds ! j" by (metis canonical_slot_dest)
next
  have first: "\<not> canonical_slot ds i < canonical_slot ds j" if "ds ! i = ds ! j" for i j
    using that by (cases rule: canonical_slot_cases [of ds j]) (metis canonical_slot_dest)+
  assume "ds ! i = ds ! j"
  then show "canonical_slot ds i = canonical_slot ds j" using first [of i j] first [of j i] by simp
qed

lemma canonical_slot_idem [simp]: "canonical_slot ds (canonical_slot ds i) = canonical_slot ds i"
  by (simp add: canonical_slot_eq_iff)

section \<open>Aggregation\<close>

text \<open>The reference: the slot of a destination carries the sum of the weights of the roles naming it.\<close>

definition dest_weight :: "pubkey list \<Rightarrow> u32 list \<Rightarrow> pubkey \<Rightarrow> nat" where
  "dest_weight ds ws d = sum_list (map (\<lambda>i. if ds ! i = d then unat (ws ! i) else 0) [0..<length ds])"

definition slot_weights :: "pubkey list \<Rightarrow> u32 list \<Rightarrow> nat list" where
  "slot_weights ds ws =
     map (\<lambda>c. if canonical_slot ds c = c then dest_weight ds ws (ds ! c) else 0) [0..<length ds]"

definition slot_sum :: "pubkey list \<Rightarrow> u32 list \<Rightarrow> nat list \<Rightarrow> nat \<Rightarrow> nat" where
  "slot_sum ds ws is c = sum_list (map (\<lambda>i. if canonical_slot ds i = c then unat (ws ! i) else 0) is)"

lemma slot_sum_simps [simp]:
  "slot_sum ds ws [] c = 0"
  "slot_sum ds ws (i # is) c = (if canonical_slot ds i = c then unat (ws ! i) else 0) + slot_sum ds ws is c"
  by (simp_all add: slot_sum_def)

lemma slot_sum_le: "slot_sum ds ws is c \<le> sum_list (map (\<lambda>i. unat (ws ! i)) is)"
  by (induction "is") auto

lemma aggregate_loop_spec:
  assumes "\<forall>i \<in> set is. i < length bp_d \<and> i < length canon"
    "\<forall>c < length bp_d. unat (bp_d ! c) + slot_sum ds ws is c < 2 ^ 32"
  shows "\<exists>canon' bp'. aggregate_loop ds ws is canon bp_d = Inr (canon', bp')
    \<and> length canon' = length canon \<and> length bp' = length bp_d
    \<and> (\<forall>c < length bp_d. unat (bp' ! c) = unat (bp_d ! c) + slot_sum ds ws is c)
    \<and> (\<forall>j < length canon. canon' ! j = (if j \<in> set is then canonical_slot ds j else canon ! j))"
  using assms
proof (induction "is" arbitrary: canon bp_d)
  case (Cons i "is")
  let ?c = "canonical_slot ds i"
  have c: "?c < length bp_d" using Cons.prems(1) canonical_slot_le [of ds i] by auto
  have fit: "unat (bp_d ! ?c) + unat (ws ! i) < 2 ^ LENGTH(32)"
    using Cons.prems(2) c by auto
  then obtain s where s: "checked_add (bp_d ! ?c) (ws ! i) = Some s" "unat s = unat (bp_d ! ?c) + unat (ws ! i)"
    by (cases "checked_add (bp_d ! ?c) (ws ! i)") (auto simp: unat_ops)
  have new: "unat (bp_d[?c := s] ! k) = unat (bp_d ! k) + (if ?c = k then unat (ws ! i) else 0)"
    if "k < length bp_d" for k using that s(2) by (simp add: nth_list_update)
  have pre: "\<forall>i \<in> set is. i < length (bp_d[?c := s]) \<and> i < length (canon[i := ?c])"
    "\<forall>k < length (bp_d[?c := s]). unat (bp_d[?c := s] ! k) + slot_sum ds ws is k < 2 ^ 32"
    using Cons.prems new by (simp_all add: add.assoc)
  from Cons.IH [of "bp_d[?c := s]" "canon[i := ?c]"] pre obtain canon' bp'
    where r: "aggregate_loop ds ws is (canon[i := ?c]) (bp_d[?c := s]) = Inr (canon', bp')"
      "length canon' = length canon" "length bp' = length bp_d"
      "\<forall>k < length bp_d. unat (bp' ! k) = unat (bp_d[?c := s] ! k) + slot_sum ds ws is k"
      "\<forall>j < length canon. canon' ! j = (if j \<in> set is then canonical_slot ds j else canon[i := ?c] ! j)"
    by auto
  have "aggregate_loop ds ws (i # is) canon bp_d = Inr (canon', bp')"
    using s(1) r(1) by (simp add: Let_def)
  moreover have "\<forall>j < length canon. canon' ! j = (if j \<in> set (i # is) then canonical_slot ds j else canon ! j)"
    using r(5) by (auto simp: nth_list_update)
  ultimately show ?case using r(2,3,4) new by auto
qed auto

lemma slot_sum_dest:
  "slot_sum ds ws [0..<length ds] c = (if canonical_slot ds c = c then dest_weight ds ws (ds ! c) else 0)"
proof (cases "canonical_slot ds c = c")
  case True
  then have "canonical_slot ds i = c \<longleftrightarrow> ds ! i = ds ! c" for i
    by (metis canonical_slot_eq_iff)
  with True show ?thesis by (simp add: slot_sum_def dest_weight_def)
next
  case False
  then have "canonical_slot ds i \<noteq> c" for i by (metis canonical_slot_idem)
  with False show ?thesis by (simp add: slot_sum_def)
qed

lemma aggregate_exact:
  assumes "length ws = length ds" "sum_list (map unat ws) < 2 ^ 32"
  shows "\<exists>bp_d. aggregate_bp_by_dest ds ws = Inr (map (canonical_slot ds) [0..<length ds], bp_d)
    \<and> map unat bp_d = slot_weights ds ws"
proof -
  let ?n = "length ds"
  have ws: "map (\<lambda>i. unat (ws ! i)) [0..<?n] = map unat ws"
    by (rule nth_equalityI) (simp_all add: assms(1))
  have "slot_sum ds ws [0..<?n] c < 2 ^ 32" for c
    using slot_sum_le [of ds ws "[0..<?n]" c] assms(2) unfolding ws by linarith
  then obtain canon bp_d where r: "aggregate_bp_by_dest ds ws = Inr (canon, bp_d)"
      "length canon = ?n" "length bp_d = ?n"
      "\<forall>c < ?n. unat (bp_d ! c) = slot_sum ds ws [0..<?n] c" "\<forall>j < ?n. canon ! j = canonical_slot ds j"
    using aggregate_loop_spec [of "[0..<?n]" "replicate ?n 0" "replicate ?n 0" ds ws]
    by (auto simp: aggregate_bp_by_dest_def)
  have "canon = map (canonical_slot ds) [0..<?n]"
    using r(2,5) by (intro nth_equalityI) auto
  moreover have "map unat bp_d = slot_weights ds ws"
    using r(3,4) by (intro nth_equalityI) (auto simp: slot_weights_def slot_sum_dest)
  ultimately show ?thesis using r(1) by blast
qed

lemma slot_sum_total:
  "\<forall>i \<in> set is. i < n \<Longrightarrow>
   sum_list (map (slot_sum ds ws is) [0..<n]) = sum_list (map (\<lambda>i. unat (ws ! i)) is)"
proof (induction "is")
  case Nil
  then show ?case by (simp add: sum_list_0)
next
  case (Cons i "is")
  have one: "sum_list (map (\<lambda>c. if k = c then v else 0) [0..<n]) = (if k < n then v else 0)" for k v :: nat
    by (induction n) auto
  have k: "canonical_slot ds i < n" using Cons.prems canonical_slot_le [of ds i] by auto
  then show ?case using Cons one by (simp add: sum_list_addf)
qed

lemma slot_weights_total:
  "length ws = length ds \<Longrightarrow> sum_list (slot_weights ds ws) = sum_list (map unat ws)"
proof -
  assume len: "length ws = length ds"
  let ?n = "length ds"
  have "slot_weights ds ws = map (slot_sum ds ws [0..<?n]) [0..<?n]"
    by (simp add: slot_weights_def slot_sum_dest)
  moreover have "map (\<lambda>i. unat (ws ! i)) [0..<?n] = map unat ws"
    by (rule nth_equalityI) (simp_all add: len)
  moreover have "sum_list (map (slot_sum ds ws [0..<?n]) [0..<?n]) = sum_list (map (\<lambda>i. unat (ws ! i)) [0..<?n])"
    by (rule slot_sum_total) simp
  ultimately show ?thesis by simp
qed

lemma schema_total: "sum_list (map unat SCHEMA_01_BP) = 100" "length SCHEMA_01_BP = 4"
  by (simp_all add: SCHEMA_01_BP_def)

lemmas bp_totals = SCHEMA_01_BP_TOTAL_def SPLIT_BP_TOTAL_def SPLIT_MERCHANT_BP_def

text \<open>The four schema weights over four destinations.\<close>

lemma schema_aggregate:
  assumes "length ds = 4"
  obtains bp_d where "aggregate_bp_by_dest ds SCHEMA_01_BP = Inr (map (canonical_slot ds) [0..<4], bp_d)"
    "map unat bp_d = slot_weights ds SCHEMA_01_BP" "sum_list (map unat bp_d) = 100" "length bp_d = 4"
proof -
  obtain bp_d where b: "aggregate_bp_by_dest ds SCHEMA_01_BP = Inr (map (canonical_slot ds) [0..<4], bp_d)"
      "map unat bp_d = slot_weights ds SCHEMA_01_BP"
    using aggregate_exact [of SCHEMA_01_BP ds] by (auto simp: schema_total assms)
  moreover have "length bp_d = 4"
    using arg_cong [OF b(2), of length] by (simp add: slot_weights_def assms)
  moreover have "sum_list (map unat bp_d) = 100"
    using slot_weights_total [of SCHEMA_01_BP ds] by (simp only: b(2) assms schema_total)
  ultimately show thesis using that by blast
qed

section \<open>A destination's share\<close>

lemma claim_u128_exact:
  assumes "w \<le> tot" "0 < tot"
  shows "\<exists>c. claim_u128 v w tot paid = Inr c \<and> unat c = unat v * unat w div unat tot - unat paid"
proof -
  have u: "unat (ucast x :: u256) = unat x" for x :: u128
    using unat_lt2p [of x] by (simp add: unat_ucast_small)
  have nz: "\<not> (tot = 0 \<or> tot < w)" using assms by auto
  obtain c where c: "claimable_d (ucast v) w tot (ucast paid) = Inr c"
      "unat c = unat v * unat w div unat tot - unat paid"
    using claimable_d_exact [of "ucast v" w tot "ucast paid"] nz by (auto simp: u)
  have "unat v * unat w div unat tot \<le> unat v"
    using floor_share_le [of "unat w" "unat tot" "unat v"] assms(1) by (simp add: word_le_nat_alt mult.commute)
  then have "unat c < 2 ^ LENGTH(128)" using c(2) unat_lt2p [of v] by linarith
  then obtain d where "(try_from c :: u128 option) = Some d" "unat d = unat c"
    by (cases "try_from c :: u128 option") (auto simp: unat_ops)
  then show ?thesis using c by (auto simp: claim_u128_def)
qed

lemma claim_u64_exact:
  assumes "w \<le> tot" "0 < tot"
  shows "case claim_u64 v w tot paid of
      Inr c \<Rightarrow> unat c = unat v * unat w div unat tot - unat paid
    | Inl f \<Rightarrow> f = Kit KitArithmeticDomain \<and> 2 ^ 64 \<le> unat v * unat w div unat tot - unat paid"
proof -
  obtain c where c: "claim_u128 v w tot paid = Inr c" "unat c = unat v * unat w div unat tot - unat paid"
    using claim_u128_exact [OF assms] by blast
  show ?thesis
  proof (cases "try_from c :: u64 option")
    case None
    then have "claim_u64 v w tot paid = Inl (Kit KitArithmeticDomain)"
      using c(1) by (simp add: claim_u64_def)
    then show ?thesis using None c(2) by (simp add: unat_ops)
  next
    case (Some d)
    then have "claim_u64 v w tot paid = Inr d"
      using c(1) by (simp add: claim_u64_def)
    then show ?thesis using Some c(2) by (simp add: unat_ops)
  qed
qed


section \<open>Division among the destinations\<close>

text \<open>The floor of a destination's combined weight, for every slot, and for a destination.\<close>

abbreviation share :: "nat \<Rightarrow> nat \<Rightarrow> nat \<Rightarrow> nat" where "share tot v w \<equiv> v * w div tot"

lemma sum_shares_le: "sum_list ws \<le> tot \<Longrightarrow> 0 < tot \<Longrightarrow> sum_list (map (share tot v) ws) \<le> v"
proof -
  assume w: "sum_list ws \<le> tot" "0 < tot"
  have "sum_list (map (share tot v) ws) * tot \<le> v * sum_list ws" by (rule sum_floor_le)
  also have "\<dots> \<le> v * tot" using w(1) by simp
  finally show ?thesis using w(2) by simp
qed

text \<open>The dust is less than one unit per destination.\<close>

lemma floor_dust: "x + 1 \<le> 100 * (x div 100 + 1)" for x :: nat
proof -
  have "x = x div 100 * 100 + x mod 100" by (rule div_mult_mod_eq [symmetric])
  moreover have "x mod 100 < 100" by simp
  ultimately show ?thesis unfolding distrib_left by linarith
qed

lemma dust_step:
  "a + 1 \<le> 100 * (s + 1) \<Longrightarrow> b + l \<le> 100 * (t + l) \<Longrightarrow> (a + b) + Suc l \<le> 100 * ((s + t) + Suc l)" for a b s t l :: nat
  by (simp add: distrib_left)

lemma sum_floor_dust:
  "v * sum_list ws + length ws \<le> 100 * (sum_list (map (share 100 v) ws) + length ws)"
proof (induction ws)
  case (Cons w ws)
  from dust_step [OF floor_dust [of "v * w"] Cons.IH] show ?case
    by (simp only: list.map sum_list.Cons list.size distrib_left add_0_right add_Suc_right)
qed simp

lemma dest_weight_absent: "d \<notin> set ds \<Longrightarrow> dest_weight ds ws d = 0"
proof -
  assume "d \<notin> set ds"
  then have "map (\<lambda>i. if ds ! i = d then unat (ws ! i) else 0) [0..<length ds] = map (\<lambda>i. 0) [0..<length ds]"
    by (intro map_cong) (auto simp: in_set_conv_nth)
  then show ?thesis by (simp add: dest_weight_def)
qed

lemma sum_single: "k < n \<Longrightarrow> \<forall>i < n. i \<noteq> k \<longrightarrow> f i = (0 :: nat) \<Longrightarrow> sum_list (map f [0..<n]) = f k"
proof (induction n)
  case (Suc n)
  show ?case
  proof (cases "k = n")
    case True
    then have "map f [0..<n] = map (\<lambda>i. 0) [0..<n]" using Suc.prems by (intro map_cong) auto
    then show ?thesis using True by simp
  qed (use Suc in auto)
qed simp

lemma slot_share_sum:
  assumes "f 0 = (0 :: nat)"
  shows "sum_list (map (\<lambda>c. if ds ! c = d then f (slot_weights ds ws ! c) else 0) [0..<length ds])
    = f (dest_weight ds ws d)"
proof (cases "d \<in> set ds")
  case False
  then have "map (\<lambda>c. if ds ! c = d then f (slot_weights ds ws ! c) else 0) [0..<length ds] = map (\<lambda>c. 0) [0..<length ds]"
    by (intro map_cong) (auto simp: in_set_conv_nth)
  then show ?thesis using False by (simp add: dest_weight_absent assms)
next
  case True
  then obtain i where i: "i < length ds" "ds ! i = d" by (auto simp: in_set_conv_nth)
  let ?k = "canonical_slot ds i"
  have k: "?k < length ds" using i canonical_slot_le [of ds i] by simp
  have other: "\<forall>c < length ds. c \<noteq> ?k \<longrightarrow> (if ds ! c = d then f (slot_weights ds ws ! c) else 0) = 0"
  proof (intro allI impI)
    fix c assume c: "c < length ds" "c \<noteq> ?k"
    show "(if ds ! c = d then f (slot_weights ds ws ! c) else 0) = 0"
    proof (cases "ds ! c = d")
      case True
      then have "canonical_slot ds c = ?k" using i by (simp add: canonical_slot_eq_iff)
      then show ?thesis using c assms by (simp add: slot_weights_def)
    qed simp
  qed
  show ?thesis
    using sum_single [OF k other] k i(2) by (simp add: slot_weights_def)
qed

text \<open>Token movements requested of the runtime.\<close>

fun moved :: "pubkey \<Rightarrow> request \<Rightarrow> nat" where
  "moved d (Transfer f t a n) = (if t = d then unat n else 0)"
| "moved d _ = 0"

fun moved_any :: "request \<Rightarrow> nat" where
  "moved_any (Transfer f t a n) = unat n"
| "moved_any _ = 0"

definition sent_to :: "pubkey \<Rightarrow> request list \<Rightarrow> nat" where
  "sent_to d rs = sum_list (map (moved d) rs)"

definition sent :: "request list \<Rightarrow> nat" where
  "sent rs = sum_list (map moved_any rs)"

definition from_escrow :: "pubkey \<Rightarrow> pubkey \<Rightarrow> request \<Rightarrow> bool" where
  "from_escrow esc auth r \<longleftrightarrow> (\<exists>t n. r = Transfer esc t auth n \<and> n \<noteq> 0)"

lemma sent_simps [simp]:
  "sent [] = 0" "sent (r # rs) = moved_any r + sent rs" "sent (rs @ rs') = sent rs + sent rs'"
  "sent_to d [] = 0" "sent_to d (r # rs) = moved d r + sent_to d rs"
  "sent_to d (rs @ rs') = sent_to d rs + sent_to d rs'"
  by (simp_all add: sent_def sent_to_def)

lemma distribute_slots_exact:
  assumes "\<forall>(w, d) \<in> set slots. unat w \<le> 100" "unat amt < 2 ^ 64"
  shows "\<exists>ts. distribute_slots esc auth amt slots = Inr ts
    \<and> (\<forall>d. sent_to d ts = sum_list (map (\<lambda>(w, d'). if d' = d then share 100 (unat amt) (unat w) else 0) slots))
    \<and> sent ts = sum_list (map (\<lambda>(w, d'). share 100 (unat amt) (unat w)) slots)
    \<and> list_all (from_escrow esc auth) ts"
  using assms(1)
proof (induction slots)
  case (Cons wd slots)
  obtain w d where wd: "wd = (w, d)" by (cases wd)
  obtain ts where ts: "distribute_slots esc auth amt slots = Inr ts"
    "\<forall>d. sent_to d ts = sum_list (map (\<lambda>(w, d'). if d' = d then share 100 (unat amt) (unat w) else 0) slots)"
    "sent ts = sum_list (map (\<lambda>(w, d'). share 100 (unat amt) (unat w)) slots)"
    "list_all (from_escrow esc auth) ts"
    using Cons by auto
  have w: "w \<le> SCHEMA_01_BP_TOTAL" "unat w \<le> 100" "0 < SCHEMA_01_BP_TOTAL"
    using Cons.prems wd by (auto simp: word_le_nat_alt bp_totals)
  have "share 100 (unat amt) (unat w) \<le> unat amt"
    using floor_share_le [of "unat w" 100 "unat amt"] w(2) by (simp add: mult.commute)
  then have small: "share 100 (unat amt) (unat w) < 2 ^ 64" using assms(2) by linarith
  obtain c where c: "claim_u64 amt w SCHEMA_01_BP_TOTAL 0 = Inr c" "unat c = share 100 (unat amt) (unat w)"
    using claim_u64_exact [OF w(1,3), of amt 0] small
    by (cases "claim_u64 amt w SCHEMA_01_BP_TOTAL 0") (auto simp: bp_totals)
  have zero: "share 100 (unat amt) (unat w) = 0" if "w = 0 \<or> c = 0" using that c(2) by auto
  show ?case
  proof (cases "w = 0 \<or> c = 0")
    case True
    then have "distribute_slots esc auth amt (wd # slots) = Inr ts"
      using ts(1) c(1) by (auto simp: wd)
    then show ?thesis using ts zero [OF True] by (simp add: wd)
  next
    case False
    then have "distribute_slots esc auth amt (wd # slots) = Inr (Transfer esc d auth c # ts)"
      using ts(1) c(1) by (auto simp: wd)
    moreover have "sent_to d' (Transfer esc d auth c # ts)
        = sum_list (map (\<lambda>(w, e). if e = d' then share 100 (unat amt) (unat w) else 0) (wd # slots))" for d'
      using ts(2) c(2) by (simp add: wd)
    moreover have "sent (Transfer esc d auth c # ts)
        = sum_list (map (\<lambda>(w, e). share 100 (unat amt) (unat w)) (wd # slots))"
      using ts(3) c(2) by (simp add: wd)
    moreover have "list_all (from_escrow esc auth) (Transfer esc d auth c # ts)"
      using ts(4) False by (simp add: from_escrow_def)
    ultimately show ?thesis by blast
  qed
qed simp

lemma record_shares_exact:
  assumes "\<forall>w \<in> set ws. unat w \<le> 100" "unat acc + sum_list (map (share 100 (unat p)) (map unat ws)) < 2 ^ 128"
  shows "\<exists>shares tot. record_shares p ws acc = Inr (shares, tot)
    \<and> map unat shares = map (share 100 (unat p)) (map unat ws)
    \<and> unat tot = unat acc + sum_list (map (share 100 (unat p)) (map unat ws))"
  using assms
proof (induction ws arbitrary: acc)
  case (Cons w ws)
  have w: "w \<le> SCHEMA_01_BP_TOTAL" "0 < SCHEMA_01_BP_TOTAL"
    using Cons.prems(1) by (auto simp: word_le_nat_alt bp_totals)
  obtain c where c: "(if w = 0 then Inr 0 else claim_u128 p w SCHEMA_01_BP_TOTAL 0) = Inr c"
      "unat c = share 100 (unat p) (unat w)"
    using claim_u128_exact [OF w, of p 0] by (cases "w = 0") (auto simp: bp_totals)
  have "unat acc + unat c < 2 ^ LENGTH(128)" using Cons.prems(2) c(2) by simp
  then obtain s where s: "checked_add acc c = Some s" "unat s = unat acc + unat c"
    by (cases "checked_add acc c") (auto simp: unat_ops)
  obtain shares tot where r: "record_shares p ws s = Inr (shares, tot)"
    "map unat shares = map (share 100 (unat p)) (map unat ws)"
    "unat tot = unat s + sum_list (map (share 100 (unat p)) (map unat ws))"
    using Cons.IH [of s] Cons.prems c(2) s(2) by auto
  have "record_shares p (w # ws) acc = Inr (c # shares, tot)"
    using c(1) s(1) r(1) by simp
  then show ?case using r(2,3) c(2) s(2) by auto
qed simp

end
