(* ===== verification/Contract_Entry.thy ===== *)
theory Contract_Entry
  imports Contract_Division
begin

text \<open>
  The entry machine of the contract kit as a step relation over its handlers: the exact effect of the
  two payout handlers, the invariant of an entry with its log of transfers, the finality of its
  decision, and the exits open to anyone.
\<close>

section \<open>The payout handlers\<close>

definition instance_ok :: "kit_instance \<Rightarrow> bool" where
  "instance_ok inst \<longleftrightarrow> length (in_dests inst) = 4"

definition dest_share :: "kit_instance \<Rightarrow> nat \<Rightarrow> pubkey \<Rightarrow> nat" where
  "dest_share inst v d = share 100 v (dest_weight (in_dests inst) SCHEMA_01_BP d)"

lemma deploy_instance_ok: "deploy_instance cs existing seed canonical = Inr inst \<Longrightarrow> instance_ok inst"
  by (auto simp: deploy_instance_def instance_ok_def Let_def)

definition may_distribute :: "crypto_suite \<Rightarrow> (bytes list \<Rightarrow> pubkey) \<Rightarrow> kit_instance \<Rightarrow> pubkey \<Rightarrow> pubkey list \<Rightarrow> kit_entry \<Rightarrow> bool" where
  "may_distribute cs pda inst escrow passed e \<longleftrightarrow> en_seed e = in_seed inst \<and>
     (en_state e = Attested \<or> en_state e = Lapsed) \<and> \<not> en_distributed e \<and>
     escrow = entry_escrow pda (entry_id_of cs e) \<and> passed = in_dests inst"

lemma slots_sum_zip:
  "length bp_d = n \<Longrightarrow> length ds = n \<Longrightarrow>
   sum_list (map (\<lambda>(w, d'). g w d') (zip bp_d ds)) = sum_list (map (\<lambda>c. g (bp_d ! c) (ds ! c)) [0..<n])" for g :: "'a \<Rightarrow> 'b \<Rightarrow> nat"
  by (rule arg_cong [where f = sum_list]) (auto intro!: nth_equalityI)

lemma distribute_exact:
  assumes "instance_ok inst" "unat (en_amount e) < 2 ^ 64" "may_distribute cs pda inst escrow passed e"
  shows "\<exists>ts. distribute cs pda inst escrow passed e = Inr (e\<lparr>en_distributed := True\<rparr>, ts)
    \<and> (\<forall>d. sent_to d ts = dest_share inst (unat (en_amount e)) d)
    \<and> sent ts \<le> unat (en_amount e) \<and> unat (en_amount e) \<le> sent ts + 3
    \<and> list_all (from_escrow escrow (pda [ascii ''instance'', in_seed inst])) ts"
proof -
  let ?ds = "in_dests inst" and ?v = "unat (en_amount e)"
  have len: "length ?ds = 4" using assms(1) by (simp add: instance_ok_def)
  obtain bp_d where b: "aggregate_bp_by_dest ?ds SCHEMA_01_BP = Inr (map (canonical_slot ?ds) [0..<4], bp_d)"
      "map unat bp_d = slot_weights ?ds SCHEMA_01_BP" "sum_list (map unat bp_d) = 100" "length bp_d = 4"
    using schema_aggregate [OF len] by blast
  have "unat w \<le> 100" if "w \<in> set bp_d" for w
    using member_le_sum_list [of "unat w" "map unat bp_d"] that b(3) by simp
  then have w: "\<forall>(w, d) \<in> set (zip bp_d ?ds). unat w \<le> 100" by (auto dest: set_zip_leftD)
  obtain ts where ts: "distribute_slots escrow (pda [ascii ''instance'', in_seed inst]) (en_amount e) (zip bp_d ?ds) = Inr ts"
      "\<forall>d. sent_to d ts = sum_list (map (\<lambda>(w, d'). if d' = d then share 100 ?v (unat w) else 0) (zip bp_d ?ds))"
      "sent ts = sum_list (map (\<lambda>(w, d'). share 100 ?v (unat w)) (zip bp_d ?ds))"
      "list_all (from_escrow escrow (pda [ascii ''instance'', in_seed inst])) ts"
    using distribute_slots_exact [OF w assms(2)] by blast
  have nth: "unat (bp_d ! c) = slot_weights ?ds SCHEMA_01_BP ! c" if "c < 4" for c
    using arg_cong [OF b(2), of "\<lambda>l. l ! c"] that b(4) by simp
  have "sent_to d ts = dest_share inst ?v d" for d
  proof -
    have "map (\<lambda>c. if ?ds ! c = d then share 100 ?v (unat (bp_d ! c)) else 0) [0..<4]
        = map (\<lambda>c. if ?ds ! c = d then share 100 ?v (slot_weights ?ds SCHEMA_01_BP ! c) else 0) [0..<4]"
      by (intro map_cong) (auto simp: nth)
    then have "sent_to d ts = sum_list (map (\<lambda>c. if ?ds ! c = d then share 100 ?v (slot_weights ?ds SCHEMA_01_BP ! c) else 0) [0..<4])"
      using ts(2) by (simp only: slots_sum_zip [OF b(4) len])
    then show ?thesis
      using slot_share_sum [of "share 100 ?v" ?ds d SCHEMA_01_BP] len by (simp add: dest_share_def)
  qed
  moreover have "sent ts = sum_list (map (share 100 ?v) (map unat bp_d))"
  proof -
    have "map (\<lambda>(w, d'). share 100 ?v (unat w)) (zip bp_d ?ds) = map (share 100 ?v) (map unat bp_d)"
      using b(4) len by (intro nth_equalityI) auto
    then show ?thesis using ts(3) by simp
  qed
  then have "sent ts \<le> ?v" "?v \<le> sent ts + 3"
    using sum_shares_le [of "map unat bp_d" 100 ?v] sum_floor_dust [of ?v "map unat bp_d"] b(3,4)
    by (auto split: if_splits)
  moreover have "distribute cs pda inst escrow passed e = Inr (e\<lparr>en_distributed := True\<rparr>, ts)"
    using assms(3) b(1) ts(1) by (simp add: distribute_def may_distribute_def Let_def)
  ultimately show ?thesis using ts(4) by blast
qed

lemma distribute_guard: "distribute cs pda inst escrow passed e = Inr r \<Longrightarrow> may_distribute cs pda inst escrow passed e"
  by (auto simp: distribute_def may_distribute_def)

definition may_refund :: "crypto_suite \<Rightarrow> (bytes list \<Rightarrow> pubkey) \<Rightarrow> kit_instance \<Rightarrow> pubkey \<Rightarrow> pubkey \<Rightarrow> kit_entry \<Rightarrow> bool" where
  "may_refund cs pda inst escrow dest_key e \<longleftrightarrow> en_seed e = in_seed inst \<and>
     (en_state e = Cancelled \<or> en_state e = Reclaimed) \<and> \<not> en_distributed e \<and>
     escrow = entry_escrow pda (entry_id_of cs e) \<and> dest_key = en_refund_account e"

lemma refund_exact:
  assumes "unat (en_amount e) < 2 ^ 64" "may_refund cs pda inst escrow dest_key e"
  shows "refund cs pda inst escrow dest_key e = Inr (e\<lparr>en_distributed := True\<rparr>,
    [Transfer escrow (en_refund_account e) (pda [ascii ''instance'', in_seed inst]) (ucast (en_amount e))])"
  using assms by (simp add: refund_def may_refund_def try_from_def)

lemma refund_guard: "refund cs pda inst escrow dest_key e = Inr r \<Longrightarrow> may_refund cs pda inst escrow dest_key e"
  by (auto simp: refund_def may_refund_def)

section \<open>The entry machine\<close>

text \<open>One transaction on an entry that changes it, at a clock that never runs back. The log holds
  every transfer out of the escrow, in order.\<close>

type_synonym entry_world = "u64 \<times> kit_entry \<times> request list"

inductive entry_step ::
  "crypto_suite \<Rightarrow> (bytes list \<Rightarrow> pubkey) \<Rightarrow> pubkey \<Rightarrow> kit_instance \<Rightarrow> entry_world \<Rightarrow> entry_world \<Rightarrow> bool"
  for cs pda prog inst where
  tick: "now \<le> now' \<Longrightarrow> entry_step cs pda prog inst (now, e, ts) (now', e, ts)"
| attested: "attest inst signer now e = Inr e' \<Longrightarrow> entry_step cs pda prog inst (now, e, ts) (now, e', ts)"
| detached: "attest_detached cs prog ixs inst now e = Inr e' \<Longrightarrow> entry_step cs pda prog inst (now, e, ts) (now, e', ts)"
| cancelled: "cancel inst signer now e = Inr e' \<Longrightarrow> entry_step cs pda prog inst (now, e, ts) (now, e', ts)"
| lapsed: "lapse now e = Inr e' \<Longrightarrow> entry_step cs pda prog inst (now, e, ts) (now, e', ts)"
| opened: "open_reclaim now e = Inr e' \<Longrightarrow> entry_step cs pda prog inst (now, e, ts) (now, e', ts)"
| executed: "execute_reclaim now e = Inr e' \<Longrightarrow> entry_step cs pda prog inst (now, e, ts) (now, e', ts)"
| distributed: "distribute cs pda inst escrow passed e = Inr (e', rs) \<Longrightarrow>
    entry_step cs pda prog inst (now, e, ts) (now, e', ts @ rs)"
| refunded: "refund cs pda inst escrow dest_key e = Inr (e', rs) \<Longrightarrow>
    entry_step cs pda prog inst (now, e, ts) (now, e', ts @ rs)"

inductive_cases entry_stepE: "entry_step cs pda prog inst w w'"

definition entry_runs :: "crypto_suite \<Rightarrow> (bytes list \<Rightarrow> pubkey) \<Rightarrow> pubkey \<Rightarrow> kit_instance \<Rightarrow> entry_world \<Rightarrow> entry_world \<Rightarrow> bool" where
  "entry_runs cs pda prog inst = (entry_step cs pda prog inst)\<^sup>*\<^sup>*"

text \<open>The terms of an entry, fixed when it is funded.\<close>

definition same_terms :: "kit_entry \<Rightarrow> kit_entry \<Rightarrow> bool" where
  "same_terms e f \<longleftrightarrow> en_seed e = en_seed f \<and> en_nonce e = en_nonce f \<and> en_amount e = en_amount f \<and>
     en_t_open e = en_t_open f \<and> en_t_lapse e = en_t_lapse f \<and> en_contest e = en_contest f \<and>
     en_refund_account e = en_refund_account f"

text \<open>The shape of a state change, whatever the handler.\<close>

inductive entry_change :: "u64 \<Rightarrow> kit_entry \<Rightarrow> kit_entry \<Rightarrow> bool" where
  "guard_active e now = Inr () \<Longrightarrow> entry_change now e (e\<lparr>en_state := Attested\<rparr>)"
| "guard_active e now = Inr () \<Longrightarrow> entry_change now e (e\<lparr>en_state := Cancelled\<rparr>)"
| "en_state e = Funded \<Longrightarrow> en_t_lapse e < now \<Longrightarrow> entry_change now e (e\<lparr>en_state := Lapsed\<rparr>)"
| "en_state e = Funded \<Longrightarrow> en_t_open e \<le> now \<Longrightarrow> now \<le> en_t_lapse e \<Longrightarrow>
     entry_change now e (e\<lparr>en_state := ReclaimOpen, en_opened_at := now\<rparr>)"
| "en_state e = ReclaimOpen \<Longrightarrow> sat_add (en_opened_at e) (en_contest e) < now \<Longrightarrow>
     entry_change now e (e\<lparr>en_state := Reclaimed\<rparr>)"

lemma handler_changes:
  "attest inst signer now e = Inr e' \<Longrightarrow> entry_change now e e'"
  "attest_detached cs prog ixs inst now e = Inr e' \<Longrightarrow> entry_change now e e'"
  "cancel inst signer now e = Inr e' \<Longrightarrow> entry_change now e e'"
  "lapse now e = Inr e' \<Longrightarrow> entry_change now e e'"
  "open_reclaim now e = Inr e' \<Longrightarrow> entry_change now e e'"
  "execute_reclaim now e = Inr e' \<Longrightarrow> entry_change now e e'"
  by (auto simp: attest_def attest_detached_def cancel_def lapse_def open_reclaim_def execute_reclaim_def Let_def
      intro: entry_change.intros)

lemma guard_active_iff:
  "guard_active e now = Inr () \<longleftrightarrow>
   en_state e = Funded \<and> now \<le> en_t_lapse e \<or> en_state e = ReclaimOpen"
  by (cases "en_state e") (auto simp: guard_active_def)


text \<open>The escrow of the entry and the authority over it.\<close>

abbreviation escrow_of :: "crypto_suite \<Rightarrow> (bytes list \<Rightarrow> pubkey) \<Rightarrow> kit_entry \<Rightarrow> pubkey" where
  "escrow_of cs pda e \<equiv> entry_escrow pda (entry_id_of cs e)"

abbreviation authority_of :: "(bytes list \<Rightarrow> pubkey) \<Rightarrow> kit_instance \<Rightarrow> pubkey" where
  "authority_of pda inst \<equiv> pda [ascii ''instance'', in_seed inst]"

definition payout_ok ::
  "crypto_suite \<Rightarrow> (bytes list \<Rightarrow> pubkey) \<Rightarrow> kit_instance \<Rightarrow> kit_entry \<Rightarrow> request list \<Rightarrow> bool" where
  "payout_ok cs pda inst e ts \<longleftrightarrow>
     (if en_distributed e then
        list_all (from_escrow (escrow_of cs pda e) (authority_of pda inst)) ts \<and>
        ((en_state e = Attested \<or> en_state e = Lapsed) \<and>
           (\<forall>d. sent_to d ts = dest_share inst (unat (en_amount e)) d) \<and> sent ts \<le> unat (en_amount e) \<and>
           unat (en_amount e) \<le> sent ts + 3 \<or>
         (en_state e = Cancelled \<or> en_state e = Reclaimed) \<and>
           ts = [Transfer (escrow_of cs pda e) (en_refund_account e) (authority_of pda inst) (ucast (en_amount e))])
      else ts = [])"

definition clock_ok :: "u64 \<Rightarrow> kit_entry \<Rightarrow> bool" where
  "clock_ok now e \<longleftrightarrow>
     (en_state e = ReclaimOpen \<or> en_state e = Reclaimed \<longrightarrow>
        en_t_open e \<le> en_opened_at e \<and> en_opened_at e \<le> en_t_lapse e \<and> en_opened_at e \<le> now) \<and>
     (en_state e = Reclaimed \<longrightarrow> unat (en_opened_at e) + unat (en_contest e) < unat now) \<and>
     (en_state e = Lapsed \<longrightarrow> en_t_lapse e < now)"

definition entry_ok :: "crypto_suite \<Rightarrow> (bytes list \<Rightarrow> pubkey) \<Rightarrow> kit_instance \<Rightarrow> entry_world \<Rightarrow> bool" where
  "entry_ok cs pda inst = (\<lambda>(now, e, ts).
     0 < en_amount e \<and> unat (en_amount e) < 2 ^ 64 \<and> en_t_open e \<le> en_t_lapse e \<and>
     payout_ok cs pda inst e ts \<and> clock_ok now e)"

lemma sat_add_before: "sat_add a b < now \<Longrightarrow> unat a + unat b < unat now" for a b now :: "'a::len word"
proof -
  assume "sat_add a b < now"
  then have "min (unat a + unat b) (2 ^ LENGTH('a) - 1) < unat now"
    by (simp only: word_less_nat_alt unat_sat_add)
  moreover have "unat now \<le> 2 ^ LENGTH('a) - 1" using unat_lt2p [of now] by linarith
  ultimately show ?thesis by (simp only: min_less_iff_disj) linarith
qed

lemma change_source: "entry_change now e e' \<Longrightarrow> en_state e = Funded \<or> en_state e = ReclaimOpen"
  by (cases rule: entry_change.cases) (auto simp: guard_active_iff)

lemma change_keeps: "entry_change now e e' \<Longrightarrow> same_terms e' e \<and> en_distributed e' = en_distributed e"
  by (cases rule: entry_change.cases) (auto simp: same_terms_def)

lemma payout_unsettled:
  "payout_ok cs pda inst e ts \<Longrightarrow> en_state e = Funded \<or> en_state e = ReclaimOpen \<Longrightarrow> \<not> en_distributed e \<and> ts = []"
  by (cases "en_distributed e") (auto simp: payout_ok_def)

lemma change_clock:
  assumes "entry_change now e e'" "clock_ok now e"
  shows "clock_ok now e'"
  using assms(1)
proof (cases rule: entry_change.cases)
  case 5
  then have "unat (en_opened_at e) + unat (en_contest e) < unat now" by (intro sat_add_before)
  then show ?thesis using 5 assms(2) by (simp add: clock_ok_def)
qed (simp_all add: clock_ok_def)

lemma entry_change_ok:
  assumes "entry_change now e e'" "entry_ok cs pda inst (now, e, ts)"
  shows "entry_ok cs pda inst (now, e', ts) \<and> same_terms e' e"
proof -
  note keep = change_keeps [OF assms(1)]
  have "\<not> en_distributed e \<and> ts = []"
    using payout_unsettled change_source [OF assms(1)] assms(2) by (auto simp: entry_ok_def)
  then have "payout_ok cs pda inst e' ts" using keep by (simp add: payout_ok_def)
  then show ?thesis using keep change_clock [OF assms(1)] assms(2) by (simp add: entry_ok_def same_terms_def)
qed

lemma same_terms_id: "same_terms e f \<Longrightarrow> entry_id_of cs e = entry_id_of cs f"
  by (simp add: same_terms_def entry_id_of_def)

lemma same_terms_trans: "same_terms a b \<Longrightarrow> same_terms b c \<Longrightarrow> same_terms a c"
  by (simp add: same_terms_def)

lemma distribute_ok:
  assumes "instance_ok inst" "entry_ok cs pda inst (now, e, ts)"
    "distribute cs pda inst escrow passed e = Inr (e', rs)"
  shows "entry_ok cs pda inst (now, e', ts @ rs) \<and> same_terms e' e \<and> en_state e' = en_state e"
proof -
  note g = distribute_guard [OF assms(3)]
  have amt: "unat (en_amount e) < 2 ^ 64" using assms(2) by (simp add: entry_ok_def)
  have r: "e' = e\<lparr>en_distributed := True\<rparr>" "\<forall>d. sent_to d rs = dest_share inst (unat (en_amount e)) d"
      "sent rs \<le> unat (en_amount e)" "unat (en_amount e) \<le> sent rs + 3"
      "list_all (from_escrow escrow (pda [ascii ''instance'', in_seed inst])) rs"
    using distribute_exact [OF assms(1) amt g] assms(3) by auto
  have "escrow = escrow_of cs pda e" "ts = []" "en_state e = Attested \<or> en_state e = Lapsed"
    using g assms(2) by (auto simp: may_distribute_def entry_ok_def payout_ok_def)
  moreover have "entry_id_of cs e' = entry_id_of cs e" by (simp add: r(1) entry_id_of_def)
  ultimately show ?thesis using r assms(2)
    by (simp add: entry_ok_def payout_ok_def clock_ok_def same_terms_def)
qed

lemma refund_ok:
  assumes "entry_ok cs pda inst (now, e, ts)" "refund cs pda inst escrow dest_key e = Inr (e', rs)"
  shows "entry_ok cs pda inst (now, e', ts @ rs) \<and> same_terms e' e \<and> en_state e' = en_state e"
proof -
  note g = refund_guard [OF assms(2)]
  have amt: "unat (en_amount e) < 2 ^ 64" "en_amount e \<noteq> 0" using assms(1) by (auto simp: entry_ok_def)
  have r: "e' = e\<lparr>en_distributed := True\<rparr>"
      "rs = [Transfer escrow (en_refund_account e) (pda [ascii ''instance'', in_seed inst]) (ucast (en_amount e))]"
    using refund_exact [OF amt(1) g] assms(2) by auto
  have c: "escrow = escrow_of cs pda e" "ts = []" "en_state e = Cancelled \<or> en_state e = Reclaimed"
    using g assms(1) by (auto simp: may_refund_def entry_ok_def payout_ok_def)
  have id: "entry_id_of cs e' = entry_id_of cs e" by (simp add: r(1) entry_id_of_def)
  have "unat (ucast (en_amount e) :: u64) = unat (en_amount e)" using amt by (simp add: unat_ucast_small)
  then have "(ucast (en_amount e) :: u64) \<noteq> 0" using amt(2) by (metis unat_eq_zero)
  then show ?thesis using r c id assms(1)
    by (simp add: entry_ok_def payout_ok_def clock_ok_def same_terms_def from_escrow_def)
qed

lemma entry_step_ok:
  assumes "instance_ok inst" "entry_step cs pda prog inst (now, e, ts) (now', e', ts')"
    "entry_ok cs pda inst (now, e, ts)"
  shows "entry_ok cs pda inst (now', e', ts') \<and> same_terms e' e \<and> now \<le> now' \<and>
    (e' = e \<and> ts' = ts \<or> entry_change now e e' \<and> ts' = ts \<or> en_state e' = en_state e \<and> en_distributed e')"
proof -
  have change: ?thesis if "entry_change now e e'" "now' = now" "ts' = ts"
    using entry_change_ok [OF that(1) assms(3)] that by simp
  show ?thesis using assms(2)
  proof (cases rule: entry_step.cases)
  case tick
  then have "unat a < unat now \<Longrightarrow> unat a < unat now'" "k < unat now \<Longrightarrow> k < unat now'" for a :: u64 and k
    by (auto simp: word_le_nat_alt)
  then show ?thesis using tick assms(3)
    by (auto simp: entry_ok_def clock_ok_def same_terms_def payout_ok_def intro: order.trans less_le_trans)
next
  case (distributed escrow passed rs)
  then show ?thesis
    using distribute_ok [OF assms(1,3) distributed(3)] by (auto simp: distribute_def)
next
  case (refunded escrow dest_key rs)
  then show ?thesis
    using refund_ok [OF assms(3) refunded(3)] by (auto simp: refund_def Let_def)
  qed (use handler_changes change in \<open>simp_all\<close>)
qed


lemma entry_runs_ok:
  assumes "instance_ok inst" "entry_runs cs pda prog inst (now, e, ts) (now', e', ts')"
    "entry_ok cs pda inst (now, e, ts)"
  shows "entry_ok cs pda inst (now', e', ts') \<and> same_terms e' e \<and> now \<le> now'"
  using assms(2) unfolding entry_runs_def
proof (induction "(now', e', ts')" arbitrary: now' e' ts' rule: rtranclp_induct)
  case base
  then show ?case using assms(3) by (simp add: same_terms_def)
next
  case (step w)
  obtain n f us where w: "w = (n, f, us)" by (cases w)
  with step have i: "entry_ok cs pda inst (n, f, us)" "same_terms f e" "now \<le> n" by auto
  from entry_step_ok [OF assms(1) step(2) [unfolded w] i(1)] show ?case
    using i(2,3) same_terms_trans by (meson order.trans)
qed

text \<open>An entry just funded.\<close>

lemma fund_entry_ok:
  assumes "fund_entry cs pda existing inst ikey escrow mint funder ftok now entry_id nonce amount t_open t_lapse contest racc = Inr (e, rs)"
  shows "entry_ok cs pda inst (now, e, []) \<and> en_state e = Funded \<and> \<not> en_distributed e \<and>
    entry_id_of cs e = entry_id \<and> en_amount e = amount \<and> en_refund_account e = racc \<and> en_seed e = in_seed inst \<and>
    now \<le> en_t_lapse e \<and> sent rs = unat amount \<and> existing = None \<and> escrow = entry_escrow pda entry_id"
proof -
  from assms have g: "0 < amount" "amount \<le> 2 ^ 64 - 1" "t_open \<le> t_lapse" "now \<le> t_lapse"
    "derive_entry_id cs (in_seed inst) nonce amount t_open t_lapse contest = entry_id"
    "e = \<lparr>en_seed = in_seed inst, en_nonce = nonce, en_amount = amount, en_t_open = t_open,
              en_t_lapse = t_lapse, en_contest = contest, en_opened_at = 0, en_state = Funded,
              en_distributed = False, en_refund_account = racc\<rparr>"
    "\<exists>d. try_from amount = Some d \<and> rs = [CreateTokenAccount escrow mint ikey, Transfer ftok escrow funder d]" "existing = None" "escrow = entry_escrow pda entry_id"
    by (auto simp: fund_entry_def Let_def)
  have "unat amount < 2 ^ 64" using g(2) by (simp add: word_le_nat_alt)
  then show ?thesis using g(1,3,4,5,7,8,9) unfolding g(6)
    by (auto simp: entry_ok_def payout_ok_def clock_ok_def entry_id_of_def unat_ops)
qed

text \<open>A decided entry stays as decided.\<close>

lemma terminal_step:
  assumes "instance_ok inst" "entry_step cs pda prog inst (now, e, ts) (now', e', ts')" "entry_ok cs pda inst (now, e, ts)"
    "en_state e \<noteq> Funded" "en_state e \<noteq> ReclaimOpen"
  shows "en_state e' = en_state e"
  using entry_step_ok [OF assms(1-3)] change_source assms(4,5) by auto

lemma terminal_runs:
  assumes "instance_ok inst" "entry_runs cs pda prog inst (now, e, ts) (now', e', ts')" "entry_ok cs pda inst (now, e, ts)"
    "en_state e \<noteq> Funded" "en_state e \<noteq> ReclaimOpen"
  shows "en_state e' = en_state e"
  using assms(2) unfolding entry_runs_def
proof (induction "(now', e', ts')" arbitrary: now' e' ts' rule: rtranclp_induct)
  case (step w)
  obtain n f us where w: "w = (n, f, us)" by (cases w)
  have "entry_ok cs pda inst (n, f, us)"
    using entry_runs_ok [OF assms(1) _ assms(3), of prog n f us] step(1) w by (simp add: entry_runs_def)
  moreover have "en_state f = en_state e" using step(3) w by simp
  ultimately show ?case using terminal_step [OF assms(1) step(2) [unfolded w]] assms(4,5) by simp
qed simp

text \<open>Anyone can bring an undecided entry to its payout once its clock allows it.\<close>

lemma lapse_exit:
  assumes "instance_ok inst" "entry_ok cs pda inst (now, e, ts)" "en_seed e = in_seed inst" "en_state e = Funded"
    "now \<le> now'" "en_t_lapse e < now'"
  shows "\<exists>e' rs. entry_runs cs pda prog inst (now, e, ts) (now', e', rs) \<and> en_state e' = Lapsed \<and> en_distributed e'"
proof -
  let ?l = "e\<lparr>en_state := Lapsed\<rparr>"
  have l: "lapse now' e = Inr ?l" using assms(4,6) by (simp add: lapse_def)
  have ts: "ts = []" "\<not> en_distributed e" using payout_unsettled assms(2,4) by (auto simp: entry_ok_def)
  have m: "may_distribute cs pda inst (escrow_of cs pda ?l) (in_dests inst) ?l"
    using assms(3) ts by (simp add: may_distribute_def)
  obtain rs where d: "distribute cs pda inst (escrow_of cs pda ?l) (in_dests inst) ?l = Inr (?l\<lparr>en_distributed := True\<rparr>, rs)"
    using distribute_exact [OF assms(1) _ m] assms(2) by (auto simp: entry_ok_def)
  have "entry_step cs pda prog inst (now, e, ts) (now', e, ts)" using assms(5) by (rule tick)
  moreover have "entry_step cs pda prog inst (now', e, ts) (now', ?l, ts)" using l by (rule lapsed)
  moreover have "entry_step cs pda prog inst (now', ?l, ts) (now', ?l\<lparr>en_distributed := True\<rparr>, ts @ rs)"
    using d by (rule distributed)
  ultimately have "entry_runs cs pda prog inst (now, e, ts) (now', ?l\<lparr>en_distributed := True\<rparr>, ts @ rs)"
    unfolding entry_runs_def by (meson converse_rtranclp_into_rtranclp rtranclp.rtrancl_refl)
  then show ?thesis by (intro exI [of _ "?l\<lparr>en_distributed := True\<rparr>"] exI [of _ "ts @ rs"]) simp
qed

lemma reclaim_exit:
  assumes "entry_ok cs pda inst (now, e, ts)" "en_seed e = in_seed inst" "en_state e = ReclaimOpen"
    "now \<le> now'" "unat (en_opened_at e) + unat (en_contest e) < unat now'"
  shows "\<exists>e' rs. entry_runs cs pda prog inst (now, e, ts) (now', e', rs) \<and> en_state e' = Reclaimed \<and> en_distributed e'"
proof -
  let ?l = "e\<lparr>en_state := Reclaimed\<rparr>"
  have "unat (sat_add (en_opened_at e) (en_contest e)) < unat now'"
    unfolding unat_sat_add using assms(5) by (simp only: min_less_iff_disj) blast
  then have l: "execute_reclaim now' e = Inr ?l"
    using assms(3) by (simp add: execute_reclaim_def word_less_nat_alt)
  have ts: "ts = []" "\<not> en_distributed e" using payout_unsettled assms(1,3) by (auto simp: entry_ok_def)
  have m: "may_refund cs pda inst (escrow_of cs pda ?l) (en_refund_account ?l) ?l"
    using assms(2) ts by (simp add: may_refund_def)
  have small: "unat (en_amount ?l) < 2 ^ 64" using assms(1) by (simp add: entry_ok_def)
  obtain rs where d: "refund cs pda inst (escrow_of cs pda ?l) (en_refund_account ?l) ?l = Inr (?l\<lparr>en_distributed := True\<rparr>, rs)"
    using refund_exact [OF small m] by blast
  have "entry_step cs pda prog inst (now, e, ts) (now', e, ts)" using assms(4) by (rule tick)
  moreover have "entry_step cs pda prog inst (now', e, ts) (now', ?l, ts)" using l by (rule executed)
  moreover have "entry_step cs pda prog inst (now', ?l, ts) (now', ?l\<lparr>en_distributed := True\<rparr>, ts @ rs)"
    using d by (rule refunded)
  ultimately have "entry_runs cs pda prog inst (now, e, ts) (now', ?l\<lparr>en_distributed := True\<rparr>, ts @ rs)"
    unfolding entry_runs_def by (meson converse_rtranclp_into_rtranclp rtranclp.rtrancl_refl)
  then show ?thesis by (intro exI [of _ "?l\<lparr>en_distributed := True\<rparr>"] exI [of _ "ts @ rs"]) simp
qed

section \<open>The detached attestation\<close>

lemma verify_detached_iff:
  "verify_detached_ed25519 prog ixs mkey msg = Inr () \<longleftrightarrow> (\<exists>ix \<in> set ixs. ed25519_match prog mkey msg ix)"
  by (induction ixs) auto

lemma verify_detached_cases:
  "verify_detached_ed25519 prog ixs mkey msg = (if \<exists>ix \<in> set ixs. ed25519_match prog mkey msg ix then Inr () else Inl (Kit BadAttestation))"
  by (induction ixs) auto

end
