(* ===== verification/Contract_Watermark.thy ===== *)
theory Contract_Watermark
  imports Contract_Division
begin

text \<open>
  The records of the channel side of the contract kit: the one-shot claim record and the cumulative
  watermark of a channel, with the account a channel has reached as a function of its target.
\<close>

section \<open>Claim records\<close>

lemma words_of_unats: "map unat xs = ns \<Longrightarrow> xs = map word_of_nat ns"
  by (auto simp: map_idI)

text \<open>What the division of \<open>p\<close> among four destinations records: per slot the floor of the slot's
  combined weight, and the dust.\<close>

definition slot_shares :: "pubkey list \<Rightarrow> nat \<Rightarrow> nat list" where
  "slot_shares ds p = map (share 100 p) (slot_weights ds SCHEMA_01_BP)"

lemma length_slot_shares [simp]: "length (slot_shares ds p) = length ds"
  by (simp add: slot_shares_def slot_weights_def)

lemma slot_weights_sum: "length ds = 4 \<Longrightarrow> sum_list (slot_weights ds SCHEMA_01_BP) = 100"
  using slot_weights_total [of SCHEMA_01_BP ds] by (simp only: schema_total)

lemma sum_slot_shares_le: "length ds = 4 \<Longrightarrow> sum_list (slot_shares ds p) \<le> p"
  using sum_shares_le [of "slot_weights ds SCHEMA_01_BP" 100 p] slot_weights_sum [of ds]
  by (simp add: slot_shares_def)

lemma record_exact:
  assumes "length ds = 4"
  shows "\<exists>shares tot bp_d. aggregate_bp_by_dest ds SCHEMA_01_BP = Inr (map (canonical_slot ds) [0..<4], bp_d)
    \<and> record_shares p bp_d 0 = Inr (shares, tot) \<and> unats shares = slot_shares ds (unat p)
    \<and> unat tot = sum_list (slot_shares ds (unat p))"
proof -
  obtain bp_d where b: "aggregate_bp_by_dest ds SCHEMA_01_BP = Inr (map (canonical_slot ds) [0..<4], bp_d)"
    "map unat bp_d = slot_weights ds SCHEMA_01_BP" "sum_list (map unat bp_d) = 100"
    using schema_aggregate [OF assms] by blast
  have "\<forall>w \<in> set bp_d. unat w \<le> 100"
    using member_le_sum_list [of _ "map unat bp_d"] b(3) by auto
  moreover have s: "sum_list (map (share 100 (unat p)) (map unat bp_d)) \<le> unat p"
    using sum_shares_le [of "map unat bp_d" 100 "unat p"] b(3) by simp
  then have "unat (0 :: u128) + sum_list (map (share 100 (unat p)) (map unat bp_d)) < 2 ^ 128"
    using unat_lt2p [of p] by simp
  ultimately show ?thesis
    using record_shares_exact [of bp_d 0 p] b(1) unfolding slot_shares_def b(2) [symmetric] by auto
qed

lemma distribute_p_into_exact:
  assumes "length ds = 4"
  shows "\<exists>r. distribute_p_into ds p = Inr r \<and> cl_amount r = p
    \<and> unats (cl_shares r) = slot_shares ds (unat p)
    \<and> unat (cl_residue r) = unat p - sum_list (slot_shares ds (unat p))"
proof -
  obtain shares tot bp_d where r: "aggregate_bp_by_dest ds SCHEMA_01_BP = Inr (map (canonical_slot ds) [0..<4], bp_d)"
      "record_shares p bp_d 0 = Inr (shares, tot)" "unats shares = slot_shares ds (unat p)"
      "unat tot = sum_list (slot_shares ds (unat p))"
    using record_exact [OF assms] by blast
  have "unat tot \<le> unat p" using sum_slot_shares_le [OF assms, of "unat p"] r(4) by simp
  then obtain x where "checked_sub p tot = Some x" "unat x = unat p - unat tot"
    by (cases "checked_sub p tot") (auto simp: unat_ops)
  then show ?thesis using r by (simp add: distribute_p_into_def)
qed

section \<open>The channel watermark\<close>

text \<open>The account a channel has reached at the cumulative target \<open>n\<close>.\<close>

definition watermark :: "kit_instance \<Rightarrow> bytes \<Rightarrow> nat \<Rightarrow> channel_meed" where
  "watermark inst ch n =
     \<lparr>cm_seed = in_seed inst, cm_channel_id = ch, cm_version = CHANMEED_VERSION,
      cm_funded_p = word_of_nat n, cm_paid = map word_of_nat (slot_shares (in_dests inst) n),
      cm_residue = word_of_nat (n - sum_list (slot_shares (in_dests inst) n))\<rparr>"

definition watermark_account :: "kit_instance \<Rightarrow> bytes \<Rightarrow> nat \<Rightarrow> channel_meed option" where
  "watermark_account inst ch n = (if n = 0 then None else Some (watermark inst ch n))"

lemma regroup_unfolded:
  assumes "length paid = n" "length canon = n" "\<forall>i < n. canon ! i \<le> i" "\<forall>i < n. canon ! i \<noteq> i \<longrightarrow> paid ! i = 0"
    "k \<le> n"
  shows "regroup canon paid [k..<n] (take k paid @ replicate (n - k) 0) = Inr paid"
  using assms(5)
proof (induction k rule: inc_induct)
  case base
  then show ?case using assms(1) by simp
next
  case (step k)
  let ?acc = "take k paid @ replicate (n - k) (0 :: u128)" and ?c = "canon ! k"
  have c: "?c \<le> k" using assms(3) step by simp
  have next_acc: "take (Suc k) paid @ replicate (n - Suc k) 0 = ?acc[k := paid ! k]"
  proof (rule nth_equalityI)
    fix i assume "i < length (take (Suc k) paid @ replicate (n - Suc k) 0)"
    then have i: "i < n" using assms(1) step(2) by simp
    consider "i < k" | "i = k" | "k < i" by linarith
    then show "(take (Suc k) paid @ replicate (n - Suc k) 0) ! i = ?acc[k := paid ! k] ! i"
      using i assms(1) step(2) by cases (simp_all add: nth_append)
  qed (use assms(1) step(2) in simp)
  have up: "[k..<n] = k # [Suc k..<n]" using step(2) by (simp add: upt_conv_Cons)
  show ?case
  proof (cases "?c = k")
    case True
    have "?acc ! k = 0" using step(2) assms(1) by (simp add: nth_append)
    moreover have "checked_add 0 (paid ! k) = Some (paid ! k)"
      using unat_lt2p [of "paid ! k"] by (simp add: checked_add_def)
    ultimately show ?thesis using True step(3) by (simp add: up Let_def next_acc)
  next
    case False
    then have z: "paid ! k = 0" using assms(4) step(2) by simp
    have ck: "?c < k" using c False by simp
    then have "?acc ! ?c = paid ! ?c" using step(2) assms(1) by (simp add: nth_append)
    moreover have "checked_add (paid ! ?c) 0 = Some (paid ! ?c)"
      using unat_lt2p [of "paid ! ?c"] by (simp add: checked_add_def)
    moreover have "?acc[?c := paid ! ?c] = ?acc[k := paid ! k]"
    proof -
      have "?acc[?c := paid ! ?c] = ?acc" using \<open>?acc ! ?c = paid ! ?c\<close> by (metis list_update_id)
      moreover have "?acc ! k = 0" using step(2) assms(1) by (simp add: nth_append)
      then have "?acc[k := paid ! k] = ?acc" using z by (metis list_update_id)
      ultimately show ?thesis by simp
    qed
    ultimately show ?thesis using step(3) z by (simp add: up Let_def next_acc)
  qed
qed

lemma slot_shares_mono: "m \<le> n \<Longrightarrow> list_all2 (\<le>) (slot_shares ds m) (slot_shares ds n)"
  by (auto simp: slot_shares_def list_all2_conv_all_nth intro: div_le_mono mult_le_mono1)

lemma slot_shares_folded:
  "i < length ds \<Longrightarrow> canonical_slot ds i \<noteq> i \<Longrightarrow> slot_shares ds n ! i = 0"
  by (simp add: slot_shares_def slot_weights_def)

lemma slot_shares_small: "length ds = 4 \<Longrightarrow> n < 2 ^ 128 \<Longrightarrow> \<forall>s \<in> set (slot_shares ds n). s < 2 ^ 128"
proof
  fix s assume "length ds = 4" "n < 2 ^ 128" "s \<in> set (slot_shares ds n)"
  then show "s < 2 ^ 128"
    using member_le_sum_list [of s "slot_shares ds n"] sum_slot_shares_le [of ds n] by linarith
qed

lemma unats_of_small: "\<forall>s \<in> set ns. s < 2 ^ LENGTH('a) \<Longrightarrow> map unat (map word_of_nat ns :: 'a::len word list) = ns"
  by (simp add: map_idI unat_of_nat_small)

lemma slot_shares_0: "slot_shares ds 0 = replicate (length ds) 0"
  by (simp add: slot_shares_def slot_weights_def map_replicate_const)


lemma slot_shares_dust: "length ds = 4 \<Longrightarrow> n \<le> sum_list (slot_shares ds n) + 3"
  using sum_floor_dust [of n "slot_weights ds SCHEMA_01_BP"] slot_weights_sum [of ds]
  by (simp add: slot_shares_def slot_weights_def)

lemma advance_exact:
  assumes "length (in_dests inst) = 4" "n < 2 ^ 128"
  shows "advance_channel_meed pda inst ch t (watermark_account inst ch n) =
    Inr (watermark_account inst ch (max n (unat t)),
         if n = 0 \<and> t \<noteq> 0 then [CreateDataAccount (pda [ascii ''chanmeed'', in_seed inst, ch])] else [])"
proof (cases "unat t \<le> n")
  case True
  show ?thesis
  proof (cases "n = 0")
    case True
    with \<open>unat t \<le> n\<close> have "t = 0" by (simp add: unat_eq_zero)
    then show ?thesis using True by (simp add: advance_channel_meed_def watermark_account_def)
  next
    case False
    have "t \<le> word_of_nat n" using True assms(2) by (simp add: word_le_nat_alt unat_of_nat_small)
    then show ?thesis using True False
      by (simp add: advance_channel_meed_def watermark_account_def watermark_def max_absorb1)
  qed
next
  case False
  let ?ds = "in_dests inst" and ?old = "map word_of_nat (slot_shares (in_dests inst) n) :: u128 list"
  obtain shares tot bp_d where r: "aggregate_bp_by_dest ?ds SCHEMA_01_BP = Inr (map (canonical_slot ?ds) [0..<4], bp_d)"
      "record_shares t bp_d 0 = Inr (shares, tot)" "unats shares = slot_shares ?ds (unat t)"
      "unat tot = sum_list (slot_shares ?ds (unat t))"
    using record_exact [OF assms(1)] by blast
  have old: "unats ?old = slot_shares ?ds n"
    using unats_of_small [where 'a = 128] slot_shares_small [OF assms] by simp
  have g: "regroup (map (canonical_slot ?ds) [0..<4]) ?old [0..<4] (replicate 4 0) = Inr ?old"
    using regroup_unfolded [of ?old 4 "map (canonical_slot ?ds) [0..<4]" 0] assms(1)
    by (simp add: canonical_slot_le slot_shares_folded)
  have "list_all2 (\<le>) (unats ?old) (unats shares)"
    unfolding old r(3) using False by (intro slot_shares_mono) simp
  then have mono: "list_all2 (\<le>) ?old shares"
    by (simp only: list_all2_map1 list_all2_map2 word_le_nat_alt)
  have "unat tot \<le> unat t" using sum_slot_shares_le [OF assms(1), of "unat t"] r(4) by simp
  then obtain x where x: "checked_sub t tot = Some x" "unat x = unat t - unat tot"
    by (cases "checked_sub t tot") (auto simp: unat_ops)
  have shares: "shares = map word_of_nat (slot_shares ?ds (unat t))"
    by (rule words_of_unats [OF r(3)])
  have x': "x = word_of_nat (unat t - sum_list (slot_shares ?ds (unat t)))"
  proof -
    have "word_of_nat (unat x) = x" by simp
    then show ?thesis unfolding x(2) r(4) by (rule sym)
  qed
  have lt: "\<not> t \<le> word_of_nat n" using False assms(2) by (simp add: word_le_nat_alt unat_of_nat_small)
  have t0: "t \<noteq> 0" using False by (metis le0 unat_0)
  have fresh: "map word_of_nat (slot_shares ?ds 0) = replicate 4 (0 :: u128)"
    by (simp add: slot_shares_0 assms(1))
  have sum0: "sum_list (slot_shares ?ds 0) = 0" by (simp add: slot_shares_0)
  have new: "watermark_account inst ch (max n (unat t)) = Some (watermark inst ch (unat t))"
    using False by (simp add: watermark_account_def max_absorb2)
  show ?thesis
  proof (cases "n = 0")
    case True
    have mono0: "list_all2 (\<le>) (replicate 4 (0 :: u128)) shares" using mono fresh True by simp
    have g0: "regroup (map (canonical_slot ?ds) [0..<4]) (replicate 4 0) [0..<4] (replicate 4 0) = Inr (replicate 4 (0 :: u128))"
      using g fresh True by simp
    show ?thesis unfolding new
      using True t0 r(1,2) x(1) mono0 g0
      by (simp add: advance_channel_meed_def watermark_account_def watermark_def shares x')
  next
    case n0: False
    show ?thesis unfolding new
      using n0 lt r(1,2) x(1) mono g
      by (simp add: advance_channel_meed_def watermark_account_def watermark_def shares x')
  qed
qed

end
