(* ===== verification/Contract_Split.thy ===== *)
theory Contract_Split
  imports Contract_Watermark
begin

text \<open>
  The split vault of the contract kit: the exact effect of a claim, and the life of a vault as an
  inductive relation over deposits and claims, with its solvency invariant.
\<close>

section \<open>The split vault\<close>

text \<open>The weight of each seat out of 10,000: the merchant's, then the four slots'. A seat's
  entitlement is the floor over everything the vault ever received.\<close>

definition seat_weights :: "kit_split \<Rightarrow> nat list" where
  "seat_weights sp = unat SPLIT_MERCHANT_BP # slot_weights (sp_dests sp) SCHEMA_01_BP"

definition entitlement :: "kit_split \<Rightarrow> nat \<Rightarrow> nat \<Rightarrow> nat" where
  "entitlement sp tot seat = share 10000 tot (seat_weights sp ! seat)"

definition seat_dest :: "kit_split \<Rightarrow> nat \<Rightarrow> pubkey" where
  "seat_dest sp seat = (if seat = 0 then sp_merchant_net sp else sp_dests sp ! (seat - 1))"

definition paid_total :: "kit_split \<Rightarrow> nat" where
  "paid_total sp = sum_list (unats (sp_paid sp))"

text \<open>A record whose folded seats hold nothing and whose seats never drew more than they were
  entitled to when the vault had received \<open>tot\<close>.\<close>

definition split_ok :: "kit_split \<Rightarrow> nat \<Rightarrow> bool" where
  "split_ok sp tot \<longleftrightarrow> length (sp_dests sp) = 4 \<and> length (sp_paid sp) = 5 \<and> tot < 2 ^ 128 \<and>
     (\<forall>seat < 5. unat (sp_paid sp ! seat) \<le> entitlement sp tot seat)"

lemma five_nat: "(i :: nat) < 5 \<longleftrightarrow> i = 0 \<or> (\<exists>m < 4. i = Suc m)"
  by (cases i) auto

lemma seat_weights_sum: "length (sp_dests sp) = 4 \<Longrightarrow> sum_list (seat_weights sp) = 10000"
  using slot_weights_sum [of "sp_dests sp"] by (simp add: seat_weights_def bp_totals)

lemma length_seat_weights: "length (sp_dests sp) = 4 \<Longrightarrow> length (seat_weights sp) = 5"
  by (simp add: seat_weights_def slot_weights_def)

lemma entitlements: "length (sp_dests sp) = 4 \<Longrightarrow>
  map (entitlement sp tot) [0..<5] = map (share 10000 tot) (seat_weights sp)"
  by (rule nth_equalityI) (simp_all add: entitlement_def length_seat_weights)

lemma entitlements_sum: "length (sp_dests sp) = 4 \<Longrightarrow> sum_list (map (entitlement sp tot) [0..<5]) \<le> tot"
  using sum_shares_le [of "seat_weights sp" 10000 tot] by (simp only: entitlements seat_weights_sum)

lemma entitlement_mono: "a \<le> b \<Longrightarrow> entitlement sp a seat \<le> entitlement sp b seat"
  by (simp add: entitlement_def div_le_mono)

lemma split_ok_mono: "split_ok sp a \<Longrightarrow> a \<le> b \<Longrightarrow> b < 2 ^ 128 \<Longrightarrow> split_ok sp b"
  using entitlement_mono le_trans unfolding split_ok_def by blast

lemma split_ok_folded:
  assumes "split_ok sp tot" "m < 4" "canonical_slot (sp_dests sp) m \<noteq> m"
  shows "entitlement sp tot (Suc m) = 0" "sp_paid sp ! Suc m = 0"
proof -
  show e: "entitlement sp tot (Suc m) = 0"
    using assms by (simp add: entitlement_def seat_weights_def slot_weights_def split_ok_def)
  have "Suc m < 5" using assms(2) by simp
  then have "unat (sp_paid sp ! Suc m) = 0" using assms(1) e unfolding split_ok_def by (metis le_0_eq)
  then show "sp_paid sp ! Suc m = 0" by (simp add: unat_eq_zero)
qed

text \<open>What one seat is owed, plus what all seats were paid, never exceeds what the vault received.\<close>

lemma sum_list_pointwise:
  "\<forall>i < n. f i \<le> g i \<Longrightarrow> k < n \<Longrightarrow> g k - f k + sum_list (map f [0..<n]) \<le> sum_list (map g [0..<n])" for f g :: "nat \<Rightarrow> nat"
proof (induction n)
  case (Suc n)
  have "sum_list (map f [0..<n]) \<le> sum_list (map g [0..<n])"
    using Suc.prems(1) by (intro sum_list_mono) simp
  moreover have "f n \<le> g n" using Suc.prems(1) by simp
  ultimately show ?case using Suc by (cases "k = n") fastforce+
qed simp

lemma paid_nth: "length (sp_paid sp) = 5 \<Longrightarrow> paid_total sp = sum_list (map (\<lambda>i. unat (sp_paid sp ! i)) [0..<5])"
proof -
  assume "length (sp_paid sp) = 5"
  then have "unats (sp_paid sp) = map (\<lambda>i. unat (sp_paid sp ! i)) [0..<5]"
    by (intro nth_equalityI) simp_all
  then show ?thesis by (simp only: paid_total_def)
qed

lemma owed_covered:
  assumes "split_ok sp tot" "seat < 5"
  shows "entitlement sp tot seat - unat (sp_paid sp ! seat) + paid_total sp \<le> tot"
proof -
  have "entitlement sp tot seat - unat (sp_paid sp ! seat) + sum_list (map (\<lambda>i. unat (sp_paid sp ! i)) [0..<5])
      \<le> sum_list (map (entitlement sp tot) [0..<5])"
    by (rule sum_list_pointwise) (use assms in \<open>auto simp: split_ok_def\<close>)
  then show ?thesis using entitlements_sum [of sp tot] assms(1) by (simp add: split_ok_def paid_nth)
qed

lemma checked_sum_exact:
  "unat acc + sum_list (unats ps) < 2 ^ 128 \<Longrightarrow>
   checked_sum acc ps = Inr (word_of_nat (unat acc + sum_list (unats ps)))"
proof (induction ps arbitrary: acc)
  case (Cons p ps)
  then have "checked_add acc p = Some (acc + p)" "unat (acc + p) = unat acc + unat p"
    by (simp_all add: checked_add_def unat_word_ariths)
  then show ?case using Cons by (simp add: add.assoc)
qed simp


lemma fold_zero_id:
  "\<forall>j \<in> set js. j \<noteq> m \<longrightarrow> ps ! (j + 1) = 0 \<Longrightarrow>
   fold (\<lambda>j ps. if j \<noteq> m then ps[j + 1 := 0] else ps) js ps = ps" for ps :: "u128 list"
proof (induction js)
  case (Cons j js)
  have "(if j \<noteq> m then ps[j + 1 := 0] else ps) = ps"
    using Cons.prems by (metis list.set_intros(1) list_update_id)
  then show ?case using Cons by simp
qed simp

lemma sum_filter_zero:
  "sum_list (map f (filter P xs)) = sum_list (map (\<lambda>x. if P x then f x else (0 :: nat)) xs)"
  by (induction xs) auto

text \<open>The seats of a canonical slot: only the slot itself holds a cumulative.\<close>

lemma slot_paid:
  assumes "split_ok sp tot" "m < 4" "canonical_slot (sp_dests sp) m = m"
  defines "seats \<equiv> seats_of (map (canonical_slot (sp_dests sp)) [0..<4]) m"
  shows "checked_sum 0 (map (\<lambda>j. sp_paid sp ! (j + 1)) seats) = Inr (sp_paid sp ! Suc m)"
    and "fold (\<lambda>j ps. if j \<noteq> m then ps[j + 1 := 0] else ps) seats (sp_paid sp) = sp_paid sp"
proof -
  let ?canon = "map (canonical_slot (sp_dests sp)) [0..<4]"
  have other: "sp_paid sp ! Suc j = 0" if "j < 4" "?canon ! j = m" "j \<noteq> m" for j
    using split_ok_folded(2) [OF assms(1) that(1)] that by simp
  have "sum_list (unats (map (\<lambda>j. sp_paid sp ! (j + 1)) seats))
      = sum_list (map (\<lambda>j. if ?canon ! j = m then unat (sp_paid sp ! (j + 1)) else 0) [0..<4])"
    by (simp only: seats_def seats_of_def map_map comp_def sum_filter_zero length_map length_upt diff_zero)
  also have "\<dots> = (if ?canon ! m = m then unat (sp_paid sp ! (m + 1)) else 0)"
    by (rule sum_single [OF assms(2)]) (use other in auto)
  also have "\<dots> = unat (sp_paid sp ! Suc m)" using assms(2,3) by simp
  finally have sum: "sum_list (unats (map (\<lambda>j. sp_paid sp ! (j + 1)) seats)) = unat (sp_paid sp ! Suc m)" .
  show "checked_sum 0 (map (\<lambda>j. sp_paid sp ! (j + 1)) seats) = Inr (sp_paid sp ! Suc m)"
    using checked_sum_exact [of 0 "map (\<lambda>j. sp_paid sp ! (j + 1)) seats", unfolded sum]
      unat_lt2p [of "sp_paid sp ! Suc m"] by simp
  show "fold (\<lambda>j ps. if j \<noteq> m then ps[j + 1 := 0] else ps) seats (sp_paid sp) = sp_paid sp"
    by (rule fold_zero_id) (use other in \<open>auto simp: seats_def seats_of_def\<close>)
qed

definition paid_up :: "kit_split \<Rightarrow> nat \<Rightarrow> nat \<Rightarrow> kit_split" where
  "paid_up sp tot seat = sp\<lparr>sp_paid := (sp_paid sp)[seat := word_of_nat (entitlement sp tot seat)]\<rparr>"

definition owed_transfer :: "(bytes list \<Rightarrow> pubkey) \<Rightarrow> pubkey \<Rightarrow> kit_split \<Rightarrow> nat \<Rightarrow> nat \<Rightarrow> request list" where
  "owed_transfer pda vault sp tot seat =
     (let owed = entitlement sp tot seat - unat (sp_paid sp ! seat) in
      if owed = 0 then []
      else [Transfer vault (seat_dest sp seat) (pda [ascii ''split'', sp_seed sp]) (word_of_nat owed)])"

lemma entitlement_le: "length (sp_dests sp) = 4 \<Longrightarrow> seat < 5 \<Longrightarrow> entitlement sp tot seat \<le> tot"
proof -
  assume "length (sp_dests sp) = 4" "seat < 5"
  then have "entitlement sp tot seat \<le> sum_list (map (entitlement sp tot) [0..<5])"
    using member_le_sum_list [of "entitlement sp tot seat" "map (entitlement sp tot) [0..<5]"] by simp
  then show ?thesis using entitlements_sum [OF \<open>length (sp_dests sp) = 4\<close>, of tot] by linarith
qed

lemma paid_up_unowed:
  assumes "split_ok sp tot" "seat < 5" "entitlement sp tot seat \<le> unat (sp_paid sp ! seat)"
  shows "paid_up sp tot seat = sp"
proof -
  have "entitlement sp tot seat = unat (sp_paid sp ! seat)"
    using assms by (simp add: split_ok_def le_antisym)
  then show ?thesis by (simp add: paid_up_def)
qed

text \<open>The last steps of a claim, shared by the merchant's seat and the meed seats.\<close>

lemma claim_u64_entitlement:
  assumes "split_ok sp (unat tot)" "seat < 5" "unat w = seat_weights sp ! seat"
    "unat tot = unat (bal :: u64) + paid_total sp"
  shows "\<exists>owed. claim_u64 tot w SPLIT_BP_TOTAL (sp_paid sp ! seat) = Inr owed
    \<and> unat owed = entitlement sp (unat tot) seat - unat (sp_paid sp ! seat)"
proof -
  have "seat_weights sp ! seat \<in> set (seat_weights sp)"
    using assms(1,2) by (simp add: length_seat_weights split_ok_def)
  then have "unat w \<le> 10000"
    using member_le_sum_list [of "unat w" "seat_weights sp"] seat_weights_sum [of sp] assms(1,3)
    by (simp add: split_ok_def)
  then have w: "w \<le> SPLIT_BP_TOTAL" "0 < SPLIT_BP_TOTAL" by (simp_all add: bp_totals word_le_nat_alt)
  have e: "unat tot * unat w div unat SPLIT_BP_TOTAL = entitlement sp (unat tot) seat"
    by (simp add: entitlement_def assms(3) bp_totals)
  have "entitlement sp (unat tot) seat - unat (sp_paid sp ! seat) \<le> unat bal"
    using owed_covered [OF assms(1,2)] assms(4) by linarith
  then have small: "entitlement sp (unat tot) seat - unat (sp_paid sp ! seat) < 2 ^ 64"
    using unat_lt2p [of bal] by simp
  show ?thesis
    using claim_u64_exact [OF w, of tot "sp_paid sp ! seat", unfolded e] small
    by (cases "claim_u64 tot w SPLIT_BP_TOTAL (sp_paid sp ! seat)") auto
qed


lemma seat_cases:
  "unat (seat :: u8) < 5 \<Longrightarrow> seat = 0 \<or> (\<exists>m < 4. unat seat = Suc m \<and> seat \<noteq> 0)"
  by (cases "unat seat") (auto simp: unat_eq_zero)

theorem split_claim_exact:
  assumes ok: "split_ok sp tot" and tot: "tot = unat bal + paid_total sp"
    and data: "read_token_amount vault_data = Inr bal" and seat: "unat seat < 5"
  shows "split_claim pda ata key (ata key (sp_mint sp)) vault_data (seat_dest sp (unat seat)) seat sp
    = Inr (paid_up sp tot (unat seat), owed_transfer pda (ata key (sp_mint sp)) sp tot (unat seat))"
proof -
  let ?ds = "sp_dests sp" and ?s = "unat seat" and ?vault = "ata key (sp_mint sp)"
  have len: "length ?ds = 4" "length (sp_paid sp) = 5" and small: "tot < 2 ^ 128"
    using ok by (simp_all add: split_ok_def)
  obtain bp_d where agg: "aggregate_bp_by_dest ?ds SCHEMA_01_BP = Inr (map (canonical_slot ?ds) [0..<4], bp_d)"
      and bp: "map unat bp_d = slot_weights ?ds SCHEMA_01_BP" "length bp_d = 4"
    using schema_aggregate [OF len(1)] by blast
  let ?T = "word_of_nat tot :: u128" and ?S = "word_of_nat (paid_total sp) :: u128"
  have T: "unat ?T = tot" by (rule unat_of_nat_small) (use small in simp)
  have S: "unat ?S = paid_total sp" by (rule unat_of_nat_small) (use small tot in simp)
  have "checked_sum 0 (sp_paid sp) = Inr ?S"
    using checked_sum_exact [of 0 "sp_paid sp"] small tot by (simp add: paid_total_def)
  moreover have "checked_add (ucast bal) ?S = Some ?T"
  proof -
    have u: "unat (ucast bal :: u128) = unat bal" using unat_lt2p [of bal] by (simp add: unat_ucast_small)
    show ?thesis unfolding checked_add_Some u S T using small by (simp add: tot)
  qed
  ultimately have sums: "checked_sum 0 (sp_paid sp) = Inr ?S" "checked_add (ucast bal) ?S = Some ?T" .
  have tail: "and_then (claim_u64 ?T w SPLIT_BP_TOTAL (sp_paid sp ! ?s)) (\<lambda>owed.
        if owed = 0 then Inr (sp, [])
        else and_then (ok_or (checked_add (sp_paid sp ! ?s) (ucast owed)) (Kit KitArithmeticDomain)) (\<lambda>new_paid.
          Inr (sp\<lparr>sp_paid := (sp_paid sp)[?s := new_paid]\<rparr>,
               [Transfer ?vault (seat_dest sp ?s) (pda [ascii ''split'', sp_seed sp]) owed])))
      = Inr (paid_up sp tot ?s, owed_transfer pda ?vault sp tot ?s)"
    if w: "unat w = seat_weights sp ! ?s" for w
  proof -
    obtain owed where o: "claim_u64 ?T w SPLIT_BP_TOTAL (sp_paid sp ! ?s) = Inr owed"
        "unat owed = entitlement sp tot ?s - unat (sp_paid sp ! ?s)"
      using claim_u64_entitlement [of sp ?T ?s w bal, unfolded T, OF ok seat w tot] by blast
    show ?thesis
    proof (cases "owed = 0")
      case True
      then have "entitlement sp tot ?s - unat (sp_paid sp ! ?s) = 0" using o(2) by simp
      then show ?thesis using o True paid_up_unowed [OF ok seat] by (simp add: owed_transfer_def)
    next
      case False
      have le: "unat (sp_paid sp ! ?s) \<le> entitlement sp tot ?s"
        using ok seat by (simp add: split_ok_def)
      have "unat (sp_paid sp ! ?s) + unat (ucast owed :: u128) = entitlement sp tot ?s"
        using o(2) le unat_lt2p [of owed] by (simp add: unat_ucast_small)
      moreover have "entitlement sp tot ?s < 2 ^ LENGTH(128)"
        using entitlement_le [OF len(1) seat, of tot] small by simp
      ultimately have add: "checked_add (sp_paid sp ! ?s) (ucast owed) = Some (word_of_nat (entitlement sp tot ?s))"
        by (simp add: checked_add_Some unat_of_nat_small)
      have "word_of_nat (entitlement sp tot ?s - unat (sp_paid sp ! ?s)) = owed"
        unfolding o(2) [symmetric] by simp
      moreover have "entitlement sp tot ?s - unat (sp_paid sp ! ?s) \<noteq> 0"
        using False o(2) by (metis unat_eq_zero)
      ultimately show ?thesis
        using o(1) False add by (simp add: paid_up_def owed_transfer_def Let_def)
    qed
  qed
  consider (1) "seat = 0" | (2) m where "m < 4" "unat seat = Suc m" "seat \<noteq> 0"
    using seat_cases [OF seat] by blast
  then show ?thesis
  proof cases
    case 1
    have w: "unat SPLIT_MERCHANT_BP = seat_weights sp ! ?s" using 1 by (simp add: seat_weights_def)
    show ?thesis unfolding tail [OF w, symmetric]
      using 1 agg data sums
      by (simp add: split_claim_def associated_token_account_def seat_dest_def Let_def del: and_then_Inr cong: if_cong)
  next
    case 2
    note s = 2
    show ?thesis
    proof (cases "canonical_slot ?ds m = m")
      case True
      have w: "unat (bp_d ! m) = seat_weights sp ! ?s"
        using arg_cong [OF bp(1), of "\<lambda>l. l ! m"] bp(2) s by (simp add: seat_weights_def)
      show ?thesis unfolding tail [OF w, symmetric]
        using s agg data sums True slot_paid [OF ok s(1) True]
        by (simp add: split_claim_def associated_token_account_def seat_dest_def Let_def del: and_then_Inr cong: if_cong)
    next
      case False
      note f = split_ok_folded [OF ok s(1) False]
      have e: "entitlement sp tot ?s = 0" "sp_paid sp ! ?s = 0" using f s(2) by simp_all
      have "paid_up sp tot ?s = sp" by (rule paid_up_unowed [OF ok seat]) (simp add: e)
      moreover have "owed_transfer pda ?vault sp tot ?s = []"
        using e by (simp add: owed_transfer_def)
      ultimately show ?thesis
        using s agg False seat
        by (simp add: split_claim_def associated_token_account_def seat_dest_def)
    qed
  qed
qed


lemma split_claim_guards:
  assumes "split_claim pda ata key vault data d seat sp = Inr r"
  shows "unat seat < 5" "vault = ata key (sp_mint sp)" "d = seat_dest sp (unat seat)"
proof -
  show u: "unat seat < 5" using assms by (simp add: split_claim_def)
  from assms show "vault = ata key (sp_mint sp)" "d = seat_dest sp (unat seat)"
    by (cases "seat = 0"; auto simp: split_claim_def associated_token_account_def seat_dest_def Let_def
        unat_eq_zero)+
qed

lemma paid_up_total:
  assumes "split_ok sp tot" "seat < 5"
  shows "paid_total (paid_up sp tot seat) = paid_total sp + (entitlement sp tot seat - unat (sp_paid sp ! seat))"
    "split_ok (paid_up sp tot seat) tot"
    "sent (owed_transfer pda vault sp tot seat) = entitlement sp tot seat - unat (sp_paid sp ! seat) \<or>
     2 ^ 64 \<le> entitlement sp tot seat - unat (sp_paid sp ! seat)"
proof -
  have len: "length (sp_dests sp) = 4" "length (sp_paid sp) = 5" "tot < 2 ^ 128"
    and le: "unat (sp_paid sp ! seat) \<le> entitlement sp tot seat"
    using assms by (auto simp: split_ok_def)
  have e: "unat (word_of_nat (entitlement sp tot seat) :: u128) = entitlement sp tot seat"
    using entitlement_le [OF len(1) assms(2), of tot] len(3) by (intro unat_of_nat_small) simp
  let ?paid = "unats (sp_paid sp)"
  have "?paid ! seat \<le> entitlement sp tot seat" "seat < length ?paid"
    using le len(2) assms(2) by simp_all
  then have "sum_list (?paid[seat := entitlement sp tot seat]) = sum_list ?paid + (entitlement sp tot seat - ?paid ! seat)"
    using member_le_sum_list [of "?paid ! seat" ?paid] by (simp add: sum_list_update)
  moreover have "unats ((sp_paid sp)[seat := word_of_nat (entitlement sp tot seat)]) = ?paid[seat := entitlement sp tot seat]"
    by (simp only: map_update e)
  ultimately show "paid_total (paid_up sp tot seat) = paid_total sp + (entitlement sp tot seat - unat (sp_paid sp ! seat))"
    using len(2) assms(2) by (simp add: paid_total_def paid_up_def)
  show "split_ok (paid_up sp tot seat) tot"
    unfolding split_ok_def
  proof (intro conjI allI impI)
    fix k :: nat assume k: "k < 5"
    have "entitlement (paid_up sp tot seat) tot k = entitlement sp tot k"
      by (simp add: paid_up_def entitlement_def seat_weights_def)
    moreover have "unat (sp_paid sp ! k) \<le> entitlement sp tot k" using assms(1) k by (simp add: split_ok_def)
    ultimately show "unat (sp_paid (paid_up sp tot seat) ! k) \<le> entitlement (paid_up sp tot seat) tot k"
      using e len(2) assms(2) k by (cases "k = seat") (simp_all add: paid_up_def)
  qed (use len in \<open>simp_all add: paid_up_def\<close>)
  show "sent (owed_transfer pda vault sp tot seat) = entitlement sp tot seat - unat (sp_paid sp ! seat) \<or>
     2 ^ 64 \<le> entitlement sp tot seat - unat (sp_paid sp ! seat)"
    using unat_of_nat_small [of "entitlement sp tot seat - unat (sp_paid sp ! seat)", where 'a = 64]
    by (cases "entitlement sp tot seat - unat (sp_paid sp ! seat) < 2 ^ 64") (auto simp: owed_transfer_def Let_def)
qed

text \<open>The life of a vault: deposits in any amounts, claims of any seat by anyone in any order. The
  last component is everything ever received. The transfer a claim requests is enacted by the token
  program.\<close>

inductive vault_run ::
  "(bytes list \<Rightarrow> pubkey) \<Rightarrow> (pubkey \<Rightarrow> pubkey \<Rightarrow> pubkey) \<Rightarrow> pubkey \<Rightarrow> kit_split \<Rightarrow> kit_split \<Rightarrow> u64 \<Rightarrow> nat \<Rightarrow> bool"
  for pda ata key sp0 where
  fresh: "vault_run pda ata key sp0 sp0 0 0"
| received: "vault_run pda ata key sp0 sp b tot \<Longrightarrow> unat b + unat n < 2 ^ 64 \<Longrightarrow> tot + unat n < 2 ^ 128 \<Longrightarrow>
    vault_run pda ata key sp0 sp (b + n) (tot + unat n)"
| claimed: "vault_run pda ata key sp0 sp b tot \<Longrightarrow> read_token_amount data = Inr b \<Longrightarrow>
    split_claim pda ata key vault data d seat sp = Inr (sp', ts) \<Longrightarrow>
    vault_run pda ata key sp0 sp' (b - word_of_nat (sent ts)) tot"

lemma claim_solvent:
  assumes "split_ok sp tot" "tot = unat b + paid_total sp" "read_token_amount data = Inr b"
    "split_claim pda ata key vault data d seat sp = Inr (sp', ts)"
  shows "sent ts \<le> unat b" "unat (b - word_of_nat (sent ts)) + paid_total sp' = tot" "split_ok sp' tot"
proof -
  note g = split_claim_guards [OF assms(4)]
  have r: "sp' = paid_up sp tot (unat seat)" "ts = owed_transfer pda (ata key (sp_mint sp)) sp tot (unat seat)"
    using split_claim_exact [OF assms(1,2,3) g(1), of pda ata key] assms(4) g(2,3) by auto
  have owed: "entitlement sp tot (unat seat) - unat (sp_paid sp ! unat seat) \<le> unat b"
    using owed_covered [OF assms(1) g(1)] assms(2) by linarith
  have "\<not> 2 ^ 64 \<le> entitlement sp tot (unat seat) - unat (sp_paid sp ! unat seat)"
    using owed unat_lt2p [of b] by simp
  then have s: "sent ts = entitlement sp tot (unat seat) - unat (sp_paid sp ! unat seat)"
    using paid_up_total(3) [OF assms(1) g(1)] r(2) by blast
  show "sent ts \<le> unat b" using s owed by simp
  have w: "unat (word_of_nat (sent ts) :: u64) = sent ts"
    using s owed unat_lt2p [of b] by (intro unat_of_nat_small) simp
  have "unat (b - word_of_nat (sent ts)) = unat b - sent ts"
    using \<open>sent ts \<le> unat b\<close> w by (simp add: unat_sub word_le_nat_alt)
  then show "unat (b - word_of_nat (sent ts)) + paid_total sp' = tot"
    using paid_up_total(1) [OF assms(1) g(1)] r(1) s owed assms(2) by simp
  show "split_ok sp' tot" using paid_up_total(2) [OF assms(1) g(1)] r(1) by simp
qed

lemma fresh_split_ok: "length (sp_dests sp) = 4 \<Longrightarrow> sp_paid sp = replicate 5 0 \<Longrightarrow> split_ok sp 0"
  by (simp add: split_ok_def)

lemma vault_run_invariant:
  assumes "vault_run pda ata key sp0 sp b tot" "length (sp_dests sp0) = 4" "sp_paid sp0 = replicate 5 0"
  shows "split_ok sp tot \<and> tot = unat b + paid_total sp"
  using assms(1)
proof (induction rule: vault_run.induct)
  case fresh
  then show ?case using fresh_split_ok [OF assms(2,3)] assms(3) by (simp add: paid_total_def)
next
  case (received sp b tot n)
  have "unat (b + n) = unat b + unat n" using received.hyps(2) by (simp add: unat_word_ariths)
  moreover have "split_ok sp (tot + unat n)"
    by (rule split_ok_mono [OF conjunct1 [OF received.IH] le_add1 received.hyps(3)])
  ultimately show ?case using received.IH by simp
next
  case (claimed sp b tot data vault d seat sp' ts)
  note c = claim_solvent [OF conjunct1 [OF claimed.IH] conjunct2 [OF claimed.IH] claimed.hyps(2,3)]
  then show ?case by (metis c(2,3))
qed

lemma vault_run_terms:
  assumes "vault_run pda ata key sp0 sp b tot" "length (sp_dests sp0) = 4" "sp_paid sp0 = replicate 5 0"
  shows "sp\<lparr>sp_paid := []\<rparr> = sp0\<lparr>sp_paid := []\<rparr>"
  using assms(1)
proof (induction rule: vault_run.induct)
  case (claimed sp b tot data vault d seat sp' ts)
  note inv = vault_run_invariant [OF claimed.hyps(1) assms(2,3)]
  note g = split_claim_guards [OF claimed.hyps(3)]
  have "sp' = paid_up sp tot (unat seat)"
    using split_claim_exact [of sp tot b data seat pda ata key] inv claimed.hyps(2,3) g by auto
  then show ?case using claimed.IH by (simp add: paid_up_def)
qed simp_all

end
