(* ===== verification/Contract_Link.thy ===== *)
theory Contract_Link
  imports Contract_Entry Contract_Split Attestation
begin

text \<open>
  The contract and the reference implementation compute the same identifiers and sign the same bytes:
  \<^verbatim>\<open>contracts/programs/paytp_kit/src/lib.rs\<close> against \<^verbatim>\<open>crates/paytp-core/src/derive.rs\<close> and
  \<^verbatim>\<open>crates/paytp-core/src/tier0/attest.rs\<close>.
\<close>

lemma entry_id_link:
  "derive_entry_id cs seed nonce amount t_open t_lapse contest = entry_id_purchase cs seed nonce amount t_open t_lapse contest"
  by (simp add: derive_entry_id_def entry_id_purchase_def labelled_hash_def labelled_def)

lemma claim_record_id_link:
  "derive_claim_record_id cs seed channel_id ckpt_ref p = claim_record_id cs seed channel_id ckpt_ref p"
  by (simp add: derive_claim_record_id_def claim_record_id_def labelled_hash_def labelled_def)

lemma seed_link:
  "derive_seed_instance cs bs = labelled_hash cs ''PayTPv1-instance'' bs"
  "derive_seed_split cs bs = labelled_hash cs ''PayTPv1-split'' bs"
  by (simp_all add: derive_seed_instance_def derive_seed_split_def labelled_hash_def labelled_def)

lemma attest_message_link:
  "length nonce = 32 \<Longrightarrow> length entry_id = 32 \<Longrightarrow> attest_message nonce entry_id = attest_covered Attestation nonce entry_id"
  by (simp add: attest_message_def attest_covered_def covered_def labelled_def attest_content_encode)

text \<open>The preimages of the deployed addresses: what the seed commits of an instance and a split.\<close>

lemma deploy_instance_Inr:
  "deploy_instance cs ex seed bs = Inr inst \<Longrightarrow>
   ex = None \<and> seed = labelled_hash cs ''PayTPv1-instance'' bs \<and>
   inst = \<lparr>in_seed = seed, in_merchant_key = take 32 (drop 2 bs),
     in_dests = map (\<lambda>i. take 32 (drop (34 + i * 32) bs)) [0..<4], in_mint = take 32 (drop 162 bs)\<rparr>"
  by (auto simp: deploy_instance_def seed_link Let_def)

lemma deploy_split_Inr:
  "deploy_split cs ex seed bs = Inr sp \<Longrightarrow>
   ex = None \<and> seed = labelled_hash cs ''PayTPv1-split'' bs \<and>
   sp = \<lparr>sp_seed = seed, sp_merchant_key = take 32 (drop 2 bs), sp_merchant_net = take 32 (drop 34 bs),
     sp_dests = map (\<lambda>i. take 32 (drop (66 + i * 32) bs)) [0..<4], sp_mint = take 32 (drop 194 bs),
     sp_paid = replicate 5 0\<rparr>"
  by (auto simp: deploy_split_def seed_link Let_def)

end
