(* ===== verification/Props_Contract.thy ===== *)
theory Props_Contract
  imports Contract_Link Example_Parameters
begin

text \<open>
  The properties of the contract kit (\<^verbatim>\<open>contracts/programs/paytp_kit/src/lib.rs\<close>): the entry machine,
  the division among destinations, the channel watermark, the split vault, and the agreement of its
  derivations with the reference implementation. The second section holds the concrete parameters of
  the instances.
\<close>

section \<open>Concrete parameters for the instances\<close>

text \<open>The first and the third role share a destination.\<close>

definition demo_instance :: kit_instance where
  "demo_instance = \<lparr>in_seed = [5], in_merchant_key = [6], in_dests = [[1], [2], [1], [3]], in_mint = [9]\<rparr>"

definition demo_entry :: kit_entry where
  "demo_entry = \<lparr>en_seed = [5], en_nonce = [7], en_amount = 1000, en_t_open = 20, en_t_lapse = 30, en_contest = 5,
     en_opened_at = 0, en_state = Funded, en_distributed = False, en_refund_account = [8]\<rparr>"

definition demo_id :: bytes where "demo_id = derive_entry_id toy_suite [5] [7] 1000 20 30 5"

lemma demo_ok: "instance_ok demo_instance"
  by (simp add: instance_ok_def demo_instance_def)

lemma demo_funded:
  "fund_entry toy_suite toy_pda None demo_instance [0] (entry_escrow toy_pda demo_id) [9] [2] [3] 10 demo_id [7] 1000 20 30 5 [8]
   = Inr (demo_entry, [CreateTokenAccount (entry_escrow toy_pda demo_id) [9] [0],
       Transfer [3] (entry_escrow toy_pda demo_id) [2] 1000])"
  by (simp add: fund_entry_def demo_instance_def demo_id_def demo_entry_def try_from_def Let_def)

lemma demo_entry_ok: "entry_ok toy_suite toy_pda demo_instance (10, demo_entry, [])"
  using fund_entry_ok [OF demo_funded] by blast

lemma demo_run:
  "\<exists>e ts. entry_runs toy_suite toy_pda [4] demo_instance (10, demo_entry, []) (31, e, ts) \<and> en_state e = Lapsed \<and> en_distributed e"
  by (rule lapse_exit [OF demo_ok demo_entry_ok]) (simp_all add: demo_entry_def demo_instance_def)

section \<open>The entry machine\<close>

text \<open>C3. Whatever sequence of transactions follows the funding of an entry, at whatever times and by
  whoever, the escrow pays out at most once and to the right parties: nothing before the entry is
  settled; then either, if it was attested or lapsed, each destination the floor of its combined
  weight and in total the amount less at most three units of dust, or, if it was cancelled or
  reclaimed, the whole amount to the refund account named at funding. Every transfer leaves this
  entry's escrow under the instance's authority.\<close>

theorem entry_pays_once:
  assumes "instance_ok inst"
    "fund_entry cs pda existing inst ikey escrow mint funder ftok now entry_id nonce amount t_open t_lapse contest racc = Inr (e0, rs)"
    "entry_runs cs pda prog inst (now, e0, []) (now', e, ts)"
  shows "if en_distributed e then
      list_all (from_escrow (entry_escrow pda entry_id) (pda [ascii ''instance'', in_seed inst])) ts \<and>
      ((en_state e = Attested \<or> en_state e = Lapsed) \<and>
         (\<forall>d. sent_to d ts = unat amount * dest_weight (in_dests inst) SCHEMA_01_BP d div 100) \<and>
         sent ts \<le> unat amount \<and> unat amount \<le> sent ts + 3 \<or>
       (en_state e = Cancelled \<or> en_state e = Reclaimed) \<and>
         ts = [Transfer (entry_escrow pda entry_id) racc (pda [ascii ''instance'', in_seed inst]) (ucast amount)])
    else ts = []"
proof -
  note f = fund_entry_ok [OF assms(2)]
  note r = entry_runs_ok [OF assms(1,3)]
  have t: "same_terms e e0" and p: "payout_ok cs pda inst e ts" using r f by (auto simp: entry_ok_def)
  have "entry_id_of cs e = entry_id" using same_terms_id [OF t] f by simp
  moreover have "en_amount e = amount" "en_refund_account e = racc" using t f by (auto simp: same_terms_def)
  ultimately show ?thesis using p by (simp add: payout_ok_def dest_share_def split: if_splits)
qed

theorem entry_pays_once_witness:
  "\<exists>e ts. entry_runs toy_suite toy_pda [4] demo_instance (10, demo_entry, []) (31, e, ts) \<and> en_state e = Lapsed \<and>
     en_distributed e \<and> sent_to [1] ts = 800"
proof -
  obtain e ts where r: "entry_runs toy_suite toy_pda [4] demo_instance (10, demo_entry, []) (31, e, ts)"
      "en_state e = Lapsed" "en_distributed e" using demo_run by blast
  have "dest_weight (in_dests demo_instance) SCHEMA_01_BP [1] = 80"
    by (simp add: dest_weight_def demo_instance_def SCHEMA_01_BP_def upt_rec)
  then have "sent_to [1] ts = 800"
    using entry_pays_once [OF demo_ok demo_funded r(1)] r(2,3) by auto
  with r show ?thesis by blast
qed

text \<open>The decision on an entry is final and its terms never change: once attested, cancelled,
  lapsed or reclaimed, an entry keeps that state under every further transaction, and nonce, amount,
  windows and refund account stay as funded, so its identifier stays the one its address commits.\<close>

theorem entry_decision_final:
  assumes "instance_ok inst"
    "fund_entry cs pda existing inst ikey escrow mint funder ftok now entry_id nonce amount t_open t_lapse contest racc = Inr (e0, rs)"
    "entry_runs cs pda prog inst (now, e0, []) (now', e, ts)"
    "entry_runs cs pda prog inst (now', e, ts) (now'', e', ts')"
  shows "same_terms e' e0 \<and> entry_id_of cs e' = entry_id \<and>
    (en_state e = Funded \<or> en_state e = ReclaimOpen \<or> en_state e' = en_state e)"
proof -
  note f = fund_entry_ok [OF assms(2)]
  have r: "entry_ok cs pda inst (now', e, ts)" "same_terms e e0" using entry_runs_ok [OF assms(1,3)] f by blast+
  have s: "same_terms e' e0" using entry_runs_ok [OF assms(1,4) r(1)] r(2) same_terms_trans by blast
  then have "entry_id_of cs e' = entry_id" using same_terms_id f by metis
  with s terminal_runs [OF assms(1,4) r(1)] show ?thesis by blast
qed

theorem entry_decision_final_witness:
  "\<exists>e ts. entry_runs toy_suite toy_pda [4] demo_instance (10, demo_entry, []) (31, e, ts) \<and> entry_id_of toy_suite e = demo_id"
proof -
  obtain e ts where r: "entry_runs toy_suite toy_pda [4] demo_instance (10, demo_entry, []) (31, e, ts)"
    using demo_run by blast
  have "entry_runs toy_suite toy_pda [4] demo_instance (31, e, ts) (31, e, ts)" by (simp add: entry_runs_def)
  from entry_decision_final [OF demo_ok demo_funded r this] r show ?thesis by blast
qed

text \<open>The windows are respected: a reclaim was opened between its opening time and the lapse time
  and executed strictly after the contest window, an entry lapsed strictly after its lapse time, and at
  every moment a funded entry admits the merchant's decision exactly when it cannot be lapsed.\<close>

theorem entry_windows:
  assumes "instance_ok inst"
    "fund_entry cs pda existing inst ikey escrow mint funder ftok now entry_id nonce amount t_open t_lapse contest racc = Inr (e0, rs)"
    "entry_runs cs pda prog inst (now, e0, []) (now', e, ts)"
  shows "(en_state e = ReclaimOpen \<or> en_state e = Reclaimed \<longrightarrow> t_open \<le> en_opened_at e \<and> en_opened_at e \<le> t_lapse) \<and>
    (en_state e = Reclaimed \<longrightarrow> unat (en_opened_at e) + unat contest < unat now') \<and>
    (en_state e = Lapsed \<longrightarrow> t_lapse < now') \<and>
    (en_state e = Funded \<longrightarrow> (guard_active e now' = Inr () \<longleftrightarrow> lapse now' e = Inl (Kit Window)))"
proof -
  have w: "en_t_open e0 = t_open" "en_t_lapse e0 = t_lapse" "en_contest e0 = contest"
    using assms(2) by (auto simp: fund_entry_def Let_def)
  have "same_terms e e0" "clock_ok now' e"
    using entry_runs_ok [OF assms(1,3)] fund_entry_ok [OF assms(2)] by (auto simp: entry_ok_def)
  with w have t: "en_t_open e = t_open" "en_t_lapse e = t_lapse" "en_contest e = contest" and c: "clock_ok now' e"
    by (simp_all add: same_terms_def)
  have "guard_active e now' = Inr () \<longleftrightarrow> lapse now' e = Inl (Kit Window)" if "en_state e = Funded"
    using that by (auto simp: guard_active_iff lapse_def not_le not_less and_then_Inl)
  with c t show ?thesis unfolding clock_ok_def by blast
qed

theorem entry_windows_witness:
  "\<exists>e ts. entry_runs toy_suite toy_pda [4] demo_instance (10, demo_entry, []) (31, e, ts) \<and> en_state e = Lapsed \<and> (30 :: u64) < 31"
proof -
  obtain e ts where r: "entry_runs toy_suite toy_pda [4] demo_instance (10, demo_entry, []) (31, e, ts)"
      "en_state e = Lapsed" using demo_run by blast
  from entry_windows [OF demo_ok demo_funded r(1)] r show ?thesis by blast
qed

text \<open>C40. No deposit is stuck on an absent merchant: from every reachable undecided entry, as soon as the
  clock passes the lapse time (or, with a reclaim open, the end of the contest window), transactions
  that anyone may send bring the entry to its payout, the lapse to the destinations or the reclaim to
  the funder.\<close>

theorem entry_exit_without_merchant:
  assumes "instance_ok inst"
    "fund_entry cs pda existing inst ikey escrow mint funder ftok now entry_id nonce amount t_open t_lapse contest racc = Inr (e0, rs)"
    "entry_runs cs pda prog inst (now, e0, []) (now', e, ts)" "now' \<le> later"
    "en_state e = Funded \<and> t_lapse < later \<or>
     en_state e = ReclaimOpen \<and> unat (en_opened_at e) + unat contest < unat later"
  shows "\<exists>e' us. entry_runs cs pda prog inst (now', e, ts) (later, e', us) \<and> en_distributed e' \<and>
    en_state e' = (if en_state e = Funded then Lapsed else Reclaimed)"
proof -
  have w: "en_seed e0 = in_seed inst" "en_t_lapse e0 = t_lapse" "en_contest e0 = contest"
    using assms(2) by (auto simp: fund_entry_def Let_def)
  have r: "same_terms e e0" "entry_ok cs pda inst (now', e, ts)"
    using entry_runs_ok [OF assms(1,3)] fund_entry_ok [OF assms(2)] by blast+
  with w have t: "en_seed e = in_seed inst" "en_t_lapse e = t_lapse" "en_contest e = contest"
    by (simp_all add: same_terms_def)
  from assms(5) show ?thesis
  proof
    assume a: "en_state e = Funded \<and> t_lapse < later"
    then obtain e' us where "entry_runs cs pda prog inst (now', e, ts) (later, e', us)" "en_state e' = Lapsed" "en_distributed e'"
      using lapse_exit [OF assms(1) r(2) t(1) _ assms(4)] t(2) by blast
    with a show ?thesis by auto
  next
    assume a: "en_state e = ReclaimOpen \<and> unat (en_opened_at e) + unat contest < unat later"
    then obtain e' us where "entry_runs cs pda prog inst (now', e, ts) (later, e', us)" "en_state e' = Reclaimed" "en_distributed e'"
      using reclaim_exit [OF r(2) t(1) _ assms(4)] t(3) by blast
    with a show ?thesis by auto
  qed
qed

theorem entry_exit_without_merchant_witness:
  "\<exists>e ts. entry_runs toy_suite toy_pda [4] demo_instance (10, demo_entry, []) (31, e, ts) \<and> en_distributed e"
proof -
  have "entry_runs toy_suite toy_pda [4] demo_instance (10, demo_entry, []) (10, demo_entry, [])"
    by (simp add: entry_runs_def)
  from entry_exit_without_merchant [OF demo_ok demo_funded this, of 31] show ?thesis
    by (auto simp: demo_entry_def)
qed


section \<open>The channel watermark\<close>

text \<open>A sequence of advances of one channel, each in its own transaction on the stored account.\<close>

fun advance_all :: "(bytes list \<Rightarrow> pubkey) \<Rightarrow> kit_instance \<Rightarrow> bytes \<Rightarrow> u128 list \<Rightarrow> channel_meed option \<Rightarrow> channel_meed option tx" where
  "advance_all pda inst ch [] acct = Inr acct"
| "advance_all pda inst ch (t # ts) acct =
     and_then (advance_channel_meed pda inst ch t acct) (\<lambda>(acct', rs). advance_all pda inst ch ts acct')"

definition highest_target :: "u128 list \<Rightarrow> nat" where
  "highest_target ts = fold max (map unat ts) 0"

lemma advance_all_from:
  assumes "length (in_dests inst) = 4" "n < 2 ^ 128"
  shows "advance_all pda inst ch ts (watermark_account inst ch n) = Inr (watermark_account inst ch (fold max (map unat ts) n))"
  using assms(2)
proof (induction ts arbitrary: n)
  case (Cons t ts)
  have "max n (unat t) < 2 ^ 128" using Cons.prems unat_lt2p [of t] by simp
  then show ?case using Cons.IH [of "max n (unat t)"] advance_exact [OF assms(1) Cons.prems, of pda ch t]
    by (simp add: max.commute)
qed simp

lemma advance_all_fresh:
  "length (in_dests inst) = 4 \<Longrightarrow> advance_all pda inst ch ts None = Inr (watermark_account inst ch (highest_target ts))"
  using advance_all_from [of inst 0 pda ch ts] by (simp add: watermark_account_def highest_target_def)

lemma highest_target_less: "highest_target ts < 2 ^ 128"
proof -
  have "n < 2 ^ 128 \<Longrightarrow> fold max (map unat ts) n < 2 ^ 128" for n
    by (induction ts arbitrary: n) (use unat_lt2p [where 'a = 128] in \<open>auto simp: max_def\<close>)
  then show ?thesis by (simp add: highest_target_def)
qed

text \<open>C6. The watermark is exactly-once by absolute position: any sequence of advances of a channel
  (retries, duplicates, stale or out-of-order targets, several draws) succeeds and leaves the account
  that one advance to the highest target leaves. It records that target, per destination the floor of
  its combined weight over the cumulative target, and a residue that completes the target and is at
  most three units.\<close>

theorem watermark_exactly_once:
  assumes "instance_ok inst" "0 < highest_target ts"
  shows "\<exists>cr. advance_all pda inst ch ts None = Inr (Some cr) \<and>
    advance_all pda inst ch [word_of_nat (highest_target ts)] None = Inr (Some cr) \<and>
    unat (cm_funded_p cr) = highest_target ts \<and>
    map unat (cm_paid cr) = map (\<lambda>w. highest_target ts * w div 100) (slot_weights (in_dests inst) SCHEMA_01_BP) \<and>
    sum_list (map unat (cm_paid cr)) + unat (cm_residue cr) = highest_target ts \<and> unat (cm_residue cr) \<le> 3"
proof -
  let ?n = "highest_target ts" and ?ds = "in_dests inst"
  have len: "length ?ds = 4" using assms(1) by (simp add: instance_ok_def)
  have n: "?n < 2 ^ 128" by (rule highest_target_less)
  have one: "highest_target [word_of_nat ?n] = ?n"
    using n by (simp add: highest_target_def unat_of_nat_small)
  have acc: "watermark_account inst ch ?n = Some (watermark inst ch ?n)"
    using assms(2) by (simp add: watermark_account_def)
  have s: "sum_list (slot_shares ?ds ?n) \<le> ?n" "?n \<le> sum_list (slot_shares ?ds ?n) + 3"
    by (rule sum_slot_shares_le [OF len], rule slot_shares_dust [OF len])
  have paid: "map unat (cm_paid (watermark inst ch ?n)) = slot_shares ?ds ?n"
    using unats_of_small [where 'a = 128] slot_shares_small [OF len n] by (simp add: watermark_def)
  have res: "unat (cm_residue (watermark inst ch ?n)) = ?n - sum_list (slot_shares ?ds ?n)"
    using n by (simp add: watermark_def unat_of_nat_small)
  have f: "unat (cm_funded_p (watermark inst ch ?n)) = ?n"
    using n by (simp add: watermark_def unat_of_nat_small)
  show ?thesis
    using advance_all_fresh [OF len, of pda ch ts] advance_all_fresh [OF len, of pda ch "[word_of_nat ?n]"] one acc f paid res s
    by (intro exI [of _ "watermark inst ch ?n"]) (simp add: slot_shares_def del: advance_all.simps)
qed

theorem watermark_exactly_once_witness:
  "\<exists>cr. advance_all toy_pda demo_instance [1] [500, 1001, 1001, 7] None = Inr (Some cr) \<and> unat (cm_funded_p cr) = 1001"
proof -
  have "highest_target [500, 1001, 1001, 7] = 1001" by (simp add: highest_target_def)
  with watermark_exactly_once [OF demo_ok, of "[500, 1001, 1001, 7]" toy_pda "[1]"] show ?thesis by auto
qed

text \<open>A claim record divides its amount exactly: \<open>fund_claim_record\<close> accepts an amount exactly when
  no record exists at the address yet, the amount is positive and the record's address commits it, and then each slot holds the floor of its
  destination's combined weight and the residue completes the amount, so nothing is created or lost.\<close>

theorem claim_record_divides:
  assumes "instance_ok inst"
  shows "(\<exists>r. fund_claim_record cs existing inst key channel_id ckpt_ref p = Inr r \<and> cl_amount r = p \<and>
      map unat (cl_shares r) = map (\<lambda>w. unat p * w div 100) (slot_weights (in_dests inst) SCHEMA_01_BP) \<and>
      sum_list (map unat (cl_shares r)) + unat (cl_residue r) = unat p)
    \<longleftrightarrow> existing = None \<and> 0 < p \<and> key = claim_record_id cs (in_seed inst) channel_id ckpt_ref p"
proof -
  have len: "length (in_dests inst) = 4" using assms by (simp add: instance_ok_def)
  obtain r where r: "distribute_p_into (in_dests inst) p = Inr r" "cl_amount r = p"
      "map unat (cl_shares r) = slot_shares (in_dests inst) (unat p)"
      "unat (cl_residue r) = unat p - sum_list (slot_shares (in_dests inst) (unat p))"
    using distribute_p_into_exact [OF len] by blast
  have "fund_claim_record cs existing inst key channel_id ckpt_ref p = (if existing \<noteq> None then Inl Constraint else if p = 0 then Inl (Kit ZeroAmount)
      else if key \<noteq> claim_record_id cs (in_seed inst) channel_id ckpt_ref p then Inl (Kit IdMismatch) else Inr r)"
    using r(1) by (simp add: fund_claim_record_def claim_record_id_link ensure_def Let_def word_neq_0_conv)
  then show ?thesis
    using r(2-4) sum_slot_shares_le [OF len, of "unat p"] by (auto simp: slot_shares_def word_neq_0_conv)
qed

theorem claim_record_divides_witness:
  "\<exists>r. fund_claim_record toy_suite None demo_instance (claim_record_id toy_suite [5] [1] [2] 1001) [1] [2] 1001 = Inr r \<and>
    map unat (cl_shares r) = [800, 100, 0, 100]"
proof -
  have "slot_weights (in_dests demo_instance) SCHEMA_01_BP = [80, 10, 0, 10]"
    by (simp add: slot_weights_def dest_weight_def canonical_slot_def demo_instance_def SCHEMA_01_BP_def upt_rec)
  moreover have "in_seed demo_instance = [5]" by (simp add: demo_instance_def)
  ultimately show ?thesis
    using claim_record_divides [OF demo_ok, of toy_suite None "claim_record_id toy_suite [5] [1] [2] 1001" "[1]" "[2]" 1001]
    by auto
qed

section \<open>The split vault\<close>

text \<open>C5. A deployed split stays solvent and fair under every sequence of deposits and claims, of any
  seat, by anyone, in any order: the vault's balance plus everything paid is what it ever received, no
  seat has drawn more than the floor of its weight over that total, and a claim of any seat at the
  bound accounts succeeds, moves exactly what the seat is still owed (which the balance covers) and
  leaves its cumulative at the entitlement. The deposits are 64-bit token amounts whose total stays in the
  128-bit domain of the cumulatives, a bound of the machine.\<close>

theorem split_vault_solvent:
  assumes "deploy_split cs None seed canonical = Inr sp0" "vault_run pda ata key sp0 sp b tot"
    "read_token_amount data = Inr b" "unat seat < 5"
  shows "unat b + paid_total sp = tot \<and>
    (\<forall>k < 5. unat (sp_paid sp ! k) \<le> entitlement sp tot k) \<and>
    (\<exists>sp' ts. split_claim pda ata key (ata key (sp_mint sp)) data (seat_dest sp (unat seat)) seat sp = Inr (sp', ts) \<and>
      sent ts = entitlement sp tot (unat seat) - unat (sp_paid sp ! unat seat) \<and> sent ts \<le> unat b \<and>
      unat (sp_paid sp' ! unat seat) = entitlement sp tot (unat seat))"
proof -
  have fresh: "length (sp_dests sp0) = 4" "sp_paid sp0 = replicate 5 0"
    using deploy_split_Inr [OF assms(1)] by simp_all
  have ok: "split_ok sp tot" and tot: "tot = unat b + paid_total sp"
    using vault_run_invariant [OF assms(2) fresh] by blast+
  note c = split_claim_exact [OF ok tot assms(3,4), of pda ata key]
  note owed = owed_covered [OF ok assms(4)]
  have small: "\<not> 2 ^ 64 \<le> entitlement sp tot (unat seat) - unat (sp_paid sp ! unat seat)"
    using owed tot unat_lt2p [of b] by simp
  have e: "unat (word_of_nat (entitlement sp tot (unat seat)) :: u128) = entitlement sp tot (unat seat)"
    using entitlement_le [of sp "unat seat" tot] ok assms(4) by (intro unat_of_nat_small) (simp add: split_ok_def)
  have "sent (owed_transfer pda (ata key (sp_mint sp)) sp tot (unat seat)) = entitlement sp tot (unat seat) - unat (sp_paid sp ! unat seat)"
    using paid_up_total(3) [OF ok assms(4)] small by blast
  moreover have "unat (sp_paid (paid_up sp tot (unat seat)) ! unat seat) = entitlement sp tot (unat seat)"
    using e ok assms(4) by (simp add: paid_up_def split_ok_def)
  ultimately show ?thesis using c ok tot owed by (auto simp: split_ok_def)
qed

definition demo_preimage :: bytes where
  "demo_preimage = [0x00, 0x20] @ replicate 32 6 @ replicate 32 7 @ replicate 32 1 @ replicate 32 2 @ replicate 32 1 @ replicate 32 3 @ replicate 32 9"

lemma demo_split_deployed:
  "\<exists>sp0. deploy_split toy_suite None (derive_seed_split toy_suite demo_preimage) demo_preimage = Inr sp0"
  by (simp add: deploy_split_def demo_preimage_def Let_def)

definition demo_vault :: bytes where "demo_vault = replicate 64 0 @ [0x10, 0x27, 0, 0, 0, 0, 0, 0]"

lemma demo_vault_balance: "read_token_amount demo_vault = Inr 10000"
  by (simp add: read_token_amount_def demo_vault_def be_nat_def)

theorem split_vault_solvent_witness:
  "\<exists>sp0 sp' ts. deploy_split toy_suite None (derive_seed_split toy_suite demo_preimage) demo_preimage = Inr sp0 \<and>
    vault_run toy_pda toy_ata [1] sp0 sp0 (0 + 10000) (0 + unat (10000 :: u64)) \<and>
    split_claim toy_pda toy_ata [1] (toy_ata [1] (sp_mint sp0)) demo_vault (seat_dest sp0 (unat (0 :: u8))) 0 sp0 = Inr (sp', ts) \<and>
    sent ts \<le> unat (10000 :: u64)"
proof -
  obtain sp0 where d: "deploy_split toy_suite None (derive_seed_split toy_suite demo_preimage) demo_preimage = Inr sp0"
    using demo_split_deployed by blast
  have v: "vault_run toy_pda toy_ata [1] sp0 sp0 (0 + 10000) (0 + unat (10000 :: u64))"
    by (rule received [OF fresh]) simp_all
  have r: "read_token_amount demo_vault = Inr (0 + 10000)" using demo_vault_balance by simp
  from split_vault_solvent [OF d v r, of 0] d v show ?thesis by auto
qed

section \<open>Agreement with the reference implementation\<close>

text \<open>The contract recomputes the identifiers of the reference implementation byte for byte: the
  entry identifier of a purchase, the claim record identifier of a settlement, the two seeds over the
  canonical bytes, and the message of a detached attestation, which is the covered bytes of the
  signed attestation object.\<close>

theorem contract_matches_core:
  assumes "length nonce = 32" "length entry_id = 32"
  shows "derive_entry_id cs seed nonce amount t_open t_lapse contest = entry_id_purchase cs seed nonce amount t_open t_lapse contest \<and>
    derive_claim_record_id cs seed channel_id ckpt_ref p = claim_record_id cs seed channel_id ckpt_ref p \<and>
    derive_seed_instance cs bs = labelled_hash cs ''PayTPv1-instance'' bs \<and>
    derive_seed_split cs bs = labelled_hash cs ''PayTPv1-split'' bs \<and>
    attest_message nonce entry_id = attest_covered Attestation nonce entry_id"
  using entry_id_link claim_record_id_link seed_link attest_message_link [OF assms] by blast

theorem contract_matches_core_witness:
  "attest_message (replicate 32 1) (replicate 32 2) = attest_covered Attestation (replicate 32 1) (replicate 32 2)"
  using contract_matches_core [of "replicate 32 1" "replicate 32 2"] by simp

text \<open>The addresses bind the destinations: if the two preimages presented for one instance seed (or
  one split seed) do not collide under SHA-256, the deployed records are the same, so nobody can occupy
  an address with other destinations, another merchant or another mint.\<close>

theorem seed_binds_deployment:
  assumes "deploy_instance cs None seed c1 = Inr i1" "deploy_instance cs None seed c2 = Inr i2"
    "deploy_split cs None seed' d1 = Inr s1" "deploy_split cs None seed' d2 = Inr s2"
    "inj_on (sha256 cs) {labelled ''PayTPv1-instance'' c1, labelled ''PayTPv1-instance'' c2}"
    "inj_on (sha256 cs) {labelled ''PayTPv1-split'' d1, labelled ''PayTPv1-split'' d2}"
  shows "i1 = i2 \<and> s1 = s2"
proof -
  note i = deploy_instance_Inr [OF assms(1)] deploy_instance_Inr [OF assms(2)]
  note s = deploy_split_Inr [OF assms(3)] deploy_split_Inr [OF assms(4)]
  have "labelled ''PayTPv1-instance'' c1 = labelled ''PayTPv1-instance'' c2"
    by (rule inj_onD [OF assms(5)]) (use i in \<open>auto simp: labelled_hash_def\<close>)
  moreover have "labelled ''PayTPv1-split'' d1 = labelled ''PayTPv1-split'' d2"
    by (rule inj_onD [OF assms(6)]) (use s in \<open>auto simp: labelled_hash_def\<close>)
  ultimately have "c1 = c2" "d1 = d2" by (simp_all add: labelled_def)
  then show ?thesis using i s by simp
qed

theorem seed_binds_deployment_witness:
  "\<exists>i s. deploy_instance toy_suite None (derive_seed_instance toy_suite demo_preimage) demo_preimage = Inr i \<and>
     deploy_split toy_suite None (derive_seed_split toy_suite demo_preimage) demo_preimage = Inr s \<and> i = i \<and> s = s"
proof -
  obtain s where s: "deploy_split toy_suite None (derive_seed_split toy_suite demo_preimage) demo_preimage = Inr s"
    using demo_split_deployed by blast
  have "\<exists>i. deploy_instance toy_suite None (derive_seed_instance toy_suite demo_preimage) demo_preimage = Inr i"
    by (simp add: deploy_instance_def demo_preimage_def Let_def)
  then obtain i where i: "deploy_instance toy_suite None (derive_seed_instance toy_suite demo_preimage) demo_preimage = Inr i" by blast
  from seed_binds_deployment [OF i i s s] s i show ?thesis by simp
qed

text \<open>A detached attestation is accepted exactly when the entry belongs to the instance and is still
  active and some instruction of the transaction, at any position and among any others, is an Ed25519
  verification whose key is the instance's merchant key and whose message is the attestation of this
  entry; only the state changes.\<close>

theorem detached_attestation:
  "attest_detached cs prog ixs inst now e = Inr e' \<longleftrightarrow>
   en_seed e = in_seed inst \<and>
   (\<exists>ix \<in> set ixs. ed25519_match prog (in_merchant_key inst) (attest_message (en_nonce e) (entry_id_of cs e)) ix) \<and>
   (en_state e = Funded \<and> now \<le> en_t_lapse e \<or> en_state e = ReclaimOpen) \<and> e' = e\<lparr>en_state := Attested\<rparr>"
  by (auto simp: attest_detached_def entry_id_of_def verify_detached_iff guard_active_iff Let_def)

end
