(* ===== verification/Rail_Instance.thy ===== *)
theory Rail_Instance
  imports Attestation Derive
begin

text \<open>
  The off-chain meed instance, \<^verbatim>\<open>crates/paytp-rail/src/instance.rs\<close>: purchase entries with their state
  machine, claim records, and the cumulative watermark of each channel. A hash map is a partial
  function; an operation that mutates the instance returns the new one, and leaves it unchanged when it
  returns an error. An \<open>expect\<close> that fails and an underflow under \<open>overflow-checks\<close> are \<open>Panic\<close>.
\<close>

section \<open>Types\<close>

record meed_share =
  ms_dest :: bytes
  ms_bp :: u16

record payout =
  po_dest :: bytes
  po_amount :: u128

datatype entry_status = Funded | Attested | Cancelled | ReclaimOpen | Reclaimed | Lapsed

datatype entry_error = Duplicate | Lapsed | ZeroAmount | NotFound | Terminal | BadSignature | Window

datatype rail_state = Funded | Attested | Cancelled | ReclaimOpen (opened_at: u64) | Reclaimed | Lapsed

record rail_entry =
  re_nonce :: bytes
  re_amount :: u128
  re_refund_ptr :: bytes
  re_t_open :: u64
  re_t_lapse :: u64
  re_contest :: u64
  re_state :: rail_state

record channel_watermark =
  cw_funded_p :: u128
  cw_paid :: "u128 list"
  cw_residue :: u128

record meed_instance =
  mi_merchant_key :: bytes
  mi_seed_instance :: bytes
  mi_meed :: "meed_share list"
  mi_bp_total :: nat
  mi_entries :: "bytes \<rightharpoonup> rail_entry"
  mi_claim_records :: "bytes set"
  mi_v_received :: u128
  mi_paid :: "u128 list"
  mi_channel_paid :: "bytes \<rightharpoonup> channel_watermark"

type_synonym 'a rail = "entry_error fault + 'a"

section \<open>Deployment\<close>

text \<open>One step of the fold by destination: the first share of the same destination takes the weight.\<close>

fun fold_share :: "meed_share list \<Rightarrow> meed_share \<Rightarrow> meed_share list" where
  "fold_share [] r = [r]"
| "fold_share (a # agg) r =
     (if ms_dest a = ms_dest r then a\<lparr>ms_bp := sat_add (ms_bp a) (ms_bp r)\<rparr> # agg
      else a # fold_share agg r)"

definition instance_new :: "bytes \<Rightarrow> meed_share list \<Rightarrow> bytes \<Rightarrow> meed_instance" where
  "instance_new mk meed seed =
     (let agg = foldl fold_share [] meed;
          bp_total = sum_list (map (\<lambda>r. unat (ms_bp r)) agg);
          n = length agg
      in \<lparr>mi_merchant_key = mk, mi_seed_instance = seed, mi_meed = agg, mi_bp_total = bp_total,
          mi_entries = Map.empty, mi_claim_records = {}, mi_v_received = 0,
          mi_paid = replicate n 0, mi_channel_paid = Map.empty\<rparr>)"

fun status_of :: "rail_state \<Rightarrow> entry_status" where
  "status_of rail_state.Funded = entry_status.Funded"
| "status_of rail_state.Attested = entry_status.Attested"
| "status_of rail_state.Cancelled = entry_status.Cancelled"
| "status_of (rail_state.ReclaimOpen t) = entry_status.ReclaimOpen"
| "status_of rail_state.Reclaimed = entry_status.Reclaimed"
| "status_of rail_state.Lapsed = entry_status.Lapsed"

definition instance_status :: "meed_instance \<Rightarrow> bytes \<Rightarrow> entry_status option" where
  "instance_status inst eid = map_option (\<lambda>e. status_of (re_state e)) (mi_entries inst eid)"

section \<open>Running distribution\<close>

text \<open>\<open>(v * bp) / bp_total\<close> in big integers, narrowed by \<open>try_from().expect()\<close>.\<close>

definition entitlement :: "nat \<Rightarrow> nat \<Rightarrow> meed_share \<Rightarrow> u128 rail" where
  "entitlement v tot r =
     (let ent = v * unat (ms_bp r) div tot in
      if ent < 2 ^ 128 then Inr (word_of_nat ent) else Inl Panic)"

fun share_loop :: "nat \<Rightarrow> nat \<Rightarrow> meed_share list \<Rightarrow> u128 list \<Rightarrow> (payout list \<times> u128 list) rail" where
  "share_loop v tot [] paid = Inr ([], paid)"
| "share_loop v tot (r # rs) [] = Inl Panic"
| "share_loop v tot (r # rs) (p # ps) =
     and_then (entitlement v tot r) (\<lambda>ent.
     and_then (ok_or (checked_sub ent p) Panic) (\<lambda>claimable.
     and_then (share_loop v tot rs ps) (\<lambda>(out, ps').
     if 0 < claimable then Inr (\<lparr>po_dest = ms_dest r, po_amount = claimable\<rparr> # out, ent # ps')
     else Inr (out, p # ps'))))"

definition instance_distribute :: "u128 \<Rightarrow> meed_instance \<Rightarrow> (payout list \<times> meed_instance) rail" where
  "instance_distribute amount inst =
     (if mi_bp_total inst = 0 then Inr ([], inst)
      else
        let v = sat_add (mi_v_received inst) amount in
        and_then (share_loop (unat v) (mi_bp_total inst) (mi_meed inst) (mi_paid inst)) (\<lambda>(out, paid).
        Inr (out, inst\<lparr>mi_v_received := v, mi_paid := paid\<rparr>)))"

section \<open>The entry machine\<close>

definition instance_fund_entry ::
  "crypto_suite \<Rightarrow> bytes \<Rightarrow> u128 \<Rightarrow> bytes \<Rightarrow> u64 \<Rightarrow> u64 \<Rightarrow> u64 \<Rightarrow> u64 \<Rightarrow> meed_instance \<Rightarrow> (bytes \<times> meed_instance) rail" where
  "instance_fund_entry cs nonce amount refund_ptr t_open t_lapse contest now inst =
     and_then (ensure (amount \<noteq> 0) (Err ZeroAmount)) (\<lambda>_.
     and_then (ensure (\<not> t_lapse < now) (Err entry_error.Lapsed)) (\<lambda>_.
     and_then (ensure (\<not> t_lapse < t_open) (Err Window)) (\<lambda>_.
     let eid = entry_id_purchase cs (mi_seed_instance inst) nonce amount t_open t_lapse contest in
     and_then (ensure (mi_entries inst eid = None) (Err Duplicate)) (\<lambda>_.
     Inr (eid, inst\<lparr>mi_entries := (mi_entries inst)(eid \<mapsto>
       \<lparr>re_nonce = nonce, re_amount = amount, re_refund_ptr = refund_ptr, re_t_open = t_open,
        re_t_lapse = t_lapse, re_contest = contest, re_state = rail_state.Funded\<rparr>)\<rparr>)))))"

definition check_sig :: "crypto_suite \<Rightarrow> meed_instance \<Rightarrow> rail_entry \<Rightarrow> bytes \<Rightarrow> signed \<Rightarrow> attest_kind \<Rightarrow> unit rail" where
  "check_sig cs inst e eid sg kind =
     ensure (\<not> (sg_kind sg \<noteq> kind \<or> sg_entry_id sg \<noteq> eid \<or> sg_nonce sg \<noteq> re_nonce e \<or>
       \<not> signed_verify cs (mi_merchant_key inst) sg)) (Err BadSignature)"

definition set_state :: "bytes \<Rightarrow> rail_entry \<Rightarrow> rail_state \<Rightarrow> meed_instance \<Rightarrow> meed_instance" where
  "set_state eid e st inst = inst\<lparr>mi_entries := (mi_entries inst)(eid \<mapsto> e\<lparr>re_state := st\<rparr>)\<rparr>"

text \<open>The match both signed transitions open with.\<close>

definition ensure_open :: "rail_entry \<Rightarrow> unit rail" where
  "ensure_open e =
     (case re_state e of
        rail_state.Funded \<Rightarrow> Inr ()
      | rail_state.ReclaimOpen t \<Rightarrow> Inr ()
      | _ \<Rightarrow> Inl (Err Terminal))"

definition instance_attest ::
  "crypto_suite \<Rightarrow> bytes \<Rightarrow> signed \<Rightarrow> meed_instance \<Rightarrow> (payout list \<times> meed_instance) rail" where
  "instance_attest cs eid sg inst =
     and_then (ok_or (mi_entries inst eid) (Err NotFound)) (\<lambda>e.
     and_then (ensure_open e) (\<lambda>_.
     and_then (check_sig cs inst e eid sg Attestation) (\<lambda>_.
     instance_distribute (re_amount e) (set_state eid e rail_state.Attested inst))))"

definition instance_cancel ::
  "crypto_suite \<Rightarrow> bytes \<Rightarrow> signed \<Rightarrow> meed_instance \<Rightarrow> (payout list \<times> meed_instance) rail" where
  "instance_cancel cs eid sg inst =
     and_then (ok_or (mi_entries inst eid) (Err NotFound)) (\<lambda>e.
     and_then (ensure_open e) (\<lambda>_.
     and_then (check_sig cs inst e eid sg Cancellation) (\<lambda>_.
     Inr ([\<lparr>po_dest = re_refund_ptr e, po_amount = re_amount e\<rparr>],
          set_state eid e rail_state.Cancelled inst))))"

definition instance_open_reclaim :: "bytes \<Rightarrow> u64 \<Rightarrow> meed_instance \<Rightarrow> meed_instance rail" where
  "instance_open_reclaim eid now inst =
     and_then (ok_or (mi_entries inst eid) (Err NotFound)) (\<lambda>e.
     and_then (ensure (re_state e = rail_state.Funded) (Err Terminal)) (\<lambda>_.
     and_then (ensure (\<not> (now < re_t_open e \<or> re_t_lapse e < now)) (Err Window)) (\<lambda>_.
     Inr (set_state eid e (rail_state.ReclaimOpen now) inst))))"

definition instance_reclaim_exec_time :: "bytes \<Rightarrow> meed_instance \<Rightarrow> u64 option" where
  "instance_reclaim_exec_time eid inst =
     (case mi_entries inst eid of
        None \<Rightarrow> None
      | Some e \<Rightarrow> (case re_state e of
          rail_state.ReclaimOpen t \<Rightarrow> Some (sat_add t (re_contest e))
        | _ \<Rightarrow> None))"

definition instance_execute_reclaim :: "bytes \<Rightarrow> u64 \<Rightarrow> meed_instance \<Rightarrow> (payout list \<times> meed_instance) rail" where
  "instance_execute_reclaim eid now inst =
     and_then (ok_or (mi_entries inst eid) (Err NotFound)) (\<lambda>e.
     and_then (case re_state e of
         rail_state.ReclaimOpen t \<Rightarrow> Inr t
       | rail_state.Funded \<Rightarrow> Inl (Err Window)
       | _ \<Rightarrow> Inl (Err Terminal)) (\<lambda>t.
     and_then (ensure (\<not> now \<le> sat_add t (re_contest e)) (Err Window)) (\<lambda>_.
     Inr ([\<lparr>po_dest = re_refund_ptr e, po_amount = re_amount e\<rparr>],
          set_state eid e rail_state.Reclaimed inst))))"

definition instance_claim_lapsed :: "bytes \<Rightarrow> u64 \<Rightarrow> meed_instance \<Rightarrow> (payout list \<times> meed_instance) rail" where
  "instance_claim_lapsed eid now inst =
     and_then (ok_or (mi_entries inst eid) (Err NotFound)) (\<lambda>e.
     and_then (ensure (re_state e = rail_state.Funded) (Err Terminal)) (\<lambda>_.
     and_then (ensure (\<not> now \<le> re_t_lapse e) (Err Window)) (\<lambda>_.
     instance_distribute (re_amount e) (set_state eid e rail_state.Lapsed inst))))"

section \<open>Claim records and channel watermarks\<close>

definition instance_fund_claim_record ::
  "crypto_suite \<Rightarrow> bytes \<Rightarrow> bytes \<Rightarrow> u128 \<Rightarrow> meed_instance \<Rightarrow> (bytes \<times> payout list \<times> meed_instance) rail" where
  "instance_fund_claim_record cs channel_id ckpt_ref amount inst =
     and_then (ensure (amount \<noteq> 0) (Err ZeroAmount)) (\<lambda>_.
     let key = claim_record_id cs (mi_seed_instance inst) channel_id ckpt_ref amount in
     and_then (ensure (key \<notin> mi_claim_records inst) (Err Duplicate)) (\<lambda>_.
     and_then (instance_distribute amount
         (inst\<lparr>mi_claim_records := insert key (mi_claim_records inst)\<rparr>)) (\<lambda>(out, inst').
     Inr (key, out, inst'))))"

definition instance_claim_record_funded :: "crypto_suite \<Rightarrow> bytes \<Rightarrow> bytes \<Rightarrow> u128 \<Rightarrow> meed_instance \<Rightarrow> bool" where
  "instance_claim_record_funded cs channel_id ckpt_ref amount inst \<longleftrightarrow>
     claim_record_id cs (mi_seed_instance inst) channel_id ckpt_ref amount \<in> mi_claim_records inst"

fun advance_loop :: "nat \<Rightarrow> nat \<Rightarrow> meed_share list \<Rightarrow> u128 list \<Rightarrow> u128 \<Rightarrow> (payout list \<times> u128 list \<times> u128) rail" where
  "advance_loop v tot [] paid distributed = Inr ([], paid, distributed)"
| "advance_loop v tot (r # rs) [] distributed = Inl Panic"
| "advance_loop v tot (r # rs) (p # ps) distributed =
     and_then (entitlement v tot r) (\<lambda>ent.
     let p' = (if p < ent then ent else p) in
     and_then (advance_loop v tot rs ps (sat_add distributed p')) (\<lambda>(out, ps', distributed').
     Inr (if p < ent then \<lparr>po_dest = ms_dest r, po_amount = ent - p\<rparr> # out else out,
          p' # ps', distributed')))"

definition instance_advance_channel_meed ::
  "bytes \<Rightarrow> u128 \<Rightarrow> meed_instance \<Rightarrow> (u128 \<times> u128 \<times> payout list \<times> meed_instance) rail" where
  "instance_advance_channel_meed channel_id target_p inst =
     (let (funded_p, paid) = (case mi_channel_paid inst channel_id of
            Some w \<Rightarrow> (cw_funded_p w, cw_paid w)
          | None \<Rightarrow> (0, replicate (length (mi_meed inst)) 0))
      in if target_p \<le> funded_p \<or> mi_bp_total inst = 0 then Inr (funded_p, 0, [], inst)
         else
           let delta = target_p - funded_p in
           and_then (advance_loop (unat target_p) (mi_bp_total inst) (mi_meed inst) paid 0)
             (\<lambda>(out, paid, distributed).
           let residue = sat_sub target_p distributed in
           Inr (target_p, delta, out, inst\<lparr>mi_channel_paid := (mi_channel_paid inst)(channel_id \<mapsto>
             \<lparr>cw_funded_p = target_p, cw_paid = paid, cw_residue = residue\<rparr>)\<rparr>)))"

definition instance_channel_funded_p :: "bytes \<Rightarrow> meed_instance \<Rightarrow> u128" where
  "instance_channel_funded_p channel_id inst =
     (case mi_channel_paid inst channel_id of None \<Rightarrow> 0 | Some w \<Rightarrow> cw_funded_p w)"

definition instance_channel_residue :: "bytes \<Rightarrow> meed_instance \<Rightarrow> u128" where
  "instance_channel_residue channel_id inst =
     (case mi_channel_paid inst channel_id of None \<Rightarrow> 0 | Some w \<Rightarrow> cw_residue w)"

definition watermark_snapshot :: "bytes \<Rightarrow> meed_instance \<Rightarrow> (u128 \<times> u128 list \<times> u128) option" where
  "watermark_snapshot channel_id inst =
     map_option (\<lambda>w. (cw_funded_p w, cw_paid w, cw_residue w)) (mi_channel_paid inst channel_id)"

definition restore_watermark :: "bytes \<Rightarrow> (u128 \<times> u128 list \<times> u128) option \<Rightarrow> meed_instance \<Rightarrow> meed_instance" where
  "restore_watermark channel_id snapshot inst =
     (case snapshot of
        Some (funded_p, paid, residue) \<Rightarrow>
          inst\<lparr>mi_channel_paid := (mi_channel_paid inst)(channel_id \<mapsto>
            \<lparr>cw_funded_p = funded_p, cw_paid = paid, cw_residue = residue\<rparr>)\<rparr>
      | None \<Rightarrow> inst\<lparr>mi_channel_paid := (mi_channel_paid inst)(channel_id := None)\<rparr>)"

end
