(* ===== verification/Virtual_Rail.thy ===== *)
theory Virtual_Rail
  imports Rail_Instance
begin

text \<open>
  The in-process settlement rail, \<^verbatim>\<open>crates/paytp-rail/src/virtual_rail.rs\<close>, and the value types of the
  adapter trait, \<^verbatim>\<open>crates/paytp-rail/src/adapter.rs\<close>: a ledger of balances, the baseline splits, the meed
  instances, the references of submitted transfers with their finality, and the two idempotency maps.
  A handle shares one locked state, so an operation is a function of that state: it returns the new
  state, or an error with the state unchanged. A hash map is a partial function.
\<close>

section \<open>The adapter's types\<close>

datatype transfer_kind = Payment

record transfer =
  tr_to :: bytes
  tr_asset :: bytes
  tr_amount :: u128
  tr_kind :: transfer_kind
  tr_memo :: "bytes option"

record advanced_fact =
  af_channel_id :: bytes
  af_seed_instance :: bytes
  af_funded_p :: u128
  af_delta :: u128
  af_asset :: bytes

record ref_info =
  ri_to :: bytes
  ri_asset :: bytes
  ri_amount :: u128
  ri_memo :: "bytes option"
  ri_funds_entry :: "bytes option"
  ri_funds_claim :: "bytes option"
  ri_advanced :: "advanced_fact option"
  ri_canonical :: bytes

record finality_obs =
  fo_level :: bytes
  fo_time :: u64

record rail_caps =
  rc_supports_contracts :: bool
  rc_finality_levels :: "bytes list"
  rc_finality_delay :: u64
  rc_assets :: "bytes list"
  rc_inclusion_latency :: u64

datatype rail_error = NoSuchAccount | Rejected string | AlreadyFunded | Outage

definition map_entry_err :: "entry_error \<Rightarrow> rail_error" where
  "map_entry_err e = (case e of
     Duplicate \<Rightarrow> AlreadyFunded
   | entry_error.Lapsed \<Rightarrow> Rejected ''T_lapse already past''
   | ZeroAmount \<Rightarrow> Rejected ''zero amount''
   | NotFound \<Rightarrow> Rejected ''no such entry''
   | Terminal \<Rightarrow> Rejected ''entry is terminal''
   | BadSignature \<Rightarrow> Rejected ''bad attestation/cancellation''
   | Window \<Rightarrow> Rejected ''window guard'')"

type_synonym 'a on_rail = "rail_error fault + 'a"

definition of_entry :: "'a rail \<Rightarrow> 'a on_rail" where
  "of_entry = map_err (\<lambda>f. case f of Err e \<Rightarrow> Err (map_entry_err e) | Panic \<Rightarrow> Panic)"

section \<open>The state\<close>

record split_recipient =
  sr_dest :: bytes
  sr_bp :: u16

record split_state =
  ss_recipients :: "split_recipient list"
  ss_v_received :: u128
  ss_paid :: "u128 list"

type_synonym ledger = "bytes \<rightharpoonup> u128"

record inner =
  vr_clock :: u64
  vr_ledger :: ledger
  vr_splits :: "bytes \<rightharpoonup> split_state"
  vr_instances :: "bytes \<rightharpoonup> meed_instance"
  vr_refs :: "bytes \<rightharpoonup> (u64 \<times> ref_info)"
  vr_settle_ids :: "bytes \<rightharpoonup> bytes"
  vr_release_keys :: "(bytes \<times> bytes) \<rightharpoonup> bytes"
  vr_finality_delay :: u64
  vr_next_ref :: u64
  vr_outage :: bool

definition inner_new :: "u64 \<Rightarrow> inner" where
  "inner_new delay =
     \<lparr>vr_clock = 1000000000, vr_ledger = Map.empty, vr_splits = Map.empty, vr_instances = Map.empty,
      vr_refs = Map.empty, vr_settle_ids = Map.empty, vr_release_keys = Map.empty,
      vr_finality_delay = delay, vr_next_ref = 0, vr_outage = False\<rparr>"

definition caps_new :: "u64 \<Rightarrow> rail_caps" where
  "caps_new delay =
     \<lparr>rc_supports_contracts = True, rc_finality_levels = [ascii ''pending'', ascii ''final''],
      rc_finality_delay = delay, rc_assets = [ascii ''virt-usd''], rc_inclusion_latency = 0\<rparr>"

definition advance_clock :: "u64 \<Rightarrow> inner \<Rightarrow> inner on_rail" where
  "advance_clock secs s =
     and_then (ok_or (checked_add (vr_clock s) secs) Panic) (\<lambda>c. Inr (s\<lparr>vr_clock := c\<rparr>))"

definition set_outage :: "bool \<Rightarrow> inner \<Rightarrow> inner" where
  "set_outage on s = s\<lparr>vr_outage := on\<rparr>"

section \<open>Addresses and references\<close>

definition derive_address :: "bytes \<Rightarrow> bytes" where
  "derive_address seed = ascii ''virt:0x'' @ concat (map hex_byte (take 16 seed))"

definition record_ref :: "ref_info \<Rightarrow> inner \<Rightarrow> (bytes \<times> inner) on_rail" where
  "record_ref info s =
     (let rid = ascii ''virt-ref:'' @ decimal (unat (vr_next_ref s)) in
      and_then (ok_or (checked_add (vr_next_ref s) 1) Panic) (\<lambda>n.
      let s = s\<lparr>vr_next_ref := n\<rparr> in
      Inr (rid, s\<lparr>vr_refs := (vr_refs s)(rid \<mapsto> (vr_clock s, info\<lparr>ri_canonical := rid\<rparr>))\<rparr>)))"

definition ref_target :: "bytes \<Rightarrow> inner \<Rightarrow> ref_info option" where
  "ref_target r s = map_option snd (vr_refs s r)"

definition rail_finality :: "bytes \<Rightarrow> inner \<Rightarrow> finality_obs option on_rail" where
  "rail_finality r s =
     (case vr_refs s r of
        None \<Rightarrow> Inr None
      | Some (submit_time, _) \<Rightarrow>
          and_then (ok_or (checked_add submit_time (vr_finality_delay s)) Panic) (\<lambda>reached.
          if reached \<le> vr_clock s then Inr (Some \<lparr>fo_level = ascii ''final'', fo_time = reached\<rparr>)
          else Inr (Some \<lparr>fo_level = ascii ''pending'', fo_time = submit_time\<rparr>)))"

section \<open>Balances\<close>

definition balance_of :: "bytes \<Rightarrow> ledger \<Rightarrow> u128" where
  "balance_of a l = (case l a of Some b \<Rightarrow> b | None \<Rightarrow> 0)"

definition rail_balance :: "bytes \<Rightarrow> inner \<Rightarrow> u128" where
  "rail_balance addr s = balance_of addr (vr_ledger s)"

text \<open>\<open>*ledger.get_mut(a).expect(..) -= amount\<close>, and the two credits: saturating, and \<open>+=\<close>.\<close>

definition debit :: "bytes \<Rightarrow> u128 \<Rightarrow> inner \<Rightarrow> inner on_rail" where
  "debit a amount s =
     and_then (ok_or (vr_ledger s a) Panic) (\<lambda>b.
     and_then (ok_or (checked_sub b amount) Panic) (\<lambda>b'.
     Inr (s\<lparr>vr_ledger := (vr_ledger s)(a \<mapsto> b')\<rparr>)))"

definition credit :: "bytes \<Rightarrow> u128 \<Rightarrow> ledger \<Rightarrow> ledger" where
  "credit a amount l = l(a \<mapsto> sat_add (balance_of a l) amount)"

definition add_to :: "bytes \<Rightarrow> u128 \<Rightarrow> ledger \<Rightarrow> ledger on_rail" where
  "add_to a amount l = and_then (ok_or (checked_add (balance_of a l) amount) Panic) (\<lambda>b. Inr (l(a \<mapsto> b)))"

definition apply_payouts :: "payout list \<Rightarrow> inner \<Rightarrow> inner" where
  "apply_payouts out s = s\<lparr>vr_ledger := foldl (\<lambda>l p. credit (po_dest p) (po_amount p) l) (vr_ledger s) out\<rparr>"

section \<open>Splits\<close>

fun sum_bps :: "u32 \<Rightarrow> (bytes \<times> u16) list \<Rightarrow> u32 option" where
  "sum_bps acc [] = Some acc"
| "sum_bps acc ((_, b) # rs) = (case checked_add acc (ucast b) of None \<Rightarrow> None | Some a \<Rightarrow> sum_bps a rs)"

fun fold_dest :: "(bytes \<times> u16) list \<Rightarrow> (bytes \<times> u16) \<Rightarrow> (bytes \<times> u16) list" where
  "fold_dest [] r = [r]"
| "fold_dest ((d, b) # agg) (d', b') =
     (if d = d' then (d, sat_add b b') # agg else (d, b) # fold_dest agg (d', b'))"

definition split_recipients :: "(bytes \<times> u16) list \<Rightarrow> bytes \<Rightarrow> split_recipient list option" where
  "split_recipients meed payout_dest =
     (case sum_bps 0 meed of None \<Rightarrow> None
      | Some meed_total \<Rightarrow> (case checked_sub BP_DENOM meed_total of None \<Rightarrow> None
      | Some rest \<Rightarrow> (case try_from rest of None \<Rightarrow> None
      | Some merchant_bp \<Rightarrow>
          Some (map (\<lambda>(d, b). \<lparr>sr_dest = d, sr_bp = b\<rparr>) (foldl fold_dest [] meed)
                @ [\<lparr>sr_dest = payout_dest, sr_bp = merchant_bp\<rparr>]))))"

definition deploy_split_raw :: "bytes \<Rightarrow> split_recipient list \<Rightarrow> inner \<Rightarrow> bytes \<times> inner" where
  "deploy_split_raw seed recipients s =
     (let addr = derive_address seed;
          st = \<lparr>ss_recipients = recipients, ss_v_received = 0, ss_paid = replicate (length recipients) 0\<rparr>
      in (addr, if vr_splits s addr = None then s\<lparr>vr_splits := (vr_splits s)(addr \<mapsto> st)\<rparr> else s))"

definition deploy_split ::
  "crypto_suite \<Rightarrow> (nat list \<Rightarrow> nat list) \<Rightarrow> bytes \<Rightarrow> address_inputs \<Rightarrow> inner \<Rightarrow> (bytes \<times> inner) on_rail" where
  "deploy_split cs nfc seed inputs s =
     and_then (map_err (\<lambda>_. Err (Rejected ''invalid split ADDRESS_INPUTS (missing merchant-net / malformed)''))
       (seed_split cs nfc inputs)) (\<lambda>expected.
     and_then (ensure (seed = expected)
       (Err (Rejected ''split seed does not recompute from ADDRESS_INPUTS (unbound recipients)''))) (\<lambda>_.
     and_then (ok_or (merchant_net inputs) Panic) (\<lambda>net.
     and_then (ok_or (split_recipients (map (\<lambda>e. (dest e, bp e)) (meed_vector inputs)) net)
       (Err (Rejected ''meed vector exceeds BP_DENOM''))) (\<lambda>recipients.
     Inr (deploy_split_raw seed recipients s)))))"

text \<open>The division of a split by the running total: each recipient's entitlement is a floor over ten
  thousand, and the ledger is credited with what was not paid yet.\<close>

fun split_loop :: "nat \<Rightarrow> split_recipient list \<Rightarrow> u128 list \<Rightarrow> ledger \<Rightarrow> (u128 list \<times> ledger) on_rail" where
  "split_loop v [] paid l = Inr (paid, l)"
| "split_loop v (r # rs) [] l = Inl Panic"
| "split_loop v (r # rs) (p # ps) l =
     (let ent = v * unat (sr_bp r) div unat BP_DENOM in
      and_then (ok_or (if ent < 2 ^ 128 then Some (word_of_nat ent) else None) Panic) (\<lambda>e.
      and_then (ok_or (checked_sub e p) Panic) (\<lambda>claimable.
      and_then (if 0 < claimable then add_to (sr_dest r) claimable l else Inr l) (\<lambda>l'.
      and_then (split_loop v rs ps l') (\<lambda>(ps', l'').
      Inr ((if 0 < claimable then e else p) # ps', l''))))))"

definition split_distribute :: "split_state \<Rightarrow> ledger \<Rightarrow> (split_state \<times> ledger) on_rail" where
  "split_distribute st l =
     and_then (split_loop (unat (ss_v_received st)) (ss_recipients st) (ss_paid st) l) (\<lambda>(paid, l').
     Inr (st\<lparr>ss_paid := paid\<rparr>, l'))"

section \<open>Transfers\<close>

definition plain_info :: "bytes \<Rightarrow> bytes \<Rightarrow> u128 \<Rightarrow> ref_info" where
  "plain_info to asset_id amount =
     \<lparr>ri_to = to, ri_asset = asset_id, ri_amount = amount, ri_memo = None, ri_funds_entry = None,
      ri_funds_claim = None, ri_advanced = None, ri_canonical = []\<rparr>"

definition record_payment :: "transfer \<Rightarrow> inner \<Rightarrow> (bytes \<times> inner) on_rail" where
  "record_payment t s =
     (case tr_kind t of Payment \<Rightarrow>
        and_then
          (case vr_splits s (tr_to t) of
             Some st \<Rightarrow>
               and_then (ok_or (checked_add (ss_v_received st) (tr_amount t))
                 (Err (Rejected ''split payment would overflow running V''))) (\<lambda>v.
               and_then (split_distribute (st\<lparr>ss_v_received := v\<rparr>) (vr_ledger s)) (\<lambda>(st', l).
               Inr (s\<lparr>vr_ledger := l, vr_splits := (vr_splits s)(tr_to t \<mapsto> st')\<rparr>)))
           | None \<Rightarrow> and_then (add_to (tr_to t) (tr_amount t) (vr_ledger s)) (\<lambda>l. Inr (s\<lparr>vr_ledger := l\<rparr>)))
          (\<lambda>s. record_ref ((plain_info (tr_to t) (tr_asset t) (tr_amount t))\<lparr>ri_memo := tr_memo t\<rparr>) s))"

definition submit :: "transfer \<Rightarrow> inner \<Rightarrow> (bytes \<times> inner) on_rail" where
  "submit t s = and_then (ensure (\<not> vr_outage s) (Err Outage)) (\<lambda>_. record_payment t s)"

definition settle :: "transfer \<Rightarrow> bytes \<Rightarrow> inner \<Rightarrow> (bytes \<times> inner) on_rail" where
  "settle t sid s =
     (case vr_settle_ids s sid of
        Some existing \<Rightarrow> Inr (existing, s)
      | None \<Rightarrow>
          and_then (ensure (\<not> vr_outage s) (Err Outage)) (\<lambda>_.
          and_then (record_payment t s) (\<lambda>(r, s).
          Inr (r, s\<lparr>vr_settle_ids := (vr_settle_ids s)(sid \<mapsto> r)\<rparr>))))"

definition release_locked :: "bytes \<Rightarrow> bytes \<Rightarrow> bytes \<Rightarrow> u128 \<Rightarrow> inner \<Rightarrow> (bytes \<times> inner) on_rail" where
  "release_locked src to asset_id amount s =
     and_then (ensure (\<not> vr_outage s) (Err Outage)) (\<lambda>_.
     and_then (ensure (\<not> (amount = 0 \<or> balance_of src (vr_ledger s) < amount))
       (Err (Rejected ''insufficient escrow balance for release''))) (\<lambda>_.
     and_then (debit src amount s) (\<lambda>s.
     let s = s\<lparr>vr_ledger := credit to amount (vr_ledger s)\<rparr> in
     record_ref (plain_info to asset_id amount) s)))"

definition release :: "bytes \<Rightarrow> bytes \<Rightarrow> bytes \<Rightarrow> u128 \<Rightarrow> inner \<Rightarrow> (bytes \<times> inner) on_rail" where
  "release src to asset_id amount s = release_locked src to asset_id amount s"

definition release_keyed ::
  "bytes \<Rightarrow> bytes \<Rightarrow> bytes \<Rightarrow> bytes \<Rightarrow> bytes \<Rightarrow> u128 \<Rightarrow> inner \<Rightarrow> (bytes \<times> inner) on_rail" where
  "release_keyed channel_id ckpt_ref src to asset_id amount s =
     (case vr_release_keys s (channel_id, ckpt_ref) of
        Some existing \<Rightarrow> Inr (existing, s)
      | None \<Rightarrow>
          and_then (release_locked src to asset_id amount s) (\<lambda>(r, s).
          Inr (r, s\<lparr>vr_release_keys := (vr_release_keys s)((channel_id, ckpt_ref) \<mapsto> r)\<rparr>)))"

section \<open>Instances\<close>

definition deploy_instance_raw :: "bytes \<Rightarrow> bytes \<Rightarrow> meed_share list \<Rightarrow> inner \<Rightarrow> bytes \<times> inner" where
  "deploy_instance_raw seed mk meed s =
     (let addr = derive_address seed in
      (addr, if vr_instances s addr = None
             then s\<lparr>vr_instances := (vr_instances s)(addr \<mapsto> instance_new mk meed seed)\<rparr> else s))"

definition deploy_instance ::
  "crypto_suite \<Rightarrow> (nat list \<Rightarrow> nat list) \<Rightarrow> bytes \<Rightarrow> address_inputs \<Rightarrow> inner \<Rightarrow> (bytes \<times> inner) on_rail" where
  "deploy_instance cs nfc seed inputs s =
     and_then (map_err (\<lambda>_. Err (Rejected ''invalid instance ADDRESS_INPUTS (unexpected merchant-net / malformed)''))
       (seed_instance cs nfc inputs)) (\<lambda>expected.
     and_then (ensure (seed = expected)
       (Err (Rejected ''instance seed does not recompute from ADDRESS_INPUTS (unbound recipients)''))) (\<lambda>_.
     Inr (deploy_instance_raw seed (merchant_key inputs)
       (map (\<lambda>e. \<lparr>ms_dest = dest e, ms_bp = bp e\<rparr>) (meed_vector inputs)) s)))"

definition rail_entry_status :: "bytes \<Rightarrow> bytes \<Rightarrow> inner \<Rightarrow> entry_status option" where
  "rail_entry_status addr eid s =
     (case vr_instances s addr of None \<Rightarrow> None | Some i \<Rightarrow> instance_status i eid)"

definition rail_reclaim_exec_time :: "bytes \<Rightarrow> bytes \<Rightarrow> inner \<Rightarrow> u64 option" where
  "rail_reclaim_exec_time addr eid s =
     (case vr_instances s addr of None \<Rightarrow> None | Some i \<Rightarrow> instance_reclaim_exec_time eid i)"

text \<open>\<open>instances.get_mut(addr).ok_or(NoSuchAccount)?\<close> followed by an operation on the instance.\<close>

definition on_instance :: "bytes \<Rightarrow> (meed_instance \<Rightarrow> ('a \<times> meed_instance) rail) \<Rightarrow> inner \<Rightarrow> ('a \<times> inner) on_rail" where
  "on_instance addr f s =
     and_then (ok_or (vr_instances s addr) (Err NoSuchAccount)) (\<lambda>i.
     and_then (of_entry (f i)) (\<lambda>(x, i').
     Inr (x, s\<lparr>vr_instances := (vr_instances s)(addr \<mapsto> i')\<rparr>)))"

text \<open>\<open>on_instance\<close> and then \<open>apply_payouts\<close>, the shape of every closing operation.\<close>

definition pay_from :: "bytes \<Rightarrow> (meed_instance \<Rightarrow> (payout list \<times> meed_instance) rail) \<Rightarrow> inner \<Rightarrow> inner on_rail" where
  "pay_from addr f s = and_then (on_instance addr f s) (\<lambda>(out, s). Inr (apply_payouts out s))"

definition fund_entry ::
  "crypto_suite \<Rightarrow> bytes \<Rightarrow> bytes \<Rightarrow> u128 \<Rightarrow> bytes \<Rightarrow> u64 \<Rightarrow> u64 \<Rightarrow> u64 \<Rightarrow> bytes \<Rightarrow> inner \<Rightarrow>
   ((bytes \<times> bytes) \<times> inner) on_rail" where
  "fund_entry cs addr nonce amount refund_ptr t_open t_lapse contest asset_id s =
     and_then (ensure (\<not> vr_outage s) (Err Outage)) (\<lambda>_.
     and_then (on_instance addr
       (instance_fund_entry cs nonce amount refund_ptr t_open t_lapse contest (vr_clock s)) s) (\<lambda>(eid, s).
     and_then (record_ref
       ((plain_info addr asset_id amount)\<lparr>ri_memo := Some nonce, ri_funds_entry := Some eid\<rparr>) s) (\<lambda>(r, s).
     Inr ((r, eid), s))))"

definition attest_entry :: "crypto_suite \<Rightarrow> bytes \<Rightarrow> bytes \<Rightarrow> signed \<Rightarrow> inner \<Rightarrow> inner on_rail" where
  "attest_entry cs addr eid sg s = pay_from addr (instance_attest cs eid sg) s"

definition cancel_entry :: "crypto_suite \<Rightarrow> bytes \<Rightarrow> bytes \<Rightarrow> signed \<Rightarrow> inner \<Rightarrow> inner on_rail" where
  "cancel_entry cs addr eid sg s = pay_from addr (instance_cancel cs eid sg) s"

definition open_reclaim :: "bytes \<Rightarrow> bytes \<Rightarrow> inner \<Rightarrow> inner on_rail" where
  "open_reclaim addr eid s =
     and_then (on_instance addr
       (\<lambda>i. and_then (instance_open_reclaim eid (vr_clock s) i) (\<lambda>i'. Inr ((), i'))) s) (\<lambda>(_, s). Inr s)"

definition execute_reclaim :: "bytes \<Rightarrow> bytes \<Rightarrow> inner \<Rightarrow> inner on_rail" where
  "execute_reclaim addr eid s = pay_from addr (instance_execute_reclaim eid (vr_clock s)) s"

definition claim_lapsed :: "bytes \<Rightarrow> bytes \<Rightarrow> inner \<Rightarrow> inner on_rail" where
  "claim_lapsed addr eid s = pay_from addr (instance_claim_lapsed eid (vr_clock s)) s"

text \<open>A batch collects the result of every entry; an error leaves the state of that entry's call, and a
  panic unwinds the batch.\<close>

fun run_batch :: "(bytes \<Rightarrow> inner \<Rightarrow> inner on_rail) \<Rightarrow> bytes list \<Rightarrow> inner \<Rightarrow> ((rail_error + unit) list \<times> inner) on_rail" where
  "run_batch f [] s = Inr ([], s)"
| "run_batch f (e # es) s =
     (case f e s of
        Inl Panic \<Rightarrow> Inl Panic
      | Inl (Err x) \<Rightarrow> and_then (run_batch f es s) (\<lambda>(rs, s'). Inr (Inl x # rs, s'))
      | Inr s1 \<Rightarrow> and_then (run_batch f es s1) (\<lambda>(rs, s'). Inr (Inr () # rs, s')))"

definition batch_execute_reclaim :: "bytes \<Rightarrow> bytes list \<Rightarrow> inner \<Rightarrow> ((rail_error + unit) list \<times> inner) on_rail" where
  "batch_execute_reclaim addr = run_batch (execute_reclaim addr)"

definition batch_claim_lapsed :: "bytes \<Rightarrow> bytes list \<Rightarrow> inner \<Rightarrow> ((rail_error + unit) list \<times> inner) on_rail" where
  "batch_claim_lapsed addr = run_batch (claim_lapsed addr)"

section \<open>Channel legs\<close>

definition fund_claim_record_impl ::
  "crypto_suite \<Rightarrow> bytes option \<Rightarrow> bytes \<Rightarrow> bytes \<Rightarrow> bytes \<Rightarrow> u128 \<Rightarrow> bytes \<Rightarrow> inner \<Rightarrow>
   ((bytes \<times> bytes) \<times> inner) on_rail" where
  "fund_claim_record_impl cs src addr channel_id ckpt_ref amount asset_id s =
     and_then (ensure (\<not> vr_outage s) (Err Outage)) (\<lambda>_.
     and_then (ensure (case vr_instances s addr of
         Some i \<Rightarrow> \<not> instance_claim_record_funded cs channel_id ckpt_ref amount i
       | None \<Rightarrow> True) (Err AlreadyFunded)) (\<lambda>_.
     and_then (ensure (case src of
         Some a \<Rightarrow> \<not> (amount = 0 \<or> balance_of a (vr_ledger s) < amount)
       | None \<Rightarrow> True) (Err (Rejected ''insufficient escrow balance for meed draw''))) (\<lambda>_.
     and_then (on_instance addr (\<lambda>i.
         and_then (instance_fund_claim_record cs channel_id ckpt_ref amount i) (\<lambda>(key, out, i').
         Inr ((key, out), i'))) s) (\<lambda>((key, out), s).
     and_then (case src of Some a \<Rightarrow> debit a amount s | None \<Rightarrow> Inr s) (\<lambda>s.
     let s = apply_payouts out s in
     and_then (record_ref
       ((plain_info addr asset_id amount)\<lparr>ri_memo := Some key, ri_funds_claim := Some key\<rparr>) s) (\<lambda>(r, s).
     Inr ((r, key), s)))))))"

definition fund_claim_record where
  "fund_claim_record cs = fund_claim_record_impl cs None"

definition draw_claim_record where
  "draw_claim_record cs src = fund_claim_record_impl cs (Some src)"

definition advance_channel_meed ::
  "bytes option \<Rightarrow> bytes \<Rightarrow> bytes \<Rightarrow> u128 \<Rightarrow> bytes \<Rightarrow> inner \<Rightarrow> (bytes \<times> inner) on_rail" where
  "advance_channel_meed src addr channel_id target_p asset_id s =
     and_then (ensure (\<not> vr_outage s) (Err Outage)) (\<lambda>_.
     and_then (ok_or (vr_instances s addr) (Err NoSuchAccount)) (\<lambda>i.
     let seed_inst = mi_seed_instance i;
         funded_before = instance_channel_funded_p channel_id i;
         delta = sat_sub target_p funded_before in
     and_then (ensure (case src of
         Some a \<Rightarrow> \<not> (0 < delta \<and> balance_of a (vr_ledger s) < delta)
       | None \<Rightarrow> True) (Err (Rejected ''insufficient escrow balance for meed advance''))) (\<lambda>_.
     and_then (on_instance addr (\<lambda>i.
         and_then (instance_advance_channel_meed channel_id target_p i) (\<lambda>(funded, d, out, i').
         Inr ((funded, d, out), i'))) s) (\<lambda>((funded_after, delta2, out), s).
     and_then (case src of Some a \<Rightarrow> if 0 < delta2 then debit a delta2 s else Inr s | None \<Rightarrow> Inr s) (\<lambda>s.
     let s = apply_payouts out s in
     record_ref ((plain_info addr asset_id delta2)\<lparr>ri_advanced := Some
       \<lparr>af_channel_id = channel_id, af_seed_instance = seed_inst, af_funded_p = funded_after,
        af_delta = delta2, af_asset = asset_id\<rparr>\<rparr>) s)))))"

end
