(* ===== verification/Rail_Division.thy ===== *)
theory Rail_Division
  imports Rail_Instance F7_Exact
begin

text \<open>
  The division of the off-chain instance on exact numbers: both of its loops leave every destination
  with the floor of its weight over the cumulative amount and pay out the difference. Also sums over
  the values of a finite map, in which the totals of entries, channels and accounts are counted.
\<close>

section \<open>Totals over a map\<close>

definition map_total :: "('v \<Rightarrow> nat) \<Rightarrow> ('k \<rightharpoonup> 'v) \<Rightarrow> nat" where
  "map_total f m = (\<Sum>k \<in> dom m. f (the (m k)))"

definition value_at :: "('v \<Rightarrow> nat) \<Rightarrow> ('k \<rightharpoonup> 'v) \<Rightarrow> 'k \<Rightarrow> nat" where
  "value_at f m k = (case m k of None \<Rightarrow> 0 | Some w \<Rightarrow> f w)"

lemma value_at_simps [simp]:
  "m k = None \<Longrightarrow> value_at f m k = 0" "m k = Some w \<Longrightarrow> value_at f m k = f w"
  by (simp_all add: value_at_def)

lemma map_total_empty [simp]: "map_total f Map.empty = 0"
  by (simp add: map_total_def)

lemma map_total_split: "finite (dom m) \<Longrightarrow> map_total f m = value_at f m k + (\<Sum>j \<in> dom m - {k}. f (the (m j)))"
proof (cases "m k")
  case None
  then have "dom m - {k} = dom m" by (simp add: domIff)
  with None show ?thesis by (simp add: map_total_def)
next
  case (Some w)
  assume "finite (dom m)"
  with Some show ?thesis by (simp add: map_total_def sum.remove [of "dom m" k] domI)
qed

lemma map_total_upd:
  assumes "finite (dom m)"
  shows "map_total f (m(k \<mapsto> v)) + value_at f m k = map_total f m + f v"
proof -
  have "(\<Sum>j \<in> dom m - {k}. f (the ((m(k \<mapsto> v)) j))) = (\<Sum>j \<in> dom m - {k}. f (the (m j)))"
    by (rule sum.cong) auto
  then show ?thesis
    using map_total_split [OF assms, of f k] map_total_split [of "m(k \<mapsto> v)" f k] assms by simp
qed

lemma value_at_le: "finite (dom m) \<Longrightarrow> value_at f m k \<le> map_total f m"
  using map_total_split by (metis le_add1)

section \<open>Payouts\<close>

definition payouts_total :: "payout list \<Rightarrow> nat" where
  "payouts_total out = sum_list (map (\<lambda>p. unat (po_amount p)) out)"

definition payouts_to :: "bytes \<Rightarrow> payout list \<Rightarrow> nat" where
  "payouts_to d out = sum_list (map (\<lambda>p. if po_dest p = d then unat (po_amount p) else 0) out)"

lemma payouts_simps [simp]:
  "payouts_total [] = 0" "payouts_total (p # out) = unat (po_amount p) + payouts_total out"
  "payouts_to d [] = 0"
  "payouts_to d (p # out) = (if po_dest p = d then unat (po_amount p) else 0) + payouts_to d out"
  by (simp_all add: payouts_total_def payouts_to_def)

lemma payouts_to_le: "payouts_to d out \<le> payouts_total out"
  by (induction out) auto

section \<open>The loops\<close>

abbreviation weight :: "meed_share \<Rightarrow> nat" where "weight r \<equiv> unat (ms_bp r)"

definition floors :: "nat \<Rightarrow> meed_share list \<Rightarrow> nat \<Rightarrow> nat list" where
  "floors tot rs v = map (\<lambda>r. v * weight r div tot) rs"

text \<open>What a destination gains when the cumulative amount rises from \<open>v\<close> to \<open>v'\<close>.\<close>

definition gain :: "nat \<Rightarrow> meed_share list \<Rightarrow> nat \<Rightarrow> nat \<Rightarrow> bytes \<Rightarrow> nat" where
  "gain tot rs v v' d = sum_list (map (\<lambda>r. if ms_dest r = d then v' * weight r div tot - v * weight r div tot else 0) rs)"

lemma gain_Nil [simp]: "gain tot [] v v' d = 0"
  by (simp add: gain_def)

lemma floors_simps [simp]: "floors tot [] v = []" "floors tot (r # rs) v = v * weight r div tot # floors tot rs v"
  by (simp_all add: floors_def)

lemma length_floors [simp]: "length (floors tot rs v) = length rs"
  by (simp add: floors_def)

lemma floors_mono: "v \<le> v' \<Longrightarrow> sum_list (floors tot rs v) \<le> sum_list (floors tot rs v')"
  by (induction rs) (auto intro!: add_mono div_le_mono mult_le_mono1)

lemma floor_mono: "v \<le> v' \<Longrightarrow> v * w div tot \<le> v' * w div tot" for v :: nat
  by (intro div_le_mono mult_le_mono1)

lemma entitlement_exact:
  assumes "weight r \<le> tot" "v < 2 ^ 128"
  shows "\<exists>e. entitlement v tot r = Inr e \<and> unat e = v * weight r div tot"
proof -
  have "v * weight r div tot \<le> v"
    using floor_share_le [OF assms(1), of v] by (simp add: mult.commute)
  then have "v * weight r div tot < 2 ^ LENGTH(128)" using assms(2) by simp
  then show ?thesis using unat_of_nat_small [of "v * weight r div tot", where ?'a = 128]
    by (simp add: entitlement_def Let_def)
qed

lemma share_loop_exact:
  assumes "\<forall>r \<in> set rs. weight r \<le> tot" "v \<le> v'" "v' < 2 ^ 128" "map unat ps = floors tot rs v"
  shows "\<exists>out ps'. share_loop v' tot rs ps = Inr (out, ps') \<and> map unat ps' = floors tot rs v'
    \<and> payouts_total out + sum_list (floors tot rs v) = sum_list (floors tot rs v')
    \<and> (\<forall>d. payouts_to d out = gain tot rs v v' d)"
  using assms(1,4)
proof (induction rs arbitrary: ps)
  case (Cons r rs)
  then obtain p qs where ps: "ps = p # qs" "unat p = v * weight r div tot" "map unat qs = floors tot rs v"
    by (auto simp: Cons_eq_map_conv map_eq_Cons_conv)
  obtain e where e: "entitlement v' tot r = Inr e" "unat e = v' * weight r div tot"
    using entitlement_exact [of r tot v'] Cons.prems(1) assms(3) by auto
  have le: "unat p \<le> unat e" using floor_mono [OF assms(2), of "weight r" tot] ps(2) e(2) by simp
  then obtain c where c: "checked_sub e p = Some c" "unat c = unat e - unat p"
    by (cases "checked_sub e p") (auto simp: unat_ops)
  obtain out qs' where r: "share_loop v' tot rs qs = Inr (out, qs')" "map unat qs' = floors tot rs v'"
      "payouts_total out + sum_list (floors tot rs v) = sum_list (floors tot rs v')"
      "\<forall>d. payouts_to d out = gain tot rs v v' d"
    using Cons.IH [of qs] Cons.prems(1) ps(3) by auto
  have zero: "c = 0 \<longleftrightarrow> unat p = unat e" using c(2) le by (metis diff_is_0_eq le_antisym unat_eq_0 diff_self_eq_0)
  show ?case
  proof (cases "c = 0")
    case True
    then have "share_loop v' tot (r # rs) ps = Inr (out, p # qs')" using e(1) c(1) r(1) by (simp add: ps(1))
    then show ?thesis using True zero r ps(2) e(2) by (auto simp: gain_def)
  next
    case False
    then have "share_loop v' tot (r # rs) ps = Inr (\<lparr>po_dest = ms_dest r, po_amount = c\<rparr> # out, e # qs')"
      using e(1) c(1) r(1) by (simp add: ps(1) word_neq_0_conv)
    then show ?thesis using r ps(2) e(2) c(2) le by (auto simp: gain_def)
  qed
qed simp

lemma advance_loop_exact:
  assumes "\<forall>r \<in> set rs. weight r \<le> tot" "v \<le> v'" "v' < 2 ^ 128" "map unat ps = floors tot rs v"
  shows "\<exists>out ps'. advance_loop v' tot rs ps k = Inr (out, ps', foldl sat_add k ps')
    \<and> map unat ps' = floors tot rs v'
    \<and> payouts_total out + sum_list (floors tot rs v) = sum_list (floors tot rs v')
    \<and> (\<forall>d. payouts_to d out = gain tot rs v v' d)"
  using assms(1,4)
proof (induction rs arbitrary: ps k)
  case (Cons r rs)
  then obtain p qs where ps: "ps = p # qs" "unat p = v * weight r div tot" "map unat qs = floors tot rs v"
    by (auto simp: Cons_eq_map_conv map_eq_Cons_conv)
  obtain e where e: "entitlement v' tot r = Inr e" "unat e = v' * weight r div tot"
    using entitlement_exact [of r tot v'] Cons.prems(1) assms(3) by auto
  have le: "p \<le> e" using floor_mono [OF assms(2), of "weight r" tot] ps(2) e(2) by (simp add: word_le_nat_alt)
  obtain out qs' where r: "advance_loop v' tot rs qs (sat_add k e) = Inr (out, qs', foldl sat_add (sat_add k e) qs')"
      "map unat qs' = floors tot rs v'"
      "payouts_total out + sum_list (floors tot rs v) = sum_list (floors tot rs v')"
      "\<forall>d. payouts_to d out = gain tot rs v v' d"
    using Cons.IH [of qs "sat_add k e"] Cons.prems(1) ps(3) by auto
  show ?case
  proof (cases "p = e")
    case True
    then have "advance_loop v' tot (r # rs) ps k = Inr (out, e # qs', foldl sat_add k (e # qs'))"
      using e(1) r(1) by (simp add: ps(1))
    then show ?thesis using True r ps(2) e(2) by (auto simp: gain_def)
  next
    case False
    then have less: "p < e" using le by simp
    then have "unat (e - p) = unat e - unat p" by (simp add: unat_sub word_le_nat_alt word_less_nat_alt)
    moreover have "advance_loop v' tot (r # rs) ps k
        = Inr (\<lparr>po_dest = ms_dest r, po_amount = e - p\<rparr> # out, e # qs', foldl sat_add k (e # qs'))"
      using e(1) r(1) less by (simp add: ps(1))
    ultimately show ?thesis using r ps(2) e(2) le by (auto simp: gain_def word_le_nat_alt)
  qed
qed simp

section \<open>The dust\<close>

lemma sum_list_scaled: "sum_list (map (\<lambda>n. v * n) ns) = v * sum_list ns" for v :: nat
  by (induction ns) (simp_all add: distrib_left)

lemma weights_le: "r \<in> set rs \<Longrightarrow> weight r \<le> sum_list (map weight rs)"
  by (rule member_le_sum_list) auto

lemma floors_le: "0 < sum_list (map weight rs) \<Longrightarrow> sum_list (floors (sum_list (map weight rs)) rs v) \<le> v"
proof -
  assume pos: "0 < sum_list (map weight rs)"
  let ?N = "sum_list (map weight rs)"
  have "sum_list (map (\<lambda>n. v * n div ?N) (map weight rs)) * ?N \<le> v * ?N" by (rule sum_floor_le)
  then show ?thesis using pos by (simp add: floors_def comp_def)
qed

lemma floors_dust:
  "0 < sum_list (map weight rs) \<Longrightarrow> v < sum_list (floors (sum_list (map weight rs)) rs v) + length rs"
proof -
  assume pos: "0 < sum_list (map weight rs)"
  let ?N = "sum_list (map weight rs)"
  have step: "sum_list (map (\<lambda>n. v * n) ns) + length ns \<le> (sum_list (map (\<lambda>n. v * n div ?N) ns) + length ns) * ?N" for ns
  proof (induction ns)
    case (Cons n ns)
    have "v * n < (v * n div ?N + 1) * ?N" using pos by (metis div_less_iff_less_mult less_add_one)
    then have "v * n + 1 \<le> (v * n div ?N + 1) * ?N" by simp
    with Cons show ?case by (simp add: algebra_simps)
  qed simp
  have "sum_list (map (\<lambda>n. v * n) (map weight rs)) = v * ?N" by (rule sum_list_scaled)
  then have "v * ?N + length rs \<le> (sum_list (floors ?N rs v) + length rs) * ?N"
    using step [of "map weight rs"] by (simp add: floors_def comp_def)
  moreover have "0 < length rs" using pos by (cases rs) auto
  ultimately have "v * ?N < (sum_list (floors ?N rs v) + length rs) * ?N" by linarith
  then show ?thesis by simp
qed

lemma foldl_sat_add_exact:
  "unat k + sum_list (map unat ps) < 2 ^ 128 \<Longrightarrow> unat (foldl sat_add k ps) = unat k + sum_list (map unat ps)" for k :: u128
proof (induction ps arbitrary: k)
  case (Cons p ps)
  then have "unat (sat_add k p) = unat k + unat p" by (simp add: unat_sat_add)
  with Cons show ?case by simp
qed simp

end
