(* ===== verification/Rail_Invariant.thy ===== *)
theory Rail_Invariant
  imports Rail_Division
begin

text \<open>
  The invariant of the off-chain instance and its conservation of value: what an operation pays out
  and what the instance still holds add up to what it held and received. No operation panics while the
  volume the instance ever received stays in the 128-bit domain.
\<close>

section \<open>The invariant\<close>

definition live :: "rail_entry \<Rightarrow> nat" where
  "live e = (case re_state e of
     rail_state.Funded \<Rightarrow> unat (re_amount e) | rail_state.ReclaimOpen t \<Rightarrow> unat (re_amount e) | _ \<Rightarrow> 0)"

definition watermark_exact :: "meed_instance \<Rightarrow> channel_watermark \<Rightarrow> bool" where
  "watermark_exact i w \<longleftrightarrow> map unat (cw_paid w) = floors (mi_bp_total i) (mi_meed i) (unat (cw_funded_p w)) \<and>
     unat (cw_residue w) + sum_list (map unat (cw_paid w)) = unat (cw_funded_p w)"

definition entry_inv :: "crypto_suite \<Rightarrow> meed_instance \<Rightarrow> bytes \<Rightarrow> rail_entry \<Rightarrow> bool" where
  "entry_inv cs i eid e \<longleftrightarrow> re_amount e \<noteq> 0 \<and> re_t_open e \<le> re_t_lapse e \<and>
     eid = entry_id_purchase cs (mi_seed_instance i) (re_nonce e) (re_amount e) (re_t_open e) (re_t_lapse e) (re_contest e) \<and>
     (\<forall>t. re_state e = rail_state.ReclaimOpen t \<longrightarrow> re_t_open e \<le> t \<and> t \<le> re_t_lapse e)"

definition instance_inv :: "crypto_suite \<Rightarrow> meed_instance \<Rightarrow> bool" where
  "instance_inv cs i \<longleftrightarrow>
     mi_bp_total i = sum_list (map weight (mi_meed i)) \<and>
     map unat (mi_paid i) = floors (mi_bp_total i) (mi_meed i) (unat (mi_v_received i)) \<and>
     (\<forall>c w. mi_channel_paid i c = Some w \<longrightarrow> watermark_exact i w) \<and>
     (\<forall>eid e. mi_entries i eid = Some e \<longrightarrow> entry_inv cs i eid e) \<and>
     finite (dom (mi_entries i)) \<and> finite (dom (mi_channel_paid i))"

text \<open>Undistributed part of the pool; everything the instance holds; the volume it received.\<close>

definition pool :: "meed_instance \<Rightarrow> nat" where
  "pool i = unat (mi_v_received i) - sum_list (map unat (mi_paid i))"

definition held :: "meed_instance \<Rightarrow> nat" where
  "held i = map_total live (mi_entries i) + pool i + map_total (\<lambda>w. unat (cw_residue w)) (mi_channel_paid i)"

definition volume :: "meed_instance \<Rightarrow> nat" where
  "volume i = unat (mi_v_received i) + map_total live (mi_entries i)"

definition same_instance :: "meed_instance \<Rightarrow> meed_instance \<Rightarrow> bool" where
  "same_instance i j \<longleftrightarrow> mi_merchant_key i = mi_merchant_key j \<and> mi_seed_instance i = mi_seed_instance j \<and>
     mi_meed i = mi_meed j \<and> mi_bp_total i = mi_bp_total j"

text \<open>An instance whose weights are all zero divides nothing: what is distributed to it is gone.\<close>

definition sunk :: "meed_instance \<Rightarrow> nat \<Rightarrow> nat" where
  "sunk i a = (if mi_bp_total i = 0 then a else 0)"

lemma sunk_le: "sunk i a \<le> a"
  by (simp add: sunk_def)

text \<open>The effect of an operation that receives \<open>a\<close>, pays \<open>out\<close> and loses \<open>l\<close>.\<close>

definition shifts :: "crypto_suite \<Rightarrow> meed_instance \<Rightarrow> nat \<Rightarrow> nat \<Rightarrow> payout list \<Rightarrow> meed_instance \<Rightarrow> bool" where
  "shifts cs i a l out j \<longleftrightarrow> instance_inv cs j \<and> same_instance j i \<and>
     payouts_total out + held j + l = held i + a \<and> volume j \<le> volume i + a"

abbreviation moves :: "crypto_suite \<Rightarrow> meed_instance \<Rightarrow> nat \<Rightarrow> payout list \<Rightarrow> meed_instance \<Rightarrow> bool" where
  "moves cs i a \<equiv> shifts cs i a 0"

lemma instance_inv_parts:
  assumes "instance_inv cs i"
  shows "mi_bp_total i = sum_list (map weight (mi_meed i))"
    "map unat (mi_paid i) = floors (mi_bp_total i) (mi_meed i) (unat (mi_v_received i))"
    "mi_channel_paid i c = Some w \<Longrightarrow> watermark_exact i w"
    "mi_entries i eid = Some e \<Longrightarrow> entry_inv cs i eid e"
    "finite (dom (mi_entries i))" "finite (dom (mi_channel_paid i))"
  using assms unfolding instance_inv_def by blast+

lemma watermark_exact_same: "same_instance j i \<Longrightarrow> watermark_exact j w = watermark_exact i w"
  by (simp add: watermark_exact_def same_instance_def)

lemma entry_inv_same: "same_instance j i \<Longrightarrow> entry_inv cs j eid e = entry_inv cs i eid e"
  by (simp add: entry_inv_def same_instance_def)

text \<open>An operation has the invariant to show for what it wrote only.\<close>

lemma instance_inv_step:
  assumes inv: "instance_inv cs i" and same: "same_instance j i"
    and paid: "map unat (mi_paid j) = floors (mi_bp_total i) (mi_meed i) (unat (mi_v_received j))"
    and w: "\<And>c w. mi_channel_paid j c = Some w \<Longrightarrow> mi_channel_paid i c = Some w \<or> watermark_exact i w"
    and e: "\<And>eid e. mi_entries j eid = Some e \<Longrightarrow> mi_entries i eid = Some e \<or> entry_inv cs i eid e"
    and fin: "finite (dom (mi_entries j))" "finite (dom (mi_channel_paid j))"
  shows "instance_inv cs j"
proof -
  have "mi_meed j = mi_meed i" "mi_bp_total j = mi_bp_total i" using same by (simp_all add: same_instance_def)
  moreover have "watermark_exact j w" if "mi_channel_paid j c = Some w" for c w
    using w [OF that] instance_inv_parts(3) [OF inv] watermark_exact_same [OF same] by blast
  moreover have "entry_inv cs j eid e" if "mi_entries j eid = Some e" for eid e
    using e [OF that] instance_inv_parts(4) [OF inv] entry_inv_same [OF same] by blast
  ultimately show ?thesis
    unfolding instance_inv_def using instance_inv_parts(1) [OF inv] paid fin by simp
qed

lemma floors_weightless: "sum_list (floors 0 rs v) = 0"
  by (induction rs) simp_all

lemma floors_bound: "sum_list (floors (sum_list (map weight rs)) rs v) \<le> v"
  using floors_le [of rs v] floors_weightless [of rs v] by (cases "sum_list (map weight rs) = 0") (simp_all only: gr0I le0)

lemma pool_bound:
  "instance_inv cs i \<Longrightarrow> sum_list (map unat (mi_paid i)) \<le> unat (mi_v_received i)"
  using floors_bound [of "mi_meed i"] by (simp add: instance_inv_def)

lemma instance_weights: "instance_inv cs i \<Longrightarrow> \<forall>r \<in> set (mi_meed i). weight r \<le> mi_bp_total i"
  using weights_le by (simp add: instance_inv_def)

section \<open>Deployment\<close>

lemma fold_share_sum:
  "sum_list (map weight agg) + weight r < 2 ^ 16 \<Longrightarrow>
   sum_list (map weight (fold_share agg r)) = sum_list (map weight agg) + weight r"
  by (induction agg) (auto simp: unat_sat_add)

lemma fold_share_pos: "0 < weight r \<or> 0 < sum_list (map weight agg) \<Longrightarrow> 0 < sum_list (map weight (fold_share agg r))"
  by (induction agg) (auto simp: unat_sat_add)

lemma fold_shares_pos:
  "(\<exists>r \<in> set rs. 0 < weight r) \<or> 0 < sum_list (map weight agg) \<Longrightarrow>
   0 < sum_list (map weight (foldl fold_share agg rs))"
proof (induction rs arbitrary: agg)
  case (Cons r rs)
  then show ?case using fold_share_pos [of r agg] by auto
qed simp

lemma fold_share_dests:
  "distinct (map ms_dest agg) \<Longrightarrow> distinct (map ms_dest (fold_share agg r)) \<and>
   set (map ms_dest (fold_share agg r)) = insert (ms_dest r) (set (map ms_dest agg))"
  by (induction agg) auto

lemma floors_0: "floors tot rs 0 = replicate (length rs) 0"
  by (induction rs) simp_all

lemma instance_new_inv:
  "instance_inv cs (instance_new mk meed seed)" "held (instance_new mk meed seed) = 0"
  "volume (instance_new mk meed seed) = 0"
  by (simp_all add: instance_inv_def held_def volume_def pool_def instance_new_def Let_def floors_0)

lemma instance_new_weighted: "\<exists>r \<in> set meed. ms_bp r \<noteq> 0 \<Longrightarrow> 0 < mi_bp_total (instance_new mk meed seed)"
  using fold_shares_pos [of meed "[]"] by (auto simp: instance_new_def Let_def unat_gt_0)

section \<open>Distribution\<close>

lemma distribute_moves:
  assumes inv: "instance_inv cs i" and small: "unat (mi_v_received i) + unat a < 2 ^ 128"
  obtains out v paid where "instance_distribute a i = Inr (out, i\<lparr>mi_v_received := v, mi_paid := paid\<rparr>)"
    "unat v + sunk i (unat a) = unat (mi_v_received i) + unat a"
    "instance_inv cs (i\<lparr>mi_v_received := v, mi_paid := paid\<rparr>)"
    "payouts_total out + pool (i\<lparr>mi_v_received := v, mi_paid := paid\<rparr>) + sunk i (unat a) = pool i + unat a"
    "\<forall>d. payouts_to d out = gain (mi_bp_total i) (mi_meed i) (unat (mi_v_received i)) (unat v) d"
proof (cases "mi_bp_total i = 0")
  case True
  have g: "gain tot rs n n d = 0" for tot rs n d
    unfolding gain_def by (simp only: diff_self_eq_0 if_cancel sum_list_0)
  have same: "i\<lparr>mi_v_received := mi_v_received i, mi_paid := mi_paid i\<rparr> = i"
    by (cases i) simp
  have "sunk i (unat a) = unat a" using True by (simp add: sunk_def)
  then show thesis
    using that [of "[]" "mi_paid i" "mi_v_received i", unfolded same] True inv g
    by (simp only: instance_distribute_def payouts_simps simp_thms if_True add_0 add_0_right)
next
  case False
  let ?v = "sat_add (mi_v_received i) a"
  have v: "unat ?v = unat (mi_v_received i) + unat a" using small by (simp add: unat_sat_add)
  obtain out paid where s: "share_loop (unat ?v) (mi_bp_total i) (mi_meed i) (mi_paid i) = Inr (out, paid)"
      "map unat paid = floors (mi_bp_total i) (mi_meed i) (unat ?v)"
      "payouts_total out + sum_list (floors (mi_bp_total i) (mi_meed i) (unat (mi_v_received i)))
        = sum_list (floors (mi_bp_total i) (mi_meed i) (unat ?v))"
      "\<forall>d. payouts_to d out = gain (mi_bp_total i) (mi_meed i) (unat (mi_v_received i)) (unat ?v) d"
    using share_loop_exact [OF instance_weights [OF inv], of "unat (mi_v_received i)" "unat ?v" "mi_paid i"]
      instance_inv_parts(2) [OF inv] v small by auto
  have inv': "instance_inv cs (i\<lparr>mi_v_received := ?v, mi_paid := paid\<rparr>)"
    by (rule instance_inv_step [OF inv]) (use s(2) instance_inv_parts(5,6) [OF inv] in \<open>simp_all add: same_instance_def\<close>)
  have "payouts_total out + pool (i\<lparr>mi_v_received := ?v, mi_paid := paid\<rparr>) = pool i + unat a"
    using pool_bound [OF inv] pool_bound [OF inv'] s(2,3) v instance_inv_parts(2) [OF inv] by (simp add: pool_def)
  moreover have "instance_distribute a i = Inr (out, i\<lparr>mi_v_received := ?v, mi_paid := paid\<rparr>)"
    using False s(1) by (simp add: instance_distribute_def Let_def)
  ultimately show thesis using that v inv' s(4) False by (simp add: sunk_def)
qed

section \<open>The transitions of an entry\<close>

lemma set_state_simps [simp]:
  "mi_entries (set_state eid e st i) = (mi_entries i)(eid \<mapsto> e\<lparr>re_state := st\<rparr>)"
  "mi_v_received (set_state eid e st i) = mi_v_received i" "mi_paid (set_state eid e st i) = mi_paid i"
  "mi_channel_paid (set_state eid e st i) = mi_channel_paid i" "mi_meed (set_state eid e st i) = mi_meed i"
  "mi_bp_total (set_state eid e st i) = mi_bp_total i"
  "mi_seed_instance (set_state eid e st i) = mi_seed_instance i"
  "mi_merchant_key (set_state eid e st i) = mi_merchant_key i"
  by (simp_all add: set_state_def)

lemma set_state_inv:
  assumes "instance_inv cs i" "mi_entries i eid = Some e"
    "\<And>t. st = rail_state.ReclaimOpen t \<Longrightarrow> re_t_open e \<le> t \<and> t \<le> re_t_lapse e"
  shows "instance_inv cs (set_state eid e st i)"
    "map_total live (mi_entries (set_state eid e st i)) + live e = map_total live (mi_entries i) + live (e\<lparr>re_state := st\<rparr>)"
proof -
  show "instance_inv cs (set_state eid e st i)"
    by (rule instance_inv_step [OF assms(1)])
      (use assms(2,3) instance_inv_parts(2,4,5,6) [OF assms(1)] in
        \<open>auto simp: same_instance_def entry_inv_def split: if_splits\<close>)
  show "map_total live (mi_entries (set_state eid e st i)) + live e = map_total live (mi_entries i) + live (e\<lparr>re_state := st\<rparr>)"
    using map_total_upd [of "mi_entries i" live eid "e\<lparr>re_state := st\<rparr>"] instance_inv_parts(5) [OF assms(1)] assms(2) by simp
qed

lemma ensure_open_live: "ensure_open e = Inr () \<Longrightarrow> live e = unat (re_amount e)"
  by (cases "re_state e") (simp_all add: ensure_open_def live_def)

lemma live_closed [simp]:
  "live (e\<lparr>re_state := rail_state.Attested\<rparr>) = 0" "live (e\<lparr>re_state := rail_state.Cancelled\<rparr>) = 0"
  "live (e\<lparr>re_state := rail_state.Reclaimed\<rparr>) = 0" "live (e\<lparr>re_state := rail_state.Lapsed\<rparr>) = 0"
  "live (e\<lparr>re_state := rail_state.ReclaimOpen t\<rparr>) = unat (re_amount e)"
  by (simp_all add: live_def)

text \<open>Closing a live entry into the pool, and closing it by a refund.\<close>

lemma close_distribute:
  assumes inv: "instance_inv cs i" and vol: "volume i < 2 ^ 128" and e: "mi_entries i eid = Some e"
    and l: "live e = unat (re_amount e)" "live (e\<lparr>re_state := st\<rparr>) = 0" "\<And>t. st \<noteq> rail_state.ReclaimOpen t"
  shows "\<exists>out j. instance_distribute (re_amount e) (set_state eid e st i) = Inr (out, j) \<and>
    shifts cs i 0 (sunk i (unat (re_amount e))) out j"
proof -
  let ?i = "set_state eid e st i" and ?l = "sunk i (unat (re_amount e))"
  have inv': "instance_inv cs ?i" and tot: "map_total live (mi_entries ?i) + unat (re_amount e) = map_total live (mi_entries i)"
    using set_state_inv [OF inv e, of st] l by auto
  have "unat (mi_v_received ?i) + unat (re_amount e) < 2 ^ 128" using vol tot by (simp add: volume_def)
  moreover have "sunk ?i = sunk i" by (simp add: sunk_def fun_eq_iff)
  ultimately obtain out v paid where d: "instance_distribute (re_amount e) ?i = Inr (out, ?i\<lparr>mi_v_received := v, mi_paid := paid\<rparr>)"
      "unat v + ?l = unat (mi_v_received ?i) + unat (re_amount e)" "instance_inv cs (?i\<lparr>mi_v_received := v, mi_paid := paid\<rparr>)"
      "payouts_total out + pool (?i\<lparr>mi_v_received := v, mi_paid := paid\<rparr>) + ?l = pool ?i + unat (re_amount e)"
    using distribute_moves [OF inv'] by metis
  have "pool ?i = pool i" by (simp add: pool_def)
  then have "shifts cs i 0 ?l out (?i\<lparr>mi_v_received := v, mi_paid := paid\<rparr>)"
    using d(2,3,4) tot by (simp add: shifts_def same_instance_def held_def volume_def)
  then show ?thesis using d(1) by blast
qed

lemma close_refund:
  assumes inv: "instance_inv cs i" and e: "mi_entries i eid = Some e"
    and l: "live e = unat (re_amount e)" "live (e\<lparr>re_state := st\<rparr>) = 0" "\<And>t. st \<noteq> rail_state.ReclaimOpen t"
  shows "moves cs i 0 [\<lparr>po_dest = re_refund_ptr e, po_amount = re_amount e\<rparr>] (set_state eid e st i)"
proof -
  have "instance_inv cs (set_state eid e st i)"
    "map_total live (mi_entries (set_state eid e st i)) + unat (re_amount e) = map_total live (mi_entries i)"
    using set_state_inv [OF inv e, of st] l by auto
  then show ?thesis by (simp add: shifts_def same_instance_def held_def volume_def pool_def)
qed

lemma fund_entry_moves:
  assumes inv: "instance_inv cs i"
    and f: "instance_fund_entry cs nonce a ptr t_open t_lapse contest now i = Inr (eid, j)"
  shows "moves cs i (unat a) [] j"
proof -
  let ?e = "\<lparr>re_nonce = nonce, re_amount = a, re_refund_ptr = ptr, re_t_open = t_open, re_t_lapse = t_lapse,
    re_contest = contest, re_state = rail_state.Funded\<rparr>"
  have eid: "a \<noteq> 0" "t_open \<le> t_lapse" "mi_entries i eid = None" "j = i\<lparr>mi_entries := (mi_entries i)(eid \<mapsto> ?e)\<rparr>"
      "eid = entry_id_purchase cs (mi_seed_instance i) nonce a t_open t_lapse contest"
    using f by (auto simp: instance_fund_entry_def Let_def not_less)
  have "instance_inv cs j"
    by (rule instance_inv_step [OF inv])
      (use eid instance_inv_parts(2,5,6) [OF inv] in \<open>auto simp: same_instance_def entry_inv_def split: if_splits\<close>)
  moreover have "map_total live (mi_entries j) = map_total live (mi_entries i) + unat a"
    using map_total_upd [of "mi_entries i" live eid ?e] instance_inv_parts(5) [OF inv] eid(3,4) by (simp add: live_def)
  ultimately show ?thesis
    using eid(4) by (simp add: shifts_def same_instance_def held_def volume_def pool_def)
qed

definition sunk_entry :: "bytes \<Rightarrow> meed_instance \<Rightarrow> nat" where
  "sunk_entry eid i = (case mi_entries i eid of None \<Rightarrow> 0 | Some e \<Rightarrow> sunk i (unat (re_amount e)))"

lemma attest_moves:
  assumes inv: "instance_inv cs i" and vol: "volume i < 2 ^ 128"
  shows "instance_attest cs eid sg i \<noteq> Inl Panic \<and>
    (instance_attest cs eid sg i = Inr (out, j) \<longrightarrow> shifts cs i 0 (sunk_entry eid i) out j)"
proof (cases "mi_entries i eid")
  case (Some e)
  show ?thesis
  proof (cases "ensure_open e")
    case (Inr u)
    then show ?thesis
      using close_distribute [OF inv vol Some ensure_open_live, of rail_state.Attested] Some
      by (auto simp: instance_attest_def check_sig_def and_then_Inl sunk_entry_def)
  qed (use Some in \<open>auto simp: instance_attest_def ensure_open_def split: rail_state.splits\<close>)
qed (simp add: instance_attest_def)

lemma claim_lapsed_moves:
  assumes inv: "instance_inv cs i" and vol: "volume i < 2 ^ 128"
  shows "instance_claim_lapsed eid now i \<noteq> Inl Panic \<and>
    (instance_claim_lapsed eid now i = Inr (out, j) \<longrightarrow> shifts cs i 0 (sunk_entry eid i) out j)"
proof (cases "mi_entries i eid")
  case (Some e)
  show ?thesis
  proof (cases "re_state e = rail_state.Funded")
    case True
    then have "live e = unat (re_amount e)" by (simp add: live_def)
    then show ?thesis
      using close_distribute [OF inv vol Some, of rail_state.Lapsed] Some True
      by (auto simp: instance_claim_lapsed_def and_then_Inl sunk_entry_def)
  qed (use Some in \<open>auto simp: instance_claim_lapsed_def\<close>)
qed (simp add: instance_claim_lapsed_def)

lemma cancel_moves:
  assumes inv: "instance_inv cs i" and c: "instance_cancel cs eid sg i = Inr (out, j)"
  shows "moves cs i 0 out j"
proof -
  obtain e u where e: "mi_entries i eid = Some e" "ensure_open e = Inr u"
      "out = [\<lparr>po_dest = re_refund_ptr e, po_amount = re_amount e\<rparr>]" "j = set_state eid e rail_state.Cancelled i"
    using c by (auto simp: instance_cancel_def)
  then show ?thesis using close_refund [OF inv e(1) ensure_open_live] by simp
qed

lemma execute_reclaim_moves:
  assumes inv: "instance_inv cs i" and x: "instance_execute_reclaim eid now i = Inr (out, j)"
  shows "moves cs i 0 out j"
proof -
  obtain e where e: "mi_entries i eid = Some e" using x by (auto simp: instance_execute_reclaim_def)
  have "(\<exists>t. re_state e = rail_state.ReclaimOpen t) \<and>
      out = [\<lparr>po_dest = re_refund_ptr e, po_amount = re_amount e\<rparr>] \<and> j = set_state eid e rail_state.Reclaimed i"
    using x e by (cases "re_state e") (auto simp: instance_execute_reclaim_def)
  then show ?thesis using close_refund [OF inv e] by (auto simp: live_def)
qed

lemma open_reclaim_moves:
  assumes inv: "instance_inv cs i" and x: "instance_open_reclaim eid now i = Inr j"
  shows "moves cs i 0 [] j"
proof -
  obtain e where e: "mi_entries i eid = Some e" "re_state e = rail_state.Funded"
      "re_t_open e \<le> now" "now \<le> re_t_lapse e" "j = set_state eid e (rail_state.ReclaimOpen now) i"
    using x by (auto simp: instance_open_reclaim_def)
  have l: "live e = unat (re_amount e)" using e(2) by (simp add: live_def)
  have "instance_inv cs j" "map_total live (mi_entries j) = map_total live (mi_entries i)"
    using set_state_inv [OF inv e(1), of "rail_state.ReclaimOpen now"] e(3,4) l by (auto simp: e(5))
  then show ?thesis using e(5) by (simp add: shifts_def same_instance_def held_def volume_def pool_def)
qed

section \<open>Claim records and watermarks\<close>

lemma fund_claim_moves:
  assumes inv: "instance_inv cs i" and vol: "volume i + unat a < 2 ^ 128"
  shows "instance_fund_claim_record cs cid ref a i \<noteq> Inl Panic \<and>
    (instance_fund_claim_record cs cid ref a i = Inr (key, out, j) \<longrightarrow> shifts cs i (unat a) (sunk i (unat a)) out j)"
proof -
  let ?i = "i\<lparr>mi_claim_records := insert (claim_record_id cs (mi_seed_instance i) cid ref a) (mi_claim_records i)\<rparr>"
  have inv': "instance_inv cs ?i" 
    by (rule instance_inv_step [OF inv]) (use instance_inv_parts(2,5,6) [OF inv] in \<open>simp_all add: same_instance_def\<close>)
  have "unat (mi_v_received ?i) + unat a < 2 ^ 128" "sunk ?i = sunk i"
    using vol by (simp_all add: volume_def sunk_def fun_eq_iff)
  then obtain out' v paid where d: "instance_distribute a ?i = Inr (out', ?i\<lparr>mi_v_received := v, mi_paid := paid\<rparr>)"
      "unat v + sunk i (unat a) = unat (mi_v_received ?i) + unat a" "instance_inv cs (?i\<lparr>mi_v_received := v, mi_paid := paid\<rparr>)"
      "payouts_total out' + pool (?i\<lparr>mi_v_received := v, mi_paid := paid\<rparr>) + sunk i (unat a) = pool ?i + unat a"
    using distribute_moves [OF inv'] by metis
  have "pool ?i = pool i" by (simp add: pool_def)
  then have "shifts cs i (unat a) (sunk i (unat a)) out' (?i\<lparr>mi_v_received := v, mi_paid := paid\<rparr>)"
    using d(2,3,4) by (simp add: shifts_def same_instance_def held_def volume_def)
  then show ?thesis using d(1) by (auto simp: instance_fund_claim_record_def Let_def and_then_Inl)
qed

definition funded_of :: "meed_instance \<Rightarrow> bytes \<Rightarrow> nat" where
  "funded_of i c = unat (instance_channel_funded_p c i)"

lemma advance_weightless: "mi_bp_total i = 0 \<Longrightarrow>
  instance_advance_channel_meed c target i = Inr (instance_channel_funded_p c i, 0, [], i)"
  by (auto simp: instance_advance_channel_meed_def instance_channel_funded_p_def split: option.splits)

lemma moves_none: "instance_inv cs i \<Longrightarrow> moves cs i 0 [] i"
  by (simp add: shifts_def same_instance_def)

lemma advance_moves:
  assumes inv: "instance_inv cs i" and pos: "0 < mi_bp_total i"
  shows "\<exists>f delta out j. instance_advance_channel_meed c target i = Inr (f, delta, out, j)
    \<and> moves cs i (unat delta) out j \<and> unat delta = unat target - funded_of i c
    \<and> unat f = max (unat target) (funded_of i c) \<and> funded_of j c = unat f
    \<and> (\<forall>c'. c' \<noteq> c \<longrightarrow> mi_channel_paid j c' = mi_channel_paid i c')
    \<and> (\<forall>d. payouts_to d out = gain (mi_bp_total i) (mi_meed i) (funded_of i c) (unat f) d)"
proof -
  note tot = instance_inv_parts(1) [OF inv]
  obtain funded paid where st: "(case mi_channel_paid i c of Some w \<Rightarrow> (cw_funded_p w, cw_paid w)
        | None \<Rightarrow> (0, replicate (length (mi_meed i)) 0)) = (funded, paid)"
    by (rule prod.exhaust)
  have fp: "funded = instance_channel_funded_p c i \<and> map unat paid = floors (mi_bp_total i) (mi_meed i) (unat funded)
      \<and> value_at (\<lambda>w. unat (cw_residue w)) (mi_channel_paid i) c + sum_list (map unat paid) = unat funded"
  proof (cases "mi_channel_paid i c")
    case None
    then have "funded = 0" "paid = replicate (length (mi_meed i)) 0" using st by auto
    then show ?thesis using None
      by (simp add: instance_channel_funded_p_def floors_0 map_replicate_const sum_list_replicate)
  next
    case (Some w)
    then have "funded = cw_funded_p w" "paid = cw_paid w" using st by auto
    then show ?thesis using Some instance_inv_parts(3) [OF inv Some]
      by (simp add: instance_channel_funded_p_def watermark_exact_def, elim conjE, simp)
  qed
  note ex = conjunct1 [OF conjunct2 [OF fp]] and res = conjunct2 [OF conjunct2 [OF fp]]
  show ?thesis
  proof (cases "target \<le> funded")
    case True
    then have "instance_advance_channel_meed c target i = Inr (funded, 0, [], i)"
      by (simp add: instance_advance_channel_meed_def st)
    then show ?thesis using True inv fp
      by (auto simp: shifts_def same_instance_def funded_of_def gain_def word_le_nat_alt)
  next
    case False
    then have less: "unat funded < unat target" by (simp add: word_le_nat_alt)
    obtain out paid' where s: "advance_loop (unat target) (mi_bp_total i) (mi_meed i) paid 0
          = Inr (out, paid', foldl sat_add 0 paid')"
        "map unat paid' = floors (mi_bp_total i) (mi_meed i) (unat target)"
        "payouts_total out + sum_list (floors (mi_bp_total i) (mi_meed i) (unat funded))
          = sum_list (floors (mi_bp_total i) (mi_meed i) (unat target))"
        "\<forall>d. payouts_to d out = gain (mi_bp_total i) (mi_meed i) (unat funded) (unat target) d"
      using advance_loop_exact [OF instance_weights [OF inv] less_imp_le [OF less] _ ex, of 0] unat_lt2p [of target]
      by auto
    have le: "sum_list (map unat paid') \<le> unat target"
      using floors_le [of "mi_meed i" "unat target"] pos by (simp add: s(2) flip: tot)
    then have dist: "unat (foldl sat_add 0 paid') = sum_list (map unat paid')"
      using foldl_sat_add_exact [of 0 paid'] unat_lt2p [of target] by simp
    let ?w = "\<lparr>cw_funded_p = target, cw_paid = paid', cw_residue = sat_sub target (foldl sat_add 0 paid')\<rparr>"
    let ?j = "i\<lparr>mi_channel_paid := (mi_channel_paid i)(c \<mapsto> ?w)\<rparr>"
    have adv: "instance_advance_channel_meed c target i = Inr (target, target - funded, out, ?j)"
      using False pos s(1) by (simp add: instance_advance_channel_meed_def st Let_def)
    have d: "unat (target - funded) = unat target - unat funded" using less by (simp add: unat_sub word_le_nat_alt)
    have w: "watermark_exact i ?w" using s(2) le dist by (simp add: watermark_exact_def unat_sat_sub)
    have inv': "instance_inv cs ?j"
      by (rule instance_inv_step [OF inv])
        (use w instance_inv_parts(2,5,6) [OF inv] in \<open>auto simp: same_instance_def split: if_splits\<close>)
    have "map_total (\<lambda>w. unat (cw_residue w)) (mi_channel_paid ?j) + value_at (\<lambda>w. unat (cw_residue w)) (mi_channel_paid i) c
        = map_total (\<lambda>w. unat (cw_residue w)) (mi_channel_paid i) + unat (cw_residue ?w)"
      using map_total_upd [of "mi_channel_paid i" "\<lambda>w. unat (cw_residue w)" c ?w] instance_inv_parts(6) [OF inv] by simp
    moreover have "unat (cw_residue ?w) + sum_list (map unat paid') = unat target"
      using w unfolding watermark_exact_def by (elim conjE) (simp del: map_eq_conv)
    ultimately have "payouts_total out + held ?j = held i + unat (target - funded)"
      using res s(2,3) ex d less by (simp add: held_def pool_def)
    then have m: "moves cs i (unat (target - funded)) out ?j"
      using inv' by (simp add: shifts_def same_instance_def volume_def)
    have f: "funded_of ?j c = unat target" "funded_of i c = unat funded"
      by (simp_all add: funded_of_def instance_channel_funded_p_def fp)
    show ?thesis using adv m d less s(4) f by (intro exI conjI) (auto simp: max_def)
  qed
qed

end
