(* ===== verification/Rail_Conservation.thy ===== *)
theory Rail_Conservation
  imports Virtual_Rail Rail_Invariant
begin

text \<open>
  The balances of the virtual rail on exact numbers: credits, debits, payouts and the division of a
  split, as long as the total of the ledger stays in the 128-bit domain. Before it, balances and payouts on the ledger.
\<close>

section \<open>The ledger\<close>

abbreviation ledger_total :: "ledger \<Rightarrow> nat" where "ledger_total \<equiv> map_total unat"

lemma balance_value_at: "unat (balance_of a l) = value_at unat l a"
  by (simp add: balance_of_def value_at_def split: option.split)

lemma balance_upd [simp]: "balance_of d (l(a \<mapsto> b)) = (if a = d then b else balance_of d l)"
  by (simp add: balance_of_def)

lemma balance_le: "finite (dom l) \<Longrightarrow> unat (balance_of a l) \<le> ledger_total l"
  by (simp add: balance_value_at value_at_le)

lemma ledger_upd:
  "finite (dom l) \<Longrightarrow> ledger_total (l(a \<mapsto> b)) + unat (balance_of a l) = ledger_total l + unat b"
  by (simp add: balance_value_at map_total_upd)

lemma credit_exact:
  assumes "finite (dom l)" "ledger_total l + unat x < 2 ^ 128"
  shows "ledger_total (credit a x l) = ledger_total l + unat x" "finite (dom (credit a x l))"
    "unat (balance_of d (credit a x l)) = unat (balance_of d l) + (if a = d then unat x else 0)"
proof -
  have "unat (sat_add (balance_of a l) x) = unat (balance_of a l) + unat x"
    using balance_le [OF assms(1), of a] assms(2) by (simp add: unat_sat_add)
  then show "ledger_total (credit a x l) = ledger_total l + unat x"
    "unat (balance_of d (credit a x l)) = unat (balance_of d l) + (if a = d then unat x else 0)"
    using ledger_upd [OF assms(1), of a "sat_add (balance_of a l) x"]
    by (auto simp: credit_def)
qed (use assms in \<open>simp add: credit_def\<close>)

lemma add_to_credit:
  assumes "finite (dom l)" "ledger_total l + unat x < 2 ^ 128"
  shows "add_to a x l = Inr (credit a x l)"
proof -
  have small: "unat (balance_of a l) + unat x < 2 ^ 128"
    using balance_le [OF assms(1), of a] assms(2) by linarith
  then obtain b where b: "checked_add (balance_of a l) x = Some b"
    by (cases "checked_add (balance_of a l) x") (simp_all add: checked_add_None)
  then have "b = sat_add (balance_of a l) x"
    using small by (auto simp: checked_add_Some unat_sat_add word_unat_eq_iff)
  then show ?thesis using b by (simp add: add_to_def credit_def)
qed

abbreviation pay_out :: "ledger \<Rightarrow> payout list \<Rightarrow> ledger" where
  "pay_out \<equiv> foldl (\<lambda>l p. credit (po_dest p) (po_amount p) l)"

lemma pay_out_exact:
  assumes "finite (dom l)" "ledger_total l + payouts_total out < 2 ^ 128"
  shows "ledger_total (pay_out l out) = ledger_total l + payouts_total out \<and> finite (dom (pay_out l out))
    \<and> (\<forall>d. unat (balance_of d (pay_out l out)) = unat (balance_of d l) + payouts_to d out)"
  using assms
proof (induction out arbitrary: l)
  case (Cons p out)
  have c: "ledger_total (credit (po_dest p) (po_amount p) l) = ledger_total l + unat (po_amount p)"
    "finite (dom (credit (po_dest p) (po_amount p) l))"
    "\<And>d. unat (balance_of d (credit (po_dest p) (po_amount p) l))
      = unat (balance_of d l) + (if po_dest p = d then unat (po_amount p) else 0)"
    using credit_exact [of l "po_amount p"] Cons.prems by simp_all
  show ?case
    using Cons.IH [OF c(2)] Cons.prems(2) c(1,3) by simp
qed simp

lemma debit_exact:
  assumes "finite (dom (vr_ledger s))" "x \<le> balance_of a (vr_ledger s)" "x \<noteq> 0"
  shows "\<exists>l. debit a x s = Inr (s\<lparr>vr_ledger := l\<rparr>) \<and> finite (dom l) \<and> ledger_total l + unat x = ledger_total (vr_ledger s)"
proof (cases "vr_ledger s a")
  case None
  then show ?thesis using assms(2,3) by (simp add: balance_of_def)
next
  case (Some b)
  then have b: "balance_of a (vr_ledger s) = b" by (simp add: balance_of_def)
  obtain b' where b': "checked_sub b x = Some b'" "unat b' = unat b - unat x" "unat x \<le> unat b"
    using assms(2) unfolding b by (cases "checked_sub b x") (auto simp: unat_ops word_le_nat_alt)
  have "ledger_total ((vr_ledger s)(a \<mapsto> b')) + unat x = ledger_total (vr_ledger s)"
    using ledger_upd [OF assms(1), of a b'] b b'(2,3) by simp
  then show ?thesis using Some b'(1) assms(1)
    by (intro exI [of _ "(vr_ledger s)(a \<mapsto> b')"]) (simp add: debit_def)
qed

section \<open>Splits\<close>

definition to_share :: "split_recipient \<Rightarrow> meed_share" where
  "to_share r = \<lparr>ms_dest = sr_dest r, ms_bp = sr_bp r\<rparr>"

lemma to_share_simps [simp]: "ms_dest (to_share r) = sr_dest r" "ms_bp (to_share r) = sr_bp r"
  by (simp_all add: to_share_def)

lemma unat_BP_DENOM32: "unat BP_DENOM = 10000"
  by (simp add: BP_DENOM_def)

text \<open>The loop of a split is the loop of an instance with the payouts credited on the way.\<close>

lemma split_loop_share_loop:
  assumes "share_loop v 10000 (map to_share rs) ps = Inr (out, ps')"
    "finite (dom l)" "ledger_total l + payouts_total out < 2 ^ 128"
  shows "split_loop v rs ps l = Inr (ps', pay_out l out)"
  using assms
proof (induction rs arbitrary: ps out ps' l)
  case (Cons r rs)
  then obtain p qs where ps: "ps = p # qs" by (cases ps) auto
  from Cons.prems(1) obtain e c out' qs' where
      e: "entitlement v 10000 (to_share r) = Inr e" and c: "checked_sub e p = Some c"
    and s: "share_loop v 10000 (map to_share rs) qs = Inr (out', qs')"
    and o: "(out, ps') = (if 0 < c then (\<lparr>po_dest = sr_dest r, po_amount = c\<rparr> # out', e # qs') else (out', p # qs'))"
    by (auto simp: ps split: if_splits)
  have ent: "v * unat (sr_bp r) div 10000 < 2 ^ 128" "word_of_nat (v * unat (sr_bp r) div 10000) = e"
    using e by (auto simp: entitlement_def Let_def split: if_splits)
  show ?case
  proof (cases "0 < c")
    case True
    then have o': "out = \<lparr>po_dest = sr_dest r, po_amount = c\<rparr> # out'" "ps' = e # qs'" using o by simp_all
    have small: "ledger_total l + unat c < 2 ^ 128" using Cons.prems(3) o'(1) by simp
    note cr = add_to_credit [OF Cons.prems(2) small] credit_exact(1,2) [OF Cons.prems(2) small]
    have "split_loop v rs qs (credit (sr_dest r) c l) = Inr (qs', pay_out (credit (sr_dest r) c l) out')"
      using Cons.IH [OF s, of "credit (sr_dest r) c l"] Cons.prems(3) o'(1) cr by simp
    then show ?thesis using True ent c cr(1) o' by (simp add: ps unat_BP_DENOM32)
  next
    case False
    then have "split_loop v rs qs l = Inr (qs', pay_out l out')" "out = out'" "ps' = p # qs'"
      using Cons.IH [OF s Cons.prems(2)] Cons.prems(3) o by simp_all
    then show ?thesis using False ent c by (simp add: ps unat_BP_DENOM32)
  qed
qed simp

definition split_inv :: "split_state \<Rightarrow> bool" where
  "split_inv st \<longleftrightarrow> sum_list (map (\<lambda>r. unat (sr_bp r)) (ss_recipients st)) = 10000 \<and>
     map unat (ss_paid st) = floors 10000 (map to_share (ss_recipients st)) (unat (ss_v_received st))"

definition split_held :: "split_state \<Rightarrow> nat" where
  "split_held st = unat (ss_v_received st) - sum_list (map unat (ss_paid st))"

lemma split_weights:
  "split_inv st \<Longrightarrow> sum_list (map weight (map to_share (ss_recipients st))) = 10000"
  by (simp add: split_inv_def comp_def)

lemma split_paid_le:
  "split_inv st \<Longrightarrow> sum_list (map unat (ss_paid st)) \<le> unat (ss_v_received st)"
  using floors_le [of "map to_share (ss_recipients st)"] split_weights [of st]
  by (simp add: split_inv_def del: map_map)

lemma split_pay_exact:
  assumes inv: "split_inv st" and v: "checked_add (ss_v_received st) x = Some v"
    and l: "finite (dom l)" "ledger_total l + split_held st + unat x < 2 ^ 128"
  shows "\<exists>st' out. split_distribute (st\<lparr>ss_v_received := v\<rparr>) l = Inr (st', pay_out l out)
    \<and> split_inv st' \<and> ss_recipients st' = ss_recipients st \<and> ss_v_received st' = v
    \<and> payouts_total out + split_held st' = split_held st + unat x
    \<and> (\<forall>d. payouts_to d out = gain 10000 (map to_share (ss_recipients st)) (unat (ss_v_received st)) (unat v) d)"
proof -
  let ?rs = "map to_share (ss_recipients st)"
  have w: "\<forall>r \<in> set ?rs. weight r \<le> 10000" using weights_le [of _ ?rs] split_weights [OF inv] by metis
  have v': "unat v = unat (ss_v_received st) + unat x" using v by (auto simp: checked_add_Some)
  obtain out ps' where s: "share_loop (unat v) 10000 ?rs (ss_paid st) = Inr (out, ps')"
      "map unat ps' = floors 10000 ?rs (unat v)"
      "payouts_total out + sum_list (floors 10000 ?rs (unat (ss_v_received st))) = sum_list (floors 10000 ?rs (unat v))"
      "\<forall>d. payouts_to d out = gain 10000 ?rs (unat (ss_v_received st)) (unat v) d"
    using share_loop_exact [OF w, of "unat (ss_v_received st)" "unat v" "ss_paid st"] inv v' unat_lt2p [of v]
    by (auto simp: split_inv_def)
  let ?st = "st\<lparr>ss_v_received := v, ss_paid := ps'\<rparr>"
  have inv': "split_inv ?st" using inv s(2) by (simp add: split_inv_def)
  have out: "payouts_total out + split_held ?st = split_held st + unat x"
    using split_paid_le [OF inv] split_paid_le [OF inv'] s(2,3) v' inv by (simp add: split_held_def split_inv_def)
  then have "split_loop (unat v) (ss_recipients st) (ss_paid st) l = Inr (ps', pay_out l out)"
    using split_loop_share_loop [OF s(1) l(1)] l(2) by simp
  then have "split_distribute (st\<lparr>ss_v_received := v\<rparr>) l = Inr (?st, pay_out l out)"
    by (simp add: split_distribute_def)
  then show ?thesis using inv' out s(4) by fastforce
qed

text \<open>
  Conservation of value on the virtual rail, and the absence of panics: every operation keeps the
  invariant of each contract, and the ledger, the splits and the instances together hold what they held
  plus what the operation minted. The obligations are stated with \<open>lands P m\<close>: the call \<open>m\<close> does not
  panic, and if it succeeds the result satisfies \<open>P\<close>.
\<close>

section \<open>Calls that do not panic\<close>

definition lands :: "('a \<Rightarrow> bool) \<Rightarrow> 'e fault + 'a \<Rightarrow> bool" where
  "lands P m \<longleftrightarrow> m \<noteq> Inl Panic \<and> (\<forall>x. m = Inr x \<longrightarrow> P x)"

lemma lands_Inr [simp]: "lands P (Inr x) = P x"
  by (simp add: lands_def)

lemma lands_Err [simp]: "lands P (Inl (Err e))"
  by (simp add: lands_def)

lemma lands_and_then: "lands Q m \<Longrightarrow> (\<And>x. m = Inr x \<Longrightarrow> Q x \<Longrightarrow> lands P (f x)) \<Longrightarrow> lands P (and_then m f)"
  by (auto simp: lands_def and_then_Inl)

lemma lands_ensure: "(b \<Longrightarrow> lands P (f ())) \<Longrightarrow> lands P (and_then (ensure b (Err e)) f)"
  by (cases b) simp_all

lemma lands_ok_or: "(\<And>x. m = Some x \<Longrightarrow> lands P (f x)) \<Longrightarrow> lands P (and_then (ok_or m (Err e)) f)"
  by (cases m) simp_all

lemma lands_mono: "lands Q m \<Longrightarrow> (\<And>x. Q x \<Longrightarrow> P x) \<Longrightarrow> lands P m"
  by (simp add: lands_def)

lemma lands_of_entry [simp]: "lands P (of_entry m) = lands P m"
proof (cases m)
  case (Inl f)
  then show ?thesis by (cases f) (simp_all add: lands_def of_entry_def)
qed (simp add: lands_def of_entry_def)

section \<open>The invariant of the rail\<close>

definition rail_supply :: "inner \<Rightarrow> nat" where
  "rail_supply s = ledger_total (vr_ledger s) + map_total split_held (vr_splits s) + map_total held (vr_instances s)"

definition rail_ok :: "crypto_suite \<Rightarrow> nat \<Rightarrow> inner \<Rightarrow> bool" where
  "rail_ok cs v s \<longleftrightarrow> finite (dom (vr_ledger s)) \<and> finite (dom (vr_splits s)) \<and> finite (dom (vr_instances s)) \<and>
     (\<forall>a st. vr_splits s a = Some st \<longrightarrow> split_inv st \<and> unat (ss_v_received st) \<le> v) \<and>
     (\<forall>a i. vr_instances s a = Some i \<longrightarrow> instance_inv cs i \<and> volume i \<le> v)"

lemma rail_okD:
  assumes "rail_ok cs v s"
  shows "finite (dom (vr_ledger s))" "finite (dom (vr_splits s))" "finite (dom (vr_instances s))"
    "vr_splits s a = Some st \<Longrightarrow> split_inv st" "vr_splits s a = Some st \<Longrightarrow> unat (ss_v_received st) \<le> v"
    "vr_instances s a = Some i \<Longrightarrow> instance_inv cs i" "vr_instances s a = Some i \<Longrightarrow> volume i \<le> v"
  using assms unfolding rail_ok_def by blast+

lemma rail_ok_mono: "rail_ok cs v s \<Longrightarrow> v \<le> w \<Longrightarrow> rail_ok cs w s"
  unfolding rail_ok_def by (meson le_trans)

definition same_money :: "inner \<Rightarrow> inner \<Rightarrow> bool" where
  "same_money t s \<longleftrightarrow> vr_ledger t = vr_ledger s \<and> vr_splits t = vr_splits s \<and> vr_instances t = vr_instances s"

lemma same_moneyD: "same_money t s \<Longrightarrow> rail_ok cs v t = rail_ok cs v s \<and> rail_supply t = rail_supply s"
  by (simp add: same_money_def rail_ok_def rail_supply_def)

text \<open>What a call makes of the state: the invariant, and \<open>a\<close> more than it held, less \<open>l\<close> that
  an instance without weights swallowed.\<close>

definition nets :: "crypto_suite \<Rightarrow> nat \<Rightarrow> inner \<Rightarrow> nat \<Rightarrow> nat \<Rightarrow> inner \<Rightarrow> bool" where
  "nets cs v s a l t \<longleftrightarrow> rail_ok cs v t \<and> rail_supply t + l = rail_supply s + a"

abbreviation gains :: "crypto_suite \<Rightarrow> nat \<Rightarrow> inner \<Rightarrow> nat \<Rightarrow> inner \<Rightarrow> bool" where
  "gains cs v s a \<equiv> nets cs v s a 0"

lemma gains_same: "rail_ok cs v s \<Longrightarrow> same_money t s \<Longrightarrow> gains cs v s 0 t"
  using same_moneyD by (simp add: nets_def)

lemma gains_then_same: "nets cs v s a l t \<Longrightarrow> same_money u t \<Longrightarrow> nets cs v s a l u"
  using same_moneyD by (simp add: nets_def)

section \<open>The pieces of an operation\<close>

lemma record_ref_lands:
  "vr_next_ref s \<noteq> - 1 \<Longrightarrow> lands (\<lambda>(r, t). same_money t s) (record_ref info s)"
proof -
  assume "vr_next_ref s \<noteq> - 1"
  then have "unat (vr_next_ref s) \<noteq> 2 ^ 64 - 1"
    using unat_max_word [where 'a = 64] by (simp add: word_unat_eq_iff)
  then have "unat (vr_next_ref s) + 1 < 2 ^ 64" using unat_lt2p [of "vr_next_ref s"] by simp
  then obtain n where "checked_add (vr_next_ref s) 1 = Some n"
    by (cases "checked_add (vr_next_ref s) 1") (auto simp: checked_add_None)
  then show ?thesis by (simp add: record_ref_def Let_def same_money_def)
qed

lemma record_ref_gains:
  "nets cs v s a l t \<Longrightarrow> vr_next_ref t \<noteq> - 1 \<Longrightarrow> lands (\<lambda>(x, u). nets cs v s a l u) (record_ref info t)"
  by (rule lands_mono [OF record_ref_lands]) (auto intro: gains_then_same)

lemma lands_map: "lands (\<lambda>(x, u). P u) m \<Longrightarrow> lands (\<lambda>(x, u). P u) (and_then m (\<lambda>(r, u). Inr (g r, u)))"
  by (auto simp: lands_def and_then_Inl)

lemma payouts_gain:
  assumes "rail_ok cs v s" "rail_supply s + payouts_total out < 2 ^ 128"
  shows "gains cs v s (payouts_total out) (apply_payouts out s)"
proof -
  have "ledger_total (vr_ledger s) + payouts_total out < 2 ^ 128" using assms(2) by (simp add: rail_supply_def)
  then show ?thesis using pay_out_exact [OF rail_okD(1) [OF assms(1)], of out] assms(1)
    by (simp add: nets_def rail_ok_def rail_supply_def apply_payouts_def)
qed

lemma debit_lands:
  assumes "rail_ok cs v s" "x \<le> balance_of a (vr_ledger s)" "x \<noteq> 0"
  shows "lands (\<lambda>t. rail_ok cs v t \<and> rail_supply t + unat x = rail_supply s \<and> vr_next_ref t = vr_next_ref s
    \<and> vr_instances t = vr_instances s) (debit a x s)"
  using debit_exact [OF rail_okD(1) [OF assms(1)] assms(2,3)] assms(1) by (auto simp: rail_ok_def rail_supply_def)

lemma put_instance:
  assumes ok: "rail_ok cs v s" and i: "vr_instances s addr = Some i" and m: "shifts cs i a l out j"
  shows "rail_ok cs (v + a) (s\<lparr>vr_instances := (vr_instances s)(addr \<mapsto> j)\<rparr>)"
    "rail_supply (s\<lparr>vr_instances := (vr_instances s)(addr \<mapsto> j)\<rparr>) + payouts_total out + l = rail_supply s + a"
proof -
  have j: "instance_inv cs j" "volume j \<le> v + a" "payouts_total out + held j + l = held i + a"
    using m rail_okD(7) [OF ok i] by (simp_all add: shifts_def)
  show "rail_ok cs (v + a) (s\<lparr>vr_instances := (vr_instances s)(addr \<mapsto> j)\<rparr>)"
    using rail_ok_mono [OF ok, of "v + a"] j(1,2) unfolding rail_ok_def by simp
  show "rail_supply (s\<lparr>vr_instances := (vr_instances s)(addr \<mapsto> j)\<rparr>) + payouts_total out + l = rail_supply s + a"
    using map_total_upd [OF rail_okD(3) [OF ok], of held addr j] i j(3) by (simp add: rail_supply_def)
qed

text \<open>An operation on an instance that receives \<open>a\<close>, hands out \<open>out x\<close> and loses \<open>l\<close>.\<close>

lemma on_instance_lands:
  assumes ok: "rail_ok cs v s"
    and f: "\<And>i. vr_instances s addr = Some i \<Longrightarrow> lands (\<lambda>(x, j). shifts cs i a l (out x) j \<and> R x) (f i)"
  shows "lands (\<lambda>(x, t). rail_ok cs (v + a) t \<and> rail_supply t + payouts_total (out x) + l = rail_supply s + a \<and> R x
    \<and> vr_next_ref t = vr_next_ref s \<and> vr_ledger t = vr_ledger s) (on_instance addr f s)"
  unfolding on_instance_def
  by (rule lands_ok_or, rule lands_and_then [where Q = "\<lambda>(x, j). \<exists>i. vr_instances s addr = Some i \<and> shifts cs i a l (out x) j \<and> R x"])
    (auto dest: f elim!: lands_mono put_instance [OF ok] simp: put_instance [OF ok])

lemma pay_from_lands:
  assumes ok: "rail_ok cs v s" and small: "rail_supply s < 2 ^ 128"
    and f: "\<And>i. vr_instances s addr = Some i \<Longrightarrow> lands (\<lambda>(x, j). shifts cs i 0 l x j) (f i)"
  shows "lands (nets cs v s 0 l) (pay_from addr f s)"
  unfolding pay_from_def
proof (rule lands_and_then)
  show "lands (\<lambda>(x, t). rail_ok cs (v + 0) t \<and> rail_supply t + payouts_total x + l = rail_supply s + 0 \<and> True
      \<and> vr_next_ref t = vr_next_ref s \<and> vr_ledger t = vr_ledger s) (on_instance addr f s)"
    using on_instance_lands [OF ok, of addr 0 l "\<lambda>x. x" "\<lambda>_. True" f] f by simp
qed (use payouts_gain small in \<open>fastforce simp: nets_def\<close>)


section \<open>The entry machine on the rail\<close>

lemma lands_iff_moves:
  "(m \<noteq> Inl Panic \<and> (\<forall>x j. m = Inr (x, j) \<longrightarrow> shifts cs i a l (out x) j)) \<Longrightarrow>
   lands (\<lambda>(x, j). shifts cs i a l (out x) j) m"
  by (auto simp: lands_def)

lemma attest_lands: "instance_inv cs i \<Longrightarrow> volume i < 2 ^ 128 \<Longrightarrow>
  lands (\<lambda>(x, j). shifts cs i 0 (sunk_entry eid i) x j) (instance_attest cs eid sg i)"
  by (rule lands_iff_moves) (use attest_moves in blast)

lemma claim_lapsed_lands: "instance_inv cs i \<Longrightarrow> volume i < 2 ^ 128 \<Longrightarrow>
  lands (\<lambda>(x, j). shifts cs i 0 (sunk_entry eid i) x j) (instance_claim_lapsed eid now i)"
  by (rule lands_iff_moves) (use claim_lapsed_moves in blast)

lemma cancel_no_panic: "instance_cancel cs eid sg i \<noteq> Inl Panic"
  by (auto simp: instance_cancel_def and_then_Inl check_sig_def ensure_open_def split: rail_state.splits)

lemma cancel_lands: "instance_inv cs i \<Longrightarrow> lands (\<lambda>(x, j). moves cs i 0 x j) (instance_cancel cs eid sg i)"
  by (rule lands_iff_moves) (use cancel_moves cancel_no_panic in blast)

lemma execute_no_panic: "instance_execute_reclaim eid now i \<noteq> Inl Panic"
  by (auto simp: instance_execute_reclaim_def and_then_Inl split: rail_state.splits)

lemma execute_lands: "instance_inv cs i \<Longrightarrow> lands (\<lambda>(x, j). moves cs i 0 x j) (instance_execute_reclaim eid now i)"
  by (rule lands_iff_moves) (use execute_reclaim_moves execute_no_panic in blast)

lemma fund_entry_no_panic: "instance_fund_entry cs nonce a ptr t_open t_lapse contest now i \<noteq> Inl Panic"
  by (auto simp: instance_fund_entry_def and_then_Inl Let_def)

lemma open_no_panic: "instance_open_reclaim eid now i \<noteq> Inl Panic"
  by (auto simp: instance_open_reclaim_def and_then_Inl)

definition rail_inv :: "crypto_suite \<Rightarrow> nat \<Rightarrow> inner \<Rightarrow> bool" where
  "rail_inv cs v s \<longleftrightarrow> rail_ok cs v s \<and> rail_supply s \<le> v"

text \<open>What a distribution at an instance of the rail loses.\<close>

definition lost_at :: "(meed_instance \<Rightarrow> nat) \<Rightarrow> bytes \<Rightarrow> inner \<Rightarrow> nat" where
  "lost_at f addr s = (case vr_instances s addr of None \<Rightarrow> 0 | Some i \<Rightarrow> f i)"

lemma pay_from_gains:
  assumes inv: "rail_inv cs v s" and small: "v < 2 ^ 128"
    and f: "\<And>i. instance_inv cs i \<Longrightarrow> volume i < 2 ^ 128 \<Longrightarrow> lands (\<lambda>(x, j). shifts cs i 0 (g i) x j) (f i)"
  shows "lands (nets cs v s 0 (lost_at g addr s)) (pay_from addr f s)"
proof (rule pay_from_lands)
  show "rail_ok cs v s" "rail_supply s < 2 ^ 128" using inv small by (simp_all add: rail_inv_def)
  show "lands (\<lambda>(x, j). shifts cs i 0 (lost_at g addr s) x j) (f i)" if "vr_instances s addr = Some i" for i
    using f [of i] rail_okD(6,7) [of cs v s addr i] that inv small by (simp add: rail_inv_def lost_at_def)
qed

lemma lost_at_none [simp]: "lost_at (\<lambda>i. 0) addr s = 0"
  by (simp add: lost_at_def split: option.split)

lemma entry_gains:
  assumes "rail_inv cs v s" "v < 2 ^ 128"
  shows "lands (nets cs v s 0 (lost_at (sunk_entry eid) addr s)) (attest_entry cs addr eid sg s)"
    "lands (gains cs v s 0) (cancel_entry cs addr eid sg s)"
    "lands (gains cs v s 0) (execute_reclaim addr eid s)"
    "lands (nets cs v s 0 (lost_at (sunk_entry eid) addr s)) (claim_lapsed addr eid s)"
  unfolding attest_entry_def cancel_entry_def execute_reclaim_def claim_lapsed_def
  using pay_from_gains [OF assms attest_lands] pay_from_gains [OF assms claim_lapsed_lands]
    pay_from_gains [OF assms, where g = "\<lambda>i. 0", unfolded lost_at_none, OF cancel_lands]
    pay_from_gains [OF assms, where g = "\<lambda>i. 0", unfolded lost_at_none, OF execute_lands] by simp_all

lemma open_reclaim_gains:
  assumes inv: "rail_inv cs v s"
  shows "lands (gains cs v s 0) (open_reclaim addr eid s)"
proof -
  have ok: "rail_ok cs v s" using inv by (simp add: rail_inv_def)
  have "lands (\<lambda>(x, j). moves cs i 0 [] j \<and> True)
      (and_then (instance_open_reclaim eid (vr_clock s) i) (\<lambda>i'. Inr ((), i')))" if "vr_instances s addr = Some i" for i
    using open_reclaim_moves rail_okD(6) [OF ok that] open_no_panic by (auto simp: lands_def and_then_Inl)
  then have "lands (\<lambda>(x, t). rail_ok cs (v + 0) t \<and> rail_supply t + payouts_total [] + 0 = rail_supply s + 0 \<and> True
      \<and> vr_next_ref t = vr_next_ref s \<and> vr_ledger t = vr_ledger s)
      (on_instance addr (\<lambda>i. and_then (instance_open_reclaim eid (vr_clock s) i) (\<lambda>i'. Inr ((), i'))) s)"
    by (rule on_instance_lands [OF ok])
  then show ?thesis unfolding open_reclaim_def
    by (rule lands_and_then) (auto simp: nets_def)
qed

lemma fund_entry_gains:
  assumes inv: "rail_inv cs v s" and n: "vr_next_ref s \<noteq> - 1"
  shows "lands (\<lambda>(x, t). gains cs (v + unat amount) s (unat amount) t)
    (fund_entry cs addr nonce amount ptr t_open t_lapse contest asset_id s)"
  unfolding fund_entry_def
proof (rule lands_ensure, rule lands_and_then)
  have ok: "rail_ok cs v s" using inv by (simp add: rail_inv_def)
  have "lands (\<lambda>(x, j). moves cs i (unat amount) [] j \<and> True)
      (instance_fund_entry cs nonce amount ptr t_open t_lapse contest (vr_clock s) i)" if "vr_instances s addr = Some i" for i
    using fund_entry_moves rail_okD(6) [OF ok that] fund_entry_no_panic by (auto simp: lands_def)
  then show "lands (\<lambda>(x, t). rail_ok cs (v + unat amount) t \<and> rail_supply t + payouts_total [] + 0 = rail_supply s + unat amount \<and> True
      \<and> vr_next_ref t = vr_next_ref s \<and> vr_ledger t = vr_ledger s)
      (on_instance addr (instance_fund_entry cs nonce amount ptr t_open t_lapse contest (vr_clock s)) s)"
    by (rule on_instance_lands [OF ok])
  fix x :: "bytes \<times> inner"
  assume "case x of (x, t) \<Rightarrow> rail_ok cs (v + unat amount) t \<and> rail_supply t + payouts_total [] + 0 = rail_supply s + unat amount \<and> True
      \<and> vr_next_ref t = vr_next_ref s \<and> vr_ledger t = vr_ledger s"
  then show "lands (\<lambda>(x, t). gains cs (v + unat amount) s (unat amount) t)
      (case x of (eid, t) \<Rightarrow> and_then (record_ref ((plain_info addr asset_id amount)\<lparr>ri_memo := Some nonce, ri_funds_entry := Some eid\<rparr>) t)
        (\<lambda>(r, t). Inr ((r, eid), t)))"
    by (cases x, simp only: prod.case, intro lands_map record_ref_gains) (use n in \<open>simp_all add: nets_def\<close>)
qed

section \<open>Transfers and releases\<close>

lemma record_payment_gains:
  assumes inv: "rail_inv cs v s" and small: "v + unat (tr_amount t) < 2 ^ 128" and n: "vr_next_ref s \<noteq> - 1"
  shows "lands (\<lambda>(x, u). gains cs (v + unat (tr_amount t)) s (unat (tr_amount t)) u) (record_payment t s)"
proof -
  let ?a = "unat (tr_amount t)"
  have ok: "rail_ok cs v s" and sup: "rail_supply s + ?a < 2 ^ 128" using inv small by (simp_all add: rail_inv_def)
  note fin = rail_okD(1,2,3) [OF ok]
  have "lands (\<lambda>u. gains cs (v + ?a) s ?a u \<and> vr_next_ref u = vr_next_ref s)
      (case vr_splits s (tr_to t) of
         Some st \<Rightarrow>
           and_then (ok_or (checked_add (ss_v_received st) (tr_amount t))
             (Err (Rejected ''split payment would overflow running V''))) (\<lambda>v.
           and_then (split_distribute (st\<lparr>ss_v_received := v\<rparr>) (vr_ledger s)) (\<lambda>(st', l).
           Inr (s\<lparr>vr_ledger := l, vr_splits := (vr_splits s)(tr_to t \<mapsto> st')\<rparr>)))
       | None \<Rightarrow> and_then (add_to (tr_to t) (tr_amount t) (vr_ledger s)) (\<lambda>l. Inr (s\<lparr>vr_ledger := l\<rparr>)))"
  proof (cases "vr_splits s (tr_to t)")
    case None
    have "ledger_total (vr_ledger s) + ?a < 2 ^ 128" using sup by (simp add: rail_supply_def)
    note c = add_to_credit [OF fin(1) this] credit_exact(1,2) [OF fin(1) this]
    have "gains cs (v + ?a) s ?a (s\<lparr>vr_ledger := credit (tr_to t) (tr_amount t) (vr_ledger s)\<rparr>)"
      using rail_ok_mono [OF ok, of "v + ?a"] c(2,3) by (simp add: nets_def rail_ok_def rail_supply_def)
    then show ?thesis using None c(1) by simp
  next
    case (Some st)
    note st = rail_okD(4,5) [OF ok Some]
    show ?thesis
    proof (cases "checked_add (ss_v_received st) (tr_amount t)")
      case None
      then show ?thesis using Some by simp
    next
      case v: (Some w)
      have held: "split_held st \<le> map_total split_held (vr_splits s)"
        using value_at_le [OF fin(2), of split_held "tr_to t"] Some by simp
      then have "ledger_total (vr_ledger s) + split_held st + ?a < 2 ^ 128" using sup by (simp add: rail_supply_def)
      then obtain st' out where d: "split_distribute (st\<lparr>ss_v_received := w\<rparr>) (vr_ledger s) = Inr (st', pay_out (vr_ledger s) out)"
          "split_inv st'" "ss_v_received st' = w" "payouts_total out + split_held st' = split_held st + ?a"
        using split_pay_exact [OF st(1) v fin(1)] by blast
      have w: "unat w \<le> v + ?a" using v st(2) by (auto simp: checked_add_Some)
      have "ledger_total (vr_ledger s) + payouts_total out < 2 ^ 128" using d(4) held sup by (simp add: rail_supply_def)
      note p = pay_out_exact [OF fin(1) this]
      have "map_total split_held ((vr_splits s)(tr_to t \<mapsto> st')) + split_held st = map_total split_held (vr_splits s) + split_held st'"
        using map_total_upd [OF fin(2), of split_held "tr_to t" st'] Some by simp
      then have "gains cs (v + ?a) s ?a (s\<lparr>vr_ledger := pay_out (vr_ledger s) out, vr_splits := (vr_splits s)(tr_to t \<mapsto> st')\<rparr>)"
        using rail_ok_mono [OF ok, of "v + ?a"] p d(2,3,4) w fin(2) by (simp add: nets_def rail_ok_def rail_supply_def)
      then show ?thesis using Some v d(1) by simp
    qed
  qed
  then show ?thesis unfolding record_payment_def
    by (cases "tr_kind t", simp only: transfer_kind.case, rule lands_and_then)
      (use n in \<open>auto intro!: record_ref_gains\<close>)
qed

lemma submit_gains:
  assumes "rail_inv cs v s" "v + unat (tr_amount t) < 2 ^ 128" "vr_next_ref s \<noteq> - 1"
  shows "lands (\<lambda>(x, u). gains cs (v + unat (tr_amount t)) s (unat (tr_amount t)) u) (submit t s)"
  unfolding submit_def by (rule lands_ensure) (rule record_payment_gains [OF assms])

lemma settle_gains:
  assumes "rail_inv cs v s" "v + unat (tr_amount t) < 2 ^ 128" "vr_next_ref s \<noteq> - 1" "vr_settle_ids s sid = None"
  shows "lands (\<lambda>(x, u). gains cs (v + unat (tr_amount t)) s (unat (tr_amount t)) u) (settle t sid s)"
  unfolding settle_def using assms(4)
  by (auto intro!: lands_ensure lands_and_then [OF record_payment_gains [OF assms(1-3)]]
      elim!: gains_then_same simp: same_money_def)

lemma release_locked_gains:
  assumes inv: "rail_inv cs v s" and small: "v < 2 ^ 128" and n: "vr_next_ref s \<noteq> - 1"
  shows "lands (\<lambda>(x, u). gains cs v s 0 u) (release_locked src to asset_id amount s)"
  unfolding release_locked_def
proof (rule lands_ensure, rule lands_ensure, rule lands_and_then)
  have ok: "rail_ok cs v s" and sup: "rail_supply s < 2 ^ 128" using inv small by (simp_all add: rail_inv_def)
  assume g: "\<not> (amount = 0 \<or> balance_of src (vr_ledger s) < amount)"
  then show "lands (\<lambda>t. rail_ok cs v t \<and> rail_supply t + unat amount = rail_supply s \<and> vr_next_ref t = vr_next_ref s
      \<and> vr_instances t = vr_instances s) (debit src amount s)"
    by (intro debit_lands [OF ok]) auto
  fix t
  assume t: "rail_ok cs v t \<and> rail_supply t + unat amount = rail_supply s \<and> vr_next_ref t = vr_next_ref s
    \<and> vr_instances t = vr_instances s"
  then have "gains cs v t (payouts_total [\<lparr>po_dest = to, po_amount = amount\<rparr>])
      (apply_payouts [\<lparr>po_dest = to, po_amount = amount\<rparr>] t)"
    using sup by (intro payouts_gain) auto
  then have "gains cs v s 0 (t\<lparr>vr_ledger := credit to amount (vr_ledger t)\<rparr>)"
    using t by (simp add: nets_def apply_payouts_def)
  then show "lands (\<lambda>(x, u). gains cs v s 0 u)
      (let s = t\<lparr>vr_ledger := credit to amount (vr_ledger t)\<rparr> in record_ref (plain_info to asset_id amount) s)"
    using t n unfolding Let_def by (intro record_ref_gains) auto
qed

lemma release_keyed_gains:
  assumes "rail_inv cs v s" "v < 2 ^ 128" "vr_next_ref s \<noteq> - 1"
  shows "lands (\<lambda>(x, u). gains cs v s 0 u) (release_keyed cid ref src to asset_id amount s)"
proof (cases "vr_release_keys s (cid, ref)")
  case None
  then show ?thesis unfolding release_keyed_def
    by (auto intro!: lands_and_then [OF release_locked_gains [OF assms]] elim!: gains_then_same simp: same_money_def)
next
  case (Some r)
  then show ?thesis using assms(1) by (simp add: release_keyed_def nets_def rail_inv_def)
qed

end
