(* ===== verification/Rail_History.thy ===== *)
theory Rail_History
  imports Rail_Conservation
begin

text \<open>
  The remaining operations of the rail (deployments, claim records, watermark advances), the calls of the
  rail as data, and its reachable states with the totals minted and moved on the way.
\<close>

section \<open>Deployments\<close>

lemma sum_bps_exact: "sum_bps acc meed = Some tot \<Longrightarrow> unat tot = unat acc + sum_list (map (\<lambda>r. unat (snd r)) meed)"
proof (induction meed arbitrary: acc)
  case (Cons r meed)
  then obtain a where "checked_add acc (ucast (snd r)) = Some a" "sum_bps a meed = Some tot"
    by (cases r) (auto split: option.splits)
  moreover have "unat (ucast (snd r) :: u32) = unat (snd r)"
    using unat_lt2p [of "snd r"] by (simp add: unat_ucast_small)
  ultimately show ?case using Cons.IH [of a] by (auto simp: checked_add_Some)
qed simp

lemma fold_dest_sum:
  "sum_list (map (\<lambda>r. unat (snd r)) agg) + unat (snd r) < 2 ^ 16 \<Longrightarrow>
   sum_list (map (\<lambda>r. unat (snd r)) (fold_dest agg r)) = sum_list (map (\<lambda>r. unat (snd r)) agg) + unat (snd r)"
  by (induction agg r rule: fold_dest.induct) (auto simp: unat_sat_add)

lemma fold_dests_sum:
  "sum_list (map (\<lambda>r. unat (snd r)) agg) + sum_list (map (\<lambda>r. unat (snd r)) rs) < 2 ^ 16 \<Longrightarrow>
   sum_list (map (\<lambda>r. unat (snd r)) (foldl fold_dest agg rs))
     = sum_list (map (\<lambda>r. unat (snd r)) agg) + sum_list (map (\<lambda>r. unat (snd r)) rs)"
  by (induction rs arbitrary: agg) (auto simp: fold_dest_sum)

lemma split_recipients_sum:
  assumes "split_recipients meed d = Some rs"
  shows "sum_list (map (\<lambda>r. unat (sr_bp r)) rs) = 10000"
proof -
  obtain tot rest m where t: "sum_bps 0 meed = Some tot" "checked_sub BP_DENOM tot = Some rest" "try_from rest = Some m"
      "rs = map (\<lambda>(d, b). \<lparr>sr_dest = d, sr_bp = b\<rparr>) (foldl fold_dest [] meed) @ [\<lparr>sr_dest = d, sr_bp = m\<rparr>]"
    using assms by (auto simp: split_recipients_def split: option.splits)
  have le: "unat tot \<le> 10000" "unat rest = 10000 - unat tot"
    using t(2) by (auto simp: checked_sub_Some unat_BP_DENOM32)
  have m: "unat m = unat rest" using t(3) by (auto simp: try_from_Some)
  have s: "sum_list (map (\<lambda>r. unat (snd r)) (foldl fold_dest [] meed)) = unat tot"
    using fold_dests_sum [of "[]" meed] sum_bps_exact [OF t(1)] le(1) by simp
  have "sum_list (map (\<lambda>r. unat (sr_bp r)) rs) = sum_list (map (\<lambda>r. unat (snd r)) (foldl fold_dest [] meed)) + unat m"
    by (simp add: t(4) comp_def case_prod_beta)
  then show ?thesis using s m le by simp
qed

lemma put_split:
  assumes ok: "rail_ok cs v s" and none: "vr_splits s a = None" and st: "split_inv st" "unat (ss_v_received st) \<le> v" "split_held st = 0"
  shows "gains cs v s 0 (s\<lparr>vr_splits := (vr_splits s)(a \<mapsto> st)\<rparr>)"
  using map_total_upd [OF rail_okD(2) [OF ok], of split_held a st] ok none st
  unfolding nets_def rail_ok_def rail_supply_def by simp

lemma deploy_split_gains:
  assumes "rail_inv cs v s"
  shows "lands (\<lambda>(x, u). gains cs v s 0 u) (deploy_split cs nfc seed ai s)"
proof (cases "seed_split cs nfc ai")
  case (Inr expected)
  then have net: "merchant_net ai \<noteq> None" by (auto simp: seed_split_def split: if_splits)
  then obtain net where n: "merchant_net ai = Some net" by blast
  have ok: "rail_ok cs v s" using assms by (simp add: rail_inv_def)
  show ?thesis unfolding deploy_split_def Inr map_err_simps and_then_simps
  proof (rule lands_ensure)
    show "lands (\<lambda>(x, u). gains cs v s 0 u) (and_then (ok_or (merchant_net ai) Panic) (\<lambda>net.
        and_then (ok_or (split_recipients (map (\<lambda>e. (dest e, bp e)) (meed_vector ai)) net)
          (Err (Rejected ''meed vector exceeds BP_DENOM''))) (\<lambda>recipients.
        Inr (deploy_split_raw seed recipients s))))"
      unfolding n ok_or_simps and_then_simps
    proof (rule lands_ok_or)
      fix rs assume rs: "split_recipients (map (\<lambda>e. (dest e, bp e)) (meed_vector ai)) net = Some rs"
      let ?st = "\<lparr>ss_recipients = rs, ss_v_received = 0, ss_paid = replicate (length rs) 0\<rparr>"
      have "split_inv ?st" "split_held ?st = 0"
        using split_recipients_sum [OF rs] by (simp_all add: split_inv_def floors_0 split_held_def)
      then show "lands (\<lambda>(x, u). gains cs v s 0 u) (Inr (deploy_split_raw seed rs s))"
        using put_split [OF ok, of "derive_address seed" ?st] ok
        by (simp add: deploy_split_raw_def Let_def) (simp add: nets_def)
    qed
  qed
qed (simp add: deploy_split_def)

lemma put_new_instance:
  assumes ok: "rail_ok cs v s" and none: "vr_instances s a = None" and j: "instance_inv cs j" "volume j \<le> v" "held j = 0"
  shows "gains cs v s 0 (s\<lparr>vr_instances := (vr_instances s)(a \<mapsto> j)\<rparr>)"
  using map_total_upd [OF rail_okD(3) [OF ok], of held a j] ok none j
  unfolding nets_def rail_ok_def rail_supply_def by simp

lemma deploy_instance_gains:
  assumes inv: "rail_inv cs v s"
  shows "lands (\<lambda>(x, u). gains cs v s 0 u) (deploy_instance cs nfc seed ai s)"
proof (cases "seed_instance cs nfc ai")
  case (Inr expected)
  have ok: "rail_ok cs v s" using inv by (simp add: rail_inv_def)
  show ?thesis unfolding deploy_instance_def Inr map_err_simps and_then_simps
    by (rule lands_ensure)
      (use put_new_instance [OF ok, of "derive_address seed"] instance_new_inv ok in
        \<open>simp add: deploy_instance_raw_def Let_def, simp add: nets_def\<close>)
qed (simp add: deploy_instance_def)

section \<open>Claim records and advances\<close>

text \<open>Paying the meed of a claim record or an advance: the source is debited after the instance took
  the amount, and the payouts are credited.\<close>

lemma leg_gains:
  assumes ok: "rail_ok cs v s" and sup: "rail_supply s + unat x < 2 ^ 128"
    and src: "\<And>a. src = Some a \<Longrightarrow> x \<noteq> 0 \<Longrightarrow> x \<le> balance_of a (vr_ledger s)"
    and t: "rail_ok cs w t" "rail_supply t + payouts_total out + l = rail_supply s + unat x"
      "vr_ledger t = vr_ledger s" "vr_next_ref t \<noteq> - 1"
    and pay: "pay = (case src of Some a \<Rightarrow> if x = 0 then Inr t else debit a x t | None \<Rightarrow> Inr t)"
  shows "lands (\<lambda>u. nets cs w s (if src = None then unat x else 0) l (apply_payouts out u) \<and> vr_next_ref u \<noteq> - 1) pay"
proof (cases src)
  case None
  then show ?thesis
    using payouts_gain [OF t(1), of out] t(2,4) sup pay by (simp add: nets_def)
next
  case (Some a)
  have p: "rail_ok cs w u \<Longrightarrow> rail_supply u + unat x = rail_supply t \<Longrightarrow> nets cs w s 0 l (apply_payouts out u)" for u
    using payouts_gain [of cs w u out] t(2) sup Some by (simp add: nets_def)
  show ?thesis
  proof (cases "x = 0")
    case True
    then show ?thesis using p [OF t(1)] t(4) Some pay by simp
  next
    case False
    have "lands (\<lambda>u. rail_ok cs w u \<and> rail_supply u + unat x = rail_supply t \<and> vr_next_ref u = vr_next_ref t
        \<and> vr_instances u = vr_instances t) (debit a x t)"
      using debit_lands [OF t(1) _ False, of a] src [OF Some False] t(3) by simp
    then show ?thesis using p t(4) Some pay False by (auto elim!: lands_mono)
  qed
qed

lemma claim_record_lands:
  assumes "instance_inv cs i" "volume i + unat x < 2 ^ 128"
  shows "lands (\<lambda>(y, j). shifts cs i (unat x) (sunk i (unat x)) (snd y) j \<and> True)
    (and_then (instance_fund_claim_record cs cid ref x i) (\<lambda>(key, out, i'). Inr ((key, out), i')))"
  using fund_claim_moves [OF assms, of cid ref] by (auto simp: lands_def and_then_Inl)

lemma claim_record_gains:
  assumes inv: "rail_inv cs v s" and small: "v + unat x < 2 ^ 128" and n: "vr_next_ref s \<noteq> - 1"
  shows "lands (\<lambda>(y, u). nets cs (v + unat x) s (if src = None then unat x else 0) (lost_at (\<lambda>i. sunk i (unat x)) addr s) u)
    (fund_claim_record_impl cs src addr cid ref x asset_id s)"
  unfolding fund_claim_record_impl_def
proof (rule lands_ensure, rule lands_ensure, rule lands_ensure, rule lands_and_then)
  let ?l = "lost_at (\<lambda>i. sunk i (unat x)) addr s"
  have ok: "rail_ok cs v s" and sup: "rail_supply s + unat x < 2 ^ 128" using inv small by (simp_all add: rail_inv_def)
  let ?f = "\<lambda>i. and_then (instance_fund_claim_record cs cid ref x i) (\<lambda>(key, out, i'). Inr ((key, out), i'))"
  have "lands (\<lambda>(y, j). shifts cs i (unat x) ?l (snd y) j \<and> True) (?f i)" if "vr_instances s addr = Some i" for i
    using claim_record_lands [of cs i x cid ref] rail_okD(6,7) [OF ok that] small that by (simp add: lost_at_def)
  then show "lands (\<lambda>(y, t). rail_ok cs (v + unat x) t \<and> rail_supply t + payouts_total (snd y) + ?l = rail_supply s + unat x \<and> True
      \<and> vr_next_ref t = vr_next_ref s \<and> vr_ledger t = vr_ledger s) (on_instance addr ?f s)"
    by (rule on_instance_lands [OF ok])
  fix yt :: "(bytes \<times> payout list) \<times> inner"
  assume g: "case src of Some a \<Rightarrow> \<not> (x = 0 \<or> balance_of a (vr_ledger s) < x) | None \<Rightarrow> True"
    and yt: "case yt of (y, t) \<Rightarrow> rail_ok cs (v + unat x) t \<and> rail_supply t + payouts_total (snd y) + ?l = rail_supply s + unat x \<and> True
      \<and> vr_next_ref t = vr_next_ref s \<and> vr_ledger t = vr_ledger s"
  obtain key out t where y: "yt = ((key, out), t)" by (cases yt) auto
  have "lands (\<lambda>u. nets cs (v + unat x) s (if src = None then unat x else 0) ?l (apply_payouts out u) \<and> vr_next_ref u \<noteq> - 1)
      (case src of Some a \<Rightarrow> debit a x t | None \<Rightarrow> Inr t)"
    by (rule leg_gains [OF ok sup]) (use yt g n in \<open>auto simp: y split: option.splits\<close>)
  then show "lands (\<lambda>(y, u). nets cs (v + unat x) s (if src = None then unat x else 0) ?l u)
      ((\<lambda>((key, out), s).
        and_then (case src of Some a \<Rightarrow> debit a x s | None \<Rightarrow> Inr s) (\<lambda>s. let s = apply_payouts out s in
        and_then (record_ref ((plain_info addr asset_id x)\<lparr>ri_memo := Some key, ri_funds_claim := Some key\<rparr>) s)
          (\<lambda>(r, s). Inr ((r, key), s)))) yt)"
    unfolding y prod.case Let_def
    by (rule lands_and_then) (intro lands_map record_ref_gains, simp_all add: apply_payouts_def)
qed

text \<open>What an advance draws: the rise of the channel's watermark, nothing at an instance without weights.\<close>

definition advance_rise :: "meed_instance \<Rightarrow> bytes \<Rightarrow> u128 \<Rightarrow> u128" where
  "advance_rise i c target = (if mi_bp_total i = 0 then 0 else sat_sub target (instance_channel_funded_p c i))"

definition advance_delta :: "inner \<Rightarrow> bytes \<Rightarrow> bytes \<Rightarrow> u128 \<Rightarrow> nat" where
  "advance_delta s addr c target =
     (case vr_instances s addr of None \<Rightarrow> 0 | Some i \<Rightarrow> unat (advance_rise i c target))"

lemma advance_lands:
  assumes "instance_inv cs i"
  shows "lands (\<lambda>(y, j). moves cs i (unat (advance_rise i c target)) (snd (snd y)) j \<and> fst (snd y) = advance_rise i c target)
    (and_then (instance_advance_channel_meed c target i) (\<lambda>(funded, d, out, i'). Inr ((funded, d, out), i')))"
proof (cases "mi_bp_total i = 0")
  case True
  then show ?thesis using moves_none [OF assms] by (simp add: advance_weightless advance_rise_def)
next
  case False
  then show ?thesis using advance_moves [OF assms, of c target]
    by (auto simp: funded_of_def word_unat_eq_iff unat_sat_sub advance_rise_def)
qed

lemma advance_gains:
  assumes inv: "rail_inv cs v s" and small: "v + advance_delta s addr c target < 2 ^ 128" and n: "vr_next_ref s \<noteq> - 1"
  shows "lands (\<lambda>(y, u). gains cs (v + advance_delta s addr c target) s (if src = None then advance_delta s addr c target else 0) u)
    (advance_channel_meed src addr c target asset_id s)"
  unfolding advance_channel_meed_def Let_def
proof (rule lands_ensure, rule lands_ok_or, rule lands_ensure, rule lands_and_then)
  fix i assume i: "vr_instances s addr = Some i"
  let ?d = "advance_rise i c target"
  have d: "advance_delta s addr c target = unat ?d" using i by (simp add: advance_delta_def)
  have ok: "rail_ok cs v s" and sup: "rail_supply s + unat ?d < 2 ^ 128" using inv small by (simp_all add: rail_inv_def d)
  let ?f = "\<lambda>i. and_then (instance_advance_channel_meed c target i) (\<lambda>(funded, d, out, i'). Inr ((funded, d, out), i'))"
  have "lands (\<lambda>(y, j). moves cs k (unat ?d) (snd (snd y)) j \<and> fst (snd y) = ?d) (?f k)" if "vr_instances s addr = Some k" for k
    using rail_okD(6) [OF ok that] that i advance_lands by simp
  then show "lands (\<lambda>(y, t). rail_ok cs (v + unat ?d) t \<and> rail_supply t + payouts_total (snd (snd y)) + 0 = rail_supply s + unat ?d
      \<and> fst (snd y) = ?d \<and> vr_next_ref t = vr_next_ref s \<and> vr_ledger t = vr_ledger s) (on_instance addr ?f s)"
    by (rule on_instance_lands [OF ok])
  fix yt :: "(u128 \<times> u128 \<times> payout list) \<times> inner"
  assume g: "case src of
      Some a \<Rightarrow> \<not> (0 < sat_sub target (instance_channel_funded_p c i) \<and>
        balance_of a (vr_ledger s) < sat_sub target (instance_channel_funded_p c i))
    | None \<Rightarrow> True"
    and yt: "case yt of (y, t) \<Rightarrow> rail_ok cs (v + unat ?d) t \<and> rail_supply t + payouts_total (snd (snd y)) + 0 = rail_supply s + unat ?d
      \<and> fst (snd y) = ?d \<and> vr_next_ref t = vr_next_ref s \<and> vr_ledger t = vr_ledger s"
  obtain funded out t where y: "yt = ((funded, ?d, out), t)" using yt by (cases yt) auto
  have "lands (\<lambda>u. gains cs (v + unat ?d) s (if src = None then unat ?d else 0) (apply_payouts out u) \<and> vr_next_ref u \<noteq> - 1)
      (case src of Some a \<Rightarrow> if 0 < ?d then debit a ?d t else Inr t | None \<Rightarrow> Inr t)"
    by (rule leg_gains [OF ok sup]) (use yt g n in \<open>auto simp: y word_neq_0_conv advance_rise_def split: option.splits if_splits\<close>)
  then show "lands (\<lambda>(y, u). gains cs (v + advance_delta s addr c target) s (if src = None then advance_delta s addr c target else 0) u)
      ((\<lambda>((funded_after, delta2, out), s).
        and_then (case src of Some a \<Rightarrow> if 0 < delta2 then debit a delta2 s else Inr s | None \<Rightarrow> Inr s)
          (\<lambda>s. record_ref ((plain_info addr asset_id delta2)\<lparr>ri_advanced := Some
            \<lparr>af_channel_id = c, af_seed_instance = mi_seed_instance i, af_funded_p = funded_after,
             af_delta = delta2, af_asset = asset_id\<rparr>\<rparr>) (apply_payouts out s))) yt)"
    unfolding y prod.case d
    by (rule lands_and_then) (intro record_ref_gains, simp_all add: apply_payouts_def)
qed

section \<open>Calls and histories\<close>

datatype rail_call =
    AdvanceClock u64
  | SetOutage bool
  | DeploySplit bytes address_inputs
  | DeployInstance bytes address_inputs
  | Submit transfer
  | Settle transfer bytes
  | Release bytes bytes bytes u128
  | ReleaseKeyed bytes bytes bytes bytes bytes u128
  | FundEntry bytes bytes u128 bytes u64 u64 u64 bytes
  | AttestEntry bytes bytes signed
  | CancelEntry bytes bytes signed
  | OpenReclaim bytes bytes
  | ExecuteReclaim bytes bytes
  | ClaimLapsed bytes bytes
  | FundClaimRecord bytes bytes bytes u128 bytes
  | DrawClaimRecord bytes bytes bytes bytes u128 bytes
  | AdvanceChannelMeed "bytes option" bytes bytes u128 bytes
  | AskFinality bytes

definition state_of :: "('a \<times> inner) on_rail \<Rightarrow> inner on_rail" where
  "state_of m = and_then m (\<lambda>(_, t). Inr t)"

fun rail_exec :: "crypto_suite \<Rightarrow> (nat list \<Rightarrow> nat list) \<Rightarrow> rail_call \<Rightarrow> inner \<Rightarrow> inner on_rail" where
  "rail_exec cs nfc (AdvanceClock secs) s = advance_clock secs s"
| "rail_exec cs nfc (SetOutage on) s = Inr (set_outage on s)"
| "rail_exec cs nfc (DeploySplit seed ai) s = state_of (deploy_split cs nfc seed ai s)"
| "rail_exec cs nfc (DeployInstance seed ai) s = state_of (deploy_instance cs nfc seed ai s)"
| "rail_exec cs nfc (Submit t) s = state_of (submit t s)"
| "rail_exec cs nfc (Settle t sid) s = state_of (settle t sid s)"
| "rail_exec cs nfc (Release src to a x) s = state_of (release src to a x s)"
| "rail_exec cs nfc (ReleaseKeyed cid ref src to a x) s = state_of (release_keyed cid ref src to a x s)"
| "rail_exec cs nfc (FundEntry addr nonce x ptr t_open t_lapse contest a) s =
     state_of (fund_entry cs addr nonce x ptr t_open t_lapse contest a s)"
| "rail_exec cs nfc (AttestEntry addr eid sg) s = attest_entry cs addr eid sg s"
| "rail_exec cs nfc (CancelEntry addr eid sg) s = cancel_entry cs addr eid sg s"
| "rail_exec cs nfc (OpenReclaim addr eid) s = open_reclaim addr eid s"
| "rail_exec cs nfc (ExecuteReclaim addr eid) s = execute_reclaim addr eid s"
| "rail_exec cs nfc (ClaimLapsed addr eid) s = claim_lapsed addr eid s"
| "rail_exec cs nfc (FundClaimRecord addr cid ref x a) s = state_of (fund_claim_record cs addr cid ref x a s)"
| "rail_exec cs nfc (DrawClaimRecord src addr cid ref x a) s = state_of (draw_claim_record cs src addr cid ref x a s)"
| "rail_exec cs nfc (AdvanceChannelMeed src addr cid target a) s = state_of (advance_channel_meed src addr cid target a s)"
| "rail_exec cs nfc (AskFinality r) s = and_then (rail_finality r s) (\<lambda>_. Inr s)"

text \<open>What a successful call mints into the rail, and what it moves into contracts and accounts. The
  difference is a draw, which the deposit at its source funds.\<close>

fun minted :: "rail_call \<Rightarrow> inner \<Rightarrow> nat" where
  "minted (Submit t) s = unat (tr_amount t)"
| "minted (Settle t sid) s = (if vr_settle_ids s sid = None then unat (tr_amount t) else 0)"
| "minted (FundEntry addr nonce x ptr t_open t_lapse contest a) s = unat x"
| "minted (FundClaimRecord addr cid ref x a) s = unat x"
| "minted (AdvanceChannelMeed src addr cid target a) s = (if src = None then advance_delta s addr cid target else 0)"
| "minted _ s = 0"

fun moved :: "rail_call \<Rightarrow> inner \<Rightarrow> nat" where
  "moved (DrawClaimRecord src addr cid ref x a) s = unat x"
| "moved (AdvanceChannelMeed src addr cid target a) s = advance_delta s addr cid target"
| "moved c s = minted c s"

lemma minted_le_moved: "minted c s \<le> moved c s"
  by (cases c) auto

text \<open>What a successful call loses: a deployment accepts a vector that is empty or all zero, and such an
  instance pays nothing out of the amounts distributed to it.\<close>

fun swallowed :: "rail_call \<Rightarrow> inner \<Rightarrow> nat" where
  "swallowed (AttestEntry addr eid sg) s = lost_at (sunk_entry eid) addr s"
| "swallowed (ClaimLapsed addr eid) s = lost_at (sunk_entry eid) addr s"
| "swallowed (FundClaimRecord addr cid ref x a) s = lost_at (\<lambda>i. sunk i (unat x)) addr s"
| "swallowed (DrawClaimRecord src addr cid ref x a) s = lost_at (\<lambda>i. sunk i (unat x)) addr s"
| "swallowed _ s = 0"

text \<open>The rail's times in their domain: the clock after an advance, and the time at which the reference a
  caller asks about is final.\<close>

definition clock_fits :: "rail_call \<Rightarrow> inner \<Rightarrow> bool" where
  "clock_fits c s \<longleftrightarrow> (case c of
     AdvanceClock secs \<Rightarrow> unat (vr_clock s) + unat secs < 2 ^ 64
   | AskFinality r \<Rightarrow> (case vr_refs s r of None \<Rightarrow> True | Some (tm, info) \<Rightarrow> unat tm + unat (vr_finality_delay s) < 2 ^ 64)
   | _ \<Rightarrow> True)"

lemma lands_state_of: "lands (\<lambda>(x, t). P t) m \<Longrightarrow> lands P (state_of m)"
  by (auto simp: lands_def state_of_def and_then_Inl)

lemma settle_any_gains:
  assumes inv: "rail_inv cs v s" and v: "v + minted (Settle t sid) s < 2 ^ 128" and n: "vr_next_ref s \<noteq> - 1"
  shows "lands (\<lambda>(x, u). gains cs (v + minted (Settle t sid) s) s (minted (Settle t sid) s) u) (settle t sid s)"
proof (cases "vr_settle_ids s sid")
  case None
  then show ?thesis using settle_gains [OF inv _ n None] v by simp
next
  case (Some r)
  then show ?thesis using inv by (simp add: settle_def nets_def rail_inv_def)
qed

theorem rail_exec_gains:
  assumes inv: "rail_inv cs v s" and v: "v + moved c s < 2 ^ 128" and n: "vr_next_ref s \<noteq> - 1"
    and c: "clock_fits c s"
  shows "lands (nets cs (v + moved c s) s (minted c s) (swallowed c s)) (rail_exec cs nfc c s)"
proof (cases c)
  case (AdvanceClock secs)
  then obtain k where "checked_add (vr_clock s) secs = Some k"
    using c by (cases "checked_add (vr_clock s) secs") (auto simp: clock_fits_def checked_add_None)
  then show ?thesis using AdvanceClock inv gains_same [of cs v s]
    by (simp add: advance_clock_def rail_inv_def same_money_def)
next
  case (SetOutage on)
  then show ?thesis using inv gains_same [of cs v s] by (simp add: set_outage_def rail_inv_def same_money_def)
next
  case (DeploySplit seed ai)
  then show ?thesis using lands_state_of [OF deploy_split_gains [OF inv]] by simp
next
  case (DeployInstance seed ai)
  then show ?thesis using lands_state_of [OF deploy_instance_gains [OF inv]] by simp
next
  case (Submit t)
  then show ?thesis using lands_state_of [OF submit_gains [OF inv _ n]] v by simp
next
  case (Settle t sid)
  then show ?thesis using lands_state_of [OF settle_any_gains [OF inv _ n]] v by simp
next
  case (Release src to a x)
  then show ?thesis using lands_state_of [OF release_locked_gains [OF inv _ n]] v by (simp add: release_def)
next
  case (ReleaseKeyed cid ref src to a x)
  then show ?thesis using lands_state_of [OF release_keyed_gains [OF inv _ n]] v by simp
next
  case (FundEntry addr nonce x ptr t_open t_lapse contest a)
  then show ?thesis using lands_state_of [OF fund_entry_gains [OF inv n]] by simp
next
  case (AttestEntry addr eid sg)
  then show ?thesis using entry_gains(1) [OF inv] v by simp
next
  case (CancelEntry addr eid sg)
  then show ?thesis using entry_gains(2) [OF inv] v by simp
next
  case (OpenReclaim addr eid)
  then show ?thesis using open_reclaim_gains [OF inv] by simp
next
  case (ExecuteReclaim addr eid)
  then show ?thesis using entry_gains(3) [OF inv] v by simp
next
  case (ClaimLapsed addr eid)
  then show ?thesis using entry_gains(4) [OF inv] v by simp
next
  case (FundClaimRecord addr cid ref x a)
  then show ?thesis using lands_state_of [OF claim_record_gains [OF inv _ n, where src = None]] v
    by (simp add: fund_claim_record_def)
next
  case (DrawClaimRecord src addr cid ref x a)
  then show ?thesis using lands_state_of [OF claim_record_gains [OF inv _ n, where src = "Some src"]] v
    by (simp add: draw_claim_record_def)
next
  case (AdvanceChannelMeed src addr cid target a)
  then show ?thesis using lands_state_of [OF advance_gains [OF inv _ n, where src = src]] v by simp
next
  case (AskFinality r)
  have "lands (\<lambda>t. t = s) (rail_exec cs nfc c s)"
  proof (cases "vr_refs s r")
    case (Some x)
    then obtain tm info k where "x = (tm, info)" "checked_add tm (vr_finality_delay s) = Some k"
      using c AskFinality
      by (cases x; cases "checked_add (fst x) (vr_finality_delay s)") (auto simp: clock_fits_def checked_add_None)
    then show ?thesis using Some AskFinality by (simp add: rail_finality_def)
  qed (use AskFinality in \<open>simp add: rail_finality_def\<close>)
  then show ?thesis by (rule lands_mono) (use AskFinality inv in \<open>simp add: nets_def rail_inv_def\<close>)
qed

text \<open>The reachable states of a rail, with the totals minted, lost and moved so far. Calls that return an
  error leave the state; a history goes on while a reference is left to hand out.\<close>

inductive rail_account :: "crypto_suite \<Rightarrow> (nat list \<Rightarrow> nat list) \<Rightarrow> nat \<Rightarrow> nat \<Rightarrow> nat \<Rightarrow> inner \<Rightarrow> bool"
  for cs :: crypto_suite and nfc :: "nat list \<Rightarrow> nat list" where
  opened: "rail_account cs nfc 0 0 0 (inner_new delay)"
| called: "rail_account cs nfc m l v s \<Longrightarrow> vr_next_ref s \<noteq> - 1 \<Longrightarrow> rail_exec cs nfc c s = Inr t \<Longrightarrow>
    rail_account cs nfc (m + minted c s) (l + swallowed c s) (v + moved c s) t"

inductive rail_reach :: "crypto_suite \<Rightarrow> (nat list \<Rightarrow> nat list) \<Rightarrow> nat \<Rightarrow> nat \<Rightarrow> inner \<Rightarrow> bool"
  for cs :: crypto_suite and nfc :: "nat list \<Rightarrow> nat list" where
  start: "rail_reach cs nfc 0 0 (inner_new delay)"
| call: "rail_reach cs nfc m v s \<Longrightarrow> vr_next_ref s \<noteq> - 1 \<Longrightarrow> rail_exec cs nfc c s = Inr t \<Longrightarrow>
    rail_reach cs nfc (m + minted c s) (v + moved c s) t"

lemma account_reach: "rail_account cs nfc m l v s \<Longrightarrow> rail_reach cs nfc m v s"
  by (induction rule: rail_account.induct) (auto intro: rail_reach.intros)

lemma reach_account: "rail_reach cs nfc m v s \<Longrightarrow> \<exists>l. rail_account cs nfc m l v s"
  by (induction rule: rail_reach.induct) (blast intro: rail_account.intros)+

lemma exec_clock_fits: "rail_exec cs nfc c s = Inr t \<Longrightarrow> clock_fits c s"
  by (cases c) (auto simp: clock_fits_def advance_clock_def checked_add_Some rail_finality_def split: option.split)

theorem rail_account_inv:
  "rail_account cs nfc m l v s \<Longrightarrow> v < 2 ^ 128 \<Longrightarrow> rail_inv cs v s \<and> rail_supply s + l = m \<and> m \<le> v"
proof (induction rule: rail_account.induct)
  case (opened delay)
  show ?case by (simp add: rail_inv_def rail_ok_def rail_supply_def inner_new_def)
next
  case (called m l v s c t)
  then have i: "rail_inv cs v s" "rail_supply s + l = m" "m \<le> v" by simp_all
  have "nets cs (v + moved c s) s (minted c s) (swallowed c s) t"
    using rail_exec_gains [OF i(1) called.prems called.hyps(2) exec_clock_fits [OF called.hyps(3)], of nfc] called.hyps(3)
    by (simp add: lands_def)
  then show ?case using i(2,3) minted_le_moved [of c s] by (simp add: nets_def rail_inv_def)
qed

lemma rail_reach_inv: "rail_reach cs nfc m v s \<Longrightarrow> v < 2 ^ 128 \<Longrightarrow> rail_inv cs v s \<and> rail_supply s \<le> m \<and> m \<le> v"
  using reach_account [of cs nfc m v s] rail_account_inv [of cs nfc m _ v s] by fastforce

end
