(* ===== verification/Rail_Facts.thy ===== *)
theory Rail_Facts
  imports Rail_History
begin

text \<open>
  What the rail never forgets: references and their facts are immutable, the two idempotency maps only
  grow, an instance keeps its binding, its claim records and the parameters of its entries, a channel's
  watermark never falls and an entry moves along its state machine. A distribution fact of a reference
  is backed by the instance it names. Then how every operation and every
  history of calls develops.
\<close>

section \<open>Reference ids\<close>

definition ref_id :: "nat \<Rightarrow> bytes" where
  "ref_id n = ascii ''virt-ref:'' @ decimal n"

lemma ref_id_inj [simp]: "ref_id m = ref_id n \<longleftrightarrow> m = n"
  using decimal_inj by (auto simp: ref_id_def)

section \<open>How an instance develops\<close>

inductive entry_next :: "rail_state \<Rightarrow> rail_state \<Rightarrow> bool" where
  stay: "entry_next st st"
| open_it: "entry_next rail_state.Funded (rail_state.ReclaimOpen t)"
| close_funded: "st \<in> {rail_state.Attested, rail_state.Cancelled, rail_state.Reclaimed, rail_state.Lapsed} \<Longrightarrow>
    entry_next rail_state.Funded st"
| close_open: "st \<in> {rail_state.Attested, rail_state.Cancelled, rail_state.Reclaimed} \<Longrightarrow>
    entry_next (rail_state.ReclaimOpen t) st"

inductive_cases entry_next_from: "entry_next rail_state.Funded st" "entry_next (rail_state.ReclaimOpen t) st"
  "entry_next rail_state.Attested st" "entry_next rail_state.Cancelled st" "entry_next rail_state.Reclaimed st"
  "entry_next rail_state.Lapsed st"

lemma entry_next_trans: "entry_next a b \<Longrightarrow> entry_next b c \<Longrightarrow> entry_next a c"
  by (cases b) (auto elim!: entry_next.cases intro: entry_next.intros)

definition grows :: "meed_instance \<Rightarrow> meed_instance \<Rightarrow> bool" where
  "grows i j \<longleftrightarrow> same_instance j i \<and> mi_claim_records i \<subseteq> mi_claim_records j \<and>
     (\<forall>c. instance_channel_funded_p c i \<le> instance_channel_funded_p c j) \<and>
     (\<forall>eid e. mi_entries i eid = Some e \<longrightarrow>
        (\<exists>st. mi_entries j eid = Some (e\<lparr>re_state := st\<rparr>) \<and> entry_next (re_state e) st))"

lemma grows_refl [simp]: "grows i i"
proof -
  have "\<exists>st. e = e\<lparr>re_state := st\<rparr> \<and> entry_next (re_state e) st" for e :: rail_entry
    by (rule exI [of _ "re_state e"]) (simp add: stay)
  then show ?thesis by (simp add: grows_def same_instance_def)
qed

lemma grows_trans:
  assumes "grows i j" "grows j k"
  shows "grows i k"
proof -
  have "\<exists>st. mi_entries k eid = Some (e\<lparr>re_state := st\<rparr>) \<and> entry_next (re_state e) st"
    if "mi_entries i eid = Some e" for eid e
  proof -
    obtain st where j: "mi_entries j eid = Some (e\<lparr>re_state := st\<rparr>)" "entry_next (re_state e) st"
      using assms(1) \<open>mi_entries i eid = Some e\<close> unfolding grows_def by blast
    obtain st' where "mi_entries k eid = Some ((e\<lparr>re_state := st\<rparr>)\<lparr>re_state := st'\<rparr>)" "entry_next st st'"
      using assms(2) j(1) unfolding grows_def by fastforce
    then show ?thesis using entry_next_trans [OF j(2)] by auto
  qed
  moreover have "instance_channel_funded_p c i \<le> instance_channel_funded_p c k" for c
    using assms unfolding grows_def by (meson order_trans)
  ultimately show ?thesis using assms unfolding grows_def same_instance_def by auto
qed

lemma set_state_claims [simp]: "mi_claim_records (set_state eid e st i) = mi_claim_records i"
  by (simp add: set_state_def)

lemma set_state_grows:
  assumes "mi_entries i eid = Some e" "entry_next (re_state e) st"
  shows "grows i (set_state eid e st i)"
proof -
  have same: "\<exists>st. f = f\<lparr>re_state := st\<rparr> \<and> entry_next (re_state f) st" for f :: rail_entry
    by (rule exI [of _ "re_state f"]) (simp add: stay)
  show ?thesis using assms same
    by (auto simp: grows_def same_instance_def instance_channel_funded_p_def)
qed

lemma distribute_grows: "instance_distribute a i = Inr (out, j) \<Longrightarrow> grows i j"
proof -
  assume "instance_distribute a i = Inr (out, j)"
  then have "j = i \<or> (\<exists>v p. j = i\<lparr>mi_v_received := v, mi_paid := p\<rparr>)"
    by (auto simp: instance_distribute_def Let_def split: if_splits)
  moreover have "\<exists>st. e = e\<lparr>re_state := st\<rparr> \<and> entry_next (re_state e) st" for e :: rail_entry
    by (rule exI [of _ "re_state e"]) (simp add: stay)
  ultimately show ?thesis by (auto simp: grows_def same_instance_def instance_channel_funded_p_def)
qed

lemma ensure_open_next:
  "ensure_open e = Inr u \<Longrightarrow> st \<in> {rail_state.Attested, rail_state.Cancelled, rail_state.Reclaimed} \<Longrightarrow> entry_next (re_state e) st"
  by (cases "re_state e") (auto simp: ensure_open_def intro: entry_next.intros)

lemma attest_grows: "instance_attest cs eid sg i = Inr (out, j) \<Longrightarrow> grows i j"
  by (auto simp: instance_attest_def
      intro: grows_trans [OF set_state_grows distribute_grows] dest!: ensure_open_next [where st = rail_state.Attested])

lemma cancel_grows: "instance_cancel cs eid sg i = Inr (out, j) \<Longrightarrow> grows i j"
  by (auto simp: instance_cancel_def intro: set_state_grows dest!: ensure_open_next [where st = rail_state.Cancelled])

lemma open_grows: "instance_open_reclaim eid now i = Inr j \<Longrightarrow> grows i j"
  by (auto simp: instance_open_reclaim_def intro!: set_state_grows intro: entry_next.intros)

lemma lapse_grows: "instance_claim_lapsed eid now i = Inr (out, j) \<Longrightarrow> grows i j"
proof -
  assume "instance_claim_lapsed eid now i = Inr (out, j)"
  then obtain e where e: "mi_entries i eid = Some e" "re_state e = rail_state.Funded"
      and d: "instance_distribute (re_amount e) (set_state eid e rail_state.Lapsed i) = Inr (out, j)"
    by (auto simp: instance_claim_lapsed_def)
  have "entry_next (re_state e) rail_state.Lapsed" using e(2) by (simp add: close_funded)
  then show ?thesis using grows_trans [OF set_state_grows [OF e(1)] distribute_grows [OF d]] by blast
qed

lemma execute_grows: "instance_execute_reclaim eid now i = Inr (out, j) \<Longrightarrow> grows i j"
proof -
  assume x: "instance_execute_reclaim eid now i = Inr (out, j)"
  then obtain e where e: "mi_entries i eid = Some e" by (auto simp: instance_execute_reclaim_def)
  then have "(\<exists>t. re_state e = rail_state.ReclaimOpen t) \<and> j = set_state eid e rail_state.Reclaimed i"
    using x by (cases "re_state e") (auto simp: instance_execute_reclaim_def)
  then have "entry_next (re_state e) rail_state.Reclaimed \<and> j = set_state eid e rail_state.Reclaimed i"
    by (auto intro: close_open)
  then show ?thesis using set_state_grows [OF e] by blast
qed

lemma put_entry_grows:
  assumes "mi_entries i eid = None"
  shows "grows i (i\<lparr>mi_entries := (mi_entries i)(eid \<mapsto> e)\<rparr>)"
proof -
  have "\<exists>st. f = f\<lparr>re_state := st\<rparr> \<and> entry_next (re_state f) st" for f :: rail_entry
    by (rule exI [of _ "re_state f"]) (simp add: stay)
  then show ?thesis using assms by (auto simp: grows_def same_instance_def instance_channel_funded_p_def)
qed

lemma fund_grows: "instance_fund_entry cs nonce a ptr t_open t_lapse contest now i = Inr (eid, j) \<Longrightarrow>
    grows i j \<and> (\<exists>e. mi_entries j eid = Some e \<and> re_amount e = a \<and> re_nonce e = nonce)"
  by (auto simp: instance_fund_entry_def Let_def intro!: put_entry_grows)

lemma claim_grows: "instance_fund_claim_record cs cid ref a i = Inr (key, out, j) \<Longrightarrow>
    grows i j \<and> key \<in> mi_claim_records j"
proof -
  assume "instance_fund_claim_record cs cid ref a i = Inr (key, out, j)"
  then have d: "instance_distribute a (i\<lparr>mi_claim_records := insert key (mi_claim_records i)\<rparr>) = Inr (out, j)"
    by (auto simp: instance_fund_claim_record_def Let_def)
  have "\<exists>st. e = e\<lparr>re_state := st\<rparr> \<and> entry_next (re_state e) st" for e :: rail_entry
    by (rule exI [of _ "re_state e"]) (simp add: stay)
  then have "grows i (i\<lparr>mi_claim_records := insert key (mi_claim_records i)\<rparr>)"
    by (auto simp: grows_def same_instance_def instance_channel_funded_p_def)
  moreover have "key \<in> mi_claim_records j" using distribute_grows [OF d] by (auto simp: grows_def)
  ultimately show ?thesis using grows_trans distribute_grows [OF d] by blast
qed

lemma advance_grows: "instance_advance_channel_meed c target i = Inr (f, d, out, j) \<Longrightarrow>
    grows i j \<and> instance_channel_funded_p c j = f \<and> target \<le> f \<or> mi_bp_total i = 0 \<and> j = i \<and> f = instance_channel_funded_p c i"
proof -
  assume a: "instance_advance_channel_meed c target i = Inr (f, d, out, j)"
  have st: "\<exists>st. e = e\<lparr>re_state := st\<rparr> \<and> entry_next (re_state e) st" for e :: rail_entry
    by (rule exI [of _ "re_state e"]) (simp add: stay)
  have fp: "instance_channel_funded_p c i = fst (case mi_channel_paid i c of Some w \<Rightarrow> (cw_funded_p w, cw_paid w)
      | None \<Rightarrow> (0, replicate (length (mi_meed i)) 0))"
    by (simp add: instance_channel_funded_p_def split: option.split)
  show ?thesis using a st fp
    by (auto simp: instance_advance_channel_meed_def Let_def grows_def same_instance_def case_prod_beta
        instance_channel_funded_p_def split: if_splits)
qed


section \<open>The facts of a state\<close>

text \<open>What a reference says happened did happen to the instance it names.\<close>

definition backed :: "inner \<Rightarrow> ref_info \<Rightarrow> bool" where
  "backed s info \<longleftrightarrow>
     (\<forall>key. ri_funds_claim info = Some key \<longrightarrow>
        (\<exists>i. vr_instances s (ri_to info) = Some i \<and> key \<in> mi_claim_records i)) \<and>
     (\<forall>f. ri_advanced info = Some f \<longrightarrow>
        (\<exists>i. vr_instances s (ri_to info) = Some i \<and> mi_seed_instance i = af_seed_instance f \<and>
           af_funded_p f \<le> instance_channel_funded_p (af_channel_id f) i)) \<and>
     (\<forall>eid. ri_funds_entry info = Some eid \<longrightarrow>
        (\<exists>i e. vr_instances s (ri_to info) = Some i \<and> mi_entries i eid = Some e \<and>
           re_amount e = ri_amount info \<and> ri_memo info = Some (re_nonce e)))"

text \<open>A contract divides among the recipients of the inputs its address derives from.\<close>

definition bound_instance :: "crypto_suite \<Rightarrow> (nat list \<Rightarrow> nat list) \<Rightarrow> bytes \<Rightarrow> meed_instance \<Rightarrow> bool" where
  "bound_instance cs nfc a i \<longleftrightarrow> a = derive_address (mi_seed_instance i) \<and>
     (\<exists>ai. seed_instance cs nfc ai = Inr (mi_seed_instance i) \<and> mi_merchant_key i = merchant_key ai \<and>
        mi_meed i = foldl fold_share [] (map (\<lambda>e. \<lparr>ms_dest = dest e, ms_bp = bp e\<rparr>) (meed_vector ai)))"

definition bound_split :: "crypto_suite \<Rightarrow> (nat list \<Rightarrow> nat list) \<Rightarrow> bytes \<Rightarrow> split_recipient list \<Rightarrow> bool" where
  "bound_split cs nfc a rs \<longleftrightarrow>
     (\<exists>seed ai net. a = derive_address seed \<and> seed_split cs nfc ai = Inr seed \<and> merchant_net ai = Some net \<and>
        split_recipients (map (\<lambda>e. (dest e, bp e)) (meed_vector ai)) net = Some rs)"

definition ref_ok :: "inner \<Rightarrow> bytes \<Rightarrow> u64 \<times> ref_info \<Rightarrow> bool" where
  "ref_ok s r v \<longleftrightarrow> ri_canonical (snd v) = r \<and> fst v \<le> vr_clock s \<and> (\<exists>k < unat (vr_next_ref s). r = ref_id k) \<and>
     backed s (snd v)"

definition facts_ok :: "crypto_suite \<Rightarrow> (nat list \<Rightarrow> nat list) \<Rightarrow> inner \<Rightarrow> bool" where
  "facts_ok cs nfc s \<longleftrightarrow>
     (\<forall>r v. vr_refs s r = Some v \<longrightarrow> ref_ok s r v) \<and>
     (\<forall>sid r. vr_settle_ids s sid = Some r \<longrightarrow> vr_refs s r \<noteq> None) \<and>
     (\<forall>k r. vr_release_keys s k = Some r \<longrightarrow> vr_refs s r \<noteq> None) \<and>
     (\<forall>a i. vr_instances s a = Some i \<longrightarrow> bound_instance cs nfc a i) \<and>
     (\<forall>a st. vr_splits s a = Some st \<longrightarrow> bound_split cs nfc a (ss_recipients st))"

lemma facts_okD:
  assumes "facts_ok cs nfc s"
  shows "vr_refs s r = Some v \<Longrightarrow> ref_ok s r v" "vr_settle_ids s sid = Some r \<Longrightarrow> vr_refs s r \<noteq> None"
    "vr_release_keys s k = Some r \<Longrightarrow> vr_refs s r \<noteq> None"
    "vr_instances s a = Some i \<Longrightarrow> bound_instance cs nfc a i"
    "vr_splits s a = Some st \<Longrightarrow> bound_split cs nfc a (ss_recipients st)"
  using assms unfolding facts_ok_def by blast+

definition later :: "inner \<Rightarrow> inner \<Rightarrow> bool" where
  "later s t \<longleftrightarrow> vr_refs s \<subseteq>\<^sub>m vr_refs t \<and> vr_settle_ids s \<subseteq>\<^sub>m vr_settle_ids t \<and> vr_release_keys s \<subseteq>\<^sub>m vr_release_keys t \<and>
     vr_clock s \<le> vr_clock t \<and> vr_next_ref s \<le> vr_next_ref t \<and> vr_finality_delay t = vr_finality_delay s \<and>
     (\<forall>a i. vr_instances s a = Some i \<longrightarrow> (\<exists>j. vr_instances t a = Some j \<and> grows i j)) \<and>
     (\<forall>a st. vr_splits s a = Some st \<longrightarrow> (\<exists>st'. vr_splits t a = Some st' \<and> ss_recipients st' = ss_recipients st))"

lemma later_refl [simp]: "later s s"
  by (simp add: later_def)

lemma later_trans:
  assumes "later s t" "later t u"
  shows "later s u"
proof -
  have "\<exists>k. vr_instances u a = Some k \<and> grows i k" if "vr_instances s a = Some i" for a i
    using assms that grows_trans unfolding later_def by metis
  moreover have "\<exists>st'. vr_splits u a = Some st' \<and> ss_recipients st' = ss_recipients st" if "vr_splits s a = Some st" for a st
    using assms that unfolding later_def by metis
  ultimately show ?thesis using assms unfolding later_def by (auto intro: map_le_trans order_trans)
qed

lemma backed_later:
  assumes b: "backed s info" and g: "\<And>a i. vr_instances s a = Some i \<Longrightarrow> \<exists>j. vr_instances t a = Some j \<and> grows i j"
  shows "backed t info"
proof (unfold backed_def, intro conjI allI impI)
  fix key assume "ri_funds_claim info = Some key"
  then obtain i where i: "vr_instances s (ri_to info) = Some i" "key \<in> mi_claim_records i"
    using b unfolding backed_def by blast
  show "\<exists>i. vr_instances t (ri_to info) = Some i \<and> key \<in> mi_claim_records i"
    using g [OF i(1)] i(2) by (auto simp: grows_def)
next
  fix f assume "ri_advanced info = Some f"
  then obtain i where i: "vr_instances s (ri_to info) = Some i" "mi_seed_instance i = af_seed_instance f"
      "af_funded_p f \<le> instance_channel_funded_p (af_channel_id f) i"
    using b unfolding backed_def by blast
  show "\<exists>i. vr_instances t (ri_to info) = Some i \<and> mi_seed_instance i = af_seed_instance f \<and>
      af_funded_p f \<le> instance_channel_funded_p (af_channel_id f) i"
    using g [OF i(1)] i(2,3) by (auto simp: grows_def same_instance_def intro: order_trans)
next
  fix eid assume "ri_funds_entry info = Some eid"
  then obtain i e where i: "vr_instances s (ri_to info) = Some i" "mi_entries i eid = Some e"
      "re_amount e = ri_amount info" "ri_memo info = Some (re_nonce e)"
    using b unfolding backed_def by blast
  obtain j st where "vr_instances t (ri_to info) = Some j" "mi_entries j eid = Some (e\<lparr>re_state := st\<rparr>)"
    using g [OF i(1)] i(2) unfolding grows_def by blast
  then show "\<exists>i e. vr_instances t (ri_to info) = Some i \<and> mi_entries i eid = Some e \<and>
      re_amount e = ri_amount info \<and> ri_memo info = Some (re_nonce e)"
    using i(3,4) by simp
qed

lemma bound_grows: "bound_instance cs nfc a i \<Longrightarrow> grows i j \<Longrightarrow> bound_instance cs nfc a j"
  by (simp add: bound_instance_def grows_def same_instance_def)

section \<open>The pieces of an operation\<close>

definition develops :: "crypto_suite \<Rightarrow> (nat list \<Rightarrow> nat list) \<Rightarrow> inner \<Rightarrow> inner \<Rightarrow> bool" where
  "develops cs nfc s t \<longleftrightarrow> (facts_ok cs nfc s \<longrightarrow> later s t \<and> facts_ok cs nfc t)"

lemma develops_refl [simp]: "develops cs nfc s s"
  by (simp add: develops_def)

lemma develops_trans: "develops cs nfc s t \<Longrightarrow> develops cs nfc t u \<Longrightarrow> develops cs nfc s u"
  by (auto simp: develops_def intro: later_trans)

text \<open>A state that only adds to the contracts keeps the facts, apart from what it wrote itself.\<close>

lemma developsI:
  assumes l: "later s t"
    and r: "\<And>r v. vr_refs t r = Some v \<Longrightarrow> vr_refs s r = Some v"
    and ids: "\<And>sid r. vr_settle_ids t sid = Some r \<Longrightarrow> vr_refs s r \<noteq> None \<or> vr_settle_ids s sid = Some r"
      "\<And>k r. vr_release_keys t k = Some r \<Longrightarrow> vr_refs s r \<noteq> None \<or> vr_release_keys s k = Some r"
    and i: "\<And>a j. vr_instances t a = Some j \<Longrightarrow> (\<exists>i. vr_instances s a = Some i) \<or> bound_instance cs nfc a j"
    and sp: "\<And>a st. vr_splits t a = Some st \<Longrightarrow> (\<exists>st. vr_splits s a = Some st) \<or> bound_split cs nfc a (ss_recipients st)"
  shows "develops cs nfc s t"
proof -
  have "facts_ok cs nfc t" if f: "facts_ok cs nfc s"
  proof -
    have g: "\<And>a i. vr_instances s a = Some i \<Longrightarrow> \<exists>j. vr_instances t a = Some j \<and> grows i j"
      and gs: "\<And>a st. vr_splits s a = Some st \<Longrightarrow> \<exists>st'. vr_splits t a = Some st' \<and> ss_recipients st' = ss_recipients st"
      and mono: "vr_clock s \<le> vr_clock t" "vr_next_ref s \<le> vr_next_ref t" "vr_refs s \<subseteq>\<^sub>m vr_refs t"
      using l unfolding later_def by blast+
    have refs: "vr_refs s r \<noteq> None \<Longrightarrow> vr_refs t r \<noteq> None" for r
      using mono(3) unfolding map_le_def by (metis domI domIff)
    have "ref_ok t r v" if "vr_refs t r = Some v" for r v
    proof -
      have "ref_ok s r v" using facts_okD(1) [OF f] r [OF that] by blast
      then obtain k where "ri_canonical (snd v) = r" "fst v \<le> vr_clock s" "k < unat (vr_next_ref s)" "r = ref_id k"
          "backed s (snd v)" unfolding ref_ok_def by blast
      moreover have "backed t (snd v)" by (rule backed_later [OF calculation(5) g])
      moreover have "fst v \<le> vr_clock t" by (rule order_trans [OF calculation(2) mono(1)])
      moreover have "k < unat (vr_next_ref t)" using calculation(3) mono(2) by (simp add: word_le_nat_alt)
      ultimately show ?thesis unfolding ref_ok_def by blast
    qed
    moreover have "bound_instance cs nfc a j" if "vr_instances t a = Some j" for a j
      using i [OF that] g [of a] that facts_okD(4) [OF f] bound_grows by (metis option.inject)
    moreover have "bound_split cs nfc a (ss_recipients st)" if "vr_splits t a = Some st" for a st
      using sp [OF that] gs [of a] that facts_okD(5) [OF f] by (metis option.inject)
    moreover have "vr_refs t r \<noteq> None" if "vr_settle_ids t sid = Some r" for sid r
      using ids(1) [OF that] facts_okD(2) [OF f, of sid r] refs by blast
    moreover have "vr_refs t r \<noteq> None" if "vr_release_keys t k = Some r" for k r
      using ids(2) [OF that] facts_okD(3) [OF f, of k r] refs by blast
    ultimately show ?thesis unfolding facts_ok_def by blast
  qed
  then show ?thesis using l by (simp add: develops_def)
qed

lemma develops_ledger [simp]: "develops cs nfc s (s\<lparr>vr_ledger := l\<rparr>)"
  by (rule developsI) (auto simp: later_def)

lemma develops_payouts [simp]: "develops cs nfc s (apply_payouts out s)"
  by (simp add: apply_payouts_def)

lemma develops_debit: "debit a x s = Inr t \<Longrightarrow> develops cs nfc s t"
  by (auto simp: debit_def)

lemma develops_instance:
  "vr_instances s a = Some i \<Longrightarrow> grows i j \<Longrightarrow> develops cs nfc s (s\<lparr>vr_instances := (vr_instances s)(a \<mapsto> j)\<rparr>)"
  by (rule developsI) (auto simp: later_def split: if_splits)

lemma develops_split:
  "vr_splits s a = Some st \<Longrightarrow> ss_recipients st' = ss_recipients st \<Longrightarrow>
   develops cs nfc s (s\<lparr>vr_ledger := l, vr_splits := (vr_splits s)(a \<mapsto> st')\<rparr>)"
  by (rule developsI) (auto simp: later_def split: if_splits)

lemma develops_record:
  assumes r: "record_ref info s = Inr (r, t)" and b: "backed s info"
  shows "develops cs nfc s t \<and> vr_refs t r \<noteq> None \<and> vr_settle_ids t = vr_settle_ids s \<and> vr_release_keys t = vr_release_keys s"
proof -
  obtain n where n: "checked_add (vr_next_ref s) 1 = Some n" and rid: "r = ref_id (unat (vr_next_ref s))"
    and t: "t = s\<lparr>vr_next_ref := n, vr_refs := (vr_refs s)(r \<mapsto> (vr_clock s, info\<lparr>ri_canonical := r\<rparr>))\<rparr>"
    using r by (auto simp: record_ref_def Let_def ref_id_def)
  have n1: "unat n = unat (vr_next_ref s) + 1" using n by (auto simp: checked_add_Some)
  have "later s t \<and> facts_ok cs nfc t" if f: "facts_ok cs nfc s"
  proof -
    have fresh: "vr_refs s r = None"
      using facts_okD(1) [OF f, of r] by (cases "vr_refs s r") (auto simp: ref_ok_def rid)
    then have "later s t" using n1 by (auto simp: later_def t map_le_def word_le_nat_alt)
    moreover have "ref_ok t q v" if "vr_refs t q = Some v" for q v
    proof (cases "q = r")
      case True
      have "backed t (info\<lparr>ri_canonical := r\<rparr>)" using b by (simp add: backed_def t)
      then show ?thesis using that True n1 rid by (auto simp: ref_ok_def t)
    next
      case False
      then have "ref_ok s q v" using that facts_okD(1) [OF f] by (simp add: t)
      moreover have "backed t x = backed s x" for x by (simp add: backed_def t)
      ultimately show ?thesis using n1 by (auto simp: ref_ok_def t intro: less_SucI)
    qed
    moreover have "vr_refs s q \<noteq> None \<Longrightarrow> vr_refs t q \<noteq> None" for q by (simp add: t)
    moreover have "vr_settle_ids t = vr_settle_ids s" "vr_release_keys t = vr_release_keys s"
      "vr_instances t = vr_instances s" "vr_splits t = vr_splits s" by (simp_all add: t)
    ultimately show ?thesis using facts_okD(2-5) [OF f] unfolding facts_ok_def by metis
  qed
  then show ?thesis by (simp add: develops_def t)
qed

text \<open>
  Every call of the rail keeps the facts: the references, idempotency maps and contracts of a later
  state extend those of an earlier one. With the histories of Rail_History: the two keyed operations
  take effect once, finality is stable, and each address hosts the contract of its inputs.
\<close>

lemma of_entry_Inr [simp]: "of_entry m = Inr x \<longleftrightarrow> m = Inr x"
  by (simp add: of_entry_def)

lemma on_instance_develops:
  assumes "on_instance addr f s = Inr (x, t)" "\<And>i j. f i = Inr (x, j) \<Longrightarrow> grows i j"
  obtains i j where "vr_instances s addr = Some i" "f i = Inr (x, j)" "vr_instances t addr = Some j" "grows i j"
    "develops cs nfc s t"
  using assms(1) by (auto simp: on_instance_def intro!: that assms(2) develops_instance)

lemma pay_from_develops:
  assumes "pay_from addr f s = Inr t" "\<And>i out j. f i = Inr (out, j) \<Longrightarrow> grows i j"
  shows "develops cs nfc s t"
proof -
  obtain out u where u: "on_instance addr f s = Inr (out, u)" "t = apply_payouts out u"
    using assms(1) by (auto simp: pay_from_def)
  show ?thesis
    by (rule on_instance_develops [OF u(1) assms(2)]) (auto simp: u(2) intro: develops_trans)
qed

lemma plain_backed [simp]: "backed s (plain_info a b x)" "backed s ((plain_info a b x)\<lparr>ri_memo := m\<rparr>)"
  by (simp_all add: backed_def plain_info_def)

lemma record_payment_develops:
  assumes "record_payment tr s = Inr (r, t)"
  shows "develops cs nfc s t \<and> vr_refs t r \<noteq> None \<and> vr_settle_ids t = vr_settle_ids s"
proof -
  let ?info = "(plain_info (tr_to tr) (tr_asset tr) (tr_amount tr))\<lparr>ri_memo := tr_memo tr\<rparr>"
  have "\<exists>u. develops cs nfc s u \<and> vr_settle_ids u = vr_settle_ids s \<and> record_ref ?info u = Inr (r, t)"
  proof (cases "vr_splits s (tr_to tr)")
    case None
    then obtain l where "record_ref ?info (s\<lparr>vr_ledger := l\<rparr>) = Inr (r, t)"
      using assms by (cases "tr_kind tr") (auto simp: record_payment_def)
    then show ?thesis by (intro exI [of _ "s\<lparr>vr_ledger := l\<rparr>"]) simp
  next
    case (Some st)
    then obtain l st' where "record_ref ?info (s\<lparr>vr_ledger := l, vr_splits := (vr_splits s)(tr_to tr \<mapsto> st')\<rparr>) = Inr (r, t)"
        "ss_recipients st' = ss_recipients st"
      using assms by (cases "tr_kind tr") (auto simp: record_payment_def split_distribute_def)
    then show ?thesis using develops_split [OF Some, of st' cs nfc l]
      by (intro exI [of _ "s\<lparr>vr_ledger := l, vr_splits := (vr_splits s)(tr_to tr \<mapsto> st')\<rparr>"]) simp
  qed
  then obtain u where u: "develops cs nfc s u" "vr_settle_ids u = vr_settle_ids s" "record_ref ?info u = Inr (r, t)"
    by blast
  show ?thesis using develops_record [OF u(3), of cs nfc] u(1,2) develops_trans by fastforce
qed

lemma settle_develops:
  assumes "settle tr sid s = Inr (r, t)"
  shows "develops cs nfc s t \<and> vr_settle_ids t sid = Some r"
proof (cases "vr_settle_ids s sid")
  case None
  then obtain u where u: "record_payment tr s = Inr (r, u)" "t = u\<lparr>vr_settle_ids := (vr_settle_ids u)(sid \<mapsto> r)\<rparr>"
    using assms by (auto simp: settle_def)
  note d = record_payment_develops [OF u(1), of cs nfc]
  have "develops cs nfc u t" unfolding u(2)
    by (rule developsI) (use d None in \<open>auto simp: later_def map_le_def split: if_splits\<close>)
  then show ?thesis using d develops_trans by (fastforce simp: u(2))
qed (use assms in \<open>auto simp: settle_def\<close>)

lemma release_locked_develops:
  assumes "release_locked src to a x s = Inr (r, t)"
  shows "develops cs nfc s t \<and> vr_refs t r \<noteq> None \<and> vr_release_keys t = vr_release_keys s"
proof -
  obtain u where u: "debit src x s = Inr u"
      "record_ref (plain_info to a x) (u\<lparr>vr_ledger := credit to x (vr_ledger u)\<rparr>) = Inr (r, t)"
    using assms by (auto simp: release_locked_def Let_def)
  have k: "vr_release_keys u = vr_release_keys s" using u(1) by (auto simp: debit_def)
  have "develops cs nfc s (u\<lparr>vr_ledger := credit to x (vr_ledger u)\<rparr>)"
    using develops_trans [OF develops_debit [OF u(1)] develops_ledger] .
  then show ?thesis using develops_record [OF u(2), of cs nfc] k develops_trans by fastforce
qed

lemma release_keyed_develops:
  assumes "release_keyed cid ref src to a x s = Inr (r, t)"
  shows "develops cs nfc s t \<and> vr_release_keys t (cid, ref) = Some r"
proof (cases "vr_release_keys s (cid, ref)")
  case None
  then obtain u where u: "release_locked src to a x s = Inr (r, u)"
      "t = u\<lparr>vr_release_keys := (vr_release_keys u)((cid, ref) \<mapsto> r)\<rparr>"
    using assms by (auto simp: release_keyed_def)
  note d = release_locked_develops [OF u(1), of cs nfc]
  have "develops cs nfc u t" unfolding u(2)
    by (rule developsI) (use d None in \<open>auto simp: later_def map_le_def split: if_splits\<close>)
  then show ?thesis using d develops_trans by (fastforce simp: u(2))
qed (use assms in \<open>auto simp: release_keyed_def\<close>)

lemma deploy_split_develops:
  assumes "deploy_split cs nfc seed ai s = Inr (a, t)"
  shows "develops cs nfc s t"
proof -
  obtain net rs where b: "seed_split cs nfc ai = Inr seed" "merchant_net ai = Some net"
      "split_recipients (map (\<lambda>e. (dest e, bp e)) (meed_vector ai)) net = Some rs" "t = snd (deploy_split_raw seed rs s)"
    using assms by (auto simp: deploy_split_def)
  then have "bound_split cs nfc (derive_address seed) rs" unfolding bound_split_def by blast
  then show ?thesis unfolding b(4) deploy_split_raw_def Let_def snd_conv
    by (cases "vr_splits s (derive_address seed)")
      (auto intro!: developsI simp: later_def split: if_splits)
qed

lemma deploy_instance_develops:
  assumes "deploy_instance cs nfc seed ai s = Inr (a, t)"
  shows "develops cs nfc s t"
proof -
  let ?meed = "map (\<lambda>e. \<lparr>ms_dest = dest e, ms_bp = bp e\<rparr>) (meed_vector ai)"
  have b: "seed_instance cs nfc ai = Inr seed" "t = snd (deploy_instance_raw seed (merchant_key ai) ?meed s)"
    using assms by (auto simp: deploy_instance_def)
  have "bound_instance cs nfc (derive_address seed) (instance_new (merchant_key ai) ?meed seed)"
    using b(1) by (auto simp: bound_instance_def instance_new_def Let_def)
  then show ?thesis unfolding b(2) deploy_instance_raw_def Let_def snd_conv
    by (cases "vr_instances s (derive_address seed)")
      (auto intro!: developsI simp: later_def split: if_splits)
qed

lemma open_reclaim_develops:
  assumes "open_reclaim addr eid s = Inr t"
  shows "develops cs nfc s t"
proof -
  have "on_instance addr (\<lambda>i. and_then (instance_open_reclaim eid (vr_clock s) i) (\<lambda>i'. Inr ((), i'))) s = Inr ((), t)"
    using assms by (auto simp: open_reclaim_def)
  then show ?thesis by (rule on_instance_develops) (auto intro: open_grows)
qed

lemma fund_entry_develops:
  assumes "fund_entry cs' addr nonce x ptr t_open t_lapse contest a s = Inr (y, t)"
  shows "develops cs nfc s t"
proof -
  obtain eid u r where u: "on_instance addr (instance_fund_entry cs' nonce x ptr t_open t_lapse contest (vr_clock s)) s = Inr (eid, u)"
      "record_ref ((plain_info addr a x)\<lparr>ri_memo := Some nonce, ri_funds_entry := Some eid\<rparr>) u = Inr (r, t)"
    using assms by (auto simp: fund_entry_def)
  obtain i j where i: "instance_fund_entry cs' nonce x ptr t_open t_lapse contest (vr_clock s) i = Inr (eid, j)"
      "vr_instances u addr = Some j" "develops cs nfc s u"
    by (rule on_instance_develops [OF u(1)]) (auto dest: fund_grows)
  have "backed u ((plain_info addr a x)\<lparr>ri_memo := Some nonce, ri_funds_entry := Some eid\<rparr>)"
    using fund_grows [OF i(1)] i(2) by (auto simp: backed_def plain_info_def)
  then show ?thesis using develops_record [OF u(2)] i(3) develops_trans by blast
qed

lemma leg_develops:
  "(case src of Some a \<Rightarrow> debit a x u | None \<Rightarrow> Inr u) = Inr w \<Longrightarrow>
   develops cs nfc u (apply_payouts out w) \<and> vr_instances (apply_payouts out w) = vr_instances u"
  by (auto simp: debit_def apply_payouts_def split: option.splits)

lemma claim_record_develops:
  assumes "fund_claim_record_impl cs' src addr cid ref x a s = Inr (y, t)"
  shows "develops cs nfc s t"
proof -
  let ?f = "\<lambda>i. and_then (instance_fund_claim_record cs' cid ref x i) (\<lambda>(key, out, i'). Inr ((key, out), i'))"
  obtain key out u w r where u: "on_instance addr ?f s = Inr ((key, out), u)"
      "(case src of Some a \<Rightarrow> debit a x u | None \<Rightarrow> Inr u) = Inr w"
      "record_ref ((plain_info addr a x)\<lparr>ri_memo := Some key, ri_funds_claim := Some key\<rparr>) (apply_payouts out w) = Inr (r, t)"
    using assms by (auto simp: fund_claim_record_impl_def Let_def)
  obtain i j where i: "?f i = Inr ((key, out), j)" "vr_instances u addr = Some j" "develops cs nfc s u"
    by (rule on_instance_develops [OF u(1)]) (auto dest: claim_grows)
  note leg = leg_develops [OF u(2), of cs nfc out]
  have "key \<in> mi_claim_records j" using i(1) claim_grows by auto
  then have "backed (apply_payouts out w) ((plain_info addr a x)\<lparr>ri_memo := Some key, ri_funds_claim := Some key\<rparr>)"
    using i(2) leg by (simp add: backed_def plain_info_def)
  then show ?thesis using develops_record [OF u(3)] leg i(3) develops_trans by blast
qed

lemma advance_develops:
  assumes "advance_channel_meed src addr c target a s = Inr (y, t)"
  shows "develops cs nfc s t"
proof -
  let ?f = "\<lambda>i. and_then (instance_advance_channel_meed c target i) (\<lambda>(funded, d, out, i'). Inr ((funded, d, out), i'))"
  obtain i where s: "vr_instances s addr = Some i" using assms by (auto simp: advance_channel_meed_def)
  obtain f d out u w where u: "on_instance addr ?f s = Inr ((f, d, out), u)"
      "(case src of Some a \<Rightarrow> if 0 < d then debit a d u else Inr u | None \<Rightarrow> Inr u) = Inr w"
      "record_ref ((plain_info addr a d)\<lparr>ri_advanced := Some \<lparr>af_channel_id = c, af_seed_instance = mi_seed_instance i,
        af_funded_p = f, af_delta = d, af_asset = a\<rparr>\<rparr>) (apply_payouts out w) = Inr (y, t)"
    using assms s by (auto simp: advance_channel_meed_def Let_def)
  obtain k j where i: "vr_instances s addr = Some k" "?f k = Inr ((f, d, out), j)" "vr_instances u addr = Some j"
      "grows k j" "develops cs nfc s u"
    by (rule on_instance_develops [OF u(1)]) (auto dest: advance_grows)
  have leg: "develops cs nfc u (apply_payouts out w) \<and> vr_instances (apply_payouts out w) = vr_instances u"
    using u(2) leg_develops [where src = src and x = d and u = u and w = w and cs = cs and nfc = nfc and out = out]
      leg_develops [where src = None and u = u and w = w and cs = cs and nfc = nfc and out = out]
    by (cases src) (auto split: if_splits)
  have "instance_channel_funded_p c j = f" using i(2) advance_grows by fastforce
  moreover have "mi_seed_instance j = mi_seed_instance i" using i(1,4) s by (auto simp: grows_def same_instance_def)
  ultimately have "backed (apply_payouts out w) ((plain_info addr a d)\<lparr>ri_advanced := Some \<lparr>af_channel_id = c,
      af_seed_instance = mi_seed_instance i, af_funded_p = f, af_delta = d, af_asset = a\<rparr>\<rparr>)"
    using i(3) leg by (simp add: backed_def plain_info_def)
  then show ?thesis using develops_record [OF u(3)] leg i(5) develops_trans by blast
qed

section \<open>Histories\<close>

lemma state_of_Inr: "state_of m = Inr t \<longleftrightarrow> (\<exists>x. m = Inr (x, t))"
  by (auto simp: state_of_def)

theorem exec_develops: "rail_exec cs nfc c s = Inr t \<Longrightarrow> develops cs nfc s t"
proof (cases c)
  case (AdvanceClock secs)
  assume "rail_exec cs nfc c s = Inr t"
  then obtain k where "t = s\<lparr>vr_clock := k\<rparr>" "vr_clock s \<le> k"
    using AdvanceClock by (auto simp: advance_clock_def checked_add_Some word_le_nat_alt)
  then show ?thesis
    by (auto simp: develops_def later_def facts_ok_def ref_ok_def backed_def intro: order_trans)
next
  case (SetOutage on)
  assume "rail_exec cs nfc c s = Inr t"
  then have "t = s\<lparr>vr_outage := on\<rparr>" using SetOutage by (simp add: set_outage_def)
  then show ?thesis by (auto simp: develops_def later_def facts_ok_def ref_ok_def backed_def)
next
  case (AskFinality r)
  assume "rail_exec cs nfc c s = Inr t"
  then have "t = s" using AskFinality by auto
  then show ?thesis by simp
qed (auto simp: state_of_Inr submit_def release_def fund_claim_record_def draw_claim_record_def
      attest_entry_def cancel_entry_def execute_reclaim_def claim_lapsed_def
    dest: deploy_split_develops deploy_instance_develops record_payment_develops [of _ _ _ _ cs nfc] settle_develops [of _ _ _ _ _ cs nfc]
      release_locked_develops [of _ _ _ _ _ _ _ cs nfc] release_keyed_develops [of _ _ _ _ _ _ _ _ _ cs nfc] fund_entry_develops open_reclaim_develops claim_record_develops
      advance_develops
    intro: pay_from_develops attest_grows cancel_grows execute_grows lapse_grows)


text \<open>Any further calls, whatever they are.\<close>

definition rail_after :: "crypto_suite \<Rightarrow> (nat list \<Rightarrow> nat list) \<Rightarrow> inner \<Rightarrow> inner \<Rightarrow> bool" where
  "rail_after cs nfc = (\<lambda>s t. \<exists>c. rail_exec cs nfc c s = Inr t)\<^sup>*\<^sup>*"

lemma after_develops: "rail_after cs nfc s t \<Longrightarrow> develops cs nfc s t"
  unfolding rail_after_def
  by (induction rule: rtranclp_induct) (auto intro: develops_trans exec_develops)

lemma start_facts: "facts_ok cs nfc (inner_new d)"
  by (simp add: facts_ok_def inner_new_def)

lemma reach_facts: "rail_reach cs nfc m v s \<Longrightarrow> facts_ok cs nfc s"
proof (induction rule: rail_reach.induct)
  case (call m v s c t)
  then show ?case using exec_develops [of cs nfc c s t] by (simp add: develops_def)
qed (rule start_facts)

text \<open>Value is only lost where an instance without weights is deployed.\<close>

lemma swallowed_weightless:
  "swallowed c s \<noteq> 0 \<Longrightarrow> \<exists>a i. vr_instances s a = Some i \<and> mi_bp_total i = 0"
  by (cases c) (auto simp: lost_at_def sunk_entry_def sunk_def split: option.splits if_splits)

lemma account_lost:
  "rail_account cs nfc m l v s \<Longrightarrow> l \<noteq> 0 \<Longrightarrow> \<exists>a i. vr_instances s a = Some i \<and> mi_bp_total i = 0"
proof (induction rule: rail_account.induct)
  case (called m l v s c t)
  then obtain a i where i: "vr_instances s a = Some i" "mi_bp_total i = 0"
    using swallowed_weightless [of c s] by auto
  have "later s t"
    using exec_develops [OF called.hyps(3)] reach_facts [OF account_reach [OF called.hyps(1)]] by (simp add: develops_def)
  then obtain j where "vr_instances t a = Some j" "grows i j" using i(1) unfolding later_def by blast
  then show ?case using i(2) by (auto simp: grows_def same_instance_def)
qed simp

lemma reach_later: "rail_reach cs nfc m v s \<Longrightarrow> rail_after cs nfc s t \<Longrightarrow> later s t \<and> facts_ok cs nfc t"
  using after_develops reach_facts by (auto simp: develops_def)

lemma exec_after: "rail_exec cs nfc c s = Inr t \<Longrightarrow> rail_after cs nfc s t"
  unfolding rail_after_def by blast

lemma after_refl: "rail_after cs nfc s s"
  by (simp add: rail_after_def)

section \<open>Running a list of calls\<close>

fun run_calls :: "crypto_suite \<Rightarrow> (nat list \<Rightarrow> nat list) \<Rightarrow> rail_call list \<Rightarrow> nat \<times> nat \<times> inner \<Rightarrow> (nat \<times> nat \<times> inner) on_rail" where
  "run_calls cs nfc [] x = Inr x"
| "run_calls cs nfc (c # calls) (m, v, s) =
     and_then (ensure (vr_next_ref s \<noteq> - 1) Panic) (\<lambda>_.
     and_then (rail_exec cs nfc c s) (\<lambda>t.
     run_calls cs nfc calls (m + minted c s, v + moved c s, t)))"

lemma run_calls_reach:
  "rail_reach cs nfc m v s \<Longrightarrow> run_calls cs nfc calls (m, v, s) = Inr (m', v', t) \<Longrightarrow>
   rail_reach cs nfc m' v' t \<and> rail_after cs nfc s t"
proof (induction calls arbitrary: m v s)
  case (Cons c calls)
  then obtain u where u: "vr_next_ref s \<noteq> - 1" "rail_exec cs nfc c s = Inr u"
      "run_calls cs nfc calls (m + minted c s, v + moved c s, u) = Inr (m', v', t)"
    by auto
  have "rail_reach cs nfc m' v' t \<and> rail_after cs nfc u t"
    using Cons.IH [OF rail_reach.call [OF Cons.prems(1) u(1,2)] u(3)] .
  then show ?case using exec_after [OF u(2)] unfolding rail_after_def by (meson rtranclp_trans)
qed (simp add: after_refl)

end
