(* ===== verification/Props_Rail.thy ===== *)
theory Props_Rail
  imports Rail_Facts Example_Parameters
begin

text \<open>
  The properties of the settlement rail: conservation of value, totality of the calls, exactly-once keyed
  transfers, immutable and honest references, the binding of a contract's recipients to its address, the
  one-way life of an entry and the exact division of an advance. The example history deploys an
  instance, funds a claim record, settles a payment into an escrow and draws an advance from it.
\<close>

section \<open>An example history\<close>

definition ex_inputs :: address_inputs where
  "ex_inputs = \<lparr>merchant_key = replicate 32 7, asset = [117], schema_id = 1,
     meed_vector = [\<lparr>role = 16, bp = 60, dest = [97]\<rparr>, \<lparr>role = 17, bp = 40, dest = [98]\<rparr>],
     contract = 1, merchant_net = None\<rparr>"

definition ex_seed :: bytes where
  "ex_seed = (case seed_instance toy_suite id ex_inputs of Inr sd \<Rightarrow> sd | Inl _ \<Rightarrow> [])"

definition ex_addr :: bytes where "ex_addr = derive_address ex_seed"

lemma ex_seed: "seed_instance toy_suite id ex_inputs = Inr ex_seed"
proof -
  have "\<exists>bs. seed_instance toy_suite id ex_inputs = Inr bs"
    by (simp add: seed_instance_def canonical_bytes_def ex_inputs_def validate_text_def ascii_def of_char_def from_fields_def
      T_MERCHANT_KEY_def T_ASSET_def T_SCHEMA_def T_VECTOR_def T_CONTRACT_def)
  then show ?thesis by (auto simp: ex_seed_def)
qed

definition ex_payment :: transfer where
  "ex_payment = \<lparr>tr_to = [99], tr_asset = [117], tr_amount = 500, tr_kind = Payment, tr_memo = None\<rparr>"

definition ex_calls :: "rail_call list" where
  "ex_calls = [DeployInstance ex_seed ex_inputs, FundClaimRecord ex_addr [1] [2] 1003 [117],
     Settle ex_payment [9], AdvanceChannelMeed (Some [99]) ex_addr [1] 200 [117]]"

definition ex_instance :: meed_instance where
  "ex_instance = \<lparr>mi_merchant_key = replicate 32 7, mi_seed_instance = ex_seed,
     mi_meed = [\<lparr>ms_dest = [97], ms_bp = 60\<rparr>, \<lparr>ms_dest = [98], ms_bp = 40\<rparr>], mi_bp_total = 100,
     mi_entries = Map.empty, mi_claim_records = {}, mi_v_received = 0, mi_paid = [0, 0], mi_channel_paid = Map.empty\<rparr>"

lemma ex_deploy: "rail_exec toy_suite id (DeployInstance ex_seed ex_inputs) (inner_new 5)
    = Inr ((inner_new 5)\<lparr>vr_instances := [ex_addr \<mapsto> ex_instance]\<rparr>)"
  by (simp add: deploy_instance_def ex_seed state_of_def deploy_instance_raw_def Let_def inner_new_def ex_addr_def
      instance_new_def ex_instance_def) (simp add: ex_inputs_def)

lemmas ex_eval = fund_claim_record_def fund_claim_record_impl_def on_instance_def instance_fund_claim_record_def
  instance_claim_record_funded_def instance_distribute_def sat_add_def entitlement_def settle_def record_payment_def
  advance_channel_meed_def advance_delta_def advance_rise_def funded_of_def instance_channel_funded_p_def instance_advance_channel_meed_def
  record_ref_def plain_info_def apply_payouts_def credit_def balance_of_def add_to_def debit_def state_of_def
  checked_add_def checked_sub_def sat_sub_def of_entry_def ex_inputs_def inner_new_def ex_instance_def
  ex_payment_def Let_def

lemma ex_history:
  obtains s i where "rail_reach toy_suite id 1503 1703 s" "balance_of [97] (vr_ledger s) = 721"
    "balance_of [98] (vr_ledger s) = 481" "balance_of [99] (vr_ledger s) = 300" "vr_next_ref s = 3"
    "vr_instances s ex_addr = Some i" "mi_seed_instance i = ex_seed" "instance_channel_funded_p [1] i = 200"
    "mi_meed i = mi_meed ex_instance" "mi_bp_total i = 100" "vr_refs s [9] = None"
    "\<forall>a i. vr_instances s a = Some i \<longrightarrow> mi_bp_total i = 100"
proof -
  have "\<exists>s i. run_calls toy_suite id ex_calls (0, 0, inner_new 5) = Inr (1503, 1703, s) \<and>
      balance_of [97] (vr_ledger s) = 721 \<and> balance_of [98] (vr_ledger s) = 481 \<and> balance_of [99] (vr_ledger s) = 300 \<and>
      vr_next_ref s = 3 \<and> vr_instances s ex_addr = Some i \<and> mi_seed_instance i = ex_seed \<and> instance_channel_funded_p [1] i = 200 \<and>
      mi_meed i = mi_meed ex_instance \<and> mi_bp_total i = 100 \<and> vr_refs s [9] = None \<and>
      (\<forall>a i. vr_instances s a = Some i \<longrightarrow> mi_bp_total i = 100)"
    unfolding ex_calls_def run_calls.simps ex_deploy by (simp add: ex_eval ascii_def of_char_def del: and_then_Inr)
  then obtain s i where "run_calls toy_suite id ex_calls (0, 0, inner_new 5) = Inr (1503, 1703, s)" and
    "balance_of [97] (vr_ledger s) = 721" "balance_of [98] (vr_ledger s) = 481" "balance_of [99] (vr_ledger s) = 300"
    "vr_next_ref s = 3" "vr_instances s ex_addr = Some i" "mi_seed_instance i = ex_seed" "instance_channel_funded_p [1] i = 200"
    "mi_meed i = mi_meed ex_instance" "mi_bp_total i = 100" "vr_refs s [9] = None"
    "\<forall>a i. vr_instances s a = Some i \<longrightarrow> mi_bp_total i = 100"
    by blast
  then show thesis using that run_calls_reach [OF rail_reach.start] by blast
qed

text \<open>A deployment whose only weight is zero.\<close>

definition ex_void_inputs :: address_inputs where
  "ex_void_inputs = ex_inputs\<lparr>meed_vector := [\<lparr>role = 16, bp = 0, dest = [97]\<rparr>]\<rparr>"

definition ex_void_seed :: bytes where
  "ex_void_seed = (case seed_instance toy_suite id ex_void_inputs of Inr sd \<Rightarrow> sd | Inl _ \<Rightarrow> [])"

lemma ex_void_seed: "seed_instance toy_suite id ex_void_inputs = Inr ex_void_seed"
proof -
  have "\<exists>bs. seed_instance toy_suite id ex_void_inputs = Inr bs"
    by (simp add: seed_instance_def canonical_bytes_def ex_void_inputs_def ex_inputs_def validate_text_def ascii_def of_char_def
      from_fields_def T_MERCHANT_KEY_def T_ASSET_def T_SCHEMA_def T_VECTOR_def T_CONTRACT_def)
  then show ?thesis by (auto simp: ex_void_seed_def)
qed

definition ex_void_instance :: meed_instance where
  "ex_void_instance = instance_new (replicate 32 7) [\<lparr>ms_dest = [97], ms_bp = 0\<rparr>] ex_void_seed"

lemma ex_void_history:
  obtains s where "rail_account toy_suite id 1003 1003 1003 s"
proof -
  let ?a = "derive_address ex_void_seed"
  let ?s = "(inner_new 5)\<lparr>vr_instances := [?a \<mapsto> ex_void_instance]\<rparr>"
  have "rail_exec toy_suite id (DeployInstance ex_void_seed ex_void_inputs) (inner_new 5) = Inr ?s"
    by (simp add: deploy_instance_def ex_void_seed state_of_def deploy_instance_raw_def Let_def inner_new_def
        ex_void_instance_def) (simp add: ex_void_inputs_def ex_inputs_def)
  then have s: "rail_account toy_suite id 0 0 0 ?s"
    using rail_account.called [OF rail_account.opened] by (fastforce simp: inner_new_def)
  have z: "mi_bp_total ex_void_instance = 0" by (simp add: ex_void_instance_def instance_new_def Let_def)
  have "\<exists>t. rail_exec toy_suite id (FundClaimRecord ?a [1] [2] 1003 [117]) ?s = Inr t"
    using z by (simp add: ex_eval del: and_then_Inr) (simp add: ex_void_instance_def instance_new_def Let_def)
  then obtain t where t: "rail_exec toy_suite id (FundClaimRecord ?a [1] [2] 1003 [117]) ?s = Inr t" by blast
  have "swallowed (FundClaimRecord ?a [1] [2] 1003 [117]) ?s = 1003"
    using z by (simp add: lost_at_def sunk_def)
  then have "rail_account toy_suite id 1003 1003 1003 t"
    using rail_account.called [OF s _ t] by (simp add: inner_new_def)
  then show thesis by (rule that)
qed

section \<open>Value\<close>

text \<open>C8. The rail accounts for all value: in every state it reaches by any calls in any order, with errors in
  between, the balances of all accounts, what the splits hold and what the instances hold (live entries, the
  undistributed pool, the residues of the channels) add up, together with the amounts that instances
  without weights swallowed, to exactly what was minted into the rail. Nothing is swallowed unless an instance
  with an empty or all-zero vector is deployed, which the rail accepts. Every split and instance is in
  order. The bounds are those of the machine: the volume moved stays in the 128-bit domain, and a
  history goes on while a reference is left to hand out.\<close>

theorem rail_conserves:
  assumes "rail_account cs nfc m l v s" "v < 2 ^ 128"
  shows "ledger_total (vr_ledger s) + map_total split_held (vr_splits s) + map_total held (vr_instances s) + l = m \<and>
    (l = 0 \<or> (\<exists>a i. vr_instances s a = Some i \<and> mi_bp_total i = 0)) \<and>
    (\<forall>a st. vr_splits s a = Some st \<longrightarrow> split_inv st) \<and> (\<forall>a i. vr_instances s a = Some i \<longrightarrow> instance_inv cs i)"
proof -
  have i: "rail_ok cs v s" "rail_supply s + l = m" using rail_account_inv [OF assms] by (simp_all add: rail_inv_def)
  then show ?thesis using rail_okD(4,6) [OF i(1)] account_lost [OF assms(1)] by (simp add: rail_supply_def) blast
qed

text \<open>Two histories: the example, which loses nothing, and a claim of 1003 at an instance whose only weight is zero,
  all of which is lost.\<close>

theorem rail_conserves_witness:
  "(\<exists>s :: inner. balance_of [97] (vr_ledger s) = 721 \<and> balance_of [98] (vr_ledger s) = 481 \<and> balance_of [99] (vr_ledger s) = 300 \<and>
     ledger_total (vr_ledger s) + map_total split_held (vr_splits s) + map_total held (vr_instances s) = 1503) \<and>
   (\<exists>s :: inner. rail_account toy_suite id 1003 1003 1003 s \<and>
     ledger_total (vr_ledger s) + map_total split_held (vr_splits s) + map_total held (vr_instances s) = 0)"
proof
  obtain s i where s: "rail_reach toy_suite id 1503 1703 s" "balance_of [97] (vr_ledger s) = 721"
    "balance_of [98] (vr_ledger s) = 481" "balance_of [99] (vr_ledger s) = 300"
    "\<forall>a i. vr_instances s a = Some i \<longrightarrow> mi_bp_total i = 100" by (rule ex_history)
  obtain l where l: "rail_account toy_suite id 1503 l 1703 s" using reach_account [OF s(1)] by blast
  then show "\<exists>s :: inner. balance_of [97] (vr_ledger s) = 721 \<and> balance_of [98] (vr_ledger s) = 481 \<and> balance_of [99] (vr_ledger s) = 300 \<and>
     ledger_total (vr_ledger s) + map_total split_held (vr_splits s) + map_total held (vr_instances s) = 1503"
    using rail_conserves [OF l] s(2-5) by (intro exI [of _ s]) fastforce
  obtain s where "rail_account toy_suite id 1003 1003 1003 s" by (rule ex_void_history)
  then show "\<exists>s :: inner. rail_account toy_suite id 1003 1003 1003 s \<and>
     ledger_total (vr_ledger s) + map_total split_held (vr_splits s) + map_total held (vr_instances s) = 0"
    using rail_conserves [of toy_suite id 1003 1003 1003 s] by (intro exI [of _ s]) simp
qed

text \<open>C9. The rail never panics within the bounds of the machine: every call in a reachable state, the question for
  a reference's finality included, returns a value or an error. An error leaves the state; a value comes
  with a state that is reachable again, with the call's own totals. The bounds: a reference is left to
  hand out, the clock after an advance and the finality time of the reference asked about fit in 64 bits,
  and the volume moved in 128.\<close>

theorem rail_call_total:
  assumes "rail_reach cs nfc m v s" "clock_fits c s" "vr_next_ref s \<noteq> - 1" "v + moved c s < 2 ^ 128"
  shows "(\<exists>e. rail_exec cs nfc c s = Inl (Err e)) \<or>
    (\<exists>t. rail_exec cs nfc c s = Inr t \<and> rail_reach cs nfc (m + minted c s) (v + moved c s) t)"
proof -
  have "v < 2 ^ 128" using assms(4) by simp
  then have "lands (nets cs (v + moved c s) s (minted c s) (swallowed c s)) (rail_exec cs nfc c s)"
    using rail_exec_gains [OF _ assms(4,3,2)] rail_reach_inv [OF assms(1)] by blast
  then show ?thesis using rail_reach.call [OF assms(1,3)]
    by (cases "rail_exec cs nfc c s"; cases "projl (rail_exec cs nfc c s)") (auto simp: lands_def)
qed

theorem rail_call_total_witness:
  "\<exists>s. ((\<exists>e. rail_exec toy_suite id (Release [99] [100] [117] 300) s = Inl (Err e)) \<or>
     (\<exists>t. rail_exec toy_suite id (Release [99] [100] [117] 300) s = Inr t \<and> rail_reach toy_suite id 1503 1703 t)) \<and>
     ((\<exists>e. rail_exec toy_suite id (AskFinality [9]) s = Inl (Err e)) \<or>
     (\<exists>t. rail_exec toy_suite id (AskFinality [9]) s = Inr t \<and> rail_reach toy_suite id 1503 1703 t))"
proof -
  obtain s i where s: "rail_reach toy_suite id 1503 1703 s" "vr_next_ref s = 3" "vr_refs s [9] = None" by (rule ex_history)
  have "clock_fits (Release [99] [100] [117] 300) s" "clock_fits (AskFinality [9]) s"
    using s(3) by (simp_all add: clock_fits_def)
  then show ?thesis using rail_call_total [OF s(1), of "Release [99] [100] [117] 300"] rail_call_total [OF s(1), of "AskFinality [9]"] s(2)
    by (intro exI [of _ s]) simp
qed

section \<open>Keys, references and addresses\<close>

text \<open>C33. A keyed transfer happens once: after a settlement under an authorization id, or a release under a
  channel and checkpoint, the same key returns the first reference and moves nothing, whatever was
  called in between and whatever the retry asks for.\<close>

theorem keyed_transfer_once:
  assumes "rail_reach cs nfc m v s" "rail_after cs nfc s1 u"
  shows "(settle tr sid s = Inr (r, s1) \<longrightarrow> settle tr' sid u = Inr (r, u)) \<and>
    (release_keyed cid ref src to a x s = Inr (r, s1) \<longrightarrow> release_keyed cid ref src' to' a' x' u = Inr (r, u))"
proof -
  have f: "facts_ok cs nfc s" by (rule reach_facts [OF assms(1)])
  have l: "later s1 u" if "develops cs nfc s s1"
    using that f after_develops [OF assms(2)] by (simp add: develops_def)
  have "vr_settle_ids u sid = Some r" if "settle tr sid s = Inr (r, s1)"
    using settle_develops [OF that, of cs nfc] l unfolding later_def map_le_def by (metis domI)
  moreover have "vr_release_keys u (cid, ref) = Some r" if "release_keyed cid ref src to a x s = Inr (r, s1)"
    using release_keyed_develops [OF that, of cs nfc] l unfolding later_def map_le_def by (metis domI)
  ultimately show ?thesis by (simp add: settle_def release_keyed_def)
qed

theorem keyed_transfer_once_witness:
  "\<exists>u. settle ex_payment [9] (inner_new 5) = Inr (ref_id 0, u) \<and> settle ex_payment [9] u = Inr (ref_id 0, u)"
proof -
  have "\<exists>u. settle ex_payment [9] (inner_new 5) = Inr (ref_id 0, u)"
    by (simp add: ex_eval ref_id_def del: and_then_Inr)
  then obtain u where u: "settle ex_payment [9] (inner_new 5) = Inr (ref_id 0, u)" by blast
  show ?thesis
    using keyed_transfer_once [OF rail_reach.start [of toy_suite id] after_refl, of ex_payment "[9]" 5 "ref_id 0" u] u by blast
qed

text \<open>C10. References are immutable and honest: once recorded, a reference keeps its time and its facts under all
  later calls; a claim record it names is funded, the channel it advanced stands at least at the position
  it reports under the seed it reports, the entry it funded exists with its amount and nonce; and a
  reference observed final stays final at the same time.\<close>

theorem references_honest:
  assumes "rail_reach cs nfc m v s" "vr_refs s r = Some (tm, info)" "rail_after cs nfc s u"
  shows "vr_refs u r = Some (tm, info) \<and> ri_canonical info = r \<and>
    (\<forall>key. ri_funds_claim info = Some key \<longrightarrow> (\<exists>i. vr_instances u (ri_to info) = Some i \<and> key \<in> mi_claim_records i)) \<and>
    (\<forall>f. ri_advanced info = Some f \<longrightarrow> (\<exists>i. vr_instances u (ri_to info) = Some i \<and>
       mi_seed_instance i = af_seed_instance f \<and> af_funded_p f \<le> instance_channel_funded_p (af_channel_id f) i)) \<and>
    (\<forall>eid. ri_funds_entry info = Some eid \<longrightarrow> (\<exists>i e. vr_instances u (ri_to info) = Some i \<and> mi_entries i eid = Some e \<and>
       re_amount e = ri_amount info \<and> ri_memo info = Some (re_nonce e))) \<and>
    (\<forall>t. rail_finality r s = Inr (Some \<lparr>fo_level = ascii ''final'', fo_time = t\<rparr>) \<longrightarrow>
       rail_finality r u = Inr (Some \<lparr>fo_level = ascii ''final'', fo_time = t\<rparr>))"
proof -
  have l: "later s u" "facts_ok cs nfc u" using reach_later [OF assms(1,3)] by simp_all
  have r: "vr_refs u r = Some (tm, info)" using l(1) assms(2) unfolding later_def map_le_def by (metis domI)
  have b: "ri_canonical info = r" "backed u info" using facts_okD(1) [OF l(2) r] by (simp_all add: ref_ok_def)
  have "rail_finality r u = Inr (Some \<lparr>fo_level = ascii ''final'', fo_time = t\<rparr>)"
    if "rail_finality r s = Inr (Some \<lparr>fo_level = ascii ''final'', fo_time = t\<rparr>)" for t
    using that assms(2) r l(1)
    by (auto simp: rail_finality_def later_def ascii_def of_char_def split: if_splits)
  then show ?thesis using r b unfolding backed_def by blast
qed

theorem references_honest_witness:
  "\<exists>(s :: inner) (u :: inner). vr_refs s (ref_id 0) = Some (1000000000, (plain_info [99] [117] 500)\<lparr>ri_canonical := ref_id 0\<rparr>) \<and>
     vr_refs u (ref_id 0) = vr_refs s (ref_id 0) \<and> s \<noteq> u"
proof -
  have "\<exists>s. rail_exec toy_suite id (Submit ex_payment) (inner_new 5) = Inr s \<and>
      vr_refs s (ref_id 0) = Some (1000000000, (plain_info [99] [117] 500)\<lparr>ri_canonical := ref_id 0\<rparr>) \<and> \<not> vr_outage s"
    by (simp add: ex_eval submit_def ref_id_def del: and_then_Inr)
  then obtain s where s: "rail_exec toy_suite id (Submit ex_payment) (inner_new 5) = Inr s"
      "vr_refs s (ref_id 0) = Some (1000000000, (plain_info [99] [117] 500)\<lparr>ri_canonical := ref_id 0\<rparr>)" "\<not> vr_outage s" by blast
  have reach: "\<exists>m v. rail_reach toy_suite id m v s"
    using rail_reach.call [OF rail_reach.start _ s(1)] by (auto simp: inner_new_def)
  have "rail_exec toy_suite id (SetOutage True) s = Inr (set_outage True s)" by simp
  note u = exec_after [OF this]
  have "vr_outage (set_outage True s)" by (simp add: set_outage_def)
  then have "s \<noteq> set_outage True s" using s(3) by metis
  moreover obtain m v where "rail_reach toy_suite id m v s" using reach by blast
  then have "vr_refs (set_outage True s) (ref_id 0) = vr_refs s (ref_id 0)"
    using references_honest [OF _ s(2) u] s(2) by simp
  ultimately show ?thesis using s(2) by blast
qed

text \<open>An address binds its recipients: the instance at an address pays the destinations, folded by
  destination, and obeys the merchant key of inputs whose seed gives that address; the split at an address
  divides among the recipients of inputs whose seed gives it, with weights that sum to ten thousand.\<close>

theorem recipients_bound:
  assumes "rail_reach cs nfc m v s" "v < 2 ^ 128"
  shows "(\<forall>a i. vr_instances s a = Some i \<longrightarrow> a = derive_address (mi_seed_instance i) \<and>
      (\<exists>ai. seed_instance cs nfc ai = Inr (mi_seed_instance i) \<and> mi_merchant_key i = merchant_key ai \<and>
         mi_meed i = foldl fold_share [] (map (\<lambda>e. \<lparr>ms_dest = dest e, ms_bp = bp e\<rparr>) (meed_vector ai)))) \<and>
    (\<forall>a st. vr_splits s a = Some st \<longrightarrow> (\<Sum>r\<leftarrow>ss_recipients st. unat (sr_bp r)) = 10000 \<and>
      (\<exists>seed ai net. a = derive_address seed \<and> seed_split cs nfc ai = Inr seed \<and> merchant_net ai = Some net \<and>
         split_recipients (map (\<lambda>e. (dest e, bp e)) (meed_vector ai)) net = Some (ss_recipients st)))"
proof -
  have f: "facts_ok cs nfc s" by (rule reach_facts [OF assms(1)])
  have ok: "rail_ok cs v s" using rail_reach_inv [OF assms] by (simp add: rail_inv_def)
  show ?thesis
    using facts_okD(4,5) [OF f] rail_okD(4) [OF ok] unfolding bound_instance_def bound_split_def split_inv_def by blast
qed

theorem recipients_bound_witness:
  "\<exists>(s :: inner) i. vr_instances s ex_addr = Some i \<and> ex_addr = derive_address (mi_seed_instance i) \<and> mi_bp_total i = 100"
proof -
  obtain s i where s: "rail_reach toy_suite id 1503 1703 s" "vr_instances s ex_addr = Some i" "mi_bp_total i = 100"
    by (rule ex_history)
  have "ex_addr = derive_address (mi_seed_instance i)"
    using recipients_bound [OF s(1)] s(2) by simp
  then show ?thesis using s(2,3) by blast
qed

section \<open>Entries and advances\<close>

text \<open>A purchase on the rail has one outcome: a funded entry keeps its amount, nonce, refund address and
  windows under all later calls; only an undecided entry changes state, to an open reclaim or to a
  decision, and a decision (attested, cancelled, reclaimed, lapsed) never changes.\<close>

theorem purchase_outcome_final:
  assumes "rail_reach cs nfc m v s" "vr_instances s a = Some i" "mi_entries i eid = Some e" "rail_after cs nfc s u"
  shows "\<exists>j st. vr_instances u a = Some j \<and> mi_entries j eid = Some (e\<lparr>re_state := st\<rparr>) \<and>
    (st = re_state e \<or> re_state e = rail_state.Funded \<or>
     (\<exists>t. re_state e = rail_state.ReclaimOpen t) \<and> st \<in> {rail_state.Attested, rail_state.Cancelled, rail_state.Reclaimed})"
proof -
  obtain j where j: "vr_instances u a = Some j" "grows i j"
    using reach_later [OF assms(1,4)] assms(2) unfolding later_def by blast
  then obtain st where "mi_entries j eid = Some (e\<lparr>re_state := st\<rparr>)" "entry_next (re_state e) st"
    using assms(3) unfolding grows_def by blast
  then show ?thesis using j(1) by (cases "re_state e") (auto elim!: entry_next_from)
qed

theorem purchase_outcome_final_witness:
  "\<exists>u j st. rail_reach toy_suite id 1000 1000 u \<and> vr_instances u ex_addr = Some j \<and>
     mi_entries j (entry_id_purchase toy_suite ex_seed [1] 1000 10 2000000000 5) = Some
       \<lparr>re_nonce = [1], re_amount = 1000, re_refund_ptr = [8], re_t_open = 10, re_t_lapse = 2000000000, re_contest = 5, re_state = st\<rparr>"
proof -
  let ?eid = "entry_id_purchase toy_suite ex_seed [1] 1000 10 2000000000 5"
  let ?e = "\<lparr>re_nonce = [1], re_amount = 1000, re_refund_ptr = [8], re_t_open = 10, re_t_lapse = 2000000000, re_contest = 5,
    re_state = rail_state.Funded\<rparr>"
  let ?calls = "[DeployInstance ex_seed ex_inputs, FundEntry ex_addr [1] 1000 [8] 10 2000000000 5 [117]]"
  have "\<exists>s i. run_calls toy_suite id ?calls (0, 0, inner_new 5) = Inr (1000, 1000, s) \<and> vr_instances s ex_addr = Some i \<and>
      mi_entries i ?eid = Some ?e \<and> vr_next_ref s = 1"
    unfolding run_calls.simps ex_deploy
    by (simp add: ex_eval fund_entry_def instance_fund_entry_def del: and_then_Inr)
  then obtain s i where s: "run_calls toy_suite id ?calls (0, 0, inner_new 5) = Inr (1000, 1000, s)"
      "vr_instances s ex_addr = Some i" "mi_entries i ?eid = Some ?e" "vr_next_ref s = 1" by blast
  have r: "rail_reach toy_suite id 1000 1000 s" using run_calls_reach [OF rail_reach.start s(1)] by blast
  have x: "rail_exec toy_suite id (SetOutage True) s = Inr (set_outage True s)" by simp
  have "rail_reach toy_suite id 1000 1000 (set_outage True s)"
    using rail_reach.call [OF r _ x] s(4) by simp
  with purchase_outcome_final [OF r s(2,3) exec_after [OF x]] show ?thesis by fastforce
qed

text \<open>An advance of a channel's watermark, at an instance with weights, succeeds from every reachable state, takes exactly the
  rise to the target and pays each destination the difference of its two floors over the cumulative
  amount, so retries and stale targets pay nothing; restoring the snapshot undoes it exactly.\<close>

theorem advance_divides_exactly:
  assumes "rail_reach cs nfc m v s" "v < 2 ^ 128" "vr_instances s a = Some i" "0 < mi_bp_total i"
  shows "\<exists>f delta out j. instance_advance_channel_meed c target i = Inr (f, delta, out, j) \<and>
    unat f = max (unat target) (funded_of i c) \<and> unat delta = unat f - funded_of i c \<and>
    (\<forall>d. payouts_to d out = (\<Sum>r\<leftarrow>mi_meed i. if ms_dest r = d
       then unat f * unat (ms_bp r) div mi_bp_total i - funded_of i c * unat (ms_bp r) div mi_bp_total i else 0)) \<and>
    restore_watermark c (watermark_snapshot c i) j = i"
proof -
  have inv: "instance_inv cs i" using rail_reach_inv [OF assms(1,2)] rail_okD(6) assms(3) by (auto simp: rail_inv_def)
  obtain f delta out j where a: "instance_advance_channel_meed c target i = Inr (f, delta, out, j)"
      "unat delta = unat target - funded_of i c" "unat f = max (unat target) (funded_of i c)"
      "\<forall>d. payouts_to d out = gain (mi_bp_total i) (mi_meed i) (funded_of i c) (unat f) d"
    using advance_moves [OF inv assms(4)] by blast
  have "j = i \<or> (\<exists>w. j = i\<lparr>mi_channel_paid := (mi_channel_paid i)(c \<mapsto> w)\<rparr>)"
    using a(1) by (auto simp: instance_advance_channel_meed_def Let_def case_prod_beta split: if_splits)
  then have "restore_watermark c (watermark_snapshot c i) j = i"
    by (cases "mi_channel_paid i c") (auto simp: restore_watermark_def watermark_snapshot_def fun_upd_idem)
  then show ?thesis using a unfolding gain_def by (intro exI conjI) auto
qed

theorem advance_divides_exactly_witness:
  "\<exists>i f delta out j. instance_advance_channel_meed [1] 250 i = Inr (f, delta, out, j) \<and> unat f = 250 \<and> unat delta = 50 \<and>
     payouts_to [97] out = 30"
proof -
  obtain s i where s: "rail_reach toy_suite id 1503 1703 s" "vr_instances s ex_addr = Some i"
      "instance_channel_funded_p [1] i = 200" "mi_meed i = mi_meed ex_instance" "mi_bp_total i = 100"
    by (rule ex_history)
  obtain f delta out j where "instance_advance_channel_meed [1] 250 i = Inr (f, delta, out, j)"
      "unat f = max (unat (250 :: u128)) (funded_of i [1])" "unat delta = unat f - funded_of i [1]"
      "payouts_to [97] out = (\<Sum>r\<leftarrow>mi_meed i. if ms_dest r = [97]
         then unat f * unat (ms_bp r) div mi_bp_total i - funded_of i [1] * unat (ms_bp r) div mi_bp_total i else 0)"
    using advance_divides_exactly [OF s(1) _ s(2), of "[1]" 250] s(5) by auto
  then show ?thesis using s(3-5) by (intro exI [of _ i] exI [of _ f] exI [of _ delta] exI [of _ out] exI [of _ j])
    (auto simp: funded_of_def ex_instance_def)
qed

end
