(* ===== verification/Rail_Link.thy ===== *)
theory Rail_Link
  imports Rail_Facts Contract_Link
begin

text \<open>
  The off-chain instance against the on-chain kit: the same division of a cumulative target per
  destination, and the same machine for an entry, up to the time check of the signed transitions.
\<close>

section \<open>Folding by destination\<close>

definition weight_to :: "bytes \<Rightarrow> meed_share list \<Rightarrow> nat" where
  "weight_to d rs = sum_list (map (\<lambda>r. if ms_dest r = d then weight r else 0) rs)"

lemma weight_to_simps [simp]:
  "weight_to d [] = 0" "weight_to d (r # rs) = (if ms_dest r = d then weight r else 0) + weight_to d rs"
  by (simp_all add: weight_to_def)

lemma fold_share_weight_to:
  "sum_list (map weight agg) + weight r < 2 ^ 16 \<Longrightarrow>
   weight_to d (fold_share agg r) = weight_to d agg + (if ms_dest r = d then weight r else 0)"
  by (induction agg) (auto simp: unat_sat_add)

lemma fold_shares_exact:
  "sum_list (map weight agg) + sum_list (map weight rs) < 2 ^ 16 \<Longrightarrow> distinct (map ms_dest agg) \<Longrightarrow>
   distinct (map ms_dest (foldl fold_share agg rs)) \<and>
   sum_list (map weight (foldl fold_share agg rs)) = sum_list (map weight agg) + sum_list (map weight rs) \<and>
   weight_to d (foldl fold_share agg rs) = weight_to d agg + weight_to d rs"
proof (induction rs arbitrary: agg)
  case (Cons r rs)
  have s: "sum_list (map weight (fold_share agg r)) = sum_list (map weight agg) + weight r"
    using Cons.prems(1) by (intro fold_share_sum) simp
  have "distinct (map ms_dest (fold_share agg r))" using fold_share_dests [OF Cons.prems(2)] by blast
  then show ?case using Cons.IH [of "fold_share agg r"] Cons.prems(1) s fold_share_weight_to [of agg r d] by simp
qed simp

lemma dest_absent: "d \<notin> ms_dest ` set rs \<Longrightarrow> sum_list (map (\<lambda>r. if ms_dest r = d then f (weight r) else 0) rs) = (0 :: nat)"
  by (induction rs) auto

lemma distinct_dest_sum:
  assumes "f 0 = (0 :: nat)" "distinct (map ms_dest rs)"
  shows "sum_list (map (\<lambda>r. if ms_dest r = d then f (weight r) else 0) rs) = f (weight_to d rs)"
  using assms(2)
proof (induction rs)
  case (Cons r rs)
  show ?case
  proof (cases "ms_dest r = d")
    case True
    then have no: "d \<notin> ms_dest ` set rs" using Cons.prems by auto
    have "weight_to d rs = 0" using dest_absent [OF no, of "\<lambda>n. n"] by (simp add: weight_to_def)
    then show ?thesis using True dest_absent [OF no, of f] by simp
  next
    case False
    then show ?thesis using Cons by simp
  qed
qed (simp add: assms)

section \<open>The instance of the kit's schema\<close>

definition schema_shares :: "bytes list \<Rightarrow> meed_share list" where
  "schema_shares dests = map (\<lambda>(d, b). \<lparr>ms_dest = d, ms_bp = ucast b\<rparr>) (zip dests SCHEMA_01_BP)"

lemma schema_shares4:
  assumes "length ds = 4"
  shows "sum_list (map weight (schema_shares ds)) = 100" "weight_to d (schema_shares ds) = dest_weight ds SCHEMA_01_BP d"
    "\<exists>r \<in> set (schema_shares ds). ms_bp r \<noteq> 0"
proof -
  obtain a b c e where ds: "ds = [a, b, c, e]" using assms by (auto simp: numeral_eq_Suc length_Suc_conv)
  show "sum_list (map weight (schema_shares ds)) = 100" "weight_to d (schema_shares ds) = dest_weight ds SCHEMA_01_BP d"
    "\<exists>r \<in> set (schema_shares ds). ms_bp r \<noteq> 0"
    by (simp_all add: ds schema_shares_def SCHEMA_01_BP_def dest_weight_def upt_rec)
qed

lemma schema_instance:
  fixes mk seed :: bytes
  assumes "length ds = 4"
  defines "i \<equiv> instance_new mk (schema_shares ds) seed"
  shows "instance_inv cs i" "mi_bp_total i = 100" "distinct (map ms_dest (mi_meed i))"
    "weight_to d (mi_meed i) = dest_weight ds SCHEMA_01_BP d" "mi_channel_paid i = Map.empty"
proof -
  show "instance_inv cs i" unfolding i_def by (rule instance_new_inv(1))
  note f = fold_shares_exact [of "[]" "schema_shares ds" d]
  show "mi_bp_total i = 100" "distinct (map ms_dest (mi_meed i))" "weight_to d (mi_meed i) = dest_weight ds SCHEMA_01_BP d"
    "mi_channel_paid i = Map.empty"
    using f schema_shares4(1,2) [OF assms(1)] by (simp_all add: i_def instance_new_def Let_def)
qed

lemma gain_by_dest:
  "distinct (map ms_dest rs) \<Longrightarrow> gain tot rs 0 v d = v * weight_to d rs div tot"
  using distinct_dest_sum [of "\<lambda>w. v * w div tot" rs d] by (simp add: gain_def cong: if_cong)

section \<open>Entries\<close>

fun state_matches :: "rail_state \<Rightarrow> kit_entry \<Rightarrow> bool" where
  "state_matches rail_state.Funded k \<longleftrightarrow> en_state k = entry_state.Funded"
| "state_matches rail_state.Attested k \<longleftrightarrow> en_state k = entry_state.Attested"
| "state_matches rail_state.Cancelled k \<longleftrightarrow> en_state k = entry_state.Cancelled"
| "state_matches (rail_state.ReclaimOpen t) k \<longleftrightarrow> en_state k = entry_state.ReclaimOpen \<and> en_opened_at k = t"
| "state_matches rail_state.Reclaimed k \<longleftrightarrow> en_state k = entry_state.Reclaimed"
| "state_matches rail_state.Lapsed k \<longleftrightarrow> en_state k = entry_state.Lapsed"

definition entry_matches :: "rail_entry \<Rightarrow> kit_entry \<Rightarrow> bool" where
  "entry_matches e k \<longleftrightarrow> re_nonce e = en_nonce k \<and> re_amount e = en_amount k \<and> re_t_open e = en_t_open k \<and>
     re_t_lapse e = en_t_lapse k \<and> re_contest e = en_contest k \<and> state_matches (re_state e) k"

text \<open>Both machines refuse, or both go on to entries that match again.\<close>

definition both :: "bytes \<Rightarrow> ('a \<times> meed_instance) rail \<Rightarrow> kit_entry tx \<Rightarrow> bool" where
  "both eid m n \<longleftrightarrow> (case (m, n) of
     (Inr (x, j), Inr k) \<Rightarrow> \<exists>e. mi_entries j eid = Some e \<and> entry_matches e k
   | (Inl _, Inl _) \<Rightarrow> True | _ \<Rightarrow> False)"

lemma set_state_matches:
  "entry_matches e k \<Longrightarrow> state_matches st (k\<lparr>en_state := st', en_opened_at := t\<rparr>) \<Longrightarrow>
   entry_matches (e\<lparr>re_state := st\<rparr>) (k\<lparr>en_state := st', en_opened_at := t\<rparr>)"
  by (simp add: entry_matches_def)

lemma kit_state_upd: "k\<lparr>en_state := st\<rparr> = k\<lparr>en_state := st, en_opened_at := en_opened_at k\<rparr>"
  by simp

lemma distribute_entries: "instance_distribute a i = Inr (out, j) \<Longrightarrow> mi_entries j = mi_entries i"
  by (auto simp: instance_distribute_def Let_def split: if_splits)

lemma open_both:
  assumes "mi_entries i eid = Some e" "entry_matches e k"
  shows "both eid (and_then (instance_open_reclaim eid now i) (\<lambda>j. Inr ((), j))) (Contract_Kit.open_reclaim now k)"
  using assms
  by (cases "re_state e")
    (auto simp: both_def instance_open_reclaim_def Contract_Kit.open_reclaim_def entry_matches_def ensure_def not_less)

lemma execute_both:
  assumes "mi_entries i eid = Some e" "entry_matches e k"
  shows "both eid (instance_execute_reclaim eid now i) (Contract_Kit.execute_reclaim now k)"
  using assms
  by (cases "re_state e")
    (auto simp: both_def instance_execute_reclaim_def Contract_Kit.execute_reclaim_def entry_matches_def ensure_def not_le)

lemma lapse_both:
  assumes "instance_inv cs i" "volume i < 2 ^ 128" "mi_entries i eid = Some e" "entry_matches e k"
  shows "both eid (instance_claim_lapsed eid now i) (lapse now k)"
proof (cases "re_state e = rail_state.Funded \<and> re_t_lapse e < now")
  case True
  then have "live e = unat (re_amount e)" by (simp add: live_def)
  then obtain out j where d: "instance_distribute (re_amount e) (set_state eid e rail_state.Lapsed i) = Inr (out, j)"
    using close_distribute [OF assms(1,2,3), of rail_state.Lapsed] by auto
  show ?thesis using True assms(3,4) d distribute_entries [OF d]
    by (auto simp: both_def instance_claim_lapsed_def lapse_def entry_matches_def not_le)
next
  case False
  then show ?thesis using assms(3,4)
    by (cases "re_state e") (auto simp: both_def instance_claim_lapsed_def lapse_def entry_matches_def ensure_def not_less)
qed

text \<open>The signed transitions. Both check the merchant's signature over the identifier; what is left is the
  guard on the state.\<close>

lemma cancel_accepted:
  assumes "mi_entries i eid = Some e" "entry_matches e k" "check_sig cs i e eid sg Cancellation = Inr ()"
    "merchant_action inst k signer = Inr ()"
  shows "both eid (instance_cancel cs eid sg i) (cancel inst signer now k)
    \<longleftrightarrow> \<not> (re_state e = rail_state.Funded \<and> re_t_lapse e < now)"
  using assms
  by (cases "re_state e")
    (auto simp: both_def instance_cancel_def cancel_def guard_active_def ensure_open_def entry_matches_def ensure_def not_le)

lemma attest_accepted:
  assumes "instance_inv cs i" "volume i < 2 ^ 128"
    "mi_entries i eid = Some e" "entry_matches e k" "check_sig cs i e eid sg Attestation = Inr ()"
    "merchant_action inst k signer = Inr ()"
  shows "both eid (instance_attest cs eid sg i) (attest inst signer now k)
    \<longleftrightarrow> \<not> (re_state e = rail_state.Funded \<and> re_t_lapse e < now)"
proof (cases "ensure_open e")
  case (Inl x)
  then show ?thesis using assms(3-6)
    by (cases "re_state e") (auto simp: both_def instance_attest_def attest_def guard_active_def ensure_open_def entry_matches_def)
next
  case (Inr u)
  then obtain out j where d: "instance_distribute (re_amount e) (set_state eid e rail_state.Attested i) = Inr (out, j)"
    using close_distribute [OF assms(1,2,3) ensure_open_live, of rail_state.Attested] by auto
  show ?thesis using assms(3-6) Inr d distribute_entries [OF d]
    by (cases "re_state e")
      (auto simp: both_def instance_attest_def attest_def guard_active_def ensure_open_def entry_matches_def ensure_def not_le)
qed

end
