(* ===== verification/Props_Link.thy ===== *)
theory Props_Link
  imports Rail_Link Example_Parameters
begin

text \<open>
  The reference rail against the on-chain kit: both divide a channel's cumulative target alike, and both run
  the same machine for a purchase, except that the reference instance accepts a late signature.
\<close>

lemma sum_by_key:
  "finite D \<Longrightarrow> key ` set xs \<subseteq> D \<Longrightarrow> (\<Sum>d\<in>D. \<Sum>x\<leftarrow>xs. if key x = d then f x else 0) = (\<Sum>x\<leftarrow>xs. f x :: nat)"
  by (induction xs) (simp_all add: sum.distrib)

text \<open>C38. The reference rail and the contract pay the same: for four destinations under the kit's schema, an
  advance of a fresh channel to any positive target succeeds on both, and each destination receives from
  the reference instance exactly what the contract's slots of that destination record, with the same
  residue, whichever destinations coincide.\<close>

theorem rail_pays_as_contract:
  assumes "instance_ok inst" "0 < t"
  shows "\<exists>delta out j cr.
    instance_advance_channel_meed c t (instance_new mk (schema_shares (in_dests inst)) seed) = Inr (t, delta, out, j) \<and>
    Contract_Kit.advance_channel_meed pda inst c t None = Inr (Some cr, [CreateDataAccount (pda [ascii ''chanmeed'', in_seed inst, c])]) \<and>
    (\<forall>d. payouts_to d out = (\<Sum>k\<leftarrow>[0..<4]. if in_dests inst ! k = d then unat (cm_paid cr ! k) else 0)) \<and>
    instance_channel_residue c j = cm_residue cr"
proof -
  let ?ds = "in_dests inst" and ?i = "instance_new mk (schema_shares (in_dests inst)) seed"
  have len: "length ?ds = 4" using assms(1) by (simp add: instance_ok_def)
  note si = schema_instance [OF len]
  have pos: "0 < mi_bp_total ?i" using si(2) by simp
  have f0: "funded_of ?i c = 0" by (simp add: funded_of_def instance_channel_funded_p_def si(5))
  obtain f delta out j where a: "instance_advance_channel_meed c t ?i = Inr (f, delta, out, j)" "moves toy_suite ?i (unat delta) out j"
      "unat f = max (unat t) (funded_of ?i c)" "\<forall>d. payouts_to d out = gain (mi_bp_total ?i) (mi_meed ?i) (funded_of ?i c) (unat f) d"
      "funded_of j c = unat f"
    using advance_moves [OF si(1) [where cs = toy_suite] pos, where c = c and target = t] by blast
  have f: "f = t" using a(3) f0 by (simp add: word_unat_eq_iff)
  have pos: "unat t \<noteq> 0" using assms(2) by (simp add: unat_eq_0 word_gt_0)
  let ?cr = "watermark inst c (unat t)"
  have k: "Contract_Kit.advance_channel_meed pda inst c t None
      = Inr (Some ?cr, [CreateDataAccount (pda [ascii ''chanmeed'', in_seed inst, c])])"
    using advance_exact [OF len, of 0 pda c t] pos by (simp add: watermark_account_def unat_eq_0)
  have small: "\<forall>s \<in> set (slot_shares ?ds (unat t)). s < 2 ^ 128"
    by (rule slot_shares_small [OF len]) (use unat_lt2p [of t] in simp)
  have slot: "unat (cm_paid ?cr ! n) = unat t * (slot_weights ?ds SCHEMA_01_BP ! n) div 100" if "n < 4" for n
    using that small len by (simp add: watermark_def slot_shares_def unat_of_nat_small slot_weights_def)
  have pays: "payouts_to d out = (\<Sum>n\<leftarrow>[0..<4]. if ?ds ! n = d then unat (cm_paid ?cr ! n) else 0)" for d
  proof -
    have "payouts_to d out = unat t * dest_weight ?ds SCHEMA_01_BP d div 100"
      using a(4) f f0 gain_by_dest [OF si(3)] si(2,4) by simp
    also have "\<dots> = (\<Sum>n\<leftarrow>[0..<4]. if ?ds ! n = d then unat t * (slot_weights ?ds SCHEMA_01_BP ! n) div 100 else 0)"
      using slot_share_sum [of "\<lambda>w. unat t * w div 100" ?ds d SCHEMA_01_BP] len by simp
    also have "\<dots> = (\<Sum>n\<leftarrow>[0..<4]. if ?ds ! n = d then unat (cm_paid ?cr ! n) else 0)"
      by (rule arg_cong [of _ _ sum_list], rule map_cong [OF refl]) (use slot in auto)
    finally show ?thesis .
  qed
  have "sum_list (floors (mi_bp_total ?i) (mi_meed ?i) (unat t)) = sum_list (slot_shares ?ds (unat t))"
  proof -
    let ?D = "ms_dest ` set (mi_meed ?i) \<union> set ?ds"
    have "sum_list (floors (mi_bp_total ?i) (mi_meed ?i) (unat t)) = (\<Sum>d\<in>?D. gain (mi_bp_total ?i) (mi_meed ?i) 0 (unat t) d)"
      unfolding gain_def floors_def using sum_by_key [of ?D ms_dest "mi_meed ?i" "\<lambda>r. unat t * weight r div mi_bp_total ?i"]
      by (simp cong: if_cong)
    also have "\<dots> = (\<Sum>d\<in>?D. \<Sum>n\<leftarrow>[0..<4]. if ?ds ! n = d then unat (cm_paid ?cr ! n) else 0)"
      using pays a(4) f f0 by simp
    also have "\<dots> = (\<Sum>n\<leftarrow>[0..<4]. unat (cm_paid ?cr ! n))"
      by (rule sum_by_key) (use len in auto)
    also have "\<dots> = sum_list (slot_shares ?ds (unat t))"
      using slot len by (simp add: slot_shares_def slot_weights_def upt_rec)
    finally show ?thesis .
  qed
  moreover obtain w where w: "mi_channel_paid j c = Some w" "cw_funded_p w = t"
    using a(5) f pos by (auto simp: funded_of_def instance_channel_funded_p_def word_unat_eq_iff split: option.splits)
  moreover have "watermark_exact j w" "mi_meed j = mi_meed ?i" "mi_bp_total j = mi_bp_total ?i"
    using a(2) instance_inv_parts(3) w(1) by (auto simp: shifts_def same_instance_def)
  ultimately have "unat (cw_residue w) + sum_list (slot_shares ?ds (unat t)) = unat t"
    unfolding watermark_exact_def by (elim conjE) simp
  then have "cw_residue w = word_of_nat (unat t - sum_list (slot_shares ?ds (unat t)))"
    by (metis add_diff_cancel_right' unat_of_nat_small unat_lt2p word_unat_eq_iff)
  then have "instance_channel_residue c j = cm_residue ?cr"
    using w(1) by (simp add: instance_channel_residue_def watermark_def)
  then show ?thesis using a(1) f k pays by blast
qed

theorem rail_pays_as_contract_witness:
  "\<exists>delta out j (cr :: channel_meed). instance_advance_channel_meed [1] 1003 (instance_new [6] (schema_shares [[1], [2], [1], [3]]) [5]) = Inr (1003, delta, out, j) \<and>
     instance_channel_residue [1] j = cm_residue cr \<and> payouts_to [2] out = unat (cm_paid cr ! 1)"
proof -
  let ?inst = "\<lparr>in_seed = [5], in_merchant_key = [6], in_dests = [[1], [2], [1], [3]], in_mint = [7]\<rparr> :: kit_instance"
  have "instance_ok ?inst" "0 < (1003 :: u128)" by (simp_all add: instance_ok_def)
  note pays = rail_pays_as_contract [OF this, of "[1]" "[6]" "[5]" toy_pda]
  obtain delta out j and cr :: channel_meed where r: "instance_advance_channel_meed [1] 1003 (instance_new [6] (schema_shares (in_dests ?inst)) [5]) = Inr (1003, delta, out, j)"
      "\<forall>d. payouts_to d out = (\<Sum>k\<leftarrow>[0..<4]. if in_dests ?inst ! k = d then unat (cm_paid cr ! k) else 0)"
      "instance_channel_residue [1] j = cm_residue cr"
    using pays by blast
  then show ?thesis by (intro exI [of _ delta] exI [of _ out] exI [of _ j] exI [of _ cr]) (simp add: upt_rec)
qed

text \<open>C39. The two entry machines agree step for step: on matching entries, opening a reclaim, executing it and
  lapsing succeed on the reference instance exactly when they do on the contract, with matching results;
  an authorized attestation or cancellation does too, except in one case: a funded entry past its lapse
  time, which the contract treats as lapsed and the reference instance still attests or refunds.\<close>

theorem entry_machines_agree:
  assumes "instance_inv cs i" "volume i < 2 ^ 128" "mi_entries i eid = Some e" "entry_matches e k"
    "merchant_action inst k signer = Inr ()"
  shows "both eid (and_then (instance_open_reclaim eid now i) (\<lambda>j. Inr ((), j))) (Contract_Kit.open_reclaim now k) \<and>
    both eid (instance_execute_reclaim eid now i) (Contract_Kit.execute_reclaim now k) \<and>
    both eid (instance_claim_lapsed eid now i) (lapse now k) \<and>
    (check_sig cs i e eid sg Attestation = Inr () \<longrightarrow>
       (both eid (instance_attest cs eid sg i) (attest inst signer now k) \<longleftrightarrow> \<not> (re_state e = rail_state.Funded \<and> re_t_lapse e < now))) \<and>
    (check_sig cs i e eid sg Cancellation = Inr () \<longrightarrow>
       (both eid (instance_cancel cs eid sg i) (cancel inst signer now k) \<longleftrightarrow> \<not> (re_state e = rail_state.Funded \<and> re_t_lapse e < now)))"
  using open_both [OF assms(3,4), of now] execute_both [OF assms(3,4), of now] lapse_both [OF assms(1-4), of now]
    attest_accepted [OF assms(1-4) _ assms(5)] cancel_accepted [OF assms(3,4) _ assms(5)] by blast

definition ex_nonce :: bytes where "ex_nonce = replicate 32 1"

definition ex_eid :: bytes where "ex_eid = entry_id_purchase toy_suite [5] ex_nonce 1000 10 20 5"

definition ex_entry :: rail_entry where
  "ex_entry = \<lparr>re_nonce = ex_nonce, re_amount = 1000, re_refund_ptr = [8], re_t_open = 10, re_t_lapse = 20,
     re_contest = 5, re_state = rail_state.Funded\<rparr>"

definition ex_kit_entry :: kit_entry where
  "ex_kit_entry = \<lparr>en_seed = [5], en_nonce = ex_nonce, en_amount = 1000, en_t_open = 10, en_t_lapse = 20, en_contest = 5,
     en_opened_at = 0, en_state = entry_state.Funded, en_distributed = False, en_refund_account = [8]\<rparr>"

definition ex_signed :: signed where
  "ex_signed = \<lparr>sg_kind = Cancellation, sg_nonce = ex_nonce, sg_entry_id = ex_eid, sg_sig = replicate 64 0\<rparr>"

text \<open>The late cancellation of the example: refunded off chain, refused on chain.\<close>

theorem entry_machines_agree_witness:
  "\<exists>i. mi_entries i ex_eid = Some ex_entry \<and>
     both ex_eid (instance_claim_lapsed ex_eid 21 i) (lapse 21 ex_kit_entry) \<and>
     \<not> both ex_eid (instance_cancel toy_suite ex_eid ex_signed i)
       (cancel \<lparr>in_seed = [5], in_merchant_key = [6], in_dests = [], in_mint = []\<rparr> [6] 21 ex_kit_entry)"
proof -
  let ?i = "instance_new [6] [\<lparr>ms_dest = [1], ms_bp = 1\<rparr>] [5]"
  have new: "instance_inv toy_suite ?i" "volume ?i = 0" by (rule instance_new_inv)+
  have "\<exists>j. instance_fund_entry toy_suite ex_nonce 1000 [8] 10 20 5 3 ?i = Inr (ex_eid, j) \<and> mi_entries j ex_eid = Some ex_entry
      \<and> mi_merchant_key j = [6]"
    by (simp add: instance_fund_entry_def instance_new_def Let_def ex_eid_def ex_entry_def)
  then obtain j where j: "instance_fund_entry toy_suite ex_nonce 1000 [8] 10 20 5 3 ?i = Inr (ex_eid, j)"
      "mi_entries j ex_eid = Some ex_entry" "mi_merchant_key j = [6]" by blast
  have m: "moves toy_suite ?i (unat (1000 :: u128)) [] j" using fund_entry_moves [OF _ j(1)] new(1) by simp
  have "instance_inv toy_suite j" "volume j < 2 ^ 128" using m new(2) by (simp_all add: shifts_def)
  moreover have "entry_matches ex_entry ex_kit_entry" by (simp add: entry_matches_def ex_entry_def ex_kit_entry_def)
  moreover have "merchant_action \<lparr>in_seed = [5], in_merchant_key = [6], in_dests = [], in_mint = []\<rparr> ex_kit_entry [6] = Inr ()"
    by (simp add: merchant_action_def ex_kit_entry_def)
  moreover have "check_sig toy_suite j ex_entry ex_eid ex_signed Cancellation = Inr ()"
    by (simp add: check_sig_def ex_signed_def ex_entry_def signed_verify_def toy_suite_def)
  ultimately have "both ex_eid (instance_claim_lapsed ex_eid 21 j) (lapse 21 ex_kit_entry) \<and>
     \<not> both ex_eid (instance_cancel toy_suite ex_eid ex_signed j)
       (cancel \<lparr>in_seed = [5], in_merchant_key = [6], in_dests = [], in_mint = []\<rparr> [6] 21 ex_kit_entry)"
    using entry_machines_agree [OF _ _ j(2), of toy_suite ex_kit_entry _ "[6]" 21 ex_signed]
    by (simp add: ex_entry_def)
  then show ?thesis using j(2) by blast
qed

end
