(* ===== verification/One_Decision.thy ===== *)
theory One_Decision
  imports Paytp_Prelude
begin

text \<open>
  The merchant's exactly-once record, \<^verbatim>\<open>crates/paytp-merchant/src/one_decision.rs\<close>: the interface of a
  decision store, the in-memory store and the write-ahead log with its replay. What the disk does is an
  argument of the operations: how much of an append reaches the file, which calls report an error, and
  what follows the synced bytes after a crash. A sync that succeeds makes the whole file durable; nothing else
  does, so what an opening replays is durable only from the next sync on.
\<close>

section \<open>The interface\<close>

datatype decision = Fresh | AlreadyDecided bytes | Failed

text \<open>\<open>decide e k v s\<close> claims a key in the environment \<open>e\<close>; \<open>view\<close> is what \<open>get\<close> and \<open>entries\<close> show. A failed
  claim changes nothing, a fresh one records exactly its pair, and a recorded key stays recorded.\<close>

locale one_decision =
  fixes decide :: "'e \<Rightarrow> bytes \<Rightarrow> bytes \<Rightarrow> 's \<Rightarrow> decision \<times> 's"
    and view :: "'s \<Rightarrow> bytes \<rightharpoonup> bytes"
    and inv :: "'s \<Rightarrow> bool"
    and small :: "bytes \<Rightarrow> bool"
  assumes decide_inv: "inv s \<Longrightarrow> small k \<Longrightarrow> small v \<Longrightarrow> inv (snd (decide e k v s))"
    and decide_fresh: "inv s \<Longrightarrow> decide e k v s = (Fresh, t) \<Longrightarrow> view s k = None \<and> view t = (view s)(k \<mapsto> v)"
    and decide_again: "inv s \<Longrightarrow> decide e k v s = (AlreadyDecided w, t) \<Longrightarrow> view s k = Some w \<and> view t = view s"
    and decide_failed: "inv s \<Longrightarrow> decide e k v s = (Failed, t) \<Longrightarrow> view t = view s"
begin

lemma decide_grows:
  assumes i: "inv s" and d: "decide e k v s = (d, t)"
  shows "view s \<subseteq>\<^sub>m view t"
proof (cases d)
  case Fresh
  then have "view s k = None \<and> view t = (view s)(k \<mapsto> v)" using d by (intro decide_fresh [OF i]) simp
  then show ?thesis by (auto simp: map_le_def dom_def)
next
  case (AlreadyDecided w)
  then have "view t = view s" using decide_again [OF i] d by blast
  then show ?thesis by simp
next
  case Failed
  then have "view t = view s" using decide_failed [OF i] d by blast
  then show ?thesis by simp
qed

lemma decided_for_good:
  assumes i: "inv s" and v: "view s k = Some w" and d: "decide e k x s = (d, t)"
  shows "d = AlreadyDecided w \<or> d = Failed"
proof (cases d)
  case Fresh
  then have "view s k = None" using decide_fresh [OF i] d by blast
  then show ?thesis using v by simp
next
  case (AlreadyDecided u)
  then have "view s k = Some u" using decide_again [OF i] d by blast
  then show ?thesis using v AlreadyDecided by simp
qed simp

end

text \<open>A durable store comes back from any crash with everything it keeps: \<open>kept\<close> is what is on the disk for good.
  It may show more than it keeps, until a fresh claim makes it keep all it shows.\<close>

locale durable_decision = one_decision decide view inv small
  for decide :: "'e \<Rightarrow> bytes \<Rightarrow> bytes \<Rightarrow> 's \<Rightarrow> decision \<times> 's"
    and view :: "'s \<Rightarrow> bytes \<rightharpoonup> bytes" and inv :: "'s \<Rightarrow> bool" and small :: "bytes \<Rightarrow> bool" +
  fixes restart :: "'c \<Rightarrow> 's \<Rightarrow> 's" and kept :: "'s \<Rightarrow> bytes \<rightharpoonup> bytes"
  assumes restart_inv: "inv s \<Longrightarrow> inv (restart c s)"
    and restart_kept: "inv s \<Longrightarrow> kept (restart c s) = kept s"
    and kept_shown: "inv s \<Longrightarrow> kept s \<subseteq>\<^sub>m view s"
    and fresh_kept: "inv s \<Longrightarrow> small k \<Longrightarrow> small v \<Longrightarrow> decide e k v s = (Fresh, t) \<Longrightarrow> kept t = view t"
    and other_kept: "inv s \<Longrightarrow> decide e k v s = (d, t) \<Longrightarrow> d \<noteq> Fresh \<Longrightarrow> kept t = kept s"

text \<open>A history of claims and restarts, with the answers.\<close>

datatype ('e, 'c) store_event = Claim 'e bytes bytes | Restart 'c

fun run_store ::
  "('e \<Rightarrow> bytes \<Rightarrow> bytes \<Rightarrow> 's \<Rightarrow> decision \<times> 's) \<Rightarrow> ('c \<Rightarrow> 's \<Rightarrow> 's) \<Rightarrow> ('e, 'c) store_event list \<Rightarrow> 's \<Rightarrow>
   (bytes \<times> decision) list \<times> 's" where
  "run_store decide restart [] s = ([], s)"
| "run_store decide restart (Claim e k v # evs) s =
     (let (d, s') = decide e k v s; (out, t) = run_store decide restart evs s' in ((k, d) # out, t))"
| "run_store decide restart (Restart c # evs) s = run_store decide restart evs (restart c s)"

definition small_events :: "(bytes \<Rightarrow> bool) \<Rightarrow> ('e, 'c) store_event list \<Rightarrow> bool" where
  "small_events small evs \<longleftrightarrow> (\<forall>e k v. Claim e k v \<in> set evs \<longrightarrow> small k \<and> small v)"

context durable_decision begin

lemma decide_keeps:
  assumes i: "inv s" and k: "small k" "small v" and d: "decide e k v s = (d, t)"
  shows "kept s \<subseteq>\<^sub>m kept t"
proof (cases "d = Fresh")
  case True
  then have "kept t = view t" using fresh_kept [OF i k] d by blast
  then show ?thesis using kept_shown [OF i] decide_grows [OF i d] by (metis map_le_trans)
next
  case False
  then show ?thesis using other_kept [OF i d] by simp
qed

lemma run_inv:
  "inv s \<Longrightarrow> small_events small evs \<Longrightarrow> run_store decide restart evs s = (out, t) \<Longrightarrow> inv t \<and> kept s \<subseteq>\<^sub>m kept t"
proof (induction evs arbitrary: s out)
  case (Cons ev evs)
  have se: "small_events small evs" using Cons.prems(2) by (simp add: small_events_def)
  show ?case
  proof (cases ev)
    case (Claim e k v)
    obtain d s' where d: "decide e k v s = (d, s')" by (cases "decide e k v s")
    obtain out' where r: "run_store decide restart evs s' = (out', t)"
      using Cons.prems(3) by (simp add: Claim d split: prod.splits)
    have k: "small k" "small v" using Cons.prems(2) by (auto simp: small_events_def Claim)
    then have i: "inv s'" using decide_inv [OF Cons.prems(1), of k v e] d by simp
    show ?thesis using Cons.IH [OF i se r] decide_keeps [OF Cons.prems(1) k d] by (blast intro: map_le_trans)
  next
    case (Restart c)
    then have r: "run_store decide restart evs (restart c s) = (out, t)" using Cons.prems(3) by simp
    show ?thesis using Cons.IH [OF restart_inv [OF Cons.prems(1)] se r] restart_kept [OF Cons.prems(1), of c] by simp
  qed
qed simp

lemma run_decided:
  "inv s \<Longrightarrow> small_events small evs \<Longrightarrow> kept s k = Some w \<Longrightarrow> run_store decide restart evs s = (out, t) \<Longrightarrow>
   (k, d) \<in> set out \<Longrightarrow> d = AlreadyDecided w \<or> d = Failed"
proof (induction evs arbitrary: s out)
  case (Cons ev evs)
  have se: "small_events small evs" using Cons.prems(2) by (simp add: small_events_def)
  show ?case
  proof (cases ev)
    case (Claim e k' v)
    obtain d' s' where d: "decide e k' v s = (d', s')" by (cases "decide e k' v s")
    obtain out' where r: "run_store decide restart evs s' = (out', t)" and o: "out = (k', d') # out'"
      using Cons.prems(4) by (auto simp: Claim d split: prod.splits)
    have sm: "small k'" "small v" using Cons.prems(2) by (auto simp: small_events_def Claim)
    then have i: "inv s'" using decide_inv [OF Cons.prems(1), of k' v e] d by simp
    have "kept s' k = Some w" using decide_keeps [OF Cons.prems(1) sm d] Cons.prems(3) by (metis domI map_le_def)
    moreover have "view s k = Some w" using kept_shown [OF Cons.prems(1)] Cons.prems(3) by (metis domI map_le_def)
    moreover have "(k, d) \<in> set out' \<or> k' = k \<and> d = d'" using o Cons.prems(5) by auto
    ultimately show ?thesis using Cons.IH [OF i se _ r] decided_for_good [OF Cons.prems(1), of k w e v d' s'] d by blast
  next
    case (Restart c)
    have "kept (restart c s) k = Some w" using restart_kept [OF Cons.prems(1), of c] Cons.prems(3) by simp
    then show ?thesis using Cons.IH [OF restart_inv [OF Cons.prems(1)] se] Cons.prems(4,5) Restart by simp
  qed
qed simp

lemma fresh_once:
  "inv s \<Longrightarrow> small_events small evs \<Longrightarrow> run_store decide restart evs s = (out, t) \<Longrightarrow>
   length (filter (\<lambda>x. x = (k, Fresh)) out) \<le> 1"
proof (induction evs arbitrary: s out)
  case (Cons ev evs)
  have se: "small_events small evs" using Cons.prems(2) by (simp add: small_events_def)
  show ?case
  proof (cases ev)
    case (Claim e k' v)
    obtain d' s' where d: "decide e k' v s = (d', s')" by (cases "decide e k' v s")
    obtain out' where r: "run_store decide restart evs s' = (out', t)" and o: "out = (k', d') # out'"
      using Cons.prems(3) by (auto simp: Claim d split: prod.splits)
    have sm: "small k'" "small v" using Cons.prems(2) by (auto simp: small_events_def Claim)
    then have i: "inv s'" using decide_inv [OF Cons.prems(1), of k' v e] d by simp
    show ?thesis
    proof (cases "k' = k \<and> d' = Fresh")
      case True
      then have "view s' k = Some v" using decide_fresh [OF Cons.prems(1)] d by auto
      then have "kept s' k = Some v" using fresh_kept [OF Cons.prems(1) sm] d True by metis
      then have "(k, Fresh) \<notin> set out'" using run_decided [OF i se _ r] by blast
      then show ?thesis using o True by (auto simp: filter_empty_conv)
    next
      case False
      then show ?thesis using Cons.IH [OF i se r] o by auto
    qed
  next
    case (Restart c)
    then show ?thesis using Cons.IH [OF restart_inv [OF Cons.prems(1)] se] Cons.prems(3) by simp
  qed
qed simp

end

section \<open>The in-memory store\<close>

type_synonym decision_map = "bytes \<rightharpoonup> bytes"

definition mem_decide :: "bytes \<Rightarrow> bytes \<Rightarrow> decision_map \<Rightarrow> decision \<times> decision_map" where
  "mem_decide k v m = (case m k of Some w \<Rightarrow> (AlreadyDecided w, m) | None \<Rightarrow> (Fresh, m(k \<mapsto> v)))"

definition mem_get :: "bytes \<Rightarrow> decision_map \<Rightarrow> bytes option" where
  "mem_get k m = m k"

interpretation mem: one_decision "\<lambda>_ :: unit. mem_decide" "\<lambda>m k. mem_get k m" "\<lambda>_. True" "\<lambda>_. True"
  by unfold_locales (auto simp: mem_decide_def mem_get_def split: option.splits)

section \<open>Replaying a log\<close>

definition read_field :: "bytes \<Rightarrow> nat \<Rightarrow> (bytes \<times> nat) option" where
  "read_field bs start =
     (let len_end = start + 4 in
      if length bs < len_end then None
      else
        let len = be_nat (take 4 (drop start bs));
            data_end = len_end + len in
        if length bs < data_end then None
        else Some (take len (drop len_end bs), data_end))"

text \<open>The loop of \<open>replay\<close>; that it ends on every byte string is a theorem.\<close>

partial_function (option) replay_loop ::
  "bytes \<Rightarrow> decision_map \<Rightarrow> nat \<Rightarrow> nat \<Rightarrow> (decision_map \<times> nat) option" where
  "replay_loop bs m start valid =
     (case read_field bs start of
        None \<Rightarrow> Some (m, valid)
      | Some (key, key_end) \<Rightarrow> (case read_field bs key_end of
          None \<Rightarrow> Some (m, valid)
        | Some (val, val_end) \<Rightarrow>
            replay_loop bs (if m key = None then m(key \<mapsto> val) else m) val_end val_end))"

definition replay :: "bytes \<Rightarrow> (decision_map \<times> nat) option" where
  "replay bs = replay_loop bs Map.empty 0 0"

section \<open>The write-ahead log\<close>

text \<open>The file as bytes and cursor, how much of it is known to be on the disk for good, and what the disk reports
  during one append.\<close>

record wal =
  wal_map :: decision_map
  wal_file :: bytes
  wal_pos :: nat
  wal_len :: nat
  wal_poisoned :: bool
  wal_synced :: nat

record append_io =
  io_write_ok :: bool
  io_written :: nat
  io_sync_ok :: bool
  io_set_len_ok :: bool
  io_seek_ok :: bool

definition write_at :: "nat \<Rightarrow> bytes \<Rightarrow> bytes \<Rightarrow> bytes" where
  "write_at pos data f = take pos (f @ replicate (pos - length f) 0) @ data @ drop (pos + length data) f"

definition set_len :: "nat \<Rightarrow> bytes \<Rightarrow> bytes" where
  "set_len n f = take n f @ replicate (n - length f) 0"

definition wal_record :: "bytes \<Rightarrow> bytes \<Rightarrow> bytes" where
  "wal_record k v = be_bytes 4 (length k mod 2 ^ 32) @ k @ be_bytes 4 (length v mod 2 ^ 32) @ v"

definition wal_open :: "bytes \<Rightarrow> wal option" where
  "wal_open bs =
     (case replay bs of None \<Rightarrow> None
      | Some (m, valid_len) \<Rightarrow>
          let f = (if valid_len \<noteq> length bs then set_len valid_len bs else bs) in
          Some \<lparr>wal_map = m, wal_file = f, wal_pos = valid_len, wal_len = valid_len, wal_poisoned = False, wal_synced = 0\<rparr>)"

definition wal_decide :: "append_io \<Rightarrow> bytes \<Rightarrow> bytes \<Rightarrow> wal \<Rightarrow> decision \<times> wal" where
  "wal_decide e k v w =
     (if wal_poisoned w then (Failed, w)
      else case wal_map w k of
        Some x \<Rightarrow> (AlreadyDecided x, w)
      | None \<Rightarrow>
          let rec = wal_record k v;
              n = (if io_write_ok e then length rec else min (io_written e) (length rec));
              w = w\<lparr>wal_file := write_at (wal_pos w) (take n rec) (wal_file w), wal_pos := wal_pos w + n\<rparr>
          in if \<not> (io_write_ok e \<and> io_sync_ok e) then
               let w = (if io_set_len_ok e then w\<lparr>wal_file := set_len (wal_len w) (wal_file w)\<rparr> else w);
                   w = (if io_seek_ok e then w\<lparr>wal_pos := wal_len w\<rparr> else w);
                   w = (if \<not> io_set_len_ok e \<or> \<not> io_seek_ok e then w\<lparr>wal_poisoned := True\<rparr> else w)
               in (Failed, w)
             else (Fresh, w\<lparr>wal_len := wal_len w + length rec, wal_map := (wal_map w)(k \<mapsto> v), wal_synced := length (wal_file w)\<rparr>))"

definition wal_get :: "bytes \<Rightarrow> wal \<Rightarrow> bytes option" where
  "wal_get k w = wal_map w k"

text \<open>A restart after a loss of power: the process is gone, the synced bytes are on the disk, and anything may
  follow them - all of the rest of the file, when only the process died. Opening the file syncs nothing.\<close>

definition wal_restart :: "bytes \<Rightarrow> wal \<Rightarrow> wal" where
  "wal_restart suffix w = (the (wal_open (take (wal_synced w) (wal_file w) @ suffix)))\<lparr>wal_synced := wal_synced w\<rparr>"

definition wal_kept :: "wal \<Rightarrow> decision_map" where
  "wal_kept w = (case replay (take (wal_synced w) (wal_file w)) of None \<Rightarrow> Map.empty | Some (m, n) \<Rightarrow> m)"

section \<open>Replay is total\<close>

text \<open>A log of records, each the key and value of one decision.\<close>

definition log_bytes :: "(bytes \<times> bytes) list \<Rightarrow> bytes" where
  "log_bytes rs = concat (map (\<lambda>(k, v). wal_record k v) rs)"

definition short :: "bytes \<Rightarrow> bool" where
  "short k \<longleftrightarrow> length k < 2 ^ 32"

abbreviation shorts :: "(bytes \<times> bytes) list \<Rightarrow> bool" where
  "shorts rs \<equiv> \<forall>(k, v) \<in> set rs. short k \<and> short v"

text \<open>A tail that holds no whole record.\<close>

definition torn :: "bytes \<Rightarrow> bool" where
  "torn bs \<longleftrightarrow> (case read_field bs 0 of None \<Rightarrow> True | Some (k, n) \<Rightarrow> read_field bs n = None)"

lemma torn_Nil [simp]: "torn []"
  by (simp add: torn_def read_field_def Let_def)

lemma log_simps [simp]: "log_bytes [] = []" "log_bytes ((k, v) # rs) = wal_record k v @ log_bytes rs"
  "log_bytes (rs @ rs') = log_bytes rs @ log_bytes rs'"
  by (simp_all add: log_bytes_def)

lemma read_field_shift: "length p \<le> start \<Longrightarrow>
    read_field (p @ bs) start = map_option (\<lambda>(d, n). (d, length p + n)) (read_field bs (start - length p))"
  by (auto simp: read_field_def Let_def)

lemma read_field_shift0: "read_field (p @ bs) (length p + n) = map_option (\<lambda>(d, m). (d, length p + m)) (read_field bs n)"
  by (simp add: read_field_shift)

lemma read_field_whole:
  "length k < 2 ^ 32 \<Longrightarrow> read_field (be_bytes 4 (length k mod 2 ^ 32) @ k @ rest) 0 = Some (k, 4 + length k)"
  by (simp add: read_field_def Let_def be_nat_be_bytes_small)

lemma read_field_Some:
  assumes "read_field bs 0 = Some (d, n)"
  shows "short d \<and> bs = be_bytes 4 (length d mod 2 ^ 32) @ d @ drop n bs \<and> n = 4 + length d"
proof -
  let ?len = "be_nat (take 4 bs)"
  have l: "4 + ?len \<le> length bs" "d = take ?len (drop 4 bs)" "n = 4 + ?len"
    using assms by (auto simp: read_field_def Let_def not_less split: if_splits)
  have ld: "length d = ?len" using l(1,2) by simp
  have small: "?len < 2 ^ 32" using be_nat_less [of "take 4 bs"] l(1) by simp
  then have "be_bytes 4 (length d mod 2 ^ 32) = take 4 bs"
    using be_bytes_be_nat [of "take 4 bs"] l(1) ld by simp
  then have "bs = be_bytes 4 (length d mod 2 ^ 32) @ d @ drop n bs"
    using l by (metis append_take_drop_id drop_drop add.commute)
  then show ?thesis using small ld l(3) by (simp add: short_def)
qed

lemma whole_record:
  assumes "short k" "short v"
  shows "read_field (wal_record k v @ rest) 0 = Some (k, 4 + length k)"
    "read_field (wal_record k v @ rest) (4 + length k) = Some (v, length (wal_record k v))"
proof -
  show "read_field (wal_record k v @ rest) 0 = Some (k, 4 + length k)"
    using assms read_field_whole [of k] by (simp add: wal_record_def short_def)
  have "read_field ((be_bytes 4 (length k mod 2 ^ 32) @ k) @ (be_bytes 4 (length v mod 2 ^ 32) @ v @ rest)) (length (be_bytes 4 (length k mod 2 ^ 32) @ k) + 0)
      = Some (v, length (wal_record k v))"
    unfolding read_field_shift0 using assms read_field_whole [of v rest] by (simp add: short_def wal_record_def)
  then show "read_field (wal_record k v @ rest) (4 + length k) = Some (v, length (wal_record k v))"
    by (simp add: wal_record_def)
qed

text \<open>Every byte string is a log and a torn tail, in exactly one way.\<close>

lemma log_decomposes: "\<exists>rs tail. bs = log_bytes rs @ tail \<and> shorts rs \<and> torn tail"
proof (induction bs rule: length_induct)
  case (1 bs)
  show ?case
  proof (cases "torn bs")
    case True
    then show ?thesis by (intro exI [of _ "[]"] exI [of _ bs]) simp
  next
    case False
    then obtain k n v m where r: "read_field bs 0 = Some (k, n)" "read_field bs n = Some (v, m)"
      by (auto simp: torn_def split: option.splits)
    note k = read_field_Some [OF r(1)]
    let ?p = "be_bytes 4 (length k mod 2 ^ 32) @ k"
    have bs: "bs = ?p @ drop n bs" using conjunct1 [OF conjunct2 [OF k]] by (simp only: append_assoc)
    have n: "n = length ?p" using k by simp
    have "read_field (?p @ drop n bs) (length ?p + 0) = Some (v, m)" using r(2) bs n by simp
    then obtain m' where r2: "read_field (drop n bs) 0 = Some (v, m')"
      unfolding read_field_shift0 by auto
    note v = read_field_Some [OF r2]
    let ?rest = "drop m' (drop n bs)"
    have b: "bs = wal_record k v @ ?rest" using bs v by (simp add: wal_record_def)
    have "length bs = length (wal_record k v) + length ?rest" using arg_cong [OF b, of length] by (simp only: length_append)
    moreover have "length (wal_record k v) = 8 + length k + length v" by (simp add: wal_record_def)
    ultimately have "length ?rest < length bs" by linarith
    then obtain rs tail where "?rest = log_bytes rs @ tail" "shorts rs" "torn tail" using 1 by blast
    then show ?thesis using b k v by (intro exI [of _ "(k, v) # rs"] exI [of _ tail]) simp
  qed
qed

definition first_wins :: "decision_map \<Rightarrow> (bytes \<times> bytes) list \<Rightarrow> decision_map" where
  "first_wins m rs = foldl (\<lambda>m (k, v). if m k = None then m(k \<mapsto> v) else m) m rs"

lemma first_wins_eq: "first_wins m rs = map_of rs ++ m"
proof (induction rs arbitrary: m)
  case (Cons r rs)
  obtain k v where r: "r = (k, v)" by (cases r)
  have "first_wins m (r # rs) = first_wins (if m k = None then m(k \<mapsto> v) else m) rs"
    by (simp add: first_wins_def r)
  also have "\<dots> = map_of rs ++ (if m k = None then m(k \<mapsto> v) else m)" by (rule Cons.IH)
  also have "\<dots> = map_of (r # rs) ++ m"
    by (rule ext) (auto simp: r map_add_def split: option.splits)
  finally show ?case .
qed (simp add: first_wins_def)

lemma replay_loop_log:
  assumes "shorts rs" "torn tail"
  shows "replay_loop (p @ log_bytes rs @ tail) m (length p) (length p)
    = Some (first_wins m rs, length p + length (log_bytes rs))"
  using assms(1)
proof (induction rs arbitrary: p m)
  case Nil
  have "read_field (p @ tail) (length p) = map_option (\<lambda>(d, n). (d, length p + n)) (read_field tail 0)"
    using read_field_shift0 [of p tail 0] by simp
  then show ?case using assms(2)
    by (subst replay_loop.simps) (auto simp: torn_def first_wins_def read_field_shift0 split: option.splits)
next
  case (Cons r rs)
  obtain k v where r: "r = (k, v)" by (cases r)
  have s: "short k" "short v" using Cons.prems r by auto
  let ?rest = "log_bytes rs @ tail" and ?R = "wal_record k v"
  have f: "read_field (p @ ?R @ ?rest) (length p) = Some (k, length p + (4 + length k))"
    using read_field_shift0 [of p "?R @ ?rest" 0] whole_record(1) [OF s] by simp
  have g: "read_field (p @ ?R @ ?rest) (length p + (4 + length k)) = Some (v, length p + length ?R)"
    unfolding read_field_shift0 using whole_record(2) [OF s] by simp
  have ih: "replay_loop ((p @ ?R) @ log_bytes rs @ tail) m' (length (p @ ?R)) (length (p @ ?R))
      = Some (first_wins m' rs, length (p @ ?R) + length (log_bytes rs))" for m'
    using Cons.IH [of "p @ ?R" m'] Cons.prems by simp
  have "replay_loop (p @ ?R @ ?rest) m (length p) (length p)
      = replay_loop (p @ ?R @ ?rest) (if m k = None then m(k \<mapsto> v) else m) (length p + length ?R) (length p + length ?R)"
    by (subst replay_loop.simps) (simp add: f g)
  also have "\<dots> = Some (first_wins (if m k = None then m(k \<mapsto> v) else m) rs, length p + length ?R + length (log_bytes rs))"
    using ih by simp
  finally show ?case by (simp add: r first_wins_def)
qed

lemma replay_log:
  "shorts rs \<Longrightarrow> torn tail \<Longrightarrow> replay (log_bytes rs @ tail) = Some (map_of rs, length (log_bytes rs))"
  using replay_loop_log [of rs tail "[]" Map.empty] by (simp add: replay_def first_wins_eq)


section \<open>The log as a durable store\<close>

lemma record_length: "length (wal_record k v) = 8 + length k + length v"
  by (simp add: wal_record_def)

lemma record_head:
  assumes "short k" "4 \<le> n"
  shows "be_nat (take 4 (take n (wal_record k v))) = length k"
proof -
  have "take 4 (take n (wal_record k v)) = be_bytes 4 (length k)"
    using assms by (simp add: wal_record_def short_def min_def)
  then show ?thesis using assms(1) by (simp add: short_def be_nat_be_bytes_small)
qed

lemma record_middle:
  assumes "short v" "8 + length k \<le> n"
  shows "be_nat (take 4 (drop (4 + length k) (take n (wal_record k v)))) = length v"
proof -
  have "take 4 (drop (4 + length k) (take n (wal_record k v))) = be_bytes 4 (length v)"
    using assms by (simp add: wal_record_def short_def drop_take take_take min_def)
  then show ?thesis using assms(1) by (simp add: short_def be_nat_be_bytes_small)
qed

lemma prefix_torn:
  assumes "short k" "short v" "n < length (wal_record k v)"
  shows "torn (take n (wal_record k v))"
proof -
  let ?R = "take n (wal_record k v)"
  have len: "length ?R = n" using assms(3) by simp
  consider "n < 4" | "4 \<le> n" "n < 4 + length k" | "4 + length k \<le> n" "n < 8 + length k" | "8 + length k \<le> n" by linarith
  then show ?thesis
  proof cases
    case 1
    then show ?thesis using len by (simp add: torn_def read_field_def Let_def)
  next
    case 2
    then show ?thesis using len record_head [OF assms(1) 2(1), of v] by (simp add: torn_def read_field_def Let_def)
  next
    case 3
    then have "be_nat (take 4 ?R) = length k" by (intro record_head [OF assms(1)]) simp
    then show ?thesis using len 3 by (simp add: torn_def read_field_def Let_def)
  next
    case 4
    have "be_nat (take 4 ?R) = length k" using 4 by (intro record_head [OF assms(1)]) simp
    moreover have "n < 8 + length k + length v" using assms(3) by (simp add: record_length)
    ultimately show ?thesis using len 4 record_middle [OF assms(2) 4]
      by (simp add: torn_def read_field_def Let_def)
  qed
qed

text \<open>The synced records lead the file, the replayed ones follow them; only a poisoned log has anything behind.\<close>

definition wal_inv :: "wal \<Rightarrow> bool" where
  "wal_inv w \<longleftrightarrow> (\<exists>rs rs' tail. wal_file w = log_bytes (rs @ rs') @ tail \<and> shorts (rs @ rs') \<and> wal_map w = map_of (rs @ rs') \<and>
     wal_synced w = length (log_bytes rs) \<and>
     wal_len w = length (log_bytes (rs @ rs')) \<and> (\<not> wal_poisoned w \<longrightarrow> tail = [] \<and> wal_pos w = wal_len w))"

lemma wal_invE:
  assumes "wal_inv w"
  obtains rs tail where "wal_file w = log_bytes rs @ tail" "shorts rs" "wal_map w = map_of rs"
    "wal_len w = length (log_bytes rs)" "\<not> wal_poisoned w \<Longrightarrow> tail = [] \<and> wal_pos w = wal_len w"
  using assms unfolding wal_inv_def by blast

text \<open>What is kept is what the synced records say.\<close>

lemma wal_kept_log:
  assumes "wal_file w = log_bytes (rs @ rs') @ tail" "shorts rs" "wal_synced w = length (log_bytes rs)"
  shows "wal_kept w = map_of rs"
proof -
  have "take (wal_synced w) (wal_file w) = log_bytes rs @ []" using assms(1,3) by simp
  then show ?thesis using replay_log [OF assms(2) torn_Nil] by (simp add: wal_kept_def)
qed

lemma wal_invE2:
  assumes "wal_inv w"
  obtains rs rs' tail where "wal_file w = log_bytes (rs @ rs') @ tail" "shorts (rs @ rs')" "wal_map w = map_of (rs @ rs')"
    "wal_synced w = length (log_bytes rs)" "wal_len w = length (log_bytes (rs @ rs'))"
    "\<not> wal_poisoned w \<Longrightarrow> tail = [] \<and> wal_pos w = wal_len w" "wal_kept w = map_of rs"
proof -
  obtain rs rs' tail where r: "wal_file w = log_bytes (rs @ rs') @ tail" "shorts (rs @ rs')" "wal_map w = map_of (rs @ rs')"
    "wal_synced w = length (log_bytes rs)" "wal_len w = length (log_bytes (rs @ rs'))"
    "\<not> wal_poisoned w \<longrightarrow> tail = [] \<and> wal_pos w = wal_len w"
    using assms unfolding wal_inv_def by blast
  have "shorts rs" using r(2) by auto
  then show thesis using that r wal_kept_log [OF r(1) _ r(4)] by blast
qed

lemma wal_invI:
  assumes "wal_file w = log_bytes (rs @ rs') @ tail" "shorts (rs @ rs')" "wal_map w = map_of (rs @ rs')"
    "wal_synced w = length (log_bytes rs)" "wal_len w = length (log_bytes (rs @ rs'))"
    "\<not> wal_poisoned w \<Longrightarrow> tail = [] \<and> wal_pos w = wal_len w"
  shows "wal_inv w"
  unfolding wal_inv_def using assms by blast

lemma write_at_end [simp]: "write_at (length f) d f = f @ d"
  by (simp add: write_at_def)

lemma set_len_back [simp]: "set_len (length a) (a @ b) = a"
  by (simp add: set_len_def)

text \<open>Opening a file keeps its whole records and drops the torn tail.\<close>

lemma wal_open_log:
  assumes "shorts rs" "torn tail"
  shows "wal_open (log_bytes rs @ tail) = Some \<lparr>wal_map = map_of rs, wal_file = log_bytes rs,
    wal_pos = length (log_bytes rs), wal_len = length (log_bytes rs), wal_poisoned = False, wal_synced = 0\<rparr>"
proof -
  have "(if length (log_bytes rs) \<noteq> length (log_bytes rs @ tail) then set_len (length (log_bytes rs)) (log_bytes rs @ tail)
      else log_bytes rs @ tail) = log_bytes rs" by simp
  then show ?thesis by (simp add: wal_open_def replay_log [OF assms] Let_def)
qed

lemma wal_open_inv:
  assumes "wal_open bs = Some w"
  shows "wal_inv w"
proof -
  obtain rs tail where d: "bs = log_bytes rs @ tail" "shorts rs" "torn tail" using log_decomposes by blast
  show ?thesis using assms wal_open_log [OF d(2,3)] d(1,2) by (intro wal_invI [of _ "[]" rs "[]"]) auto
qed

lemma wal_open_total: "\<exists>w. wal_open bs = Some w"
  using log_decomposes [of bs] wal_open_log by metis

text \<open>An append on a sound log, by what the disk reports.\<close>

lemma wal_decide_known: "\<not> wal_poisoned w \<Longrightarrow> wal_map w k = Some x \<Longrightarrow> wal_decide e k v w = (AlreadyDecided x, w)"
  by (simp add: wal_decide_def)

lemma wal_decide_poisoned: "wal_poisoned w \<Longrightarrow> wal_decide e k v w = (Failed, w)"
  by (simp add: wal_decide_def)

lemma wal_decide_new:
  assumes "\<not> wal_poisoned w" "wal_map w k = None" "wal_file w = log_bytes rs" "wal_pos w = length (log_bytes rs)"
    "wal_len w = length (log_bytes rs)"
  shows "wal_decide e k v w =
    (if io_write_ok e \<and> io_sync_ok e then
       (Fresh, \<lparr>wal_map = (wal_map w)(k \<mapsto> v), wal_file = log_bytes rs @ wal_record k v,
          wal_pos = length (log_bytes rs @ wal_record k v), wal_len = length (log_bytes rs @ wal_record k v), wal_poisoned = False,
          wal_synced = length (log_bytes rs @ wal_record k v)\<rparr>)
     else
       (let n = (if io_write_ok e then length (wal_record k v) else min (io_written e) (length (wal_record k v))) in
       (Failed, \<lparr>wal_map = wal_map w,
          wal_file = (if io_set_len_ok e then log_bytes rs else log_bytes rs @ take n (wal_record k v)),
          wal_pos = (if io_seek_ok e then length (log_bytes rs) else length (log_bytes rs) + n),
          wal_len = length (log_bytes rs), wal_poisoned = (\<not> io_set_len_ok e \<or> \<not> io_seek_ok e),
          wal_synced = wal_synced w\<rparr>)))"
  using assms by (cases w) (auto simp: wal_decide_def Let_def)

lemma wal_decide_cases:
  assumes "wal_inv w"
  obtains (poisoned) "wal_decide e k v w = (Failed, w)"
    | (known) x where "wal_map w k = Some x" "wal_decide e k v w = (AlreadyDecided x, w)"
    | (fresh) t rs where "wal_map w k = None" "wal_decide e k v w = (Fresh, t)" "shorts rs" "wal_map w = map_of rs"
        "wal_map t = (wal_map w)(k \<mapsto> v)" "wal_file t = log_bytes rs @ wal_record k v" "\<not> wal_poisoned t"
        "wal_pos t = wal_len t" "wal_len t = length (wal_file t)" "wal_synced t = length (wal_file t)"
    | (failed) t where "wal_decide e k v w = (Failed, t)" "wal_map t = wal_map w" "wal_inv t" "wal_kept t = wal_kept w"
proof (cases "wal_poisoned w")
  case True
  then show ?thesis using poisoned wal_decide_poisoned by blast
next
  case False
  obtain rs rs' tail where r: "wal_file w = log_bytes (rs @ rs') @ tail" "shorts (rs @ rs')" "wal_map w = map_of (rs @ rs')"
      "wal_synced w = length (log_bytes rs)" "wal_len w = length (log_bytes (rs @ rs'))" "tail = [] \<and> wal_pos w = wal_len w"
      "wal_kept w = map_of rs"
    using wal_invE2 [OF assms] False by metis
  show ?thesis
  proof (cases "wal_map w k")
    case (Some x)
    then show ?thesis using known wal_decide_known [OF False] by blast
  next
    case None
    let ?rs = "rs @ rs'"
    have eq: "wal_file w = log_bytes ?rs" "wal_pos w = length (log_bytes ?rs)" using r by simp_all
    note new = wal_decide_new [OF False None eq r(5), of e v]
    show ?thesis
    proof (cases "io_write_ok e \<and> io_sync_ok e")
      case True
      let ?t = "\<lparr>wal_map = (wal_map w)(k \<mapsto> v), wal_file = log_bytes ?rs @ wal_record k v,
          wal_pos = length (log_bytes ?rs @ wal_record k v), wal_len = length (log_bytes ?rs @ wal_record k v), wal_poisoned = False,
          wal_synced = length (log_bytes ?rs @ wal_record k v)\<rparr>"
      have d: "wal_decide e k v w = (Fresh, ?t)" unfolding new using True by simp
      show ?thesis by (rule fresh [OF None d r(2,3)]) simp_all
    next
      case nok: False
      let ?n = "if io_write_ok e then length (wal_record k v) else min (io_written e) (length (wal_record k v))"
      let ?tail = "if io_set_len_ok e then [] else take ?n (wal_record k v)"
      let ?t = "\<lparr>wal_map = wal_map w,
          wal_file = (if io_set_len_ok e then log_bytes ?rs else log_bytes ?rs @ take ?n (wal_record k v)),
          wal_pos = (if io_seek_ok e then length (log_bytes ?rs) else length (log_bytes ?rs) + ?n),
          wal_len = length (log_bytes ?rs), wal_poisoned = (\<not> io_set_len_ok e \<or> \<not> io_seek_ok e), wal_synced = wal_synced w\<rparr>"
      have d: "wal_decide e k v w = (Failed, ?t)" unfolding new using nok by (simp add: Let_def)
      have f: "wal_file ?t = log_bytes (rs @ rs') @ ?tail" by simp
      have "wal_inv ?t" by (rule wal_invI [OF f]) (use r in auto)
      moreover have "wal_kept ?t = map_of rs" by (rule wal_kept_log [OF f]) (use r in auto)
      ultimately show ?thesis using failed [OF d] r(7) by simp
    qed
  qed
qed

lemma snoc_map: "map_of rs k = None \<Longrightarrow> map_of (rs @ [(k, v)]) = (map_of rs)(k \<mapsto> v)"
  by (auto simp: map_add_def fun_eq_iff split: option.splits)

text \<open>A fresh decision leaves a log that is synced to its end.\<close>

lemma wal_fresh_synced:
  assumes "wal_inv w" "short k" "short v" "wal_decide e k v w = (Fresh, t)"
  shows "wal_inv t \<and> wal_kept t = wal_map t"
proof (cases rule: wal_decide_cases [OF assms(1), of e k v, case_names poisoned known fresh failed])
  case (fresh u rs)
  have t: "t = u" using fresh(2) assms(4) by simp
  have m: "wal_map u = map_of ((rs @ [(k, v)]) @ [])" using snoc_map [of rs k v] fresh(1,4,5) by simp
  have f: "wal_file u = log_bytes ((rs @ [(k, v)]) @ []) @ []" using fresh(6) by simp
  have s: "shorts (rs @ [(k, v)])" using fresh(3) assms(2,3) by auto
  have y: "wal_synced u = length (log_bytes (rs @ [(k, v)]))" using fresh(6,10) by simp
  have "wal_inv u" by (rule wal_invI [OF f _ m y]) (use s f fresh(8,9) in simp_all)
  moreover have "wal_kept u = wal_map u" using wal_kept_log [OF f s y] m by simp
  ultimately show ?thesis using t by simp
qed (use assms in auto)

lemma wal_decide_inv:
  assumes "wal_inv w" "short k" "short v"
  shows "wal_inv (snd (wal_decide e k v w))"
proof (cases rule: wal_decide_cases [OF assms(1), of e k v, case_names poisoned known fresh failed])
  case (fresh t rs)
  then show ?thesis using wal_fresh_synced [OF assms fresh(2)] by simp
qed (use assms in auto)

lemma wal_restart_log:
  assumes "wal_inv w"
  shows "wal_inv (wal_restart suffix w) \<and> wal_kept (wal_restart suffix w) = wal_kept w"
proof -
  obtain rs rs0 tail where r: "wal_file w = log_bytes (rs @ rs0) @ tail" "shorts (rs @ rs0)" "wal_synced w = length (log_bytes rs)"
      "wal_kept w = map_of rs"
    using wal_invE2 [OF assms] by metis
  obtain rs' tail' where d: "suffix = log_bytes rs' @ tail'" "shorts rs'" "torn tail'" using log_decomposes by blast
  have "take (wal_synced w) (wal_file w) @ suffix = log_bytes (rs @ rs') @ tail'" using r d by simp
  moreover have s: "shorts (rs @ rs')" "shorts rs" using r d by auto
  ultimately have op: "wal_open (take (wal_synced w) (wal_file w) @ suffix) = Some \<lparr>wal_map = map_of (rs @ rs'), wal_file = log_bytes (rs @ rs'),
    wal_pos = length (log_bytes (rs @ rs')), wal_len = length (log_bytes (rs @ rs')), wal_poisoned = False, wal_synced = 0\<rparr>"
    using wal_open_log [OF s(1) d(3)] by simp
  then have t: "wal_restart suffix w = \<lparr>wal_map = map_of (rs @ rs'), wal_file = log_bytes (rs @ rs'),
    wal_pos = length (log_bytes (rs @ rs')), wal_len = length (log_bytes (rs @ rs')), wal_poisoned = False, wal_synced = wal_synced w\<rparr>"
    by (simp add: wal_restart_def)
  have f: "wal_file (wal_restart suffix w) = log_bytes (rs @ rs') @ []" using t by simp
  have "wal_inv (wal_restart suffix w)" by (rule wal_invI [OF f s(1)]) (use t r(3) in simp_all)
  moreover have "wal_kept (wal_restart suffix w) = map_of rs" by (rule wal_kept_log [OF f s(2)]) (use t r(3) in simp)
  ultimately show ?thesis using r(4) by simp
qed

lemma wal_kept_shown: "wal_inv w \<Longrightarrow> wal_kept w \<subseteq>\<^sub>m wal_map w"
  by (elim wal_invE2) (auto simp: map_le_def map_add_def split: option.splits)

interpretation wal: durable_decision wal_decide "\<lambda>w k. wal_get k w" wal_inv short wal_restart wal_kept
proof unfold_locales
  fix s e k v t x c d
  have get: "(\<lambda>k. wal_get k w) = wal_map w" for w by (simp add: wal_get_def fun_eq_iff)
  show "wal_inv s \<Longrightarrow> short k \<Longrightarrow> short v \<Longrightarrow> wal_inv (snd (wal_decide e k v s))" by (rule wal_decide_inv)
  show "(\<lambda>k. wal_get k s) k = None \<and> (\<lambda>k. wal_get k t) = (\<lambda>k. wal_get k s)(k \<mapsto> v)"
    if "wal_inv s" "wal_decide e k v s = (Fresh, t)"
    unfolding get by (cases rule: wal_decide_cases [OF that(1), of e k v]) (use that in \<open>auto simp: wal_get_def\<close>)
  show "(\<lambda>k. wal_get k s) k = Some x \<and> (\<lambda>k. wal_get k t) = (\<lambda>k. wal_get k s)"
    if "wal_inv s" "wal_decide e k v s = (AlreadyDecided x, t)"
    unfolding get by (cases rule: wal_decide_cases [OF that(1), of e k v]) (use that in \<open>auto simp: wal_get_def\<close>)
  show "(\<lambda>k. wal_get k t) = (\<lambda>k. wal_get k s)" if "wal_inv s" "wal_decide e k v s = (Failed, t)"
    unfolding get by (cases rule: wal_decide_cases [OF that(1), of e k v]) (use that in \<open>auto simp: wal_get_def\<close>)
  show "wal_inv (wal_restart c s)" "wal_kept (wal_restart c s) = wal_kept s" if "wal_inv s"
    using wal_restart_log [OF that] by blast+
  show "wal_kept s \<subseteq>\<^sub>m (\<lambda>k. wal_get k s)" if "wal_inv s" unfolding get by (rule wal_kept_shown [OF that])
  show "wal_kept t = (\<lambda>k. wal_get k t)" if "wal_inv s" "short k" "short v" "wal_decide e k v s = (Fresh, t)"
    unfolding get using wal_fresh_synced [OF that] by blast
  show "wal_kept t = wal_kept s" if "wal_inv s" "wal_decide e k v s = (d, t)" "d \<noteq> Fresh"
    by (cases rule: wal_decide_cases [OF that(1), of e k v]) (use that in auto)
qed

text \<open>When only the process dies, the rest of the file is still there, and a log that is not poisoned comes back as
  it was.\<close>

lemma wal_process_restart:
  assumes "wal_inv w" "\<not> wal_poisoned w"
  shows "wal_restart (drop (wal_synced w) (wal_file w)) w = w"
proof -
  obtain rs tail where r: "wal_file w = log_bytes rs @ tail" "shorts rs" "wal_map w = map_of rs" "wal_len w = length (log_bytes rs)"
      "tail = [] \<and> wal_pos w = wal_len w"
    using wal_invE [OF assms(1)] assms(2) by metis
  have "wal_open (wal_file w) = Some \<lparr>wal_map = map_of rs, wal_file = log_bytes rs,
    wal_pos = length (log_bytes rs), wal_len = length (log_bytes rs), wal_poisoned = False, wal_synced = 0\<rparr>"
    using wal_open_log [OF r(2) torn_Nil] r(1,5) by simp
  then show ?thesis using r assms(2) by (cases w) (simp add: wal_restart_def)
qed

end
