(* ===== verification/Props_Decision.thy ===== *)
theory Props_Decision
  imports One_Decision
begin

text \<open>
  The exactly-once properties of the decision log: what any history of claims, disk errors and restarts
  leaves true, that a replay ends on every file, and what a failed claim leaves on the disk.
\<close>

lemma opened_inv: "wal_open bs = Some w \<Longrightarrow> wal_inv w"
  by (rule wal_open_inv)

text \<open>C34. However claims of a key, disk errors and crashes with arbitrary unsynced bytes interleave after a
  log was opened, at most one claim of that key is told it is the first.\<close>

theorem decided_at_most_once:
  assumes "wal_open bs = Some w" "small_events short evs" "run_store wal_decide wal_restart evs w = (out, t)"
  shows "length (filter (\<lambda>x. x = (k, Fresh)) out) \<le> 1"
  by (rule wal.fresh_once [OF opened_inv [OF assms(1)] assms(2,3)])

definition disk_fine :: append_io where
  "disk_fine = \<lparr>io_write_ok = True, io_written = 0, io_sync_ok = True, io_set_len_ok = True, io_seek_ok = True\<rparr>"

definition disk_lying :: append_io where
  "disk_lying = \<lparr>io_write_ok = True, io_written = 0, io_sync_ok = False, io_set_len_ok = False, io_seek_ok = True\<rparr>"

definition claim_twice :: "(append_io, bytes) store_event list" where
  "claim_twice = [Claim disk_fine [7] [1], Claim disk_fine [7] [2], Restart [0, 0], Claim disk_fine [7] [3]]"

definition fresh_log :: wal where
  "fresh_log = \<lparr>wal_map = Map.empty, wal_file = [], wal_pos = 0, wal_len = 0, wal_poisoned = False, wal_synced = 0\<rparr>"

definition one_log :: wal where
  "one_log = \<lparr>wal_map = [[7] \<mapsto> [1]], wal_file = wal_record [7] [1], wal_pos = 10, wal_len = 10, wal_poisoned = False, wal_synced = 10\<rparr>"

lemma fresh_log_opened: "wal_open [] = Some fresh_log"
  using wal_open_log [of "[]" "[]"] by (simp add: fresh_log_def torn_def read_field_def Let_def)

lemma one_log_opened: "wal_open (wal_record [7] [1] @ [0, 0]) = Some (one_log\<lparr>wal_synced := 0\<rparr>)"
  using wal_open_log [of "[([7], [1])]" "[0, 0]"]
  by (simp add: one_log_def torn_def read_field_def Let_def short_def record_length)

lemma claim_first: "wal_decide disk_fine [7] [1] fresh_log = (Fresh, one_log)"
  by (simp add: wal_decide_def disk_fine_def fresh_log_def one_log_def Let_def record_length write_at_def)

lemma one_log_restart: "wal_restart [0, 0] one_log = one_log"
  using one_log_opened by (simp add: wal_restart_def) (simp add: one_log_def record_length)

lemma claim_later: "wal_decide e [7] v one_log = (AlreadyDecided [1], one_log)"
  by (simp add: wal_decide_def one_log_def)

lemma claim_twice_runs: "run_store wal_decide wal_restart claim_twice fresh_log =
    ([([7], Fresh), ([7], AlreadyDecided [1]), ([7], AlreadyDecided [1])], one_log)"
  by (simp add: claim_twice_def claim_first claim_later one_log_restart)

lemma claim_twice_small: "small_events short claim_twice"
  by (auto simp: small_events_def claim_twice_def short_def)

theorem decided_at_most_once_witness:
  "\<exists>bs w out t. wal_open bs = Some w \<and> small_events short claim_twice \<and>
     run_store wal_decide wal_restart claim_twice w = (out, t) \<and> ([7], Fresh) \<in> set out \<and>
     length (filter (\<lambda>x. x = ([7], Fresh)) out) \<le> 1"
  using decided_at_most_once [OF fresh_log_opened claim_twice_small claim_twice_runs, of "[7]"]
    fresh_log_opened claim_twice_small claim_twice_runs
  by (intro exI conjI) (assumption | simp)+

text \<open>C35. From the moment a claim - of this key or of any other - is told it is the first, every value the log shows is
  final: every later claim of its key, across disk errors, losses of power and restarts, is answered with
  that same value or refused, and the value stays. Not before: opening a log syncs nothing, so a value it
  merely replayed is answered as decided and may still be lost with the power, and its key is then open again.\<close>

theorem decision_is_final:
  assumes "wal_open bs = Some w0" "small_events short evs0" "run_store wal_decide wal_restart evs0 w0 = (out0, w)"
    and "short k'" "short v'" "wal_decide e k' v' w = (Fresh, u)" "wal_get k u = Some v"
    and "small_events short evs" "run_store wal_decide wal_restart evs u = (out, t)"
  shows "(wal_get k t = Some v \<and> (\<forall>d. (k, d) \<in> set out \<longrightarrow> d = AlreadyDecided v \<or> d = Failed)) \<and>
    (\<forall>j x y e'. wal_get j w0 = Some x \<longrightarrow>
      wal_decide e' j y w0 = (AlreadyDecided x, w0) \<and> wal_get j (wal_restart [] w0) = None)"
proof (rule conjI)
  have i: "wal_inv w" using wal.run_inv [OF opened_inv [OF assms(1)] assms(2,3)] by simp
  have u: "wal_inv u" "wal_kept u = wal_map u" using wal_fresh_synced [OF i assms(4-6)] by simp_all
  then have k: "wal_kept u k = Some v" using assms(7) by (simp add: wal_get_def)
  have "wal_inv t" "wal_kept u \<subseteq>\<^sub>m wal_kept t" using wal.run_inv [OF u(1) assms(8,9)] by simp_all
  then have "wal_map t k = Some v" using wal_kept_shown [of t] k by (metis domI map_le_def)
  then show "wal_get k t = Some v \<and> (\<forall>d. (k, d) \<in> set out \<longrightarrow> d = AlreadyDecided v \<or> d = Failed)"
    using wal.run_decided [OF u(1) assms(8) k assms(9)] by (simp add: wal_get_def)
  have w0: "wal_synced w0 = 0" "\<not> wal_poisoned w0"
    using assms(1) by (auto simp: wal_open_def Let_def split: option.splits)
  have "wal_restart [] w0 = fresh_log" using w0(1) fresh_log_opened by (simp add: wal_restart_def fresh_log_def)
  then show "\<forall>j x y e'. wal_get j w0 = Some x \<longrightarrow>
      wal_decide e' j y w0 = (AlreadyDecided x, w0) \<and> wal_get j (wal_restart [] w0) = None"
    using wal_decide_known [OF w0(2)] by (simp add: wal_get_def fresh_log_def)
qed

text \<open>A log with one replayed record: its key is answered as decided, a loss of power opens it again; once the key is
  claimed, no crash does.\<close>

theorem decision_is_final_witness:
  "(\<exists>out t. run_store wal_decide wal_restart claim_twice one_log = (out, t) \<and> out \<noteq> [] \<and>
     wal_get [7] t = Some [1] \<and> (\<forall>d. ([7], d) \<in> set out \<longrightarrow> d = AlreadyDecided [1] \<or> d = Failed)) \<and>
   (\<exists>w0. wal_open (wal_record [7] [1] @ [0, 0]) = Some w0 \<and> fst (wal_decide disk_fine [7] [2] w0) = AlreadyDecided [1] \<and>
     wal_get [7] (wal_restart [] w0) = None)"
proof
  have r: "run_store wal_decide wal_restart claim_twice one_log =
      ([([7], AlreadyDecided [1]), ([7], AlreadyDecided [1]), ([7], AlreadyDecided [1])], one_log)"
    by (simp add: claim_twice_def claim_later one_log_restart)
  have g: "wal_get [7] one_log = Some [1]" by (simp add: wal_get_def one_log_def)
  have e: "small_events short ([] :: (append_io, bytes) store_event list)" by (simp add: small_events_def)
  have n: "run_store wal_decide wal_restart ([] :: (append_io, bytes) store_event list) fresh_log = ([], fresh_log)" by simp
  have sh: "short [7]" "short [1]" by (simp_all add: short_def)
  show "\<exists>out t. run_store wal_decide wal_restart claim_twice one_log = (out, t) \<and> out \<noteq> [] \<and>
     wal_get [7] t = Some [1] \<and> (\<forall>d. ([7], d) \<in> set out \<longrightarrow> d = AlreadyDecided [1] \<or> d = Failed)"
    using decision_is_final [OF fresh_log_opened e n sh claim_first g claim_twice_small r] r by blast
  let ?w = "one_log\<lparr>wal_synced := 0\<rparr>"
  have n0: "run_store wal_decide wal_restart ([] :: (append_io, bytes) store_event list) ?w = ([], ?w)" by simp
  have f: "\<exists>u. wal_decide disk_fine [8] [1] ?w = (Fresh, u) \<and> wal_get [8] u = Some [1]"
    by (simp add: wal_decide_def disk_fine_def one_log_def Let_def wal_get_def)
  then obtain u where u: "wal_decide disk_fine [8] [1] ?w = (Fresh, u)" "wal_get [8] u = Some [1]" by blast
  have n1: "run_store wal_decide wal_restart ([] :: (append_io, bytes) store_event list) u = ([], u)" by simp
  have "short [8]" by (simp add: short_def)
  from decision_is_final [OF one_log_opened e n0 this sh(2) u e n1]
  have "wal_get j ?w = Some x \<longrightarrow> wal_decide e' j y ?w = (AlreadyDecided x, ?w) \<and> wal_get j (wal_restart [] ?w) = None" for j x y e'
    by blast
  moreover have "wal_get [7] ?w = Some [1]" by (simp add: wal_get_def one_log_def)
  ultimately show "\<exists>w0. wal_open (wal_record [7] [1] @ [0, 0]) = Some w0 \<and> fst (wal_decide disk_fine [7] [2] w0) = AlreadyDecided [1] \<and>
     wal_get [7] (wal_restart [] w0) = None"
    using one_log_opened by (metis fst_conv)
qed

text \<open>C36. Replaying ends on every byte string: it reads the file as whole records and a tail that holds
  none, returns the first value of each key and the length of the records.\<close>

theorem replay_ends:
  "\<exists>rs tail. bs = log_bytes rs @ tail \<and> shorts rs \<and> torn tail \<and> replay bs = Some (map_of rs, length (log_bytes rs))"
proof -
  obtain rs tail where "bs = log_bytes rs @ tail" "shorts rs" "torn tail" using log_decomposes by blast
  then show ?thesis using replay_log by blast
qed

theorem replay_ends_witness:
  "\<exists>rs tail. wal_record [7] [1] @ [0, 0] = log_bytes rs @ tail \<and> shorts rs \<and> torn tail \<and>
     replay (wal_record [7] [1] @ [0, 0]) = Some (map_of rs, length (log_bytes rs))"
  by (rule replay_ends)

text \<open>C37. After a failed claim of an undecided key, reopening the file shows the key as decided exactly when
  the whole record had reached the file and the truncation failed: the answer that nothing was recorded
  is not kept in that case.\<close>

theorem failed_claim_on_disk:
  assumes "wal_open bs = Some w0" "small_events short evs" "run_store wal_decide wal_restart evs w0 = (out, w)"
    and "\<not> wal_poisoned w" "wal_get k w = None" "short k" "short v" "wal_decide e k v w = (Failed, t)"
  shows "(\<exists>u. wal_open (wal_file t) = Some u \<and> wal_get k u = Some v) \<longleftrightarrow>
    \<not> io_set_len_ok e \<and> (io_write_ok e \<or> length (wal_record k v) \<le> io_written e)"
proof -
  have i: "wal_inv w" using wal.run_inv [OF opened_inv [OF assms(1)] assms(2,3)] by simp
  obtain rs where r: "wal_file w = log_bytes rs" "shorts rs" "wal_map w = map_of rs" "wal_pos w = length (log_bytes rs)"
      "wal_len w = length (log_bytes rs)"
    using wal_invE [OF i] assms(4) by (metis append_Nil2)
  let ?n = "if io_write_ok e then length (wal_record k v) else min (io_written e) (length (wal_record k v))"
  have none: "wal_map w k = None" using assms(5) by (simp add: wal_get_def)
  have t: "wal_file t = (if io_set_len_ok e then log_bytes rs else log_bytes rs @ take ?n (wal_record k v))"
    using assms(8) unfolding wal_decide_new [OF assms(4) none r(1,4,5)] by (auto simp: Let_def split: if_splits)
  have m: "map_of rs k = None" using none r(3) by simp
  show ?thesis
  proof (cases "io_set_len_ok e \<or> \<not> (io_write_ok e \<or> length (wal_record k v) \<le> io_written e)")
    case True
    have "torn (if io_set_len_ok e then [] else take ?n (wal_record k v))"
      using True prefix_torn [OF assms(6,7), of ?n] by auto
    moreover have "wal_file t = log_bytes rs @ (if io_set_len_ok e then [] else take ?n (wal_record k v))" using t by simp
    ultimately show ?thesis using wal_open_log [OF r(2)] True m by (auto simp: wal_get_def)
  next
    case False
    then have f: "wal_file t = log_bytes (rs @ [(k, v)]) @ []" using t by auto
    have s: "shorts (rs @ [(k, v)])" using r(2) assms(6,7) by auto
    show ?thesis using wal_open_log [OF s, of "[]"] False m f by (simp add: wal_get_def map_add_def)
  qed
qed

theorem failed_claim_on_disk_witness:
  "\<exists>t. wal_decide disk_lying [7] [1] fresh_log = (Failed, t) \<and>
     (\<exists>u. wal_open (wal_file t) = Some u \<and> wal_get [7] u = Some [1])"
proof -
  have d: "wal_decide disk_lying [7] [1] fresh_log = (Failed, fresh_log\<lparr>wal_file := wal_record [7] [1], wal_poisoned := True\<rparr>)"
    by (simp add: wal_decide_def disk_lying_def fresh_log_def Let_def write_at_def)
  have "small_events short ([] :: (append_io, bytes) store_event list)" by (simp add: small_events_def)
  moreover have "run_store wal_decide wal_restart [] fresh_log = ([], fresh_log)" by simp
  ultimately show ?thesis
    using failed_claim_on_disk [OF fresh_log_opened _ _ _ _ _ _ d, of "[]" "[]"] d
    by (simp add: wal_get_def fresh_log_def short_def disk_lying_def)
qed

end
