(* ===== verification/Pointer.thy ===== *)
theory Pointer
  imports Tlv_List
begin

text \<open>
  Destination pointers and the identifiers of rails, chains and assets (\<^verbatim>\<open>crates/paytp-core/src/pointer.rs\<close>),
  and the identifiers of the registry (\<^verbatim>\<open>registry.rs\<close>, first function). The grammars are over the UTF-8 bytes
  of a string. A pointer keeps its bytes, so equality of pointers is equality of bytes; the forms are
  pairwise disjoint.
\<close>

section \<open>Character classes\<close>

definition COLON :: u8 where "COLON = 0x3A"
definition SLASH :: u8 where "SLASH = 0x2F"
definition HYPHEN :: u8 where "HYPHEN = 0x2D"

definition is_lower :: "u8 \<Rightarrow> bool" where "is_lower b \<longleftrightarrow> 0x61 \<le> b \<and> b \<le> 0x7A"
definition is_upper :: "u8 \<Rightarrow> bool" where "is_upper b \<longleftrightarrow> 0x41 \<le> b \<and> b \<le> 0x5A"
definition is_ascii_digit :: "u8 \<Rightarrow> bool" where "is_ascii_digit b \<longleftrightarrow> 0x30 \<le> b \<and> b \<le> 0x39"

definition is_alphanumeric :: "u8 \<Rightarrow> bool" where
  "is_alphanumeric b \<longleftrightarrow> is_lower b \<or> is_upper b \<or> is_ascii_digit b"

definition matches :: "bytes \<Rightarrow> (u8 \<Rightarrow> bool) \<Rightarrow> bool" where
  "matches s pred \<longleftrightarrow> s \<noteq> [] \<and> list_all pred s"

definition within :: "nat \<Rightarrow> nat \<Rightarrow> bytes \<Rightarrow> bool" where
  "within lo hi s \<longleftrightarrow> lo \<le> length s \<and> length s \<le> hi"

definition is_caip_namespace :: "bytes \<Rightarrow> bool" where
  "is_caip_namespace s \<longleftrightarrow> within 3 8 s \<and> matches s (\<lambda>b. is_lower b \<or> is_ascii_digit b)"

definition account_char :: "u8 \<Rightarrow> bool" where
  "account_char b \<longleftrightarrow> is_alphanumeric b \<or> b = 0x2E \<or> b = 0x5F \<or> b = 0x25 \<or> b = HYPHEN"

definition is_account :: "bytes \<Rightarrow> nat \<Rightarrow> bool" where
  "is_account s limit \<longleftrightarrow> within 1 limit s \<and> matches s account_char"

text \<open>\<open>str::strip_prefix\<close>, \<open>str::starts_with\<close> and \<open>str::split_once\<close>.\<close>

fun strip_prefix :: "bytes \<Rightarrow> bytes \<Rightarrow> bytes option" where
  "strip_prefix [] s = Some s"
| "strip_prefix (p # ps) [] = None"
| "strip_prefix (p # ps) (b # s) = (if p = b then strip_prefix ps s else None)"

definition starts_with :: "bytes \<Rightarrow> bytes \<Rightarrow> bool" where
  "starts_with s p \<longleftrightarrow> strip_prefix p s \<noteq> None"

fun split_once :: "u8 \<Rightarrow> bytes \<Rightarrow> (bytes \<times> bytes) option" where
  "split_once c [] = None"
| "split_once c (b # s) =
     (if b = c then Some ([], s) else map_option (\<lambda>(l, r). (b # l, r)) (split_once c s))"

definition X_DASH :: bytes where "X_DASH = [0x78, HYPHEN]"

definition adapter_char :: "u8 \<Rightarrow> bool" where
  "adapter_char b \<longleftrightarrow> is_lower b \<or> is_ascii_digit b \<or> b = HYPHEN"

definition is_adapter_rail :: "bytes \<Rightarrow> bool" where
  "is_adapter_rail s = (case strip_prefix X_DASH s of
     None \<Rightarrow> False
   | Some rest \<Rightarrow> if starts_with rest X_DASH then False else within 1 32 rest \<and> matches rest adapter_char)"

section \<open>Chains, rails and assets\<close>

definition is_caip2 :: "bytes \<Rightarrow> bool" where
  "is_caip2 s = (case split_once COLON s of
     None \<Rightarrow> False
   | Some (namespace, reference) \<Rightarrow>
       if COLON \<in> set reference then False else is_caip_namespace namespace \<and> is_account reference 128)"

definition is_rail_id :: "bytes \<Rightarrow> bool" where
  "is_rail_id s \<longleftrightarrow> is_caip2 s \<or> is_adapter_rail s"

definition asset_char :: "u8 \<Rightarrow> bool" where
  "asset_char b \<longleftrightarrow> is_alphanumeric b \<or> b = 0x2E \<or> b = 0x25 \<or> b = HYPHEN"

definition is_asset_reference :: "bytes \<Rightarrow> bool" where
  "is_asset_reference s \<longleftrightarrow> within 1 128 s \<and> matches s asset_char"

definition is_asset_tail :: "bytes \<Rightarrow> bool" where
  "is_asset_tail tail = (case split_once COLON tail of
     Some (ns, r) \<Rightarrow> within 3 8 ns \<and> matches ns adapter_char \<and> is_asset_reference r
   | None \<Rightarrow> is_asset_reference tail)"

definition is_caip19_asset :: "bytes \<Rightarrow> bool" where
  "is_caip19_asset s = (case split_once SLASH s of
     Some (chain, tail) \<Rightarrow> is_caip2 chain \<and> is_asset_tail tail
   | None \<Rightarrow> False)"

section \<open>Pointers\<close>

definition MAX_POINTER_LEN :: nat where "MAX_POINTER_LEN = 512"

datatype pointer =
    Caip (raw: bytes) bytes bytes bytes
  | Adapter (raw: bytes) bytes bytes

definition pointer_parse :: "(nat list \<Rightarrow> nat list) \<Rightarrow> bytes \<Rightarrow> error + pointer" where
  "pointer_parse nfc s =
     (if MAX_POINTER_LEN < length s then Inl FieldDomain
      else and_then (validate_text nfc s) (\<lambda>_.
      if list_ex (\<lambda>b. b = 0x20 \<or> b = 0x09) s then Inl JsonGrammar
      else if starts_with s X_DASH then
        and_then (ok_or (split_once COLON s) JsonGrammar) (\<lambda>(rail_id, account).
        if \<not> is_adapter_rail rail_id \<or> \<not> is_account account 256 then Inl JsonGrammar
        else if starts_with s (X_DASH @ X_DASH) then Inl JsonGrammar
        else Inr (Adapter s rail_id account))
      else
        and_then (ok_or (split_once COLON s) JsonGrammar) (\<lambda>(namespace, after).
        and_then (ok_or (split_once COLON after) JsonGrammar) (\<lambda>(reference, account).
        if COLON \<in> set account then Inl JsonGrammar
        else if \<not> is_caip_namespace namespace \<or> \<not> is_account reference 128 \<or> \<not> is_account account 128
        then Inl JsonGrammar
        else Inr (Caip s namespace reference account)))))"

fun is_caip :: "pointer \<Rightarrow> bool" where
  "is_caip (Caip r n f a) = True"
| "is_caip (Adapter r i a) = False"

definition pointer_str :: "pointer \<Rightarrow> bytes" where
  "pointer_str p = raw p"

definition is_asset_id :: "(nat list \<Rightarrow> nat list) \<Rightarrow> bytes \<Rightarrow> bool \<Rightarrow> bool" where
  "is_asset_id nfc s allow_adapter =
     (if is_caip19_asset s then True
      else allow_adapter \<and> (case pointer_parse nfc s of Inr (Adapter r i a) \<Rightarrow> True | _ \<Rightarrow> False))"

section \<open>Registry identifiers\<close>

definition ident_char :: "u8 \<Rightarrow> bool" where
  "ident_char c \<longleftrightarrow> is_lower c \<or> is_ascii_digit c \<or> c = HYPHEN \<or> c = 0x2E"

definition validate_identifier :: "bytes \<Rightarrow> error + unit" where
  "validate_identifier s =
     (if s = [] \<or> 64 < length s then Inl JsonGrammar
      else if \<not> (is_lower (hd s) \<or> is_ascii_digit (hd s)) \<or> \<not> (is_lower (last s) \<or> is_ascii_digit (last s))
      then Inl JsonGrammar
      else if \<not> list_all ident_char s then Inl JsonGrammar
      else Inr ())"

section \<open>What the parsers accept\<close>

lemmas char_defs = COLON_def SLASH_def HYPHEN_def is_lower_def is_upper_def is_ascii_digit_def
  is_alphanumeric_def account_char_def adapter_char_def asset_char_def ident_char_def

lemma strip_prefix_Some: "strip_prefix p s = Some t \<longleftrightarrow> s = p @ t"
  by (induction p s rule: strip_prefix.induct) auto

lemma starts_with_iff: "starts_with s p \<longleftrightarrow> (\<exists>t. s = p @ t)"
  by (auto simp: starts_with_def strip_prefix_Some)

lemma split_once_Some: "split_once c s = Some (l, r) \<longleftrightarrow> s = l @ c # r \<and> c \<notin> set l"
proof (induction s arbitrary: l)
  case (Cons b s)
  then show ?case by (cases l) (auto simp: Cons_eq_append_conv)
qed simp

lemma split_once_None: "split_once c s = None \<longleftrightarrow> c \<notin> set s"
  by (induction s) auto

text \<open>No separator and no blank in any component.\<close>

lemma matches_absent: "matches s P \<Longrightarrow> \<not> P c \<Longrightarrow> c \<notin> set s"
  by (auto simp: matches_def list_all_iff)

abbreviation plain :: "bytes \<Rightarrow> bool" where
  "plain s \<equiv> COLON \<notin> set s \<and> SLASH \<notin> set s \<and> 0x20 \<notin> set s \<and> 0x09 \<notin> set s"

lemma namespace_chars: "is_caip_namespace s \<Longrightarrow> plain s \<and> HYPHEN \<notin> set s"
  unfolding is_caip_namespace_def by (intro conjI; elim conjE; erule matches_absent; simp add: char_defs)

lemma account_chars: "is_account s n \<Longrightarrow> plain s"
  unfolding is_account_def by (intro conjI; elim conjE; erule matches_absent; simp add: char_defs)

lemma asset_chars: "is_asset_reference s \<Longrightarrow> plain s"
  unfolding is_asset_reference_def by (intro conjI; elim conjE; erule matches_absent; simp add: char_defs)

lemma adapter_chars: "matches s adapter_char \<Longrightarrow> plain s"
  by (intro conjI; erule matches_absent; simp add: char_defs)

lemma is_caip2_iff:
  "is_caip2 s \<longleftrightarrow> (\<exists>n r. s = n @ COLON # r \<and> is_caip_namespace n \<and> is_account r 128)" (is "_ \<longleftrightarrow> ?R")
proof
  assume "is_caip2 s"
  then show ?R by (auto simp: is_caip2_def split_once_Some split: option.splits if_splits) blast
next
  assume ?R
  then obtain n r where s: "s = n @ COLON # r" "is_caip_namespace n" "is_account r 128" by blast
  then have "split_once COLON s = Some (n, r)" using namespace_chars by (simp add: split_once_Some)
  then show "is_caip2 s" using s account_chars by (simp add: is_caip2_def)
qed

lemma is_adapter_rail_iff:
  "is_adapter_rail s \<longleftrightarrow> (\<exists>r. s = X_DASH @ r \<and> \<not> starts_with r X_DASH \<and> within 1 32 r \<and> matches r adapter_char)"
proof (cases "strip_prefix X_DASH s")
  case None
  then have "\<And>r. s \<noteq> X_DASH @ r" by (metis option.distinct(1) strip_prefix_Some)
  then show ?thesis using None by (simp add: is_adapter_rail_def)
next
  case (Some r)
  then have "s = X_DASH @ r" by (simp add: strip_prefix_Some)
  then show ?thesis using Some by (auto simp: is_adapter_rail_def)
qed

lemma rail_chars: "is_adapter_rail s \<Longrightarrow> plain s"
  using adapter_chars by (fastforce simp: is_adapter_rail_iff X_DASH_def char_defs)

text \<open>The two forms of a pointer.\<close>

definition pointer_ok :: "(nat list \<Rightarrow> nat list) \<Rightarrow> pointer \<Rightarrow> bool" where
  "pointer_ok nfc p \<longleftrightarrow> length (raw p) \<le> MAX_POINTER_LEN \<and> validate_text nfc (raw p) = Inr () \<and>
     (case p of
        Caip r n f a \<Rightarrow> r = n @ COLON # f @ COLON # a \<and> is_caip_namespace n \<and> is_account f 128 \<and> is_account a 128
      | Adapter r i a \<Rightarrow> r = i @ COLON # a \<and> is_adapter_rail i \<and> is_account a 256)"

lemma double_prefix: "is_adapter_rail i \<Longrightarrow> \<not> starts_with (i @ COLON # a) (X_DASH @ X_DASH)"
  by (auto simp: is_adapter_rail_iff starts_with_iff X_DASH_def Cons_eq_append_conv append_eq_Cons_conv char_defs)

lemma namespace_no_x: "is_caip_namespace n \<Longrightarrow> \<not> starts_with (n @ COLON # t) X_DASH"
  by (auto simp: starts_with_iff X_DASH_def Cons_eq_append_conv append_eq_Cons_conv is_caip_namespace_def within_def
      matches_def char_defs)

lemma rail_starts: "is_adapter_rail i \<Longrightarrow> starts_with (i @ t) X_DASH"
  by (auto simp: is_adapter_rail_iff starts_with_iff)

lemma unblank: "list_ex (\<lambda>b. b = 0x20 \<or> b = 0x09) s \<longleftrightarrow> 0x20 \<in> set s \<or> 0x09 \<in> set (s :: bytes)"
  by (auto simp: list_ex_iff)

lemma colon_unblank: "COLON \<noteq> 0x20" "COLON \<noteq> 0x09"
  by (simp_all add: COLON_def)

lemma pointer_caip_iff:
  assumes "length s \<le> MAX_POINTER_LEN" "validate_text nfc s = Inr ()"
  shows "pointer_parse nfc s = Inr (Caip r n f a) \<longleftrightarrow>
    r = s \<and> s = n @ COLON # f @ COLON # a \<and> is_caip_namespace n \<and> is_account f 128 \<and> is_account a 128" (is "?L \<longleftrightarrow> ?R")
proof
  assume ?L
  then show ?R using assms by (auto simp: pointer_parse_def unblank split_once_Some split: if_splits)
next
  assume R: ?R
  then have p: "plain n" "plain f" "plain a" using namespace_chars account_chars by blast+
  have s: "s = n @ COLON # f @ COLON # a" using R by blast
  have "split_once COLON s = Some (n, f @ COLON # a)" "split_once COLON (f @ COLON # a) = Some (f, a)"
    using p by (simp_all add: split_once_Some s)
  moreover have "\<not> list_ex (\<lambda>b. b = 0x20 \<or> b = 0x09) s" using p colon_unblank by (simp add: unblank s)
  moreover have "\<not> starts_with s X_DASH" unfolding s using R by (intro namespace_no_x) blast
  ultimately show ?L using assms p R by (simp add: pointer_parse_def)
qed

lemma pointer_adapter_iff:
  assumes "length s \<le> MAX_POINTER_LEN" "validate_text nfc s = Inr ()"
  shows "pointer_parse nfc s = Inr (Adapter r i a) \<longleftrightarrow>
    r = s \<and> s = i @ COLON # a \<and> is_adapter_rail i \<and> is_account a 256" (is "?L \<longleftrightarrow> ?R")
proof
  assume ?L
  then show ?R using assms by (auto simp: pointer_parse_def unblank split_once_Some split: if_splits)
next
  assume R: ?R
  then have p: "plain i" "plain a" using rail_chars account_chars by blast+
  have s: "s = i @ COLON # a" using R by blast
  have "split_once COLON s = Some (i, a)" using p by (simp add: split_once_Some s)
  moreover have "\<not> list_ex (\<lambda>b. b = 0x20 \<or> b = 0x09) s" using p colon_unblank by (simp add: unblank s)
  moreover have "starts_with s X_DASH" "\<not> starts_with s (X_DASH @ X_DASH)"
    unfolding s using R rail_starts double_prefix by blast+
  ultimately show ?L using assms p R by (simp add: pointer_parse_def)
qed

theorem pointer_accepted: "pointer_parse nfc s = Inr p \<longleftrightarrow> pointer_ok nfc p \<and> s = raw p"
proof (cases "MAX_POINTER_LEN < length s \<or> validate_text nfc s \<noteq> Inr ()")
  case True
  then show ?thesis by (auto simp: pointer_parse_def pointer_ok_def)
next
  case False
  then have ok: "length s \<le> MAX_POINTER_LEN" "validate_text nfc s = Inr ()" by auto
  show ?thesis
    using pointer_caip_iff [OF ok] pointer_adapter_iff [OF ok] ok by (cases p) (auto simp: pointer_ok_def)
qed

text \<open>The vocabularies are pairwise disjoint.\<close>

lemma caip2_shape: "is_caip2 s \<Longrightarrow> SLASH \<notin> set s \<and> \<not> starts_with s X_DASH"
  using namespace_chars account_chars namespace_no_x by (fastforce simp: is_caip2_iff COLON_def SLASH_def)

lemma caip19_shape: "is_caip19_asset s \<Longrightarrow> SLASH \<in> set s \<and> \<not> starts_with s X_DASH"
proof -
  assume "is_caip19_asset s"
  then obtain chain tail where s: "s = chain @ SLASH # tail" "is_caip2 chain"
    by (auto simp: is_caip19_asset_def split_once_Some split: option.splits)
  obtain n r where "chain = n @ COLON # r" "is_caip_namespace n" using s(2) by (auto simp: is_caip2_iff)
  then have "\<not> starts_with (n @ COLON # (r @ SLASH # tail)) X_DASH" by (intro namespace_no_x)
  then show ?thesis using s \<open>chain = n @ COLON # r\<close> by simp
qed

lemma adapter_shape: "is_adapter_rail s \<Longrightarrow> COLON \<notin> set s \<and> SLASH \<notin> set s \<and> starts_with s X_DASH"
  using rail_chars rail_starts [of s "[]"] by simp

lemma caip_colons:
  assumes "is_caip_namespace n"
  shows "\<not> is_caip2 (n @ COLON # f @ COLON # a)"
proof -
  have "split_once COLON (n @ COLON # f @ COLON # a) = Some (n, f @ COLON # a)"
    using namespace_chars [OF assms] by (simp add: split_once_Some)
  then show ?thesis by (simp add: is_caip2_def)
qed

lemma pointer_shape:
  assumes "pointer_parse nfc s = Inr p"
  shows "COLON \<in> set s \<and> SLASH \<notin> set s \<and> \<not> is_caip2 s \<and> (starts_with s X_DASH \<longleftrightarrow> \<not> is_caip p)"
proof (cases p)
  case (Caip r n f a)
  then have s: "s = n @ COLON # f @ COLON # a" "is_caip_namespace n" "is_account f 128" "is_account a 128"
    using assms by (auto simp: pointer_accepted pointer_ok_def)
  then show ?thesis
    using namespace_chars account_chars caip_colons namespace_no_x Caip by (auto simp: COLON_def SLASH_def)
next
  case (Adapter r i a)
  then have s: "s = i @ COLON # a" "is_adapter_rail i" "is_account a 256"
    using assms by (auto simp: pointer_accepted pointer_ok_def)
  then have "starts_with s X_DASH" "SLASH \<notin> set s"
    using rail_starts rail_chars account_chars by (auto simp: COLON_def SLASH_def)
  then show ?thesis using caip2_shape [of s] s(1) Adapter by auto
qed

text \<open>Whether a text is a destination, a chain, a rail or an asset is decided by its bytes.\<close>

theorem forms_disjoint:
  "length (filter (\<lambda>form. form) [is_caip2 s, is_adapter_rail s, is_caip19_asset s, \<exists>p. pointer_parse nfc s = Inr p]) \<le> 1"
  using caip2_shape [of s] caip19_shape [of s] adapter_shape [of s] pointer_shape [of nfc s] by auto

end
