(* ===== verification/Registry.thy ===== *)
theory Registry
  imports Pointer Settle_Canonical
begin

text \<open>
  The governance constants (\<^verbatim>\<open>crates/paytp-core/src/consts.rs\<close>), the signed registry snapshot with its
  wire form, and the store of retained snapshots with the acceptance of versions and destinations
  (\<^verbatim>\<open>registry.rs\<close>). The ordered map of the store is a list ascending by version. The build feature
  \<open>demo-governance\<close> is the argument \<open>demo\<close>.
\<close>

section \<open>Constants\<close>

definition SCHEMA_V0_1 :: u32 where "SCHEMA_V0_1 = 0x01"
definition ROLE_INTERACTION_LAYER :: u8 where "ROLE_INTERACTION_LAYER = 0x10"
definition ROLE_OS :: u8 where "ROLE_OS = 0x11"
definition ROLE_WALLET :: u8 where "ROLE_WALLET = 0x12"
definition ROLE_DEV_FUND :: u8 where "ROLE_DEV_FUND = 0x13"

definition SCHEMA_01_ROLES :: "(u8 \<times> u16) list" where
  "SCHEMA_01_ROLES = [(ROLE_INTERACTION_LAYER, 50), (ROLE_OS, 10), (ROLE_WALLET, 30), (ROLE_DEV_FUND, 10)]"

definition MEED_BASE_BP :: u16 where "MEED_BASE_BP = 100"

definition DEV_FUND_DEST_PLACEHOLDER :: bytes where
  "DEV_FUND_DEST_PLACEHOLDER = ascii ''eip155:0:PLACEHOLDER-release-bound-dev-fund''"

definition INDEPENDENT_OS_FUND_DEST_PLACEHOLDER :: bytes where
  "INDEPENDENT_OS_FUND_DEST_PLACEHOLDER = ascii ''eip155:0:PLACEHOLDER-release-bound-independent-os-fund''"

definition FOUNDATION_REGISTRY_KEY_PLACEHOLDER :: bytes where
  "FOUNDATION_REGISTRY_KEY_PLACEHOLDER = replicate 32 0x11"

definition SKEW_SECS :: u64 where "SKEW_SECS = 300"
definition LATENCY_SECS :: u64 where "LATENCY_SECS = 300"

lemmas role_defs = ROLE_INTERACTION_LAYER_def ROLE_OS_def ROLE_WALLET_def ROLE_DEV_FUND_def

definition is_base_role :: "u8 \<Rightarrow> bool" where
  "is_base_role r \<longleftrightarrow> list_ex (\<lambda>(r', b). r' = r) SCHEMA_01_ROLES"

definition base_bp :: "u8 \<Rightarrow> u16 option" where
  "base_bp r = map_option snd (List.find (\<lambda>(r', b). r' = r) SCHEMA_01_ROLES)"

text \<open>\<open>str::contains\<close>.\<close>

fun str_contains :: "bytes \<Rightarrow> bytes \<Rightarrow> bool" where
  "str_contains [] p = starts_with [] p"
| "str_contains (b # s) p = (starts_with (b # s) p \<or> str_contains s p)"

definition governance_constants_are_placeholders :: bool where
  "governance_constants_are_placeholders \<longleftrightarrow>
     str_contains DEV_FUND_DEST_PLACEHOLDER (ascii ''PLACEHOLDER'')
     \<or> str_contains INDEPENDENT_OS_FUND_DEST_PLACEHOLDER (ascii ''PLACEHOLDER'')
     \<or> FOUNDATION_REGISTRY_KEY_PLACEHOLDER = replicate 32 0x11"

definition ensure_governance_ready :: "bool \<Rightarrow> error + unit" where
  "ensure_governance_ready demo =
     (if demo \<or> \<not> governance_constants_are_placeholders then Inr () else Inl PlaceholderGovernance)"

lemma ensure_governance [simp]: "ensure_governance_ready demo = Inr () \<longleftrightarrow> demo"
  by (simp add: ensure_governance_ready_def governance_constants_are_placeholders_def FOUNDATION_REGISTRY_KEY_PLACEHOLDER_def)

section \<open>Snapshots\<close>

definition R_VERSION :: u8 where "R_VERSION = 0x00"
definition R_KIND :: u8 where "R_KIND = 0x01"
definition R_ISSUED :: u8 where "R_ISSUED = 0x02"
definition R_WINDOW_FLOOR :: u8 where "R_WINDOW_FLOOR = 0x03"
definition R_OS_RECIPIENTS :: u8 where "R_OS_RECIPIENTS = 0x04"
definition R_REVOKED :: u8 where "R_REVOKED = 0x05"
definition R_RATE_SOURCES :: u8 where "R_RATE_SOURCES = 0x06"
definition R_SIGNATURE :: u8 where "R_SIGNATURE = 0x70"

lemmas registry_types = R_VERSION_def R_KIND_def R_ISSUED_def R_WINDOW_FLOOR_def R_OS_RECIPIENTS_def
  R_REVOKED_def R_RATE_SOURCES_def R_SIGNATURE_def

datatype snapshot_kind = Rotation | Revocation

record snapshot =
  sn_version :: u32
  sn_kind :: snapshot_kind
  sn_issued :: u64
  sn_window_floor :: u32
  sn_os_recipients :: "(bytes \<times> bytes) list"
  sn_revoked :: "u32 list"
  sn_rate_sources :: "(bytes \<times> bytes) list"
  sn_sig :: bytes

definition snapshot_schema :: schema where
  "snapshot_schema = schema_new Open
     [(R_VERSION, False), (R_KIND, False), (R_ISSUED, False), (R_WINDOW_FLOOR, False), (R_OS_RECIPIENTS, False),
      (R_REVOKED, False), (R_RATE_SOURCES, False), (R_SIGNATURE, False)]"

definition encode_id_value :: "bytes \<times> bytes \<Rightarrow> bytes" where
  "encode_id_value x = (case x of (ident, value) \<Rightarrow>
     leb_encode (of_nat (length ident)) @ ident @ leb_encode (of_nat (length value)) @ value)"

text \<open>\<open>std::str::from_utf8\<close> with the error of this file.\<close>

definition utf8_string :: "bytes \<Rightarrow> error + bytes" where
  "utf8_string s = (if utf8_decode s = None then Inl TextNotUtf8 else Inr s)"

definition parse_id_value :: "bytes \<Rightarrow> error + (bytes \<times> bytes) \<times> nat" where
  "parse_id_value buf =
     and_then (leb_decode buf) (\<lambda>(id_len, n1).
     let e1 = n1 + unat id_len in
     if length buf < e1 then Inl LengthOverrun
     else
       and_then (utf8_string (take (unat id_len) (drop n1 buf))) (\<lambda>ident.
       and_then (leb_decode (drop e1 buf)) (\<lambda>(v_len, n2).
       let s2 = e1 + n2; e2 = s2 + unat v_len in
       if length buf < e2 then Inl LengthOverrun
       else and_then (utf8_string (take (unat v_len) (drop s2 buf))) (\<lambda>value. Inr ((ident, value), e2)))))"

definition kind_byte :: "snapshot_kind \<Rightarrow> u8" where
  "kind_byte k = (case k of Rotation \<Rightarrow> 0x00 | Revocation \<Rightarrow> 0x01)"

definition snapshot_covered :: "object \<Rightarrow> bytes" where
  "snapshot_covered obj = covered Envelope.Registry (covered_bytes obj [])"

definition snapshot_to_object :: "bool \<Rightarrow> snapshot \<Rightarrow> error + object" where
  "snapshot_to_object include_sig s =
     from_fields
       ([field_new R_VERSION False (encode_uint_u128 (ucast (sn_version s))),
         field_new R_KIND False [kind_byte (sn_kind s)],
         field_new R_ISSUED False (encode_uint_u128 (ucast (sn_issued s))),
         field_new R_WINDOW_FLOOR False (encode_uint_u128 (ucast (sn_window_floor s))),
         field_new R_OS_RECIPIENTS False (build_count_prefixed (map encode_id_value (sn_os_recipients s))),
         field_new R_RATE_SOURCES False (build_count_prefixed (map encode_id_value (sn_rate_sources s)))]
        @ (if sn_kind s = Revocation
           then [field_new R_REVOKED False (build_count_prefixed (map (\<lambda>v. leb_encode (ucast v)) (sn_revoked s)))] else [])
        @ (if include_sig then [field_new R_SIGNATURE False (sn_sig s)] else []))"

definition snapshot_sign :: "crypto_suite \<Rightarrow> bytes \<Rightarrow> snapshot \<Rightarrow> error + snapshot" where
  "snapshot_sign cs sk s =
     and_then (snapshot_to_object False s) (\<lambda>obj. Inr (s\<lparr>sn_sig := ed25519_sign cs sk (snapshot_covered obj)\<rparr>))"

definition snapshot_encode :: "snapshot \<Rightarrow> error + bytes" where
  "snapshot_encode s = and_then (snapshot_to_object True s) (\<lambda>obj. Inr (object_encode obj))"

definition check_ascending_ids :: "(bytes \<times> bytes) list \<Rightarrow> error + unit" where
  "check_ascending_ids items = check_pairs (\<lambda>a b. bytes_less (fst a) (fst b)) items"

definition parse_kind :: "bytes \<Rightarrow> error + snapshot_kind" where
  "parse_kind v = (if v = [0x00] then Inr Rotation else if v = [0x01] then Inr Revocation else Inl FieldDomain)"

definition check_recipient :: "(nat list \<Rightarrow> nat list) \<Rightarrow> bytes \<times> bytes \<Rightarrow> error + unit" where
  "check_recipient nfc x =
     and_then (validate_identifier (fst x)) (\<lambda>_.
     and_then (pointer_parse nfc (snd x)) (\<lambda>p. if \<not> is_caip p then Inl JsonGrammar else Inr ()))"

definition parse_revoked_version :: "bytes \<Rightarrow> error + u32 \<times> nat" where
  "parse_revoked_version b =
     and_then (leb_decode b) (\<lambda>(v, n). and_then (ok_or (try_from v) FieldDomain) (\<lambda>v. Inr (v, n)))"

definition parse_revoked :: "object \<Rightarrow> snapshot_kind \<Rightarrow> error + u32 list" where
  "parse_revoked obj kind =
     (case object_get obj R_REVOKED of
        Some f \<Rightarrow>
          if kind \<noteq> Revocation then Inl UnexpectedType
          else and_then (parse_count_prefixed (fvalue f) parse_revoked_version) (\<lambda>vs.
               and_then (check_pairs (<) vs) (\<lambda>_. Inr vs))
      | None \<Rightarrow> if kind = Revocation then Inl MissingField else Inr [])"

definition check_rate_source :: "(nat list \<Rightarrow> nat list) \<Rightarrow> bytes \<times> bytes \<Rightarrow> error + unit" where
  "check_rate_source nfc x = and_then (validate_identifier (fst x)) (\<lambda>_. validate_text nfc (snd x))"

definition snapshot_parse_verify ::
  "crypto_suite \<Rightarrow> (nat list \<Rightarrow> nat list) \<Rightarrow> bytes \<Rightarrow> bytes \<Rightarrow> error + snapshot" where
  "snapshot_parse_verify cs nfc buf foundation_key =
     and_then (object_parse buf) (\<lambda>obj.
     and_then (object_validate obj snapshot_schema) (\<lambda>_.
     and_then (and_then (get_value obj R_VERSION) decode_uint_u32) (\<lambda>version.
     and_then (and_then (get_value obj R_KIND) parse_kind) (\<lambda>kind.
     and_then (and_then (get_value obj R_ISSUED) decode_uint_time) (\<lambda>issued.
     and_then (and_then (get_value obj R_WINDOW_FLOOR) decode_uint_u32) (\<lambda>window_floor.
     and_then (and_then (get_value obj R_OS_RECIPIENTS) (\<lambda>v. parse_count_prefixed v parse_id_value)) (\<lambda>os.
     and_then (check_ascending_ids os) (\<lambda>_.
     and_then (for_each (check_recipient nfc) os) (\<lambda>_.
     and_then (parse_revoked obj kind) (\<lambda>revoked.
     and_then (and_then (get_value obj R_RATE_SOURCES) (\<lambda>v. parse_count_prefixed v parse_id_value)) (\<lambda>rates.
     and_then (check_ascending_ids rates) (\<lambda>_.
     and_then (for_each (check_rate_source nfc) rates) (\<lambda>_.
     and_then (and_then (get_value obj R_SIGNATURE) (fixed_bytes 64)) (\<lambda>sig.
     and_then (verify_sig cs foundation_key (snapshot_covered obj) sig) (\<lambda>_.
     Inr \<lparr>sn_version = version, sn_kind = kind, sn_issued = issued, sn_window_floor = window_floor,
          sn_os_recipients = os, sn_revoked = revoked, sn_rate_sources = rates, sn_sig = sig\<rparr>)))))))))))))))"

definition resolve_os :: "snapshot \<Rightarrow> bytes \<Rightarrow> bytes option" where
  "resolve_os s ident = map_option snd (List.find (\<lambda>(rid, d). rid = ident) (sn_os_recipients s))"

section \<open>The store of snapshots\<close>

type_synonym snapshot_store = "(u32 \<times> snapshot) list"

definition store_insert :: "snapshot \<Rightarrow> snapshot_store \<Rightarrow> snapshot_store" where
  "store_insert s st = map_insert (sn_version s) s st"

definition tip :: "snapshot_store \<Rightarrow> snapshot option" where
  "tip st = (if st = [] then None else Some (snd (last st)))"

definition snapshot_at :: "snapshot_store \<Rightarrow> u32 \<Rightarrow> snapshot option" where
  "snapshot_at st version = map_of st version"

definition version_accepted :: "snapshot_store \<Rightarrow> u32 \<Rightarrow> bool" where
  "version_accepted st version = (case tip st of
     None \<Rightarrow> False
   | Some t \<Rightarrow>
       if version < sn_window_floor t \<or> sn_version t < version then False
       else \<not> list_ex (\<lambda>(k, s). version \<in> set (sn_revoked s)) st)"

definition resolve_os_destination :: "bool \<Rightarrow> snapshot_store \<Rightarrow> u32 \<Rightarrow> bytes option \<Rightarrow> error + bytes" where
  "resolve_os_destination demo st named_version asserted_os =
     and_then (ensure_governance_ready demo) (\<lambda>_.
     if \<not> version_accepted st named_version then Inl FieldDomain
     else and_then (ok_or (snapshot_at st named_version) MissingField) (\<lambda>snap.
       Inr (case Option.bind asserted_os (resolve_os snap) of
              Some d \<Rightarrow> d
            | None \<Rightarrow> INDEPENDENT_OS_FUND_DEST_PLACEHOLDER)))"

definition os_destination_accepted :: "bool \<Rightarrow> snapshot_store \<Rightarrow> u32 \<Rightarrow> bytes \<Rightarrow> error + unit" where
  "os_destination_accepted demo st named_version d =
     and_then (ensure_governance_ready demo) (\<lambda>_.
     if tip st \<noteq> None \<and> \<not> version_accepted st named_version then Inl FieldDomain
     else if d = INDEPENDENT_OS_FUND_DEST_PLACEHOLDER then Inr ()
     else (case snapshot_at st named_version of
             Some snap \<Rightarrow> if list_ex (\<lambda>(i, d'). d' = d) (sn_os_recipients snap) then Inr () else Inl FieldDomain
           | None \<Rightarrow> Inl FieldDomain))"

section \<open>The wire form of a snapshot\<close>

definition id_value_ok :: "bytes \<times> bytes \<Rightarrow> bool" where
  "id_value_ok x \<longleftrightarrow> utf8_decode (fst x) \<noteq> None \<and> length (fst x) < 2 ^ 32 \<and> utf8_decode (snd x) \<noteq> None \<and> length (snd x) < 2 ^ 32"

lemma utf8_string_Inr [simp]: "utf8_string s = Inr t \<longleftrightarrow> utf8_decode s \<noteq> None \<and> t = s"
  by (auto simp: utf8_string_def)

lemma encode_id_value_parts: "encode_id_value x = push_lp [] (fst x) @ push_lp [] (snd x)"
  by (cases x) (simp add: encode_id_value_def push_lp_def)

lemma parse_id_value_eq: "parse_id_value b =
    and_then (read_lp b) (\<lambda>(i, n1). and_then (utf8_string i) (\<lambda>i.
    and_then (read_lp (drop n1 b)) (\<lambda>(v, n2). and_then (utf8_string v) (\<lambda>v. Inr ((i, v), n1 + n2)))))"
proof (cases "leb_decode b")
  case (Inr r)
  obtain l n where r: "leb_decode b = Inr (l, n)" using Inr by (cases r) simp
  let ?e = "n + unat l"
  show ?thesis
  proof (cases "length b < ?e \<or> utf8_decode (take (unat l) (drop n b)) = None")
    case True
    then show ?thesis by (auto simp: parse_id_value_def read_lp_def r Let_def utf8_string_def)
  next
    case False
    then have ok: "\<not> length b < ?e" "utf8_decode (take (unat l) (drop n b)) \<noteq> None" by auto
    show ?thesis
    proof (cases "leb_decode (drop ?e b)")
      case (Inr r')
      obtain l' n' where r': "leb_decode (drop ?e b) = Inr (l', n')" using Inr by (cases r') simp
      have "length b - ?e < n' + unat l' \<longleftrightarrow> length b < ?e + n' + unat l'" using ok(1) by linarith
      then show ?thesis using ok r'
        by (simp add: parse_id_value_def read_lp_def r Let_def utf8_string_def ac_simps)
    qed (use ok in \<open>simp add: parse_id_value_def read_lp_def r Let_def utf8_string_def\<close>)
  qed
qed (simp add: parse_id_value_def read_lp_def)

lemma parse_id_value_Inr: "parse_id_value b = Inr (x, k) \<longleftrightarrow>
    (\<exists>n1 n2. read_lp b = Inr (fst x, n1) \<and> utf8_decode (fst x) \<noteq> None
      \<and> read_lp (drop n1 b) = Inr (snd x, n2) \<and> utf8_decode (snd x) \<noteq> None \<and> k = n1 + n2)"
  by (cases x) (auto simp: parse_id_value_eq)

interpretation id_value: tlv_item id_value_ok encode_id_value parse_id_value
proof unfold_locales
  fix x rest assume ok: "id_value_ok x"
  then show "parse_id_value (encode_id_value x @ rest) = Inr (x, length (encode_id_value x))"
    using lp.decode_front [of "fst x" "push_lp [] (snd x) @ rest"] lp.decode_front [of "snd x" rest]
    by (auto simp: parse_id_value_Inr encode_id_value_parts id_value_ok_def)
next
  fix b x k assume "parse_id_value b = Inr (x, k)"
  then obtain n1 n2 where r: "read_lp b = Inr (fst x, n1)" "read_lp (drop n1 b) = Inr (snd x, n2)" "k = n1 + n2"
      "utf8_decode (fst x) \<noteq> None" "utf8_decode (snd x) \<noteq> None"
    by (auto simp: parse_id_value_Inr)
  note c = lp.consumed [OF r(1)] lp.consumed [OF r(2)]
  have "b = encode_id_value x @ drop n2 (drop n1 b)"
    using c by (metis encode_id_value_parts append_assoc)
  moreover have "length (encode_id_value x) = k" using c r(3) by (simp add: encode_id_value_parts)
  ultimately have "k \<le> length b \<and> encode_id_value x = take k b" by (rule front_take)
  then show "id_value_ok x \<and> k \<le> length b \<and> encode_id_value x = take k b"
    using lp.encode_front [OF r(1)] lp.encode_front [OF r(2)] r(4,5) by (simp add: id_value_ok_def)
qed (simp add: encode_id_value_parts)

lemma unat_widen [simp]:
  "unat (ucast (v :: u32) :: u64) = unat v" "unat (ucast (v :: u32) :: u128) = unat v" "unat (ucast (w :: u64) :: u128) = unat w"
  using unat_lt2p [of v] unat_lt2p [of w] by (simp_all add: unat_ucast_small)

interpretation revoked_version: tlv_item "\<lambda>_. True" "\<lambda>v :: u32. leb_encode (ucast v)" parse_revoked_version
proof unfold_locales
  fix v :: u32 and rest :: bytes
  have "unat v < 2 ^ 32" using unat_lt2p [of v] by simp
  then have "(ucast v :: u64) \<le> LEB_MAX" by (simp add: word_le_nat_alt unat_LEB_MAX)
  then show "parse_revoked_version (leb_encode (ucast v) @ rest) = Inr (v, length (leb_encode (ucast v)))"
    using leb.decode_front [of "ucast v" rest] \<open>unat v < 2 ^ 32\<close> by (simp add: parse_revoked_version_def try_from_Some)
next
  fix b and v :: u32 and k :: nat assume "parse_revoked_version b = Inr (v, k)"
  then obtain w where w: "leb_decode b = Inr (w, k)" "unat v = unat w"
    by (auto simp: parse_revoked_version_def try_from_Some)
  then have "w = ucast v" by (simp add: word_unat_eq_iff)
  then show "True \<and> k \<le> length b \<and> leb_encode (ucast v) = take k b" using leb.encode_front [OF w(1)] by simp
next
  fix v :: u32
  show "leb_encode (ucast v) \<noteq> []" by (subst leb_encode.simps) (simp add: Let_def)
qed

definition snapshot_slots :: "snapshot \<Rightarrow> slot list" where
  "snapshot_slots s =
     [(R_VERSION, Some (encode_uint_u128 (ucast (sn_version s)))),
      (R_KIND, Some [kind_byte (sn_kind s)]),
      (R_ISSUED, Some (encode_uint_u128 (ucast (sn_issued s)))),
      (R_WINDOW_FLOOR, Some (encode_uint_u128 (ucast (sn_window_floor s)))),
      (R_OS_RECIPIENTS, Some (build_count_prefixed (map encode_id_value (sn_os_recipients s)))),
      (R_REVOKED, if sn_kind s = Revocation
         then Some (build_count_prefixed (map (\<lambda>v. leb_encode (ucast v)) (sn_revoked s))) else None),
      (R_RATE_SOURCES, Some (build_count_prefixed (map encode_id_value (sn_rate_sources s))))]"

lemma snapshot_slots_ascending [simp]:
  "sorted_wrt (<) (map fst (snapshot_slots s))" "sorted_wrt (<) (map fst (snapshot_slots s @ [(R_SIGNATURE, v)]))"
  by (simp_all add: snapshot_slots_def registry_types)

lemma snapshot_object:
  "snapshot_to_object False s = Inr (Object (slot_fields (snapshot_slots s)))"
  "snapshot_to_object True s = Inr (Object (slot_fields (snapshot_slots s @ [(R_SIGNATURE, Some (sn_sig s))])))"
  by (simp_all add: snapshot_to_object_def snapshot_slots_def registry_types from_fields_eq)

text \<open>The values the parser accepts.\<close>

definition snapshot_ok :: "(nat list \<Rightarrow> nat list) \<Rightarrow> snapshot \<Rightarrow> bool" where
  "snapshot_ok nfc s \<longleftrightarrow>
     unat (sn_issued s) \<le> 2 ^ 53 - 1 \<and>
     list_all id_value_ok (sn_os_recipients s) \<and> length (sn_os_recipients s) < 2 ^ 32 \<and>
     check_ascending_ids (sn_os_recipients s) = Inr () \<and> (\<forall>x \<in> set (sn_os_recipients s). check_recipient nfc x = Inr ()) \<and>
     (if sn_kind s = Revocation then length (sn_revoked s) < 2 ^ 32 \<and> sorted_wrt (<) (sn_revoked s) else sn_revoked s = []) \<and>
     list_all id_value_ok (sn_rate_sources s) \<and> length (sn_rate_sources s) < 2 ^ 32 \<and>
     check_ascending_ids (sn_rate_sources s) = Inr () \<and> (\<forall>x \<in> set (sn_rate_sources s). check_rate_source nfc x = Inr ()) \<and>
     length (sn_sig s) = 64"

lemma parse_kind_Inr [simp]: "parse_kind v = Inr k \<longleftrightarrow> v = [kind_byte k]"
  by (cases k) (auto simp: parse_kind_def kind_byte_def)

lemma sorted_words: "successively (<) vs \<longleftrightarrow> sorted_wrt (<) (vs :: 'a::len word list)"
  by (simp add: successively_conv_sorted_wrt transp_def)

lemma parse_revoked_lookup:
  "parse_revoked obj kind = Inr vs \<longleftrightarrow>
   (if kind = Revocation
    then lookup obj R_REVOKED = Some (build_count_prefixed (map (\<lambda>v. leb_encode (ucast v)) vs)) \<and> length vs < 2 ^ 32 \<and> sorted_wrt (<) vs
    else lookup obj R_REVOKED = None \<and> vs = [])"
  by (auto simp: parse_revoked_def lookup_def revoked_version.counted.accepted_iff sorted_words list_all_iff
      split: option.splits)

theorem snapshot_parse_iff:
  "snapshot_parse_verify cs nfc bs fk = Inr s \<longleftrightarrow>
   (\<exists>obj. object_parse bs = Inr obj \<and> object_validate obj snapshot_schema = Inr ()
      \<and> (\<forall>(t, v) \<in> set (snapshot_slots s @ [(R_SIGNATURE, Some (sn_sig s))]). lookup obj t = v)
      \<and> snapshot_ok nfc s \<and> ed25519_verify_strict cs fk (snapshot_covered obj) (sn_sig s))"
  by (cases s) (auto simp: snapshot_parse_verify_def slot_read parse_revoked_lookup uint_word_accepted uint_time_accepted
      id_value.counted.accepted_iff encode_uint_u128_eq snapshot_slots_def snapshot_ok_def verify_sig_def
      simp del: get_value_Inr split: if_splits)

text \<open>What a signature covers: everything but the one authenticator, known or not.\<close>

lemma snapshot_schema_known: "known snapshot_schema t = Some sp \<longleftrightarrow> t \<in> {R_VERSION, R_KIND, R_ISSUED, R_WINDOW_FLOOR,
    R_OS_RECIPIENTS, R_REVOKED, R_RATE_SOURCES, R_SIGNATURE} \<and> sp = \<lparr>spec_critical = False\<rparr>"
  by (auto simp: snapshot_schema_def schema_new_def registry_types split: if_splits)

lemma authenticator_is_signature:
  assumes "object_validate obj snapshot_schema = Inr ()" "f \<in> set (obj_fields obj)"
  shows "is_authenticator f [] \<longleftrightarrow> type_num f = R_SIGNATURE"
proof
  have v: "validate_field snapshot_schema f = Inr ()" using assms by (simp add: object_validate_Inr)
  assume a: "is_authenticator f []"
  then have "known snapshot_schema (type_num f) \<noteq> None"
    using v by (auto simp: validate_field_def is_authenticator_def split: option.splits)
  then show "type_num f = R_SIGNATURE"
    using a by (auto simp: snapshot_schema_known is_authenticator_def registry_types) (simp add: word_le_nat_alt)
qed (simp add: is_authenticator_def registry_types)

lemma signature_not_critical:
  assumes "object_validate obj snapshot_schema = Inr ()" "f \<in> set (obj_fields obj)" "type_num f = R_SIGNATURE"
  shows "f = field_new R_SIGNATURE False (fvalue f)"
proof -
  have "validate_field snapshot_schema f = Inr ()" using assms(1,2) by (simp add: object_validate_Inr)
  moreover have "known snapshot_schema R_SIGNATURE = Some \<lparr>spec_critical = False\<rparr>" by (simp add: snapshot_schema_known)
  ultimately show ?thesis using assms(3) by (auto simp: validate_field_def field_new_eq split: if_splits)
qed

lemma ascending_set_eq:
  assumes "object_ok a" "object_ok b" "set (obj_fields a) = set (obj_fields b)"
  shows "a = b"
proof -
  have "obj_fields a = obj_fields b"
    using assms by (intro strict_map_set_eq [of type_num]) (simp_all add: object_ok_iff)
  then show ?thesis by (cases a; cases b) simp
qed

lemma covered_fields:
  assumes "object_ok a" "object_ok b" "covered_bytes a [] = covered_bytes b []"
  shows "filter (\<lambda>f. \<not> is_authenticator f []) (obj_fields a) = filter (\<lambda>f. \<not> is_authenticator f []) (obj_fields b)"
proof -
  let ?u = "\<lambda>o'. Object (filter (\<lambda>f. \<not> is_authenticator f []) (obj_fields o'))"
  have ok: "object_ok (?u o')" if "object_ok o'" for o'
    using that by (auto simp: object_ok_iff list_all_iff sorted_wrt_map intro: sorted_wrt_filter)
  have "object_encode (?u a) = object_encode (?u b)" using assms(3) by (simp add: covered_bytes_def object_encode_def)
  then have "?u a = ?u b" using object.encode_inj [OF ok [OF assms(1)] ok [OF assms(2)]] by blast
  then show ?thesis by simp
qed

lemma covered_same_label: "covered l x = covered l y \<longleftrightarrow> x = y"
  by (simp add: covered_def labelled_def)

lemma snapshot_tamper:
  assumes a: "snapshot_parse_verify cs nfc bs fk = Inr s" "object_parse bs = Inr a"
    and b: "snapshot_parse_verify cs nfc bs' fk' = Inr s'" "object_parse bs' = Inr b"
    and same: "snapshot_covered a = snapshot_covered b" "sn_sig s = sn_sig s'"
  shows "bs = bs'"
proof -
  have va: "object_validate a snapshot_schema = Inr ()" "lookup a R_SIGNATURE = Some (sn_sig s)"
    using a by (auto simp: snapshot_parse_iff)
  have vb: "object_validate b snapshot_schema = Inr ()" "lookup b R_SIGNATURE = Some (sn_sig s')"
    using b by (auto simp: snapshot_parse_iff)
  have ok: "object_ok a" "object_encode a = bs" "object_ok b" "object_encode b = bs'"
    using object.encode_decode [OF a(2)] object.encode_decode [OF b(2)] by auto
  have "covered_bytes a [] = covered_bytes b []" using same(1) by (simp add: snapshot_covered_def covered_same_label)
  note f = covered_fields [OF ok(1,3) this]
  have split: "set (obj_fields o') = set (filter (\<lambda>f. \<not> is_authenticator f []) (obj_fields o')) \<union> {field_new R_SIGNATURE False g}"
    if v: "object_validate o' snapshot_schema = Inr ()" "lookup o' R_SIGNATURE = Some g" "object_ok o'" for o' g
  proof -
    obtain x where x: "object_get o' R_SIGNATURE = Some x" "fvalue x = g" using v(2) by (auto simp: lookup_def)
    then have m: "x \<in> set (obj_fields o')" "type_num x = R_SIGNATURE" using object_get_Some [OF v(3)] by auto
    have "y = field_new R_SIGNATURE False g" if "y \<in> set (obj_fields o')" "is_authenticator y []" for y
    proof -
      have "type_num y = R_SIGNATURE" using authenticator_is_signature [OF v(1) that(1)] that(2) by simp
      then have "object_get o' R_SIGNATURE = Some y" using object_get_Some [OF v(3)] that(1) by auto
      then show ?thesis using x signature_not_critical [OF v(1) that(1)] \<open>type_num y = R_SIGNATURE\<close> by simp
    qed
    then show ?thesis using m x signature_not_critical [OF v(1) m] by auto
  qed
  have "set (obj_fields a) = set (obj_fields b)"
    unfolding split [OF va ok(1)] split [OF vb ok(3)] f same(2) ..
  then have "a = b" by (rule ascending_set_eq [OF ok(1,3)])
  then show ?thesis using ok by simp
qed

lemma snapshot_roundtrip_slots:
  assumes ok: "snapshot_ok nfc s" "slots_ok (snapshot_slots s @ [(R_SIGNATURE, Some (sn_sig s))])"
    and v: "snapshot_to_object False s = Inr u" "ed25519_verify_strict cs fk (snapshot_covered u) (sn_sig s)"
    and e: "snapshot_encode s = Inr bs"
  shows "snapshot_parse_verify cs nfc bs fk = Inr s"
proof -
  let ?slots = "snapshot_slots s @ [(R_SIGNATURE, Some (sn_sig s))]"
  let ?obj = "Object (slot_fields ?slots)"
  have bs: "bs = object_encode ?obj" using e by (simp add: snapshot_encode_def snapshot_object)
  have "object_ok ?obj" using ok(2) slot_fields_ascending [OF snapshot_slots_ascending(2)] by (simp add: object_ok_iff slots_ok_def)
  then have p: "object_parse bs = Inr ?obj" unfolding bs by (rule object.decode_encode)
  have "validate_field snapshot_schema f = Inr ()" if "f \<in> set (slot_fields ?slots)" for f
  proof -
    have "type_num f \<in> fst ` set ?slots" "\<not> critical f" using slot_fields_type [OF that] slot_fields_plain [OF that] by auto
    then have "known snapshot_schema (type_num f) = Some \<lparr>spec_critical = False\<rparr>"
      by (auto simp: snapshot_schema_known snapshot_slots_def)
    then show ?thesis using \<open>\<not> critical f\<close> by (simp add: validate_field_def)
  qed
  then have "object_validate ?obj snapshot_schema = Inr ()" by (simp add: object_validate_Inr)
  moreover have "\<forall>(t, v) \<in> set ?slots. lookup ?obj t = v" using lookup_slots [OF snapshot_slots_ascending(2)] by blast
  moreover have "snapshot_covered ?obj = snapshot_covered u"
  proof -
    have "u = Object (slot_fields (snapshot_slots s))" using v(1) by (simp add: snapshot_object)
    moreover have "\<not> is_authenticator f []" if "f \<in> set (slot_fields (snapshot_slots s))" for f
      using slot_fields_type [OF that] by (auto simp: is_authenticator_def snapshot_slots_def registry_types) (simp add: word_le_nat_alt)
    then have "filter (\<lambda>f. \<not> is_authenticator f []) (slot_fields (snapshot_slots s)) = slot_fields (snapshot_slots s)"
      by (auto intro!: filter_True)
    moreover have "slot_fields ?slots = slot_fields (snapshot_slots s) @ [field_new R_SIGNATURE False (sn_sig s)]"
      by (simp add: slot_fields_def optional_field_def)
    moreover have "is_authenticator (field_new R_SIGNATURE False (sn_sig s)) []" by (simp add: is_authenticator_def registry_types)
    ultimately show ?thesis by (simp add: snapshot_covered_def covered_bytes_def)
  qed
  ultimately show ?thesis using p ok(1) v(2) by (auto simp: snapshot_parse_iff)
qed

end
