(* ===== verification/Governed.thy ===== *)
theory Governed
  imports Registry
begin

text \<open>
  Who may receive the meed: the header of role assertions (\<^verbatim>\<open>crates/paytp-core/src/tier0/roles.rs\<close>) and the
  checks of a meed vector that quotes and channel authorizations share (\<^verbatim>\<open>tier0/quote.rs\<close>): the shape of
  schema 1, the governed destinations, and the payer side's own shares. A vector is a list of role,
  basis points and destination.
\<close>

section \<open>Role assertions\<close>

definition T_ROLES :: u8 where "T_ROLES = 0x00"

record role_assertion =
  ra_role :: u8
  ra_value :: bytes

definition role_item :: "role_assertion \<Rightarrow> bytes" where
  "role_item a = ra_role a # leb_encode (of_nat (length (ra_value a))) @ ra_value a"

definition roles_encode :: "role_assertion list \<Rightarrow> error + bytes" where
  "roles_encode items =
     and_then (from_fields [field_new T_ROLES False (build_count_prefixed (map role_item items))]) (\<lambda>obj.
     Inr (object_encode obj))"

definition parse_role :: "bytes \<Rightarrow> error + role_assertion \<times> nat" where
  "parse_role b =
     (if b = [] then Inl CountMismatch
      else
        and_then (leb_decode (drop 1 b)) (\<lambda>(len, n).
        let start = 1 + n; stop = start + unat len in
        if length b < stop then Inl LengthOverrun
        else and_then (utf8_string (take (unat len) (drop start b))) (\<lambda>value.
             Inr (\<lparr>ra_role = b ! 0, ra_value = value\<rparr>, stop))))"

definition check_assertion :: "(nat list \<Rightarrow> nat list) \<Rightarrow> role_assertion \<Rightarrow> error + unit" where
  "check_assertion nfc a =
     (if ra_role a = ROLE_INTERACTION_LAYER \<or> ra_role a = ROLE_WALLET
      then and_then (pointer_parse nfc (ra_value a)) (\<lambda>_. Inr ())
      else if ra_role a = ROLE_OS then validate_identifier (ra_value a)
      else Inr ())"

definition roles_schema :: schema where
  "roles_schema = schema_new Closed [(T_ROLES, False)]"

definition roles_parse :: "(nat list \<Rightarrow> nat list) \<Rightarrow> bytes \<Rightarrow> error + role_assertion list" where
  "roles_parse nfc buf =
     and_then (object_parse buf) (\<lambda>obj.
     and_then (object_validate obj roles_schema) (\<lambda>_.
     and_then (and_then (get_value obj T_ROLES) (\<lambda>v. parse_count_prefixed v parse_role)) (\<lambda>items.
     and_then (check_pairs (\<lambda>a b. ra_role a < ra_role b) items) (\<lambda>_.
     and_then (for_each (check_assertion nfc) items) (\<lambda>_.
     Inr items)))))"

definition asserted :: "u8 \<Rightarrow> role_assertion list \<Rightarrow> bytes option" where
  "asserted r items = map_option ra_value (List.find (\<lambda>a. ra_role a = r) items)"

definition asserted_os :: "role_assertion list \<Rightarrow> bytes option" where
  "asserted_os items = asserted ROLE_OS items"

definition asserted_il :: "role_assertion list \<Rightarrow> bytes option" where
  "asserted_il items = asserted ROLE_INTERACTION_LAYER items"

definition asserted_wallet :: "role_assertion list \<Rightarrow> bytes option" where
  "asserted_wallet items = asserted ROLE_WALLET items"

section \<open>The meed vector\<close>

type_synonym share = "u8 \<times> u16 \<times> bytes"

text \<open>The loop over the shares and the schedule; each \<open>bp\<close> equals the schedule's, so the total of at most
  100 does not overflow.\<close>

fun shape_loop :: "(nat list \<Rightarrow> nat list) \<Rightarrow> share list \<Rightarrow> (u8 \<times> u16) list \<Rightarrow> u16 \<Rightarrow> error + u16" where
  "shape_loop nfc ((r, b, d) # vs) ((exp_role, exp_bp) # es) map_total =
     (if r \<noteq> exp_role \<or> b \<noteq> exp_bp then Inl FieldDomain
      else and_then (pointer_parse nfc d) (\<lambda>p.
        if \<not> is_caip p then Inl JsonGrammar else shape_loop nfc vs es (map_total + b)))"
| "shape_loop nfc vs es map_total = Inr map_total"

definition validate_shape_schema_01 :: "(nat list \<Rightarrow> nat list) \<Rightarrow> u32 \<Rightarrow> share list \<Rightarrow> error + unit" where
  "validate_shape_schema_01 nfc schema_no vector =
     (if schema_no \<noteq> SCHEMA_V0_1 then Inl FieldDomain
      else if length vector \<noteq> length SCHEMA_01_ROLES then Inl CountMismatch
      else and_then (shape_loop nfc vector SCHEMA_01_ROLES 0) (\<lambda>sum.
        if sum \<noteq> MEED_BASE_BP then Inl FieldDomain else Inr ()))"

definition check_governed :: "bool \<Rightarrow> u32 \<Rightarrow> snapshot_store \<Rightarrow> share \<Rightarrow> error + unit" where
  "check_governed demo named_version st x = (case x of (r, b, d) \<Rightarrow>
     if r = ROLE_OS then os_destination_accepted demo st named_version d
     else if r = ROLE_DEV_FUND \<and> d \<noteq> DEV_FUND_DEST_PLACEHOLDER then Inl FieldDomain
     else Inr ())"

definition validate_governed_destinations :: "bool \<Rightarrow> u32 \<Rightarrow> share list \<Rightarrow> snapshot_store \<Rightarrow> error + unit" where
  "validate_governed_destinations demo named_version vector st =
     and_then (ensure_governance_ready demo) (\<lambda>_. for_each (check_governed demo named_version st) vector)"

definition validate_vector :: "bool \<Rightarrow> (nat list \<Rightarrow> nat list) \<Rightarrow> u32 \<Rightarrow> u32 \<Rightarrow> share list \<Rightarrow> snapshot_store \<Rightarrow> error + unit" where
  "validate_vector demo nfc schema_no named_version vector st =
     and_then (validate_shape_schema_01 nfc schema_no vector) (\<lambda>_.
     validate_governed_destinations demo named_version vector st)"

datatype expected_dest = Asserted bytes | Unasserted | Unchecked

definition expected_check :: "expected_dest \<Rightarrow> bytes \<Rightarrow> error + unit" where
  "expected_check x d = (case x of
     Unchecked \<Rightarrow> Inr ()
   | Asserted want \<Rightarrow> if d = want then Inr () else Inl FieldDomain
   | Unasserted \<Rightarrow> if d = DEV_FUND_DEST_PLACEHOLDER then Inr () else Inl FieldDomain)"

definition requires_presence :: "expected_dest \<Rightarrow> bool" where
  "requires_presence x \<longleftrightarrow> x \<noteq> Unchecked"

fun payer_side_loop :: "share list \<Rightarrow> expected_dest \<Rightarrow> expected_dest \<Rightarrow> bool \<Rightarrow> bool \<Rightarrow> error + bool \<times> bool" where
  "payer_side_loop [] il wallet seen_il seen_wallet = Inr (seen_il, seen_wallet)"
| "payer_side_loop ((r, b, d) # vs) il wallet seen_il seen_wallet =
     (if r = ROLE_INTERACTION_LAYER then
        and_then (expected_check il d) (\<lambda>_. payer_side_loop vs il wallet True seen_wallet)
      else if r = ROLE_WALLET then
        and_then (expected_check wallet d) (\<lambda>_. payer_side_loop vs il wallet seen_il True)
      else payer_side_loop vs il wallet seen_il seen_wallet)"

definition validate_payer_side :: "share list \<Rightarrow> expected_dest \<Rightarrow> expected_dest \<Rightarrow> error + unit" where
  "validate_payer_side vector il wallet =
     and_then (payer_side_loop vector il wallet False False) (\<lambda>(seen_il, seen_wallet).
     if (requires_presence il \<and> \<not> seen_il) \<or> (requires_presence wallet \<and> \<not> seen_wallet)
     then Inl FieldDomain else Inr ())"

section \<open>The assertions are canonical\<close>

definition role_item_ok :: "role_assertion \<Rightarrow> bool" where
  "role_item_ok a \<longleftrightarrow> utf8_decode (ra_value a) \<noteq> None \<and> length (ra_value a) < 2 ^ 32"

lemma role_item_parts: "role_item a = ra_role a # push_lp [] (ra_value a)"
  by (simp add: role_item_def push_lp_def)

lemma parse_role_eq: "parse_role (r # t) =
    and_then (read_lp t) (\<lambda>(v, n). and_then (utf8_string v) (\<lambda>v. Inr (\<lparr>ra_role = r, ra_value = v\<rparr>, Suc n)))"
  by (cases "leb_decode t") (auto simp: parse_role_def read_lp_def Let_def)

interpretation role: tlv_item role_item_ok role_item parse_role
proof unfold_locales
  fix x rest assume "role_item_ok x"
  then show "parse_role (role_item x @ rest) = Inr (x, length (role_item x))"
    using lp.decode_front [of "ra_value x" rest] by (auto simp: parse_role_eq role_item_parts role_item_ok_def)
next
  fix b x k assume p: "parse_role b = Inr (x, k)"
  then obtain t n where b: "b = ra_role x # t" and r: "read_lp t = Inr (ra_value x, n)" "k = Suc n" "utf8_decode (ra_value x) \<noteq> None"
    by (cases b) (auto simp: parse_role_eq, auto simp: parse_role_def)
  note c = lp.consumed [OF r(1)]
  have "b = role_item x @ drop n t" using c by (metis b role_item_parts append_Cons)
  moreover have "length (role_item x) = k" using c r(2) by (simp add: role_item_parts)
  ultimately have "k \<le> length b \<and> role_item x = take k b" by (rule front_take)
  then show "role_item_ok x \<and> k \<le> length b \<and> role_item x = take k b"
    using lp.encode_front [OF r(1)] r(3) by (simp add: role_item_ok_def)
qed (simp add: role_item_parts)

definition roles_slots :: "role_assertion list \<Rightarrow> slot list" where
  "roles_slots items = [(T_ROLES, Some (build_count_prefixed (map role_item items)))]"

definition roles_ok :: "(nat list \<Rightarrow> nat list) \<Rightarrow> role_assertion list \<Rightarrow> bool" where
  "roles_ok nfc items \<longleftrightarrow> list_all role_item_ok items \<and> length items < 2 ^ 32 \<and>
     successively (\<lambda>a b. ra_role a < ra_role b) items \<and> (\<forall>a \<in> set items. check_assertion nfc a = Inr ()) \<and>
     slots_ok (roles_slots items)"

lemma roles_parse_iff: "roles_parse nfc bs = Inr items \<longleftrightarrow> roles_ok nfc items \<and> bs = slot_bytes (roles_slots items)"
proof -
  have s: "sorted_wrt (<) (map fst (roles_slots items))" by (simp add: roles_slots_def)
  have c: "roles_schema = closed_schema (map fst (roles_slots items))"
    by (simp add: roles_schema_def closed_schema_def roles_slots_def)
  have "roles_parse nfc bs = Inr items \<longleftrightarrow> read_slots bs (roles_slots items) \<and> list_all role_item_ok items \<and> length items < 2 ^ 32 \<and>
     successively (\<lambda>a b. ra_role a < ra_role b) items \<and> (\<forall>a \<in> set items. check_assertion nfc a = Inr ())"
    by (auto simp: roles_parse_def read_slots_def c slot_read role.counted.accepted_iff roles_slots_def simp del: get_value_Inr)
  then show ?thesis by (auto simp: read_slots_bytes [OF s] roles_ok_def)
qed

lemma roles_encode_slots: "roles_encode items = Inr (slot_bytes (roles_slots items))"
  unfolding roles_encode_def by (rule from_slots [where f = "\<lambda>x. x"]) (simp_all add: roles_slots_def)

interpretation roles: canonical_codec "roles_ok nfc" "slot_bytes \<circ> roles_slots" "roles_parse nfc" for nfc
  by (rule canonical_codecI) (simp add: roles_parse_iff)

section \<open>What the checks accept\<close>

definition payable :: "(nat list \<Rightarrow> nat list) \<Rightarrow> bytes \<Rightarrow> bool" where
  "payable nfc d \<longleftrightarrow> (\<exists>p. pointer_parse nfc d = Inr p \<and> is_caip p)"

definition schedule :: "bytes \<Rightarrow> bytes \<Rightarrow> bytes \<Rightarrow> bytes \<Rightarrow> share list" where
  "schedule il os wallet fund = [(ROLE_INTERACTION_LAYER, 50, il), (ROLE_OS, 10, os), (ROLE_WALLET, 30, wallet), (ROLE_DEV_FUND, 10, fund)]"

lemma shape_loop_Inr:
  "length vs = length es \<Longrightarrow> shape_loop nfc vs es t = Inr u \<longleftrightarrow>
   list_all2 (\<lambda>(r, b, d) (r', b'). r = r' \<and> b = b' \<and> payable nfc d) vs es \<and> u = foldl (\<lambda>acc x. acc + snd x) t es"
proof (induction nfc vs es t rule: shape_loop.induct)
  case (1 nfc r b d vs exp_role exp_bp es t)
  then show ?case by (cases "pointer_parse nfc d") (auto simp: payable_def)
qed auto

lemma shape_accepted:
  "validate_shape_schema_01 nfc n v = Inr () \<longleftrightarrow>
   n = SCHEMA_V0_1 \<and> (\<exists>il os wallet fund. v = schedule il os wallet fund \<and>
     payable nfc il \<and> payable nfc os \<and> payable nfc wallet \<and> payable nfc fund)"
proof (cases "length v = length SCHEMA_01_ROLES")
  case True
  have "foldl (\<lambda>acc x. acc + snd x) 0 SCHEMA_01_ROLES = MEED_BASE_BP" by (simp add: SCHEMA_01_ROLES_def MEED_BASE_BP_def)
  then have "validate_shape_schema_01 nfc n v = Inr () \<longleftrightarrow> n = SCHEMA_V0_1 \<and>
      list_all2 (\<lambda>(r, b, d) (r', b'). r = r' \<and> b = b' \<and> payable nfc d) v SCHEMA_01_ROLES"
    using True by (auto simp: validate_shape_schema_01_def shape_loop_Inr)
  then show ?thesis by (auto simp: SCHEMA_01_ROLES_def schedule_def list_all2_Cons2)
next
  case False
  then show ?thesis by (auto simp: validate_shape_schema_01_def schedule_def SCHEMA_01_ROLES_def)
qed

lemma tip_None [simp]: "tip st = None \<longleftrightarrow> st = []"
  by (simp add: tip_def)

lemma os_accepted:
  "os_destination_accepted demo st v d = Inr () \<longleftrightarrow> demo \<and> (st = [] \<or> version_accepted st v) \<and>
   (d = INDEPENDENT_OS_FUND_DEST_PLACEHOLDER \<or> (\<exists>s i. snapshot_at st v = Some s \<and> (i, d) \<in> set (sn_os_recipients s)))"
  by (auto simp: os_destination_accepted_def list_ex_iff split: option.splits if_splits)

lemma roles_distinct [simp]:
  "ROLE_INTERACTION_LAYER \<noteq> ROLE_OS" "ROLE_INTERACTION_LAYER \<noteq> ROLE_WALLET" "ROLE_INTERACTION_LAYER \<noteq> ROLE_DEV_FUND"
  "ROLE_OS \<noteq> ROLE_WALLET" "ROLE_OS \<noteq> ROLE_DEV_FUND" "ROLE_WALLET \<noteq> ROLE_DEV_FUND"
  "ROLE_OS \<noteq> ROLE_INTERACTION_LAYER" "ROLE_WALLET \<noteq> ROLE_INTERACTION_LAYER" "ROLE_DEV_FUND \<noteq> ROLE_INTERACTION_LAYER"
  "ROLE_WALLET \<noteq> ROLE_OS" "ROLE_DEV_FUND \<noteq> ROLE_OS" "ROLE_DEV_FUND \<noteq> ROLE_WALLET"
  by (simp_all add: role_defs)

lemma governed_schedule:
  "validate_governed_destinations demo v (schedule il os wallet fund) st = Inr () \<longleftrightarrow>
   demo \<and> os_destination_accepted demo st v os = Inr () \<and> fund = DEV_FUND_DEST_PLACEHOLDER"
  by (auto simp: validate_governed_destinations_def check_governed_def schedule_def)

lemma vector_accepted:
  "validate_vector demo nfc n v vec st = Inr () \<longleftrightarrow>
   n = SCHEMA_V0_1 \<and> (\<exists>il os wallet. vec = schedule il os wallet DEV_FUND_DEST_PLACEHOLDER \<and>
     payable nfc il \<and> payable nfc os \<and> payable nfc wallet \<and> payable nfc DEV_FUND_DEST_PLACEHOLDER \<and>
     os_destination_accepted demo st v os = Inr ())"
proof -
  have "os_destination_accepted demo st v os = Inr () \<Longrightarrow> demo" for os by (simp add: os_accepted)
  then show ?thesis unfolding validate_vector_def by (auto simp: shape_accepted governed_schedule) blast
qed

lemma payer_side_schedule:
  "validate_payer_side (schedule il os wallet fund) want_il want_wallet = Inr () \<longleftrightarrow>
   expected_check want_il il = Inr () \<and> expected_check want_wallet wallet = Inr ()"
  by (auto simp: validate_payer_side_def schedule_def)

text \<open>Printable ASCII that needs no normalization is valid text.\<close>

lemma ascii_text:
  assumes "\<forall>b \<in> set s. 0x20 \<le> b \<and> b \<le> 0x7E" "\<And>t. \<forall>c \<in> set t. c < 128 \<Longrightarrow> nfc t = t"
  shows "validate_text nfc s = Inr ()"
proof -
  have d: "utf8_decode s = Some (map unat s)"
    using assms(1) by (induction s) (auto simp: word_le_nat_alt)
  have "nfc (map unat s) = map unat s" using assms(1) by (intro assms(2)) (auto simp: word_le_nat_alt)
  then show ?thesis using assms(1) d by (auto simp: validate_text_Inr word_le_nat_alt)
qed

lemma funds_payable:
  assumes "\<And>t. \<forall>c \<in> set t. c < 128 \<Longrightarrow> nfc t = t"
  shows "payable nfc DEV_FUND_DEST_PLACEHOLDER" "payable nfc INDEPENDENT_OS_FUND_DEST_PLACEHOLDER"
proof -
  have t: "validate_text nfc DEV_FUND_DEST_PLACEHOLDER = Inr ()" "validate_text nfc INDEPENDENT_OS_FUND_DEST_PLACEHOLDER = Inr ()"
    by (rule ascii_text [OF _ assms]; simp add: DEV_FUND_DEST_PLACEHOLDER_def INDEPENDENT_OS_FUND_DEST_PLACEHOLDER_def ascii_def)+
  show "payable nfc DEV_FUND_DEST_PLACEHOLDER"
    unfolding payable_def
    by (intro exI [of _ "Caip DEV_FUND_DEST_PLACEHOLDER (ascii ''eip155'') (ascii ''0'') (ascii ''PLACEHOLDER-release-bound-dev-fund'')"])
       (simp add: pointer_accepted pointer_ok_def t, simp add: DEV_FUND_DEST_PLACEHOLDER_def ascii_def MAX_POINTER_LEN_def
          is_caip_namespace_def is_account_def within_def matches_def char_defs)
  show "payable nfc INDEPENDENT_OS_FUND_DEST_PLACEHOLDER"
    unfolding payable_def
    by (intro exI [of _ "Caip INDEPENDENT_OS_FUND_DEST_PLACEHOLDER (ascii ''eip155'') (ascii ''0'') (ascii ''PLACEHOLDER-release-bound-independent-os-fund'')"])
       (simp add: pointer_accepted pointer_ok_def t, simp add: INDEPENDENT_OS_FUND_DEST_PLACEHOLDER_def ascii_def MAX_POINTER_LEN_def
          is_caip_namespace_def is_account_def within_def matches_def char_defs)
qed

section \<open>Stores of verified snapshots\<close>

inductive held :: "crypto_suite \<Rightarrow> (nat list \<Rightarrow> nat list) \<Rightarrow> bytes \<Rightarrow> snapshot_store \<Rightarrow> bool"
  for cs nfc key where
  held_empty: "held cs nfc key []"
| held_insert: "held cs nfc key st \<Longrightarrow> snapshot_parse_verify cs nfc bs key = Inr s \<Longrightarrow> held cs nfc key (store_insert s st)"

lemma map_of_map_insert [simp]: "map_of (map_insert k v xs) = (map_of xs)(k \<mapsto> v)"
  by (induction k v xs rule: map_insert.induct) (auto simp: fun_eq_iff)

lemma set_map_insert: "x \<in> set (map_insert k v xs) \<Longrightarrow> x = (k, v) \<or> x \<in> set xs"
  by (induction k v xs rule: map_insert.induct) (auto split: if_splits)

lemma set_map_insert_keeps: "(k', v') \<in> set xs \<Longrightarrow> k' \<noteq> k \<Longrightarrow> (k', v') \<in> set (map_insert k v xs)"
  by (induction k v xs rule: map_insert.induct) (auto split: if_splits)

lemma held_ok: "held cs nfc key st \<Longrightarrow> (k, s) \<in> set st \<Longrightarrow> sn_version s = k \<and> snapshot_ok nfc s"
proof (induction rule: held.induct)
  case (held_insert st bs s')
  then show ?case using set_map_insert [of "(k, s)" "sn_version s'" s' st] snapshot_parse_iff [of cs nfc bs key s']
    by (auto simp: store_insert_def)
qed simp

lemma recipient_payable:
  assumes "held cs nfc key st" "snapshot_at st v = Some s" "(i, d) \<in> set (sn_os_recipients s)"
  shows "payable nfc d"
proof -
  have "(v, s) \<in> set st" using assms(2) by (auto simp: snapshot_at_def dest: map_of_SomeD)
  then have "check_recipient nfc (i, d) = Inr ()" using held_ok [OF assms(1)] assms(3) by (auto simp: snapshot_ok_def)
  then show ?thesis by (auto simp: check_recipient_def payable_def split: if_splits)
qed

lemma resolve_accepted:
  assumes "resolve_os_destination demo st v os = Inr d"
  shows "os_destination_accepted demo st v d = Inr ()"
proof -
  from assms have d: "demo" "version_accepted st v"
    by (auto simp: resolve_os_destination_def split: if_splits)
  obtain s where s: "snapshot_at st v = Some s" "d = (case Option.bind os (resolve_os s) of Some d \<Rightarrow> d | None \<Rightarrow> INDEPENDENT_OS_FUND_DEST_PLACEHOLDER)"
    using assms by (auto simp: resolve_os_destination_def split: if_splits)
  show ?thesis
  proof (cases "Option.bind os (resolve_os s)")
    case (Some d')
    then obtain i where "(i, d') \<in> set (sn_os_recipients s)"
      by (auto simp: resolve_os_def find_Some_iff bind_eq_Some_conv) (metis nth_mem)
    then show ?thesis using d s Some by (auto simp: os_accepted)
  qed (use d s in \<open>simp add: os_accepted\<close>)
qed

lemma inserts_keep:
  assumes "(k, s) \<in> set st" "\<forall>x \<in> set xs. sn_version x \<noteq> k"
  shows "(k, s) \<in> set (fold store_insert xs st)"
  using assms by (induction xs arbitrary: st) (auto simp: store_insert_def set_map_insert_keeps)

lemma revoked_refused: "(k, s) \<in> set st \<Longrightarrow> v \<in> set (sn_revoked s) \<Longrightarrow> \<not> version_accepted st v"
  by (auto simp: version_accepted_def list_ex_iff split: option.splits)

end
