(* ===== verification/Props_Governed.thy ===== *)
theory Props_Governed
  imports Governed Example_Parameters
begin

text \<open>
  Properties of the governed recipients: what an accepted meed vector pays and to whom, that what a
  builder resolves a validator accepts, revocation, the refusal of placeholder governance, the signed
  snapshot, and the vocabularies of destinations.
\<close>

section \<open>A concrete registry\<close>

definition ex_dest :: bytes where "ex_dest = ascii ''eip155:1:0xApple''"
definition ex_il :: bytes where "ex_il = ascii ''eip155:1:0xIL''"

definition ex_snapshot :: snapshot where
  "ex_snapshot = \<lparr>sn_version = 5, sn_kind = Rotation, sn_issued = 7, sn_window_floor = 3,
     sn_os_recipients = [(ascii ''apple'', ex_dest)], sn_revoked = [], sn_rate_sources = [], sn_sig = replicate 64 0\<rparr>"

definition ex_revoking :: snapshot where
  "ex_revoking = ex_snapshot\<lparr>sn_version := 6, sn_kind := Revocation, sn_revoked := [4]\<rparr>"

lemma ascii_utf8: "\<forall>b \<in> set s. 0x20 \<le> b \<and> b \<le> 0x7E \<Longrightarrow> utf8_decode s = Some (map unat s)"
  by (induction s) (auto simp: word_le_nat_alt)

lemma ex_payable: "payable (\<lambda>x. x) ex_dest" "payable (\<lambda>x. x) ex_il"
proof -
  have t: "validate_text (\<lambda>x. x) ex_dest = Inr ()" "validate_text (\<lambda>x. x) ex_il = Inr ()"
    by (rule ascii_text; simp add: ex_dest_def ex_il_def ascii_def)+
  show "payable (\<lambda>x. x) ex_dest" unfolding payable_def
    by (intro exI [of _ "Caip ex_dest (ascii ''eip155'') (ascii ''1'') (ascii ''0xApple'')"])
       (simp add: pointer_accepted pointer_ok_def t, simp add: ex_dest_def ascii_def MAX_POINTER_LEN_def
          is_caip_namespace_def is_account_def within_def matches_def char_defs)
  show "payable (\<lambda>x. x) ex_il" unfolding payable_def
    by (intro exI [of _ "Caip ex_il (ascii ''eip155'') (ascii ''1'') (ascii ''0xIL'')"])
       (simp add: pointer_accepted pointer_ok_def t, simp add: ex_il_def ascii_def MAX_POINTER_LEN_def
          is_caip_namespace_def is_account_def within_def matches_def char_defs)
qed

lemma ex_snapshot_ok: "snapshot_ok (\<lambda>x. x) ex_snapshot" "snapshot_ok (\<lambda>x. x) ex_revoking"
proof -
  have u: "utf8_decode (ascii ''apple'') \<noteq> None" "utf8_decode ex_dest \<noteq> None"
    using ascii_utf8 [of "ascii ''apple''"] ascii_utf8 [of ex_dest] by (auto simp: ex_dest_def ascii_def)
  have i: "validate_identifier (ascii ''apple'') = Inr ()"
    by (simp add: validate_identifier_def ascii_def char_defs)
  have c: "check_recipient (\<lambda>x. x) (ascii ''apple'', ex_dest) = Inr ()"
    using ex_payable(1) by (auto simp: check_recipient_def i payable_def)
  have l: "length (ascii ''apple'') = 5" "length ex_dest = 16" by (simp_all add: ascii_def ex_dest_def)
  show "snapshot_ok (\<lambda>x. x) ex_snapshot" "snapshot_ok (\<lambda>x. x) ex_revoking"
    using u c l by (simp_all add: snapshot_ok_def ex_revoking_def ex_snapshot_def id_value_ok_def check_ascending_ids_def)
qed

lemma length_uint_small [simp]: "length (dropWhile P (be_bytes 16 x)) < 4294967296"
  by (rule le_less_trans [OF length_dropWhile_le]) simp

lemma ex_snapshot_slots:
  "slots_ok (snapshot_slots ex_snapshot @ [(R_SIGNATURE, Some (sn_sig ex_snapshot))])"
  "slots_ok (snapshot_slots ex_revoking @ [(R_SIGNATURE, Some (sn_sig ex_revoking))])"
  by (simp_all add: slots_ok_def snapshot_slots_def slot_fields_def optional_field_def field_ok_def field_new_def
      registry_types ex_snapshot_def ex_revoking_def encode_uint_u128_def build_count_prefixed_def encode_id_value_def
      leb_encode.simps ascii_def ex_dest_def kind_byte_def be_bytes.simps Let_def)

lemma ex_verified: "ed25519_verify_strict toy_suite k m (sn_sig ex_snapshot)" "ed25519_verify_strict toy_suite k m (sn_sig ex_revoking)"
  by (simp_all add: toy_suite_def ex_snapshot_def ex_revoking_def)

definition ex_encoded :: "snapshot \<Rightarrow> bytes" where
  "ex_encoded s = (case snapshot_encode s of Inr bs \<Rightarrow> bs | Inl _ \<Rightarrow> [])"

lemma ex_encoded: "snapshot_encode s = Inr (ex_encoded s)"
  by (simp add: snapshot_encode_def snapshot_object ex_encoded_def)

lemma ex_parsed:
  "snapshot_parse_verify toy_suite (\<lambda>x. x) (ex_encoded ex_snapshot) k = Inr ex_snapshot"
  "snapshot_parse_verify toy_suite (\<lambda>x. x) (ex_encoded ex_revoking) k = Inr ex_revoking"
  using snapshot_roundtrip_slots [OF ex_snapshot_ok(1) ex_snapshot_slots(1) snapshot_object(1) ex_verified(1) ex_encoded]
    snapshot_roundtrip_slots [OF ex_snapshot_ok(2) ex_snapshot_slots(2) snapshot_object(1) ex_verified(2) ex_encoded]
  by blast+

definition ex_store :: snapshot_store where "ex_store = [(5, ex_snapshot)]"

lemma ex_held: "held toy_suite (\<lambda>x. x) [] ex_store"
proof -
  have "held toy_suite (\<lambda>x. x) [] (store_insert ex_snapshot [])" by (rule held_insert [OF held_empty ex_parsed(1)])
  then show ?thesis by (simp add: store_insert_def ex_store_def ex_snapshot_def)
qed

lemma ex_resolved: "resolve_os_destination True ex_store 5 (Some (ascii ''apple'')) = Inr ex_dest"
  by (simp add: resolve_os_destination_def ensure_governance_ready_def version_accepted_def tip_def ex_store_def
      ex_snapshot_def snapshot_at_def resolve_os_def)

lemma ascii_nfc: "\<forall>c \<in> set t. c < (128 :: nat) \<Longrightarrow> (\<lambda>x :: nat list. x) t = t"
  by simp

section \<open>The properties\<close>

text \<open>C28. A meed vector that passes the governed check and the payer side's check is the schema's schedule
  of 50, 10, 30 and 10 basis points, pays the Development Fund at its pinned destination, the operating
  system share to the independent fund or to a recipient listed at the named version - a version in the
  window and not revoked, when a registry is held - and the other two as their owners expect.\<close>

theorem governed_vector_pinned:
  assumes "validate_vector demo nfc schema_no named_version vector st = Inr ()"
    and "validate_payer_side vector want_il want_wallet = Inr ()"
  shows "\<exists>il os wallet.
    vector = [(0x10, 50, il), (0x11, 10, os), (0x12, 30, wallet), (0x13, 10, DEV_FUND_DEST_PLACEHOLDER)] \<and>
    (os = INDEPENDENT_OS_FUND_DEST_PLACEHOLDER \<or>
      (\<exists>s i. snapshot_at st named_version = Some s \<and> (i, os) \<in> set (sn_os_recipients s))) \<and>
    (st = [] \<or> version_accepted st named_version) \<and>
    expected_check want_il il = Inr () \<and> expected_check want_wallet wallet = Inr ()"
proof -
  obtain il os wallet where v: "vector = schedule il os wallet DEV_FUND_DEST_PLACEHOLDER"
      "os_destination_accepted demo st named_version os = Inr ()"
    using assms(1) by (auto simp: vector_accepted)
  then show ?thesis
    using assms(2) unfolding v(1) payer_side_schedule os_accepted
    by (intro exI [of _ il] exI [of _ os] exI [of _ wallet]) (simp add: schedule_def role_defs)
qed

theorem governed_vector_pinned_witness:
  "\<exists>il os wallet. schedule ex_il ex_dest ex_il DEV_FUND_DEST_PLACEHOLDER
      = [(0x10, 50, il), (0x11, 10, os), (0x12, 30, wallet), (0x13, 10, DEV_FUND_DEST_PLACEHOLDER)] \<and>
    (os = INDEPENDENT_OS_FUND_DEST_PLACEHOLDER \<or>
      (\<exists>s i. snapshot_at ex_store 5 = Some s \<and> (i, os) \<in> set (sn_os_recipients s))) \<and>
    (ex_store = [] \<or> version_accepted ex_store 5) \<and>
    expected_check Unchecked il = Inr () \<and> expected_check (Asserted ex_il) wallet = Inr ()"
proof (rule governed_vector_pinned [where demo = True and nfc = "\<lambda>x. x" and schema_no = 1])
  show "validate_vector True (\<lambda>x. x) 1 5 (schedule ex_il ex_dest ex_il DEV_FUND_DEST_PLACEHOLDER) ex_store = Inr ()"
    using resolve_accepted [OF ex_resolved] ex_payable funds_payable(1) [of "\<lambda>x. x"]
    by (auto simp: vector_accepted SCHEMA_V0_1_def)
  show "validate_payer_side (schedule ex_il ex_dest ex_il DEV_FUND_DEST_PLACEHOLDER) Unchecked (Asserted ex_il) = Inr ()"
    by (simp add: payer_side_schedule expected_check_def)
qed

text \<open>What a builder resolves, a validator with the same registry accepts: with a store of verified
  snapshots, the schedule built from the resolved operating system destination and payable pointers of
  the other parties passes the governed check.\<close>

theorem built_vector_accepted:
  assumes "held cs nfc key st" "\<And>t. \<forall>c \<in> set t. c < 128 \<Longrightarrow> nfc t = t"
    and "resolve_os_destination demo st named_version assertion = Inr os"
    and "pointer_parse nfc il = Inr p" "is_caip p" "pointer_parse nfc wallet = Inr q" "is_caip q"
  shows "validate_vector demo nfc 1 named_version
    [(0x10, 50, il), (0x11, 10, os), (0x12, 30, wallet), (0x13, 10, DEV_FUND_DEST_PLACEHOLDER)] st = Inr ()"
proof -
  have a: "os_destination_accepted demo st named_version os = Inr ()" by (rule resolve_accepted [OF assms(3)])
  then have "payable nfc os"
    using funds_payable(2) [OF assms(2)] recipient_payable [OF assms(1)] by (auto simp: os_accepted)
  moreover have "payable nfc il" "payable nfc wallet" using assms by (auto simp: payable_def)
  ultimately have "validate_vector demo nfc SCHEMA_V0_1 named_version (schedule il os wallet DEV_FUND_DEST_PLACEHOLDER) st = Inr ()"
    using a funds_payable(1) [OF assms(2)] by (auto simp: vector_accepted)
  then show ?thesis by (simp add: schedule_def role_defs SCHEMA_V0_1_def)
qed

theorem built_vector_accepted_witness:
  "validate_vector True (\<lambda>x. x) 1 5
    [(0x10, 50, ex_il), (0x11, 10, ex_dest), (0x12, 30, ex_il), (0x13, 10, DEV_FUND_DEST_PLACEHOLDER)] ex_store = Inr ()"
proof -
  obtain p where "pointer_parse (\<lambda>x. x) ex_il = Inr p" "is_caip p" using ex_payable(2) by (auto simp: payable_def)
  then show ?thesis by (intro built_vector_accepted [OF ex_held ascii_nfc ex_resolved])
qed

text \<open>A version revoked by a held snapshot is refused for good, to builders and validators, the fund
  fallback included: whatever snapshots of other versions are added later.\<close>

theorem revoked_for_good:
  assumes "held cs nfc key st" "(k, r) \<in> set st" "v \<in> set (sn_revoked r)" "\<forall>s \<in> set later. sn_version s \<noteq> k"
  shows "\<not> version_accepted (fold store_insert later st) v \<and>
    os_destination_accepted demo (fold store_insert later st) v d \<noteq> Inr () \<and>
    resolve_os_destination demo (fold store_insert later st) v assertion \<noteq> Inr d"
proof -
  have i: "(k, r) \<in> set (fold store_insert later st)" using inserts_keep assms(2,4) by blast
  then have "\<not> version_accepted (fold store_insert later st) v" using revoked_refused assms(3) by blast
  moreover have "fold store_insert later st \<noteq> []" using i by auto
  ultimately show ?thesis by (auto simp: os_accepted resolve_os_destination_def)
qed

theorem revoked_for_good_witness:
  "\<not> version_accepted (fold store_insert [ex_snapshot\<lparr>sn_version := 7\<rparr>] (store_insert ex_revoking ex_store)) 4 \<and>
    os_destination_accepted True (fold store_insert [ex_snapshot\<lparr>sn_version := 7\<rparr>] (store_insert ex_revoking ex_store)) 4
      INDEPENDENT_OS_FUND_DEST_PLACEHOLDER \<noteq> Inr () \<and>
    resolve_os_destination True (fold store_insert [ex_snapshot\<lparr>sn_version := 7\<rparr>] (store_insert ex_revoking ex_store)) 4
      None \<noteq> Inr INDEPENDENT_OS_FUND_DEST_PLACEHOLDER"
  by (rule revoked_for_good [OF held_insert [OF ex_held ex_parsed(2)], where k = 6 and r = ex_revoking])
     (simp_all add: store_insert_def ex_store_def ex_revoking_def ex_snapshot_def)

text \<open>A build without the demo feature, which carries placeholder destinations, completes no governed
  decision: no vector passes, no destination is accepted, none is resolved.\<close>

theorem placeholders_fail_closed:
  "validate_vector False nfc schema_no named_version vector st \<noteq> Inr () \<and>
   validate_governed_destinations False named_version vector st = Inl PlaceholderGovernance \<and>
   os_destination_accepted False st named_version d = Inl PlaceholderGovernance \<and>
   resolve_os_destination False st named_version assertion = Inl PlaceholderGovernance"
proof -
  have "ensure_governance_ready False = Inl PlaceholderGovernance"
    by (simp add: ensure_governance_ready_def governance_constants_are_placeholders_def FOUNDATION_REGISTRY_KEY_PLACEHOLDER_def)
  then show ?thesis
    by (simp add: vector_accepted os_accepted validate_governed_destinations_def os_destination_accepted_def resolve_os_destination_def)
qed

text \<open>A snapshot within the accepted values that is signed and encoded is parsed and verified back to
  itself, the revoked versions included.\<close>

theorem snapshot_roundtrip:
  assumes "snapshot_ok nfc s" "slots_ok (snapshot_slots s @ [(R_SIGNATURE, Some (sn_sig s))])"
    and "snapshot_to_object False s = Inr u" "ed25519_verify_strict cs key (snapshot_covered u) (sn_sig s)"
  shows "\<exists>bs. snapshot_encode s = Inr bs \<and> snapshot_parse_verify cs nfc bs key = Inr s"
  using snapshot_roundtrip_slots [OF assms ex_encoded] ex_encoded by blast

theorem snapshot_roundtrip_witness:
  "\<exists>bs. snapshot_encode ex_revoking = Inr bs \<and> snapshot_parse_verify toy_suite (\<lambda>x. x) bs [] = Inr ex_revoking"
  by (rule snapshot_roundtrip [OF ex_snapshot_ok(2) ex_snapshot_slots(2) snapshot_object(1) ex_verified(2)])

text \<open>The signature covers everything a snapshot arrives with, unknown fields included: two accepted
  byte strings with the same covered bytes and the same signature are the same byte string.\<close>

theorem snapshot_tamper_evident:
  assumes "snapshot_parse_verify cs nfc bs key = Inr s" "object_parse bs = Inr a"
    and "snapshot_parse_verify cs nfc bs' key' = Inr s'" "object_parse bs' = Inr b"
    and "snapshot_covered a = snapshot_covered b" "sn_sig s = sn_sig s'"
  shows "bs = bs'"
  by (rule snapshot_tamper [OF assms])

theorem snapshot_tamper_evident_witness:
  "\<exists>a. object_parse (ex_encoded ex_snapshot) = Inr a \<and> ex_encoded ex_snapshot = ex_encoded (ex_snapshot\<lparr>sn_issued := 7\<rparr>)"
proof -
  obtain a where a: "object_parse (ex_encoded ex_snapshot) = Inr a"
    using ex_parsed(1) by (auto simp: snapshot_parse_iff)
  have e: "ex_snapshot\<lparr>sn_issued := 7\<rparr> = ex_snapshot" by (simp add: ex_snapshot_def)
  have p: "snapshot_parse_verify toy_suite (\<lambda>x. x) (ex_encoded (ex_snapshot\<lparr>sn_issued := 7\<rparr>)) [] = Inr ex_snapshot"
    by (simp add: e ex_parsed)
  have q: "object_parse (ex_encoded (ex_snapshot\<lparr>sn_issued := 7\<rparr>)) = Inr a" by (simp add: e a)
  have "ex_encoded ex_snapshot = ex_encoded (ex_snapshot\<lparr>sn_issued := 7\<rparr>)"
    by (rule snapshot_tamper_evident [OF ex_parsed(1) a p q refl refl])
  then show ?thesis using a by blast
qed

text \<open>A byte string is at most one of a chain, an adapter rail, an asset and a destination pointer; an
  accepted pointer is exactly its components joined by colons, so pointers are equal when their bytes are.\<close>

theorem destination_forms:
  "length (filter (\<lambda>form. form) [is_caip2 s, is_adapter_rail s, is_caip19_asset s, pointer_parse nfc s \<in> range Inr]) \<le> 1 \<and>
   (pointer_parse nfc s = Inr p \<longleftrightarrow> pointer_ok nfc p \<and> s = raw p)"
proof -
  have "pointer_parse nfc s \<in> range Inr \<longleftrightarrow> (\<exists>p. pointer_parse nfc s = Inr p)" by auto
  then show ?thesis using forms_disjoint [of s nfc] pointer_accepted [of nfc s p] by simp
qed

end
