(* ===== verification/Host.thy ===== *)
theory Host
  imports Pointer Envelope
begin

text \<open>
  Host normalization and the registrable domain (\<^verbatim>\<open>crates/paytp-host/src/lib.rs\<close>, \<^verbatim>\<open>psl.rs\<close>). The UTS 46
  conversion of the \<open>idna\<close> crate is the parameter \<open>uts46\<close> (the canonical form of a host, if it has one), the
  lines of the vendored suffix list are data. A host is its bytes; its labels are split at the dots.
\<close>

section \<open>Normalized hosts\<close>

datatype host_error = Empty | NotNormalized

definition DOT :: u8 where "DOT = 0x2E"

fun split_all :: "u8 \<Rightarrow> bytes \<Rightarrow> bytes list" where
  "split_all c [] = [[]]"
| "split_all c (b # s) =
     (if b = c then [] # split_all c s
      else (case split_all c s of l # ls \<Rightarrow> (b # l) # ls | [] \<Rightarrow> [[b]]))"

fun join :: "u8 \<Rightarrow> bytes list \<Rightarrow> bytes" where
  "join c [] = []"
| "join c [l] = l"
| "join c (l # l' # ls) = l @ c # join c (l' # ls)"

definition validate_normalized_host :: "(bytes \<Rightarrow> bytes option) \<Rightarrow> bytes \<Rightarrow> host_error + unit" where
  "validate_normalized_host uts46 host =
     (if host = [] then Inl Empty
      else (case uts46 host of Some ascii_host \<Rightarrow> if ascii_host = host then Inr () else Inl NotNormalized
            | None \<Rightarrow> Inl NotNormalized))"

definition has_plausible_tld :: "bytes \<Rightarrow> bool" where
  "has_plausible_tld host =
     (let tld = last (split_all DOT host) in
      tld \<noteq> [] \<and> (list_all (\<lambda>b. is_lower b \<or> is_upper b) tld \<or> starts_with tld (ascii ''xn--'')))"

section \<open>The public suffix list\<close>

record psl =
  psl_rules :: "bytes set"
  psl_wildcards :: "bytes set"
  psl_exceptions :: "bytes set"

text \<open>One rule of the list, converted by \<open>rule_to_alabel\<close> to the form of a normalized host.\<close>

definition rule_to_alabel :: "(bytes \<Rightarrow> bytes option) \<Rightarrow> (bytes \<Rightarrow> bytes) \<Rightarrow> bytes \<Rightarrow> bytes" where
  "rule_to_alabel to_ascii lowercase rule = (case to_ascii rule of Some a \<Rightarrow> a | None \<Rightarrow> lowercase rule)"

definition add_rule :: "(bytes \<Rightarrow> bytes) \<Rightarrow> bytes \<Rightarrow> psl \<Rightarrow> psl" where
  "add_rule alabel rule p =
     (case strip_prefix [0x21] rule of
        Some exc \<Rightarrow> p\<lparr>psl_exceptions := insert (alabel exc) (psl_exceptions p)\<rparr>
      | None \<Rightarrow> (case strip_prefix [0x2A, DOT] rule of
          Some wild \<Rightarrow> p\<lparr>psl_wildcards := insert (alabel wild) (psl_wildcards p)\<rparr>
        | None \<Rightarrow> p\<lparr>psl_rules := insert (alabel rule) (psl_rules p)\<rparr>))"

definition load_rules :: "(bytes \<Rightarrow> bytes) \<Rightarrow> bytes list \<Rightarrow> psl" where
  "load_rules alabel rules = fold (add_rule alabel) rules \<lparr>psl_rules = {}, psl_wildcards = {}, psl_exceptions = {}\<rparr>"

text \<open>The two loops of \<open>public_suffix_len\<close>: over the suffixes of the labels, longest first. The early return
  of an exception, and the longest match of a rule or a wildcard.\<close>

fun exception_len :: "psl \<Rightarrow> bytes list \<Rightarrow> nat option" where
  "exception_len p [] = None"
| "exception_len p (l # ls) =
     (if join DOT (l # ls) \<in> psl_exceptions p then Some (length (l # ls) - 1) else exception_len p ls)"

fun best_len :: "psl \<Rightarrow> bytes list \<Rightarrow> nat \<Rightarrow> nat" where
  "best_len p [] best = best"
| "best_len p (l # ls) best =
     (let best = (if join DOT (l # ls) \<in> psl_rules p then max best (length (l # ls)) else best);
          best = (if ls \<noteq> [] \<and> join DOT ls \<in> psl_wildcards p then max best (length (l # ls)) else best)
      in best_len p ls best)"

definition public_suffix_len :: "psl \<Rightarrow> bytes list \<Rightarrow> nat" where
  "public_suffix_len p labels =
     (case exception_len p labels of Some n \<Rightarrow> n | None \<Rightarrow> max (best_len p labels 0) 1)"

definition psl_registrable :: "psl \<Rightarrow> bytes \<Rightarrow> bytes option" where
  "psl_registrable p host =
     (let labels = split_all DOT host; n = length labels; ps = public_suffix_len p labels in
      if n \<le> ps then None else Some (join DOT (drop (n - ps - 1) labels)))"

definition registrable_domain :: "(bytes \<Rightarrow> bytes option) \<Rightarrow> psl \<Rightarrow> bytes \<Rightarrow> host_error + bytes" where
  "registrable_domain uts46 p host =
     and_then (validate_normalized_host uts46 host) (\<lambda>_.
     if \<not> has_plausible_tld host then Inr host
     else Inr (case psl_registrable p host of Some d \<Rightarrow> d | None \<Rightarrow> host))"

section \<open>Labels\<close>

lemma split_all_nonempty [simp]: "split_all c s \<noteq> []"
  by (cases s) (auto split: list.splits)

lemma join_Cons_head: "ls \<noteq> [] \<Longrightarrow> join c ((b # l) # ls) = b # join c (l # ls)"
  by (cases ls) auto

lemma join_split [simp]: "join c (split_all c s) = s"
proof (induction s)
  case (Cons b s)
  obtain l ls where s: "split_all c s = l # ls" by (cases "split_all c s") auto
  then show ?case using Cons by (cases ls) auto
qed simp

lemma split_no_sep: "l \<in> set (split_all c s) \<Longrightarrow> c \<notin> set l"
  by (induction s arbitrary: l) (auto split: if_splits list.splits)

lemma split_append: "c \<notin> set l \<Longrightarrow> split_all c (l @ c # s) = l # split_all c s"
  by (induction l) auto

lemma split_whole: "c \<notin> set l \<Longrightarrow> split_all c l = [l]"
  by (induction l) auto

lemma split_join: "ls \<noteq> [] \<Longrightarrow> \<forall>l \<in> set ls. c \<notin> set l \<Longrightarrow> split_all c (join c ls) = ls"
  by (induction c ls rule: join.induct) (auto simp: split_append split_whole)

section \<open>The registrable domain\<close>

lemma exception_len_Some:
  "exception_len p ls = Some n \<longleftrightarrow> (\<exists>k < length ls. n = length ls - k - 1 \<and> join DOT (drop k ls) \<in> psl_exceptions p
     \<and> (\<forall>j < k. join DOT (drop j ls) \<notin> psl_exceptions p))"
proof (induction ls)
  case (Cons l ls)
  show ?case
  proof (cases "join DOT (l # ls) \<in> psl_exceptions p")
    case True
    have "k = 0" if "\<forall>j < k. join DOT (drop j (l # ls)) \<notin> psl_exceptions p" for k
      using that True by (metis drop0 neq0_conv)
    then have "(\<exists>k < length (l # ls). n = length (l # ls) - k - 1 \<and> join DOT (drop k (l # ls)) \<in> psl_exceptions p
        \<and> (\<forall>j < k. join DOT (drop j (l # ls)) \<notin> psl_exceptions p)) \<longleftrightarrow> n = length (l # ls) - 1"
      using True by (metis diff_zero drop0 length_greater_0_conv list.discI not_less_zero)
    then show ?thesis using True by auto
  next
    case False
    have "exception_len p (l # ls) = Some n \<longleftrightarrow> exception_len p ls = Some n" using False by simp
    also have "\<dots> \<longleftrightarrow> (\<exists>k < length (l # ls). n = length (l # ls) - k - 1 \<and> join DOT (drop k (l # ls)) \<in> psl_exceptions p
        \<and> (\<forall>j < k. join DOT (drop j (l # ls)) \<notin> psl_exceptions p))"
      unfolding Cons.IH
    proof
      assume "\<exists>k < length ls. n = length ls - k - 1 \<and> join DOT (drop k ls) \<in> psl_exceptions p
        \<and> (\<forall>j < k. join DOT (drop j ls) \<notin> psl_exceptions p)"
      then obtain k where k: "k < length ls" "n = length ls - k - 1" "join DOT (drop k ls) \<in> psl_exceptions p"
        "\<forall>j < k. join DOT (drop j ls) \<notin> psl_exceptions p" by blast
      have "\<forall>j < Suc k. join DOT (drop j (l # ls)) \<notin> psl_exceptions p"
      proof (intro allI impI)
        fix j assume "j < Suc k"
        then show "join DOT (drop j (l # ls)) \<notin> psl_exceptions p" using k(4) False by (cases j) auto
      qed
      then show "\<exists>k < length (l # ls). n = length (l # ls) - k - 1 \<and> join DOT (drop k (l # ls)) \<in> psl_exceptions p
        \<and> (\<forall>j < k. join DOT (drop j (l # ls)) \<notin> psl_exceptions p)"
        using k by (intro exI [of _ "Suc k"]) simp
    next
      assume "\<exists>k < length (l # ls). n = length (l # ls) - k - 1 \<and> join DOT (drop k (l # ls)) \<in> psl_exceptions p
        \<and> (\<forall>j < k. join DOT (drop j (l # ls)) \<notin> psl_exceptions p)"
      then obtain k where k: "k < length (l # ls)" "n = length (l # ls) - k - 1" "join DOT (drop k (l # ls)) \<in> psl_exceptions p"
        "\<forall>j < k. join DOT (drop j (l # ls)) \<notin> psl_exceptions p" by blast
      then obtain k' where k': "k = Suc k'" using False by (cases k) auto
      then have "\<forall>j < k'. join DOT (drop j ls) \<notin> psl_exceptions p" using k(4) by (metis Suc_less_eq drop_Suc_Cons)
      then show "\<exists>k < length ls. n = length ls - k - 1 \<and> join DOT (drop k ls) \<in> psl_exceptions p
        \<and> (\<forall>j < k. join DOT (drop j ls) \<notin> psl_exceptions p)"
        using k k' by (intro exI [of _ k']) simp
    qed
    finally show ?thesis .
  qed
qed simp

lemma exception_len_None: "exception_len p ls = None \<longleftrightarrow> (\<forall>k < length ls. join DOT (drop k ls) \<notin> psl_exceptions p)"
proof (induction ls)
  case (Cons l ls)
  have "(\<forall>k < length (l # ls). join DOT (drop k (l # ls)) \<notin> psl_exceptions p) \<longleftrightarrow>
      join DOT (l # ls) \<notin> psl_exceptions p \<and> (\<forall>k < length ls. join DOT (drop k ls) \<notin> psl_exceptions p)"
    by (subst length_Cons, subst All_less_Suc2) simp
  then show ?case using Cons by simp
qed simp

text \<open>A suffix of the labels that matches.\<close>

definition matched :: "psl \<Rightarrow> bytes list \<Rightarrow> bool" where
  "matched p ls \<longleftrightarrow> join DOT ls \<in> psl_rules p \<or> (tl ls \<noteq> [] \<and> join DOT (tl ls) \<in> psl_wildcards p)"

lemma best_len_drop: "k < length ls \<Longrightarrow> matched p (drop k ls) \<Longrightarrow> length ls - k \<le> best_len p ls b"
proof (induction ls arbitrary: k b)
  case (Cons l ls)
  have mono: "b \<le> best_len p xs b" for xs b by (induction xs arbitrary: b) (auto simp: Let_def intro: max.cobounded1 [THEN order_trans])
  show ?case
  proof (cases k)
    case 0
    then have "length (l # ls) \<le> (let best = (if join DOT (l # ls) \<in> psl_rules p then max b (length (l # ls)) else b) in
      (if ls \<noteq> [] \<and> join DOT ls \<in> psl_wildcards p then max best (length (l # ls)) else best))"
      using Cons.prems by (auto simp: matched_def Let_def)
    also have "\<dots> \<le> best_len p (l # ls) b" using mono by (simp add: Let_def)
    finally show ?thesis using 0 by simp
  next
    case (Suc k')
    then show ?thesis using Cons.IH [of k'] Cons.prems by (auto simp: Let_def)
  qed
qed simp

lemma best_len_cases: "best_len p ls b = b \<or> (\<exists>k < length ls. matched p (drop k ls) \<and> best_len p ls b = length ls - k)"
proof (induction ls arbitrary: b)
  case (Cons l ls)
  let ?b = "if join DOT (l # ls) \<in> psl_rules p then max b (length (l # ls)) else b"
  let ?c = "if ls \<noteq> [] \<and> join DOT ls \<in> psl_wildcards p then max ?b (length (l # ls)) else ?b"
  have "?c = b \<or> (matched p (l # ls) \<and> ?c = length (l # ls))" by (auto simp: matched_def max_def)
  moreover have "best_len p (l # ls) b = best_len p ls ?c" by (simp add: Let_def)
  ultimately consider "best_len p (l # ls) b = best_len p ls b" | "matched p (l # ls)" "best_len p (l # ls) b = best_len p ls (length (l # ls))"
    by auto
  then show ?case
  proof cases
    case 1
    then show ?thesis using Cons.IH [of b] by (metis Suc_less_eq diff_Suc_Suc drop_Suc_Cons length_Cons)
  next
    case 2
    from Cons.IH [of "length (l # ls)"] show ?thesis
    proof
      assume "best_len p ls (length (l # ls)) = length (l # ls)"
      then show ?thesis using 2 by (intro disjI2 exI [of _ 0]) simp
    next
      assume "\<exists>k < length ls. matched p (drop k ls) \<and> best_len p ls (length (l # ls)) = length ls - k"
      then show ?thesis using 2 by (metis Suc_less_eq diff_Suc_Suc drop_Suc_Cons length_Cons)
    qed
  qed
qed simp


text \<open>The suffix found for a host is the one found for its registrable domain.\<close>

lemma public_suffix_stable:
  assumes "public_suffix_len p labels < length labels"
  shows "public_suffix_len p (drop (length labels - public_suffix_len p labels - 1) labels) = public_suffix_len p labels"
proof (cases "exception_len p labels")
  case (Some n)
  then obtain k where k: "k < length labels" "n = length labels - k - 1" "join DOT (drop k labels) \<in> psl_exceptions p"
    by (auto simp: exception_len_Some)
  have ps: "public_suffix_len p labels = n" using Some by (simp add: public_suffix_len_def)
  then have d: "length labels - public_suffix_len p labels - 1 = k" using k by simp
  obtain l ls where l: "drop k labels = l # ls" using k(1) by (metis Cons_nth_drop_Suc)
  then have "length (l # ls) = length labels - k" by (metis length_drop)
  then have "exception_len p (drop k labels) = Some n" using k l by simp
  then show ?thesis unfolding d by (simp add: public_suffix_len_def ps [unfolded public_suffix_len_def])
next
  case None
  let ?best = "best_len p labels 0"
  define m where "m = max ?best 1"
  have ps: "public_suffix_len p labels = m" using None by (simp add: public_suffix_len_def m_def)
  define k where "k = length labels - m - 1"
  let ?r = "drop k labels"
  have len: "length ?r = Suc m" using assms ps by (simp add: k_def)
  have "exception_len p ?r = None"
    using None unfolding exception_len_None by (simp add: less_diff_conv add.commute)
  have le: "best_len p ?r 0 \<le> ?best"
  proof -
    from best_len_cases [of p ?r 0] show ?thesis
    proof
      assume "\<exists>j < length ?r. matched p (drop j ?r) \<and> best_len p ?r 0 = length ?r - j"
      then obtain j where j: "j < length ?r" "matched p (drop (j + k) labels)" "best_len p ?r 0 = length labels - (j + k)"
        by (auto simp: add.commute)
      then show ?thesis using best_len_drop [of "j + k" labels p 0] len by simp
    qed simp
  qed
  have ge: "?best \<le> best_len p ?r 0"
  proof -
    from best_len_cases [of p labels 0] show ?thesis
    proof
      assume "\<exists>j < length labels. matched p (drop j labels) \<and> ?best = length labels - j"
      then obtain j where j: "j < length labels" "matched p (drop j labels)" "?best = length labels - j" by blast
      then have "k \<le> j" by (simp add: k_def m_def)
      then have "drop (j - k) ?r = drop j labels" "j - k < length ?r" "length ?r - (j - k) = length labels - j" using j(1) by auto
      then show ?thesis using best_len_drop [of "j - k" ?r p 0] j by metis
    qed simp
  qed
  have "public_suffix_len p ?r = m"
    using \<open>exception_len p ?r = None\<close> le ge by (simp add: public_suffix_len_def m_def)
  then show ?thesis by (simp add: ps k_def)
qed

lemma last_drop: "k < length xs \<Longrightarrow> last (drop k xs) = last xs"
  by simp

text \<open>Resolving the scope of a scope changes nothing.\<close>

lemma psl_registrable_stable:
  assumes "psl_registrable p host = Some d"
  shows "psl_registrable p d = Some d" "last (split_all DOT d) = last (split_all DOT host)"
proof -
  let ?labels = "split_all DOT host"
  let ?ps = "public_suffix_len p ?labels"
  let ?k = "length ?labels - ?ps - 1"
  have d: "?ps < length ?labels" "d = join DOT (drop ?k ?labels)"
    using assms by (auto simp: psl_registrable_def Let_def split: if_splits)
  have "drop ?k ?labels \<noteq> []" "\<forall>l \<in> set (drop ?k ?labels). DOT \<notin> set l"
    using d(1) by (auto dest: in_set_dropD split_no_sep)
  then have s: "split_all DOT d = drop ?k ?labels" unfolding d(2) by (rule split_join)
  show "last (split_all DOT d) = last ?labels" unfolding s using d(1) by simp
  define r where "r = drop ?k ?labels"
  have "length r = Suc ?ps" using d(1) by (simp add: r_def)
  moreover have "public_suffix_len p r = ?ps" unfolding r_def by (rule public_suffix_stable [OF d(1)])
  moreover have "split_all DOT d = r" "join DOT r = d" using s d(2) by (simp_all add: r_def)
  ultimately show "psl_registrable p d = Some d" by (simp add: psl_registrable_def)
qed

theorem registrable_stable:
  assumes "registrable_domain uts46 p host = Inr d" "uts46 d = Some d" "d \<noteq> []"
  shows "registrable_domain uts46 p d = Inr d"
proof (cases "has_plausible_tld host \<and> psl_registrable p host \<noteq> None")
  case True
  then have s: "psl_registrable p host = Some d" using assms(1) by (auto simp: registrable_domain_def)
  have "has_plausible_tld d" using True psl_registrable_stable(2) [OF s] by (simp add: has_plausible_tld_def Let_def)
  then show ?thesis
    using assms(2,3) psl_registrable_stable(1) [OF s] by (simp add: registrable_domain_def validate_normalized_host_def)
next
  case False
  then have "d = host" using assms(1) by (auto simp: registrable_domain_def split: if_splits)
  then show ?thesis using assms(1) by simp
qed

text \<open>The scope is the host itself or a suffix of it that starts after a dot.\<close>

lemma join_append: "xs \<noteq> [] \<Longrightarrow> ys \<noteq> [] \<Longrightarrow> join c (xs @ ys) = join c xs @ c # join c ys"
proof (induction c xs rule: join.induct)
  case (2 c l)
  then show ?case by (cases ys) auto
qed auto

theorem registrable_suffix:
  assumes "registrable_domain uts46 p host = Inr d"
  shows "d = host \<or> (\<exists>sub. host = sub @ DOT # d)"
proof (cases "psl_registrable p host")
  case (Some r)
  let ?labels = "split_all DOT host"
  let ?k = "length ?labels - public_suffix_len p ?labels - 1"
  have r: "r = join DOT (drop ?k ?labels)" "?k < length ?labels"
    using Some by (auto simp: psl_registrable_def Let_def split: if_splits)
  have "r = host \<or> (\<exists>sub. host = sub @ DOT # r)"
  proof (cases "?k = 0")
    case True
    then show ?thesis using r(1) by simp
  next
    case False
    then have "take ?k ?labels \<noteq> []" "drop ?k ?labels \<noteq> []" using r(2) by auto
    from join_append [OF this, of DOT] show ?thesis unfolding r(1) by auto
  qed
  then show ?thesis using assms Some by (auto simp: registrable_domain_def split: if_splits)
qed (use assms in \<open>auto simp: registrable_domain_def split: if_splits\<close>)

end
