(* ===== verification/Establish.thy ===== *)
theory Establish
  imports Settle_Canonical Governed Host
begin

text \<open>
  The two large messages that establish a channel (\<^verbatim>\<open>crates/paytp-core/src/channel/establish.rs\<close>): the
  merchant's binding artifact with its acceptance, and the payer-signed channel terms. The host
  conversion of the \<open>idna\<close> crate is the parameter \<open>uts46\<close>.
\<close>

section \<open>Shared readers\<close>

definition text_of :: "(nat list \<Rightarrow> nat list) \<Rightarrow> bytes \<Rightarrow> error + bytes" where
  "text_of nfc v = and_then (from_utf8 v) (\<lambda>s. and_then (validate_text nfc s) (\<lambda>_. Inr s))"

definition validate_host_normalized :: "(nat list \<Rightarrow> nat list) \<Rightarrow> (bytes \<Rightarrow> bytes option) \<Rightarrow> bytes \<Rightarrow> error + unit" where
  "validate_host_normalized nfc uts46 host =
     and_then (validate_text nfc host) (\<lambda>_. map_err (\<lambda>_. FieldDomain) (validate_normalized_host uts46 host))"

text \<open>The bytes of an object of the given fields, and a signed message: its content fields and the signature.\<close>

definition object_bytes :: "field list \<Rightarrow> error + bytes" where
  "object_bytes fs = and_then (from_fields fs) (\<lambda>obj. Inr (object_encode obj))"

definition with_sig :: "u8 \<Rightarrow> bytes option \<Rightarrow> field list \<Rightarrow> field list" where
  "with_sig t s fs = fs @ (case s of None \<Rightarrow> [] | Some x \<Rightarrow> [field_new t False x])"

section \<open>The binding artifact\<close>

definition A_HOST :: u8 where "A_HOST = 0x00"
definition A_CERT_HASH :: u8 where "A_CERT_HASH = 0x01"
definition A_ENC_KEY :: u8 where "A_ENC_KEY = 0x02"
definition A_NOT_BEFORE :: u8 where "A_NOT_BEFORE = 0x03"
definition A_NOT_AFTER :: u8 where "A_NOT_AFTER = 0x04"
definition A_SIG :: u8 where "A_SIG = 0x70"

record binding_artifact =
  ba_host :: bytes
  ba_cert_hash :: bytes
  ba_enc_key :: bytes
  ba_not_before :: u64
  ba_not_after :: u64
  ba_sig :: "bytes option"

definition artifact_schema :: schema where
  "artifact_schema = schema_new Closed
     [(A_HOST, False), (A_CERT_HASH, False), (A_ENC_KEY, False), (A_NOT_BEFORE, False), (A_NOT_AFTER, False), (A_SIG, False)]"

definition artifact_content_fields ::
  "(nat list \<Rightarrow> nat list) \<Rightarrow> (bytes \<Rightarrow> bytes option) \<Rightarrow> binding_artifact \<Rightarrow> error + field list" where
  "artifact_content_fields nfc uts46 a =
     and_then (validate_host_normalized nfc uts46 (ba_host a)) (\<lambda>_.
     Inr [field_new A_HOST False (ba_host a), field_new A_CERT_HASH False (ba_cert_hash a),
          field_new A_ENC_KEY False (ba_enc_key a),
          field_new A_NOT_BEFORE False (encode_uint_u128 (ucast (ba_not_before a))),
          field_new A_NOT_AFTER False (encode_uint_u128 (ucast (ba_not_after a)))])"

definition artifact_covered_bytes ::
  "(nat list \<Rightarrow> nat list) \<Rightarrow> (bytes \<Rightarrow> bytes option) \<Rightarrow> binding_artifact \<Rightarrow> error + bytes" where
  "artifact_covered_bytes nfc uts46 a =
     and_then (artifact_content_fields nfc uts46 a) (\<lambda>fs.
     and_then (object_bytes fs) (\<lambda>bs. Inr (covered Artifact bs)))"

definition artifact_sign ::
  "crypto_suite \<Rightarrow> (nat list \<Rightarrow> nat list) \<Rightarrow> (bytes \<Rightarrow> bytes option) \<Rightarrow> bytes \<Rightarrow> binding_artifact \<Rightarrow> error + binding_artifact" where
  "artifact_sign cs nfc uts46 sk a =
     and_then (artifact_covered_bytes nfc uts46 a) (\<lambda>cov. Inr (a\<lparr>ba_sig := Some (ed25519_sign cs sk cov)\<rparr>))"

definition artifact_encode ::
  "(nat list \<Rightarrow> nat list) \<Rightarrow> (bytes \<Rightarrow> bytes option) \<Rightarrow> binding_artifact \<Rightarrow> error + bytes" where
  "artifact_encode nfc uts46 a =
     and_then (artifact_content_fields nfc uts46 a) (\<lambda>fs. object_bytes (with_sig A_SIG (ba_sig a) fs))"

definition artifact_parse ::
  "(nat list \<Rightarrow> nat list) \<Rightarrow> (bytes \<Rightarrow> bytes option) \<Rightarrow> bytes \<Rightarrow> error + binding_artifact" where
  "artifact_parse nfc uts46 buf =
     and_then (object_parse buf) (\<lambda>obj.
     and_then (object_validate obj artifact_schema) (\<lambda>_.
     and_then (and_then (get_value obj A_HOST) from_utf8) (\<lambda>host.
     and_then (validate_host_normalized nfc uts46 host) (\<lambda>_.
     and_then (and_then (get_value obj A_CERT_HASH) (fixed_bytes 32)) (\<lambda>cert.
     and_then (and_then (get_value obj A_ENC_KEY) (fixed_bytes 32)) (\<lambda>enc.
     and_then (and_then (get_value obj A_NOT_BEFORE) decode_uint_time) (\<lambda>not_before.
     and_then (and_then (get_value obj A_NOT_AFTER) decode_uint_time) (\<lambda>not_after.
     and_then (get_optional obj A_SIG 64) (\<lambda>sig.
     Inr \<lparr>ba_host = host, ba_cert_hash = cert, ba_enc_key = enc, ba_not_before = not_before,
          ba_not_after = not_after, ba_sig = sig\<rparr>)))))))))"

record accepted_binding =
  ab_merchant_key :: bytes
  ab_host :: bytes
  ab_enc_key :: bytes

definition artifact_accept ::
  "crypto_suite \<Rightarrow> (nat list \<Rightarrow> nat list) \<Rightarrow> (bytes \<Rightarrow> bytes option) \<Rightarrow> bytes \<Rightarrow> bytes \<Rightarrow> bytes \<Rightarrow> u64 \<Rightarrow> binding_artifact \<Rightarrow>
   error + accepted_binding" where
  "artifact_accept cs nfc uts46 m_key conn_cert_hash conn_host now a =
     and_then (ok_or (ba_sig a) MissingField) (\<lambda>sig.
     and_then (artifact_covered_bytes nfc uts46 a) (\<lambda>cov.
     and_then (verify_sig cs m_key cov sig) (\<lambda>_.
     if sat_add now SKEW_SECS < ba_not_before a \<or> sat_add (ba_not_after a) SKEW_SECS < now then Inl FieldDomain
     else if ba_cert_hash a \<noteq> conn_cert_hash then Inl BadSignature
     else if ba_host a \<noteq> conn_host then Inl BadSignature
     else Inr \<lparr>ab_merchant_key = m_key, ab_host = ba_host a, ab_enc_key = ba_enc_key a\<rparr>)))"

section \<open>The channel terms\<close>

definition C_PAYER_KEY :: u8 where "C_PAYER_KEY = 0x00"
definition C_CHANNEL_ID :: u8 where "C_CHANNEL_ID = 0x01"
definition C_MERCHANT_KEY :: u8 where "C_MERCHANT_KEY = 0x02"
definition C_DENOM :: u8 where "C_DENOM = 0x03"
definition C_MODE :: u8 where "C_MODE = 0x04"
definition C_LIMIT_L :: u8 where "C_LIMIT_L = 0x05"
definition C_LIMIT_E :: u8 where "C_LIMIT_E = 0x06"
definition C_TH_VALUE :: u8 where "C_TH_VALUE = 0x07"
definition C_TH_TIME :: u8 where "C_TH_TIME = 0x08"
definition C_REFUND_PTR :: u8 where "C_REFUND_PTR = 0x09"
definition C_BASELINE_NET :: u8 where "C_BASELINE_NET = 0x0A"
definition C_RATE_SOURCE :: u8 where "C_RATE_SOURCE = 0x0B"
definition C_RATE_DEV :: u8 where "C_RATE_DEV = 0x0C"
definition C_SCHEMA :: u8 where "C_SCHEMA = 0x0D"
definition C_VECTOR :: u8 where "C_VECTOR = 0x0E"
definition C_REGISTRY_V :: u8 where "C_REGISTRY_V = 0x0F"
definition C_HS :: u8 where "C_HS = 0x10"
definition C_PREDECESSOR :: u8 where "C_PREDECESSOR = 0x12"
definition C_TIMESTAMP :: u8 where "C_TIMESTAMP = 0x13"
definition C_BASELINE_ASSET :: u8 where "C_BASELINE_ASSET = 0x14"
definition C_CONTRACT :: u8 where "C_CONTRACT = 0x15"
definition C_FIN_MEED :: u8 where "C_FIN_MEED = 0x16"
definition C_FIN_DENOM :: u8 where "C_FIN_DENOM = 0x17"
definition C_SIG :: u8 where "C_SIG = 0x70"

definition MODE_PREPAY :: u8 where "MODE_PREPAY = 0x00"
definition MODE_POSTPAY :: u8 where "MODE_POSTPAY = 0x01"

record vector_entry =
  ve_role :: u8
  ve_bp :: u16
  ve_dest :: bytes

record channel_auth =
  ca_payer_key :: bytes
  ca_channel_id :: bytes
  ca_merchant_key :: bytes
  ca_denom :: bytes
  ca_mode :: u8
  ca_limit_l :: u128
  ca_limit_e :: u128
  ca_th_value :: u128
  ca_th_time :: u64
  ca_refund_ptr :: "bytes option"
  ca_baseline_net :: bytes
  ca_rate_source :: "bytes option"
  ca_rate_dev :: "u128 option"
  ca_schema :: u32
  ca_vector :: "vector_entry list"
  ca_registry_v :: u32
  ca_hs :: bytes
  ca_predecessor :: "(bytes \<times> bytes) option"
  ca_timestamp :: u64
  ca_baseline_asset :: bytes
  ca_contract :: u32
  ca_fin_meed :: bytes
  ca_fin_denom :: bytes
  ca_sig :: "bytes option"

definition auth_types :: "u8 list" where
  "auth_types = [C_PAYER_KEY, C_CHANNEL_ID, C_MERCHANT_KEY, C_DENOM, C_MODE, C_LIMIT_L, C_LIMIT_E, C_TH_VALUE, C_TH_TIME,
     C_REFUND_PTR, C_BASELINE_NET, C_RATE_SOURCE, C_RATE_DEV, C_SCHEMA, C_VECTOR, C_REGISTRY_V, C_HS, C_PREDECESSOR,
     C_TIMESTAMP, C_BASELINE_ASSET, C_CONTRACT, C_FIN_MEED, C_FIN_DENOM, C_SIG]"

definition auth_schema :: schema where
  "auth_schema = schema_new Closed (map (\<lambda>t. (t, False)) auth_types)"

definition entry_item :: "vector_entry \<Rightarrow> bytes" where
  "entry_item e = ve_role e # to_be_bytes (ve_bp e) @ leb_encode (of_nat (length (ve_dest e))) @ ve_dest e"

definition vector_value :: "channel_auth \<Rightarrow> bytes" where
  "vector_value a = build_count_prefixed (map entry_item (ca_vector a))"

definition check_presence :: "channel_auth \<Rightarrow> error + unit" where
  "check_presence a =
     (if ca_channel_id a = replicate 8 0 then Inl FieldDomain
      else and_then
        (if ca_mode a = MODE_PREPAY then (if ca_refund_ptr a = None then Inl MissingField else Inr ())
         else if ca_mode a = MODE_POSTPAY then (if ca_refund_ptr a \<noteq> None then Inl FieldDomain else Inr ())
         else Inl FieldDomain) (\<lambda>_.
      let needs_rate = (ca_denom a \<noteq> ca_baseline_asset a) in
      if (ca_rate_source a \<noteq> None) \<noteq> needs_rate \<or> (ca_rate_dev a \<noteq> None) \<noteq> needs_rate then Inl FieldDomain
      else Inr ()))"

definition validate_grammar :: "(nat list \<Rightarrow> nat list) \<Rightarrow> channel_auth \<Rightarrow> error + unit" where
  "validate_grammar nfc a =
     (if \<not> is_asset_id nfc (ca_denom a) True then Inl FieldDomain
      else if \<not> is_asset_id nfc (ca_baseline_asset a) False then Inl FieldDomain
      else if \<not> is_caip2 (ca_baseline_net a) then Inl FieldDomain
      else (case ca_refund_ptr a of
              Some rp \<Rightarrow> and_then (pointer_parse nfc rp) (\<lambda>_. Inr ())
            | None \<Rightarrow> Inr ()))"

definition auth_content_fields :: "(nat list \<Rightarrow> nat list) \<Rightarrow> channel_auth \<Rightarrow> error + field list" where
  "auth_content_fields nfc a =
     and_then (check_presence a) (\<lambda>_.
     and_then (validate_grammar nfc a) (\<lambda>_.
     Inr ([field_new C_PAYER_KEY False (ca_payer_key a), field_new C_CHANNEL_ID False (ca_channel_id a),
           field_new C_MERCHANT_KEY False (ca_merchant_key a), field_new C_DENOM False (ca_denom a),
           field_new C_MODE False [ca_mode a],
           field_new C_LIMIT_L False (encode_uint_u128 (ca_limit_l a)),
           field_new C_LIMIT_E False (encode_uint_u128 (ca_limit_e a)),
           field_new C_TH_VALUE False (encode_uint_u128 (ca_th_value a)),
           field_new C_TH_TIME False (encode_uint_u128 (ucast (ca_th_time a)))]
      @ optional_field C_REFUND_PTR (ca_refund_ptr a)
      @ [field_new C_BASELINE_NET False (ca_baseline_net a)]
      @ optional_field C_RATE_SOURCE (ca_rate_source a)
      @ optional_field C_RATE_DEV (map_option encode_uint_u128 (ca_rate_dev a))
      @ [field_new C_SCHEMA False (encode_uint_u128 (ucast (ca_schema a))),
         field_new C_VECTOR False (vector_value a),
         field_new C_REGISTRY_V False (encode_uint_u128 (ucast (ca_registry_v a))),
         field_new C_HS False (ca_hs a)]
      @ optional_field C_PREDECESSOR (map_option (\<lambda>(prev_id, prev_ref). prev_id @ prev_ref) (ca_predecessor a))
      @ [field_new C_TIMESTAMP False (encode_uint_u128 (ucast (ca_timestamp a))),
         field_new C_BASELINE_ASSET False (ca_baseline_asset a),
         field_new C_CONTRACT False (encode_uint_u128 (ucast (ca_contract a))),
         field_new C_FIN_MEED False (ca_fin_meed a),
         field_new C_FIN_DENOM False (ca_fin_denom a)])))"

definition canonical_content :: "(nat list \<Rightarrow> nat list) \<Rightarrow> channel_auth \<Rightarrow> error + bytes" where
  "canonical_content nfc a = and_then (auth_content_fields nfc a) object_bytes"

definition auth_covered_bytes :: "(nat list \<Rightarrow> nat list) \<Rightarrow> channel_auth \<Rightarrow> error + bytes" where
  "auth_covered_bytes nfc a = and_then (canonical_content nfc a) (\<lambda>bs. Inr (covered ChanAuth bs))"

definition auth_sign :: "crypto_suite \<Rightarrow> (nat list \<Rightarrow> nat list) \<Rightarrow> bytes \<Rightarrow> channel_auth \<Rightarrow> error + channel_auth" where
  "auth_sign cs nfc sk a =
     and_then (auth_covered_bytes nfc a) (\<lambda>cov. Inr (a\<lparr>ca_sig := Some (ed25519_sign cs sk cov)\<rparr>))"

definition auth_verify :: "crypto_suite \<Rightarrow> (nat list \<Rightarrow> nat list) \<Rightarrow> channel_auth \<Rightarrow> error + unit" where
  "auth_verify cs nfc a =
     and_then (ok_or (ca_sig a) MissingField) (\<lambda>sig.
     and_then (auth_covered_bytes nfc a) (\<lambda>cov. verify_sig cs (ca_payer_key a) cov sig))"

definition auth_shares :: "channel_auth \<Rightarrow> share list" where
  "auth_shares a = map (\<lambda>e. (ve_role e, ve_bp e, ve_dest e)) (ca_vector a)"

definition auth_validate_vector_governed :: "bool \<Rightarrow> (nat list \<Rightarrow> nat list) \<Rightarrow> snapshot_store \<Rightarrow> channel_auth \<Rightarrow> error + unit" where
  "auth_validate_vector_governed demo nfc st a =
     validate_vector demo nfc (ca_schema a) (ca_registry_v a) (auth_shares a) st"

definition auth_validate_payer_side :: "expected_dest \<Rightarrow> expected_dest \<Rightarrow> channel_auth \<Rightarrow> error + unit" where
  "auth_validate_payer_side il wallet a = validate_payer_side (auth_shares a) il wallet"

definition auth_hash :: "crypto_suite \<Rightarrow> (nat list \<Rightarrow> nat list) \<Rightarrow> channel_auth \<Rightarrow> error + bytes" where
  "auth_hash cs nfc a = and_then (auth_covered_bytes nfc a) (\<lambda>cov. Inr (sha256 cs cov))"

definition auth_encode :: "(nat list \<Rightarrow> nat list) \<Rightarrow> channel_auth \<Rightarrow> error + bytes" where
  "auth_encode nfc a = and_then (auth_content_fields nfc a) (\<lambda>fs. object_bytes (with_sig C_SIG (ca_sig a) fs))"

definition parse_entry :: "(nat list \<Rightarrow> nat list) \<Rightarrow> bytes \<Rightarrow> error + vector_entry \<times> nat" where
  "parse_entry nfc b =
     (if length b < 3 then Inl CountMismatch
      else
        and_then (leb_decode (drop 3 b)) (\<lambda>(len, n).
        let s = 3 + n; e = s + unat len in
        if length b < e then Inl LengthOverrun
        else and_then (text_of nfc (take (unat len) (drop s b))) (\<lambda>d.
             Inr (\<lparr>ve_role = b ! 0, ve_bp = word_of_nat (be_nat (take 2 (drop 1 b))), ve_dest = d\<rparr>, e))))"

definition parse_predecessor :: "bytes \<Rightarrow> error + bytes \<times> bytes" where
  "parse_predecessor v = (if length v \<noteq> 40 then Inl WrongWidth else Inr (take 8 v, take 32 (drop 8 v)))"

definition auth_parse :: "(nat list \<Rightarrow> nat list) \<Rightarrow> bytes \<Rightarrow> error + channel_auth" where
  "auth_parse nfc buf =
     and_then (object_parse buf) (\<lambda>obj.
     and_then (object_validate obj auth_schema) (\<lambda>_.
     let txt = (\<lambda>t. and_then (get_value obj t) (text_of nfc));
         opt_txt = (\<lambda>t. get_parsed obj t (text_of nfc)) in
     and_then (and_then (get_value obj C_MODE) (fixed_bytes 1)) (\<lambda>mode_byte.
     and_then (and_then (get_value obj C_VECTOR) (\<lambda>v. parse_count_prefixed v (parse_entry nfc))) (\<lambda>vector.
     and_then (check_pairs (\<lambda>x y. ve_role x < ve_role y) vector) (\<lambda>_.
     and_then (get_parsed obj C_PREDECESSOR parse_predecessor) (\<lambda>predecessor.
     and_then (and_then (get_value obj C_CHANNEL_ID) (fixed_bytes 8)) (\<lambda>channel_id.
     and_then (and_then (get_value obj C_PAYER_KEY) (fixed_bytes 32)) (\<lambda>payer_key.
     and_then (and_then (get_value obj C_MERCHANT_KEY) (fixed_bytes 32)) (\<lambda>m_key.
     and_then (txt C_DENOM) (\<lambda>denom.
     and_then (and_then (get_value obj C_LIMIT_L) decode_uint_u128) (\<lambda>limit_l.
     and_then (and_then (get_value obj C_LIMIT_E) decode_uint_u128) (\<lambda>limit_e.
     and_then (and_then (get_value obj C_TH_VALUE) decode_uint_u128) (\<lambda>th_value.
     and_then (and_then (get_value obj C_TH_TIME) decode_uint_time) (\<lambda>th_time.
     and_then (opt_txt C_REFUND_PTR) (\<lambda>refund_ptr.
     and_then (txt C_BASELINE_NET) (\<lambda>baseline_net.
     and_then (opt_txt C_RATE_SOURCE) (\<lambda>rate_source.
     and_then (get_parsed obj C_RATE_DEV decode_uint_u128) (\<lambda>rate_dev.
     and_then (and_then (get_value obj C_SCHEMA) decode_uint_u32) (\<lambda>schema_no.
     and_then (and_then (get_value obj C_REGISTRY_V) decode_uint_u32) (\<lambda>registry_v.
     and_then (and_then (get_value obj C_HS) (fixed_bytes 32)) (\<lambda>hs.
     and_then (and_then (get_value obj C_TIMESTAMP) decode_uint_time) (\<lambda>timestamp.
     and_then (txt C_BASELINE_ASSET) (\<lambda>baseline_asset.
     and_then (and_then (get_value obj C_CONTRACT) decode_uint_u32) (\<lambda>contract_no.
     and_then (txt C_FIN_MEED) (\<lambda>fin_meed.
     and_then (txt C_FIN_DENOM) (\<lambda>fin_denom.
     and_then (get_optional obj C_SIG 64) (\<lambda>sig.
     let a = \<lparr>ca_payer_key = payer_key, ca_channel_id = channel_id, ca_merchant_key = m_key, ca_denom = denom,
       ca_mode = hd mode_byte, ca_limit_l = limit_l, ca_limit_e = limit_e, ca_th_value = th_value, ca_th_time = th_time,
       ca_refund_ptr = refund_ptr, ca_baseline_net = baseline_net, ca_rate_source = rate_source, ca_rate_dev = rate_dev,
       ca_schema = schema_no, ca_vector = vector, ca_registry_v = registry_v, ca_hs = hs, ca_predecessor = predecessor,
       ca_timestamp = timestamp, ca_baseline_asset = baseline_asset, ca_contract = contract_no, ca_fin_meed = fin_meed,
       ca_fin_denom = fin_denom, ca_sig = sig\<rparr> in
     and_then (check_presence a) (\<lambda>_.
     and_then (validate_grammar nfc a) (\<lambda>_. Inr a)))))))))))))))))))))))))))))"

end
