(* ===== verification/Seal.thy ===== *)
theory Seal
  imports Settle_Canonical
begin

text \<open>
  The seal of the session secret (\<^verbatim>\<open>crates/paytp-core/src/crypto.rs\<close>, last part). The single-shot operations of
  the \<open>hpke\<close> crate, with their decoding of keys, are the fields of an \<open>hpke_suite\<close>; a failure there is
  \<open>None\<close>. What the file adds is the refusal of the points of small order and the fixed parameters.
\<close>

record hpke_suite =
  single_shot_seal :: "bytes \<Rightarrow> bytes \<Rightarrow> bytes \<Rightarrow> bytes \<Rightarrow> (bytes \<times> bytes) option"
  single_shot_open :: "bytes \<Rightarrow> bytes \<Rightarrow> bytes \<Rightarrow> bytes \<Rightarrow> bytes \<Rightarrow> bytes option"

definition X25519_SMALL_ORDER :: "bytes list" where
  "X25519_SMALL_ORDER =
     [replicate 32 0,
      1 # replicate 31 0,
      [0xe0, 0xeb, 0x7a, 0x7c, 0x3b, 0x41, 0xb8, 0xae, 0x16, 0x56, 0xe3, 0xfa, 0xf1, 0x9f, 0xc4,
       0x6a, 0xda, 0x09, 0x8d, 0xeb, 0x9c, 0x32, 0xb1, 0xfd, 0x86, 0x62, 0x05, 0x16, 0x5f, 0x49, 0xb8, 0x00],
      [0x5f, 0x9c, 0x95, 0xbc, 0xa3, 0x50, 0x8c, 0x24, 0xb1, 0xd0, 0xb1, 0x55, 0x9c, 0x83, 0xef,
       0x5b, 0x04, 0x44, 0x5c, 0xc4, 0x58, 0x1c, 0x8e, 0x86, 0xd8, 0x22, 0x4e, 0xdd, 0xd0, 0x9f, 0x11, 0x57],
      0xec # replicate 30 0xff @ [0x7f],
      0xed # replicate 30 0xff @ [0x7f],
      0xee # replicate 30 0xff @ [0x7f]]"

definition mask_high :: "bytes \<Rightarrow> bytes" where
  "mask_high pk = pk[31 := pk ! 31 AND 0x7f]"

definition reject_small_order :: "bytes \<Rightarrow> error + unit" where
  "reject_small_order pk =
     for_each (\<lambda>so. if mask_high pk = mask_high so then Inl error.Seal else Inr ()) X25519_SMALL_ORDER"

definition hpke_seal :: "hpke_suite \<Rightarrow> bytes \<Rightarrow> bytes \<Rightarrow> bytes \<Rightarrow> bytes \<Rightarrow> error + bytes" where
  "hpke_seal hs recipient_pub info aad plaintext =
     and_then (reject_small_order recipient_pub) (\<lambda>_.
     and_then (ok_or (single_shot_seal hs recipient_pub info plaintext aad) error.Seal) (\<lambda>(encapped, ciphertext).
     Inr (encapped @ ciphertext)))"

definition hpke_open :: "hpke_suite \<Rightarrow> bytes \<Rightarrow> bytes \<Rightarrow> bytes \<Rightarrow> bytes \<Rightarrow> error + bytes" where
  "hpke_open hs recipient_secret enc_ct info aad =
     (if length enc_ct < 32 then Inl error.Seal
      else
        and_then (reject_small_order (take 32 enc_ct)) (\<lambda>_.
        ok_or (single_shot_open hs recipient_secret (take 32 enc_ct) info (drop 32 enc_ct) aad) error.Seal))"

definition SEAL_INFO :: bytes where "SEAL_INFO = ascii ''PayTPv1-seal''"

definition seal_session_secret :: "hpke_suite \<Rightarrow> bytes \<Rightarrow> bytes \<Rightarrow> bytes \<Rightarrow> error + bytes" where
  "seal_session_secret hs enc_key auth_canonical s = hpke_seal hs enc_key SEAL_INFO auth_canonical s"

definition open_session_secret :: "hpke_suite \<Rightarrow> bytes \<Rightarrow> bytes \<Rightarrow> bytes \<Rightarrow> error + bytes" where
  "open_session_secret hs secret enc_ct auth_canonical =
     and_then (hpke_open hs secret enc_ct SEAL_INFO auth_canonical) (\<lambda>plaintext.
     if length plaintext = 32 then Inr plaintext else Inl error.Seal)"

text \<open>A key passes only when neither it nor its variant with the ignored bit flipped is of small order.\<close>

lemma reject_small_order_Inr:
  "reject_small_order pk = Inr () \<longleftrightarrow> (\<forall>so \<in> set X25519_SMALL_ORDER. mask_high pk \<noteq> mask_high so)"
  by (auto simp: reject_small_order_def split: if_splits)

lemma small_order_refused:
  assumes "so \<in> set X25519_SMALL_ORDER" "pk = so \<or> pk = so[31 := so ! 31 OR 0x80]"
  shows "reject_small_order pk = Inl error.Seal"
proof -
  have len: "length so = 32" using assms(1) by (auto simp: X25519_SMALL_ORDER_def)
  have b: "(x OR 0x80) AND 0x7f = x AND 0x7f" for x :: u8
    by (simp add: bit.conj_disj_distrib2)
  have m: "mask_high pk = mask_high so" using assms(2) len b by (auto simp: mask_high_def)
  have "for_each (\<lambda>so. if mask_high pk = mask_high so then Inl error.Seal else Inr ()) xs = Inl error.Seal" if "so \<in> set xs" for xs
    using that by (induction xs) (auto simp: m)
  then show ?thesis using assms(1) by (simp add: reject_small_order_def)
qed

text \<open>The documented law of HPKE: the holder of the secret key opens what was sealed to the public key, for
  the same info and associated data; the encapsulated key is 32 bytes and not of small order.\<close>

definition hpke_pair :: "hpke_suite \<Rightarrow> bytes \<Rightarrow> bytes \<Rightarrow> bool" where
  "hpke_pair hs sk pk \<longleftrightarrow> (\<forall>info pt aad enc ct. single_shot_seal hs pk info pt aad = Some (enc, ct) \<longrightarrow>
     length enc = 32 \<and> reject_small_order enc = Inr () \<and> single_shot_open hs sk enc info ct aad = Some pt)"

lemma seal_opens:
  assumes "hpke_pair hs sk pk" "length s = 32" "seal_session_secret hs pk aad s = Inr sealed"
  shows "open_session_secret hs sk sealed aad = Inr s"
proof -
  obtain enc ct where c: "single_shot_seal hs pk SEAL_INFO s aad = Some (enc, ct)" "sealed = enc @ ct"
    using assms(3) by (auto simp: seal_session_secret_def hpke_seal_def)
  then have "length enc = 32" "reject_small_order enc = Inr ()" "single_shot_open hs sk enc SEAL_INFO ct aad = Some s"
    using assms(1) by (auto simp: hpke_pair_def)
  then show ?thesis using c(2) assms(2) by (simp add: open_session_secret_def hpke_open_def)
qed

end
