(* ===== verification/Handshake.thy ===== *)
theory Handshake
  imports Establish Seal
begin

text \<open>
  The shorter messages of \<^verbatim>\<open>crates/paytp-core/src/channel/establish.rs\<close>: the envelope of the channel terms with
  the sealed secret, the acknowledgement, the request for it, the funding proof and the close.
\<close>

section \<open>The envelope with the sealed secret\<close>

definition O_AUTH :: u8 where "O_AUTH = 0x00"
definition O_SEAL :: u8 where "O_SEAL = 0x01"

record channel_open =
  co_auth :: channel_auth
  co_seal :: bytes

definition open_build ::
  "hpke_suite \<Rightarrow> (nat list \<Rightarrow> nat list) \<Rightarrow> channel_auth \<Rightarrow> bytes \<Rightarrow> bytes \<Rightarrow> error + channel_open" where
  "open_build hs nfc a enc_key s =
     and_then (canonical_content nfc a) (\<lambda>aad.
     and_then (seal_session_secret hs enc_key aad s) (\<lambda>seal. Inr \<lparr>co_auth = a, co_seal = seal\<rparr>))"

definition open_encode :: "(nat list \<Rightarrow> nat list) \<Rightarrow> channel_open \<Rightarrow> error + bytes" where
  "open_encode nfc o' =
     and_then (auth_encode nfc (co_auth o')) (\<lambda>auth_bytes.
     object_bytes [field_new O_AUTH False auth_bytes, field_new O_SEAL False (co_seal o')])"

definition open_parse :: "(nat list \<Rightarrow> nat list) \<Rightarrow> bytes \<Rightarrow> error + channel_open" where
  "open_parse nfc buf =
     and_then (object_parse buf) (\<lambda>obj.
     and_then (object_validate obj (schema_new Closed [(O_AUTH, False), (O_SEAL, False)])) (\<lambda>_.
     and_then (and_then (get_value obj O_AUTH) (auth_parse nfc)) (\<lambda>a.
     and_then (get_value obj O_SEAL) (\<lambda>seal.
     if length seal \<noteq> 80 then Inl WrongWidth else Inr \<lparr>co_auth = a, co_seal = seal\<rparr>))))"

section \<open>The acknowledgement\<close>

definition K_AUTH_HASH :: u8 where "K_AUTH_HASH = 0x00"
definition K_SETTLE_PTR :: u8 where "K_SETTLE_PTR = 0x01"
definition K_SIG :: u8 where "K_SIG = 0x70"

record channel_ack =
  ck_auth_hash :: bytes
  ck_settle_ptr :: bytes
  ck_sig :: "bytes option"

definition ack_content_fields :: "(nat list \<Rightarrow> nat list) \<Rightarrow> channel_ack \<Rightarrow> error + field list" where
  "ack_content_fields nfc k =
     and_then (validate_text nfc (ck_settle_ptr k)) (\<lambda>_.
     and_then (pointer_parse nfc (ck_settle_ptr k)) (\<lambda>_.
     Inr [field_new K_AUTH_HASH False (ck_auth_hash k), field_new K_SETTLE_PTR False (ck_settle_ptr k)]))"

definition ack_covered_bytes :: "(nat list \<Rightarrow> nat list) \<Rightarrow> channel_ack \<Rightarrow> error + bytes" where
  "ack_covered_bytes nfc k =
     and_then (and_then (ack_content_fields nfc k) object_bytes) (\<lambda>bs. Inr (covered ChanAck bs))"

definition ack_sign :: "crypto_suite \<Rightarrow> (nat list \<Rightarrow> nat list) \<Rightarrow> bytes \<Rightarrow> channel_ack \<Rightarrow> error + channel_ack" where
  "ack_sign cs nfc sk k =
     and_then (ack_covered_bytes nfc k) (\<lambda>cov. Inr (k\<lparr>ck_sig := Some (ed25519_sign cs sk cov)\<rparr>))"

definition ack_verify :: "crypto_suite \<Rightarrow> (nat list \<Rightarrow> nat list) \<Rightarrow> bytes \<Rightarrow> channel_ack \<Rightarrow> error + unit" where
  "ack_verify cs nfc m_key k =
     and_then (ok_or (ck_sig k) MissingField) (\<lambda>sig.
     and_then (ack_covered_bytes nfc k) (\<lambda>cov. verify_sig cs m_key cov sig))"

definition ack_encode :: "(nat list \<Rightarrow> nat list) \<Rightarrow> channel_ack \<Rightarrow> error + bytes" where
  "ack_encode nfc k = and_then (ack_content_fields nfc k) (\<lambda>fs. object_bytes (with_sig K_SIG (ck_sig k) fs))"

definition ack_parse :: "(nat list \<Rightarrow> nat list) \<Rightarrow> bytes \<Rightarrow> error + channel_ack" where
  "ack_parse nfc buf =
     and_then (object_parse buf) (\<lambda>obj.
     and_then (object_validate obj (schema_new Closed [(K_AUTH_HASH, False), (K_SETTLE_PTR, False), (K_SIG, False)])) (\<lambda>_.
     and_then (and_then (get_value obj K_SETTLE_PTR) (text_of nfc)) (\<lambda>ptr.
     and_then (pointer_parse nfc ptr) (\<lambda>_.
     and_then (and_then (get_value obj K_AUTH_HASH) (fixed_bytes 32)) (\<lambda>hash.
     and_then (get_optional obj K_SIG 64) (\<lambda>sig.
     Inr \<lparr>ck_auth_hash = hash, ck_settle_ptr = ptr, ck_sig = sig\<rparr>))))))"

section \<open>The request for the acknowledgement\<close>

record ack_request =
  ar_channel_id :: bytes
  ar_timestamp :: u64
  ar_sig :: "bytes option"

definition ack_request_content_fields :: "ack_request \<Rightarrow> field list" where
  "ack_request_content_fields r =
     [field_new 0x00 False (ar_channel_id r), field_new 0x01 False (encode_uint_u128 (ucast (ar_timestamp r)))]"

definition ack_request_covered_bytes :: "ack_request \<Rightarrow> error + bytes" where
  "ack_request_covered_bytes r = and_then (object_bytes (ack_request_content_fields r)) (\<lambda>bs. Inr (covered AckReq bs))"

definition ack_request_sign :: "crypto_suite \<Rightarrow> bytes \<Rightarrow> ack_request \<Rightarrow> error + ack_request" where
  "ack_request_sign cs sk r =
     and_then (ack_request_covered_bytes r) (\<lambda>cov. Inr (r\<lparr>ar_sig := Some (ed25519_sign cs sk cov)\<rparr>))"

definition ack_request_verify :: "crypto_suite \<Rightarrow> bytes \<Rightarrow> ack_request \<Rightarrow> error + unit" where
  "ack_request_verify cs payer_key r =
     and_then (ok_or (ar_sig r) MissingField) (\<lambda>sig.
     and_then (ack_request_covered_bytes r) (\<lambda>cov. verify_sig cs payer_key cov sig))"

definition ack_request_encode :: "ack_request \<Rightarrow> error + bytes" where
  "ack_request_encode r = object_bytes (with_sig 0x70 (ar_sig r) (ack_request_content_fields r))"

definition ack_request_parse :: "bytes \<Rightarrow> error + ack_request" where
  "ack_request_parse buf =
     and_then (object_parse buf) (\<lambda>obj.
     and_then (object_validate obj (schema_new Closed [(0x00, False), (0x01, False), (0x70, False)])) (\<lambda>_.
     and_then (and_then (get_value obj 0x00) (fixed_bytes 8)) (\<lambda>channel_id.
     and_then (and_then (get_value obj 0x01) decode_uint_time) (\<lambda>timestamp.
     and_then (get_optional obj 0x70 64) (\<lambda>sig.
     Inr \<lparr>ar_channel_id = channel_id, ar_timestamp = timestamp, ar_sig = sig\<rparr>)))))"

section \<open>The funding proof\<close>

record funding_proof =
  fp_channel_id :: bytes
  fp_auth_hash :: bytes
  fp_rail :: bytes
  fp_tx_ref :: bytes
  fp_amount :: u128
  fp_sig :: "bytes option"

definition funding_content_fields :: "(nat list \<Rightarrow> nat list) \<Rightarrow> funding_proof \<Rightarrow> error + field list" where
  "funding_content_fields nfc p =
     and_then (validate_text nfc (fp_rail p)) (\<lambda>_.
     and_then (validate_text nfc (fp_tx_ref p)) (\<lambda>_.
     if \<not> is_rail_id (fp_rail p) then Inl FieldDomain
     else Inr [field_new 0x00 False (fp_channel_id p), field_new 0x01 False (fp_auth_hash p),
               field_new 0x02 False (fp_rail p), field_new 0x03 False (fp_tx_ref p),
               field_new 0x04 False (encode_uint_u128 (fp_amount p))]))"

definition funding_covered_bytes :: "(nat list \<Rightarrow> nat list) \<Rightarrow> funding_proof \<Rightarrow> error + bytes" where
  "funding_covered_bytes nfc p =
     and_then (and_then (funding_content_fields nfc p) object_bytes) (\<lambda>bs. Inr (covered Funding bs))"

definition funding_sign :: "crypto_suite \<Rightarrow> (nat list \<Rightarrow> nat list) \<Rightarrow> bytes \<Rightarrow> funding_proof \<Rightarrow> error + funding_proof" where
  "funding_sign cs nfc sk p =
     and_then (funding_covered_bytes nfc p) (\<lambda>cov. Inr (p\<lparr>fp_sig := Some (ed25519_sign cs sk cov)\<rparr>))"

definition funding_verify :: "crypto_suite \<Rightarrow> (nat list \<Rightarrow> nat list) \<Rightarrow> bytes \<Rightarrow> funding_proof \<Rightarrow> error + unit" where
  "funding_verify cs nfc payer_key p =
     and_then (ok_or (fp_sig p) MissingField) (\<lambda>sig.
     and_then (funding_covered_bytes nfc p) (\<lambda>cov. verify_sig cs payer_key cov sig))"

definition funding_encode :: "(nat list \<Rightarrow> nat list) \<Rightarrow> funding_proof \<Rightarrow> error + bytes" where
  "funding_encode nfc p = and_then (funding_content_fields nfc p) (\<lambda>fs. object_bytes (with_sig 0x70 (fp_sig p) fs))"

definition funding_parse :: "(nat list \<Rightarrow> nat list) \<Rightarrow> bytes \<Rightarrow> error + funding_proof" where
  "funding_parse nfc buf =
     and_then (object_parse buf) (\<lambda>obj.
     and_then (object_validate obj
       (schema_new Closed [(0x00, False), (0x01, False), (0x02, False), (0x03, False), (0x04, False), (0x70, False)])) (\<lambda>_.
     and_then (and_then (get_value obj 0x02) (text_of nfc)) (\<lambda>rail.
     if \<not> is_rail_id rail then Inl FieldDomain
     else
       and_then (and_then (get_value obj 0x00) (fixed_bytes 8)) (\<lambda>channel_id.
       and_then (and_then (get_value obj 0x01) (fixed_bytes 32)) (\<lambda>hash.
       and_then (and_then (get_value obj 0x03) (text_of nfc)) (\<lambda>reference.
       and_then (and_then (get_value obj 0x04) decode_uint_u128) (\<lambda>amount.
       and_then (get_optional obj 0x70 64) (\<lambda>sig.
       Inr \<lparr>fp_channel_id = channel_id, fp_auth_hash = hash, fp_rail = rail, fp_tx_ref = reference,
            fp_amount = amount, fp_sig = sig\<rparr>))))))))"

section \<open>The close\<close>

record close_msg =
  cl_channel_id :: bytes
  cl_ckpt_ref :: bytes
  cl_chain_intent :: bool
  cl_sig :: "bytes option"

record close_decision =
  cd_by_payer :: bool
  cd_chain_intent :: bool

definition close_content_fields :: "close_msg \<Rightarrow> field list" where
  "close_content_fields c =
     [field_new 0x00 False (cl_channel_id c), field_new 0x01 False (cl_ckpt_ref c),
      field_new 0x02 False [if cl_chain_intent c then 1 else 0]]"

text \<open>The \<open>unwrap\<close> never fails: the types are distinct (\<open>close_bytes\<close> below).\<close>

definition close_covered_bytes :: "close_msg \<Rightarrow> bytes" where
  "close_covered_bytes c = covered Close (expect (object_bytes (close_content_fields c)))"

definition close_sign :: "crypto_suite \<Rightarrow> bytes \<Rightarrow> close_msg \<Rightarrow> error + close_msg" where
  "close_sign cs sk c = Inr (c\<lparr>cl_sig := Some (ed25519_sign cs sk (close_covered_bytes c))\<rparr>)"

definition close_encode :: "close_msg \<Rightarrow> error + bytes" where
  "close_encode c = object_bytes (with_sig 0x70 (cl_sig c) (close_content_fields c))"

definition parse_intent :: "bytes \<Rightarrow> error + bool" where
  "parse_intent v = (if v = [0x00] then Inr False else if v = [0x01] then Inr True else Inl FieldDomain)"

definition close_parse :: "bytes \<Rightarrow> error + close_msg" where
  "close_parse buf =
     and_then (object_parse buf) (\<lambda>obj.
     and_then (object_validate obj (schema_new Closed [(0x00, False), (0x01, False), (0x02, False), (0x70, False)])) (\<lambda>_.
     and_then (and_then (get_value obj 0x02) parse_intent) (\<lambda>intent.
     and_then (and_then (get_value obj 0x00) (fixed_bytes 8)) (\<lambda>channel_id.
     and_then (and_then (get_value obj 0x01) (fixed_bytes 32)) (\<lambda>reference.
     and_then (get_optional obj 0x70 64) (\<lambda>sig.
     Inr \<lparr>cl_channel_id = channel_id, cl_ckpt_ref = reference, cl_chain_intent = intent, cl_sig = sig\<rparr>))))))"

definition close_accept :: "crypto_suite \<Rightarrow> bytes \<Rightarrow> bytes \<Rightarrow> bytes \<Rightarrow> close_msg \<Rightarrow> error + close_decision" where
  "close_accept cs expected_channel_id payer_key m_key c =
     (if cl_channel_id c \<noteq> expected_channel_id then Inl FieldDomain
      else
        and_then (ok_or (cl_sig c) MissingField) (\<lambda>sig.
        let cov = close_covered_bytes c;
            by_payer = ed25519_verify_strict cs payer_key cov sig;
            by_merchant = ed25519_verify_strict cs m_key cov sig in
        if \<not> by_payer \<and> \<not> by_merchant then Inl BadSignature
        else Inr \<lparr>cd_by_payer = by_payer, cd_chain_intent = (by_payer \<and> cl_chain_intent c)\<rparr>))"

end
