(* ===== verification/Establish_Canonical.thy ===== *)
theory Establish_Canonical
  imports Handshake
begin

text \<open>
  The establishment messages are canonical: an accepted byte string is the one encoding of its message.
  For the artifact, the terms, the acknowledgement and the funding proof the encoder checks less than the
  parser; what it does produce is spelled out, so the difference is a statement about the values. Then the channel terms.
\<close>

section \<open>The field decoders\<close>

lemma text_of_Inr [slot_read]: "text_of nfc v = Inr s \<longleftrightarrow> text_ok nfc s \<and> v = s"
  using text_ok_utf8 [of nfc s] by (auto simp: text_of_def text_ok_def from_utf8_def split: if_splits)

interpretation text_field: canonical_codec "text_ok nfc" "\<lambda>s. s" "text_of nfc" for nfc
  by (rule canonical_codecI) (simp add: text_of_Inr)

interpretation uint128: canonical_codec "\<lambda>_. True" encode_uint_u128 decode_uint_u128
  by (rule canonical_codecI) (simp add: uint_word_accepted encode_uint_u128_eq)

interpretation predecessor: canonical_codec "\<lambda>(a, b). length a = 8 \<and> length b = 32" "\<lambda>(a, b). a @ b" parse_predecessor
proof (rule canonical_codecI)
  fix v :: bytes and x :: "bytes \<times> bytes"
  show "parse_predecessor v = Inr x \<longleftrightarrow> (case x of (a, b) \<Rightarrow> length a = 8 \<and> length b = 32) \<and> v = (case x of (a, b) \<Rightarrow> a @ b)"
  proof (cases x)
    case (Pair a b)
    show ?thesis
    proof
      assume p: "parse_predecessor v = Inr x"
      then have v: "length v = 40" "a = take 8 v" "b = take 32 (drop 8 v)" by (auto simp: parse_predecessor_def Pair split: if_splits)
      then have "b = drop 8 v" by simp
      then show "(case x of (a, b) \<Rightarrow> length a = 8 \<and> length b = 32) \<and> v = (case x of (a, b) \<Rightarrow> a @ b)" using v by (simp add: Pair)
    qed (simp add: Pair parse_predecessor_def)
  qed
qed

definition vector_entry_ok :: "(nat list \<Rightarrow> nat list) \<Rightarrow> vector_entry \<Rightarrow> bool" where
  "vector_entry_ok nfc e \<longleftrightarrow> text_ok nfc (ve_dest e) \<and> length (ve_dest e) < 2 ^ 32"

lemma entry_item_parts: "entry_item e = ve_role e # to_be_bytes (ve_bp e) @ push_lp [] (ve_dest e)"
  by (simp add: entry_item_def push_lp_def)

lemma two_byte_word: "length b = 2 \<Longrightarrow> to_be_bytes (word_of_nat (be_nat b) :: u16) = b"
  using be_nat_less [of b] be_bytes_be_nat [of b] by (simp add: to_be_bytes_def unat_of_nat_small)

lemma word_two_bytes: "word_of_nat (be_nat (to_be_bytes (w :: u16))) = w"
  using unat_lt2p [of w] by (simp add: to_be_bytes_def be_nat_be_bytes_small)

lemma parse_entry_cons: "length h = 2 \<Longrightarrow> parse_entry nfc (r # h @ t) =
    and_then (leb_decode t) (\<lambda>(len, n). if length t < n + unat len then Inl LengthOverrun
      else and_then (text_of nfc (take (unat len) (drop n t))) (\<lambda>d.
        Inr (\<lparr>ve_role = r, ve_bp = word_of_nat (be_nat h), ve_dest = d\<rparr>, 3 + (n + unat len))))"
proof -
  assume "length h = 2"
  then obtain h1 h2 where h: "h = [h1, h2]" by (auto simp: length_Suc_conv numeral_2_eq_2)
  have f: "drop 3 (r # h @ t) = t" "take 2 (drop 1 (r # h @ t)) = h" "drop (3 + n) (r # h @ t) = drop n t" for n
    by (simp_all add: h numeral_3_eq_3 numeral_2_eq_2)
  have l: "length (r # h @ t) < 3 + (n + m) \<longleftrightarrow> length t < n + m" "(length (r # h @ t) < 3) = False" for n m by (auto simp: h)
  show ?thesis by (simp only: parse_entry_def Let_def add.assoc f l if_False nth_Cons_0)
qed

interpretation entry: tlv_item "vector_entry_ok nfc" entry_item "parse_entry nfc" for nfc
proof unfold_locales
  fix x rest assume ok: "vector_entry_ok nfc x"
  then show "parse_entry nfc (entry_item x @ rest) = Inr (x, length (entry_item x))"
    using leb_string_front(1) [of "ve_dest x" rest] leb_string_front(2) [of "ve_dest x"]
      parse_entry_cons [of "to_be_bytes (ve_bp x)" nfc "ve_role x" "push_lp [] (ve_dest x) @ rest"]
    by (simp add: entry_item_parts push_lp_def vector_entry_ok_def text_of_Inr word_two_bytes)
next
  fix b x k assume p: "parse_entry nfc b = Inr (x, k)"
  then have "3 \<le> length b" by (auto simp: parse_entry_def split: if_splits)
  then obtain r bs where bs: "b = r # bs" "2 \<le> length bs" by (cases b) auto
  define h t where "h = take 2 bs" and "t = drop 2 bs"
  have b: "b = r # h @ t" "length h = 2" using bs by (simp_all add: h_def t_def)
  from p obtain len n where l: "leb_decode t = Inr (len, n)" "n + unat len \<le> length t"
      "text_ok nfc (take (unat len) (drop n t))" "x = \<lparr>ve_role = r, ve_bp = word_of_nat (be_nat h), ve_dest = take (unat len) (drop n t)\<rparr>"
      "k = 3 + (n + unat len)"
    unfolding b(1) parse_entry_cons [OF b(2)] by (auto simp: text_of_Inr split: if_splits)
  note parts = leb_string_back [OF l(1,2)]
  have i: "entry_item x = r # h @ leb_encode (of_nat (length (take (unat len) (drop n t)))) @ take (unat len) (drop n t)"
    using b(2) by (simp add: entry_item_def l(4) two_byte_word)
  have "length (entry_item x) = k" using parts(3) l(2,5) b(2) unfolding i by simp
  moreover have "b = entry_item x @ drop (n + unat len) t" using parts(1) unfolding i b(1) by simp
  ultimately have "k \<le> length b \<and> entry_item x = take k b" by (metis front_take)
  then show "vector_entry_ok nfc x \<and> k \<le> length b \<and> entry_item x = take k b"
    using l(3,4) parts(2) by (simp add: vector_entry_ok_def)
qed (simp add: entry_item_def)

section \<open>The messages\<close>

lemma object_bytes_slots:
  "sorted_wrt (<) (map fst slots) \<Longrightarrow> object_bytes (slot_fields slots) = Inr (slot_bytes slots)"
  by (simp add: object_bytes_def slots_object slot_bytes_def)

lemma with_sig_slots: "with_sig t v (slot_fields slots) = slot_fields (slots @ [(t, v)])"
  by (simp add: with_sig_def slot_fields_def optional_field_def split: option.splits)

lemmas establish_types = A_HOST_def A_CERT_HASH_def A_ENC_KEY_def A_NOT_BEFORE_def A_NOT_AFTER_def A_SIG_def
  C_PAYER_KEY_def C_CHANNEL_ID_def C_MERCHANT_KEY_def C_DENOM_def C_MODE_def C_LIMIT_L_def C_LIMIT_E_def C_TH_VALUE_def
  C_TH_TIME_def C_REFUND_PTR_def C_BASELINE_NET_def C_RATE_SOURCE_def C_RATE_DEV_def C_SCHEMA_def C_VECTOR_def
  C_REGISTRY_V_def C_HS_def C_PREDECESSOR_def C_TIMESTAMP_def C_BASELINE_ASSET_def C_CONTRACT_def C_FIN_MEED_def
  C_FIN_DENOM_def C_SIG_def O_AUTH_def O_SEAL_def K_AUTH_HASH_def K_SETTLE_PTR_def K_SIG_def

definition artifact_slots :: "binding_artifact \<Rightarrow> slot list" where
  "artifact_slots a =
     [(A_HOST, Some (ba_host a)), (A_CERT_HASH, Some (ba_cert_hash a)), (A_ENC_KEY, Some (ba_enc_key a)),
      (A_NOT_BEFORE, Some (encode_uint_u128 (ucast (ba_not_before a)))),
      (A_NOT_AFTER, Some (encode_uint_u128 (ucast (ba_not_after a))))]"

definition auth_slots :: "channel_auth \<Rightarrow> slot list" where
  "auth_slots a =
     [(C_PAYER_KEY, Some (ca_payer_key a)), (C_CHANNEL_ID, Some (ca_channel_id a)),
      (C_MERCHANT_KEY, Some (ca_merchant_key a)), (C_DENOM, Some (ca_denom a)), (C_MODE, Some [ca_mode a]),
      (C_LIMIT_L, Some (encode_uint_u128 (ca_limit_l a))), (C_LIMIT_E, Some (encode_uint_u128 (ca_limit_e a))),
      (C_TH_VALUE, Some (encode_uint_u128 (ca_th_value a))), (C_TH_TIME, Some (encode_uint_u128 (ucast (ca_th_time a)))),
      (C_REFUND_PTR, ca_refund_ptr a), (C_BASELINE_NET, Some (ca_baseline_net a)), (C_RATE_SOURCE, ca_rate_source a),
      (C_RATE_DEV, map_option encode_uint_u128 (ca_rate_dev a)),
      (C_SCHEMA, Some (encode_uint_u128 (ucast (ca_schema a)))), (C_VECTOR, Some (vector_value a)),
      (C_REGISTRY_V, Some (encode_uint_u128 (ucast (ca_registry_v a)))), (C_HS, Some (ca_hs a)),
      (C_PREDECESSOR, map_option (\<lambda>(a, b). a @ b) (ca_predecessor a)),
      (C_TIMESTAMP, Some (encode_uint_u128 (ucast (ca_timestamp a)))), (C_BASELINE_ASSET, Some (ca_baseline_asset a)),
      (C_CONTRACT, Some (encode_uint_u128 (ucast (ca_contract a)))), (C_FIN_MEED, Some (ca_fin_meed a)),
      (C_FIN_DENOM, Some (ca_fin_denom a))]"

definition ack_slots :: "channel_ack \<Rightarrow> slot list" where
  "ack_slots k = [(K_AUTH_HASH, Some (ck_auth_hash k)), (K_SETTLE_PTR, Some (ck_settle_ptr k))]"

definition ack_request_slots :: "ack_request \<Rightarrow> slot list" where
  "ack_request_slots r = [(0x00, Some (ar_channel_id r)), (0x01, Some (encode_uint_u128 (ucast (ar_timestamp r))))]"

definition funding_slots :: "funding_proof \<Rightarrow> slot list" where
  "funding_slots p =
     [(0x00, Some (fp_channel_id p)), (0x01, Some (fp_auth_hash p)), (0x02, Some (fp_rail p)), (0x03, Some (fp_tx_ref p)),
      (0x04, Some (encode_uint_u128 (fp_amount p)))]"

definition close_slots :: "close_msg \<Rightarrow> slot list" where
  "close_slots c =
     [(0x00, Some (cl_channel_id c)), (0x01, Some (cl_ckpt_ref c)), (0x02, Some [if cl_chain_intent c then 1 else 0])]"

lemmas establish_slot_defs = artifact_slots_def auth_slots_def ack_slots_def ack_request_slots_def funding_slots_def close_slots_def

lemma establish_slots_ascending [simp]:
  "sorted_wrt (<) (map fst (artifact_slots ar))" "sorted_wrt (<) (map fst (artifact_slots ar @ [(A_SIG, v)]))"
  "sorted_wrt (<) (map fst (auth_slots a))" "sorted_wrt (<) (map fst (auth_slots a @ [(C_SIG, v)]))"
  "sorted_wrt (<) (map fst (ack_slots k))" "sorted_wrt (<) (map fst (ack_slots k @ [(K_SIG, v)]))"
  "sorted_wrt (<) (map fst (ack_request_slots r))" "sorted_wrt (<) (map fst (ack_request_slots r @ [(0x70, v)]))"
  "sorted_wrt (<) (map fst (funding_slots p))" "sorted_wrt (<) (map fst (funding_slots p @ [(0x70, v)]))"
  "sorted_wrt (<) (map fst (close_slots c))" "sorted_wrt (<) (map fst (close_slots c @ [(0x70, v)]))"
  by (simp_all add: establish_slot_defs establish_types)

lemmas establish_bytes = establish_slots_ascending [THEN object_bytes_slots]
lemmas establish_slots_read = establish_slots_ascending [THEN read_slots_bytes]

lemma establish_schemas:
  "artifact_schema = closed_schema (map fst (artifact_slots ar @ [(A_SIG, v)]))"
  "auth_schema = closed_schema (map fst (auth_slots a @ [(C_SIG, v)]))"
  "schema_new Closed [(K_AUTH_HASH, False), (K_SETTLE_PTR, False), (K_SIG, False)] = closed_schema (map fst (ack_slots k @ [(K_SIG, v)]))"
  "schema_new Closed [(0x00, False), (0x01, False), (0x70, False)] = closed_schema (map fst (ack_request_slots r @ [(0x70, v)]))"
  "schema_new Closed [(0x00, False), (0x01, False), (0x02, False), (0x03, False), (0x04, False), (0x70, False)]
    = closed_schema (map fst (funding_slots p @ [(0x70, v)]))"
  "schema_new Closed [(0x00, False), (0x01, False), (0x02, False), (0x70, False)] = closed_schema (map fst (close_slots c @ [(0x70, v)]))"
  by (simp_all add: establish_slot_defs closed_schema_def artifact_schema_def auth_schema_def auth_types_def)

text \<open>What the encoders produce.\<close>

lemma artifact_content_slots: "artifact_content_fields nfc uts46 a =
    and_then (validate_host_normalized nfc uts46 (ba_host a)) (\<lambda>_. Inr (slot_fields (artifact_slots a)))"
  by (simp add: artifact_content_fields_def artifact_slots_def)

lemma auth_content_slots: "auth_content_fields nfc a =
    and_then (check_presence a) (\<lambda>_. and_then (validate_grammar nfc a) (\<lambda>_. Inr (slot_fields (auth_slots a))))"
  by (simp add: auth_content_fields_def auth_slots_def)

lemma ack_content_slots: "ack_content_fields nfc k =
    and_then (validate_text nfc (ck_settle_ptr k)) (\<lambda>_. and_then (pointer_parse nfc (ck_settle_ptr k)) (\<lambda>_. Inr (slot_fields (ack_slots k))))"
  by (simp add: ack_content_fields_def ack_slots_def)

lemma ack_request_content_slots: "ack_request_content_fields r = slot_fields (ack_request_slots r)"
  by (simp add: ack_request_content_fields_def ack_request_slots_def)

lemma funding_content_slots: "funding_content_fields nfc p =
    and_then (validate_text nfc (fp_rail p)) (\<lambda>_. and_then (validate_text nfc (fp_tx_ref p)) (\<lambda>_.
    if \<not> is_rail_id (fp_rail p) then Inl FieldDomain else Inr (slot_fields (funding_slots p))))"
  by (simp add: funding_content_fields_def funding_slots_def)

lemma close_content_slots: "close_content_fields c = slot_fields (close_slots c)"
  by (simp add: close_content_fields_def close_slots_def)

text \<open>No panic in the close.\<close>

lemma close_bytes: "object_bytes (close_content_fields c) = Inr (slot_bytes (close_slots c))"
  by (simp add: close_content_slots establish_bytes)

lemma artifact_encode_Inr: "artifact_encode nfc uts46 a = Inr bs \<longleftrightarrow>
    validate_host_normalized nfc uts46 (ba_host a) = Inr () \<and> bs = slot_bytes (artifact_slots a @ [(A_SIG, ba_sig a)])"
  by (auto simp: artifact_encode_def artifact_content_slots with_sig_slots establish_bytes)

lemma auth_encode_Inr: "auth_encode nfc a = Inr bs \<longleftrightarrow>
    check_presence a = Inr () \<and> validate_grammar nfc a = Inr () \<and> bs = slot_bytes (auth_slots a @ [(C_SIG, ca_sig a)])"
  by (auto simp: auth_encode_def auth_content_slots with_sig_slots establish_bytes)

lemma canonical_content_Inr: "canonical_content nfc a = Inr bs \<longleftrightarrow>
    check_presence a = Inr () \<and> validate_grammar nfc a = Inr () \<and> bs = slot_bytes (auth_slots a)"
  by (auto simp: canonical_content_def auth_content_slots establish_bytes)

lemma ack_encode_Inr: "ack_encode nfc k = Inr bs \<longleftrightarrow> text_ok nfc (ck_settle_ptr k) \<and>
    pointer_parse nfc (ck_settle_ptr k) \<in> range Inr \<and> bs = slot_bytes (ack_slots k @ [(K_SIG, ck_sig k)])"
  by (auto simp: ack_encode_def ack_content_slots with_sig_slots establish_bytes text_ok_def)

lemma ack_request_encode_slots: "ack_request_encode r = Inr (slot_bytes (ack_request_slots r @ [(0x70, ar_sig r)]))"
  by (simp add: ack_request_encode_def ack_request_content_slots with_sig_slots establish_bytes)

lemma funding_encode_Inr: "funding_encode nfc p = Inr bs \<longleftrightarrow> text_ok nfc (fp_rail p) \<and> text_ok nfc (fp_tx_ref p) \<and>
    is_rail_id (fp_rail p) \<and> bs = slot_bytes (funding_slots p @ [(0x70, fp_sig p)])"
  by (auto simp: funding_encode_def funding_content_slots with_sig_slots establish_bytes text_ok_def split: if_splits)

lemma close_encode_slots: "close_encode c = Inr (slot_bytes (close_slots c @ [(0x70, cl_sig c)]))"
  by (simp add: close_encode_def close_content_slots with_sig_slots establish_bytes)

text \<open>The values the parsers accept.\<close>

definition artifact_ok :: "(nat list \<Rightarrow> nat list) \<Rightarrow> (bytes \<Rightarrow> bytes option) \<Rightarrow> binding_artifact \<Rightarrow> bool" where
  "artifact_ok nfc uts46 a \<longleftrightarrow> validate_host_normalized nfc uts46 (ba_host a) = Inr () \<and>
     length (ba_cert_hash a) = 32 \<and> length (ba_enc_key a) = 32 \<and> unat (ba_not_before a) \<le> 2 ^ 53 - 1 \<and>
     unat (ba_not_after a) \<le> 2 ^ 53 - 1 \<and> signature_ok (ba_sig a) \<and> slots_ok (artifact_slots a @ [(A_SIG, ba_sig a)])"

definition ack_ok :: "(nat list \<Rightarrow> nat list) \<Rightarrow> channel_ack \<Rightarrow> bool" where
  "ack_ok nfc k \<longleftrightarrow> length (ck_auth_hash k) = 32 \<and> text_ok nfc (ck_settle_ptr k) \<and> pointer_parse nfc (ck_settle_ptr k) \<in> range Inr \<and>
     signature_ok (ck_sig k) \<and> slots_ok (ack_slots k @ [(K_SIG, ck_sig k)])"

definition ack_request_ok :: "ack_request \<Rightarrow> bool" where
  "ack_request_ok r \<longleftrightarrow> length (ar_channel_id r) = 8 \<and> unat (ar_timestamp r) \<le> 2 ^ 53 - 1 \<and> signature_ok (ar_sig r) \<and>
     slots_ok (ack_request_slots r @ [(0x70, ar_sig r)])"

definition funding_ok :: "(nat list \<Rightarrow> nat list) \<Rightarrow> funding_proof \<Rightarrow> bool" where
  "funding_ok nfc p \<longleftrightarrow> length (fp_channel_id p) = 8 \<and> length (fp_auth_hash p) = 32 \<and> text_ok nfc (fp_rail p) \<and>
     is_rail_id (fp_rail p) \<and> text_ok nfc (fp_tx_ref p) \<and> signature_ok (fp_sig p) \<and> slots_ok (funding_slots p @ [(0x70, fp_sig p)])"

definition close_ok :: "close_msg \<Rightarrow> bool" where
  "close_ok c \<longleftrightarrow> length (cl_channel_id c) = 8 \<and> length (cl_ckpt_ref c) = 32 \<and> signature_ok (cl_sig c) \<and>
     slots_ok (close_slots c @ [(0x70, cl_sig c)])"

lemma host_text: "validate_host_normalized nfc uts46 h = Inr () \<Longrightarrow> text_ok nfc h"
  by (simp add: validate_host_normalized_def text_ok_def)

lemma from_utf8_iff: "from_utf8 v = Inr s \<longleftrightarrow> utf8_decode s \<noteq> None \<and> v = s"
  by (auto simp: from_utf8_def)

lemma text_utf8: "text_ok nfc s \<Longrightarrow> utf8_decode s \<noteq> None"
  by (auto simp: text_ok_def validate_text_Inr)

lemmas establish_read = slot_read uint_word_accepted uint_time_accepted encode_uint_u128_eq from_utf8_iff

lemma artifact_parse_iff: "artifact_parse nfc uts46 bs = Inr a \<longleftrightarrow>
    artifact_ok nfc uts46 a \<and> bs = slot_bytes (artifact_slots a @ [(A_SIG, ba_sig a)])"
proof -
  let ?s = "artifact_slots a @ [(A_SIG, ba_sig a)]"
  have "artifact_parse nfc uts46 bs = Inr a \<longleftrightarrow> read_slots bs ?s \<and> validate_host_normalized nfc uts46 (ba_host a) = Inr () \<and>
     length (ba_cert_hash a) = 32 \<and> length (ba_enc_key a) = 32 \<and> unat (ba_not_before a) \<le> 2 ^ 53 - 1 \<and>
     unat (ba_not_after a) \<le> 2 ^ 53 - 1 \<and> signature_ok (ba_sig a)"
    using text_utf8 [OF host_text]
    by (cases a) (auto simp: artifact_parse_def read_slots_def establish_schemas(1) [of a "ba_sig a"] establish_read
        artifact_slots_def simp del: get_value_Inr)
  then show ?thesis by (auto simp: establish_slots_read artifact_ok_def)
qed

lemma ack_parse_iff: "ack_parse nfc bs = Inr k \<longleftrightarrow> ack_ok nfc k \<and> bs = slot_bytes (ack_slots k @ [(K_SIG, ck_sig k)])"
proof -
  let ?s = "ack_slots k @ [(K_SIG, ck_sig k)]"
  have "ack_parse nfc bs = Inr k \<longleftrightarrow> read_slots bs ?s \<and> length (ck_auth_hash k) = 32 \<and> text_ok nfc (ck_settle_ptr k) \<and>
     pointer_parse nfc (ck_settle_ptr k) \<in> range Inr \<and> signature_ok (ck_sig k)"
    by (cases k) (auto simp: ack_parse_def read_slots_def establish_schemas(3) [of k "ck_sig k"] establish_read
        ack_slots_def simp del: get_value_Inr)
  then show ?thesis by (auto simp: establish_slots_read ack_ok_def)
qed

lemma ack_request_parse_iff: "ack_request_parse bs = Inr r \<longleftrightarrow>
    ack_request_ok r \<and> bs = slot_bytes (ack_request_slots r @ [(0x70, ar_sig r)])"
proof -
  let ?s = "ack_request_slots r @ [(0x70, ar_sig r)]"
  have "ack_request_parse bs = Inr r \<longleftrightarrow> read_slots bs ?s \<and> length (ar_channel_id r) = 8 \<and> unat (ar_timestamp r) \<le> 2 ^ 53 - 1 \<and>
     signature_ok (ar_sig r)"
    by (cases r) (auto simp: ack_request_parse_def read_slots_def establish_schemas(4) [of r "ar_sig r"] establish_read
        ack_request_slots_def simp del: get_value_Inr)
  then show ?thesis by (auto simp: establish_slots_read ack_request_ok_def)
qed

lemma funding_parse_iff: "funding_parse nfc bs = Inr p \<longleftrightarrow>
    funding_ok nfc p \<and> bs = slot_bytes (funding_slots p @ [(0x70, fp_sig p)])"
proof -
  let ?s = "funding_slots p @ [(0x70, fp_sig p)]"
  have "funding_parse nfc bs = Inr p \<longleftrightarrow> read_slots bs ?s \<and> length (fp_channel_id p) = 8 \<and> length (fp_auth_hash p) = 32 \<and>
     text_ok nfc (fp_rail p) \<and> is_rail_id (fp_rail p) \<and> text_ok nfc (fp_tx_ref p) \<and> signature_ok (fp_sig p)"
    by (cases p) (auto simp: funding_parse_def read_slots_def establish_schemas(5) [of p "fp_sig p"] establish_read
        funding_slots_def simp del: get_value_Inr split: if_splits)
  then show ?thesis by (auto simp: establish_slots_read funding_ok_def)
qed

lemma parse_intent_Inr: "parse_intent v = Inr b \<longleftrightarrow> v = [if b then 1 else 0]"
  by (cases b) (auto simp: parse_intent_def)

lemma close_parse_iff: "close_parse bs = Inr c \<longleftrightarrow> close_ok c \<and> bs = slot_bytes (close_slots c @ [(0x70, cl_sig c)])"
proof -
  let ?s = "close_slots c @ [(0x70, cl_sig c)]"
  have "close_parse bs = Inr c \<longleftrightarrow> read_slots bs ?s \<and> length (cl_channel_id c) = 8 \<and> length (cl_ckpt_ref c) = 32 \<and> signature_ok (cl_sig c)"
    by (cases c) (auto simp: close_parse_def read_slots_def establish_schemas(6) [of c "cl_sig c"] establish_read
        close_slots_def parse_intent_Inr simp del: get_value_Inr split: if_splits)
  then show ?thesis by (auto simp: establish_slots_read close_ok_def)
qed

text \<open>The channel terms and their envelope are canonical; the values the parser demands beyond the encoder's checks.\<close>

definition auth_texts_ok :: "(nat list \<Rightarrow> nat list) \<Rightarrow> channel_auth \<Rightarrow> bool" where
  "auth_texts_ok nfc a \<longleftrightarrow> text_ok nfc (ca_denom a) \<and> text_ok nfc (ca_baseline_net a) \<and> text_ok nfc (ca_baseline_asset a) \<and>
     text_ok nfc (ca_fin_meed a) \<and> text_ok nfc (ca_fin_denom a) \<and> pred_option (text_ok nfc) (ca_refund_ptr a) \<and>
     pred_option (text_ok nfc) (ca_rate_source a)"

definition auth_vector_ok :: "(nat list \<Rightarrow> nat list) \<Rightarrow> channel_auth \<Rightarrow> bool" where
  "auth_vector_ok nfc a \<longleftrightarrow> list_all (vector_entry_ok nfc) (ca_vector a) \<and> length (ca_vector a) < 2 ^ 32 \<and>
     successively (\<lambda>x y. ve_role x < ve_role y) (ca_vector a)"

definition auth_widths_ok :: "channel_auth \<Rightarrow> bool" where
  "auth_widths_ok a \<longleftrightarrow> length (ca_payer_key a) = 32 \<and> length (ca_channel_id a) = 8 \<and> length (ca_merchant_key a) = 32 \<and>
     length (ca_hs a) = 32 \<and> unat (ca_th_time a) \<le> 2 ^ 53 - 1 \<and> unat (ca_timestamp a) \<le> 2 ^ 53 - 1 \<and>
     pred_option (\<lambda>(x, y). length x = 8 \<and> length y = 32) (ca_predecessor a) \<and> signature_ok (ca_sig a)"

definition auth_ok :: "(nat list \<Rightarrow> nat list) \<Rightarrow> channel_auth \<Rightarrow> bool" where
  "auth_ok nfc a \<longleftrightarrow> auth_widths_ok a \<and> auth_texts_ok nfc a \<and> auth_vector_ok nfc a \<and> check_presence a = Inr () \<and>
     validate_grammar nfc a = Inr () \<and> slots_ok (auth_slots a @ [(C_SIG, ca_sig a)])"

lemma mode_byte: "length m = 1 \<Longrightarrow> [hd m] = m"
  by (cases m) auto

lemma auth_schema_closed: "closed_schema auth_types = auth_schema"
  by (simp add: closed_schema_def auth_schema_def)

lemma auth_parse_iff: "auth_parse nfc bs = Inr a \<longleftrightarrow> auth_ok nfc a \<and> bs = slot_bytes (auth_slots a @ [(C_SIG, ca_sig a)])"
proof -
  let ?s = "auth_slots a @ [(C_SIG, ca_sig a)]"
  have "auth_parse nfc bs = Inr a \<longleftrightarrow> read_slots bs ?s \<and> auth_widths_ok a \<and> auth_texts_ok nfc a \<and> auth_vector_ok nfc a \<and>
     check_presence a = Inr () \<and> validate_grammar nfc a = Inr ()" (is "?L \<longleftrightarrow> ?R")
  proof
    assume ?L
    then show ?R
      unfolding auth_parse_def Let_def
      by (clarsimp simp: establish_read text_field.get_parsed_lookup uint128.get_parsed_lookup
        predecessor.get_parsed_lookup entry.counted.accepted_iff simp del: get_value_Inr)
        (simp add: read_slots_def auth_schema_closed [unfolded auth_types_def] option.map_ident auth_slots_def vector_value_def auth_widths_ok_def
          auth_texts_ok_def auth_vector_ok_def mode_byte encode_uint_u128_eq )
  next
    assume ?R
    then obtain obj where obj: "object_parse bs = Inr obj" "object_validate obj auth_schema = Inr ()"
        "\<forall>(t, v) \<in> set ?s. lookup obj t = v"
      by (auto simp: read_slots_def establish_schemas(2) [of a "ca_sig a"])
    show ?L
      using \<open>?R\<close> obj unfolding auth_parse_def Let_def
      by (cases a) (simp add: establish_read text_field.get_parsed_lookup uint128.get_parsed_lookup
        predecessor.get_parsed_lookup entry.counted.accepted_iff auth_slots_def vector_value_def auth_widths_ok_def
          auth_texts_ok_def auth_vector_ok_def encode_uint_u128_eq option.map_ident option.pred_True del: get_value_Inr)
  qed
  then show ?thesis by (auto simp: establish_slots_read auth_ok_def)
qed

lemma auth_sig_irrelevant [simp]:
  "check_presence (a\<lparr>ca_sig := s\<rparr>) = check_presence a" "validate_grammar nfc (a\<lparr>ca_sig := s\<rparr>) = validate_grammar nfc a"
  "auth_slots (a\<lparr>ca_sig := s\<rparr>) = auth_slots a" "auth_texts_ok nfc (a\<lparr>ca_sig := s\<rparr>) = auth_texts_ok nfc a"
  "auth_vector_ok nfc (a\<lparr>ca_sig := s\<rparr>) = auth_vector_ok nfc a" "canonical_content nfc (a\<lparr>ca_sig := s\<rparr>) = canonical_content nfc a"
  by (simp_all add: check_presence_def validate_grammar_def auth_slots_def vector_value_def auth_texts_ok_def auth_vector_ok_def
      canonical_content_def auth_content_slots)

lemma auth_sig_ok:
  "auth_ok nfc a \<Longrightarrow> signature_ok s \<Longrightarrow> auth_ok nfc (a\<lparr>ca_sig := s\<rparr>)"
  by (auto simp: auth_ok_def auth_widths_ok_def slots_ok_def slot_fields_def optional_field_def field_ok_def signature_ok_def C_SIG_def
      split: option.splits)

text \<open>The terms the encoder writes are read back exactly when the widths, the texts and the order of the vector are
  in order: the encoder checks presence and grammar only.\<close>

lemma auth_read_back:
  "auth_encode nfc a = Inr bs \<Longrightarrow> auth_parse nfc bs = Inr a \<longleftrightarrow>
   auth_widths_ok a \<and> auth_texts_ok nfc a \<and> auth_vector_ok nfc a \<and> slots_ok (auth_slots a @ [(C_SIG, ca_sig a)])"
  by (auto simp: auth_encode_Inr auth_parse_iff auth_ok_def)

section \<open>The envelope\<close>

definition open_slots :: "channel_open \<Rightarrow> slot list" where
  "open_slots x = [(O_AUTH, Some (slot_bytes (auth_slots (co_auth x) @ [(C_SIG, ca_sig (co_auth x))]))), (O_SEAL, Some (co_seal x))]"

definition open_ok :: "(nat list \<Rightarrow> nat list) \<Rightarrow> channel_open \<Rightarrow> bool" where
  "open_ok nfc x \<longleftrightarrow> auth_ok nfc (co_auth x) \<and> length (co_seal x) = 80 \<and> slots_ok (open_slots x)"

lemma open_slots_ascending [simp]: "sorted_wrt (<) (map fst (open_slots x))"
  by (simp add: open_slots_def O_AUTH_def O_SEAL_def)

lemma open_encode_Inr: "open_encode nfc x = Inr bs \<longleftrightarrow>
    check_presence (co_auth x) = Inr () \<and> validate_grammar nfc (co_auth x) = Inr () \<and> bs = slot_bytes (open_slots x)"
proof -
  have "object_bytes [field_new O_AUTH False ab, field_new O_SEAL False (co_seal x)] = Inr (slot_bytes (open_slots x))"
    if "ab = slot_bytes (auth_slots (co_auth x) @ [(C_SIG, ca_sig (co_auth x))])" for ab
    using object_bytes_slots [OF open_slots_ascending, of x] that by (simp add: open_slots_def)
  then show ?thesis by (auto simp: open_encode_def auth_encode_Inr)
qed

lemma open_parse_iff: "open_parse nfc bs = Inr x \<longleftrightarrow> open_ok nfc x \<and> bs = slot_bytes (open_slots x)"
proof -
  have c: "schema_new Closed [(O_AUTH, False), (O_SEAL, False)] = closed_schema (map fst (open_slots x))"
    by (simp add: closed_schema_def open_slots_def)
  have "open_parse nfc bs = Inr x \<longleftrightarrow> read_slots bs (open_slots x) \<and> auth_ok nfc (co_auth x) \<and> length (co_seal x) = 80"
    by (cases x) (auto simp: open_parse_def read_slots_def c establish_read auth_parse_iff open_slots_def simp del: get_value_Inr split: if_splits)
  then show ?thesis by (auto simp: read_slots_bytes open_ok_def)
qed

section \<open>The interfaces\<close>

interpretation artifact_msg: canonical_codec "artifact_ok nfc uts46" "\<lambda>a. slot_bytes (artifact_slots a @ [(A_SIG, ba_sig a)])"
  "artifact_parse nfc uts46" for nfc uts46
  by (rule canonical_codecI) (simp add: artifact_parse_iff)

interpretation auth_msg: canonical_codec "auth_ok nfc" "\<lambda>a. slot_bytes (auth_slots a @ [(C_SIG, ca_sig a)])" "auth_parse nfc" for nfc
  by (rule canonical_codecI) (simp add: auth_parse_iff)

interpretation open_msg: canonical_codec "open_ok nfc" "\<lambda>x. slot_bytes (open_slots x)" "open_parse nfc" for nfc
  by (rule canonical_codecI) (simp add: open_parse_iff)

interpretation ack_msg: canonical_codec "ack_ok nfc" "\<lambda>k. slot_bytes (ack_slots k @ [(K_SIG, ck_sig k)])" "ack_parse nfc" for nfc
  by (rule canonical_codecI) (simp add: ack_parse_iff)

interpretation ack_request_msg: canonical_codec ack_request_ok "\<lambda>r. slot_bytes (ack_request_slots r @ [(0x70, ar_sig r)])" ack_request_parse
  by (rule canonical_codecI) (simp add: ack_request_parse_iff)

interpretation funding_msg: canonical_codec "funding_ok nfc" "\<lambda>p. slot_bytes (funding_slots p @ [(0x70, fp_sig p)])" "funding_parse nfc" for nfc
  by (rule canonical_codecI) (simp add: funding_parse_iff)

interpretation close_msg: canonical_codec close_ok "\<lambda>c. slot_bytes (close_slots c @ [(0x70, cl_sig c)])" close_parse
  by (rule canonical_codecI) (simp add: close_parse_iff)

end
