(* ===== verification/Props_Establish.thy ===== *)
theory Props_Establish
  imports Establish_Canonical Props_Governed
begin

text \<open>
  Properties of the establishment of a channel: the formats, the binding artifact, the terms and what their
  signature covers, the sealed secret, the close, and the scope of a host.
\<close>

section \<open>Concrete messages\<close>

definition ex_asset :: bytes where "ex_asset = ascii ''eip155:1/native''"
definition ex_net :: bytes where "ex_net = ascii ''eip155:1''"

definition ex_auth :: channel_auth where
  "ex_auth = \<lparr>ca_payer_key = replicate 32 1, ca_channel_id = replicate 8 2, ca_merchant_key = replicate 32 3, ca_denom = ex_asset,
     ca_mode = MODE_POSTPAY, ca_limit_l = 5, ca_limit_e = 6, ca_th_value = 7, ca_th_time = 8, ca_refund_ptr = None,
     ca_baseline_net = ex_net, ca_rate_source = None, ca_rate_dev = None, ca_schema = 1, ca_vector = [], ca_registry_v = 5,
     ca_hs = replicate 32 4, ca_predecessor = None, ca_timestamp = 9, ca_baseline_asset = ex_asset, ca_contract = 1,
     ca_fin_meed = ascii ''final'', ca_fin_denom = ascii ''final'', ca_sig = Some (replicate 64 0)\<rparr>"

lemma ascii_text_ok: "\<forall>b \<in> set s. 0x20 \<le> b \<and> b \<le> 0x7E \<Longrightarrow> text_ok (\<lambda>x. x) s"
  unfolding text_ok_def by (rule ascii_text) auto

lemma ex_texts: "text_ok (\<lambda>x. x) ex_asset" "text_ok (\<lambda>x. x) ex_net" "text_ok (\<lambda>x. x) (ascii ''final'')"
  by (rule ascii_text_ok; simp add: ex_asset_def ex_net_def ascii_def)+

lemma ex_net_caip2: "is_caip2 ex_net"
  unfolding is_caip2_iff
  by (rule exI [of _ "ascii ''eip155''"], rule exI [of _ "ascii ''1''"])
     (simp add: ex_net_def ascii_def is_caip_namespace_def is_account_def within_def matches_def char_defs)

lemma ex_asset_caip19: "is_asset_id nfc ex_asset b"
proof -
  have "split_once SLASH ex_asset = Some (ex_net, ascii ''native'')"
    by (simp add: ex_asset_def ex_net_def ascii_def SLASH_def)
  moreover have "is_asset_tail (ascii ''native'')"
    by (simp add: is_asset_tail_def ascii_def COLON_def is_asset_reference_def within_def matches_def char_defs)
  ultimately have "is_caip19_asset ex_asset" using ex_net_caip2 by (simp add: is_caip19_asset_def)
  then show ?thesis by (simp add: is_asset_id_def)
qed

lemma ex_auth_presence: "check_presence ex_auth = Inr ()"
  by (simp add: check_presence_def ex_auth_def MODE_POSTPAY_def MODE_PREPAY_def eval_nat_numeral)

lemma ex_auth_grammar: "validate_grammar nfc ex_auth = Inr ()"
  using ex_asset_caip19 ex_net_caip2 by (simp add: validate_grammar_def ex_auth_def)

lemma ex_auth_slots: "slots_ok (auth_slots ex_auth @ [(C_SIG, ca_sig ex_auth)])"
  by (simp add: slots_ok_def auth_slots_def slot_fields_def optional_field_def field_ok_def field_new_def establish_types
      ex_auth_def encode_uint_u128_def vector_value_def build_count_prefixed_def leb_encode.simps ascii_def ex_asset_def ex_net_def Let_def)

lemma ex_auth_ok: "auth_ok (\<lambda>x. x) ex_auth"
  using ex_texts ex_auth_presence ex_auth_grammar ex_auth_slots
  by (simp add: auth_ok_def auth_widths_ok_def auth_texts_ok_def auth_vector_ok_def) (simp add: ex_auth_def signature_ok_def)

definition toy_hpke :: hpke_suite where
  "toy_hpke = \<lparr>single_shot_seal = (\<lambda>pk info pt aad. Some (replicate 32 9, pt @ replicate 16 0)),
     single_shot_open = (\<lambda>sk enc info ct aad. Some (take (length ct - 16) ct))\<rparr>"

lemma hd_mask_high: "hd (mask_high pk) = hd pk"
  by (cases pk) (simp_all add: mask_high_def)

lemma nine_not_small: "reject_small_order (replicate 32 9) = Inr ()"
  unfolding reject_small_order_Inr
proof
  fix so
  assume "so \<in> set X25519_SMALL_ORDER"
  then have "hd so \<noteq> 9" by (auto simp: X25519_SMALL_ORDER_def)
  moreover have "hd (replicate 32 9) = (9 :: u8)" by simp
  ultimately show "mask_high (replicate 32 9) \<noteq> mask_high so" by (metis hd_mask_high)
qed

lemma toy_hpke_pair: "hpke_pair toy_hpke sk pk"
  using nine_not_small by (auto simp: hpke_pair_def toy_hpke_def)

lemma length_uint_tiny [simp]: "length (dropWhile P (be_bytes 16 x)) < 128"
  by (rule le_less_trans [OF length_dropWhile_le]) simp

lemma small_field: "length (fvalue f) < 128 \<Longrightarrow> length (field_encode f) \<le> 130"
proof -
  assume l: "length (fvalue f) < 128"
  then have "unat (of_nat (length (fvalue f)) :: u64) = length (fvalue f)" by (simp add: unat_of_nat_small)
  then have "length (leb_encode (of_nat (length (fvalue f)))) = 1"
    using l leb_encode_last [of "of_nat (length (fvalue f))"] by simp
  then show ?thesis using l by (simp add: field_encode_def)
qed

lemma small_fields: "\<forall>f \<in> set fs. length (fvalue f) < 128 \<Longrightarrow> length (object_encode (Object fs)) \<le> 130 * length fs"
proof (induction fs)
  case (Cons f fs)
  then show ?case using small_field [of f] by (simp add: object_encode_def)
qed (simp add: object_encode_def)

section \<open>The properties\<close>

text \<open>C29. An establishment message is accepted exactly when it is, byte for byte, the encoding of a well-formed
  value: no second spelling of an artifact, of channel terms, of an envelope, an acknowledgement, a request for it,
  a funding proof or a close, and no well-formed one that is refused.\<close>

theorem establishment_canonical:
  "(artifact_parse nfc uts46 bs = Inr ar \<longleftrightarrow> artifact_ok nfc uts46 ar \<and> artifact_encode nfc uts46 ar = Inr bs) \<and>
   (auth_parse nfc bs = Inr a \<longleftrightarrow> auth_ok nfc a \<and> auth_encode nfc a = Inr bs) \<and>
   (open_parse nfc bs = Inr x \<longleftrightarrow> open_ok nfc x \<and> open_encode nfc x = Inr bs) \<and>
   (ack_parse nfc bs = Inr k \<longleftrightarrow> ack_ok nfc k \<and> ack_encode nfc k = Inr bs) \<and>
   (ack_request_parse bs = Inr r \<longleftrightarrow> ack_request_ok r \<and> ack_request_encode r = Inr bs) \<and>
   (funding_parse nfc bs = Inr p \<longleftrightarrow> funding_ok nfc p \<and> funding_encode nfc p = Inr bs) \<and>
   (close_parse bs = Inr c \<longleftrightarrow> close_ok c \<and> close_encode c = Inr bs)"
proof (intro conjI)
  show "artifact_parse nfc uts46 bs = Inr ar \<longleftrightarrow> artifact_ok nfc uts46 ar \<and> artifact_encode nfc uts46 ar = Inr bs"
    by (auto simp: artifact_parse_iff artifact_encode_Inr artifact_ok_def)
  show "auth_parse nfc bs = Inr a \<longleftrightarrow> auth_ok nfc a \<and> auth_encode nfc a = Inr bs"
    by (auto simp: auth_parse_iff auth_encode_Inr auth_ok_def)
  show "open_parse nfc bs = Inr x \<longleftrightarrow> open_ok nfc x \<and> open_encode nfc x = Inr bs"
    by (auto simp: open_parse_iff open_encode_Inr open_ok_def auth_ok_def)
  show "ack_parse nfc bs = Inr k \<longleftrightarrow> ack_ok nfc k \<and> ack_encode nfc k = Inr bs"
    by (auto simp: ack_parse_iff ack_encode_Inr ack_ok_def)
  show "funding_parse nfc bs = Inr p \<longleftrightarrow> funding_ok nfc p \<and> funding_encode nfc p = Inr bs"
    by (auto simp: funding_parse_iff funding_encode_Inr funding_ok_def)
qed (auto simp: ack_request_parse_iff ack_request_encode_slots close_parse_iff close_encode_slots)

theorem establishment_canonical_witness:
  "\<exists>bs. auth_parse (\<lambda>x. x) bs = Inr ex_auth \<and> auth_encode (\<lambda>x. x) ex_auth = Inr bs"
proof -
  have "auth_parse (\<lambda>x. x) (slot_bytes (auth_slots ex_auth @ [(C_SIG, ca_sig ex_auth)])) = Inr ex_auth"
    using ex_auth_ok by (simp add: auth_parse_iff)
  then show ?thesis using establishment_canonical [of "\<lambda>x. x"] by blast
qed

text \<open>C32. Terms the payer's encoder writes are not always terms a receiver reads: the encoder checks presence
  and the grammar of four fields, the receiver also the text of every string, the order of the vector and the
  time domain. The two agree exactly on the values that pass those checks.\<close>

theorem auth_emit_gap:
  assumes "auth_encode nfc a = Inr bs"
  shows "auth_parse nfc bs = Inr a \<longleftrightarrow>
    auth_widths_ok a \<and> auth_texts_ok nfc a \<and> auth_vector_ok nfc a \<and> slots_ok (auth_slots a @ [(C_SIG, ca_sig a)])"
  by (rule auth_read_back [OF assms])

definition ex_bell_auth :: channel_auth where
  "ex_bell_auth = ex_auth\<lparr>ca_fin_meed := [0x07]\<rparr>"

theorem auth_emit_gap_witness:
  "\<exists>bs. auth_encode (\<lambda>x. x) ex_bell_auth = Inr bs \<and> auth_parse (\<lambda>x. x) bs \<noteq> Inr ex_bell_auth"
proof -
  have p: "check_presence ex_bell_auth = Inr ()"
    by (simp add: check_presence_def ex_bell_auth_def ex_auth_def MODE_POSTPAY_def MODE_PREPAY_def eval_nat_numeral)
  have g: "validate_grammar (\<lambda>x. x) ex_bell_auth = Inr ()"
    using ex_asset_caip19 ex_net_caip2 by (simp add: validate_grammar_def ex_bell_auth_def ex_auth_def)
  obtain bs where e: "auth_encode (\<lambda>x. x) ex_bell_auth = Inr bs" using p g by (auto simp: auth_encode_Inr)
  have "\<not> text_ok (\<lambda>x. x) [0x07]" by (simp add: text_ok_def validate_text_def)
  then have "\<not> auth_texts_ok (\<lambda>x. x) ex_bell_auth" by (simp add: auth_texts_ok_def ex_bell_auth_def)
  then show ?thesis using auth_emit_gap [OF e] e by blast
qed

text \<open>Accepted channel terms are well formed: a nonzero identifier, a refund pointer exactly in prepay mode
  and then a destination, a rate source and deviation exactly when the denomination is not the baseline asset, a
  baseline on a chain, a vector in ascending roles, and times within their domain.\<close>

theorem accepted_terms_well_formed:
  assumes "auth_parse nfc bs = Inr a"
  shows "ca_channel_id a \<noteq> replicate 8 0 \<and> ca_mode a \<in> {MODE_PREPAY, MODE_POSTPAY} \<and>
    (ca_refund_ptr a \<noteq> None \<longleftrightarrow> ca_mode a = MODE_PREPAY) \<and>
    (case ca_refund_ptr a of None \<Rightarrow> True | Some rp \<Rightarrow> pointer_parse nfc rp \<in> range Inr) \<and>
    (ca_rate_source a \<noteq> None \<longleftrightarrow> ca_denom a \<noteq> ca_baseline_asset a) \<and>
    (ca_rate_dev a \<noteq> None \<longleftrightarrow> ca_denom a \<noteq> ca_baseline_asset a) \<and>
    is_caip19_asset (ca_baseline_asset a) \<and> is_caip2 (ca_baseline_net a) \<and>
    sorted_wrt (<) (map ve_role (ca_vector a)) \<and> unat (ca_timestamp a) < 2 ^ 53 \<and> unat (ca_th_time a) < 2 ^ 53"
proof -
  have ok: "auth_widths_ok a" "auth_vector_ok nfc a" "check_presence a = Inr ()" "validate_grammar nfc a = Inr ()"
    using assms by (simp_all add: auth_parse_iff auth_ok_def)
  have pr: "ca_channel_id a \<noteq> replicate 8 0" "ca_mode a \<in> {MODE_PREPAY, MODE_POSTPAY}"
      "ca_refund_ptr a \<noteq> None \<longleftrightarrow> ca_mode a = MODE_PREPAY"
      "ca_rate_source a \<noteq> None \<longleftrightarrow> ca_denom a \<noteq> ca_baseline_asset a" "ca_rate_dev a \<noteq> None \<longleftrightarrow> ca_denom a \<noteq> ca_baseline_asset a"
    using ok(3) by (auto simp: check_presence_def Let_def MODE_PREPAY_def MODE_POSTPAY_def split: if_splits)
  have gr: "is_caip19_asset (ca_baseline_asset a)" "is_caip2 (ca_baseline_net a)"
      "case ca_refund_ptr a of None \<Rightarrow> True | Some rp \<Rightarrow> pointer_parse nfc rp \<in> range Inr"
    using ok(4) by (auto simp: validate_grammar_def is_asset_id_def split: if_splits option.splits)
  have v: "sorted_wrt (<) (map ve_role (ca_vector a))"
  proof -
    have "successively (\<lambda>x y. ve_role x < ve_role y) xs \<longleftrightarrow> sorted_wrt (\<lambda>x y. ve_role x < ve_role y) xs" for xs :: "vector_entry list"
      by (rule successively_conv_sorted_wrt) (auto simp: transp_def)
    then show ?thesis using ok(2) by (simp add: auth_vector_ok_def sorted_wrt_map)
  qed
  have t: "unat (ca_timestamp a) < 2 ^ 53" "unat (ca_th_time a) < 2 ^ 53" using ok(1) by (simp_all add: auth_widths_ok_def)
  show ?thesis using pr gr v t by blast
qed

theorem accepted_terms_well_formed_witness:
  "\<exists>bs. auth_parse (\<lambda>x. x) bs = Inr ex_auth \<and> (ca_refund_ptr ex_auth \<noteq> None \<longleftrightarrow> ca_mode ex_auth = MODE_PREPAY) \<and>
     is_caip2 (ca_baseline_net ex_auth)"
proof -
  have p: "auth_parse (\<lambda>x. x) (slot_bytes (auth_slots ex_auth @ [(C_SIG, ca_sig ex_auth)])) = Inr ex_auth"
    using ex_auth_ok by (simp add: auth_parse_iff)
  show ?thesis using accepted_terms_well_formed [OF p] p by blast
qed

text \<open>C30. The payer's signature and the channel's hash cover every term: accepted terms with the same covered
  bytes - or with the same hash, when SHA-256 does not collide on the two - differ in the signature at most.\<close>

theorem terms_signature_covers_all:
  assumes "auth_parse nfc bs = Inr a" "auth_parse nfc cs' = Inr b"
    and "auth_covered_bytes nfc a = Inr x" "auth_covered_bytes nfc b = Inr y"
    and "sha256 cs x = sha256 cs y \<Longrightarrow> x = y" "auth_hash cs nfc a = auth_hash cs nfc b"
  shows "a\<lparr>ca_sig := None\<rparr> = b\<lparr>ca_sig := None\<rparr>"
proof -
  have ok: "auth_ok nfc a" "auth_ok nfc b" using assms(1,2) by (simp_all add: auth_parse_iff)
  have "x = y" using assms(3-6) by (simp add: auth_hash_def)
  then have same: "slot_bytes (auth_slots a) = slot_bytes (auth_slots b)"
    using assms(3,4) by (auto simp: auth_covered_bytes_def canonical_content_Inr covered_same_label)
  have bare: "slot_bytes (auth_slots c) = slot_bytes (auth_slots (c\<lparr>ca_sig := None\<rparr>) @ [(C_SIG, ca_sig (c\<lparr>ca_sig := None\<rparr>))])" for c
    by (simp add: slot_bytes_def slot_fields_def optional_field_def)
  have none: "auth_ok nfc (a\<lparr>ca_sig := None\<rparr>)" "auth_ok nfc (b\<lparr>ca_sig := None\<rparr>)"
    using auth_sig_ok [OF ok(1)] auth_sig_ok [OF ok(2)] by (simp_all add: signature_ok_def)
  show ?thesis using same unfolding bare auth_msg.encode_inj [OF none] .
qed

theorem terms_signature_covers_all_witness:
  "\<exists>x. auth_covered_bytes (\<lambda>x. x) ex_auth = Inr x \<and> ex_auth\<lparr>ca_sig := None\<rparr> = ex_auth\<lparr>ca_sig := Some (replicate 64 1), ca_sig := None\<rparr>"
proof -
  let ?b = "ex_auth\<lparr>ca_sig := Some (replicate 64 1)\<rparr>"
  have ok: "auth_ok (\<lambda>x. x) ?b" using auth_sig_ok [OF ex_auth_ok] by (simp add: signature_ok_def)
  obtain x where x: "auth_covered_bytes (\<lambda>x. x) ex_auth = Inr x"
    using ex_auth_presence ex_auth_grammar by (auto simp: auth_covered_bytes_def canonical_content_Inr)
  then have y: "auth_covered_bytes (\<lambda>x. x) ?b = Inr x" by (simp add: auth_covered_bytes_def)
  have "ex_auth\<lparr>ca_sig := None\<rparr> = ?b\<lparr>ca_sig := None\<rparr>"
    by (rule terms_signature_covers_all [where cs = toy_suite and nfc = "\<lambda>x. x", OF _ _ x y])
       (use ex_auth_ok ok x y in \<open>simp_all add: auth_parse_iff auth_hash_def\<close>)
  then show ?thesis using x by simp
qed

text \<open>An artifact is accepted exactly when it is signed under the merchant's key, current within the skew,
  and names the certificate and the host of the connection; the binding that results carries those values.\<close>

theorem artifact_acceptance:
  "artifact_accept cs nfc uts46 m_key conn_cert conn_host now a = Inr b \<longleftrightarrow>
   (\<exists>sig cov. ba_sig a = Some sig \<and> artifact_covered_bytes nfc uts46 a = Inr cov \<and> ed25519_verify_strict cs m_key cov sig) \<and>
   unat (ba_not_before a) \<le> unat now + 300 \<and> unat now \<le> unat (ba_not_after a) + 300 \<and>
   ba_cert_hash a = conn_cert \<and> ba_host a = conn_host \<and>
   b = \<lparr>ab_merchant_key = m_key, ab_host = conn_host, ab_enc_key = ba_enc_key a\<rparr>"
proof -
  have "sat_add now SKEW_SECS < ba_not_before a \<longleftrightarrow> \<not> unat (ba_not_before a) \<le> unat now + 300"
    using unat_lt2p [of "ba_not_before a"] by (simp add: word_less_nat_alt unat_sat_add SKEW_SECS_def min_def not_le)
  moreover have "sat_add (ba_not_after a) SKEW_SECS < now \<longleftrightarrow> \<not> unat now \<le> unat (ba_not_after a) + 300"
    using unat_lt2p [of now] by (simp add: word_less_nat_alt unat_sat_add SKEW_SECS_def min_def not_le)
  ultimately show ?thesis by (auto simp: artifact_accept_def verify_sig_def)
qed

text \<open>C31. The secret the payer seals is the secret the merchant opens: an envelope built for the merchant's key is
  read back with the same terms, and opening its seal with the canonical terms as associated data gives the
  payer's secret, so both sides derive the same session key.\<close>

theorem handshake_delivers_secret:
  assumes "hpke_pair hs sk pk" "length s = 32" "auth_ok nfc a"
    and "open_build hs nfc a pk s = Inr x" "length (co_seal x) = 80" "slots_ok (open_slots x)"
  shows "\<exists>bs y aad. open_encode nfc x = Inr bs \<and> open_parse nfc bs = Inr y \<and> co_auth y = a \<and>
    canonical_content nfc (co_auth y) = Inr aad \<and> open_session_secret hs sk (co_seal y) aad = Inr s"
proof -
  obtain aad where aad: "canonical_content nfc a = Inr aad" "seal_session_secret hs pk aad s = Inr (co_seal x)" "co_auth x = a"
    using assms(4) by (auto simp: open_build_def)
  have "open_encode nfc x = Inr (slot_bytes (open_slots x))" using assms(3) aad(3) by (simp add: open_encode_Inr auth_ok_def)
  moreover have "open_parse nfc (slot_bytes (open_slots x)) = Inr x" using assms(3,5,6) aad(3) by (simp add: open_parse_iff open_ok_def)
  ultimately show ?thesis using seal_opens [OF assms(1,2) aad(2)] aad(1,3) by blast
qed

theorem handshake_delivers_secret_witness:
  "\<exists>x bs y aad. open_build toy_hpke (\<lambda>x. x) ex_auth (replicate 32 9) (replicate 32 7) = Inr x \<and>
    open_encode (\<lambda>x. x) x = Inr bs \<and> open_parse (\<lambda>x. x) bs = Inr y \<and> co_auth y = ex_auth \<and>
    canonical_content (\<lambda>x. x) (co_auth y) = Inr aad \<and> open_session_secret toy_hpke [] (co_seal y) aad = Inr (replicate 32 7)"
proof -
  obtain aad where aad: "canonical_content (\<lambda>x. x) ex_auth = Inr aad"
    using ex_auth_presence ex_auth_grammar by (auto simp: canonical_content_Inr)
  let ?x = "\<lparr>co_auth = ex_auth, co_seal = replicate 32 9 @ replicate 32 7 @ replicate 16 0\<rparr>"
  have b: "open_build toy_hpke (\<lambda>x. x) ex_auth (replicate 32 9) (replicate 32 7) = Inr ?x"
    using nine_not_small by (simp add: open_build_def aad seal_session_secret_def hpke_seal_def toy_hpke_def)
  have "\<forall>f \<in> set (slot_fields (auth_slots ex_auth @ [(C_SIG, ca_sig ex_auth)])). length (fvalue f) < 128"
    by (simp add: auth_slots_def slot_fields_def optional_field_def field_new_def ex_auth_def encode_uint_u128_def vector_value_def
        build_count_prefixed_def leb_encode.simps ascii_def ex_asset_def ex_net_def Let_def)
  from small_fields [OF this] have len: "length (slot_bytes (auth_slots ex_auth @ [(C_SIG, ca_sig ex_auth)])) < 2 ^ 32"
    by (simp add: slot_bytes_def auth_slots_def slot_fields_def optional_field_def ex_auth_def)
  have "slots_ok (open_slots ?x)"
    using len by (simp add: slots_ok_def open_slots_def slot_fields_def optional_field_def field_ok_def field_new_def O_AUTH_def O_SEAL_def)
  then show ?thesis using handshake_delivers_secret [OF toy_hpke_pair _ ex_auth_ok b] b by auto
qed

text \<open>A close is decided only for its channel and under the signature of one of the two parties, and the
  intent to chain counts only under the payer's signature.\<close>

theorem close_intent_is_payers:
  "close_accept cs expected payer_key m_key c = Inr d \<longleftrightarrow>
   cl_channel_id c = expected \<and>
   (\<exists>sig. cl_sig c = Some sig \<and>
      (ed25519_verify_strict cs payer_key (close_covered_bytes c) sig \<or> ed25519_verify_strict cs m_key (close_covered_bytes c) sig) \<and>
      d = \<lparr>cd_by_payer = ed25519_verify_strict cs payer_key (close_covered_bytes c) sig,
           cd_chain_intent = (ed25519_verify_strict cs payer_key (close_covered_bytes c) sig \<and> cl_chain_intent c)\<rparr>)"
  by (auto simp: close_accept_def Let_def split: if_splits)

text \<open>No session secret is sealed to a point of small order, nor opened from one, in either setting of the
  ignored bit.\<close>

theorem small_order_points_refused:
  assumes "so \<in> set X25519_SMALL_ORDER" "pk = so \<or> pk = so[31 := so ! 31 OR 0x80]"
  shows "seal_session_secret hs pk aad s = Inl error.Seal \<and> open_session_secret hs sk (pk @ ct) aad = Inl error.Seal"
proof -
  have "length pk = 32" using assms by (auto simp: X25519_SMALL_ORDER_def)
  then show ?thesis
    using small_order_refused [OF assms] by (simp add: seal_session_secret_def hpke_seal_def open_session_secret_def hpke_open_def)
qed

theorem small_order_points_refused_witness:
  "seal_session_secret toy_hpke (replicate 31 0 @ [0x80]) [] [] = Inl error.Seal \<and>
   open_session_secret toy_hpke [] ((replicate 31 0 @ [0x80]) @ []) [] = Inl error.Seal"
  by (rule small_order_points_refused [of "replicate 32 0"]) (simp_all add: X25519_SMALL_ORDER_def eval_nat_numeral)

definition ex_psl :: psl where
  "ex_psl = load_rules (\<lambda>r. r) [ascii ''uk'', ascii ''co.uk'']"

lemma ascii_nonempty: "ascii s = [] \<longleftrightarrow> s = []"
  by (simp add: ascii_def)

lemma ex_registrable: "registrable_domain Some ex_psl (ascii ''www.shop.co.uk'') = Inr (ascii ''shop.co.uk'')"
proof -
  have p: "ex_psl = \<lparr>psl_rules = {ascii ''co.uk'', ascii ''uk''}, psl_wildcards = {}, psl_exceptions = {}\<rparr>"
    by (simp add: ex_psl_def load_rules_def add_rule_def ascii_def DOT_def)
  have l: "split_all DOT (ascii ''www.shop.co.uk'') = [ascii ''www'', ascii ''shop'', ascii ''co'', ascii ''uk'']"
    by (simp add: ascii_def DOT_def)
  have j: "join DOT [ascii ''www'', ascii ''shop'', ascii ''co'', ascii ''uk''] = ascii ''www.shop.co.uk''"
    "join DOT [ascii ''shop'', ascii ''co'', ascii ''uk''] = ascii ''shop.co.uk''"
    "join DOT [ascii ''co'', ascii ''uk''] = ascii ''co.uk''"
    by (simp_all add: ascii_def DOT_def)
  have "public_suffix_len ex_psl [ascii ''www'', ascii ''shop'', ascii ''co'', ascii ''uk''] = 2"
    by (simp add: public_suffix_len_def p j ascii_eq_iff del: join.simps(3))
  then have r: "psl_registrable ex_psl (ascii ''www.shop.co.uk'') = Some (ascii ''shop.co.uk'')"
    by (simp add: psl_registrable_def l j del: join.simps(3))
  have "has_plausible_tld (ascii ''www.shop.co.uk'')"
    by (simp add: has_plausible_tld_def l) (simp add: ascii_def is_lower_def)
  then show ?thesis
    using r by (simp add: registrable_domain_def validate_normalized_host_def) (simp add: ascii_def)
qed

text \<open>The scope of a payer key is stable: it is the host or a suffix of it after a dot, and resolving the scope
  of a scope gives itself, so a host and its registrable domain share one key scope.\<close>

theorem scope_is_stable:
  assumes "registrable_domain uts46 p host = Inr d" "uts46 d = Some d" "d \<noteq> []"
  shows "registrable_domain uts46 p d = Inr d \<and> (d = host \<or> (\<exists>sub. host = sub @ DOT # d))"
  using registrable_stable [OF assms] registrable_suffix [OF assms(1)] by blast

theorem scope_is_stable_witness:
  "registrable_domain Some ex_psl (ascii ''www.shop.co.uk'') = Inr (ascii ''shop.co.uk'') \<and>
   registrable_domain Some ex_psl (ascii ''shop.co.uk'') = Inr (ascii ''shop.co.uk'')"
  using ex_registrable scope_is_stable [of Some ex_psl "ascii ''www.shop.co.uk''" "ascii ''shop.co.uk''"]
  by (simp add: ascii_eq_iff ascii_nonempty)

end
