(* ===== verification/Custody.thy ===== *)
theory Custody
  imports Settle_Canonical Host
begin

text \<open>
  Key custody, the spend boundary of the wallet (\<^verbatim>\<open>crates/paytp-wallet/src/custody.rs\<close>): the payer key is derived
  from the root for a scope, a merchant key and its registrable domain. The root is an argument; what the code
  keeps private or zeroizes has no counterpart in the values.
\<close>

definition PAYER_SCOPE_LABEL :: bytes where "PAYER_SCOPE_LABEL = ascii ''PayTPv1-payer-scope-v2''"

record payer_scope =
  ps_merchant_key :: bytes
  ps_domain :: bytes

definition scope_resolve :: "(bytes \<Rightarrow> bytes option) \<Rightarrow> psl \<Rightarrow> bytes \<Rightarrow> bytes \<Rightarrow> host_error + payer_scope" where
  "scope_resolve uts46 p m_key host =
     and_then (registrable_domain uts46 p host) (\<lambda>d. Inr \<lparr>ps_merchant_key = m_key, ps_domain = d\<rparr>)"

text \<open>\<open>domain.len() as u16\<close> keeps the low 16 bits.\<close>

definition derivation_info :: "payer_scope \<Rightarrow> bytes" where
  "derivation_info s =
     PAYER_SCOPE_LABEL @ ps_merchant_key s @ to_be_bytes (word_of_nat (length (ps_domain s)) :: u16) @ ps_domain s"

definition scoped_sk :: "crypto_suite \<Rightarrow> bytes \<Rightarrow> payer_scope \<Rightarrow> bytes" where
  "scoped_sk cs root s = hkdf_sha256 cs root None (derivation_info s) 32"

definition custody_payer_key :: "crypto_suite \<Rightarrow> bytes \<Rightarrow> payer_scope \<Rightarrow> bytes" where
  "custody_payer_key cs root s = ed25519_public cs (scoped_sk cs root s)"

definition custody_sign :: "crypto_suite \<Rightarrow> bytes \<Rightarrow> payer_scope \<Rightarrow> bytes \<Rightarrow> bytes" where
  "custody_sign cs root s msg = ed25519_sign cs (scoped_sk cs root s) msg"

definition with_signing_key :: "crypto_suite \<Rightarrow> bytes \<Rightarrow> payer_scope \<Rightarrow> (bytes \<Rightarrow> 'a) \<Rightarrow> 'a" where
  "with_signing_key cs root s f = f (scoped_sk cs root s)"

text \<open>No two scopes share a derivation input, whatever the length of the domain.\<close>

lemma derivation_info_inj:
  assumes "length (ps_merchant_key s) = 32" "length (ps_merchant_key t) = 32" "derivation_info s = derivation_info t"
  shows "s = t"
proof -
  have "ps_merchant_key s = ps_merchant_key t" "ps_domain s = ps_domain t"
    using assms by (simp_all add: derivation_info_def)
  then show ?thesis by simp
qed

text \<open>The derivation does not collide on the two scopes and the public keys of distinct seeds are distinct.\<close>

definition separates :: "crypto_suite \<Rightarrow> bytes \<Rightarrow> payer_scope \<Rightarrow> payer_scope \<Rightarrow> bool" where
  "separates cs root s t \<longleftrightarrow>
     (derivation_info s \<noteq> derivation_info t \<longrightarrow> scoped_sk cs root s \<noteq> scoped_sk cs root t) \<and>
     (scoped_sk cs root s \<noteq> scoped_sk cs root t \<longrightarrow> custody_payer_key cs root s \<noteq> custody_payer_key cs root t)"

lemma payer_keys_unlinkable:
  assumes "separates cs root s t" "length (ps_merchant_key s) = 32" "length (ps_merchant_key t) = 32"
  shows "custody_payer_key cs root s = custody_payer_key cs root t \<longleftrightarrow> s = t"
  using derivation_info_inj [OF assms(2,3)] assms(1) by (auto simp: separates_def)

end
