(* ===== verification/Policy.thy ===== *)
theory Policy
  imports Paytp_Prelude
begin

text \<open>
  Spending authority (\<^verbatim>\<open>crates/paytp-wallet/src/policy.rs\<close>): the trait as a record of decisions, the selection of a
  path on the payer's total cost, and the static policy. The reasons of a denial are kept. The quote that
  \<open>approve_quote\<close> receives is not read by the static policy and is left out of its model.
\<close>

datatype decision = Approve | Deny string

definition is_approved :: "decision \<Rightarrow> bool" where
  "is_approved d \<longleftrightarrow> d = Approve"

datatype halt_or_continue = Halt | Continue

record channel_terms =
  ct_denom :: bytes
  ct_limit_l :: u128
  ct_limit_e :: u128
  ct_th_value :: u128
  ct_th_time :: u64
  ct_prepay :: bool

section \<open>Path selection\<close>

record path_candidate =
  pc_id :: u32
  pc_cost :: u128
  pc_meed_share_bp :: u16

datatype select_reason = CostMinimal | OperatorAuthorizedCostlier

record path_selection =
  sel_chosen :: u32
  sel_cost :: u128
  sel_cost_minimal :: u128
  sel_cost_delta :: u128
  sel_meed_share_bp :: u16
  sel_reason :: select_reason

definition cheaper :: "path_candidate \<Rightarrow> path_candidate \<Rightarrow> bool" where
  "cheaper a b \<longleftrightarrow> pc_cost a < pc_cost b \<or> (pc_cost a = pc_cost b \<and> pc_id a < pc_id b)"

text \<open>\<open>Iterator::min_by\<close> keeps the first of the least elements.\<close>

fun min_path :: "path_candidate list \<Rightarrow> path_candidate option" where
  "min_path [] = None"
| "min_path (c # cs) = Some (fold (\<lambda>x m. if cheaper x m then x else m) cs c)"

definition select_cost_minimal ::
  "path_candidate list \<Rightarrow> u32 list \<Rightarrow> u32 option \<Rightarrow> path_selection option" where
  "select_cost_minimal candidates excluded authorized =
     (case min_path (filter (\<lambda>c. pc_id c \<notin> set excluded) candidates) of
        None \<Rightarrow> None
      | Some cheapest \<Rightarrow>
          let cost_minimal = pc_cost cheapest;
              chosen = (case Option.bind authorized (\<lambda>i.
                  List.find (\<lambda>c. pc_id c = i \<and> pc_id c \<notin> set excluded \<and> cost_minimal < pc_cost c) candidates) of
                Some c \<Rightarrow> c | None \<Rightarrow> cheapest);
              cost_delta = pc_cost chosen - cost_minimal in
          Some \<lparr>sel_chosen = pc_id chosen, sel_cost = pc_cost chosen, sel_cost_minimal = cost_minimal,
            sel_cost_delta = cost_delta, sel_meed_share_bp = pc_meed_share_bp chosen,
            sel_reason = (if 0 < cost_delta then OperatorAuthorizedCostlier else CostMinimal)\<rparr>)"

section \<open>The policy of a wallet\<close>

record wallet_policy =
  wp_approve_channel :: "channel_terms \<Rightarrow> decision"
  wp_approve_slice :: "bytes \<Rightarrow> u64 \<Rightarrow> decision"
  wp_on_overdue_meed :: "bytes \<Rightarrow> halt_or_continue"
  wp_select_path :: "path_candidate list \<Rightarrow> path_selection option"

definition default_select_path :: "path_candidate list \<Rightarrow> path_selection option" where
  "default_select_path candidates = select_cost_minimal candidates [] None"

record static_policy =
  sp_consent :: bool
  sp_asset_limits :: "(bytes \<times> u128) list"
  sp_per_slice_limit :: u64
  sp_excluded_paths :: "u32 list"
  sp_authorized_costlier :: "u32 option"

definition static_new_multi :: "(bytes \<times> u128) list \<Rightarrow> static_policy" where
  "static_new_multi limits =
     (let most = foldr (\<lambda>(a, l) m. if m < l then l else m) limits 0 in
      \<lparr>sp_consent = True, sp_asset_limits = limits,
       sp_per_slice_limit = (if most < ucast (- 1 :: u64) then ucast most else - 1),
       sp_excluded_paths = [], sp_authorized_costlier = None\<rparr>)"

definition static_new :: "bytes \<Rightarrow> u128 \<Rightarrow> static_policy" where
  "static_new a limit = static_new_multi [(a, limit)]"

definition with_excluded_paths :: "u32 list \<Rightarrow> static_policy \<Rightarrow> static_policy" where
  "with_excluded_paths ids p = p\<lparr>sp_excluded_paths := ids\<rparr>"

definition with_authorized_costlier :: "u32 \<Rightarrow> static_policy \<Rightarrow> static_policy" where
  "with_authorized_costlier i p = p\<lparr>sp_authorized_costlier := Some i\<rparr>"

definition limit_for :: "static_policy \<Rightarrow> bytes \<Rightarrow> u128 option" where
  "limit_for p a = map_option snd (List.find (\<lambda>(a', l). a' = a) (sp_asset_limits p))"

definition static_approve_quote :: "static_policy \<Rightarrow> u128 \<Rightarrow> bytes \<Rightarrow> decision" where
  "static_approve_quote p amount a =
     (if \<not> sp_consent p then Deny ''no operator consent''
      else (case limit_for p a of
          None \<Rightarrow> Deny ''asset not on allowlist''
        | Some limit \<Rightarrow> if limit < amount then Deny ''amount over per-transaction budget'' else Approve))"

definition static_approve_channel :: "static_policy \<Rightarrow> channel_terms \<Rightarrow> decision" where
  "static_approve_channel p terms =
     (if \<not> sp_consent p then Deny ''no operator consent''
      else (case limit_for p (ct_denom terms) of
          None \<Rightarrow> Deny ''channel denom not on allowlist''
        | Some limit \<Rightarrow> if limit < ct_limit_l terms then Deny ''channel limit over budget'' else Approve))"

definition static_approve_slice :: "static_policy \<Rightarrow> bytes \<Rightarrow> u64 \<Rightarrow> decision" where
  "static_approve_slice p ch amt =
     (if sp_per_slice_limit p < amt then Deny ''slice over per-slice limit'' else Approve)"

definition static_wallet_policy :: "static_policy \<Rightarrow> wallet_policy" where
  "static_wallet_policy p = \<lparr>wp_approve_channel = static_approve_channel p, wp_approve_slice = static_approve_slice p,
     wp_on_overdue_meed = (\<lambda>_. Halt),
     wp_select_path = (\<lambda>cs. select_cost_minimal cs (sp_excluded_paths p) (sp_authorized_costlier p))\<rparr>"

section \<open>Selection serves the payer\<close>

lemma cheaper_cost: "cheaper a b \<Longrightarrow> pc_cost a \<le> pc_cost b"
  by (auto simp: cheaper_def)

lemma fold_cheaper:
  "fold (\<lambda>x m. if cheaper x m then x else m) cs c \<in> set (c # cs) \<and>
   (\<forall>x \<in> set (c # cs). pc_cost (fold (\<lambda>x m. if cheaper x m then x else m) cs c) \<le> pc_cost x)"
proof (induction cs arbitrary: c)
  case (Cons y cs)
  show ?case
  proof (cases "cheaper y c")
    case True
    then show ?thesis using Cons [of y] cheaper_cost [OF True] by fastforce
  next
    case False
    then have "pc_cost c \<le> pc_cost y" by (auto simp: cheaper_def)
    then show ?thesis using False Cons [of c] by fastforce
  qed
qed simp

lemma min_path_least:
  assumes "min_path cs = Some m"
  shows "m \<in> set cs \<and> (\<forall>x \<in> set cs. pc_cost m \<le> pc_cost x)"
proof (cases cs)
  case (Cons y ys)
  then have "m = fold (\<lambda>x m. if cheaper x m then x else m) ys y" using assms by simp
  then show ?thesis using fold_cheaper [of ys y] Cons by simp
qed (use assms in simp)

lemma min_path_None: "min_path cs = None \<longleftrightarrow> cs = []"
  by (cases cs) auto

end
