(* ===== verification/Wallet_Channel.thy ===== *)
theory Wallet_Channel
  imports Handshake Custody Policy Virtual_Rail Settlement
begin

text \<open>
  The payer's endpoint of a channel (\<^verbatim>\<open>crates/paytp-wallet/src/channel.rs\<close>): opening under verified trust, slices
  under the flow-control policy, co-signed checkpoints, the halt on an overdue round, and the crediting of a
  prepay draw against the rail. A method that mutates its receiver returns the new state; the wallet's clock
  readings, its random draws and the rail it is shown are arguments. The value \<open>Rail\<close> of the error type is
  never constructed by the code.
\<close>

datatype client_error =
    PolicyDenied string
  | HaltedOnOverdueMeed
  | Establish
  | Checkpoint string
  | WindowExceeded
  | Rail bytes

record channel_open_params =
  op_channel_id :: bytes
  op_denom :: bytes
  op_baseline_asset :: bytes
  op_baseline_net :: bytes
  op_prepay :: bool
  op_limit_l :: u128
  op_limit_e :: u128
  op_th_value :: u128
  op_th_time :: u64
  op_schema :: u32
  op_contract :: u32
  op_registry_v :: u32
  op_vector :: "vector_entry list"
  op_refund_ptr :: "bytes option"
  op_rate_source :: "bytes option"
  op_rate_dev :: "u128 option"
  op_fin_meed :: bytes
  op_fin_denom :: bytes
  op_timestamp :: u64

record operative_ckpt =
  oc_ckpt_ref :: bytes
  oc_cum_total :: u128

record pending_verify =
  pv_ckpt_ref :: bytes
  pv_claim_record :: bytes
  pv_amount :: u128
  pv_cum_total :: u128
  pv_tx_ref :: bytes
  pv_defaulted :: bool

record channel_client =
  wc_root :: bytes
  wc_policy :: wallet_policy
  wc_channel_id :: bytes
  wc_merchant_key :: bytes
  wc_scope :: payer_scope
  wc_k_session :: bytes
  wc_next_seq :: u64
  wc_prepay :: bool
  wc_limit_l :: u128
  wc_th_time :: u64
  wc_last_settle :: u64
  wc_seed_instance :: bytes
  wc_fin_meed :: bytes
  wc_roles_bp :: "(u8 \<times> u16) list"
  wc_round_carve :: u128
  wc_cum_streamed :: u128
  wc_operative :: "operative_ckpt option"
  wc_credited_r :: "u256 list"
  wc_halted :: bool
  wc_pending :: "pending_verify option"

record payer_trust =
  pt_root :: bytes
  pt_wallet_meed_dest :: "bytes option"
  pt_binding :: accepted_binding

definition payer_trust_new :: "bytes \<Rightarrow> accepted_binding \<Rightarrow> payer_trust" where
  "payer_trust_new root b = \<lparr>pt_root = root, pt_wallet_meed_dest = None, pt_binding = b\<rparr>"

definition with_meed_dest :: "bytes \<Rightarrow> payer_trust \<Rightarrow> payer_trust" where
  "with_meed_dest d t = t\<lparr>pt_wallet_meed_dest := Some d\<rparr>"

section \<open>The rail as the wallet sees it\<close>

text \<open>The part of the adapter trait the wallet calls, and what the in-process rail shows through it in a
  state. A panic of the rail is a panic of the call that asked it, before the client has changed anything.\<close>

record rail_view =
  rw_ref_target :: "bytes \<Rightarrow> ref_info option"
  rw_finality :: "bytes \<Rightarrow> finality_obs option on_rail"
  rw_levels :: "bytes list"

definition virtual_view :: "inner \<Rightarrow> rail_view" where
  "virtual_view s = \<lparr>rw_ref_target = (\<lambda>r. ref_target r s), rw_finality = (\<lambda>r. rail_finality r s),
     rw_levels = rc_finality_levels (caps_new (vr_finality_delay s))\<rparr>"

fun position_of :: "bytes \<Rightarrow> bytes list \<Rightarrow> nat option" where
  "position_of l [] = None"
| "position_of l (x # xs) = (if x = l then Some 0 else map_option Suc (position_of l xs))"

definition finality_reached :: "rail_view \<Rightarrow> bytes \<Rightarrow> bytes \<Rightarrow> bool on_rail" where
  "finality_reached rail r required =
     and_then (rw_finality rail r) (\<lambda>ob. Inr
     (case (Option.bind ob (\<lambda>f. position_of (fo_level f) (rw_levels rail)), position_of required (rw_levels rail)) of
        (Some reached, Some need) \<Rightarrow> need \<le> reached
      | _ \<Rightarrow> False))"

section \<open>The carve\<close>

text \<open>A division at the rate one to one never panics (\<open>unit_round_exact\<close> in the theory of the invariant), so
  every failure is an error the code turns into \<open>None\<close>.\<close>

definition unit_round :: "u256 list \<Rightarrow> round_division option" where
  "unit_round ns = (case rate_new 1 1 of
     Inl _ \<Rightarrow> None
   | Inr r \<Rightarrow> (case divide_round ns r of Inr d \<Rightarrow> Some d | Inl _ \<Rightarrow> None))"

definition round_payment :: "u256 list \<Rightarrow> u128 option" where
  "round_payment ns = Option.bind (unit_round ns) (\<lambda>d. try_from (rd_p d))"

fun outstanding_loop :: "u256 \<Rightarrow> (u8 \<times> u16) list \<Rightarrow> u256 list \<Rightarrow> u256 list option" where
  "outstanding_loop cum ((r, b) # rs) (c # cs) =
     Option.bind (checked_mul cum (ucast b)) (\<lambda>accrued.
     Option.bind (checked_sub accrued c) (\<lambda>o'.
     map_option (\<lambda>os. o' # os) (outstanding_loop cum rs cs)))"
| "outstanding_loop cum rs cs = Some []"

definition outstanding_at :: "channel_client \<Rightarrow> u128 \<Rightarrow> u256 list option" where
  "outstanding_at w cum = outstanding_loop (ucast cum) (wc_roles_bp w) (wc_credited_r w)"

definition carve_at :: "channel_client \<Rightarrow> u128 \<Rightarrow> u128 option" where
  "carve_at w cum = Option.bind (outstanding_at w cum) round_payment"

fun accrued_loop :: "u256 \<Rightarrow> (u8 \<times> u16) list \<Rightarrow> u256 list option" where
  "accrued_loop cum [] = Some []"
| "accrued_loop cum ((r, b) # rs) =
     Option.bind (checked_mul cum (ucast b)) (\<lambda>a. map_option (\<lambda>as'. a # as') (accrued_loop cum rs))"

definition cumulative_target_at :: "channel_client \<Rightarrow> u128 \<Rightarrow> u128 option" where
  "cumulative_target_at w cum = Option.bind (accrued_loop (ucast cum) (wc_roles_bp w)) round_payment"

definition in_flight_amount :: "channel_client \<Rightarrow> u128" where
  "in_flight_amount w = (case wc_pending w of
     None \<Rightarrow> 0
   | Some pv \<Rightarrow> if pv_defaulted pv then 0 else (case carve_at w (pv_cum_total pv) of None \<Rightarrow> 0 | Some c \<Rightarrow> c))"

definition owed_beyond_in_flight :: "channel_client \<Rightarrow> u128 \<Rightarrow> u128" where
  "owed_beyond_in_flight w cum = (case carve_at w cum of None \<Rightarrow> - 1 | Some c \<Rightarrow> sat_sub c (in_flight_amount w))"

definition postpay_outstanding :: "channel_client \<Rightarrow> u128" where
  "postpay_outstanding w = wc_cum_streamed w"

definition settleable_value_present :: "channel_client \<Rightarrow> bool" where
  "settleable_value_present w \<longleftrightarrow> carve_at w (wc_cum_streamed w) \<noteq> Some 0"

definition value_halt :: "channel_client \<Rightarrow> bool" where
  "value_halt w =
     (if 0 < wc_round_carve w then wc_round_carve w \<le> owed_beyond_in_flight w (wc_cum_streamed w)
      else (case wc_operative w of
          None \<Rightarrow> False
        | Some op \<Rightarrow> (case carve_at w (oc_cum_total op) of None \<Rightarrow> True | Some c \<Rightarrow> in_flight_amount w < c)))"

definition time_halt :: "u64 \<Rightarrow> channel_client \<Rightarrow> bool" where
  "time_halt now w \<longleftrightarrow>
     0 < wc_th_time w \<and> wc_th_time w \<le> sat_sub now (wc_last_settle w) \<and> settleable_value_present w"

definition refresh_halt :: "u64 \<Rightarrow> channel_client \<Rightarrow> channel_client" where
  "refresh_halt now w =
     (if \<not> wc_prepay w then w\<lparr>wc_halted := False\<rparr>
      else w\<lparr>wc_halted := (value_halt w \<or> time_halt now w)\<rparr>)"

section \<open>Opening\<close>

definition open_terms :: "channel_open_params \<Rightarrow> channel_terms" where
  "open_terms p = \<lparr>ct_denom = op_denom p, ct_limit_l = op_limit_l p, ct_limit_e = op_limit_e p,
     ct_th_value = op_th_value p, ct_th_time = op_th_time p, ct_prepay = op_prepay p\<rparr>"

definition open_auth :: "crypto_suite \<Rightarrow> payer_trust \<Rightarrow> payer_scope \<Rightarrow> channel_open_params \<Rightarrow> bytes \<Rightarrow> channel_auth" where
  "open_auth cs t scope p s =
     \<lparr>ca_payer_key = custody_payer_key cs (pt_root t) scope, ca_channel_id = op_channel_id p,
      ca_merchant_key = ab_merchant_key (pt_binding t), ca_denom = op_denom p,
      ca_mode = (if op_prepay p then MODE_PREPAY else MODE_POSTPAY), ca_limit_l = op_limit_l p, ca_limit_e = op_limit_e p,
      ca_th_value = op_th_value p, ca_th_time = op_th_time p, ca_refund_ptr = op_refund_ptr p,
      ca_baseline_net = op_baseline_net p, ca_rate_source = op_rate_source p, ca_rate_dev = op_rate_dev p,
      ca_schema = op_schema p, ca_vector = op_vector p, ca_registry_v = op_registry_v p, ca_hs = h_commit cs s,
      ca_predecessor = None, ca_timestamp = op_timestamp p, ca_baseline_asset = op_baseline_asset p,
      ca_contract = op_contract p, ca_fin_meed = op_fin_meed p, ca_fin_denom = op_fin_denom p, ca_sig = None\<rparr>"

text \<open>The inputs of the meed instance of a channel; the merchant derives the same.\<close>

definition auth_instance_inputs :: "channel_auth \<Rightarrow> address_inputs" where
  "auth_instance_inputs a =
     \<lparr>merchant_key = ca_merchant_key a, asset = ca_baseline_asset a, schema_id = ca_schema a,
      meed_vector = map (\<lambda>v. \<lparr>role = ve_role v, bp = ve_bp v, dest = ve_dest v\<rparr>) (ca_vector a),
      contract = ca_contract a, merchant_net = None\<rparr>"

definition auth_roles_bp :: "channel_auth \<Rightarrow> (u8 \<times> u16) list" where
  "auth_roles_bp a = map (\<lambda>v. (ve_role v, ve_bp v)) (ca_vector a)"

text \<open>One round's carve. The sum of the 16-bit basis points of a list does not reach 128 bits.\<close>

definition round_carve :: "u128 \<Rightarrow> (u8 \<times> u16) list \<Rightarrow> u128" where
  "round_carve th_value roles_bp =
     (if th_value = 0 then 0
      else
        let sum_bp = sum_list (map (\<lambda>(r, b). ucast b :: u128) roles_bp);
            q = (ucast th_value * ucast sum_bp :: u256) div ucast BP_DENOM in
        max (case (try_from q :: u128 option) of None \<Rightarrow> - 1 | Some c \<Rightarrow> c) 1)"

definition wallet_expectation :: "payer_trust \<Rightarrow> expected_dest" where
  "wallet_expectation t = (case pt_wallet_meed_dest t of Some d \<Rightarrow> Asserted d | None \<Rightarrow> Unasserted)"

definition new_client ::
  "crypto_suite \<Rightarrow> payer_trust \<Rightarrow> wallet_policy \<Rightarrow> payer_scope \<Rightarrow> channel_open_params \<Rightarrow> bytes \<Rightarrow> channel_auth \<Rightarrow> bytes \<Rightarrow> u64 \<Rightarrow>
   channel_client" where
  "new_client cs t policy scope p s a seed now =
     \<lparr>wc_root = pt_root t, wc_policy = policy, wc_channel_id = op_channel_id p,
      wc_merchant_key = ab_merchant_key (pt_binding t), wc_scope = scope,
      wc_k_session = k_session cs s
        (bind_salt cs (custody_payer_key cs (pt_root t) scope) (ab_merchant_key (pt_binding t))) (op_channel_id p),
      wc_next_seq = 1, wc_prepay = op_prepay p, wc_limit_l = op_limit_l p, wc_th_time = op_th_time p,
      wc_last_settle = now, wc_seed_instance = seed, wc_fin_meed = ca_fin_meed a, wc_roles_bp = auth_roles_bp a,
      wc_round_carve = round_carve (op_th_value p) (auth_roles_bp a), wc_cum_streamed = 0, wc_operative = None,
      wc_credited_r = replicate (length (auth_roles_bp a)) 0, wc_halted = False, wc_pending = None\<rparr>"

definition client_open_inner ::
  "crypto_suite \<Rightarrow> hpke_suite \<Rightarrow> (nat list \<Rightarrow> nat list) \<Rightarrow> (bytes \<Rightarrow> bytes option) \<Rightarrow> psl \<Rightarrow> bool \<Rightarrow> payer_trust \<Rightarrow> u64 \<Rightarrow>
   wallet_policy \<Rightarrow> channel_open_params \<Rightarrow> bytes \<Rightarrow> snapshot_store \<Rightarrow> client_error + channel_open \<times> channel_client" where
  "client_open_inner cs hs nfc uts46 ps demo t now policy p s registry =
     (case wp_approve_channel policy (open_terms p) of
        Deny why \<Rightarrow> Inl (PolicyDenied why)
      | Approve \<Rightarrow>
     and_then (map_err (\<lambda>_. Establish)
       (scope_resolve uts46 ps (ab_merchant_key (pt_binding t)) (ab_host (pt_binding t)))) (\<lambda>scope.
     let a = open_auth cs t scope p s in
     and_then (map_err (\<lambda>_. Establish) (auth_validate_vector_governed demo nfc registry a)) (\<lambda>_.
     and_then (map_err (\<lambda>_. Establish) (auth_validate_payer_side Unchecked (wallet_expectation t) a)) (\<lambda>_.
     and_then (map_err (\<lambda>_. Establish) (seed_instance cs nfc (auth_instance_inputs a))) (\<lambda>seed.
     and_then (map_err (\<lambda>_. Establish)
       (with_signing_key cs (pt_root t) scope (\<lambda>sk. auth_sign cs nfc sk a))) (\<lambda>signed.
     and_then (map_err (\<lambda>_. Establish) (open_build hs nfc signed (ab_enc_key (pt_binding t)) s)) (\<lambda>co.
     Inr (co, new_client cs t policy scope p s a seed now))))))))"

text \<open>The public entry draws the secret and identifiers until one is nonzero; \<open>draws\<close> are the identifiers drawn.\<close>

definition client_open ::
  "crypto_suite \<Rightarrow> hpke_suite \<Rightarrow> (nat list \<Rightarrow> nat list) \<Rightarrow> (bytes \<Rightarrow> bytes option) \<Rightarrow> psl \<Rightarrow> bool \<Rightarrow> bytes list \<Rightarrow> bytes \<Rightarrow>
   payer_trust \<Rightarrow> u64 \<Rightarrow> wallet_policy \<Rightarrow> channel_open_params \<Rightarrow> snapshot_store \<Rightarrow>
   (client_error + channel_open \<times> channel_client) option" where
  "client_open cs hs nfc uts46 ps demo draws s t now policy p registry =
     map_option (\<lambda>i. client_open_inner cs hs nfc uts46 ps demo t now policy (p\<lparr>op_channel_id := i\<rparr>) s registry)
       (List.find (\<lambda>i. i \<noteq> replicate 8 0) draws)"

section \<open>Slices\<close>

text \<open>\<open>next_seq + 1\<close> does not overflow: a sealed slice's number is at most \<open>SEQ_MAX\<close>.\<close>

definition mint :: "crypto_suite \<Rightarrow> u64 \<Rightarrow> channel_client \<Rightarrow> (client_error + slice) \<times> channel_client" where
  "mint cs amt w = (case slice_seal cs (wc_next_seq w) amt (wc_k_session w) of
     Inl _ \<Rightarrow> (Inl Establish, w)
   | Inr sl \<Rightarrow> (Inr sl, w\<lparr>wc_next_seq := wc_next_seq w + 1, wc_cum_streamed := sat_add (wc_cum_streamed w) (ucast amt)\<rparr>))"

definition next_slice :: "crypto_suite \<Rightarrow> u64 \<Rightarrow> u64 \<Rightarrow> channel_client \<Rightarrow> (client_error + slice) \<times> channel_client" where
  "next_slice cs now amt w0 =
     (let w = refresh_halt now w0 in
      if wc_halted w then (Inl HaltedOnOverdueMeed, w)
      else (case wp_approve_slice (wc_policy w) (wc_channel_id w) amt of
          Deny why \<Rightarrow> (Inl (PolicyDenied why), w)
        | Approve \<Rightarrow>
            if wc_prepay w \<and> 0 < wc_round_carve w \<and>
               wc_round_carve w < owed_beyond_in_flight w (sat_add (wc_cum_streamed w) (ucast amt))
            then (Inl HaltedOnOverdueMeed, w\<lparr>wc_halted := True\<rparr>)
            else if \<not> wc_prepay w \<and>
               (case checked_add (postpay_outstanding w) (ucast amt) of
                  Some projected \<Rightarrow> wc_limit_l w < projected | None \<Rightarrow> True)
            then (Inl WindowExceeded, w)
            else mint cs amt w))"

section \<open>Checkpoints\<close>

fun basis_loop :: "u256 \<Rightarrow> (u8 \<times> u16) list \<Rightarrow> (u8 \<times> nat) list \<Rightarrow> bool" where
  "basis_loop cum ((r, b) # rs) ((cr, cn) # cs) =
     (if cr \<noteq> r then False
      else (case checked_mul cum (ucast b) of
          None \<Rightarrow> False
        | Some want \<Rightarrow>
            if (try_from want :: u128 option) = None then False
            else if u256_from_biguint cn \<noteq> Inr want then False
            else basis_loop cum rs cs))"
| "basis_loop cum rs cs = True"

definition checkpoint_basis_ok :: "channel_client \<Rightarrow> checkpoint \<Rightarrow> u128 option" where
  "checkpoint_basis_ok w cp =
     (if ck_channel_id cp \<noteq> wc_channel_id w then None
      else if 2 ^ 128 \<le> ck_cum_total cp then None
      else
        let cum = word_of_nat (ck_cum_total cp) :: u128 in
        if wc_cum_streamed w < cum then None
        else if length (ck_accruals cp) \<noteq> length (wc_roles_bp w) then None
        else if basis_loop (ucast cum) (wc_roles_bp w) (ck_accruals cp) then Some cum else None)"

definition cosign_checkpoint :: "crypto_suite \<Rightarrow> channel_client \<Rightarrow> checkpoint \<Rightarrow> client_error + checkpoint" where
  "cosign_checkpoint cs w cp =
     (if checkpoint_basis_ok w cp = None then Inl (Checkpoint ''checkpoint fails the wallet's own carve basis'')
      else map_err (\<lambda>_. Checkpoint ''payer countersignature failed'')
        (with_signing_key cs (wc_root w) (wc_scope w) (\<lambda>sk. sign_payer cs sk cp)))"

definition request_checkpoint :: "crypto_suite \<Rightarrow> channel_client \<Rightarrow> checkpoint \<Rightarrow> client_error + checkpoint_request" where
  "request_checkpoint cs w cp =
     and_then (cosign_checkpoint cs w cp) (\<lambda>cp'.
     map_err (\<lambda>_. Checkpoint ''checkpoint-request signature failed'')
       (with_signing_key cs (wc_root w) (wc_scope w) (\<lambda>sk. request_sign cs sk (proposing cp'))))"

definition superseded_by :: "operative_ckpt option \<Rightarrow> u128 \<Rightarrow> bytes \<Rightarrow> bool" where
  "superseded_by old cum ckpt_ref = (case old of
     None \<Rightarrow> True
   | Some op \<Rightarrow> \<not> (cum < oc_cum_total op \<or> (cum = oc_cum_total op \<and> \<not> bytes_less (oc_ckpt_ref op) ckpt_ref)))"

definition record_operative :: "crypto_suite \<Rightarrow> u64 \<Rightarrow> checkpoint \<Rightarrow> channel_client \<Rightarrow> bool \<times> channel_client" where
  "record_operative cs now bilateral w =
     (if verify_bilateral cs (custody_payer_key cs (wc_root w) (wc_scope w)) (wc_merchant_key w) bilateral \<noteq> Inr ()
      then (False, w)
      else (case (checkpoint_basis_ok w bilateral, checkpoint_reference cs bilateral) of
          (Some cum, Inr ckpt_ref) \<Rightarrow>
            if \<not> superseded_by (wc_operative w) cum ckpt_ref then (False, w)
            else (True, refresh_halt now
              (w\<lparr>wc_operative := Some \<lparr>oc_ckpt_ref = ckpt_ref, oc_cum_total = cum\<rparr>\<rparr>))
        | _ \<Rightarrow> (False, w)))"

section \<open>Overdue rounds and their draws\<close>

definition on_overdue_meed :: "u64 \<Rightarrow> channel_client \<Rightarrow> halt_or_continue \<times> channel_client" where
  "on_overdue_meed now w = (wp_on_overdue_meed (wc_policy w) (wc_channel_id w), refresh_halt now w)"

text \<open>A second delivery while a round awaits its verification.\<close>

definition redeliver :: "crypto_suite \<Rightarrow> prepay_draw \<Rightarrow> u128 \<Rightarrow> pending_verify \<Rightarrow> channel_client \<Rightarrow> bool \<times> channel_client" where
  "redeliver cs receipt amount pv w =
     (if \<not> (pv_ckpt_ref pv = pd_ckpt_ref receipt \<and> pd_channel_id receipt = wc_channel_id w \<and>
            draw_verify_merchant cs (wc_merchant_key w) receipt = Inr () \<and> pv_amount pv = amount \<and>
            pv_claim_record pv = pd_claim_record receipt) then (False, w)
      else if \<not> pv_defaulted pv \<and> pv_tx_ref pv \<noteq> pd_tx_ref receipt then (False, w)
      else if pv_defaulted pv then (True, w\<lparr>wc_pending := Some (pv\<lparr>pv_tx_ref := pd_tx_ref receipt\<rparr>)\<rparr>)
      else (True, w))"

definition first_delivery :: "crypto_suite \<Rightarrow> u64 \<Rightarrow> prepay_draw \<Rightarrow> u128 \<Rightarrow> channel_client \<Rightarrow> bool \<times> channel_client" where
  "first_delivery cs now receipt amount w = (case wc_operative w of
     None \<Rightarrow> (False, w)
   | Some op \<Rightarrow>
       if pd_channel_id receipt \<noteq> wc_channel_id w \<or> pd_ckpt_ref receipt \<noteq> oc_ckpt_ref op \<or>
          draw_verify_merchant cs (wc_merchant_key w) receipt \<noteq> Inr () then (False, w)
       else (case (cumulative_target_at w (oc_cum_total op), carve_at w (oc_cum_total op)) of
           (Some expected, carve) \<Rightarrow>
             if amount \<noteq> expected then (False, w)
             else (case carve of
                 None \<Rightarrow> (False, w)
               | Some incremental \<Rightarrow>
                   if incremental = 0 then (False, w)
                   else
                     let claim = claim_record_id cs (wc_seed_instance w) (wc_channel_id w) (pd_ckpt_ref receipt) amount in
                     if pd_claim_record receipt \<noteq> claim then (False, w)
                     else (True, refresh_halt now (w\<lparr>wc_pending := Some
                       \<lparr>pv_ckpt_ref = pd_ckpt_ref receipt, pv_claim_record = claim, pv_amount = amount,
                        pv_cum_total = oc_cum_total op, pv_tx_ref = pd_tx_ref receipt, pv_defaulted = False\<rparr>\<rparr>)))
         | _ \<Rightarrow> (False, w)))"

definition resume_on_prepay_draw :: "crypto_suite \<Rightarrow> u64 \<Rightarrow> prepay_draw \<Rightarrow> channel_client \<Rightarrow> bool \<times> channel_client" where
  "resume_on_prepay_draw cs now receipt w =
     (if 2 ^ 128 \<le> pd_amount receipt then (False, w)
      else
        let amount = word_of_nat (pd_amount receipt) :: u128 in
        if amount = 0 then (False, w)
        else (case wc_pending w of
            Some pv \<Rightarrow> redeliver cs receipt amount pv w
          | None \<Rightarrow> first_delivery cs now receipt amount w))"

definition fold_credited :: "u128 \<Rightarrow> channel_client \<Rightarrow> channel_client option" where
  "fold_credited cum w =
     Option.bind (outstanding_at w cum) (\<lambda>ns.
     Option.bind (unit_round ns) (\<lambda>d.
     Some (w\<lparr>wc_credited_r := map2 (+) (wc_credited_r w) (rd_e_r d) @ drop (length (rd_e_r d)) (wc_credited_r w)\<rparr>)))"

definition distributed :: "rail_view \<Rightarrow> pending_verify \<Rightarrow> channel_client \<Rightarrow> bool" where
  "distributed rail pv w =
     (case Option.bind (rw_ref_target rail (pv_tx_ref pv)) ri_advanced of
        None \<Rightarrow> False
      | Some f \<Rightarrow> af_channel_id f = wc_channel_id w \<and> af_seed_instance f = wc_seed_instance w \<and> pv_amount pv \<le> af_funded_p f)"

definition try_credit :: "crypto_suite \<Rightarrow> rail_view \<Rightarrow> pending_verify \<Rightarrow> channel_client \<Rightarrow> channel_client option on_rail" where
  "try_credit cs rail pv w =
     (if pv_claim_record pv \<noteq> claim_record_id cs (wc_seed_instance w) (wc_channel_id w) (pv_ckpt_ref pv) (pv_amount pv)
      then Inr None
      else if \<not> distributed rail pv w then Inr None
      else and_then (finality_reached rail (pv_tx_ref pv) (wc_fin_meed w)) (\<lambda>reached.
        Inr (if \<not> reached then None else fold_credited (pv_cum_total pv) w)))"

text \<open>The clock is read twice: for the anchor, and in the halt.\<close>

definition verify_pending_draw :: "crypto_suite \<Rightarrow> rail_view \<Rightarrow> u64 \<Rightarrow> u64 \<Rightarrow> channel_client \<Rightarrow> (bool \<times> channel_client) on_rail" where
  "verify_pending_draw cs rail now later w = (case wc_pending w of
     None \<Rightarrow> Inr (False, w)
   | Some pv \<Rightarrow> and_then (try_credit cs rail pv w) (\<lambda>credit. Inr (case credit of
       Some w' \<Rightarrow> (True, refresh_halt later (w'\<lparr>wc_pending := None, wc_last_settle := now\<rparr>))
     | None \<Rightarrow> (False, refresh_halt later (w\<lparr>wc_pending := Some (pv\<lparr>pv_defaulted := True\<rparr>)\<rparr>)))))"

section \<open>Close and reclaim\<close>

definition client_close :: "crypto_suite \<Rightarrow> channel_client \<Rightarrow> bytes \<Rightarrow> bool \<Rightarrow> client_error + close_msg" where
  "client_close cs w ckpt_ref chain_intent =
     map_err (\<lambda>_. Establish) (with_signing_key cs (wc_root w) (wc_scope w) (\<lambda>sk. close_sign cs sk
       \<lparr>cl_channel_id = wc_channel_id w, cl_ckpt_ref = ckpt_ref, cl_chain_intent = chain_intent, cl_sig = None\<rparr>))"

text \<open>The two phases of a reclaim keep the rail's state when the rail refuses.\<close>

definition open_reclaim_if_unreceipted :: "bytes \<Rightarrow> bytes \<Rightarrow> inner \<Rightarrow> bool \<times> inner" where
  "open_reclaim_if_unreceipted addr eid s =
     (case Virtual_Rail.open_reclaim addr eid s of Inr s' \<Rightarrow> (True, s') | Inl _ \<Rightarrow> (False, s))"

definition execute_reclaim_if_due :: "bytes \<Rightarrow> bytes \<Rightarrow> inner \<Rightarrow> bool \<times> inner" where
  "execute_reclaim_if_due addr eid s =
     (case Virtual_Rail.execute_reclaim addr eid s of Inr s' \<Rightarrow> (True, s') | Inl _ \<Rightarrow> (False, s))"

end
