(* ===== verification/Wallet_Meter.thy ===== *)
theory Wallet_Meter
  imports Wallet_Channel
begin

text \<open>
  The wallet's metering on exact numbers: the carve at a position is the target of the position less what was
  credited. Everything rests on the exact reading of the division at the rate one to one.
\<close>

section \<open>The division at the rate one to one\<close>

lemma rate_one: "rate_new 1 1 = Inr rate_unity"
  by (simp add: rate_new_def rate_unity_def word_less_nat_alt)

lemma pay_ext_unity:
  "pay_exact ns (Suc 0) (Suc 0) = sum_list ns div 10000" "ext_exact ns (Suc 0) (Suc 0) = 10000 * (sum_list ns div 10000)"
  by (simp_all add: pay_exact_def ext_exact_def)

lemma pay_small: "numerators_ok ns \<Longrightarrow> sum_list ns div 10000 < 2 ^ 128"
  using sum_numerators_less [of ns] by (simp add: div_less_iff_less_mult less_trans)

lemma unity_reads: "unat (rate_p rate_unity) = 1" "unat (rate_q rate_unity) = 1"
  by (simp_all add: rate_unity_def)

lemma unit_round_None: "unit_round ns = None \<longleftrightarrow> \<not> numerators_ok (unats ns)"
proof -
  have "divide_exact (unats ns) 1 1 = (case divide_round ns rate_unity of Inl f \<Rightarrow> Inl f | Inr d \<Rightarrow> Inr (round_nats d))"
    using divide_round_refines [OF rate_unity_ok, of ns] by (simp add: unity_reads)
  then show ?thesis
    using pay_small [of "unats ns"]
    by (auto simp: unit_round_def rate_one divide_exact_def pay_ext_unity split: sum.splits if_splits)
qed

text \<open>In particular the division does not panic.\<close>

lemma unit_round_no_panic: "divide_round ns rate_unity \<noteq> Inl Panic"
  using divide_round_refines [OF rate_unity_ok, of ns] by (auto simp: divide_exact_def split: sum.splits if_splits)

lemma unit_round_exact:
  assumes "unit_round ns = Some d"
  shows "numerators_ok (unats ns) \<and> unat (rd_p d) = sum_list (unats ns) div 10000 \<and>
    sum_list (unats (rd_e_r d)) = 10000 * (sum_list (unats ns) div 10000) \<and> list_all2 (\<le>) (unats (rd_e_r d)) (unats ns)"
proof -
  have d: "divide_round ns rate_unity = Inr d" using assms by (auto simp: unit_round_def rate_one split: sum.splits)
  have ex: "divide_exact (unats ns) 1 1 = Inr (round_nats d)"
    using divide_round_refines [OF rate_unity_ok, of ns] d by (simp add: unity_reads)
  have s: "numerators_ok (unats ns)" "round_sound (unats ns) rate_unity d"
    using divide_round_sound [OF rate_unity_ok d] by simp_all
  then show ?thesis using ex by (auto simp: divide_exact_def pay_ext_unity round_nats_def round_sound_def split: if_splits)
qed

lemma round_payment_eq:
  "round_payment ns = (if numerators_ok (unats ns) then Some (word_of_nat (sum_list (unats ns) div 10000)) else None)"
proof (cases "unit_round ns")
  case None
  then have "\<not> numerators_ok (unats ns)" by (simp add: unit_round_None)
  then show ?thesis using None by (simp add: round_payment_def)
next
  case (Some d)
  note e = unit_round_exact [OF Some]
  then have "unat (rd_p d) < 2 ^ 128" using pay_small by simp
  then have "try_from (rd_p d) = Some (word_of_nat (sum_list (unats ns) div 10000) :: u128)"
    using e pay_small [of "unats ns"] by (simp add: try_from_Some unat_of_nat_small)
  then show ?thesis using Some e by (simp add: round_payment_def)
qed

section \<open>Accruals and what is outstanding\<close>

definition bps :: "channel_client \<Rightarrow> nat list" where
  "bps w = map (\<lambda>(r, b). unat b) (wc_roles_bp w)"

definition total_bp :: "channel_client \<Rightarrow> nat" where
  "total_bp w = sum_list (bps w)"

text \<open>The cumulative position a channel owes at a metered value, in whole units.\<close>

definition target :: "channel_client \<Rightarrow> nat \<Rightarrow> nat" where
  "target w cum = cum * total_bp w div 10000"

definition credited :: "channel_client \<Rightarrow> nat" where
  "credited w = sum_list (unats (wc_credited_r w)) div 10000"

lemma target_mono: "a \<le> b \<Longrightarrow> target w a \<le> target w b"
  by (simp add: target_def div_le_mono)

lemma accrued_word: "unat (cum :: u128) * unat (b :: u16) < 2 ^ 256"
proof -
  have "unat cum * unat b < 2 ^ 128 * 2 ^ 16"
    using unat_lt2p [of cum] unat_lt2p [of b] by (intro mult_strict_mono) simp_all
  then show ?thesis by simp
qed

lemma accrue_checked: "\<exists>a. checked_mul (ucast (cum :: u128) :: u256) (ucast (b :: u16)) = Some a \<and> unat a = unat cum * unat b"
proof -
  have "unat (ucast cum :: u256) = unat cum" "unat (ucast b :: u256) = unat b"
    using unat_lt2p [of cum] unat_lt2p [of b] by (simp_all add: unat_ucast_small)
  then show ?thesis using accrued_word [of cum b]
    by (intro exI [of _ "ucast cum * ucast b"]) (simp add: checked_mul_def unat_word_ariths)
qed

lemma outstanding_loop_iff:
  assumes "length rs = length cs"
  shows "outstanding_loop (ucast (cum :: u128)) rs cs = Some os \<longleftrightarrow>
     list_all2 (\<lambda>c (r, b). unat c \<le> unat cum * unat b) cs rs \<and>
     unats os = map2 (\<lambda>(r, b) c. unat cum * unat b - unat c) rs cs"
  using assms
proof (induction rs cs arbitrary: os rule: list_induct2)
  case (Cons x rs c cs)
  obtain r b where x: "x = (r, b)" by force
  obtain a where a: "checked_mul (ucast cum :: u256) (ucast b) = Some a" "unat a = unat cum * unat b"
    using accrue_checked by blast
  show ?case
  proof (cases "checked_sub a c")
    case None
    moreover have "unat cum * unat b < unat c" using None a(2) by (simp add: checked_sub_None)
    ultimately show ?thesis using a(1) by (simp add: x)
  next
    case (Some d)
    then have "unat c \<le> unat cum * unat b" "unat d = unat cum * unat b - unat c" using a(2) by (simp_all add: checked_sub_Some)
    then show ?thesis using Some a(1) Cons.IH by (cases os) (auto simp: x word_unat_eq_iff)
  qed
qed auto

lemma accrued_loop_exact:
  "\<exists>os. accrued_loop (ucast (cum :: u128)) rs = Some os \<and> unats os = map (\<lambda>(r, b). unat cum * unat b) rs"
proof (induction rs)
  case (Cons x rs)
  obtain r b where x: "x = (r, b)" by force
  show ?case using Cons accrue_checked [of cum b] x by fastforce
qed simp

lemma cumulative_target_eq:
  assumes "length (wc_roles_bp w) \<le> 64" "\<forall>b \<in> set (bps w). unat cum * b < 2 ^ 128"
  shows "cumulative_target_at w cum = Some (word_of_nat (target w (unat cum)))"
proof -
  obtain os where os: "accrued_loop (ucast cum) (wc_roles_bp w) = Some os"
      "unats os = map (\<lambda>(r, b). unat cum * unat b) (wc_roles_bp w)"
    using accrued_loop_exact by blast
  have e: "unats os = map ((*) (unat cum)) (bps w)" using os(2) by (simp add: bps_def split_def)
  then have "sum_list (unats os) = unat cum * total_bp w" by (simp add: total_bp_def sum_list_const_mult)
  moreover have "length (bps w) \<le> 64" using assms(1) by (simp add: bps_def)
  then have "numerators_ok (unats os)" using assms(2) unfolding numerators_ok_def by (auto simp: e)
  ultimately show ?thesis by (simp add: cumulative_target_at_def os(1) round_payment_eq target_def)
qed

text \<open>The metering is consistent at a position: every role was credited at most what it accrued there.\<close>

definition metered :: "channel_client \<Rightarrow> nat \<Rightarrow> bool" where
  "metered w cum \<longleftrightarrow> list_all2 (\<lambda>c b. unat c \<le> cum * b) (wc_credited_r w) (bps w)"

lemma metered_mono: "metered w a \<Longrightarrow> a \<le> b \<Longrightarrow> metered w b"
  unfolding metered_def by (erule list_all2_mono) (meson le_trans mult_le_mono1)

lemma metered_length: "metered w cum \<Longrightarrow> length (wc_credited_r w) = length (wc_roles_bp w)"
  unfolding metered_def bps_def by (drule list_all2_lengthD) simp

lemma outstanding_exact:
  assumes "length (wc_credited_r w) = length (wc_roles_bp w)"
  shows "outstanding_at w cum = Some os \<longleftrightarrow>
    metered w (unat cum) \<and> unats os = map2 (\<lambda>b c. unat cum * b - unat c) (bps w) (wc_credited_r w)"
  using assms
  by (simp add: outstanding_at_def outstanding_loop_iff metered_def bps_def list_all2_map2 split_def zip_map1 comp_def)

lemma outstanding_None:
  assumes "length (wc_credited_r w) = length (wc_roles_bp w)"
  shows "outstanding_at w cum = None \<longleftrightarrow> \<not> metered w (unat cum)"
proof -
  have "\<exists>os :: u256 list. unats os = map2 (\<lambda>b c. unat cum * b - unat c) (bps w) (wc_credited_r w)"
  proof -
    have "cum' * b - c < 2 ^ 256" if "(b, c') \<in> set (zip (bps w) (wc_credited_r w))" "cum' = unat cum" for cum' b c c'
    proof -
      have "b \<in> set (bps w)" using that(1) by (rule in_set_zipE)
      then obtain b' :: u16 where "b = unat b'" by (auto simp: bps_def)
      then show ?thesis using accrued_word [of cum b'] that(2) by simp
    qed
    then have "unats (map2 (\<lambda>b c. word_of_nat (unat cum * b - unat c) :: u256) (bps w) (wc_credited_r w)) =
        map2 (\<lambda>b c. unat cum * b - unat c) (bps w) (wc_credited_r w)"
      by (auto simp: unat_of_nat_small)
    then show ?thesis by blast
  qed
  then show ?thesis using outstanding_exact [OF assms, of cum] by (metis option.exhaust option.distinct(1))
qed

lemma sum_outstanding:
  "list_all2 (\<lambda>c b. unat c \<le> cum * b) cs bs \<Longrightarrow>
   sum_list (map2 (\<lambda>b c. cum * b - unat c) bs cs) + sum_list (unats cs) = cum * sum_list bs"
proof (induction cs bs rule: list_all2_induct)
  case (Cons c cs b bs)
  then show ?case by (simp add: algebra_simps)
qed simp

section \<open>The carve and the credit on exact numbers\<close>

text \<open>The position up to which rounds were credited: the roles hold, in sum, exactly its target.\<close>

definition credited_to :: "channel_client \<Rightarrow> nat \<Rightarrow> bool" where
  "credited_to w k \<longleftrightarrow> metered w k \<and> sum_list (unats (wc_credited_r w)) = 10000 * target w k"

lemma credited_to_credited: "credited_to w k \<Longrightarrow> credited w = target w k"
  by (simp add: credited_to_def credited_def)

text \<open>The values at which every accrual stays in the settlement domain.\<close>

definition in_domain :: "channel_client \<Rightarrow> nat \<Rightarrow> bool" where
  "in_domain w cum \<longleftrightarrow> length (wc_roles_bp w) \<le> 64 \<and> (\<forall>b \<in> set (bps w). cum * b < 2 ^ 128)"

lemma outstanding_in_domain:
  assumes "in_domain w cum" "metered w cum"
  shows "numerators_ok (map2 (\<lambda>b c. cum * b - unat c) (bps w) (wc_credited_r w))"
proof -
  have "\<forall>(b, c) \<in> set (zip (bps w) (wc_credited_r w)). cum * b - unat c < 2 ^ 128"
    using assms(1) by (auto simp: in_domain_def dest!: set_zip_leftD intro: le_less_trans [OF diff_le_self])
  then show ?thesis using assms(1) by (auto simp: numerators_ok_def in_domain_def bps_def split_def)
qed

lemma carve_exact:
  assumes "in_domain w (unat cum)" "length (wc_credited_r w) = length (wc_roles_bp w)"
  shows "carve_at w cum = (if metered w (unat cum)
    then Some (word_of_nat ((unat cum * total_bp w - sum_list (unats (wc_credited_r w))) div 10000)) else None)"
proof (cases "outstanding_at w cum")
  case None
  then have "\<not> metered w (unat cum)" using outstanding_None [OF assms(2)] by blast
  then show ?thesis using None by (simp add: carve_at_def)
next
  case (Some os)
  then have o: "metered w (unat cum)" "unats os = map2 (\<lambda>b c. unat cum * b - unat c) (bps w) (wc_credited_r w)"
    using outstanding_exact [OF assms(2)] by blast+
  have "sum_list (unats os) = unat cum * total_bp w - sum_list (unats (wc_credited_r w))"
    using sum_outstanding [of "unat cum" "wc_credited_r w" "bps w"] o by (simp add: metered_def total_bp_def)
  moreover have "numerators_ok (unats os)" using outstanding_in_domain [OF assms(1) o(1)] o(2) by simp
  ultimately show ?thesis using Some o(1) by (simp add: carve_at_def round_payment_eq)
qed

lemma target_in_domain: "in_domain w cum \<Longrightarrow> target w cum < 2 ^ 128"
proof -
  assume d: "in_domain w cum"
  have "numerators_ok (map ((*) cum) (bps w))" using d by (auto simp: numerators_ok_def in_domain_def bps_def split_def)
  then show ?thesis using pay_small [of "map ((*) cum) (bps w)"] by (simp add: target_def total_bp_def sum_list_const_mult)
qed

lemma div_sub_units: "(a - 10000 * k) div 10000 = a div 10000 - k" for a k :: nat
proof (cases "10000 * k \<le> a")
  case True
  then obtain m where "a = 10000 * k + m" by (auto simp: le_iff_add)
  then show ?thesis by simp
qed (simp add: not_le less_imp_le div_le_dividend div_less_iff_less_mult mult.commute)

lemma sum_list_map2_add: "length xs = length ys \<Longrightarrow> sum_list (map2 (+) xs ys) = sum_list xs + sum_list ys" for xs ys :: "nat list"
  by (induction xs ys rule: list_induct2) simp_all

lemma carve_credited:
  assumes "in_domain w (unat cum)" "credited_to w k" "k \<le> unat cum"
  shows "\<exists>c. carve_at w cum = Some c \<and> unat c = target w (unat cum) - target w k"
proof -
  have m: "metered w (unat cum)" using assms(2,3) metered_mono by (auto simp: credited_to_def)
  have e: "(unat cum * total_bp w - 10000 * target w k) div 10000 = target w (unat cum) - target w k"
    by (simp only: div_sub_units target_def)
  have "carve_at w cum = Some (word_of_nat (target w (unat cum) - target w k))"
    using carve_exact [OF assms(1) metered_length [OF m]] m assms(2) e by (simp add: credited_to_def)
  moreover have "target w (unat cum) - target w k < 2 ^ 128"
    using target_in_domain [OF assms(1)] by simp
  ultimately show ?thesis by (simp add: unat_of_nat_small)
qed

lemma fold_credited_exact:
  assumes "in_domain w (unat cum)" "credited_to w k" "k \<le> unat cum"
  shows "\<exists>cr. fold_credited cum w = Some (w\<lparr>wc_credited_r := cr\<rparr>) \<and> credited_to (w\<lparr>wc_credited_r := cr\<rparr>) (unat cum)"
proof -
  have m: "metered w (unat cum)" using assms(2,3) metered_mono by (auto simp: credited_to_def)
  note len = metered_length [OF m]
  obtain os where os: "outstanding_at w cum = Some os" using outstanding_None [OF len] m by blast
  then have o: "unats os = map2 (\<lambda>b c. unat cum * b - unat c) (bps w) (wc_credited_r w)"
    using outstanding_exact [OF len] by blast
  have nk: "numerators_ok (unats os)" using outstanding_in_domain [OF assms(1) m] o by simp
  then obtain d where d: "unit_round os = Some d" using unit_round_None by (metis option.exhaust)
  note e = unit_round_exact [OF d]
  have lb: "length (bps w) = length (wc_roles_bp w)" by (simp add: bps_def)
  have le: "length (rd_e_r d) = length (wc_credited_r w)"
    using list_all2_lengthD [of "(\<le>)" "unats (rd_e_r d)" "unats os"] e arg_cong [OF o, of length] len lb by simp
  let ?cr = "map2 (+) (wc_credited_r w) (rd_e_r d)"
  have each: "unat (wc_credited_r w ! i + rd_e_r d ! i) = unat (wc_credited_r w ! i) + unat (rd_e_r d ! i) \<and>
      unat (wc_credited_r w ! i) + unat (rd_e_r d ! i) \<le> unat cum * (bps w ! i)" if "i < length (wc_credited_r w)" for i
  proof -
    have mi: "unat (wc_credited_r w ! i) \<le> unat cum * (bps w ! i)"
      using m that by (simp add: metered_def list_all2_conv_all_nth)
    have "list_all2 (\<le>) (unats (rd_e_r d)) (unats os)" using e by blast
    then have "unats (rd_e_r d) ! i \<le> unats os ! i" using that le by (simp only: list_all2_conv_all_nth length_map)
    then have "unat (rd_e_r d ! i) \<le> unats os ! i" using that le by simp
    then have s: "unat (wc_credited_r w ! i) + unat (rd_e_r d ! i) \<le> unat cum * (bps w ! i)"
      using o that mi len lb by simp
    have "unat cum * (bps w ! i) < 2 ^ 256"
      using assms(1) that len lb by (auto simp: in_domain_def dest!: bspec [of _ _ "bps w ! i"])
    then show ?thesis using s by (simp add: unat_word_ariths)
  qed
  have nths: "unats ?cr = map2 (+) (unats (wc_credited_r w)) (unats (rd_e_r d))"
    using each le by (intro nth_equalityI) simp_all
  have "metered (w\<lparr>wc_credited_r := ?cr\<rparr>) (unat cum)"
    using each le len lb by (simp add: metered_def bps_def list_all2_conv_all_nth)
  moreover have "sum_list (unats ?cr) = sum_list (unats (wc_credited_r w)) + sum_list (unats (rd_e_r d))"
    unfolding nths using le by (simp add: sum_list_map2_add)
  moreover have "target w (unat cum) = sum_list (unats os) div 10000 + target w k"
  proof -
    have "unat cum * total_bp w = sum_list (unats os) + 10000 * target w k"
      using sum_outstanding [of "unat cum" "wc_credited_r w" "bps w"] m o assms(2)
      by (simp add: metered_def total_bp_def credited_to_def)
    then have "target w (unat cum) = (sum_list (unats os) + 10000 * target w k) div 10000" by (simp only: target_def)
    then show ?thesis by (simp only: div_mult_self2 zero_neq_numeral not_False_eq_True add.commute)
  qed
  ultimately have "credited_to (w\<lparr>wc_credited_r := ?cr\<rparr>) (unat cum)"
    using e assms(2) by (simp add: credited_to_def) (simp add: target_def total_bp_def bps_def)
  moreover have "fold_credited cum w = Some (w\<lparr>wc_credited_r := ?cr\<rparr>)" using os d le by (simp add: fold_credited_def)
  ultimately show ?thesis by blast
qed

end
