(* ===== verification/Wallet_Invariant.thy ===== *)
theory Wallet_Invariant
  imports Wallet_Meter Channel_History
begin

text \<open>
  Histories of a wallet's channel as an inductive relation, with the slices it minted, and the invariant they
  keep: what was streamed, what was credited, and what the round that awaits its verification stands for.
\<close>

section \<open>Histories\<close>

text \<open>The calls that change a client, with every clock reading and every rail they may be shown.\<close>

inductive wallet_step :: "crypto_suite \<Rightarrow> channel_client \<Rightarrow> slice list \<Rightarrow> channel_client \<Rightarrow> bool" for cs where
  minted: "next_slice cs now amt w = (Inr sl, w') \<Longrightarrow> wallet_step cs w [sl] w'"
| refused: "next_slice cs now amt w = (Inl e, w') \<Longrightarrow> wallet_step cs w [] w'"
| recorded: "record_operative cs now cp w = (b, w') \<Longrightarrow> wallet_step cs w [] w'"
| overdue: "on_overdue_meed now w = (d, w') \<Longrightarrow> wallet_step cs w [] w'"
| resumed: "resume_on_prepay_draw cs now receipt w = (b, w') \<Longrightarrow> wallet_step cs w [] w'"
| verified: "verify_pending_draw cs rail now later w = Inr (b, w') \<Longrightarrow> wallet_step cs w [] w'"

inductive wallet_run :: "crypto_suite \<Rightarrow> channel_client \<Rightarrow> slice list \<Rightarrow> channel_client \<Rightarrow> bool" for cs where
  wallet_nil: "wallet_run cs w [] w"
| wallet_snoc: "wallet_run cs w xs u \<Longrightarrow> wallet_step cs u ys v \<Longrightarrow> wallet_run cs w (xs @ ys) v"

section \<open>What the halt leaves alone\<close>

lemma refresh_halt_eq: "\<exists>h. refresh_halt now w = w\<lparr>wc_halted := h\<rparr>"
  by (auto simp: refresh_halt_def)

text \<open>The metering does not read the halt flag.\<close>

lemma halted_irrelevant [simp]:
  "total_bp (w\<lparr>wc_halted := h\<rparr>) = total_bp w" "target (w\<lparr>wc_halted := h\<rparr>) = target w" "bps (w\<lparr>wc_halted := h\<rparr>) = bps w"
  "credited_to (w\<lparr>wc_halted := h\<rparr>) = credited_to w" "carve_at (w\<lparr>wc_halted := h\<rparr>) = carve_at w"
  "in_flight_amount (w\<lparr>wc_halted := h\<rparr>) = in_flight_amount w"
  "owed_beyond_in_flight (w\<lparr>wc_halted := h\<rparr>) = owed_beyond_in_flight w"
  "credited (w\<lparr>wc_halted := h\<rparr>) = credited w"
  by (simp_all add: total_bp_def target_def bps_def credited_to_def metered_def carve_at_def outstanding_at_def fun_eq_iff
      in_flight_amount_def owed_beyond_in_flight_def credited_def split: option.splits)

lemma metering_irrelevant [simp]:
  "target (w\<lparr>wc_cum_streamed := x\<rparr>) = target w" "target (w\<lparr>wc_operative := y\<rparr>) = target w" "target (w\<lparr>wc_pending := z\<rparr>) = target w"
  "target (w\<lparr>wc_next_seq := n\<rparr>) = target w" "target (w\<lparr>wc_last_settle := t\<rparr>) = target w" "target (w\<lparr>wc_credited_r := cr\<rparr>) = target w"
  "credited_to (w\<lparr>wc_cum_streamed := x\<rparr>) = credited_to w" "credited_to (w\<lparr>wc_operative := y\<rparr>) = credited_to w"
  "credited_to (w\<lparr>wc_pending := z\<rparr>) = credited_to w" "credited_to (w\<lparr>wc_next_seq := n\<rparr>) = credited_to w"
  "credited_to (w\<lparr>wc_last_settle := t\<rparr>) = credited_to w"
  by (simp_all add: total_bp_def target_def bps_def credited_to_def metered_def fun_eq_iff)

section \<open>The invariant\<close>

text \<open>The roles are the schedule's, the numbers of the slices bound what was streamed, and the credited position,
  the operative checkpoint and the pending round lie within it.\<close>

definition pending_ok :: "crypto_suite \<Rightarrow> channel_client \<Rightarrow> nat \<Rightarrow> pending_verify \<Rightarrow> bool" where
  "pending_ok cs w k pv \<longleftrightarrow> k \<le> unat (pv_cum_total pv) \<and> pv_cum_total pv \<le> wc_cum_streamed w \<and>
     unat (pv_amount pv) = target w (unat (pv_cum_total pv)) \<and> target w k < unat (pv_amount pv) \<and>
     pv_claim_record pv = claim_record_id cs (wc_seed_instance w) (wc_channel_id w) (pv_ckpt_ref pv) (pv_amount pv)"

definition strip_ok :: "channel_client \<Rightarrow> nat \<Rightarrow> bool" where
  "strip_ok w k \<longleftrightarrow> (wc_prepay w \<and> 0 < wc_round_carve w \<longrightarrow>
     (case wc_pending w of
        None \<Rightarrow> target w (unat (wc_cum_streamed w)) \<le> target w k + unat (wc_round_carve w)
      | Some pv \<Rightarrow> target w (unat (pv_cum_total pv)) \<le> target w k + unat (wc_round_carve w) \<and>
          target w (unat (wc_cum_streamed w)) \<le> target w (unat (pv_cum_total pv)) + unat (wc_round_carve w)))"

definition postpay_ok :: "channel_client \<Rightarrow> bool" where
  "postpay_ok w \<longleftrightarrow> (\<not> wc_prepay w \<longrightarrow> wc_cum_streamed w \<le> wc_limit_l w)"

definition wallet_inv :: "crypto_suite \<Rightarrow> channel_client \<Rightarrow> nat \<Rightarrow> bool" where
  "wallet_inv cs w k \<longleftrightarrow>
     wc_roles_bp w = SCHEMA_01_ROLES \<and> wc_round_carve w < 2 ^ 127 \<and>
     1 \<le> unat (wc_next_seq w) \<and> unat (wc_next_seq w) \<le> 2 ^ 63 + 1 \<and>
     unat (wc_cum_streamed w) \<le> (unat (wc_next_seq w) - 1) * 2 ^ 48 \<and>
     credited_to w k \<and> k \<le> unat (wc_cum_streamed w) \<and>
     (\<forall>op. wc_operative w = Some op \<longrightarrow> oc_cum_total op \<le> wc_cum_streamed w) \<and>
     (\<forall>pv. wc_pending w = Some pv \<longrightarrow> pending_ok cs w k pv) \<and>
     strip_ok w k \<and> postpay_ok w"

text \<open>What each part of the invariant does not read.\<close>

lemma parts_irrelevant [simp]:
  "pending_ok cs (w\<lparr>wc_operative := y\<rparr>) = pending_ok cs w" "pending_ok cs (w\<lparr>wc_pending := z\<rparr>) = pending_ok cs w"
  "pending_ok cs (w\<lparr>wc_halted := h\<rparr>) = pending_ok cs w" "pending_ok cs (w\<lparr>wc_last_settle := t\<rparr>) = pending_ok cs w"
  "strip_ok (w\<lparr>wc_operative := y\<rparr>) = strip_ok w" "strip_ok (w\<lparr>wc_halted := h\<rparr>) = strip_ok w"
  "strip_ok (w\<lparr>wc_last_settle := t\<rparr>) = strip_ok w"
  "postpay_ok (w\<lparr>wc_operative := y\<rparr>) = postpay_ok w" "postpay_ok (w\<lparr>wc_halted := h\<rparr>) = postpay_ok w"
  "postpay_ok (w\<lparr>wc_pending := z\<rparr>) = postpay_ok w" "postpay_ok (w\<lparr>wc_last_settle := t\<rparr>) = postpay_ok w"
  by (simp_all add: pending_ok_def strip_ok_def postpay_ok_def fun_eq_iff cong: option.case_cong)

lemma pending_flags [simp]:
  "pending_ok cs w k (pv\<lparr>pv_tx_ref := r\<rparr>) = pending_ok cs w k pv" "pending_ok cs w k (pv\<lparr>pv_defaulted := b\<rparr>) = pending_ok cs w k pv"
  by (simp_all add: pending_ok_def)

lemma strip_flags:
  "wc_pending w = Some pv \<Longrightarrow> pv_cum_total pv' = pv_cum_total pv \<Longrightarrow> strip_ok (w\<lparr>wc_pending := Some pv'\<rparr>) k = strip_ok w k"
  by (simp add: strip_ok_def)

lemma schedule_bps: "wc_roles_bp w = SCHEMA_01_ROLES \<Longrightarrow> bps w = [50, 10, 30, 10] \<and> total_bp w = 100"
  by (simp add: bps_def total_bp_def SCHEMA_01_ROLES_def)

lemma schedule_domain: "wc_roles_bp w = SCHEMA_01_ROLES \<Longrightarrow> cum < 2 ^ 120 \<Longrightarrow> in_domain w cum"
  by (simp add: in_domain_def schedule_bps) (simp add: SCHEMA_01_ROLES_def)

lemma inv_streamed:
  assumes "wallet_inv cs w k"
  shows "unat (wc_cum_streamed w) \<le> 2 ^ 111"
proof -
  have "(unat (wc_next_seq w) - 1) * 2 ^ 48 \<le> 2 ^ 63 * 2 ^ 48"
    using assms by (intro mult_le_mono1) (auto simp: wallet_inv_def)
  then show ?thesis using assms by (simp add: wallet_inv_def)
qed

lemma inv_domain: "wallet_inv cs w k \<Longrightarrow> cum \<le> unat (wc_cum_streamed w) + 2 ^ 48 \<Longrightarrow> in_domain w cum"
  using inv_streamed [of cs w k] by (intro schedule_domain) (simp_all add: wallet_inv_def)

lemma inv_carve:
  assumes "wallet_inv cs w k" "unat cum \<le> unat (wc_cum_streamed w) + 2 ^ 48" "k \<le> unat cum"
  shows "\<exists>c. carve_at w cum = Some c \<and> unat c = target w (unat cum) - target w k"
  by (rule carve_credited [OF inv_domain [OF assms(1,2)] _ assms(3)]) (use assms(1) in \<open>simp add: wallet_inv_def\<close>)

lemma inv_halted [simp]: "wallet_inv cs (w\<lparr>wc_halted := h\<rparr>) k = wallet_inv cs w k"
  by (simp add: wallet_inv_def)

lemma inv_refresh [simp]: "wallet_inv cs (refresh_halt now w) k = wallet_inv cs w k"
  using refresh_halt_eq [of now w] by auto

section \<open>Every call keeps it\<close>

lemma mint_cases:
  assumes "mint cs amt w = (r, w')"
  shows "(r = Inl Establish \<and> w' = w) \<or>
    (\<exists>sl. r = Inr sl \<and> seq sl = wc_next_seq w \<and> amt_micro sl = amt \<and> unat (wc_next_seq w) \<le> 2 ^ 63 \<and> unat amt < 2 ^ 48 \<and>
       w' = w\<lparr>wc_next_seq := wc_next_seq w + 1, wc_cum_streamed := sat_add (wc_cum_streamed w) (ucast amt)\<rparr>)"
  using assms
  by (auto simp: mint_def slice_seal_def Let_def SEQ_MAX_def word_le_nat_alt not_less not_le push_bit_eq_mult word_less_nat_alt
      split: sum.splits if_splits)

text \<open>A slice that was minted passed the guards.\<close>

lemma next_slice_cases:
  assumes "next_slice cs now amt w = (r, w')"
  obtains (refused) h e where "r = Inl e" "w' = w\<lparr>wc_halted := h\<rparr>"
  | (minted) h sl where "r = Inr sl" "mint cs amt (w\<lparr>wc_halted := h\<rparr>) = (Inr sl, w')"
      "wc_prepay w \<Longrightarrow> 0 < wc_round_carve w \<Longrightarrow>
        owed_beyond_in_flight w (sat_add (wc_cum_streamed w) (ucast amt)) \<le> wc_round_carve w"
      "\<not> wc_prepay w \<Longrightarrow> \<exists>p. checked_add (wc_cum_streamed w) (ucast amt) = Some p \<and> p \<le> wc_limit_l w"
proof -
  obtain h where h: "refresh_halt now w = w\<lparr>wc_halted := h\<rparr>" using refresh_halt_eq by blast
  let ?w = "w\<lparr>wc_halted := h\<rparr>"
  show ?thesis
  proof (cases r)
    case (Inl e)
    have "\<exists>h'. w' = w\<lparr>wc_halted := h'\<rparr>"
      using assms Inl mint_cases [of cs amt ?w r w']
      by (auto simp: next_slice_def Let_def h split: if_splits decision.splits)
    then show ?thesis using Inl refused by blast
  next
    case (Inr sl)
    show ?thesis
      by (rule minted [OF Inr])
        (use assms Inr in \<open>auto simp: next_slice_def Let_def h postpay_outstanding_def not_less split: if_splits decision.splits option.splits\<close>)
  qed
qed

lemma next_slice_inv:
  assumes inv: "wallet_inv cs w k" and n: "next_slice cs now amt w = (Inr sl, w')"
  shows "wallet_inv cs w' k \<and> unat (wc_cum_streamed w') = unat (wc_cum_streamed w) + unat (amt_micro sl) \<and>
    seq sl = wc_next_seq w \<and> unat (wc_next_seq w') = Suc (unat (wc_next_seq w))"
  using n
proof (cases rule: next_slice_cases)
  case (minted h sl')
  then have sl: "seq sl = wc_next_seq w" "amt_micro sl = amt" "unat (wc_next_seq w) \<le> 2 ^ 63" "unat amt < 2 ^ 48"
      "w' = w\<lparr>wc_halted := h, wc_next_seq := wc_next_seq w + 1, wc_cum_streamed := sat_add (wc_cum_streamed w) (ucast amt)\<rparr>"
    using mint_cases [of cs amt "w\<lparr>wc_halted := h\<rparr>" "Inr sl" w'] by auto
  let ?cum = "sat_add (wc_cum_streamed w) (ucast amt) :: u128"
  note st = inv_streamed [OF inv]
  have ucast: "unat (ucast amt :: u128) = unat amt" using unat_lt2p [of amt] by (simp add: unat_ucast_small)
  then have cum: "unat ?cum = unat (wc_cum_streamed w) + unat amt" using st sl(4) by (simp add: unat_sat_add)
  have seq: "unat (wc_next_seq w + 1) = Suc (unat (wc_next_seq w))" using sl(3) by (simp add: unat_word_ariths)
  have kcum: "k \<le> unat ?cum" using inv cum by (simp add: wallet_inv_def)
  obtain c where c: "carve_at w ?cum = Some c" "unat c = target w (unat ?cum) - target w k"
    using inv_carve [OF inv _ kcum] cum sl(4) by auto
  have strip: "strip_ok w' k"
    unfolding strip_ok_def
  proof (intro impI)
    assume "wc_prepay w' \<and> 0 < wc_round_carve w'"
    then have p: "wc_prepay w" "0 < wc_round_carve w" by (simp_all add: sl(5))
    have "unat c - unat (in_flight_amount w) \<le> unat (wc_round_carve w)"
      using minted(3) [OF p] by (simp add: owed_beyond_in_flight_def c(1) word_le_nat_alt unat_sat_sub)
    then have g: "target w (unat ?cum) \<le> target w k + unat (in_flight_amount w) + unat (wc_round_carve w)"
      using c(2) by linarith
    show "case wc_pending w' of None \<Rightarrow> target w' (unat (wc_cum_streamed w')) \<le> target w' k + unat (wc_round_carve w')
      | Some pv \<Rightarrow> target w' (unat (pv_cum_total pv)) \<le> target w' k + unat (wc_round_carve w') \<and>
          target w' (unat (wc_cum_streamed w')) \<le> target w' (unat (pv_cum_total pv)) + unat (wc_round_carve w')"
    proof (cases "wc_pending w")
      case None
      then show ?thesis using g by (simp add: sl(5) in_flight_amount_def)
    next
      case (Some pv)
      have pv: "k \<le> unat (pv_cum_total pv)" "pv_cum_total pv \<le> wc_cum_streamed w"
        using inv Some by (simp_all add: wallet_inv_def pending_ok_def)
      obtain d where d: "carve_at w (pv_cum_total pv) = Some d" "unat d = target w (unat (pv_cum_total pv)) - target w k"
        using inv_carve [OF inv _ pv(1)] pv(2) by (auto simp: word_le_nat_alt)
      have "target w k \<le> target w (unat (pv_cum_total pv))" by (rule target_mono [OF pv(1)])
      then have "target w k + unat (in_flight_amount w) \<le> target w (unat (pv_cum_total pv))"
        using d by (simp add: in_flight_amount_def Some)
      moreover have "target w (unat (pv_cum_total pv)) \<le> target w k + unat (wc_round_carve w)"
        using inv p Some by (simp add: wallet_inv_def strip_ok_def)
      ultimately show ?thesis using g by (simp add: sl(5) Some)
    qed
  qed
  have "postpay_ok w'"
  proof (cases "wc_prepay w")
    case False
    then obtain q where q: "checked_add (wc_cum_streamed w) (ucast amt) = Some q" "q \<le> wc_limit_l w" using minted(4) by blast
    then have "unat q = unat ?cum" using cum ucast by (simp add: checked_add_Some)
    then show ?thesis using q(2) False by (simp add: postpay_ok_def sl(5) word_le_nat_alt)
  qed (simp add: postpay_ok_def sl(5))
  moreover have "unat ?cum \<le> unat (wc_next_seq w) * 2 ^ 48"
  proof -
    have "1 \<le> unat (wc_next_seq w)" "unat (wc_cum_streamed w) \<le> (unat (wc_next_seq w) - 1) * 2 ^ 48"
      using inv by (simp_all add: wallet_inv_def)
    then have "unat ?cum \<le> (unat (wc_next_seq w) - 1) * 2 ^ 48 + 2 ^ 48" using cum sl(4) by linarith
    then show ?thesis using \<open>1 \<le> _\<close> by (cases "unat (wc_next_seq w)") simp_all
  qed
  moreover have "pending_ok cs w' k pv" if "wc_pending w' = Some pv" for pv
    using inv that cum by (auto simp: wallet_inv_def pending_ok_def sl(5) word_le_nat_alt)
  moreover have "oc_cum_total op \<le> wc_cum_streamed w'" if "wc_operative w' = Some op" for op
  proof -
    have "oc_cum_total op \<le> wc_cum_streamed w" using inv that by (simp add: wallet_inv_def sl(5))
    then show ?thesis using cum by (simp add: sl(5) word_le_nat_alt)
  qed
  ultimately have "wallet_inv cs w' k"
    unfolding wallet_inv_def using strip inv kcum seq sl(3)
    by (simp add: sl(5)) (simp add: wallet_inv_def)
  then show ?thesis using cum seq sl by simp
qed simp

lemma next_slice_refused_inv: "wallet_inv cs w k \<Longrightarrow> next_slice cs now amt w = (Inl e, w') \<Longrightarrow> wallet_inv cs w' k"
  by (erule next_slice_cases) auto

lemma basis_cum: "checkpoint_basis_ok w cp = Some cum \<Longrightarrow> cum \<le> wc_cum_streamed w"
  by (auto simp: checkpoint_basis_ok_def Let_def not_less split: if_splits)

lemma operative_inv:
  "wallet_inv cs w k \<Longrightarrow> cum \<le> wc_cum_streamed w \<Longrightarrow>
   wallet_inv cs (w\<lparr>wc_operative := Some \<lparr>oc_ckpt_ref = r, oc_cum_total = cum\<rparr>\<rparr>) k"
  by (simp add: wallet_inv_def)

lemma record_operative_inv: "wallet_inv cs w k \<Longrightarrow> record_operative cs now cp w = (b, w') \<Longrightarrow> wallet_inv cs w' k"
  by (auto simp: record_operative_def operative_inv basis_cum split: if_splits option.splits sum.splits)

lemma carve_positive:
  assumes "in_domain w (unat cum)" "credited_to w k" "carve_at w cum = Some c" "c \<noteq> 0"
  shows "k \<le> unat cum"
proof -
  have len: "length (wc_credited_r w) = length (wc_roles_bp w)"
    using assms(2) metered_length [of w k] by (simp add: credited_to_def)
  have c: "c = word_of_nat ((unat cum * total_bp w - 10000 * target w k) div 10000)"
    using carve_exact [OF assms(1) len] assms(2,3) by (auto simp: credited_to_def split: if_splits)
  have "(unat cum * total_bp w - 10000 * target w k) div 10000 \<noteq> 0"
  proof
    assume z: "(unat cum * total_bp w - 10000 * target w k) div 10000 = 0"
    have "c = 0" using c unfolding z by simp
    then show False using assms(4) by simp
  qed
  then have "target w k < target w (unat cum)" by (simp only: div_sub_units target_def)
  then show ?thesis using target_mono [of "unat cum" k w] by (meson leI less_le_trans nat_le_linear not_less)
qed

lemma first_delivery_inv:
  assumes inv: "wallet_inv cs w k" and none: "wc_pending w = None" and f: "first_delivery cs now receipt amount w = (b, w')"
  shows "wallet_inv cs w' k"
proof (cases b)
  case False
  then show ?thesis using f inv by (auto simp: first_delivery_def Let_def split: option.splits if_splits)
next
  case True
  then obtain op c where d: "wc_operative w = Some op" "cumulative_target_at w (oc_cum_total op) = Some amount"
      "carve_at w (oc_cum_total op) = Some c" "c \<noteq> 0"
      "w' = refresh_halt now (w\<lparr>wc_pending := Some \<lparr>pv_ckpt_ref = pd_ckpt_ref receipt,
         pv_claim_record = claim_record_id cs (wc_seed_instance w) (wc_channel_id w) (pd_ckpt_ref receipt) amount,
         pv_amount = amount, pv_cum_total = oc_cum_total op, pv_tx_ref = pd_tx_ref receipt, pv_defaulted = False\<rparr>\<rparr>)"
    using f by (auto simp: first_delivery_def Let_def split: option.splits if_splits)
  let ?cum = "oc_cum_total op"
  have le: "?cum \<le> wc_cum_streamed w" using inv d(1) by (simp add: wallet_inv_def)
  have dom: "in_domain w (unat ?cum)" using inv_domain [OF inv] le by (simp add: word_le_nat_alt)
  have k: "credited_to w k" using inv by (simp add: wallet_inv_def)
  have kle: "k \<le> unat ?cum" by (rule carve_positive [OF dom k d(3,4)])
  have "unat c = target w (unat ?cum) - target w k" using carve_credited [OF dom k kle] d(3) by auto
  then have pos: "target w k < target w (unat ?cum)" using d(4) by (metis diff_is_0_eq' leI unat_eq_0)
  have "length (wc_roles_bp w) \<le> 64 \<and> (\<forall>b \<in> set (bps w). unat ?cum * b < 2 ^ 128)" using dom by (simp add: in_domain_def)
  then have "amount = word_of_nat (target w (unat ?cum))" using cumulative_target_eq d(2) by auto
  then have am: "unat amount = target w (unat ?cum)" using target_in_domain [OF dom] by (simp add: unat_of_nat_small)
  have ts: "target w (unat ?cum) \<le> target w (unat (wc_cum_streamed w))"
    using le by (intro target_mono) (simp add: word_le_nat_alt)
  have "strip_ok (w\<lparr>wc_pending := Some pv\<rparr>) k" if "pv_cum_total pv = ?cum" for pv
    using inv none that pos ts by (auto simp: wallet_inv_def strip_ok_def)
  then have "wallet_inv cs (w\<lparr>wc_pending := Some \<lparr>pv_ckpt_ref = pd_ckpt_ref receipt,
         pv_claim_record = claim_record_id cs (wc_seed_instance w) (wc_channel_id w) (pd_ckpt_ref receipt) amount,
         pv_amount = amount, pv_cum_total = ?cum, pv_tx_ref = pd_tx_ref receipt, pv_defaulted = False\<rparr>\<rparr>) k"
    using inv am pos kle le by (simp add: wallet_inv_def) (simp add: pending_ok_def)
  then show ?thesis by (simp only: d(5) inv_refresh)
qed

text \<open>The flags and the reference of a pending round are free; its checkpoint and amount are not.\<close>

lemma pending_inv:
  assumes "wallet_inv cs w k" "wc_pending w = Some pv" "pv_cum_total pv' = pv_cum_total pv" "pending_ok cs w k pv'"
  shows "wallet_inv cs (w\<lparr>wc_pending := Some pv'\<rparr>) k"
  using assms by (simp add: wallet_inv_def strip_flags)

lemma redeliver_inv:
  assumes "wallet_inv cs w k" "wc_pending w = Some pv" "redeliver cs receipt amount pv w = (b, w')"
  shows "wallet_inv cs w' k"
proof -
  have "pending_ok cs w k pv" using assms(1,2) by (simp add: wallet_inv_def)
  then show ?thesis using assms pending_inv [OF assms(1,2)] by (auto simp: redeliver_def split: if_splits)
qed

lemma resume_inv:
  assumes "wallet_inv cs w k" "resume_on_prepay_draw cs now receipt w = (b, w')"
  shows "wallet_inv cs w' k"
proof (cases "wc_pending w")
  case None
  then show ?thesis using assms first_delivery_inv [OF assms(1) None]
    by (simp add: resume_on_prepay_draw_def Let_def split: if_splits; blast)
next
  case (Some pv)
  then show ?thesis using assms redeliver_inv [OF assms(1) Some]
    by (simp add: resume_on_prepay_draw_def Let_def split: if_splits; blast)
qed

lemma try_credit_None:
  "wallet_inv cs w k \<Longrightarrow> wc_pending w = Some pv \<Longrightarrow> wallet_inv cs (w\<lparr>wc_pending := Some (pv\<lparr>pv_defaulted := True\<rparr>)\<rparr>) k"
  by (rule pending_inv) (simp_all add: wallet_inv_def)

text \<open>A credit folds the round that was pending, whose checkpoint becomes the credited position.\<close>

lemma try_credit_Some:
  assumes inv: "wallet_inv cs w k" and p: "wc_pending w = Some pv" and c: "try_credit cs rail pv w = Inr (Some w')"
  shows "\<exists>cr. w' = w\<lparr>wc_credited_r := cr\<rparr> \<and> wallet_inv cs (w'\<lparr>wc_pending := None, wc_last_settle := now\<rparr>) (unat (pv_cum_total pv))"
proof -
  let ?cum = "pv_cum_total pv"
  have pv: "k \<le> unat ?cum" "?cum \<le> wc_cum_streamed w" using inv p by (simp_all add: wallet_inv_def pending_ok_def)
  have dom: "in_domain w (unat ?cum)" using inv_domain [OF inv] pv(2) by (simp add: word_le_nat_alt)
  have k: "credited_to w k" using inv by (simp add: wallet_inv_def)
  have "fold_credited ?cum w = Some w'" using c by (simp add: try_credit_def split: if_splits)
  then obtain cr where cr: "w' = w\<lparr>wc_credited_r := cr\<rparr>" "credited_to (w\<lparr>wc_credited_r := cr\<rparr>) (unat ?cum)"
    using fold_credited_exact [OF dom k pv(1)] by auto
  have "wallet_inv cs (w'\<lparr>wc_pending := None, wc_last_settle := now\<rparr>) (unat ?cum)"
    unfolding wallet_inv_def using inv p cr pv
    by (simp add: cr(1) strip_ok_def) (auto simp: wallet_inv_def strip_ok_def postpay_ok_def word_le_nat_alt)
  then show ?thesis using cr(1) by blast
qed

lemma verify_inv:
  assumes "wallet_inv cs w k" "verify_pending_draw cs rail now later w = Inr (b, w')"
  shows "\<exists>k' \<ge> k. wallet_inv cs w' k'"
proof (cases "wc_pending w")
  case (Some pv)
  have "k \<le> unat (pv_cum_total pv)" using assms(1) Some by (simp add: wallet_inv_def pending_ok_def)
  then show ?thesis
    using assms Some try_credit_None [OF assms(1) Some] try_credit_Some [OF assms(1) Some, of rail _ now]
    by (auto simp: verify_pending_draw_def split: option.splits) blast
qed (use assms in \<open>auto simp: verify_pending_draw_def\<close>)

end
