(* ===== verification/Wallet_Run.thy ===== *)
theory Wallet_Run
  imports Wallet_Invariant
begin

text \<open>
  What holds over a whole history of a wallet's channel, from its opening: the terms stay, the numbers of the
  slices are consecutive, the invariant is kept with a credited position that only grows.
\<close>

section \<open>One call\<close>

text \<open>What a call never changes: everything but the metering, the operative checkpoint, the pending round and the halt.\<close>

definition config :: "channel_client \<Rightarrow> channel_client" where
  "config w = w\<lparr>wc_next_seq := 0, wc_last_settle := 0, wc_cum_streamed := 0, wc_operative := None, wc_credited_r := [],
     wc_halted := False, wc_pending := None\<rparr>"

definition position :: "channel_client \<Rightarrow> u128 \<times> u64" where
  "position w = (wc_cum_streamed w, wc_next_seq w)"

lemma config_updates [simp]:
  "config (w\<lparr>wc_halted := h\<rparr>) = config w" "config (w\<lparr>wc_pending := z\<rparr>) = config w" "config (w\<lparr>wc_operative := y\<rparr>) = config w"
  "config (w\<lparr>wc_last_settle := t\<rparr>) = config w" "config (w\<lparr>wc_credited_r := cr\<rparr>) = config w"
  "config (w\<lparr>wc_next_seq := n\<rparr>) = config w" "config (w\<lparr>wc_cum_streamed := c\<rparr>) = config w"
  "position (w\<lparr>wc_halted := h\<rparr>) = position w" "position (w\<lparr>wc_pending := z\<rparr>) = position w"
  "position (w\<lparr>wc_operative := y\<rparr>) = position w" "position (w\<lparr>wc_last_settle := t\<rparr>) = position w"
  "position (w\<lparr>wc_credited_r := cr\<rparr>) = position w"
  by (simp_all add: config_def position_def)

lemma refresh_keeps [simp]: "config (refresh_halt now w) = config w" "position (refresh_halt now w) = position w"
  using refresh_halt_eq [of now w] by auto

lemma record_keeps: "record_operative cs now cp w = (b, w') \<Longrightarrow> config w' = config w \<and> position w' = position w"
  by (auto simp: record_operative_def split: if_splits option.splits sum.splits)

lemma resume_keeps: "resume_on_prepay_draw cs now receipt w = (b, w') \<Longrightarrow> config w' = config w \<and> position w' = position w"
  by (simp add: resume_on_prepay_draw_def redeliver_def first_delivery_def Let_def split: if_splits option.splits)
    (auto)

lemma credit_keeps: "try_credit cs rail pv w = Inr (Some w') \<Longrightarrow> config w' = config w \<and> position w' = position w"
  by (auto simp: try_credit_def fold_credited_def bind_eq_Some_conv split: if_splits)

lemma verify_keeps: "verify_pending_draw cs rail now later w = Inr (b, w') \<Longrightarrow> config w' = config w \<and> position w' = position w"
  by (auto simp: verify_pending_draw_def credit_keeps split: option.splits)

lemma refused_keeps: "next_slice cs now amt w = (Inl e, w') \<Longrightarrow> config w' = config w \<and> position w' = position w"
  by (erule next_slice_cases) auto

lemma minted_keeps: "next_slice cs now amt w = (Inr sl, w') \<Longrightarrow> config w' = config w"
  by (erule next_slice_cases) (auto dest: mint_cases)

lemma wallet_step_config: "wallet_step cs w xs w' \<Longrightarrow> config w' = config w"
  by (erule wallet_step.cases)
    (auto simp: on_overdue_meed_def dest: minted_keeps refused_keeps record_keeps resume_keeps verify_keeps)

lemma wallet_step_inv:
  assumes "wallet_step cs w xs w'" "wallet_inv cs w k"
  shows "\<exists>k' \<ge> k. wallet_inv cs w' k' \<and> unat (wc_cum_streamed w') = unat (wc_cum_streamed w) + total_amount xs \<and>
    unat (wc_next_seq w) \<le> unat (wc_next_seq w') \<and>
    map (\<lambda>s. unat (seq s)) xs = [unat (wc_next_seq w) ..< unat (wc_next_seq w')]"
proof -
  have keeps: ?thesis if "xs = []" "position w' = position w" "\<exists>k' \<ge> k. wallet_inv cs w' k'"
    using that by (auto simp: position_def)
  show ?thesis
    using assms(1)
  proof cases
    case (minted now amt sl)
    then show ?thesis using next_slice_inv [OF assms(2) minted(2)] by (intro exI [of _ k]) simp
  next
    case (refused now amt e)
    then show ?thesis using keeps next_slice_refused_inv [OF assms(2)] refused_keeps by blast
  next
    case (recorded now cp b)
    then show ?thesis using keeps record_operative_inv [OF assms(2)] record_keeps by blast
  next
    case (overdue now d)
    then have "w' = refresh_halt now w" by (simp add: on_overdue_meed_def)
    then show ?thesis using keeps [OF overdue(1)] assms(2) by auto
  next
    case (resumed now receipt b)
    then show ?thesis using keeps resume_inv [OF assms(2)] resume_keeps by blast
  next
    case (verified rail now later b)
    then show ?thesis using keeps verify_inv [OF assms(2)] verify_keeps by blast
  qed
qed

section \<open>A history\<close>

lemma wallet_run_config: "wallet_run cs w xs w' \<Longrightarrow> config w' = config w"
  by (induction rule: wallet_run.induct) (auto dest: wallet_step_config)

lemma wallet_run_inv:
  assumes "wallet_run cs w xs w'" "wallet_inv cs w k"
  shows "\<exists>k' \<ge> k. wallet_inv cs w' k' \<and> unat (wc_cum_streamed w') = unat (wc_cum_streamed w) + total_amount xs \<and>
    unat (wc_next_seq w) \<le> unat (wc_next_seq w') \<and>
    map (\<lambda>s. unat (seq s)) xs = [unat (wc_next_seq w) ..< unat (wc_next_seq w')]"
  using assms
proof (induction rule: wallet_run.induct)
  case (wallet_nil w)
  then show ?case by (intro exI [of _ k]) simp
next
  case (wallet_snoc w xs u ys v)
  obtain k1 where u: "k \<le> k1" "wallet_inv cs u k1" "unat (wc_cum_streamed u) = unat (wc_cum_streamed w) + total_amount xs"
      "unat (wc_next_seq w) \<le> unat (wc_next_seq u)" "map (\<lambda>s. unat (seq s)) xs = [unat (wc_next_seq w) ..< unat (wc_next_seq u)]"
    using wallet_snoc by blast
  obtain k2 where v: "k1 \<le> k2" "wallet_inv cs v k2" "unat (wc_cum_streamed v) = unat (wc_cum_streamed u) + total_amount ys"
      "unat (wc_next_seq u) \<le> unat (wc_next_seq v)" "map (\<lambda>s. unat (seq s)) ys = [unat (wc_next_seq u) ..< unat (wc_next_seq v)]"
    using wallet_step_inv [OF wallet_snoc(2) u(2)] by blast
  have "[unat (wc_next_seq w) ..< unat (wc_next_seq v)] =
      [unat (wc_next_seq w) ..< unat (wc_next_seq u)] @ [unat (wc_next_seq u) ..< unat (wc_next_seq v)]"
    using u(4) v(4) by (metis le_add_diff_inverse upt_add_eq_append)
  then show ?case using u v by (intro exI [of _ k2]) simp
qed

section \<open>The opening\<close>

lemma open_built:
  assumes "client_open_inner cs hs nfc uts46 ps demo t now policy p s registry = Inr (co, w)"
  shows "\<exists>scope seed. let a = open_auth cs t scope p s in
    wp_approve_channel policy (open_terms p) = Approve \<and>
    scope_resolve uts46 ps (ab_merchant_key (pt_binding t)) (ab_host (pt_binding t)) = Inr scope \<and>
    auth_validate_vector_governed demo nfc registry a = Inr () \<and>
    auth_validate_payer_side Unchecked (wallet_expectation t) a = Inr () \<and>
    seed_instance cs nfc (auth_instance_inputs a) = Inr seed \<and>
    (\<exists>signed. auth_sign cs nfc (scoped_sk cs (pt_root t) scope) a = Inr signed \<and>
       open_build hs nfc signed (ab_enc_key (pt_binding t)) s = Inr co) \<and>
    w = new_client cs t policy scope p s a seed now"
  using assms unfolding client_open_inner_def with_signing_key_def Let_def
  by (auto split: decision.splits)

lemma governed_roles:
  assumes "auth_validate_vector_governed demo nfc registry a = Inr ()"
  shows "auth_roles_bp a = SCHEMA_01_ROLES"
proof -
  obtain il os wallet where "auth_shares a = schedule il os wallet DEV_FUND_DEST_PLACEHOLDER"
    using assms by (auto simp: auth_validate_vector_governed_def vector_accepted)
  then have "map (\<lambda>(r, b, d). (r, b)) (auth_shares a) = SCHEMA_01_ROLES"
    by (simp add: schedule_def SCHEMA_01_ROLES_def)
  then show ?thesis by (simp add: auth_shares_def auth_roles_bp_def comp_def)
qed

text \<open>One round's carve under the schedule: the schedule's share of the threshold, at least one unit.\<close>

lemma round_carve_schedule:
  "unat (round_carve th SCHEMA_01_ROLES) = (if th = 0 then 0 else max (unat th * 100 div 10000) 1)"
  "round_carve th SCHEMA_01_ROLES < 2 ^ 127"
proof -
  define q :: u256 where "q = (ucast th * ucast (100 :: u128)) div ucast BP_DENOM"
  have th: "unat (ucast th :: u256) = unat th" using unat_lt2p [of th] by (simp add: unat_ucast_small)
  have q: "unat q = unat th * 100 div 10000"
    using unat_lt2p [of th] by (simp add: q_def unat_div unat_word_ariths th BP_DENOM_def)
  have s: "unat th * 100 div 10000 < 2 ^ 127" using unat_lt2p [of th] by simp
  have t: "(try_from q :: u128 option) = Some (word_of_nat (unat th * 100 div 10000))"
    using q s by (simp add: try_from_Some unat_of_nat_small)
  have r: "round_carve th SCHEMA_01_ROLES = (if th = 0 then 0 else max (word_of_nat (unat th * 100 div 10000)) 1)"
    using t by (simp add: round_carve_def Let_def q_def SCHEMA_01_ROLES_def)
  have w: "unat (word_of_nat (unat th * 100 div 10000) :: u128) = unat th * 100 div 10000"
    using s by (simp add: unat_of_nat_small)
  show c: "unat (round_carve th SCHEMA_01_ROLES) = (if th = 0 then 0 else max (unat th * 100 div 10000) 1)"
    using w by (auto simp: r max_def word_le_nat_alt)
  show "round_carve th SCHEMA_01_ROLES < 2 ^ 127"
    using s by (simp add: word_less_nat_alt c)
qed

lemma new_client_inv:
  assumes "auth_roles_bp a = SCHEMA_01_ROLES"
  shows "wallet_inv cs (new_client cs t policy scope p s a seed now) 0"
  using round_carve_schedule(2) [of "op_th_value p"] assms
  by (simp add: wallet_inv_def new_client_def strip_ok_def postpay_ok_def credited_to_def metered_def bps_def target_def
      SCHEMA_01_ROLES_def)

lemma open_inv:
  assumes "client_open_inner cs hs nfc uts46 ps demo t now policy p s registry = Inr (co, w)"
  shows "wallet_inv cs w 0"
  using open_built [OF assms] governed_roles new_client_inv by (auto simp: Let_def)

lemma open_reads:
  assumes "client_open_inner cs hs nfc uts46 ps demo t now policy p s registry = Inr (co, w)"
  shows "wc_cum_streamed w = 0" "wc_next_seq w = 1" "wc_prepay w = op_prepay p" "wc_limit_l w = op_limit_l p"
    "wc_channel_id w = op_channel_id p" "wc_roles_bp w = SCHEMA_01_ROLES"
    "wc_round_carve w = round_carve (op_th_value p) SCHEMA_01_ROLES" "wc_fin_meed w = op_fin_meed p"
    "wc_th_time w = op_th_time p"
  using open_built [OF assms] governed_roles by (auto simp: Let_def new_client_def open_auth_def)

text \<open>From the opening on.\<close>

lemma opened_run:
  assumes "client_open_inner cs hs nfc uts46 ps demo t now policy p s registry = Inr (co, w0)" "wallet_run cs w0 xs w"
  shows "\<exists>k. wallet_inv cs w k \<and> unat (wc_cum_streamed w) = total_amount xs \<and>
    map (\<lambda>s. unat (seq s)) xs = [1 ..< unat (wc_next_seq w)] \<and> config w = config w0"
  using wallet_run_inv [OF assms(2) open_inv [OF assms(1)]] wallet_run_config [OF assms(2)] open_reads [OF assms(1)]
  by auto

lemma config_sel:
  "wc_prepay (config w) = wc_prepay w" "wc_limit_l (config w) = wc_limit_l w" "wc_channel_id (config w) = wc_channel_id w"
  "wc_roles_bp (config w) = wc_roles_bp w" "wc_round_carve (config w) = wc_round_carve w"
  "wc_seed_instance (config w) = wc_seed_instance w" "wc_fin_meed (config w) = wc_fin_meed w"
  "wc_k_session (config w) = wc_k_session w" "wc_th_time (config w) = wc_th_time w"
  by (simp_all add: config_def)

lemma config_reads:
  assumes "config w = config w0"
  shows "wc_prepay w = wc_prepay w0" "wc_limit_l w = wc_limit_l w0" "wc_channel_id w = wc_channel_id w0"
    "wc_roles_bp w = wc_roles_bp w0" "wc_round_carve w = wc_round_carve w0" "wc_seed_instance w = wc_seed_instance w0"
    "wc_fin_meed w = wc_fin_meed w0" "wc_k_session w = wc_k_session w0" "wc_th_time w = wc_th_time w0"
  by (metis assms config_sel)+

end
