(* ===== verification/Wallet_Live.thy ===== *)
theory Wallet_Live
  imports Wallet_Run Rail_Facts
begin

text \<open>
  When the wallet goes on: a slice below the next round is minted, the draw of an honest merchant is taken up,
  and an advance on the rail is credited once its reference is final.
\<close>

section \<open>The halt on exact numbers\<close>

text \<open>What the round that awaits its verification stands for, in exact numbers.\<close>

definition in_flight :: "channel_client \<Rightarrow> nat \<Rightarrow> nat" where
  "in_flight w k = (case wc_pending w of
     None \<Rightarrow> 0 | Some pv \<Rightarrow> if pv_defaulted pv then 0 else target w (unat (pv_cum_total pv)) - target w k)"

lemma in_flight_exact:
  assumes "wallet_inv cs w k"
  shows "unat (in_flight_amount w) = in_flight w k"
proof (cases "wc_pending w")
  case (Some pv)
  have "k \<le> unat (pv_cum_total pv)" "pv_cum_total pv \<le> wc_cum_streamed w"
    using assms Some by (simp_all add: wallet_inv_def pending_ok_def)
  then obtain c where "carve_at w (pv_cum_total pv) = Some c" "unat c = target w (unat (pv_cum_total pv)) - target w k"
    using inv_carve [OF assms, of "pv_cum_total pv"] by (auto simp: word_le_nat_alt)
  then show ?thesis by (simp add: in_flight_amount_def in_flight_def Some)
qed (simp add: in_flight_amount_def in_flight_def)

lemma owed_exact:
  assumes "wallet_inv cs w k" "k \<le> unat cum" "unat cum \<le> unat (wc_cum_streamed w) + 2 ^ 48"
  shows "unat (owed_beyond_in_flight w cum) = target w (unat cum) - target w k - in_flight w k"
proof -
  obtain c where "carve_at w cum = Some c" "unat c = target w (unat cum) - target w k"
    using inv_carve [OF assms(1,3,2)] by blast
  then show ?thesis by (simp add: owed_beyond_in_flight_def unat_sat_sub in_flight_exact [OF assms(1)])
qed

lemma owed_now:
  assumes "wallet_inv cs w k"
  shows "unat (owed_beyond_in_flight w (wc_cum_streamed w)) = target w (unat (wc_cum_streamed w)) - target w k - in_flight w k"
  by (rule owed_exact [OF assms]) (use assms in \<open>simp_all add: wallet_inv_def\<close>)

text \<open>A wallet is not halted while it owes less than a round and no time threshold runs.\<close>

lemma not_halted:
  assumes "wallet_inv cs w k" "0 < wc_round_carve w"
    and "target w (unat (wc_cum_streamed w)) < target w k + in_flight w k + unat (wc_round_carve w)"
    and "wc_th_time w = 0 \<or> carve_at w (wc_cum_streamed w) = Some 0"
  shows "\<not> wc_halted (refresh_halt now w)"
proof -
  have "\<not> wc_round_carve w \<le> owed_beyond_in_flight w (wc_cum_streamed w)"
    using owed_now [OF assms(1)] assms(2,3) by (simp add: word_le_nat_alt word_less_nat_alt)
  then show ?thesis using assms(2,4) by (auto simp: refresh_halt_def value_halt_def time_halt_def settleable_value_present_def)
qed

lemma next_slice_minted:
  assumes inv: "wallet_inv cs w k" and "0 < wc_round_carve w" "wc_prepay w" "wc_th_time w = 0"
    and now: "target w (unat (wc_cum_streamed w)) < target w k + in_flight w k + unat (wc_round_carve w)"
    and after: "target w (unat (wc_cum_streamed w) + unat amt) \<le> target w k + in_flight w k + unat (wc_round_carve w)"
    and "wp_approve_slice (wc_policy w) (wc_channel_id w) amt = Approve" "unat amt < 2 ^ 48" "wc_next_seq w \<le> SEQ_MAX"
  shows "\<exists>sl w'. next_slice cs now amt w = (Inr sl, w') \<and> amt_micro sl = amt"
proof -
  obtain h where h: "refresh_halt now w = w\<lparr>wc_halted := h\<rparr>" using refresh_halt_eq by blast
  have nh: "\<not> h" using not_halted [OF inv assms(2) now] assms(4) h by (metis channel_client.select_convs(19) channel_client.surjective channel_client.update_convs(19))
  let ?cum = "sat_add (wc_cum_streamed w) (ucast amt) :: u128"
  have "unat (ucast amt :: u128) = unat amt" using unat_lt2p [of amt] by (simp add: unat_ucast_small)
  then have cum: "unat ?cum = unat (wc_cum_streamed w) + unat amt" using inv_streamed [OF inv] assms(8) by (simp add: unat_sat_add)
  have "k \<le> unat (wc_cum_streamed w)" using inv by (simp add: wallet_inv_def)
  then have "unat (owed_beyond_in_flight w ?cum) = target w (unat ?cum) - target w k - in_flight w k"
    using cum assms(8) by (intro owed_exact [OF inv]) simp_all
  then have "\<not> wc_round_carve w < owed_beyond_in_flight w ?cum" using after cum by (simp add: word_less_nat_alt)
  moreover have "\<not> push_bit 48 1 \<le> amt" using assms(8) by (simp add: push_bit_eq_mult word_le_nat_alt)
  ultimately show ?thesis using h nh assms(3,7,9)
    by (simp add: next_slice_def mint_def slice_seal_def Let_def not_less)
qed

section \<open>An honest merchant's draw\<close>

definition honest_draw :: "crypto_suite \<Rightarrow> channel_client \<Rightarrow> operative_ckpt \<Rightarrow> prepay_draw \<Rightarrow> bool" where
  "honest_draw cs w op d \<longleftrightarrow> pd_channel_id d = wc_channel_id w \<and> pd_ckpt_ref d = oc_ckpt_ref op \<and>
     draw_verify_merchant cs (wc_merchant_key w) d = Inr () \<and> pd_amount d = target w (unat (oc_cum_total op)) \<and>
     pd_claim_record d = claim_record_id cs (wc_seed_instance w) (wc_channel_id w) (pd_ckpt_ref d) (word_of_nat (pd_amount d))"

lemma honest_draw_taken:
  assumes inv: "wallet_inv cs w k" and "wc_pending w = None" "wc_operative w = Some op" "honest_draw cs w op d"
    and owed: "target w k < target w (unat (oc_cum_total op))"
  shows "\<exists>pv w'. resume_on_prepay_draw cs now d w = (True, w') \<and> wc_pending w' = Some pv \<and> \<not> pv_defaulted pv \<and>
    pv_tx_ref pv = pd_tx_ref d \<and> pv_cum_total pv = oc_cum_total op \<and> unat (pv_amount pv) = pd_amount d \<and>
    (\<exists>h. w' = w\<lparr>wc_pending := Some pv, wc_halted := h\<rparr>)"
proof -
  let ?cum = "oc_cum_total op"
  have le: "?cum \<le> wc_cum_streamed w" using inv assms(3) by (simp add: wallet_inv_def)
  have kle: "k \<le> unat ?cum" using owed target_mono [of "unat ?cum" k w] by (meson leD nat_le_linear)
  have dom: "in_domain w (unat ?cum)" using inv_domain [OF inv] le by (simp add: word_le_nat_alt)
  have small: "target w (unat ?cum) < 2 ^ 128" by (rule target_in_domain [OF dom])
  have amt: "unat (word_of_nat (pd_amount d) :: u128) = target w (unat ?cum)" "pd_amount d < 2 ^ 128"
    using small assms(4) by (simp_all add: honest_draw_def unat_of_nat_small)
  obtain c where c: "carve_at w ?cum = Some c" "unat c = target w (unat ?cum) - target w k"
    using inv_carve [OF inv _ kle] le by (auto simp: word_le_nat_alt)
  have "c \<noteq> 0" using c(2) owed by auto
  moreover have "(word_of_nat (pd_amount d) :: u128) \<noteq> 0" using amt owed by auto
  moreover have "length (wc_roles_bp w) \<le> 64 \<and> (\<forall>b \<in> set (bps w). unat ?cum * b < 2 ^ 128)" using dom by (simp add: in_domain_def)
  then have "cumulative_target_at w ?cum = Some (word_of_nat (pd_amount d))"
    using cumulative_target_eq [of w ?cum] assms(4) by (simp add: honest_draw_def)
  ultimately obtain h where "resume_on_prepay_draw cs now d w = (True, w\<lparr>wc_pending := Some
        \<lparr>pv_ckpt_ref = pd_ckpt_ref d, pv_claim_record = pd_claim_record d, pv_amount = word_of_nat (pd_amount d),
         pv_cum_total = ?cum, pv_tx_ref = pd_tx_ref d, pv_defaulted = False\<rparr>, wc_halted := h\<rparr>)"
    using assms(2-4) amt(2) c(1) refresh_halt_eq
    by (simp add: resume_on_prepay_draw_def first_delivery_def honest_draw_def Let_def) metis
  then show ?thesis using amt(1) assms(4) by (auto simp: honest_draw_def)
qed

section \<open>The credit\<close>

lemma verify_credits:
  assumes inv: "wallet_inv cs w k" and p: "wc_pending w = Some pv"
    and "distributed rail pv w" "finality_reached rail (pv_tx_ref pv) (wc_fin_meed w) = Inr True"
  shows "\<exists>w'. verify_pending_draw cs rail now nxt w = Inr (True, w') \<and> wc_pending w' = None \<and> wc_last_settle w' = now \<and>
    wallet_inv cs w' (unat (pv_cum_total pv)) \<and> config w' = config w \<and> position w' = position w \<and>
    (pv_cum_total pv = wc_cum_streamed w \<and> 0 < wc_round_carve w \<longrightarrow> \<not> wc_halted w')"
proof -
  let ?k = "unat (pv_cum_total pv)"
  have pv: "k \<le> ?k" "pv_cum_total pv \<le> wc_cum_streamed w"
    "pv_claim_record pv = claim_record_id cs (wc_seed_instance w) (wc_channel_id w) (pv_ckpt_ref pv) (pv_amount pv)"
    using inv p by (simp_all add: wallet_inv_def pending_ok_def)
  have dom: "in_domain w ?k" using inv_domain [OF inv] pv(2) by (simp add: word_le_nat_alt)
  have "credited_to w k" using inv by (simp add: wallet_inv_def)
  then obtain cr where cr: "fold_credited (pv_cum_total pv) w = Some (w\<lparr>wc_credited_r := cr\<rparr>)"
    using fold_credited_exact [OF dom _ pv(1)] by blast
  then have t: "try_credit cs rail pv w = Inr (Some (w\<lparr>wc_credited_r := cr\<rparr>))" using assms(3,4) pv(3) by (simp add: try_credit_def)
  let ?u = "w\<lparr>wc_credited_r := cr, wc_pending := None, wc_last_settle := now\<rparr>"
  have u: "wallet_inv cs ?u ?k" using try_credit_Some [OF inv p t, of now] by simp
  have "\<not> wc_halted (refresh_halt nxt ?u)" if e: "pv_cum_total pv = wc_cum_streamed w" "0 < wc_round_carve w"
  proof (rule not_halted [OF u])
    show "wc_th_time ?u = 0 \<or> carve_at ?u (wc_cum_streamed ?u) = Some 0"
      using inv_carve [OF u, of "wc_cum_streamed w"] e by (auto simp: unat_eq_0)
  qed (use e in \<open>simp_all add: word_less_nat_alt\<close>)
  moreover obtain h where "refresh_halt nxt ?u = ?u\<lparr>wc_halted := h\<rparr>" using refresh_halt_eq by blast
  ultimately show ?thesis using u p t by (intro exI [of _ "refresh_halt nxt ?u"]) (simp add: verify_pending_draw_def)
qed

section \<open>The in-process rail\<close>

lemma advance_recorded:
  assumes "rail_reach cs nfc m v s" "v < 2 ^ 128" "vr_instances s addr = Some i" "0 < mi_bp_total i"
    and "advance_channel_meed src addr c tgt a s = Inr (r, t)"
  shows "\<exists>tm info f. vr_refs t r = Some (tm, info) \<and> ri_to info = addr \<and> ri_advanced info = Some f \<and> af_channel_id f = c \<and>
    af_seed_instance f = mi_seed_instance i \<and> tgt \<le> af_funded_p f"
proof -
  have inv: "instance_inv cs i" using rail_reach_inv [OF assms(1,2)] rail_okD(6) assms(3) by (auto simp: rail_inv_def)
  obtain f d out j where a: "instance_advance_channel_meed c tgt i = Inr (f, d, out, j)" "unat f = max (unat tgt) (funded_of i c)"
    using advance_moves [OF inv assms(4)] by blast
  then have f: "tgt \<le> f" by (simp add: word_le_nat_alt)
  have o: "fst (fst x) = f" if "on_instance addr (\<lambda>i. and_then (instance_advance_channel_meed c tgt i) (\<lambda>(f, d, out, i').
      Inr ((f, d, out), i'))) s = Inr x" for x
    using that assms(3) a(1) by (auto simp: on_instance_def)
  show ?thesis
    using assms(3,5) f
    by (auto simp: advance_channel_meed_def Let_def record_ref_def plain_info_def dest!: o)
qed

lemma view_distributed:
  assumes "vr_refs s (pv_tx_ref pv) = Some (tm, info)" "ri_advanced info = Some f"
    and "af_channel_id f = wc_channel_id w" "af_seed_instance f = wc_seed_instance w" "pv_amount pv \<le> af_funded_p f"
  shows "distributed (virtual_view s) pv w"
  using assms by (simp add: distributed_def virtual_view_def ref_target_def)

lemma distributed_view:
  assumes "distributed (virtual_view s) pv w"
  shows "\<exists>tm info f. vr_refs s (pv_tx_ref pv) = Some (tm, info) \<and> ri_advanced info = Some f \<and>
    af_channel_id f = wc_channel_id w \<and> af_seed_instance f = wc_seed_instance w \<and> pv_amount pv \<le> af_funded_p f"
  using assms by (auto simp: distributed_def virtual_view_def ref_target_def bind_eq_Some_conv split: option.splits)

lemma levels_distinct: "ascii ''pending'' \<noteq> ascii ''final''"
  by (simp add: ascii_eq_iff)

lemma virtual_levels: "rw_levels (virtual_view s) = [ascii ''pending'', ascii ''final'']"
  by (simp add: virtual_view_def caps_new_def)

text \<open>A final observation meets every level the rail declares; the level \<open>final\<close> is met by no other.\<close>

lemma final_reached:
  assumes "rail_finality r s = Inr (Some \<lparr>fo_level = ascii ''final'', fo_time = t\<rparr>)" "req \<in> set (rw_levels (virtual_view s))"
  shows "finality_reached (virtual_view s) r req = Inr True"
  using assms levels_distinct
  by (auto simp: finality_reached_def virtual_levels) (simp_all add: virtual_view_def caps_new_def)

lemma reached_final:
  assumes "rail_finality r s = Inr ob" "finality_reached (virtual_view s) r (ascii ''final'') = Inr True"
  shows "\<exists>t. ob = Some \<lparr>fo_level = ascii ''final'', fo_time = t\<rparr>"
proof -
  have "rw_finality (virtual_view s) r = Inr ob" using assms(1) by (simp add: virtual_view_def)
  then obtain b n where "ob = Some b" "position_of (fo_level b) [ascii ''pending'', ascii ''final''] = Some n" "1 \<le> n"
    using assms(2) levels_distinct by (auto simp: finality_reached_def virtual_levels bind_eq_Some_conv split: option.splits)
  then have "fo_level b = ascii ''final''" by (auto split: if_splits)
  then show ?thesis using \<open>ob = Some b\<close> by (cases b) auto
qed

end
