(* ===== verification/Wallet_Agrees.thy ===== *)
theory Wallet_Agrees
  imports Wallet_Run Channel_Ledger
begin

text \<open>
  The two endpoints of a channel agree on the accounting: whatever part of the wallet's slices the merchant's
  channel accepted, in whatever order and with whatever else in between, a checkpoint built from that channel
  stands on the wallet's own basis; and the slices themselves pass the merchant's checks.
\<close>

section \<open>The basis of a checkpoint\<close>

lemma exclude_exact:
  "exclude_accruals vs (map (\<lambda>(r, b). t * unat b) vs) ex = Some acc \<Longrightarrow> ex \<le> t \<Longrightarrow>
   acc = map (\<lambda>(r, b). (r, (t - ex) * unat b)) vs"
proof (induction vs arbitrary: acc)
  case (Cons x vs)
  then show ?case by (cases x) (auto simp: diff_mult_distrib split: if_splits)
qed simp

lemma basis_exact:
  assumes "\<forall>b \<in> set (map snd vs). unat cum * unat b < 2 ^ 128"
  shows "basis_loop (ucast (cum :: u128)) vs (map (\<lambda>(r, b). (r, unat cum * unat b)) vs)"
  using assms
proof (induction vs)
  case (Cons x vs)
  obtain r b where x: "x = (r, b)" by force
  obtain a where a: "checked_mul (ucast cum :: u256) (ucast b) = Some a" "unat a = unat cum * unat b"
    using accrue_checked by blast
  have s: "unat cum * unat b < 2 ^ 128" using Cons.prems by (simp add: x)
  then have "u256_from_biguint (unat cum * unat b) = Inr a"
    unfolding a(2) [symmetric] using unat_lt2p [of a] by (simp add: u256_from_biguint_def)
  moreover have "(try_from a :: u128 option) \<noteq> None" using s a(2) by (simp add: try_from_None)
  ultimately show ?case using a(1) Cons by (simp add: x)
qed simp

lemma total_amount_subset:
  assumes "distinct (map seq acc)" "set acc \<subseteq> set xs"
  shows "total_amount acc \<le> total_amount xs"
proof -
  have d: "distinct acc" using assms(1) by (simp add: distinct_map)
  have "mset acc = mset_set (set acc)" using d by (simp add: mset_set_set)
  also have "\<dots> \<subseteq># mset_set (set xs)" by (rule subset_imp_msubset_mset_set [OF assms(2)]) simp
  also have "\<dots> \<subseteq># mset xs" by (rule mset_set_set_mset_msubset [of "mset xs", unfolded set_mset_mset])
  finally have "mset acc \<subseteq># mset xs" .
  then obtain zs where "mset xs = mset acc + zs" by (metis subset_mset.add_diff_inverse)
  then have "mset (map (\<lambda>s. unat (amt_micro s)) xs) = mset (map (\<lambda>s. unat (amt_micro s)) acc) + image_mset (\<lambda>s. unat (amt_micro s)) zs"
    by simp
  then show ?thesis unfolding total_amount_def by (simp flip: sum_mset_sum_list)
qed

lemma built_on_basis:
  assumes inv: "wallet_inv cs w k" and "unat (wc_cum_streamed w) = total_amount xs"
    and ev: "evolves cs (new_state cs (wc_channel_id w) key m limit_l limit_e SCHEMA_01_ROLES) acc st"
    and "set acc \<subseteq> set xs" and b: "build_checkpoint_at cs cutoff ts prev events st = Some cp"
  shows "checkpoint_basis_ok w cp = Some (word_of_nat (ck_cum_total cp)) \<and> ck_cum_total cp \<le> total_amount xs"
proof -
  let ?st0 = "new_state cs (wc_channel_id w) key m limit_l limit_e SCHEMA_01_ROLES"
  note l = new_channel_ledger [OF ev]
  have s0: "st_window ?st0 = []" "st_vector ?st0 = SCHEMA_01_ROLES" "st_channel_id ?st0 = wc_channel_id w"
    by (cases m; simp add: new_state_def Let_def)+
  obtain retired where "ledger cs ?st0 acc retired st" using evolves_ledger [OF ev new_state_ok s0(1)] by blast
  then have f: "st_vector st = SCHEMA_01_ROLES" "st_channel_id st = wc_channel_id w"
    "mset (retired @ map snd (st_window st)) = mset acc"
    by (simp_all add: ledger_def s0)
  have le: "total_amount acc \<le> total_amount xs" using total_amount_subset l assms(4) by blast
  then have small: "total_amount acc \<le> 2 ^ 111" using inv_streamed [OF inv] assms(2) by simp
  then have cum: "st_cum_total st = total_amount acc" using l by (simp add: U128_MAX_def)
  note bf = build_fields [OF b]
  have "excluded_at cutoff st \<le> window_amounts (st_window st)"
    unfolding excluded_at_def by (rule window_amounts_filter_le)
  also have "window_amounts (st_window st) = total_amount (map snd (st_window st))"
    by (simp add: window_amounts_def total_amount_def comp_def split_def)
  also have "\<dots> \<le> total_amount acc"
    using total_amount_mset [OF f(3)] by simp
  finally have ex: "excluded_at cutoff st \<le> total_amount acc" .
  have c: "ck_cum_total cp = total_amount acc - excluded_at cutoff st" using bf(2) cum by simp
  have acc: "ck_accruals cp = map (\<lambda>(r, b). (r, ck_cum_total cp * unat b)) SCHEMA_01_ROLES"
    using exclude_exact [OF _ ex, of SCHEMA_01_ROLES] bf(3) l f(1) c by simp
  have cs: "ck_cum_total cp \<le> 2 ^ 111" using c small by simp
  let ?cum = "word_of_nat (ck_cum_total cp) :: u128"
  have u: "unat ?cum = ck_cum_total cp" using cs by (simp add: unat_of_nat_small)
  have roles: "wc_roles_bp w = SCHEMA_01_ROLES" using inv by (simp add: wallet_inv_def)
  have "basis_loop (ucast ?cum) SCHEMA_01_ROLES (map (\<lambda>(r, b). (r, unat ?cum * unat b)) SCHEMA_01_ROLES)"
    by (rule basis_exact) (use cs u in \<open>simp add: SCHEMA_01_ROLES_def\<close>)
  moreover have "?cum \<le> wc_cum_streamed w" using u c le assms(2) by (simp add: word_le_nat_alt)
  ultimately show ?thesis
    using bf(1) f(2) cs acc roles u le c by (simp add: checkpoint_basis_ok_def Let_def not_le not_less)
qed

section \<open>The slices are the merchant's\<close>

lemma sealed_verifies: "slice_seal cs sq a key = Inr s \<Longrightarrow> slice_verify cs key s"
  by (auto simp: slice_seal_def slice_verify_def slice_tag_verify_def Let_def split: if_splits)

lemma mint_verifies: "mint cs amt w = (Inr sl, w') \<Longrightarrow> slice_verify cs (wc_k_session w) sl"
  by (auto simp: mint_def sealed_verifies split: sum.splits)

lemma next_slice_verifies:
  assumes "next_slice cs now amt w = (Inr sl, w')"
  shows "slice_verify cs (wc_k_session w) sl"
  using assms
proof (cases rule: next_slice_cases)
  case (minted h sl')
  then show ?thesis using mint_verifies [of cs amt "w\<lparr>wc_halted := h\<rparr>"] by auto
qed simp

lemma wallet_run_verifies:
  "wallet_run cs w xs w' \<Longrightarrow> \<forall>s \<in> set xs. slice_verify cs (wc_k_session w) s"
proof (induction rule: wallet_run.induct)
  case (wallet_snoc w xs u ys v)
  have "wc_k_session u = wc_k_session w" by (rule config_reads [OF wallet_run_config [OF wallet_snoc(1)]])
  then have "\<forall>s \<in> set ys. slice_verify cs (wc_k_session w) s"
    using wallet_snoc(2) by (auto elim!: wallet_step.cases dest!: next_slice_verifies)
  then show ?case using wallet_snoc.IH by auto
qed simp

end
