(* ===== verification/Wallet_Story.thy ===== *)
theory Wallet_Story
  imports Wallet_Run Props_Establish Wallet_Live Wallet_Agrees Rail_Facts
begin

text \<open>
  A concrete opening: a wallet with the root, the merchant's binding and the registry of the earlier examples
  opens a prepay channel with a threshold of one hundred units, so that a round carves one unit. Then stories of it, against the
  rail.
\<close>

text \<open>The instance seed exists for every governed vector.\<close>

lemma governed_seed:
  assumes "auth_validate_vector_governed demo nfc registry a = Inr ()" "validate_text nfc (ca_baseline_asset a) = Inr ()"
  shows "\<exists>seed. seed_instance cs nfc (auth_instance_inputs a) = Inr seed"
proof -
  obtain il os wallet where s: "auth_shares a = schedule il os wallet DEV_FUND_DEST_PLACEHOLDER"
      "payable nfc il" "payable nfc os" "payable nfc wallet" "payable nfc DEV_FUND_DEST_PLACEHOLDER"
  proof -
    obtain il os wallet where v: "auth_shares a = schedule il os wallet DEV_FUND_DEST_PLACEHOLDER"
        "payable nfc il" "payable nfc wallet" "payable nfc DEV_FUND_DEST_PLACEHOLDER" "payable nfc os"
      using assms(1) by (auto simp: auth_validate_vector_governed_def validate_vector_def shape_accepted governed_schedule)
    then show thesis using that by blast
  qed
  have "map (\<lambda>e. \<lparr>role = ve_role e, bp = ve_bp e, dest = ve_dest e\<rparr>) (ca_vector a) =
      map (\<lambda>(r, b, d). \<lparr>role = r, bp = b, dest = d\<rparr>) (auth_shares a)"
    by (simp add: auth_shares_def)
  then have v: "meed_vector (auth_instance_inputs a) = [\<lparr>role = 0x10, bp = 50, dest = il\<rparr>, \<lparr>role = 0x11, bp = 10, dest = os\<rparr>,
      \<lparr>role = 0x12, bp = 30, dest = wallet\<rparr>, \<lparr>role = 0x13, bp = 10, dest = DEV_FUND_DEST_PLACEHOLDER\<rparr>]"
    by (simp add: auth_instance_inputs_def s(1) schedule_def role_defs)
  have t: "validate_text nfc d = Inr ()" if "payable nfc d" for d
    using that by (auto simp: payable_def pointer_accepted pointer_ok_def)
  show ?thesis
    using t [OF s(2)] t [OF s(3)] t [OF s(4)] t [OF s(5)] assms(2) v
    by (simp add: seed_instance_def canonical_bytes_def from_fields_def
        T_MERCHANT_KEY_def T_ASSET_def T_SCHEMA_def T_VECTOR_def T_CONTRACT_def) (simp add: auth_instance_inputs_def)
qed

definition ex_params :: "bool \<Rightarrow> channel_open_params" where
  "ex_params prepay = \<lparr>op_channel_id = replicate 8 2, op_denom = ex_asset, op_baseline_asset = ex_asset, op_baseline_net = ex_net,
     op_prepay = prepay, op_limit_l = 1000, op_limit_e = 1000, op_th_value = 100, op_th_time = 0, op_schema = 1, op_contract = 1,
     op_registry_v = 5, op_vector = map (\<lambda>(r, b, d). \<lparr>ve_role = r, ve_bp = b, ve_dest = d\<rparr>)
       (schedule ex_il ex_dest ex_il DEV_FUND_DEST_PLACEHOLDER),
     op_refund_ptr = (if prepay then Some ex_il else None), op_rate_source = None, op_rate_dev = None, op_fin_meed = ascii ''final'',
     op_fin_denom = ascii ''final'', op_timestamp = 9\<rparr>"

definition ex_trust :: payer_trust where
  "ex_trust = \<lparr>pt_root = replicate 32 1, pt_wallet_meed_dest = Some ex_il,
     pt_binding = \<lparr>ab_merchant_key = replicate 32 3, ab_host = ascii ''www.shop.co.uk'', ab_enc_key = replicate 32 9\<rparr>\<rparr>"

definition ex_policy :: wallet_policy where
  "ex_policy = static_wallet_policy (static_new ex_asset 1000)"

definition ex_open_auth :: "bool \<Rightarrow> channel_auth" where
  "ex_open_auth prepay = open_auth toy_suite ex_trust \<lparr>ps_merchant_key = replicate 32 3, ps_domain = ascii ''shop.co.uk''\<rparr>
     (ex_params prepay) (replicate 32 7)"

lemma ex_open_shares: "auth_shares (ex_open_auth b) = schedule ex_il ex_dest ex_il DEV_FUND_DEST_PLACEHOLDER"
  by (simp add: ex_open_auth_def open_auth_def ex_params_def auth_shares_def schedule_def)

lemma ex_open_governed: "auth_validate_vector_governed True (\<lambda>x. x) ex_store (ex_open_auth b) = Inr ()"
proof -
  have "validate_vector True (\<lambda>x. x) 1 5 (schedule ex_il ex_dest ex_il DEV_FUND_DEST_PLACEHOLDER) ex_store = Inr ()"
    using resolve_accepted [OF ex_resolved] ex_payable funds_payable(1) [of "\<lambda>x. x"]
    by (auto simp: vector_accepted SCHEMA_V0_1_def)
  then show ?thesis
    by (simp add: auth_validate_vector_governed_def ex_open_shares) (simp add: ex_open_auth_def open_auth_def ex_params_def)
qed

lemma ex_open_content: "\<exists>aad. canonical_content (\<lambda>x. x) (ex_open_auth b) = Inr aad"
proof -
  have "pointer_parse (\<lambda>x. x) ex_il \<noteq> Inl e" for e using ex_payable(2) by (auto simp: payable_def)
  then obtain p where p: "pointer_parse (\<lambda>x. x) ex_il = Inr p" by (cases "pointer_parse (\<lambda>x. x) ex_il") auto
  have "check_presence (ex_open_auth b) = Inr ()"
    by (simp add: check_presence_def ex_open_auth_def open_auth_def ex_params_def MODE_POSTPAY_def MODE_PREPAY_def eval_nat_numeral)
  moreover have "validate_grammar (\<lambda>x. x) (ex_open_auth b) = Inr ()"
    using ex_asset_caip19 ex_net_caip2 p by (simp add: validate_grammar_def ex_open_auth_def open_auth_def ex_params_def)
  ultimately show ?thesis by (simp add: canonical_content_Inr)
qed

lemma ex_opening:
  "\<exists>co w. client_open_inner toy_suite toy_hpke (\<lambda>x. x) Some ex_psl True ex_trust 0 ex_policy (ex_params b) (replicate 32 7) ex_store = Inr (co, w)"
proof -
  have a: "wp_approve_channel ex_policy (open_terms (ex_params b)) = Approve"
    by (simp add: ex_policy_def static_wallet_policy_def static_approve_channel_def static_new_def static_new_multi_def Let_def
        limit_for_def open_terms_def ex_params_def)
  have s: "scope_resolve Some ex_psl (ab_merchant_key (pt_binding ex_trust)) (ab_host (pt_binding ex_trust)) =
      Inr \<lparr>ps_merchant_key = replicate 32 3, ps_domain = ascii ''shop.co.uk''\<rparr>"
    using ex_registrable by (simp add: scope_resolve_def ex_trust_def)
  have p: "auth_validate_payer_side Unchecked (wallet_expectation ex_trust) (ex_open_auth b) = Inr ()"
    by (simp add: auth_validate_payer_side_def ex_open_shares payer_side_schedule expected_check_def wallet_expectation_def ex_trust_def)
  have "validate_text (\<lambda>x. x) (ca_baseline_asset (ex_open_auth b)) = Inr ()"
    using ex_texts(1) by (simp add: ex_open_auth_def open_auth_def ex_params_def text_ok_def)
  then obtain sd where sd: "seed_instance toy_suite (\<lambda>x. x) (auth_instance_inputs (ex_open_auth b)) = Inr sd"
    using governed_seed [OF ex_open_governed] by blast
  obtain aad where aad: "canonical_content (\<lambda>x. x) (ex_open_auth b) = Inr aad" using ex_open_content by blast
  show ?thesis
    unfolding client_open_inner_def Let_def
    using a s ex_open_governed p sd nine_not_small
    by (simp add: ex_open_auth_def [symmetric] with_signing_key_def auth_sign_def auth_covered_bytes_def aad open_build_def
        seal_session_secret_def hpke_seal_def toy_hpke_def del: and_then_Inr) (simp add: ex_trust_def)
qed

text \<open>
  A concrete story: the channel of the example opening streams one round, records the checkpoint over it and
  takes up a draw, which the rail pays.
\<close>

abbreviation ex_opens :: "bool \<Rightarrow> channel_open \<Rightarrow> channel_client \<Rightarrow> bool" where
  "ex_opens b co w0 \<equiv> client_open_inner toy_suite toy_hpke (\<lambda>x. x) Some ex_psl True ex_trust 0 ex_policy (ex_params b)
     (replicate 32 7) ex_store = Inr (co, w0)"

definition ex_cp :: checkpoint where
  "ex_cp = \<lparr>ck_channel_id = replicate 8 2, ck_balance = 0, ck_balance_negative = False, ck_cum_total = 100,
     ck_accruals = [(0x10, 5000), (0x11, 1000), (0x12, 3000), (0x13, 1000)], ck_last_seq = 1, ck_ranges = [], ck_transcript = [],
     ck_events = [], ck_timestamp = 0, ck_prev_ref = [], ck_sig_payer = Some (replicate 64 0), ck_sig_merchant = Some (replicate 64 0)\<rparr>"

definition ex_ref :: bytes where
  "ex_ref = (case checkpoint_reference toy_suite ex_cp of Inr r \<Rightarrow> r | Inl _ \<Rightarrow> [])"

lemma ex_cp_signed: "verify_bilateral toy_suite a b ex_cp = Inr ()"
  by (simp add: verify_bilateral_def checkpoint_covered_bytes_def content_fields_def Let_def from_fields_def verify_sig_def
      toy_suite_def ex_cp_def CK_CHANNEL_ID_def CK_BALANCE_def CK_CUM_TOTAL_def CK_ACCRUALS_def CK_LAST_SEQ_def CK_RANGES_def
      CK_TRANSCRIPT_def CK_EVENTS_def CK_TIMESTAMP_def CK_PREV_REF_def)

lemma ex_cp_reference: "checkpoint_reference toy_suite ex_cp = Inr ex_ref"
proof -
  have "\<exists>r. checkpoint_reference toy_suite ex_cp = Inr r"
    by (simp add: checkpoint_reference_def checkpoint_encode_def content_fields_def Let_def from_fields_def ex_cp_def
      CK_CHANNEL_ID_def CK_BALANCE_def CK_CUM_TOTAL_def CK_ACCRUALS_def CK_LAST_SEQ_def CK_RANGES_def
      CK_TRANSCRIPT_def CK_EVENTS_def CK_TIMESTAMP_def CK_PREV_REF_def CK_SIG_PAYER_def CK_SIG_MERCHANT_def)
  then show ?thesis by (auto simp: ex_ref_def)
qed

definition ex_draw :: "bytes \<Rightarrow> prepay_draw" where
  "ex_draw seed = \<lparr>pd_channel_id = replicate 8 2, pd_ckpt_ref = ex_ref, pd_amount = 1, pd_extinguished = [],
     pd_claim_record = claim_record_id toy_suite seed (replicate 8 2) ex_ref 1, pd_rail = [], pd_tx_ref = ref_id 0, pd_finality = [],
     pd_sig_merchant = Some (replicate 64 0)\<rparr>"

lemma ex_target: "wc_roles_bp w = SCHEMA_01_ROLES \<Longrightarrow> target w c = c div 100"
  using schedule_bps [of w] by (simp add: target_def)

lemma ex_policy_slice: "wp_approve_slice ex_policy ch 100 = Approve"
  by (simp add: ex_policy_def static_wallet_policy_def static_approve_slice_def static_new_def static_new_multi_def)

text \<open>The first round is streamed and its checkpoint recorded.\<close>

lemma ex_first_round:
  assumes "ex_opens True co w0"
  obtains sl w where "wallet_run toy_suite w0 [sl] w" "amt_micro sl = 100" "wc_pending w = None" "wallet_inv toy_suite w 0"
    "wc_operative w = Some \<lparr>oc_ckpt_ref = ex_ref, oc_cum_total = 100\<rparr>" "wc_cum_streamed w = 100" "config w = config w0"
    "wc_policy w = ex_policy"
proof -
  note r = open_reads [OF assms] and inv = open_inv [OF assms]
  have n: "wc_policy w0 = ex_policy" "wc_pending w0 = None" "wc_operative w0 = None"
    using open_built [OF assms] by (auto simp: Let_def new_client_def)
  have R: "unat (wc_round_carve w0) = 1" "0 < wc_round_carve w0"
    using round_carve_schedule(1) [of 100] r(7) by (simp_all add: ex_params_def word_less_nat_alt)
  have "\<exists>sl w1. next_slice toy_suite 0 100 w0 = (Inr sl, w1) \<and> amt_micro sl = 100"
    by (rule next_slice_minted [OF inv R(2)])
      (use r n R in \<open>simp_all add: ex_params_def ex_target in_flight_def ex_policy_slice SEQ_MAX_def\<close>)
  then obtain sl w1 where m: "next_slice toy_suite 0 100 w0 = (Inr sl, w1)" "amt_micro sl = 100" by blast
  have w1: "wallet_inv toy_suite w1 0" "unat (wc_cum_streamed w1) = 100"
    using next_slice_inv [OF inv m(1)] m(2) r(1) by simp_all
  have c1: "config w1 = config w0" "wc_pending w1 = None" "wc_operative w1 = None" "wc_policy w1 = ex_policy"
    using m(1) n minted_keeps [OF m(1)] by (auto elim!: next_slice_cases dest!: mint_cases)
  note r1 = config_reads [OF c1(1)]
  have a: "ck_accruals ex_cp = map (\<lambda>(r, b). (r, unat (100 :: u128) * unat b)) SCHEMA_01_ROLES"
    by (simp add: ex_cp_def SCHEMA_01_ROLES_def role_defs)
  have "basis_loop (ucast (100 :: u128)) SCHEMA_01_ROLES (ck_accruals ex_cp)"
    unfolding a by (rule basis_exact) (simp add: SCHEMA_01_ROLES_def)
  moreover have "length (ck_accruals ex_cp) = length SCHEMA_01_ROLES" using a by simp
  moreover have "ck_channel_id ex_cp = wc_channel_id w1" "ck_cum_total ex_cp = 100" "wc_roles_bp w1 = SCHEMA_01_ROLES"
    using r r1 by (simp_all add: ex_cp_def ex_params_def)
  ultimately have b: "checkpoint_basis_ok w1 ex_cp = Some 100"
    using w1(2) by (simp add: checkpoint_basis_ok_def Let_def word_less_nat_alt)
  obtain h where h: "refresh_halt 0 (w1\<lparr>wc_operative := Some \<lparr>oc_ckpt_ref = ex_ref, oc_cum_total = 100\<rparr>\<rparr>) =
      w1\<lparr>wc_operative := Some \<lparr>oc_ckpt_ref = ex_ref, oc_cum_total = 100\<rparr>, wc_halted := h\<rparr>"
    using refresh_halt_eq by blast
  let ?w = "w1\<lparr>wc_operative := Some \<lparr>oc_ckpt_ref = ex_ref, oc_cum_total = 100\<rparr>, wc_halted := h\<rparr>"
  have rec: "record_operative toy_suite 0 ex_cp w1 = (True, ?w)"
    using b c1 h by (simp add: record_operative_def ex_cp_signed ex_cp_reference superseded_by_def)
  have "wallet_run toy_suite w0 ([] @ [sl] @ []) ?w"
    using wallet_snoc [OF wallet_snoc [OF wallet_nil wallet_step.minted [OF m(1)]] wallet_step.recorded [OF rec]] by simp
  moreover have "wc_cum_streamed w1 = 100" using w1(2) by (simp add: word_unat_eq_iff)
  moreover have "wallet_inv toy_suite ?w 0" using record_operative_inv [OF w1(1) rec] .
  ultimately show thesis by (intro that [of sl ?w]) (simp_all add: m(2) c1)
qed

lemma ex_honest:
  assumes "ex_opens True co w0" "config w = config w0"
  shows "honest_draw toy_suite w \<lparr>oc_ckpt_ref = ex_ref, oc_cum_total = 100\<rparr> (ex_draw (wc_seed_instance w))"
  using open_reads [OF assms(1)] config_reads [OF assms(2)]
  by (simp add: honest_draw_def ex_draw_def ex_params_def ex_target draw_verify_merchant_def verify_sig_def toy_suite_def)

section \<open>The rail of the story\<close>

text \<open>On a fresh rail that finalizes at once the merchant deploys the channel's instance and advances it by one.\<close>

lemma deploy_reaches:
  assumes "seed_instance cs nfc ai = Inr sd" "\<exists>e \<in> set (meed_vector ai). bp e \<noteq> 0"
  shows "\<exists>s i. rail_reach cs nfc 0 0 s \<and> vr_instances s (derive_address sd) = Some i \<and> mi_seed_instance i = sd \<and> 0 < mi_bp_total i \<and>
    \<not> vr_outage s \<and> vr_next_ref s = 0 \<and> vr_finality_delay s = 0"
proof -
  let ?t = "snd (deploy_instance_raw sd (merchant_key ai) (map (\<lambda>e. \<lparr>ms_dest = dest e, ms_bp = bp e\<rparr>) (meed_vector ai)) (inner_new 0))"
  have x: "rail_exec cs nfc (DeployInstance sd ai) (inner_new 0) = Inr ?t"
    using assms(1) by (simp add: deploy_instance_def state_of_def split: prod.split)
  have "rail_reach cs nfc (0 + minted (DeployInstance sd ai) (inner_new 0)) (0 + moved (DeployInstance sd ai) (inner_new 0)) ?t"
    by (rule rail_reach.call [OF rail_reach.start _ x]) (simp add: inner_new_def)
  moreover have weight: "0 < mi_bp_total (instance_new (merchant_key ai) (map (\<lambda>e. \<lparr>ms_dest = dest e, ms_bp = bp e\<rparr>) (meed_vector ai)) sd)"
    by (rule instance_new_weighted) (use assms(2) in auto)
  ultimately show ?thesis
    by (intro exI [of _ ?t] exI [of _ "instance_new (merchant_key ai) (map (\<lambda>e. \<lparr>ms_dest = dest e, ms_bp = bp e\<rparr>) (meed_vector ai)) sd"])
      (use weight in \<open>simp add: deploy_instance_raw_def inner_new_def instance_new_def Let_def\<close>)
qed

lemma advance_succeeds:
  assumes "rail_reach cs nfc m v s" "v < 2 ^ 128" "vr_instances s addr = Some i" "\<not> vr_outage s" "vr_next_ref s = 0" "vr_finality_delay s = 0" "0 < mi_bp_total i"
  shows "\<exists>t. advance_channel_meed None addr c tgt a s = Inr (ref_id 0, t) \<and>
    rail_finality (ref_id 0) t = Inr (Some \<lparr>fo_level = ascii ''final'', fo_time = vr_clock s\<rparr>)"
proof -
  have inv: "instance_inv cs i" using rail_reach_inv [OF assms(1,2)] rail_okD(6) assms(3) by (auto simp: rail_inv_def)
  obtain f d out j where b: "instance_advance_channel_meed c tgt i = Inr (f, d, out, j)"
    using advance_moves [OF inv assms(7)] by blast
  let ?u = "apply_payouts out (s\<lparr>vr_instances := (vr_instances s)(addr \<mapsto> j)\<rparr>)"
  have u: "vr_next_ref ?u = 0" "vr_clock ?u = vr_clock s" "vr_finality_delay ?u = 0" using assms(5,6) by (simp_all add: apply_payouts_def)
  have "\<exists>t. record_ref info ?u = Inr (ref_id 0, t) \<and>
      rail_finality (ref_id 0) t = Inr (Some \<lparr>fo_level = ascii ''final'', fo_time = vr_clock s\<rparr>)" for info
    using u unat_lt2p [of "vr_clock s"] by (simp add: record_ref_def checked_add_def Let_def ref_id_def rail_finality_def)
  then show ?thesis
    using assms(3,4) b by (simp add: advance_channel_meed_def on_instance_def Let_def)
qed

lemma ex_seed_binds:
  assumes "ex_opens b co w0"
  shows "\<exists>ai. seed_instance toy_suite (\<lambda>x. x) ai = Inr (wc_seed_instance w0) \<and> (\<exists>e \<in> set (meed_vector ai). bp e \<noteq> 0)"
proof -
  obtain scope seed where o: "seed_instance toy_suite (\<lambda>x. x) (auth_instance_inputs (open_auth toy_suite ex_trust scope (ex_params b) (replicate 32 7))) = Inr seed"
      "wc_seed_instance w0 = seed"
    using open_built [OF assms] by (auto simp: Let_def new_client_def)
  moreover have "\<exists>e \<in> set (meed_vector (auth_instance_inputs (open_auth toy_suite ex_trust scope (ex_params b) (replicate 32 7)))). bp e \<noteq> 0"
    by (simp add: auth_instance_inputs_def open_auth_def ex_params_def schedule_def)
  ultimately show ?thesis by blast
qed

text \<open>The merchant pays the round on the rail, final at once.\<close>

lemma ex_rail:
  assumes "ex_opens b co w0"
  obtains r0 addr i r1 tm where "rail_reach toy_suite (\<lambda>x. x) 0 0 r0" "vr_instances r0 addr = Some i"
    "mi_seed_instance i = wc_seed_instance w0" "0 < mi_bp_total i"
    "advance_channel_meed None addr (replicate 8 2) 1 ex_asset r0 = Inr (ref_id 0, r1)"
    "rail_finality (ref_id 0) r1 = Inr (Some \<lparr>fo_level = ascii ''final'', fo_time = tm\<rparr>)"
    "\<exists>m v. rail_reach toy_suite (\<lambda>x. x) m v r1"
proof -
  obtain ai where ai: "seed_instance toy_suite (\<lambda>x. x) ai = Inr (wc_seed_instance w0)" "\<exists>e \<in> set (meed_vector ai). bp e \<noteq> 0"
    using ex_seed_binds [OF assms] by blast
  obtain s i where s: "rail_reach toy_suite (\<lambda>x. x) 0 0 s" "vr_instances s (derive_address (wc_seed_instance w0)) = Some i"
      "mi_seed_instance i = wc_seed_instance w0" "0 < mi_bp_total i" "\<not> vr_outage s" "vr_next_ref s = 0" "vr_finality_delay s = 0"
    using deploy_reaches [OF ai] by blast
  obtain t where t: "advance_channel_meed None (derive_address (wc_seed_instance w0)) (replicate 8 2) 1 ex_asset s = Inr (ref_id 0, t)"
      "rail_finality (ref_id 0) t = Inr (Some \<lparr>fo_level = ascii ''final'', fo_time = vr_clock s\<rparr>)"
    using advance_succeeds [OF s(1) _ s(2,5-7,4)] by force
  have x: "rail_exec toy_suite (\<lambda>x. x) (AdvanceChannelMeed None (derive_address (wc_seed_instance w0)) (replicate 8 2) 1 ex_asset) s = Inr t"
    using t(1) by (simp add: state_of_def)
  have "\<exists>m v. rail_reach toy_suite (\<lambda>x. x) m v t"
    using rail_reach.call [OF s(1) _ x] s(6) by auto
  then show thesis using that s(1-4) t by blast
qed

lemma ex_credit:
  assumes "ex_opens True co w0"
  shows "\<exists>xs w r m v w'. wallet_run toy_suite w0 xs w \<and> rail_reach toy_suite (\<lambda>x. x) m v r \<and>
    verify_pending_draw toy_suite (virtual_view r) 1 1 w = Inr (True, w')"
proof -
  obtain sl w where s: "wallet_run toy_suite w0 [sl] w" "amt_micro sl = 100" "wc_pending w = None" "wallet_inv toy_suite w 0"
      "wc_operative w = Some \<lparr>oc_ckpt_ref = ex_ref, oc_cum_total = 100\<rparr>" "wc_cum_streamed w = 100" "config w = config w0"
    by (rule ex_first_round [OF assms])
  note c = open_reads [OF assms] config_reads [OF s(7)]
  obtain pv u where d: "resume_on_prepay_draw toy_suite 0 (ex_draw (wc_seed_instance w)) w = (True, u)" "wc_pending u = Some pv"
      "pv_tx_ref pv = ref_id 0" "unat (pv_amount pv) = 1"
    using honest_draw_taken [where now = 0, OF s(4,3,5) ex_honest [OF assms s(7)]] ex_target [of w] c
    by (auto simp: ex_draw_def)
  have u: "wallet_inv toy_suite u 0" "config u = config w0" using resume_inv [OF s(4) d(1)] resume_keeps [OF d(1)] s(7) by simp_all
  note cu = config_reads [OF u(2)]
  obtain r0 addr i r1 tm m v where r: "rail_reach toy_suite (\<lambda>x. x) 0 0 r0" "vr_instances r0 addr = Some i"
      "mi_seed_instance i = wc_seed_instance w0" "0 < mi_bp_total i"
      "advance_channel_meed None addr (replicate 8 2) 1 ex_asset r0 = Inr (ref_id 0, r1)"
      "rail_finality (ref_id 0) r1 = Inr (Some \<lparr>fo_level = ascii ''final'', fo_time = tm\<rparr>)" "rail_reach toy_suite (\<lambda>x. x) m v r1"
    by (rule ex_rail [OF assms]) blast
  obtain tm' info f where f: "vr_refs r1 (ref_id 0) = Some (tm', info)" "ri_advanced info = Some f" "af_channel_id f = replicate 8 2"
      "af_seed_instance f = mi_seed_instance i" "1 \<le> af_funded_p f"
    using advance_recorded [OF r(1) _ r(2,4,5)] by auto
  have "pv_amount pv = 1" using d(4) by (simp add: word_unat_eq_iff)
  then have "distributed (virtual_view r1) pv u"
    using f r(3) d(3) c cu by (intro view_distributed [of r1 pv tm' info f]) (simp_all add: ex_params_def)
  moreover have "finality_reached (virtual_view r1) (pv_tx_ref pv) (wc_fin_meed u) = Inr True"
    using final_reached [OF r(6), of "ascii ''final''"] d(3) c cu by (simp add: virtual_levels ex_params_def)
  ultimately obtain w' where "verify_pending_draw toy_suite (virtual_view r1) 1 1 u = Inr (True, w')"
    using verify_credits [where now = 1 and nxt = 1, OF u(1) d(2)] by blast
  moreover have "wallet_run toy_suite w0 ([sl] @ []) u" using wallet_snoc [OF s(1) wallet_step.resumed [OF d(1)]] .
  ultimately show ?thesis using r(7) by blast
qed

end
