(* ===== verification/Props_Wallet.thy ===== *)
theory Props_Wallet
  imports Wallet_Story Example_Parameters
begin

text \<open>
  The properties of the payer's endpoint: how much meed an absent or dishonest merchant can strip, what a
  postpay channel can spend, that a credit stands for value the recipients got, that an honest merchant's
  round is always credited, and that the two endpoints agree on the accounting.
\<close>

section \<open>Bounds\<close>

text \<open>C11. The meed that can be stripped from a prepay channel with a value threshold is bounded: after any
  history of its calls, whatever the clock, the merchant's messages and the rail show it, what the wallet
  streamed owes at most one round's carve beyond what it credited while no round awaits its verification,
  and at most two rounds while one does.\<close>

theorem strip_bounded:
  assumes "client_open_inner cs hs nfc uts46 ps demo t now policy p s registry = Inr (co, w0)"
    and "wallet_run cs w0 xs w" "op_prepay p" "0 < op_th_value p"
  shows "credited w \<le> total_amount xs * 100 div 10000 \<and>
    total_amount xs * 100 div 10000 \<le> credited w +
      (if wc_pending w = None then 1 else 2) * (max (unat (op_th_value p) * 100 div 10000) 1)"
proof -
  obtain k where k: "wallet_inv cs w k" "unat (wc_cum_streamed w) = total_amount xs" "config w = config w0"
    using opened_run [OF assms(1,2)] by blast
  note r = open_reads [OF assms(1)] config_reads [OF k(3)]
  have nz: "op_th_value p \<noteq> 0" using assms(4) by auto
  have R: "unat (wc_round_carve w) = max (unat (op_th_value p) * 100 div 10000) 1" "0 < wc_round_carve w" "wc_prepay w"
    using r assms(3) nz round_carve_schedule(1) [of "op_th_value p"] by (simp_all add: word_less_nat_alt less_max_iff_disj)
  have t: "target w c = c * 100 div 10000" for c using schedule_bps [of w] r by (simp add: target_def)
  have c: "credited w = target w k" using k(1) credited_to_credited by (simp add: wallet_inv_def)
  have "target w k \<le> target w (total_amount xs)" using k by (intro target_mono) (simp add: wallet_inv_def)
  moreover have "target w (total_amount xs) \<le> target w k + (if wc_pending w = None then 1 else 2) * unat (wc_round_carve w)"
    using k(1) R(2,3) unfolding wallet_inv_def strip_ok_def k(2) by (auto split: option.splits)
  ultimately show ?thesis unfolding R(1) c t by simp
qed

theorem strip_bounded_witness:
  "\<exists>(co :: channel_open) w0. client_open_inner toy_suite toy_hpke (\<lambda>x. x) Some ex_psl True ex_trust 0 ex_policy (ex_params True)
      (replicate 32 7) ex_store = Inr (co, w0) \<and> credited w0 = 0"
proof -
  obtain co w0 where o: "client_open_inner toy_suite toy_hpke (\<lambda>x. x) Some ex_psl True ex_trust 0 ex_policy (ex_params True)
      (replicate 32 7) ex_store = Inr (co, w0)" using ex_opening by blast
  have "credited w0 \<le> total_amount [] * 100 div 10000"
    using strip_bounded [OF o wallet_nil] by (simp add: ex_params_def)
  then show ?thesis using o by auto
qed

text \<open>C22. A postpay channel spends at most its limit: the slices of any history add up to at most the limit
  agreed at the opening, and in every mode they are numbered from one without a gap and each verifies under
  the session key of the opening.\<close>

theorem slices_capped_and_numbered:
  assumes "client_open_inner cs hs nfc uts46 ps demo t now policy p s registry = Inr (co, w0)" "wallet_run cs w0 xs w"
  shows "(op_prepay p \<or> total_amount xs \<le> unat (op_limit_l p)) \<and>
    map (\<lambda>s. unat (seq s)) xs = [1 ..< Suc (length xs)] \<and> (\<forall>s \<in> set xs. slice_verify cs (wc_k_session w0) s)"
proof -
  obtain k where k: "wallet_inv cs w k" "unat (wc_cum_streamed w) = total_amount xs" "config w = config w0"
      "map (\<lambda>s. unat (seq s)) xs = [1 ..< unat (wc_next_seq w)]"
    using opened_run [OF assms] by blast
  have "length xs = unat (wc_next_seq w) - 1" using arg_cong [OF k(4), of length] by simp
  moreover have "1 \<le> unat (wc_next_seq w)" using k(1) by (simp add: wallet_inv_def)
  ultimately have "unat (wc_next_seq w) = Suc (length xs)" by simp
  moreover have "total_amount xs \<le> unat (op_limit_l p)" if "\<not> op_prepay p"
  proof -
    have "postpay_ok w" using k(1) by (simp add: wallet_inv_def)
    then have "wc_cum_streamed w \<le> op_limit_l p" using that open_reads [OF assms(1)] config_reads [OF k(3)] by (simp add: postpay_ok_def)
    then show ?thesis using k(2) by (simp add: word_le_nat_alt)
  qed
  ultimately show ?thesis using k(4) wallet_run_verifies [OF assms(2)] by auto
qed

theorem slices_capped_and_numbered_witness:
  "\<exists>(co :: channel_open) w0 sl w. client_open_inner toy_suite toy_hpke (\<lambda>x. x) Some ex_psl True ex_trust 0 ex_policy (ex_params False)
      (replicate 32 7) ex_store = Inr (co, w0) \<and> wallet_run toy_suite w0 [sl] w \<and> unat (amt_micro sl) = 500 \<and> unat (seq sl) = 1"
proof -
  obtain co w0 where o: "client_open_inner toy_suite toy_hpke (\<lambda>x. x) Some ex_psl True ex_trust 0 ex_policy (ex_params False)
      (replicate 32 7) ex_store = Inr (co, w0)" using ex_opening by blast
  note r = open_reads [OF o]
  have "wc_policy w0 = ex_policy" using open_built [OF o] by (auto simp: Let_def new_client_def)
  then have "\<exists>sl w. next_slice toy_suite 0 500 w0 = (Inr sl, w) \<and> amt_micro sl = 500"
    using r by (simp add: next_slice_def refresh_halt_def mint_def slice_seal_def Let_def ex_params_def SEQ_MAX_def ex_policy_def
        static_wallet_policy_def static_approve_slice_def static_new_def static_new_multi_def postpay_outstanding_def checked_add_def)
  then obtain sl w where m: "next_slice toy_suite 0 500 w0 = (Inr sl, w)" "amt_micro sl = 500" by blast
  have run: "wallet_run toy_suite w0 [sl] w" using wallet_snoc [OF wallet_nil wallet_step.minted [OF m(1)]] by simp
  show ?thesis using o run m(2) slices_capped_and_numbered [OF o run] by auto
qed

text \<open>C23. Two rounds is the bound, not one. Take a prepay channel without a time threshold in any state in which a full
  round is owed and not credited, no draw is pending, and the operative checkpoint covers all that was
  streamed. The wallet is halted: it refuses every slice. But the merchant's signed notice of a draw over
  that checkpoint lifts the halt before anything was verified on the rail: the wallet then mints a slice
  that stays within a second round, with nothing credited in between; what goes beyond the second round it
  refuses.\<close>

theorem two_rounds_at_risk:
  assumes "client_open_inner cs hs nfc uts46 ps demo t now policy p s registry = Inr (co, w0)" "wallet_run cs w0 xs w"
    and "op_prepay p" "0 < op_th_value p" "op_th_time p = 0"
    and "wc_pending w = None" "wc_operative w = Some op" "unat (oc_cum_total op) = total_amount xs" "honest_draw cs w op d"
    and "total_amount xs * 100 div 10000 = credited w + max (unat (op_th_value p) * 100 div 10000) 1"
    and "(total_amount xs + unat amt) * 100 div 10000 \<le> credited w + 2 * max (unat (op_th_value p) * 100 div 10000) 1"
    and "wp_approve_slice (wc_policy w) (wc_channel_id w) amt = Approve" "unat amt < 2 ^ 48" "wc_next_seq w \<le> SEQ_MAX"
  shows "(\<forall>now0 amt0. fst (next_slice cs now0 amt0 w) = Inl HaltedOnOverdueMeed) \<and>
    (\<exists>w1 sl w2. resume_on_prepay_draw cs now1 d w = (True, w1) \<and> next_slice cs now2 amt w1 = (Inr sl, w2) \<and>
      amt_micro sl = amt \<and> credited w2 = credited w \<and> wallet_run cs w0 (xs @ [sl]) w2 \<and>
      (\<forall>now3 amt3. credited w + 2 * max (unat (op_th_value p) * 100 div 10000) 1 < (total_amount xs + unat amt3) * 100 div 10000 \<longrightarrow>
        (\<exists>e. fst (next_slice cs now3 amt3 w1) = Inl e)))"
proof -
  obtain k where k: "wallet_inv cs w k" "unat (wc_cum_streamed w) = total_amount xs" "config w = config w0"
    using opened_run [OF assms(1,2)] by blast
  note r = open_reads [OF assms(1)] config_reads [OF k(3)]
  let ?R = "max (unat (op_th_value p) * 100 div 10000) 1"
  have nz: "op_th_value p \<noteq> 0" using assms(4) by auto
  have R: "unat (wc_round_carve w) = ?R" "0 < wc_round_carve w" "wc_prepay w" "wc_th_time w = 0"
    using r assms(3,5) nz round_carve_schedule(1) [of "op_th_value p"] by (simp_all add: word_less_nat_alt less_max_iff_disj)
  have t: "target u c = c * 100 div 10000" if "config u = config w" for u c
    using schedule_bps [of u] r config_reads [OF that] by (simp add: target_def)
  have c: "credited w = target w k" using k(1) credited_to_credited by (simp add: wallet_inv_def)
  have full: "target w (total_amount xs) = target w k + ?R" using assms(10) c t [of w] by simp
  have "in_flight w k = 0" using assms(6) by (simp add: in_flight_def)
  then have "wc_round_carve w \<le> owed_beyond_in_flight w (wc_cum_streamed w)"
    using owed_now [OF k(1)] full R(1) k(2) by (simp add: word_le_nat_alt)
  then have "wc_halted (refresh_halt now0 w)" for now0 using R(2,3) by (simp add: refresh_halt_def value_halt_def)
  then have halted: "fst (next_slice cs now0 amt0 w) = Inl HaltedOnOverdueMeed" for now0 amt0
    by (simp add: next_slice_def Let_def)
  obtain pv h where d: "resume_on_prepay_draw cs now1 d w = (True, w\<lparr>wc_pending := Some pv, wc_halted := h\<rparr>)"
    "\<not> pv_defaulted pv" "pv_cum_total pv = oc_cum_total op"
  proof -
    have "target w k < target w (unat (oc_cum_total op))" unfolding assms(8) full by (simp add: less_max_iff_disj)
    from honest_draw_taken [where now = now1, OF k(1) assms(6,7,9) this] show thesis using that by auto
  qed
  let ?u = "w\<lparr>wc_pending := Some pv, wc_halted := h\<rparr>"
  have u: "wallet_inv cs ?u k" by (rule resume_inv [OF k(1) d(1)])
  have tu: "target ?u x = target w x" for x using t [of ?u] t [of w] by simp
  have fl: "in_flight ?u k = ?R" using d(2,3) assms(8) full tu by (simp add: in_flight_def)
  have within: "target w (total_amount xs + unat amt) \<le> target w k + ?R + ?R"
    using assms(11) unfolding c t [OF refl, symmetric] by linarith
  have "\<exists>sl v. next_slice cs now2 amt ?u = (Inr sl, v) \<and> amt_micro sl = amt"
  proof (rule next_slice_minted [OF u])
    show "target ?u (unat (wc_cum_streamed ?u)) < target ?u k + in_flight ?u k + unat (wc_round_carve ?u)"
      using k(2) full tu fl R(1,2) by (simp add: word_less_nat_alt)
    show "target ?u (unat (wc_cum_streamed ?u) + unat amt) \<le> target ?u k + in_flight ?u k + unat (wc_round_carve ?u)"
      using within k(2) tu fl R(1) by simp
  qed (use R assms(12-14) in simp_all)
  then obtain sl v where m: "next_slice cs now2 amt ?u = (Inr sl, v)" "amt_micro sl = amt" by blast
  have v: "wallet_inv cs v k" using next_slice_inv [OF u m(1)] by blast
  have cv: "config v = config w" using minted_keeps [OF m(1)] by simp
  have "credited v = target v k" using v credited_to_credited by (simp add: wallet_inv_def)
  then have kept: "credited v = credited w" using c t [OF cv] t [of w] by simp
  have run: "wallet_run cs w0 (xs @ [sl]) v"
    using wallet_snoc [OF wallet_snoc [OF assms(2) wallet_step.resumed [OF d(1)]] wallet_step.minted [OF m(1)]] by simp
  have beyond: "\<exists>e. fst (next_slice cs now3 amt3 ?u) = Inl e"
    if x: "credited w + 2 * ?R < (total_amount xs + unat amt3) * 100 div 10000" for now3 amt3
  proof (cases "next_slice cs now3 amt3 ?u")
    case (Pair res v3)
    show ?thesis
    proof (cases res)
      case (Inr sl3)
      have n: "wallet_inv cs v3 k \<and> unat (wc_cum_streamed v3) = unat (wc_cum_streamed ?u) + unat (amt_micro sl3)"
        using next_slice_inv [OF u, of now3 amt3 sl3 v3] Pair Inr by simp
      have q: "amt_micro sl3 = amt3" "wc_pending v3 = Some pv" "config v3 = config w" 
        using Pair Inr minted_keeps [of cs now3 amt3 ?u sl3 v3] by (auto elim!: next_slice_cases dest!: mint_cases)
      have "wc_prepay v3" "wc_round_carve v3 = wc_round_carve w" using config_reads [OF q(3)] R(3) by simp_all
      then have "target v3 (unat (wc_cum_streamed v3)) \<le> target v3 (unat (pv_cum_total pv)) + ?R"
        using conjunct1 [OF n] q(2) R(1,2) by (simp add: wallet_inv_def strip_ok_def)
      then show ?thesis using x n q(1) k(2) d(3) assms(8,10) t [OF q(3)] by simp
    qed (use Pair in simp)
  qed
  show ?thesis using halted d(1) m kept run beyond by blast
qed

text \<open>The example: nothing is credited, a round is one unit of carve, and two hundred streamed units owe two.\<close>

theorem two_rounds_at_risk_witness:
  "\<exists>(co :: channel_open) w0 xs w. ex_opens True co w0 \<and> wallet_run toy_suite w0 xs w \<and> credited w = 0 \<and>
     total_amount xs * 100 div 10000 = 2 * (max (unat (op_th_value (ex_params True)) * 100 div 10000) 1)"
proof -
  obtain co w0 where o: "ex_opens True co w0" using ex_opening by blast
  obtain sl w where s: "wallet_run toy_suite w0 [sl] w" "amt_micro sl = 100" "wc_pending w = None" "wallet_inv toy_suite w 0"
      "wc_operative w = Some \<lparr>oc_ckpt_ref = ex_ref, oc_cum_total = 100\<rparr>" "config w = config w0" "wc_policy w = ex_policy"
    by (rule ex_first_round [OF o])
  note c = open_reads [OF o] config_reads [OF s(6)]
  have z: "credited w = 0" using credited_to_credited [of w 0] s(4) ex_target [of w] c by (simp add: wallet_inv_def)
  have "map (\<lambda>s. unat (seq s)) [sl] = [1 ..< unat (wc_next_seq w)]" using opened_run [OF o s(1)] by blast
  then have "1 = unat (wc_next_seq w) - 1" using length_upt [of 1 "unat (wc_next_seq w)"] by (metis length_map length_Cons list.size(3) One_nat_def)
  then have q: "wc_next_seq w \<le> SEQ_MAX" by (simp add: SEQ_MAX_def word_le_nat_alt)
  have "\<exists>w1 sl2 w2. resume_on_prepay_draw toy_suite 0 (ex_draw (wc_seed_instance w)) w = (True, w1) \<and>
      next_slice toy_suite 0 100 w1 = (Inr sl2, w2) \<and> amt_micro sl2 = 100 \<and> credited w2 = credited w \<and>
      wallet_run toy_suite w0 ([sl] @ [sl2]) w2 \<and>
      (\<forall>now3 amt3. credited w + 2 * max (unat (op_th_value (ex_params True)) * 100 div 10000) 1 <
        (total_amount [sl] + unat amt3) * 100 div 10000 \<longrightarrow> (\<exists>e. fst (next_slice toy_suite now3 amt3 w1) = Inl e))"
    by (rule conjunct2 [OF two_rounds_at_risk [OF o s(1) _ _ _ s(3,5) _ ex_honest [OF o s(6)]]])
      (use s(2,7) z q ex_policy_slice in \<open>simp_all add: ex_params_def\<close>)
  then obtain sl2 w2 where m: "amt_micro sl2 = 100" "credited w2 = credited w" "wallet_run toy_suite w0 ([sl] @ [sl2]) w2"
    by blast
  show ?thesis using o m z s(2) by (intro exI [of _ co] exI [of _ w0] exI [of _ "[sl] @ [sl2]"] exI [of _ w2]) (simp add: ex_params_def)
qed

section \<open>The endpoints agree\<close>

text \<open>The two endpoints agree on the accounting: whatever part of the wallet's slices the merchant's channel
  accepted, in any order and with rejections, credits, rounds and commits in between, a checkpoint it builds at
  any cutoff passes the wallet's own basis check, and claims no more than the wallet streamed.\<close>

theorem endpoints_agree:
  assumes "client_open_inner cs hs nfc uts46 ps demo t now policy p s registry = Inr (co, w0)" "wallet_run cs w0 xs w"
    and "evolves cs (new_state cs (op_channel_id p) key m limit_l limit_e SCHEMA_01_ROLES) acc st" "set acc \<subseteq> set xs"
    and "build_checkpoint_at cs cutoff ts prev events st = Some cp"
  shows "checkpoint_basis_ok w cp = Some (word_of_nat (ck_cum_total cp)) \<and> ck_cum_total cp \<le> total_amount xs"
proof -
  obtain k where k: "wallet_inv cs w k" "unat (wc_cum_streamed w) = total_amount xs" "config w = config w0"
    using opened_run [OF assms(1,2)] by blast
  have "wc_channel_id w = op_channel_id p" using open_reads [OF assms(1)] config_reads [OF k(3)] by simp
  then show ?thesis using built_on_basis [OF k(1,2) _ assms(4,5)] assms(3) by simp
qed

theorem endpoints_agree_witness:
  "\<exists>(co :: channel_open) w0 sl w st cp. ex_opens True co w0 \<and> wallet_run toy_suite w0 [sl] w \<and>
     accept_slice toy_suite sl (new_state toy_suite (replicate 8 2) [] Postpay 1000 1000 SCHEMA_01_ROLES) = (Inr (), st) \<and>
     build_checkpoint toy_suite 5 [] [] st = Some cp \<and> ck_cum_total cp = 100 \<and> checkpoint_basis_ok w cp = Some 100"
proof -
  let ?new = "new_state toy_suite (replicate 8 2) [] Postpay 1000 1000 SCHEMA_01_ROLES"
  obtain co w0 where o: "ex_opens True co w0" using ex_opening by blast
  obtain sl w where s: "wallet_run toy_suite w0 [sl] w" "amt_micro sl = 100" by (rule ex_first_round [OF o])
  have "map (\<lambda>s. unat (seq s)) [sl] = [1 ..< unat (wc_next_seq w)]" using opened_run [OF o s(1)] by blast
  from this [symmetric] have q: "unat (seq sl) = 1" by (simp add: upt_eq_Cons_conv)
  have v: "slice_verify toy_suite k sl" for k
    using wallet_run_verifies [OF s(1)] by (simp add: slice_verify_def slice_tag_verify_def slice_tag_def toy_suite_def)
  have f: "st_k_session ?new = Some []" "st_phase ?new = PhOpen" "st_floor ?new = 0" "st_accounted ?new = []" "st_window ?new = []"
      "st_paused_window ?new = False" "st_balance ?new = 0" "st_unevidenced ?new = 0" "st_bound_upper ?new = 1000"
      "st_limit_e ?new = 1000" "st_cum_total ?new = 0" "st_vector ?new = SCHEMA_01_ROLES" "st_accruals ?new = replicate 4 0"
    by (simp_all add: new_state_def Let_def i128_or_max_def I128_MAX_def) (simp add: SCHEMA_01_ROLES_def)
  have "admissible toy_suite sl ?new"
    using f v q s(2) by (simp add: admissible_def sat_i128_def I128_MAX_def I128_MIN_def U128_MAX_def word_less_nat_alt)
  then have a: "accept_slice toy_suite sl ?new = (Inr (), accepted_state sl ?new)" by (simp add: accept_slice_Inr)
  have "\<exists>e. exclude_accruals SCHEMA_01_ROLES (accrue_big (replicate 4 0) SCHEMA_01_ROLES 100) 0 = Some e"
    by (simp add: SCHEMA_01_ROLES_def eval_nat_numeral)
  then obtain e where "exclude_accruals SCHEMA_01_ROLES (accrue_big (replicate 4 0) SCHEMA_01_ROLES 100) 0 = Some e" by blast
  then have "\<exists>cp. build_checkpoint toy_suite 5 [] [] (accepted_state sl ?new) = Some cp"
    using f s(2) q by (simp add: build_checkpoint_def build_checkpoint_at_def accepted_state_def Let_def checked_u128_def U128_MAX_def
      window_amounts_def checked_i128_def cast_i128_def sat_i128_def I128_MAX_def I128_MIN_def split: prod.split)
  then obtain cp where cp: "build_checkpoint toy_suite 5 [] [] (accepted_state sl ?new) = Some cp" by blast
  have "evolves toy_suite ?new ([] @ [sl]) (accepted_state sl ?new)" by (rule evolves.accept [OF evolves.start a])
  moreover have "op_channel_id (ex_params True) = replicate 8 2" by (simp add: ex_params_def)
  ultimately have g: "checkpoint_basis_ok w cp = Some (word_of_nat (ck_cum_total cp))"
    using endpoints_agree [OF o s(1), of "[]" Postpay 1000 1000 "[sl]"] cp by (simp add: build_checkpoint_def)
  have "ck_cum_total cp = 100"
    using build_fields(2) [OF cp [unfolded build_checkpoint_def]] f s(2)
    by (simp add: excluded_at_def window_amounts_def accepted_state_def Let_def U128_MAX_def)
  then show ?thesis using o s(1) a cp g by (intro exI conjI) auto
qed

section \<open>Credit stands for value\<close>

text \<open>C14. A credit stands for value the recipients got: when the wallet credits a pending round against the rail
  in a reachable state, the instance of the channel's seed has advanced this channel at least to everything
  the wallet now counts as credited - and keeps it there under all later calls of the rail - and when the
  channel requires the level \<open>final\<close>, the reference of the draw is final.\<close>

theorem credit_stands_for_value:
  assumes "client_open_inner cs hs nfc uts46 ps demo t now policy p s registry = Inr (co, w0)" "wallet_run cs w0 xs w"
    and "rail_reach cs' nfc' m v r" "rail_after cs' nfc' r u"
    and "verify_pending_draw cs (virtual_view r) now1 now2 w = Inr (True, w')"
  shows "(\<exists>addr i. vr_instances u addr = Some i \<and> mi_seed_instance i = wc_seed_instance w0 \<and>
      credited w' \<le> unat (instance_channel_funded_p (op_channel_id p) i)) \<and>
    (op_fin_meed p = ascii ''final'' \<longrightarrow> (\<forall>pv ob. wc_pending w = Some pv \<and> rail_finality (pv_tx_ref pv) r = Inr ob \<longrightarrow>
      (\<exists>tm. ob = Some \<lparr>fo_level = ascii ''final'', fo_time = tm\<rparr>)))"
proof -
  obtain k where k: "wallet_inv cs w k" "config w = config w0" using opened_run [OF assms(1,2)] by blast
  note c = open_reads [OF assms(1)] config_reads [OF k(2)]
  obtain pv w1 where pv: "wc_pending w = Some pv" "try_credit cs (virtual_view r) pv w = Inr (Some w1)"
      "w' = refresh_halt now2 (w1\<lparr>wc_pending := None, wc_last_settle := now1\<rparr>)"
    using assms(5) by (auto simp: verify_pending_draw_def split: option.splits)
  have d: "distributed (virtual_view r) pv w" "finality_reached (virtual_view r) (pv_tx_ref pv) (wc_fin_meed w) = Inr True"
    using pv(2) by (auto simp: try_credit_def split: if_splits)
  obtain tm info f where f: "vr_refs r (pv_tx_ref pv) = Some (tm, info)" "ri_advanced info = Some f"
      "af_channel_id f = wc_channel_id w" "af_seed_instance f = wc_seed_instance w" "pv_amount pv \<le> af_funded_p f"
    using distributed_view [OF d(1)] by blast
  have l: "later r u" "facts_ok cs' nfc' u" using reach_later [OF assms(3,4)] by simp_all
  have "vr_refs u (pv_tx_ref pv) = Some (tm, info)" using l(1) f(1) unfolding later_def map_le_def by (metis domI)
  then have "backed u info" using facts_okD(1) [OF l(2)] by (auto simp: ref_ok_def)
  then obtain i where i: "vr_instances u (ri_to info) = Some i" "mi_seed_instance i = af_seed_instance f"
      "af_funded_p f \<le> instance_channel_funded_p (af_channel_id f) i"
    using f(2) unfolding backed_def by blast
  have "wallet_inv cs w' (unat (pv_cum_total pv))" using try_credit_Some [OF k(1) pv(1,2), of now1] pv(3) by auto
  then have "credited w' = target w' (unat (pv_cum_total pv))" using credited_to_credited by (simp add: wallet_inv_def)
  moreover have "config w' = config w" using verify_keeps [OF assms(5)] by simp
  then have "target w' (unat (pv_cum_total pv)) = target w (unat (pv_cum_total pv))"
    using config_reads [of w' w] by (simp add: target_def total_bp_def bps_def)
  moreover have "unat (pv_amount pv) = target w (unat (pv_cum_total pv))" using k(1) pv(1) by (simp add: wallet_inv_def pending_ok_def)
  ultimately have "credited w' \<le> unat (instance_channel_funded_p (op_channel_id p) i)"
    using f(3,5) i(3) c by (simp add: word_le_nat_alt)
  moreover have "\<exists>tm. ob = Some \<lparr>fo_level = ascii ''final'', fo_time = tm\<rparr>"
    if "op_fin_meed p = ascii ''final''" "rail_finality (pv_tx_ref pv) r = Inr ob" for ob
    using reached_final [OF that(2)] d(2) that(1) c by simp
  ultimately show ?thesis using i f(4) c pv(1) by auto
qed

theorem credit_stands_for_value_witness:
  "\<exists>(co :: channel_open) w0 xs w (r :: inner) w' addr i. ex_opens True co w0 \<and> wallet_run toy_suite w0 xs w \<and>
     verify_pending_draw toy_suite (virtual_view r) 1 1 w = Inr (True, w') \<and> vr_instances r addr = Some i \<and>
     mi_seed_instance i = wc_seed_instance w0 \<and> credited w' \<le> unat (instance_channel_funded_p (replicate 8 2) i)"
proof -
  obtain co w0 where o: "ex_opens True co w0" using ex_opening by blast
  obtain xs w r m v w' where s: "wallet_run toy_suite w0 xs w" "rail_reach toy_suite (\<lambda>x. x) m v r"
      "verify_pending_draw toy_suite (virtual_view r) 1 1 w = Inr (True, w')"
    using ex_credit [OF o] by blast
  have "op_channel_id (ex_params True) = replicate 8 2" by (simp add: ex_params_def)
  then show ?thesis using credit_stands_for_value [OF o s(1,2) after_refl s(3)] o s by metis
qed

text \<open>C16. An honest merchant is always credited: from any state of an opened channel with an operative checkpoint
  beyond the credited position and no round pending, when the merchant advances the channel on the rail to the
  checkpoint's position and the reference becomes final, its signed draw is taken up, and verified once, and
  credits exactly that position; the channel is then not halted when the checkpoint covered all that was streamed
  and the value threshold is positive. The instance divides by a positive weight (without one an advance does
  nothing), the channel asks for one of the two finality levels the rail has, and the volume moved on
  the rail stays in the 128-bit domain.\<close>

theorem honest_draw_credited:
  assumes "client_open_inner cs hs nfc uts46 ps demo t now policy p s registry = Inr (co, w0)" "wallet_run cs w0 xs w"
    and "wc_pending w = None" "wc_operative w = Some op" "credited w < unat (oc_cum_total op) * 100 div 10000"
    and "honest_draw cs w op d"
    and "rail_reach cs' nfc' m v r0" "v < 2 ^ 128" "vr_instances r0 addr = Some i" "mi_seed_instance i = wc_seed_instance w"
    and "advance_channel_meed src addr (wc_channel_id w) (word_of_nat (pd_amount d)) a r0 = Inr (pd_tx_ref d, r1)"
    and "rail_after cs' nfc' r1 r2" "rail_finality (pd_tx_ref d) r2 = Inr (Some \<lparr>fo_level = ascii ''final'', fo_time = tm\<rparr>)"
    and "op_fin_meed p \<in> {ascii ''pending'', ascii ''final''}" "0 < mi_bp_total i"
  shows "\<exists>w1 w2. resume_on_prepay_draw cs now1 d w = (True, w1) \<and> verify_pending_draw cs (virtual_view r2) now2 now3 w1 = Inr (True, w2) \<and>
    wc_pending w2 = None \<and> credited w2 = unat (oc_cum_total op) * 100 div 10000 \<and>
    (unat (oc_cum_total op) = total_amount xs \<and> 0 < op_th_value p \<longrightarrow> \<not> wc_halted w2)"
proof -
  obtain k where k: "wallet_inv cs w k" "unat (wc_cum_streamed w) = total_amount xs" "config w = config w0"
    using opened_run [OF assms(1,2)] by blast
  note c = open_reads [OF assms(1)] config_reads [OF k(3)]
  have t: "target u x = x * 100 div 10000" if "config u = config w" for u x
    using schedule_bps [of u] c config_reads [OF that] by (simp add: target_def)
  have "credited w = target w k" using k(1) credited_to_credited by (simp add: wallet_inv_def)
  then have owed: "target w k < target w (unat (oc_cum_total op))" using assms(5) t [of w] by simp
  obtain pv w1 h where w1: "resume_on_prepay_draw cs now1 d w = (True, w1)" "w1 = w\<lparr>wc_pending := Some pv, wc_halted := h\<rparr>"
      "pv_tx_ref pv = pd_tx_ref d" "pv_cum_total pv = oc_cum_total op" "unat (pv_amount pv) = pd_amount d"
    using honest_draw_taken [where now = now1, OF k(1) assms(3,4,6) owed] by blast
  have inv: "wallet_inv cs w1 k" by (rule resume_inv [OF k(1) w1(1)])
  have x: "rail_exec cs' nfc' (AdvanceChannelMeed src addr (wc_channel_id w) (word_of_nat (pd_amount d)) a) r0 = Inr r1"
    using assms(11) by (simp add: state_of_def)
  have "rail_after cs' nfc' r0 r2" using exec_after [OF x] assms(12) unfolding rail_after_def by (rule rtranclp_trans)
  have l: "later r1 r2" using after_develops [OF assms(12)] after_develops [OF exec_after [OF x]] reach_facts [OF assms(7)]
    by (simp add: develops_def)
  obtain tm' info f where f: "vr_refs r1 (pd_tx_ref d) = Some (tm', info)" "ri_advanced info = Some f" "af_channel_id f = wc_channel_id w"
      "af_seed_instance f = mi_seed_instance i" "word_of_nat (pd_amount d) \<le> af_funded_p f"
    using advance_recorded [OF assms(7-9,15,11)] by blast
  have "vr_refs r2 (pv_tx_ref pv) = Some (tm', info)" using l f(1) w1(3) unfolding later_def map_le_def by (metis domI)
  moreover have "word_of_nat (pd_amount d) = pv_amount pv" unfolding w1(5) [symmetric] by simp
  then have "pv_amount pv \<le> af_funded_p f" using f(5) by simp
  ultimately have "distributed (virtual_view r2) pv w1"
    using f assms(10) w1(2) by (intro view_distributed [of r2 pv tm' info f]) simp_all
  moreover have "finality_reached (virtual_view r2) (pv_tx_ref pv) (wc_fin_meed w1) = Inr True"
    using final_reached [OF assms(13), of "op_fin_meed p"] assms(14) w1(2,3) c by (auto simp: virtual_levels)
  moreover have "wc_pending w1 = Some pv" using w1(2) by simp
  ultimately obtain w2 where w2: "verify_pending_draw cs (virtual_view r2) now2 now3 w1 = Inr (True, w2)" "wc_pending w2 = None"
      "wallet_inv cs w2 (unat (oc_cum_total op))" "config w2 = config w1"
      "pv_cum_total pv = wc_cum_streamed w1 \<and> 0 < wc_round_carve w1 \<longrightarrow> \<not> wc_halted w2"
    using verify_credits [where now = now2 and nxt = now3, OF inv] unfolding w1(4) [symmetric] by blast
  have "credited w2 = target w2 (unat (oc_cum_total op))" using w2(3) credited_to_credited by (simp add: wallet_inv_def)
  then have "credited w2 = unat (oc_cum_total op) * 100 div 10000" using t [of w2] w2(4) w1(2) by simp
  moreover have "0 < op_th_value p \<Longrightarrow> 0 < wc_round_carve w1"
    using w1(2) c round_carve_schedule(1) [of "op_th_value p"] by (auto simp: word_less_nat_alt less_max_iff_disj split: if_splits)
  moreover have "unat (oc_cum_total op) = total_amount xs \<Longrightarrow> pv_cum_total pv = wc_cum_streamed w1"
    using k(2) w1(2,4) by (simp add: word_unat_eq_iff)
  ultimately show ?thesis using w1(1) w2 by auto
qed

theorem honest_draw_credited_witness:
  "\<exists>(co :: channel_open) w0 sl w d w1 (r :: inner) w2. ex_opens True co w0 \<and> wallet_run toy_suite w0 [sl] w \<and>
     resume_on_prepay_draw toy_suite 0 d w = (True, w1) \<and> verify_pending_draw toy_suite (virtual_view r) 0 0 w1 = Inr (True, w2) \<and>
     credited w2 = 1 \<and> \<not> wc_halted w2"
proof -
  obtain co w0 where o: "ex_opens True co w0" using ex_opening by blast
  obtain sl w where s: "wallet_run toy_suite w0 [sl] w" "amt_micro sl = 100" "wc_pending w = None" "wallet_inv toy_suite w 0"
      "wc_operative w = Some \<lparr>oc_ckpt_ref = ex_ref, oc_cum_total = 100\<rparr>" "config w = config w0" by (rule ex_first_round [OF o])
  note c = open_reads [OF o] config_reads [OF s(6)]
  have z: "credited w = 0" using credited_to_credited [of w 0] s(4) ex_target [of w] c by (simp add: wallet_inv_def)
  obtain r0 addr i r1 tm where r: "rail_reach toy_suite (\<lambda>x. x) 0 0 r0" "vr_instances r0 addr = Some i"
      "mi_seed_instance i = wc_seed_instance w0" "0 < mi_bp_total i"
      "advance_channel_meed None addr (replicate 8 2) 1 ex_asset r0 = Inr (ref_id 0, r1)"
      "rail_finality (ref_id 0) r1 = Inr (Some \<lparr>fo_level = ascii ''final'', fo_time = tm\<rparr>)"
    by (rule ex_rail [OF o])
  have "\<exists>w1 w2. resume_on_prepay_draw toy_suite 0 (ex_draw (wc_seed_instance w)) w = (True, w1) \<and>
      verify_pending_draw toy_suite (virtual_view r1) 0 0 w1 = Inr (True, w2) \<and> wc_pending w2 = None \<and>
      credited w2 = unat (oc_cum_total \<lparr>oc_ckpt_ref = ex_ref, oc_cum_total = 100\<rparr>) * 100 div 10000 \<and>
      (unat (oc_cum_total \<lparr>oc_ckpt_ref = ex_ref, oc_cum_total = 100\<rparr>) = total_amount [sl] \<and> 0 < op_th_value (ex_params True) \<longrightarrow>
        \<not> wc_halted w2)"
    by (rule honest_draw_credited [OF o s(1,3,5) _ ex_honest [OF o s(6)] r(1) _ r(2) _ _ after_refl])
      (use z r c in \<open>simp_all add: ex_draw_def ex_params_def\<close>)
  then obtain w1 w2 where "resume_on_prepay_draw toy_suite 0 (ex_draw (wc_seed_instance w)) w = (True, w1)"
      "verify_pending_draw toy_suite (virtual_view r1) 0 0 w1 = Inr (True, w2)" "credited w2 = 1" "\<not> wc_halted w2"
    using s(2) by (auto simp: ex_params_def)
  then show ?thesis using o s(1) by blast
qed

end
