(* ===== verification/Merchant_Channel.thy ===== *)
theory Merchant_Channel
  imports Handshake Wallet_Channel Channel_State One_Decision
begin

text \<open>
  The merchant's establishment driver (\<^verbatim>\<open>crates/paytp-merchant/src/channel.rs\<close>): the retained channels, the
  tombstones restored from the durable decision store, the chain snapshots, and the processing of an open in the
  code's order. The hash maps are maps, the hash sets sets; the decision store is a state of its own type, with
  its \<open>decide\<close> (in an environment, what the disk does) an argument, and is held in the driver as the code holds
  its handle. The order in which the store lists its entries is an argument.
\<close>

datatype channel_error = WrongMerchant | BadAuth | TimestampOutOfWindow | ChannelReplay | ChainReplay | ChainRejected
  | StoreUnavailable | SealInvalid | HsMismatch | OffBaselineUnsupported

definition CHOPEN_NS :: bytes where "CHOPEN_NS = ascii ''chopen:''"

definition chopen_key :: "bytes \<Rightarrow> bytes" where
  "chopen_key cid = CHOPEN_NS @ cid"

record chain_snapshot =
  cn_cum_total :: u128
  cn_accruals :: "(u8 \<times> nat) list"
  cn_opening_settled_r :: "(u8 \<times> nat) list"
  cn_opening_net_legs :: u128
  cn_opening_funding :: u128
  cn_imported_balance :: int
  cn_payer_key :: bytes
  cn_mode :: mode
  cn_terms_fingerprint :: bytes
  cn_established_at :: u64

record ledger_openings =
  lo_settled_r :: "(u8 \<times> nat) list"
  lo_net_legs :: u128
  lo_funding :: u128

text \<open>The length of a text is cast to 32 bits.\<close>

definition length_prefixed :: "bytes \<Rightarrow> bytes" where
  "length_prefixed s = to_be_bytes (word_of_nat (length s) :: u32) @ s"

definition chain_terms_body ::
  "mode \<Rightarrow> bytes \<Rightarrow> bytes \<Rightarrow> bytes \<Rightarrow> bytes \<Rightarrow> bytes \<Rightarrow> u128 \<Rightarrow> u64 \<Rightarrow> bytes" where
  "chain_terms_body m seed denom baseline_net fin_meed fin_denom th_value th_time =
     [case m of Postpay \<Rightarrow> 0x01 | Prepay \<Rightarrow> 0x00] @ seed @
     concat (map length_prefixed [denom, baseline_net, fin_meed, fin_denom]) @ to_be_bytes th_value @ to_be_bytes th_time"

definition chain_terms_fingerprint ::
  "crypto_suite \<Rightarrow> mode \<Rightarrow> bytes \<Rightarrow> bytes \<Rightarrow> bytes \<Rightarrow> bytes \<Rightarrow> bytes \<Rightarrow> u128 \<Rightarrow> u64 \<Rightarrow> bytes" where
  "chain_terms_fingerprint cs m seed denom baseline_net fin_meed fin_denom th_value th_time =
     sha256 cs (chain_terms_body m seed denom baseline_net fin_meed fin_denom th_value th_time)"

record settlement_terms =
  sx_denom :: bytes
  sx_baseline_asset :: bytes
  sx_baseline_net :: bytes
  sx_bound_dests :: "bytes list"
  sx_conversion_required :: bool
  sx_settle_ptr :: bytes
  sx_fin_denom :: bytes
  sx_fin_meed :: bytes
  sx_seed_instance :: bytes
  sx_refund_ptr :: "bytes option"
  sx_th_value :: u128
  sx_th_time :: u64

record retained =
  rt_auth_hash :: bytes
  rt_open_hash :: bytes
  rt_payer_key :: bytes
  rt_ack :: channel_ack
  rt_terminated :: bool
  rt_terms :: settlement_terms

record established =
  es_channel_id :: bytes
  es_auth_hash :: bytes
  es_k_session :: bytes
  es_ack :: channel_ack
  es_state :: channel_state
  es_th_value :: u128
  es_th_time :: u64
  es_established_at :: u64
  es_ledger_openings :: "ledger_openings option"

datatype open_outcome = Established established | Retransmit channel_ack

record 's channel_driver =
  dr_signing_key :: bytes
  dr_key :: bytes
  dr_enc_secret :: bytes
  dr_enc_key :: bytes
  dr_settle_ptr :: bytes
  dr_retained :: "bytes \<rightharpoonup> retained"
  dr_consumed :: "(bytes \<times> bytes) set"
  dr_snapshots :: "bytes \<times> bytes \<rightharpoonup> chain_snapshot"
  dr_decisions :: "'s option"
  dr_tombstones :: "bytes set"
  dr_registry :: snapshot_store

section \<open>Construction\<close>

text \<open>\<open>keypair\<close> is the derivation of an X25519 key pair from a seed, of the \<open>x25519-dalek\<close> crate.\<close>

definition driver_with_registry ::
  "crypto_suite \<Rightarrow> (bytes \<Rightarrow> bytes \<times> bytes) \<Rightarrow> bytes \<Rightarrow> bytes \<Rightarrow> bytes \<Rightarrow> snapshot_store \<Rightarrow> 's channel_driver" where
  "driver_with_registry cs keypair signing_key enc_seed settle_ptr registry =
     (let (enc_secret, enc_key) = keypair enc_seed in
      \<lparr>dr_signing_key = signing_key, dr_key = ed25519_public cs signing_key, dr_enc_secret = enc_secret, dr_enc_key = enc_key,
       dr_settle_ptr = settle_ptr, dr_retained = Map.empty, dr_consumed = {}, dr_snapshots = Map.empty, dr_decisions = None,
       dr_tombstones = {}, dr_registry = registry\<rparr>)"

definition driver_new ::
  "crypto_suite \<Rightarrow> (bytes \<Rightarrow> bytes \<times> bytes) \<Rightarrow> bytes \<Rightarrow> bytes \<Rightarrow> bytes \<Rightarrow> 's channel_driver" where
  "driver_new cs keypair signing_key enc_seed settle_ptr = driver_with_registry cs keypair signing_key enc_seed settle_ptr []"

definition strip_key_prefix :: "bytes \<Rightarrow> bytes \<Rightarrow> bytes option" where
  "strip_key_prefix p bs = (if take (length p) bs = p then Some (drop (length p) bs) else None)"

text \<open>An invalid identifier ends the restoration; what was inserted before it stays.\<close>

fun restore_tombstones :: "(bytes \<times> bytes) list \<Rightarrow> bytes set \<Rightarrow> (channel_error + unit) \<times> bytes set" where
  "restore_tombstones [] ts = (Inr (), ts)"
| "restore_tombstones ((k, v) # es) ts = (case strip_key_prefix CHOPEN_NS k of
     None \<Rightarrow> restore_tombstones es ts
   | Some cid \<Rightarrow> if length cid \<noteq> 8 then (Inl StoreUnavailable, ts) else restore_tombstones es (insert cid ts))"

definition attach_decisions ::
  "(bytes \<times> bytes) list \<Rightarrow> 's \<Rightarrow> 's channel_driver \<Rightarrow> (channel_error + unit) \<times> 's channel_driver" where
  "attach_decisions entries store d = (case restore_tombstones entries (dr_tombstones d) of
     (Inl e, ts) \<Rightarrow> (Inl e, d\<lparr>dr_tombstones := ts\<rparr>)
   | (Inr _, ts) \<Rightarrow> (Inr (), d\<lparr>dr_tombstones := ts, dr_decisions := Some store\<rparr>))"

definition record_chain_snapshot :: "bytes \<times> bytes \<Rightarrow> chain_snapshot \<Rightarrow> 's channel_driver \<Rightarrow> 's channel_driver" where
  "record_chain_snapshot key snapshot d = d\<lparr>dr_snapshots := (dr_snapshots d)(key \<mapsto> snapshot)\<rparr>"

definition remove_chain_snapshot :: "bytes \<times> bytes \<Rightarrow> 's channel_driver \<Rightarrow> 's channel_driver" where
  "remove_chain_snapshot key d = d\<lparr>dr_snapshots := (dr_snapshots d)(key := None)\<rparr>"

text \<open>A signature that fails panics here, on a host that is not normalized.\<close>

definition issue_artifact ::
  "crypto_suite \<Rightarrow> (nat list \<Rightarrow> nat list) \<Rightarrow> (bytes \<Rightarrow> bytes option) \<Rightarrow> bytes \<Rightarrow> bytes \<Rightarrow> u64 \<Rightarrow> u64 \<Rightarrow> 's channel_driver \<Rightarrow>
   error fault + binding_artifact" where
  "issue_artifact cs nfc uts46 host cert_hash not_before not_after d =
     map_err (\<lambda>_. Panic) (artifact_sign cs nfc uts46 (dr_signing_key d)
       \<lparr>ba_host = host, ba_cert_hash = cert_hash, ba_enc_key = dr_enc_key d, ba_not_before = not_before,
        ba_not_after = not_after, ba_sig = None\<rparr>)"

section \<open>Opening a channel\<close>

definition auth_channel_mode :: "channel_auth \<Rightarrow> mode" where
  "auth_channel_mode a = (if ca_mode a = MODE_POSTPAY then Postpay else Prepay)"

definition unseal :: "hpke_suite \<Rightarrow> (nat list \<Rightarrow> nat list) \<Rightarrow> channel_open \<Rightarrow> 's channel_driver \<Rightarrow> channel_error + bytes" where
  "unseal hs nfc o' d =
     and_then (map_err (\<lambda>_. BadAuth) (canonical_content nfc (co_auth o'))) (\<lambda>aad.
     map_err (\<lambda>_. SealInvalid) (open_session_secret hs (dr_enc_secret d) (co_seal o') aad))"

definition derive_key :: "crypto_suite \<Rightarrow> channel_auth \<Rightarrow> bytes \<Rightarrow> bytes" where
  "derive_key cs a s = k_session cs s (bind_salt cs (ca_payer_key a) (ca_merchant_key a)) (ca_channel_id a)"

fun snapshot_accruals :: "(u8 \<times> nat) list \<Rightarrow> vector_entry list \<Rightarrow> channel_error + nat list" where
  "snapshot_accruals accs [] = Inr []"
| "snapshot_accruals accs (v # vs) = (case List.find (\<lambda>(r, n). r = ve_role v) accs of
     None \<Rightarrow> Inl ChainRejected
   | Some (r, n) \<Rightarrow> and_then (snapshot_accruals accs vs) (\<lambda>ns. Inr (n # ns)))"

definition chained_import ::
  "crypto_suite \<Rightarrow> bytes \<times> bytes \<Rightarrow> channel_auth \<Rightarrow> bytes \<Rightarrow> bytes \<Rightarrow> mode \<Rightarrow> 's channel_driver \<Rightarrow>
   channel_error + channel_state \<times> ledger_openings \<times> u64" where
  "chained_import cs pred a k_sess seed m d =
     and_then (ok_or (dr_snapshots d pred) ChainRejected) (\<lambda>snap.
     if cn_payer_key snap \<noteq> ca_payer_key a \<or> m \<noteq> cn_mode snap then Inl ChainRejected
     else if ca_denom a \<noteq> ca_baseline_asset a then Inl ChainRejected
     else if chain_terms_fingerprint cs m seed (ca_denom a) (ca_baseline_net a) (ca_fin_meed a) (ca_fin_denom a)
               (ca_th_value a) (ca_th_time a) \<noteq> cn_terms_fingerprint snap then Inl ChainRejected
     else
       and_then (snapshot_accruals (cn_accruals snap) (ca_vector a)) (\<lambda>accs.
       and_then (map_err (\<lambda>_. ChainRejected) (new_imported cs (ca_channel_id a) k_sess m (ca_limit_l a) (ca_limit_e a)
           (auth_roles_bp a) (cn_cum_total snap) accs (cn_imported_balance snap))) (\<lambda>st.
       Inr (st, \<lparr>lo_settled_r = cn_opening_settled_r snap, lo_net_legs = cn_opening_net_legs snap,
                 lo_funding = cn_opening_funding snap\<rparr>, cn_established_at snap))))"

definition established_of ::
  "crypto_suite \<Rightarrow> channel_auth \<Rightarrow> bytes \<Rightarrow> bytes \<Rightarrow> channel_ack \<Rightarrow> (channel_state \<times> ledger_openings \<times> u64) option \<Rightarrow> established" where
  "established_of cs a h k_sess ack imp =
     (let (st, openings, at) = (case imp of
          Some (st, openings, at) \<Rightarrow> (st, Some openings, at)
        | None \<Rightarrow> (new_state cs (ca_channel_id a) k_sess (auth_channel_mode a) (ca_limit_l a) (ca_limit_e a) (auth_roles_bp a),
                   None, ca_timestamp a)) in
      \<lparr>es_channel_id = ca_channel_id a, es_auth_hash = h, es_k_session = k_sess, es_ack = ack, es_state = st,
       es_th_value = ca_th_value a, es_th_time = ca_th_time a, es_established_at = at, es_ledger_openings = openings\<rparr>)"

definition terms_of :: "bytes \<Rightarrow> bytes \<Rightarrow> channel_auth \<Rightarrow> settlement_terms" where
  "terms_of settle_ptr seed a =
     \<lparr>sx_denom = ca_denom a, sx_baseline_asset = ca_baseline_asset a, sx_baseline_net = ca_baseline_net a,
      sx_bound_dests = map ve_dest (ca_vector a) @ [settle_ptr], sx_conversion_required = (ca_denom a \<noteq> ca_baseline_asset a),
      sx_settle_ptr = settle_ptr, sx_fin_denom = ca_fin_denom a, sx_fin_meed = ca_fin_meed a, sx_seed_instance = seed,
      sx_refund_ptr = ca_refund_ptr a, sx_th_value = ca_th_value a, sx_th_time = ca_th_time a\<rparr>"

definition abs_diff :: "'a::len word \<Rightarrow> 'a word \<Rightarrow> 'a word" where
  "abs_diff a b = (if a < b then b - a else a - b)"

text \<open>The checks before the channel map is consulted (steps 1 to 2): the two hashes.\<close>

definition open_hashes ::
  "crypto_suite \<Rightarrow> (nat list \<Rightarrow> nat list) \<Rightarrow> bool \<Rightarrow> u64 \<Rightarrow> channel_open \<Rightarrow> 's channel_driver \<Rightarrow> channel_error + bytes \<times> bytes" where
  "open_hashes cs nfc demo now o' d =
     (let a = co_auth o' in
      if ca_merchant_key a \<noteq> dr_key d then Inl WrongMerchant
      else
        and_then (map_err (\<lambda>_. BadAuth) (auth_verify cs nfc a)) (\<lambda>_.
        and_then (map_err (\<lambda>_. BadAuth) (auth_validate_vector_governed demo nfc (dr_registry d) a)) (\<lambda>_.
        if ca_denom a \<noteq> ca_baseline_asset a then Inl OffBaselineUnsupported
        else if SKEW_SECS + LATENCY_SECS < abs_diff now (ca_timestamp a) then Inl TimestampOutOfWindow
        else
          and_then (map_err (\<lambda>_. BadAuth) (auth_hash cs nfc a)) (\<lambda>h.
          and_then (map_err (\<lambda>_. BadAuth) (open_encode nfc o')) (\<lambda>bs. Inr (h, sha256 cs bs))))))"

text \<open>The establishment of a channel whose identifier and predecessor are free (steps 4 to 5), before anything
  is recorded: the session key, the instance seed, the imported position and the signed acknowledgement.\<close>

definition open_fresh ::
  "crypto_suite \<Rightarrow> hpke_suite \<Rightarrow> (nat list \<Rightarrow> nat list) \<Rightarrow> channel_open \<Rightarrow> bytes \<Rightarrow> 's channel_driver \<Rightarrow>
   channel_error + bytes \<times> bytes \<times> (channel_state \<times> ledger_openings \<times> u64) option \<times> channel_ack" where
  "open_fresh cs hs nfc o' h d =
     (let a = co_auth o' in
      and_then (unseal hs nfc o' d) (\<lambda>s.
      if h_commit cs s \<noteq> ca_hs a then Inl HsMismatch
      else
        let k_sess = derive_key cs a s in
        and_then (map_err (\<lambda>_. BadAuth) (seed_instance cs nfc (auth_instance_inputs a))) (\<lambda>seed.
        and_then (case ca_predecessor a of
            Some pred \<Rightarrow> and_then (chained_import cs pred a k_sess seed (auth_channel_mode a) d) (\<lambda>i. Inr (Some i))
          | None \<Rightarrow> Inr None) (\<lambda>imp.
        and_then (map_err (\<lambda>_. BadAuth) (ack_sign cs nfc (dr_signing_key d)
            \<lparr>ck_auth_hash = h, ck_settle_ptr = dr_settle_ptr d, ck_sig = None\<rparr>)) (\<lambda>ack.
        Inr (k_sess, seed, imp, ack))))))"

text \<open>The durable record of the acceptance: a driver without a store skips it.\<close>

definition claim_open ::
  "('e \<Rightarrow> bytes \<Rightarrow> bytes \<Rightarrow> 's \<Rightarrow> decision \<times> 's) \<Rightarrow> 'e \<Rightarrow> bytes \<Rightarrow> 's channel_driver \<Rightarrow> (channel_error + unit) \<times> 's channel_driver" where
  "claim_open decide e cid d = (case dr_decisions d of
     None \<Rightarrow> (Inr (), d)
   | Some store \<Rightarrow> (case decide e (chopen_key cid) [] store of
       (Fresh, store') \<Rightarrow> (Inr (), d\<lparr>dr_decisions := Some store'\<rparr>)
     | (AlreadyDecided _, store') \<Rightarrow> (Inl ChannelReplay, d\<lparr>dr_decisions := Some store'\<rparr>)
     | (Failed, store') \<Rightarrow> (Inl StoreUnavailable, d\<lparr>dr_decisions := Some store'\<rparr>)))"

definition open_channel ::
  "crypto_suite \<Rightarrow> hpke_suite \<Rightarrow> (nat list \<Rightarrow> nat list) \<Rightarrow> bool \<Rightarrow> ('e \<Rightarrow> bytes \<Rightarrow> bytes \<Rightarrow> 's \<Rightarrow> decision \<times> 's) \<Rightarrow> 'e \<Rightarrow>
   channel_open \<Rightarrow> u64 \<Rightarrow> 's channel_driver \<Rightarrow> (channel_error + open_outcome) \<times> 's channel_driver" where
  "open_channel cs hs nfc demo decide e o' now d =
     (let a = co_auth o' in
      case open_hashes cs nfc demo now o' d of
        Inl err \<Rightarrow> (Inl err, d)
      | Inr (h, oh) \<Rightarrow>
          if ca_channel_id a \<in> dr_tombstones d then (Inl ChannelReplay, d)
          else (case dr_retained d (ca_channel_id a) of
              Some r \<Rightarrow>
                if \<not> rt_terminated r \<and> rt_auth_hash r = h \<and> rt_open_hash r = oh then (Inr (Retransmit (rt_ack r)), d)
                else (Inl ChannelReplay, d)
            | None \<Rightarrow>
                if (case ca_predecessor a of Some pred \<Rightarrow> pred \<in> dr_consumed d | None \<Rightarrow> False) then (Inl ChainReplay, d)
                else (case open_fresh cs hs nfc o' h d of
                    Inl err \<Rightarrow> (Inl err, d)
                  | Inr (k_sess, seed, imp, ack) \<Rightarrow>
                      (case claim_open decide e (ca_channel_id a) d of
                         (Inl err, d) \<Rightarrow> (Inl err, d)
                       | (Inr _, d) \<Rightarrow>
                           (Inr (Established (established_of cs a h k_sess ack imp)),
                            d\<lparr>dr_retained := (dr_retained d)(ca_channel_id a \<mapsto>
                                \<lparr>rt_auth_hash = h, rt_open_hash = oh, rt_payer_key = ca_payer_key a, rt_ack = ack,
                                 rt_terminated = False, rt_terms = terms_of (dr_settle_ptr d) seed a\<rparr>),
                              dr_consumed := (case (ca_predecessor a, imp) of
                                  (Some pred, Some _) \<Rightarrow> insert pred (dr_consumed d)
                                | _ \<Rightarrow> dr_consumed d)\<rparr>)))))"

section \<open>The retained channels\<close>

definition countersign_checkpoint :: "crypto_suite \<Rightarrow> checkpoint \<Rightarrow> 's channel_driver \<Rightarrow> channel_error + checkpoint" where
  "countersign_checkpoint cs cp d = map_err (\<lambda>_. BadAuth) (sign_merchant cs (dr_signing_key d) cp)"

definition terminate :: "bytes \<Rightarrow> 's channel_driver \<Rightarrow> 's channel_driver" where
  "terminate cid d = (case dr_retained d cid of
     Some r \<Rightarrow> d\<lparr>dr_retained := (dr_retained d)(cid \<mapsto> r\<lparr>rt_terminated := True\<rparr>)\<rparr>
   | None \<Rightarrow> d)"

definition driver_payer_key :: "bytes \<Rightarrow> 's channel_driver \<Rightarrow> bytes option" where
  "driver_payer_key cid d = map_option rt_payer_key (dr_retained d cid)"

definition driver_auth_hash :: "bytes \<Rightarrow> 's channel_driver \<Rightarrow> bytes option" where
  "driver_auth_hash cid d = map_option rt_auth_hash (dr_retained d cid)"

definition driver_terms :: "bytes \<Rightarrow> 's channel_driver \<Rightarrow> settlement_terms option" where
  "driver_terms cid d = map_option rt_terms (dr_retained d cid)"

definition serve_ack_request :: "crypto_suite \<Rightarrow> ack_request \<Rightarrow> u64 \<Rightarrow> 's channel_driver \<Rightarrow> channel_ack option" where
  "serve_ack_request cs req now d = (case dr_retained d (ar_channel_id req) of
     None \<Rightarrow> None
   | Some r \<Rightarrow>
       if SKEW_SECS + LATENCY_SECS < abs_diff now (ar_timestamp req) then None
       else if ack_request_verify cs (rt_payer_key r) req \<noteq> Inr () then None
       else Some (rt_ack r))"

end
