(* ===== verification/Merchant_History.thy ===== *)
theory Merchant_History
  imports Merchant_Channel
begin

text \<open>
  Histories of the merchant's driver over the lives of its process: opens, ends, snapshots, claims of other parts
  of the channel plane in the shared store, crashes with a restart. The invariant ties every identifier ever
  accepted to its record in the store.
\<close>

section \<open>One open\<close>

lemma claim_open_cases:
  assumes "claim_open decide e cid d = (r, d')"
  obtains (no_store) "dr_decisions d = None" "r = Inr ()" "d' = d"
  | (fresh) st st' where "dr_decisions d = Some st" "decide e (chopen_key cid) [] st = (Fresh, st')" "r = Inr ()"
      "d' = d\<lparr>dr_decisions := Some st'\<rparr>"
  | (refused) st dec st' err where "dr_decisions d = Some st" "decide e (chopen_key cid) [] st = (dec, st')" "r = Inl err"
      "d' = d\<lparr>dr_decisions := Some st'\<rparr>"
  using assms
  by (cases "dr_decisions d") (auto simp: claim_open_def split: prod.splits decision.splits)

text \<open>An open that establishes a channel, and any other answer.\<close>

lemma open_established:
  assumes "open_channel cs hs nfc demo decide e o' now d = (Inr (Established x), d')"
  obtains h oh k_sess seed imp ack d1 where "open_hashes cs nfc demo now o' d = Inr (h, oh)"
    "ca_channel_id (co_auth o') \<notin> dr_tombstones d" "dr_retained d (ca_channel_id (co_auth o')) = None"
    "\<And>pred. ca_predecessor (co_auth o') = Some pred \<Longrightarrow> pred \<notin> dr_consumed d"
    "open_fresh cs hs nfc o' h d = Inr (k_sess, seed, imp, ack)"
    "claim_open decide e (ca_channel_id (co_auth o')) d = (Inr (), d1)"
    "x = established_of cs (co_auth o') h k_sess ack imp"
    "d' = d1\<lparr>dr_retained := (dr_retained d1)(ca_channel_id (co_auth o') \<mapsto>
        \<lparr>rt_auth_hash = h, rt_open_hash = oh, rt_payer_key = ca_payer_key (co_auth o'), rt_ack = ack,
         rt_terminated = False, rt_terms = terms_of (dr_settle_ptr d1) seed (co_auth o')\<rparr>),
      dr_consumed := (case (ca_predecessor (co_auth o'), imp) of
          (Some pred, Some _) \<Rightarrow> insert pred (dr_consumed d1) | _ \<Rightarrow> dr_consumed d1)\<rparr>"
  using assms that unfolding open_channel_def Let_def
  by (auto split: sum.splits prod.splits if_splits option.splits)

lemma open_not_established:
  assumes "open_channel cs hs nfc demo decide e o' now d = (r, d')" "\<forall>x. r \<noteq> Inr (Established x)"
  shows "d' = d \<or> (\<exists>st dec st'. dr_decisions d = Some st \<and> decide e (chopen_key (ca_channel_id (co_auth o'))) [] st = (dec, st') \<and>
    d' = d\<lparr>dr_decisions := Some st'\<rparr>)"
proof (cases "d' = d")
  case False
  then have "\<exists>err. claim_open decide e (ca_channel_id (co_auth o')) d = (Inl err, d')"
    using assms unfolding open_channel_def Let_def
    by (auto split: sum.splits prod.splits if_splits option.splits)
  then show ?thesis by (auto elim!: claim_open_cases)
qed simp

section \<open>Histories\<close>

inductive driver_history ::
  "crypto_suite \<Rightarrow> hpke_suite \<Rightarrow> (nat list \<Rightarrow> nat list) \<Rightarrow> ('e \<Rightarrow> bytes \<Rightarrow> bytes \<Rightarrow> 's \<Rightarrow> decision \<times> 's) \<Rightarrow> ('s \<Rightarrow> bytes \<rightharpoonup> bytes) \<Rightarrow>
   ('c \<Rightarrow> 's \<Rightarrow> 's) \<Rightarrow> (bytes \<Rightarrow> bool) \<Rightarrow> 's channel_driver \<Rightarrow> established list \<Rightarrow> 's channel_driver \<Rightarrow> bool"
  for cs hs nfc decide view restart small d0 where
  driver_start: "driver_history cs hs nfc decide view restart small d0 [] d0"
| driver_opens: "driver_history cs hs nfc decide view restart small d0 xs d \<Longrightarrow> small (chopen_key (ca_channel_id (co_auth o'))) \<Longrightarrow>
    open_channel cs hs nfc demo decide e o' now d = (Inr (Established x), d') \<Longrightarrow>
    driver_history cs hs nfc decide view restart small d0 (xs @ [x]) d'"
| driver_answers: "driver_history cs hs nfc decide view restart small d0 xs d \<Longrightarrow> small (chopen_key (ca_channel_id (co_auth o'))) \<Longrightarrow>
    open_channel cs hs nfc demo decide e o' now d = (r, d') \<Longrightarrow> \<forall>x. r \<noteq> Inr (Established x) \<Longrightarrow>
    driver_history cs hs nfc decide view restart small d0 xs d'"
| driver_ends: "driver_history cs hs nfc decide view restart small d0 xs d \<Longrightarrow>
    driver_history cs hs nfc decide view restart small d0 xs (terminate cid d)"
| driver_records: "driver_history cs hs nfc decide view restart small d0 xs d \<Longrightarrow>
    driver_history cs hs nfc decide view restart small d0 xs (record_chain_snapshot key snap d)"
| driver_removes: "driver_history cs hs nfc decide view restart small d0 xs d \<Longrightarrow>
    driver_history cs hs nfc decide view restart small d0 xs (remove_chain_snapshot key d)"
| driver_shares: "driver_history cs hs nfc decide view restart small d0 xs d \<Longrightarrow> dr_decisions d = Some st \<Longrightarrow> small k \<Longrightarrow> small v \<Longrightarrow>
    decide e k v st = (dec, st') \<Longrightarrow>
    driver_history cs hs nfc decide view restart small d0 xs (d\<lparr>dr_decisions := Some st'\<rparr>)"
| driver_restarts: "driver_history cs hs nfc decide view restart small d0 xs d \<Longrightarrow> dr_decisions d = Some st \<Longrightarrow>
    set entries = {(k, v). view (restart c st) k = Some v} \<Longrightarrow>
    attach_decisions entries (restart c st) (driver_with_registry cs keypair sk seed ptr registry) = (Inr (), d') \<Longrightarrow>
    driver_history cs hs nfc decide view restart small d0 xs d'"

text \<open>What the store knows of the channels: the established ones are kept, those of the running process shown.\<close>

definition accepted_ids :: "('s \<Rightarrow> bytes \<rightharpoonup> bytes) \<Rightarrow> 's \<Rightarrow> bytes set" where
  "accepted_ids view st = {cid. view st (chopen_key cid) \<noteq> None}"

definition driver_inv :: "('s \<Rightarrow> bytes \<rightharpoonup> bytes) \<Rightarrow> ('s \<Rightarrow> bytes \<rightharpoonup> bytes) \<Rightarrow> ('s \<Rightarrow> bool) \<Rightarrow> established list \<Rightarrow> 's channel_driver \<Rightarrow> bool" where
  "driver_inv kept view ok xs d \<longleftrightarrow> (\<exists>st. dr_decisions d = Some st \<and> ok st \<and> es_channel_id ` set xs \<subseteq> accepted_ids kept st \<and>
     dr_tombstones d \<subseteq> accepted_ids view st \<and> dom (dr_retained d) \<subseteq> accepted_ids view st) \<and> distinct (map es_channel_id xs)"

lemma accepted_ids_mono: "view st \<subseteq>\<^sub>m view' st' \<Longrightarrow> accepted_ids view st \<subseteq> accepted_ids view' st'"
  by (auto simp: accepted_ids_def map_le_def dom_def)

lemma strip_key_chopen: "strip_key_prefix CHOPEN_NS k = Some cid \<longleftrightarrow> k = chopen_key cid"
  by (auto simp: strip_key_prefix_def chopen_key_def) (metis append_take_drop_id)

text \<open>A restoration that succeeds holds exactly the identifiers of the listed keys, all of eight bytes.\<close>

lemma restored:
  "restore_tombstones es ts = (Inr (), ts') \<Longrightarrow>
   ts' = ts \<union> {cid. chopen_key cid \<in> fst ` set es} \<and> (\<forall>cid. chopen_key cid \<in> fst ` set es \<longrightarrow> length cid = 8)"
proof (induction es arbitrary: ts)
  case (Cons x es)
  obtain k v where x: "x = (k, v)" by force
  show ?case
  proof (cases "strip_key_prefix CHOPEN_NS k")
    case None
    then have "chopen_key c \<noteq> k" for c using strip_key_chopen [of k c] by auto
    moreover have "restore_tombstones es ts = (Inr (), ts')" using Cons.prems None by (simp add: x)
    ultimately show ?thesis using Cons.IH by (simp add: x)
  next
    case (Some cid)
    then have "chopen_key c = k \<longleftrightarrow> c = cid" for c by (auto simp: strip_key_chopen chopen_key_def)
    moreover have r: "length cid = 8" "restore_tombstones es (insert cid ts) = (Inr (), ts')"
      using Cons.prems Some by (simp_all add: x split: if_splits)
    moreover note Cons.IH [OF r(2)]
    ultimately show ?thesis by (simp add: x) blast
  qed
qed simp

text \<open>The retained channels and tombstones of a driver are only changed by opens and restarts.\<close>

lemma driver_inv_frame:
  assumes "driver_inv kept view ok xs d" "dr_decisions d' = dr_decisions d" "dr_tombstones d' = dr_tombstones d"
    "dom (dr_retained d') = dom (dr_retained d)"
  shows "driver_inv kept view ok xs d'"
  using assms by (simp add: driver_inv_def)

lemma terminate_frame:
  "dr_decisions (terminate cid d) = dr_decisions d" "dr_tombstones (terminate cid d) = dr_tombstones d"
  "dom (dr_retained (terminate cid d)) = dom (dr_retained d)"
  by (auto simp: terminate_def split: option.splits)

section \<open>Every identifier is accepted once\<close>

context durable_decision begin

lemma claimed_inv:
  assumes "driver_inv kept view inv xs d" "dr_decisions d = Some st" "small k" "small v" "decide e k v st = (dec, st')"
  shows "driver_inv kept view inv xs (d\<lparr>dr_decisions := Some st'\<rparr>)"
proof -
  have i: "inv st" using assms(1,2) by (simp add: driver_inv_def)
  have "accepted_ids view st \<subseteq> accepted_ids view st'" by (rule accepted_ids_mono) (rule decide_grows [OF i assms(5)])
  moreover have "accepted_ids kept st \<subseteq> accepted_ids kept st'" by (rule accepted_ids_mono) (rule decide_keeps [OF i assms(3-5)])
  moreover have "inv st'" using decide_inv [OF i assms(3,4), of e] assms(5) by simp
  ultimately show ?thesis using assms(1,2) by (auto simp: driver_inv_def)
qed

lemma history_inv:
  assumes "driver_history cs hs nfc decide view restart small d0 xs d" "driver_inv kept view inv [] d0" "small []"
  shows "driver_inv kept view inv xs d"
  using assms
proof (induction rule: driver_history.induct)
  case (driver_opens xs d o' demo e now x d')
  let ?cid = "ca_channel_id (co_auth o')"
  have dv: "driver_inv kept view inv xs d" using driver_opens by blast
  obtain h oh k_sess seed imp ack d1 where o: "claim_open decide e ?cid d = (Inr (), d1)"
      "x = established_of cs (co_auth o') h k_sess ack imp"
      "dr_decisions d' = dr_decisions d1" "dr_tombstones d' = dr_tombstones d1"
      "dom (dr_retained d') = insert ?cid (dom (dr_retained d1))"
    by (rule open_established [OF driver_opens.hyps(3)]) simp
  have x: "es_channel_id x = ?cid" by (simp add: o(2) established_of_def split: prod.split option.split)
  obtain st where st: "dr_decisions d = Some st" "inv st" using dv by (auto simp: driver_inv_def)
  then obtain st' where f: "decide e (chopen_key ?cid) [] st = (Fresh, st')" "d1 = d\<lparr>dr_decisions := Some st'\<rparr>"
    using o(1) by (auto elim!: claim_open_cases)
  have v: "view st (chopen_key ?cid) = None" "view st' = (view st)(chopen_key ?cid \<mapsto> [])"
    using decide_fresh [OF st(2) f(1)] by simp_all
  have sub: "accepted_ids kept st \<subseteq> accepted_ids view st" by (rule accepted_ids_mono) (rule kept_shown [OF st(2)])
  have new: "?cid \<notin> es_channel_id ` set xs"
  proof
    assume "?cid \<in> es_channel_id ` set xs"
    then have "?cid \<in> accepted_ids kept st" using dv st(1) by (auto simp: driver_inv_def)
    then have "?cid \<in> accepted_ids view st" using sub by blast
    then show False using v(1) by (simp add: accepted_ids_def)
  qed
  have "driver_inv kept view inv xs d1" unfolding f(2)
    by (rule claimed_inv [OF dv st(1) driver_opens.hyps(2) driver_opens.prems(2) f(1)])
  moreover have "?cid \<in> accepted_ids view st'" "?cid \<in> accepted_ids kept st'"
    using v(2) fresh_kept [OF st(2) driver_opens.hyps(2) driver_opens.prems(2) f(1)] by (simp_all add: accepted_ids_def)
  ultimately show ?case using o(3-5) x f(2) new by (auto simp: driver_inv_def)
next
  case (driver_answers xs d o' demo e now r d')
  have dv: "driver_inv kept view inv xs d" using driver_answers by blast
  from open_not_established [OF driver_answers.hyps(3,4)] show ?case
  proof (elim disjE exE conjE)
    fix st dec st' assume "dr_decisions d = Some st" "decide e (chopen_key (ca_channel_id (co_auth o'))) [] st = (dec, st')"
      "d' = d\<lparr>dr_decisions := Some st'\<rparr>"
    then show ?thesis using claimed_inv [OF dv _ driver_answers.hyps(2) driver_answers.prems(2)] by simp
  qed (use dv in simp)
next
  case (driver_ends xs d cid)
  then show ?case using driver_inv_frame [OF _ terminate_frame] by blast
next
  case (driver_records xs d key snap)
  then show ?case by - (rule driver_inv_frame [of kept view inv xs d], blast, simp_all add: record_chain_snapshot_def)
next
  case (driver_removes xs d key)
  then show ?case by - (rule driver_inv_frame [of kept view inv xs d], blast, simp_all add: remove_chain_snapshot_def)
next
  case (driver_shares xs d st k v e dec st')
  then show ?case using claimed_inv by blast
next
  case (driver_restarts xs d st entries c keypair sk seed ptr registry d')
  have dv: "driver_inv kept view inv xs d" using driver_restarts by blast
  then have "inv st" using driver_restarts.hyps(2) by (simp add: driver_inv_def)
  then have st: "inv st" "accepted_ids kept (restart c st) = accepted_ids kept st"
    using restart_kept by (simp_all add: accepted_ids_def)
  obtain ts where t: "restore_tombstones entries {} = (Inr (), ts)" "dr_tombstones d' = ts" "dr_decisions d' = Some (restart c st)"
      "dr_retained d' = Map.empty"
    using driver_restarts.hyps(4) by (auto simp: attach_decisions_def driver_with_registry_def split: prod.splits sum.splits)
  have "ts \<subseteq> accepted_ids view (restart c st)"
    using restored [OF t(1)] driver_restarts.hyps(3) by (auto simp: accepted_ids_def)
  moreover have "es_channel_id ` set xs \<subseteq> accepted_ids kept (restart c st)" "distinct (map es_channel_id xs)"
    using dv driver_restarts.hyps(2) st(2) unfolding driver_inv_def by simp_all
  moreover have "inv (restart c st)" by (rule restart_inv [OF st(1)])
  ultimately show ?case unfolding driver_inv_def t(2-4) by simp
qed simp

end

end
