(* ===== verification/Merchant_Opens.thy ===== *)
theory Merchant_Opens
  imports Merchant_History Wallet_Agrees Establish_Canonical
begin

text \<open>
  The handshake across the two endpoints: what the wallet built, the merchant's driver opens to the same channel.
\<close>

section \<open>What the wallet sent\<close>

lemma open_auth_reads [simp]:
  "ca_predecessor (open_auth cs t scope p s) = None" "ca_hs (open_auth cs t scope p s) = h_commit cs s"
  "ca_channel_id (open_auth cs t scope p s) = op_channel_id p" "ca_merchant_key (open_auth cs t scope p s) = ab_merchant_key (pt_binding t)"
  "ca_timestamp (open_auth cs t scope p s) = op_timestamp p" "ca_denom (open_auth cs t scope p s) = op_denom p"
  "ca_baseline_asset (open_auth cs t scope p s) = op_baseline_asset p" "ca_fin_meed (open_auth cs t scope p s) = op_fin_meed p"
  "ca_limit_l (open_auth cs t scope p s) = op_limit_l p" "ca_limit_e (open_auth cs t scope p s) = op_limit_e p"
  "ca_payer_key (open_auth cs t scope p s) = custody_payer_key cs (pt_root t) scope"
  "auth_channel_mode (open_auth cs t scope p s) = (if op_prepay p then Prepay else Postpay)"
  by (simp_all add: open_auth_def auth_channel_mode_def MODE_PREPAY_def MODE_POSTPAY_def)

lemma open_message:
  assumes "client_open_inner cs hs nfc uts46 ps demo t now policy p s registry = Inr (co, w)"
  shows "\<exists>scope a sig aad. a = open_auth cs t scope p s \<and> co_auth co = a\<lparr>ca_sig := Some sig\<rparr> \<and>
    (\<exists>cov. auth_covered_bytes nfc a = Inr cov \<and> sig = ed25519_sign cs (scoped_sk cs (pt_root t) scope) cov) \<and>
    canonical_content nfc a = Inr aad \<and>
    seal_session_secret hs (ab_enc_key (pt_binding t)) aad s = Inr (co_seal co) \<and>
    auth_validate_vector_governed demo nfc registry a = Inr () \<and>
    seed_instance cs nfc (auth_instance_inputs a) = Inr (wc_seed_instance w) \<and>
    wc_k_session w = k_session cs s (bind_salt cs (ca_payer_key a) (ca_merchant_key a)) (ca_channel_id a) \<and>
    wc_roles_bp w = auth_roles_bp a"
proof -
  obtain scope seed signed where o: "auth_validate_vector_governed demo nfc registry (open_auth cs t scope p s) = Inr ()"
      "seed_instance cs nfc (auth_instance_inputs (open_auth cs t scope p s)) = Inr seed"
      "auth_sign cs nfc (scoped_sk cs (pt_root t) scope) (open_auth cs t scope p s) = Inr signed"
      "open_build hs nfc signed (ab_enc_key (pt_binding t)) s = Inr co"
      "w = new_client cs t policy scope p s (open_auth cs t scope p s) seed now"
    using open_built [OF assms] by (auto simp: Let_def)
  then show ?thesis
    by (intro exI [of _ scope])
      (auto simp: auth_sign_def auth_covered_bytes_def open_build_def new_client_def)
qed

lemma sig_unread [simp]:
  "auth_instance_inputs (a\<lparr>ca_sig := x\<rparr>) = auth_instance_inputs a" "auth_roles_bp (a\<lparr>ca_sig := x\<rparr>) = auth_roles_bp a"
  "auth_channel_mode (a\<lparr>ca_sig := x\<rparr>) = auth_channel_mode a" "derive_key cs (a\<lparr>ca_sig := x\<rparr>) s = derive_key cs a s"
  "auth_validate_vector_governed demo nfc st (a\<lparr>ca_sig := x\<rparr>) = auth_validate_vector_governed demo nfc st a"
  "auth_covered_bytes nfc (a\<lparr>ca_sig := x\<rparr>) = auth_covered_bytes nfc a"
  "terms_of ptr seed (a\<lparr>ca_sig := x\<rparr>) = terms_of ptr seed a"
  by (simp_all add: auth_instance_inputs_def auth_roles_bp_def auth_channel_mode_def derive_key_def
      auth_validate_vector_governed_def auth_shares_def auth_covered_bytes_def terms_of_def)

section \<open>What the merchant opens\<close>

lemma open_fresh_wallet:
  assumes "client_open_inner cs hs nfc uts46 ps demo t now policy p s registry = Inr (co, w)"
    and "hpke_pair hs (dr_enc_secret d) (ab_enc_key (pt_binding t))" "length s = 32"
    and "open_fresh cs hs nfc co h d = Inr (k_sess, seed, imp, ack)"
  shows "k_sess = wc_k_session w \<and> seed = wc_seed_instance w \<and> imp = None"
proof -
  obtain scope a sig aad where m: "a = open_auth cs t scope p s" "co_auth co = a\<lparr>ca_sig := Some sig\<rparr>" "canonical_content nfc a = Inr aad"
      "seal_session_secret hs (ab_enc_key (pt_binding t)) aad s = Inr (co_seal co)"
      "seed_instance cs nfc (auth_instance_inputs a) = Inr (wc_seed_instance w)"
      "wc_k_session w = k_session cs s (bind_salt cs (ca_payer_key a) (ca_merchant_key a)) (ca_channel_id a)"
    using open_message [OF assms(1)] by blast
  have "unseal hs nfc co d = Inr s" using seal_opens [OF assms(2,3) m(4)] m(2,3) by (simp add: unseal_def)
  then show ?thesis using assms(4) m by (auto simp: open_fresh_def Let_def derive_key_def)
qed

lemma open_fresh_succeeds:
  assumes "client_open_inner cs hs nfc uts46 ps demo t now policy p s registry = Inr (co, w)"
    and "hpke_pair hs (dr_enc_secret d) (ab_enc_key (pt_binding t))" "length s = 32"
    and "text_ok nfc (dr_settle_ptr d)" "pointer_parse nfc (dr_settle_ptr d) \<in> range Inr"
  shows "\<exists>ack. open_fresh cs hs nfc co h d = Inr (wc_k_session w, wc_seed_instance w, None, ack)"
proof -
  obtain scope a sig aad where m: "a = open_auth cs t scope p s" "co_auth co = a\<lparr>ca_sig := Some sig\<rparr>" "canonical_content nfc a = Inr aad"
      "seal_session_secret hs (ab_enc_key (pt_binding t)) aad s = Inr (co_seal co)"
      "seed_instance cs nfc (auth_instance_inputs a) = Inr (wc_seed_instance w)"
      "wc_k_session w = k_session cs s (bind_salt cs (ca_payer_key a) (ca_merchant_key a)) (ca_channel_id a)"
    using open_message [OF assms(1)] by blast
  have "unseal hs nfc co d = Inr s" using seal_opens [OF assms(2,3) m(4)] m(2,3) by (simp add: unseal_def)
  moreover have "\<exists>ack. ack_sign cs nfc (dr_signing_key d) \<lparr>ck_auth_hash = h, ck_settle_ptr = dr_settle_ptr d, ck_sig = None\<rparr> = Inr ack"
    using assms(4,5) by (auto simp: ack_sign_def ack_covered_bytes_def ack_content_slots text_ok_def establish_bytes)
  ultimately show ?thesis using m by (auto simp: open_fresh_def Let_def derive_key_def)
qed

text \<open>The documented law of signatures: what is signed with a key verifies under its public key.\<close>

definition signs_verify :: "crypto_suite \<Rightarrow> bool" where
  "signs_verify cs \<longleftrightarrow> (\<forall>sk m. ed25519_verify_strict cs (ed25519_public cs sk) m (ed25519_sign cs sk m))"

lemma open_hashes_succeeds:
  assumes "client_open_inner cs hs nfc uts46 ps demo t now policy p s registry = Inr (co, w)"
    and "signs_verify cs" "ab_merchant_key (pt_binding t) = dr_key d" "op_denom p = op_baseline_asset p"
    and "auth_validate_vector_governed demo' nfc (dr_registry d) (co_auth co) = Inr ()"
    and "abs_diff now' (op_timestamp p) \<le> SKEW_SECS + LATENCY_SECS"
  shows "\<exists>h oh. open_hashes cs nfc demo' now' co d = Inr (h, oh)"
proof -
  obtain scope a sig aad cov where m: "a = open_auth cs t scope p s" "co_auth co = a\<lparr>ca_sig := Some sig\<rparr>" "canonical_content nfc a = Inr aad"
      "auth_covered_bytes nfc a = Inr cov" "sig = ed25519_sign cs (scoped_sk cs (pt_root t) scope) cov"
    using open_message [OF assms(1)] by blast
  have "ed25519_verify_strict cs (custody_payer_key cs (pt_root t) scope) cov sig"
    using assms(2) m(5) by (simp add: signs_verify_def custody_payer_key_def)
  then have v: "auth_verify cs nfc (co_auth co) = Inr ()" using m by (simp add: auth_verify_def verify_sig_def)
  have "auth_hash cs nfc (co_auth co) = Inr (sha256 cs cov)" using m by (simp add: auth_hash_def)
  moreover have "\<exists>bs. open_encode nfc co = Inr bs" using m by (auto simp: open_encode_Inr canonical_content_Inr)
  ultimately show ?thesis using v m(1,2) assms(3-6) by (auto simp: open_hashes_def Let_def not_less)
qed

lemma established_parts:
  assumes "open_channel cs hs nfc demo decide e o' now d = (Inr (Established x), d')"
  shows "\<exists>h k_sess seed imp ack ptr. open_fresh cs hs nfc o' h d = Inr (k_sess, seed, imp, ack) \<and>
    x = established_of cs (co_auth o') h k_sess ack imp \<and>
    driver_terms (ca_channel_id (co_auth o')) d' = Some (terms_of ptr seed (co_auth o'))"
  using assms
proof (cases rule: open_established)
  case (1 h oh k_sess seed imp ack d1)
  then show ?thesis
    by (intro exI [of _ h] exI [of _ k_sess] exI [of _ seed] exI [of _ imp] exI [of _ ack] exI [of _ "dr_settle_ptr d1"])
      (simp add: driver_terms_def)
qed

text \<open>The whole handshake, and the same message again.\<close>

lemma handshake_ok:
  assumes "client_open_inner cs hs nfc uts46 ps demo t now policy p s registry = Inr (co, w0)"
    and "hpke_pair hs (dr_enc_secret d) (ab_enc_key (pt_binding t))" "length s = 32" "signs_verify cs"
    and "ab_merchant_key (pt_binding t) = dr_key d" "dr_registry d = registry" "op_denom p = op_baseline_asset p"
    and "abs_diff now' (op_timestamp p) \<le> SKEW_SECS + LATENCY_SECS"
    and "op_channel_id p \<notin> dr_tombstones d" "dr_retained d (op_channel_id p) = None"
    and "text_ok nfc (dr_settle_ptr d)" "pointer_parse nfc (dr_settle_ptr d) \<in> range Inr"
    and "dr_decisions d = Some st" "decide e (chopen_key (op_channel_id p)) [] st = (Fresh, st')"
  shows "\<exists>x d'. open_channel cs hs nfc demo decide e co now' d = (Inr (Established x), d') \<and>
    (\<forall>e2 now2. abs_diff now2 (op_timestamp p) \<le> SKEW_SECS + LATENCY_SECS \<longrightarrow>
      open_channel cs hs nfc demo decide e2 co now2 d' = (Inr (Retransmit (es_ack x)), d'))"
proof -
  obtain scope a sig where m: "a = open_auth cs t scope p s" "co_auth co = a\<lparr>ca_sig := Some sig\<rparr>"
      "auth_validate_vector_governed demo nfc registry a = Inr ()"
    using open_message [OF assms(1)] by blast
  have g: "auth_validate_vector_governed demo nfc (dr_registry d) (co_auth co) = Inr ()" using m assms(6) by simp
  obtain h oh where h: "open_hashes cs nfc demo now' co d = Inr (h, oh)"
    using open_hashes_succeeds [OF assms(1,4,5,7) g assms(8)] by blast
  obtain ack where f: "open_fresh cs hs nfc co h d = Inr (wc_k_session w0, wc_seed_instance w0, None, ack)"
    using open_fresh_succeeds [OF assms(1-3,11,12)] by blast
  let ?r = "\<lparr>rt_auth_hash = h, rt_open_hash = oh, rt_payer_key = ca_payer_key (co_auth co), rt_ack = ack, rt_terminated = False,
    rt_terms = terms_of (dr_settle_ptr d) (wc_seed_instance w0) (co_auth co)\<rparr>"
  let ?d = "d\<lparr>dr_decisions := Some st', dr_retained := (dr_retained d)(op_channel_id p \<mapsto> ?r)\<rparr>"
  let ?x = "established_of cs (co_auth co) h (wc_k_session w0) ack None"
  have "open_channel cs hs nfc demo decide e co now' d = (Inr (Established ?x), ?d)"
    using h f m(1,2) assms(9,10,13,14) by (simp add: open_channel_def claim_open_def Let_def)
  moreover have "open_channel cs hs nfc demo decide e2 co now2 ?d = (Inr (Retransmit (es_ack ?x)), ?d)"
    if "abs_diff now2 (op_timestamp p) \<le> SKEW_SECS + LATENCY_SECS" for e2 now2
  proof -
    have "\<exists>h oh. open_hashes cs nfc demo now2 co d = Inr (h, oh)" by (rule open_hashes_succeeds [OF assms(1,4,5,7) g that])
    then obtain h2 oh2 where h2: "open_hashes cs nfc demo now2 co d = Inr (h2, oh2)" by blast
    then have "h2 = h \<and> oh2 = oh" using h by (auto simp: open_hashes_def Let_def split: if_splits)
    moreover have "open_hashes cs nfc demo now2 co ?d = open_hashes cs nfc demo now2 co d" by (simp add: open_hashes_def Let_def)
    ultimately show ?thesis using h2 m(1,2) assms(9) by (simp add: open_channel_def Let_def established_of_def)
  qed
  ultimately show ?thesis by blast
qed

section \<open>The slices of a postpay channel\<close>

lemma run_below_cap:
  assumes inv: "wallet_inv cs w k" "unat (wc_cum_streamed w) = total_amount xs" "\<not> wc_prepay w"
  shows "total_amount xs \<le> unat (wc_limit_l w)"
  using assms by (simp add: wallet_inv_def postpay_ok_def word_le_nat_alt)

lemma postpay_accepts:
  assumes verify: "\<forall>s \<in> set xs. slice_verify cs key s" and nums: "map (\<lambda>s. unat (seq s)) xs = [1 ..< Suc (length xs)]"
    and le: "total_amount xs \<le> unat limit_l" "total_amount xs \<le> unat limit_e" and perm: "mset ss = mset xs"
  shows "\<exists>st. accept_all cs ss (new_state cs cid key Postpay limit_l limit_e v) = (Inr (), st)"
proof -
  let ?new = "new_state cs cid key Postpay limit_l limit_e v"
  have f: "st_k_session ?new = Some key" "st_phase ?new = PhOpen" "st_paused_window ?new = False" "st_floor ?new = 0"
      "st_accounted ?new = []" "st_balance ?new = 0" "st_bound_upper ?new = i128_or_max (unat limit_l)" "st_unevidenced ?new = 0"
      "st_limit_e ?new = unat limit_e"
    by (simp_all add: new_state_def Let_def)
  have d: "distinct (map seq xs)"
  proof -
    have "distinct (map unat (map seq xs))" using nums by (simp add: comp_def)
    then show ?thesis by (auto simp: distinct_map intro: inj_on_imageI2)
  qed
  have pos: "0 < seq s" if "s \<in> set xs" for s
  proof -
    have "unat (seq s) \<in> set (map (\<lambda>s. unat (seq s)) xs)" using that by simp
    then have "1 \<le> unat (seq s)" unfolding nums by auto
    then show ?thesis by (simp add: word_less_nat_alt)
  qed
  have "t \<le> l \<Longrightarrow> sat_i128 (int t) \<le> i128_or_max l" for t l
    by (auto simp: sat_i128_def i128_or_max_def I128_MAX_def I128_MIN_def)
  then have "sat_i128 (int (total_amount xs)) \<le> i128_or_max (unat limit_l)" using le(1) by blast
  then have "all_admissible cs xs ?new"
    using verify d pos le(2) by (simp add: all_admissible_def f)
  then have "all_admissible cs ss ?new" using all_admissible_mset [OF perm] by blast
  then show ?thesis using accept_all_iff [OF new_state_ok] by blast
qed

end
