(* ===== verification/Props_Merchant.thy ===== *)
theory Props_Merchant
  imports Merchant_Opens Wallet_Story Props_Decision
begin

text \<open>
  A concrete merchant for the wallet's example: its driver on a fresh log accepts the example opening, restarts,
  and a driver with a chain snapshot imports a predecessor. Then the properties of the driver.
\<close>

text \<open>A driver for the merchant of the example opening, on a fresh log.\<close>

definition ex_driver :: "wal channel_driver" where
  "ex_driver = snd (attach_decisions [] fresh_log (driver_with_registry toy_suite (\<lambda>sd. (sd, sd)) (replicate 32 3) (replicate 32 9)
     ex_il ex_store))"

lemma ex_driver_reads:
  "dr_key ex_driver = replicate 32 3" "dr_registry ex_driver = ex_store" "dr_settle_ptr ex_driver = ex_il" "dr_tombstones ex_driver = {}"
  "dr_retained ex_driver = Map.empty" "dr_decisions ex_driver = Some fresh_log" "dr_consumed ex_driver = {}"
  by (simp_all add: ex_driver_def attach_decisions_def driver_with_registry_def toy_suite_def)

lemma ex_settle_ptr: "text_ok (\<lambda>x. x) ex_il" "pointer_parse (\<lambda>x. x) ex_il \<in> range Inr"
proof -
  obtain q where "pointer_parse (\<lambda>x. x) ex_il = Inr q" using ex_payable(2) by (auto simp: payable_def)
  then show "text_ok (\<lambda>x. x) ex_il" "pointer_parse (\<lambda>x. x) ex_il \<in> range Inr"
    by (auto simp: pointer_accepted pointer_ok_def text_ok_def)
qed

definition ex_accepted_log :: wal where
  "ex_accepted_log = snd (wal_decide disk_fine (chopen_key (replicate 8 2)) [] fresh_log)"

lemma ex_claim: "wal_decide disk_fine (chopen_key (replicate 8 2)) [] fresh_log = (Fresh, ex_accepted_log)"
  by (simp add: ex_accepted_log_def wal_decide_def disk_fine_def fresh_log_def Let_def)

lemma toy_signs: "signs_verify toy_suite"
  by (simp add: signs_verify_def toy_suite_def)

lemma abs_diff_same [simp]: "abs_diff a a = 0"
  by (simp add: abs_diff_def)

lemma ex_binding: "ab_merchant_key (pt_binding ex_trust) = replicate 32 3"
  by (simp add: ex_trust_def)

lemma ex_params_reads: "op_channel_id (ex_params b) = replicate 8 2" "op_denom (ex_params b) = op_baseline_asset (ex_params b)"
  "op_timestamp (ex_params b) = 9" "op_limit_e (ex_params b) = 1000" "op_prepay (ex_params b) = b"
  by (simp_all add: ex_params_def)

text \<open>The example opening is established.\<close>

lemma ex_established:
  assumes "ex_opens b co w0"
  shows "\<exists>x d'. open_channel toy_suite toy_hpke (\<lambda>x. x) True wal_decide disk_fine co 9 ex_driver = (Inr (Established x), d')"
proof -
  have "\<exists>x d'. open_channel toy_suite toy_hpke (\<lambda>x. x) True wal_decide disk_fine co 9 ex_driver = (Inr (Established x), d') \<and>
    (\<forall>e2 now2. abs_diff now2 (op_timestamp (ex_params b)) \<le> SKEW_SECS + LATENCY_SECS \<longrightarrow>
      open_channel toy_suite toy_hpke (\<lambda>x. x) True wal_decide e2 co now2 d' = (Inr (Retransmit (es_ack x)), d'))"
    by (rule handshake_ok [OF assms toy_hpke_pair _ toy_signs])
      (use ex_settle_ptr ex_claim in \<open>simp_all add: ex_driver_reads ex_binding ex_params_reads\<close>)
  then show ?thesis by blast
qed

lemma ex_established_store:
  assumes "ex_opens b co w0" "open_channel toy_suite toy_hpke (\<lambda>x. x) True wal_decide disk_fine co 9 ex_driver = (Inr (Established x), d')"
  shows "dr_decisions d' = Some ex_accepted_log"
proof -
  have "ca_channel_id (co_auth co) = replicate 8 2" using open_message [OF assms(1)] by (auto simp: ex_params_reads)
  then show ?thesis
    using assms(2)
    by (elim open_established) (auto simp: claim_open_def ex_driver_reads ex_claim)
qed

section \<open>A crash and a restart\<close>

lemma ex_accepted_map: "wal_get k (wal_restart [] ex_accepted_log) = Some v \<longleftrightarrow> k = chopen_key (replicate 8 2) \<and> v = []"
proof -
  let ?k = "chopen_key (replicate 8 2)"
  have sh: "\<forall>(k, v) \<in> set [(?k, [] :: bytes)]. short k \<and> short v" by (simp add: short_def chopen_key_def CHOPEN_NS_def ascii_def)
  have f: "wal_file ex_accepted_log = wal_record ?k []" "wal_synced ex_accepted_log = length (wal_record ?k [])"
    by (simp_all add: ex_accepted_log_def wal_decide_def disk_fine_def fresh_log_def Let_def write_at_def)
  have "torn []" by (simp add: torn_def read_field_def Let_def)
  then have "wal_open (wal_record ?k []) = Some \<lparr>wal_map = map_of [(?k, [])], wal_file = wal_record ?k [],
      wal_pos = length (wal_record ?k []), wal_len = length (wal_record ?k []), wal_poisoned = False, wal_synced = 0\<rparr>"
    using wal_open_log [OF sh, of "[]"] by (simp add: log_bytes_def)
  then show ?thesis by (auto simp: wal_restart_def f wal_get_def)
qed

lemma strip_own_key [simp]: "strip_key_prefix CHOPEN_NS (chopen_key cid) = Some cid"
  by (simp add: strip_key_chopen)

lemma ex_restarts:
  "\<exists>d. attach_decisions [(chopen_key (replicate 8 2), [])] (wal_restart [] ex_accepted_log)
      (driver_with_registry toy_suite (\<lambda>sd. (sd, sd)) (replicate 32 3) (replicate 32 9) ex_il ex_store) = (Inr (), d)"
  by (simp add: attach_decisions_def driver_with_registry_def)

section \<open>A chained open\<close>

definition ex_pred :: "bytes \<times> bytes" where
  "ex_pred = (replicate 8 5, replicate 32 5)"

definition ex_chained :: channel_open where
  "ex_chained = \<lparr>co_auth = (ex_open_auth False)\<lparr>ca_predecessor := Some ex_pred, ca_sig := Some (replicate 64 0)\<rparr>,
     co_seal = replicate 32 9 @ replicate 32 7 @ replicate 16 0\<rparr>"

definition ex_snap :: "bytes \<Rightarrow> chain_snapshot" where
  "ex_snap seed = \<lparr>cn_cum_total = 40, cn_accruals = [(0x10, 2000), (0x11, 400), (0x12, 1200), (0x13, 400)],
     cn_opening_settled_r = [], cn_opening_net_legs = 0, cn_opening_funding = 0, cn_imported_balance = 40,
     cn_payer_key = ca_payer_key (ex_open_auth False), cn_mode = Postpay,
     cn_terms_fingerprint = chain_terms_fingerprint toy_suite Postpay seed ex_asset ex_net (ascii ''final'') (ascii ''final'') 100 0,
     cn_established_at = 3\<rparr>"

lemma predecessor_unread [simp]:
  "auth_instance_inputs (a\<lparr>ca_predecessor := x\<rparr>) = auth_instance_inputs a" "auth_roles_bp (a\<lparr>ca_predecessor := x\<rparr>) = auth_roles_bp a"
  "auth_channel_mode (a\<lparr>ca_predecessor := x\<rparr>) = auth_channel_mode a"
  "auth_validate_vector_governed demo nfc st (a\<lparr>ca_predecessor := x\<rparr>) = auth_validate_vector_governed demo nfc st a"
  "check_presence (a\<lparr>ca_predecessor := x\<rparr>) = check_presence a" "validate_grammar nfc (a\<lparr>ca_predecessor := x\<rparr>) = validate_grammar nfc a"
  by (simp_all add: auth_instance_inputs_def auth_roles_bp_def auth_channel_mode_def auth_validate_vector_governed_def auth_shares_def
      check_presence_def validate_grammar_def)

lemma ex_chained_content: "\<exists>aad. canonical_content (\<lambda>x. x) (co_auth ex_chained) = Inr aad"
  using ex_open_content [of False] by (auto simp: ex_chained_def canonical_content_Inr)

lemma ex_open_auth_reads:
  "ca_merchant_key (ex_open_auth b) = replicate 32 3" "ca_channel_id (ex_open_auth b) = replicate 8 2" "ca_timestamp (ex_open_auth b) = 9"
  "ca_denom (ex_open_auth b) = ex_asset" "ca_baseline_asset (ex_open_auth b) = ex_asset" "ca_baseline_net (ex_open_auth b) = ex_net"
  "ca_fin_meed (ex_open_auth b) = ascii ''final''" "ca_fin_denom (ex_open_auth b) = ascii ''final''"
  "ca_th_value (ex_open_auth b) = 100" "ca_th_time (ex_open_auth b) = 0" "ca_limit_l (ex_open_auth b) = 1000"
  "ca_hs (ex_open_auth b) = h_commit toy_suite (replicate 32 7)" "auth_channel_mode (ex_open_auth False) = Postpay"
  "ca_vector (ex_open_auth b) = map (\<lambda>(r, b, d). \<lparr>ve_role = r, ve_bp = b, ve_dest = d\<rparr>) (schedule ex_il ex_dest ex_il DEV_FUND_DEST_PLACEHOLDER)"
  by (simp_all add: ex_open_auth_def open_auth_def ex_params_def ex_trust_def auth_channel_mode_def)

lemma ex_chained_hashes:
  "\<exists>h oh. open_hashes toy_suite (\<lambda>x. x) True 9 ex_chained (record_chain_snapshot key snap ex_driver) = Inr (h, oh)"
proof -
  obtain aad where aad: "canonical_content (\<lambda>x. x) (co_auth ex_chained) = Inr aad" using ex_chained_content by blast
  then have "\<exists>bs. open_encode (\<lambda>x. x) ex_chained = Inr bs" by (auto simp: open_encode_Inr canonical_content_Inr)
  moreover have "auth_verify toy_suite (\<lambda>x. x) (co_auth ex_chained) = Inr ()" "\<exists>h. auth_hash toy_suite (\<lambda>x. x) (co_auth ex_chained) = Inr h"
    using aad by (simp_all add: auth_verify_def auth_hash_def auth_covered_bytes_def verify_sig_def toy_suite_def)
      (simp add: ex_chained_def)
  moreover have "auth_validate_vector_governed True (\<lambda>x. x) ex_store (co_auth ex_chained) = Inr ()"
    using ex_open_governed [of False] by (simp add: ex_chained_def)
  moreover have "ca_merchant_key (co_auth ex_chained) = replicate 32 3" "ca_timestamp (co_auth ex_chained) = 9"
    "ca_denom (co_auth ex_chained) = ca_baseline_asset (co_auth ex_chained)"
    by (simp_all add: ex_chained_def ex_open_auth_reads)
  ultimately show ?thesis by (auto simp: open_hashes_def Let_def record_chain_snapshot_def ex_driver_reads)
qed

lemma ex_chained_import:
  "\<exists>st. chained_import toy_suite ex_pred (co_auth ex_chained) k seed Postpay (record_chain_snapshot ex_pred (ex_snap seed) ex_driver) =
     Inr (st, \<lparr>lo_settled_r = [], lo_net_legs = 0, lo_funding = 0\<rparr>, 3)"
  by (simp add: chained_import_def record_chain_snapshot_def ex_snap_def ex_chained_def ex_open_auth_reads schedule_def role_defs
      new_imported_def auth_roles_bp_def new_state_def i128_or_max_def I128_MAX_def Let_def)

lemma ex_chain_opens:
  "\<exists>seed x d1. open_channel toy_suite toy_hpke (\<lambda>x. x) True wal_decide disk_fine ex_chained 9
     (record_chain_snapshot ex_pred (ex_snap seed) ex_driver) = (Inr (Established x), d1) \<and> es_ledger_openings x \<noteq> None"
proof -
  have "validate_text (\<lambda>x. x) (ca_baseline_asset (ex_open_auth False)) = Inr ()"
    using ex_texts(1) by (simp add: ex_open_auth_reads text_ok_def)
  then obtain seed where sd: "seed_instance toy_suite (\<lambda>x. x) (auth_instance_inputs (co_auth ex_chained)) = Inr seed"
    using governed_seed [OF ex_open_governed] by (auto simp: ex_chained_def)
  let ?d = "record_chain_snapshot ex_pred (ex_snap seed) ex_driver"
  obtain h oh where h: "open_hashes toy_suite (\<lambda>x. x) True 9 ex_chained ?d = Inr (h, oh)" using ex_chained_hashes by blast
  obtain aad where aad: "canonical_content (\<lambda>x. x) (co_auth ex_chained) = Inr aad" using ex_chained_content by blast
  have "open_session_secret toy_hpke (dr_enc_secret ?d) (co_seal ex_chained) aad = Inr (replicate 32 7)"
    using nine_not_small by (simp add: open_session_secret_def hpke_open_def ex_chained_def toy_hpke_def)
  then have u: "unseal toy_hpke (\<lambda>x. x) ex_chained ?d = Inr (replicate 32 7)" using aad by (simp add: unseal_def)
  have a: "ca_hs (co_auth ex_chained) = h_commit toy_suite (replicate 32 7)" "ca_predecessor (co_auth ex_chained) = Some ex_pred"
    "auth_channel_mode (co_auth ex_chained) = Postpay" "ca_channel_id (co_auth ex_chained) = replicate 8 2"
    by (simp_all add: ex_chained_def ex_open_auth_reads)
  obtain st where st: "chained_import toy_suite ex_pred (co_auth ex_chained) (derive_key toy_suite (co_auth ex_chained) (replicate 32 7)) seed Postpay ?d =
     Inr (st, \<lparr>lo_settled_r = [], lo_net_legs = 0, lo_funding = 0\<rparr>, 3)" using ex_chained_import by blast
  have "\<exists>ack. ack_sign toy_suite (\<lambda>x. x) (dr_signing_key ?d) \<lparr>ck_auth_hash = h, ck_settle_ptr = dr_settle_ptr ?d, ck_sig = None\<rparr> = Inr ack"
    using ex_settle_ptr
    by (auto simp: ack_sign_def ack_covered_bytes_def ack_content_slots text_ok_def establish_bytes record_chain_snapshot_def ex_driver_reads)
  then obtain ack where k: "ack_sign toy_suite (\<lambda>x. x) (dr_signing_key ?d) \<lparr>ck_auth_hash = h, ck_settle_ptr = dr_settle_ptr ?d, ck_sig = None\<rparr> = Inr ack"
    by blast
  have f: "open_fresh toy_suite toy_hpke (\<lambda>x. x) ex_chained h ?d = Inr (derive_key toy_suite (co_auth ex_chained) (replicate 32 7), seed,
      Some (st, \<lparr>lo_settled_r = [], lo_net_legs = 0, lo_funding = 0\<rparr>, 3), ack)"
    using u a sd st k by (simp add: open_fresh_def Let_def)
  have r: "dr_tombstones ?d = {}" "dr_retained ?d = Map.empty" "dr_consumed ?d = {}" "dr_decisions ?d = Some fresh_log"
    by (simp_all add: record_chain_snapshot_def ex_driver_reads)
  show ?thesis
    using h f a r ex_claim by (intro exI [of _ seed]) (simp add: open_channel_def Let_def claim_open_def established_of_def)
qed

text \<open>
  The properties of the merchant's establishment driver: a channel identifier is accepted once, for good; a
  predecessor is imported once; an honest payer's open is accepted, and the two endpoints then hold the same
  channel; a retransmission changes nothing.
\<close>

section \<open>Once\<close>

text \<open>C13. A channel identifier is accepted at most once, across crashes and restarts: in every history of a driver
  on a write-ahead log - opens by anyone, ends, claims of the rest of the channel plane in the same log, disk
  errors, crashes with arbitrary unsynced bytes and restarts with any keys and registry - no two established
  channels share their identifier.\<close>

theorem channel_accepted_once:
  assumes "wal_open bs = Some w" "set entries = {(k, v). wal_get k w = Some v}"
    and "attach_decisions entries w (driver_with_registry cs keypair sk seed ptr registry) = (Inr (), d0)"
    and "driver_history cs hs nfc wal_decide (\<lambda>w k. wal_get k w) wal_restart short d0 xs d"
  shows "distinct (map es_channel_id xs)"
proof -
  obtain ts where t: "restore_tombstones entries {} = (Inr (), ts)" "dr_tombstones d0 = ts" "dr_decisions d0 = Some w"
      "dr_retained d0 = Map.empty"
    using assms(3) by (auto simp: attach_decisions_def driver_with_registry_def split: prod.splits sum.splits)
  have "ts \<subseteq> accepted_ids (\<lambda>w k. wal_get k w) w"
    using restored [OF t(1)] assms(2) by (auto simp: accepted_ids_def)
  then have "driver_inv wal_kept (\<lambda>w k. wal_get k w) wal_inv [] d0"
    using wal_open_inv [OF assms(1)] t by (simp add: driver_inv_def)
  then show ?thesis using wal.history_inv [OF assms(4)] by (simp add: short_def driver_inv_def)
qed

theorem channel_accepted_once_witness:
  "\<exists>(co :: channel_open) w0 x d1 d2. ex_opens True co w0 \<and>
     open_channel toy_suite toy_hpke (\<lambda>x. x) True wal_decide disk_fine co 9 ex_driver = (Inr (Established x), d1) \<and>
     driver_history toy_suite toy_hpke (\<lambda>x. x) wal_decide (\<lambda>w k. wal_get k w) wal_restart short ex_driver [x] d2 \<and>
     dr_tombstones d2 = {replicate 8 2} \<and> distinct (map es_channel_id [x])"
proof -
  let ?ds = "driver_with_registry toy_suite (\<lambda>sd. (sd, sd)) (replicate 32 3) (replicate 32 9) ex_il ex_store"
  obtain co w0 where o: "ex_opens True co w0" using ex_opening by blast
  obtain x d1 where x: "open_channel toy_suite toy_hpke (\<lambda>x. x) True wal_decide disk_fine co 9 ex_driver = (Inr (Established x), d1)"
    using ex_established [OF o] by blast
  obtain d2 where d2: "attach_decisions [(chopen_key (replicate 8 2), [])] (wal_restart [] ex_accepted_log) ?ds = (Inr (), d2)"
    using ex_restarts by blast
  have "ca_channel_id (co_auth co) = replicate 8 2" using open_message [OF o] by (auto simp: ex_params_reads)
  then have sh: "short (chopen_key (ca_channel_id (co_auth co)))" by (simp add: short_def chopen_key_def CHOPEN_NS_def ascii_def)
  have "driver_history toy_suite toy_hpke (\<lambda>x. x) wal_decide (\<lambda>w k. wal_get k w) wal_restart short ex_driver ([] @ [x]) d1"
    by (rule driver_opens, rule driver_start, rule sh, rule x)
  moreover have "set [(chopen_key (replicate 8 2), [])] = {(k, v). wal_get k (wal_restart [] ex_accepted_log) = Some v}"
    by (auto simp: ex_accepted_map)
  ultimately have h: "driver_history toy_suite toy_hpke (\<lambda>x. x) wal_decide (\<lambda>w k. wal_get k w) wal_restart short ex_driver [x] d2"
    using d2 by simp (rule driver_restarts, assumption, rule ex_established_store [OF o x], simp_all)
  have a: "attach_decisions [] fresh_log ?ds = (Inr (), ex_driver)"
    by (simp add: ex_driver_def attach_decisions_def)
  have "set ([] :: (bytes \<times> bytes) list) = {(k, v). wal_get k fresh_log = Some v}" by (simp add: wal_get_def fresh_log_def)
  then have "distinct (map es_channel_id [x])" by - (rule channel_accepted_once, (rule fresh_log_opened), assumption, (rule a), (rule h))
  moreover have "dr_tombstones d2 = {replicate 8 2}"
    using d2 by (auto simp: attach_decisions_def driver_with_registry_def)
  ultimately show ?thesis using o x h by blast
qed

text \<open>The life of one driver: its opens, ends and snapshot changes, in any order.\<close>

inductive driver_life ::
  "crypto_suite \<Rightarrow> hpke_suite \<Rightarrow> (nat list \<Rightarrow> nat list) \<Rightarrow> ('e \<Rightarrow> bytes \<Rightarrow> bytes \<Rightarrow> 's \<Rightarrow> decision \<times> 's) \<Rightarrow>
   's channel_driver \<Rightarrow> 's channel_driver \<Rightarrow> bool" for cs hs nfc decide d0 where
  life_start: "driver_life cs hs nfc decide d0 d0"
| life_open: "driver_life cs hs nfc decide d0 d \<Longrightarrow> open_channel cs hs nfc demo decide e o' now d = (r, d') \<Longrightarrow>
    driver_life cs hs nfc decide d0 d'"
| life_end: "driver_life cs hs nfc decide d0 d \<Longrightarrow> driver_life cs hs nfc decide d0 (terminate cid d)"
| life_record: "driver_life cs hs nfc decide d0 d \<Longrightarrow> driver_life cs hs nfc decide d0 (record_chain_snapshot key snap d)"
| life_remove: "driver_life cs hs nfc decide d0 d \<Longrightarrow> driver_life cs hs nfc decide d0 (remove_chain_snapshot key d)"

lemma open_consumed_grows:
  assumes "open_channel cs hs nfc demo decide e o' now d = (r, d')"
  shows "dr_consumed d \<subseteq> dr_consumed d'"
proof (cases "\<exists>x. r = Inr (Established x)")
  case True
  then obtain x where "open_channel cs hs nfc demo decide e o' now d = (Inr (Established x), d')" using assms by blast
  then show ?thesis
  proof (cases rule: open_established)
    case (1 h oh k_sess seed imp ack d1)
    have "dr_consumed d1 = dr_consumed d" using 1(6) by (auto elim!: claim_open_cases)
    then show ?thesis using 1(8) by (auto split: option.splits)
  qed
next
  case False
  then show ?thesis using open_not_established [OF assms] by auto
qed

lemma life_consumed: "driver_life cs hs nfc decide d0 d \<Longrightarrow> dr_consumed d0 \<subseteq> dr_consumed d"
proof (induction rule: driver_life.induct)
  case (life_end d cid)
  then show ?case by (cases "dr_retained d cid") (simp_all add: terminate_def)
qed (auto simp: record_chain_snapshot_def remove_chain_snapshot_def dest: open_consumed_grows)

text \<open>C21. A chained predecessor is imported at most once in the life of a driver: an open that imports a
  predecessor's position marks it consumed, the mark stays under every later open, end and change of the
  snapshots, and no open naming a consumed predecessor is established.\<close>

theorem predecessor_imported_once:
  assumes "open_channel cs hs nfc demo decide e o1 now1 d = (Inr (Established x), d1)" "es_ledger_openings x \<noteq> None"
    and "ca_predecessor (co_auth o1) = Some pred" "driver_life cs hs nfc decide d1 d2"
    and "ca_predecessor (co_auth o2) = Some pred" "open_channel cs hs nfc demo2 decide e2 o2 now2 d2 = (r, d3)"
  shows "r \<noteq> Inr (Established y)"
proof -
  have "pred \<in> dr_consumed d1"
    using assms(1)
  proof (cases rule: open_established)
    case (1 h oh k_sess seed imp ack dx)
    then show ?thesis using assms(2,3) by (auto simp: established_of_def split: option.splits)
  qed
  then have c: "pred \<in> dr_consumed d2" using life_consumed [OF assms(4)] by blast
  show ?thesis
  proof
    assume "r = Inr (Established y)"
    then have "open_channel cs hs nfc demo2 decide e2 o2 now2 d2 = (Inr (Established y), d3)" using assms(6) by simp
    then show False by (cases rule: open_established) (use c assms(5) in blast)
  qed
qed

theorem predecessor_imported_once_witness:
  "\<exists>(d :: wal channel_driver) x d1 r d2. open_channel toy_suite toy_hpke (\<lambda>x. x) True wal_decide disk_fine ex_chained 9 d = (Inr (Established x), d1) \<and>
     es_ledger_openings x \<noteq> None \<and>
     open_channel toy_suite toy_hpke (\<lambda>x. x) True wal_decide disk_fine ex_chained 9 d1 = (r, d2) \<and> (\<forall>y. r \<noteq> Inr (Established y))"
proof -
  obtain seed x d1 where x: "open_channel toy_suite toy_hpke (\<lambda>x. x) True wal_decide disk_fine ex_chained 9
     (record_chain_snapshot ex_pred (ex_snap seed) ex_driver) = (Inr (Established x), d1)" "es_ledger_openings x \<noteq> None"
    using ex_chain_opens by blast
  obtain r d2 where r: "open_channel toy_suite toy_hpke (\<lambda>x. x) True wal_decide disk_fine ex_chained 9 d1 = (r, d2)" by force
  have p: "ca_predecessor (co_auth ex_chained) = Some ex_pred" by (simp add: ex_chained_def)
  have "r \<noteq> Inr (Established y)" for y by (rule predecessor_imported_once [OF x p life_start p r])
  then show ?thesis using x r by blast
qed

section \<open>The handshake\<close>

text \<open>C12. An open is established as the payer built it: when the merchant establishes a channel from a wallet's
  message, both hold the same session key and instance seed, the merchant's metering starts at zero with the
  payer's limits, mode and roles; a checkpoint the merchant builds from the slices it accepted passes the
  wallet's basis check, and on a postpay channel every delivery order of the wallet's slices within the
  evidence limit is accepted.\<close>

theorem endpoints_open_one_channel:
  assumes "client_open_inner cs hs nfc uts46 ps demo t now policy p s registry = Inr (co, w0)"
    and "hpke_pair hs (dr_enc_secret d) (ab_enc_key (pt_binding t))" "length s = 32"
    and "open_channel cs hs nfc demo' decide e co now' d = (Inr (Established x), d')"
    and "wallet_run cs w0 xs w"
  shows "es_channel_id x = wc_channel_id w0 \<and> es_k_session x = wc_k_session w0 \<and>
    map_option sx_seed_instance (driver_terms (es_channel_id x) d') = Some (wc_seed_instance w0) \<and>
    es_state x = new_state cs (wc_channel_id w0) (wc_k_session w0) (if op_prepay p then Prepay else Postpay)
      (op_limit_l p) (op_limit_e p) (wc_roles_bp w0) \<and>
    (evolves cs (es_state x) acc st \<and> set acc \<subseteq> set xs \<and> build_checkpoint_at cs cutoff ts prev events st = Some cp \<longrightarrow>
      checkpoint_basis_ok w cp \<noteq> None) \<and>
    (\<not> op_prepay p \<and> total_amount xs \<le> unat (op_limit_e p) \<and> mset ss = mset xs \<longrightarrow>
      (\<exists>st. accept_all cs ss (es_state x) = (Inr (), st)))"
proof -
  obtain scope a sig where m: "a = open_auth cs t scope p s" "co_auth co = a\<lparr>ca_sig := Some sig\<rparr>" "wc_roles_bp w0 = auth_roles_bp a"
    using open_message [OF assms(1)] by blast
  obtain k where k: "wallet_inv cs w k" "unat (wc_cum_streamed w) = total_amount xs" "config w = config w0"
      "map (\<lambda>s. unat (seq s)) xs = [1 ..< unat (wc_next_seq w)]"
    using opened_run [OF assms(1,5)] by blast
  note c = open_reads [OF assms(1)] and cw = config_reads [OF k(3)]
  obtain h k_sess seed imp ack ptr where o: "open_fresh cs hs nfc co h d = Inr (k_sess, seed, imp, ack)"
      "x = established_of cs (co_auth co) h k_sess ack imp"
      "driver_terms (ca_channel_id (co_auth co)) d' = Some (terms_of ptr seed (co_auth co))"
    using established_parts [OF assms(4)] by blast
  have f: "k_sess = wc_k_session w0" "seed = wc_seed_instance w0" "imp = None"
    using open_fresh_wallet [OF assms(1-3) o(1)] by simp_all
  have x: "es_channel_id x = wc_channel_id w0" "es_k_session x = wc_k_session w0"
    "es_state x = new_state cs (wc_channel_id w0) (wc_k_session w0) (if op_prepay p then Prepay else Postpay)
       (op_limit_l p) (op_limit_e p) (wc_roles_bp w0)"
    using o(2) f m c by (simp_all add: established_of_def)
  have "map_option sx_seed_instance (driver_terms (es_channel_id x) d') = Some (wc_seed_instance w0)"
    using o(3) f(2) x(1) m c by (simp add: terms_of_def)
  moreover have "checkpoint_basis_ok w cp \<noteq> None"
    if "evolves cs (es_state x) acc st" "set acc \<subseteq> set xs" "build_checkpoint_at cs cutoff ts prev events st = Some cp"
    using built_on_basis [OF k(1,2) _ that(2,3)] that(1) c cw unfolding x(3) by simp
  moreover have "\<exists>st. accept_all cs ss (es_state x) = (Inr (), st)"
    if "\<not> op_prepay p" "total_amount xs \<le> unat (op_limit_e p)" "mset ss = mset xs"
  proof -
    have "length xs = unat (wc_next_seq w) - 1" using arg_cong [OF k(4), of length] by simp
    moreover have "1 \<le> unat (wc_next_seq w)" using k(1) by (simp add: wallet_inv_def)
    ultimately have "map (\<lambda>s. unat (seq s)) xs = [1 ..< Suc (length xs)]" using k(4) by simp
    moreover have "total_amount xs \<le> unat (op_limit_l p)" using run_below_cap [OF k(1,2)] that(1) c cw by simp
    ultimately show ?thesis
      unfolding x(3) using postpay_accepts [OF wallet_run_verifies [OF assms(5)]] that by simp
  qed
  ultimately show ?thesis using x by blast
qed

theorem endpoints_open_one_channel_witness:
  "\<exists>(co :: channel_open) w0 x d' sl w st. ex_opens True co w0 \<and>
     open_channel toy_suite toy_hpke (\<lambda>x. x) True wal_decide disk_fine co 9 ex_driver = (Inr (Established x), d') \<and>
     wallet_run toy_suite w0 [sl] w \<and> unat (amt_micro sl) = 100 \<and> es_k_session x = wc_k_session w0 \<and>
     st_channel_id (es_state x) = wc_channel_id w0"
proof -
  obtain co w0 where o: "ex_opens True co w0" using ex_opening by blast
  obtain x d1 where x: "open_channel toy_suite toy_hpke (\<lambda>x. x) True wal_decide disk_fine co 9 ex_driver = (Inr (Established x), d1)"
    using ex_established [OF o] by blast
  obtain sl w where s: "wallet_run toy_suite w0 [sl] w" "amt_micro sl = 100" by (rule ex_first_round [OF o])
  have "es_k_session x = wc_k_session w0 \<and> es_state x = new_state toy_suite (wc_channel_id w0) (wc_k_session w0)
      (if op_prepay (ex_params True) then Prepay else Postpay) (op_limit_l (ex_params True)) (op_limit_e (ex_params True)) (wc_roles_bp w0)"
    using endpoints_open_one_channel [OF o toy_hpke_pair _ x s(1)] by simp
  then show ?thesis using o x s by (intro exI conjI) (auto simp: new_state_def Let_def split: mode.split)
qed

text \<open>C15. An honest open is established, once: when the merchant has the registry, the key and the sealing key the
  payer bound and a settlement pointer that is a well-formed text, the channel settles in its denomination, the time is within the acceptance window, the identifier
  is free and the store records the claim, the wallet's open is established; and presenting the same message
  again within the window changes nothing and answers with the stored acknowledgement.\<close>

theorem honest_open_established:
  assumes "client_open_inner cs hs nfc uts46 ps demo t now policy p s registry = Inr (co, w0)"
    and "hpke_pair hs (dr_enc_secret d) (ab_enc_key (pt_binding t))" "length s = 32" "signs_verify cs"
    and "ab_merchant_key (pt_binding t) = dr_key d" "dr_registry d = registry" "op_denom p = op_baseline_asset p"
    and "abs_diff now' (op_timestamp p) \<le> SKEW_SECS + LATENCY_SECS"
    and "op_channel_id p \<notin> dr_tombstones d" "dr_retained d (op_channel_id p) = None"
    and "text_ok nfc (dr_settle_ptr d)" "pointer_parse nfc (dr_settle_ptr d) \<in> range Inr"
    and "dr_decisions d = Some st" "decide e (chopen_key (op_channel_id p)) [] st = (Fresh, st')"
  shows "\<exists>x d'. open_channel cs hs nfc demo decide e co now' d = (Inr (Established x), d') \<and>
    (\<forall>e2 now2. abs_diff now2 (op_timestamp p) \<le> SKEW_SECS + LATENCY_SECS \<longrightarrow>
      open_channel cs hs nfc demo decide e2 co now2 d' = (Inr (Retransmit (es_ack x)), d'))"
  by (rule handshake_ok) (rule assms)+

theorem honest_open_established_witness:
  "\<exists>(co :: channel_open) w0 x d'. ex_opens True co w0 \<and>
     open_channel toy_suite toy_hpke (\<lambda>x. x) True wal_decide disk_fine co 9 ex_driver = (Inr (Established x), d') \<and>
     open_channel toy_suite toy_hpke (\<lambda>x. x) True wal_decide disk_fine co 9 d' = (Inr (Retransmit (es_ack x)), d')"
proof -
  obtain co w0 where o: "ex_opens True co w0" using ex_opening by blast
  have "\<exists>x d'. open_channel toy_suite toy_hpke (\<lambda>x. x) True wal_decide disk_fine co 9 ex_driver = (Inr (Established x), d') \<and>
    (\<forall>e2 now2. abs_diff now2 (op_timestamp (ex_params True)) \<le> SKEW_SECS + LATENCY_SECS \<longrightarrow>
      open_channel toy_suite toy_hpke (\<lambda>x. x) True wal_decide e2 co now2 d' = (Inr (Retransmit (es_ack x)), d'))"
    by (rule honest_open_established [OF o toy_hpke_pair _ toy_signs])
      (use ex_settle_ptr ex_claim in \<open>simp_all add: ex_driver_reads ex_binding ex_params_reads\<close>)
  then show ?thesis using o by (auto simp: ex_params_reads)
qed

text \<open>The acknowledgement of a terminated channel is served like that of a live one.\<close>

theorem terminated_ack_served: "serve_ack_request cs req now (terminate cid d) = serve_ack_request cs req now d"
  by (cases "dr_retained d cid") (auto simp: serve_ack_request_def terminate_def split: option.split)

end
