(* ===== verification/Async_Rail.thy ===== *)
theory Async_Rail
  imports Virtual_Rail
begin

text \<open>
  The asynchronous rail, \<^verbatim>\<open>crates/paytp-rail/src/async_rail.rs\<close>: value moves when a transfer is confirmed,
  not when it is submitted; a confirmed transfer can be reverted by a reorganization of the chain until it
  is finalized. A handle shares one locked state, so an operation is a function of that state. A panic
  under the lock poisons it, so it ends the rail.
\<close>

section \<open>The state\<close>

datatype tx_level = Submitted | Confirmed | Finalized | Dropped

fun level_token :: "tx_level \<Rightarrow> bytes" where
  "level_token Submitted = ascii ''submitted''"
| "level_token Confirmed = ascii ''confirmed''"
| "level_token Finalized = ascii ''finalized''"
| "level_token Dropped = ascii ''dropped''"

text \<open>The operation of a reference, and what an applied one moved: the data of its reversal.\<close>

datatype rail_op =
    OpPlain bytes bytes u128 "bytes option"
  | OpRelease bytes bytes bytes u128
  | OpAdvance "bytes option" bytes bytes u128 bytes

datatype applied =
    DidPlain bytes u128
  | DidRelease bytes bytes u128
  | DidAdvance "bytes option" bytes bytes u128 "payout list" "(u128 \<times> u128 list \<times> u128) option"

record ref_record =
  rf_level :: tx_level
  rf_op :: rail_op
  rf_applied :: "applied option"
  rf_info :: "ref_info option"

record async_inner =
  as_clock :: u64
  as_ledger :: ledger
  as_instances :: "bytes \<rightharpoonup> meed_instance"
  as_refs :: "bytes \<rightharpoonup> ref_record"
  as_next_ref :: u64
  as_outage :: bool
  as_settle_ids :: "bytes \<rightharpoonup> bytes"
  as_release_keys :: "bytes \<times> bytes \<rightharpoonup> bytes"

definition async_new :: async_inner where
  "async_new =
     \<lparr>as_clock = 1000000000, as_ledger = Map.empty, as_instances = Map.empty, as_refs = Map.empty, as_next_ref = 0,
      as_outage = False, as_settle_ids = Map.empty, as_release_keys = Map.empty\<rparr>"

definition async_caps :: rail_caps where
  "async_caps =
     \<lparr>rc_supports_contracts = True, rc_finality_levels = [ascii ''submitted'', ascii ''confirmed'', ascii ''finalized''],
      rc_finality_delay = 2, rc_assets = [ascii ''virt-usd''], rc_inclusion_latency = 1\<rparr>"

definition async_advance_clock :: "u64 \<Rightarrow> async_inner \<Rightarrow> async_inner on_rail" where
  "async_advance_clock secs s =
     and_then (ok_or (checked_add (as_clock s) secs) Panic) (\<lambda>c. Inr (s\<lparr>as_clock := c\<rparr>))"

definition async_set_outage :: "bool \<Rightarrow> async_inner \<Rightarrow> async_inner" where
  "async_set_outage on s = s\<lparr>as_outage := on\<rparr>"

definition async_balance :: "bytes \<Rightarrow> async_inner \<Rightarrow> u128" where
  "async_balance a s = balance_of a (as_ledger s)"

definition async_channel_funded_p :: "bytes \<Rightarrow> bytes \<Rightarrow> async_inner \<Rightarrow> u128" where
  "async_channel_funded_p a cid s = (case as_instances s a of None \<Rightarrow> 0 | Some i \<Rightarrow> instance_channel_funded_p cid i)"

definition async_channel_residue :: "bytes \<Rightarrow> bytes \<Rightarrow> async_inner \<Rightarrow> u128" where
  "async_channel_residue a cid s = (case as_instances s a of None \<Rightarrow> 0 | Some i \<Rightarrow> instance_channel_residue cid i)"

definition async_derive_address :: "bytes \<Rightarrow> bytes" where
  "async_derive_address seed = ascii ''async:0x'' @ concat (map hex_byte (take 16 seed))"

text \<open>The deployment the tests use; the first one at an address wins.\<close>

definition async_deploy :: "bytes \<Rightarrow> bytes \<Rightarrow> meed_share list \<Rightarrow> async_inner \<Rightarrow> bytes \<times> async_inner" where
  "async_deploy seed mk meed s =
     (let a = async_derive_address seed in
      (a, if as_instances s a = None then s\<lparr>as_instances := (as_instances s)(a \<mapsto> instance_new mk meed seed)\<rparr> else s))"

section \<open>Moving value\<close>

text \<open>\<open>if let Some(b) = ledger.get_mut(a) { *b = b.saturating_sub(x) }\<close>.\<close>

definition take_from :: "bytes \<Rightarrow> u128 \<Rightarrow> ledger \<Rightarrow> ledger" where
  "take_from a x l = (case l a of None \<Rightarrow> l | Some b \<Rightarrow> l(a \<mapsto> sat_sub b x))"

text \<open>\<open>*ledger.entry(p.dest).or_insert(0) += p.amount\<close> for every payout.\<close>

fun add_payouts :: "payout list \<Rightarrow> ledger \<Rightarrow> ledger on_rail" where
  "add_payouts [] l = Inr l"
| "add_payouts (p # ps) l = and_then (add_to (po_dest p) (po_amount p) l) (add_payouts ps)"

fun take_payouts :: "payout list \<Rightarrow> ledger \<Rightarrow> ledger" where
  "take_payouts [] l = l"
| "take_payouts (p # ps) l = take_payouts ps (take_from (po_dest p) (po_amount p) l)"

definition advance_info :: "bytes \<Rightarrow> bytes \<Rightarrow> bytes \<Rightarrow> bytes \<Rightarrow> u128 \<Rightarrow> u128 \<Rightarrow> ref_info" where
  "advance_info a asset_id cid seed funded delta =
     (plain_info a asset_id delta)\<lparr>ri_advanced :=
       Some \<lparr>af_channel_id = cid, af_seed_instance = seed, af_funded_p = funded, af_delta = delta, af_asset = asset_id\<rparr>\<rparr>"

fun apply_op :: "rail_op \<Rightarrow> async_inner \<Rightarrow> (applied \<times> ref_info \<times> async_inner) on_rail" where
  "apply_op (OpPlain d asset_id x m) s =
     and_then (add_to d x (as_ledger s)) (\<lambda>l.
     Inr (DidPlain d x, (plain_info d asset_id x)\<lparr>ri_memo := m\<rparr>, s\<lparr>as_ledger := l\<rparr>))"
| "apply_op (OpRelease a d asset_id x) s =
     Inr (DidRelease a d x, plain_info d asset_id x, s\<lparr>as_ledger := credit d x (take_from a x (as_ledger s))\<rparr>)"
| "apply_op (OpAdvance from' a cid target asset_id) s =
     and_then (ok_or (as_instances s a) Panic) (\<lambda>i.
     and_then (of_entry (instance_advance_channel_meed cid target i)) (\<lambda>(funded, delta, out, i').
     let l = (case from' of Some f \<Rightarrow> if 0 < delta then take_from f delta (as_ledger s) else as_ledger s
                          | None \<Rightarrow> as_ledger s) in
     and_then (add_payouts out l) (\<lambda>l.
     Inr (DidAdvance from' a cid delta out (watermark_snapshot cid i),
          advance_info a asset_id cid (mi_seed_instance i) funded delta,
          s\<lparr>as_ledger := l, as_instances := (as_instances s)(a \<mapsto> i')\<rparr>))))"

fun revert_op :: "applied \<Rightarrow> async_inner \<Rightarrow> async_inner on_rail" where
  "revert_op (DidPlain d x) s = Inr (s\<lparr>as_ledger := take_from d x (as_ledger s)\<rparr>)"
| "revert_op (DidRelease a d x) s =
     and_then (add_to a x (take_from d x (as_ledger s))) (\<lambda>l. Inr (s\<lparr>as_ledger := l\<rparr>))"
| "revert_op (DidAdvance from' a cid delta out snap) s =
     (let l = take_payouts out (as_ledger s);
          js = (case as_instances s a of None \<Rightarrow> as_instances s
                | Some i \<Rightarrow> (as_instances s)(a \<mapsto> restore_watermark cid snap i)) in
      and_then (case from' of Some f \<Rightarrow> if 0 < delta then add_to f delta l else Inr l | None \<Rightarrow> Inr l) (\<lambda>l.
      Inr (s\<lparr>as_ledger := l, as_instances := js\<rparr>)))"

section \<open>Submission\<close>

definition record_op :: "rail_op \<Rightarrow> async_inner \<Rightarrow> (bytes \<times> async_inner) on_rail" where
  "record_op op s =
     (let rid = ascii ''async-ref:'' @ decimal (unat (as_next_ref s)) in
      and_then (ok_or (checked_add (as_next_ref s) 1) Panic) (\<lambda>n.
      Inr (rid, s\<lparr>as_next_ref := n, as_refs := (as_refs s)(rid \<mapsto>
        \<lparr>rf_level = Submitted, rf_op = op, rf_applied = None, rf_info = None\<rparr>)\<rparr>)))"

definition transfer_op :: "transfer \<Rightarrow> rail_op" where
  "transfer_op t = (case tr_kind t of Payment \<Rightarrow> OpPlain (tr_to t) (tr_asset t) (tr_amount t) (tr_memo t))"

definition async_submit :: "transfer \<Rightarrow> async_inner \<Rightarrow> (bytes \<times> async_inner) on_rail" where
  "async_submit t s = and_then (ensure (\<not> as_outage s) (Err Outage)) (\<lambda>_. record_op (transfer_op t) s)"

definition async_settle :: "transfer \<Rightarrow> bytes \<Rightarrow> async_inner \<Rightarrow> (bytes \<times> async_inner) on_rail" where
  "async_settle t sid s = (case as_settle_ids s sid of
     Some r \<Rightarrow> Inr (r, s)
   | None \<Rightarrow>
       and_then (ensure (\<not> as_outage s) (Err Outage)) (\<lambda>_.
       and_then (record_op (transfer_op t) s) (\<lambda>(r, s).
       Inr (r, s\<lparr>as_settle_ids := (as_settle_ids s)(sid \<mapsto> r)\<rparr>))))"

definition async_release_locked :: "bytes \<Rightarrow> bytes \<Rightarrow> bytes \<Rightarrow> u128 \<Rightarrow> async_inner \<Rightarrow> (bytes \<times> async_inner) on_rail" where
  "async_release_locked a d asset_id x s =
     and_then (ensure (\<not> as_outage s) (Err Outage)) (\<lambda>_.
     and_then (ensure (\<not> (x = 0 \<or> balance_of a (as_ledger s) < x))
       (Err (Rejected ''insufficient escrow balance for release''))) (\<lambda>_.
     record_op (OpRelease a d asset_id x) s))"

definition async_release :: "bytes \<Rightarrow> bytes \<Rightarrow> bytes \<Rightarrow> u128 \<Rightarrow> async_inner \<Rightarrow> (bytes \<times> async_inner) on_rail" where
  "async_release = async_release_locked"

definition async_release_keyed ::
  "bytes \<Rightarrow> bytes \<Rightarrow> bytes \<Rightarrow> bytes \<Rightarrow> bytes \<Rightarrow> u128 \<Rightarrow> async_inner \<Rightarrow> (bytes \<times> async_inner) on_rail" where
  "async_release_keyed cid ckpt_ref a d asset_id x s = (case as_release_keys s (cid, ckpt_ref) of
     Some r \<Rightarrow> Inr (r, s)
   | None \<Rightarrow>
       and_then (async_release_locked a d asset_id x s) (\<lambda>(r, s).
       Inr (r, s\<lparr>as_release_keys := (as_release_keys s)((cid, ckpt_ref) \<mapsto> r)\<rparr>)))"

definition async_advance_channel_meed ::
  "bytes option \<Rightarrow> bytes \<Rightarrow> bytes \<Rightarrow> u128 \<Rightarrow> bytes \<Rightarrow> async_inner \<Rightarrow> (bytes \<times> async_inner) on_rail" where
  "async_advance_channel_meed from' a cid target asset_id s =
     and_then (ensure (\<not> as_outage s) (Err Outage)) (\<lambda>_.
     and_then (ok_or (as_instances s a) (Err NoSuchAccount)) (\<lambda>i.
     let delta = sat_sub target (instance_channel_funded_p cid i) in
     and_then (ensure (case from' of Some f \<Rightarrow> \<not> (0 < delta \<and> balance_of f (as_ledger s) < delta) | None \<Rightarrow> True)
       (Err (Rejected ''insufficient escrow balance for meed advance''))) (\<lambda>_.
     record_op (OpAdvance from' a cid target asset_id) s)))"

section \<open>The life of a reference\<close>

definition async_confirm :: "bytes \<Rightarrow> async_inner \<Rightarrow> async_inner on_rail" where
  "async_confirm r s = (case as_refs s r of
     None \<Rightarrow> Inr s
   | Some x \<Rightarrow>
       if rf_level x \<noteq> Submitted then Inr s
       else and_then (apply_op (rf_op x) s) (\<lambda>(a, info, s).
         Inr (s\<lparr>as_refs := (as_refs s)(r \<mapsto>
           x\<lparr>rf_level := Confirmed, rf_applied := Some a, rf_info := Some (info\<lparr>ri_canonical := r\<rparr>)\<rparr>)\<rparr>)))"

definition set_level :: "bytes \<Rightarrow> tx_level \<Rightarrow> async_inner \<Rightarrow> async_inner" where
  "set_level r l s = s\<lparr>as_refs := (as_refs s)(r := map_option (\<lambda>x. x\<lparr>rf_level := l\<rparr>) (as_refs s r))\<rparr>"

text \<open>The code looks at the level under one lock, and writes it under the next (after a confirmation under a lock
  of its own); the model runs the three without another call in between. What a call in between can do is
  shown in \<open>finalize_races_reorg\<close>.\<close>

definition async_finalize :: "bytes \<Rightarrow> async_inner \<Rightarrow> async_inner on_rail" where
  "async_finalize r s = (case map_option rf_level (as_refs s r) of
     Some Submitted \<Rightarrow>
       and_then (async_confirm r s) (\<lambda>s.
       Inr (if map_option rf_level (as_refs s r) = Some Confirmed then set_level r Finalized s else s))
   | Some Confirmed \<Rightarrow> Inr (set_level r Finalized s)
   | _ \<Rightarrow> Inr s)"

definition async_reorg :: "bytes \<Rightarrow> async_inner \<Rightarrow> (bool \<times> async_inner) on_rail" where
  "async_reorg r s = (case as_refs s r of
     None \<Rightarrow> Inr (False, s)
   | Some x \<Rightarrow> (case rf_level x of
       Finalized \<Rightarrow> Inr (False, s)
     | Dropped \<Rightarrow> Inr (False, s)
     | Submitted \<Rightarrow> Inr (True, set_level r Dropped s)
     | Confirmed \<Rightarrow>
         and_then (case rf_applied x of Some a \<Rightarrow> revert_op a s | None \<Rightarrow> Inr s) (\<lambda>s.
         Inr (True, s\<lparr>as_refs := (as_refs s)(r \<mapsto> x\<lparr>rf_level := Dropped, rf_applied := None, rf_info := None\<rparr>)\<rparr>))))"

definition async_drop_tx :: "bytes \<Rightarrow> async_inner \<Rightarrow> async_inner" where
  "async_drop_tx r s = (if map_option rf_level (as_refs s r) = Some Submitted then set_level r Dropped s else s)"

section \<open>Observation\<close>

definition async_finality :: "bytes \<Rightarrow> async_inner \<Rightarrow> finality_obs option" where
  "async_finality r s = Option.bind (as_refs s r) (\<lambda>x.
     if rf_level x = Dropped then None else Some \<lparr>fo_level = level_token (rf_level x), fo_time = as_clock s\<rparr>)"

definition async_ref_target :: "bytes \<Rightarrow> async_inner \<Rightarrow> ref_info option" where
  "async_ref_target r s = Option.bind (as_refs s r) rf_info"

definition async_chain_time :: "async_inner \<Rightarrow> u64" where
  "async_chain_time s = as_clock s"

end
