(* ===== verification/Async_History.thy ===== *)
theory Async_History
  imports Async_Rail Rail_Facts
begin

text \<open>
  The calls of the asynchronous rail as a relation, and the life of a reference: it is numbered once, keeps
  its operation, and moves only forward, from submitted to confirmed to finalized or to dropped.
\<close>

inductive async_call :: "async_inner \<Rightarrow> async_inner \<Rightarrow> bool" where
  call_clock: "async_advance_clock secs s = Inr t \<Longrightarrow> async_call s t"
| call_outage: "async_call s (async_set_outage on s)"
| call_deploy: "async_call s (snd (async_deploy seed mk meed s))"
| call_submit: "async_submit tr s = Inr (r, t) \<Longrightarrow> async_call s t"
| call_settle: "async_settle tr sid s = Inr (r, t) \<Longrightarrow> async_call s t"
| call_release: "async_release a d asset_id x s = Inr (r, t) \<Longrightarrow> async_call s t"
| call_keyed: "async_release_keyed cid ckpt_ref a d asset_id x s = Inr (r, t) \<Longrightarrow> async_call s t"
| call_advance: "async_advance_channel_meed f a cid target asset_id s = Inr (r, t) \<Longrightarrow> async_call s t"
| call_confirm: "async_confirm r s = Inr t \<Longrightarrow> async_call s t"
| call_finalize: "async_finalize r s = Inr t \<Longrightarrow> async_call s t"
| call_reorg: "async_reorg r s = Inr (b, t) \<Longrightarrow> async_call s t"
| call_drop: "async_call s (async_drop_tx r s)"

abbreviation async_run :: "async_inner \<Rightarrow> async_inner \<Rightarrow> bool" where
  "async_run \<equiv> async_call\<^sup>*\<^sup>*"

section \<open>The references of a state\<close>

definition async_id :: "nat \<Rightarrow> bytes" where
  "async_id n = ascii ''async-ref:'' @ decimal n"

definition record_ok :: "bytes \<Rightarrow> ref_record \<Rightarrow> bool" where
  "record_ok r x \<longleftrightarrow> (case rf_level x of
     Submitted \<Rightarrow> rf_applied x = None \<and> rf_info x = None
   | Dropped \<Rightarrow> rf_applied x = None \<and> rf_info x = None
   | _ \<Rightarrow> rf_applied x \<noteq> None \<and> (\<exists>i. rf_info x = Some i \<and> ri_canonical i = r))"

definition refs_ok :: "async_inner \<Rightarrow> bool" where
  "refs_ok s \<longleftrightarrow> (\<forall>r x. as_refs s r = Some x \<longrightarrow> record_ok r x \<and> (\<exists>n < unat (as_next_ref s). r = async_id n))"

definition follows :: "ref_record \<Rightarrow> ref_record \<Rightarrow> bool" where
  "follows x y \<longleftrightarrow> rf_op y = rf_op x \<and>
     (case rf_level x of
        Submitted \<Rightarrow> True
      | Confirmed \<Rightarrow> y = x \<or> y = x\<lparr>rf_level := Finalized\<rparr> \<or> rf_level y = Dropped
      | _ \<Rightarrow> y = x)"

definition moves_on :: "async_inner \<Rightarrow> async_inner \<Rightarrow> bool" where
  "moves_on s t \<longleftrightarrow> refs_ok t \<and> (\<forall>r x. as_refs s r = Some x \<longrightarrow> (\<exists>y. as_refs t r = Some y \<and> follows x y)) \<and>
     as_settle_ids s \<subseteq>\<^sub>m as_settle_ids t \<and> as_release_keys s \<subseteq>\<^sub>m as_release_keys t"

lemma follows_refl [simp]: "follows x x"
  by (simp add: follows_def split: tx_level.split)

lemma follows_trans: "follows x y \<Longrightarrow> follows y z \<Longrightarrow> follows x z"
  by (auto simp: follows_def split: tx_level.splits)

lemma moves_on_trans: "moves_on s t \<Longrightarrow> moves_on t u \<Longrightarrow> moves_on s u"
  unfolding moves_on_def by (meson follows_trans map_le_trans)

lemma moves_on_same:
  "refs_ok s \<Longrightarrow> as_refs t = as_refs s \<Longrightarrow> as_next_ref t = as_next_ref s \<Longrightarrow>
   as_settle_ids t = as_settle_ids s \<Longrightarrow> as_release_keys t = as_release_keys s \<Longrightarrow> moves_on s t"
  by (auto simp: moves_on_def refs_ok_def)

text \<open>One record replaced by one that follows it.\<close>

lemma moves_on_at:
  assumes "refs_ok s" "as_refs s r = Some x" "record_ok r y" "follows x y"
    and "as_refs t = (as_refs s)(r \<mapsto> y)" "as_next_ref t = as_next_ref s"
    and "as_settle_ids t = as_settle_ids s" "as_release_keys t = as_release_keys s"
  shows "moves_on s t"
  using assms by (auto simp: moves_on_def refs_ok_def)

text \<open>A fresh record.\<close>

lemma next_ref_bound: "checked_add (as_next_ref s) 1 = Some n \<Longrightarrow> unat n = unat (as_next_ref s) + 1"
  by (simp add: checked_add_Some)

lemma record_op_parts:
  assumes "record_op op s = Inr (r, t)"
  shows "r = async_id (unat (as_next_ref s))" "unat (as_next_ref t) = unat (as_next_ref s) + 1"
    "as_refs t = (as_refs s)(r \<mapsto> \<lparr>rf_level = Submitted, rf_op = op, rf_applied = None, rf_info = None\<rparr>)"
    "as_settle_ids t = as_settle_ids s" "as_release_keys t = as_release_keys s"
    "as_ledger t = as_ledger s" "as_instances t = as_instances s"
  using assms next_ref_bound by (auto simp: record_op_def async_id_def Let_def)

lemma async_id_inj: "async_id m = async_id n \<Longrightarrow> m = n"
  using decimal_inj by (simp add: async_id_def)

lemma fresh_ref: "refs_ok s \<Longrightarrow> as_refs s (async_id (unat (as_next_ref s))) = None"
  unfolding refs_ok_def using async_id_inj by (metis less_irrefl not_None_eq)

lemma record_op_moves_on:
  assumes "refs_ok s" "record_op op s = Inr (r, t)"
  shows "moves_on s t"
proof -
  note p = record_op_parts [OF assms(2)] and f = fresh_ref [OF assms(1)]
  have "refs_ok t"
    unfolding refs_ok_def
  proof (intro allI impI)
    fix q x assume "as_refs t q = Some x"
    then consider "q = r" "record_ok q x" | "as_refs s q = Some x"
      by (auto simp: p(3) record_ok_def split: if_splits)
    then show "record_ok q x \<and> (\<exists>n < unat (as_next_ref t). q = async_id n)"
      using assms(1) p(1,2) unfolding refs_ok_def by cases (metis less_add_one trans_less_add1)+
  qed
  then show ?thesis using p f by (auto simp: moves_on_def map_le_def)
qed

lemma moves_on_more:
  assumes "moves_on s t" "as_refs u = as_refs t" "as_next_ref u = as_next_ref t"
    and "as_settle_ids t \<subseteq>\<^sub>m as_settle_ids u" "as_release_keys t \<subseteq>\<^sub>m as_release_keys u"
  shows "moves_on s u"
  using assms unfolding moves_on_def refs_ok_def by (metis map_le_trans)

section \<open>What moving value leaves alone\<close>

lemma apply_op_frame:
  "apply_op op s = Inr (d, i, t) \<Longrightarrow> as_refs t = as_refs s \<and> as_next_ref t = as_next_ref s \<and>
     as_settle_ids t = as_settle_ids s \<and> as_release_keys t = as_release_keys s"
  by (cases op) (auto simp: Let_def split: prod.splits)

lemma revert_op_frame:
  "revert_op d s = Inr t \<Longrightarrow> as_refs t = as_refs s \<and> as_next_ref t = as_next_ref s \<and>
     as_settle_ids t = as_settle_ids s \<and> as_release_keys t = as_release_keys s"
  by (cases d) (auto simp: Let_def)

lemma set_level_moves_on:
  assumes "refs_ok s" "as_refs s r = Some x" "record_ok r (x\<lparr>rf_level := l\<rparr>)" "follows x (x\<lparr>rf_level := l\<rparr>)"
  shows "moves_on s (set_level r l s)"
  by (rule moves_on_at [OF assms]) (simp_all add: set_level_def assms(2))

lemma confirm_cases:
  assumes "async_confirm r s = Inr t"
  obtains (none) "t = s" "\<And>x. as_refs s r = Some x \<Longrightarrow> rf_level x \<noteq> Submitted"
  | (confirmed) x d i u where "as_refs s r = Some x" "rf_level x = Submitted" "apply_op (rf_op x) s = Inr (d, i, u)"
      "t = u\<lparr>as_refs := (as_refs u)(r \<mapsto> x\<lparr>rf_level := Confirmed, rf_applied := Some d, rf_info := Some (i\<lparr>ri_canonical := r\<rparr>)\<rparr>)\<rparr>"
  using assms by (auto simp: async_confirm_def split: option.splits if_splits prod.splits)

lemma confirm_moves_on:
  assumes "refs_ok s" "async_confirm r s = Inr t"
  shows "moves_on s t"
  using assms(2)
proof (cases rule: confirm_cases)
  case none
  then show ?thesis using moves_on_same [OF assms(1)] by simp
next
  case (confirmed x d i u)
  note f = apply_op_frame [OF confirmed(3)]
  show ?thesis
    by (rule moves_on_at [OF assms(1) confirmed(1), of "x\<lparr>rf_level := Confirmed, rf_applied := Some d, rf_info := Some (i\<lparr>ri_canonical := r\<rparr>)\<rparr>"])
      (use f confirmed in \<open>simp_all add: record_ok_def follows_def\<close>)
qed

lemma finalize_cases:
  assumes "async_finalize r s = Inr t"
  obtains (none) "t = s"
  | (final) x where "as_refs s r = Some x" "rf_level x = Confirmed" "t = set_level r Finalized s"
  | (both) x u y where "as_refs s r = Some x" "rf_level x = Submitted" "async_confirm r s = Inr u" "as_refs u r = Some y"
      "rf_level y = Confirmed" "t = set_level r Finalized u"
proof (cases "as_refs s r")
  case None
  then show ?thesis using assms none by (simp add: async_finalize_def)
next
  case (Some x)
  show ?thesis
  proof (cases "rf_level x")
    case Submitted
    then obtain u where u: "async_confirm r s = Inr u"
        "t = (if map_option rf_level (as_refs u r) = Some Confirmed then set_level r Finalized u else u)"
      using assms Some by (auto simp: async_finalize_def)
    from u(1) obtain y where "as_refs u r = Some y" "rf_level y = Confirmed"
      by (cases rule: confirm_cases) (use Some Submitted in auto)
    then show ?thesis using both [OF Some Submitted u(1)] u(2) by simp
  next
    case Confirmed
    then show ?thesis using assms Some final [OF Some] by (simp add: async_finalize_def)
  qed (use assms Some none in \<open>simp_all add: async_finalize_def\<close>)
qed

lemma refs_okD: "refs_ok s \<Longrightarrow> as_refs s r = Some x \<Longrightarrow> record_ok r x"
  by (simp add: refs_ok_def)

lemma set_final_moves_on:
  "refs_ok s \<Longrightarrow> as_refs s r = Some x \<Longrightarrow> rf_level x = Confirmed \<Longrightarrow> moves_on s (set_level r Finalized s)"
  by (rule set_level_moves_on) (auto dest!: refs_okD simp: record_ok_def follows_def)

lemma set_dropped_moves_on:
  "refs_ok s \<Longrightarrow> as_refs s r = Some x \<Longrightarrow> rf_level x = Submitted \<Longrightarrow> moves_on s (set_level r Dropped s)"
  by (rule set_level_moves_on) (auto dest!: refs_okD simp: record_ok_def follows_def)

lemma reorg_cases:
  assumes "async_reorg r s = Inr (b, t)"
  obtains (none) "\<not> b" "t = s" "\<And>x. as_refs s r = Some x \<Longrightarrow> rf_level x = Finalized \<or> rf_level x = Dropped"
  | (pending) x where "b" "as_refs s r = Some x" "rf_level x = Submitted" "t = set_level r Dropped s"
  | (reverted) x u where "b" "as_refs s r = Some x" "rf_level x = Confirmed"
      "(case rf_applied x of Some d \<Rightarrow> revert_op d s | None \<Rightarrow> Inr s) = Inr u"
      "t = u\<lparr>as_refs := (as_refs u)(r \<mapsto> x\<lparr>rf_level := Dropped, rf_applied := None, rf_info := None\<rparr>)\<rparr>"
  using assms by (auto simp: async_reorg_def split: option.splits tx_level.splits)

lemma reorg_moves_on:
  assumes "refs_ok s" "async_reorg r s = Inr (b, t)"
  shows "moves_on s t"
  using assms(2)
proof (cases rule: reorg_cases)
  case none
  then show ?thesis using moves_on_same [OF assms(1)] by simp
next
  case (pending x)
  then show ?thesis using set_dropped_moves_on [OF assms(1)] by simp
next
  case (reverted x u)
  have f: "as_refs u = as_refs s \<and> as_next_ref u = as_next_ref s \<and> as_settle_ids u = as_settle_ids s \<and> as_release_keys u = as_release_keys s"
    using reverted(4) revert_op_frame by (cases "rf_applied x") auto
  show ?thesis
    by (rule moves_on_at [OF assms(1) reverted(2), of "x\<lparr>rf_level := Dropped, rf_applied := None, rf_info := None\<rparr>"])
      (use f reverted in \<open>simp_all add: record_ok_def follows_def\<close>)
qed

lemma released_op: "async_release_locked a d asset_id x s = Inr (r, t) \<Longrightarrow> record_op (OpRelease a d asset_id x) s = Inr (r, t)"
  by (simp add: async_release_locked_def)

lemma settle_cases:
  assumes "async_settle tr sid s = Inr (r, t)"
  obtains (again) "as_settle_ids s sid = Some r" "t = s"
  | (fresh) u where "as_settle_ids s sid = None" "record_op (transfer_op tr) s = Inr (r, u)"
      "t = u\<lparr>as_settle_ids := (as_settle_ids u)(sid \<mapsto> r)\<rparr>"
  using assms by (auto simp: async_settle_def split: option.splits prod.splits)

lemma keyed_cases:
  assumes "async_release_keyed cid ckpt_ref a d asset_id x s = Inr (r, t)"
  obtains (again) "as_release_keys s (cid, ckpt_ref) = Some r" "t = s"
  | (fresh) u where "as_release_keys s (cid, ckpt_ref) = None" "record_op (OpRelease a d asset_id x) s = Inr (r, u)"
      "t = u\<lparr>as_release_keys := (as_release_keys u)((cid, ckpt_ref) \<mapsto> r)\<rparr>"
  using assms by (auto simp: async_release_keyed_def async_release_locked_def split: option.splits prod.splits)

lemma call_moves_on: "async_call s t \<Longrightarrow> refs_ok s \<Longrightarrow> moves_on s t"
proof (induction rule: async_call.induct)
  case (call_settle tr sid s r t)
  from call_settle(1) show ?case
  proof (cases rule: settle_cases)
    case (fresh u)
    note p = record_op_parts [OF fresh(2)]
    show ?thesis by (rule moves_on_more [OF record_op_moves_on [OF call_settle(2) fresh(2)]])
      (use fresh p in \<open>auto simp: map_le_def\<close>)
  qed (use moves_on_same [OF call_settle(2)] in simp)
next
  case (call_keyed cid ckpt_ref a d asset_id x s r t)
  from call_keyed(1) show ?case
  proof (cases rule: keyed_cases)
    case (fresh u)
    note p = record_op_parts [OF fresh(2)]
    show ?thesis by (rule moves_on_more [OF record_op_moves_on [OF call_keyed(2) fresh(2)]])
      (use fresh p in \<open>auto simp: map_le_def\<close>)
  qed (use moves_on_same [OF call_keyed(2)] in simp)
next
  case (call_finalize r s t)
  from call_finalize(1) show ?case
  proof (cases rule: finalize_cases)
    case (both x u y)
    have d: "moves_on s u" by (rule confirm_moves_on [OF call_finalize(2) both(3)])
    then have "refs_ok u" by (simp add: moves_on_def)
    then show ?thesis using moves_on_trans [OF d] set_final_moves_on both by blast
  qed (use moves_on_same [OF call_finalize(2)] set_final_moves_on [OF call_finalize(2)] in auto)
next
  case (call_drop s r)
  show ?case
  proof (cases "map_option rf_level (as_refs s r) = Some Submitted")
    case True
    then show ?thesis using set_dropped_moves_on [OF call_drop] by (auto simp: async_drop_tx_def)
  next
    case False
    then have "async_drop_tx r s = s" by (simp only: async_drop_tx_def if_False)
    then show ?thesis using moves_on_same [OF call_drop] by simp
  qed
next
  case (call_release a d asset_id x s r t)
  then have "record_op (OpRelease a d asset_id x) s = Inr (r, t)" using released_op by (simp add: async_release_def)
  then show ?case by (rule record_op_moves_on [OF call_release(2)])
next
  case (call_submit tr s r t)
  then show ?case using record_op_moves_on by (auto simp: async_submit_def)
next
  case (call_advance f a cid target asset_id s r t)
  then show ?case using record_op_moves_on by (auto simp: async_advance_channel_meed_def Let_def)
next
  case (call_clock secs s t)
  then show ?case by (auto simp: async_advance_clock_def intro: moves_on_same)
next
  case (call_outage s on)
  then show ?case by (simp add: async_set_outage_def moves_on_same)
next
  case (call_deploy s seed mk meed)
  then show ?case by (simp add: async_deploy_def Let_def moves_on_same)
next
  case (call_confirm r s t)
  then show ?case using confirm_moves_on by blast
next
  case (call_reorg r s b t)
  then show ?case using reorg_moves_on by blast
qed

lemma refs_ok_new [simp]: "refs_ok async_new"
  by (simp add: refs_ok_def async_new_def)

lemma run_moves_on: "async_run s t \<Longrightarrow> refs_ok s \<Longrightarrow> moves_on s t"
proof (induction rule: rtranclp_induct)
  case base
  then show ?case by (rule moves_on_same) simp_all
next
  case (step y z)
  then have y: "moves_on s y" by blast
  then have "refs_ok y" by (simp add: moves_on_def)
  then show ?case using moves_on_trans [OF y] call_moves_on [OF step.hyps(2)] by blast
qed

lemma async_run_ok: "async_run s t \<Longrightarrow> refs_ok s \<Longrightarrow> refs_ok t"
  using run_moves_on by (simp add: moves_on_def)

end
