(* ===== verification/Async_Fork.thy ===== *)
theory Async_Fork
  imports Async_History Rail_Facts Rail_Conservation
begin

text \<open>
  Forks of the asynchronous rail. Transfers are included one after the other; a reorganization takes the
  latest included ones away. The money - the balances and the instances - is then that of the remaining
  transfers alone, in their order, as long as every source covered its debit when it was included. Then the value of
  such histories.
\<close>

section \<open>Equal money\<close>

definition similar :: "async_inner \<Rightarrow> async_inner \<Rightarrow> bool" where
  "similar s t \<longleftrightarrow> (\<forall>a. balance_of a (as_ledger s) = balance_of a (as_ledger t)) \<and> as_instances s = as_instances t"

lemma similar_refl [simp]: "similar s s"
  by (simp add: similar_def)

lemma similar_trans: "similar s t \<Longrightarrow> similar t u \<Longrightarrow> similar s u"
  by (simp add: similar_def)

lemma similar_sym: "similar s t \<Longrightarrow> similar t s"
  by (simp add: similar_def)

section \<open>Ledgers by their balances\<close>

abbreviation has :: "bytes \<Rightarrow> ledger \<Rightarrow> nat" where "has a l \<equiv> unat (balance_of a l)"

lemma same_balances: "(\<forall>a. balance_of a l = balance_of a m) \<longleftrightarrow> (\<forall>a. has a l = has a m)"
  by (simp add: word_unat_eq_iff)

lemma has_take [simp]: "has d (take_from a x l) = has d l - (if a = d then unat x else 0)"
  by (cases "l a") (auto simp: take_from_def balance_of_def unat_sat_sub)

lemma has_credit: "has d l + unat x < 2 ^ 128 \<Longrightarrow> has d' (credit d x l) = has d' l + (if d = d' then unat x else 0)"
  by (auto simp: credit_def unat_sat_add)

lemma has_credit_sat: "has d' (credit d x l) = (if d = d' then min (has d' l + unat x) (2 ^ 128 - 1) else has d' l)"
  by (auto simp: credit_def unat_sat_add)

lemma add_to_has: "add_to a x l = Inr m \<Longrightarrow> has a l + unat x < 2 ^ 128 \<and> (\<forall>d. has d m = has d l + (if a = d then unat x else 0))"
  by (auto simp: add_to_def checked_add_Some)

lemma add_to_works: "has a l + unat x < 2 ^ 128 \<Longrightarrow> \<exists>m. add_to a x l = Inr m"
  by (simp add: add_to_def checked_add_def)

lemma add_payouts_has: "add_payouts out l = Inr m \<Longrightarrow> has d m = has d l + payouts_to d out"
proof (induction out arbitrary: l)
  case (Cons p out)
  then obtain l1 where l1: "add_to (po_dest p) (po_amount p) l = Inr l1" "add_payouts out l1 = Inr m" by auto
  show ?case using Cons.IH [OF l1(2)] add_to_has [OF l1(1)] by simp
qed simp

lemma take_payouts_has: "has d (take_payouts out l) = has d l - payouts_to d out"
  by (induction out arbitrary: l) simp_all

lemma add_to_same:
  assumes "add_to a x l = Inr l'" "\<forall>d. has d l = has d m"
  shows "\<exists>m'. add_to a x m = Inr m' \<and> (\<forall>d. has d l' = has d m')"
proof -
  have "has a m + unat x < 2 ^ 128" using add_to_has [OF assms(1)] assms(2) by simp
  then obtain m' where "add_to a x m = Inr m'" using add_to_works by blast
  then show ?thesis using add_to_has assms by simp
qed

lemma add_payouts_same:
  "add_payouts out l = Inr l' \<Longrightarrow> \<forall>d. has d l = has d m \<Longrightarrow> \<exists>m'. add_payouts out m = Inr m' \<and> (\<forall>d. has d l' = has d m')"
proof (induction out arbitrary: l m)
  case (Cons p out)
  then obtain l1 where l1: "add_to (po_dest p) (po_amount p) l = Inr l1" "add_payouts out l1 = Inr l'" by auto
  obtain m1 where m1: "add_to (po_dest p) (po_amount p) m = Inr m1" "\<forall>d. has d l1 = has d m1"
    using add_to_same [OF l1(1) Cons.prems(2)] by blast
  show ?case using Cons.IH [OF l1(2) m1(2)] m1(1) by simp
qed simp

lemma similar_has: "similar s t \<longleftrightarrow> (\<forall>d. has d (as_ledger s) = has d (as_ledger t)) \<and> as_instances s = as_instances t"
  by (simp add: similar_def same_balances)

section \<open>Inclusion and its reversal\<close>

text \<open>The source of a debit covers it when the transfer is included, and the saturating credit of a release
  does not saturate.\<close>

fun source_covers :: "rail_op \<Rightarrow> async_inner \<Rightarrow> bool" where
  "source_covers (OpPlain d asset_id x m) s \<longleftrightarrow> True"
| "source_covers (OpRelease a d asset_id x) s \<longleftrightarrow> unat x \<le> has a (as_ledger s) \<and> has d (as_ledger s) + unat x < 2 ^ 128"
| "source_covers (OpAdvance f a cid target asset_id) s \<longleftrightarrow> (case (f, as_instances s a) of
     (Some f, Some i) \<Rightarrow> unat (sat_sub target (instance_channel_funded_p cid i)) \<le> has f (as_ledger s)
   | _ \<Rightarrow> True)"

lemma source_covers_similar: "similar s t \<Longrightarrow> source_covers op s = source_covers op t"
  by (cases op) (auto simp: similar_has split: option.splits)

lemma taken_same: "\<forall>d. has d l = has d m \<Longrightarrow> \<forall>d. has d (take_from a x l) = has d (take_from a x m)"
  by simp

lemma apply_similar:
  assumes "apply_op op s = Inr (d, i, s')" "similar s t"
  shows "\<exists>t'. apply_op op t = Inr (d, i, t') \<and> similar s' t'"
proof (cases op)
  case (OpPlain to' asset_id x m)
  then show ?thesis using assms add_to_same [of to' x "as_ledger s"] by (fastforce simp: similar_has)
next
  case (OpRelease a to' asset_id x)
  then show ?thesis using assms by (auto simp: similar_has has_credit_sat)
next
  case (OpAdvance f a cid target asset_id)
  let ?l = "\<lambda>s :: async_inner. \<lambda>delta. case f of Some f \<Rightarrow> if 0 < delta then take_from f delta (as_ledger s) else as_ledger s | None \<Rightarrow> as_ledger s"
  obtain j funded delta out j' l where o: "as_instances s a = Some j"
      "of_entry (instance_advance_channel_meed cid target j) = Inr (funded, delta, out, j')" "add_payouts out (?l s delta) = Inr l"
      "d = DidAdvance f a cid delta out (watermark_snapshot cid j)" "i = advance_info a asset_id cid (mi_seed_instance j) funded delta"
      "s' = s\<lparr>as_ledger := l, as_instances := (as_instances s)(a \<mapsto> j')\<rparr>"
    using assms(1) OpAdvance by (auto simp: Let_def split: prod.splits)
  have "\<forall>x. has x (?l s delta) = has x (?l t delta)" using assms(2) by (cases f) (simp_all add: similar_has)
  then obtain m where m: "add_payouts out (?l t delta) = Inr m" "\<forall>x. has x l = has x m" using add_payouts_same [OF o(3)] by blast
  show ?thesis using o m assms(2) OpAdvance by (auto simp: similar_has Let_def split: option.splits)
qed

lemma advance_delta:
  "instance_advance_channel_meed cid target i = Inr (funded, delta, out, j) \<Longrightarrow> delta = 0 \<or> delta = sat_sub target (instance_channel_funded_p cid i)"
  by (auto simp: instance_advance_channel_meed_def instance_channel_funded_p_def Let_def sat_sub_def split: option.splits if_splits prod.splits)

lemma advance_reset:
  "instance_advance_channel_meed cid target i = Inr (funded, delta, out, j) \<Longrightarrow> restore_watermark cid (watermark_snapshot cid i) j = i"
  by (cases "mi_channel_paid i cid")
    (auto simp: instance_advance_channel_meed_def restore_watermark_def watermark_snapshot_def Let_def fun_upd_idem split: option.splits if_splits prod.splits)

lemma revert_undoes:
  assumes "apply_op op s = Inr (d, i, s')" "source_covers op s" "similar s' t'"
  shows "\<exists>t. revert_op d t' = Inr t \<and> similar t s"
proof (cases op)
  case (OpPlain to' asset_id x m)
  then obtain l where l: "add_to to' x (as_ledger s) = Inr l" "d = DidPlain to' x" "s' = s\<lparr>as_ledger := l\<rparr>" using assms(1) by auto
  have "has e (as_ledger t') = has e (as_ledger s) + (if to' = e then unat x else 0)" for e
    using assms(3) add_to_has [OF l(1)] l(3) by (simp add: similar_has)
  then show ?thesis using assms(3) l(2,3) by (simp add: similar_has)
next
  case (OpRelease a to' asset_id x)
  have d: "d = DidRelease a to' x" "s' = s\<lparr>as_ledger := credit to' x (take_from a x (as_ledger s))\<rparr>"
    using OpRelease assms(1) by auto
  have h: "unat x \<le> has a (as_ledger s)" "has to' (as_ledger s) + unat x < 2 ^ 128" using OpRelease assms(2) by simp_all
  have t: "has e (as_ledger t') = has e (as_ledger s) - (if a = e then unat x else 0) + (if to' = e then unat x else 0)" for e
    using assms(3) h has_credit [of to' "take_from a x (as_ledger s)" x e] d(2) by (auto simp: similar_has)
  have b: "has a (as_ledger s) < 2 ^ 128" using unat_lt2p [of "balance_of a (as_ledger s)"] by simp
  then have "has a (take_from to' x (as_ledger t')) + unat x < 2 ^ 128" using t h by (auto split: if_splits)
  then obtain l where l: "add_to a x (take_from to' x (as_ledger t')) = Inr l" using add_to_works by blast
  have "has e l = has e (as_ledger s)" for e using add_to_has [OF l] t h by (auto split: if_splits)
  then show ?thesis using l d assms(3) by (simp add: similar_has)
next
  case (OpAdvance f a cid target asset_id)
  let ?l = "\<lambda>delta. case f of Some f \<Rightarrow> if 0 < delta then take_from f delta (as_ledger s) else as_ledger s | None \<Rightarrow> as_ledger s"
  obtain j funded delta out j' l where o: "as_instances s a = Some j"
      "instance_advance_channel_meed cid target j = Inr (funded, delta, out, j')" "add_payouts out (?l delta) = Inr l"
      "d = DidAdvance f a cid delta out (watermark_snapshot cid j)" "s' = s\<lparr>as_ledger := l, as_instances := (as_instances s)(a \<mapsto> j')\<rparr>"
    using assms(1) OpAdvance by (auto simp: Let_def split: prod.splits)
  have js: "as_instances t' = (as_instances s)(a \<mapsto> j')" and t: "has e (as_ledger t') = has e (?l delta) + payouts_to e out" for e
    using assms(3) add_payouts_has [OF o(3)] o(5) by (simp_all add: similar_has)
  have r: "(as_instances t')(a \<mapsto> restore_watermark cid (watermark_snapshot cid j) j') = as_instances s"
    using js o(1) advance_reset [OF o(2)] by (simp add: fun_upd_idem)
  have m: "has e (take_payouts out (as_ledger t')) = has e (?l delta)" for e by (simp add: take_payouts_has t)
  show ?thesis
  proof (cases "\<exists>g. f = Some g \<and> 0 < delta")
    case True
    then obtain g where g: "f = Some g" "0 < delta" by blast
    have c: "unat delta \<le> has g (as_ledger s)" using assms(2) OpAdvance g o(1) advance_delta [OF o(2)] by auto
    have "has g (take_payouts out (as_ledger t')) + unat delta < 2 ^ 128"
      using m [of g] g c unat_lt2p [of "balance_of g (as_ledger s)"] by simp
    then obtain l' where l': "add_to g delta (take_payouts out (as_ledger t')) = Inr l'" using add_to_works by blast
    have "has e l' = has e (as_ledger s)" for e using add_to_has [OF l'] m [of e] g c by (auto split: if_splits)
    then show ?thesis using l' g o(4) js r by (simp add: similar_has)
  next
    case False
    then have "?l delta = as_ledger s" by (auto split: option.split)
    then show ?thesis using m False o(4) js r by (cases f) (simp_all add: similar_has)
  qed
qed

section \<open>Histories of forks\<close>

text \<open>The calls that move no value: everything but the inclusion of a submitted transfer and the reorganization of a
  confirmed one.\<close>

inductive quiet_call :: "async_inner \<Rightarrow> async_inner \<Rightarrow> bool" where
  quiet_clock: "async_advance_clock secs s = Inr t \<Longrightarrow> quiet_call s t"
| quiet_outage: "quiet_call s (async_set_outage on s)"
| quiet_submit: "async_submit tr s = Inr (r, t) \<Longrightarrow> quiet_call s t"
| quiet_settle: "async_settle tr sid s = Inr (r, t) \<Longrightarrow> quiet_call s t"
| quiet_release: "async_release a d asset_id x s = Inr (r, t) \<Longrightarrow> quiet_call s t"
| quiet_keyed: "async_release_keyed cid ckpt_ref a d asset_id x s = Inr (r, t) \<Longrightarrow> quiet_call s t"
| quiet_advance: "async_advance_channel_meed f a cid target asset_id s = Inr (r, t) \<Longrightarrow> quiet_call s t"
| quiet_finalize: "map_option rf_level (as_refs s r) \<noteq> Some Submitted \<Longrightarrow> async_finalize r s = Inr t \<Longrightarrow> quiet_call s t"
| quiet_reorg: "map_option rf_level (as_refs s r) \<noteq> Some Confirmed \<Longrightarrow> async_reorg r s = Inr (b, t) \<Longrightarrow> quiet_call s t"
| quiet_drop: "quiet_call s (async_drop_tx r s)"

text \<open>The stack of the included transfers, the latest first. A reorganization takes the top away.\<close>

inductive fork :: "async_inner \<Rightarrow> bytes list \<Rightarrow> async_inner \<Rightarrow> bool" for s0 where
  fork_start: "fork s0 [] s0"
| fork_quiet: "fork s0 rs s \<Longrightarrow> quiet_call s t \<Longrightarrow> fork s0 rs t"
| fork_include: "fork s0 rs s \<Longrightarrow> as_refs s r = Some x \<Longrightarrow> rf_level x = Submitted \<Longrightarrow> source_covers (rf_op x) s \<Longrightarrow>
    async_confirm r s = Inr t \<Longrightarrow> fork s0 (r # rs) t"
| fork_reorg: "fork s0 (r # rs) s \<Longrightarrow> async_reorg r s = Inr (True, t) \<Longrightarrow> fork s0 rs t"

text \<open>The reference: the operations applied one after the other, nothing reverted.\<close>

fun replay_ops :: "rail_op list \<Rightarrow> async_inner \<Rightarrow> async_inner on_rail" where
  "replay_ops [] s = Inr s"
| "replay_ops (op # ops) s = and_then (apply_op op s) (\<lambda>(d, i, t). replay_ops ops t)"

lemma replay_snoc: "replay_ops (ops @ [op]) s = and_then (replay_ops ops s) (\<lambda>t. map_sum (\<lambda>e. e) (\<lambda>(d, i, u). u) (apply_op op t))"
proof (induction ops arbitrary: s)
  case Nil
  then show ?case by (cases "apply_op op s") auto
next
  case (Cons o' ops)
  then show ?case by (cases "apply_op o' s") auto
qed

text \<open>What the stack stands for: the state its operations lead to, each covered and with the record of what it moved.\<close>

inductive on_top :: "async_inner \<Rightarrow> (bytes \<rightharpoonup> ref_record) \<Rightarrow> bytes list \<Rightarrow> async_inner \<Rightarrow> bool" for s0 refs where
  top_start: "on_top s0 refs [] s0"
| top_include: "on_top s0 refs rs u \<Longrightarrow> refs r = Some x \<Longrightarrow> rf_level x \<in> {Confirmed, Finalized} \<Longrightarrow> rf_applied x = Some d \<Longrightarrow>
    source_covers (rf_op x) u \<Longrightarrow> apply_op (rf_op x) u = Inr (d, i, v) \<Longrightarrow> on_top s0 refs (r # rs) v"

inductive_cases on_top_Cons: "on_top s0 refs (r # rs) v"

definition same_included :: "(bytes \<rightharpoonup> ref_record) \<Rightarrow> (bytes \<rightharpoonup> ref_record) \<Rightarrow> bytes \<Rightarrow> bool" where
  "same_included refs refs' r \<longleftrightarrow> (\<forall>x. refs r = Some x \<and> rf_level x \<in> {Confirmed, Finalized} \<longrightarrow>
     (\<exists>y. refs' r = Some y \<and> rf_level y \<in> {Confirmed, Finalized} \<and> rf_op y = rf_op x \<and> rf_applied y = rf_applied x))"

lemma on_top_frame: "on_top s0 refs rs u \<Longrightarrow> \<forall>r \<in> set rs. same_included refs refs' r \<Longrightarrow> on_top s0 refs' rs u"
proof (induction rule: on_top.induct)
  case (top_include rs u r x d i v)
  then obtain y where "refs' r = Some y" "rf_level y \<in> {Confirmed, Finalized}" "rf_op y = rf_op x" "rf_applied y = rf_applied x"
    by (auto simp: same_included_def)
  then show ?case using top_include on_top.top_include [of s0 refs' rs u r y d i v] by simp
qed (rule top_start)

lemma on_top_replay: "on_top s0 refs rs u \<Longrightarrow> replay_ops (map (\<lambda>r. rf_op (the (refs r))) (rev rs)) s0 = Inr u"
  by (induction rule: on_top.induct) (simp_all add: replay_snoc)

lemma on_top_included: "on_top s0 refs rs u \<Longrightarrow> r \<in> set rs \<Longrightarrow> \<exists>x. refs r = Some x \<and> rf_level x \<in> {Confirmed, Finalized}"
  by (induction rule: on_top.induct) auto

text \<open>A quiet call keeps the money and every included transfer.\<close>

definition keeps :: "async_inner \<Rightarrow> async_inner \<Rightarrow> bool" where
  "keeps s t \<longleftrightarrow> as_ledger t = as_ledger s \<and> as_instances t = as_instances s \<and> (\<forall>r. same_included (as_refs s) (as_refs t) r)"

lemma same_included_refl [simp]: "same_included refs refs r"
  by (simp add: same_included_def)

lemma record_op_keeps:
  assumes "refs_ok s" "record_op op s = Inr (r, t)"
  shows "keeps s t"
  using record_op_parts [OF assms(2)] fresh_ref [OF assms(1)] by (auto simp: keeps_def same_included_def)

lemma set_level_keeps:
  "as_refs s r = Some x \<Longrightarrow> l = Finalized \<or> rf_level x = Submitted \<Longrightarrow> keeps s (set_level r l s)"
  by (auto simp: keeps_def same_included_def set_level_def)

lemma keeps_more: "keeps s u \<Longrightarrow> as_ledger t = as_ledger u \<Longrightarrow> as_instances t = as_instances u \<Longrightarrow> as_refs t = as_refs u \<Longrightarrow> keeps s t"
  by (simp add: keeps_def)

lemma keeps_refl [simp]: "keeps s s"
  by (simp add: keeps_def)

lemma quiet_keeps: "quiet_call s t \<Longrightarrow> refs_ok s \<Longrightarrow> keeps s t"
proof (induction rule: quiet_call.induct)
  case (quiet_settle tr sid s r t)
  from quiet_settle(1) show ?case
    by (cases rule: settle_cases) (auto intro: keeps_more [OF record_op_keeps [OF quiet_settle(2)]])
next
  case (quiet_keyed cid ckpt_ref a d asset_id x s r t)
  from quiet_keyed(1) show ?case
    by (cases rule: keyed_cases) (auto intro: keeps_more [OF record_op_keeps [OF quiet_keyed(2)]])
next
  case (quiet_release a d asset_id x s r t)
  then have "record_op (OpRelease a d asset_id x) s = Inr (r, t)" using released_op by (simp add: async_release_def)
  then show ?case by (rule record_op_keeps [OF quiet_release(2)])
next
  case (quiet_finalize s r t)
  from quiet_finalize(2) show ?case
    by (cases rule: finalize_cases) (use quiet_finalize(1) set_level_keeps in auto)
next
  case (quiet_reorg s r b t)
  from quiet_reorg(2) show ?case
    by (cases rule: reorg_cases) (use quiet_reorg(1) set_level_keeps in auto)
next
  case (quiet_drop s r)
  show ?case
  proof (cases "map_option rf_level (as_refs s r) = Some Submitted")
    case True
    then show ?thesis using set_level_keeps by (auto simp: async_drop_tx_def)
  next
    case False
    then have "async_drop_tx r s = s" by (simp only: async_drop_tx_def if_False)
    then show ?thesis by simp
  qed
next
  case (quiet_submit tr s r t)
  then show ?case using record_op_keeps by (auto simp: async_submit_def)
next
  case (quiet_advance f a cid target asset_id s r t)
  then show ?case using record_op_keeps by (auto simp: async_advance_channel_meed_def Let_def)
next
  case (quiet_clock secs s t)
  then show ?case by (auto simp: async_advance_clock_def keeps_def)
next
  case (quiet_outage s on)
  then show ?case by (simp add: async_set_outage_def keeps_def)
qed

lemma quiet_async: "quiet_call s t \<Longrightarrow> async_call s t"
  by (induction rule: quiet_call.induct) (auto intro: async_call.intros)

lemma fork_refs_ok: "fork s0 rs s \<Longrightarrow> refs_ok s0 \<Longrightarrow> refs_ok s"
proof (induction rule: fork.induct)
  case (fork_quiet rs s t)
  then show ?case using call_moves_on [OF quiet_async] by (auto simp: moves_on_def)
next
  case (fork_include rs s r x t)
  then show ?case using confirm_moves_on by (auto simp: moves_on_def)
next
  case (fork_reorg r rs s t)
  then show ?case using reorg_moves_on by (auto simp: moves_on_def)
qed

section \<open>The stack holds the money\<close>

lemma fork_on_top:
  assumes "fork s0 rs s" "refs_ok s0"
  shows "distinct rs \<and> (\<exists>u. on_top s0 (as_refs s) rs u \<and> similar s u)"
  using assms
proof (induction rule: fork.induct)
  case fork_start
  then show ?case by (simp, intro exI [of _ s0] conjI top_start similar_refl)
next
  case (fork_quiet rs s t)
  then obtain u where u: "distinct rs" "on_top s0 (as_refs s) rs u" "similar s u" by blast
  have k: "keeps s t" by (rule quiet_keeps [OF fork_quiet.hyps(2) fork_refs_ok [OF fork_quiet.hyps(1) fork_quiet.prems]])
  then have "on_top s0 (as_refs t) rs u" by (intro on_top_frame [OF u(2)]) (simp add: keeps_def)
  moreover have "similar t u" using k u(3) by (simp add: keeps_def similar_def)
  ultimately show ?case using u(1) by blast
next
  case (fork_include rs s r x t)
  then obtain u where u: "distinct rs" "on_top s0 (as_refs s) rs u" "similar s u" by blast
  have new: "r \<notin> set rs" using on_top_included [OF u(2), of r] fork_include.hyps(2,3) by auto
  obtain d i v where v: "apply_op (rf_op x) s = Inr (d, i, v)"
      "t = v\<lparr>as_refs := (as_refs v)(r \<mapsto> x\<lparr>rf_level := Confirmed, rf_applied := Some d, rf_info := Some (i\<lparr>ri_canonical := r\<rparr>)\<rparr>)\<rparr>"
    using fork_include.hyps(5) by (cases rule: confirm_cases) (use fork_include.hyps(2,3) in auto)
  obtain v' where v': "apply_op (rf_op x) u = Inr (d, i, v')" "similar v v'" using apply_similar [OF v(1) u(3)] by blast
  have "on_top s0 (as_refs t) rs u"
    by (rule on_top_frame [OF u(2)]) (use v(2) apply_op_frame [OF v(1)] new in \<open>auto simp: same_included_def\<close>)
  then have "on_top s0 (as_refs t) (r # rs) v'"
    by (rule top_include [where x = "x\<lparr>rf_level := Confirmed, rf_applied := Some d, rf_info := Some (i\<lparr>ri_canonical := r\<rparr>)\<rparr>"])
      (use v(2) v'(1) fork_include.hyps(4) source_covers_similar [OF u(3)] in simp_all)
  moreover have "similar t v'" using v(2) v'(2) by (simp add: similar_def)
  ultimately show ?case using u(1) new by auto
next
  case (fork_reorg r rs s t)
  then obtain v where d: "distinct (r # rs)" and v: "on_top s0 (as_refs s) (r # rs) v" "similar s v" by blast
  obtain u x d i where u: "on_top s0 (as_refs s) rs u" "as_refs s r = Some x" "rf_level x \<in> {Confirmed, Finalized}"
      "rf_applied x = Some d" "source_covers (rf_op x) u" "apply_op (rf_op x) u = Inr (d, i, v)"
    using v(1) by (rule on_top_Cons) (rule that, (assumption | simp)+)
  obtain w where w: "revert_op d s = Inr w" "as_refs t = (as_refs w)(r \<mapsto> x\<lparr>rf_level := Dropped, rf_applied := None, rf_info := None\<rparr>)"
      "as_ledger t = as_ledger w" "as_instances t = as_instances w"
    using fork_reorg.hyps(2) by (cases rule: reorg_cases) (use u(2-4) in auto)
  obtain w' where w': "revert_op d s = Inr w'" "similar w' u"
    using revert_undoes [OF u(6,5)] v(2) similar_sym by blast
  have "on_top s0 (as_refs t) rs u"
    by (rule on_top_frame [OF u(1)]) (use w(2) revert_op_frame [OF w(1)] d in \<open>auto simp: same_included_def\<close>)
  moreover have "similar t u" using w w' by (simp add: similar_def)
  ultimately show ?case using d by auto
qed

text \<open>
  Conservation on the asynchronous rail: an included transfer brings exactly what it mints, and a history of
  forks holds what its remaining transfers brought.
\<close>

definition async_supply :: "async_inner \<Rightarrow> nat" where
  "async_supply s = ledger_total (as_ledger s) + map_total held (as_instances s)"

definition async_ok :: "crypto_suite \<Rightarrow> async_inner \<Rightarrow> bool" where
  "async_ok cs s \<longleftrightarrow> finite (dom (as_ledger s)) \<and> finite (dom (as_instances s)) \<and>
     (\<forall>a i. as_instances s a = Some i \<longrightarrow> instance_inv cs i)"

text \<open>What a transfer brings in from outside the rail: a payment all of it, an advance without an escrow its delta.\<close>

fun brings :: "applied \<Rightarrow> nat" where
  "brings (DidPlain d x) = unat x"
| "brings (DidRelease a d x) = 0"
| "brings (DidAdvance f a cid delta out snap) = (case f of None \<Rightarrow> unat delta | Some _ \<Rightarrow> 0)"

section \<open>Totals\<close>

lemma total_over:
  assumes "finite A" "dom l \<subseteq> A"
  shows "ledger_total l = (\<Sum>a \<in> A. has a l)"
proof -
  have "(\<Sum>a \<in> A. has a l) = (\<Sum>a \<in> dom l. has a l)"
    by (rule sum.mono_neutral_right [OF assms]) (auto simp: balance_of_def split: option.splits)
  also have "\<dots> = ledger_total l"
    unfolding map_total_def by (rule sum.cong) (auto simp: balance_of_def)
  finally show ?thesis by simp
qed

lemma total_same:
  assumes "finite (dom l)" "finite (dom m)" "\<forall>a. has a l = has a m"
  shows "ledger_total l = ledger_total m"
  using total_over [of "dom l \<union> dom m" l] total_over [of "dom l \<union> dom m" m] assms by simp

lemma add_to_total:
  assumes "finite (dom l)" "add_to a x l = Inr m"
  shows "finite (dom m) \<and> ledger_total m = ledger_total l + unat x"
proof -
  obtain b where b: "checked_add (balance_of a l) x = Some b" "m = l(a \<mapsto> b)" using assms(2) by (auto simp: add_to_def)
  then show ?thesis using ledger_upd [OF assms(1), of a b] assms(1) by (simp add: checked_add_Some)
qed

lemma add_payouts_total:
  "finite (dom l) \<Longrightarrow> add_payouts out l = Inr m \<Longrightarrow> finite (dom m) \<and> ledger_total m = ledger_total l + payouts_total out"
proof (induction out arbitrary: l)
  case (Cons p out)
  then obtain l1 where l1: "add_to (po_dest p) (po_amount p) l = Inr l1" "add_payouts out l1 = Inr m" by auto
  show ?case using add_to_total [OF Cons.prems(1) l1(1)] Cons.IH [OF _ l1(2)] by simp
qed simp

lemma take_total:
  assumes "finite (dom l)" "unat x \<le> has a l"
  shows "finite (dom (take_from a x l)) \<and> ledger_total (take_from a x l) + unat x = ledger_total l"
proof (cases "l a")
  case None
  then show ?thesis using assms by (simp add: take_from_def balance_of_def)
next
  case (Some b)
  then have "unat x \<le> unat b" "has a l = unat b" using assms(2) by (simp_all add: balance_of_def)
  then show ?thesis using Some ledger_upd [OF assms(1), of a "sat_sub b x"] assms(1) by (simp add: take_from_def unat_sat_sub)
qed

lemma take_finite: "finite (dom l) \<Longrightarrow> finite (dom (take_from a x l))"
  by (cases "l a") (simp_all add: take_from_def)

lemma take_payouts_finite: "finite (dom l) \<Longrightarrow> finite (dom (take_payouts out l))"
  by (induction out arbitrary: l) (simp_all add: take_finite)

section \<open>One inclusion\<close>

lemma put_instance_total:
  assumes "async_ok cs s" "as_instances s a = Some i" "moves cs i x out j"
  shows "(\<forall>b k. ((as_instances s)(a \<mapsto> j)) b = Some k \<longrightarrow> instance_inv cs k) \<and>
    map_total held ((as_instances s)(a \<mapsto> j)) + payouts_total out = map_total held (as_instances s) + x"
proof -
  have "payouts_total out + held j = held i + x" "instance_inv cs j" using assms(3) by (simp_all add: shifts_def)
  then show ?thesis
    using map_total_upd [of "as_instances s" held a j] assms(1,2) by (auto simp: async_ok_def)
qed

lemma apply_conserves:
  assumes "async_ok cs s" "source_covers op s" "apply_op op s = Inr (d, i, t)"
  shows "async_ok cs t \<and> async_supply t = async_supply s + brings d"
proof (cases op)
  case (OpPlain to' asset_id x m)
  then obtain l where l: "add_to to' x (as_ledger s) = Inr l" "d = DidPlain to' x" "t = s\<lparr>as_ledger := l\<rparr>" using assms(3) by auto
  then show ?thesis using add_to_total [OF _ l(1)] assms(1) by (simp add: async_ok_def async_supply_def)
next
  case (OpRelease a to' asset_id x)
  let ?l = "take_from a x (as_ledger s)"
  have t: "d = DidRelease a to' x" "t = s\<lparr>as_ledger := credit to' x ?l\<rparr>" using OpRelease assms(3) by auto
  have c: "unat x \<le> has a (as_ledger s)" "has to' (as_ledger s) + unat x < 2 ^ 128" using OpRelease assms(2) by simp_all
  have l: "finite (dom ?l)" "ledger_total ?l + unat x = ledger_total (as_ledger s)"
    using take_total [OF _ c(1)] assms(1) by (simp_all add: async_ok_def)
  have "unat (sat_add (balance_of to' ?l) x) = has to' ?l + unat x"
    using c(2) by (simp add: unat_sat_add del: unat_sat_sub)
  then have "ledger_total (credit to' x ?l) = ledger_total ?l + unat x"
    using ledger_upd [OF l(1), of to' "sat_add (balance_of to' ?l) x"] by (simp add: credit_def)
  then show ?thesis using t l assms(1) by (simp add: async_ok_def async_supply_def credit_def)
next
  case (OpAdvance f a cid target asset_id)
  let ?l = "\<lambda>delta. case f of Some f \<Rightarrow> if 0 < delta then take_from f delta (as_ledger s) else as_ledger s | None \<Rightarrow> as_ledger s"
  obtain j funded delta out j' l where o: "as_instances s a = Some j"
      "instance_advance_channel_meed cid target j = Inr (funded, delta, out, j')" "add_payouts out (?l delta) = Inr l"
      "d = DidAdvance f a cid delta out (watermark_snapshot cid j)" "t = s\<lparr>as_ledger := l, as_instances := (as_instances s)(a \<mapsto> j')\<rparr>"
    using assms(3) OpAdvance by (auto simp: Let_def split: prod.splits)
  have "instance_inv cs j" using assms(1) o(1) by (simp add: async_ok_def)
  then have m: "moves cs j (unat delta) out j'"
    using advance_moves [of cs j cid target] advance_weightless [of j cid target] moves_none [of cs j] o(2)
    by (cases "mi_bp_total j = 0") auto
  have p: "(\<forall>b k. ((as_instances s)(a \<mapsto> j')) b = Some k \<longrightarrow> instance_inv cs k)"
    "map_total held ((as_instances s)(a \<mapsto> j')) + payouts_total out = map_total held (as_instances s) + unat delta"
    using put_instance_total [OF assms(1) o(1) m] by simp_all
  have fin: "finite (dom (as_ledger s))" using assms(1) by (simp add: async_ok_def)
  have l0: "finite (dom (?l delta)) \<and> ledger_total (?l delta) + (if f = None then 0 else unat delta) = ledger_total (as_ledger s)"
  proof (cases f)
    case None
    then show ?thesis using fin by simp
  next
    case (Some g)
    show ?thesis
    proof (cases "0 < delta")
      case True
      then have "delta = sat_sub target (instance_channel_funded_p cid j)" using advance_delta [OF o(2)] by auto
      then have "unat delta \<le> has g (as_ledger s)" using assms(2) OpAdvance Some o(1) by simp
      then show ?thesis using take_total [OF fin] Some True by simp
    next
      case False
      then have "delta = 0" by (simp add: word_gt_0)
      then show ?thesis using Some fin by simp
    qed
  qed
  have l: "finite (dom l) \<and> ledger_total l = ledger_total (?l delta) + payouts_total out"
    using add_payouts_total [OF _ o(3)] l0 by blast
  have "ledger_total l + (if f = None then 0 else unat delta) = ledger_total (as_ledger s) + payouts_total out" using l l0 by linarith
  then have "async_supply t = async_supply s + brings d"
    using p(2) o(4,5) by (cases f) (simp_all add: async_supply_def)
  moreover have "async_ok cs t" using p(1) l o(5) assms(1) by (simp add: async_ok_def)
  ultimately show ?thesis by simp
qed

section \<open>Histories\<close>

lemma on_top_conserves:
  "on_top s0 refs rs u \<Longrightarrow> async_ok cs s0 \<Longrightarrow>
   async_ok cs u \<and> async_supply u = async_supply s0 + (\<Sum>r \<leftarrow> rs. brings (the (rf_applied (the (refs r)))))"
proof (induction rule: on_top.induct)
  case (top_include rs u r x d i v)
  then show ?case using apply_conserves [of cs u "rf_op x" d i v] by simp
qed simp

lemma apply_finite:
  assumes "apply_op op s = Inr (d, i, t)" "finite (dom (as_ledger s))"
  shows "finite (dom (as_ledger t))"
proof (cases op)
  case (OpPlain to' asset_id x m)
  then obtain l where "add_to to' x (as_ledger s) = Inr l" "as_ledger t = l" using assms(1) by auto
  then show ?thesis using add_to_total [OF assms(2)] by blast
next
  case (OpRelease a to' asset_id x)
  then show ?thesis using assms by (auto simp: credit_def take_finite)
next
  case (OpAdvance f a cid target asset_id)
  let ?l = "\<lambda>delta. case f of Some f \<Rightarrow> if 0 < delta then take_from f delta (as_ledger s) else as_ledger s | None \<Rightarrow> as_ledger s"
  obtain delta out l where o: "add_payouts out (?l delta) = Inr l" "as_ledger t = l"
    using assms(1) OpAdvance by (auto simp: Let_def split: prod.splits)
  have "finite (dom (?l delta))" using assms(2) by (cases f) (simp_all add: take_finite)
  then show ?thesis using add_payouts_total o by blast
qed

lemma revert_finite:
  assumes "revert_op d s = Inr t" "finite (dom (as_ledger s))"
  shows "finite (dom (as_ledger t))"
proof (cases d)
  case (DidPlain a x)
  then show ?thesis using assms by (auto simp: take_finite)
next
  case (DidRelease a b x)
  then obtain l where "add_to a x (take_from b x (as_ledger s)) = Inr l" "as_ledger t = l" using assms(1) by auto
  then show ?thesis using add_to_total [OF take_finite [OF assms(2)]] by blast
next
  case (DidAdvance f a cid delta out snap)
  let ?l = "take_payouts out (as_ledger s)"
  have fin: "finite (dom ?l)" by (rule take_payouts_finite [OF assms(2)])
  consider "as_ledger t = ?l" | g l where "add_to g delta ?l = Inr l" "as_ledger t = l"
    using assms(1) DidAdvance by (cases f) (auto simp: Let_def split: if_splits)
  then show ?thesis using fin add_to_total [OF fin] by cases auto
qed

lemma fork_finite: "fork s0 rs s \<Longrightarrow> refs_ok s0 \<Longrightarrow> finite (dom (as_ledger s0)) \<Longrightarrow> finite (dom (as_ledger s))"
proof (induction rule: fork.induct)
  case (fork_quiet rs s t)
  then show ?case using quiet_keeps [OF fork_quiet.hyps(2) fork_refs_ok [OF fork_quiet.hyps(1)]] by (simp add: keeps_def)
next
  case (fork_include rs s r x t)
  from fork_include.hyps(5) show ?case
    by (cases rule: confirm_cases) (use fork_include apply_finite in auto)
next
  case (fork_reorg r rs s t)
  from fork_reorg.hyps(2) show ?case
  proof (cases rule: reorg_cases)
    case (reverted x u)
    then show ?thesis using fork_reorg revert_finite by (cases "rf_applied x") auto
  qed (use fork_reorg in \<open>simp_all add: set_level_def\<close>)
qed

lemma similar_supply:
  assumes "similar s u" "finite (dom (as_ledger s))" "finite (dom (as_ledger u))"
  shows "async_supply s = async_supply u"
  using total_same [OF assms(2,3)] assms(1) by (simp add: async_supply_def similar_has)

lemma fork_supply:
  assumes "fork s0 rs s" "refs_ok s0" "async_ok cs s0"
  shows "async_supply s = async_supply s0 + (\<Sum>r \<leftarrow> rs. brings (the (rf_applied (the (as_refs s r)))))"
proof -
  obtain u where u: "on_top s0 (as_refs s) rs u" "similar s u" using fork_on_top [OF assms(1,2)] by blast
  have "finite (dom (as_ledger s0))" using assms(3) by (simp add: async_ok_def)
  then have "finite (dom (as_ledger s))" by (rule fork_finite [OF assms(1,2)])
  moreover have "finite (dom (as_ledger u))" using on_top_conserves [OF u(1) assms(3)] by (simp add: async_ok_def)
  ultimately show ?thesis using similar_supply [OF u(2)] on_top_conserves [OF u(1) assms(3)] by simp
qed

end
