(* ===== verification/Props_Async.thy ===== *)
theory Props_Async
  imports Async_Fork Example_Parameters
begin

text \<open>
  A concrete asynchronous rail: a payment to an escrow, releases from it, their inclusion and a reorganization. Then the properties of the asynchronous rail.
\<close>

lemma async_id_eq [simp]: "async_id m = async_id n \<longleftrightarrow> m = n"
  using async_id_inj by blast

definition ex_pay :: transfer where
  "ex_pay = \<lparr>tr_to = [1], tr_asset = [7], tr_amount = 10, tr_kind = Payment, tr_memo = None\<rparr>"

abbreviation ex_ref :: "nat \<Rightarrow> bytes" where "ex_ref n \<equiv> async_id n"

definition ex_paid :: async_inner where
  "ex_paid = async_new\<lparr>as_next_ref := 1, as_ledger := [[1] \<mapsto> 10],
     as_refs := [ex_ref 0 \<mapsto> \<lparr>rf_level = Confirmed, rf_op = OpPlain [1] [7] 10 None, rf_applied = Some (DidPlain [1] 10),
       rf_info = Some ((plain_info [1] [7] 10)\<lparr>ri_canonical := ex_ref 0\<rparr>)\<rparr>]\<rparr>"

definition ex_submitted :: async_inner where
  "ex_submitted = async_new\<lparr>as_next_ref := 1,
     as_refs := [ex_ref 0 \<mapsto> \<lparr>rf_level = Submitted, rf_op = OpPlain [1] [7] 10 None, rf_applied = None, rf_info = None\<rparr>]\<rparr>"

lemma ex_submits: "async_submit ex_pay async_new = Inr (ex_ref 0, ex_submitted)"
  by (simp add: async_submit_def record_op_def ex_pay_def async_new_def ex_submitted_def async_id_def transfer_op_def ensure_def checked_add_def Let_def)

lemma ex_confirms: "async_confirm (ex_ref 0) ex_submitted = Inr ex_paid"
  by (simp add: async_confirm_def ex_submitted_def ex_paid_def async_new_def add_to_def balance_of_def checked_add_def plain_info_def)

lemma ex_paid_run: "async_run async_new ex_paid"
  using call_submit [OF ex_submits] call_confirm [OF ex_confirms] by (meson rtranclp.simps)

definition ex_released :: async_inner where
  "ex_released = ex_paid\<lparr>as_next_ref := 2,
     as_refs := (as_refs ex_paid)(ex_ref 1 \<mapsto> \<lparr>rf_level = Submitted, rf_op = OpRelease [1] [2] [7] 10, rf_applied = None, rf_info = None\<rparr>)\<rparr>"

lemma ex_releases: "async_release [1] [2] [7] 10 ex_paid = Inr (ex_ref 1, ex_released)"
  by (simp add: async_release_def async_release_locked_def record_op_def ex_paid_def async_new_def ex_released_def async_id_def
      ensure_def checked_add_def balance_of_def Let_def)

definition ex_included :: async_inner where
  "ex_included = ex_released\<lparr>as_ledger := [[1] \<mapsto> 0, [2] \<mapsto> 10],
     as_refs := (as_refs ex_released)(ex_ref 1 \<mapsto> \<lparr>rf_level = Confirmed, rf_op = OpRelease [1] [2] [7] 10,
       rf_applied = Some (DidRelease [1] [2] 10), rf_info = Some ((plain_info [2] [7] 10)\<lparr>ri_canonical := ex_ref 1\<rparr>)\<rparr>)\<rparr>"

lemma ex_includes: "async_confirm (ex_ref 1) ex_released = Inr ex_included"
  by (simp add: async_confirm_def ex_released_def ex_included_def ex_paid_def async_new_def take_from_def credit_def balance_of_def
      sat_sub_def sat_add_def)

definition ex_reverted :: async_inner where
  "ex_reverted = ex_included\<lparr>as_ledger := [[2] \<mapsto> 0, [1] \<mapsto> 10],
     as_refs := (as_refs ex_included)(ex_ref 1 \<mapsto> \<lparr>rf_level = Dropped, rf_op = OpRelease [1] [2] [7] 10,
       rf_applied = None, rf_info = None\<rparr>)\<rparr>"

lemma ex_reorgs: "async_reorg (ex_ref 1) ex_included = Inr (True, ex_reverted)"
  by (simp add: async_reorg_def ex_included_def ex_reverted_def take_from_def add_to_def balance_of_def sat_sub_def checked_add_def)

lemma ex_supply: "as_ledger s = m \<Longrightarrow> as_instances s = Map.empty \<Longrightarrow> async_supply s = ledger_total m"
  by (simp add: async_supply_def)

lemma total_two: "ledger_total [[1] \<mapsto> a, [2] \<mapsto> b] = unat a + unat b" "ledger_total [[1] \<mapsto> a] = unat a"
  by (simp_all add: map_total_def)

text \<open>
  The properties of the asynchronous rail: the life of a reference, forks that leave no trace, conservation,
  and the two places where the rail does not do what its users rely on.
\<close>

section \<open>The life of a reference\<close>

text \<open>C19. A transfer on the asynchronous rail lives one life: along every sequence of calls its reference keeps its
  operation, a finalized or dropped one never changes again, and a confirmed one stays as it is, is finalized as
  it is or is dropped; and what it moved is shown exactly while it is confirmed or finalized. A finalization is one
  step here; the code takes its lock twice, and \<open>finalize_races_reorg\<close> below shows what a reorganization in
  between makes of it.\<close>

theorem transfer_lives_once:
  assumes "async_run async_new s" "async_run s t" "as_refs s r = Some x"
  shows "\<exists>y. as_refs t r = Some y \<and> rf_op y = rf_op x \<and> (rf_level x \<in> {Finalized, Dropped} \<longrightarrow> y = x) \<and>
    (rf_level x = Confirmed \<longrightarrow> y = x \<or> y = x\<lparr>rf_level := Finalized\<rparr> \<or> rf_level y = Dropped) \<and>
    (async_ref_target r t \<noteq> None \<longleftrightarrow> rf_level y \<in> {Confirmed, Finalized})"
proof -
  have s: "refs_ok s" by (rule async_run_ok [OF assms(1) refs_ok_new])
  have m: "moves_on s t" by (rule run_moves_on [OF assms(2) s])
  then obtain y where y: "as_refs t r = Some y" "follows x y" using assms(3) unfolding moves_on_def by blast
  have "record_ok r y" using m y(1) by (auto simp: moves_on_def refs_ok_def)
  then have "async_ref_target r t \<noteq> None \<longleftrightarrow> rf_level y \<in> {Confirmed, Finalized}"
    using y(1) by (auto simp: async_ref_target_def record_ok_def split: tx_level.splits)
  then show ?thesis using y by (auto simp: follows_def split: tx_level.splits)
qed

theorem transfer_lives_once_witness:
  "\<exists>s t x. async_run async_new s \<and> async_run s t \<and> as_refs s (ex_ref 1) = Some x \<and> rf_level x = Dropped \<and>
     as_refs t (ex_ref 1) = Some x \<and> async_ref_target (ex_ref 1) t = None"
proof -
  have r: "async_run async_new ex_reverted"
    using ex_paid_run call_release [OF ex_releases] call_confirm [OF ex_includes] call_reorg [OF ex_reorgs] by (meson rtranclp.simps)
  obtain x where x: "as_refs ex_reverted (ex_ref 1) = Some x" "rf_level x = Dropped" by (simp add: ex_reverted_def)
  have t: "async_run ex_reverted (async_set_outage True ex_reverted)" using call_outage by blast
  obtain y where y: "as_refs (async_set_outage True ex_reverted) (ex_ref 1) = Some y" "y = x"
      "async_ref_target (ex_ref 1) (async_set_outage True ex_reverted) = None"
    using transfer_lives_once [OF r t x(1)] x(2) by auto
  show ?thesis using r t x y by blast
qed

section \<open>Forks\<close>

text \<open>C17. A fork leaves no trace: however transfers are included and the latest included ones reorganized away, the
  balances and the contract instances are those that the remaining transfers alone, in their order, lead to,
  provided that every source covered its debit when it was included.\<close>

theorem fork_leaves_no_trace:
  assumes "async_run async_new s0" "fork s0 rs s"
  shows "\<exists>u. replay_ops (map (\<lambda>r. rf_op (the (as_refs s r))) (rev rs)) s0 = Inr u \<and>
    (\<forall>a. async_balance a s = async_balance a u) \<and> as_instances s = as_instances u"
proof -
  have "refs_ok s0" by (rule async_run_ok [OF assms(1) refs_ok_new])
  then obtain u where "on_top s0 (as_refs s) rs u" "similar s u" using fork_on_top [OF assms(2)] by blast
  then show ?thesis using on_top_replay by (auto simp: similar_def async_balance_def)
qed

text \<open>The payment of the example stands under a release that is included and reorganized away.\<close>

lemma ex_fork: "fork async_new [ex_ref 0] ex_reverted"
proof -
  have "fork async_new [] ex_submitted" using fork_start quiet_submit [OF ex_submits] by (rule fork_quiet)
  then have "fork async_new [ex_ref 0] ex_paid"
    by (rule fork_include [OF _ _ _ _ ex_confirms, where x = "\<lparr>rf_level = Submitted, rf_op = OpPlain [1] [7] 10 None, rf_applied = None, rf_info = None\<rparr>"])
      (simp_all add: ex_submitted_def)
  then have "fork async_new [ex_ref 0] ex_released" using quiet_release [OF ex_releases] by (rule fork_quiet)
  then have "fork async_new [ex_ref 1, ex_ref 0] ex_included"
    by (rule fork_include [OF _ _ _ _ ex_includes, where x = "\<lparr>rf_level = Submitted, rf_op = OpRelease [1] [2] [7] 10, rf_applied = None, rf_info = None\<rparr>"])
      (simp_all add: ex_released_def ex_paid_def balance_of_def)
  then show ?thesis by (rule fork_reorg [OF _ ex_reorgs])
qed

theorem fork_leaves_no_trace_witness:
  "\<exists>u. fork async_new [ex_ref 0] ex_reverted \<and> replay_ops [OpPlain [1] [7] 10 None] async_new = Inr u \<and>
     async_balance [1] ex_reverted = 10 \<and> async_balance [1] u = 10 \<and> async_balance [2] u = 0"
proof -
  have "rf_op (the (as_refs ex_reverted (ex_ref 0))) = OpPlain [1] [7] 10 None"
    by (simp add: ex_reverted_def ex_included_def ex_released_def ex_paid_def)
  then obtain u where u: "replay_ops [OpPlain [1] [7] 10 None] async_new = Inr u" "\<forall>a. async_balance a ex_reverted = async_balance a u"
    using fork_leaves_no_trace [OF rtranclp.rtrancl_refl ex_fork] by auto
  moreover have "async_balance [1] ex_reverted = 10" "async_balance [2] ex_reverted = 0"
    by (simp_all add: async_balance_def ex_reverted_def balance_of_def)
  ultimately show ?thesis using ex_fork by (intro exI conjI) auto
qed

text \<open>C18. The asynchronous rail conserves value across forks: when every source covers its debit at inclusion, the ledger
  and the contract instances together hold what they held plus what the transfers still included brought in -
  the payments in full and the advances made without an escrow.\<close>

theorem fork_conserves:
  assumes "async_run async_new s0" "async_ok cs s0" "fork s0 rs s"
  shows "async_supply s = async_supply s0 + (\<Sum>r \<leftarrow> rs. brings (the (rf_applied (the (as_refs s r)))))"
  by (rule fork_supply [OF assms(3) async_run_ok [OF assms(1) refs_ok_new] assms(2)])

theorem fork_conserves_witness:
  "fork async_new [ex_ref 0] ex_reverted \<and> async_supply ex_reverted = 10"
proof -
  have ok: "async_ok toy_suite async_new" by (simp add: async_ok_def async_new_def)
  have "brings (the (rf_applied (the (as_refs ex_reverted (ex_ref 0))))) = 10"
    by (simp add: ex_reverted_def ex_included_def ex_released_def ex_paid_def)
  then have "async_supply ex_reverted = 10"
    using fork_conserves [OF rtranclp.rtrancl_refl ok ex_fork] by (simp add: async_supply_def async_new_def)
  then show ?thesis using ex_fork by blast
qed

section \<open>Where the rail falls short\<close>

lemma take_short:
  assumes "finite (dom l)"
  shows "ledger_total (take_from a x l) + min (has a l) (unat x) = ledger_total l"
proof (cases "l a")
  case (Some b)
  then have "has a l = unat b" by (simp add: balance_of_def)
  then show ?thesis using Some ledger_upd [OF assms, of a "sat_sub b x"] by (auto simp: take_from_def unat_sat_sub min_def)
qed (simp add: take_from_def balance_of_def)

lemma credit_total:
  "finite (dom l) \<Longrightarrow> has d l + unat x < 2 ^ 128 \<Longrightarrow> finite (dom (credit d x l)) \<and> ledger_total (credit d x l) = ledger_total l + unat x"
  using ledger_upd [of l d "sat_add (balance_of d l) x"] by (simp add: credit_def unat_sat_add)

lemma release_accepted:
  assumes "\<not> as_outage s" "x \<noteq> 0" "x \<le> async_balance a s" "unat (as_next_ref s) + 1 < 2 ^ 64"
  shows "\<exists>t. async_release a d asset_id x s = Inr (async_id (unat (as_next_ref s)), t) \<and>
    as_refs t = (as_refs s)(async_id (unat (as_next_ref s)) \<mapsto>
      \<lparr>rf_level = Submitted, rf_op = OpRelease a d asset_id x, rf_applied = None, rf_info = None\<rparr>) \<and>
    as_ledger t = as_ledger s \<and> as_instances t = as_instances s \<and> as_outage t = as_outage s \<and>
    unat (as_next_ref t) = unat (as_next_ref s) + 1"
proof -
  obtain n where "checked_add (as_next_ref s) 1 = Some n" "unat n = unat (as_next_ref s) + 1"
    using assms(4) by (cases "checked_add (as_next_ref s) 1") (auto simp: checked_add_None checked_add_Some)
  then show ?thesis using assms(1-3)
    by (simp add: async_release_def async_release_locked_def async_balance_def record_op_def async_id_def Let_def not_less)
qed

lemma release_included:
  assumes "as_refs s r = Some \<lparr>rf_level = Submitted, rf_op = OpRelease a d asset_id x, rf_applied = None, rf_info = None\<rparr>"
  shows "\<exists>v. async_confirm r s = Inr v \<and> as_ledger v = credit d x (take_from a x (as_ledger s)) \<and>
    as_instances v = as_instances s \<and> (\<forall>q. q \<noteq> r \<longrightarrow> as_refs v q = as_refs s q)"
  using assms by (simp add: async_confirm_def)

text \<open>C20. The balance of a source is checked when a release is submitted and not when it is included, where the debit
  saturates. A release of nothing or of more than the balance is refused when it is submitted; but two releases of
  an amount that the balance covers once and not twice are both accepted, both can be included, and then
  the value on the rail has grown by what the balance did not cover. This holds in every reachable
  state without an outage, with two references left and room in the receiving account.\<close>

theorem uncovered_release_mints:
  assumes "async_run async_new s" "async_ok cs s" "\<not> as_outage s" "a \<noteq> d"
    and "x \<le> async_balance a s" "unat (async_balance a s) < 2 * unat x"
    and "unat (as_next_ref s) + 2 < 2 ^ 64" "unat (async_balance d s) + 2 * unat x < 2 ^ 128"
  shows "(\<forall>y. y = 0 \<or> async_balance a s < y \<longrightarrow>
      async_release a d asset_id y s = Inl (Err (Rejected ''insufficient escrow balance for release''))) \<and>
    (\<exists>r q t u v w. async_release a d asset_id x s = Inr (r, t) \<and> async_release a d asset_id x t = Inr (q, u) \<and>
      async_confirm r u = Inr v \<and> async_confirm q v = Inr w \<and> async_supply s < async_supply w \<and>
      async_supply w + unat (async_balance a s) = async_supply s + 2 * unat x)"
proof (rule conjI)
  show "\<forall>y. y = 0 \<or> async_balance a s < y \<longrightarrow>
      async_release a d asset_id y s = Inl (Err (Rejected ''insufficient escrow balance for release''))"
    using assms(3) by (simp add: async_release_def async_release_locked_def async_balance_def)
  let ?n = "unat (as_next_ref s)" and ?l = "as_ledger s"
  have x: "x \<noteq> 0" using assms(6) by auto
  obtain t where t: "async_release a d asset_id x s = Inr (async_id ?n, t)" "as_refs t = (as_refs s)(async_id ?n \<mapsto>
      \<lparr>rf_level = Submitted, rf_op = OpRelease a d asset_id x, rf_applied = None, rf_info = None\<rparr>)"
      "as_ledger t = ?l" "as_instances t = as_instances s" "\<not> as_outage t" "unat (as_next_ref t) = ?n + 1"
    using release_accepted [OF assms(3) x assms(5), of d asset_id] assms(3,7) by auto
  obtain u where u: "async_release a d asset_id x t = Inr (async_id (?n + 1), u)" "as_refs u = (as_refs t)(async_id (?n + 1) \<mapsto>
      \<lparr>rf_level = Submitted, rf_op = OpRelease a d asset_id x, rf_applied = None, rf_info = None\<rparr>)"
      "as_ledger u = ?l" "as_instances u = as_instances s"
    using release_accepted [OF t(5) x, of a d asset_id] t(3,4,6) assms(5,7) by (auto simp: async_balance_def)
  obtain v where v: "async_confirm (async_id ?n) u = Inr v" "as_ledger v = credit d x (take_from a x ?l)"
      "as_instances v = as_instances s" "\<forall>q. q \<noteq> async_id ?n \<longrightarrow> as_refs v q = as_refs u q"
    using release_included [of u "async_id ?n" a d asset_id x] u(2-4) t(2) by auto
  obtain w where w: "async_confirm (async_id (?n + 1)) v = Inr w"
      "as_ledger w = credit d x (take_from a x (credit d x (take_from a x ?l)))" "as_instances w = as_instances s"
    using release_included [of v "async_id (?n + 1)" a d asset_id x] u(2) v(2-4) by auto
  have fin: "finite (dom ?l)" using assms(2) by (simp add: async_ok_def)
  have b: "unat x \<le> has a ?l" "has a ?l < 2 * unat x" "has d ?l + 2 * unat x < 2 ^ 128"
    using assms(5,6,8) by (simp_all add: async_balance_def word_le_nat_alt)
  let ?l1 = "take_from a x ?l" and ?l2 = "credit d x (take_from a x ?l)"
  have s1: "finite (dom ?l1)" "ledger_total ?l1 + unat x = ledger_total ?l" "has a ?l1 = has a ?l - unat x" "has d ?l1 = has d ?l"
    using take_total [OF fin b(1)] assms(4) by simp_all
  have s2: "finite (dom ?l2)" "ledger_total ?l2 = ledger_total ?l1 + unat x" "has a ?l2 = has a ?l - unat x" "has d ?l2 = has d ?l + unat x"
    using credit_total [OF s1(1), of d x] has_credit [of d ?l1 x] s1(3,4) b(3) assms(4) by (simp_all del: has_take)
  have s3: "finite (dom (take_from a x ?l2))" "ledger_total (take_from a x ?l2) + (has a ?l - unat x) = ledger_total ?l2"
      "has d (take_from a x ?l2) = has d ?l + unat x"
    using take_finite [OF s2(1)] take_short [OF s2(1), of a x] s2(3,4) b(2) assms(4) by (auto simp: min_def split: if_splits)
  have "ledger_total (as_ledger w) = ledger_total (take_from a x ?l2) + unat x"
    using credit_total [OF s3(1), of d x] s3(3) b(3) w(2) by simp
  then have "ledger_total (as_ledger w) + has a ?l = ledger_total ?l + 2 * unat x"
    using s1(2) s2(2) s3(2) b(1) by linarith
  then have "async_supply w + unat (async_balance a s) = async_supply s + 2 * unat x"
    using w(3) by (simp add: async_supply_def async_balance_def)
  then have "async_supply s < async_supply w \<and> async_supply w + unat (async_balance a s) = async_supply s + 2 * unat x"
    using assms(6) by linarith
  then show "\<exists>r q t u v w. async_release a d asset_id x s = Inr (r, t) \<and> async_release a d asset_id x t = Inr (q, u) \<and>
      async_confirm r u = Inr v \<and> async_confirm q v = Inr w \<and> async_supply s < async_supply w \<and>
      async_supply w + unat (async_balance a s) = async_supply s + 2 * unat x"
    using t(1) u(1) v(1) w(1) by blast
qed

text \<open>The escrow of the example holds ten; twenty arrive.\<close>

theorem uncovered_release_mints_witness:
  "\<exists>r q t u v w. async_release [1] [2] [7] 10 ex_paid = Inr (r, t) \<and> async_release [1] [2] [7] 10 t = Inr (q, u) \<and>
     async_confirm r u = Inr v \<and> async_confirm q v = Inr w \<and> async_supply ex_paid = 10 \<and> async_supply w = 20"
proof -
  have ok: "async_ok toy_suite ex_paid" by (simp add: async_ok_def ex_paid_def async_new_def)
  have s: "async_supply ex_paid = 10"
    using ex_supply [of ex_paid "[[1] \<mapsto> 10]"] by (simp only: total_two) (simp add: ex_paid_def async_new_def)
  have b: "async_balance [1] ex_paid = 10" "async_balance [2] ex_paid = 0" "as_next_ref ex_paid = 1" "\<not> as_outage ex_paid"
    by (simp_all add: async_balance_def ex_paid_def async_new_def balance_of_def)
  have "\<exists>r q t u v w. async_release [1] [2] [7] 10 ex_paid = Inr (r, t) \<and> async_release [1] [2] [7] 10 t = Inr (q, u) \<and>
     async_confirm r u = Inr v \<and> async_confirm q v = Inr w \<and> async_supply ex_paid < async_supply w \<and>
     async_supply w + unat (async_balance [1] ex_paid) = async_supply ex_paid + 2 * unat (10 :: u128)"
    using uncovered_release_mints [OF ex_paid_run ok b(4), of "[1]" "[2]" 10 "[7]"] b by simp
  then show ?thesis using s b(1) by fastforce
qed

text \<open>\<open>finalize\<close> looks at the level under one lock and writes it under another. The model runs it without an
  interruption; when a reorganization of the same reference comes between the two, the write marks a
  dropped transfer as finalized: its value was taken back, nothing is shown for it, and yet it is observed as
  final.\<close>

theorem finalize_races_reorg:
  assumes "as_refs s r = Some x" "rf_level x = Confirmed" "async_reorg r s = Inr (b, t)"
  shows "async_finality r t = None \<and> async_ref_target r (set_level r Finalized t) = None \<and>
    async_finality r (set_level r Finalized t) = Some \<lparr>fo_level = level_token Finalized, fo_time = as_clock t\<rparr>"
  using assms by (auto simp: async_reorg_def async_finality_def async_ref_target_def set_level_def)

text \<open>A keyed release whose reference was dropped can never be made again: every later call with its key answers with the
  dropped reference and changes nothing.\<close>

theorem dropped_release_stuck:
  assumes "async_run async_new s" "async_release_keyed cid ckpt_ref a d asset_id x s = Inr (r, t)"
    and "async_run t u" "as_refs u r = Some y" "rf_level y = Dropped" "async_run u v"
  shows "async_release_keyed cid ckpt_ref a' d' asset_id' x' v = Inr (r, v) \<and> async_finality r v = None \<and> async_ref_target r v = None"
proof -
  have st: "async_run async_new t" by (rule rtranclp.rtrancl_into_rtrancl [OF assms(1) call_keyed [OF assms(2)]])
  note tu = run_moves_on [OF assms(3) async_run_ok [OF st refs_ok_new]]
  have au: "async_run async_new u" using st assms(3) by simp
  note uv = run_moves_on [OF assms(6) async_run_ok [OF au refs_ok_new]]
  have "as_release_keys t (cid, ckpt_ref) = Some r" using assms(2) by (cases rule: keyed_cases) simp_all
  then have "as_release_keys v (cid, ckpt_ref) = Some r"
    using tu uv by (auto simp: moves_on_def map_le_def dom_def)
  moreover have "as_refs v r = Some y" using uv assms(4,5) by (force simp: moves_on_def follows_def)
  moreover have "record_ok r y" using uv calculation(2) by (auto simp: moves_on_def refs_ok_def)
  then have "rf_info y = None" using assms(5) by (simp add: record_ok_def)
  ultimately show ?thesis using assms(5) by (simp add: async_release_keyed_def async_finality_def async_ref_target_def)
qed

theorem dropped_release_stuck_witness:
  "\<exists>s t u r. async_run async_new s \<and> async_release_keyed [3] [4] [1] [2] [7] 10 s = Inr (r, t) \<and> u = async_drop_tx r t \<and>
     async_balance [1] u = 10 \<and> async_release_keyed [3] [4] [1] [2] [7] 10 u = Inr (r, u) \<and> async_finality r u = None"
proof -
  let ?t = "ex_released\<lparr>as_release_keys := [([3], [4]) \<mapsto> ex_ref 1]\<rparr>"
  have k: "async_release_keyed [3] [4] [1] [2] [7] 10 ex_paid = Inr (ex_ref 1, ?t)"
    using ex_releases by (simp add: async_release_keyed_def async_release_def)
      (simp add: ex_paid_def async_new_def ex_released_def)
  let ?u = "async_drop_tx (ex_ref 1) ?t"
  have u: "as_refs ?u (ex_ref 1) = Some \<lparr>rf_level = Dropped, rf_op = OpRelease [1] [2] [7] 10, rf_applied = None, rf_info = None\<rparr>"
    by (simp add: async_drop_tx_def set_level_def ex_released_def)
  have tu: "async_run ?t ?u" using call_drop by (rule r_into_rtranclp [of async_call])
  have "async_release_keyed [3] [4] [1] [2] [7] 10 ?u = Inr (ex_ref 1, ?u) \<and> async_finality (ex_ref 1) ?u = None \<and>
     async_ref_target (ex_ref 1) ?u = None"
    by (rule dropped_release_stuck [OF ex_paid_run k tu u _ rtranclp.rtrancl_refl]) simp
  moreover have "async_balance [1] ?u = 10"
    by (simp add: async_balance_def async_drop_tx_def set_level_def ex_released_def ex_paid_def balance_of_def)
  ultimately show ?thesis using ex_paid_run k by blast
qed

end
