(* ===== verification/Spec2Isabelle.thy ===== *)
theory Spec2Isabelle
  imports Channel_Ledger Props_Settlement Props_Codec Props_Settle_Msg Props_Channel Props_Contract Props_Rail Props_Link Props_Decision Props_Governed Props_Establish Props_Wallet Props_Merchant Props_Async
begin

text \<open>
  A model of the PayTP reference implementation and of its on-chain contract kit, with the theorems
  that make them correct.

  THE PROGRAM. A payer and a merchant meter a service over a channel: the payer sends slices (a number
  and an amount, authenticated under the session key), the merchant accepts them, both sign
  checkpoints of the accounting, and rounds of settlement pay the meed, a fee of basis points owed to
  several roles, on a rail. One-shot purchases fund an entry of a contract instance instead. The
  arithmetic of a round (\<^verbatim>\<open>crates/paytp-f7\<close>) is shared by the off-chain code and the contract. The wire
  formats, signatures, identifiers and the channel are \<^verbatim>\<open>crates/paytp-core\<close>; the contract is
  \<^verbatim>\<open>contracts/programs/paytp_kit\<close>; \<^verbatim>\<open>crates/paytp-rail\<close> is the reference rail, a ledger with an off-chain
  copy of the contract's splits and instances, and its asynchronous variant, on which transfers are confirmed,
  finalized or reorganized away. \<^verbatim>\<open>crates/paytp-wallet\<close> is the payer's endpoint, \<^verbatim>\<open>crates/paytp-merchant\<close> the
  merchant's.

  THEORIES AND SOURCES.
  \<^item> Paytp_Prelude: machine integers as words with the saturating, checked and narrowing operations of
    Rust, results as sums, byte strings, lists ascending by a key, and the interfaces of canonical codecs
    (locales \<open>canonical_codec\<close>, \<open>front_codec\<close>, \<open>item_codec\<close>).
  \<^item> F7 (\<^verbatim>\<open>paytp-f7/src/lib.rs\<close>): the fixed-width settlement arithmetic; F7_Exact: the same on natural
    numbers, and the refinement. Core_Error (\<^verbatim>\<open>error.rs\<close>, \<^verbatim>\<open>fee.rs\<close>).
  \<^item> Leb128, Tlv, Tlv_Int, Tlv_List (\<^verbatim>\<open>leb128.rs\<close>, \<^verbatim>\<open>tlv.rs\<close>): the byte formats, each shown to interpret the
    codec locale; the counted lists are a \<open>sublocale\<close> of the item interface.
  \<^item> Envelope, Crypto, Transcript, Slice, Attestation, Derive (\<^verbatim>\<open>envelope.rs\<close>, \<^verbatim>\<open>crypto.rs\<close>,
    \<^verbatim>\<open>transcript.rs\<close>, \<^verbatim>\<open>slice.rs\<close>, \<^verbatim>\<open>tier0/attest.rs\<close>, \<^verbatim>\<open>derive.rs\<close>): labels, keys, hash chain, slices,
    attestations, addresses and identifiers.
  \<^item> Checkpoint, Checkpoint_Canonical (\<^verbatim>\<open>channel/checkpoint.rs\<close>): the checkpoint and its request.
  \<^item> Tlv_Slots, Settle_Msg, Settle_Canonical, Rate_Grammar (\<^verbatim>\<open>channel/settle_msg.rs\<close>): the settlement messages.
    Tlv_Slots reads a closed object as a list of slots, so that a parser is canonical as soon as its field
    decoders are; the rate grammar has its own theory.
  \<^item> Pointer (\<^verbatim>\<open>pointer.rs\<close>), Registry (\<^verbatim>\<open>consts.rs\<close>, \<^verbatim>\<open>registry.rs\<close>), Governed (\<^verbatim>\<open>tier0/roles.rs\<close> and the
    vector checks of \<^verbatim>\<open>tier0/quote.rs\<close>): destinations and identifiers as grammars over bytes, signed
    snapshots and their store, who may receive the meed. Host (\<^verbatim>\<open>crates/paytp-host\<close>): hosts, the public
    suffix algorithm and the scope of a payer key.
  \<^item> Seal (\<^verbatim>\<open>crypto.rs\<close>, last part), Establish, Handshake (\<^verbatim>\<open>channel/establish.rs\<close>): the seal of the session
    secret, the binding artifact, the channel terms and the shorter messages of a handshake;
    Establish_Canonical: their wire forms as slots, each an interpretation of the codec
    locale.
  \<^item> Channel_State (\<^verbatim>\<open>channel/state.rs\<close>): the channel as a record and its operations as functions on it;
    Channel_Invariant, Channel_History, Channel_Ledger: the invariant every operation
    preserves, order independence and historical snapshots, evolutions as an inductive relation with the
    ledger of accepted slices, and the ranges of a checkpoint.
  \<^item> Settlement (\<^verbatim>\<open>channel/settlement.rs\<close>, \<^verbatim>\<open>channel/trigger.rs\<close>, \<^verbatim>\<open>fee.rs\<close>): a round over accruals, histories
    of rounds, triggers.
  \<^item> Contract_Kit (\<^verbatim>\<open>paytp_kit/src/lib.rs\<close>): every handler; Contract_Division, Contract_Watermark,
    Contract_Split, Contract_Entry: division by destination, claim record and channel watermark, the
    vault of a split and the entry machine as inductive relations; Contract_Link: agreement with the core.
  \<^item> Rail_Instance, Rail_Division, Rail_Invariant (\<^verbatim>\<open>paytp-rail/src/instance.rs\<close>): the off-chain instance, its
    division on exact numbers, its invariant and what every operation moves. Virtual_Rail
    (\<^verbatim>\<open>virtual_rail.rs\<close>, \<^verbatim>\<open>adapter.rs\<close>): the rail as a function of its locked state;
    Rail_Conservation, Rail_History: balances, what each call makes of the total value (a small logic of
    calls that do not panic), and histories of calls as an inductive relation; Rail_Facts:
    what no later call changes; Rail_Link: agreement of the off-chain instance with the contract.
  \<^item> One_Decision (\<^verbatim>\<open>paytp-merchant/src/one_decision.rs\<close>): the exactly-once record of the merchant, its
    interface with and without restarts as locales, the in-memory store and the write-ahead log over a
    file whose errors and crashes are arguments.
  \<^item> Async_Rail (\<^verbatim>\<open>paytp-rail/src/async_rail.rs\<close>): the asynchronous rail; Async_History: its calls and the life of a
    reference; Async_Fork: histories in which the latest transfers are reorganized away, against a
    replay of what remains, and their value.
  \<^item> Custody, Policy, Wallet_Channel (\<^verbatim>\<open>paytp-wallet/src/custody.rs\<close>, \<^verbatim>\<open>policy.rs\<close>, \<^verbatim>\<open>channel.rs\<close>): scoped keys, spend
    policies, the payer's endpoint of a channel. Wallet_Meter, Wallet_Invariant, Wallet_Run: its halts on exact
    numbers, the invariant of every operation and runs of them as an inductive relation; Wallet_Live: what an
    honest draw leads to; Wallet_Agrees: the wallet's metering against the merchant's channel state;
    Wallet_Story: a concrete payer.
  \<^item> Merchant_Channel (\<^verbatim>\<open>paytp-merchant/src/channel.rs\<close>): the driver that establishes channels, over any decision
    store; Merchant_History: its lives across restarts, inside the locale of durable decisions; Merchant_Opens:
    an honest opening.
  \<^item> Props_Settlement, Props_Codec, Props_Settle_Msg, Props_Channel, Props_Contract, Props_Rail, Props_Link,
    Props_Decision, Props_Governed, Props_Establish, Props_Wallet, Props_Merchant, Props_Async: the properties C1 to C40, each a theorem with a closed instance; Example_Parameters: the concrete functions those instances use.

  HOW THE CODE IS READ. A struct is a record, an enum a datatype; \<open>u8\<close> to \<open>u128\<close> and the 256- and 512-bit
  integers are words of their width, a big integer is a natural number or an integer, an \<open>i128\<close> an
  integer within its bounds, with saturation and casts written out. A fixed-size array and a byte vector
  are byte lists, the array's length a condition where it matters. An ordered map is a list ascending by
  its key. A \<open>Result\<close> is a sum; an overflow under the release profile's \<open>overflow-checks\<close>, a failed
  assertion or an underflow of a big integer is an explicit panic value (\<open>Panic\<close>, \<open>Abort\<close> or \<open>None\<close>),
  and the theorems about successful operations show that it is not reached. A method that mutates its
  receiver returns the new state; a handler of the contract returns the accounts it writes and the token
  transfers and account creations it requests. Loops are structural recursion or carry a termination
  proof by a measure; the replay of the decision log is a partial function, proved to end on every file
  (\<open>replay_ends\<close>). No fuel is used. What the wallet asks of the rail may panic too (the finality time of a
  reference can overflow), and the wallet's functions hand such a panic on. The account creation of the
  contract's framework (\<open>init\<close>) and its seeds are guards of the handlers, on the account found at the address.
  A file of the decision log carries how much of it is durable: only a sync that succeeds adds to that, an opening
  does not. A lock that the code takes twice in one call (\<open>finalize\<close> of the asynchronous rail) is taken once
  here; a theorem states the run with another call in between.

  PARAMETERS. SHA-256, HKDF, Poly1305 and Ed25519 (fields of \<open>crypto_suite\<close>), Unicode normalization
  (\<open>nfc\<close>), single-shot HPKE (\<open>hpke_suite\<close>), the UTS-46 conversion of a host (\<open>uts46\<close>) and the rules of the
  public suffix list, the build feature of the placeholder governance (\<open>demo\<close>), program address and token account derivation (\<open>pda\<close>, \<open>ata\<close>) are third-party code or runtime
  services. What is assumed of them is written in the theorem that uses it: output lengths, and absence
  of collisions among the named inputs.

  WHAT IS SHOWN. Settlement: the fixed-width round is exact arithmetic, conserves value and always
  settles a consistent position; whole histories conserve. Formats: every accepted byte string is the
  one encoding of what it decodes to; signatures separate object types and cover every field;
  identifiers commit to their inputs. Channel: bounds and bookkeeping hold in every reachable state, the
  accounting is a function of the accepted slices independent of their order, batches are atomic,
  checkpoints stay valid under newer slices and commits. Contract: an entry pays out at most once and to
  the right parties, within its windows, and never stays stuck; the watermark is exactly-once by
  position; a split vault is solvent under any sequence of deposits and claims; its identifiers and
  messages are those of the core. Rail: every history accounts for all value - what is minted is held
  somewhere or was swallowed by an instance without weights, which the rail accepts - and no call panics, the
  question for finality included, while volume, clock and finality times stay in their machine domains; keyed transfers happen once; references never change and tell the
  truth about the contracts; addresses bind recipients; advances and entries behave as on the contract,
  except for late signatures, which the off-chain instance accepts. Decision log: across disk errors and
  losses of power a key is fresh at most once, and from any fresh claim on everything the log shows is for good; what
  an opening has only replayed may still be lost; a failed claim may survive on the disk in one case.
  Governance: a vector that passes pays exactly the schedule, to the pinned fund, to a listed or fallback
  recipient of an accepted version, and to the destinations their owners assert; builders and validators
  agree, and a revocation is final. Establishment: the seven messages have one spelling each, the payer's
  signature covers every term, the sealed secret arrives with the terms it was sealed under; the encoder
  of the terms checks less than the parser demands. Wallet: whatever the merchant and the layers between do, the
  slices stay within the agreed limits, unsettled meed is bounded by two rounds - not by one, as the comments
  say, since a notice of a draw lifts the halt before it is verified - and a credit stands for value distributed and final on the rail; an honest draw is credited. Merchant:
  a channel identifier is accepted once across crashes and restarts, a predecessor is imported once, an honest
  opening is established and both endpoints then hold the same channel. Asynchronous rail: a transfer lives one
  life, forks leave no trace and conserve value, as long as sources cover their debits at inclusion; the rail
  checks them only at submission, so two releases of one balance are both included and mint value, and a dropped keyed release can never be made again.

  NOT MODELLED. The JSON form of quotes and receipts, its canonicalization and the x402 envelope, and with them the
  one-shot purchases of wallet and merchant, whose checks are on those JSON objects. The carriage of the merchant
  sequences the modelled driver, channel state, settlement and rail behind HTTP; it, the stores, the clients and
  the demos are left aside.
\<close>

end
